(* ===== verification/Prelude.thy ===== *)
theory Prelude
  imports Main "HOL-Library.Word" "HOL-Library.Monad_Syntax"
begin

unbundle bit_operations_syntax

section \<open>Prelude: C integers, byte memory and shared lemmas\<close>

text \<open>
  The vocabulary every component shares.

  \<^item> Machine integers.  \<open>byte\<close>, \<open>u32\<close> and \<open>ulong\<close> are \<^typ>\<open>8 word\<close>, \<^typ>\<open>32 word\<close> and
    \<^typ>\<open>64 word\<close> (the LP64 ABIs of the Android build, arm64-v8a and x86\_64).  Signed
    quantities that only count (offsets, fill marks, sizes) are \<^typ>\<open>int\<close>; wherever the
    code narrows a value the narrowing is written out.
  \<^item> Memory.  A C object is a \<open>byte list\<close> (or a list of another element type); \<open>rd\<close> and
    \<open>wr\<close> access one element and yield \<^const>\<open>None\<close> outside the object, which is undefined
    behaviour in C.  A model function with an \<open>option\<close> result therefore returns
    \<^const>\<open>None\<close> exactly when the code would touch memory it does not own, and "never
    \<^const>\<open>None\<close>" is memory safety.
  \<^item> Allocation.  \<open>mem_env\<close> fixes, for one call, which requests \<open>malloc\<close>/\<open>realloc\<close> grant and
    the indeterminate contents of fresh memory; theorems hold for every such environment.
\<close>

type_synonym byte = "8 word"
type_synonym u32 = "32 word"
type_synonym ulong = "64 word"

definition LONG_MAX :: int where
  "LONG_MAX = 2 ^ 63 - 1"

subsection \<open>Collections of rewrite rules\<close>

named_theorems mem_simps \<open>reads and writes inside an object\<close>
named_theorems wbit_simps \<open>bits of machine words\<close>

subsection \<open>Memory\<close>

definition rd :: "'a list \<Rightarrow> int \<Rightarrow> 'a option" where
  "rd xs i = (if 0 \<le> i \<and> i < int (length xs) then Some (xs ! nat i) else None)"

definition wr :: "'a list \<Rightarrow> int \<Rightarrow> 'a \<Rightarrow> 'a list option" where
  "wr xs i x = (if 0 \<le> i \<and> i < int (length xs) then Some (xs[nat i := x]) else None)"

record mem_env =
  grant :: "int \<Rightarrow> bool"
  junk :: "nat \<Rightarrow> byte"
  junk_int :: "nat \<Rightarrow> int"

definition realloc_bytes :: "mem_env \<Rightarrow> byte list \<Rightarrow> int \<Rightarrow> byte list option" where
  "realloc_bytes E old n =
     (if grant E n
      then Some (take (nat n) old @ map (junk E) [length old ..< nat n])
      else None)"

text \<open>An environment that grants every request; witnesses use it.\<close>

abbreviation ample :: mem_env where
  "ample \<equiv> \<lparr>grant = \<lambda>n. True, junk = \<lambda>i. 0xa5, junk_int = \<lambda>i. 7\<rparr>"

text \<open>The same for an array of \<open>n\<close> integers of \<open>w\<close> bytes each.\<close>

definition realloc_ints :: "mem_env \<Rightarrow> int list \<Rightarrow> int \<Rightarrow> int \<Rightarrow> int list option" where
  "realloc_ints E old n w =
     (if grant E (n * w)
      then Some (take (nat n) old @ map (junk_int E) [length old ..< nat n])
      else None)"

text \<open>The \<open>n\<close> elements behind a pointer to element \<open>i\<close>.\<close>

definition slice :: "'a list \<Rightarrow> int \<Rightarrow> int \<Rightarrow> 'a list option" where
  "slice xs i n = (if 0 \<le> i \<and> 0 \<le> n \<and> i + n \<le> int (length xs)
                   then Some (take (nat n) (drop (nat i) xs)) else None)"

text \<open>\<open>memmove\<close>/\<open>memcpy\<close> of \<open>n\<close> elements between two objects.\<close>

definition mem_copy :: "'a list \<Rightarrow> int \<Rightarrow> 'a list \<Rightarrow> int \<Rightarrow> int \<Rightarrow> 'a list option" where
  "mem_copy dst d src s n =
     (if 0 \<le> n \<and> 0 \<le> d \<and> 0 \<le> s \<and> d + n \<le> int (length dst) \<and> s + n \<le> int (length src)
      then Some (take (nat d) dst @ take (nat n) (drop (nat s) src) @ drop (nat (d + n)) dst)
      else None)"

text \<open>Narrowing to a 32-bit \<open>int\<close>.\<close>

definition c_int :: "int \<Rightarrow> int" where
  "c_int x = signed_take_bit 31 x"

text \<open>A result of signed 32-bit arithmetic; overflow is undefined.\<close>

definition s32 :: "int \<Rightarrow> int option" where
  "s32 x = (if - (2 ^ 31) \<le> x \<and> x < 2 ^ 31 then Some x else None)"

text \<open>The low \<open>n\<close> bytes of an integer, least significant first: the loops
  \<open>b[i]=(unsigned char)(x&0xff); x>>=8;\<close> and their unrolled forms.\<close>

primrec le_bytes :: "nat \<Rightarrow> int \<Rightarrow> byte list" where
  "le_bytes 0 x = []"
| "le_bytes (Suc n) x = word_of_int x # le_bytes n (x div 256)"

text \<open>C's integer division, which truncates towards zero.\<close>

definition cdiv :: "int \<Rightarrow> int \<Rightarrow> int" where
  "cdiv a b = sgn a * sgn b * (\<bar>a\<bar> div \<bar>b\<bar>)"

lemma cdiv_nonneg [simp]: "0 \<le> a \<Longrightarrow> 0 < b \<Longrightarrow> cdiv a b = a div b"
  by (cases "a = 0") (simp_all add: cdiv_def)

lemma rd_nat [mem_simps]: "rd xs (int i) = (if i < length xs then Some (xs ! i) else None)"
  by (simp add: rd_def)

lemma wr_nat [mem_simps]: "wr xs (int i) x = (if i < length xs then Some (xs[i := x]) else None)"
  by (simp add: wr_def)

lemma rd_in: "0 \<le> i \<Longrightarrow> i < int (length xs) \<Longrightarrow> rd xs i = Some (xs ! nat i)"
  by (simp add: rd_def)

lemma wr_in: "0 \<le> i \<Longrightarrow> i < int (length xs) \<Longrightarrow> wr xs i x = Some (xs[nat i := x])"
  by (simp add: wr_def)

lemma rd_SomeD: "rd xs i = Some x \<Longrightarrow> 0 \<le> i \<and> nat i < length xs \<and> x = xs ! nat i"
  by (auto simp: rd_def split: if_splits)

lemma wr_SomeD: "wr xs i x = Some ys \<Longrightarrow> 0 \<le> i \<and> nat i < length xs \<and> ys = xs[nat i := x]"
  by (auto simp: wr_def split: if_splits)

lemma realloc_bytes_grow:
  assumes "realloc_bytes E old n = Some new" and "int (length old) \<le> n"
  shows "length new = nat n" and "i < length old \<Longrightarrow> new ! i = old ! i"
  using assms by (auto simp: realloc_bytes_def nth_append split: if_splits)

subsection \<open>Words\<close>

lemma byte_bit_bound: "bit (x :: byte) r \<Longrightarrow> r < 8"
  using bit_imp_le_length [of x r] by simp

lemma bit_ucast_byte [wbit_simps]:
  "bit (ucast (w :: 'a::len word) :: byte) r \<longleftrightarrow> r < 8 \<and> bit w r"
  by (auto simp: bit_simps dest: bit_imp_le_length)

lemma mem_copy_whole:
  "d + length src \<le> length dst \<Longrightarrow>
   mem_copy dst (int d) src 0 (int (length src)) = Some (take d dst @ src @ drop (d + length src) dst)"
  by (simp add: mem_copy_def nat_add_distrib)

subsection \<open>Little-endian fields\<close>

lemma length_le_bytes [simp]: "length (le_bytes n x) = n"
  by (induction n arbitrary: x) simp_all

lemma bit_le_bytes: "k < n \<Longrightarrow> m < 8 \<Longrightarrow> bit (le_bytes n x ! k) m = bit x (8 * k + m)"
proof (induction n arbitrary: x k)
  case (Suc n)
  show ?case
  proof (cases k)
    case 0
    then show ?thesis using Suc.prems by (simp add: bit_word_of_int_iff)
  next
    case (Suc j)
    have "x div 256 = drop_bit 8 x" by (simp add: drop_bit_eq_div)
    then show ?thesis using Suc.prems Suc.IH [of j "x div 256"] Suc by (simp add: bit_drop_bit_eq add.assoc)
  qed
qed simp

lemma sint_u32_of_int: "sint (word_of_int x :: u32) = c_int x"
  by (simp add: c_int_def signed_of_int)

lemma c_int_id: "- (2 ^ 31) \<le> x \<Longrightarrow> x < 2 ^ 31 \<Longrightarrow> c_int x = x"
  by (simp add: c_int_def signed_take_bit_int_eq_self)

lemma sint_ulong_of_int: "sint (word_of_int x :: ulong) = signed_take_bit 63 x"
  by (simp add: signed_of_int)

end
