(* ===== verification/Ogg_Bitpack.thy ===== *)
theory Ogg_Bitpack
  imports Prelude
begin

unbundle bit_operations_syntax

section \<open>Ogg bit packing (opus/ogg/bitwise.c)\<close>

text \<open>
  \<open>bitwise.c\<close> packs fields of up to 32 bits into a growing byte buffer and reads them back, in two
  bit orders: \<open>oggpack_*\<close> fills each byte from its least significant bit, \<open>oggpackB_*\<close> from its most
  significant one.  The record mirrors \<open>oggpack_buffer\<close>; \<open>ptr\<close> is the offset of the C pointer in
  \<open>buffer\<close>, \<^const>\<open>None\<close> for \<open>NULL\<close>.  A result \<^const>\<open>None\<close> means that the C would access memory
  outside the buffer (or through \<open>NULL\<close>).  Allocation goes through a \<^typ>\<open>mem_env\<close>.

  After the definitions come: the two layouts as bit streams (\<open>written\<close>, \<open>remaining\<close>), the laws of
  one write and one read, the locales \<open>bit_packer\<close> and \<open>block_packer\<close> that carry whole sequences of
  fields and block copies for either order, and the properties.
\<close>

subsection \<open>State and tables\<close>

record oggpack_buffer =
  endbyte :: int
  endbit :: int
  buffer :: "byte list option"
  ptr :: "int option"
  storage :: int

definition BUFFER_INCREMENT :: int where
  "BUFFER_INCREMENT = 256"

definition ogg_mask :: "ulong list" where
  "ogg_mask =
    [0x00000000, 0x00000001, 0x00000003, 0x00000007, 0x0000000f,
     0x0000001f, 0x0000003f, 0x0000007f, 0x000000ff, 0x000001ff,
     0x000003ff, 0x000007ff, 0x00000fff, 0x00001fff, 0x00003fff,
     0x00007fff, 0x0000ffff, 0x0001ffff, 0x0003ffff, 0x0007ffff,
     0x000fffff, 0x001fffff, 0x003fffff, 0x007fffff, 0x00ffffff,
     0x01ffffff, 0x03ffffff, 0x07ffffff, 0x0fffffff, 0x1fffffff,
     0x3fffffff, 0x7fffffff, 0xffffffff]"

definition ogg_mask8B :: "byte list" where
  "ogg_mask8B = [0x00, 0x80, 0xc0, 0xe0, 0xf0, 0xf8, 0xfc, 0xfe, 0xff]"

definition oggpack_zero :: oggpack_buffer where
  "oggpack_zero = \<lparr>endbyte = 0, endbit = 0, buffer = None, ptr = None, storage = 0\<rparr>"

text \<open>\<open>b->ptr[k]\<close> as an rvalue and as an lvalue; \<open>ptr\<close> is the offset of the C pointer in
  \<open>buffer\<close>.\<close>

definition pget :: "oggpack_buffer \<Rightarrow> int \<Rightarrow> byte option" where
  "pget b k = do { buf \<leftarrow> buffer b; p \<leftarrow> ptr b; rd buf (p + k) }"

definition pset :: "oggpack_buffer \<Rightarrow> int \<Rightarrow> byte \<Rightarrow> oggpack_buffer option" where
  "pset b k x = do { buf \<leftarrow> buffer b; p \<leftarrow> ptr b; buf' \<leftarrow> wr buf (p + k) x;
                     Some (b\<lparr>buffer := Some buf'\<rparr>) }"

subsection \<open>Writing\<close>

definition oggpack_writeinit :: "mem_env \<Rightarrow> oggpack_buffer option" where
  "oggpack_writeinit E = do {
     buf \<leftarrow> realloc_bytes E [] BUFFER_INCREMENT;
     buf' \<leftarrow> wr buf 0 0;
     Some (oggpack_zero\<lparr>buffer := Some buf', ptr := Some 0, storage := BUFFER_INCREMENT\<rparr>) }"

definition oggpack_writecheck :: "oggpack_buffer \<Rightarrow> int" where
  "oggpack_writecheck b = (if ptr b = None \<or> storage b = 0 then -1 else 0)"

definition oggpack_writeclear :: "oggpack_buffer \<Rightarrow> oggpack_buffer" where
  "oggpack_writeclear b = oggpack_zero"

definition oggpack_writetrunc :: "oggpack_buffer \<Rightarrow> int \<Rightarrow> oggpack_buffer option" where
  "oggpack_writetrunc b bits =
     (let bytes = bits div 8 in
      if ptr b = None then Some b
      else let bits' = bits - bytes * 8;
               b' = b\<lparr>ptr := Some bytes, endbit := bits', endbyte := bytes\<rparr> in do {
        x \<leftarrow> pget b' 0; m \<leftarrow> rd ogg_mask bits';
        pset b' 0 (x AND ucast m) })"

definition oggpackB_writetrunc :: "oggpack_buffer \<Rightarrow> int \<Rightarrow> oggpack_buffer option" where
  "oggpackB_writetrunc b bits =
     (let bytes = bits div 8 in
      if ptr b = None then Some b
      else let bits' = bits - bytes * 8;
               b' = b\<lparr>ptr := Some bytes, endbit := bits', endbyte := bytes\<rparr> in do {
        x \<leftarrow> pget b' 0; m \<leftarrow> rd ogg_mask8B bits';
        pset b' 0 (x AND m) })"

text \<open>The buffer extension both writers open with: the early \<open>return\<close>, the jump to \<open>err\<close>, or
  the buffer to go on with.\<close>

datatype expansion = Return | Err | Go oggpack_buffer

definition oggpack_expand :: "mem_env \<Rightarrow> oggpack_buffer \<Rightarrow> expansion" where
  "oggpack_expand E b =
     (if endbyte b \<ge> storage b - 4 then
        (if ptr b = None then Return
         else if storage b > LONG_MAX - BUFFER_INCREMENT then Err
         else case realloc_bytes E (case buffer b of None \<Rightarrow> [] | Some buf \<Rightarrow> buf)
                     (storage b + BUFFER_INCREMENT) of
                None \<Rightarrow> Err
              | Some ret \<Rightarrow> Go (b\<lparr>buffer := Some ret, storage := storage b + BUFFER_INCREMENT,
                                  ptr := Some (endbyte b)\<rparr>))
      else Go b)"

definition oggpack_forward :: "oggpack_buffer \<Rightarrow> int \<Rightarrow> oggpack_buffer" where
  "oggpack_forward b bits =
     b\<lparr>endbyte := endbyte b + cdiv bits 8, ptr := map_option (\<lambda>p. p + cdiv bits 8) (ptr b),
       endbit := bits mod 8\<rparr>"

definition oggpack_write :: "mem_env \<Rightarrow> oggpack_buffer \<Rightarrow> ulong \<Rightarrow> int \<Rightarrow> oggpack_buffer option" where
  "oggpack_write E b value bits =
     (if bits < 0 \<or> bits > 32 then Some (oggpack_writeclear b)
      else case oggpack_expand E b of
        Return \<Rightarrow> Some b
      | Err \<Rightarrow> Some (oggpack_writeclear b)
      | Go b \<Rightarrow> do {
          m \<leftarrow> rd ogg_mask bits;
          let value = value AND m;
          let bits = bits + endbit b;
          x \<leftarrow> pget b 0;
          b \<leftarrow> pset b 0 (x OR ucast (push_bit (nat (endbit b)) value));
          b \<leftarrow> (if bits \<ge> 8 then do {
            b \<leftarrow> pset b 1 (ucast (drop_bit (nat (8 - endbit b)) value));
            if bits \<ge> 16 then do {
              b \<leftarrow> pset b 2 (ucast (drop_bit (nat (16 - endbit b)) value));
              if bits \<ge> 24 then do {
                b \<leftarrow> pset b 3 (ucast (drop_bit (nat (24 - endbit b)) value));
                if bits \<ge> 32 then
                  (if endbit b \<noteq> 0
                   then pset b 4 (ucast (drop_bit (nat (32 - endbit b)) value))
                   else pset b 4 0)
                else Some b }
              else Some b }
            else Some b }
          else Some b);
          Some (oggpack_forward b bits) })"

definition oggpackB_write :: "mem_env \<Rightarrow> oggpack_buffer \<Rightarrow> ulong \<Rightarrow> int \<Rightarrow> oggpack_buffer option" where
  "oggpackB_write E b value bits =
     (if bits < 0 \<or> bits > 32 then Some (oggpack_writeclear b)
      else case oggpack_expand E b of
        Return \<Rightarrow> Some b
      | Err \<Rightarrow> Some (oggpack_writeclear b)
      | Go b \<Rightarrow> do {
          m \<leftarrow> rd ogg_mask bits;
          let value = push_bit (nat (32 - bits)) (value AND m);
          let bits = bits + endbit b;
          x \<leftarrow> pget b 0;
          b \<leftarrow> pset b 0 (x OR ucast (drop_bit (nat (24 + endbit b)) value));
          b \<leftarrow> (if bits \<ge> 8 then do {
            b \<leftarrow> pset b 1 (ucast (drop_bit (nat (16 + endbit b)) value));
            if bits \<ge> 16 then do {
              b \<leftarrow> pset b 2 (ucast (drop_bit (nat (8 + endbit b)) value));
              if bits \<ge> 24 then do {
                b \<leftarrow> pset b 3 (ucast (drop_bit (nat (endbit b)) value));
                if bits \<ge> 32 then
                  (if endbit b \<noteq> 0
                   then pset b 4 (ucast (push_bit (nat (8 - endbit b)) value))
                   else pset b 4 0)
                else Some b }
              else Some b }
            else Some b }
          else Some b);
          Some (oggpack_forward b bits) })"

definition oggpack_writealign :: "mem_env \<Rightarrow> oggpack_buffer \<Rightarrow> oggpack_buffer option" where
  "oggpack_writealign E b =
     (let bits = 8 - endbit b in if bits < 8 then oggpack_write E b 0 bits else Some b)"

definition oggpackB_writealign :: "mem_env \<Rightarrow> oggpack_buffer \<Rightarrow> oggpack_buffer option" where
  "oggpackB_writealign E b =
     (let bits = 8 - endbit b in if bits < 8 then oggpackB_write E b 0 bits else Some b)"

text \<open>The helper takes the writer \<open>w\<close> as a function pointer, as the C does.\<close>

fun oggpack_copy_bytes ::
  "(oggpack_buffer \<Rightarrow> ulong \<Rightarrow> int \<Rightarrow> oggpack_buffer option) \<Rightarrow> oggpack_buffer \<Rightarrow> byte list \<Rightarrow>
   int \<Rightarrow> nat \<Rightarrow> oggpack_buffer option" where
  "oggpack_copy_bytes w b src i 0 = Some b"
| "oggpack_copy_bytes w b src i (Suc n) = do {
     x \<leftarrow> rd src i; b \<leftarrow> w b (ucast x) 8; oggpack_copy_bytes w b src (i + 1) n }"

definition oggpack_copy_block :: "oggpack_buffer \<Rightarrow> byte list \<Rightarrow> int \<Rightarrow> oggpack_buffer option" where
  "oggpack_copy_block b source bytes = do {
     buf \<leftarrow> buffer b; p \<leftarrow> ptr b;
     buf \<leftarrow> mem_copy buf p source 0 bytes;
     pset (b\<lparr>buffer := Some buf, ptr := Some (p + bytes), endbyte := endbyte b + bytes\<rparr>) 0 0 }"

definition oggpack_copy_tail ::
  "(oggpack_buffer \<Rightarrow> ulong \<Rightarrow> int \<Rightarrow> oggpack_buffer option) \<Rightarrow> bool \<Rightarrow> oggpack_buffer \<Rightarrow> byte list \<Rightarrow>
   int \<Rightarrow> int \<Rightarrow> oggpack_buffer option" where
  "oggpack_copy_tail w msb b source bytes bits =
     (if bits \<noteq> 0 then do {
        x \<leftarrow> rd source bytes;
        if msb then w b (ucast (drop_bit (nat (8 - bits)) x)) bits
        else w b (ucast x) bits }
      else Some b)"

definition oggpack_writecopy_helper ::
  "mem_env \<Rightarrow> oggpack_buffer \<Rightarrow> byte list \<Rightarrow> int \<Rightarrow>
   (oggpack_buffer \<Rightarrow> ulong \<Rightarrow> int \<Rightarrow> oggpack_buffer option) \<Rightarrow> bool \<Rightarrow> oggpack_buffer option" where
  "oggpack_writecopy_helper E b source bits w msb =
     (let bytes = cdiv bits 8; bits = bits - bytes * 8 in
      if endbit b \<noteq> 0 then do {
        b \<leftarrow> oggpack_copy_bytes w b source 0 (nat bytes);
        oggpack_copy_tail w msb b source bytes bits }
      else if endbyte b + bytes + 1 \<ge> storage b then
        (if ptr b = None then Some (oggpack_writeclear b)
         else if endbyte b + bytes + BUFFER_INCREMENT > storage b then Some (oggpack_writeclear b)
         else let sz = endbyte b + bytes + BUFFER_INCREMENT in
           case realloc_bytes E (case buffer b of None \<Rightarrow> [] | Some buf \<Rightarrow> buf) sz of
             None \<Rightarrow> Some (oggpack_writeclear b)
           | Some ret \<Rightarrow> do {
               b \<leftarrow> oggpack_copy_block (b\<lparr>storage := sz, buffer := Some ret, ptr := Some (endbyte b)\<rparr>)
                     source bytes;
               oggpack_copy_tail w msb b source bytes bits })
      else do {
        b \<leftarrow> oggpack_copy_block b source bytes;
        oggpack_copy_tail w msb b source bytes bits })"

definition oggpack_writecopy ::
  "mem_env \<Rightarrow> oggpack_buffer \<Rightarrow> byte list \<Rightarrow> int \<Rightarrow> oggpack_buffer option" where
  "oggpack_writecopy E b source bits =
     oggpack_writecopy_helper E b source bits (oggpack_write E) False"

definition oggpackB_writecopy ::
  "mem_env \<Rightarrow> oggpack_buffer \<Rightarrow> byte list \<Rightarrow> int \<Rightarrow> oggpack_buffer option" where
  "oggpackB_writecopy E b source bits =
     oggpack_writecopy_helper E b source bits (oggpackB_write E) True"

definition oggpack_reset :: "oggpack_buffer \<Rightarrow> oggpack_buffer option" where
  "oggpack_reset b =
     (if ptr b = None then Some b
      else do { buf \<leftarrow> buffer b; buf \<leftarrow> wr buf 0 0;
                Some (b\<lparr>ptr := Some 0, buffer := Some buf, endbit := 0, endbyte := 0\<rparr>) })"

subsection \<open>Reading\<close>

text \<open>The parameter \<open>bytes\<close> is an \<open>int\<close>, so a \<open>long\<close> handed over is narrowed to 32 bits.\<close>

definition oggpack_readinit :: "byte list \<Rightarrow> int \<Rightarrow> oggpack_buffer" where
  "oggpack_readinit buf bytes =
     oggpack_zero\<lparr>buffer := Some buf, ptr := Some 0, storage := c_int bytes\<rparr>"

definition oggpack_overflow :: "oggpack_buffer \<Rightarrow> oggpack_buffer" where
  "oggpack_overflow b = b\<lparr>ptr := None, endbyte := storage b, endbit := 1\<rparr>"

text \<open>The cascade that collects the up to five bytes a field touches (the same lines in
  \<open>look\<close> and \<open>read\<close>).  Each \<open>ptr[k]<<s\<close> is a 32-bit \<open>int\<close> shift whose result is sign-extended
  into the 64-bit accumulator.\<close>

definition oggpack_gather :: "oggpack_buffer \<Rightarrow> int \<Rightarrow> ulong option" where
  "oggpack_gather b bits = do {
     let e = nat (endbit b);
     x0 \<leftarrow> pget b 0;
     let ret = drop_bit e (ucast x0 :: ulong);
     if bits > 8 then do {
       x1 \<leftarrow> pget b 1;
       let ret = ret OR scast (push_bit (8 - e) (ucast x1 :: u32));
       if bits > 16 then do {
         x2 \<leftarrow> pget b 2;
         let ret = ret OR scast (push_bit (16 - e) (ucast x2 :: u32));
         if bits > 24 then do {
           x3 \<leftarrow> pget b 3;
           let ret = ret OR scast (push_bit (24 - e) (ucast x3 :: u32));
           if bits > 32 \<and> e \<noteq> 0 then do {
             x4 \<leftarrow> pget b 4;
             Some (ret OR scast (push_bit (32 - e) (ucast x4 :: u32))) }
           else Some ret }
         else Some ret }
       else Some ret }
     else Some ret }"

definition oggpackB_gather :: "oggpack_buffer \<Rightarrow> int \<Rightarrow> ulong option" where
  "oggpackB_gather b bits = do {
     let e = nat (endbit b);
     x0 \<leftarrow> pget b 0;
     let ret = (scast (push_bit (24 + e) (ucast x0 :: u32)) :: ulong);
     if bits > 8 then do {
       x1 \<leftarrow> pget b 1;
       let ret = ret OR scast (push_bit (16 + e) (ucast x1 :: u32));
       if bits > 16 then do {
         x2 \<leftarrow> pget b 2;
         let ret = ret OR scast (push_bit (8 + e) (ucast x2 :: u32));
         if bits > 24 then do {
           x3 \<leftarrow> pget b 3;
           let ret = ret OR scast (push_bit e (ucast x3 :: u32));
           if bits > 32 \<and> e \<noteq> 0 then do {
             x4 \<leftarrow> pget b 4;
             Some (ret OR ucast (drop_bit (8 - e) x4)) }
           else Some ret }
         else Some ret }
       else Some ret }
     else Some ret }"

definition oggpack_look :: "oggpack_buffer \<Rightarrow> int \<Rightarrow> int option" where
  "oggpack_look b bits =
     (if bits < 0 \<or> bits > 32 then Some (- 1)
      else do {
        m \<leftarrow> rd ogg_mask bits;
        let bits = bits + endbit b;
        if endbyte b \<ge> storage b - 4 \<and> endbyte b > storage b - (bits + 7) div 8 then Some (- 1)
        else if endbyte b \<ge> storage b - 4 \<and> bits = 0 then Some 0
        else do { ret \<leftarrow> oggpack_gather b bits; Some (sint (m AND ret)) } })"

definition oggpackB_look :: "oggpack_buffer \<Rightarrow> int \<Rightarrow> int option" where
  "oggpackB_look b bits =
     (let m = 32 - bits in
      if m < 0 \<or> m > 32 then Some (- 1)
      else do {
        let bits = bits + endbit b;
        if endbyte b \<ge> storage b - 4 \<and> endbyte b > storage b - (bits + 7) div 8 then Some (- 1)
        else if endbyte b \<ge> storage b - 4 \<and> bits = 0 then Some 0
        else do { ret \<leftarrow> oggpackB_gather b bits;
                  Some (sint (drop_bit (nat ((m + 1) div 2))
                                (drop_bit (nat (m div 2)) (ret AND 0xffffffff)))) } })"

definition oggpack_look1 :: "oggpack_buffer \<Rightarrow> int option" where
  "oggpack_look1 b =
     (if endbyte b \<ge> storage b then Some (- 1)
      else do { x \<leftarrow> pget b 0; Some (uint (drop_bit (nat (endbit b)) x AND 1)) })"

definition oggpackB_look1 :: "oggpack_buffer \<Rightarrow> int option" where
  "oggpackB_look1 b =
     (if endbyte b \<ge> storage b then Some (- 1)
      else do { x \<leftarrow> pget b 0; Some (uint (drop_bit (nat (7 - endbit b)) x AND 1)) })"

definition oggpack_adv :: "oggpack_buffer \<Rightarrow> int \<Rightarrow> oggpack_buffer" where
  "oggpack_adv b bits =
     (let bits = bits + endbit b in
      if endbyte b > storage b - (bits + 7) div 8 then oggpack_overflow b
      else oggpack_forward b bits)"

definition oggpack_adv1 :: "oggpack_buffer \<Rightarrow> oggpack_buffer" where
  "oggpack_adv1 b =
     (if endbit b + 1 > 7
      then b\<lparr>endbit := 0, ptr := map_option (\<lambda>p. p + 1) (ptr b), endbyte := endbyte b + 1\<rparr>
      else b\<lparr>endbit := endbit b + 1\<rparr>)"

definition oggpack_read :: "oggpack_buffer \<Rightarrow> int \<Rightarrow> (oggpack_buffer \<times> int) option" where
  "oggpack_read b bits =
     (if bits < 0 \<or> bits > 32 then Some (oggpack_overflow b, - 1)
      else do {
        m \<leftarrow> rd ogg_mask bits;
        let bits = bits + endbit b;
        if endbyte b \<ge> storage b - 4 \<and> endbyte b > storage b - (bits + 7) div 8
        then Some (oggpack_overflow b, - 1)
        else if endbyte b \<ge> storage b - 4 \<and> bits = 0 then Some (b, 0)
        else do { ret \<leftarrow> oggpack_gather b bits;
                  Some (oggpack_forward b bits, sint (ret AND m)) } })"

definition oggpackB_read :: "oggpack_buffer \<Rightarrow> int \<Rightarrow> (oggpack_buffer \<times> int) option" where
  "oggpackB_read b bits =
     (let m = 32 - bits in
      if m < 0 \<or> m > 32 then Some (oggpack_overflow b, - 1)
      else do {
        let bits = bits + endbit b;
        if endbyte b + 4 \<ge> storage b \<and> endbyte b > storage b - (bits + 7) div 8
        then Some (oggpack_overflow b, - 1)
        else if endbyte b + 4 \<ge> storage b \<and> bits = 0 then Some (b, 0)
        else do { ret \<leftarrow> oggpackB_gather b bits;
                  Some (oggpack_forward b bits,
                        sint (drop_bit (nat ((m + 1) div 2))
                                (drop_bit (nat (m div 2)) (ret AND 0xffffffff)))) } })"

definition oggpack_read1 :: "oggpack_buffer \<Rightarrow> (oggpack_buffer \<times> int) option" where
  "oggpack_read1 b =
     (if endbyte b \<ge> storage b then Some (oggpack_overflow b, - 1)
      else do { x \<leftarrow> pget b 0;
                Some (oggpack_adv1 b, uint (drop_bit (nat (endbit b)) x AND 1)) })"

definition oggpackB_read1 :: "oggpack_buffer \<Rightarrow> (oggpack_buffer \<times> int) option" where
  "oggpackB_read1 b =
     (if endbyte b \<ge> storage b then Some (oggpack_overflow b, - 1)
      else do { x \<leftarrow> pget b 0;
                Some (oggpack_adv1 b, uint (drop_bit (nat (7 - endbit b)) x AND 1)) })"

definition oggpack_bytes :: "oggpack_buffer \<Rightarrow> int" where
  "oggpack_bytes b = endbyte b + cdiv (endbit b + 7) 8"

definition oggpack_bits :: "oggpack_buffer \<Rightarrow> int" where
  "oggpack_bits b = endbyte b * 8 + endbit b"

definition oggpack_get_buffer :: "oggpack_buffer \<Rightarrow> byte list option" where
  "oggpack_get_buffer b = buffer b"

subsection \<open>Buffers as bit streams\<close>

lemma ogg_mask_table: "ogg_mask = map Bit_Operations.mask [0..<33]"
  by code_simp

lemma rd_ogg_mask [simp]: "n \<le> 32 \<Longrightarrow> rd ogg_mask (int n) = Some (Bit_Operations.mask n)"
  by (simp add: ogg_mask_table mem_simps del: upt_Suc)

definition pack_at :: "oggpack_buffer \<Rightarrow> byte list \<Rightarrow> nat \<Rightarrow> nat \<Rightarrow> bool" where
  "pack_at b buf p e \<longleftrightarrow>
     buffer b = Some buf \<and> ptr b = Some (int p) \<and> endbyte b = int p \<and> endbit b = int e \<and> e < 8"

lemma pget_at:
  "pack_at b buf p e \<Longrightarrow> p + k < length buf \<Longrightarrow> pget b (int k) = Some (buf ! (p + k))"
  by (simp add: pack_at_def pget_def rd_def nat_add_distrib)

lemma pset_first:
  "pack_at b buf p e \<Longrightarrow> p < length buf \<Longrightarrow> pset b 0 x = Some (b\<lparr>buffer := Some (buf[p := x])\<rparr>)"
  by (simp add: pack_at_def pset_def wr_def)

lemma pset_next:
  "pack_at b buf p e \<Longrightarrow> p + k < length buf' \<Longrightarrow>
   pset (b\<lparr>buffer := Some buf'\<rparr>) (int k) x = Some (b\<lparr>buffer := Some (buf'[p + k := x])\<rparr>)"
  by (simp add: pack_at_def pset_def wr_def nat_add_distrib)

lemmas pget_num = pget_at [where k = 0, simplified] pget_at [where k = 1, simplified]
  pget_at [where k = "numeral w" for w, simplified]
lemmas pset_num = pset_first pset_next [where k = 1, simplified]
  pset_next [where k = "numeral w" for w, simplified]

text \<open>The bytes a writer leaves: byte \<open>k\<close> of the field is \<open>f k\<close>, for the \<open>m + 1\<close> bytes touched.\<close>

definition stored :: "byte list \<Rightarrow> nat \<Rightarrow> nat \<Rightarrow> (nat \<Rightarrow> byte) \<Rightarrow> byte list" where
  "stored buf p m f = map (\<lambda>j. if p \<le> j \<and> j \<le> p + m then f (j - p) else buf ! j) [0..<length buf]"

lemma length_stored [simp]: "length (stored buf p m f) = length buf"
  by (simp add: stored_def)

lemma stored_nth:
  "j < length buf \<Longrightarrow> stored buf p m f ! j = (if p \<le> j \<and> j \<le> p + m then f (j - p) else buf ! j)"
  by (simp add: stored_def)

definition lsb_byte :: "byte list \<Rightarrow> nat \<Rightarrow> nat \<Rightarrow> ulong \<Rightarrow> nat \<Rightarrow> byte" where
  "lsb_byte buf p e v k =
     (if k = 0 then buf ! p OR ucast (push_bit e v) else ucast (drop_bit (8 * k - e) v))"

lemma stored_upd0: "p < length buf \<Longrightarrow> buf[p := f 0] = stored buf p 0 f"
  by (rule nth_equalityI) (auto simp: stored_nth nth_list_update)

lemma stored_upd:
  "p + Suc k < length buf \<Longrightarrow> (stored buf p k f)[p + Suc k := f (Suc k)] = stored buf p (Suc k) f"
  by (rule nth_equalityI) (auto simp: stored_nth nth_list_update)

lemma stored_upds:
  "p + 1 < length buf \<Longrightarrow> (stored buf p 0 f)[Suc p := f (Suc 0)] = stored buf p (Suc 0) f"
  "p + 2 < length buf \<Longrightarrow> (stored buf p (Suc 0) f)[Suc (Suc p) := f 2] = stored buf p 2 f"
  "p + 3 < length buf \<Longrightarrow> (stored buf p 2 f)[p + 3 := f 3] = stored buf p 3 f"
  "p + 4 < length buf \<Longrightarrow> (stored buf p 3 f)[p + 4 := f 4] = stored buf p 4 f"
  using stored_upd [of p 0 buf f] stored_upd [of p 1 buf f] stored_upd [of p 2 buf f]
    stored_upd [of p 3 buf f] by (simp_all add: eval_nat_numeral)

lemma oggpack_write_go:
  assumes at: "pack_at b buf p e" and st: "storage b = int (length buf)"
    and room: "p + 4 < length buf" and n: "n \<le> 32"
  shows "oggpack_write E b v (int n) =
     Some (oggpack_forward (b\<lparr>buffer := Some (stored buf p ((n + e) div 8) (lsb_byte buf p e (take_bit n v)))\<rparr>)
             (int (n + e)))"
proof -
  define vm where "vm = take_bit n v"
  define f where "f = lsb_byte buf p e vm"
  have ex: "oggpack_expand E b = Go b"
    using at st room by (simp add: oggpack_expand_def pack_at_def)
  have e: "endbit b = int e" "e < 8" using at by (auto simp: pack_at_def)
  have vm: "v AND Bit_Operations.mask n = vm" by (simp add: vm_def take_bit_eq_mask)
  have f0: "buf ! p OR ucast (push_bit e vm) = f 0" by (simp add: f_def lsb_byte_def)
  have fk: "ucast (drop_bit (8 - e) vm) = f 1" "ucast (drop_bit (16 - e) vm) = f 2"
     "ucast (drop_bit (24 - e) vm) = f 3" "ucast (drop_bit (32 - e) vm) = f 4"
    by (simp_all add: f_def lsb_byte_def)
  have f4: "e = 0 \<Longrightarrow> f 4 = 0" using n
    by (simp add: f_def lsb_byte_def vm_def drop_bit_take_bit)
  have f40: "e = 0 \<Longrightarrow> (stored buf p 3 f)[p + 4 := 0] = stored buf p 4 f"
    using f4 stored_upds(4) [of p buf f] room by simp
  have nt: "nat (8 - int e) = 8 - e" "nat (16 - int e) = 16 - e"
    "nat (24 - int e) = 24 - e" "nat (32 - int e) = 32 - e" using e by auto
  have m: "(n + e) div 8 = (if n + e < 8 then 0 else if n + e < 16 then 1 else if n + e < 24 then 2
            else if n + e < 32 then 3 else 4)" using n e by auto
  show ?thesis unfolding vm_def[symmetric] f_def[symmetric] m
    using e n room f4 f40
    by (auto simp: oggpack_write_def ex pget_num[OF at] pset_num[OF at] vm
        f0 fk nt stored_upd0 stored_upds)
qed

definition msb_byte :: "byte list \<Rightarrow> nat \<Rightarrow> nat \<Rightarrow> ulong \<Rightarrow> nat \<Rightarrow> byte" where
  "msb_byte buf p e w k =
     (if k = 0 then buf ! p OR ucast (drop_bit (24 + e) w)
      else if k < 4 then ucast (drop_bit (24 + e - 8 * k) w)
      else ucast (push_bit (8 - e) w))"

lemma oggpackB_write_go:
  assumes at: "pack_at b buf p e" and st: "storage b = int (length buf)"
    and room: "p + 4 < length buf" and n: "n \<le> 32"
  shows "oggpackB_write E b v (int n) =
     Some (oggpack_forward (b\<lparr>buffer :=
         Some (stored buf p ((n + e) div 8) (msb_byte buf p e (push_bit (32 - n) (take_bit n v))))\<rparr>)
             (int (n + e)))"
proof -
  define vm where "vm = take_bit n v"
  define w where "w = push_bit (32 - n) vm"
  define f where "f = msb_byte buf p e w"
  have ex: "oggpack_expand E b = Go b"
    using at st room by (simp add: oggpack_expand_def pack_at_def)
  have e: "endbit b = int e" "e < 8" using at by (auto simp: pack_at_def)
  have vm: "v AND Bit_Operations.mask n = vm" by (simp add: vm_def take_bit_eq_mask)
  have w: "push_bit (nat (32 - int n)) vm = w"
    using n by (simp add: w_def nat_diff_distrib)
  have f0: "buf ! p OR ucast (drop_bit (24 + e) w) = f 0" by (simp add: f_def msb_byte_def)
  have fk: "ucast (drop_bit (16 + e) w) = f 1" "ucast (drop_bit (8 + e) w) = f 2"
     "ucast (drop_bit e w) = f 3" "ucast (push_bit (8 - e) w) = f 4"
    by (simp_all add: f_def msb_byte_def)
  have f4: "e = 0 \<Longrightarrow> f 4 = 0"
    unfolding f_def msb_byte_def by (auto intro!: bit_word_eqI simp: bit_simps)
  have f40: "e = 0 \<Longrightarrow> (stored buf p 3 f)[p + 4 := 0] = stored buf p 4 f"
    using f4 stored_upds(4) [of p buf f] room by simp
  have nt: "nat (8 - int e) = 8 - e" "nat (24 + int e) = 24 + e"
    "nat (16 + int e) = 16 + e" "nat (8 + int e) = 8 + e" using e by auto
  have m: "(n + e) div 8 = (if n + e < 8 then 0 else if n + e < 16 then 1 else if n + e < 24 then 2
            else if n + e < 32 then 3 else 4)" using n e by auto
  show ?thesis unfolding vm_def[symmetric] w_def[symmetric] f_def[symmetric] m
    using e n room f4 f40
    by (auto simp: oggpackB_write_def ex pget_num[OF at] pset_num[OF at] vm w
        f0 fk nt stored_upd0 stored_upds simp del: push_bit_and)
qed

definition lsb_bit :: "byte list \<Rightarrow> nat \<Rightarrow> bool" where
  "lsb_bit buf i = bit (buf ! (i div 8)) (i mod 8)"

definition msb_bit :: "byte list \<Rightarrow> nat \<Rightarrow> bool" where
  "msb_bit buf i = bit (buf ! (i div 8)) (7 - i mod 8)"

lemma lsb_bit_8: "r < 8 \<Longrightarrow> lsb_bit buf (8 * a + r) = bit (buf ! a) r"
  by (simp add: lsb_bit_def)

lemma msb_bit_8: "r < 8 \<Longrightarrow> msb_bit buf (8 * a + r) = bit (buf ! a) (7 - r)"
  by (simp add: msb_bit_def)

lemma lsb_byte_bit0:
  "r < 8 \<Longrightarrow> bit (lsb_byte buf p e (take_bit n v) 0) r \<longleftrightarrow>
     bit (buf ! p) r \<or> e \<le> r \<and> r - e < n \<and> bit v (r - e)"
  by (simp add: lsb_byte_def bit_simps wbit_simps)

lemma lsb_byte_bit:
  "e < 8 \<Longrightarrow> 0 < k \<Longrightarrow> r < 8 \<Longrightarrow> bit (lsb_byte buf p e (take_bit n v) k) r \<longleftrightarrow>
     8 * k + r - e < n \<and> bit v (8 * k + r - e)"
  by (simp add: lsb_byte_def bit_simps wbit_simps)

lemma bit_field_msb:
  assumes "n \<le> 32" and "j < 32"
  shows "bit (push_bit (32 - n) (take_bit n (v :: ulong))) (31 - j) \<longleftrightarrow> j < n \<and> bit v (n - 1 - j)"
proof (cases "j < n")
  case True
  then have "31 - j - (32 - n) = n - 1 - j" using assms by simp
  then show ?thesis using assms True by (auto simp: bit_simps)
next
  case False
  then show ?thesis using assms by (auto simp: bit_simps)
qed

lemma seven_minus [simp]: "7 - r < (8::nat)"
  by simp

lemma msb_byte_bit0:
  assumes "n \<le> 32" and "r < 8" and "e < 8"
  shows "bit (msb_byte buf p e (push_bit (32 - n) (take_bit n v)) 0) (7 - r) \<longleftrightarrow>
     bit (buf ! p) (7 - r) \<or> e \<le> r \<and> r - e < n \<and> bit v (n - 1 - (r - e))"
proof (cases "e \<le> r")
  case True
  then have "24 + e + (7 - r) = 31 - (r - e)" using assms by simp
  then show ?thesis using assms True bit_field_msb [of n "r - e" v]
    by (simp add: msb_byte_def bit_or_iff wbit_simps bit_drop_bit_eq)
next
  case False
  then show ?thesis using assms
    by (auto simp: msb_byte_def bit_or_iff wbit_simps bit_simps)
qed

lemma msb_byte_bit:
  assumes "n \<le> 32" and "r < 8" and "e < 8" and "0 < k" and "k \<le> 4"
  shows "bit (msb_byte buf p e (push_bit (32 - n) (take_bit n v)) k) (7 - r) \<longleftrightarrow>
     8 * k + r - e < n \<and> bit v (n - 1 - (8 * k + r - e))"
proof (cases "k = 4")
  case False
  then have "24 + e - 8 * k + (7 - r) = 31 - (8 * k + r - e)" "8 * k + r - e < 32" using assms by simp_all
  then show ?thesis using assms False bit_field_msb [of n "8 * k + r - e" v]
    by (simp add: msb_byte_def wbit_simps bit_drop_bit_eq)
next
  case True
  show ?thesis
  proof (cases "r < e")
    case r: True
    then have "7 - r - (8 - e) = 31 - (32 + r - e)" "32 + r - e < 32" using assms by simp_all
    then show ?thesis using assms True r bit_field_msb [of n "32 + r - e" v]
      by (auto simp: msb_byte_def wbit_simps bit_push_bit_iff [of "8 - e"] simp del: push_bit_push_bit)
  next
    case False
    then show ?thesis using assms True
      by (auto simp: msb_byte_def wbit_simps bit_push_bit_iff [of "8 - e"] simp del: push_bit_push_bit)
  qed
qed

text \<open>Both stored layouts read back as one continued bit stream.\<close>

lemma stored_stream:
  assumes e: "e < 8" and len: "p + m < length buf" and i: "i < 8 * (p + m + 1)"
    and pos: "\<And>bs a r. r < 8 \<Longrightarrow> sbit bs (8 * a + r) = bit (bs ! a) (g r)"
    and f0: "\<And>r. r < 8 \<Longrightarrow> bit (f 0) (g r) \<longleftrightarrow> bit (buf ! p) (g r) \<or> e \<le> r \<and> F (r - e)"
    and fk: "\<And>k r. 0 < k \<Longrightarrow> k \<le> m \<Longrightarrow> r < 8 \<Longrightarrow> bit (f k) (g r) \<longleftrightarrow> F (8 * k + r - e)"
    and clean: "\<And>i. 8 * p + e \<le> i \<Longrightarrow> i < 8 * p + 8 \<Longrightarrow> \<not> sbit buf i"
  shows "sbit (stored buf p m f) i = (if i < 8 * p + e then sbit buf i else F (i - (8 * p + e)))"
proof -
  define a r where "a = i div 8" and "r = i mod 8"
  have ir: "i = 8 * a + r" "r < 8" by (simp_all add: a_def r_def)
  have a: "a \<le> p + m" using i ir by simp
  consider "a < p" | "a = p" | k where "a = p + k" "0 < k" "k \<le> m"
    using a that(3) [of "a - p"] by (cases "a \<le> p") fastforce+
  then show ?thesis
  proof cases
    case 1
    then show ?thesis using a len ir by (simp add: pos stored_nth)
  next
    case 2
    then have "e \<le> r \<Longrightarrow> \<not> bit (buf ! p) (g r)" using clean [of i] ir by (simp add: pos)
    then show ?thesis using 2 len ir by (auto simp: pos stored_nth f0)
  next
    case 3
    then have "8 * k + r - e = i - (8 * p + e)" "\<not> i < 8 * p + e" using ir e by simp_all
    moreover have "sbit (stored buf p m f) i = bit (stored buf p m f ! a) (g r)" using ir pos by simp
    ultimately show ?thesis using 3 len ir by (simp add: stored_nth fk)
  qed
qed

lemma stored_lsb:
  assumes "e < 8" "p + m < length buf" "i < 8 * (p + m + 1)"
    "\<And>i. 8 * p + e \<le> i \<Longrightarrow> i < 8 * p + 8 \<Longrightarrow> \<not> lsb_bit buf i"
  shows "lsb_bit (stored buf p m (lsb_byte buf p e (take_bit n v))) i =
     (if i < 8 * p + e then lsb_bit buf i else i - (8 * p + e) < n \<and> bit v (i - (8 * p + e)))"
  by (rule stored_stream [where g = "\<lambda>r. r" and F = "\<lambda>j. j < n \<and> bit v j"])
    (use assms in \<open>simp_all add: lsb_bit_8 lsb_byte_bit0 lsb_byte_bit\<close>)

lemma stored_msb:
  assumes "e < 8" "p + m < length buf" "i < 8 * (p + m + 1)" "m \<le> 4" "n \<le> 32"
    "\<And>i. 8 * p + e \<le> i \<Longrightarrow> i < 8 * p + 8 \<Longrightarrow> \<not> msb_bit buf i"
  shows "msb_bit (stored buf p m (msb_byte buf p e (push_bit (32 - n) (take_bit n v)))) i =
     (if i < 8 * p + e then msb_bit buf i
      else i - (8 * p + e) < n \<and> bit v (n - 1 - (i - (8 * p + e))))"
  by (rule stored_stream [where g = "\<lambda>r. 7 - r" and F = "\<lambda>j. j < n \<and> bit v (n - 1 - j)"])
    (use assms in \<open>simp_all add: msb_bit_8 msb_byte_bit0 msb_byte_bit\<close>)

subsection \<open>Writers and readers as bit streams\<close>

definition writer :: "(byte list \<Rightarrow> nat \<Rightarrow> bool) \<Rightarrow> oggpack_buffer \<Rightarrow> bool" where
  "writer sbit b \<longleftrightarrow> (\<exists>buf p e. pack_at b buf p e \<and> storage b = int (length buf) \<and> p < length buf \<and>
     (\<forall>i. 8 * p + e \<le> i \<longrightarrow> i < 8 * p + 8 \<longrightarrow> \<not> sbit buf i))"

definition reader :: "oggpack_buffer \<Rightarrow> bool" where
  "reader b \<longleftrightarrow> (\<exists>buf p e. pack_at b buf p e \<and> storage b \<le> int (length buf) \<and>
     8 * int p + int e \<le> 8 * storage b)"

definition written :: "(byte list \<Rightarrow> nat \<Rightarrow> bool) \<Rightarrow> oggpack_buffer \<Rightarrow> bool list" where
  "written sbit b = (case buffer b of None \<Rightarrow> []
     | Some buf \<Rightarrow> map (sbit buf) [0..<nat (oggpack_bits b)])"

definition remaining :: "(byte list \<Rightarrow> nat \<Rightarrow> bool) \<Rightarrow> oggpack_buffer \<Rightarrow> bool list" where
  "remaining sbit b = (case buffer b of None \<Rightarrow> []
     | Some buf \<Rightarrow> map (sbit buf) [nat (oggpack_bits b)..<nat (8 * storage b)])"

lemma oggpack_bits_at: "pack_at b buf p e \<Longrightarrow> nat (oggpack_bits b) = 8 * p + e"
  by (simp add: pack_at_def oggpack_bits_def nat_add_distrib nat_mult_distrib mult.commute)

lemma oggpack_expand_cases:
  assumes "pack_at b buf p e" and "storage b = int (length buf)" and "p < length buf"
  obtains (err) "oggpack_expand E b = Err"
  | (go) b' buf' where "oggpack_expand E b = Go b'" "oggpack_expand E b' = Go b'"
      "pack_at b' buf' p e" "storage b' = int (length buf')" "p + 4 < length buf'"
      "length buf \<le> length buf'" "length buf' \<le> length buf + 256" "\<And>i. i < length buf \<Longrightarrow> buf' ! i = buf ! i"
proof (cases "p + 4 < length buf")
  case True
  then have "oggpack_expand E b = Go b" using assms by (simp add: oggpack_expand_def pack_at_def)
  with go [of b buf] assms True show ?thesis by simp
next
  case full: False
  show ?thesis
  proof (cases "oggpack_expand E b = Err")
    case True
    then show ?thesis by (rule err)
  next
    case False
    then obtain new where new: "realloc_bytes E buf (storage b + BUFFER_INCREMENT) = Some new"
      and ex: "oggpack_expand E b =
        Go (b\<lparr>buffer := Some new, storage := storage b + BUFFER_INCREMENT, ptr := Some (endbyte b)\<rparr>)"
      (is "_ = Go ?b'")
      using assms full by (auto simp: oggpack_expand_def pack_at_def split: if_splits option.splits)
    have len: "length new = length buf + 256" and keep: "\<And>i. i < length buf \<Longrightarrow> new ! i = buf ! i"
      using realloc_bytes_grow [OF new] assms(2) by (simp_all add: BUFFER_INCREMENT_def)
    have at: "pack_at ?b' new p e" using assms(1) by (simp add: pack_at_def)
    have st: "storage ?b' = int (length new)" using len assms(2) by (simp add: BUFFER_INCREMENT_def)
    have "oggpack_expand E ?b' = Go ?b'"
      using assms st len at by (simp add: oggpack_expand_def pack_at_def BUFFER_INCREMENT_def)
    then show ?thesis using go [OF ex _ at st] len keep assms(3) by simp
  qed
qed

lemma pack_at_forward:
  assumes "pack_at b buf p e"
  shows "pack_at (oggpack_forward (b\<lparr>buffer := Some buf'\<rparr>) (int k)) buf' (p + k div 8) (k mod 8)"
  using assms by (simp add: pack_at_def oggpack_forward_def zdiv_int zmod_int)

lemma oggpack_forward_frame [simp]:
  "storage (oggpack_forward b k) = storage b" "buffer (oggpack_forward b k) = buffer b"
  by (simp_all add: oggpack_forward_def)

text \<open>One writer law for both bit orders: a field of \<open>n\<close> bits is appended to the stream, or the
  buffer is cleared because it could not grow.\<close>

lemma write_law_gen:
  assumes w: "writer sbit b" and n: "n \<le> 32"
    and same: "\<And>b b'. oggpack_expand E b = Go b' \<Longrightarrow> oggpack_expand E b' = Go b' \<Longrightarrow>
                 wfun E b v (int n) = wfun E b' v (int n)"
    and err: "\<And>b. oggpack_expand E b = Err \<Longrightarrow> wfun E b v (int n) = Some oggpack_zero"
    and go: "\<And>b buf p e. pack_at b buf p e \<Longrightarrow> storage b = int (length buf) \<Longrightarrow> p + 4 < length buf \<Longrightarrow>
        wfun E b v (int n) = Some (oggpack_forward
          (b\<lparr>buffer := Some (stored buf p ((n + e) div 8) (f buf p e))\<rparr>) (int (n + e)))"
    and str: "\<And>buf p e m i. e < 8 \<Longrightarrow> p + m < length buf \<Longrightarrow> i < 8 * (p + m + 1) \<Longrightarrow> m \<le> 4 \<Longrightarrow>
        (\<And>i. 8 * p + e \<le> i \<Longrightarrow> i < 8 * p + 8 \<Longrightarrow> \<not> sbit buf i) \<Longrightarrow>
        sbit (stored buf p m (f buf p e)) i =
          (if i < 8 * p + e then sbit buf i else i - (8 * p + e) < n \<and> F (i - (8 * p + e)))"
    and cong: "\<And>buf buf' i. buf ! (i div 8) = buf' ! (i div 8) \<Longrightarrow> sbit buf i = sbit buf' i"
  shows "oggpack_expand E b = Err \<and> wfun E b v (int n) = Some oggpack_zero \<or>
    (\<exists>b'. wfun E b v (int n) = Some b' \<and> writer sbit b' \<and> storage b' \<le> storage b + 256 \<and>
          written sbit b' = written sbit b @ map F [0..<n])"
proof -
  from w obtain buf p e where at: "pack_at b buf p e" and st: "storage b = int (length buf)"
    and p: "p < length buf" and clean: "\<And>i. 8 * p + e \<le> i \<Longrightarrow> i < 8 * p + 8 \<Longrightarrow> \<not> sbit buf i"
    unfolding writer_def by blast
  have e: "e < 8" using at by (simp add: pack_at_def)
  show ?thesis
  proof (rule oggpack_expand_cases [OF at st p, of E])
    assume "oggpack_expand E b = Err"
    then show ?thesis using err by blast
  next
    fix b1 buf1
    assume ex: "oggpack_expand E b = Go b1" "oggpack_expand E b1 = Go b1"
      and at1: "pack_at b1 buf1 p e" and st1: "storage b1 = int (length buf1)"
      and room: "p + 4 < length buf1" and keep: "\<And>i. i < length buf \<Longrightarrow> buf1 ! i = buf ! i"
      and le: "length buf \<le> length buf1" "length buf1 \<le> length buf + 256"
    define m where "m = (n + e) div 8"
    define buf2 where "buf2 = stored buf1 p m (f buf1 p e)"
    define b2 where "b2 = oggpack_forward (b1\<lparr>buffer := Some buf2\<rparr>) (int (n + e))"
    have m: "m \<le> 4" using n e by (simp add: m_def)
    have same1: "sbit buf1 i = sbit buf i" if "i < 8 * p + 8" for i
      using that p keep by (intro cong) auto
    have bits: "sbit buf2 i = (if i < 8 * p + e then sbit buf i
        else i - (8 * p + e) < n \<and> F (i - (8 * p + e)))" if "i < 8 * (p + m + 1)" for i
      using str [of e p m buf1 i] e m room that clean same1 by (auto simp: buf2_def)
    have w2: "wfun E b v (int n) = Some b2"
      using same [OF ex] go [OF at1 st1 room] by (simp add: b2_def buf2_def m_def)
    have at2: "pack_at b2 buf2 (p + m) ((n + e) mod 8)"
      unfolding b2_def m_def by (rule pack_at_forward [OF at1])
    have pos: "8 * (p + m) + (n + e) mod 8 = 8 * p + e + n" by (simp add: m_def)
    have "writer sbit b2"
      unfolding writer_def using at2 st1 room m bits pos
      by (intro exI [of _ buf2] exI [of _ "p + m"] exI [of _ "(n + e) mod 8"]) (auto simp: b2_def buf2_def)
    moreover have "written sbit b2 = written sbit b @ map F [0..<n]"
    proof -
      have lt: "8 * p + e + n < 8 * (p + m + 1)" using pos by simp
      have "nat (oggpack_bits b2) = 8 * p + e + n" by (simp only: oggpack_bits_at [OF at2] pos)
      then have "written sbit b2 = map (sbit buf2) [0..<8 * p + e + n]"
        using at2 by (simp add: written_def pack_at_def)
      also have "\<dots> = map (sbit buf) [0..<8 * p + e] @ map F [0..<n]"
        using lt by (intro nth_equalityI) (auto simp: nth_append bits)
      finally show ?thesis using at oggpack_bits_at [OF at] by (simp add: written_def pack_at_def)
    qed
    moreover have "storage b2 \<le> storage b + 256" using st st1 le by (simp add: b2_def)
    ultimately show ?thesis using w2 by blast
  qed
qed

lemma write_same:
  assumes "oggpack_expand E b = Go b'" and "oggpack_expand E b' = Go b'"
  shows "oggpack_write E b v n = oggpack_write E b' v n" "oggpackB_write E b v n = oggpackB_write E b' v n"
  using assms by (simp_all add: oggpack_write_def oggpackB_write_def oggpack_writeclear_def)

lemma write_err:
  assumes "oggpack_expand E b = Err"
  shows "oggpack_write E b v n = Some oggpack_zero" "oggpackB_write E b v n = Some oggpack_zero"
  using assms by (simp_all add: oggpack_write_def oggpackB_write_def oggpack_writeclear_def)

lemma oggpack_write_law:
  assumes w: "writer lsb_bit b" and n: "n \<le> 32"
  shows "oggpack_expand E b = Err \<and> oggpack_write E b v (int n) = Some oggpack_zero \<or>
    (\<exists>b'. oggpack_write E b v (int n) = Some b' \<and> writer lsb_bit b' \<and> storage b' \<le> storage b + 256 \<and>
          written lsb_bit b' = written lsb_bit b @ map (bit v) [0..<n])"
proof (rule write_law_gen [where wfun = oggpack_write and E = E and v = v and F = "bit v"
        and f = "\<lambda>buf p e. lsb_byte buf p e (take_bit n v)", OF w n])
qed (erule (1) write_same(1), erule write_err(1), erule (2) oggpack_write_go [OF _ _ _ n],
     erule (2) stored_lsb, blast, simp add: lsb_bit_def)

lemma oggpackB_write_law:
  assumes w: "writer msb_bit b" and n: "n \<le> 32"
  shows "oggpack_expand E b = Err \<and> oggpackB_write E b v (int n) = Some oggpack_zero \<or>
    (\<exists>b'. oggpackB_write E b v (int n) = Some b' \<and> writer msb_bit b' \<and> storage b' \<le> storage b + 256 \<and>
          written msb_bit b' = written msb_bit b @ map (\<lambda>j. bit v (n - 1 - j)) [0..<n])"
proof (rule write_law_gen [where wfun = oggpackB_write and E = E and v = v and F = "\<lambda>j. bit v (n - 1 - j)"
        and f = "\<lambda>buf p e. msb_byte buf p e (push_bit (32 - n) (take_bit n v))", OF w n])
qed (erule (1) write_same(2), erule write_err(2), erule (2) oggpackB_write_go [OF _ _ _ n],
     erule (3) stored_msb [OF _ _ _ _ n], blast, simp add: msb_bit_def)

lemma byte_bit_ge [simp]: "8 \<le> i \<Longrightarrow> \<not> bit (x :: byte) i"
  using byte_bit_bound [of x i] by auto

lemma bit_scast_u32 [wbit_simps]: "j < 32 \<Longrightarrow> bit (scast (w :: u32) :: ulong) j = bit w j"
  by (simp add: bit_word_scast_iff)

text \<open>The cascades OR one term per byte; the terms of different bytes hit different bits.\<close>

fun or_terms :: "(nat \<Rightarrow> ulong) \<Rightarrow> nat \<Rightarrow> ulong" where
  "or_terms T 0 = T 0"
| "or_terms T (Suc k) = or_terms T k OR T (Suc k)"

lemma bit_or_terms: "bit (or_terms T K) i \<longleftrightarrow> (\<exists>k \<le> K. bit (T k) i)"
  by (induction K) (auto simp: bit_or_iff le_Suc_eq)

lemma or_terms_num:
  "or_terms T 1 = T 0 OR T 1"
  "or_terms T 2 = (T 0 OR T 1) OR T 2"
  "or_terms T 3 = ((T 0 OR T 1) OR T 2) OR T 3"
  "or_terms T 4 = (((T 0 OR T 1) OR T 2) OR T 3) OR T 4"
  by (simp_all add: eval_nat_numeral)

definition lsb_term :: "byte list \<Rightarrow> nat \<Rightarrow> nat \<Rightarrow> nat \<Rightarrow> ulong" where
  "lsb_term buf p e k =
     (if k = 0 then drop_bit e (ucast (buf ! p))
      else scast (push_bit (8 * k - e) (ucast (buf ! (p + k)) :: u32)))"

definition msb_term :: "byte list \<Rightarrow> nat \<Rightarrow> nat \<Rightarrow> nat \<Rightarrow> ulong" where
  "msb_term buf p e k =
     (if k < 4 then scast (push_bit (24 + e - 8 * k) (ucast (buf ! (p + k)) :: u32))
      else ucast (drop_bit (8 - e) (buf ! (p + k))))"

lemma bit_lsb_term:
  assumes "e < 8" and "j < 32"
  shows "bit (lsb_term buf p e k) j \<longleftrightarrow> 8 * k \<le> e + j \<and> bit (buf ! (p + k)) (e + j - 8 * k)"
proof (cases "k = 0")
  case True
  then show ?thesis by (auto simp: lsb_term_def bit_simps dest: byte_bit_bound)
next
  case False
  have "8 * k \<le> e + j \<Longrightarrow> j - (8 * k - e) = e + j - 8 * k" using False assms by simp
  then show ?thesis using False assms
    by (auto simp: lsb_term_def wbit_simps bit_push_bit_iff bit_word_ucast_iff dest: byte_bit_bound)
qed

lemma bit_msb_term:
  assumes "e < 8" and "j < 32" and "k \<le> 4"
  shows "bit (msb_term buf p e k) (31 - j) \<longleftrightarrow> e + j < 8 * k + 8 \<and> bit (buf ! (p + k)) (8 * k + 7 - (e + j))"
proof (cases "k < 4")
  case False
  then have "8 - e + (31 - j) = 8 * k + 7 - (e + j)" "e + j < 8 * k + 8" using assms by simp_all
  then show ?thesis using False assms
    by (auto simp: msb_term_def bit_drop_bit_eq bit_word_ucast_iff dest: byte_bit_bound)
next
  case True
  have "e + j < 8 * k + 8 \<Longrightarrow> 31 - j - (24 + e - 8 * k) = 8 * k + 7 - (e + j)" using True assms by simp
  then show ?thesis using True assms
    by (auto simp: msb_term_def wbit_simps bit_push_bit_iff bit_word_ucast_iff dest: byte_bit_bound)
qed

lemma oggpack_gather_terms:
  assumes at: "pack_at b buf p e" and room: "8 * p + e + n \<le> 8 * length buf" "p < length buf"
    and n: "n \<le> 32"
  shows "oggpack_gather b (int (n + e)) = Some (or_terms (lsb_term buf p e) ((n + e - 1) div 8))"
    and "oggpackB_gather b (int (n + e)) = Some (or_terms (msb_term buf p e) ((n + e - 1) div 8))"
proof -
  have e: "e < 8" "endbit b = int e" using at by (auto simp: pack_at_def)
  have d: "(n + e - 1) div 8 = (if n + e \<le> 8 then 0 else if n + e \<le> 16 then 1
      else if n + e \<le> 24 then 2 else if n + e \<le> 32 then 3 else 4)" using n e by auto
  consider "n + e \<le> 8" "p < length buf" | "8 < n + e" "n + e \<le> 16" "p + 1 < length buf"
    | "16 < n + e" "n + e \<le> 24" "p + 2 < length buf" | "24 < n + e" "n + e \<le> 32" "p + 3 < length buf"
    | "32 < n + e" "p + 4 < length buf" "0 < e" using room n by linarith
  note cs = this
  show "oggpack_gather b (int (n + e)) = Some (or_terms (lsb_term buf p e) ((n + e - 1) div 8))"
    unfolding d using e n
    by (cases rule: cs) (simp_all add: oggpack_gather_def pget_num [OF at] lsb_term_def or_terms_num)
  show "oggpackB_gather b (int (n + e)) = Some (or_terms (msb_term buf p e) ((n + e - 1) div 8))"
    unfolding d using e n
    by (cases rule: cs) (simp_all add: oggpackB_gather_def pget_num [OF at] msb_term_def or_terms_num)
qed

lemma oggpack_gather_bit:
  assumes "e < 8" "j < n" "n \<le> 32"
  shows "bit (or_terms (lsb_term buf p e) ((n + e - 1) div 8)) j = lsb_bit buf (8 * p + e + j)"
    and "bit (or_terms (msb_term buf p e) ((n + e - 1) div 8)) (31 - j) = msb_bit buf (8 * p + e + j)"
proof -
  define q r where "q = (e + j) div 8" and "r = (e + j) mod 8"
  have qr: "e + j = 8 * q + r" "r < 8" by (simp_all add: q_def r_def)
  have q: "q \<le> (n + e - 1) div 8" using assms unfolding q_def by (intro div_le_mono) simp
  have K: "(n + e - 1) div 8 \<le> 4" using assms by simp
  have i: "8 * p + e + j = 8 * (p + q) + r" using qr by simp
  have "bit (or_terms (lsb_term buf p e) ((n + e - 1) div 8)) j \<longleftrightarrow>
      (\<exists>k \<le> (n + e - 1) div 8. 8 * k \<le> e + j \<and> bit (buf ! (p + k)) (e + j - 8 * k))"
    using assms by (simp add: bit_or_terms bit_lsb_term)
  also have "\<dots> \<longleftrightarrow> bit (buf ! (p + q)) r"
  proof
    assume "\<exists>k \<le> (n + e - 1) div 8. 8 * k \<le> e + j \<and> bit (buf ! (p + k)) (e + j - 8 * k)"
    then obtain k where k: "8 * k \<le> e + j" "bit (buf ! (p + k)) (e + j - 8 * k)" by blast
    then have "e + j - 8 * k < 8" by (auto dest: byte_bit_bound)
    then have "k = q" using qr k by simp
    then show "bit (buf ! (p + q)) r" using k qr by simp
  next
    assume "bit (buf ! (p + q)) r"
    then show "\<exists>k \<le> (n + e - 1) div 8. 8 * k \<le> e + j \<and> bit (buf ! (p + k)) (e + j - 8 * k)"
      using q qr by (intro exI [of _ q]) simp
  qed
  finally show "bit (or_terms (lsb_term buf p e) ((n + e - 1) div 8)) j = lsb_bit buf (8 * p + e + j)"
    using lsb_bit_8 [OF qr(2), of buf "p + q"] unfolding i by (rule trans [OF _ sym])
  have "bit (or_terms (msb_term buf p e) ((n + e - 1) div 8)) (31 - j) \<longleftrightarrow>
      (\<exists>k \<le> (n + e - 1) div 8. e + j < 8 * k + 8 \<and> bit (buf ! (p + k)) (8 * k + 7 - (e + j)))"
    using assms K by (auto simp: bit_or_terms bit_msb_term)
  also have "\<dots> \<longleftrightarrow> bit (buf ! (p + q)) (7 - r)"
  proof
    assume "\<exists>k \<le> (n + e - 1) div 8. e + j < 8 * k + 8 \<and> bit (buf ! (p + k)) (8 * k + 7 - (e + j))"
    then obtain k where k: "e + j < 8 * k + 8" "bit (buf ! (p + k)) (8 * k + 7 - (e + j))" by blast
    then have "8 * k + 7 - (e + j) < 8" by (auto dest: byte_bit_bound)
    then have "k = q" using qr k by simp
    then show "bit (buf ! (p + q)) (7 - r)" using k qr by simp
  next
    assume "bit (buf ! (p + q)) (7 - r)"
    then show "\<exists>k \<le> (n + e - 1) div 8. e + j < 8 * k + 8 \<and> bit (buf ! (p + k)) (8 * k + 7 - (e + j))"
      using q qr by (intro exI [of _ q]) simp
  qed
  finally show "bit (or_terms (msb_term buf p e) ((n + e - 1) div 8)) (31 - j) = msb_bit buf (8 * p + e + j)"
    using msb_bit_8 [OF qr(2), of buf "p + q"] unfolding i by (rule trans [OF _ sym])
qed

lemma sint_ulong_small:
  assumes "\<And>j. bit (w :: ulong) j \<Longrightarrow> j < 32"
  shows "sint w = uint w"
proof -
  have "\<not> bit (uint w) 63" using assms [of 63] by (auto simp: bit_uint_iff)
  then have "sint w = take_bit 63 (uint w)"
    by (simp add: sint_uint signed_take_bit_eq_if_positive)
  also have "\<dots> = uint w"
    by (rule bit_eqI) (use assms in \<open>force simp: bit_take_bit_iff bit_uint_iff\<close>)
  finally show ?thesis .
qed

lemma remaining_split:
  assumes at: "pack_at b buf p e" and rem: "remaining sbit b = xs @ rest"
  shows "8 * p + e + length xs \<le> nat (8 * storage b) \<or> xs = []"
    and "j < length xs \<Longrightarrow> sbit buf (8 * p + e + j) = xs ! j"
    and "rest = map (sbit buf) [8 * p + e + length xs..<nat (8 * storage b)]"
proof -
  have eq: "map (sbit buf) [8 * p + e..<nat (8 * storage b)] = xs @ rest"
    using rem at oggpack_bits_at [OF at] by (simp add: remaining_def pack_at_def)
  from arg_cong [OF this, of length] show "8 * p + e + length xs \<le> nat (8 * storage b) \<or> xs = []"
    by (cases xs) auto
  show "j < length xs \<Longrightarrow> sbit buf (8 * p + e + j) = xs ! j"
    using arg_cong [OF eq, of "\<lambda>ys. ys ! j"] arg_cong [OF eq, of length] by (simp add: nth_append)
  have "rest = drop (length xs) (map (sbit buf) [8 * p + e..<nat (8 * storage b)])" using eq by simp
  then show "rest = map (sbit buf) [8 * p + e + length xs..<nat (8 * storage b)]"
    by (simp add: drop_map add.assoc)
qed

text \<open>What both readers do after a successful read of \<open>n\<close> bits.\<close>

lemma reader_forward:
  assumes at: "pack_at b buf p e" and st: "storage b \<le> int (length buf)"
    and room: "8 * p + e + n \<le> nat (8 * storage b)" "0 \<le> storage b"
    and rem: "remaining sbit b = xs @ rest" and xs: "length xs = n"
  shows "reader (oggpack_forward b (int (n + e)))"
    and "remaining sbit (oggpack_forward b (int (n + e))) = rest"
proof -
  let ?b = "oggpack_forward b (int (n + e))"
  have b: "b\<lparr>buffer := Some buf\<rparr> = b" using at by (simp add: pack_at_def)
  have at': "pack_at ?b buf (p + (n + e) div 8) ((n + e) mod 8)"
    using pack_at_forward [OF at, of buf "n + e"] b by simp
  have pos: "8 * (p + (n + e) div 8) + (n + e) mod 8 = 8 * p + e + n" by simp
  have "8 * int (p + (n + e) div 8) + int ((n + e) mod 8) = int (8 * p + e + n)"
    by (simp add: zdiv_int zmod_int)
  then have "8 * int (p + (n + e) div 8) + int ((n + e) mod 8) \<le> 8 * storage ?b"
    using room by simp
  then show "reader ?b" unfolding reader_def using at' st by force
  have "nat (oggpack_bits ?b) = 8 * p + e + n" by (simp only: oggpack_bits_at [OF at'] pos)
  then show "remaining sbit ?b = rest"
    using remaining_split(3) [OF at rem] xs at by (simp add: remaining_def pack_at_def)
qed

lemma readerE:
  assumes "reader b" and "remaining sbit b = xs @ rest" and "length xs = n" and "n \<le> 32"
  obtains buf p e where "pack_at b buf p e" "e < 8" "endbit b = int e"
    "storage b \<le> int (length buf)" "8 * p + e + n \<le> nat (8 * storage b)" "0 \<le> storage b"
    "\<not> endbyte b > storage b - (int n + endbit b + 7) div 8"
    "\<not> (endbyte b \<ge> storage b - 4 \<and> n + e = 0) \<Longrightarrow>
       oggpack_gather b (int (n + e)) = Some (or_terms (lsb_term buf p e) ((n + e - 1) div 8)) \<and>
       oggpackB_gather b (int (n + e)) = Some (or_terms (msb_term buf p e) ((n + e - 1) div 8))"
proof -
  from assms(1) obtain buf p e where at: "pack_at b buf p e" and st: "storage b \<le> int (length buf)"
    and pos: "8 * int p + int e \<le> 8 * storage b" unfolding reader_def by blast
  have e: "e < 8" "endbit b = int e" "endbyte b = int p" using at by (auto simp: pack_at_def)
  have room: "8 * p + e + n \<le> nat (8 * storage b)"
    using remaining_split(1) [OF at assms(2)] pos assms(3) by auto
  have noover: "\<not> endbyte b > storage b - (int n + endbit b + 7) div 8"
    using room pos unfolding e by (simp add: nat_le_iff le_nat_iff)
  have p: "\<not> (endbyte b \<ge> storage b - 4 \<and> n + e = 0) \<Longrightarrow> p < length buf"
    using room st e by auto
  show thesis
    by (rule that [OF at e(1,2) st room _ noover], use pos in simp)
      (use oggpack_gather_terms [OF at _ p \<open>n \<le> 32\<close>] room st in simp)
qed

lemma oggpack_read_law:
  assumes rd: "reader b" and n: "n \<le> 32" and rem: "remaining lsb_bit b = map (bit (v :: ulong)) [0..<n] @ rest"
  shows "\<exists>b'. oggpack_read b (int n) = Some (b', uint (take_bit n v)) \<and> reader b' \<and> remaining lsb_bit b' = rest"
proof (rule readerE [OF rd rem _ n])
  fix buf p e
  assume at: "pack_at b buf p e" and e: "e < 8" "endbit b = int e"
    and st: "storage b \<le> int (length buf)" and room: "8 * p + e + n \<le> nat (8 * storage b)" "0 \<le> storage b"
    and noover: "\<not> endbyte b > storage b - (int n + endbit b + 7) div 8"
    and g: "\<not> (endbyte b \<ge> storage b - 4 \<and> n + e = 0) \<Longrightarrow>
       oggpack_gather b (int (n + e)) = Some (or_terms (lsb_term buf p e) ((n + e - 1) div 8)) \<and>
       oggpackB_gather b (int (n + e)) = Some (or_terms (msb_term buf p e) ((n + e - 1) div 8))"
  show ?thesis
  proof (cases "endbyte b \<ge> storage b - 4 \<and> n + e = 0")
    case True
    then have "oggpack_read b (int n) = Some (b, 0)"
      using noover e rd_ogg_mask [OF n] by (auto simp: oggpack_read_def)
    then show ?thesis using rd rem True by auto
  next
    case False
    let ?T = "or_terms (lsb_term buf p e) ((n + e - 1) div 8)"
    have "?T AND Bit_Operations.mask n = take_bit n v"
      by (rule bit_word_eqI) (use oggpack_gather_bit(1) [OF e(1) _ n] remaining_split(2) [OF at rem]
        in \<open>auto simp: bit_and_iff bit_mask_iff bit_take_bit_iff\<close>)
    moreover have "sint (take_bit n v) = uint (take_bit n v)"
      using n by (intro sint_ulong_small) (simp add: bit_take_bit_iff)
    ultimately have "oggpack_read b (int n) = Some (oggpack_forward b (int (n + e)), uint (take_bit n v))"
      using noover False e n g [OF False] by (auto simp: oggpack_read_def)
    then show ?thesis using reader_forward [OF at st room rem] by simp
  qed
qed simp

lemma msb_value:
  assumes "n \<le> 32" and "\<And>j. j < n \<Longrightarrow> bit T (31 - j) \<longleftrightarrow> bit v (n - 1 - j)"
  shows "drop_bit (nat ((32 - int n + 1) div 2)) (drop_bit (nat ((32 - int n) div 2)) (T AND 0xffffffff)) =
    take_bit n (v :: ulong)"
proof (rule bit_word_eqI)
  fix t
  have "(32 - int n + 1) div 2 + (32 - int n) div 2 = 32 - int n" by presburger
  then have s: "nat ((32 - int n + 1) div 2) + nat ((32 - int n) div 2) = 32 - n"
    using assms(1) by (simp add: nat_add_distrib [symmetric])
  have m: "(0xffffffff :: ulong) = Bit_Operations.mask 32" by (simp add: mask_eq_exp_minus_1)
  have "bit (drop_bit (nat ((32 - int n + 1) div 2)) (drop_bit (nat ((32 - int n) div 2)) (T AND 0xffffffff))) t
      \<longleftrightarrow> t < n \<and> bit T (32 - n + t)"
    using assms(1) by (simp only: m drop_bit_drop_bit s bit_drop_bit_eq comp_def bit_and_iff bit_mask_iff) auto
  also have "\<dots> \<longleftrightarrow> t < n \<and> bit v t"
  proof (cases "t < n")
    case True
    then have "31 - (n - 1 - t) = 32 - n + t" "n - 1 - (n - 1 - t) = t" using assms(1) by simp_all
    then show ?thesis using assms(2) [of "n - 1 - t"] True by simp
  qed simp
  finally show "bit (drop_bit (nat ((32 - int n + 1) div 2)) (drop_bit (nat ((32 - int n) div 2)) (T AND 0xffffffff))) t
     = bit (take_bit n v) t" by (simp add: bit_take_bit_iff)
qed

lemma oggpackB_read_law:
  assumes rd: "reader b" and n: "n \<le> 32"
    and rem: "remaining msb_bit b = map (\<lambda>j. bit (v :: ulong) (n - 1 - j)) [0..<n] @ rest"
  shows "\<exists>b'. oggpackB_read b (int n) = Some (b', uint (take_bit n v)) \<and> reader b' \<and> remaining msb_bit b' = rest"
proof (rule readerE [OF rd rem _ n])
  fix buf p e
  assume at: "pack_at b buf p e" and e: "e < 8" "endbit b = int e"
    and st: "storage b \<le> int (length buf)" and room: "8 * p + e + n \<le> nat (8 * storage b)" "0 \<le> storage b"
    and noover: "\<not> endbyte b > storage b - (int n + endbit b + 7) div 8"
    and g: "\<not> (endbyte b \<ge> storage b - 4 \<and> n + e = 0) \<Longrightarrow>
       oggpack_gather b (int (n + e)) = Some (or_terms (lsb_term buf p e) ((n + e - 1) div 8)) \<and>
       oggpackB_gather b (int (n + e)) = Some (or_terms (msb_term buf p e) ((n + e - 1) div 8))"
  show ?thesis
  proof (cases "endbyte b \<ge> storage b - 4 \<and> n + e = 0")
    case True
    then have "oggpackB_read b (int n) = Some (b, 0)"
      using noover e n by (auto simp: oggpackB_read_def Let_def)
    then show ?thesis using rd rem True by auto
  next
    case False
    let ?T = "or_terms (msb_term buf p e) ((n + e - 1) div 8)"
    have b: "\<And>j. j < n \<Longrightarrow> bit ?T (31 - j) \<longleftrightarrow> bit v (n - 1 - j)"
      using oggpack_gather_bit(2) [OF e(1) _ n] remaining_split(2) [OF at rem] by simp
    have "sint (take_bit n v) = uint (take_bit n v)"
      using n by (intro sint_ulong_small) (simp add: bit_take_bit_iff)
    then have "oggpackB_read b (int n) = Some (oggpack_forward b (int (n + e)), uint (take_bit n v))"
      using noover False e n g [OF False] msb_value [OF n b] by (auto simp: oggpackB_read_def Let_def)
    then show ?thesis using reader_forward [OF at st room rem] by simp
  qed
qed simp

lemma oggpack_write_zero:
  "oggpack_write E oggpack_zero v k = Some oggpack_zero"
  "oggpackB_write E oggpack_zero v k = Some oggpack_zero"
  by (simp_all add: oggpack_write_def oggpackB_write_def oggpack_writeclear_def oggpack_expand_def
      oggpack_zero_def)

lemma oggpack_expand_granted:
  assumes "writer sbit b" and "\<And>n. grant E n" and "storage b \<le> LONG_MAX - 256"
  shows "oggpack_expand E b \<noteq> Err"
  using assms by (auto simp: oggpack_expand_def BUFFER_INCREMENT_def realloc_bytes_def)

subsection \<open>The packer interface\<close>

fun pack_fields ::
  "(mem_env \<Rightarrow> oggpack_buffer \<Rightarrow> ulong \<Rightarrow> int \<Rightarrow> oggpack_buffer option) \<Rightarrow> oggpack_buffer \<Rightarrow>
   (mem_env \<times> ulong \<times> nat) list \<Rightarrow> oggpack_buffer option" where
  "pack_fields w b [] = Some b"
| "pack_fields w b ((E, v, n) # fs) = do { b \<leftarrow> w E b v (int n); pack_fields w b fs }"

fun unpack_fields ::
  "(oggpack_buffer \<Rightarrow> int \<Rightarrow> (oggpack_buffer \<times> int) option) \<Rightarrow> oggpack_buffer \<Rightarrow> nat list \<Rightarrow>
   (oggpack_buffer \<times> int list) option" where
  "unpack_fields r b [] = Some (b, [])"
| "unpack_fields r b (n # ns) = do {
     (b, x) \<leftarrow> r b (int n); (b, xs) \<leftarrow> unpack_fields r b ns; Some (b, x # xs) }"

abbreviation field_width :: "mem_env \<times> ulong \<times> nat \<Rightarrow> nat" where
  "field_width f \<equiv> snd (snd f)"

abbreviation field_value :: "mem_env \<times> ulong \<times> nat \<Rightarrow> int" where
  "field_value f \<equiv> uint (take_bit (snd (snd f)) (fst (snd f)))"

locale bit_packer =
  fixes sbit :: "byte list \<Rightarrow> nat \<Rightarrow> bool"
    and fbit :: "nat \<Rightarrow> ulong \<Rightarrow> nat \<Rightarrow> bool"
    and pwrite :: "mem_env \<Rightarrow> oggpack_buffer \<Rightarrow> ulong \<Rightarrow> int \<Rightarrow> oggpack_buffer option"
    and pread :: "oggpack_buffer \<Rightarrow> int \<Rightarrow> (oggpack_buffer \<times> int) option"
  assumes sbit_zero: "i < 8 \<Longrightarrow> buf ! 0 = 0 \<Longrightarrow> \<not> sbit buf i"
    and write_law: "writer sbit b \<Longrightarrow> n \<le> 32 \<Longrightarrow>
      oggpack_expand E b = Err \<and> pwrite E b v (int n) = Some oggpack_zero \<or>
      (\<exists>b'. pwrite E b v (int n) = Some b' \<and> writer sbit b' \<and> storage b' \<le> storage b + 256 \<and>
            written sbit b' = written sbit b @ map (fbit n v) [0..<n])"
    and write_zero: "pwrite E oggpack_zero v k = Some oggpack_zero"
    and read_law: "reader b \<Longrightarrow> n \<le> 32 \<Longrightarrow> remaining sbit b = map (fbit n v) [0..<n] @ rest \<Longrightarrow>
      \<exists>b'. pread b (int n) = Some (b', uint (take_bit n v)) \<and> reader b' \<and> remaining sbit b' = rest"
begin

definition field_bits :: "mem_env \<times> ulong \<times> nat \<Rightarrow> bool list" where
  "field_bits f = map (fbit (field_width f) (fst (snd f))) [0..<field_width f]"

lemma field_bits_triple [simp]: "field_bits (E, v, n) = map (fbit n v) [0..<n]"
  by (simp add: field_bits_def)

lemma length_fields: "int (length (concat (map field_bits fs))) = (\<Sum>f\<leftarrow>fs. int (field_width f))"
  by (induction fs) (auto simp: field_bits_def)

lemma writeinit_writer:
  assumes "oggpack_writeinit E = Some b"
  shows "writer sbit b" and "written sbit b = []" and "storage b = 256"
proof -
  from assms obtain buf where b: "b = oggpack_zero\<lparr>buffer := Some (buf[0 := 0]), ptr := Some 0, storage := 256\<rparr>"
    and len: "length buf = 256"
    by (auto simp: oggpack_writeinit_def realloc_bytes_def wr_def BUFFER_INCREMENT_def
        split: if_splits Option.bind_splits)
  have "pack_at b (buf[0 := 0]) 0 0" by (simp add: b pack_at_def oggpack_zero_def)
  moreover have "\<not> sbit (buf[0 := 0]) i" if "i < 8" for i
    using that len by (intro sbit_zero) simp_all
  ultimately show "writer sbit b" unfolding writer_def using b len
    by (intro exI [of _ "buf[0 := 0]"] exI [of _ 0]) (simp add: oggpack_zero_def)
  show "written sbit b = []" "storage b = 256"
    by (simp_all add: b written_def oggpack_bits_def oggpack_zero_def)
qed

lemma pack_zero: "pack_fields pwrite oggpack_zero fs = Some oggpack_zero"
  by (induction fs) (auto simp: write_zero)

lemma pack_law:
  assumes "writer sbit b" and "\<forall>f \<in> set fs. field_width f \<le> 32"
  shows "\<exists>b'. pack_fields pwrite b fs = Some b' \<and>
     (b' = oggpack_zero \<or> writer sbit b' \<and> written sbit b' = written sbit b @ concat (map field_bits fs))"
  using assms
proof (induction fs arbitrary: b)
  case (Cons f fs)
  obtain E v n where f: "f = (E, v, n)" by (cases f) auto
  then have n: "n \<le> 32" using Cons.prems by simp
  show ?case using write_law [OF Cons.prems(1) n, of E v]
  proof (elim disjE exE conjE)
    assume "pwrite E b v (int n) = Some oggpack_zero"
    then show ?case by (simp add: f pack_zero)
  next
    fix b1
    assume "pwrite E b v (int n) = Some b1" and w: "writer sbit b1"
      and "written sbit b1 = written sbit b @ map (fbit n v) [0..<n]"
    then show ?case using Cons.IH [OF w] Cons.prems by (auto simp: f)
  qed
qed simp

lemma pack_granted:
  assumes "writer sbit b" and "\<forall>f \<in> set fs. field_width f \<le> 32 \<and> (\<forall>n. grant (fst f) n)"
    and "storage b + 256 * int (length fs) \<le> LONG_MAX"
  shows "\<exists>b'. pack_fields pwrite b fs = Some b' \<and> writer sbit b'"
  using assms
proof (induction fs arbitrary: b)
  case (Cons f fs)
  obtain E v n where f: "f = (E, v, n)" by (cases f) auto
  have "oggpack_expand E b \<noteq> Err"
    using Cons.prems by (intro oggpack_expand_granted) (auto simp: f)
  then obtain b1 where "pwrite E b v (int n) = Some b1" "writer sbit b1" "storage b1 \<le> storage b + 256"
    using write_law [of b n E v] Cons.prems by (auto simp: f)
  then show ?case using Cons.IH [of b1] Cons.prems by (auto simp: f)
qed simp

lemma unpack_law:
  assumes "reader b" and "\<forall>f \<in> set fs. field_width f \<le> 32"
    and "remaining sbit b = concat (map field_bits fs) @ rest"
  shows "\<exists>b'. unpack_fields pread b (map field_width fs) = Some (b', map field_value fs) \<and>
              reader b' \<and> remaining sbit b' = rest"
  using assms
proof (induction fs arbitrary: b)
  case (Cons f fs)
  obtain E v n where f: "f = (E, v, n)" by (cases f) auto
  have rem: "remaining sbit b = map (fbit n v) [0..<n] @ (concat (map field_bits fs) @ rest)"
    using Cons.prems(3) by (simp add: f)
  obtain b1 where "pread b (int n) = Some (b1, uint (take_bit n v))" and r: "reader b1"
    "remaining sbit b1 = concat (map field_bits fs) @ rest"
    using read_law [OF Cons.prems(1) _ rem] Cons.prems(2) by (auto simp: f)
  then show ?case using Cons.IH [OF r(1) _ r(2)] Cons.prems(2) by (auto simp: f)
qed simp

text \<open>What was written is read back, from a buffer handed over as \<open>oggpack_bytes\<close> bytes.\<close>

lemma readinit_written:
  assumes "writer sbit b" and "buffer b = Some buf" and "oggpack_bits b \<le> 8 * (2 ^ 31 - 1)"
  shows "reader (oggpack_readinit buf (oggpack_bytes b))"
    and "\<exists>pad. remaining sbit (oggpack_readinit buf (oggpack_bytes b)) = written sbit b @ pad"
proof -
  from assms obtain p e where at: "pack_at b buf p e" and p: "p < length buf" "e < 8"
    by (auto simp: writer_def pack_at_def)
  have bytes: "oggpack_bytes b = int (p + (e + 7) div 8)"
    using at by (simp add: pack_at_def oggpack_bytes_def zdiv_int)
  have "oggpack_bits b = int (8 * p + e)" using at by (simp add: pack_at_def oggpack_bits_def)
  then have "int (p + (e + 7) div 8) < 2 ^ 31" using assms(3) p by simp
  then have narrow: "c_int (oggpack_bytes b) = oggpack_bytes b" using bytes by (intro c_int_id) simp_all
  have at0: "pack_at (oggpack_readinit buf (oggpack_bytes b)) buf 0 0"
    by (simp add: pack_at_def oggpack_readinit_def oggpack_zero_def)
  moreover have "p + (e + 7) div 8 \<le> length buf" using p by simp
  ultimately show "reader (oggpack_readinit buf (oggpack_bytes b))"
    unfolding reader_def using bytes narrow by (intro exI [of _ buf] exI [of _ 0]) (simp add: oggpack_readinit_def)
  have "8 * p + e \<le> nat (8 * oggpack_bytes b)" using bytes p by (simp add: nat_mult_distrib) 
  then have "[0..<nat (8 * oggpack_bytes b)] = [0..<8 * p + e] @ [8 * p + e..<nat (8 * oggpack_bytes b)]"
    by (metis le_add_diff_inverse upt_add_eq_append zero_le)
  then show "\<exists>pad. remaining sbit (oggpack_readinit buf (oggpack_bytes b)) = written sbit b @ pad"
    using oggpack_bits_at [OF at] oggpack_bits_at [OF at0] assms(2)
    by (simp add: remaining_def written_def oggpack_readinit_def narrow)
qed

lemma pack_total:
  assumes "oggpack_writeinit E = Some b" and "\<forall>f \<in> set fs. field_width f \<le> 32"
  shows "pack_fields pwrite b fs \<noteq> None"
  using pack_law [OF writeinit_writer(1) [OF assms(1)] assms(2)] by auto

lemma roundtrip:
  assumes fs: "\<forall>f \<in> set fs. field_width f \<le> 32 \<and> (\<forall>n. grant (fst f) n)"
    and E: "\<forall>n. grant E n" and len: "256 * int (length fs + 1) \<le> LONG_MAX"
    and size: "(\<Sum>f\<leftarrow>fs. int (field_width f)) \<le> 8 * (2 ^ 31 - 1)"
  shows "\<exists>b0 b buf r. oggpack_writeinit E = Some b0 \<and> pack_fields pwrite b0 fs = Some b \<and>
     oggpack_get_buffer b = Some buf \<and> oggpack_bits b = (\<Sum>f\<leftarrow>fs. int (field_width f)) \<and>
     unpack_fields pread (oggpack_readinit buf (oggpack_bytes b)) (map field_width fs)
       = Some (r, map field_value fs)"
proof -
  obtain b0 where b0: "oggpack_writeinit E = Some b0"
    using E by (auto simp: oggpack_writeinit_def realloc_bytes_def wr_def BUFFER_INCREMENT_def)
  note init = writeinit_writer [OF b0]
  obtain b where b: "pack_fields pwrite b0 fs = Some b" "writer sbit b"
    using pack_granted [OF init(1) fs] init(3) len by auto
  moreover have "\<not> writer sbit oggpack_zero" by (simp add: writer_def pack_at_def oggpack_zero_def)
  ultimately have w: "written sbit b = concat (map field_bits fs)"
    using pack_law [OF init(1), of fs] fs init(2) by auto
  obtain buf p e where at: "pack_at b buf p e" using b(2) by (auto simp: writer_def)
  then have buf: "buffer b = Some buf" by (simp add: pack_at_def)
  have bits: "oggpack_bits b = (\<Sum>f\<leftarrow>fs. int (field_width f))"
  proof -
    have "oggpack_bits b = int (length (written sbit b))"
      using at buf by (simp add: written_def oggpack_bits_def pack_at_def)
    also have "\<dots> = (\<Sum>f\<leftarrow>fs. int (field_width f))"
      by (simp only: w length_fields)
    finally show ?thesis .
  qed
  have small: "oggpack_bits b \<le> 8 * (2 ^ 31 - 1)" using bits size by simp
  obtain pad where "remaining sbit (oggpack_readinit buf (oggpack_bytes b)) = concat (map field_bits fs) @ pad"
    using readinit_written(2) [OF b(2) buf small] w by auto
  then obtain r where "unpack_fields pread (oggpack_readinit buf (oggpack_bytes b)) (map field_width fs)
       = Some (r, map field_value fs)"
    using unpack_law [OF readinit_written(1) [OF b(2) buf small]] fs by blast
  then show ?thesis using b0 b(1) buf bits by (auto simp: oggpack_get_buffer_def)
qed

end

interpretation lsb: bit_packer lsb_bit "\<lambda>n v. bit v" oggpack_write oggpack_read
  by unfold_locales
    (simp add: lsb_bit_def, erule (1) oggpack_write_law, rule oggpack_write_zero, erule (2) oggpack_read_law)

interpretation msb: bit_packer msb_bit "\<lambda>n v j. bit v (n - 1 - j)" oggpackB_write oggpackB_read
  by unfold_locales
    (simp add: msb_bit_def, erule (1) oggpackB_write_law, rule oggpack_write_zero, erule (2) oggpackB_read_law)

subsection \<open>Reading at and past the end\<close>

lemma rd_ogg_mask_int: "\<not> (n < 0 \<or> n > 32) \<Longrightarrow> rd ogg_mask n = Some (Bit_Operations.mask (nat n))"
  using rd_ogg_mask [of "nat n"] by (simp add: nat_le_iff)

lemma oggpack_look_read: "oggpack_look b n = map_option snd (oggpack_read b n)"
  by (auto simp: oggpack_look_def oggpack_read_def ac_simps Let_def split: Option.bind_splits)

lemma oggpackB_look_read: "oggpackB_look b n = map_option snd (oggpackB_read b n)"
  by (auto simp: oggpackB_look_def oggpackB_read_def Let_def split: Option.bind_splits)

definition overrun :: "oggpack_buffer \<Rightarrow> bool" where
  "overrun b \<longleftrightarrow> endbyte b = storage b \<and> endbit b = 1"

lemma overrun_overflow: "overrun (oggpack_overflow b)"
  by (simp add: overrun_def oggpack_overflow_def)

lemma overrun_read:
  assumes "overrun b"
  shows "oggpack_read b n = Some (oggpack_overflow b, -1)" "oggpackB_read b n = Some (oggpack_overflow b, -1)"
    "oggpack_read1 b = Some (oggpack_overflow b, -1)" "oggpackB_read1 b = Some (oggpack_overflow b, -1)"
proof -
  have *: "\<not> n < 0 \<Longrightarrow> (1::int) \<le> (n + 1 + 7) div 8" by simp
  show "oggpack_read b n = Some (oggpack_overflow b, -1)"
  proof (cases "n < 0 \<or> n > 32")
    case False
    then show ?thesis using assms * rd_ogg_mask_int [OF False] by (auto simp: oggpack_read_def overrun_def)
  qed (auto simp: oggpack_read_def)
  show "oggpackB_read b n = Some (oggpack_overflow b, -1)"
    using assms * by (auto simp: oggpackB_read_def overrun_def Let_def)
  show "oggpack_read1 b = Some (oggpack_overflow b, -1)" "oggpackB_read1 b = Some (oggpack_overflow b, -1)"
    using assms by (simp_all add: oggpack_read1_def oggpackB_read1_def overrun_def)
qed

lemma read_short:
  assumes "reader b" and "n < 0 \<or> n > 32 \<or> n > int (length (remaining sbit b))"
  shows "oggpack_read b n = Some (oggpack_overflow b, -1)" "oggpackB_read b n = Some (oggpack_overflow b, -1)"
proof -
  from assms(1) obtain buf p e where at: "pack_at b buf p e" and st: "storage b \<le> int (length buf)"
    and pos: "8 * int p + int e \<le> 8 * storage b" unfolding reader_def by blast
  have e: "e < 8" "endbit b = int e" "endbyte b = int p" using at by (auto simp: pack_at_def)
  have len: "int (length (remaining sbit b)) = 8 * storage b - (8 * int p + int e)"
    using at pos oggpack_bits_at [OF at] by (simp add: remaining_def pack_at_def)
  have bad: "endbyte b \<ge> storage b - 4 \<and> endbyte b > storage b - (n + endbit b + 7) div 8"
    if "\<not> (n < 0 \<or> n > 32)" using that assms(2) e len by auto
  show "oggpack_read b n = Some (oggpack_overflow b, -1)"
  proof (cases "n < 0 \<or> n > 32")
    case False
    then show ?thesis using bad [OF False] rd_ogg_mask_int [OF False] by (simp add: oggpack_read_def)
  qed (auto simp: oggpack_read_def)
  show "oggpackB_read b n = Some (oggpack_overflow b, -1)"
    using bad by (cases "n < 0 \<or> n > 32") (auto simp: oggpackB_read_def Let_def)
qed

lemma bits_of_lsb: "\<exists>v :: ulong. length xs \<le> 32 \<longrightarrow> xs = map (bit v) [0..<length xs]"
proof (intro exI impI nth_equalityI)
  assume l: "length xs \<le> 32"
  show "length xs = length (map (bit (word_of_int (horner_sum of_bool 2 xs) :: ulong)) [0..<length xs])" by simp
  fix i assume i: "i < length xs"
  then show "xs ! i = map (bit (word_of_int (horner_sum of_bool 2 xs) :: ulong)) [0..<length xs] ! i"
    using l by (simp add: bit_simps bit_horner_sum_bit_iff)
qed

lemma bits_of_msb: "\<exists>v :: ulong. length xs \<le> 32 \<longrightarrow> xs = map (\<lambda>j. bit v (length xs - 1 - j)) [0..<length xs]"
proof -
  obtain v :: ulong where v: "length (rev xs) \<le> 32 \<longrightarrow> rev xs = map (bit v) [0..<length (rev xs)]"
    using bits_of_lsb [of "rev xs"] by blast
  have "xs ! i = bit v (length xs - 1 - i)" if "length xs \<le> 32" "i < length xs" for i
  proof -
    have "xs ! i = rev xs ! (length xs - Suc i)" using that by (simp add: rev_nth)
    also have "\<dots> = map (bit v) [0..<length xs] ! (length xs - Suc i)" using v that by simp
    finally show ?thesis using that by simp
  qed
  then show ?thesis by (intro exI [of _ v] impI nth_equalityI) simp_all
qed

text \<open>The exact outcome of a read from any position of a valid buffer.\<close>

lemma read_value_bound: "n \<le> 32 \<Longrightarrow> 0 \<le> uint (take_bit n (v :: ulong)) \<and> uint (take_bit n v) < 2 ^ n"
  by (simp add: unsigned_take_bit_eq)

lemma reader_read:
  assumes "reader b"
  shows "if 0 \<le> n \<and> n \<le> 32 \<and> n \<le> int (length (remaining lsb_bit b))
    then \<exists>b' x. oggpack_read b n = Some (b', x) \<and> 0 \<le> x \<and> x < 2 ^ nat n \<and> reader b' \<and>
                remaining lsb_bit b' = drop (nat n) (remaining lsb_bit b)
    else oggpack_read b n = Some (oggpack_overflow b, -1)"
proof (cases "0 \<le> n \<and> n \<le> 32 \<and> n \<le> int (length (remaining lsb_bit b))")
  case True
  let ?r = "remaining lsb_bit b" and ?k = "nat n"
  have k: "?k \<le> 32" "length (take ?k ?r) = ?k" "int ?k = n" using True by auto
  obtain v :: ulong where "take ?k ?r = map (bit v) [0..<?k]" using bits_of_lsb [of "take ?k ?r"] k by auto
  then have "?r = map (bit v) [0..<?k] @ drop ?k ?r" by (metis append_take_drop_id)
  from oggpack_read_law [OF assms k(1) this] read_value_bound [OF k(1), of v] show ?thesis
    using True k by auto
next
  case False
  with read_short(1) [OF assms, of n lsb_bit] show ?thesis by auto
qed

lemma reader_readB:
  assumes "reader b"
  shows "if 0 \<le> n \<and> n \<le> 32 \<and> n \<le> int (length (remaining msb_bit b))
    then \<exists>b' x. oggpackB_read b n = Some (b', x) \<and> 0 \<le> x \<and> x < 2 ^ nat n \<and> reader b' \<and>
                remaining msb_bit b' = drop (nat n) (remaining msb_bit b)
    else oggpackB_read b n = Some (oggpack_overflow b, -1)"
proof (cases "0 \<le> n \<and> n \<le> 32 \<and> n \<le> int (length (remaining msb_bit b))")
  case True
  let ?r = "remaining msb_bit b" and ?k = "nat n"
  have k: "?k \<le> 32" "length (take ?k ?r) = ?k" "int ?k = n" using True by auto
  obtain v :: ulong where "take ?k ?r = map (\<lambda>j. bit v (?k - 1 - j)) [0..<?k]"
    using bits_of_msb [of "take ?k ?r"] k by auto
  then have "?r = map (\<lambda>j. bit v (?k - 1 - j)) [0..<?k] @ drop ?k ?r" by (metis append_take_drop_id)
  from oggpackB_read_law [OF assms k(1) this] read_value_bound [OF k(1), of v] show ?thesis
    using True k by auto
next
  case False
  with read_short(2) [OF assms, of n msb_bit] show ?thesis by auto
qed

lemma oggpack_forward_0 [simp]: "endbit b = 0 \<Longrightarrow> oggpack_forward b 0 = b"
  by (cases b) (simp add: oggpack_forward_def option.map_ident)

lemma read_adv:
  assumes "oggpack_read b n = Some (b', x)" and "x \<noteq> - 1" and "0 \<le> endbit b"
    and "endbit b < 8"
  shows "b' = oggpack_adv b n"
proof -
  have "n \<le> 32 \<Longrightarrow> (n + endbit b + 7) div 8 \<le> 5" using assms(4) by simp
  then show ?thesis using assms by (auto simp: oggpack_read_def oggpack_adv_def Let_def split: if_splits Option.bind_splits)
qed

text \<open>Single-bit reads are reads of one bit.\<close>

lemma sint_ucast_byte: "sint (ucast (x :: byte) :: ulong) = uint x"
proof -
  have "sint (ucast x :: ulong) = uint (ucast x :: ulong)"
    by (rule sint_ulong_small) (auto simp: bit_word_ucast_iff dest: byte_bit_bound)
  moreover have "take_bit 64 (uint x) = uint x"
    using uint_bounded [of x] by (intro take_bit_int_eq_self) simp_all
  ultimately show ?thesis by (simp add: unsigned_ucast_eq)
qed

lemma forward_adv1:
  assumes "endbit b = int e" and "e < 8"
  shows "oggpack_forward b (1 + endbit b) = oggpack_adv1 b"
proof (cases "e = 7")
  case True
  then show ?thesis using assms by (simp add: oggpack_forward_def oggpack_adv1_def)
next
  case False
  then show ?thesis using assms by (simp add: oggpack_forward_def oggpack_adv1_def option.map_ident)
qed

lemma read1_read:
  assumes "reader b"
  shows "oggpack_read1 b = oggpack_read b 1" and "oggpackB_read1 b = oggpackB_read b 1"
proof -
  from assms obtain buf p e where at: "pack_at b buf p e" and st: "storage b \<le> int (length buf)"
    and pos: "8 * int p + int e \<le> 8 * storage b" unfolding reader_def by blast
  have e: "e < 8" "endbit b = int e" "endbyte b = int p" using at by (auto simp: pack_at_def)
  have m: "rd ogg_mask 1 = Some 1" using rd_ogg_mask [of 1] by simp
  have "oggpack_read1 b = oggpack_read b 1 \<and> oggpackB_read1 b = oggpackB_read b 1"
  proof (cases "endbyte b \<ge> storage b")
    case True
    then have "endbyte b = storage b" "e = 0" using pos e by auto
    then show ?thesis using e m
      by (simp add: oggpack_read1_def oggpack_read_def oggpackB_read1_def oggpackB_read_def)
  next
    case False
    let ?x = "buf ! p"
    have x: "pget b 0 = Some ?x" using pget_num(1) [OF at] False st e by simp
    have ok: "\<not> endbyte b > storage b - (1 + endbit b + 7) div 8" using False e by simp
    have g: "oggpack_gather b (1 + endbit b) = Some (drop_bit e (ucast ?x))"
       "oggpackB_gather b (1 + endbit b) = Some (scast (push_bit (24 + e) (ucast ?x :: u32)))"
      using x e by (simp_all add: oggpack_gather_def oggpackB_gather_def)
    have "drop_bit e (ucast ?x :: ulong) AND 1 = ucast (drop_bit e ?x AND 1)"
      by (rule bit_word_eqI) (auto simp: bit_simps bit_1_iff dest: byte_bit_bound)
    then have "sint (drop_bit e (ucast ?x :: ulong) AND 1) = uint (drop_bit e ?x AND 1)"
      by (simp only: sint_ucast_byte)
    moreover have "drop_bit 31 (scast (push_bit (24 + e) (ucast ?x :: u32))) AND (1 :: ulong) =
        ucast (drop_bit (7 - e) ?x AND 1)"
      using e(1) by (intro bit_word_eqI) (auto simp: bit_simps bit_1_iff bit_word_scast_iff)
    then have "sint (drop_bit 31 (scast (push_bit (24 + e) (ucast ?x :: u32))) AND (1 :: ulong))
       = uint (drop_bit (7 - e) ?x AND 1)"
      by (simp only: sint_ucast_byte)
    moreover have "nat (7 - int e) = 7 - e" using e(1) by simp
    ultimately show ?thesis using False e m ok x g forward_adv1 [OF e(2,1)] 
      by (simp add: oggpack_read1_def oggpack_read_def oggpackB_read1_def oggpackB_read_def Let_def)
  qed
  then show "oggpack_read1 b = oggpack_read b 1" "oggpackB_read1 b = oggpackB_read b 1" by auto
qed

subsection \<open>Block copies and truncation\<close>

lemma helper_no_room:
  assumes "endbit b = 0" and "endbyte b + cdiv bits 8 + 1 \<ge> storage b"
  shows "oggpack_writecopy_helper E b src bits w m = Some oggpack_zero"
  using assms by (simp add: oggpack_writecopy_helper_def oggpack_writeclear_def BUFFER_INCREMENT_def Let_def)

locale block_packer = bit_packer +
  fixes msbf :: bool
  assumes sbit_cong: "buf ! (i div 8) = buf' ! (i' div 8) \<Longrightarrow> i mod 8 = i' mod 8 \<Longrightarrow> sbit buf i = sbit buf' i'"
    and sbit_field: "j < n \<Longrightarrow> n \<le> 8 \<Longrightarrow>
      fbit n (if msbf then ucast (drop_bit (8 - n) (src ! i)) else ucast (src ! i)) j = sbit src (8 * i + j)"
begin

lemma upt_block: "[8 * i..<8 * (i + Suc n)] = [8 * i..<8 * i + 8] @ [8 * (i + 1)..<8 * (i + Suc n)]"
proof -
  have "8 * (i + Suc n) = 8 * i + 8 + 8 * n" by simp
  then show ?thesis using upt_add_eq_append [of "8 * i" "8 * i + 8" "8 * n"] by (simp add: ac_simps)
qed

lemma field_of_source:
  assumes "n \<le> 8"
  shows "map (fbit n (if msbf then ucast (drop_bit (8 - n) (src ! i)) else ucast (src ! i))) [0..<n] =
         map (sbit src) [8 * i..<8 * i + n]"
  using assms by (intro nth_equalityI) (simp_all only: length_map length_upt nth_map_upt diff_diff_left, auto simp: sbit_field)

lemma copy_bytes_zero:
  "nat i + n \<le> length src \<Longrightarrow> 0 \<le> i \<Longrightarrow> oggpack_copy_bytes (pwrite E) oggpack_zero src i n = Some oggpack_zero"
proof (induction n arbitrary: i)
  case (Suc n)
  then have "rd src i = Some (src ! nat i)" by (intro rd_in) auto
  then show ?case using Suc by (simp add: write_zero nat_add_distrib)
qed simp

lemma copy_bytes_law:
  assumes "writer sbit b" and "i + n \<le> length src"
  shows "\<exists>b'. oggpack_copy_bytes (pwrite E) b src (int i) n = Some b' \<and>
    (b' = oggpack_zero \<or> writer sbit b' \<and>
       written sbit b' = written sbit b @ map (sbit src) [8 * i..<8 * (i + n)])"
  using assms
proof (induction n arbitrary: i b)
  case (Suc n)
  have rd: "rd src (int i) = Some (src ! i)" using Suc.prems by (simp add: mem_simps)
  have fld: "map (fbit 8 (ucast (src ! i))) [0..<8] = map (sbit src) [8 * i..<8 * i + 8]"
    using field_of_source [of 8 src i] by (simp add: comp_def split: if_splits)
  have "(8 :: nat) \<le> 32" by simp
  from write_law [OF Suc.prems(1) this, of E "ucast (src ! i)"] show ?case
  proof (elim disjE exE conjE)
    assume "pwrite E b (ucast (src ! i)) (int 8) = Some oggpack_zero"
    then show ?case using rd copy_bytes_zero [of "int i + 1" n src] Suc.prems
      by (simp add: nat_add_distrib)
  next
    fix b1
    assume "pwrite E b (ucast (src ! i)) (int 8) = Some b1" and w: "writer sbit b1"
      and wr: "written sbit b1 = written sbit b @ map (fbit 8 (ucast (src ! i))) [0..<8]"
    moreover obtain b' where "oggpack_copy_bytes (pwrite E) b1 src (int (i + 1)) n = Some b'"
      "b' = oggpack_zero \<or> writer sbit b' \<and>
        written sbit b' = written sbit b1 @ map (sbit src) [8 * (i + 1)..<8 * (i + 1 + n)]"
      using Suc.IH [OF w, of "i + 1"] Suc.prems by auto
    ultimately show ?case using rd fld upt_block [of i n] by (auto simp: add.commute simp del: mult_Suc_right)
  qed
qed simp

text \<open>The aligned block copy, when the source fits into the buffer as it is.\<close>

lemma block_law:
  assumes w: "writer sbit b" and al: "endbit b = 0" and len: "n \<le> length src"
    and room: "endbyte b + int n + 1 < storage b"
  shows "\<exists>b'. oggpack_copy_block b src (int n) = Some b' \<and> writer sbit b' \<and> storage b' = storage b \<and>
     written sbit b' = written sbit b @ map (sbit src) [0..<8 * n]"
proof -
  from w al obtain buf p where at: "pack_at b buf p 0" and st: "storage b = int (length buf)"
    unfolding writer_def by (auto simp: pack_at_def)
  have b: "buffer b = Some buf" "ptr b = Some (int p)" "endbyte b = int p" using at by (auto simp: pack_at_def)
  have pn: "p + n + 1 < length buf" using room st b by simp
  define buf' where "buf' = take p buf @ take n src @ drop (p + n) buf"
  have len': "length buf' = length buf" using pn len by (simp add: buf'_def)
  define b2 where "b2 = b\<lparr>buffer := Some (buf'[p + n := 0]), ptr := Some (int (p + n)), endbyte := int (p + n)\<rparr>"
  have mc: "mem_copy buf (int p) src 0 (int n) = Some buf'"
    using pn len by (simp add: mem_copy_def buf'_def nat_add_distrib)
  have ps: "pset (b\<lparr>buffer := Some buf', ptr := Some (int p + int n), endbyte := endbyte b + int n\<rparr>) 0 0 = Some b2"
    using pn len' b by (simp add: pset_def wr_def b2_def nat_add_distrib)
  have at2: "pack_at b2 (buf'[p + n := 0]) (p + n) 0" using at by (simp add: pack_at_def b2_def)
  have zero: "\<not> sbit (buf'[p + n := 0]) i" if "8 * (p + n) \<le> i" "i < 8 * (p + n) + 8" for i
  proof -
    have "i div 8 = p + n" using that by simp
    then have "sbit (buf'[p + n := 0]) i = sbit [0] (i mod 8)"
      using that pn len' by (intro sbit_cong) auto
    then show ?thesis using sbit_zero [of "i mod 8" "[0]"] by simp
  qed
  have "writer sbit b2"
    unfolding writer_def using at2 zero pn len' st
    by (intro exI [of _ "buf'[p + n := 0]"] exI [of _ "p + n"] exI [of _ 0]) (simp add: b2_def)
  moreover have "written sbit b2 = written sbit b @ map (sbit src) [0..<8 * n]"
  proof -
    have "sbit (buf'[p + n := 0]) i = (if i < 8 * p then sbit buf i else sbit src (i - 8 * p))"
      if "i < 8 * (p + n)" for i
    proof (cases "i < 8 * p")
      case True
      then show ?thesis using that pn by (auto simp: buf'_def nth_append intro!: sbit_cong)
    next
      case False
      have d: "i div 8 = p + (i - 8 * p) div 8" using False by (simp add: div_add1_eq flip: div_mult_self4)
      have "(i - 8 * p) mod 8 = i mod 8" using False by (metis mod_mult_self2 le_add_diff_inverse2 not_less)
      moreover have "(i - 8 * p) div 8 < n" using that False by simp
      ultimately have "sbit (buf'[p + n := 0]) i = sbit src (i - 8 * p)"
        using pn d len by (intro sbit_cong) (auto simp: buf'_def nth_append)
      then show ?thesis using False by simp
    qed
    then have "map (sbit (buf'[p + n := 0])) [0..<8 * (p + n)] = map (sbit buf) [0..<8 * p] @ map (sbit src) [0..<8 * n]"
      by (intro nth_equalityI) (auto simp: nth_append)
    then show ?thesis using oggpack_bits_at [OF at] oggpack_bits_at [OF at2] b
      by (simp add: written_def b2_def)
  qed
  moreover have "oggpack_copy_block b src (int n) = Some b2"
    using b mc ps by (simp add: oggpack_copy_block_def)
  ultimately show ?thesis by (auto simp: b2_def)
qed

lemma copy_tail_law:
  assumes "writer sbit b" and "r < 8" and "8 * n + r \<le> 8 * length src"
  shows "\<exists>b'. oggpack_copy_tail (pwrite E) msbf b src (int n) (int r) = Some b' \<and>
    (oggpack_expand E b = Err \<and> b' = oggpack_zero \<or>
     writer sbit b' \<and> written sbit b' = written sbit b @ map (sbit src) [8 * n..<8 * n + r])"
proof (cases "r = 0")
  case False
  then have "rd src (int n) = Some (src ! n)" using assms by (simp add: mem_simps)
  moreover have "nat (8 - int r) = 8 - r" using assms(2) by simp
  moreover have "r \<le> 32" using assms(2) by simp
  ultimately show ?thesis
    using False field_of_source [of r src n] assms(2) write_law [OF assms(1), of r E]
    unfolding oggpack_copy_tail_def by (cases msbf) fastforce+
qed (use assms in \<open>simp add: oggpack_copy_tail_def\<close>)

lemma copy_tail_zero:
  assumes "r < 8" and "8 * n + r \<le> 8 * length src"
  shows "oggpack_copy_tail (pwrite E) msbf oggpack_zero src (int n) (int r) = Some oggpack_zero"
proof (cases "r = 0")
  case False
  then have "rd src (int n) = Some (src ! n)" using assms by (simp add: mem_simps)
  then show ?thesis by (simp add: oggpack_copy_tail_def write_zero)
qed (simp add: oggpack_copy_tail_def)

lemma copy_split:
  obtains n r where "bits = 8 * n + r" "r < 8" "cdiv (int bits) 8 = int n" "int bits - int n * 8 = int r"
    "bits div 8 = n" "[0..<bits] = [0..<8 * n] @ [8 * n..<8 * n + r]"
proof (rule that [of "bits div 8" "bits mod 8"])
  show "cdiv (int bits) 8 = int (bits div 8)" by (simp add: zdiv_int)
  show "int bits - int (bits div 8) * 8 = int (bits mod 8)"
    by (metis minus_div_mult_eq_mod of_nat_numeral zdiv_int zmod_int)
  show "[0..<bits] = [0..<8 * (bits div 8)] @ [8 * (bits div 8)..<8 * (bits div 8) + bits mod 8]"
    using upt_add_eq_append [of 0 "8 * (bits div 8)" "bits mod 8"] by simp
qed simp_all

lemma writecopy_law:
  assumes w: "writer sbit b" and len: "bits \<le> 8 * length src"
  shows "\<exists>b'. oggpack_writecopy_helper E b src (int bits) (pwrite E) msbf = Some b' \<and>
    (b' = oggpack_zero \<or> writer sbit b' \<and> written sbit b' = written sbit b @ map (sbit src) [0..<bits])"
proof (rule copy_split [of bits])
  fix n r
  assume nr: "bits = 8 * n + r" "r < 8" "cdiv (int bits) 8 = int n" "int bits - int n * 8 = int r"
    and split: "[0..<bits] = [0..<8 * n] @ [8 * n..<8 * n + r]"
  have l: "n \<le> length src" "8 * n + r \<le> 8 * length src" using len nr by auto
  have tail: "\<exists>b'. oggpack_copy_tail (pwrite E) msbf b1 src (int n) (int r) = Some b' \<and>
    (b' = oggpack_zero \<or> writer sbit b' \<and> written sbit b' = written sbit b @ map (sbit src) [0..<bits])"
    if "b1 = oggpack_zero \<or> writer sbit b1 \<and> written sbit b1 = written sbit b @ map (sbit src) [0..<8 * n]" for b1
    using that copy_tail_law [OF _ nr(2) l(2), of b1 E] copy_tail_zero [OF nr(2) l(2), of E] split
    by fastforce
  consider "endbit b \<noteq> 0" | "endbit b = 0" "endbyte b + int n + 1 \<ge> storage b"
    | "endbit b = 0" "endbyte b + int n + 1 < storage b" by linarith
  then show ?thesis
  proof cases
    case 1
    obtain b1 where "oggpack_copy_bytes (pwrite E) b src 0 n = Some b1"
      "b1 = oggpack_zero \<or> writer sbit b1 \<and> written sbit b1 = written sbit b @ map (sbit src) [0..<8 * n]"
      using copy_bytes_law [OF w, of 0 n src E] l by auto
    then show ?thesis using 1 tail [of b1] nr(2-4) by (simp add: oggpack_writecopy_helper_def)
  next
    case 2
    then show ?thesis using helper_no_room [of b "int bits" E src] nr(3) by simp
  next
    case 3
    then obtain b1 where "oggpack_copy_block b src (int n) = Some b1"
      "writer sbit b1" "written sbit b1 = written sbit b @ map (sbit src) [0..<8 * n]"
      using block_law [OF w _ l(1)] by blast
    then show ?thesis using 3 tail [of b1] nr(2-4) by (simp add: oggpack_writecopy_helper_def)
  qed
qed

lemma writecopy_fits:
  assumes w: "writer sbit b" and len: "bits \<le> 8 * length src"
    and al: "endbit b = 0" "endbyte b + int (bits div 8) + 1 < storage b"
    and mem: "\<forall>n. grant E n" "storage b \<le> LONG_MAX - 256"
  shows "\<exists>b'. oggpack_writecopy_helper E b src (int bits) (pwrite E) msbf = Some b' \<and>
    writer sbit b' \<and> written sbit b' = written sbit b @ map (sbit src) [0..<bits]"
proof (rule copy_split [of bits])
  fix n r
  assume nr: "bits = 8 * n + r" "r < 8" "cdiv (int bits) 8 = int n" "int bits - int n * 8 = int r"
    "bits div 8 = n" and split: "[0..<bits] = [0..<8 * n] @ [8 * n..<8 * n + r]"
  have l: "n \<le> length src" "8 * n + r \<le> 8 * length src" using len nr by auto
  obtain b1 where b1: "oggpack_copy_block b src (int n) = Some b1" "writer sbit b1"
    "storage b1 = storage b" "written sbit b1 = written sbit b @ map (sbit src) [0..<8 * n]"
    using block_law [OF w al(1) l(1)] al nr by auto
  have "oggpack_expand E b1 \<noteq> Err" using oggpack_expand_granted [OF b1(2)] mem b1(3) by auto
  then show ?thesis using copy_tail_law [OF b1(2) nr(2) l(2), of E] al nr split b1
    by (auto simp: oggpack_writecopy_helper_def)
qed

lemma trunc_law:
  assumes w: "writer sbit b" and n: "n \<le> nat (oggpack_bits b)"
    and b': "b' = b\<lparr>ptr := Some (int (n div 8)), endbit := int (n mod 8), endbyte := int (n div 8)\<rparr>"
    and buf: "buffer b = Some buf"
    and x: "\<And>r. r < 8 \<Longrightarrow> sbit [x] r \<longleftrightarrow> r < n mod 8 \<and> sbit [buf ! (n div 8)] r"
  shows "pget b' 0 = Some (buf ! (n div 8))"
    and "\<exists>b''. pset b' 0 x = Some b'' \<and> writer sbit b'' \<and> written sbit b'' = take n (written sbit b)"
proof -
  from w buf obtain p e where at: "pack_at b buf p e" and st: "storage b = int (length buf)" and p: "p < length buf"
    unfolding writer_def by (auto simp: pack_at_def)
  have np: "n \<le> 8 * p + e" "e < 8" using n at oggpack_bits_at [OF at] by (auto simp: pack_at_def)
  have q: "n div 8 < length buf" using np p by simp
  show "pget b' 0 = Some (buf ! (n div 8))"
    using q buf by (simp add: b' pget_def rd_def nat_div_distrib)
  let ?buf = "buf[n div 8 := x]" and ?b = "b'\<lparr>buffer := Some (buf[n div 8 := x])\<rparr>"
  have ps: "pset b' 0 x = Some ?b" using q buf by (simp add: b' pset_def wr_def nat_div_distrib)
  have at': "pack_at ?b ?buf (n div 8) (n mod 8)" by (simp add: pack_at_def b')
  have keep: "sbit ?buf i = sbit buf i" if "i < n" for i
  proof (cases "i div 8 = n div 8")
    case True
    then have "i mod 8 < n mod 8" using that by (metis div_mult_mod_eq nat_add_left_cancel_less)
    moreover have "sbit ?buf i = sbit [x] (i mod 8)" using True q by (intro sbit_cong) auto
    moreover have "sbit [buf ! (n div 8)] (i mod 8) = sbit buf i" using True q by (intro sbit_cong) auto
    ultimately show ?thesis using x [of "i mod 8"] by simp
  next
    case False
    then show ?thesis by (intro sbit_cong) auto
  qed
  have clean: "\<not> sbit ?buf i" if "8 * (n div 8) + n mod 8 \<le> i" "i < 8 * (n div 8) + 8" for i
  proof -
    have d: "i div 8 = n div 8" using that by simp
    then have "\<not> i mod 8 < n mod 8" using that by (metis div_mult_mod_eq mult.commute nat_add_left_cancel_le not_le)
    moreover have "sbit ?buf i = sbit [x] (i mod 8)" using d q by (intro sbit_cong) auto
    ultimately show ?thesis using x [of "i mod 8"] by simp
  qed
  have "writer sbit ?b" unfolding writer_def using at' clean q st
    by (intro exI [of _ ?buf] exI [of _ "n div 8"] exI [of _ "n mod 8"]) (simp add: b')
  moreover have "written sbit ?b = take n (written sbit b)"
    using oggpack_bits_at [OF at'] oggpack_bits_at [OF at] buf np keep
    by (simp add: written_def take_map)
  ultimately show "\<exists>b''. pset b' 0 x = Some b'' \<and> writer sbit b'' \<and> written sbit b'' = take n (written sbit b)"
    using ps by blast
qed

end

interpretation lsb: block_packer lsb_bit "\<lambda>n v. bit v" oggpack_write oggpack_read False
  by unfold_locales (auto simp: lsb_bit_def bit_word_ucast_iff)

interpretation msb: block_packer msb_bit "\<lambda>n v j. bit v (n - 1 - j)" oggpackB_write oggpackB_read True
  by unfold_locales (auto simp: msb_bit_def bit_word_ucast_iff bit_drop_bit_eq)

lemma rd_ogg_mask8B: "n < 8 \<Longrightarrow> \<exists>m. rd ogg_mask8B (int n) = Some m \<and> (\<forall>r < 8. bit m (7 - r) \<longleftrightarrow> r < n)"
proof -
  assume lt: "n < 8"
  have "\<forall>n \<in> set [0..<8]. \<forall>r \<in> set [0..<8]. bit (ogg_mask8B ! n) (7 - r) \<longleftrightarrow> r < n"
    by code_simp
  then have "\<forall>r < 8. bit (ogg_mask8B ! n) (7 - r) \<longleftrightarrow> r < n"
    using lt by simp
  then show ?thesis using lt by (simp add: mem_simps ogg_mask8B_def)
qed

lemma writetrunc_law:
  assumes "writer lsb_bit b" and "n \<le> nat (oggpack_bits b)"
  shows "\<exists>b'. oggpack_writetrunc b (int n) = Some b' \<and> writer lsb_bit b' \<and>
     written lsb_bit b' = take n (written lsb_bit b)"
proof -
  obtain buf where buf: "buffer b = Some buf" and p: "ptr b \<noteq> None" using assms(1) by (auto simp: writer_def pack_at_def)
  define x where "x = buf ! (n div 8) AND (ucast (Bit_Operations.mask (n mod 8) :: ulong) :: byte)"
  have "lsb_bit [x] r \<longleftrightarrow> r < n mod 8 \<and> lsb_bit [buf ! (n div 8)] r" if "r < 8" for r
    using that by (auto simp: lsb_bit_def x_def bit_and_iff bit_word_ucast_iff bit_mask_iff)
  note t = lsb.trunc_law [OF assms refl buf this]
  have "rd ogg_mask (int (n mod 8)) = Some (Bit_Operations.mask (n mod 8))" by (intro rd_ogg_mask) auto
  moreover have "int n - int n div 8 * 8 = int (n mod 8)" "int n div 8 = int (n div 8)"
    by (simp_all add: minus_div_mult_eq_mod zmod_int zdiv_int)
  ultimately show ?thesis using t p unfolding x_def by (auto simp: oggpack_writetrunc_def Let_def)
qed

lemma writetruncB_law:
  assumes "writer msb_bit b" and "n \<le> nat (oggpack_bits b)"
  shows "\<exists>b'. oggpackB_writetrunc b (int n) = Some b' \<and> writer msb_bit b' \<and>
     written msb_bit b' = take n (written msb_bit b)"
proof -
  obtain buf where buf: "buffer b = Some buf" and p: "ptr b \<noteq> None" using assms(1) by (auto simp: writer_def pack_at_def)
  obtain m where m: "rd ogg_mask8B (int (n mod 8)) = Some m" "\<forall>r < 8. bit m (7 - r) \<longleftrightarrow> r < n mod 8"
    using rd_ogg_mask8B [of "n mod 8"] by auto
  define x where "x = buf ! (n div 8) AND m"
  have "msb_bit [x] r \<longleftrightarrow> r < n mod 8 \<and> msb_bit [buf ! (n div 8)] r" if "r < 8" for r
    using that m(2) by (auto simp: msb_bit_def x_def bit_and_iff)
  note t = msb.trunc_law [OF assms refl buf this]
  have "int n - int n div 8 * 8 = int (n mod 8)" "int n div 8 = int (n div 8)"
    by (simp_all add: minus_div_mult_eq_mod zmod_int zdiv_int)
  then show ?thesis using t p m(1) unfolding x_def by (auto simp: oggpackB_writetrunc_def Let_def)
qed

subsection \<open>Properties\<close>

text \<open>C29.  Whatever list of fields of at most 32 bits is written with \<open>oggpack_write\<close> into a buffer
  opened by \<open>oggpack_writeinit\<close>, while the allocator grants every request, the number of bits
  reported is the sum of the widths, and \<open>oggpack_read\<close> on the bytes obtained returns the low bits
  of every value, in order.  The fields have at most \<open>2^31 - 1\<close> bytes together, what the \<open>int\<close> of
  \<open>oggpack_readinit\<close> can hold.\<close>

theorem oggpack_roundtrip:
  assumes "\<forall>f \<in> set fs. field_width f \<le> 32 \<and> (\<forall>n. grant (fst f) n)"
    and "\<forall>n. grant E n" and "256 * int (length fs + 1) \<le> LONG_MAX"
    and "(\<Sum>f\<leftarrow>fs. int (field_width f)) \<le> 8 * (2 ^ 31 - 1)"
  shows "\<exists>b0 b buf r. oggpack_writeinit E = Some b0 \<and> pack_fields oggpack_write b0 fs = Some b \<and>
     oggpack_get_buffer b = Some buf \<and> oggpack_bits b = (\<Sum>f\<leftarrow>fs. int (field_width f)) \<and>
     unpack_fields oggpack_read (oggpack_readinit buf (oggpack_bytes b)) (map field_width fs)
       = Some (r, map field_value fs)"
  using assms by (rule lsb.roundtrip)

theorem oggpack_roundtrip_witness:
  "\<exists>b0 b buf r. oggpack_writeinit ample = Some b0 \<and>
     pack_fields oggpack_write b0 [(ample, 5, 3), (ample, 0xffffffff, 32), (ample, 0, 0), (ample, 1000, 7)]
       = Some b \<and>
     oggpack_get_buffer b = Some buf \<and> oggpack_bits b = 42 \<and>
     unpack_fields oggpack_read (oggpack_readinit buf (oggpack_bytes b)) [3, 32, 0, 7]
       = Some (r, [5, 0xffffffff, 0, 104])"
  using oggpack_roundtrip
    [of "[(ample, 5, 3), (ample, 0xffffffff, 32), (ample, 0, 0), (ample, 1000, 7)]" ample]
  by (simp add: LONG_MAX_def take_bit_word_eq_self)

text \<open> The same round trip for the most-significant-bit-first packer \<open>oggpackB\<close>.\<close>

lemma oggpackB_roundtrip:
  assumes "\<forall>f \<in> set fs. field_width f \<le> 32 \<and> (\<forall>n. grant (fst f) n)"
    and "\<forall>n. grant E n" and "256 * int (length fs + 1) \<le> LONG_MAX"
    and "(\<Sum>f\<leftarrow>fs. int (field_width f)) \<le> 8 * (2 ^ 31 - 1)"
  shows "\<exists>b0 b buf r. oggpack_writeinit E = Some b0 \<and> pack_fields oggpackB_write b0 fs = Some b \<and>
     oggpack_get_buffer b = Some buf \<and> oggpack_bits b = (\<Sum>f\<leftarrow>fs. int (field_width f)) \<and>
     unpack_fields oggpackB_read (oggpack_readinit buf (oggpack_bytes b)) (map field_width fs)
       = Some (r, map field_value fs)"
  using assms by (rule msb.roundtrip)

lemma oggpackB_roundtrip_witness:
  "\<exists>b0 b buf r. oggpack_writeinit ample = Some b0 \<and>
     pack_fields oggpackB_write b0 [(ample, 5, 3), (ample, 0xffffffff, 32), (ample, 9, 4)] = Some b \<and>
     oggpack_get_buffer b = Some buf \<and> oggpack_bits b = 39 \<and>
     unpack_fields oggpackB_read (oggpack_readinit buf (oggpack_bytes b)) [3, 32, 4]
       = Some (r, [5, 0xffffffff, 9])"
  using oggpackB_roundtrip [of "[(ample, 5, 3), (ample, 0xffffffff, 32), (ample, 9, 4)]" ample]
  by (simp add: LONG_MAX_def take_bit_word_eq_self)

text \<open>C30.  Writing is memory safe whatever the allocator does: a sequence of fields written after
  \<open>oggpack_writeinit\<close> never touches memory outside the buffer, and the buffer is afterwards either
  cleared or holds exactly the bits of the fields.\<close>

theorem oggpack_write_safe:
  assumes "oggpack_writeinit E = Some b" and "\<forall>f \<in> set fs. field_width f \<le> 32"
  shows "\<exists>b'. pack_fields oggpack_write b fs = Some b' \<and>
     (b' = oggpack_zero \<or> writer lsb_bit b' \<and>
        written lsb_bit b' = concat (map (\<lambda>(E, v, n). map (bit v) [0..<n]) fs))"
  using lsb.pack_law [OF lsb.writeinit_writer(1) [OF assms(1)] assms(2)]
    lsb.writeinit_writer(2) [OF assms(1)]
  by (simp add: lsb.field_bits_def [abs_def] case_prod_beta')

theorem oggpack_write_safe_witness:
  "\<exists>b'. pack_fields oggpack_write (the (oggpack_writeinit ample))
      [(\<lparr>grant = \<lambda>n. False, junk = \<lambda>i. 0, junk_int = \<lambda>i. 0\<rparr>, 6, 3)] = Some b' \<and>
     (b' = oggpack_zero \<or> writer lsb_bit b' \<and> written lsb_bit b' = [False, True, True])"
  using oggpack_write_safe [of ample _ "[(\<lparr>grant = \<lambda>n. False, junk = \<lambda>i. 0, junk_int = \<lambda>i. 0\<rparr>, 6, 3)]"]
  by (simp add: oggpack_writeinit_def realloc_bytes_def wr_def BUFFER_INCREMENT_def bit_numeral_rec
      upt_rec numeral_3_eq_3)

text \<open> The outcome of \<open>oggpack_read\<close> from any position inside a valid buffer, for any requested
  width: it never leaves the buffer; if the width is between 0 and 32 and that many bits remain, the
  value is in range and exactly those bits are consumed; otherwise the buffer is put into the
  overflow state and the result is \<open>-1\<close>.\<close>

lemma oggpack_read_outcome:
  assumes "reader b"
  shows "if 0 \<le> n \<and> n \<le> 32 \<and> n \<le> int (length (remaining lsb_bit b))
    then \<exists>b' x. oggpack_read b n = Some (b', x) \<and> 0 \<le> x \<and> x < 2 ^ nat n \<and> reader b' \<and>
                remaining lsb_bit b' = drop (nat n) (remaining lsb_bit b)
    else oggpack_read b n = Some (oggpack_overflow b, - 1)"
  using assms by (rule reader_read)

lemma reader_readinit: "0 \<le> n \<Longrightarrow> n \<le> int (length buf) \<Longrightarrow> n < 2 ^ 31 \<Longrightarrow> reader (oggpack_readinit buf n)"
  unfolding reader_def
  by (intro exI [of _ buf] exI [of _ 0]) (simp add: pack_at_def oggpack_readinit_def oggpack_zero_def c_int_id)

lemma length_remaining_readinit:
  "0 \<le> n \<Longrightarrow> n < 2 ^ 31 \<Longrightarrow> length (remaining sbit (oggpack_readinit buf n)) = nat (8 * n)"
  by (simp add: remaining_def oggpack_readinit_def oggpack_bits_def oggpack_zero_def c_int_id)

lemma oggpack_read_outcome_witness:
  "\<exists>b' x. oggpack_read (oggpack_readinit [0xab, 0xcd] 2) 12 = Some (b', x) \<and> 0 \<le> x \<and> x < 4096 \<and> reader b' \<and>
      remaining lsb_bit b' = drop 12 (remaining lsb_bit (oggpack_readinit [0xab, 0xcd] 2))"
  using oggpack_read_outcome [of "oggpack_readinit [0xab, 0xcd] 2" 12]
  by (simp add: reader_readinit length_remaining_readinit)

text \<open>Overflow is sticky: once a read has failed, every later read of any width, one-bit reads
  included, returns \<open>-1\<close> again and touches no memory, in both bit orders.\<close>

lemma oggpack_overflow_sticky:
  "oggpack_read (oggpack_overflow b) n = Some (oggpack_overflow b, - 1) \<and>
   oggpackB_read (oggpack_overflow b) n = Some (oggpack_overflow b, - 1) \<and>
   oggpack_look (oggpack_overflow b) n = Some (- 1) \<and>
   oggpackB_look (oggpack_overflow b) n = Some (- 1) \<and>
   oggpack_read1 (oggpack_overflow b) = Some (oggpack_overflow b, - 1) \<and>
   oggpackB_read1 (oggpack_overflow b) = Some (oggpack_overflow b, - 1)"
proof -
  have "oggpack_overflow (oggpack_overflow b) = oggpack_overflow b" by (simp add: oggpack_overflow_def)
  then show ?thesis
    using overrun_read [OF overrun_overflow, of b] by (simp add: oggpack_look_read oggpackB_look_read)
qed

text \<open> The one-bit readers are the general readers at width one, and a look followed by an advance
  is a read.\<close>

lemma oggpack_read_equivalences:
  assumes "reader b"
  shows "oggpack_read1 b = oggpack_read b 1 \<and> oggpackB_read1 b = oggpackB_read b 1 \<and>
    (0 \<le> n \<and> n \<le> 32 \<and> n \<le> int (length (remaining lsb_bit b)) \<longrightarrow>
       (\<exists>x. oggpack_look b n = Some x \<and> oggpack_read b n = Some (oggpack_adv b n, x)))"
proof -
  have e: "0 \<le> endbit b" "endbit b < 8" using assms by (auto simp: reader_def pack_at_def)
  have "\<exists>x. oggpack_look b n = Some x \<and> oggpack_read b n = Some (oggpack_adv b n, x)"
    if ok: "0 \<le> n \<and> n \<le> 32 \<and> n \<le> int (length (remaining lsb_bit b))"
  proof -
    obtain b' x where "oggpack_read b n = Some (b', x)" "0 \<le> x"
      using reader_read [OF assms, of n] unfolding if_P [OF ok] by blast
    then show ?thesis using read_adv [of b n b' x] e by (simp add: oggpack_look_read)
  qed
  then show ?thesis using read1_read [OF assms] by blast
qed

lemma oggpack_read_equivalences_witness:
  "oggpack_read1 (oggpack_readinit [0xab] 1) = oggpack_read (oggpack_readinit [0xab] 1) 1 \<and>
   (\<exists>x. oggpack_look (oggpack_readinit [0xab] 1) 5 = Some x \<and>
        oggpack_read (oggpack_readinit [0xab] 1) 5 = Some (oggpack_adv (oggpack_readinit [0xab] 1) 5, x))"
  using oggpack_read_equivalences [of "oggpack_readinit [0xab] 1" 5]
  by (simp add: reader_readinit length_remaining_readinit)

text \<open> A block copy into an aligned buffer with room appends exactly the first \<open>bits\<close> bits of the
  source.\<close>

lemma oggpack_writecopy_appends:
  assumes "writer lsb_bit b" and "bits \<le> 8 * length src"
    and "endbit b = 0" and "endbyte b + int (bits div 8) + 1 < storage b"
    and "\<forall>n. grant E n" and "storage b \<le> LONG_MAX - 256"
  shows "\<exists>b'. oggpack_writecopy E b src (int bits) = Some b' \<and> writer lsb_bit b' \<and>
    written lsb_bit b' = written lsb_bit b @ map (lsb_bit src) [0..<bits]"
  unfolding oggpack_writecopy_def using assms by (rule lsb.writecopy_fits)

lemma oggpack_writecopy_appends_witness:
  "\<exists>b'. oggpack_writecopy ample (the (oggpack_writeinit ample)) [0xff, 0x01] 12 = Some b' \<and>
     writer lsb_bit b' \<and> written lsb_bit b' = map (lsb_bit [0xff, 0x01]) [0..<12]"
proof -
  obtain b where b: "oggpack_writeinit ample = Some b" "endbit b = 0" "endbyte b = 0"
    by (auto simp: oggpack_writeinit_def realloc_bytes_def wr_def BUFFER_INCREMENT_def oggpack_zero_def)
  note i = lsb.writeinit_writer [OF b(1)]
  show ?thesis
    using oggpack_writecopy_appends [OF i(1), of 12 "[0xff, 0x01]" ample] b i by (simp add: LONG_MAX_def)
qed

text \<open>C31.  An aligned block copy never grows the buffer: whenever the source does not fit into the
  current storage the whole buffer is cleared, even if the allocator would have granted the larger
  size (the overflow guard in front of \<open>realloc\<close> compares against the old storage).\<close>

theorem oggpack_writecopy_never_grows:
  assumes "endbit b = 0" and "storage b \<le> endbyte b + cdiv bits 8 + 1"
  shows "oggpack_writecopy E b src bits = Some oggpack_zero \<and>
         oggpackB_writecopy E b src bits = Some oggpack_zero"
  using assms by (simp add: oggpack_writecopy_def oggpackB_writecopy_def helper_no_room)

theorem oggpack_writecopy_never_grows_witness:
  "oggpack_writecopy ample (oggpack_readinit (replicate 256 0) 256) (replicate 300 1) 2400 = Some oggpack_zero"
  using oggpack_writecopy_never_grows [of "oggpack_readinit (replicate 256 0) 256" 2400 ample]
  by (simp add: oggpack_readinit_def oggpack_zero_def c_int_id)

text \<open>Truncation keeps exactly the first \<open>n\<close> bits and leaves a buffer to which writing can
  continue, in both bit orders.\<close>

lemma oggpack_writetrunc_takes:
  assumes "n \<le> nat (oggpack_bits b)"
  shows "(writer lsb_bit b \<longrightarrow> (\<exists>b'. oggpack_writetrunc b (int n) = Some b' \<and> writer lsb_bit b' \<and>
            written lsb_bit b' = take n (written lsb_bit b))) \<and>
         (writer msb_bit b \<longrightarrow> (\<exists>b'. oggpackB_writetrunc b (int n) = Some b' \<and> writer msb_bit b' \<and>
            written msb_bit b' = take n (written msb_bit b)))"
  using writetrunc_law [OF _ assms] writetruncB_law [OF _ assms] by blast

end
