(* ===== verification/Ogg_Page.thy ===== *)
theory Ogg_Page
  imports Prelude
begin

unbundle bit_operations_syntax

section \<open>Ogg pages and their checksum (opus/ogg/framing.c, first part)\<close>

text \<open>
  \<open>ogg_page\<close> holds the bytes its two C pointers delimit: \<open>og_header\<close> is \<open>header[0..header_len)\<close> and
  \<open>og_body\<close> is \<open>body[0..body_len)\<close>.  The accessors read fixed offsets of the header and yield
  \<^const>\<open>None\<close> when the header is too short.  The checksum is a table-driven CRC; the lemmas relate it
  to long division by the generator polynomial and derive which corruptions it detects.
\<close>

record ogg_page =
  og_header :: "byte list"
  og_body :: "byte list"

definition ogg_page_version :: "ogg_page \<Rightarrow> int option" where
  "ogg_page_version og = do { x \<leftarrow> rd (og_header og) 4; Some (uint x) }"

definition ogg_page_continued :: "ogg_page \<Rightarrow> int option" where
  "ogg_page_continued og = do { x \<leftarrow> rd (og_header og) 5; Some (uint (x AND 0x01)) }"

definition ogg_page_bos :: "ogg_page \<Rightarrow> int option" where
  "ogg_page_bos og = do { x \<leftarrow> rd (og_header og) 5; Some (uint (x AND 0x02)) }"

definition ogg_page_eos :: "ogg_page \<Rightarrow> int option" where
  "ogg_page_eos og = do { x \<leftarrow> rd (og_header og) 5; Some (uint (x AND 0x04)) }"

definition ogg_page_granulepos :: "ogg_page \<Rightarrow> int option" where
  "ogg_page_granulepos og = do {
     let page = og_header og;
     x \<leftarrow> rd page 13; let granulepos = (ucast x :: ulong);
     x \<leftarrow> rd page 12; let granulepos = push_bit 8 granulepos OR ucast x;
     x \<leftarrow> rd page 11; let granulepos = push_bit 8 granulepos OR ucast x;
     x \<leftarrow> rd page 10; let granulepos = push_bit 8 granulepos OR ucast x;
     x \<leftarrow> rd page 9; let granulepos = push_bit 8 granulepos OR ucast x;
     x \<leftarrow> rd page 8; let granulepos = push_bit 8 granulepos OR ucast x;
     x \<leftarrow> rd page 7; let granulepos = push_bit 8 granulepos OR ucast x;
     x \<leftarrow> rd page 6; let granulepos = push_bit 8 granulepos OR ucast x;
     Some (sint granulepos) }"

definition le32 :: "byte list \<Rightarrow> int \<Rightarrow> u32 option" where
  "le32 xs i = do {
     a \<leftarrow> rd xs i; b \<leftarrow> rd xs (i + 1); c \<leftarrow> rd xs (i + 2); d \<leftarrow> rd xs (i + 3);
     Some (ucast a OR push_bit 8 (ucast b) OR push_bit 16 (ucast c) OR push_bit 24 (ucast d)) }"

definition ogg_page_serialno :: "ogg_page \<Rightarrow> int option" where
  "ogg_page_serialno og = map_option sint (le32 (og_header og) 14)"

definition ogg_page_pageno :: "ogg_page \<Rightarrow> int option" where
  "ogg_page_pageno og = map_option sint (le32 (og_header og) 18)"

fun ogg_page_packets_loop :: "byte list \<Rightarrow> int \<Rightarrow> nat \<Rightarrow> int \<Rightarrow> int option" where
  "ogg_page_packets_loop header i 0 count = Some count"
| "ogg_page_packets_loop header i (Suc n) count = do {
     x \<leftarrow> rd header (27 + i);
     ogg_page_packets_loop header (i + 1) n (if uint x < 255 then count + 1 else count) }"

definition ogg_page_packets :: "ogg_page \<Rightarrow> int option" where
  "ogg_page_packets og = do {
     n \<leftarrow> rd (og_header og) 26; ogg_page_packets_loop (og_header og) 0 (unat n) 0 }"

subsection \<open>The checksum\<close>

fun crc_entry_loop :: "nat \<Rightarrow> ulong \<Rightarrow> ulong" where
  "crc_entry_loop 0 r = r"
| "crc_entry_loop (Suc n) r =
     crc_entry_loop n (if r AND 0x80000000 \<noteq> 0 then push_bit 1 r XOR 0x04c11db7 else push_bit 1 r)"

definition ogg_crc_entry :: "ulong \<Rightarrow> u32" where
  "ogg_crc_entry index = ucast (crc_entry_loop 8 (push_bit 24 index) AND 0xffffffff)"

definition crc_lookup :: "u32 list" where
  "crc_lookup =
    [0x00000000, 0x04c11db7, 0x09823b6e, 0x0d4326d9, 0x130476dc, 0x17c56b6b,
     0x1a864db2, 0x1e475005, 0x2608edb8, 0x22c9f00f, 0x2f8ad6d6, 0x2b4bcb61,
     0x350c9b64, 0x31cd86d3, 0x3c8ea00a, 0x384fbdbd, 0x4c11db70, 0x48d0c6c7,
     0x4593e01e, 0x4152fda9, 0x5f15adac, 0x5bd4b01b, 0x569796c2, 0x52568b75,
     0x6a1936c8, 0x6ed82b7f, 0x639b0da6, 0x675a1011, 0x791d4014, 0x7ddc5da3,
     0x709f7b7a, 0x745e66cd, 0x9823b6e0, 0x9ce2ab57, 0x91a18d8e, 0x95609039,
     0x8b27c03c, 0x8fe6dd8b, 0x82a5fb52, 0x8664e6e5, 0xbe2b5b58, 0xbaea46ef,
     0xb7a96036, 0xb3687d81, 0xad2f2d84, 0xa9ee3033, 0xa4ad16ea, 0xa06c0b5d,
     0xd4326d90, 0xd0f37027, 0xddb056fe, 0xd9714b49, 0xc7361b4c, 0xc3f706fb,
     0xceb42022, 0xca753d95, 0xf23a8028, 0xf6fb9d9f, 0xfbb8bb46, 0xff79a6f1,
     0xe13ef6f4, 0xe5ffeb43, 0xe8bccd9a, 0xec7dd02d, 0x34867077, 0x30476dc0,
     0x3d044b19, 0x39c556ae, 0x278206ab, 0x23431b1c, 0x2e003dc5, 0x2ac12072,
     0x128e9dcf, 0x164f8078, 0x1b0ca6a1, 0x1fcdbb16, 0x018aeb13, 0x054bf6a4,
     0x0808d07d, 0x0cc9cdca, 0x7897ab07, 0x7c56b6b0, 0x71159069, 0x75d48dde,
     0x6b93dddb, 0x6f52c06c, 0x6211e6b5, 0x66d0fb02, 0x5e9f46bf, 0x5a5e5b08,
     0x571d7dd1, 0x53dc6066, 0x4d9b3063, 0x495a2dd4, 0x44190b0d, 0x40d816ba,
     0xaca5c697, 0xa864db20, 0xa527fdf9, 0xa1e6e04e, 0xbfa1b04b, 0xbb60adfc,
     0xb6238b25, 0xb2e29692, 0x8aad2b2f, 0x8e6c3698, 0x832f1041, 0x87ee0df6,
     0x99a95df3, 0x9d684044, 0x902b669d, 0x94ea7b2a, 0xe0b41de7, 0xe4750050,
     0xe9362689, 0xedf73b3e, 0xf3b06b3b, 0xf771768c, 0xfa325055, 0xfef34de2,
     0xc6bcf05f, 0xc27dede8, 0xcf3ecb31, 0xcbffd686, 0xd5b88683, 0xd1799b34,
     0xdc3abded, 0xd8fba05a, 0x690ce0ee, 0x6dcdfd59, 0x608edb80, 0x644fc637,
     0x7a089632, 0x7ec98b85, 0x738aad5c, 0x774bb0eb, 0x4f040d56, 0x4bc510e1,
     0x46863638, 0x42472b8f, 0x5c007b8a, 0x58c1663d, 0x558240e4, 0x51435d53,
     0x251d3b9e, 0x21dc2629, 0x2c9f00f0, 0x285e1d47, 0x36194d42, 0x32d850f5,
     0x3f9b762c, 0x3b5a6b9b, 0x0315d626, 0x07d4cb91, 0x0a97ed48, 0x0e56f0ff,
     0x1011a0fa, 0x14d0bd4d, 0x19939b94, 0x1d528623, 0xf12f560e, 0xf5ee4bb9,
     0xf8ad6d60, 0xfc6c70d7, 0xe22b20d2, 0xe6ea3d65, 0xeba91bbc, 0xef68060b,
     0xd727bbb6, 0xd3e6a601, 0xdea580d8, 0xda649d6f, 0xc423cd6a, 0xc0e2d0dd,
     0xcda1f604, 0xc960ebb3, 0xbd3e8d7e, 0xb9ff90c9, 0xb4bcb610, 0xb07daba7,
     0xae3afba2, 0xaafbe615, 0xa7b8c0cc, 0xa379dd7b, 0x9b3660c6, 0x9ff77d71,
     0x92b45ba8, 0x9675461f, 0x8832161a, 0x8cf30bad, 0x81b02d74, 0x857130c3,
     0x5d8a9099, 0x594b8d2e, 0x5408abf7, 0x50c9b640, 0x4e8ee645, 0x4a4ffbf2,
     0x470cdd2b, 0x43cdc09c, 0x7b827d21, 0x7f436096, 0x7200464f, 0x76c15bf8,
     0x68860bfd, 0x6c47164a, 0x61043093, 0x65c52d24, 0x119b4be9, 0x155a565e,
     0x18197087, 0x1cd86d30, 0x029f3d35, 0x065e2082, 0x0b1d065b, 0x0fdc1bec,
     0x3793a651, 0x3352bbe6, 0x3e119d3f, 0x3ad08088, 0x2497d08d, 0x2056cd3a,
     0x2d15ebe3, 0x29d4f654, 0xc5a92679, 0xc1683bce, 0xcc2b1d17, 0xc8ea00a0,
     0xd6ad50a5, 0xd26c4d12, 0xdf2f6bcb, 0xdbee767c, 0xe3a1cbc1, 0xe760d676,
     0xea23f0af, 0xeee2ed18, 0xf0a5bd1d, 0xf464a0aa, 0xf9278673, 0xfde69bc4,
     0x89b8fd09, 0x8d79e0be, 0x803ac667, 0x84fbdbd0, 0x9abc8bd5, 0x9e7d9662,
     0x933eb0bb, 0x97ffad0c, 0xafb010b1, 0xab710d06, 0xa6322bdf, 0xa2f33668,
     0xbcb4666d, 0xb8757bda, 0xb5365d03, 0xb1f740b4]"

definition crc_step :: "u32 \<Rightarrow> byte \<Rightarrow> u32" where
  "crc_step crc_reg x =
     push_bit 8 crc_reg XOR crc_lookup ! unat ((drop_bit 24 crc_reg AND 0xff) XOR ucast x)"

definition ogg_page_crc :: "ogg_page \<Rightarrow> u32" where
  "ogg_page_crc og = foldl crc_step (foldl crc_step 0 (og_header og)) (og_body og)"

definition ogg_page_checksum_set :: "ogg_page \<Rightarrow> ogg_page option" where
  "ogg_page_checksum_set og = do {
     h \<leftarrow> mem_copy (og_header og) 22 [0, 0, 0, 0] 0 4;
     let crc_reg = ogg_page_crc (og\<lparr>og_header := h\<rparr>);
     h \<leftarrow> mem_copy h 22 [ucast crc_reg, ucast (drop_bit 8 crc_reg), ucast (drop_bit 16 crc_reg),
                        ucast (drop_bit 24 crc_reg)] 0 4;
     Some (og\<lparr>og_header := h\<rparr>) }"

text \<open>One step of the division, and a table built from its values at the powers of two.\<close>

definition crc_shift :: "u32 \<Rightarrow> u32" where
  "crc_shift r = (if bit r 31 then push_bit 1 r XOR 0x04c11db7 else push_bit 1 r)"

definition crc_shift8 :: "u32 \<Rightarrow> u32" where
  "crc_shift8 r = crc_shift (crc_shift (crc_shift (crc_shift (crc_shift (crc_shift (crc_shift (crc_shift r)))))))"

definition gf_double :: "u32 list \<Rightarrow> u32 \<Rightarrow> u32 list" where
  "gf_double xs b = xs @ map (\<lambda>x. x XOR b) xs"

lemma crc_lookup_double:
  "crc_lookup = foldl gf_double [0]
     [0x04c11db7, 0x09823b6e, 0x130476dc, 0x2608edb8, 0x4c11db70, 0x9823b6e0, 0x34867077, 0x690ce0ee]"
  by (simp add: gf_double_def crc_lookup_def)

lemma crc_basis:
  "map crc_shift8 [0x01000000, 0x02000000, 0x04000000, 0x08000000, 0x10000000, 0x20000000, 0x40000000, 0x80000000] =
     [0x04c11db7, 0x09823b6e, 0x130476dc, 0x2608edb8, 0x4c11db70, 0x9823b6e0, 0x34867077, 0x690ce0ee]"
  by (simp add: crc_shift8_def crc_shift_def)

lemma crc_shift_xor: "crc_shift (a XOR b) = crc_shift a XOR crc_shift b"
  by (auto simp: crc_shift_def bit_xor_iff push_bit_xor ac_simps intro!: bit_word_eqI)

lemma crc_shift_inj: "inj crc_shift"
proof (rule injI)
  have z: "a = 0" if "crc_shift a = 0" for a
  proof (rule bit_word_eqI)
    fix n assume n: "n < LENGTH(32)"
    have "bit (crc_shift a) 0 = bit a 31" by (auto simp: crc_shift_def bit_xor_iff bit_push_bit_iff simp del: push_bit_numeral push_bit_Suc push_bit_of_1 )
    then have top: "\<not> bit a 31" using that by simp
    then have "push_bit 1 a = 0" using that by (simp add: crc_shift_def)
    then have "\<not> bit (push_bit 1 a) (Suc n)" by (simp only: bit_0_eq bot_apply) simp
    then have "n < 31 \<Longrightarrow> \<not> bit a n" by (simp only: bit_push_bit_iff) simp
    then show "bit a n = bit 0 n" using n top by (cases "n = 31") simp_all
  qed
  fix a b assume "crc_shift a = crc_shift b"
  then have "crc_shift (a XOR b) = 0" by (simp add: crc_shift_xor)
  then have "a XOR b = 0" by (rule z)
  then show "a = b" by (metis xor.left_neutral xor.assoc xor_self_eq xor.right_neutral)
qed

lemma crc_shift_push:
  assumes "k \<le> 31" and "\<not> bit r (31 - k)"
  shows "crc_shift (push_bit k r) = push_bit (Suc k) r"
  using assms by (simp add: crc_shift_def bit_push_bit_iff)

lemma crc_shift8_low:
  assumes "\<And>n. 24 \<le> n \<Longrightarrow> \<not> bit r n"
  shows "crc_shift8 r = push_bit 8 r"
  using crc_shift_push [of 0 r] crc_shift_push [of 1 r] crc_shift_push [of 2 r] crc_shift_push [of 3 r]
    crc_shift_push [of 4 r] crc_shift_push [of 5 r] crc_shift_push [of 6 r] crc_shift_push [of 7 r] assms
  by (simp add: numeral_eq_Suc crc_shift8_def)

text \<open>The table at index \<open>i\<close> is eight division steps on \<open>i\<close> moved to the top byte.\<close>

lemma crc_shift8_xor: "crc_shift8 (a XOR b) = crc_shift8 a XOR crc_shift8 b"
  by (simp only: crc_shift8_def crc_shift_xor)

lemma gf_double_map:
  assumes G: "\<And>a b. G (a XOR b) = G a XOR G b" and "k < 8"
  shows "gf_double (map (\<lambda>i. G (push_bit 24 (word_of_nat i :: u32))) [0..<2 ^ k]) (G (push_bit (24 + k) 1)) =
     map (\<lambda>i. G (push_bit 24 (word_of_nat i :: u32))) [0..<2 ^ Suc k]"
proof -
  have *: "push_bit 24 (word_of_nat (2 ^ k + i) :: u32) = push_bit 24 (word_of_nat i) XOR push_bit (24 + k) 1"
    if "i < 2 ^ k" for i
  proof -
    have "word_of_nat (2 ^ k + i) = (word_of_nat i :: u32) + push_bit k 1" by (simp add: push_bit_eq_mult)
    also have "\<dots> = word_of_nat i XOR push_bit k 1"
    proof (rule disjunctive_add_eq_xor)
      show "word_of_nat i AND push_bit k 1 = (0 :: u32)"
        using take_bit_nat_eq_self [OF that] bit_take_bit_iff [of k i k]
        by (intro bit_word_eqI) (auto simp: bit_and_iff bit_push_bit_iff bit_exp_iff bit_of_nat_iff)
    qed
    finally have "word_of_nat (2 ^ k + i) = (word_of_nat i :: u32) XOR push_bit k 1" .
    then show ?thesis by (simp only: push_bit_xor push_bit_push_bit)
  qed
  have "[0..<2 ^ Suc k] = [0..<2 ^ k] @ map ((+) (2 ^ k)) [0..<2 ^ k]"
    by (rule nth_equalityI) (auto simp: nth_append)
  moreover have "map (\<lambda>x. x XOR G (push_bit (24 + k) 1)) (map (\<lambda>i. G (push_bit 24 (word_of_nat i))) [0..<2 ^ k])
      = map (\<lambda>i. G (push_bit 24 (word_of_nat i))) (map ((+) (2 ^ k)) [0..<2 ^ k])"
  proof (rule nth_equalityI)
    fix j assume "j < length (map (\<lambda>x. x XOR G (push_bit (24 + k) 1)) (map (\<lambda>i. G (push_bit 24 (word_of_nat i))) [0..<2 ^ k]))"
    then have "j < 2 ^ k" by simp
    then show "map (\<lambda>x. x XOR G (push_bit (24 + k) 1)) (map (\<lambda>i. G (push_bit 24 (word_of_nat i))) [0..<2 ^ k]) ! j
      = map (\<lambda>i. G (push_bit 24 (word_of_nat i))) (map ((+) (2 ^ k)) [0..<2 ^ k]) ! j"
      using * [of j] by (simp del: of_nat_add of_nat_power push_bit_of_1 add: G [symmetric])
  qed simp
  ultimately show ?thesis by (simp only: gf_double_def map_append)
qed

lemma crc_lookup_eq: "crc_lookup = map (\<lambda>i. crc_shift8 (push_bit 24 (word_of_nat i))) [0..<256]"
proof -
  let ?T = "\<lambda>k. map (\<lambda>i. crc_shift8 (push_bit 24 (word_of_nat i))) [0..<2 ^ k]"
  have step: "gf_double (?T k) (crc_shift8 (push_bit (24 + k) 1)) = ?T (Suc k)" if "k < 8" for k
    by (rule gf_double_map [OF crc_shift8_xor that])
  have m: "map (\<lambda>k. crc_shift8 (push_bit (24 + k) 1)) [0..<8] =
     [0x04c11db7, 0x09823b6e, 0x130476dc, 0x2608edb8, 0x4c11db70, 0x9823b6e0, 0x34867077, 0x690ce0ee]"
    using crc_basis by (simp add: upt_rec push_bit_eq_mult)
  have p: "(256 :: nat) = 2 ^ 8" by simp
  have "foldl gf_double [0] (map (\<lambda>k. crc_shift8 (push_bit (24 + k) 1)) [0..<n]) = ?T n" if "n \<le> 8" for n
    using that
  proof (induction n)
    case 0
    show ?case by (simp add: crc_shift8_def crc_shift_def)
  next
    case (Suc n)
    then show ?case using step [of n] by simp
  qed
  from this [of 8] have "crc_lookup = ?T 8" unfolding crc_lookup_double m by simp
  then show ?thesis by (simp only: p)
qed

lemma crc_step_shift: "crc_step r x = crc_shift8 (r XOR push_bit 24 (ucast x))"
proof -
  define i where "i = (drop_bit 24 r AND 0xff) XOR (ucast x :: u32)"
  have m: "(0xff :: u32) = Bit_Operations.mask 8" by (simp add: mask_eq_exp_minus_1)
  have ib: "bit i n \<longleftrightarrow> n < 8 \<and> (bit r (24 + n) \<noteq> bit x n)" for n
    by (auto simp: i_def m bit_xor_iff bit_and_iff bit_mask_iff bit_drop_bit_eq bit_word_ucast_iff add.commute
        dest: byte_bit_bound bit_imp_le_length)
  have "i = take_bit 8 i" by (rule bit_word_eqI) (simp add: bit_take_bit_iff ib)
  then have "uint i = uint (take_bit 8 i)" by (rule arg_cong)
  also have "\<dots> < 2 ^ 8" by (simp only: unsigned_take_bit_eq take_bit_int_less_exp)
  finally have "uint i < 2 ^ 8" .
  then have lt: "unat i < 256" using nat_less_iff [of "uint i" 256] by simp
  have split: "r XOR push_bit 24 (ucast x) = take_bit 24 r XOR push_bit 24 i"
    by (rule bit_word_eqI) (auto simp: bit_xor_iff bit_take_bit_iff bit_push_bit_iff ib bit_word_ucast_iff)
  have "crc_step r x = push_bit 8 r XOR crc_shift8 (push_bit 24 i)"
    using lt by (simp add: crc_step_def i_def [symmetric] crc_lookup_eq)
  also have "push_bit 8 r = push_bit 8 (take_bit 24 r)"
    by (rule bit_word_eqI) (auto simp: bit_push_bit_iff bit_take_bit_iff)
  also have "\<dots> = crc_shift8 (take_bit 24 r)"
    by (rule crc_shift8_low [symmetric]) (simp add: bit_take_bit_iff)
  finally show ?thesis by (simp only: split crc_shift8_xor)
qed

lemma crc_shift8_inj: "crc_shift8 a = crc_shift8 b \<longleftrightarrow> a = b"
  using crc_shift_inj by (simp add: crc_shift8_def inj_eq)

lemma xor_cancel_right: "r XOR y = r' XOR y \<longleftrightarrow> r = (r' :: u32)"
  by (metis xor.assoc xor_self_eq xor.right_neutral)

lemma crc_step_inj: "crc_step r x = crc_step r' x \<longleftrightarrow> r = r'"
  by (simp only: crc_step_shift crc_shift8_inj xor_cancel_right)

lemma crc_fold_inj: "foldl crc_step r xs = foldl crc_step r' xs \<longleftrightarrow> r = r'"
  by (induction xs arbitrary: r r') (simp_all add: crc_step_inj)

text \<open>Four bytes at a time: the register after them depends injectively on them.\<close>

fun top_bytes :: "byte list \<Rightarrow> u32" where
  "top_bytes [] = 0"
| "top_bytes (x # xs) = push_bit 24 (ucast x) XOR drop_bit 8 (top_bytes xs)"

lemma bit_top_bytes:
  "bit (top_bytes xs) n \<longleftrightarrow> n < 32 \<and> (31 - n) div 8 < length xs \<and> bit (xs ! ((31 - n) div 8)) (n mod 8)"
proof (induction xs arbitrary: n)
  case (Cons x xs)
  show ?case
  proof (cases "24 \<le> n")
    case True
    then have "(31 - n) div 8 = 0" if "n < 32" using that by simp
    moreover have "n < 32 \<Longrightarrow> n mod 8 = n - 24" using True by (simp add: mod_if)
    ultimately show ?thesis using True
      by (auto simp: bit_xor_iff bit_push_bit_iff bit_word_ucast_iff bit_drop_bit_eq dest: bit_imp_le_length)
  next
    case False
    then have e: "(31 - n) div 8 = Suc ((31 - (8 + n)) div 8)" by (simp add: div_if)
    then show ?thesis using False Cons [of "8 + n"]
      by (auto simp: bit_xor_iff bit_push_bit_iff bit_drop_bit_eq add.commute)
  qed
qed simp

lemma top_bytes_inj:
  assumes "length xs = length ys" and "length xs \<le> 4" and "top_bytes xs = top_bytes ys"
  shows "xs = ys"
proof (rule nth_equalityI)
  fix i assume i: "i < length xs"
  show "xs ! i = ys ! i"
  proof (rule bit_word_eqI)
    fix n assume n: "n < LENGTH(8)"
    let ?m = "31 - (8 * i + 7 - n)"
    have m: "?m = n + 8 * (3 - i)" using i n assms(2) by simp
    have "?m < 32" "(31 - ?m) div 8 = i" using i n assms(2) by (auto simp: div_if)
    moreover have "?m mod 8 = n" unfolding m using n by simp
    ultimately show "bit (xs ! i) n = bit (ys ! i) n"
      using bit_top_bytes [of xs ?m] bit_top_bytes [of ys ?m] assms i by simp
  qed
qed (rule assms(1))

lemma crc_fold_top:
  "length xs \<le> 4 \<Longrightarrow> foldl crc_step r xs = (crc_shift8 ^^ length xs) (r XOR top_bytes xs)"
proof (induction xs arbitrary: r)
  case (Cons x xs)
  have "\<not> bit (top_bytes xs) n" if "n < 8" for n
  proof -
    have "(31 - n) div 8 = 3" using that by (auto simp: div_if)
    then show ?thesis using Cons.prems by (simp add: bit_top_bytes)
  qed
  then have "top_bytes xs = push_bit 8 (drop_bit 8 (top_bytes xs))"
    by (intro bit_word_eqI, case_tac "n < 8") (auto simp: bit_push_bit_iff bit_drop_bit_eq)
  also have "\<dots> = crc_shift8 (drop_bit 8 (top_bytes xs))"
    by (rule crc_shift8_low [symmetric]) (auto simp: bit_drop_bit_eq dest: bit_imp_le_length)
  finally have t: "crc_shift8 (drop_bit 8 (top_bytes xs)) = top_bytes xs" ..
  have "foldl crc_step r (x # xs) = (crc_shift8 ^^ length xs) (crc_step r x XOR top_bytes xs)"
    using Cons by simp
  also have "crc_step r x XOR top_bytes xs = crc_shift8 (r XOR top_bytes (x # xs))"
    by (simp add: crc_step_shift crc_shift8_xor t xor.assoc)
  finally show ?case by (simp add: funpow_swap1)
qed simp

lemma crc_burst:
  assumes "length xs = length ys" and "length xs \<le> 4" and "xs \<noteq> ys"
  shows "foldl crc_step r (pre @ xs @ post) \<noteq> foldl crc_step r (pre @ ys @ post)"
proof
  assume "foldl crc_step r (pre @ xs @ post) = foldl crc_step r (pre @ ys @ post)"
  then have "foldl crc_step (foldl crc_step r pre) xs = foldl crc_step (foldl crc_step r pre) ys"
    by (simp add: crc_fold_inj)
  moreover have "inj (crc_shift8 ^^ length xs)"
    by (intro inj_fn injI) (simp add: crc_shift8_inj)
  ultimately have "top_bytes xs XOR foldl crc_step r pre = top_bytes ys XOR foldl crc_step r pre"
    using assms by (simp add: crc_fold_top inj_eq xor.commute)
  then show False using top_bytes_inj [OF assms(1,2)] assms(3) by (simp add: xor_cancel_right)
qed

subsection \<open>What the checksum detects\<close>

abbreviation crc_bytes :: "u32 \<Rightarrow> byte list" where
  "crc_bytes c \<equiv> [ucast c, ucast (drop_bit 8 c), ucast (drop_bit 16 c), ucast (drop_bit 24 c)]"

lemma crc_bytes_inj: "crc_bytes c = crc_bytes c' \<Longrightarrow> c = c'"
proof (rule bit_word_eqI)
  fix n assume eq: "crc_bytes c = crc_bytes c'" and n: "n < LENGTH(32)"
  have *: "bit c (8 * k + m) = bit c' (8 * k + m)" if "k \<in> {0, 1, 2, 3}" "m < 8" for k m
  proof -
    have "(ucast (drop_bit (8 * k) c) :: byte) = ucast (drop_bit (8 * k) c')" using eq that(1) by auto
    then have "bit (ucast (drop_bit (8 * k) c) :: byte) m = bit (ucast (drop_bit (8 * k) c') :: byte) m" by simp
    then show ?thesis using that(2) by (simp add: wbit_simps bit_drop_bit_eq)
  qed
  have "n div 8 \<in> {0, 1, 2, 3}" using n by (auto simp: div_if)
  from * [OF this, of "n mod 8"] show "bit c n = bit c' n" by simp
qed

text \<open>The bytes of a page with the checksum field masked out.\<close>

definition masked :: "byte list \<Rightarrow> byte list" where
  "masked xs = take 22 xs @ [0, 0, 0, 0] @ drop 26 xs"

lemma checksum_set_eq:
  assumes "26 \<le> length (og_header og)"
  shows "ogg_page_checksum_set og = Some (og\<lparr>og_header := take 22 (og_header og) @
     crc_bytes (foldl crc_step 0 (masked (og_header og @ og_body og))) @ drop 26 (og_header og)\<rparr>)"
proof -
  let ?h = "og_header og"
  have 1: "mem_copy ?h 22 [0, 0, 0, 0] 0 4 = Some (take 22 ?h @ [0, 0, 0, 0] @ drop 26 ?h)"
    using mem_copy_whole [of 22 "[0, 0, 0, 0]" ?h] assms by simp
  have 2: "mem_copy (take 22 ?h @ [0, 0, 0, 0] @ drop 26 ?h) 22 (crc_bytes c) 0 4 =
     Some (take 22 ?h @ crc_bytes c @ drop 26 ?h)" for c
    using mem_copy_whole [of 22 "crc_bytes c" "take 22 ?h @ [0, 0, 0, 0] @ drop 26 ?h"] assms by simp
  have "foldl crc_step 0 (masked (?h @ og_body og)) =
      ogg_page_crc (og\<lparr>og_header := take 22 ?h @ [0, 0, 0, 0] @ drop 26 ?h\<rparr>)"
    using assms by (simp add: ogg_page_crc_def masked_def)
  then show ?thesis using 1 2 by (simp add: ogg_page_checksum_set_def Let_def)
qed

lemma checksum_set_short: "length (og_header og) < 26 \<Longrightarrow> ogg_page_checksum_set og = None"
  by (simp add: ogg_page_checksum_set_def mem_copy_def)

definition checksum_ok :: "ogg_page \<Rightarrow> bool" where
  "checksum_ok og \<longleftrightarrow> ogg_page_checksum_set og = Some og"

lemma checksum_ok_iff:
  "checksum_ok og \<longleftrightarrow> 26 \<le> length (og_header og) \<and>
     take 4 (drop 22 (og_header og)) = crc_bytes (foldl crc_step 0 (masked (og_header og @ og_body og)))"
proof (cases "26 \<le> length (og_header og)")
  case True
  let ?h = "og_header og" and ?c = "crc_bytes (foldl crc_step 0 (masked (og_header og @ og_body og)))"
  have h: "?h = take 22 ?h @ take 4 (drop 22 ?h) @ drop 26 ?h"
    using append_take_drop_id [of 22 ?h] append_take_drop_id [of 4 "drop 22 ?h"] by simp
  have "og\<lparr>og_header := h'\<rparr> = og \<longleftrightarrow> h' = ?h" for h' by (cases og) auto
  then have "checksum_ok og \<longleftrightarrow> take 22 ?h @ ?c @ drop 26 ?h = ?h"
    by (simp add: checksum_ok_def checksum_set_eq [OF True])
  also have "\<dots> \<longleftrightarrow> ?c = take 4 (drop 22 ?h)"
    using True by (subst (3) h) (simp only: same_append_eq append_same_eq)
  finally show ?thesis using True by auto
qed (simp add: checksum_ok_def checksum_set_short)

lemma checksum_set_ok:
  assumes "ogg_page_checksum_set og = Some og'"
  shows "checksum_ok og'"
proof -
  have l: "26 \<le> length (og_header og)" using assms checksum_set_short [of og] by (cases "26 \<le> length (og_header og)") auto
  have "masked (og_header og' @ og_body og') = masked (og_header og @ og_body og)"
    using assms l by (auto simp: checksum_set_eq masked_def)
  then show ?thesis using assms l by (auto simp: checksum_ok_iff checksum_set_eq)
qed

lemma checksum_burst:
  assumes ok: "checksum_ok og" and len: "length (og_header og') = length (og_header og)"
    and og: "og_header og @ og_body og = pre @ xs @ post"
    and og': "og_header og' @ og_body og' = pre @ ys @ post"
    and xy: "length xs = length ys" "length xs \<le> 4" "xs \<noteq> ys"
    and field: "length pre + length xs \<le> 22 \<or> 26 \<le> length pre"
  shows "\<not> checksum_ok og'"
proof
  assume ok': "checksum_ok og'"
  have l: "26 \<le> length (og_header og)" using ok by (simp add: checksum_ok_iff)
  have f: "take 4 (drop 22 (og_header og)) = take 4 (drop 22 (pre @ xs @ post))"
    "take 4 (drop 22 (og_header og')) = take 4 (drop 22 (pre @ ys @ post))"
    using l len by (simp_all flip: og og')
  have "take 4 (drop 22 (pre @ xs @ post)) = take 4 (drop 22 (pre @ ys @ post))"
    using field xy(1) by auto
  then have "foldl crc_step 0 (masked (pre @ xs @ post)) = foldl crc_step 0 (masked (pre @ ys @ post))"
    using ok ok' f by (intro crc_bytes_inj) (simp only: checksum_ok_iff og og')
  moreover have "\<exists>p q. masked (pre @ xs @ post) = p @ xs @ q \<and> masked (pre @ ys @ post) = p @ ys @ q"
    using field
  proof
    assume "length pre + length xs \<le> 22"
    then show ?thesis using xy(1)
      by (intro exI [of _ pre] exI [of _ "take (22 - length pre - length xs) post @ [0,0,0,0] @ drop (26 - length pre - length xs) post"])
        (simp add: masked_def)
  next
    assume "26 \<le> length pre"
    then show ?thesis by (intro exI [of _ "masked pre"] exI [of _ post]) (simp add: masked_def)
  qed
  ultimately show False using crc_burst [OF xy] by metis
qed

subsection \<open>Reading header fields\<close>

lemma ucast_push_bit: "(ucast (push_bit k (r :: ulong)) :: u32) = push_bit k (ucast r)"
  by (rule bit_word_eqI) (auto simp: bit_word_ucast_iff bit_push_bit_iff)

lemma crc_shift8_funpow: "(crc_shift ^^ 8) r = crc_shift8 r"
  by (simp add: crc_shift8_def numeral_eq_Suc)

lemma crc_entry_loop_shift: "ucast (crc_entry_loop n r) = (crc_shift ^^ n) (ucast r)"
proof (induction n arbitrary: r)
  case (Suc n)
  have b: "r AND 0x80000000 \<noteq> 0 \<longleftrightarrow> bit r 31"
  proof -
    have m: "(0x80000000 :: ulong) = 2 ^ 31" by simp
    show ?thesis by (simp only: m and_exp_eq_0_iff_not_bit not_not)
  qed
  have p: "(ucast (push_bit 1 r) :: u32) = push_bit 1 (ucast r)"
    by (rule ucast_push_bit)
  have x: "(ucast (push_bit 1 r XOR 0x04c11db7) :: u32) = push_bit 1 (ucast r) XOR 0x04c11db7"
    unfolding p [symmetric] by (rule bit_word_eqI) (auto simp: bit_word_ucast_iff bit_xor_iff)
  have "(ucast (if r AND 0x80000000 \<noteq> 0 then push_bit 1 r XOR 0x04c11db7 else push_bit 1 r) :: u32) = crc_shift (ucast r)"
    using b by (simp only: crc_shift_def x p bit_word_ucast_iff if_distrib) simp
  then show ?case by (simp only: crc_entry_loop.simps Suc funpow_Suc_right comp_def)
qed simp

lemma ogg_crc_entry_shift:
  assumes "i < 256" shows "ogg_crc_entry (word_of_nat i) = crc_shift8 (push_bit 24 (word_of_nat i))"
proof -
  have "(ucast (w AND 0xffffffff) :: u32) = ucast w" for w :: ulong
  proof -
    have m: "(0xffffffff :: ulong) = Bit_Operations.mask 32" by (simp add: mask_eq_exp_minus_1)
    show ?thesis unfolding m by (intro bit_word_eqI) (auto simp: bit_word_ucast_iff bit_and_iff bit_mask_iff)
  qed
  moreover have "(ucast (word_of_nat i :: ulong) :: u32) = word_of_nat i"
    by (intro bit_word_eqI) (auto simp: bit_word_ucast_iff bit_of_nat_iff)
  ultimately show ?thesis
    by (simp only: ogg_crc_entry_def crc_entry_loop_shift crc_shift8_funpow ucast_push_bit)
qed

lemma le32_le_bytes:
  assumes "\<And>k. k < 4 \<Longrightarrow> rd xs (i + int k) = Some (le_bytes 4 x ! k)"
  shows "le32 xs i = Some (word_of_int x)"
proof -
  have r: "rd xs i = Some (le_bytes 4 x ! 0)" "rd xs (i + 1) = Some (le_bytes 4 x ! 1)"
    "rd xs (i + 2) = Some (le_bytes 4 x ! 2)" "rd xs (i + 3) = Some (le_bytes 4 x ! 3)"
    using assms [of 0] assms [of 1] assms [of 2] assms [of 3] by simp_all
  let ?w = "ucast (le_bytes 4 x ! 0) OR push_bit 8 (ucast (le_bytes 4 x ! 1)) OR
       push_bit 16 (ucast (le_bytes 4 x ! 2)) OR push_bit 24 (ucast (le_bytes 4 x ! 3)) :: u32"
  have "?w = word_of_int x"
  proof (rule bit_word_eqI)
    fix n assume n: "n < LENGTH(32)"
    have u: "bit (push_bit k (ucast (y :: byte) :: u32)) n \<longleftrightarrow> k \<le> n \<and> n - k < 8 \<and> bit y (n - k)" if "k \<le> 24" for y k
      using that n by (auto simp: bit_push_bit_iff bit_word_ucast_iff dest: byte_bit_bound)
    have u0: "bit (ucast (y :: byte) :: u32) n \<longleftrightarrow> n < 8 \<and> bit y n" for y
      using n by (auto simp: bit_word_ucast_iff dest: byte_bit_bound)
    consider "n < 8" | "8 \<le> n" "n < 16" | "16 \<le> n" "n < 24" | "24 \<le> n" "n < 32" using n by fastforce
    then show "bit ?w n = bit (word_of_int x :: u32) n"
      by cases (simp_all only: bit_or_iff u u0 bit_le_bytes bit_word_of_int_iff, auto simp: bit_le_bytes)
  qed
  then show ?thesis by (simp add: le32_def r)
qed

lemma be_step:
  assumes "k < 7"
  shows "push_bit 8 (word_of_int (take_bit (8 * (7 - k)) (drop_bit (8 * Suc k) x)) :: ulong) OR
      ucast (le_bytes 8 x ! k) = word_of_int (take_bit (8 * (8 - k)) (drop_bit (8 * k) x))"
proof (rule bit_word_eqI)
  fix n assume n: "n < LENGTH(64)"
  show "bit (push_bit 8 (word_of_int (take_bit (8 * (7 - k)) (drop_bit (8 * Suc k) x)) :: ulong) OR
      ucast (le_bytes 8 x ! k)) n = bit (word_of_int (take_bit (8 * (8 - k)) (drop_bit (8 * k) x)) :: ulong) n"
  proof (cases "n < 8")
    case True
    then have "n < 8 * (8 - k)" using assms by simp
    with True show ?thesis using n assms
      by (simp add: bit_or_iff bit_push_bit_iff bit_word_ucast_iff bit_le_bytes bit_word_of_int_iff
          bit_take_bit_iff bit_drop_bit_eq)
  next
    case False
    then have "8 * Suc k + (n - 8) = 8 * k + n" "n - 8 < 8 * (7 - k) \<longleftrightarrow> n < 8 * (8 - k)" using assms by auto
    then show ?thesis using n False
      by (auto simp: bit_or_iff bit_push_bit_iff bit_word_ucast_iff bit_word_of_int_iff
          bit_take_bit_iff bit_drop_bit_eq)
  qed
qed

lemma granulepos_le_bytes:
  assumes "\<And>k. k < 8 \<Longrightarrow> rd (og_header og) (6 + int k) = Some (le_bytes 8 x ! k)"
  shows "ogg_page_granulepos og = Some (signed_take_bit 63 x)"
proof -
  let ?h = "og_header og"
  have r: "rd ?h 6 = Some (le_bytes 8 x ! 0)" "rd ?h 7 = Some (le_bytes 8 x ! 1)"
    "rd ?h 8 = Some (le_bytes 8 x ! 2)" "rd ?h 9 = Some (le_bytes 8 x ! 3)"
    "rd ?h 10 = Some (le_bytes 8 x ! 4)" "rd ?h 11 = Some (le_bytes 8 x ! 5)"
    "rd ?h 12 = Some (le_bytes 8 x ! 6)" "rd ?h 13 = Some (le_bytes 8 x ! 7)"
    using assms [of 0] assms [of 1] assms [of 2] assms [of 3] assms [of 4] assms [of 5]
      assms [of 6] assms [of 7] by simp_all
  have top: "(ucast (le_bytes 8 x ! 7) :: ulong) = word_of_int (take_bit 8 (drop_bit 56 x))"
    by (rule bit_word_eqI)
      (auto simp: bit_word_ucast_iff bit_word_of_int_iff bit_take_bit_iff bit_drop_bit_eq bit_le_bytes
        dest: byte_bit_bound)
  have all: "(word_of_int (take_bit 64 (drop_bit 0 x)) :: ulong) = word_of_int x"
    by (rule bit_word_eqI) (simp add: bit_word_of_int_iff bit_take_bit_iff)
  note st = be_step [of 6 x] be_step [of 5 x] be_step [of 4 x] be_step [of 3 x] be_step [of 2 x]
    be_step [of 1 x] be_step [of 0 x]
  show ?thesis
    unfolding ogg_page_granulepos_def Let_def
    using st all by (simp add: r top sint_ulong_of_int del: push_bit_or)
qed

subsection \<open>Properties\<close>

text \<open>C32.  The 256-entry table is what the generator function documented beside it produces, and one
  table step of the checksum is eight steps of bitwise long division by the polynomial
  \<open>0x04c11db7\<close>.\<close>

theorem crc_table_is_division:
  "crc_lookup = map (\<lambda>i. ogg_crc_entry (word_of_nat i)) [0..<256] \<and>
   crc_step r x = (crc_shift ^^ 8) (r XOR push_bit 24 (ucast x))"
  by (simp only: crc_step_shift crc_shift8_funpow)
    (simp add: crc_lookup_eq ogg_crc_entry_shift)

text \<open>\<open>ogg_page_checksum_set\<close> touches only the four checksum bytes, fails only for a header too
  short to hold them, and a second call changes nothing.\<close>

lemma ogg_page_checksum_set_stable:
  "case ogg_page_checksum_set og of
     None \<Rightarrow> length (og_header og) < 26
   | Some og' \<Rightarrow> og_body og' = og_body og \<and> length (og_header og') = length (og_header og) \<and>
       take 22 (og_header og') = take 22 (og_header og) \<and> drop 26 (og_header og') = drop 26 (og_header og) \<and>
       ogg_page_checksum_set og' = Some og'"
proof (cases "26 \<le> length (og_header og)")
  case True
  then show ?thesis using checksum_set_ok [of og] by (simp add: checksum_set_eq checksum_ok_def)
qed (simp add: checksum_set_short)

text \<open>C33.  Whatever happens to at most four consecutive bytes of a page outside its checksum field,
  the page no longer carries a valid checksum.\<close>

theorem ogg_page_checksum_detects:
  assumes "checksum_ok og" and "length (og_header og') = length (og_header og)"
    and "og_header og @ og_body og = pre @ xs @ post"
    and "og_header og' @ og_body og' = pre @ ys @ post"
    and "length xs = length ys" and "length xs \<le> 4" and "xs \<noteq> ys"
    and "length pre + length xs \<le> 22 \<or> 26 \<le> length pre"
  shows "ogg_page_checksum_set og' \<noteq> Some og'"
  using checksum_burst [OF assms] by (simp add: checksum_ok_def)

theorem ogg_page_checksum_detects_witness:
  "\<exists>og. ogg_page_checksum_set \<lparr>og_header = replicate 27 1, og_body = [1, 2, 3]\<rparr> = Some og \<and>
     ogg_page_checksum_set (og\<lparr>og_body := [1, 9, 9]\<rparr>) \<noteq> Some (og\<lparr>og_body := [1, 9, 9]\<rparr>)"
proof -
  obtain og where og: "ogg_page_checksum_set \<lparr>og_header = replicate 27 1, og_body = [1, 2, 3]\<rparr> = Some og"
    "og_body og = [1, 2, 3]" "26 \<le> length (og_header og)"
    by (auto simp: checksum_set_eq)
  then show ?thesis
    using ogg_page_checksum_detects
      [OF checksum_set_ok [OF og(1)], of "og\<lparr>og_body := [1, 9, 9]\<rparr>" "og_header og @ [1]" "[2, 3]" "[]" "[9, 9]"]
    by auto
qed

end
