(* ===== verification/Ogg_Stream.thy ===== *)
theory Ogg_Stream
  imports Ogg_Page
begin

unbundle bit_operations_syntax

section \<open>Ogg logical streams (opus/ogg/framing.c, second part)\<close>

text \<open>
  A logical stream is a FIFO of packet bytes (\<open>body_data\<close>) and of lacing values (\<open>lacing_vals\<close>, with
  the granule positions beside them).  Encoding appends packets (\<open>ogg_stream_packetin\<close>) and removes
  pages (\<open>ogg_stream_flush\<close>, \<open>ogg_stream_pageout\<close>); decoding appends pages (\<open>ogg_stream_pagein\<close>) and
  removes packets (\<open>ogg_stream_packetout\<close>).  Each operation is the whole C function: the record is the
  struct, a result \<^const>\<open>None\<close> is an access outside an array, the \<open>int\<close> beside the state is the
  return value.  Where C returns a page or packet through pointers into the stream's buffers, the model
  returns the bytes they delimit at that moment.
\<close>

subsection \<open>State\<close>

record ogg_stream_state =
  body_data :: "byte list option"
  body_storage :: int
  body_fill :: int
  body_returned :: int
  lacing_vals :: "int list"
  granule_vals :: "int list"
  lacing_storage :: int
  lacing_fill :: int
  lacing_packet :: int
  lacing_returned :: int
  header :: "byte list"
  header_fill :: int
  e_o_s :: int
  b_o_s :: int
  serialno :: int
  pageno :: int
  packetno :: int
  granulepos :: int

record ogg_packet =
  op_packet :: "byte list"
  op_b_o_s :: int
  op_e_o_s :: int
  op_granulepos :: int
  op_packetno :: int

definition ogg_stream_zero :: ogg_stream_state where
  "ogg_stream_zero = \<lparr>body_data = None, body_storage = 0, body_fill = 0, body_returned = 0,
     lacing_vals = [], granule_vals = [], lacing_storage = 0, lacing_fill = 0, lacing_packet = 0,
     lacing_returned = 0, header = replicate 282 0, header_fill = 0, e_o_s = 0, b_o_s = 0,
     serialno = 0, pageno = 0, packetno = 0, granulepos = 0\<rparr>"

definition ogg_stream_check :: "ogg_stream_state \<Rightarrow> int" where
  "ogg_stream_check os = (if body_data os = None then - 1 else 0)"

definition ogg_stream_clear :: "ogg_stream_state \<Rightarrow> ogg_stream_state" where
  "ogg_stream_clear os = ogg_stream_zero"

definition ogg_stream_init :: "mem_env \<Rightarrow> int \<Rightarrow> ogg_stream_state \<times> int" where
  "ogg_stream_init E serial =
     (let os = ogg_stream_zero\<lparr>body_storage := 16 * 1024, lacing_storage := 1024\<rparr> in
      case (realloc_bytes E [] (body_storage os), realloc_ints E [] (lacing_storage os) 4,
            realloc_ints E [] (lacing_storage os) 8) of
        (Some bd, Some lv, Some gv) \<Rightarrow>
          (os\<lparr>body_data := Some bd, lacing_vals := lv, granule_vals := gv, serialno := serial\<rparr>, 0)
      | _ \<Rightarrow> (ogg_stream_clear os, - 1))"

definition os_body_expand :: "mem_env \<Rightarrow> ogg_stream_state \<Rightarrow> int \<Rightarrow> ogg_stream_state \<times> int" where
  "os_body_expand E os needed =
     (if body_storage os - needed \<le> body_fill os then
        (if body_storage os > LONG_MAX - needed then (ogg_stream_clear os, - 1)
         else let st = body_storage os + needed;
                  st = (if st < LONG_MAX - 1024 then st + 1024 else st) in
           case realloc_bytes E (case body_data os of None \<Rightarrow> [] | Some bd \<Rightarrow> bd) st of
             None \<Rightarrow> (ogg_stream_clear os, - 1)
           | Some ret \<Rightarrow> (os\<lparr>body_storage := st, body_data := Some ret\<rparr>, 0))
      else (os, 0))"

definition os_lacing_expand :: "mem_env \<Rightarrow> ogg_stream_state \<Rightarrow> int \<Rightarrow> ogg_stream_state \<times> int" where
  "os_lacing_expand E os needed =
     (if lacing_storage os - needed \<le> lacing_fill os then
        (if lacing_storage os > LONG_MAX - needed then (ogg_stream_clear os, - 1)
         else let st = lacing_storage os + needed;
                  st = (if st < LONG_MAX - 32 then st + 32 else st) in
           case realloc_ints E (lacing_vals os) st 4 of
             None \<Rightarrow> (ogg_stream_clear os, - 1)
           | Some lv \<Rightarrow>
               (case realloc_ints E (granule_vals os) st 8 of
                  None \<Rightarrow> (ogg_stream_clear os, - 1)
                | Some gv \<Rightarrow> (os\<lparr>lacing_vals := lv, granule_vals := gv, lacing_storage := st\<rparr>, 0)))
      else (os, 0))"

subsection \<open>Submitting packets\<close>

fun iov_bytes :: "byte list list \<Rightarrow> int \<Rightarrow> int option" where
  "iov_bytes [] bytes = Some bytes"
| "iov_bytes (v # iov) bytes =
     (if int (length v) > LONG_MAX then None
      else if bytes > LONG_MAX - int (length v) then None
      else iov_bytes iov (bytes + int (length v)))"

text \<open>Drop the body bytes already handed out (the same lines open \<open>iovecin\<close> and \<open>pagein\<close>).\<close>

definition os_body_compact :: "ogg_stream_state \<Rightarrow> ogg_stream_state option" where
  "os_body_compact os =
     (if body_returned os \<noteq> 0 then do {
        let fill = body_fill os - body_returned os;
        bd \<leftarrow> body_data os;
        bd' \<leftarrow> (if fill \<noteq> 0 then mem_copy bd 0 bd (body_returned os) fill else Some bd);
        Some (os\<lparr>body_fill := fill, body_data := Some bd', body_returned := 0\<rparr>) }
      else Some os)"

fun iov_copy :: "ogg_stream_state \<Rightarrow> byte list list \<Rightarrow> ogg_stream_state option" where
  "iov_copy os [] = Some os"
| "iov_copy os (v # iov) = do {
     bd \<leftarrow> body_data os;
     bd \<leftarrow> mem_copy bd (body_fill os) v 0 (int (length v));
     iov_copy (os\<lparr>body_data := Some bd, body_fill := body_fill os + c_int (int (length v))\<rparr>) iov }"

fun lacing_fill_255 :: "ogg_stream_state \<Rightarrow> int \<Rightarrow> nat \<Rightarrow> ogg_stream_state option" where
  "lacing_fill_255 os i 0 = Some os"
| "lacing_fill_255 os i (Suc n) = do {
     lv \<leftarrow> wr (lacing_vals os) (lacing_fill os + i) 255;
     gv \<leftarrow> wr (granule_vals os) (lacing_fill os + i) (granulepos os);
     lacing_fill_255 (os\<lparr>lacing_vals := lv, granule_vals := gv\<rparr>) (i + 1) n }"

definition ogg_stream_iovecin ::
  "mem_env \<Rightarrow> ogg_stream_state \<Rightarrow> byte list list option \<Rightarrow> int \<Rightarrow> int \<Rightarrow> (ogg_stream_state \<times> int) option" where
  "ogg_stream_iovecin E os iov eos granule =
     (if ogg_stream_check os \<noteq> 0 then Some (os, - 1)
      else case iov of None \<Rightarrow> Some (os, 0)
      | Some iov \<Rightarrow>
        (case iov_bytes iov 0 of None \<Rightarrow> Some (os, - 1)
         | Some bytes \<Rightarrow> do {
             let vals = bytes div 255 + 1;
             os \<leftarrow> os_body_compact os;
             let (os, r) = os_body_expand E os bytes;
             if r \<noteq> 0 then Some (os, - 1) else do {
             let (os, r) = os_lacing_expand E os vals;
             if r \<noteq> 0 then Some (os, - 1) else do {
             os \<leftarrow> iov_copy os iov;
             os \<leftarrow> lacing_fill_255 os 0 (nat (vals - 1));
             lv \<leftarrow> wr (lacing_vals os) (lacing_fill os + (vals - 1)) (bytes mod 255);
             gv \<leftarrow> wr (granule_vals os) (lacing_fill os + (vals - 1)) granule;
             first \<leftarrow> rd lv (lacing_fill os);
             lv \<leftarrow> wr lv (lacing_fill os) (first OR 0x100);
             Some (os\<lparr>lacing_vals := lv, granule_vals := gv, granulepos := granule,
                      lacing_fill := lacing_fill os + vals, packetno := packetno os + 1,
                      e_o_s := (if eos \<noteq> 0 then 1 else e_o_s os)\<rparr>, 0) }}}))"

definition ogg_stream_packetin ::
  "mem_env \<Rightarrow> ogg_stream_state \<Rightarrow> ogg_packet \<Rightarrow> (ogg_stream_state \<times> int) option" where
  "ogg_stream_packetin E os op =
     ogg_stream_iovecin E os (Some [op_packet op]) (op_e_o_s op) (op_granulepos op)"

subsection \<open>Taking pages\<close>

text \<open>The two loops that decide how many segments go on the page.\<close>

fun flush_initial_vals :: "int list \<Rightarrow> int \<Rightarrow> nat \<Rightarrow> int option" where
  "flush_initial_vals lv vals 0 = Some vals"
| "flush_initial_vals lv vals (Suc n) = do {
     x \<leftarrow> rd lv vals;
     if x AND 0xff < 255 then Some (vals + 1) else flush_initial_vals lv (vals + 1) n }"

fun flush_vals ::
  "int list \<Rightarrow> int list \<Rightarrow> int \<Rightarrow> int \<Rightarrow> nat \<Rightarrow> int \<Rightarrow> int \<Rightarrow> int \<Rightarrow> int \<Rightarrow> bool \<Rightarrow> (int \<times> int \<times> bool) option" where
  "flush_vals lv gv nfill vals 0 acc granule packets_done packet_just_done force =
     Some (vals, granule, force)"
| "flush_vals lv gv nfill vals (Suc n) acc granule packets_done packet_just_done force =
     (if acc > nfill \<and> packet_just_done \<ge> 4 then Some (vals, granule, True)
      else do {
        x \<leftarrow> rd lv vals;
        let acc = acc + (x AND 0xff);
        if x AND 0xff < 255 then do {
          g \<leftarrow> rd gv vals;
          flush_vals lv gv nfill (vals + 1) n acc g (packets_done + 1) (packets_done + 1) force }
        else flush_vals lv gv nfill (vals + 1) n acc granule packets_done 0 force })"

text \<open>The segment table and the body length it adds up to.\<close>

fun flush_segments :: "int list \<Rightarrow> int \<Rightarrow> nat \<Rightarrow> byte list option" where
  "flush_segments lv i 0 = Some []"
| "flush_segments lv i (Suc n) = do {
     x \<leftarrow> rd lv i; rest \<leftarrow> flush_segments lv (i + 1) n; Some (word_of_int (x AND 0xff) # rest) }"

definition put_bytes :: "byte list \<Rightarrow> int \<Rightarrow> byte list \<Rightarrow> byte list option" where
  "put_bytes dst i xs = mem_copy dst i xs 0 (int (length xs))"

definition flush_maxvals :: "ogg_stream_state \<Rightarrow> int" where
  "flush_maxvals os = (if lacing_fill os > 255 then 255 else lacing_fill os)"

definition flush_choice :: "ogg_stream_state \<Rightarrow> bool \<Rightarrow> int \<Rightarrow> (int \<times> int \<times> bool) option" where
  "flush_choice os force nfill =
     (if b_o_s os = 0 then do {
        vals \<leftarrow> flush_initial_vals (lacing_vals os) 0 (nat (flush_maxvals os)); Some (vals, 0, force) }
      else do {
        (vals, g, force) \<leftarrow>
          flush_vals (lacing_vals os) (granule_vals os) nfill 0 (nat (flush_maxvals os)) 0 (- 1) 0 0 force;
        Some (vals, g, force \<or> vals = 255) })"

text \<open>The header in the stream's work space; \<open>page\<close> is the page counter written into it.\<close>

definition flush_header :: "ogg_stream_state \<Rightarrow> int \<Rightarrow> int \<Rightarrow> int \<Rightarrow> byte list \<Rightarrow> byte list option" where
  "flush_header os vals granule_pos page segs = do {
     h \<leftarrow> put_bytes (header os) 0 [0x4f, 0x67, 0x67, 0x53];
     h \<leftarrow> put_bytes h 4 [0x00];
     first \<leftarrow> rd (lacing_vals os) 0;
     h \<leftarrow> put_bytes h 5
       [(if first AND 0x100 = 0 then 0x01 else 0x00) OR (if b_o_s os = 0 then 0x02 else 0x00) OR
        (if e_o_s os \<noteq> 0 \<and> lacing_fill os = vals then 0x04 else 0x00)];
     h \<leftarrow> put_bytes h 6 (le_bytes 8 granule_pos);
     h \<leftarrow> put_bytes h 14 (le_bytes 4 (serialno os));
     h \<leftarrow> put_bytes h 18 (le_bytes 4 page);
     h \<leftarrow> put_bytes h 22 [0, 0, 0, 0];
     h \<leftarrow> put_bytes h 26 [word_of_int vals];
     put_bytes h 27 segs }"

definition ogg_stream_flush_i ::
  "ogg_stream_state \<Rightarrow> bool \<Rightarrow> int \<Rightarrow> (ogg_stream_state \<times> ogg_page option) option" where
  "ogg_stream_flush_i os force nfill =
     (if ogg_stream_check os \<noteq> 0 then Some (os, None)
      else if flush_maxvals os = 0 then Some (os, None)
      else do {
        (vals, granule_pos, force) \<leftarrow> flush_choice os force nfill;
        if \<not> force then Some (os, None)
        else do {
          let page = (if pageno os = - 1 then 0 else pageno os);
          segs \<leftarrow> flush_segments (lacing_vals os) 0 (nat vals);
          h \<leftarrow> flush_header os vals granule_pos page segs;
          let bytes = sum_list (map uint segs);
          og_h \<leftarrow> slice h 0 (vals + 27);
          bd \<leftarrow> body_data os;
          og_b \<leftarrow> slice bd (body_returned os) bytes;
          let fill = lacing_fill os - vals;
          lv \<leftarrow> mem_copy (lacing_vals os) 0 (lacing_vals os) vals fill;
          gv \<leftarrow> mem_copy (granule_vals os) 0 (granule_vals os) vals fill;
          og \<leftarrow> ogg_page_checksum_set \<lparr>og_header = og_h, og_body = og_b\<rparr>;
          h \<leftarrow> put_bytes h 0 (og_header og);
          Some (os\<lparr>header := h, header_fill := vals + 27, b_o_s := 1, pageno := page + 1,
                   lacing_fill := fill, lacing_vals := lv, granule_vals := gv,
                   body_returned := body_returned os + bytes\<rparr>, Some og) }})"

definition ogg_stream_flush :: "ogg_stream_state \<Rightarrow> (ogg_stream_state \<times> ogg_page option) option" where
  "ogg_stream_flush os = ogg_stream_flush_i os True 4096"

definition ogg_stream_flush_fill ::
  "ogg_stream_state \<Rightarrow> int \<Rightarrow> (ogg_stream_state \<times> ogg_page option) option" where
  "ogg_stream_flush_fill os nfill = ogg_stream_flush_i os True nfill"

definition ogg_stream_pageout :: "ogg_stream_state \<Rightarrow> (ogg_stream_state \<times> ogg_page option) option" where
  "ogg_stream_pageout os =
     (if ogg_stream_check os \<noteq> 0 then Some (os, None)
      else ogg_stream_flush_i os
        (e_o_s os \<noteq> 0 \<and> lacing_fill os \<noteq> 0 \<or> lacing_fill os \<noteq> 0 \<and> b_o_s os = 0) 4096)"

definition ogg_stream_pageout_fill ::
  "ogg_stream_state \<Rightarrow> int \<Rightarrow> (ogg_stream_state \<times> ogg_page option) option" where
  "ogg_stream_pageout_fill os nfill =
     (if ogg_stream_check os \<noteq> 0 then Some (os, None)
      else ogg_stream_flush_i os
        (e_o_s os \<noteq> 0 \<and> lacing_fill os \<noteq> 0 \<or> lacing_fill os \<noteq> 0 \<and> b_o_s os = 0) nfill)"

definition ogg_stream_eos :: "ogg_stream_state \<Rightarrow> int" where
  "ogg_stream_eos os = (if ogg_stream_check os \<noteq> 0 then 1 else e_o_s os)"

subsection \<open>Submitting pages\<close>

definition pagein_lacing_compact :: "ogg_stream_state \<Rightarrow> ogg_stream_state option" where
  "pagein_lacing_compact os =
     (let lr = lacing_returned os in
      if lr \<noteq> 0 then do {
        let n = lacing_fill os - lr;
        lv \<leftarrow> (if n \<noteq> 0 then mem_copy (lacing_vals os) 0 (lacing_vals os) lr n else Some (lacing_vals os));
        gv \<leftarrow> (if n \<noteq> 0 then mem_copy (granule_vals os) 0 (granule_vals os) lr n else Some (granule_vals os));
        Some (os\<lparr>lacing_vals := lv, granule_vals := gv, lacing_fill := n,
                 lacing_packet := lacing_packet os - lr, lacing_returned := 0\<rparr>) }
      else Some os)"

fun pagein_unroll_loop :: "int list \<Rightarrow> int \<Rightarrow> nat \<Rightarrow> int \<Rightarrow> int option" where
  "pagein_unroll_loop lv i 0 fill = Some fill"
| "pagein_unroll_loop lv i (Suc n) fill = do {
     x \<leftarrow> rd lv i; pagein_unroll_loop lv (i + 1) n (fill - (x AND 0xff)) }"

definition pagein_unroll :: "ogg_stream_state \<Rightarrow> ogg_stream_state option" where
  "pagein_unroll os = do {
     fill \<leftarrow> pagein_unroll_loop (lacing_vals os) (lacing_packet os)
              (nat (lacing_fill os - lacing_packet os)) (body_fill os);
     let os = os\<lparr>body_fill := fill, lacing_fill := lacing_packet os\<rparr>;
     if pageno os \<noteq> - 1 then do {
       lv \<leftarrow> wr (lacing_vals os) (lacing_fill os) 0x400;
       Some (os\<lparr>lacing_vals := lv, lacing_fill := lacing_fill os + 1,
                lacing_packet := lacing_packet os + 1\<rparr>) }
     else Some os }"

text \<open>Skip the tail of a packet whose beginning was lost: the segment index, the offset into the body
  and the bytes left.\<close>

fun pagein_skip :: "byte list \<Rightarrow> int \<Rightarrow> nat \<Rightarrow> int \<Rightarrow> int \<Rightarrow> (int \<times> int \<times> int) option" where
  "pagein_skip h segptr 0 off sz = Some (segptr, off, sz)"
| "pagein_skip h segptr (Suc n) off sz = do {
     x \<leftarrow> rd h (27 + segptr);
     let val = uint x;
     if val < 255 then Some (segptr + 1, off + val, sz - val)
     else pagein_skip h (segptr + 1) n (off + val) (sz - val) }"

fun pagein_segments ::
  "byte list \<Rightarrow> int \<Rightarrow> nat \<Rightarrow> bool \<Rightarrow> int \<Rightarrow> ogg_stream_state \<Rightarrow> (ogg_stream_state \<times> int) option" where
  "pagein_segments h segptr 0 bos saved os = Some (os, saved)"
| "pagein_segments h segptr (Suc n) bos saved os = do {
     x \<leftarrow> rd h (27 + segptr);
     let val = uint x;
     lv \<leftarrow> wr (lacing_vals os) (lacing_fill os) (if bos then val OR 0x100 else val);
     gv \<leftarrow> wr (granule_vals os) (lacing_fill os) (- 1);
     let os' = os\<lparr>lacing_vals := lv, granule_vals := gv, lacing_fill := lacing_fill os + 1\<rparr>;
     pagein_segments h (segptr + 1) n False (if val < 255 then lacing_fill os else saved)
       (if val < 255 then os'\<lparr>lacing_packet := lacing_fill os + 1\<rparr> else os') }"

definition pagein_eos :: "ogg_stream_state \<Rightarrow> ogg_stream_state option" where
  "pagein_eos os =
     (if lacing_fill os > 0 then do {
        x \<leftarrow> rd (lacing_vals os) (lacing_fill os - 1);
        lv \<leftarrow> wr (lacing_vals os) (lacing_fill os - 1) (x OR 0x200);
        Some (os\<lparr>e_o_s := 1, lacing_vals := lv\<rparr>) }
      else Some (os\<lparr>e_o_s := 1\<rparr>))"

definition ogg_stream_pagein ::
  "mem_env \<Rightarrow> ogg_stream_state \<Rightarrow> ogg_page \<Rightarrow> (ogg_stream_state \<times> int) option" where
  "ogg_stream_pagein E os og = do {
     version \<leftarrow> ogg_page_version og;
     continued \<leftarrow> ogg_page_continued og;
     bos \<leftarrow> ogg_page_bos og;
     eos \<leftarrow> ogg_page_eos og;
     granule \<leftarrow> ogg_page_granulepos og;
     serial \<leftarrow> ogg_page_serialno og;
     page \<leftarrow> ogg_page_pageno og;
     segs \<leftarrow> rd (og_header og) 26;
     let segments = uint segs;
     if ogg_stream_check os \<noteq> 0 then Some (os, - 1) else do {
     os \<leftarrow> os_body_compact os;
     os \<leftarrow> pagein_lacing_compact os;
     if serial \<noteq> serialno os then Some (os, - 1)
     else if version > 0 then Some (os, - 1) else do {
     let (os, r) = os_lacing_expand E os (segments + 1);
     if r \<noteq> 0 then Some (os, - 1) else do {
     os \<leftarrow> (if page \<noteq> pageno os then pagein_unroll os else Some os);
     lost \<leftarrow> (if continued \<noteq> 0 then
                (if lacing_fill os < 1 then Some True
                 else do { x \<leftarrow> rd (lacing_vals os) (lacing_fill os - 1); Some (x = 0x400) })
              else Some False);
     (segptr, off, bodysize) \<leftarrow>
        (if lost then pagein_skip (og_header og) 0 (nat segments) 0 (int (length (og_body og)))
         else Some (0, 0, int (length (og_body og))));
     let (os, r) = (if bodysize \<noteq> 0 then os_body_expand E os bodysize else (os, 0));
     if r \<noteq> 0 then Some (os, - 1) else do {
     os \<leftarrow> (if bodysize \<noteq> 0 then do {
               bd \<leftarrow> body_data os;
               bd \<leftarrow> mem_copy bd (body_fill os) (og_body og) off bodysize;
               Some (os\<lparr>body_data := Some bd, body_fill := body_fill os + bodysize\<rparr>) }
            else Some os);
     (os, saved) \<leftarrow> pagein_segments (og_header og) segptr (nat (segments - segptr))
                     (bos \<noteq> 0 \<and> \<not> lost) (- 1) os;
     gv \<leftarrow> (if saved \<noteq> - 1 then wr (granule_vals os) saved granule else Some (granule_vals os));
     os \<leftarrow> (if eos \<noteq> 0 then pagein_eos (os\<lparr>granule_vals := gv\<rparr>) else Some (os\<lparr>granule_vals := gv\<rparr>));
     Some (os\<lparr>pageno := page + 1\<rparr>, 0) }}}}}"

subsection \<open>Resetting and taking packets\<close>

definition ogg_stream_reset :: "ogg_stream_state \<Rightarrow> ogg_stream_state \<times> int" where
  "ogg_stream_reset os =
     (if ogg_stream_check os \<noteq> 0 then (os, - 1)
      else (os\<lparr>body_fill := 0, body_returned := 0, lacing_fill := 0, lacing_packet := 0,
               lacing_returned := 0, header_fill := 0, e_o_s := 0, b_o_s := 0, pageno := - 1,
               packetno := 0, granulepos := 0\<rparr>, 0))"

definition ogg_stream_reset_serialno :: "ogg_stream_state \<Rightarrow> int \<Rightarrow> ogg_stream_state \<times> int" where
  "ogg_stream_reset_serialno os serial =
     (if ogg_stream_check os \<noteq> 0 then (os, - 1)
      else ((fst (ogg_stream_reset os))\<lparr>serialno := serial\<rparr>, 0))"

function packetout_gather ::
  "int list \<Rightarrow> int \<Rightarrow> int \<Rightarrow> int \<Rightarrow> int \<Rightarrow> (int \<times> int \<times> int) option" where
  "packetout_gather lv ptr sz bytes eos =
     (if sz = 255 then
        (case rd lv (ptr + 1) of None \<Rightarrow> None
         | Some val \<Rightarrow> packetout_gather lv (ptr + 1) (val AND 0xff) (bytes + (val AND 0xff))
                         (if val AND 0x200 \<noteq> 0 then 0x200 else eos))
      else Some (ptr, bytes, eos))"
  by pat_completeness auto
termination
  by (relation "measure (\<lambda>(lv, ptr, _). nat (int (length lv) - ptr))") (auto dest: rd_SomeD)

declare packetout_gather.simps [simp del]

definition packetout :: "ogg_stream_state \<Rightarrow> bool \<Rightarrow> bool \<Rightarrow> (ogg_stream_state \<times> ogg_packet option \<times> int) option" where
  "packetout os want adv =
     (let ptr = lacing_returned os in
      if lacing_packet os \<le> ptr then Some (os, None, 0)
      else do {
        x \<leftarrow> rd (lacing_vals os) ptr;
        if x AND 0x400 \<noteq> 0 then
          Some (os\<lparr>lacing_returned := ptr + 1, packetno := packetno os + 1\<rparr>, None, - 1)
        else if \<not> want \<and> \<not> adv then Some (os, None, 1)
        else do {
          (ptr, bytes, eos) \<leftarrow> packetout_gather (lacing_vals os) ptr (x AND 0xff) (x AND 0xff) (x AND 0x200);
          op \<leftarrow> (if want then do {
                   bd \<leftarrow> body_data os;
                   pkt \<leftarrow> slice bd (body_returned os) bytes;
                   g \<leftarrow> rd (granule_vals os) ptr;
                   Some (Some \<lparr>op_packet = pkt, op_b_o_s = x AND 0x100, op_e_o_s = eos,
                               op_granulepos = g, op_packetno = packetno os\<rparr>) }
                 else Some None);
          Some (if adv then os\<lparr>body_returned := body_returned os + bytes, lacing_returned := ptr + 1,
                               packetno := packetno os + 1\<rparr> else os, op, 1) }})"

definition ogg_stream_packetout ::
  "ogg_stream_state \<Rightarrow> bool \<Rightarrow> (ogg_stream_state \<times> ogg_packet option \<times> int) option" where
  "ogg_stream_packetout os want =
     (if ogg_stream_check os \<noteq> 0 then Some (os, None, 0) else packetout os want True)"

definition ogg_stream_packetpeek ::
  "ogg_stream_state \<Rightarrow> bool \<Rightarrow> (ogg_stream_state \<times> ogg_packet option \<times> int) option" where
  "ogg_stream_packetpeek os want =
     (if ogg_stream_check os \<noteq> 0 then Some (os, None, 0) else packetout os want False)"

end
