(* ===== verification/Ogg_Stream_Queue.thy ===== *)
theory Ogg_Stream_Queue
  imports Ogg_Stream
begin

unbundle bit_operations_syntax

section \<open>Ogg streams as queues\<close>

text \<open>
  The stream state seen as two queues, \<open>body_queue\<close> (packet bytes) and \<open>lacing_queue\<close> (lacing values with
  their flags), and the law of every operation on them: submitting a packet appends to both, flushing
  removes the front as a page, accepting the next page in sequence appends again, and taking a packet
  removes it.  \<open>stream_ok\<close> is the well-formedness of the struct, \<open>enc_ok\<close> and \<open>dec_ok\<close> the invariants of
  an encoding and a decoding stream.
\<close>

subsection \<open>The stream as a queue\<close>

text \<open>The part of an array between two marks.\<close>

definition window :: "'a list \<Rightarrow> int \<Rightarrow> int \<Rightarrow> 'a list" where
  "window xs a b = take (nat (b - a)) (drop (nat a) xs)"

definition stream_ok :: "ogg_stream_state \<Rightarrow> bool" where
  "stream_ok os \<longleftrightarrow> (\<exists>bd. body_data os = Some bd \<and> int (length bd) = body_storage os) \<and>
     int (length (lacing_vals os)) = lacing_storage os \<and>
     int (length (granule_vals os)) = lacing_storage os \<and>
     0 \<le> body_returned os \<and> body_returned os \<le> body_fill os \<and> body_fill os \<le> body_storage os \<and>
     0 \<le> lacing_returned os \<and> lacing_returned os \<le> lacing_packet os \<and>
     lacing_packet os \<le> lacing_fill os \<and> lacing_fill os \<le> lacing_storage os \<and>
     length (header os) = 282"

definition body_queue :: "ogg_stream_state \<Rightarrow> byte list" where
  "body_queue os = (case body_data os of None \<Rightarrow> [] | Some bd \<Rightarrow> window bd (body_returned os) (body_fill os))"

definition lacing_queue :: "ogg_stream_state \<Rightarrow> int list" where
  "lacing_queue os = window (lacing_vals os) (lacing_returned os) (lacing_fill os)"

lemma length_window [simp]:
  "0 \<le> a \<Longrightarrow> a \<le> b \<Longrightarrow> b \<le> int (length xs) \<Longrightarrow> length (window xs a b) = nat (b - a)"
  by (simp add: window_def)

lemma window_nth:
  "0 \<le> a \<Longrightarrow> b \<le> int (length xs) \<Longrightarrow> int i < b - a \<Longrightarrow> window xs a b ! i = xs ! nat (a + int i)"
  by (simp add: window_def nat_add_distrib)

lemma window_same [simp]: "window xs a a = []"
  by (simp add: window_def)

lemma window_append:
  assumes "0 \<le> a" "a \<le> b" "b \<le> c" "c \<le> int (length xs)"
  shows "window xs a c = window xs a b @ window xs b c"
proof -
  have "nat (c - a) = nat (b - a) + nat (c - b)" "nat b = nat a + nat (b - a)" using assms by simp_all
  then show ?thesis by (simp add: window_def take_add add.commute)
qed

lemma window_eqI:
  assumes "0 \<le> a" "b \<le> int (length xs)" "b \<le> int (length ys)"
    and "\<And>i. a \<le> int i \<Longrightarrow> int i < b \<Longrightarrow> xs ! i = ys ! i"
  shows "window xs a b = window ys a b"
proof (cases "a \<le> b")
  case True
  show ?thesis
  proof (rule nth_equalityI)
    show "length (window xs a b) = length (window ys a b)" using assms True by simp
    fix i assume "i < length (window xs a b)"
    then have i: "int i < b - a" using assms True by simp
    then show "window xs a b ! i = window ys a b ! i"
      using assms(1-3) assms(4) [of "nat (a + int i)"] by (simp add: window_nth)
  qed
qed (simp add: window_def)

text \<open>Moving the live part of an array to its front.\<close>

lemma mem_copy_front:
  assumes "0 \<le> a" "a \<le> b" "b \<le> int (length xs)"
  obtains ys where "mem_copy xs 0 xs a (b - a) = Some ys" "length ys = length xs"
    "window ys 0 (b - a) = window xs a b"
proof
  show "mem_copy xs 0 xs a (b - a) = Some (window xs a b @ drop (nat (b - a)) xs)"
    using assms by (simp add: mem_copy_def window_def)
  show "length (window xs a b @ drop (nat (b - a)) xs) = length xs"
    using assms by simp
  show "window (window xs a b @ drop (nat (b - a)) xs) 0 (b - a) = window xs a b"
    using assms by (simp add: window_def)
qed

text \<open>Appending at the fill mark.\<close>

lemma mem_copy_append:
  assumes "0 \<le> a" "a \<le> b" "b + int (length src) \<le> int (length xs)" 
  obtains ys where "mem_copy xs b src 0 (int (length src)) = Some ys" "length ys = length xs"
    "window ys a (b + int (length src)) = window xs a b @ src"
proof
  let ?ys = "take (nat b) xs @ src @ drop (nat b + length src) xs"
  show "mem_copy xs b src 0 (int (length src)) = Some ?ys"
    using assms by (simp add: mem_copy_def nat_add_distrib)
  show l: "length ?ys = length xs" using assms by simp
  have "window ?ys a (b + int (length src)) = window ?ys a b @ window ?ys b (b + int (length src))"
    by (rule window_append) (use assms l in simp_all)
  moreover have "window ?ys a b = window xs a b"
    by (rule window_eqI) (use assms l in \<open>auto simp: nth_append\<close>)
  moreover have "window ?ys b (b + int (length src)) = src"
    using assms by (simp add: window_def)
  ultimately show "window ?ys a (b + int (length src)) = window xs a b @ src" by simp
qed

lemma wr_append:
  assumes "0 \<le> a" "a \<le> b" "b < int (length xs)"
  obtains ys where "wr xs b x = Some ys" "length ys = length xs" "window ys a (b + 1) = window xs a b @ [x]"
proof
  let ?ys = "xs[nat b := x]"
  show "wr xs b x = Some ?ys" using assms by (simp add: wr_def)
  show "length ?ys = length xs" by simp
  have "window ?ys a (b + 1) = window ?ys a b @ window ?ys b (b + 1)"
    by (rule window_append) (use assms in simp_all)
  moreover have "window ?ys a b = window xs a b"
    by (rule window_eqI) (use assms in auto)
  moreover have "window ?ys b (b + 1) = [x]"
    using assms by (intro nth_equalityI) (auto simp: window_nth)
  ultimately show "window ?ys a (b + 1) = window xs a b @ [x]" by simp
qed

lemma realloc_ints_grow:
  assumes "realloc_ints E old n w = Some new" "int (length old) \<le> n"
  shows "length new = nat n" and "i < length old \<Longrightarrow> new ! i = old ! i"
  using assms by (auto simp: realloc_ints_def nth_append split: if_splits)

lemma body_compact_ok:
  assumes "stream_ok os"
  obtains os' bd where "os_body_compact os = Some os'"
    "os' = os\<lparr>body_data := Some bd, body_fill := body_fill os - body_returned os, body_returned := 0\<rparr>"
    "stream_ok os'" "body_queue os' = body_queue os"
proof -
  from assms obtain bd where bd: "body_data os = Some bd" "int (length bd) = body_storage os"
    by (auto simp: stream_ok_def)
  have m: "0 \<le> body_returned os" "body_returned os \<le> body_fill os" "body_fill os \<le> int (length bd)"
    using assms bd by (auto simp: stream_ok_def)
  obtain ys where ys: "mem_copy bd 0 bd (body_returned os) (body_fill os - body_returned os) = Some ys"
     "length ys = length bd" "window ys 0 (body_fill os - body_returned os) = body_queue os"
    using mem_copy_front [OF m] bd by (auto simp: body_queue_def)
  let ?bd = "if body_returned os = 0 \<or> body_fill os - body_returned os = 0 then bd else ys"
  let ?os = "os\<lparr>body_data := Some ?bd, body_fill := body_fill os - body_returned os, body_returned := 0\<rparr>"
  have "os\<lparr>body_data := Some bd, body_fill := body_fill os, body_returned := 0\<rparr> = os" if "body_returned os = 0"
    using bd that by (cases os) simp
  then have "os_body_compact os = Some ?os"
    using bd ys by (auto simp: os_body_compact_def)
  moreover have "stream_ok ?os" using assms bd ys m by (auto simp: stream_ok_def)
  moreover have "body_queue ?os = body_queue os" using bd ys by (auto simp: body_queue_def)
  ultimately show thesis by (intro that [of ?os ?bd]) simp_all
qed

text \<open>Extending the buffers: either everything is cleared, or there is room and the queues are kept.\<close>

definition body_room :: "mem_env \<Rightarrow> ogg_stream_state \<Rightarrow> int \<Rightarrow> bool" where
  "body_room E os needed \<longleftrightarrow> (\<forall>n. grant E n) \<and> body_storage os + needed \<le> LONG_MAX"

definition lacing_room :: "mem_env \<Rightarrow> ogg_stream_state \<Rightarrow> int \<Rightarrow> bool" where
  "lacing_room E os needed \<longleftrightarrow> (\<forall>n. grant E n) \<and> lacing_storage os + needed \<le> LONG_MAX"

lemma body_expand_cases:
  assumes ok: "stream_ok os" and n: "0 \<le> needed"
  obtains (fail) "os_body_expand E os needed = (ogg_stream_zero, - 1)" "\<not> body_room E os needed"
  | (go) bd st where "os_body_expand E os needed = (os\<lparr>body_storage := st, body_data := Some bd\<rparr>, 0)"
      "stream_ok (os\<lparr>body_storage := st, body_data := Some bd\<rparr>)"
      "body_queue (os\<lparr>body_storage := st, body_data := Some bd\<rparr>) = body_queue os"
      "body_fill os + needed \<le> st" "st \<le> body_storage os + needed + 1024"
proof -
  from ok obtain bd where bd: "body_data os = Some bd" "int (length bd) = body_storage os"
    and m: "0 \<le> body_returned os" "body_returned os \<le> body_fill os" "body_fill os \<le> body_storage os"
    by (auto simp: stream_ok_def)
  show thesis
  proof (cases "body_storage os - needed \<le> body_fill os")
    case False
    have "os\<lparr>body_storage := body_storage os, body_data := Some bd\<rparr> = os" using bd by (cases os) simp
    then show thesis using go [where st = "body_storage os" and bd = bd] False ok n by (simp add: os_body_expand_def)
  next
    case True
    define st where "st = (let st = body_storage os + needed in if st < LONG_MAX - 1024 then st + 1024 else st)"
    have st: "body_storage os + needed \<le> st" "st \<le> body_storage os + needed + 1024" by (auto simp: st_def Let_def)
    show thesis
    proof (cases "body_storage os > LONG_MAX - needed \<or> realloc_bytes E bd st = None")
      case t: True
      have "\<not> body_room E os needed" using t by (auto simp: body_room_def realloc_bytes_def)
      moreover have "os_body_expand E os needed = (ogg_stream_zero, - 1)"
        using t True bd by (auto simp: os_body_expand_def ogg_stream_clear_def st_def Let_def)
      ultimately show thesis by (intro fail)
    next
      case f: False
      then obtain new where new: "realloc_bytes E bd st = Some new" by auto
      have len: "length new = nat st" and keep: "\<And>i. i < length bd \<Longrightarrow> new ! i = bd ! i"
        using realloc_bytes_grow [OF new] bd st n by auto
      have 1: "os_body_expand E os needed = (os\<lparr>body_storage := st, body_data := Some new\<rparr>, 0)"
        using f True bd new by (simp add: os_body_expand_def st_def Let_def)
      have 2: "stream_ok (os\<lparr>body_storage := st, body_data := Some new\<rparr>)"
        using ok len st n m by (auto simp: stream_ok_def)
      have 3: "body_queue (os\<lparr>body_storage := st, body_data := Some new\<rparr>) = body_queue os"
        using bd m keep len st n by (auto simp: body_queue_def intro!: window_eqI)
      show thesis using go [OF 1 2 3 _ st(2)] st m by linarith
    qed
  qed
qed

lemma lacing_expand_cases:
  assumes ok: "stream_ok os" and n: "0 \<le> needed"
  obtains (fail) "os_lacing_expand E os needed = (ogg_stream_zero, - 1)" "\<not> lacing_room E os needed"
  | (go) lv gv st where
      "os_lacing_expand E os needed = (os\<lparr>lacing_vals := lv, granule_vals := gv, lacing_storage := st\<rparr>, 0)"
      "stream_ok (os\<lparr>lacing_vals := lv, granule_vals := gv, lacing_storage := st\<rparr>)"
      "\<And>i. int i < lacing_fill os \<Longrightarrow> lv ! i = lacing_vals os ! i"
      "\<And>i. int i < lacing_fill os \<Longrightarrow> gv ! i = granule_vals os ! i"
      "lacing_fill os + needed \<le> st" "st \<le> lacing_storage os + needed + 32"
proof -
  from ok have l: "int (length (lacing_vals os)) = lacing_storage os" "int (length (granule_vals os)) = lacing_storage os"
    and m: "0 \<le> lacing_fill os" "lacing_fill os \<le> lacing_storage os"
    by (auto simp: stream_ok_def)
  show thesis
  proof (cases "lacing_storage os - needed \<le> lacing_fill os")
    case False
    have "os\<lparr>lacing_vals := lacing_vals os, granule_vals := granule_vals os, lacing_storage := lacing_storage os\<rparr> = os"
      by (cases os) simp
    then show thesis using go [where lv = "lacing_vals os" and gv = "granule_vals os" and st = "lacing_storage os"] False ok n
      by (simp add: os_lacing_expand_def)
  next
    case True
    define st where "st = (let st = lacing_storage os + needed in if st < LONG_MAX - 32 then st + 32 else st)"
    have st: "lacing_storage os + needed \<le> st" "st \<le> lacing_storage os + needed + 32" by (auto simp: st_def Let_def)
    show thesis
    proof (cases "lacing_storage os > LONG_MAX - needed \<or> realloc_ints E (lacing_vals os) st 4 = None \<or>
          realloc_ints E (granule_vals os) st 8 = None")
      case t: True
      have "\<not> lacing_room E os needed" using t by (auto simp: lacing_room_def realloc_ints_def)
      moreover have "os_lacing_expand E os needed = (ogg_stream_zero, - 1)"
        using t True by (auto simp: os_lacing_expand_def ogg_stream_clear_def st_def Let_def split: option.split)
      ultimately show thesis by (intro fail)
    next
      case f: False
      then obtain lv gv where new: "realloc_ints E (lacing_vals os) st 4 = Some lv"
        "realloc_ints E (granule_vals os) st 8 = Some gv" by auto
      have len: "length lv = nat st" "length gv = nat st"
        and keep: "\<And>i. i < length (lacing_vals os) \<Longrightarrow> lv ! i = lacing_vals os ! i"
          "\<And>i. i < length (granule_vals os) \<Longrightarrow> gv ! i = granule_vals os ! i"
        using realloc_ints_grow [OF new(1)] realloc_ints_grow [OF new(2)] l st n by auto
      have 1: "os_lacing_expand E os needed = (os\<lparr>lacing_vals := lv, granule_vals := gv, lacing_storage := st\<rparr>, 0)"
        using f True new by (simp add: os_lacing_expand_def st_def Let_def)
      have 2: "stream_ok (os\<lparr>lacing_vals := lv, granule_vals := gv, lacing_storage := st\<rparr>)"
        using ok len st n m by (auto simp: stream_ok_def)
      show thesis using go [OF 1 2] keep l m st by simp
    qed
  qed
qed

lemma lacing_queue_keep:
  assumes "stream_ok os" "lacing_fill os \<le> int (length lv)" "\<And>i. int i < lacing_fill os \<Longrightarrow> lv ! i = lacing_vals os ! i"
  shows "window lv (lacing_returned os) (lacing_fill os) = lacing_queue os"
  unfolding lacing_queue_def using assms by (intro window_eqI) (auto simp: stream_ok_def)

lemma window_update:
  assumes "0 \<le> a" "a \<le> k" "k < b" "b \<le> int (length xs)"
  shows "window (xs[nat k := x]) a b = (window xs a b)[nat (k - a) := x]"
  by (rule nth_equalityI) (use assms in \<open>auto simp: window_nth nth_list_update nat_eq_iff\<close>)

lemma iov_copy_ok:
  assumes "stream_ok os" "body_fill os + int (length (concat iov)) \<le> body_storage os"
    and "\<forall>v \<in> set iov. int (length v) < 2 ^ 31"
  shows "\<exists>bd. iov_copy os iov =
      Some (os\<lparr>body_data := Some bd, body_fill := body_fill os + int (length (concat iov))\<rparr>) \<and>
     stream_ok (os\<lparr>body_data := Some bd, body_fill := body_fill os + int (length (concat iov))\<rparr>) \<and>
     body_queue (os\<lparr>body_data := Some bd, body_fill := body_fill os + int (length (concat iov))\<rparr>)
       = body_queue os @ concat iov"
  using assms
proof (induction iov arbitrary: os)
  case Nil
  then obtain bd where bd: "body_data os = Some bd" by (auto simp: stream_ok_def)
  then have "os\<lparr>body_data := Some bd\<rparr> = os" by (cases os) simp
  then show ?case using Nil by (intro exI [of _ bd]) simp
next
  case (Cons v iov)
  then obtain bd where bd: "body_data os = Some bd" "int (length bd) = body_storage os" by (auto simp: stream_ok_def)
  have m: "0 \<le> body_returned os" "body_returned os \<le> body_fill os" "body_fill os + int (length v) \<le> int (length bd)"
    using Cons.prems bd by (auto simp: stream_ok_def)
  obtain ys where ys: "mem_copy bd (body_fill os) v 0 (int (length v)) = Some ys" "length ys = length bd"
    "window ys (body_returned os) (body_fill os + int (length v)) = body_queue os @ v"
    using mem_copy_append [OF m] bd by (auto simp: body_queue_def)
  have c: "c_int (int (length v)) = int (length v)"
    using Cons.prems by (simp add: c_int_def signed_take_bit_int_eq_self)
  let ?os = "os\<lparr>body_data := Some ys, body_fill := body_fill os + int (length v)\<rparr>"
  have ok: "stream_ok ?os" using Cons.prems(1) bd ys m by (auto simp: stream_ok_def)
  have q: "body_queue ?os = body_queue os @ v" using ys by (simp add: body_queue_def)
  from Cons.IH [OF ok] Cons.prems obtain bd' where
    "iov_copy ?os iov = Some (os\<lparr>body_data := Some bd', body_fill := body_fill os + int (length (concat (v # iov)))\<rparr>)"
    "stream_ok (os\<lparr>body_data := Some bd', body_fill := body_fill os + int (length (concat (v # iov)))\<rparr>)"
    "body_queue (os\<lparr>body_data := Some bd', body_fill := body_fill os + int (length (concat (v # iov)))\<rparr>) =
       body_queue os @ concat (v # iov)"
    using q by (auto simp: add.assoc)
  then show ?case using bd ys c by auto
qed

lemma lacing_fill_255_ok:
  assumes "stream_ok os" "0 \<le> i" "lacing_fill os + i + int n \<le> lacing_storage os"
  shows "\<exists>lv gv. lacing_fill_255 os i n = Some (os\<lparr>lacing_vals := lv, granule_vals := gv\<rparr>) \<and>
     stream_ok (os\<lparr>lacing_vals := lv, granule_vals := gv\<rparr>) \<and>
     window lv (lacing_returned os) (lacing_fill os + i + int n) =
       window (lacing_vals os) (lacing_returned os) (lacing_fill os + i) @ replicate n 255"
  using assms
proof (induction n arbitrary: os i)
  case 0
  have "os\<lparr>lacing_vals := lacing_vals os, granule_vals := granule_vals os\<rparr> = os" by (cases os) simp
  then show ?case using 0 by (intro exI [of _ "lacing_vals os"] exI [of _ "granule_vals os"]) simp
next
  case (Suc n)
  have m: "0 \<le> lacing_returned os" "lacing_returned os \<le> lacing_fill os + i"
    "lacing_fill os + i < int (length (lacing_vals os))" "lacing_fill os + i < int (length (granule_vals os))"
    "0 \<le> lacing_fill os + i"
    using Suc.prems by (auto simp: stream_ok_def)
  obtain lv where lv: "wr (lacing_vals os) (lacing_fill os + i) 255 = Some lv" "length lv = length (lacing_vals os)"
    "window lv (lacing_returned os) (lacing_fill os + i + 1) =
      window (lacing_vals os) (lacing_returned os) (lacing_fill os + i) @ [255]"
    by (rule wr_append [OF m(1-3)])
  have gv: "wr (granule_vals os) (lacing_fill os + i) (granulepos os) =
      Some ((granule_vals os)[nat (lacing_fill os + i) := granulepos os])"
    using m by (simp add: wr_in)
  let ?os = "os\<lparr>lacing_vals := lv, granule_vals := (granule_vals os)[nat (lacing_fill os + i) := granulepos os]\<rparr>"
  have ok: "stream_ok ?os" using Suc.prems(1) lv by (auto simp: stream_ok_def)
  have "\<exists>lv' gv'. lacing_fill_255 ?os (i + 1) n = Some (?os\<lparr>lacing_vals := lv', granule_vals := gv'\<rparr>) \<and>
     stream_ok (?os\<lparr>lacing_vals := lv', granule_vals := gv'\<rparr>) \<and>
     window lv' (lacing_returned ?os) (lacing_fill ?os + (i + 1) + int n) =
       window (lacing_vals ?os) (lacing_returned ?os) (lacing_fill ?os + (i + 1)) @ replicate n 255"
    using Suc.IH [OF ok, of "i + 1"] Suc.prems by simp
  then show ?case using lv gv by (auto simp: add.assoc)
qed

text \<open>The lacing of one packet, without and with the start flag.\<close>

definition lace :: "nat \<Rightarrow> int list" where
  "lace n = replicate (n div 255) 255 @ [int (n mod 255)]"

definition lace_first :: "nat \<Rightarrow> int list" where
  "lace_first n = (lace n)[0 := lace n ! 0 OR 0x100]"

abbreviation seg :: "int \<Rightarrow> int" where
  "seg x \<equiv> x AND 0xff"

lemma seg_mod: "seg x = x mod 256"
  using take_bit_eq_mask [of 8 x] by (simp add: take_bit_eq_mod mask_eq_exp_minus_1)

lemma seg_or_exp: "8 \<le> k \<Longrightarrow> (x OR 2 ^ k) AND Bit_Operations.mask 8 = x AND (Bit_Operations.mask 8 :: int)"
  by (rule bit_eqI) (auto simp: bit_and_iff bit_or_iff bit_mask_iff bit_exp_iff)

lemma seg_or: "seg (x OR 0x100) = seg x" "seg (x OR 0x200) = seg x"
  using seg_or_exp [of 8 x] seg_or_exp [of 9 x] by (simp_all add: mask_eq_exp_minus_1)

lemma seg_val: "0 \<le> x \<Longrightarrow> x < 256 \<Longrightarrow> seg x = x"
  by (simp add: seg_mod)

lemma length_lace [simp]: "length (lace n) = n div 255 + 1" "length (lace_first n) = n div 255 + 1"
  by (simp_all add: lace_def lace_first_def)

lemma lace_range: "x \<in> set (lace n) \<Longrightarrow> 0 \<le> x \<and> x < 256"
  by (auto simp: lace_def set_replicate_conv_if split: if_splits)

lemma seg_lace: "map seg (lace n) = lace n"
  by (rule map_idI) (use lace_range seg_val in blast)

lemma seg_lace_first: "map seg (lace_first n) = lace n"
proof -
  have "map seg (lace_first n) = (map seg (lace n))[0 := seg (lace n ! 0 OR 0x100)]"
    by (simp add: lace_first_def map_update)
  also have "\<dots> = map seg (lace n)" by (simp only: seg_or) (simp add: list_update_same_conv)
  finally show ?thesis by (simp add: seg_lace)
qed

lemma sum_lace: "sum_list (lace n) = int n"
proof -
  have "int (n div 255) * 255 + int (n mod 255) = int n" by (metis div_mult_mod_eq of_nat_add of_nat_mult of_nat_numeral)
  then show ?thesis by (simp add: lace_def sum_list_replicate)
qed

lemma iov_bytes_sum:
  assumes "iov_bytes iov b = Some n" shows "n = b + int (length (concat iov))"
  using assms by (induction iov arbitrary: b) (fastforce split: if_splits)+

lemma iov_bytes_ok:
  "0 \<le> b \<Longrightarrow> b + int (length (concat iov)) \<le> LONG_MAX \<Longrightarrow> iov_bytes iov b = Some (b + int (length (concat iov)))"
  by (induction iov arbitrary: b) auto

text \<open>Storing the lacing values of one packet.\<close>

lemma lacing_store:
  assumes ok: "stream_ok os" and room: "lacing_fill os + int (n div 255 + 1) \<le> lacing_storage os"
  shows "\<exists>lv gv lv1 gv1 first. lacing_fill_255 os 0 (n div 255) = Some (os\<lparr>lacing_vals := lv, granule_vals := gv\<rparr>) \<and>
     wr lv (lacing_fill os + int (n div 255)) (int (n mod 255)) = Some lv1 \<and>
     wr gv (lacing_fill os + int (n div 255)) g = Some gv1 \<and>
     rd lv1 (lacing_fill os) = Some first \<and>
     wr lv1 (lacing_fill os) (first OR 0x100) = Some (lv1[nat (lacing_fill os) := first OR 0x100]) \<and>
     length lv1 = length (lacing_vals os) \<and> length gv1 = length (granule_vals os) \<and>
     window (lv1[nat (lacing_fill os) := first OR 0x100]) (lacing_returned os) (lacing_fill os + int (n div 255 + 1))
       = lacing_queue os @ lace_first n"
proof -
  let ?f = "lacing_fill os" and ?r = "lacing_returned os"
  have m: "0 \<le> ?r" "?r \<le> ?f" "int (length (lacing_vals os)) = lacing_storage os"
    "int (length (granule_vals os)) = lacing_storage os"
    using ok by (auto simp: stream_ok_def)
  obtain lv gv where s: "lacing_fill_255 os 0 (n div 255) = Some (os\<lparr>lacing_vals := lv, granule_vals := gv\<rparr>)"
    "stream_ok (os\<lparr>lacing_vals := lv, granule_vals := gv\<rparr>)"
    "window lv ?r (?f + int (n div 255)) = lacing_queue os @ replicate (n div 255) 255"
    using lacing_fill_255_ok [OF ok, of 0 "n div 255"] room by (auto simp: lacing_queue_def)
  have l: "length lv = length (lacing_vals os)" "length gv = length (granule_vals os)"
    using s(2) m by (auto simp: stream_ok_def)
  obtain lv1 where lv1: "wr lv (?f + int (n div 255)) (int (n mod 255)) = Some lv1" "length lv1 = length lv"
    "window lv1 ?r (?f + int (n div 255) + 1) = window lv ?r (?f + int (n div 255)) @ [int (n mod 255)]"
    using wr_append [of ?r "?f + int (n div 255)" lv "int (n mod 255)"] m l room by auto
  have w: "window lv1 ?r (?f + int (n div 255 + 1)) = lacing_queue os @ lace n"
    using lv1 s by (simp add: lace_def ac_simps)
  have first: "rd lv1 ?f = Some (lv1 ! nat ?f)" and upd: "wr lv1 ?f x = Some (lv1[nat ?f := x])" for x
    using m l lv1(2) room by (simp_all add: rd_in wr_in)
  have lq: "length (lacing_queue os) = nat (?f - ?r)" using m room by (simp add: lacing_queue_def)
  have "lv1 ! nat ?f = (lacing_queue os @ lace n) ! nat (?f - ?r)"
    using w window_nth [of ?r "?f + int (n div 255 + 1)" lv1 "nat (?f - ?r)"] m l lv1(2) room by simp
  also have "\<dots> = lace n ! 0" using lq by (simp add: nth_append)
  finally have f: "lv1 ! nat ?f = lace n ! 0" .
  have "window (lv1[nat ?f := lace n ! 0 OR 0x100]) ?r (?f + int (n div 255 + 1)) =
      (lacing_queue os @ lace n)[nat (?f - ?r) := lace n ! 0 OR 0x100]"
    using w m l lv1(2) room by (subst window_update) auto
  also have "\<dots> = lacing_queue os @ lace_first n"
    using lq by (simp add: list_update_append lace_first_def)
  finally have fin: "window (lv1[nat ?f := lace n ! 0 OR 0x100]) ?r (?f + int (n div 255 + 1)) = lacing_queue os @ lace_first n" .
  have "wr gv (?f + int (n div 255)) g = Some (gv[nat (?f + int (n div 255)) := g])"
    using m l room by (simp add: wr_in)
  then show ?thesis using s(1) lv1 l first f fin upd by fastforce
qed

lemma iovecin_cases:
  assumes ok: "stream_ok os" and iov: "\<forall>v \<in> set iov. int (length v) < 2 ^ 31"
    and n: "n = length (concat iov)"
  obtains (fail) os' where "ogg_stream_iovecin E os (Some iov) eos g = Some (os', - 1)"
      "os' = os \<or> os' = ogg_stream_zero"
      "\<not> (int n \<le> LONG_MAX \<and> body_room E os (int n) \<and> lacing_room E os (int (n div 255 + 1)))"
  | (success) os' where "ogg_stream_iovecin E os (Some iov) eos g = Some (os', 0)" "stream_ok os'"
      "body_queue os' = body_queue os @ concat iov" "lacing_queue os' = lacing_queue os @ lace_first n"
      "lacing_returned os' = lacing_returned os" "lacing_packet os' = lacing_packet os"
      "b_o_s os' = b_o_s os" "e_o_s os' = (if eos \<noteq> 0 then 1 else e_o_s os)"
      "serialno os' = serialno os" "pageno os' = pageno os"
      "body_storage os' \<le> body_storage os + int n + 1024"
      "lacing_storage os' \<le> lacing_storage os + int n + 33"
proof -
  have chk: "ogg_stream_check os = 0" using ok by (auto simp: stream_ok_def ogg_stream_check_def)
  show thesis
  proof (cases "iov_bytes iov 0")
    case None
    then have "\<not> int n \<le> LONG_MAX" using iov_bytes_ok [of 0 iov] n by auto
    then show thesis using fail [of os] None chk by (simp add: ogg_stream_iovecin_def)
  next
    case (Some b)
    then have b: "iov_bytes iov 0 = Some (int n)" using iov_bytes_sum n by fastforce
    obtain os1 bd1 where c: "os_body_compact os = Some os1"
      "os1 = os\<lparr>body_data := Some bd1, body_fill := body_fill os - body_returned os, body_returned := 0\<rparr>"
      "stream_ok os1" "body_queue os1 = body_queue os"
      by (rule body_compact_ok [OF ok])
    have room1: "body_room E os1 k = body_room E os k" for k by (simp add: body_room_def c)
    show thesis
    proof (cases rule: body_expand_cases [OF c(3) of_nat_0_le_iff [of n], where E = E, case_names fail go])
      case f: fail
      then show thesis using fail [of ogg_stream_zero] chk b c(1) room1
        by (simp add: ogg_stream_iovecin_def)
    next
      case be: (go bd2 st2)
      let ?os2 = "os1\<lparr>body_storage := st2, body_data := Some bd2\<rparr>"
      have room2: "lacing_room E ?os2 k = lacing_room E os k" for k by (simp add: lacing_room_def c)
      show thesis
      proof (cases rule: lacing_expand_cases [OF be(2) of_nat_0_le_iff [of "n div 255 + 1"], where E = E, case_names fail go])
        case f: fail
        then show thesis using fail [of ogg_stream_zero] chk b c(1) be(1) room2
          by (simp add: ogg_stream_iovecin_def zdiv_int Let_def add.commute)
      next
        case le: (go lv gv st3)
        let ?os3 = "?os2\<lparr>lacing_vals := lv, granule_vals := gv, lacing_storage := st3\<rparr>"
        have q3: "body_queue ?os3 = body_queue os" using be(3) c(4) by (simp add: body_queue_def)
        have lq3: "lacing_queue ?os3 = lacing_queue os"
          using lacing_queue_keep [of os lv] ok le(2,3) c(2) by (simp add: lacing_queue_def stream_ok_def)
        have "body_fill ?os3 + int (length (concat iov)) \<le> body_storage ?os3" using be(4) c(2) n by simp
        then obtain bd4 where ic: "iov_copy ?os3 iov = Some (?os3\<lparr>body_data := Some bd4, body_fill := body_fill os1 + int n\<rparr>)"
          "stream_ok (?os3\<lparr>body_data := Some bd4, body_fill := body_fill os1 + int n\<rparr>)"
          "body_queue (?os3\<lparr>body_data := Some bd4, body_fill := body_fill os1 + int n\<rparr>) = body_queue os @ concat iov"
          using iov_copy_ok [OF le(2) _ iov] q3 n by auto
        let ?os4 = "?os3\<lparr>body_data := Some bd4, body_fill := body_fill os1 + int n\<rparr>"
        have lq4: "lacing_queue ?os4 = lacing_queue os" using lq3 by (simp add: lacing_queue_def)
        have lr4: "lacing_fill ?os4 + int (n div 255 + 1) \<le> lacing_storage ?os4" using le(5) c(2) by simp
        obtain lv5 gv5 lv6 gv6 first where st: "lacing_fill_255 ?os4 0 (n div 255) = Some (?os4\<lparr>lacing_vals := lv5, granule_vals := gv5\<rparr>)"
          "wr lv5 (lacing_fill os + int (n div 255)) (int (n mod 255)) = Some lv6"
          "wr gv5 (lacing_fill os + int (n div 255)) g = Some gv6"
          "rd lv6 (lacing_fill os) = Some first"
          "wr lv6 (lacing_fill os) (first OR 0x100) = Some (lv6[nat (lacing_fill os) := first OR 0x100])"
          "length lv6 = length lv" "length gv6 = length gv"
          "window (lv6[nat (lacing_fill os) := first OR 0x100]) (lacing_returned os) (lacing_fill os + int (n div 255 + 1))
             = lacing_queue os @ lace_first n"
          using lacing_store [OF ic(2) lr4, of g] lq4 c(2) by auto
        let ?os7 = "?os4\<lparr>lacing_vals := lv6[nat (lacing_fill os) := first OR 0x100], granule_vals := gv6,
            granulepos := g, lacing_fill := lacing_fill os + int (n div 255 + 1), packetno := packetno os + 1,
            e_o_s := (if eos \<noteq> 0 then 1 else e_o_s os)\<rparr>"
        have ok7: "stream_ok ?os7" using ic(2) st(6,7) lr4 c(2) by (simp add: stream_ok_def)
        have "ogg_stream_iovecin E os (Some iov) eos g = Some (?os7, 0)"
          using chk b c(1,2) be(1) le(1) ic(1) st(1-5)
          by (simp add: ogg_stream_iovecin_def zdiv_int zmod_int Let_def add.commute nat_div_distrib)
        then show thesis
          by (rule success) (use ok7 ic(3) st(8) c(2) be(5) le(6) in \<open>auto simp: body_queue_def lacing_queue_def\<close>)
      qed
    qed
  qed
qed

subsection \<open>Flushing a page\<close>

lemma flush_initial_vals_ok:
  assumes "0 \<le> v" "v + int n \<le> int (length lv)" "0 < n"
  shows "\<exists>k. flush_initial_vals lv v n = Some (v + int k) \<and> 1 \<le> k \<and> k \<le> n"
  using assms
proof (induction n arbitrary: v)
  case (Suc n)
  then have r: "rd lv v = Some (lv ! nat v)" by (simp add: rd_in)
  show ?case
  proof (cases "seg (lv ! nat v) < 255 \<or> n = 0")
    case True
    then show ?thesis using r by (intro exI [of _ 1]) auto
  next
    case False
    then obtain k where "flush_initial_vals lv (v + 1) n = Some (v + 1 + int k)" "1 \<le> k" "k \<le> n"
      using Suc.IH [of "v + 1"] Suc.prems by auto
    then show ?thesis using r False by (intro exI [of _ "Suc k"]) auto
  qed
qed simp

text \<open>The granule position of the last packet that ends among the given segments.\<close>

fun last_granule :: "int \<Rightarrow> (int \<times> int) list \<Rightarrow> int" where
  "last_granule g [] = g"
| "last_granule g ((s, h) # xs) = last_granule (if seg s < 255 then h else g) xs"

lemma flush_vals_ok:
  assumes "0 \<le> v" "v + int n \<le> int (length lv)" "length gv = length lv"
  shows "\<exists>k f'. flush_vals lv gv nfill v n acc g d j f =
        Some (v + int k, last_granule g (take k (drop (nat v) (zip lv gv))), f') \<and> k \<le> n \<and>
        (f \<longrightarrow> f') \<and> (0 < n \<and> j < 4 \<longrightarrow> 0 < k)"
  using assms
proof (induction n arbitrary: v acc g d j)
  case (Suc n)
  show ?case
  proof (cases "acc > nfill \<and> j \<ge> 4")
    case True
    then show ?thesis by (intro exI [of _ 0]) auto
  next
    case False
    have r: "rd lv v = Some (lv ! nat v)" "rd gv v = Some (gv ! nat v)" using Suc.prems by (simp_all add: rd_in)
    have d: "drop (nat v) (zip lv gv) = (lv ! nat v, gv ! nat v) # drop (nat (v + 1)) (zip lv gv)"
      using Suc.prems by (subst Cons_nth_drop_Suc [symmetric]) (auto simp: nat_add_distrib)
    let ?g = "if seg (lv ! nat v) < 255 then gv ! nat v else g"
    let ?d = "if seg (lv ! nat v) < 255 then d + 1 else d"
    let ?j = "if seg (lv ! nat v) < 255 then d + 1 else 0"
    have "\<exists>k f'. flush_vals lv gv nfill (v + 1) n (acc + seg (lv ! nat v)) ?g ?d ?j f =
        Some (v + 1 + int k, last_granule ?g (take k (drop (nat (v + 1)) (zip lv gv))), f') \<and> k \<le> n \<and>
        (f \<longrightarrow> f') \<and> (0 < n \<and> ?j < 4 \<longrightarrow> 0 < k)"
      by (rule Suc.IH) (use Suc.prems in auto)
    then obtain k f' where "flush_vals lv gv nfill (v + 1) n (acc + seg (lv ! nat v)) ?g ?d ?j f =
        Some (v + 1 + int k, last_granule ?g (take k (drop (nat (v + 1)) (zip lv gv))), f')" "k \<le> n" "f \<longrightarrow> f'"
      by blast
    then show ?thesis using False r d by (intro exI [of _ "Suc k"] exI [of _ f']) auto
  qed
qed auto

lemma flush_segments_ok:
  assumes "0 \<le> i" "i + int n \<le> int (length lv)"
  shows "flush_segments lv i n = Some (map (\<lambda>x. word_of_int (seg x)) (take n (drop (nat i) lv)))"
  using assms
proof (induction n arbitrary: i)
  case (Suc n)
  have "drop (nat i) lv = lv ! nat i # drop (nat (i + 1)) lv"
    using Suc.prems by (subst Cons_nth_drop_Suc [symmetric]) (auto simp: nat_add_distrib)
  then show ?case using Suc by (simp add: rd_in)
qed simp

lemma put_bytes_next:
  "length pre = k \<Longrightarrow> k + length zs \<le> length h \<Longrightarrow>
   put_bytes (pre @ drop k h) (int k) zs = Some ((pre @ zs) @ drop (k + length zs) h)"
  by (simp add: put_bytes_def mem_copy_def nat_add_distrib add.commute)

definition page_header :: "byte \<Rightarrow> int \<Rightarrow> int \<Rightarrow> int \<Rightarrow> byte list \<Rightarrow> byte list \<Rightarrow> byte list" where
  "page_header flags granule serial page crc segs =
     [0x4f, 0x67, 0x67, 0x53] @ [0] @ [flags] @ le_bytes 8 granule @ le_bytes 4 serial @ le_bytes 4 page @
     crc @ [word_of_nat (length segs)] @ segs"

lemma length_page_header [simp]: "length (page_header f g s p crc segs) = 23 + length crc + length segs"
  by (simp add: page_header_def)

lemma flush_header_ok:
  assumes h: "length (header os) = 282" and n: "length segs \<le> 255" and v: "vals = int (length segs)"
    and first: "rd (lacing_vals os) 0 = Some first"
    and flags: "flags = (if first AND 0x100 = 0 then 0x01 else 0x00) OR (if b_o_s os = 0 then 0x02 else 0x00) OR
        (if e_o_s os \<noteq> 0 \<and> lacing_fill os = vals then 0x04 else 0x00)"
  shows "flush_header os vals g p segs =
    Some (page_header flags g (serialno os) p [0, 0, 0, 0] segs @ drop (27 + length segs) (header os))"
proof -
  let ?h = "header os" and ?O = "[0x4f, 0x67, 0x67, 0x53] :: byte list" and ?s = "serialno os"
  have 0: "put_bytes ?h 0 ?O = Some (?O @ drop 4 ?h)" using h by (simp add: put_bytes_def mem_copy_def)
  note step = put_bytes_next [where h = ?h]
  show ?thesis
    unfolding flush_header_def flags [symmetric] first
    using 0 step [of ?O 4 "[0]"] step [of "?O @ [0]" 5 "[flags]"]
      step [of "?O @ [0] @ [flags]" 6 "le_bytes 8 g"]
      step [of "?O @ [0] @ [flags] @ le_bytes 8 g" 14 "le_bytes 4 ?s"]
      step [of "?O @ [0] @ [flags] @ le_bytes 8 g @ le_bytes 4 ?s" 18 "le_bytes 4 p"]
      step [of "?O @ [0] @ [flags] @ le_bytes 8 g @ le_bytes 4 ?s @ le_bytes 4 p" 22 "[0, 0, 0, 0]"]
      step [of "?O @ [0] @ [flags] @ le_bytes 8 g @ le_bytes 4 ?s @ le_bytes 4 p @ [0, 0, 0, 0]" 26
              "[word_of_nat (length segs)]"]
      step [of "?O @ [0] @ [flags] @ le_bytes 8 g @ le_bytes 4 ?s @ le_bytes 4 p @ [0, 0, 0, 0] @
              [word_of_nat (length segs)]" 27 segs]
      h n v first flags
    by (simp add: page_header_def)
qed

definition enc_ok :: "ogg_stream_state \<Rightarrow> bool" where
  "enc_ok os \<longleftrightarrow> stream_ok os \<and> lacing_returned os = 0 \<and> lacing_packet os = 0 \<and>
     sum_list (map seg (lacing_queue os)) = int (length (body_queue os))"

lemma uint_seg: "uint (word_of_int (seg x) :: byte) = seg x"
  by (simp add: seg_mod take_bit_eq_mod uint_word_of_int)

lemma flush_choice_ok:
  assumes "enc_ok os" and "lacing_queue os \<noteq> []"
  obtains k g f' where "flush_choice os f nfill = Some (int k, g, f')" "1 \<le> k" "k \<le> 255"
    "k \<le> length (lacing_queue os)" "f \<longrightarrow> f'"
    "g = (if b_o_s os = 0 then 0 else last_granule (- 1) (take k (zip (lacing_vals os) (granule_vals os))))"
proof -
  define n where "n = nat (if lacing_fill os > 255 then 255 else lacing_fill os)"
  have ok: "stream_ok os" "lacing_returned os = 0" using assms by (auto simp: enc_ok_def)
  have lf: "lacing_fill os = int (length (lacing_queue os))" using ok by (auto simp: lacing_queue_def stream_ok_def)
  have len: "length (granule_vals os) = length (lacing_vals os)" "int n \<le> int (length (lacing_vals os))"
    using ok by (auto simp: stream_ok_def n_def)
  have n: "0 < n" "n \<le> 255" "n \<le> length (lacing_queue os)" using lf assms(2) by (auto simp: n_def)
  show thesis
  proof (cases "b_o_s os = 0")
    case True
    obtain k where "flush_initial_vals (lacing_vals os) 0 n = Some (int k)" "1 \<le> k" "k \<le> n"
      using flush_initial_vals_ok [of 0 n "lacing_vals os"] len n by auto
    then show thesis using that [of k 0 f] n True by (simp add: flush_choice_def flush_maxvals_def n_def [symmetric])
  next
    case False
    obtain k f' where "flush_vals (lacing_vals os) (granule_vals os) nfill 0 n 0 (- 1) 0 0 f =
        Some (int k, last_granule (- 1) (take k (zip (lacing_vals os) (granule_vals os))), f')" "k \<le> n"
        "f \<longrightarrow> f'" "0 < k"
      using flush_vals_ok [of 0 n "lacing_vals os" "granule_vals os" nfill 0 "- 1" 0 0 f] len n by auto
    then show thesis using that [of k _ "f' \<or> k = 255"] n False by (auto simp: flush_choice_def flush_maxvals_def n_def [symmetric])
  qed
qed

lemma page_header_checksum:
  obtains crc where "length crc = 4"
    "ogg_page_checksum_set \<lparr>og_header = page_header f g s p [0, 0, 0, 0] segs, og_body = bd\<rparr> =
       Some \<lparr>og_header = page_header f g s p crc segs, og_body = bd\<rparr>"
proof -
  let ?A = "[0x4f, 0x67, 0x67, 0x53] @ [0] @ [f] @ le_bytes 8 g @ le_bytes 4 s @ le_bytes 4 p"
  let ?B = "[word_of_nat (length segs)] @ segs"
  have split: "page_header f g s p crc segs = ?A @ crc @ ?B" for crc by (simp add: page_header_def)
  have A: "length ?A = 22" by simp
  have "take 22 (?A @ [0, 0, 0, 0] @ ?B) = ?A" "drop 26 (?A @ [0, 0, 0, 0] @ ?B) = ?B"
    by (simp_all only: take_append drop_append A) simp_all
  then show thesis using that
      [of "crc_bytes (foldl crc_step 0 (masked (page_header f g s p [0, 0, 0, 0] segs @ bd)))"]
    by (simp add: checksum_set_eq split)
qed

lemma flush_body:
  assumes ok: "enc_ok os" and bytes: "bytes = sum_list (map seg (take k (lacing_queue os)))"
  obtains bd og_b where "body_data os = Some bd" "slice bd (body_returned os) bytes = Some og_b"
    "body_queue os = og_b @ window bd (body_returned os + bytes) (body_fill os)" "int (length og_b) = bytes"
    "0 \<le> bytes" "body_returned os + bytes \<le> body_fill os"
proof -
  from ok obtain bd where bd: "body_data os = Some bd" "int (length bd) = body_storage os"
    "0 \<le> body_returned os" "body_returned os \<le> body_fill os" "body_fill os \<le> int (length bd)"
    by (auto simp: enc_ok_def stream_ok_def)
  have pos: "0 \<le> sum_list (map seg xs)" for xs by (rule sum_list_nonneg) (auto simp: seg_mod)
  have "sum_list (map seg (lacing_queue os)) = bytes + sum_list (map seg (drop k (lacing_queue os)))"
    unfolding bytes by (metis append_take_drop_id map_append sum_list.append)
  then have le: "0 \<le> bytes" "bytes \<le> int (length (body_queue os))"
    using ok pos [of "take k (lacing_queue os)"] pos [of "drop k (lacing_queue os)"] bytes by (auto simp: enc_ok_def)
  have len: "length (body_queue os) = nat (body_fill os - body_returned os)" using bd by (simp add: body_queue_def)
  have w: "body_queue os = window bd (body_returned os) (body_returned os + bytes) @ window bd (body_returned os + bytes) (body_fill os)"
    unfolding body_queue_def bd(1) option.case using bd le len by (intro window_append) auto
  have "slice bd (body_returned os) bytes = Some (window bd (body_returned os) (body_returned os + bytes))"
    using bd le len by (simp add: slice_def window_def)
  then show thesis using that [OF bd(1) _ w] bd le len by simp
qed

lemma flush_i_ok:
  assumes ok: "enc_ok os" "lacing_queue os \<noteq> []"
    and ch: "flush_choice os f nfill = Some (int k, g, True)" "1 \<le> k" "k \<le> 255" "k \<le> length (lacing_queue os)"
    and segs: "segs = map (\<lambda>x. word_of_int (seg x)) (take k (lacing_queue os))"
    and flags: "flags = (if (lacing_queue os ! 0) AND 0x100 = 0 then 0x01 else 0x00) OR
        (if b_o_s os = 0 then 0x02 else 0x00) OR (if e_o_s os \<noteq> 0 \<and> k = length (lacing_queue os) then 0x04 else 0x00)"
    and page: "page = (if pageno os = - 1 then 0 else pageno os)"
  shows "\<exists>os' og crc. ogg_stream_flush_i os f nfill = Some (os', Some og) \<and>
      og_header og = page_header flags g (serialno os) page crc segs \<and> length crc = 4 \<and>
      ogg_page_checksum_set og = Some og \<and>
      enc_ok os' \<and> lacing_queue os' = drop k (lacing_queue os) \<and>
      body_queue os = og_body og @ body_queue os' \<and>
      int (length (og_body og)) = sum_list (map seg (take k (lacing_queue os))) \<and>
      b_o_s os' = 1 \<and> pageno os' = page + 1 \<and> serialno os' = serialno os \<and> e_o_s os' = e_o_s os \<and>
      body_storage os' = body_storage os \<and> lacing_storage os' = lacing_storage os"
proof -
  let ?lv = "lacing_vals os" and ?gv = "granule_vals os" and ?fill = "lacing_fill os"
  have s: "stream_ok os" "lacing_returned os = 0" "lacing_packet os = 0" using ok by (auto simp: enc_ok_def)
  have l: "int (length ?lv) = lacing_storage os" "int (length ?gv) = lacing_storage os" "0 \<le> ?fill"
     "?fill \<le> lacing_storage os" "length (header os) = 282" "body_data os \<noteq> None"
    using s by (auto simp: stream_ok_def)
  have q: "lacing_queue os = take (nat ?fill) ?lv" using s by (simp add: lacing_queue_def window_def)
  have lf: "?fill = int (length (lacing_queue os))" using l by (simp add: q)
  have k: "int k \<le> ?fill" using ch lf by simp
  have tk: "take k (lacing_queue os) = take k ?lv" using k by (simp add: q min_absorb1 le_nat_iff)
  have fs: "flush_segments ?lv 0 k = Some segs"
    using flush_segments_ok [of 0 k ?lv] k l segs tk by simp
  have lsegs: "length segs = k" using ch(4) by (simp add: segs)
  have pos: "0 < ?fill" using ok(2) lf by simp
  have first: "rd ?lv 0 = Some (lacing_queue os ! 0)" using pos l(1,4) by (simp add: rd_def q)
  have hd: "flush_header os (int k) g page segs =
      Some (page_header flags g (serialno os) page [0, 0, 0, 0] segs @ drop (27 + k) (header os))"
    using flush_header_ok [OF l(5) _ _ first, of segs "int k" flags g page] lsegs ch(3) flags lf by simp
  let ?H = "page_header flags g (serialno os) page [0, 0, 0, 0] segs"
  define bytes where "bytes = sum_list (map seg (take k (lacing_queue os)))"
  obtain bd og_b where b: "body_data os = Some bd" "slice bd (body_returned os) bytes = Some og_b"
    "body_queue os = og_b @ window bd (body_returned os + bytes) (body_fill os)" "int (length og_b) = bytes"
    "0 \<le> bytes" "body_returned os + bytes \<le> body_fill os"
    using flush_body [OF ok(1), of bytes k] bytes_def by blast
  have sumb: "sum_list (map uint segs) = bytes" by (simp add: segs bytes_def comp_def uint_seg)
  have sl: "slice (?H @ drop (27 + k) (header os)) 0 (int k + 27) = Some ?H"
    using lsegs by (simp add: slice_def nat_add_distrib)
  obtain lv' where lv': "mem_copy ?lv 0 ?lv (int k) (?fill - int k) = Some lv'" "length lv' = length ?lv"
    "window lv' 0 (?fill - int k) = window ?lv (int k) ?fill"
    using mem_copy_front [of "int k" ?fill ?lv] k l by auto
  obtain gv' where gv': "mem_copy ?gv 0 ?gv (int k) (?fill - int k) = Some gv'" "length gv' = length ?gv"
    using mem_copy_front [of "int k" ?fill ?gv] k l by auto
  obtain crc where crc: "length crc = 4" "ogg_page_checksum_set \<lparr>og_header = ?H, og_body = og_b\<rparr> =
       Some \<lparr>og_header = page_header flags g (serialno os) page crc segs, og_body = og_b\<rparr>" (is "_ = Some ?og")
    by (rule page_header_checksum)
  obtain h' where h': "put_bytes (?H @ drop (27 + k) (header os)) 0 (og_header ?og) = Some h'" "length h' = 282"
    using l(5) lsegs crc(1) ch(3) by (auto simp: put_bytes_def mem_copy_def)
  let ?os' = "os\<lparr>header := h', header_fill := int k + 27, b_o_s := 1, pageno := page + 1,
      lacing_fill := ?fill - int k, lacing_vals := lv', granule_vals := gv', body_returned := body_returned os + bytes\<rparr>"
  have "flush_maxvals os \<noteq> 0" using pos by (simp add: flush_maxvals_def)
  then have res: "ogg_stream_flush_i os f nfill = Some (?os', Some ?og)"
    using ch(1) fs hd sumb sl b(1,2) lv'(1) gv'(1) crc(2) h'(1) page l(6)
    by (simp add: ogg_stream_flush_i_def ogg_stream_check_def Let_def)
  have lq': "lacing_queue ?os' = drop k (lacing_queue os)"
    using s lv'(3) k by (simp add: lacing_queue_def window_def drop_take nat_diff_distrib)
  have bq': "body_queue ?os' = window bd (body_returned os + bytes) (body_fill os)" using b(1) by (simp add: body_queue_def)
  have "sum_list (map seg (lacing_queue os)) = bytes + sum_list (map seg (drop k (lacing_queue os)))"
    unfolding bytes_def by (metis append_take_drop_id map_append sum_list.append)
  then have "sum_list (map seg (lacing_queue ?os')) = int (length (body_queue ?os'))"
    using ok(1) b(3,4) lq' bq' by (simp add: enc_ok_def)
  moreover have "stream_ok ?os'" using s(1,2,3) lv'(2) gv'(2) h'(2) b(5,6) k by (auto simp: stream_ok_def)
  ultimately have enc: "enc_ok ?os'" using s by (simp add: enc_ok_def)
  have "ogg_page_checksum_set ?og = Some ?og" using checksum_set_ok [OF crc(2)] by (simp add: checksum_ok_def)
  then show ?thesis using res crc(1) enc lq' bq' b(3,4) bytes_def
    by (intro exI [of _ ?os'] exI [of _ ?og] exI [of _ crc]) simp
qed

subsection \<open>Reading a page header\<close>

lemma page_header_nth:
  assumes "length crc = 4"
  shows "page_header f g s p crc segs ! 4 = 0" "page_header f g s p crc segs ! 5 = f"
    "k < 8 \<Longrightarrow> page_header f g s p crc segs ! (6 + k) = le_bytes 8 g ! k"
    "k < 4 \<Longrightarrow> page_header f g s p crc segs ! (14 + k) = le_bytes 4 s ! k"
    "k < 4 \<Longrightarrow> page_header f g s p crc segs ! (18 + k) = le_bytes 4 p ! k"
    "page_header f g s p crc segs ! 26 = word_of_nat (length segs)"
    "k < length segs \<Longrightarrow> page_header f g s p crc segs ! (27 + k) = segs ! k"
proof -
  have a: "(xs @ ys) ! (n + k) = ys ! k" if "length xs = n" for xs ys :: "byte list" and n k
    using that by (simp add: nth_append)
  have b: "(xs @ ys @ zs) ! (n + k) = ys ! k" if "length xs = n" "k < length ys" for xs ys zs :: "byte list" and n k
    using that by (simp add: nth_append)
  let ?O = "[0x4f, 0x67, 0x67, 0x53] :: byte list"
  let ?T = "crc @ [word_of_nat (length segs)] @ segs"
  show "page_header f g s p crc segs ! 4 = 0" "page_header f g s p crc segs ! 5 = f"
    by (simp_all add: page_header_def)
  show "k < 8 \<Longrightarrow> page_header f g s p crc segs ! (6 + k) = le_bytes 8 g ! k"
    using b [of "?O @ [0] @ [f]" 6 k "le_bytes 8 g" "le_bytes 4 s @ le_bytes 4 p @ ?T"]
    by (simp add: page_header_def)
  show "k < 4 \<Longrightarrow> page_header f g s p crc segs ! (14 + k) = le_bytes 4 s ! k"
    using b [of "?O @ [0] @ [f] @ le_bytes 8 g" 14 k "le_bytes 4 s" "le_bytes 4 p @ ?T"]
    by (simp add: page_header_def)
  show "k < 4 \<Longrightarrow> page_header f g s p crc segs ! (18 + k) = le_bytes 4 p ! k"
    using b [of "?O @ [0] @ [f] @ le_bytes 8 g @ le_bytes 4 s" 18 k "le_bytes 4 p" ?T]
    by (simp add: page_header_def)
  show "page_header f g s p crc segs ! 26 = word_of_nat (length segs)"
    using b [of "?O @ [0] @ [f] @ le_bytes 8 g @ le_bytes 4 s @ le_bytes 4 p @ crc" 26 0 "[word_of_nat (length segs)]" segs] assms
    by (simp add: page_header_def)
  show "k < length segs \<Longrightarrow> page_header f g s p crc segs ! (27 + k) = segs ! k"
    using a [of "?O @ [0] @ [f] @ le_bytes 8 g @ le_bytes 4 s @ le_bytes 4 p @ crc @ [word_of_nat (length segs)]" 27 segs k] assms
    by (simp add: page_header_def)
qed

lemma page_header_rd:
  assumes "length crc = 4" "n < 27 + length segs"
  shows "rd (page_header f g s p crc segs) (int n) = Some (page_header f g s p crc segs ! n)"
  using assms by (simp add: rd_def)

lemma page_fields:
  assumes h: "og_header og = page_header f g s p crc segs" and c: "length crc = 4"
  shows "ogg_page_version og = Some 0" "ogg_page_continued og = Some (uint (f AND 1))"
    "ogg_page_bos og = Some (uint (f AND 2))" "ogg_page_eos og = Some (uint (f AND 4))"
    "ogg_page_granulepos og = Some (signed_take_bit 63 g)"
    "ogg_page_serialno og = Some (c_int s)" "ogg_page_pageno og = Some (c_int p)"
    "rd (og_header og) 26 = Some (word_of_nat (length segs))"
    "k < length segs \<Longrightarrow> rd (og_header og) (27 + int k) = Some (segs ! k)"
proof -
  note r = page_header_rd [OF c, of _ segs f g s p] and n = page_header_nth [OF c, where f = f and g = g and s = s and p = p and segs = segs]
  show "ogg_page_version og = Some 0" using r [of 4] n(1) by (simp add: ogg_page_version_def h)
  show "ogg_page_continued og = Some (uint (f AND 1))" "ogg_page_bos og = Some (uint (f AND 2))"
    "ogg_page_eos og = Some (uint (f AND 4))"
    using r [of 5] n(2) by (simp_all add: ogg_page_continued_def ogg_page_bos_def ogg_page_eos_def h)
  show "rd (og_header og) 26 = Some (word_of_nat (length segs))" using r [of 26] n(6) by (simp add: h)
  show "k < length segs \<Longrightarrow> rd (og_header og) (27 + int k) = Some (segs ! k)"
    using r [of "27 + k"] n(7) [of k] by (simp add: h)
  show "ogg_page_granulepos og = Some (signed_take_bit 63 g)"
    by (rule granulepos_le_bytes) (use r [of "6 + k" for k] n(3) in \<open>simp add: h\<close>)
  show "ogg_page_serialno og = Some (c_int s)"
    unfolding ogg_page_serialno_def using le32_le_bytes [of "og_header og" 14 s] r [of "14 + k" for k] n(4)
    by (simp add: h sint_u32_of_int)
  show "ogg_page_pageno og = Some (c_int p)"
    unfolding ogg_page_pageno_def using le32_le_bytes [of "og_header og" 18 p] r [of "18 + k" for k] n(5)
    by (simp add: h sint_u32_of_int)
qed

subsection \<open>Accepting pages in sequence\<close>

text \<open>\<open>lacing_packet\<close> marks the end of the last complete packet; no gap markers are queued.\<close>

definition marked :: "ogg_stream_state \<Rightarrow> bool" where
  "marked os \<longleftrightarrow> (\<forall>x \<in> set (drop (nat (lacing_packet os - lacing_returned os)) (lacing_queue os)). seg x = 255) \<and>
     (lacing_packet os = lacing_returned os \<or>
        seg (lacing_queue os ! nat (lacing_packet os - lacing_returned os - 1)) < 255) \<and>
     (\<forall>x \<in> set (lacing_queue os). x AND 0x400 = 0)"

definition dec_ok :: "ogg_stream_state \<Rightarrow> bool" where
  "dec_ok os \<longleftrightarrow> stream_ok os \<and> marked os \<and>
     sum_list (map seg (lacing_queue os)) = int (length (body_queue os))"

lemma seg_le: "seg x \<le> 255" "0 \<le> seg x"
  by (simp_all add: seg_mod)

lemma gap_free: 
  "0 \<le> x \<Longrightarrow> x < 256 \<Longrightarrow> x AND 0x400 = 0"
  "(x OR 0x100) AND 0x400 = x AND 0x400" "(x OR 0x200) AND 0x400 = x AND (0x400 :: int)"
proof -
  have f: "(x OR 2 ^ k) AND 2 ^ m = x AND 2 ^ m" if "k < m" for x :: int and k m
    by (rule bit_eqI) (use that in \<open>auto simp: bit_and_iff bit_or_iff bit_exp_iff\<close>)
  show "(x OR 0x100) AND 0x400 = x AND 0x400" "(x OR 0x200) AND 0x400 = x AND (0x400 :: int)"
    using f [of 8 10 x] f [of 9 10 x] by simp_all
  assume "0 \<le> x" "x < 256"
  then have "take_bit 8 x = x" by (simp add: take_bit_int_eq_self)
  then have "\<not> bit x 10" using bit_take_bit_iff [of 8 x 10] by simp
  then have "x AND 2 ^ 10 = 0" by (simp only: and_exp_eq_0_iff_not_bit not_False_eq_True)
  then show "x AND 0x400 = 0" by simp
qed

lemma lacing_compact_ok:
  assumes "stream_ok os"
  obtains os' lv gv where "pagein_lacing_compact os = Some os'"
    "os' = os\<lparr>lacing_vals := lv, granule_vals := gv, lacing_fill := lacing_fill os - lacing_returned os,
        lacing_packet := lacing_packet os - lacing_returned os, lacing_returned := 0\<rparr>"
    "stream_ok os'" "lacing_queue os' = lacing_queue os"
proof -
  let ?r = "lacing_returned os" and ?f = "lacing_fill os"
  have m: "0 \<le> ?r" "?r \<le> ?f" "?f \<le> int (length (lacing_vals os))" "?f \<le> int (length (granule_vals os))"
    using assms by (auto simp: stream_ok_def)
  obtain lv where lv: "mem_copy (lacing_vals os) 0 (lacing_vals os) ?r (?f - ?r) = Some lv"
     "length lv = length (lacing_vals os)" "window lv 0 (?f - ?r) = lacing_queue os"
    using mem_copy_front [OF m(1,2,3)] by (auto simp: lacing_queue_def)
  obtain gv where gv: "mem_copy (granule_vals os) 0 (granule_vals os) ?r (?f - ?r) = Some gv"
     "length gv = length (granule_vals os)"
    using mem_copy_front [OF m(1,2,4)] by auto
  let ?c = "?r = 0 \<or> ?f - ?r = 0"
  let ?os = "os\<lparr>lacing_vals := if ?c then lacing_vals os else lv, granule_vals := if ?c then granule_vals os else gv,
      lacing_fill := ?f - ?r, lacing_packet := lacing_packet os - ?r, lacing_returned := 0\<rparr>"
  have same: "os\<lparr>lacing_vals := lacing_vals os, granule_vals := granule_vals os, lacing_fill := ?f,
      lacing_packet := lacing_packet os, lacing_returned := 0\<rparr> = os" if "?r = 0"
    using that by (cases os) simp
  have 1: "pagein_lacing_compact os = Some ?os"
    using lv gv same by (auto simp: pagein_lacing_compact_def Let_def)
  have 2: "stream_ok ?os" using assms lv gv m by (auto simp: stream_ok_def)
  have 3: "lacing_queue ?os = lacing_queue os" using lv by (auto simp: lacing_queue_def)
  show thesis by (rule that [OF 1 refl 2 3])
qed

lemma marked_append:
  assumes ok: "stream_ok os" and m: "marked os" and x: "seg x = v" "x AND 0x400 = 0"
    and os': "lacing_queue os' = lacing_queue os @ [x]" "lacing_returned os' = lacing_returned os"
      "lacing_packet os' = (if v < 255 then lacing_fill os + 1 else lacing_packet os)"
  shows "marked os'"
proof -
  have l: "length (lacing_queue os) = nat (lacing_fill os - lacing_returned os)"
    using ok by (auto simp: lacing_queue_def stream_ok_def)
  have ord: "lacing_returned os \<le> lacing_packet os" "lacing_packet os \<le> lacing_fill os" using ok by (auto simp: stream_ok_def)
  show ?thesis
  proof (cases "v < 255")
    case True
    have "nat (lacing_fill os + 1 - lacing_returned os) = Suc (length (lacing_queue os))" using l ord by simp
    then show ?thesis using m x os' True l ord by (auto simp: marked_def nth_append)
  next
    case False
    then have v: "seg x = 255" using seg_le(1) [of x] x by simp
    have "nat (lacing_packet os - lacing_returned os) \<le> length (lacing_queue os)" using l ord by simp
    then show ?thesis using m x os' False v l ord by (auto simp: marked_def nth_append)
  qed
qed

lemma pagein_segments_ok:
  assumes "stream_ok os" "marked os" "lacing_fill os + int n \<le> lacing_storage os" "0 \<le> i"
    and "\<And>k. k < n \<Longrightarrow> rd h (27 + i + int k) = Some (ss ! k)" "length ss = n"
    and "saved = - 1 \<or> 0 \<le> saved \<and> saved < lacing_fill os"
  shows "\<exists>lv gv lp saved' os'. pagein_segments h i n bos saved os = Some (os', saved') \<and>
     os' = os\<lparr>lacing_vals := lv, granule_vals := gv, lacing_fill := lacing_fill os + int n, lacing_packet := lp\<rparr> \<and>
     stream_ok os' \<and> marked os' \<and>
     map seg (lacing_queue os') = map seg (lacing_queue os) @ map uint ss \<and>
     (saved' = - 1 \<or> 0 \<le> saved' \<and> saved' < lacing_fill os')"
  using assms
proof (induction n arbitrary: os i bos saved ss)
  case 0
  have "os\<lparr>lacing_vals := lacing_vals os, granule_vals := granule_vals os, lacing_fill := lacing_fill os,
      lacing_packet := lacing_packet os\<rparr> = os" by (cases os) simp
  then show ?case using 0
    by (intro exI [of _ "lacing_vals os"] exI [of _ "granule_vals os"] exI [of _ "lacing_packet os"] exI [of _ saved] exI [of _ os]) simp
next
  case (Suc n)
  obtain x ts where ss: "ss = x # ts" "length ts = n" using Suc.prems(6) by (cases ss) auto
  let ?f = "lacing_fill os" and ?r = "lacing_returned os" and ?v = "uint x"
  have r0: "rd h (27 + i) = Some x" using Suc.prems(5) [of 0] ss by simp
  have m: "0 \<le> ?r" "?r \<le> ?f" "?f < int (length (lacing_vals os))" "?f < int (length (granule_vals os))" "0 \<le> ?f"
    using Suc.prems(1,3) by (auto simp: stream_ok_def)
  have v: "0 \<le> ?v" "?v < 256" using uint_bounded [of x] by simp_all
  let ?y = "if bos then ?v OR 0x100 else ?v"
  have y: "seg ?y = ?v" "?y AND 0x400 = 0" using v by (simp_all add: seg_or seg_val gap_free)
  obtain lv where lv: "wr (lacing_vals os) ?f ?y = Some lv" "length lv = length (lacing_vals os)"
    "window lv ?r (?f + 1) = lacing_queue os @ [?y]"
    using wr_append [OF m(1,2,3), of ?y] by (auto simp: lacing_queue_def)
  let ?gv = "(granule_vals os)[nat ?f := - 1]"
  have gv: "wr (granule_vals os) ?f (- 1) = Some ?gv" using m by (simp add: wr_in)
  let ?o1 = "os\<lparr>lacing_vals := lv, granule_vals := ?gv, lacing_fill := ?f + 1\<rparr>"
  let ?os1 = "if ?v < 255 then ?o1\<lparr>lacing_packet := ?f + 1\<rparr> else ?o1"
  have ok1: "stream_ok ?os1" using Suc.prems(1,3) lv by (auto simp: stream_ok_def)
  have q1: "lacing_queue ?os1 = lacing_queue os @ [?y]" using lv by (simp add: lacing_queue_def)
  have mk1: "marked ?os1"
    by (rule marked_append [OF Suc.prems(1,2) y(1) _ q1]) (use y in auto)
  have fill1: "lacing_fill ?os1 = ?f + 1" "lacing_storage ?os1 = lacing_storage os" by auto
  have "\<exists>lv' gv' lp' saved' os'. pagein_segments h (i + 1) n False (if ?v < 255 then ?f else saved) ?os1 = Some (os', saved') \<and>
     os' = ?os1\<lparr>lacing_vals := lv', granule_vals := gv', lacing_fill := lacing_fill ?os1 + int n, lacing_packet := lp'\<rparr> \<and>
     stream_ok os' \<and> marked os' \<and> map seg (lacing_queue os') = map seg (lacing_queue ?os1) @ map uint ts \<and>
     (saved' = - 1 \<or> 0 \<le> saved' \<and> saved' < lacing_fill os')"
  proof (rule Suc.IH [OF ok1 mk1])
    show "rd h (27 + (i + 1) + int k) = Some (ts ! k)" if "k < n" for k
      using Suc.prems(5) [of "Suc k"] that ss by (simp add: ac_simps)
  qed (use Suc.prems ss fill1 m in auto)
  then obtain lv' gv' lp' saved' os' where ih:
     "pagein_segments h (i + 1) n False (if ?v < 255 then ?f else saved) ?os1 = Some (os', saved')"
     "os' = ?os1\<lparr>lacing_vals := lv', granule_vals := gv', lacing_fill := lacing_fill ?os1 + int n, lacing_packet := lp'\<rparr>"
     "stream_ok os'" "marked os'" "map seg (lacing_queue os') = map seg (lacing_queue ?os1) @ map uint ts"
     "saved' = - 1 \<or> 0 \<le> saved' \<and> saved' < lacing_fill os'" by blast
  have "pagein_segments h i (Suc n) bos saved os = Some (os', saved')"
    using r0 lv(1) gv ih(1) by (simp add: Let_def)
  moreover have "os' = os\<lparr>lacing_vals := lv', granule_vals := gv', lacing_fill := ?f + int (Suc n), lacing_packet := lp'\<rparr>"
    using ih(2) by (simp add: ac_simps)
  moreover have "map seg (lacing_queue os') = map seg (lacing_queue os) @ map uint ss"
    using ih(5) q1 y ss by simp
  ultimately show ?case using ih by blast
qed

lemma marked_cong:
  assumes m: "marked os" and s: "map seg (lacing_queue os') = map seg (lacing_queue os)"
    and g: "map (\<lambda>x. x AND 0x400) (lacing_queue os') = map (\<lambda>x. x AND 0x400) (lacing_queue os)"
    and d: "lacing_packet os' = lacing_packet os" "lacing_returned os' = lacing_returned os"
      "lacing_returned os \<le> lacing_packet os" "lacing_packet os - lacing_returned os \<le> int (length (lacing_queue os))"
  shows "marked os'"
proof -
  let ?d = "nat (lacing_packet os - lacing_returned os)"
  have len: "length (lacing_queue os') = length (lacing_queue os)" by (metis s length_map)
  have "\<forall>y \<in> set (drop ?d (map seg (lacing_queue os))). y = 255" using m by (auto simp: marked_def drop_map)
  then have 1: "\<forall>x \<in> set (drop ?d (lacing_queue os')). seg x = 255" unfolding s [symmetric] by (simp add: drop_map)
  have 2: "seg (lacing_queue os' ! i) = seg (lacing_queue os ! i)" if "i < length (lacing_queue os)" for i
    using arg_cong [OF s, of "\<lambda>xs. xs ! i"] that len by simp
  have "\<forall>y \<in> set (map (\<lambda>x. x AND 0x400) (lacing_queue os')). y = 0" unfolding g using m by (auto simp: marked_def)
  then show ?thesis using m d 1 2 [of "nat (lacing_packet os - lacing_returned os - 1)"] len
    by (cases "lacing_packet os = lacing_returned os") (auto simp: marked_def)
qed

lemma marked_eos:
  assumes "stream_ok os" "marked os" "lacing_returned os = 0"
  obtains os' where "pagein_eos os = Some os'" "stream_ok os'" "marked os'"
    "map seg (lacing_queue os') = map seg (lacing_queue os)"
    "\<exists>lv. os' = os\<lparr>e_o_s := 1, lacing_vals := lv\<rparr>"
proof (cases "lacing_fill os > 0")
  case False
  show thesis
  proof (rule that)
    show "pagein_eos os = Some (os\<lparr>e_o_s := 1\<rparr>)" using False by (simp add: pagein_eos_def)
    show "\<exists>lv. os\<lparr>e_o_s := 1\<rparr> = os\<lparr>e_o_s := 1, lacing_vals := lv\<rparr>"
      by (rule exI [of _ "lacing_vals os"]) (cases os, simp)
  qed (use assms in \<open>simp_all add: stream_ok_def marked_def lacing_queue_def\<close>)
next
  case True
  let ?f = "lacing_fill os"
  have m: "?f \<le> int (length (lacing_vals os))" "lacing_packet os \<le> ?f" "0 \<le> lacing_packet os"
    using assms by (auto simp: stream_ok_def)
  let ?x = "lacing_vals os ! nat (?f - 1)"
  let ?lv = "(lacing_vals os)[nat (?f - 1) := ?x OR 0x200]"
  let ?os = "os\<lparr>e_o_s := 1, lacing_vals := ?lv\<rparr>"
  have r: "pagein_eos os = Some ?os" using True m by (simp add: pagein_eos_def rd_in wr_in)
  have q: "lacing_queue ?os = (lacing_queue os)[nat (?f - 1) := ?x OR 0x200]"
    using window_update [of 0 "?f - 1" ?f "lacing_vals os" "?x OR 0x200"] True m assms(3)
    by (simp add: lacing_queue_def)
  have len: "length (lacing_queue os) = nat ?f" using m True assms(3) by (simp add: lacing_queue_def)
  have x: "lacing_queue os ! nat (?f - 1) = ?x"
    using window_nth [of 0 ?f "lacing_vals os" "nat (?f - 1)"] True m assms(3) by (simp add: lacing_queue_def)
  have sq: "map seg (lacing_queue ?os) = map seg (lacing_queue os)"
  proof -
    have "map seg (lacing_queue ?os) = (map seg (lacing_queue os))[nat (?f - 1) := seg ?x]"
      by (simp only: q map_update seg_or)
    also have "seg ?x = map seg (lacing_queue os) ! nat (?f - 1)" using x len True by simp
    finally show ?thesis by (simp only: list_update_id)
  qed
  have gq: "map (\<lambda>x. x AND 0x400) (lacing_queue ?os) = map (\<lambda>x. x AND 0x400) (lacing_queue os)"
  proof -
    have "map (\<lambda>x. x AND 0x400) (lacing_queue ?os) = (map (\<lambda>x. x AND 0x400) (lacing_queue os))[nat (?f - 1) := ?x AND 0x400]"
      by (simp only: q map_update gap_free)
    also have "?x AND 0x400 = map (\<lambda>x. x AND 0x400) (lacing_queue os) ! nat (?f - 1)" using x len True by simp
    finally show ?thesis by (simp only: list_update_id)
  qed
  have "marked ?os" by (rule marked_cong [OF assms(2) sq gq]) (use len m assms(3) in auto)
  moreover have "stream_ok ?os" using assms(1) by (simp add: stream_ok_def)
  ultimately show thesis using that [OF r _ _ sq] by blast
qed

text \<open>A page as the encoder emits it, and what a decoder needs to take it without loss.\<close>

definition page_next :: "ogg_stream_state \<Rightarrow> ogg_page \<Rightarrow> byte list \<Rightarrow> bool" where
  "page_next os og segs \<longleftrightarrow> (\<exists>f g crc. og_header og = page_header f g (serialno os) (pageno os) crc segs \<and>
     length crc = 4 \<and> length segs \<le> 255 \<and>
     int (length (og_body og)) = sum_list (map uint segs) \<and>
     c_int (serialno os) = serialno os \<and> c_int (pageno os) = pageno os \<and>
     (f AND 1 \<noteq> 0 \<longrightarrow> lacing_queue os \<noteq> [] \<and> seg (last (lacing_queue os)) = 255))"

lemma seg_400: "seg x = 255 \<Longrightarrow> x \<noteq> 0x400"
  by (auto simp: seg_mod)

lemma body_queue_cong:
  "body_data os' = body_data os \<Longrightarrow> body_returned os' = body_returned os \<Longrightarrow> body_fill os' = body_fill os
    \<Longrightarrow> body_queue os' = body_queue os"
  by (simp add: body_queue_def split: option.split)

lemma marked_lacing:
  "marked os \<Longrightarrow> lacing_queue os' = lacing_queue os \<Longrightarrow> lacing_packet os' - lacing_returned os' = lacing_packet os - lacing_returned os
    \<Longrightarrow> marked os'"
  by (auto simp: marked_def)

text \<open>Appending the body of a page.\<close>

lemma pagein_body_cases:
  assumes ok: "stream_ok os"
    and ex: "ex = (if int (length bs) \<noteq> 0 then os_body_expand E os (int (length bs)) else (os, 0))"
  obtains (fail) "ex = (ogg_stream_zero, - 1)" "\<not> body_room E os (int (length bs))"
  | (go) os1 bd st os2 where "ex = (os1, 0)"
      "(if int (length bs) \<noteq> 0 then do {
               bd \<leftarrow> body_data os1;
               bd \<leftarrow> mem_copy bd (body_fill os1) bs 0 (int (length bs));
               Some (os1\<lparr>body_data := Some bd, body_fill := body_fill os1 + int (length bs)\<rparr>) }
            else Some os1) = Some os2"
      "os2 = os\<lparr>body_storage := st, body_data := Some bd, body_fill := body_fill os + int (length bs)\<rparr>"
      "stream_ok os2" "body_queue os2 = body_queue os @ bs" "st \<le> body_storage os + int (length bs) + 1024"
proof (cases "bs = []")
  case True
  obtain bd where "body_data os = Some bd" using ok by (auto simp: stream_ok_def)
  then have "os\<lparr>body_storage := body_storage os, body_data := Some bd, body_fill := body_fill os\<rparr> = os" by (cases os) simp
  then show thesis using go [of os os bd "body_storage os"] True ex ok by simp
next
  case False
  show thesis
  proof (cases rule: body_expand_cases [OF ok of_nat_0_le_iff [of "length bs"], where E = E, case_names fail go])
    case fail
    then show thesis using that(1) False ex by simp
  next
    case g: (go bd1 st)
    let ?os1 = "os\<lparr>body_storage := st, body_data := Some bd1\<rparr>"
    have m: "0 \<le> body_returned os" "body_returned os \<le> body_fill os" "body_fill os + int (length bs) \<le> int (length bd1)"
      using g(2,4) by (auto simp: stream_ok_def)
    obtain ys where ys: "mem_copy bd1 (body_fill os) bs 0 (int (length bs)) = Some ys" "length ys = length bd1"
      "window ys (body_returned os) (body_fill os + int (length bs)) = window bd1 (body_returned os) (body_fill os) @ bs"
      by (rule mem_copy_append [OF m])
    let ?os2 = "os\<lparr>body_storage := st, body_data := Some ys, body_fill := body_fill os + int (length bs)\<rparr>"
    show thesis
    proof (rule that(2))
      show "ex = (?os1, 0)" using g(1) False ex by simp
      show "stream_ok ?os2" using g(2) ys(2) m by (auto simp: stream_ok_def)
      show "body_queue ?os2 = body_queue os @ bs" using ys(3) g(3) by (simp add: body_queue_def)
    qed (use ys g False in simp_all)
  qed
qed

lemma pagein_cases:
  assumes dec: "dec_ok os" and nxt: "page_next os og segs"
  obtains (fail) os' where "ogg_stream_pagein E os og = Some (os', - 1)"
      "\<not> (body_room E os (int (length (og_body og))) \<and> lacing_room E os (int (length segs) + 1))"
  | (success) os' where "ogg_stream_pagein E os og = Some (os', 0)" "dec_ok os'"
      "map seg (lacing_queue os') = map seg (lacing_queue os) @ map uint segs"
      "body_queue os' = body_queue os @ og_body og"
      "pageno os' = pageno os + 1" "serialno os' = serialno os"
      "body_storage os' \<le> body_storage os + int (length (og_body og)) + 1024"
      "lacing_storage os' \<le> lacing_storage os + 288"
proof -
  have ok: "stream_ok os" and mk: "marked os" and sum: "sum_list (map seg (lacing_queue os)) = int (length (body_queue os))"
    using dec by (auto simp: dec_ok_def)
  from nxt obtain f g crc where h: "og_header og = page_header f g (serialno os) (pageno os) crc segs"
    and crc: "length crc = 4" and ns: "length segs \<le> 255"
    and bl: "int (length (og_body og)) = sum_list (map uint segs)"
    and ci: "c_int (serialno os) = serialno os" "c_int (pageno os) = pageno os"
    and cont: "f AND 1 \<noteq> 0 \<Longrightarrow> lacing_queue os \<noteq> [] \<and> seg (last (lacing_queue os)) = 255"
    by (auto simp: page_next_def)
  note fields = page_fields [OF h crc]
  have nseg: "uint (word_of_nat (length segs) :: byte) = int (length segs)"
    using ns by (simp add: unsigned_of_nat take_bit_nat_eq_self)
  have chk: "ogg_stream_check os = 0" using ok by (auto simp: stream_ok_def ogg_stream_check_def)
  obtain os1 bd1 where c: "os_body_compact os = Some os1"
    "os1 = os\<lparr>body_data := Some bd1, body_fill := body_fill os - body_returned os, body_returned := 0\<rparr>"
    "stream_ok os1" "body_queue os1 = body_queue os" by (rule body_compact_ok [OF ok])
  obtain os2 lv2 gv2 where d: "pagein_lacing_compact os1 = Some os2"
    "os2 = os1\<lparr>lacing_vals := lv2, granule_vals := gv2, lacing_fill := lacing_fill os1 - lacing_returned os1,
        lacing_packet := lacing_packet os1 - lacing_returned os1, lacing_returned := 0\<rparr>"
    "stream_ok os2" "lacing_queue os2 = lacing_queue os1" by (rule lacing_compact_ok [OF c(3)])
  have q2: "lacing_queue os2 = lacing_queue os" "body_queue os2 = body_queue os"
    using d(2,4) c(2,4) body_queue_cong [of os2 os1] by (simp_all add: lacing_queue_def)
  have mk2: "marked os2" by (rule marked_lacing [OF mk q2(1)]) (simp add: d(2) c(2))
  have f2: "serialno os2 = serialno os" "pageno os2 = pageno os" "body_storage os2 = body_storage os"
    "lacing_storage os2 = lacing_storage os" "lacing_returned os2 = 0" "body_returned os2 = 0" by (simp_all add: d(2) c(2))
  have room2: "body_room E os2 = body_room E os" "lacing_room E os2 = lacing_room E os"
    by (auto simp: body_room_def lacing_room_def f2)
  have len0: "0 \<le> int (length segs) + 1" by simp
  show thesis
  proof (cases rule: lacing_expand_cases [OF d(3) len0, where E = E, case_names fail go])
    case f: fail
    show thesis
      by (rule fail [of ogg_stream_zero])
        (use f fields chk c(1) d(1) f2 ci nseg room2 in \<open>simp_all add: ogg_stream_pagein_def\<close>)
  next
    case e: (go lv3 gv3 st3)
    let ?os3 = "os2\<lparr>lacing_vals := lv3, granule_vals := gv3, lacing_storage := st3\<rparr>"
    have q3: "lacing_queue ?os3 = lacing_queue os" "body_queue ?os3 = body_queue os"
      using lacing_queue_keep [OF d(3), of lv3] e(2,3) q2 body_queue_cong [of ?os3 os2]
      by (auto simp: lacing_queue_def stream_ok_def)
    have mk3: "marked ?os3" by (rule marked_lacing [OF mk2]) (simp_all add: q3(1) q2(1))
    have lost: "(if uint (f AND 1) \<noteq> 0 then if lacing_fill ?os3 < 1 then Some True
         else do { x \<leftarrow> rd (lacing_vals ?os3) (lacing_fill ?os3 - 1); Some (x = 0x400) } else Some False) = Some False"
    proof (cases "f AND 1 = 0")
      case False
      note q = cont [OF False]
      let ?w = "window lv3 0 (lacing_fill os2)"
      have w: "?w = lacing_queue os" using q3(1) f2 by (simp add: lacing_queue_def)
      have l: "0 \<le> lacing_fill os2" "lacing_fill os2 \<le> int (length lv3)" using e(2) by (auto simp: stream_ok_def)
      have len: "length (lacing_queue os) = nat (lacing_fill os2)" using w l length_window [of 0 "lacing_fill os2" lv3] by simp
      then have pos: "0 < lacing_fill os2" using q l by (cases "lacing_fill os2 = 0") auto
      have "last (lacing_queue os) = ?w ! nat (lacing_fill os2 - 1)"
        using q len w pos by (simp add: last_conv_nth nat_diff_distrib)
      also have "\<dots> = lv3 ! nat (lacing_fill os2 - 1)" using window_nth [of 0 "lacing_fill os2" lv3] l pos by simp
      finally have "rd lv3 (lacing_fill os2 - 1) = Some (last (lacing_queue os))" using l pos by (simp add: rd_in)
      then show ?thesis using pos seg_400 [of "last (lacing_queue os)"] q by simp
    qed simp
    have ok3: "stream_ok ?os3" by (rule e(2))
    have room3: "body_room E ?os3 n = body_room E os n" for n by (simp add: body_room_def f2)
    show thesis
    proof (cases rule: pagein_body_cases [OF ok3 refl, where bs = "og_body og" and E = E, case_names fail go])
      case b: fail
      show thesis
        by (rule fail [of ogg_stream_zero])
          (use b fields chk c(1) d(1) e(1) lost f2 ci nseg room3 in \<open>simp_all add: ogg_stream_pagein_def\<close>)
    next
      case b: (go os4' bd4 st4 os4)
      have q4: "lacing_queue os4 = lacing_queue os" "body_queue os4 = body_queue os @ og_body og"
        using b(3,5) q3 by (simp_all add: lacing_queue_def)
      have mk4: "marked os4" by (rule marked_lacing [OF mk3]) (use q4 q3 b(3) in simp_all)
      have room: "lacing_fill os4 + int (length segs) \<le> lacing_storage os4" using e(5) b(3) by simp
      have "\<exists>lv gv lp saved' os'. pagein_segments (og_header og) 0 (length segs) (uint (f AND 2) \<noteq> 0) (- 1) os4 = Some (os', saved') \<and>
        os' = os4\<lparr>lacing_vals := lv, granule_vals := gv, lacing_fill := lacing_fill os4 + int (length segs), lacing_packet := lp\<rparr> \<and>
        stream_ok os' \<and> marked os' \<and> map seg (lacing_queue os') = map seg (lacing_queue os4) @ map uint segs \<and>
        (saved' = - 1 \<or> 0 \<le> saved' \<and> saved' < lacing_fill os')"
        by (rule pagein_segments_ok [OF b(4) mk4 room]) (use fields(9) in simp_all)
      then obtain lv5 gv5 lp5 saved os5 where
        s: "pagein_segments (og_header og) 0 (length segs) (uint (f AND 2) \<noteq> 0) (- 1) os4 = Some (os5, saved)"
        "os5 = os4\<lparr>lacing_vals := lv5, granule_vals := gv5, lacing_fill := lacing_fill os4 + int (length segs), lacing_packet := lp5\<rparr>"
        "stream_ok os5" "marked os5" "map seg (lacing_queue os5) = map seg (lacing_queue os) @ map uint segs"
        "saved = - 1 \<or> 0 \<le> saved \<and> saved < lacing_fill os5"
        using q4(1) by auto
      obtain gv6 where gv6: "(if saved \<noteq> - 1 then wr (granule_vals os5) saved (signed_take_bit 63 g) else Some (granule_vals os5)) = Some gv6"
        "length gv6 = length (granule_vals os5)"
        using s(3,6) by (auto simp: stream_ok_def wr_def)
      let ?os6 = "os5\<lparr>granule_vals := gv6\<rparr>"
      have ok6: "stream_ok ?os6" using s(3) gv6(2) by (auto simp: stream_ok_def)
      have lq6: "lacing_queue ?os6 = lacing_queue os5" by (simp add: lacing_queue_def)
      have mk6: "marked ?os6" by (rule marked_lacing [OF s(4)]) (simp_all add: lq6)
      have r6: "lacing_returned ?os6 = 0" using s(2) b(3) f2 by simp
      obtain os7 where e7: "(if uint (f AND 4) \<noteq> 0 then pagein_eos ?os6 else Some ?os6) = Some os7"
        "stream_ok os7" "marked os7" "map seg (lacing_queue os7) = map seg (lacing_queue os5)"
        "\<exists>lv e. os7 = ?os6\<lparr>e_o_s := e, lacing_vals := lv\<rparr>"
      proof (cases "uint (f AND 4) = 0")
        case True
        have "?os6 = ?os6\<lparr>e_o_s := e_o_s ?os6, lacing_vals := lacing_vals ?os6\<rparr>" by (cases os5) simp
        then have "\<exists>lv e. ?os6 = ?os6\<lparr>e_o_s := e, lacing_vals := lv\<rparr>" by blast
        then show thesis by (intro that [of ?os6]) (use True ok6 mk6 lq6 in simp_all)
      next
        case False
        show thesis by (rule marked_eos [OF ok6 mk6 r6]) (use that False lq6 in auto)
      qed
      let ?os8 = "os7\<lparr>pageno := pageno os + 1\<rparr>"
      have res: "ogg_stream_pagein E os og = Some (?os8, 0)"
        using fields(1-8) chk c(1) d(1) e(1) lost b(1,2) s(1) gv6(1) e7(1) f2 ci nseg
        by (simp add: ogg_stream_pagein_def)
      obtain lv7 eo where o7: "os7 = ?os6\<lparr>e_o_s := eo, lacing_vals := lv7\<rparr>" using e7(5) by blast
      have bq: "body_queue ?os8 = body_queue os @ og_body og"
        using q4(2) body_queue_cong [of ?os8 os4] o7 s(2) by simp
      have lq: "map seg (lacing_queue ?os8) = map seg (lacing_queue os) @ map uint segs"
        using e7(4) s(5) by (simp add: lacing_queue_def)
      have "dec_ok ?os8" unfolding dec_ok_def
      proof (intro conjI)
        show "stream_ok ?os8" using e7(2) by (simp add: stream_ok_def)
        show "marked ?os8" by (rule marked_lacing [OF e7(3)]) (simp_all add: lacing_queue_def)
        show "sum_list (map seg (lacing_queue ?os8)) = int (length (body_queue ?os8))"
          using lq bq sum bl by simp
      qed
      then show thesis
        by (intro success [OF res]) (use lq bq o7 s(2) b(3,6) e(6) f2 ns in auto)
    qed
  qed
qed

subsection \<open>Taking a packet\<close>

lemma packetout_gather_ok:
  assumes "0 \<le> ptr" "ptr + int j < int (length lv)" "sz = seg (lv ! nat ptr)"
    and "\<And>i. i < j \<Longrightarrow> seg (lv ! nat (ptr + int i)) = 255" "seg (lv ! nat (ptr + int j)) = r" "r < 255"
  shows "\<exists>eos'. packetout_gather lv ptr sz bytes eos = Some (ptr + int j, bytes - sz + 255 * int j + r, eos')"
  using assms
proof (induction j arbitrary: ptr sz bytes eos)
  case 0
  then show ?case by (simp add: packetout_gather.simps)
next
  case (Suc j)
  have 255: "sz = 255" using Suc.prems(3) Suc.prems(4) [of 0] by simp
  have r: "rd lv (ptr + 1) = Some (lv ! nat (ptr + 1))" using Suc.prems(1,2) by (simp add: rd_in)
  let ?v = "lv ! nat (ptr + 1)"
  have "\<exists>eos'. packetout_gather lv (ptr + 1) (seg ?v) (bytes + seg ?v) (if ?v AND 0x200 \<noteq> 0 then 0x200 else eos) =
      Some (ptr + 1 + int j, bytes + seg ?v - seg ?v + 255 * int j + r, eos')"
  proof (rule Suc.IH)
    show "seg (lv ! nat (ptr + 1 + int i)) = 255" if "i < j" for i
      using Suc.prems(4) [of "Suc i"] that by (simp add: ac_simps)
    show "seg (lv ! nat (ptr + 1 + int j)) = r" using Suc.prems(5) by (simp add: ac_simps)
  qed (use Suc.prems in auto)
  then show ?case using r 255 by (subst packetout_gather.simps) (simp add: algebra_simps)
qed

text \<open>A run of 255s closed by a smaller value is the lacing of exactly the bytes it adds up to.\<close>

lemma lace_unique:
  assumes "0 \<le> r" "r < 255"
  shows "replicate j 255 @ [r] = lace (nat (255 * int j + r))"
proof -
  have "nat (255 * int j + r) = 255 * j + nat r" using assms by (simp add: nat_add_distrib nat_mult_distrib)
  then show ?thesis using assms by (simp add: lace_def)
qed

lemma first_full:
  assumes "marked os" "stream_ok os" "lacing_packet os \<noteq> lacing_returned os"
  obtains j where "int j < lacing_packet os - lacing_returned os" "j < length (lacing_queue os)"
    "\<And>i. i < j \<Longrightarrow> seg (lacing_queue os ! i) = 255" "seg (lacing_queue os ! j) < 255"
proof -
  let ?P = "\<lambda>j. seg (lacing_queue os ! j) < 255"
  let ?d = "nat (lacing_packet os - lacing_returned os)"
  have ord: "lacing_returned os < lacing_packet os" "lacing_packet os \<le> lacing_fill os" "0 \<le> lacing_returned os"
     "lacing_fill os \<le> int (length (lacing_vals os))"
    using assms by (auto simp: stream_ok_def)
  have len: "length (lacing_queue os) = nat (lacing_fill os - lacing_returned os)" using ord by (simp add: lacing_queue_def)
  have P: "?P (?d - 1)" using assms(1,3) ord by (simp add: marked_def nat_diff_distrib)
  let ?j = "LEAST j. ?P j"
  have le: "?j \<le> ?d - 1" using P by (rule Least_le)
  have pj: "?P ?j" using P by (rule LeastI)
  have "seg (lacing_queue os ! i) = 255" if "i < ?j" for i
    using not_less_Least [OF that] seg_le(1) [of "lacing_queue os ! i"] by simp
  moreover have "int ?j < lacing_packet os - lacing_returned os" "?j < length (lacing_queue os)"
    using le len ord by linarith+
  ultimately show thesis using that [of ?j] pj by blast
qed

lemma packetout_cases:
  assumes dec: "dec_ok os"
  obtains (none) "ogg_stream_packetout os True = Some (os, None, 0)" "\<forall>x \<in> set (lacing_queue os). seg x = 255"
  | (some) os' op m where "ogg_stream_packetout os True = Some (os', Some op, 1)" "dec_ok os'"
      "map seg (lacing_queue os) = lace (length (op_packet op)) @ map seg (lacing_queue os')"
      "body_queue os = op_packet op @ body_queue os'" "lacing_queue os' = drop m (lacing_queue os)"
      "pageno os' = pageno os" "serialno os' = serialno os"
      "body_storage os' = body_storage os" "lacing_storage os' = lacing_storage os"
      "length (lacing_queue os') < length (lacing_queue os)"
proof -
  have ok: "stream_ok os" and mk: "marked os" and sum: "sum_list (map seg (lacing_queue os)) = int (length (body_queue os))"
    using dec by (auto simp: dec_ok_def)
  obtain bd where bd: "body_data os = Some bd" "int (length bd) = body_storage os" using ok by (auto simp: stream_ok_def)
  have chk: "ogg_stream_check os = 0" using bd by (simp add: ogg_stream_check_def)
  let ?lr = "lacing_returned os" and ?q = "lacing_queue os" and ?br = "body_returned os"
  have ord: "0 \<le> ?lr" "?lr \<le> lacing_packet os" "lacing_packet os \<le> lacing_fill os" "0 \<le> ?br" "?br \<le> body_fill os"
    "lacing_fill os \<le> int (length (lacing_vals os))" "body_fill os \<le> int (length bd)"
    "length (granule_vals os) = length (lacing_vals os)"
    using ok bd by (auto simp: stream_ok_def)
  have len: "length ?q = nat (lacing_fill os - ?lr)" using ord by (simp add: lacing_queue_def)
  have nth: "?q ! i = lacing_vals os ! nat (?lr + int i)" if "i < length ?q" for i
    using that len ord window_nth [of ?lr "lacing_fill os" "lacing_vals os" i] by (simp add: lacing_queue_def)
  show thesis
  proof (cases "lacing_packet os = ?lr")
    case True
    then have "\<forall>x \<in> set ?q. seg x = 255" using mk by (simp add: marked_def)
    then show thesis using none True chk by (simp add: ogg_stream_packetout_def packetout_def)
  next
    case False
    then obtain j where j: "int j < lacing_packet os - ?lr" "j < length ?q" "\<And>i. i < j \<Longrightarrow> seg (?q ! i) = 255" "seg (?q ! j) < 255"
      using first_full [OF mk ok] by blast
    let ?r = "seg (?q ! j)" and ?x = "?q ! 0"
    define bytes where "bytes = 255 * int j + ?r"
    have x: "rd (lacing_vals os) ?lr = Some ?x" using nth [of 0] j ord len by (simp add: rd_in)
    have gap: "?x AND 0x400 = 0" using mk j(2) nth_mem [of 0 ?q] by (cases ?q) (auto simp: marked_def)
    obtain eos' where g: "packetout_gather (lacing_vals os) ?lr (seg ?x) (seg ?x) (?x AND 0x200) = Some (?lr + int j, bytes, eos')"
      using packetout_gather_ok [of ?lr j "lacing_vals os" "seg ?x" ?r "seg ?x" "?x AND 0x200"] ord len j nth
      by (auto simp: bytes_def)
    have "map seg (take j ?q) = replicate j 255" by (rule nth_equalityI) (use j in auto)
    then have take: "map seg (take (Suc j) ?q) = replicate j 255 @ [?r]"
      using j(2) by (simp add: take_Suc_conv_app_nth)
    also have "\<dots> = lace (nat bytes)" unfolding bytes_def using seg_le j by (intro lace_unique) auto
    finally have lace: "map seg (take (Suc j) ?q) = lace (nat bytes)" .
    have b0: "0 \<le> bytes" using seg_le(2) [of "?q ! j"] by (simp add: bytes_def)
    have split: "map seg ?q = lace (nat bytes) @ map seg (drop (Suc j) ?q)"
      using lace by (metis append_take_drop_id map_append)
    have nn: "0 \<le> sum_list (map seg xs)" for xs by (rule sum_list_nonneg) (auto simp: seg_mod)
    have bl: "bytes \<le> int (length (body_queue os))"
      using sum split sum_lace [of "nat bytes"] b0 nn [of "drop (Suc j) ?q"] by simp
    have lb: "length (body_queue os) = nat (body_fill os - ?br)" using ord bd by (simp add: body_queue_def)
    have sl: "slice bd ?br bytes = Some (window bd ?br (?br + bytes))"
      using ord bl lb b0 by (simp add: slice_def window_def)
    have gr: "rd (granule_vals os) (?lr + int j) = Some (granule_vals os ! nat (?lr + int j))"
      using ord j len by (simp add: rd_in)
    let ?op = "\<lparr>op_packet = window bd ?br (?br + bytes), op_b_o_s = ?x AND 0x100, op_e_o_s = eos',
        op_granulepos = granule_vals os ! nat (?lr + int j), op_packetno = packetno os\<rparr>"
    let ?os = "os\<lparr>body_returned := ?br + bytes, lacing_returned := ?lr + int j + 1, packetno := packetno os + 1\<rparr>"
    have res: "ogg_stream_packetout os True = Some (?os, Some ?op, 1)"
      using chk j(1) x gap g bd(1) sl gr by (simp add: ogg_stream_packetout_def packetout_def Let_def)
    have lop: "length (op_packet ?op) = nat bytes" using ord bl lb b0 by simp
    have q': "lacing_queue ?os = drop (Suc j) ?q"
      using ord j len by (simp add: lacing_queue_def window_def drop_take nat_add_distrib nat_diff_distrib add.commute)
    have bq: "body_queue os = op_packet ?op @ body_queue ?os"
      using window_append [of ?br "?br + bytes" "body_fill os" bd] ord bl lb b0 bd by (simp add: body_queue_def)
    have "stream_ok ?os" using ok j b0 bl lb by (auto simp: stream_ok_def)
    moreover have "marked ?os"
    proof -
      let ?d = "nat (lacing_packet os - ?lr)"
      have d: "nat (lacing_packet os - (?lr + int j + 1)) = ?d - Suc j" "Suc j \<le> ?d" "?d \<le> length ?q"
        using j(1) ord len by auto
      have 1: "drop (?d - Suc j) (drop (Suc j) ?q) = drop ?d ?q" using d by simp
      have 2: "drop (Suc j) ?q ! (?d - Suc j - 1) = ?q ! (?d - 1)" if "Suc j < ?d"
      proof -
        have i: "Suc j + (?d - Suc j - 1) = ?d - 1" using that by simp
        have "Suc j \<le> length ?q" using d by simp
        from nth_drop [OF this, of "?d - Suc j - 1"] show ?thesis unfolding i .
      qed
      have e: "nat (lacing_packet os - ?lr - 1) = ?d - 1" "nat (lacing_packet os - (?lr + int j + 1) - 1) = ?d - Suc j - 1"
        using d by simp_all
      have "lacing_packet os = ?lr + int j + 1 \<or> Suc j < ?d" using j(1) by auto
      then show ?thesis using mk False d 1 2 e unfolding marked_def q'
        by (auto dest: in_set_dropD)
    qed
    moreover have "sum_list (map seg (lacing_queue ?os)) = int (length (body_queue ?os))"
      using sum split sum_lace [of "nat bytes"] b0 q' bq lop by simp
    ultimately have dec': "dec_ok ?os" by (simp add: dec_ok_def)
    show thesis
      by (rule some [OF res dec' _ bq q']) (use split q' lop j(2) in simp_all)
  qed
qed

end
