(* ===== verification/Ogg_Stream_Roundtrip.thy ===== *)
theory Ogg_Stream_Roundtrip
  imports Ogg_Stream_Queue
begin

unbundle bit_operations_syntax

section \<open>Packets in, pages across, packets out\<close>

text \<open>
  Sessions of an encoder and of a decoder as sequences of API calls in any interleaving, and the theorem
  that the decoder returns what the encoder was given.
\<close>

subsection \<open>Whole streams\<close>

text \<open>An encoder session is a sequence of submissions, flushes and page requests; it yields the pages in
  order and fails if a submission is refused.  A decoder session is a sequence of pages handed in and
  packets asked for; it fails if a page is refused or a gap is reported.\<close>

datatype enc_act = Submit mem_env ogg_packet | FlushPage int | PageOut int

fun enc_run :: "ogg_stream_state \<Rightarrow> enc_act list \<Rightarrow> (ogg_stream_state \<times> ogg_page list) option" where
  "enc_run os [] = Some (os, [])"
| "enc_run os (Submit E op # as) = do {
     (os, r) \<leftarrow> ogg_stream_packetin E os op; if r \<noteq> 0 then None else enc_run os as }"
| "enc_run os (FlushPage n # as) = do {
     (os, og) \<leftarrow> ogg_stream_flush_fill os n; (os, ogs) \<leftarrow> enc_run os as;
     Some (os, case og of None \<Rightarrow> ogs | Some og \<Rightarrow> og # ogs) }"
| "enc_run os (PageOut n # as) = do {
     (os, og) \<leftarrow> ogg_stream_pageout_fill os n; (os, ogs) \<leftarrow> enc_run os as;
     Some (os, case og of None \<Rightarrow> ogs | Some og \<Rightarrow> og # ogs) }"

datatype dec_act = PageIn mem_env ogg_page | PacketOut

fun dec_run :: "ogg_stream_state \<Rightarrow> dec_act list \<Rightarrow> (ogg_stream_state \<times> ogg_packet list) option" where
  "dec_run os [] = Some (os, [])"
| "dec_run os (PageIn E og # as) = do {
     (os, r) \<leftarrow> ogg_stream_pagein E os og; if r \<noteq> 0 then None else dec_run os as }"
| "dec_run os (PacketOut # as) = do {
     (os, op, r) \<leftarrow> ogg_stream_packetout os True;
     if r < 0 then None else do {
       (os, ops) \<leftarrow> dec_run os as; Some (os, case op of None \<Rightarrow> ops | Some op \<Rightarrow> op # ops) } }"

fun submitted :: "enc_act list \<Rightarrow> byte list list" where
  "submitted [] = []"
| "submitted (Submit E op # as) = op_packet op # submitted as"
| "submitted (_ # as) = submitted as"

fun pages_in :: "dec_act list \<Rightarrow> ogg_page list" where
  "pages_in [] = []"
| "pages_in (PageIn E og # as) = og # pages_in as"
| "pages_in (PacketOut # as) = pages_in as"

fun act_granted :: "enc_act \<Rightarrow> bool" where
  "act_granted (Submit E op) \<longleftrightarrow> (\<forall>n. grant E n) \<and> int (length (op_packet op)) < 2 ^ 31"
| "act_granted _ \<longleftrightarrow> True"

fun dec_granted :: "dec_act \<Rightarrow> bool" where
  "dec_granted (PageIn E og) \<longleftrightarrow> (\<forall>n. grant E n)"
| "dec_granted PacketOut \<longleftrightarrow> True"

text \<open>Lacing is prefix-free, and inside a laced stream a segment without the start flag follows a
  full segment.\<close>

lemma lace_prefix_free:
  assumes "lace m @ xs = lace n @ ys"
  shows "m = n" "xs = ys"
proof -
  have t: "takeWhile (\<lambda>x. x = 255) (lace k @ zs) = replicate (k div 255) 255"
    "dropWhile (\<lambda>x. x = 255) (lace k @ zs) = int (k mod 255) # zs" for k zs
  proof -
    have "int (k mod 255) \<noteq> 255" using mod_less_divisor [of 255 k] by linarith
    then show "takeWhile (\<lambda>x. x = 255) (lace k @ zs) = replicate (k div 255) 255"
      "dropWhile (\<lambda>x. x = 255) (lace k @ zs) = int (k mod 255) # zs"
      by (simp_all add: lace_def takeWhile_append dropWhile_append)
  qed
  have "m div 255 = n div 255" using arg_cong [OF assms, of "takeWhile (\<lambda>x. x = 255)"] by (simp add: t)
  moreover have "int (m mod 255) # xs = int (n mod 255) # ys"
    using arg_cong [OF assms, of "dropWhile (\<lambda>x. x = 255)"] by (simp only: t)
  ultimately show "m = n" "xs = ys" by (metis div_mod_decomp list.inject of_nat_eq_iff) (use \<open>int (m mod 255) # xs = _\<close> in simp)
qed

abbreviation laced :: "byte list list \<Rightarrow> int list" where
  "laced ps \<equiv> concat (map (\<lambda>p. lace (length p)) ps)"

abbreviation laced_first :: "byte list list \<Rightarrow> int list" where
  "laced_first ps \<equiv> concat (map (\<lambda>p. lace_first (length p)) ps)"

lemma seg_laced_first: "map seg (laced_first ps) = laced ps"
  by (induction ps) (simp_all add: seg_lace_first)

lemma unlace_prefix:
  assumes "laced as @ q = laced bs" "concat as @ b = concat bs"
  shows "\<exists>rest. bs = as @ rest \<and> q = laced rest \<and> b = concat rest"
  using assms
proof (induction as arbitrary: bs)
  case (Cons a as)
  then obtain c cs where bs: "bs = c # cs" by (cases bs) (auto simp: lace_def)
  have "lace (length a) @ (laced as @ q) = lace (length c) @ laced cs" using Cons.prems(1) bs by simp
  note l = lace_prefix_free [OF this]
  have "a = c" "concat as @ b = concat cs" using Cons.prems(2) bs l(1) by auto
  then show ?case using Cons.IH [OF l(2)] bs by auto
qed simp

lemma lace_first_nth:
  assumes "i < length (lace_first n)" "lace_first n ! i AND 0x100 = 0"
  shows "0 < i" "seg (lace_first n ! (i - 1)) = 255"
proof -
  have f: "(x OR 0x100) AND 0x100 \<noteq> (0 :: int)" for x
  proof -
    have "bit ((x OR 2 ^ 8) AND 2 ^ 8) 8" by (simp add: bit_and_iff bit_or_iff bit_exp_iff del: power_numeral)
    then show ?thesis by auto
  qed
  show i: "0 < i"
    using assms f [of "lace n ! 0"] by (cases i) (auto simp: lace_first_def)
  have "map seg (lace_first n) ! (i - 1) = lace n ! (i - 1)" by (simp only: seg_lace_first)
  also have "\<dots> = 255" using i assms(1) by (simp add: lace_def nth_append)
  finally show "seg (lace_first n ! (i - 1)) = 255" using assms(1) by simp
qed

lemma laced_first_nth:
  assumes "i < length (laced_first ps)" "laced_first ps ! i AND 0x100 = 0"
  shows "0 < i \<and> seg (laced_first ps ! (i - 1)) = 255"
  using assms
proof (induction ps arbitrary: i)
  case (Cons p ps)
  let ?n = "length (lace_first (length p))"
  show ?case
  proof (cases "i < ?n")
    case True
    then show ?thesis using Cons.prems lace_first_nth [of i "length p"] by (auto simp: nth_append)
  next
    case False
    then have "0 < i - ?n \<and> seg (laced_first ps ! (i - ?n - 1)) = 255"
      using Cons.IH [of "i - ?n"] Cons.prems by (simp add: nth_append)
    then show ?thesis using False by (auto simp: nth_append)
  qed
qed simp

text \<open>Numbered pages with the segments each of them carries.\<close>

fun paged :: "int \<Rightarrow> int \<Rightarrow> ogg_page list \<Rightarrow> int list list \<Rightarrow> bool" where
  "paged s p [] [] \<longleftrightarrow> True"
| "paged s p (og # ogs) (c # cs) \<longleftrightarrow> c \<noteq> [] \<and> length c \<le> 255 \<and>
     (\<exists>f g crc. og_header og = page_header f g s p crc (map (\<lambda>x. word_of_int (seg x)) c) \<and> length crc = 4 \<and>
        (f AND 1 \<noteq> 0 \<longleftrightarrow> hd c AND 0x100 = 0)) \<and>
     ogg_page_checksum_set og = Some og \<and>
     int (length (og_body og)) = sum_list (map seg c) \<and> paged s (p + 1) ogs cs"
| "paged s p _ _ \<longleftrightarrow> False"

lemma flag_continued:
  "((if a then 0x01 else 0x00) OR (if b then 0x02 else 0x00) OR (if c then 0x04 else 0x00)) AND 1 \<noteq> (0 :: byte) \<longleftrightarrow> a"
  by (cases a; cases b; cases c) simp_all

text \<open>One flush: nothing happens, or one page with the front of the queue goes out.\<close>

lemma flush_i_cases:
  assumes ok: "enc_ok os" and p: "0 \<le> pageno os"
  obtains (none) "ogg_stream_flush_i os f nfill = Some (os, None)" "f \<longrightarrow> lacing_queue os = []"
  | (page) os' og c where "ogg_stream_flush_i os f nfill = Some (os', Some og)" "enc_ok os'"
      "paged (serialno os) (pageno os) [og] [c]" "lacing_queue os = c @ lacing_queue os'"
      "body_queue os = og_body og @ body_queue os'" "pageno os' = pageno os + 1" "serialno os' = serialno os"
      "body_storage os' = body_storage os" "lacing_storage os' = lacing_storage os"
proof (cases "lacing_queue os = []")
  case True
  have s: "stream_ok os" "lacing_returned os = 0" using ok by (auto simp: enc_ok_def)
  then have "length (lacing_queue os) = nat (lacing_fill os)" by (auto simp: lacing_queue_def stream_ok_def)
  then have "lacing_fill os = 0" using True s by (auto simp: stream_ok_def)
  then have "ogg_stream_flush_i os f nfill = Some (os, None)"
    by (simp add: ogg_stream_flush_i_def flush_maxvals_def)
  then show thesis using none True by simp
next
  case False
  obtain k g f' where ch: "flush_choice os f nfill = Some (int k, g, f')" "1 \<le> k" "k \<le> 255"
    "k \<le> length (lacing_queue os)" "f \<longrightarrow> f'" by (rule flush_choice_ok [OF ok False])
  show thesis
  proof (cases f')
    case f': False
    then have "ogg_stream_flush_i os f nfill = Some (os, None)" using ch(1) by (simp add: ogg_stream_flush_i_def)
    then show thesis using none f' ch(5) by simp
  next
    case f': True
    let ?c = "take k (lacing_queue os)"
    have hd: "hd ?c = lacing_queue os ! 0" using ch(2) False by (cases k) (auto simp: hd_conv_nth)
    from flush_i_ok [OF ok False ch(1) [unfolded f' eqTrueI [OF f']] ch(2-4) refl refl refl] p
    obtain os' og crc where r: "ogg_stream_flush_i os f nfill = Some (os', Some og)"
      "og_header og = page_header ((if (lacing_queue os ! 0) AND 0x100 = 0 then 0x01 else 0x00) OR
        (if b_o_s os = 0 then 0x02 else 0x00) OR (if e_o_s os \<noteq> 0 \<and> k = length (lacing_queue os) then 0x04 else 0x00))
         g (serialno os) (pageno os) crc (map (\<lambda>x. word_of_int (seg x)) ?c)" "length crc = 4"
      "ogg_page_checksum_set og = Some og" "enc_ok os'" "lacing_queue os' = drop k (lacing_queue os)"
      "body_queue os = og_body og @ body_queue os'" "int (length (og_body og)) = sum_list (map seg ?c)"
      "pageno os' = pageno os + 1" "serialno os' = serialno os" "body_storage os' = body_storage os"
      "lacing_storage os' = lacing_storage os"
      by auto
    have c: "?c \<noteq> []" "length ?c \<le> 255" using ch(2,3) False by auto
    have "\<exists>f g crc. og_header og = page_header f g (serialno os) (pageno os) crc (map (\<lambda>x. word_of_int (seg x)) ?c) \<and>
        length crc = 4 \<and> (f AND 1 \<noteq> 0 \<longleftrightarrow> hd ?c AND 0x100 = 0)"
      unfolding hd by (intro exI conjI, rule r(2), rule r(3), rule flag_continued)
    then have "paged (serialno os) (pageno os) [og] [?c]"
      unfolding paged.simps using r(4,8) c by blast
    then show thesis by (rule page [OF r(1,5) _ _ r(7,9,10,11,12)]) (simp add: r(6))
  qed
qed

lemma paged_Cons:
  "paged s p [og] [c] \<Longrightarrow> paged s (p + 1) ogs cs \<Longrightarrow> paged s p (og # ogs) (c # cs)"
  by simp

lemma enc_run_ok:
  assumes "enc_ok os" "0 \<le> pageno os" "list_all act_granted as"
    and "body_storage os + int (length (concat (submitted as))) + 1100 * int (length as) \<le> LONG_MAX"
    and "lacing_storage os + int (length (concat (submitted as))) + 1100 * int (length as) \<le> LONG_MAX"
  shows "\<exists>os' ogs cs. enc_run os as = Some (os', ogs) \<and> enc_ok os' \<and> paged (serialno os) (pageno os) ogs cs \<and>
     concat cs @ lacing_queue os' = lacing_queue os @ laced_first (submitted as) \<and>
     concat (map og_body ogs) @ body_queue os' = body_queue os @ concat (submitted as) \<and> length ogs \<le> length as \<and> 0 \<le> pageno os'"
  using assms
proof (induction as arbitrary: os)
  case Nil
  then show ?case by (intro exI [of _ os] exI [of _ "[]"]) simp
next
  case (Cons a as)
  have flush: "\<exists>os' ogs cs. do { (os, og) \<leftarrow> ogg_stream_flush_i os f n; (os, ogs) \<leftarrow> enc_run os as;
        Some (os, case og of None \<Rightarrow> ogs | Some og \<Rightarrow> og # ogs) } = Some (os', ogs) \<and> enc_ok os' \<and>
        paged (serialno os) (pageno os) ogs cs \<and>
     concat cs @ lacing_queue os' = lacing_queue os @ laced_first (submitted as) \<and>
     concat (map og_body ogs) @ body_queue os' = body_queue os @ concat (submitted as) \<and> length ogs \<le> Suc (length as) \<and> 0 \<le> pageno os'"
    if sub: "submitted (a # as) = submitted as" for f n
  proof (cases rule: flush_i_cases [OF Cons.prems(1,2), of f n, case_names none page])
    case none
    then show ?thesis using Cons.IH [OF Cons.prems(1,2)] Cons.prems(3-5) sub by fastforce
  next
    case g: (page os1 og c)
    obtain os' ogs cs where ih: "enc_run os1 as = Some (os', ogs)" "enc_ok os'" "paged (serialno os) (pageno os + 1) ogs cs"
      "concat cs @ lacing_queue os' = lacing_queue os1 @ laced_first (submitted as)"
      "concat (map og_body ogs) @ body_queue os' = body_queue os1 @ concat (submitted as)" "length ogs \<le> length as" "0 \<le> pageno os'"
      using Cons.IH [OF g(2)] Cons.prems(2-5) sub g(6-9) by auto
    show ?thesis
      by (rule exI [of _ os'], rule exI [of _ "og # ogs"], rule exI [of _ "c # cs"])
        (use g(1,4,5) ih paged_Cons [OF g(3) ih(3)] in simp)
  qed
  show ?case
  proof (cases a)
    case (FlushPage n)
    then show ?thesis using flush [of True n] by (simp add: ogg_stream_flush_fill_def)
  next
    case (PageOut n)
    have "ogg_stream_check os = 0" using Cons.prems(1) by (auto simp: enc_ok_def stream_ok_def ogg_stream_check_def)
    then show ?thesis using flush PageOut by (simp add: ogg_stream_pageout_fill_def)
  next
    case (Submit E op)
    let ?n = "length (op_packet op)"
    have ok: "stream_ok os" using Cons.prems(1) by (simp add: enc_ok_def)
    have gr: "\<And>n. grant E n" "\<forall>v \<in> set [op_packet op]. int (length v) < 2 ^ 31" using Cons.prems(3) Submit by auto
    have nn: "?n = length (concat [op_packet op])" by simp
    show ?thesis
    proof (cases rule: iovecin_cases [OF ok gr(2) nn, of E "op_e_o_s op" "op_granulepos op", case_names fail success])
      case (fail os')
      have "0 \<le> body_storage os" "0 \<le> lacing_storage os" using ok by (auto simp: stream_ok_def)
      then have "int ?n \<le> LONG_MAX \<and> body_room E os (int ?n) \<and> lacing_room E os (int (?n div 255 + 1))"
        using Cons.prems(4,5) gr(1) Submit by (auto simp: body_room_def lacing_room_def)
      then show ?thesis using fail(3) by blast
    next
      case s: (success os1)
      have sum: "sum_list (map seg (lacing_queue os1)) = int (length (body_queue os1))"
        using s(3,4) Cons.prems(1) sum_lace [of ?n] by (simp add: enc_ok_def seg_lace_first)
      then have e1: "enc_ok os1" using s(2,5,6) Cons.prems(1) by (simp add: enc_ok_def)
      obtain os' ogs cs where ih: "enc_run os1 as = Some (os', ogs)" "enc_ok os'" "paged (serialno os) (pageno os) ogs cs"
        "concat cs @ lacing_queue os' = lacing_queue os1 @ laced_first (submitted as)"
        "concat (map og_body ogs) @ body_queue os' = body_queue os1 @ concat (submitted as)" "length ogs \<le> length as" "0 \<le> pageno os'"
        using Cons.IH [OF e1] Cons.prems(2-5) s(9-12) Submit by (auto simp: algebra_simps)
      then show ?thesis using s(1,3,4) Submit by (auto simp: ogg_stream_packetin_def)
    qed
  qed
qed

text \<open>What the decoder has been fed is what it has returned followed by what it still holds.\<close>

definition dec_inv :: "ogg_stream_state \<Rightarrow> int list \<Rightarrow> byte list \<Rightarrow> byte list list \<Rightarrow> bool" where
  "dec_inv os fed bytes outs \<longleftrightarrow> dec_ok os \<and> map seg fed = laced outs @ map seg (lacing_queue os) \<and>
     bytes = concat outs @ body_queue os"

lemma last_laced: "ps \<noteq> [] \<Longrightarrow> last (laced ps) < 255"
proof (induction ps)
  case (Cons p ps)
  have "last (lace (length p)) < 255" by (simp add: lace_def)
  then show ?case using Cons by (cases "ps = []") (auto simp: lace_def last_append)
qed simp

lemma continued_pending:
  assumes "dec_inv os fed bytes outs" "fed \<noteq> []" "seg (last fed) = 255"
  shows "lacing_queue os \<noteq> [] \<and> seg (last (lacing_queue os)) = 255"
proof -
  have e: "map seg fed = laced outs @ map seg (lacing_queue os)" using assms(1) by (simp add: dec_inv_def)
  have l: "last (map seg fed) = 255" using assms(2,3) by (simp add: last_map)
  have q: "lacing_queue os \<noteq> []"
  proof
    assume "lacing_queue os = []"
    then have "map seg fed = laced outs" using e by simp
    then show False using l last_laced [of outs] assms(2) by (cases "outs = []") auto
  qed
  then have "last (map seg fed) = seg (last (lacing_queue os))" unfolding e by (simp add: last_append last_map)
  then show ?thesis using q l by simp
qed

lemma page_next_paged:
  assumes inv: "dec_inv os fed bytes outs" and pg: "paged (serialno os) (pageno os) (og # ogs) (c # cs)"
    and raw: "fed @ c @ mr = laced_first ps" and ci: "c_int (serialno os) = serialno os" "c_int (pageno os) = pageno os"
  shows "page_next os og (map (\<lambda>x. word_of_int (seg x)) c)"
proof -
  from pg obtain f g crc where h: "og_header og = page_header f g (serialno os) (pageno os) crc (map (\<lambda>x. word_of_int (seg x)) c)"
    "length crc = 4" "f AND 1 \<noteq> 0 \<longleftrightarrow> hd c AND 0x100 = 0"
    and c: "c \<noteq> []" "length c \<le> 255" "int (length (og_body og)) = sum_list (map seg c)"
    unfolding paged.simps by blast
  have "lacing_queue os \<noteq> [] \<and> seg (last (lacing_queue os)) = 255" if "f AND 1 \<noteq> 0"
  proof (rule continued_pending [OF inv])
    have i: "length fed < length (laced_first ps)" "laced_first ps ! length fed = hd c"
      using c(1) by (simp_all flip: raw add: nth_append hd_conv_nth)
    then have p: "0 < length fed" "seg (laced_first ps ! (length fed - 1)) = 255"
      using laced_first_nth [of "length fed" ps] h(3) that by auto
    then show "fed \<noteq> []" by simp
    then have "laced_first ps ! (length fed - 1) = last fed" by (simp flip: raw add: nth_append last_conv_nth)
    then show "seg (last fed) = 255" using p(2) by simp
  qed
  moreover have "map uint (map (\<lambda>x. word_of_int (seg x) :: byte) c) = map seg c" by (simp add: uint_seg)
  then have "int (length (og_body og)) = sum_list (map uint (map (\<lambda>x. word_of_int (seg x) :: byte) c))"
    using c(3) by (simp only:)
  ultimately show ?thesis unfolding page_next_def using h(1,2) c(2) ci
    by (intro exI [of _ f] exI [of _ g] exI [of _ crc] conjI impI) simp_all
qed

lemma c_int_small: "0 \<le> x \<Longrightarrow> x < 2 ^ 31 \<Longrightarrow> c_int x = x"
  by (simp add: c_int_def signed_take_bit_int_eq_self)

lemma dec_run_ok:
  assumes "dec_inv os fed bytes outs" "list_all dec_granted as" "paged (serialno os) (pageno os) (pages_in as) cs"
    and "fed @ concat cs @ mr = laced_first ps" "c_int (serialno os) = serialno os"
    and "0 \<le> pageno os" "pageno os + int (length (pages_in as)) < 2 ^ 31"
    and "body_storage os + int (length (concat (map og_body (pages_in as)))) + 1100 * int (length (pages_in as)) \<le> LONG_MAX"
    and "lacing_storage os + 300 * int (length (pages_in as)) \<le> LONG_MAX"
  shows "\<exists>os' ops. dec_run os as = Some (os', ops) \<and>
     dec_inv os' (fed @ concat cs) (bytes @ concat (map og_body (pages_in as))) (outs @ map op_packet ops)"
  using assms
proof (induction as arbitrary: os fed bytes outs cs)
  case Nil
  then have "cs = []" by (cases cs) auto
  then show ?case using Nil by simp
next
  case (Cons a as)
  have dok: "dec_ok os" using Cons.prems(1) by (simp add: dec_inv_def)
  show ?case
  proof (cases a)
    case PacketOut
    show ?thesis
    proof (cases rule: packetout_cases [OF dok, case_names none some])
      case none
      then show ?thesis using Cons.IH [OF Cons.prems(1)] Cons.prems(2-9) PacketOut by fastforce
    next
      case s: (some os1 op m)
      have inv1: "dec_inv os1 fed bytes (outs @ [op_packet op])"
        using Cons.prems(1) s(2,3,4) by (simp add: dec_inv_def)
      obtain os' ops where "dec_run os1 as = Some (os', ops)"
        "dec_inv os' (fed @ concat cs) (bytes @ concat (map og_body (pages_in as))) ((outs @ [op_packet op]) @ map op_packet ops)"
        using Cons.IH [OF inv1] Cons.prems(2-9) s(6-9) PacketOut by fastforce
      then show ?thesis using s(1) PacketOut by auto
    qed
  next
    case (PageIn E og)
    obtain c cs' where cs: "cs = c # cs'" using Cons.prems(3) PageIn by (cases cs) auto
    let ?segs = "map (\<lambda>x. word_of_int (seg x) :: byte) c"
    have pg: "paged (serialno os) (pageno os) (og # pages_in as) (c # cs')" using Cons.prems(3) PageIn cs by simp
    have ci: "c_int (pageno os) = pageno os" using Cons.prems(6,7) by (intro c_int_small) auto
    have nx: "page_next os og ?segs"
      by (rule page_next_paged [OF Cons.prems(1) pg _ Cons.prems(5) ci, of "concat cs' @ mr" ps])
        (use Cons.prems(4) cs in simp)
    have c: "length c \<le> 255" "paged (serialno os) (pageno os + 1) (pages_in as) cs'" using pg by auto
    have gr: "\<And>n. grant E n" using Cons.prems(2) PageIn by simp
    show ?thesis
    proof (cases rule: pagein_cases [OF dok nx, of E, case_names fail success])
      case (fail os')
      have "body_room E os (int (length (og_body og))) \<and> lacing_room E os (int (length ?segs) + 1)"
        using gr Cons.prems(8,9) c(1) PageIn by (simp add: body_room_def lacing_room_def)
      then show ?thesis using fail(2) by blast
    next
      case s: (success os1)
      have inv1: "dec_inv os1 (fed @ c) (bytes @ og_body og) outs"
        using Cons.prems(1) s(2,3,4) by (simp add: dec_inv_def uint_seg comp_def)
      have "\<exists>os' ops. dec_run os1 as = Some (os', ops) \<and>
        dec_inv os' ((fed @ c) @ concat cs') ((bytes @ og_body og) @ concat (map og_body (pages_in as))) (outs @ map op_packet ops)"
        by (rule Cons.IH [OF inv1]) (use Cons.prems(2,4-9) s(5-8) c(2) PageIn cs in \<open>simp_all add: algebra_simps\<close>)
      then show ?thesis using s(1) PageIn cs by auto
    qed
  qed
qed

text \<open>Asking for as many packets as are waiting.\<close>

lemma drain_ok:
  assumes "dec_ok os" "map seg (lacing_queue os) = laced ps" "body_queue os = concat ps"
  shows "\<exists>os' ops. dec_run os (replicate (length ps + k) PacketOut) = Some (os', ops) \<and> map op_packet ops = ps"
  using assms
proof (induction ps arbitrary: os)
  case (Cons p ps)
  show ?case
  proof (cases rule: packetout_cases [OF Cons.prems(1), case_names none some])
    case none
    have "int (length p mod 255) \<in> set (map seg (lacing_queue os))" using Cons.prems(2) by (simp add: lace_def)
    then have "int (length p mod 255) = 255" using none(2) by auto
    then show ?thesis using mod_less_divisor [of 255 "length p"] by linarith
  next
    case s: (some os1 op m)
    have "lace (length (op_packet op)) @ map seg (lacing_queue os1) = lace (length p) @ laced ps"
      using s(3) Cons.prems(2) by simp
    note l = lace_prefix_free [OF this]
    have b: "op_packet op = p" "body_queue os1 = concat ps" using s(4) Cons.prems(3) l(1) by auto
    then show ?thesis using Cons.IH [OF s(2) l(2) b(2)] s(1) by auto
  qed
next
  case Nil
  have "ogg_stream_packetout os True = Some (os, None, 0)"
    by (rule packetout_cases [OF Nil.prems(1)]) (use Nil.prems(2) in auto)
  then have "dec_run os (replicate k PacketOut) = Some (os, [])" by (induction k) auto
  then show ?case by simp
qed

lemma dec_run_append:
  "dec_run os (as @ bs) = do { (os, xs) \<leftarrow> dec_run os as; (os, ys) \<leftarrow> dec_run os bs; Some (os, xs @ ys) }"
proof (induction os as rule: dec_run.induct)
  case (3 os as)
  then show ?case by (auto split: Option.bind_splits option.splits prod.splits)
qed (auto split: Option.bind_splits)

lemma init_ok:
  assumes "\<forall>n. grant E n"
  obtains os where "ogg_stream_init E s = (os, 0)" "stream_ok os" "lacing_queue os = []" "body_queue os = []"
    "lacing_returned os = 0" "lacing_packet os = 0" "pageno os = 0" "serialno os = s"
    "body_storage os = 16384" "lacing_storage os = 1024" "enc_ok os" "dec_ok os"
proof -
  let ?os = "fst (ogg_stream_init E s)"
  have f: "ogg_stream_init E s = (?os, 0)" "stream_ok ?os" "lacing_queue ?os = []" "body_queue ?os = []"
    "lacing_returned ?os = 0" "lacing_packet ?os = 0" "pageno ?os = 0" "serialno ?os = s"
    "body_storage ?os = 16384" "lacing_storage ?os = 1024"
    using assms by (simp_all add: ogg_stream_init_def realloc_bytes_def realloc_ints_def ogg_stream_zero_def
        stream_ok_def lacing_queue_def body_queue_def)
  then have "enc_ok ?os" "dec_ok ?os" by (simp_all add: enc_ok_def dec_ok_def marked_def)
  then show thesis using that [OF f] by blast
qed

lemma paged_checksum: "paged s p ogs cs \<Longrightarrow> \<forall>og \<in> set ogs. ogg_page_checksum_set og = Some og"
  by (induction s p ogs cs rule: paged.induct) simp_all

lemma stream_roundtrip_lemma:
  assumes s: "c_int s = s" and E: "\<forall>n. grant E n" "\<forall>n. grant E' n"
    and as: "list_all act_granted as" "length as < 2 ^ 31" "length (concat (submitted as)) \<le> 2 ^ 62"
  shows "\<exists>os ogs. enc_run (fst (ogg_stream_init E s)) as = Some (os, ogs) \<and>
     (\<forall>og \<in> set ogs. ogg_page_checksum_set og = Some og) \<and>
     (lacing_fill os = 0 \<longrightarrow> (\<forall>ds. list_all dec_granted ds \<and> pages_in ds = ogs \<longrightarrow>
        (\<exists>os' ops. dec_run (fst (ogg_stream_init E' s)) (ds @ replicate (length (submitted as)) PacketOut)
             = Some (os', ops) \<and> map op_packet ops = submitted as)))"
proof -
  have L: "LONG_MAX = 2 ^ 63 - 1" by (simp add: LONG_MAX_def)
  obtain e0 where e0: "ogg_stream_init E s = (e0, 0)" "lacing_queue e0 = []" "body_queue e0 = []"
    "pageno e0 = 0" "serialno e0 = s" "body_storage e0 = 16384" "lacing_storage e0 = 1024" "enc_ok e0"
    by (rule init_ok [OF E(1), of s]) blast
  obtain d0 where d0: "ogg_stream_init E' s = (d0, 0)" "lacing_queue d0 = []" "body_queue d0 = []"
    "pageno d0 = 0" "serialno d0 = s" "body_storage d0 = 16384" "lacing_storage d0 = 1024" "dec_ok d0"
    by (rule init_ok [OF E(2), of s]) blast
  obtain os ogs cs where r: "enc_run e0 as = Some (os, ogs)" "enc_ok os" "paged s 0 ogs cs"
    "concat cs @ lacing_queue os = laced_first (submitted as)"
    "concat (map og_body ogs) @ body_queue os = concat (submitted as)" "length ogs \<le> length as"
    using enc_run_ok [OF e0(8) _ as(1)] e0 as(2,3) by (auto simp: L)
  have ck: "\<forall>og \<in> set ogs. ogg_page_checksum_set og = Some og" by (rule paged_checksum [OF r(3)])
  have "\<exists>os' ops. dec_run d0 (ds @ replicate (length (submitted as)) PacketOut) = Some (os', ops) \<and>
      map op_packet ops = submitted as"
    if fin: "lacing_fill os = 0" and ds: "list_all dec_granted ds" "pages_in ds = ogs" for ds
  proof -
    have q: "lacing_queue os = []" using fin r(2) by (auto simp: enc_ok_def lacing_queue_def)
    then have b: "body_queue os = []" using r(2) by (simp add: enc_ok_def)
    have inv0: "dec_inv d0 [] [] []" using d0 by (simp add: dec_inv_def)
    have len: "length (concat (map og_body ogs)) \<le> 2 ^ 62" using r(5) b as(3) by simp
    obtain os' ops where o: "dec_run d0 ds = Some (os', ops)"
      "dec_inv os' ([] @ concat cs) ([] @ concat (map og_body (pages_in ds))) ([] @ map op_packet ops)"
      using dec_run_ok [OF inv0 ds(1), of cs "[]" "submitted as"] r d0 ds s q len as(2) by (auto simp: L)
    have "laced (map op_packet ops) @ map seg (lacing_queue os') = laced (submitted as)"
      using o(2) r(4) q seg_laced_first [of "submitted as"] by (simp add: dec_inv_def)
    moreover have "concat (map op_packet ops) @ body_queue os' = concat (submitted as)"
      using o(2) r(5) b ds(2) by (simp add: dec_inv_def)
    ultimately obtain rest where rest: "submitted as = map op_packet ops @ rest"
      "map seg (lacing_queue os') = laced rest" "body_queue os' = concat rest"
      using unlace_prefix by blast
    obtain os'' ops' where "dec_run os' (replicate (length rest + length ops) PacketOut) = Some (os'', ops')"
      "map op_packet ops' = rest"
      using drain_ok [of os' rest "length ops"] rest o(2) by (auto simp: dec_inv_def)
    then show ?thesis using o(1) rest(1) by (auto simp: dec_run_append add.commute)
  qed
  then show ?thesis using r(1) ck e0(1) d0(1) by auto
qed

text \<open>Flushing often enough empties the queue: every flush of a non-empty queue takes a page.\<close>

lemma paged_nonempty: "paged s p [og] [c] \<Longrightarrow> c \<noteq> []"
  by simp

lemma flush_all:
  assumes "enc_ok os" "0 \<le> pageno os" "length (lacing_queue os) \<le> n" "enc_run os (replicate n (FlushPage k)) = Some (os', ogs)"
  shows "lacing_queue os' = [] \<and> enc_ok os'"
  using assms
proof (induction n arbitrary: os ogs)
  case (Suc n)
  show ?case
  proof (cases rule: flush_i_cases [OF Suc.prems(1,2), of True k, case_names none page])
    case none
    then show ?thesis using Suc.IH [OF Suc.prems(1,2)] Suc.prems(4)
      by (auto simp: ogg_stream_flush_fill_def split: Option.bind_splits)
  next
    case g: (page os1 og c)
    have "length (lacing_queue os1) \<le> n" using g(4) paged_nonempty [OF g(3)] Suc.prems(3) by (cases c) auto
    then show ?thesis using Suc.IH [OF g(2)] Suc.prems(2,4) g(1,6)
      by (auto simp: ogg_stream_flush_fill_def split: Option.bind_splits)
  qed
qed simp

lemma enc_run_append:
  "enc_run os (as @ bs) = do { (os, xs) \<leftarrow> enc_run os as; (os, ys) \<leftarrow> enc_run os bs; Some (os, xs @ ys) }"
proof (induction os as rule: enc_run.induct)
  case (3 os as)
  then show ?case by (auto split: Option.bind_splits option.splits prod.splits)
next
  case (4 os as)
  then show ?case by (auto split: Option.bind_splits option.splits prod.splits)
qed (auto split: Option.bind_splits)

lemma submitted_append [simp]: "submitted (as @ bs) = submitted as @ submitted bs"
  by (induction as rule: submitted.induct) simp_all

lemma submitted_flushes [simp]: "submitted (replicate n (FlushPage k)) = []"
  by (induction n) simp_all

lemma paged_pageno: "paged s p ogs cs \<Longrightarrow> length cs = length ogs"
  by (induction s p ogs cs rule: paged.induct) simp_all

lemma flushed_empty:
  assumes E: "\<forall>n. grant E n" and as: "list_all act_granted as" "length as < 2 ^ 31" "length (concat (submitted as)) \<le> 2 ^ 62"
    and n: "length (laced_first (submitted as)) \<le> n"
    and run: "enc_run (fst (ogg_stream_init E s)) (as @ replicate n (FlushPage k)) = Some (os, ogs)"
  shows "lacing_fill os = 0"
proof -
  have L: "LONG_MAX = 2 ^ 63 - 1" by (simp add: LONG_MAX_def)
  obtain e0 where e0: "ogg_stream_init E s = (e0, 0)" "lacing_queue e0 = []" "body_queue e0 = []"
    "pageno e0 = 0" "serialno e0 = s" "body_storage e0 = 16384" "lacing_storage e0 = 1024" "enc_ok e0"
    by (rule init_ok [OF E, of s]) blast
  obtain os1 ogs1 cs where r: "enc_run e0 as = Some (os1, ogs1)" "enc_ok os1"
    "concat cs @ lacing_queue os1 = laced_first (submitted as)" "0 \<le> pageno os1"
    using enc_run_ok [OF e0(8) _ as(1)] e0 as(2,3) by (auto simp: L)
  have "length (lacing_queue os1) \<le> n" using n r(3) by (metis le_trans length_append le_add2)
  moreover obtain ogs2 where "enc_run os1 (replicate n (FlushPage k)) = Some (os, ogs2)"
    using run r(1) e0(1) by (auto simp: enc_run_append split: Option.bind_splits)
  ultimately have "lacing_queue os = []" "enc_ok os" using flush_all [OF r(2,4)] by blast+
  then show ?thesis by (auto simp: enc_ok_def stream_ok_def lacing_queue_def window_def)
qed

lemma stream_roundtrip_flushed:
  assumes s: "c_int s = s" and E: "\<forall>n. grant E n" "\<forall>n. grant E' n"
    and as: "list_all act_granted as" "length (concat (submitted as)) \<le> 2 ^ 62"
    and n: "length (laced_first (submitted as)) \<le> n" "length as + n < 2 ^ 31"
  shows "\<exists>os ogs. enc_run (fst (ogg_stream_init E s)) (as @ replicate n (FlushPage k)) = Some (os, ogs) \<and>
     (\<forall>og \<in> set ogs. ogg_page_checksum_set og = Some og) \<and>
     (\<forall>ds. list_all dec_granted ds \<and> pages_in ds = ogs \<longrightarrow>
        (\<exists>os' ops. dec_run (fst (ogg_stream_init E' s)) (ds @ replicate (length (submitted as)) PacketOut)
             = Some (os', ops) \<and> map op_packet ops = submitted as))"
proof -
  let ?as = "as @ replicate n (FlushPage k)"
  have "list_all act_granted (replicate n (FlushPage k))" by (induction n) simp_all
  then have "list_all act_granted ?as" using as(1) by simp
  from stream_roundtrip_lemma [OF s E this] as(2) n(2) obtain os ogs where
    r: "enc_run (fst (ogg_stream_init E s)) ?as = Some (os, ogs)" "\<forall>og \<in> set ogs. ogg_page_checksum_set og = Some og"
    "lacing_fill os = 0 \<longrightarrow> (\<forall>ds. list_all dec_granted ds \<and> pages_in ds = ogs \<longrightarrow>
        (\<exists>os' ops. dec_run (fst (ogg_stream_init E' s)) (ds @ replicate (length (submitted as)) PacketOut)
             = Some (os', ops) \<and> map op_packet ops = submitted as))"
    by auto
  have "lacing_fill os = 0" by (rule flushed_empty [OF E(1) as(1) _ as(2) n(1) r(1)]) (use n(2) in simp)
  then show ?thesis using r by blast
qed

lemma page_flags:
  "uint (((if a then 0x01 else 0x00) OR (if b then 0x02 else 0x00) OR (if c then 0x04 else 0x00)) AND (1 :: byte)) = 0 \<longleftrightarrow> \<not> a"
  "uint (((if a then 0x01 else 0x00) OR (if b then 0x02 else 0x00) OR (if c then 0x04 else 0x00)) AND (2 :: byte)) = 0 \<longleftrightarrow> \<not> b"
  "uint (((if a then 0x01 else 0x00) OR (if b then 0x02 else 0x00) OR (if c then 0x04 else 0x00)) AND (4 :: byte)) = 0 \<longleftrightarrow> \<not> c"
  by (cases a; cases b; cases c; simp)+

subsection \<open>Properties\<close>

text \<open>C34.  Lossless transport.  Take any packets, submitted in any interleaving with flushes and page
  requests and flushed at the end (as many flushes as there are lacing values are enough).  Every
  operation succeeds, every page emitted carries a valid checksum, and a decoder that is handed these
  pages in order, with packets taken out at any moments in between, returns exactly the submitted
  packets, in order and byte for byte.\<close>

theorem ogg_stream_roundtrip:
  assumes "c_int s = s" and "\<forall>n. grant E n" and "\<forall>n. grant E' n"
    and "list_all act_granted as" and "length (concat (submitted as)) \<le> 2 ^ 62"
    and "length (laced_first (submitted as)) \<le> n" and "length as + n < 2 ^ 31"
  shows "\<exists>os ogs. enc_run (fst (ogg_stream_init E s)) (as @ replicate n (FlushPage k)) = Some (os, ogs) \<and>
     (\<forall>og \<in> set ogs. ogg_page_checksum_set og = Some og) \<and>
     (\<forall>ds. list_all dec_granted ds \<and> pages_in ds = ogs \<longrightarrow>
        (\<exists>os' ops. dec_run (fst (ogg_stream_init E' s)) (ds @ replicate (length (submitted as)) PacketOut)
             = Some (os', ops) \<and> map op_packet ops = submitted as))"
  using assms by (rule stream_roundtrip_flushed)

abbreviation plain_packet :: "byte list \<Rightarrow> ogg_packet" where
  "plain_packet xs \<equiv> \<lparr>op_packet = xs, op_b_o_s = 0, op_e_o_s = 0, op_granulepos = 0, op_packetno = 0\<rparr>"

theorem ogg_stream_roundtrip_witness:
  "\<exists>os ogs. enc_run (fst (ogg_stream_init ample 77))
       ([Submit ample (plain_packet [1, 2, 3]), PageOut 4096, Submit ample (plain_packet (replicate 300 9))] @
        replicate 4 (FlushPage 4096)) = Some (os, ogs) \<and>
     (\<exists>os' ops. dec_run (fst (ogg_stream_init ample 77)) (map (PageIn ample) ogs @ replicate 2 PacketOut) = Some (os', ops) \<and>
        map op_packet ops = [[1, 2, 3], replicate 300 9])"
proof -
  let ?as = "[Submit ample (plain_packet [1, 2, 3]), PageOut 4096, Submit ample (plain_packet (replicate 300 9))]"
  have lens: "length (laced_first (submitted ?as)) \<le> 4" by simp
  have small: "length (concat (submitted ?as)) \<le> 2 ^ 62" "length ?as + 4 < 2 ^ 31" by simp_all
  have io: "pages_in (map (PageIn ample) ogs) = ogs" "list_all dec_granted (map (PageIn ample) ogs)" for ogs
    by (induction ogs) simp_all
  have c: "c_int 77 = 77" by (rule c_int_small) simp_all
  have g: "\<forall>n. grant ample n" "list_all act_granted ?as" by simp_all
  have sub: "submitted ?as = [[1, 2, 3], replicate 300 9]" "length (submitted ?as) = 2" by simp_all
  from ogg_stream_roundtrip [OF c g(1) g(1) g(2) small(1) lens small(2), of 4096]
  obtain os ogs where r: "enc_run (fst (ogg_stream_init ample 77)) (?as @ replicate 4 (FlushPage 4096)) = Some (os, ogs)"
    and d: "\<forall>ds. list_all dec_granted ds \<and> pages_in ds = ogs \<longrightarrow>
        (\<exists>os' ops. dec_run (fst (ogg_stream_init ample 77)) (ds @ replicate (length (submitted ?as)) PacketOut)
             = Some (os', ops) \<and> map op_packet ops = submitted ?as)"
    by blast
  have d': "\<exists>os' ops. dec_run (fst (ogg_stream_init ample 77)) (map (PageIn ample) ogs @ replicate 2 PacketOut) = Some (os', ops) \<and>
        map op_packet ops = [[1, 2, 3], replicate 300 9]"
    using d [rule_format, OF conjI, OF io(2) io(1)] unfolding sub(2) unfolding sub(1) .
  show ?thesis by (rule exI [of _ os], rule exI [of _ ogs], rule conjI [OF r d'])
qed

text \<open> What a flush puts on a page: between 1 and 255 lacing values from the front of the queue and
  exactly the bytes they announce; the stream's serial number and page counter; the granule position of
  the last packet that ends on the page (\<open>-1\<close> if none does, \<open>0\<close> on the first page); the continuation,
  first-page and last-page flags; and a valid checksum.  The rest of the queue is kept.\<close>

lemma ogg_stream_flush_page:
  assumes "enc_ok os" and "lacing_queue os \<noteq> []" and "0 \<le> pageno os" and "pageno os < 2 ^ 31"
    and "c_int (serialno os) = serialno os"
  shows "\<exists>os' og k. ogg_stream_flush_fill os nfill = Some (os', Some og) \<and> 1 \<le> k \<and> k \<le> 255 \<and>
     lacing_queue os = take k (lacing_queue os) @ lacing_queue os' \<and>
     body_queue os = og_body og @ body_queue os' \<and>
     int (length (og_body og)) = sum_list (map seg (take k (lacing_queue os))) \<and>
     ogg_page_serialno og = Some (serialno os) \<and> ogg_page_pageno og = Some (pageno os) \<and>
     ogg_page_granulepos og = Some (signed_take_bit 63 (if b_o_s os = 0 then 0
        else last_granule (- 1) (take k (zip (lacing_vals os) (granule_vals os))))) \<and>
     (ogg_page_continued og = Some 0 \<longleftrightarrow> (lacing_queue os ! 0) AND 0x100 \<noteq> 0) \<and>
     (ogg_page_bos og = Some 0 \<longleftrightarrow> b_o_s os \<noteq> 0) \<and>
     (ogg_page_eos og = Some 0 \<longleftrightarrow> e_o_s os = 0 \<or> lacing_queue os' \<noteq> []) \<and>
     ogg_page_checksum_set og = Some og \<and> enc_ok os'"
proof -
  obtain k g f' where ch: "flush_choice os True nfill = Some (int k, g, f')" "1 \<le> k" "k \<le> 255"
    "k \<le> length (lacing_queue os)" "True \<longrightarrow> f'"
    "g = (if b_o_s os = 0 then 0 else last_granule (- 1) (take k (zip (lacing_vals os) (granule_vals os))))"
    by (rule flush_choice_ok [OF assms(1,2)])
  have pg: "pageno os = (if pageno os = - 1 then 0 else pageno os)" using assms(3) by simp
  have f': "flush_choice os True nfill = Some (int k, g, True)" using ch by simp
  obtain os' og crc where r: "ogg_stream_flush_i os True nfill = Some (os', Some og)"
    "og_header og = page_header ((if (lacing_queue os ! 0) AND 0x100 = 0 then 0x01 else 0x00) OR
        (if b_o_s os = 0 then 0x02 else 0x00) OR (if e_o_s os \<noteq> 0 \<and> k = length (lacing_queue os) then 0x04 else 0x00))
      g (serialno os) (pageno os) crc (map (\<lambda>x. word_of_int (seg x)) (take k (lacing_queue os)))"
    "length crc = 4" "ogg_page_checksum_set og = Some og" "enc_ok os'" "lacing_queue os' = drop k (lacing_queue os)"
    "body_queue os = og_body og @ body_queue os'" "int (length (og_body og)) = sum_list (map seg (take k (lacing_queue os)))"
    using flush_i_ok [OF assms(1,2) f' ch(2-4) refl refl pg] by blast
  note fl = page_fields(1-7) [OF r(2,3)]
  have ci: "c_int (pageno os) = pageno os" using assms(3,4) by (rule c_int_small)
  have flags: "ogg_page_continued og = Some 0 \<longleftrightarrow> (lacing_queue os ! 0) AND 0x100 \<noteq> 0"
    "ogg_page_bos og = Some 0 \<longleftrightarrow> b_o_s os \<noteq> 0"
    "ogg_page_eos og = Some 0 \<longleftrightarrow> \<not> (e_o_s os \<noteq> 0 \<and> k = length (lacing_queue os))"
    unfolding fl(2-4) by (simp_all only: option.inject page_flags)
  have rest: "lacing_queue os' \<noteq> [] \<longleftrightarrow> k \<noteq> length (lacing_queue os)" using r(6) ch(4) by auto
  have eos: "ogg_page_eos og = Some 0 \<longleftrightarrow> e_o_s os = 0 \<or> lacing_queue os' \<noteq> []" unfolding rest flags(3) by blast
  have num: "ogg_page_serialno og = Some (serialno os)" "ogg_page_pageno og = Some (pageno os)"
    using fl(6,7) ci assms(5) by simp_all
  have split: "lacing_queue os = take k (lacing_queue os) @ lacing_queue os'" by (simp add: r(6))
  show ?thesis
    by (rule exI [of _ os'], rule exI [of _ og], rule exI [of _ k], intro conjI)
      (rule r(1) [folded ogg_stream_flush_fill_def] ch(2,3) split r(7,8) num fl(5) [unfolded ch(6)] flags(1,2) eos r(4,5))+
qed

lemma ogg_stream_flush_page_witness:
  "\<exists>os os' og k. ogg_stream_packetin ample (fst (ogg_stream_init ample 5)) (plain_packet [7, 8]) = Some (os, 0) \<and>
     ogg_stream_flush_fill os 4096 = Some (os', Some og) \<and> ogg_page_serialno og = Some 5 \<and>
     ogg_page_pageno og = Some 0 \<and> ogg_page_checksum_set og = Some og \<and>
     body_queue os = og_body og @ body_queue os'"
proof -
  have gr: "\<forall>n. grant ample n" by simp
  obtain e0 where e0: "ogg_stream_init ample 5 = (e0, 0)" "stream_ok e0" "lacing_queue e0 = []" "body_queue e0 = []"
    "lacing_returned e0 = 0" "lacing_packet e0 = 0" "pageno e0 = 0" "serialno e0 = 5"
    "body_storage e0 = 16384" "lacing_storage e0 = 1024"
    using init_ok [OF gr, of 5] by blast
  have iv: "\<forall>v \<in> set [[7, 8 :: byte]]. int (length v) < 2 ^ 31" "2 = length (concat [[7, 8 :: byte]])" by simp_all
  show ?thesis
  proof (cases rule: iovecin_cases [OF e0(2) iv, of ample 0 0, case_names fail success])
    case (fail os')
    then show ?thesis using e0 by (simp add: body_room_def lacing_room_def LONG_MAX_def)
  next
    case s: (success os)
    have ok: "enc_ok os" "lacing_queue os \<noteq> []" "c_int (serialno os) = serialno os"
      using s e0 sum_lace [of 2] c_int_small [of 5] seg_lace_first [of 2] by (auto simp: enc_ok_def lace_first_def lace_def seg_or seg_val)
    then obtain os' og k where "ogg_stream_flush_fill os 4096 = Some (os', Some og)"
      "ogg_page_serialno og = Some (serialno os)" "ogg_page_pageno og = Some (pageno os)"
      "ogg_page_checksum_set og = Some og" "body_queue os = og_body og @ body_queue os'"
      using ogg_stream_flush_page [of os 4096] s e0 by auto
    then show ?thesis using s(1,9,10) e0 by (auto simp: ogg_stream_packetin_def)
  qed
qed

text \<open> Submitting a packet never leaves the buffers, whatever the allocator does.  Either it is
  refused with \<open>-1\<close> and the stream is as before or cleared, or it is accepted: its bytes and its lacing
  values, the first one flagged, are appended to the two queues.\<close>

lemma ogg_stream_iovecin_outcome:
  assumes "stream_ok os" and "\<forall>v \<in> set iov. int (length v) < 2 ^ 31"
  shows "\<exists>os' r. ogg_stream_iovecin E os (Some iov) eos g = Some (os', r) \<and>
    (r = - 1 \<and> (os' = os \<or> os' = ogg_stream_zero) \<or>
     r = 0 \<and> stream_ok os' \<and> body_queue os' = body_queue os @ concat iov \<and>
     lacing_queue os' = lacing_queue os @ lace_first (length (concat iov)))"
  by (rule iovecin_cases [OF assms refl, of E eos g]) auto

lemma ogg_stream_iovecin_outcome_witness:
  "\<exists>os' r. ogg_stream_iovecin \<lparr>grant = \<lambda>n. False, junk = \<lambda>i. 0, junk_int = \<lambda>i. 0\<rparr>
       (fst (ogg_stream_init ample 1)) (Some [[1], [2, 3]]) 0 0 = Some (os', r) \<and> (r = - 1 \<or> r = 0 \<and> stream_ok os')"
proof -
  have gr: "\<forall>n. grant ample n" by simp
  obtain e0 where "ogg_stream_init ample 1 = (e0, 0)" "stream_ok e0" using init_ok [OF gr, of 1] by blast
  then show ?thesis
    using ogg_stream_iovecin_outcome [of e0 "[[1], [2, 3]]" "\<lparr>grant = \<lambda>n. False, junk = \<lambda>i. 0, junk_int = \<lambda>i. 0\<rparr>" 0 0]
    by auto
qed

text \<open> On a decoder without gaps \<open>ogg_stream_packetout\<close> returns \<open>0\<close> exactly when no complete packet
  is queued; otherwise it returns \<open>1\<close> with the bytes of the first complete packet and removes them and
  their lacing values.\<close>

lemma ogg_stream_packetout_outcome:
  assumes "dec_ok os"
  shows "ogg_stream_packetout os True = Some (os, None, 0) \<and> (\<forall>x \<in> set (lacing_queue os). seg x = 255) \<or>
    (\<exists>os' op. ogg_stream_packetout os True = Some (os', Some op, 1) \<and> dec_ok os' \<and>
      map seg (lacing_queue os) = lace (length (op_packet op)) @ map seg (lacing_queue os') \<and>
      body_queue os = op_packet op @ body_queue os')"
  by (rule packetout_cases [OF assms]) auto

lemma ogg_stream_packetout_outcome_witness:
  "ogg_stream_packetout (fst (ogg_stream_init ample 3)) True = Some (fst (ogg_stream_init ample 3), None, 0)"
proof -
  have gr: "\<forall>n. grant ample n" by simp
  obtain d0 where "ogg_stream_init ample 3 = (d0, 0)" "dec_ok d0" "lacing_queue d0 = []"
    using init_ok [OF gr, of 3] by blast
  then show ?thesis using ogg_stream_packetout_outcome [of d0] by (auto simp: lace_def)
qed

text \<open> The page counter is read back as a signed 32-bit number: from page \<open>2^31\<close> on the value differs
  from the counter the encoder wrote, so a decoder, which counts in a 64-bit \<open>long\<close>, sees every further
  page as out of sequence.\<close>

lemma ogg_page_pageno_sign:
  assumes "2 ^ 31 \<le> p" and "p < 2 ^ 32"
    and "og_header og = page_header f g s p crc segs" and "length crc = 4"
  shows "ogg_page_pageno og = Some (p - 2 ^ 32)"
proof -
  have "c_int p = c_int (p - 2 ^ 32)"
    unfolding c_int_def by (rule signed_take_bit_eq_iff_take_bit_eq [THEN iffD2]) (simp add: take_bit_eq_mod)
  also have "\<dots> = p - 2 ^ 32" using assms(1,2) by (simp add: c_int_def signed_take_bit_int_eq_self)
  finally show ?thesis using page_fields(7) [OF assms(3,4)] by simp
qed

lemma ogg_page_pageno_sign_witness:
  "ogg_page_pageno \<lparr>og_header = page_header 0 0 1 (2 ^ 31) [0, 0, 0, 0] [3], og_body = [1, 2, 3]\<rparr> = Some (- (2 ^ 31))"
  using ogg_page_pageno_sign [of "2 ^ 31" "\<lparr>og_header = page_header 0 0 1 (2 ^ 31) [0, 0, 0, 0] [3], og_body = [1, 2, 3]\<rparr>"]
  by simp

end
