(* ===== verification/Ogg_Sync.thy ===== *)
theory Ogg_Sync
  imports Ogg_Stream_Roundtrip
begin

unbundle bit_operations_syntax

section \<open>Finding pages in a byte stream (opus/ogg/framing.c, third part)\<close>

text \<open>
  \<open>ogg_sync_state\<close> buffers raw bytes; \<open>ogg_sync_pageseek\<close> looks for a page at the read mark, checks its
  checksum and, when there is none, skips to the next candidate; \<open>ogg_sync_pageout\<close> repeats it.  The
  \<open>int\<close> fields are 32 bits wide, narrowing from \<open>long\<close> is written out.  A \<open>NULL\<close> data pointer is the
  empty list.  \<open>pageseek\<close>'s early returns and its jump to \<open>sync_fail\<close> are the constructors of \<open>seek\<close>.
\<close>

record ogg_sync_state =
  oy_data :: "byte list"
  oy_storage :: int
  oy_fill :: int
  oy_returned :: int
  oy_unsynced :: int
  oy_headerbytes :: int
  oy_bodybytes :: int

definition ogg_sync_zero :: ogg_sync_state where
  "ogg_sync_zero = \<lparr>oy_data = [], oy_storage = 0, oy_fill = 0, oy_returned = 0, oy_unsynced = 0,
     oy_headerbytes = 0, oy_bodybytes = 0\<rparr>"

definition ogg_sync_init :: ogg_sync_state where
  "ogg_sync_init = ogg_sync_zero"

definition ogg_sync_clear :: "ogg_sync_state \<Rightarrow> ogg_sync_state" where
  "ogg_sync_clear oy = ogg_sync_zero"

definition ogg_sync_check :: "ogg_sync_state \<Rightarrow> int" where
  "ogg_sync_check oy = (if oy_storage oy < 0 then - 1 else 0)"

definition sync_compact :: "ogg_sync_state \<Rightarrow> ogg_sync_state option" where
  "sync_compact oy =
     (if oy_returned oy \<noteq> 0 then do {
        let fill = oy_fill oy - oy_returned oy;
        d \<leftarrow> (if fill > 0 then mem_copy (oy_data oy) 0 (oy_data oy) (oy_returned oy) fill else Some (oy_data oy));
        Some (oy\<lparr>oy_fill := fill, oy_data := d, oy_returned := 0\<rparr>) }
      else Some oy)"

text \<open>The result beside the state is the offset of the returned pointer, \<^const>\<open>None\<close> for \<open>NULL\<close>.\<close>

definition ogg_sync_buffer :: "mem_env \<Rightarrow> ogg_sync_state \<Rightarrow> int \<Rightarrow> (ogg_sync_state \<times> int option) option" where
  "ogg_sync_buffer E oy sz =
     (if ogg_sync_check oy \<noteq> 0 then Some (oy, None)
      else do {
        oy \<leftarrow> sync_compact oy;
        if sz > oy_storage oy - oy_fill oy then
          (let newsize = sz + oy_fill oy + 4096 in
           case realloc_bytes E (oy_data oy) newsize of
             None \<Rightarrow> Some (ogg_sync_clear oy, None)
           | Some ret \<Rightarrow> Some (oy\<lparr>oy_data := ret, oy_storage := c_int newsize\<rparr>, Some (oy_fill oy)))
        else Some (oy, Some (oy_fill oy)) })"

definition ogg_sync_wrote :: "ogg_sync_state \<Rightarrow> int \<Rightarrow> ogg_sync_state \<times> int" where
  "ogg_sync_wrote oy bytes =
     (if ogg_sync_check oy \<noteq> 0 then (oy, - 1)
      else if oy_fill oy + bytes > oy_storage oy then (oy, - 1)
      else (oy\<lparr>oy_fill := c_int (oy_fill oy + bytes)\<rparr>, 0))"

datatype seek = Need_more ogg_sync_state | Sync_fail ogg_sync_state | Have_header ogg_sync_state

definition pageseek_header :: "ogg_sync_state \<Rightarrow> seek option" where
  "pageseek_header oy =
     (let page = oy_returned oy; bytes = oy_fill oy - oy_returned oy in
      if oy_headerbytes oy = 0 then
        (if bytes < 27 then Some (Need_more oy)
         else do {
           magic \<leftarrow> slice (oy_data oy) page 4;
           if magic \<noteq> [0x4f, 0x67, 0x67, 0x53] then Some (Sync_fail oy)
           else do {
             n \<leftarrow> rd (oy_data oy) (page + 26);
             if bytes < uint n + 27 then Some (Need_more oy)
             else do {
               segs \<leftarrow> slice (oy_data oy) (page + 27) (uint n);
               Some (Have_header (oy\<lparr>oy_bodybytes := oy_bodybytes oy + sum_list (map uint segs),
                                     oy_headerbytes := uint n + 27\<rparr>)) }}})
      else Some (Have_header oy))"

text \<open>\<open>memchr(page+1,'O',bytes-1)\<close>, and the fill mark when there is no such byte.\<close>

definition pageseek_fail :: "ogg_sync_state \<Rightarrow> (ogg_sync_state \<times> int) option" where
  "pageseek_fail oy = do {
     let page = oy_returned oy;
     let bytes = oy_fill oy - oy_returned oy;
     s \<leftarrow> slice (oy_data oy) (page + 1) (bytes - 1);
     let n = length (takeWhile (\<lambda>x. x \<noteq> 0x4f) s);
     let nxt = (if n < length s then page + 1 + int n else oy_fill oy);
     Some (oy\<lparr>oy_headerbytes := 0, oy_bodybytes := 0, oy_returned := c_int nxt\<rparr>, - (nxt - page)) }"

text \<open>The checksum test works in place: the four bytes are zeroed, recomputed and compared, and put back
  when they differ.  The result is the buffer afterwards and whether they agreed.\<close>

definition pageseek_verify :: "ogg_sync_state \<Rightarrow> (byte list \<times> bool) option" where
  "pageseek_verify oy = do {
     let page = oy_returned oy;
     chksum \<leftarrow> slice (oy_data oy) (page + 22) 4;
     d \<leftarrow> mem_copy (oy_data oy) (page + 22) [0, 0, 0, 0] 0 4;
     h \<leftarrow> slice d page (oy_headerbytes oy);
     b \<leftarrow> slice d (page + oy_headerbytes oy) (oy_bodybytes oy);
     log \<leftarrow> ogg_page_checksum_set \<lparr>og_header = h, og_body = b\<rparr>;
     d \<leftarrow> mem_copy d page (og_header log) 0 (oy_headerbytes oy);
     now \<leftarrow> slice d (page + 22) 4;
     if chksum \<noteq> now then do { d \<leftarrow> mem_copy d (page + 22) chksum 0 4; Some (d, False) }
     else Some (d, True) }"

definition ogg_sync_pageseek :: "ogg_sync_state \<Rightarrow> (ogg_sync_state \<times> ogg_page option \<times> int) option" where
  "ogg_sync_pageseek oy =
     (if ogg_sync_check oy \<noteq> 0 then Some (oy, None, 0)
      else do {
        sk \<leftarrow> pageseek_header oy;
        (case sk of
           Need_more oy \<Rightarrow> Some (oy, None, 0)
         | Sync_fail oy \<Rightarrow> do { (oy, ret) \<leftarrow> pageseek_fail oy; Some (oy, None, ret) }
         | Have_header oy \<Rightarrow>
             (if oy_bodybytes oy + oy_headerbytes oy > oy_fill oy - oy_returned oy then Some (oy, None, 0)
              else do {
                (d, good) \<leftarrow> pageseek_verify oy;
                let oy = oy\<lparr>oy_data := d\<rparr>;
                if \<not> good then do { (oy, ret) \<leftarrow> pageseek_fail oy; Some (oy, None, ret) }
                else do {
                  h \<leftarrow> slice d (oy_returned oy) (oy_headerbytes oy);
                  b \<leftarrow> slice d (oy_returned oy + oy_headerbytes oy) (oy_bodybytes oy);
                  let bytes = oy_headerbytes oy + oy_bodybytes oy;
                  Some (oy\<lparr>oy_unsynced := 0, oy_returned := oy_returned oy + bytes, oy_headerbytes := 0,
                           oy_bodybytes := 0\<rparr>, Some \<lparr>og_header = h, og_body = b\<rparr>, bytes) }})) })"

text \<open>The loop of \<open>pageout\<close>; the fuel bounds the number of iterations, and \<^const>\<open>None\<close> also stands for
  running out of it (which \<open>pageout_total\<close> below excludes).\<close>

fun pageout_loop :: "nat \<Rightarrow> ogg_sync_state \<Rightarrow> (ogg_sync_state \<times> ogg_page option \<times> int) option" where
  "pageout_loop 0 oy = None"
| "pageout_loop (Suc fuel) oy = do {
     (oy, og, ret) \<leftarrow> ogg_sync_pageseek oy;
     if ret > 0 then Some (oy, og, 1)
     else if ret = 0 then Some (oy, None, 0)
     else if oy_unsynced oy = 0 then Some (oy\<lparr>oy_unsynced := 1\<rparr>, None, - 1)
     else pageout_loop fuel oy }"

definition ogg_sync_pageout :: "ogg_sync_state \<Rightarrow> (ogg_sync_state \<times> ogg_page option \<times> int) option" where
  "ogg_sync_pageout oy =
     (if ogg_sync_check oy \<noteq> 0 then Some (oy, None, 0)
      else pageout_loop (Suc (nat (oy_fill oy - oy_returned oy))) oy)"

definition ogg_sync_reset :: "ogg_sync_state \<Rightarrow> ogg_sync_state \<times> int" where
  "ogg_sync_reset oy =
     (if ogg_sync_check oy \<noteq> 0 then (oy, - 1)
      else (oy\<lparr>oy_fill := 0, oy_returned := 0, oy_unsynced := 0, oy_headerbytes := 0, oy_bodybytes := 0\<rparr>, 0))"

subsection \<open>The unread bytes\<close>

definition pending :: "ogg_sync_state \<Rightarrow> byte list" where
  "pending oy = window (oy_data oy) (oy_returned oy) (oy_fill oy)"

definition OggS :: "byte list" where
  "OggS = [0x4f, 0x67, 0x67, 0x53]"

text \<open>The sizes a page header announces.\<close>

definition header_len :: "byte list \<Rightarrow> nat" where
  "header_len xs = unat (xs ! 26) + 27"

definition body_len :: "byte list \<Rightarrow> nat" where
  "body_len xs = sum_list (map unat (take (unat (xs ! 26)) (drop 27 xs)))"

lemma header_len_ge: "27 \<le> header_len xs"
  by (simp add: header_len_def)

definition sync_ok :: "ogg_sync_state \<Rightarrow> bool" where
  "sync_ok oy \<longleftrightarrow> oy_storage oy = int (length (oy_data oy)) \<and> oy_storage oy < 2 ^ 31 \<and>
     0 \<le> oy_returned oy \<and> oy_returned oy \<le> oy_fill oy \<and> oy_fill oy \<le> oy_storage oy \<and>
     (oy_headerbytes oy = 0 \<and> oy_bodybytes oy = 0 \<or>
      27 \<le> length (pending oy) \<and> take 4 (pending oy) = OggS \<and> header_len (pending oy) \<le> length (pending oy) \<and>
      oy_headerbytes oy = int (header_len (pending oy)) \<and> oy_bodybytes oy = int (body_len (pending oy)))"

lemma pending_split:
  assumes "sync_ok oy"
  obtains pre post where "oy_data oy = pre @ pending oy @ post" "oy_returned oy = int (length pre)"
    "oy_fill oy = int (length pre + length (pending oy))"
proof
  let ?r = "nat (oy_returned oy)" and ?f = "nat (oy_fill oy)"
  have m: "0 \<le> oy_returned oy" "oy_returned oy \<le> oy_fill oy" "oy_fill oy \<le> int (length (oy_data oy))"
    using assms by (auto simp: sync_ok_def)
  then have len: "length (pending oy) = ?f - ?r" by (simp add: pending_def nat_diff_distrib)
  have "take (?f - ?r) (drop ?r (oy_data oy)) = pending oy" using m by (simp add: pending_def window_def nat_diff_distrib)
  then show "oy_data oy = take ?r (oy_data oy) @ pending oy @ drop ?f (oy_data oy)"
    using append_take_drop_id [of ?r "oy_data oy"] append_take_drop_id [of "?f - ?r" "drop ?r (oy_data oy)"] m
    by (simp add: nat_mono)
  show "oy_returned oy = int (length (take ?r (oy_data oy)))"
    "oy_fill oy = int (length (take ?r (oy_data oy)) + length (pending oy))"
    using m len by (simp_all add: min_absorb2 nat_le_iff)
qed

lemma pending_advance:
  assumes "sync_ok oy" "n \<le> length (pending oy)"
  shows "window (oy_data oy) (oy_returned oy + int n) (oy_fill oy) = drop n (pending oy)"
proof -
  have m: "0 \<le> oy_returned oy" "oy_returned oy \<le> oy_fill oy" "oy_fill oy \<le> int (length (oy_data oy))"
    using assms by (auto simp: sync_ok_def)
  then have n: "oy_returned oy + int n \<le> oy_fill oy" using assms(2) by (simp add: pending_def)
  have "pending oy = window (oy_data oy) (oy_returned oy) (oy_returned oy + int n) @
      window (oy_data oy) (oy_returned oy + int n) (oy_fill oy)"
    unfolding pending_def using m n by (intro window_append) auto
  then show ?thesis using m n by simp
qed

lemma slice_mid:
  "slice (pre @ xs @ post) (int (length pre) + int i) (int n) = Some (take n (drop i xs))" if "i + n \<le> length xs"
proof -
  have "nat (int (length pre) + int i) = length pre + i" by simp
  then show ?thesis using that by (simp add: slice_def)
qed

lemma rd_mid: "i < length xs \<Longrightarrow> rd (pre @ xs @ post) (int (length pre) + int i) = Some (xs ! i)"
  by (simp add: rd_def nat_add_distrib nth_append)

lemma mem_copy_mid:
  "length ys = length xs \<Longrightarrow> n = int (length ys) \<Longrightarrow> d = int (length pre) \<Longrightarrow>
   mem_copy (pre @ xs @ post) d ys 0 n = Some (pre @ ys @ post)"
  by (simp add: mem_copy_def nat_add_distrib)

lemma sum_uint_unat: "sum_list (map uint xs) = int (sum_list (map unat xs))"
  by (induction xs) simp_all

lemma pageseek_header_ok:
  assumes ok: "sync_ok oy" and P: "P = pending oy"
  shows "pageseek_header oy = Some (
     if length P < 27 then Need_more oy
     else if take 4 P \<noteq> OggS then Sync_fail oy
     else if length P < header_len P then Need_more oy
     else Have_header (oy\<lparr>oy_bodybytes := int (body_len P), oy_headerbytes := int (header_len P)\<rparr>))"
proof -
  obtain pre post where d: "oy_data oy = pre @ P @ post" "oy_returned oy = int (length pre)"
    "oy_fill oy = int (length pre + length P)" unfolding P by (rule pending_split [OF ok])
  have bytes: "oy_fill oy - oy_returned oy = int (length P)" using d by simp
  show ?thesis
  proof (cases "oy_headerbytes oy = 0")
    case False
    then have f: "27 \<le> length P" "take 4 P = OggS" "header_len P \<le> length P"
      "oy_headerbytes oy = int (header_len P)" "oy_bodybytes oy = int (body_len P)"
      using ok P by (auto simp: sync_ok_def)
    then have "oy\<lparr>oy_bodybytes := int (body_len P), oy_headerbytes := int (header_len P)\<rparr> = oy" by (cases oy) simp
    then show ?thesis using f False by (simp add: pageseek_header_def)
  next
    case True
    then have b0: "oy_bodybytes oy = 0" using ok header_len_ge [of "pending oy"] by (auto simp: sync_ok_def)
    show ?thesis
    proof (cases "length P < 27")
      case l: False
      have 1: "slice (oy_data oy) (oy_returned oy) 4 = Some (take 4 P)"
        using slice_mid [of 0 4 P pre post] l d by simp
      have 2: "rd (oy_data oy) (oy_returned oy + 26) = Some (P ! 26)"
        using rd_mid [of 26 P pre post] l d by simp
      have 3: "slice (oy_data oy) (oy_returned oy + 27) (uint (P ! 26)) = Some (take (unat (P ! 26)) (drop 27 P))"
        if "header_len P \<le> length P"
        using slice_mid [of 27 "unat (P ! 26)" P pre post] that d by (simp add: header_len_def)
      have 4: "uint (P ! 26) + 27 = int (header_len P)" by (simp add: header_len_def)
      show ?thesis using True l 1 2 3 b0 bytes
        by (auto simp: pageseek_header_def Let_def OggS_def 4 body_len_def sum_uint_unat)
    qed (use True bytes in \<open>simp add: pageseek_header_def\<close>)
  qed
qed

lemma pageseek_fail_ok:
  assumes ok: "sync_ok oy" and P: "pending oy \<noteq> []"
  shows "\<exists>oy' n. pageseek_fail oy = Some (oy', - int n) \<and> sync_ok oy' \<and> 1 \<le> n \<and> n \<le> length (pending oy) \<and>
     pending oy' = drop n (pending oy) \<and> (\<forall>i. 1 \<le> i \<and> i < n \<longrightarrow> pending oy ! i \<noteq> 0x4f) \<and>
     oy_headerbytes oy' = 0 \<and> oy_unsynced oy' = oy_unsynced oy"
proof -
  obtain pre post where d: "oy_data oy = pre @ pending oy @ post" "oy_returned oy = int (length pre)"
    "oy_fill oy = int (length pre + length (pending oy))" by (rule pending_split [OF ok])
  let ?P = "pending oy"
  have s: "slice (oy_data oy) (oy_returned oy + 1) (oy_fill oy - oy_returned oy - 1) = Some (drop (Suc 0) ?P)"
    using slice_mid [of 1 "length ?P - 1" ?P pre post] P d by (simp add: of_nat_diff Suc_le_eq)
  define k where "k = length (takeWhile (\<lambda>x. x \<noteq> 0x4f) (drop (Suc 0) ?P))"
  define n where "n = (if k < length (drop (Suc 0) ?P) then 1 + k else length ?P)"
  have k: "k \<le> length ?P - 1" unfolding k_def using length_takeWhile_le [of _ "drop (Suc 0) ?P"] by simp
  have n: "1 \<le> n" "n \<le> length ?P" using k P by (auto simp: n_def Suc_le_eq)
  have free: "?P ! i \<noteq> 0x4f" if "1 \<le> i \<and> i < n" for i
  proof -
    have "i - 1 < k" using that k unfolding n_def by (auto split: if_splits)
    then have j: "i - 1 < length (takeWhile (\<lambda>x. x \<noteq> 0x4f) (drop (Suc 0) ?P))" unfolding k_def .
    have "drop (Suc 0) ?P ! (i - 1) \<noteq> 0x4f" using set_takeWhileD [OF nth_mem [OF j]] takeWhile_nth [OF j] by simp
    then show ?thesis using that n by simp
  qed
  have st: "oy_storage oy = int (length (oy_data oy))" "oy_storage oy < 2 ^ 31" "oy_fill oy \<le> oy_storage oy"
    using ok by (auto simp: sync_ok_def)
  have nx: "(if k < length (drop (Suc 0) ?P) then oy_returned oy + 1 + int k else oy_fill oy) = int (length pre + n)"
    using d P by (auto simp: n_def Suc_le_eq)
  have "length pre + n \<le> length (oy_data oy)" using d(1) n by simp
  then have ci: "c_int (int (length pre + n)) = int (length pre + n)"
    using st by (intro c_int_small) simp_all
  let ?oy = "oy\<lparr>oy_headerbytes := 0, oy_bodybytes := 0, oy_returned := int (length pre + n)\<rparr>"
  have r: "pageseek_fail oy = Some (?oy, - int n)"
    unfolding pageseek_fail_def Let_def s Option.bind.bind_lunit k_def [symmetric] nx ci by (simp add: d(2))
  have p: "pending ?oy = drop n ?P"
    using pending_advance [OF ok n(2)] d(2) by (simp add: pending_def)
  have "sync_ok ?oy" using st d(2,3) n by (simp add: sync_ok_def)
  then show ?thesis using r p n free by (intro exI [of _ ?oy] exI [of _ n]) auto
qed

text \<open>The in-place checksum test leaves the buffer as it was.\<close>

lemma pageseek_verify_ok:
  assumes ok: "sync_ok oy" and hb: "oy_headerbytes oy = int h" and bb: "oy_bodybytes oy = int b"
    and h: "26 \<le> h" and len: "h + b \<le> length (pending oy)"
    and og: "og = \<lparr>og_header = take h (pending oy), og_body = take b (drop h (pending oy))\<rparr>"
  shows "pageseek_verify oy = Some (oy_data oy, checksum_ok og)"
    and "slice (oy_data oy) (oy_returned oy) (int h) = Some (og_header og)"
    and "slice (oy_data oy) (oy_returned oy + int h) (int b) = Some (og_body og)"
proof -
  obtain pre post0 where d0: "oy_data oy = pre @ pending oy @ post0" "oy_returned oy = int (length pre)"
    by (rule pending_split [OF ok])
  define H where "H = take h (pending oy)"
  define B where "B = take b (drop h (pending oy))"
  define post where "post = drop (h + b) (pending oy) @ post0"
  have split: "pending oy = H @ B @ drop (h + b) (pending oy)"
    using append_take_drop_id [of h "pending oy"] append_take_drop_id [of b "drop h (pending oy)"]
    by (simp add: H_def B_def add.commute)
  have d: "oy_data oy = pre @ (H @ B) @ post" using d0(1) split by (simp add: post_def)
  have lH: "length H = h" "length B = b" using len by (simp_all add: H_def B_def)
  have og': "og = \<lparr>og_header = H, og_body = B\<rparr>" using og by (simp add: H_def B_def)
  have sl: "slice (pre @ (X @ B) @ post) (int (length pre) + int i) (int n) = Some (take n (drop i (X @ B)))"
    if "length X = h" "i + n \<le> h + b" for X i n
    using that lH by (intro slice_mid) simp
  show "slice (oy_data oy) (oy_returned oy) (int h) = Some (og_header og)"
    using sl [of H 0 h] d d0(2) lH og' by simp
  show "slice (oy_data oy) (oy_returned oy + int h) (int b) = Some (og_body og)"
    using sl [of H h b] d d0(2) lH og' by simp
  obtain A C D where H: "H = A @ C @ D" and lA: "length A = 22" "length C = 4"
  proof
    show "H = take 22 H @ take 4 (drop 22 H) @ drop 26 H"
      using append_take_drop_id [of 22 H] append_take_drop_id [of 4 "drop 22 H"] by simp
  qed (use lH h in simp_all)
  have hD: "h = 26 + length D" using H lA lH by simp
  let ?Z = "A @ [0, 0, 0, 0] @ D"
  let ?K = "crc_bytes (foldl crc_step 0 (masked (H @ B)))"
  have c: "slice (oy_data oy) (oy_returned oy + 22) 4 = Some C"
    using sl [of H 22 4] d d0(2) lH hD H lA by simp
  have z: "mem_copy (oy_data oy) (oy_returned oy + 22) [0, 0, 0, 0] 0 4 = Some (pre @ (?Z @ B) @ post)"
    using mem_copy_mid [of "[0, 0, 0, 0]" C 4 "oy_returned oy + 22" "pre @ A" "D @ B @ post"] d H lA d0(2) by simp
  have cs: "ogg_page_checksum_set \<lparr>og_header = ?Z, og_body = B\<rparr> = Some \<lparr>og_header = A @ ?K @ D, og_body = B\<rparr>"
    using checksum_set_eq [of "\<lparr>og_header = ?Z, og_body = B\<rparr>"] lA H by (simp add: masked_def)
  have w: "mem_copy (pre @ (?Z @ B) @ post) (oy_returned oy) (A @ ?K @ D) 0 (int h) = Some (pre @ ((A @ ?K @ D) @ B) @ post)"
    using mem_copy_mid [of "A @ ?K @ D" ?Z "int h" "oy_returned oy" pre "B @ post"] hD lA d0(2) by simp
  have n: "slice (pre @ ((A @ ?K @ D) @ B) @ post) (oy_returned oy + 22) 4 = Some ?K"
    using sl [of "A @ ?K @ D" 22 4] hD lA d0(2) by simp
  have r: "mem_copy (pre @ ((A @ ?K @ D) @ B) @ post) (oy_returned oy + 22) C 0 4 = Some (oy_data oy)"
    using mem_copy_mid [of C ?K 4 "oy_returned oy + 22" "pre @ A" "D @ B @ post"] d H lA d0(2) by simp
  have same: "C = ?K \<Longrightarrow> pre @ ((A @ ?K @ D) @ B) @ post = oy_data oy" using d H by simp
  have "checksum_ok og \<longleftrightarrow> C = ?K" using og' hD lA H by (simp add: checksum_ok_iff)
  moreover have "slice (pre @ (?Z @ B) @ post) (oy_returned oy) (int h) = Some ?Z"
    "slice (pre @ (?Z @ B) @ post) (oy_returned oy + int h) (int b) = Some B"
  proof -
    have e: "take h (Z @ B) = Z" "drop h (Z @ B) = B" if "length Z = h" for Z using that by simp_all
    have lZ: "length ?Z = h" using hD lA by simp
    show "slice (pre @ (?Z @ B) @ post) (oy_returned oy) (int h) = Some ?Z"
      using sl [OF lZ, of 0 h] unfolding d0(2) of_nat_0 add_0_right drop_0 e(1) [OF lZ] by simp
    show "slice (pre @ (?Z @ B) @ post) (oy_returned oy + int h) (int b) = Some B"
      using sl [OF lZ, of h b] lH(2) unfolding d0(2) e(2) [OF lZ] by simp
  qed
  ultimately show "pageseek_verify oy = Some (oy_data oy, checksum_ok og)"
    unfolding pageseek_verify_def Let_def c z hb bb using cs w n r same
    by (simp only: Option.bind.bind_lunit ogg_page.select_convs) auto
qed

subsection \<open>The outcome of a seek\<close>

definition page_bytes :: "ogg_page \<Rightarrow> byte list" where
  "page_bytes og = og_header og @ og_body og"

text \<open>A page whose header announces its own size and whose checksum is right.\<close>

definition page_wf :: "ogg_page \<Rightarrow> bool" where
  "page_wf og \<longleftrightarrow> take 4 (og_header og) = OggS \<and> 27 \<le> length (og_header og) \<and>
     length (og_header og) = header_len (og_header og) \<and>
     length (og_body og) = body_len (og_header og) \<and> checksum_ok og"

definition page_size :: "byte list \<Rightarrow> nat" where
  "page_size xs = header_len xs + body_len xs"

definition head_page :: "byte list \<Rightarrow> ogg_page" where
  "head_page xs = \<lparr>og_header = take (header_len xs) xs, og_body = take (body_len xs) (drop (header_len xs) xs)\<rparr>"

text \<open>The bytes so far do not decide yet.\<close>

definition undecided :: "byte list \<Rightarrow> bool" where
  "undecided xs \<longleftrightarrow> length xs < 27 \<or> take 4 xs = OggS \<and> (length xs < header_len xs \<or> length xs < page_size xs)"

lemma pageseek_cases:
  assumes ok: "sync_ok oy"
  obtains (more) oy' where "ogg_sync_pageseek oy = Some (oy', None, 0)" "sync_ok oy'" "pending oy' = pending oy"
      "oy_unsynced oy' = oy_unsynced oy" "undecided (pending oy)"
  | (skip) oy' n where "ogg_sync_pageseek oy = Some (oy', None, - int n)" "1 \<le> n" "n \<le> length (pending oy)"
      "sync_ok oy'" "pending oy' = drop n (pending oy)" "oy_unsynced oy' = oy_unsynced oy"
      "\<not> undecided (pending oy)" "take 4 (pending oy) = OggS \<longrightarrow> \<not> checksum_ok (head_page (pending oy))"
      "\<forall>i. 1 \<le> i \<and> i < n \<longrightarrow> pending oy ! i \<noteq> 0x4f"
  | (page) oy' where "ogg_sync_pageseek oy = Some (oy', Some (head_page (pending oy)), int (page_size (pending oy)))"
      "sync_ok oy'" "pending oy' = drop (page_size (pending oy)) (pending oy)" "page_size (pending oy) \<le> length (pending oy)"
      "\<not> undecided (pending oy)" "take 4 (pending oy) = OggS" "checksum_ok (head_page (pending oy))"
proof -
  let ?P = "pending oy"
  have chk: "ogg_sync_check oy = 0" using ok by (simp add: sync_ok_def ogg_sync_check_def)
  note hd = pageseek_header_ok [OF ok refl]
  let ?oy = "oy\<lparr>oy_bodybytes := int (body_len ?P), oy_headerbytes := int (header_len ?P)\<rparr>"
  have bytes: "oy_fill oy - oy_returned oy = int (length ?P)" using ok by (simp add: pending_def sync_ok_def)
  have pd: "pending ?oy = ?P" by (simp add: pending_def)
  consider "length ?P < 27 \<or> take 4 ?P = OggS \<and> length ?P < header_len ?P" | "27 \<le> length ?P" "take 4 ?P \<noteq> OggS"
    | "27 \<le> length ?P" "take 4 ?P = OggS" "header_len ?P \<le> length ?P" by linarith
  then show thesis
  proof cases
    case 1
    then show thesis using more [of oy] hd chk ok by (auto simp: ogg_sync_pageseek_def undecided_def)
  next
    case 2
    have P: "?P \<noteq> []" using 2 by auto
    show thesis using pageseek_fail_ok [OF ok P] skip hd chk 2 by (auto simp: ogg_sync_pageseek_def undecided_def)
  next
    case 3
    have ok': "sync_ok ?oy" using ok 3 pd by (simp add: sync_ok_def)
    have hd': "pageseek_header oy = Some (Have_header ?oy)" using hd 3 by simp
    show thesis
    proof (cases "length ?P < page_size ?P")
      case True
      then show thesis using more [of ?oy] hd' chk ok' pd bytes 3 by (auto simp: ogg_sync_pageseek_def undecided_def page_size_def)
    next
      case False
      then have sz: "header_len ?P + body_len ?P \<le> length (pending ?oy)" using pd by (simp add: page_size_def)
      have nu: "\<not> undecided ?P" using 3 False by (simp add: undecided_def)
      have v: "pageseek_verify ?oy = Some (oy_data oy, checksum_ok (head_page ?P))"
        "slice (oy_data oy) (oy_returned oy) (int (header_len ?P)) = Some (og_header (head_page ?P))"
        "slice (oy_data oy) (oy_returned oy + int (header_len ?P)) (int (body_len ?P)) = Some (og_body (head_page ?P))"
        using pageseek_verify_ok [OF ok' _ _ _ sz refl] header_len_ge [of ?P] pd by (simp_all add: head_page_def)
      have same: "?oy\<lparr>oy_data := oy_data oy\<rparr> = ?oy" by (cases oy) simp
      show thesis
      proof (cases "checksum_ok (head_page ?P)")
        case False
        have P: "pending ?oy \<noteq> []" using 3 pd by auto
        obtain oy' n where f: "pageseek_fail ?oy = Some (oy', - int n)" "sync_ok oy'" "1 \<le> n" "n \<le> length ?P"
          "pending oy' = drop n ?P" "\<forall>i. 1 \<le> i \<and> i < n \<longrightarrow> ?P ! i \<noteq> 0x4f" "oy_unsynced oy' = oy_unsynced oy"
          using pageseek_fail_ok [OF ok' P] pd by auto
        have "ogg_sync_pageseek oy = Some (oy', None, - int n)"
          using chk hd' bytes sz pd v(1) f(1) False same by (simp add: ogg_sync_pageseek_def Let_def)
        then show thesis using skip [OF _ f(3,4,2,5,7) nu _ f(6)] False by blast
      next
        case True
        let ?oy2 = "oy\<lparr>oy_unsynced := 0, oy_returned := oy_returned oy + int (page_size ?P), oy_headerbytes := 0, oy_bodybytes := 0\<rparr>"
        have r: "ogg_sync_pageseek oy = Some (?oy2, Some (head_page ?P), int (page_size ?P))"
          using chk hd' bytes sz pd v True same
          by (simp add: ogg_sync_pageseek_def Let_def page_size_def head_page_def)
        have p2: "pending ?oy2 = drop (page_size ?P) ?P"
          using pending_advance [OF ok, of "page_size ?P"] sz pd by (simp add: pending_def page_size_def)
        have "sync_ok ?oy2" using ok sz pd bytes by (auto simp: sync_ok_def page_size_def)
        then show thesis using page [OF r _ p2 _ nu 3(2) True] sz pd by (simp add: page_size_def)
      qed
    qed
  qed
qed

text \<open>Enough fuel is one more than the number of unread bytes.\<close>

lemma pageout_loop_ok:
  assumes "sync_ok oy" "length (pending oy) < fuel"
  shows "\<exists>oy' og r k. pageout_loop fuel oy = Some (oy', og, r) \<and> sync_ok oy' \<and> k \<le> length (pending oy) \<and>
     (r = 1 \<and> og = Some (head_page (drop k (pending oy))) \<and> checksum_ok (head_page (drop k (pending oy))) \<and>
        take 4 (drop k (pending oy)) = OggS \<and>
        pending oy' = drop (k + page_size (drop k (pending oy))) (pending oy) \<or>
      r = 0 \<and> og = None \<and> pending oy' = drop k (pending oy) \<and> undecided (pending oy') \<or>
      r = - 1 \<and> og = None \<and> pending oy' = drop k (pending oy) \<and> 0 < k \<and> oy_unsynced oy = 0 \<and> oy_unsynced oy' = 1)"
  using assms
proof (induction fuel arbitrary: oy)
  case (Suc fuel)
  show ?case
  proof (cases rule: pageseek_cases [OF Suc.prems(1), case_names more skip page])
    case (more oy')
    then show ?thesis by (intro exI [of _ oy'] exI [of _ None] exI [of _ 0] exI [of _ 0]) simp
  next
    case (page oy')
    have "0 < page_size (pending oy)" using header_len_ge [of "pending oy"] by (simp add: page_size_def)
    then show ?thesis using page
      by (intro exI [of _ oy'] exI [of _ "Some (head_page (pending oy))"] exI [of _ 1] exI [of _ 0]) simp
  next
    case (skip oy' n)
    show ?thesis
    proof (cases "oy_unsynced oy = 0")
      case True
      have "pageout_loop (Suc fuel) oy = Some (oy'\<lparr>oy_unsynced := 1\<rparr>, None, - 1)" using skip(1,2,6) True by simp
      moreover have pe: "pending (oy'\<lparr>oy_unsynced := 1\<rparr>) = pending oy'" by (simp add: pending_def)
      moreover have "sync_ok (oy'\<lparr>oy_unsynced := 1\<rparr>)" using skip(4) unfolding sync_ok_def pe by simp
      ultimately show ?thesis using skip(2,3,5) True
        by (intro exI [of _ "oy'\<lparr>oy_unsynced := 1\<rparr>"] exI [of _ None] exI [of _ "- 1"] exI [of _ n]) simp
    next
      case False
      then have l: "pageout_loop (Suc fuel) oy = pageout_loop fuel oy'" using skip(1,2,6) by simp
      have "length (pending oy') < fuel" using skip(2,3,5) Suc.prems(2) by simp
      from Suc.IH [OF skip(4) this] obtain oy2 og r k where ih:
        "pageout_loop fuel oy' = Some (oy2, og, r)" "sync_ok oy2" "k \<le> length (pending oy')"
        "r = 1 \<and> og = Some (head_page (drop k (pending oy'))) \<and> checksum_ok (head_page (drop k (pending oy'))) \<and>
           take 4 (drop k (pending oy')) = OggS \<and> pending oy2 = drop (k + page_size (drop k (pending oy'))) (pending oy') \<or>
         r = 0 \<and> og = None \<and> pending oy2 = drop k (pending oy') \<and> undecided (pending oy2) \<or>
         r = - 1 \<and> og = None \<and> pending oy2 = drop k (pending oy') \<and> 0 < k \<and> oy_unsynced oy' = 0 \<and> oy_unsynced oy2 = 1"
        by blast
      show ?thesis
        by (rule exI [of _ oy2], rule exI [of _ og], rule exI [of _ r], rule exI [of _ "n + k"])
          (use l ih skip(2,3,5,6) False in \<open>auto simp: ac_simps\<close>)
    qed
  qed
qed simp

lemma pageout_ok:
  assumes "sync_ok oy"
  shows "ogg_sync_pageout oy = pageout_loop (Suc (length (pending oy))) oy"
  using assms by (simp add: ogg_sync_pageout_def ogg_sync_check_def sync_ok_def pending_def)

lemma pageout_total:
  assumes "sync_ok oy"
  shows "\<exists>oy' og r k. ogg_sync_pageout oy = Some (oy', og, r) \<and> sync_ok oy' \<and> k \<le> length (pending oy) \<and>
     (r = 1 \<and> og = Some (head_page (drop k (pending oy))) \<and> checksum_ok (head_page (drop k (pending oy))) \<and>
        take 4 (drop k (pending oy)) = OggS \<and>
        pending oy' = drop (k + page_size (drop k (pending oy))) (pending oy) \<or>
      r = 0 \<and> og = None \<and> pending oy' = drop k (pending oy) \<and> undecided (pending oy') \<or>
      r = - 1 \<and> og = None \<and> pending oy' = drop k (pending oy) \<and> 0 < k \<and> oy_unsynced oy = 0 \<and> oy_unsynced oy' = 1)"
  unfolding pageout_ok [OF assms] by (rule pageout_loop_ok [OF assms]) simp

text \<open>A prefix of a well-formed page is undecided; from the whole page on, the page is at the head.\<close>

lemma page_prefix:
  assumes wf: "page_wf og" and PF: "P @ F = page_bytes og @ R"
  shows "if length P < length (page_bytes og) then undecided P
    else \<not> undecided P \<and> take 4 P = OggS \<and> head_page P = og \<and> page_size P = length (page_bytes og)"
proof -
  let ?H = "og_header og"
  have wf': "take 4 ?H = OggS" "27 \<le> length ?H" "length ?H = header_len ?H" "length (og_body og) = body_len ?H"
    using wf by (auto simp: page_wf_def)
  have nth: "P ! i = ?H ! i" if "i < length P" "i < length ?H" for i
    using arg_cong [OF PF, of "\<lambda>xs. xs ! i"] that by (simp add: nth_append page_bytes_def)
  have tk: "take n P = take n ?H" if "n \<le> length P" "n \<le> length ?H" for n
    using that nth by (intro nth_equalityI) auto
  have magic: "take 4 P = OggS" if "27 \<le> length P" using tk [of 4] wf' that by simp
  have hl: "header_len P = length ?H" if "27 \<le> length P"
    using nth [of 26] wf' that by (simp add: header_len_def)
  have bl: "body_len P = length (og_body og)" if "length ?H \<le> length P"
  proof -
    have n: "27 + unat (?H ! 26) = length ?H" using wf'(3) by (simp add: header_len_def)
    have "take (unat (?H ! 26)) (drop 27 P) = take (unat (?H ! 26)) (drop 27 ?H)"
      using tk [of "length ?H"] that n by (metis drop_take le_refl add_diff_cancel_left')
    then show ?thesis using wf'(2,4) nth [of 26] that by (simp add: body_len_def)
  qed
  show ?thesis
  proof (cases "length P < length (page_bytes og)")
    case True
    then show ?thesis using magic hl bl by (auto simp: undecided_def page_size_def page_bytes_def)
  next
    case False
    then have l: "length (page_bytes og) \<le> length P" by simp
    then have "take (length (page_bytes og)) P = page_bytes og"
      using arg_cong [OF PF, of "take (length (page_bytes og))"] by simp
    moreover have "27 \<le> length P" "length ?H \<le> length P" using l wf'(2) by (auto simp: page_bytes_def)
    ultimately show ?thesis using False magic hl bl
      by (auto simp: undecided_def page_size_def head_page_def page_bytes_def take_add append_eq_conv_conj)
  qed
qed

lemma pageout_head:
  assumes ok: "sync_ok oy" and wf: "page_wf og" and PF: "pending oy @ F = page_bytes og @ R"
  obtains (wait) oy' where "ogg_sync_pageout oy = Some (oy', None, 0)" "sync_ok oy'" "pending oy' = pending oy"
      "length (pending oy) < length (page_bytes og)"
  | (page) oy' where "ogg_sync_pageout oy = Some (oy', Some og, 1)" "sync_ok oy'" "pending oy = page_bytes og @ pending oy'"
proof -
  note pp = page_prefix [OF wf PF]
  show thesis
  proof (cases rule: pageseek_cases [OF ok, case_names more skip page])
    case (more oy')
    then have "length (pending oy) < length (page_bytes og)" using pp by (auto split: if_splits)
    then show thesis using wait more(1-3) pageout_ok [OF ok] by simp
  next
    case (skip oy' n)
    then have "take 4 (pending oy) = OggS" "head_page (pending oy) = og" using pp by (auto split: if_splits)
    then show thesis using skip(8) wf by (simp add: page_wf_def)
  next
    case (page oy')
    then have pg: "head_page (pending oy) = og" "page_size (pending oy) = length (page_bytes og)" using pp by (auto split: if_splits)
    have "0 < page_size (pending oy)" using header_len_ge [of "pending oy"] by (simp add: page_size_def)
    then have r: "ogg_sync_pageout oy = Some (oy', Some og, 1)" using page(1) pageout_ok [OF ok] pg by simp
    have "page_bytes og = take (page_size (pending oy)) (pending oy)"
      using arg_cong [OF PF, of "take (page_size (pending oy))"] pg(2) page(4) by simp
    then have "pending oy = page_bytes og @ pending oy'" using page(3) by simp
    then show thesis using that(2) [OF r page(2)] by blast
  qed
qed

subsection \<open>Feeding bytes and taking pages\<close>

text \<open>How an application feeds bytes: ask for room, copy, report.\<close>

definition sync_feed :: "mem_env \<Rightarrow> ogg_sync_state \<Rightarrow> byte list \<Rightarrow> ogg_sync_state option" where
  "sync_feed E oy xs = do {
     (oy, p) \<leftarrow> ogg_sync_buffer E oy (int (length xs));
     p \<leftarrow> p;
     d \<leftarrow> mem_copy (oy_data oy) p xs 0 (int (length xs));
     let (oy, r) = ogg_sync_wrote (oy\<lparr>oy_data := d\<rparr>) (int (length xs));
     if r \<noteq> 0 then None else Some oy }"

lemma header_prefix:
  assumes "27 \<le> length xs"
  shows "header_len (xs @ ys) = header_len xs" and "take 4 (xs @ ys) = take 4 xs"
    and "header_len xs \<le> length xs \<Longrightarrow> body_len (xs @ ys) = body_len xs"
  using assms by (simp_all add: header_len_def body_len_def nth_append)

lemma sync_ok_extend:
  assumes "sync_ok oy" "pending oy' = pending oy @ xs" "oy_headerbytes oy' = oy_headerbytes oy" "oy_bodybytes oy' = oy_bodybytes oy"
    and "oy_storage oy' = int (length (oy_data oy'))" "oy_storage oy' < 2 ^ 31"
    and "0 \<le> oy_returned oy'" "oy_returned oy' \<le> oy_fill oy'" "oy_fill oy' \<le> oy_storage oy'"
  shows "sync_ok oy'"
  using assms header_prefix [of "pending oy" xs] by (auto simp: sync_ok_def)

lemma sync_compact_ok:
  assumes ok: "sync_ok oy"
  obtains d where "sync_compact oy = Some (oy\<lparr>oy_fill := int (length (pending oy)), oy_data := d, oy_returned := 0\<rparr>)"
    "length d = length (oy_data oy)" "window d 0 (int (length (pending oy))) = pending oy"
proof -
  have m: "0 \<le> oy_returned oy" "oy_returned oy \<le> oy_fill oy" "oy_fill oy \<le> int (length (oy_data oy))"
    using ok by (auto simp: sync_ok_def)
  have bytes: "oy_fill oy - oy_returned oy = int (length (pending oy))" using m by (simp add: pending_def)
  obtain ys where ys: "mem_copy (oy_data oy) 0 (oy_data oy) (oy_returned oy) (oy_fill oy - oy_returned oy) = Some ys"
    "length ys = length (oy_data oy)" "window ys 0 (oy_fill oy - oy_returned oy) = pending oy"
    using mem_copy_front [OF m] by (auto simp: pending_def)
  consider "oy_returned oy = 0" | "oy_returned oy \<noteq> 0" "pending oy = []" | "oy_returned oy \<noteq> 0" "pending oy \<noteq> []" by blast
  then show thesis
  proof cases
    case 1
    have "oy\<lparr>oy_fill := int (length (pending oy)), oy_data := oy_data oy, oy_returned := 0\<rparr> = oy"
      using bytes 1 by (cases oy) simp
    then show thesis using that [of "oy_data oy"] 1 bytes by (simp add: sync_compact_def pending_def)
  next
    case 2
    then show thesis using that [of "oy_data oy"] bytes by (simp add: sync_compact_def)
  next
    case 3
    then show thesis using that [of ys] ys bytes by (simp add: sync_compact_def)
  qed
qed

lemma sync_feed_ok:
  assumes ok: "sync_ok oy" and gr: "\<forall>n. grant E n" and sz: "length (pending oy) + length xs + 4096 < 2 ^ 31"
  obtains oy' where "sync_feed E oy xs = Some oy'" "sync_ok oy'" "pending oy' = pending oy @ xs"
    "oy_unsynced oy' = oy_unsynced oy"
proof -
  let ?n = "int (length (pending oy))" and ?k = "int (length xs)"
  have st: "oy_storage oy = int (length (oy_data oy))" "oy_storage oy < 2 ^ 31" "0 \<le> oy_storage oy" using ok by (auto simp: sync_ok_def)
  have chk: "ogg_sync_check oy = 0" using st by (simp add: ogg_sync_check_def)
  obtain d where c: "sync_compact oy = Some (oy\<lparr>oy_fill := ?n, oy_data := d, oy_returned := 0\<rparr>)"
    "length d = length (oy_data oy)" "window d 0 ?n = pending oy" by (rule sync_compact_ok [OF ok])
  have nl: "?n \<le> int (length d)" using ok c(2) by (auto simp: sync_ok_def pending_def)
  obtain d2 s2 where b: "ogg_sync_buffer E oy ?k = Some (oy\<lparr>oy_fill := ?n, oy_data := d2, oy_returned := 0, oy_storage := s2\<rparr>, Some ?n)"
    "s2 = int (length d2)" "s2 < 2 ^ 31" "?n + ?k \<le> s2" "window d2 0 ?n = pending oy"
  proof (cases "?k > oy_storage oy - ?n")
    case False
    have "oy\<lparr>oy_fill := ?n, oy_data := d, oy_returned := 0, oy_storage := oy_storage oy\<rparr> =
        oy\<lparr>oy_fill := ?n, oy_data := d, oy_returned := 0\<rparr>" by simp
    then show thesis using that [of "oy_storage oy" d] False chk c st by (simp add: ogg_sync_buffer_def)
  next
    case True
    let ?new = "?k + ?n + 4096"
    obtain d3 where d3: "realloc_bytes E d ?new = Some d3" using gr by (simp add: realloc_bytes_def)
    have old: "int (length d) \<le> ?new" using True st c(2) by simp
    note g = realloc_bytes_grow [OF d3 old]
    have ci: "c_int ?new = ?new" using sz by (intro c_int_small) simp_all
    have w: "window d3 0 ?n = pending oy"
      using c(3) g nl window_eqI [of 0 ?n d3 d] by auto
    show thesis
      by (rule that [of ?new d3])
        (use True chk c(1) d3 g(1) ci w sz in \<open>simp_all add: ogg_sync_buffer_def Let_def\<close>)
  qed
  have m: "0 \<le> (0 :: int)" "0 \<le> ?n" "?n + ?k \<le> int (length d2)" using b by simp_all
  obtain ys where ys: "mem_copy d2 ?n xs 0 ?k = Some ys" "length ys = length d2" "window ys 0 (?n + ?k) = pending oy @ xs"
    using mem_copy_append [OF m] b(5) by metis
  let ?oy = "oy\<lparr>oy_fill := ?n + ?k, oy_data := ys, oy_returned := 0, oy_storage := s2\<rparr>"
  have ci: "c_int (?n + ?k) = ?n + ?k" using sz by (intro c_int_small) simp_all
  have r: "sync_feed E oy xs = Some ?oy"
    using b ys(1) ci by (simp add: sync_feed_def ogg_sync_wrote_def ogg_sync_check_def)
  have p: "pending ?oy = pending oy @ xs" using ys(3) by (simp add: pending_def)
  have "sync_ok ?oy" by (rule sync_ok_extend [OF ok p]) (use b ys(2) in simp_all)
  then show thesis using that [OF r _ p] by simp
qed

text \<open>A session feeds chunks and asks for pages in any order; it fails on a refused chunk or a hole.\<close>

datatype sync_act = Feed mem_env "byte list" | TakePage

fun sync_run :: "ogg_sync_state \<Rightarrow> sync_act list \<Rightarrow> (ogg_sync_state \<times> ogg_page list) option" where
  "sync_run oy [] = Some (oy, [])"
| "sync_run oy (Feed E xs # as) = do { oy \<leftarrow> sync_feed E oy xs; sync_run oy as }"
| "sync_run oy (TakePage # as) = do {
     (oy, og, r) \<leftarrow> ogg_sync_pageout oy;
     if r < 0 then None else do {
       (oy, ogs) \<leftarrow> sync_run oy as; Some (oy, case og of None \<Rightarrow> ogs | Some og \<Rightarrow> og # ogs) } }"

fun fed :: "sync_act list \<Rightarrow> byte list" where
  "fed [] = []"
| "fed (Feed E xs # as) = xs @ fed as"
| "fed (TakePage # as) = fed as"

fun feed_granted :: "sync_act \<Rightarrow> bool" where
  "feed_granted (Feed E xs) \<longleftrightarrow> (\<forall>n. grant E n)"
| "feed_granted TakePage \<longleftrightarrow> True"

abbreviation stream_bytes :: "ogg_page list \<Rightarrow> byte list" where
  "stream_bytes ogs \<equiv> concat (map page_bytes ogs)"

lemma page_bytes_nonempty: "page_wf og \<Longrightarrow> 0 < length (page_bytes og)"
  by (auto simp: page_wf_def page_bytes_def)

lemma pageout_empty:
  assumes "sync_ok oy" "pending oy = []"
  obtains oy' where "ogg_sync_pageout oy = Some (oy', None, 0)" "sync_ok oy'" "pending oy' = []"
proof (cases rule: pageseek_cases [OF assms(1), case_names more skip page])
  case (more oy')
  then show thesis using that [of oy'] assms pageout_ok [OF assms(1)] by simp
qed (use assms(2) in \<open>simp_all add: undecided_def\<close>)

lemma sync_run_ok:
  assumes "sync_ok oy" "list_all feed_granted as" "list_all page_wf ogs"
    and "pending oy @ fed as @ F = stream_bytes ogs" "length (pending oy) + length (fed as) + 4096 < 2 ^ 31"
  shows "\<exists>oy' outs rest. sync_run oy as = Some (oy', outs) \<and> sync_ok oy' \<and> ogs = outs @ rest \<and>
     pending oy' @ F = stream_bytes rest \<and> length (pending oy') \<le> length (pending oy) + length (fed as)"
  using assms
proof (induction as arbitrary: oy ogs)
  case (Cons a as)
  show ?case
  proof (cases a)
    case (Feed E xs)
    obtain oy1 where f: "sync_feed E oy xs = Some oy1" "sync_ok oy1" "pending oy1 = pending oy @ xs"
      by (rule sync_feed_ok [OF Cons.prems(1), of E xs]) (use Cons.prems(2,5) Feed in auto)
    then show ?thesis using Cons.IH [OF f(2) _ Cons.prems(3)] Cons.prems(2,4,5) Feed by auto
  next
    case TakePage
    have rest: "\<exists>oy' outs rest. sync_run oy1 as = Some (oy', outs) \<and> sync_ok oy' \<and> ogs = outs @ rest \<and>
        pending oy' @ F = stream_bytes rest \<and> length (pending oy') \<le> length (pending oy1) + length (fed as)"
      if "sync_ok oy1" "pending oy1 = pending oy" for oy1
      by (rule Cons.IH [OF that(1) _ Cons.prems(3)]) (use that Cons.prems(2,4,5) TakePage in auto)
    show ?thesis
    proof (cases ogs)
      case Nil
      then have "pending oy = []" using Cons.prems(4) by simp
      then obtain oy1 where "ogg_sync_pageout oy = Some (oy1, None, 0)" "sync_ok oy1" "pending oy1 = pending oy"
        using pageout_empty [OF Cons.prems(1)] by metis
      then show ?thesis using rest [of oy1] TakePage by auto
    next
      case (Cons og ogs')
      have wf: "page_wf og" "list_all page_wf ogs'" using Cons.prems(3) Cons by auto
      have PF: "pending oy @ (fed as @ F) = page_bytes og @ stream_bytes ogs'" using Cons.prems(4) Cons TakePage by simp
      show ?thesis
      proof (cases rule: pageout_head [OF Cons.prems(1) wf(1) PF, case_names wait page])
        case (wait oy1)
        then show ?thesis using rest [of oy1] TakePage by auto
      next
        case (page oy1)
        have "pending oy1 @ fed as @ F = stream_bytes ogs'" using PF page(3) by simp
        from Cons.IH [OF page(2) _ wf(2) this] obtain oy' outs rest where
          "sync_run oy1 as = Some (oy', outs)" "sync_ok oy'" "ogs' = outs @ rest" "pending oy' @ F = stream_bytes rest"
          "length (pending oy') \<le> length (pending oy1) + length (fed as)"
          using Cons.prems(2,5) page(3) TakePage by auto
        then show ?thesis using page(1,3) Cons TakePage by auto
      qed
    qed
  qed
qed simp

lemma sync_drain:
  assumes "sync_ok oy" "list_all page_wf ogs" "pending oy = stream_bytes ogs"
  shows "\<exists>oy'. sync_run oy (replicate (length ogs + k) TakePage) = Some (oy', ogs)"
  using assms
proof (induction ogs arbitrary: oy)
  case Nil
  have "\<exists>oy'. sync_run oy (replicate k TakePage) = Some (oy', [])" if "sync_ok oy" "pending oy = []" for oy
    using that
  proof (induction k arbitrary: oy)
    case (Suc k)
    obtain oy1 where "ogg_sync_pageout oy = Some (oy1, None, 0)" "sync_ok oy1" "pending oy1 = []"
      by (rule pageout_empty [OF Suc.prems])
    then show ?case using Suc.IH [of oy1] by auto
  qed simp
  then show ?case using Nil by simp
next
  case (Cons og ogs)
  have wf: "page_wf og" "list_all page_wf ogs" using Cons.prems(2) by auto
  have PF: "pending oy @ [] = page_bytes og @ stream_bytes ogs" using Cons.prems(3) by simp
  show ?case
  proof (cases rule: pageout_head [OF Cons.prems(1) wf(1) PF, case_names wait page])
    case (wait oy1)
    then show ?thesis using Cons.prems(3) by simp
  next
    case (page oy1)
    then have "pending oy1 = stream_bytes ogs" using Cons.prems(3) by simp
    then show ?thesis using Cons.IH [OF page(2) wf(2)] page(1) by auto
  qed
qed

lemma sync_run_append:
  "sync_run oy (as @ bs) = do { (oy, xs) \<leftarrow> sync_run oy as; (oy, ys) \<leftarrow> sync_run oy bs; Some (oy, xs @ ys) }"
proof (induction oy as rule: sync_run.induct)
  case (3 oy as)
  then show ?case by (auto split: Option.bind_splits option.splits prod.splits)
qed (auto split: Option.bind_splits)

lemma sync_init_ok: "sync_ok ogg_sync_init" "pending ogg_sync_init = []"
  by (simp_all add: sync_ok_def ogg_sync_init_def ogg_sync_zero_def pending_def)

lemma sync_roundtrip_lemma:
  assumes "list_all page_wf ogs" "list_all feed_granted as" "fed as = stream_bytes ogs"
    and "length (stream_bytes ogs) + 4096 < 2 ^ 31"
  shows "\<exists>oy. sync_run ogg_sync_init (as @ replicate (length ogs) TakePage) = Some (oy, ogs)"
proof -
  obtain oy1 outs rest where r: "sync_run ogg_sync_init as = Some (oy1, outs)" "sync_ok oy1" "ogs = outs @ rest"
    "pending oy1 = stream_bytes rest"
    using sync_run_ok [OF sync_init_ok(1) assms(2,1), of "[]"] sync_init_ok(2) assms(3,4) by auto
  obtain oy where "sync_run oy1 (replicate (length rest + length outs) TakePage) = Some (oy, rest)"
    using sync_drain [OF r(2) _ r(4)] assms(1) r(3) by auto
  then show ?thesis using r(1,3) by (auto simp: sync_run_append add.commute)
qed

subsection \<open>The pages of an encoder\<close>

lemma sum_segs: "int (sum_list (map (\<lambda>x. unat (word_of_int (seg x) :: byte)) c)) = sum_list (map seg c)"
proof (induction c)
  case (Cons x c)
  have "int (unat (word_of_int (seg x) :: byte)) = seg x" by (simp only: of_nat_unat uint_seg)
  then show ?case using Cons by (simp only: list.map sum_list.Cons of_nat_add)
qed simp

lemma page_wf_encoded:
  assumes h: "og_header og = page_header f g s p crc (map (\<lambda>x. word_of_int (seg x)) c)" and crc: "length crc = 4"
    and c: "length c \<le> 255" and ok: "ogg_page_checksum_set og = Some og"
    and b: "int (length (og_body og)) = sum_list (map seg c)"
  shows "page_wf og"
proof -
  let ?segs = "map (\<lambda>x. word_of_int (seg x) :: byte) c"
  have n: "og_header og ! 26 = word_of_nat (length c)" using page_header_nth(6) [OF crc] h by simp
  then have u: "unat (og_header og ! 26) = length c" using c by (simp add: unat_of_nat take_bit_nat_eq_self)
  have d: "drop 27 (og_header og) = ?segs" using h crc by (simp add: page_header_def)
  have t: "take 4 (og_header og) = OggS" using h by (simp add: page_header_def OggS_def)
  have "int (body_len (og_header og)) = sum_list (map seg c)"
    unfolding body_len_def u d sum_segs [symmetric] by (simp add: comp_def)
  then have "length (og_body og) = body_len (og_header og)" using b by simp
  moreover have "length (og_header og) = header_len (og_header og)" unfolding header_len_def u using h crc by simp
  ultimately show ?thesis using t h crc ok by (simp add: page_wf_def checksum_ok_def)
qed

lemma paged_wf: "paged s p ogs cs \<Longrightarrow> list_all page_wf ogs"
  by (induction s p ogs cs rule: paged.induct) (auto intro: page_wf_encoded)

lemma enc_run_wf:
  assumes E: "\<forall>n. grant E n" and as: "list_all act_granted as" "length as < 2 ^ 31" "length (concat (submitted as)) \<le> 2 ^ 62"
    and r: "enc_run (fst (ogg_stream_init E s)) as = Some (os, ogs)"
  shows "list_all page_wf ogs" and "length ogs \<le> length as"
proof -
  obtain e0 where e0: "ogg_stream_init E s = (e0, 0)" "pageno e0 = 0" "serialno e0 = s" "body_storage e0 = 16384"
    "lacing_storage e0 = 1024" "enc_ok e0"
    by (rule init_ok [OF E, of s]) blast
  obtain cs where p: "paged s 0 ogs cs" and l: "length ogs \<le> length as"
    using enc_run_ok [OF e0(6) _ as(1)] e0 as(2,3) r by (auto simp: LONG_MAX_def)
  show "list_all page_wf ogs" by (rule paged_wf [OF p])
  show "length ogs \<le> length as" by (rule l)
qed

lemma sum_bytes_le: "sum_list (map unat (xs :: byte list)) \<le> 255 * length xs"
proof (induction xs)
  case (Cons x xs)
  have "unat x < 2 ^ 8" using unsigned_less [of x] by simp
  then show ?case using Cons by simp
qed simp

lemma page_bytes_le:
  assumes "page_wf og"
  shows "length (page_bytes og) \<le> 65307"
proof -
  have "unat (og_header og ! 26) < 2 ^ 8" using unsigned_less [of "og_header og ! 26"] by simp
  moreover have "body_len (og_header og) \<le> 255 * length (take (unat (og_header og ! 26)) (drop 27 (og_header og)))"
    unfolding body_len_def by (rule sum_bytes_le)
  ultimately show ?thesis using assms by (simp add: page_wf_def page_bytes_def header_len_def)
qed

lemma stream_bytes_le: "list_all page_wf ogs \<Longrightarrow> length (stream_bytes ogs) \<le> 65307 * length ogs"
  by (induction ogs) (auto dest: page_bytes_le)

lemma pages_in_map [simp]: "pages_in (map (PageIn E) ogs) = ogs"
  by (induction ogs) simp_all

lemma dec_granted_map: "\<forall>n. grant E n \<Longrightarrow> list_all dec_granted (map (PageIn E) ogs)"
  by (induction ogs) simp_all

subsection \<open>A damaged page is not returned\<close>

text \<open>The damaged page is at the head, still announces its sizes, and was valid before.\<close>

lemma damaged_skipped:
  assumes ok: "sync_ok oy" and wf: "page_wf og" and P: "pending oy = page_bytes og' @ R"
    and l: "length (og_header og') = length (og_header og)" "take 4 (og_header og') = OggS"
    and sz: "header_len (og_header og') = header_len (og_header og)" "length (og_body og') = body_len (og_header og')"
    and bad: "\<not> checksum_ok og'"
  obtains oy' n where "ogg_sync_pageseek oy = Some (oy', None, - int n)" "1 \<le> n" "sync_ok oy'"
    "pending oy' = drop n (pending oy)"
proof -
  have wf': "27 \<le> length (og_header og')" "length (og_header og') = header_len (og_header og')"
    using wf l sz by (auto simp: page_wf_def)
  have hl: "header_len (pending oy) = length (og_header og')" and t: "take 4 (pending oy) = OggS"
    using wf' l(2) by (simp_all add: P page_bytes_def header_len_def nth_append)
  have bl: "body_len (pending oy) = length (og_body og')"
  proof -
    have "unat (og_header og' ! 26) + 27 = length (og_header og')" using wf'(2) by (simp add: header_len_def)
    then show ?thesis using wf'(1) sz(2) by (simp add: P page_bytes_def body_len_def nth_append)
  qed
  have hp: "head_page (pending oy) = og'" unfolding head_page_def hl bl by (simp add: P page_bytes_def)
  have nu: "\<not> undecided (pending oy)" using wf'(1) by (simp add: undecided_def hl bl page_size_def) (simp add: P page_bytes_def)
  show thesis
    by (cases rule: pageseek_cases [OF ok, case_names more skip page]) (use that hp nu t bad in auto)
qed

subsection \<open>Properties\<close>

text \<open>C35.  The transport is lossless from end to end.  The pages of an encoder session, written one after
  the other as bytes and read back in chunks of any sizes, interleaved with page requests in any way, come
  out of the synchroniser unchanged; a decoder that is handed them returns the packets that were submitted.\<close>

theorem ogg_file_roundtrip:
  assumes "c_int s = s" and "\<forall>n. grant E n" and "\<forall>n. grant E' n"
    and "list_all act_granted as" and "length (concat (submitted as)) \<le> 2 ^ 62"
    and "length (laced_first (submitted as)) \<le> n" and "length as + n < 2 ^ 31"
  shows "\<exists>os ogs. enc_run (fst (ogg_stream_init E s)) (as @ replicate n (FlushPage k)) = Some (os, ogs) \<and>
     length (stream_bytes ogs) \<le> 65307 * (length as + n) \<and>
     (\<forall>fs. list_all feed_granted fs \<and> fed fs = stream_bytes ogs \<and> length (fed fs) + 4096 < 2 ^ 31 \<longrightarrow>
        (\<exists>oy. sync_run ogg_sync_init (fs @ replicate (length ogs) TakePage) = Some (oy, ogs))) \<and>
     (\<exists>os' ops. dec_run (fst (ogg_stream_init E' s))
          (map (PageIn E') ogs @ replicate (length (submitted as)) PacketOut) = Some (os', ops) \<and>
        map op_packet ops = submitted as)"
proof -
  obtain os ogs where r: "enc_run (fst (ogg_stream_init E s)) (as @ replicate n (FlushPage k)) = Some (os, ogs)"
    and d: "\<And>ds. list_all dec_granted ds \<and> pages_in ds = ogs \<Longrightarrow>
        \<exists>os' ops. dec_run (fst (ogg_stream_init E' s)) (ds @ replicate (length (submitted as)) PacketOut)
             = Some (os', ops) \<and> map op_packet ops = submitted as"
    using stream_roundtrip_flushed [OF assms, of k] by blast
  have "list_all act_granted (replicate n (FlushPage k))" by (induction n) simp_all
  then have wf: "list_all page_wf ogs" "length ogs \<le> length as + n"
    using enc_run_wf [OF assms(2) _ _ _ r] assms(4,5,7) by simp_all
  have "length (stream_bytes ogs) \<le> 65307 * length ogs" by (rule stream_bytes_le [OF wf(1)])
  also have "\<dots> \<le> 65307 * (length as + n)" by (rule mult_le_mono2 [OF wf(2)])
  finally show ?thesis
    using r sync_roundtrip_lemma [OF wf(1)] d [of "map (PageIn E') ogs"] dec_granted_map [OF assms(3), of ogs] by force
qed

theorem ogg_file_roundtrip_witness:
  "\<exists>os ogs. enc_run (fst (ogg_stream_init ample 9)) ([Submit ample (plain_packet [1, 2, 3])] @ replicate 1 (FlushPage 4096)) = Some (os, ogs) \<and>
     (\<exists>oy. sync_run ogg_sync_init
         ([Feed ample (take 5 (stream_bytes ogs)), TakePage, Feed ample (drop 5 (stream_bytes ogs))] @
          replicate (length ogs) TakePage) = Some (oy, ogs)) \<and>
     (\<exists>os' ops. dec_run (fst (ogg_stream_init ample 9)) (map (PageIn ample) ogs @ replicate 1 PacketOut) = Some (os', ops) \<and>
        map op_packet ops = [[1, 2, 3]])"
proof -
  let ?as = "[Submit ample (plain_packet [1, 2, 3])]"
  have h: "c_int 9 = 9" "\<forall>n. grant ample n" "list_all act_granted ?as" "length (concat (submitted ?as)) \<le> 2 ^ 62"
    "length (laced_first (submitted ?as)) \<le> 1" "length ?as + 1 < 2 ^ 31"
    by (simp_all add: c_int_small lace_first_def lace_def)
  have n: "length (submitted ?as) = 1" "submitted ?as = [[1, 2, 3]]" by simp_all
  from ogg_file_roundtrip [OF h(1,2,2,3-6), of 4096] obtain os ogs where
    r: "enc_run (fst (ogg_stream_init ample 9)) (?as @ replicate 1 (FlushPage 4096)) = Some (os, ogs)"
    and l: "length (stream_bytes ogs) \<le> 65307 * (length ?as + 1)"
    and f: "\<forall>fs. list_all feed_granted fs \<and> fed fs = stream_bytes ogs \<and> length (fed fs) + 4096 < 2 ^ 31 \<longrightarrow>
        (\<exists>oy. sync_run ogg_sync_init (fs @ replicate (length ogs) TakePage) = Some (oy, ogs))"
    and d: "\<exists>os' ops. dec_run (fst (ogg_stream_init ample 9)) (map (PageIn ample) ogs @ replicate 1 PacketOut) = Some (os', ops) \<and>
        map op_packet ops = [[1, 2, 3]]"
    unfolding n(1) unfolding n(2) by metis
  have f': "\<exists>oy. sync_run ogg_sync_init
      ([Feed ample (take 5 (stream_bytes ogs)), TakePage, Feed ample (drop 5 (stream_bytes ogs))] @
        replicate (length ogs) TakePage) = Some (oy, ogs)"
    by (rule f [rule_format]) (use l in simp)
  show ?thesis by (rule exI [of _ os], rule exI [of _ ogs], intro conjI) (rule r, rule f', rule d)
qed

text \<open>C36.  Whatever bytes were fed, \<open>ogg_sync_pageout\<close> stays inside its buffer and ends within one step per
  buffered byte, and it only drops bytes from the front.  A returned page starts with the capture pattern
  and carries a valid checksum; \<open>0\<close> means the remaining bytes are the beginning of a possible page; \<open>-1\<close> is
  returned once per loss of synchronisation, with at least one byte skipped.\<close>

theorem ogg_sync_pageout_outcome:
  assumes "sync_ok oy"
  shows "\<exists>oy' og r k. ogg_sync_pageout oy = Some (oy', og, r) \<and> sync_ok oy' \<and> k \<le> length (pending oy) \<and>
     (r = 1 \<and> og = Some (head_page (drop k (pending oy))) \<and>
        ogg_page_checksum_set (head_page (drop k (pending oy))) = Some (head_page (drop k (pending oy))) \<and>
        take 4 (drop k (pending oy)) = OggS \<and>
        pending oy' = drop (k + page_size (drop k (pending oy))) (pending oy) \<or>
      r = 0 \<and> og = None \<and> pending oy' = drop k (pending oy) \<and> undecided (pending oy') \<or>
      r = - 1 \<and> og = None \<and> pending oy' = drop k (pending oy) \<and> 0 < k \<and> oy_unsynced oy = 0 \<and> oy_unsynced oy' = 1)"
  using pageout_total [OF assms] unfolding checksum_ok_def .

theorem ogg_sync_pageout_outcome_witness:
  "\<exists>oy oy' og r. sync_feed ample ogg_sync_init (replicate 30 7) = Some oy \<and>
     ogg_sync_pageout oy = Some (oy', og, r) \<and> length (pending oy') \<le> 30"
proof -
  have gr: "\<forall>n. grant ample n" by simp
  have sz: "length (pending ogg_sync_init) + length (replicate 30 (7 :: byte)) + 4096 < 2 ^ 31" by (simp add: sync_init_ok(2))
  obtain oy where oy: "sync_feed ample ogg_sync_init (replicate 30 7) = Some oy" "sync_ok oy"
    "pending oy = pending ogg_sync_init @ replicate 30 7"
    by (rule sync_feed_ok [OF sync_init_ok(1) gr sz])
  then have "length (pending oy) = 30" by (simp add: sync_init_ok(2))
  then show ?thesis using ogg_sync_pageout_outcome [OF oy(2)] oy(1) by fastforce
qed

text \<open> A page damaged in transit (up to four consecutive bytes, not the capture pattern, the segment
  count, or the checksum field, and with the announced body size unchanged) is not returned: the next seek
  reports bytes to skip.\<close>

lemma ogg_sync_damaged_skipped:
  assumes "sync_ok oy" and "page_wf og" and "pending oy = page_bytes og' @ R"
    and "length (og_header og') = length (og_header og)" and "take 4 (og_header og') = OggS"
    and "og_header og' ! 26 = og_header og ! 26" and "length (og_body og') = body_len (og_header og')"
    and "page_bytes og = pre @ xs @ post" and "page_bytes og' = pre @ ys @ post"
    and "length xs = length ys" and "length xs \<le> 4" and "xs \<noteq> ys"
    and "length pre + length xs \<le> 22 \<or> 26 \<le> length pre"
  shows "\<exists>oy' n. ogg_sync_pageseek oy = Some (oy', None, - int n) \<and> 1 \<le> n \<and> sync_ok oy' \<and>
     pending oy' = drop n (page_bytes og' @ R)"
proof -
  have "checksum_ok og" using assms(2) by (simp add: page_wf_def)
  then have bad: "\<not> checksum_ok og'"
    using checksum_burst [of og og' pre xs post ys] assms(4,8-13) by (simp add: page_bytes_def)
  have hl: "header_len (og_header og') = header_len (og_header og)" using assms(6) by (simp add: header_len_def)
  show ?thesis by (rule damaged_skipped [OF assms(1-5) hl assms(7) bad]) (use assms(3) in auto)
qed

lemma ogg_sync_damaged_skipped_witness:
  "\<exists>og oy oy' n. page_wf og \<and> og_body og = [1, 2, 3] \<and>
     sync_feed ample ogg_sync_init (og_header og @ [1, 2, 9]) = Some oy \<and>
     ogg_sync_pageseek oy = Some (oy', None, - int n) \<and> 1 \<le> n"
proof -
  let ?segs = "map (\<lambda>x. word_of_int (seg x)) [3] :: byte list"
  obtain crc where crc: "length crc = 4"
    "ogg_page_checksum_set \<lparr>og_header = page_header 0 0 1 0 [0, 0, 0, 0] ?segs, og_body = [1, 2, 3]\<rparr> =
       Some \<lparr>og_header = page_header 0 0 1 0 crc ?segs, og_body = [1, 2, 3]\<rparr>"
    by (rule page_header_checksum)
  let ?og = "\<lparr>og_header = page_header 0 0 1 0 crc ?segs, og_body = [1, 2, 3]\<rparr>"
  have ck: "ogg_page_checksum_set ?og = Some ?og" using checksum_set_ok [OF crc(2)] by (simp only: checksum_ok_def)
  have wf: "page_wf ?og" by (rule page_wf_encoded [of _ 0 0 1 0 crc "[3]"]) (use crc(1) ck in simp_all)
  have gr: "\<forall>n. grant ample n" by simp
  let ?xs = "og_header ?og @ [1, 2, 9]"
  have sz: "length (pending ogg_sync_init) + length ?xs + 4096 < 2 ^ 31" using crc(1) by (simp add: sync_init_ok(2))
  obtain oy where oy: "sync_feed ample ogg_sync_init ?xs = Some oy" "sync_ok oy" "pending oy = pending ogg_sync_init @ ?xs"
    by (rule sync_feed_ok [OF sync_init_ok(1) gr sz])
  let ?og' = "?og\<lparr>og_body := [1, 2, 9]\<rparr>"
  have l: "27 \<le> length (og_header ?og)" "take 4 (og_header ?og) = OggS" "length (og_body ?og) = body_len (og_header ?og)"
    using wf unfolding page_wf_def by blast+
  have b: "length (og_body ?og') = body_len (og_header ?og')" using l(3) by simp
  have p: "pending oy = page_bytes ?og' @ []" using oy(3) by (simp add: page_bytes_def sync_init_ok(2))
  have x: "page_bytes ?og = (og_header ?og @ [1, 2]) @ [3] @ []" "page_bytes ?og' = (og_header ?og @ [1, 2]) @ [9] @ []"
    by (simp_all add: page_bytes_def)
  have "\<exists>oy' n. ogg_sync_pageseek oy = Some (oy', None, - int n) \<and> 1 \<le> n \<and> sync_ok oy' \<and> pending oy' = drop n (page_bytes ?og' @ [])"
    by (rule ogg_sync_damaged_skipped [OF oy(2) wf p _ _ _ b x]) (use l in simp_all)
  then show ?thesis using wf oy(1) by (metis ogg_page.select_convs(2))
qed

end
