(* ===== verification/Image_Blur.thy ===== *)
theory Image_Blur
  imports Prelude
begin

unbundle bit_operations_syntax

section \<open>Blurring bitmaps (image.c)\<close>

text \<open>
  The stack blur of \<open>image.c\<close> for 32-bit and 16-bit pixels, its four variants and the JNI entry point.
  Pixels are a byte list; three channels are summed at once in a 64-bit word; every read and write outside
  the pixel memory or the work array, and every overflow of a signed product, is \<^const>\<open>None\<close>.  The two
  passes are written once, over the pixel accessors of a format, as the C code repeats them textually.
  The number of allocated heap blocks is threaded through \<open>malloc\<close> and \<open>free\<close>.
\<close>

subsection \<open>Packed colours\<close>

text \<open>Three channels travel in one 64-bit word, 16 bits apart.\<close>

definition getColors :: "byte list \<Rightarrow> int \<Rightarrow> ulong option" where
  "getColors pix p = do {
     p0 \<leftarrow> rd pix p; p1 \<leftarrow> rd pix (p + 1); p2 \<leftarrow> rd pix (p + 2);
     Some (ucast p0 + push_bit 16 (ucast p1) + push_bit 32 (ucast p2)) }"

definition getColors565 :: "byte list \<Rightarrow> int \<Rightarrow> ulong option" where
  "getColors565 pix p = do {
     p0 \<leftarrow> rd pix p; p1 \<leftarrow> rd pix (p + 1);
     let ps = uint p0 + uint p1 * 256;
     Some (word_of_int (((ps AND 0xF800) div 2 ^ 11 * 255) div 31) +
           word_of_int (((ps AND 0x07E0) div 2 ^ 5 * 255) div 63 * 2 ^ 16) +
           push_bit 32 (word_of_int (((ps AND 0x001F) * 255) div 31))) }"

definition putColors :: "byte list \<Rightarrow> int \<Rightarrow> ulong \<Rightarrow> byte list option" where
  "putColors pix yi res = do {
     pix \<leftarrow> wr pix yi (ucast res); pix \<leftarrow> wr pix (yi + 1) (ucast (drop_bit 16 res));
     wr pix (yi + 2) (ucast (drop_bit 32 res)) }"

definition putColors565 :: "byte list \<Rightarrow> int \<Rightarrow> ulong \<Rightarrow> byte list option" where
  "putColors565 pix yi res = do {
     pix \<leftarrow> wr pix yi (ucast ((drop_bit 13 res AND 0xe0) OR (drop_bit 35 res AND 0x1f)));
     wr pix (yi + 1) (ucast ((res AND 0xf8) OR (drop_bit 21 res AND 0x7))) }"

subsection \<open>One line\<close>

text \<open>A row and a column are blurred by the same code: \<open>g\<close> reads a packed colour of the line, \<open>emit\<close> stores
  the result for one position.  \<open>slide\<close> is a loop \<open>while (x < lim) update(start, x, end)\<close>; as each pass
  increments \<open>x\<close>, it runs \<open>lim - x\<close> times.\<close>

fun blur_init :: "(int \<Rightarrow> ulong option) \<Rightarrow> int \<Rightarrow> int \<Rightarrow> nat \<Rightarrow> ulong \<times> ulong \<Rightarrow> (ulong \<times> ulong) option" where
  "blur_init g r1 i 0 st = Some st"
| "blur_init g r1 i (Suc n) (rgballsum, rgbsum) = do {
     cur \<leftarrow> g i;
     blur_init g r1 (i + 1) n (rgballsum + cur, rgbsum + cur * word_of_int (r1 - i)) }"

fun slide :: "(int \<Rightarrow> ulong option) \<Rightarrow> ('s \<Rightarrow> int \<Rightarrow> ulong \<Rightarrow> 's option) \<Rightarrow> (int \<Rightarrow> int) \<Rightarrow> (int \<Rightarrow> int) \<Rightarrow> nat \<Rightarrow>
    int \<times> 's \<times> ulong \<times> ulong \<Rightarrow> (int \<times> 's \<times> ulong \<times> ulong) option" where
  "slide g emit start stop 0 st = Some st"
| "slide g emit start stop (Suc n) (x, s, rgballsum, rgbsum) = do {
     s \<leftarrow> emit s x rgbsum;
     a \<leftarrow> g (start x); m \<leftarrow> g x; b \<leftarrow> g (stop x);
     let rgballsum = rgballsum + (a - 2 * m + b);
     slide g emit start stop n (x + 1, s, rgballsum, rgbsum + rgballsum) }"

definition blur_line :: "(int \<Rightarrow> ulong option) \<Rightarrow> ('s \<Rightarrow> int \<Rightarrow> ulong \<Rightarrow> 's option) \<Rightarrow> int \<Rightarrow> int \<Rightarrow> 's \<Rightarrow> 's option" where
  "blur_line g emit n radius s = do {
     let r1 = radius + 1;
     cur \<leftarrow> g 0;
     (rgballsum, rgbsum) \<leftarrow> blur_init g r1 1 (nat radius)
        (word_of_int (- radius) * cur, cur * word_of_int ((r1 * (r1 + 1)) div 2));
     st \<leftarrow> slide g emit (\<lambda>x. 0) (\<lambda>x. x + r1) (nat r1) (0, s, rgballsum, rgbsum);
     st \<leftarrow> slide g emit (\<lambda>x. x - r1) (\<lambda>x. x + r1) (nat (n - r1 - fst st)) st;
     st \<leftarrow> slide g emit (\<lambda>x. x - r1) (\<lambda>x. n - 1) (nat (n - fst st)) st;
     Some (fst (snd st)) }"

subsection \<open>The two passes\<close>

text \<open>\<open>bpp\<close> is 4 or 2.  The row pass fills \<open>rgb\<close> from the pixels, the column pass writes them back.\<close>

fun blur_rows :: "(byte list \<Rightarrow> int \<Rightarrow> ulong option) \<Rightarrow> int \<Rightarrow> int \<Rightarrow> int \<Rightarrow> int \<Rightarrow> nat \<Rightarrow> byte list \<Rightarrow> int \<Rightarrow> nat \<Rightarrow>
    ulong list \<Rightarrow> ulong list option" where
  "blur_rows getc bpp w stride radius shift pix y 0 rgb = Some rgb"
| "blur_rows getc bpp w stride radius shift pix y (Suc n) rgb = do {
     rgb \<leftarrow> blur_line (\<lambda>x. getc pix (y * stride + x * bpp))
        (\<lambda>rgb x rgbsum. wr rgb (y * w + x) (drop_bit shift rgbsum AND 0x00FF00FF00FF00FF)) w radius rgb;
     blur_rows getc bpp w stride radius shift pix (y + 1) n rgb }"

fun blur_cols :: "(byte list \<Rightarrow> int \<Rightarrow> ulong \<Rightarrow> byte list option) \<Rightarrow> int \<Rightarrow> int \<Rightarrow> int \<Rightarrow> int \<Rightarrow> int \<Rightarrow> nat \<Rightarrow> ulong list \<Rightarrow>
    int \<Rightarrow> nat \<Rightarrow> byte list \<Rightarrow> byte list option" where
  "blur_cols putc bpp w h stride radius shift rgb x 0 pix = Some pix"
| "blur_cols putc bpp w h stride radius shift rgb x (Suc n) pix = do {
     pix \<leftarrow> blur_line (\<lambda>y. rd rgb (x + y * w))
        (\<lambda>pix y rgbsum. putc pix (x * bpp + y * stride) (drop_bit shift rgbsum)) h radius pix;
     blur_cols putc bpp w h stride radius shift rgb (x + 1) n pix }"

definition blur_passes :: "(byte list \<Rightarrow> int \<Rightarrow> ulong option) \<Rightarrow> (byte list \<Rightarrow> int \<Rightarrow> ulong \<Rightarrow> byte list option) \<Rightarrow> int \<Rightarrow>
    int \<Rightarrow> int \<Rightarrow> int \<Rightarrow> int \<Rightarrow> nat \<Rightarrow> ulong list \<Rightarrow> byte list \<Rightarrow> byte list option" where
  "blur_passes getc putc bpp w h stride radius shift rgb pix = do {
     rgb \<leftarrow> blur_rows getc bpp w stride radius shift pix 0 (nat h) rgb;
     blur_cols putc bpp w h stride radius shift rgb 0 (nat w) pix }"

text \<open>\<open>malloc(w * h * sizeof(uint64_t))\<close>.\<close>

definition rgb_alloc :: "mem_env \<Rightarrow> int \<Rightarrow> ulong list option" where
  "rgb_alloc E n = (if grant E (n * 8) then Some (map (\<lambda>i. word_of_int (junk_int E i)) [0 ..< nat n]) else None)"

text \<open>\<open>heap\<close> is the number of blocks that are allocated: a successful \<open>malloc\<close> adds one, \<open>free\<close> takes one away.\<close>

definition rgb_malloc :: "mem_env \<Rightarrow> int \<Rightarrow> nat \<Rightarrow> ulong list option \<times> nat" where
  "rgb_malloc E n heap = (case rgb_alloc E n of None \<Rightarrow> (None, heap) | Some rgb \<Rightarrow> (Some rgb, heap + 1))"

definition heap_free :: "nat \<Rightarrow> nat" where
  "heap_free heap = heap - 1"

text \<open>The size test both families share, with the \<open>div\<close> computed before it: \<^term>\<open>Some True\<close> is the early return.\<close>

definition blur_refused :: "int \<Rightarrow> int \<Rightarrow> int \<Rightarrow> int \<Rightarrow> int \<Rightarrow> int \<Rightarrow> bool option" where
  "blur_refused bpp w h stride radius div' =
     (if radius > 15 \<or> div' \<ge> w \<or> div' \<ge> h then Some True
      else do {
        area \<leftarrow> s32 (w * h);
        if area > 150 * 150 then Some True
        else do { row \<leftarrow> s32 (w * bpp); Some (stride > row) } })"

text \<open>The results pair the pixels with the number of blocks then allocated.\<close>

definition fastBlurMore ::
    "mem_env \<Rightarrow> nat \<Rightarrow> int \<Rightarrow> int \<Rightarrow> int \<Rightarrow> byte list \<Rightarrow> int \<Rightarrow> (byte list \<times> nat) option" where
  "fastBlurMore E heap w h stride pix radius = do {
     div' \<leftarrow> s32 (radius * 2 + 1);
     no \<leftarrow> blur_refused 4 w h stride radius div';
     if no then Some (pix, heap)
     else case rgb_malloc E (w * h) heap of
       (None, heap) \<Rightarrow> Some (pix, heap)
     | (Some rgb, heap) \<Rightarrow> do {
         pix \<leftarrow> blur_passes getColors putColors 4 w h stride radius 6 rgb pix;
         Some (pix, heap) } }"

definition blur_shift :: "int \<Rightarrow> nat option" where
  "blur_shift radius = (if radius = 1 then Some 2 else if radius = 3 then Some 4 else if radius = 7 then Some 6
     else if radius = 15 then Some 8 else None)"

definition fastBlur ::
    "mem_env \<Rightarrow> nat \<Rightarrow> int \<Rightarrow> int \<Rightarrow> int \<Rightarrow> byte list \<Rightarrow> int \<Rightarrow> (byte list \<times> nat) option" where
  "fastBlur E heap w h stride pix radius = do {
     div' \<leftarrow> s32 (radius * 2 + 1);
     case blur_shift radius of
       None \<Rightarrow> Some (pix, heap)
     | Some shift \<Rightarrow> do {
         no \<leftarrow> blur_refused 4 w h stride radius div';
         if no then Some (pix, heap)
         else case rgb_malloc E (w * h) heap of
           (None, heap) \<Rightarrow> Some (pix, heap)
         | (Some rgb, heap) \<Rightarrow> do {
             pix \<leftarrow> blur_passes getColors putColors 4 w h stride radius shift rgb pix;
             Some (pix, heap_free heap) } } }"

definition fastBlurMore565 ::
    "mem_env \<Rightarrow> nat \<Rightarrow> int \<Rightarrow> int \<Rightarrow> int \<Rightarrow> byte list \<Rightarrow> int \<Rightarrow> (byte list \<times> nat) option" where
  "fastBlurMore565 E heap w h stride pix radius = do {
     div' \<leftarrow> s32 (radius * 2 + 1);
     no \<leftarrow> blur_refused 2 w h stride radius div';
     if no then Some (pix, heap)
     else case rgb_malloc E (w * h) heap of
       (None, heap) \<Rightarrow> Some (pix, heap)
     | (Some rgb, heap) \<Rightarrow> do {
         pix \<leftarrow> blur_passes getColors565 putColors565 2 w h stride radius 6 rgb pix;
         Some (pix, heap) } }"

definition fastBlur565 ::
    "mem_env \<Rightarrow> nat \<Rightarrow> int \<Rightarrow> int \<Rightarrow> int \<Rightarrow> byte list \<Rightarrow> int \<Rightarrow> (byte list \<times> nat) option" where
  "fastBlur565 E heap w h stride pix radius = do {
     div' \<leftarrow> s32 (radius * 2 + 1);
     case blur_shift radius of
       None \<Rightarrow> Some (pix, heap)
     | Some shift \<Rightarrow> do {
         no \<leftarrow> blur_refused 2 w h stride radius div';
         if no then Some (pix, heap)
         else case rgb_malloc E (w * h) heap of
           (None, heap) \<Rightarrow> Some (pix, heap)
         | (Some rgb, heap) \<Rightarrow> do {
             pix \<leftarrow> blur_passes getColors565 putColors565 2 w h stride radius shift rgb pix;
             Some (pix, heap_free heap) } } }"

subsection \<open>The entry point\<close>

text \<open>A bitmap is its pixel memory and the number of outstanding locks; \<open>lock\<close> is the code
  \<open>AndroidBitmap_lockPixels\<close> returns (negative on failure).  A pixel pointer that is \<open>NULL\<close> does not occur
  after a successful lock.\<close>

record bitmap =
  bm_pixels :: "byte list"
  bm_locks :: int

definition blurBitmap ::
    "mem_env \<Rightarrow> nat \<Rightarrow> int \<Rightarrow> bitmap option \<Rightarrow> int \<Rightarrow> int \<Rightarrow> int \<Rightarrow> int \<Rightarrow> int \<Rightarrow> (bitmap option \<times> nat) option" where
  "blurBitmap E heap lock bitmap radius unpin width height stride =
     (case bitmap of None \<Rightarrow> Some (None, heap)
      | Some bm \<Rightarrow>
        if width = 0 \<or> height = 0 \<or> stride = 0 then Some (Some bm, heap)
        else if lock < 0 then Some (Some bm, heap)
        else do {
          let bm = bm\<lparr>bm_locks := bm_locks bm + 1\<rparr>;
          row \<leftarrow> s32 (width * 2);
          (pix, heap) \<leftarrow>
            (if stride = row then
               (if radius \<le> 3 then fastBlur565 E heap width height stride (bm_pixels bm) radius
                else fastBlurMore565 E heap width height stride (bm_pixels bm) radius)
             else
               (if radius \<le> 3 then fastBlur E heap width height stride (bm_pixels bm) radius
                else fastBlurMore E heap width height stride (bm_pixels bm) radius));
          let bm = bm\<lparr>bm_pixels := pix\<rparr>;
          Some (Some (if unpin \<noteq> 0 then bm\<lparr>bm_locks := bm_locks bm - 1\<rparr> else bm), heap) })"

end
