(* ===== verification/Blur_Filter.thy ===== *)
theory Blur_Filter
  imports Image_Blur
begin

unbundle bit_operations_syntax

section \<open>The running sums are a triangular filter\<close>

text \<open>
  A line of the blur as a reference filter, the packing of three channels, and the locale
  \<open>pixel_format\<close> with what the passes need of a format.
\<close>

subsection \<open>Reference: the triangular filter\<close>

text \<open>Positions outside the line are clamped to its ends; position \<open>i\<close> away weighs \<open>r + 1 - |i|\<close>.\<close>

definition clamp :: "int \<Rightarrow> int \<Rightarrow> int" where
  "clamp n i = max 0 (min (n - 1) i)"

definition tri :: "nat \<Rightarrow> int \<Rightarrow> (int \<Rightarrow> 'a::comm_ring_1) \<Rightarrow> int \<Rightarrow> 'a" where
  "tri r n f x = (\<Sum>i = - int r .. int r. of_int (int r + 1 - \<bar>i\<bar>) * f (clamp n (x + i)))"

text \<open>The slope of the filter, which the code carries along as \<open>rgballsum\<close>.\<close>

definition slope :: "nat \<Rightarrow> int \<Rightarrow> (int \<Rightarrow> 'a::comm_ring_1) \<Rightarrow> int \<Rightarrow> 'a" where
  "slope r n f x = (\<Sum>j = x + 1 .. x + int r + 1. f (clamp n j)) - (\<Sum>j = x - int r .. x. f (clamp n j))"

lemma sum_int_top: "a \<le> b + 1 \<Longrightarrow> (\<Sum>i = a .. b + 1. f i) = (\<Sum>i = a .. b. f i) + (f (b + 1) :: 'a::comm_monoid_add)" for a b :: int
proof -
  assume "a \<le> b + 1"
  then have "{a .. b + 1} = insert (b + 1) {a .. b}" by auto
  then show ?thesis by (simp add: add.commute)
qed

lemma sum_int_bot: "a \<le> b + 1 \<Longrightarrow> (\<Sum>i = a - 1 .. b. f i) = f (a - 1) + (\<Sum>i = a .. b. f i :: 'a::comm_monoid_add)" for a b :: int
proof -
  assume "a \<le> b + 1"
  then have "{a - 1 .. b} = insert (a - 1) {a .. b}" by auto
  then show ?thesis by simp
qed

lemma sum_shift: "(\<Sum>i = a .. b. f (x + i)) = (\<Sum>j = x + a .. x + b. f j :: 'a::comm_monoid_add)" for a b x :: int
  by (rule sum.reindex_bij_witness [of _ "\<lambda>j. j - x" "\<lambda>i. x + i"]) auto

lemma tri_Suc: "tri (Suc r) n f x = tri r n f x + (\<Sum>j = x - int (Suc r) .. x + int (Suc r). f (clamp n j))"
proof -
  let ?S = "int (Suc r)"
  have e: "(\<Sum>i = - ?S .. ?S. of_int (int r + 1 - \<bar>i\<bar>) * f (clamp n (x + i))) = tri r n f x"
    unfolding tri_def
  proof (rule sum.mono_neutral_right, simp, force, rule ballI)
    fix i assume "i \<in> {- ?S .. ?S} - {- int r .. int r}"
    then have "int r + 1 - \<bar>i\<bar> = 0" by auto
    then show "of_int (int r + 1 - \<bar>i\<bar>) * f (clamp n (x + i)) = 0" by simp
  qed
  have "tri (Suc r) n f x = (\<Sum>i = - ?S .. ?S. of_int (int r + 1 - \<bar>i\<bar>) * f (clamp n (x + i)) + f (clamp n (x + i)))"
    unfolding tri_def by (rule sum.cong) (simp_all add: algebra_simps)
  also have "\<dots> = tri r n f x + (\<Sum>i = - ?S .. ?S. f (clamp n (x + i)))" by (simp only: sum.distrib e)
  also have "(\<Sum>i = - ?S .. ?S. f (clamp n (x + i))) = (\<Sum>j = x - ?S .. x + ?S. f (clamp n j))"
    using sum_shift [of "\<lambda>j. f (clamp n j)" x "- ?S" ?S] by (simp only: diff_conv_add_uminus)
  finally show ?thesis .
qed

lemma slope_Suc: "slope (Suc r) n f x = slope r n f x + f (clamp n (x + int r + 2)) - f (clamp n (x - int r - 1))"
proof -
  have "(\<Sum>j = x + 1 .. x + int r + 1 + 1. f (clamp n j)) = (\<Sum>j = x + 1 .. x + int r + 1. f (clamp n j)) + f (clamp n (x + int r + 1 + 1))"
    by (rule sum_int_top) simp
  moreover have "(\<Sum>j = x - int r - 1 .. x. f (clamp n j)) = f (clamp n (x - int r - 1)) + (\<Sum>j = x - int r .. x. f (clamp n j))"
    by (rule sum_int_bot) simp
  ultimately show ?thesis by (simp add: slope_def algebra_simps)
qed

lemma tri_step: "tri r n f (x + 1) = tri r n f x + slope r n f x"
proof (induction r)
  case 0
  then show ?case by (simp add: tri_def slope_def add.commute)
next
  case (Suc r)
  let ?f = "\<lambda>j. f (clamp n j)" and ?S = "int (Suc r)"
  have "(\<Sum>j = x + 1 - ?S .. x + ?S + 1. ?f j) = (\<Sum>j = x + 1 - ?S .. x + ?S. ?f j) + ?f (x + ?S + 1)"
    by (rule sum_int_top) simp
  moreover have "(\<Sum>j = x + 1 - ?S - 1 .. x + ?S. ?f j) = ?f (x + 1 - ?S - 1) + (\<Sum>j = x + 1 - ?S .. x + ?S. ?f j)"
    by (rule sum_int_bot) simp
  ultimately have "(\<Sum>j = x + 1 - ?S .. x + ?S + 1. ?f j) = (\<Sum>j = x - ?S .. x + ?S. ?f j) + ?f (x + int r + 2) - ?f (x - int r - 1)"
    by (simp add: algebra_simps)
  then show ?case using Suc by (simp add: tri_Suc slope_Suc algebra_simps)
qed

lemma slope_step:
  "slope r n f x = slope r n f (x - 1) + (f (clamp n (x - int r - 1)) - 2 * f (clamp n x) + f (clamp n (x + int r + 1)))"
proof (induction r)
  case 0
  then show ?case by (simp add: slope_def algebra_simps)
qed (simp add: slope_Suc algebra_simps)

lemma slope_init:
  assumes "int r < n"
  shows "slope r n f (- 1) = of_int (- int r) * f 0 + (\<Sum>j = 1 .. int r. f j)"
  using assms
proof (induction r)
  case 0
  then show ?case by (simp add: slope_def clamp_def)
next
  case (Suc r)
  have "(\<Sum>j = 1 .. int r + 1. f j) = (\<Sum>j = 1 .. int r. f j) + f (int r + 1)" by (rule sum_int_top) simp
  then show ?case using Suc by (simp add: slope_Suc clamp_def algebra_simps)
qed

lemma box_init:
  assumes "int r < n"
  shows "(\<Sum>j = - int r .. int r. f (clamp n j)) = of_int (int r + 1) * f 0 + (\<Sum>j = 1 .. int r. f j)"
  using assms
proof (induction r)
  case 0
  then show ?case by (simp add: clamp_def)
next
  case (Suc r)
  let ?f = "\<lambda>j. f (clamp n j)"
  have "(\<Sum>j = - 1 - int r .. int r + 1. ?f j) = (\<Sum>j = - int r - 1 .. int r + 1. ?f j)"
    by (rule arg_cong [of _ _ "\<lambda>a. sum ?f {a .. int r + 1}"]) simp
  moreover have "(\<Sum>j = - int r - 1 .. int r + 1. ?f j) = ?f (- int r - 1) + (\<Sum>j = - int r .. int r + 1. ?f j)"
    by (rule sum_int_bot) simp
  moreover have "(\<Sum>j = - int r .. int r + 1. ?f j) = (\<Sum>j = - int r .. int r. ?f j) + ?f (int r + 1)"
    by (rule sum_int_top) simp
  moreover have "(\<Sum>j = 1 .. int r + 1. f j) = (\<Sum>j = 1 .. int r. f j) + f (int r + 1)" by (rule sum_int_top) simp
  moreover have "- int (Suc r) = - int r - 1" "int (Suc r) = int r + 1" by simp_all
  ultimately show ?case using Suc by (simp add: clamp_def algebra_simps mult_2)
qed

lemma triangle_Suc: "(int r + 2) * (int r + 3) div 2 = (int r + 1) * (int r + 2) div 2 + (int r + 2)"
proof -
  have "(int r + 2) * (int r + 3) = (int r + 1) * (int r + 2) + (int r + 2) * 2" by (simp add: algebra_simps)
  then show ?thesis by simp
qed

lemma tri_init:
  assumes "int r < n"
  shows "tri r n f 0 = of_int ((int r + 1) * (int r + 2) div 2) * f 0 + (\<Sum>j = 1 .. int r. of_int (int r + 1 - j) * f j)"
  using assms
proof (induction r)
  case 0
  then show ?case by (simp add: tri_def clamp_def)
next
  case (Suc r)
  have "(\<Sum>j = 1 .. int r + 1. of_int (int r + 2 - j) * f j) = (\<Sum>j = 1 .. int r + 1. of_int (int r + 1 - j) * f j + f j)"
    by (rule sum.cong) (simp_all add: algebra_simps)
  also have "\<dots> = (\<Sum>j = 1 .. int r + 1. of_int (int r + 1 - j) * f j) + (\<Sum>j = 1 .. int r + 1. f j)" by (rule sum.distrib)
  also have "(\<Sum>j = 1 .. int r + 1. of_int (int r + 1 - j) * f j) = (\<Sum>j = 1 .. int r. of_int (int r + 1 - j) * f j) + of_int (int r + 1 - (int r + 1)) * f (int r + 1)"
    by (rule sum_int_top) simp
  finally have s: "(\<Sum>j = 1 .. int r + 1. of_int (int r + 2 - j) * f j) =
      (\<Sum>j = 1 .. int r. of_int (int r + 1 - j) * f j) + (\<Sum>j = 1 .. int r + 1. f j)" by simp
  have b: "(\<Sum>j = - int (Suc r) .. int (Suc r). f (clamp n j)) = of_int (int r + 2) * f 0 + (\<Sum>j = 1 .. int r + 1. f j)"
    using box_init [OF Suc.prems, of f] by (simp add: algebra_simps)
  have t: "of_int ((int (Suc r) + 1) * (int (Suc r) + 2) div 2) = (of_int ((int r + 1) * (int r + 2) div 2) + of_int (int r + 2) :: 'a)"
    using triangle_Suc [of r] by (simp only: of_int_add [symmetric]) (simp add: algebra_simps)
  have "tri (Suc r) n f 0 = tri r n f 0 + (\<Sum>j = - int (Suc r) .. int (Suc r). f (clamp n j))" by (simp add: tri_Suc)
  also have "\<dots> = of_int ((int (Suc r) + 1) * (int (Suc r) + 2) div 2) * f 0 + (\<Sum>j = 1 .. int r + 1. of_int (int r + 2 - j) * f j)"
    using Suc.IH Suc.prems unfolding b s t by (simp add: algebra_simps)
  finally show ?case by (simp add: add.commute)
qed

subsection \<open>A line of the code is the triangular filter\<close>

fun emit_from :: "('s \<Rightarrow> int \<Rightarrow> ulong \<Rightarrow> 's option) \<Rightarrow> (int \<Rightarrow> ulong) \<Rightarrow> nat \<Rightarrow> int \<Rightarrow> 's \<Rightarrow> 's option" where
  "emit_from emit F 0 x s = Some s"
| "emit_from emit F (Suc m) x s = do { s \<leftarrow> emit s x (F x); emit_from emit F m (x + 1) s }"

lemma emit_from_add:
  "emit_from emit F (a + b) x s = do { s \<leftarrow> emit_from emit F a x s; emit_from emit F b (x + int a) s }"
proof (induction a arbitrary: x s)
  case (Suc a)
  have e: "x + 1 + int a = x + int (Suc a)" by simp
  show ?case by (cases "emit s x (F x)") (simp_all add: Suc.IH e)
qed simp

lemma clamp_id: "0 \<le> i \<Longrightarrow> i < n \<Longrightarrow> clamp n i = i"
  by (simp add: clamp_def)

lemma clamp_range: "0 < n \<Longrightarrow> 0 \<le> clamp n i \<and> clamp n i < n"
  by (simp add: clamp_def)

lemma slide_ok:
  assumes g: "\<And>x. 0 \<le> x \<Longrightarrow> x < n \<Longrightarrow> g x = Some (f x)"
    and b: "\<And>x. x0 \<le> x \<Longrightarrow> x < x0 + int m \<Longrightarrow> start x = clamp n (x - (int r + 1)) \<and> stop x = clamp n (x + (int r + 1))"
    and x0: "0 \<le> x0" "x0 + int m \<le> n"
  shows "slide g emit start stop m (x0, s, slope r n f (x0 - 1), tri r n f x0) =
    map_option (\<lambda>s. (x0 + int m, s, slope r n f (x0 + int m - 1), tri r n f (x0 + int m))) (emit_from emit (tri r n f) m x0 s)"
  using b x0
proof (induction m arbitrary: x0 s)
  case (Suc m)
  have n: "0 < n" using Suc.prems(2,3) by simp
  have st: "start x0 = clamp n (x0 - (int r + 1))" "stop x0 = clamp n (x0 + (int r + 1))" using Suc.prems(1) [of x0] by auto
  have rd: "g (start x0) = Some (f (clamp n (x0 - int r - 1)))" "g x0 = Some (f (clamp n x0))"
    "g (stop x0) = Some (f (clamp n (x0 + int r + 1)))"
    using g clamp_range [OF n] clamp_id [of x0 n] Suc.prems(2,3) unfolding st by (simp_all add: algebra_simps)
  have sl: "slope r n f (x0 - 1) + (f (clamp n (x0 - int r - 1)) - 2 * f (clamp n x0) + f (clamp n (x0 + int r + 1))) = slope r n f (x0 + 1 - 1)"
    using slope_step [of r n f x0] by simp
  have ih: "slide g emit start stop m (x0 + 1, s, slope r n f (x0 + 1 - 1), tri r n f (x0 + 1)) =
      map_option (\<lambda>s. (x0 + 1 + int m, s, slope r n f (x0 + 1 + int m - 1), tri r n f (x0 + 1 + int m))) (emit_from emit (tri r n f) m (x0 + 1) s)" for s
    by (rule Suc.IH) (use Suc.prems in auto)
  have e: "x0 + 1 + int m = x0 + int (Suc m)" by simp
  have t: "tri r n f x0 + slope r n f (x0 + 1 - 1) = tri r n f (x0 + 1)" using tri_step [of r n f x0] by simp
  show ?case
    by (simp only: slide.simps Let_def rd bind.bind_lunit sl t ih e emit_from.simps) (cases "emit s x0 (tri r n f x0)"; simp)
qed simp

lemma blur_init_ok:
  assumes "\<And>x. i \<le> x \<Longrightarrow> x < i + int k \<Longrightarrow> g x = Some (f x)"
  shows "blur_init g r1 i k (a, b) =
    Some (a + (\<Sum>j = i .. i + int k - 1. f j), b + (\<Sum>j = i .. i + int k - 1. of_int (r1 - j) * f j))"
  using assms
proof (induction k arbitrary: i a b)
  case (Suc k)
  have s: "(\<Sum>j = i .. i + int (Suc k) - 1. h j) = h i + (\<Sum>j = i + 1 .. i + 1 + int k - 1. (h j :: ulong))" for h
  proof -
    have "{i .. i + int (Suc k) - 1} = insert i {i + 1 .. i + 1 + int k - 1}" by auto
    then show ?thesis by simp
  qed
  show ?case unfolding s using Suc.IH [of "i + 1"] Suc.prems by (simp add: algebra_simps)
qed simp

lemma blur_line_ok:
  assumes g: "\<And>x. 0 \<le> x \<Longrightarrow> x < n \<Longrightarrow> g x = Some (f x)" and r: "int r * 2 + 1 < n"
  shows "blur_line g emit n (int r) s = emit_from emit (tri r n f) (nat n) 0 s"
proof -
  let ?r1 = "int r + 1"
  have g0: "g 0 = Some (f 0)" using g r by simp
  have i: "blur_init g ?r1 1 (nat (int r)) (word_of_int (- int r) * f 0, f 0 * word_of_int (?r1 * (?r1 + 1) div 2)) =
      Some (slope r n f (0 - 1), tri r n f 0)"
    using slope_init [of r n f] tri_init [of r n f] r g by (subst blur_init_ok [where f = f]) (simp_all add: mult.commute add.commute)
  have l1: "slide g emit (\<lambda>x. 0) (\<lambda>x. x + ?r1) (Suc r) (0, s, slope r n f (0 - 1), tri r n f 0) =
      map_option (\<lambda>s. (0 + int (Suc r), s, slope r n f (0 + int (Suc r) - 1), tri r n f (0 + int (Suc r)))) (emit_from emit (tri r n f) (Suc r) 0 s)"
    by (rule slide_ok [OF g]) (use r in \<open>auto simp: clamp_def\<close>)
  let ?m = "nat (n - 2 * ?r1)"
  have l2: "slide g emit (\<lambda>x. x - ?r1) (\<lambda>x. x + ?r1) ?m (int (Suc r), s, slope r n f (int (Suc r) - 1), tri r n f (int (Suc r))) =
      map_option (\<lambda>s. (int (Suc r) + int ?m, s, slope r n f (int (Suc r) + int ?m - 1), tri r n f (int (Suc r) + int ?m))) (emit_from emit (tri r n f) ?m (int (Suc r)) s)" for s
    by (rule slide_ok [OF g]) (use r in \<open>auto simp: clamp_def\<close>)
  have x2: "int (Suc r) + int ?m = n - ?r1" using r by simp
  have l3: "slide g emit (\<lambda>x. x - ?r1) (\<lambda>x. n - 1) (Suc r) (n - ?r1, s, slope r n f (n - ?r1 - 1), tri r n f (n - ?r1)) =
      map_option (\<lambda>s. (n - ?r1 + int (Suc r), s, slope r n f (n - ?r1 + int (Suc r) - 1), tri r n f (n - ?r1 + int (Suc r)))) (emit_from emit (tri r n f) (Suc r) (n - ?r1) s)" for s
    by (rule slide_ok [OF g]) (use r in \<open>auto simp: clamp_def\<close>)
  have cnt: "nat n = Suc r + (?m + Suc r)" using r by simp
  have m: "nat ?r1 = Suc r" "nat (n - ?r1 - int (Suc r)) = ?m" "nat (n - (n - ?r1)) = Suc r" "0 + int (Suc r) = int (Suc r)" using r by simp_all
  show ?thesis
    unfolding blur_line_def Let_def g0 bind.bind_lunit i cnt emit_from_add
    by (simp only: prod.case m l1 l2 [unfolded x2] l3 bind_map_option comp_def fst_conv snd_conv x2 add_0)
      (auto simp: bind_map_option comp_def m l2 [unfolded x2] l3 x2 split: Option.bind_splits)
qed

subsection \<open>Emitting into an array\<close>

fun upd_from :: "(nat \<Rightarrow> nat) \<Rightarrow> (ulong \<Rightarrow> 'a \<Rightarrow> 'a) \<Rightarrow> (int \<Rightarrow> ulong) \<Rightarrow> nat \<Rightarrow> nat \<Rightarrow> 'a list \<Rightarrow> 'a list" where
  "upd_from idx h F 0 y a = a"
| "upd_from idx h F (Suc m) y a = upd_from idx h F m (Suc y) (a[idx y := h (F (int y)) (a ! idx y)])"

lemma length_upd_from [simp]: "length (upd_from idx h F m y a) = length a"
  by (induction m arbitrary: y a) simp_all

lemma upd_from_other: "(\<And>z. y \<le> z \<Longrightarrow> z < y + m \<Longrightarrow> idx z \<noteq> k) \<Longrightarrow> upd_from idx h F m y a ! k = a ! k"
  by (induction m arbitrary: y a) simp_all

lemma upd_from_at:
  assumes "inj idx" "y \<le> z" "z < y + m" "idx z < length a"
  shows "upd_from idx h F m y a ! idx z = h (F (int z)) (a ! idx z)"
  using assms(2-4)
proof (induction m arbitrary: y a)
  case (Suc m)
  have ne: "idx w = idx z \<longleftrightarrow> w = z" for w using assms(1) by (simp add: inj_eq)
  show ?case
  proof (cases "z = y")
    case True
    have "upd_from idx h F m (Suc y) b ! idx y = b ! idx y" for b by (rule upd_from_other) (simp add: ne True [symmetric])
    then show ?thesis using Suc.prems True by simp
  next
    case False
    then show ?thesis using Suc.IH [of "Suc y" "a[idx y := h (F (int y)) (a ! idx y)]"] Suc.prems by (simp add: ne)
  qed
qed simp

lemma emit_from_upd:
  assumes step: "\<And>a y v. I a \<Longrightarrow> y < n \<Longrightarrow> emit (\<alpha> a) (int y) v = Some (\<alpha> (a[idx y := h v (a ! idx y)])) \<and> I (a[idx y := h v (a ! idx y)])"
    and I: "I a" and m: "y + m \<le> n"
  shows "emit_from emit F m (int y) (\<alpha> a) = Some (\<alpha> (upd_from idx h F m y a)) \<and> I (upd_from idx h F m y a)"
  using I m
proof (induction m arbitrary: y a)
  case (Suc m)
  have e: "int y + 1 = int (Suc y)" by simp
  note st = step [OF Suc.prems(1), of y "F (int y)"]
  have m: "y < n" "Suc y + m \<le> n" using Suc.prems(2) by simp_all
  show ?case
    using st [OF m(1)] Suc.IH [OF _ m(2)] by (simp only: emit_from.simps upd_from.simps e bind.bind_lunit)
qed simp

subsection \<open>Lanes\<close>

definition packed :: "(nat \<Rightarrow> int) \<Rightarrow> ulong" where
  "packed V = of_int (V 0 + 2 ^ 16 * V 1 + 2 ^ 32 * V 2)"

definition lane :: "ulong \<Rightarrow> nat \<Rightarrow> int" where
  "lane v c = uint (take_bit 8 (drop_bit (16 * c) v))"

definition lanes_ok :: "(nat \<Rightarrow> int) \<Rightarrow> bool" where
  "lanes_ok V \<longleftrightarrow> (\<forall>c < 3. 0 \<le> V c \<and> V c < 2 ^ 16)"

lemma packed_bit:
  assumes "lanes_ok V"
  shows "bit (packed V) n \<longleftrightarrow> n < 16 \<and> bit (V 0) n \<or> 16 \<le> n \<and> n < 32 \<and> bit (V 1) (n - 16) \<or> 32 \<le> n \<and> n < 48 \<and> bit (V 2) (n - 32)"
proof -
  have t: "take_bit 16 (V 0) = V 0" "take_bit 16 (V 1) = V 1" "take_bit 16 (V 2) = V 2"
    using assms by (simp_all add: lanes_ok_def take_bit_int_eq_self del: power_numeral)
  have "V 0 + 2 ^ 16 * V 1 + 2 ^ 32 * V 2 = concat_bit 16 (V 0) (concat_bit 16 (V 1) (V 2))"
    by (simp add: concat_bit_eq t [simplified] push_bit_eq_mult)
  moreover have "bit (V 2) (n - 32) \<Longrightarrow> n < 48" using t(3) bit_take_bit_iff [of 16 "V 2" "n - 32"] by auto
  ultimately show ?thesis by (auto simp: packed_def bit_of_int_iff bit_concat_bit_iff)
qed

lemma mask_lanes: "0x00FF00FF00FF00FF = (mask 8 OR push_bit 16 (mask 8) OR push_bit 32 (mask 8) OR push_bit 48 (mask 8) :: ulong)"
  by (simp add: mask_eq_exp_minus_1 push_bit_eq_mult)

definition shifted :: "nat \<Rightarrow> (nat \<Rightarrow> int) \<Rightarrow> nat \<Rightarrow> int" where
  "shifted s V c = V c div 2 ^ s mod 256"

lemma shifted_bits: "shifted s V c = take_bit 8 (drop_bit s (V c))"
  by (simp add: shifted_def take_bit_eq_mod drop_bit_eq_div)

lemma shifted_range: "0 \<le> shifted s V c" "shifted s V c \<le> 255" "lanes_ok (shifted s V)"
proof -
  show "0 \<le> shifted s V c" "shifted s V c \<le> 255" for c
    using pos_mod_bound [of 256 "V c div 2 ^ s"] by (simp_all add: shifted_def)
  then show "lanes_ok (shifted s V)" by (force simp: lanes_ok_def intro: order_le_less_trans)
qed

lemma packed_shift:
  assumes V: "lanes_ok V" and s: "s \<le> 8"
  shows "drop_bit s (packed V) AND 0x00FF00FF00FF00FF = packed (shifted s V)"
proof (rule bit_word_eqI)
  fix n assume "n < LENGTH(64)"
  then have n: "n < 64" by simp
  have b: "bit (0x00FF00FF00FF00FF :: ulong) n \<longleftrightarrow> n < 8 \<or> 16 \<le> n \<and> n < 24 \<or> 32 \<le> n \<and> n < 40 \<or> 48 \<le> n \<and> n < 56"
    unfolding mask_lanes using n by (auto simp: bit_simps)
  have V2: "bit (V 2) k \<Longrightarrow> k < 16" for k
    using V by (metis lanes_ok_def bit_take_bit_iff take_bit_int_eq_self lessI numeral_3_eq_3 numeral_2_eq_2)
  show "bit (drop_bit s (packed V) AND 0x00FF00FF00FF00FF) n = bit (packed (shifted s V)) n"
    unfolding bit_and_iff bit_drop_bit_eq comp_def packed_bit [OF V] packed_bit [OF shifted_range(3)] b
    using s n V2 by (auto simp: shifted_bits bit_take_bit_iff bit_drop_bit_eq algebra_simps)
qed

lemma lane_shift:
  assumes V: "lanes_ok V" and s: "s \<le> 8" and c: "c < 3"
  shows "lane (drop_bit s (packed V)) c = shifted s V c"
proof -
  have "uint (take_bit 8 (drop_bit (16 * c) (drop_bit s (packed V)))) = take_bit 8 (drop_bit s (V c))"
  proof (rule bit_eqI)
    fix n
    consider "c = 0" | "c = 1" | "c = 2" using c by linarith
    then show "bit (uint (take_bit 8 (drop_bit (16 * c) (drop_bit s (packed V))))) n = bit (take_bit 8 (drop_bit s (V c))) n"
      using s by cases (auto simp: bit_uint_iff bit_take_bit_iff bit_drop_bit_eq packed_bit [OF V] algebra_simps)
  qed
  then show ?thesis by (simp only: lane_def shifted_bits)
qed

subsection \<open>The filter on channels\<close>

lemma tri_of_int: "tri r n (\<lambda>x. of_int (f x) :: 'a::comm_ring_1) x = of_int (tri r n f x)"
  by (simp add: tri_def)

lemma tri_add: "tri r n (\<lambda>x. f x + g x) x = tri r n f x + tri r n g x"
  by (simp add: tri_def distrib_left sum.distrib)

lemma tri_scale: "tri r n (\<lambda>x. c * f x) x = c * tri r n f x"
  by (simp add: tri_def sum_distrib_left mult.left_commute)

lemma tri_cong:
  assumes "0 < n" "\<And>i. 0 \<le> i \<Longrightarrow> i < n \<Longrightarrow> f i = g i"
  shows "tri r n f x = tri r n g x"
  unfolding tri_def using clamp_range [OF assms(1)] assms(2) by (intro sum.cong) auto

lemma tri_const: "tri r n (\<lambda>x. c) x = of_int ((int r + 1) ^ 2) * c"
proof (induction r)
  case 0
  then show ?case by (simp add: tri_def)
next
  case (Suc r)
  then show ?case by (simp add: tri_Suc power2_eq_square algebra_simps)
qed

lemma tri_mono:
  fixes f g :: "int \<Rightarrow> int"
  assumes "\<And>i. f i \<le> g i"
  shows "tri r n f x \<le> tri r n g x"
  unfolding tri_def by (intro sum_mono mult_left_mono) (use assms in auto)

lemma tri_bounds:
  fixes f :: "int \<Rightarrow> int"
  assumes "\<And>i. 0 \<le> f i" "\<And>i. f i \<le> 255"
  shows "0 \<le> tri r n f x" "tri r n f x \<le> 255 * (int r + 1) ^ 2"
  using tri_mono [of "\<lambda>i. 0" f r n x] tri_mono [of f "\<lambda>i. 255" r n x] assms tri_const [of r n "0 :: int" x] tri_const [of r n "255 :: int" x]
  by simp_all

lemma tri_packed: "tri r n (\<lambda>x. packed (V x)) x = packed (\<lambda>c. tri r n (\<lambda>x. V x c) x)"
  unfolding packed_def tri_of_int tri_add tri_scale ..

lemma tri_lanes_ok:
  assumes "r \<le> 15" "\<And>i c. 0 \<le> V i c" "\<And>i c. V i c \<le> 255"
  shows "lanes_ok (\<lambda>c. tri r n (\<lambda>i. V i c) x)"
proof -
  have "(int r + 1) ^ 2 \<le> 16 ^ 2" using assms(1) by (intro power_mono) simp_all
  then have "255 * (int r + 1) ^ 2 < 2 ^ 16" by simp
  then show ?thesis using tri_bounds [of "\<lambda>i. V i _" r n x] assms(2,3) by (auto simp: lanes_ok_def intro: order_le_less_trans)
qed

text \<open>The specification: filter every channel along the rows, then along the columns, each time dividing by
  a power of two.\<close>

definition row_ref :: "(byte list \<Rightarrow> nat \<Rightarrow> int) \<Rightarrow> nat \<Rightarrow> nat \<Rightarrow> nat \<Rightarrow> byte list list \<Rightarrow> nat \<Rightarrow> nat \<Rightarrow> int" where
  "row_ref chan r s w ps k = shifted s (\<lambda>c. tri r (int w) (\<lambda>x. chan (ps ! (k div w * w + nat x)) c) (int (k mod w)))"

definition blur_ref :: "(byte list \<Rightarrow> nat \<Rightarrow> int) \<Rightarrow> nat \<Rightarrow> nat \<Rightarrow> nat \<Rightarrow> nat \<Rightarrow> byte list list \<Rightarrow> nat \<Rightarrow> nat \<Rightarrow> int" where
  "blur_ref chan r s w h ps k = shifted s (\<lambda>c. tri r (int h) (\<lambda>y. row_ref chan r s w ps (nat y * w + k mod w) c) (int (k div w)))"
subsection \<open>Pixel formats\<close>

text \<open>What the two passes need of a pixel format: reading packs its channels, storing uses the low bytes of
  the three lanes, and both touch the bytes of one pixel only.\<close>

locale pixel_format =
  fixes bpp :: nat
    and getc :: "byte list \<Rightarrow> int \<Rightarrow> ulong option"
    and putc :: "byte list \<Rightarrow> int \<Rightarrow> ulong \<Rightarrow> byte list option"
    and chan :: "byte list \<Rightarrow> nat \<Rightarrow> int"
    and enc :: "byte list \<Rightarrow> (nat \<Rightarrow> int) \<Rightarrow> byte list"
  assumes getc: "length p = bpp \<Longrightarrow> getc (pre @ p @ post) (int (length pre)) = Some (packed (chan p))"
    and putc: "length p = bpp \<Longrightarrow> putc (pre @ p @ post) (int (length pre)) v = Some (pre @ enc p (lane v) @ post)"
    and chan_range: "0 \<le> chan p c" "chan p c \<le> 255"
    and enc_length: "length p = bpp \<Longrightarrow> length (enc p V) = bpp"
    and enc_cong: "(\<And>c. c < 3 \<Longrightarrow> V c = V' c) \<Longrightarrow> enc p V = enc p V'"
begin

definition pixmap :: "byte list list \<Rightarrow> byte list \<Rightarrow> byte list" where
  "pixmap ps rest = concat ps @ rest"

definition pixels_ok :: "nat \<Rightarrow> byte list list \<Rightarrow> bool" where
  "pixels_ok N ps \<longleftrightarrow> length ps = N \<and> (\<forall>p \<in> set ps. length p = bpp)"

lemma pixmap_split:
  assumes "pixels_ok N ps" "k < N"
  shows "pixmap ps rest = concat (take k ps) @ ps ! k @ (concat (drop (Suc k) ps) @ rest)"
    and "length (concat (take k ps)) = k * bpp" and "length (ps ! k) = bpp"
proof -
  have k: "k < length ps" and l: "\<forall>p \<in> set ps. length p = bpp" using assms by (auto simp: pixels_ok_def)
  have "concat ps = concat (take k ps @ ps ! k # drop (Suc k) ps)" using id_take_nth_drop [OF k] by simp
  then show "pixmap ps rest = concat (take k ps) @ ps ! k @ (concat (drop (Suc k) ps) @ rest)" by (simp add: pixmap_def)
  have "length (concat qs) = length qs * bpp" if "\<forall>p \<in> set qs. length p = bpp" for qs :: "byte list list"
    using that by (induction qs) simp_all
  then have "length (concat (take k ps)) = length (take k ps) * bpp" using l by (meson in_set_takeD)
  then show "length (concat (take k ps)) = k * bpp" using k by simp
  show "length (ps ! k) = bpp" using k l by simp
qed

lemma get_pixel: "pixels_ok N ps \<Longrightarrow> k < N \<Longrightarrow> getc (pixmap ps rest) (int (k * bpp)) = Some (packed (chan (ps ! k)))"
  using pixmap_split(1) [of N ps k rest] pixmap_split(2,3) [of N ps k] getc [of "ps ! k" "concat (take k ps)"] by simp

lemma put_pixel:
  assumes "pixels_ok N ps" "k < N"
  shows "putc (pixmap ps rest) (int (k * bpp)) v = Some (pixmap (ps[k := enc (ps ! k) (lane v)]) rest)"
    and "pixels_ok N (ps[k := enc (ps ! k) (lane v)])"
proof -
  have k: "k < length ps" using assms by (simp add: pixels_ok_def)
  show "putc (pixmap ps rest) (int (k * bpp)) v = Some (pixmap (ps[k := enc (ps ! k) (lane v)]) rest)"
    using pixmap_split(1) [OF assms, of rest] pixmap_split(2,3) [OF assms] putc [of "ps ! k" "concat (take k ps)" _ v] k by (simp add: pixmap_def upd_conv_take_nth_drop)
  show "pixels_ok N (ps[k := enc (ps ! k) (lane v)])"
    using assms enc_length pixmap_split(3) [OF assms] by (auto simp: pixels_ok_def dest!: set_update_subset_insert [THEN subsetD])
qed

lemma row_line:
  assumes ps: "pixels_ok (w * h) ps" and r: "2 * r + 1 < w" "r \<le> 15" and s: "s \<le> 8" and y: "y < h" and l: "length rgb = w * h"
  shows "blur_line (\<lambda>x. getc (pixmap ps rest) (int y * int (w * bpp) + x * int bpp))
      (\<lambda>rgb x rgbsum. wr rgb (int y * int w + x) (drop_bit s rgbsum AND 0x00FF00FF00FF00FF)) (int w) (int r) rgb =
    Some (map (\<lambda>k. if k div w = y then packed (row_ref chan r s w ps k) else rgb ! k) [0 ..< w * h])"
proof -
  let ?f = "\<lambda>x. packed (chan (ps ! (y * w + nat x)))"
  let ?e = "\<lambda>rgb x rgbsum. wr rgb (int y * int w + x) (drop_bit s rgbsum AND 0x00FF00FF00FF00FF :: ulong)"
  let ?h = "\<lambda>v (u :: ulong). drop_bit s v AND 0x00FF00FF00FF00FF"
  let ?idx = "\<lambda>x. y * w + x"
  have le: "y * w + x < w * h" if "x < w" for x
  proof -
    have "y * w + x < Suc y * w" using that by simp
    also have "\<dots> \<le> h * w" using y by (intro mult_le_mono1) simp
    finally show ?thesis by (simp add: mult.commute)
  qed
  have g: "getc (pixmap ps rest) (int y * int (w * bpp) + x * int bpp) = Some (?f x)" if "0 \<le> x" "x < int w" for x
  proof -
    have "int y * int (w * bpp) + x * int bpp = int ((y * w + nat x) * bpp)" using that by (simp add: algebra_simps)
    then show ?thesis using get_pixel [OF ps le [of "nat x"], of rest] that by simp
  qed
  have step: "?e a (int x) v = Some (a[?idx x := ?h v (a ! ?idx x)]) \<and> length (a[?idx x := ?h v (a ! ?idx x)]) = w * h"
    if "length a = w * h" "x < w" for a x v
  proof -
    have "int y * int w + int x = int (?idx x)" by simp
    then show ?thesis using that le [of x] by (simp only: wr_nat length_list_update if_True)
  qed
  have "blur_line (\<lambda>x. getc (pixmap ps rest) (int y * int (w * bpp) + x * int bpp)) ?e (int w) (int r) rgb =
      emit_from ?e (tri r (int w) ?f) w 0 rgb"
    using blur_line_ok [of "int w" _ ?f r, OF g] r by simp
  also have "\<dots> = Some (upd_from ?idx ?h (tri r (int w) ?f) w 0 rgb)"
    using emit_from_upd [of "\<lambda>a. length a = w * h" w ?e "\<lambda>a. a" ?idx ?h rgb 0 w "tri r (int w) ?f", OF step l] by simp
  also have "upd_from ?idx ?h (tri r (int w) ?f) w 0 rgb =
      map (\<lambda>k. if k div w = y then packed (row_ref chan r s w ps k) else rgb ! k) [0 ..< w * h]"
  proof (rule nth_equalityI)
    fix k assume "k < length (upd_from ?idx ?h (tri r (int w) ?f) w 0 rgb)"
    then have k: "k < w * h" using l by simp
    show "upd_from ?idx ?h (tri r (int w) ?f) w 0 rgb ! k = map (\<lambda>k. if k div w = y then packed (row_ref chan r s w ps k) else rgb ! k) [0 ..< w * h] ! k"
    proof (cases "k div w = y")
      case True
      have m: "k mod w < w" "?idx (k mod w) = k" using r True by (auto simp: mult.commute)
      have "upd_from ?idx ?h (tri r (int w) ?f) w 0 rgb ! ?idx (k mod w) = ?h (tri r (int w) ?f (int (k mod w))) (rgb ! ?idx (k mod w))"
        by (rule upd_from_at) (use m k l in \<open>auto intro: injI\<close>)
      moreover have "drop_bit s (tri r (int w) ?f (int (k mod w))) AND 0x00FF00FF00FF00FF = packed (row_ref chan r s w ps k)"
        unfolding tri_packed row_ref_def True
        by (rule packed_shift [OF tri_lanes_ok [OF r(2)] s]) (rule chan_range)+
      ultimately show ?thesis using True m k by simp
    next
      case False
      have "upd_from ?idx ?h (tri r (int w) ?f) w 0 rgb ! k = rgb ! k" by (rule upd_from_other) (use False r in auto)
      then show ?thesis using False k by simp
    qed
  qed (simp add: l)
  finally show ?thesis .
qed

lemma rows_ok:
  assumes ps: "pixels_ok (w * h) ps" and r: "2 * r + 1 < w" "r \<le> 15" and s: "s \<le> 8"
  shows "y + n \<le> h \<Longrightarrow> length rgb = w * h \<Longrightarrow>
    blur_rows getc (int bpp) (int w) (int (w * bpp)) (int r) s (pixmap ps rest) (int y) n rgb =
    Some (map (\<lambda>k. if y \<le> k div w \<and> k div w < y + n then packed (row_ref chan r s w ps k) else rgb ! k) [0 ..< w * h])"
proof (induction n arbitrary: y rgb)
  case 0
  then show ?case by (auto intro!: nth_equalityI)
next
  case (Suc n)
  let ?rgb = "map (\<lambda>k. if k div w = y then packed (row_ref chan r s w ps k) else rgb ! k) [0 ..< w * h]"
  have "int y + 1 = int (Suc y)" by simp
  moreover have "blur_line (\<lambda>x. getc (pixmap ps rest) (int y * int (w * bpp) + x * int bpp))
      (\<lambda>rgb x rgbsum. wr rgb (int y * int w + x) (drop_bit s rgbsum AND 0x00FF00FF00FF00FF)) (int w) (int r) rgb = Some ?rgb"
    by (rule row_line [OF ps r s]) (use Suc.prems in simp_all)
  moreover have "blur_rows getc (int bpp) (int w) (int (w * bpp)) (int r) s (pixmap ps rest) (int (Suc y)) n ?rgb =
      Some (map (\<lambda>k. if Suc y \<le> k div w \<and> k div w < Suc y + n then packed (row_ref chan r s w ps k) else ?rgb ! k) [0 ..< w * h])"
    by (rule Suc.IH) (use Suc.prems in simp_all)
  moreover have "map (\<lambda>k. if Suc y \<le> k div w \<and> k div w < Suc y + n then packed (row_ref chan r s w ps k) else ?rgb ! k) [0 ..< w * h] =
      map (\<lambda>k. if y \<le> k div w \<and> k div w < y + Suc n then packed (row_ref chan r s w ps k) else rgb ! k) [0 ..< w * h]"
    by (rule map_cong) auto
  ultimately show ?case by (simp only: blur_rows.simps bind.bind_lunit)
qed

lemma col_line:
  assumes qs: "pixels_ok (w * h) qs" and r: "2 * r + 1 < h" "r \<le> 15" and s: "s \<le> 8" and x: "x < w"
    and rgb: "rgb = map (\<lambda>k. packed (row_ref chan r s w ps k)) [0 ..< w * h]"
  shows "blur_line (\<lambda>y. rd rgb (int x + y * int w))
      (\<lambda>pix y rgbsum. putc pix (int x * int bpp + y * int (w * bpp)) (drop_bit s rgbsum)) (int h) (int r) (pixmap qs rest) =
    Some (pixmap (map (\<lambda>k. if k mod w = x then enc (qs ! k) (blur_ref chan r s w h ps k) else qs ! k) [0 ..< w * h]) rest)"
    and "pixels_ok (w * h) (map (\<lambda>k. if k mod w = x then enc (qs ! k) (blur_ref chan r s w h ps k) else qs ! k) [0 ..< w * h])"
proof -
  let ?f = "\<lambda>y. packed (row_ref chan r s w ps (nat y * w + x))"
  let ?e = "\<lambda>pix y rgbsum. putc pix (int x * int bpp + y * int (w * bpp)) (drop_bit s rgbsum)"
  let ?h = "\<lambda>v p. enc p (lane (drop_bit s v))"
  let ?idx = "\<lambda>y. y * w + x"
  let ?out = "map (\<lambda>k. if k mod w = x then enc (qs ! k) (blur_ref chan r s w h ps k) else qs ! k) [0 ..< w * h]"
  have le: "y * w + x < w * h" if "y < h" for y
  proof -
    have "y * w + x < Suc y * w" using x by simp
    also have "\<dots> \<le> h * w" using that by (intro mult_le_mono1) simp
    finally show ?thesis by (simp add: mult.commute)
  qed
  have g: "rd rgb (int x + y * int w) = Some (?f y)" if "0 \<le> y" "y < int h" for y
  proof -
    have e: "int x + y * int w = int (nat y * w + x)" using that by simp
    show ?thesis unfolding e rd_nat using le [of "nat y"] that by (simp add: rgb)
  qed
  have step: "?e (pixmap a rest) (int y) v = Some (pixmap (a[?idx y := ?h v (a ! ?idx y)]) rest) \<and> pixels_ok (w * h) (a[?idx y := ?h v (a ! ?idx y)])"
    if "pixels_ok (w * h) a" "y < h" for a y v
  proof -
    have "int x * int bpp + int y * int (w * bpp) = int (?idx y * bpp)" by (simp add: algebra_simps)
    then show ?thesis using put_pixel(1) [OF that(1) le [OF that(2)], of rest "drop_bit s v"]
        put_pixel(2) [OF that(1) le [OF that(2)], of "drop_bit s v"] by simp
  qed
  have inj: "inj ?idx" using x by (auto intro: injI)
  note up = emit_from_upd [of "pixels_ok (w * h)" h ?e "\<lambda>a. pixmap a rest" ?idx ?h qs 0 h "tri r (int h) ?f", OF step qs]
  have "blur_line (\<lambda>y. rd rgb (int x + y * int w)) ?e (int h) (int r) (pixmap qs rest) = emit_from ?e (tri r (int h) ?f) h 0 (pixmap qs rest)"
    using blur_line_ok [of "int h" _ ?f r, OF g] r by simp
  also have "\<dots> = Some (pixmap (upd_from ?idx ?h (tri r (int h) ?f) h 0 qs) rest)" using up by simp
  finally have l: "blur_line (\<lambda>y. rd rgb (int x + y * int w)) ?e (int h) (int r) (pixmap qs rest) =
    Some (pixmap (upd_from ?idx ?h (tri r (int h) ?f) h 0 qs) rest)" .
  have eq: "upd_from ?idx ?h (tri r (int h) ?f) h 0 qs = ?out"
  proof (rule nth_equalityI)
    fix k assume "k < length (upd_from ?idx ?h (tri r (int h) ?f) h 0 qs)"
    then have k: "k < w * h" using qs by (simp add: pixels_ok_def)
    show "upd_from ?idx ?h (tri r (int h) ?f) h 0 qs ! k = ?out ! k"
    proof (cases "k mod w = x")
      case True
      have m: "k div w < h" "?idx (k div w) = k" using k True div_mult_mod_eq [of k w] by (auto simp: less_mult_imp_div_less mult.commute)
      have "upd_from ?idx ?h (tri r (int h) ?f) h 0 qs ! ?idx (k div w) = ?h (tri r (int h) ?f (int (k div w))) (qs ! ?idx (k div w))"
        by (rule upd_from_at [OF inj]) (use m k qs in \<open>auto simp: pixels_ok_def\<close>)
      moreover have "enc p (lane (drop_bit s (tri r (int h) ?f (int (k div w))))) = enc p (blur_ref chan r s w h ps k)" for p
        unfolding tri_packed blur_ref_def True
        by (rule enc_cong, rule lane_shift [OF tri_lanes_ok [OF r(2)] s]) (simp_all only: row_ref_def shifted_range)
      ultimately show ?thesis using True m k by simp
    next
      case False
      have "upd_from ?idx ?h (tri r (int h) ?f) h 0 qs ! k = qs ! k" by (rule upd_from_other) (use False x in auto)
      then show ?thesis using False k by simp
    qed
  qed (use qs in \<open>simp add: pixels_ok_def\<close>)
  show "blur_line (\<lambda>y. rd rgb (int x + y * int w)) ?e (int h) (int r) (pixmap qs rest) = Some (pixmap ?out rest)" using l eq by simp
  show "pixels_ok (w * h) ?out" using up eq by simp
qed

lemma cols_ok:
  assumes r: "2 * r + 1 < h" "r \<le> 15" and s: "s \<le> 8" and rgb: "rgb = map (\<lambda>k. packed (row_ref chan r s w ps k)) [0 ..< w * h]"
  shows "x + n \<le> w \<Longrightarrow> pixels_ok (w * h) qs \<Longrightarrow>
    blur_cols putc (int bpp) (int w) (int h) (int (w * bpp)) (int r) s rgb (int x) n (pixmap qs rest) =
    Some (pixmap (map (\<lambda>k. if x \<le> k mod w \<and> k mod w < x + n then enc (qs ! k) (blur_ref chan r s w h ps k) else qs ! k) [0 ..< w * h]) rest)"
proof (induction n arbitrary: x qs)
  case 0
  have "map (\<lambda>k. if x \<le> k mod w \<and> k mod w < x + 0 then enc (qs ! k) (blur_ref chan r s w h ps k) else qs ! k) [0 ..< w * h] = qs"
    using 0 by (auto simp: pixels_ok_def intro!: nth_equalityI)
  then show ?case by (simp only: blur_cols.simps)
next
  case (Suc n)
  let ?qs = "map (\<lambda>k. if k mod w = x then enc (qs ! k) (blur_ref chan r s w h ps k) else qs ! k) [0 ..< w * h]"
  have x: "x < w" using Suc.prems by simp
  note line = col_line [OF Suc.prems(2) r s x rgb]
  have "int x + 1 = int (Suc x)" by simp
  moreover have "blur_cols putc (int bpp) (int w) (int h) (int (w * bpp)) (int r) s rgb (int (Suc x)) n (pixmap ?qs rest) =
      Some (pixmap (map (\<lambda>k. if Suc x \<le> k mod w \<and> k mod w < Suc x + n then enc (?qs ! k) (blur_ref chan r s w h ps k) else ?qs ! k) [0 ..< w * h]) rest)"
    by (rule Suc.IH [OF _ line(2)]) (use Suc.prems in simp)
  moreover have "map (\<lambda>k. if Suc x \<le> k mod w \<and> k mod w < Suc x + n then enc (?qs ! k) (blur_ref chan r s w h ps k) else ?qs ! k) [0 ..< w * h] =
      map (\<lambda>k. if x \<le> k mod w \<and> k mod w < x + Suc n then enc (qs ! k) (blur_ref chan r s w h ps k) else qs ! k) [0 ..< w * h]"
    by (rule map_cong) auto
  ultimately show ?case by (simp only: blur_cols.simps line(1) bind.bind_lunit)
qed

lemma passes_ok:
  assumes ps: "pixels_ok (w * h) ps" and r: "2 * r + 1 < w" "2 * r + 1 < h" "r \<le> 15" and s: "s \<le> 8" and l: "length rgb = w * h"
  shows "blur_passes getc putc (int bpp) (int w) (int h) (int (w * bpp)) (int r) s rgb (pixmap ps rest) =
    Some (pixmap (map (\<lambda>k. enc (ps ! k) (blur_ref chan r s w h ps k)) [0 ..< w * h]) rest)"
proof -
  have w: "0 < w" using r by simp
  have m: "map (\<lambda>k. if 0 \<le> k div w \<and> k div w < 0 + h then packed (row_ref chan r s w ps k) else rgb ! k) [0 ..< w * h] =
      map (\<lambda>k. packed (row_ref chan r s w ps k)) [0 ..< w * h]"
    by (rule map_cong) (auto simp: less_mult_imp_div_less mult.commute)
  have m': "map (\<lambda>k. if 0 \<le> k mod w \<and> k mod w < 0 + w then enc (ps ! k) (blur_ref chan r s w h ps k) else ps ! k) [0 ..< w * h] =
      map (\<lambda>k. enc (ps ! k) (blur_ref chan r s w h ps k)) [0 ..< w * h]"
    using w by (intro map_cong) auto
  have "blur_rows getc (int bpp) (int w) (int (w * bpp)) (int r) s (pixmap ps rest) (int 0) h rgb =
      Some (map (\<lambda>k. packed (row_ref chan r s w ps k)) [0 ..< w * h])"
    using rows_ok [OF ps r(1,3) s, of 0 h rgb rest] l unfolding m by simp
  moreover have "blur_cols putc (int bpp) (int w) (int h) (int (w * bpp)) (int r) s (map (\<lambda>k. packed (row_ref chan r s w ps k)) [0 ..< w * h]) (int 0) w (pixmap ps rest) =
      Some (pixmap (map (\<lambda>k. enc (ps ! k) (blur_ref chan r s w h ps k)) [0 ..< w * h]) rest)"
    using cols_ok [OF r(2,3) s refl, where x = 0 and n = w and qs = ps and ps = ps and rest = rest and w = w] ps unfolding m' by simp
  ultimately show ?thesis by (simp add: blur_passes_def)
qed
end

end
