(* ===== verification/Blur_Correct.thy ===== *)
theory Blur_Correct
  imports Blur_Filter
begin

unbundle bit_operations_syntax

section \<open>Correctness of the blur\<close>

text \<open>
  The two pixel formats as interpretations of \<open>pixel_format\<close>, and the properties of the four variants and
  of the entry point.
\<close>

subsection \<open>The two formats\<close>

definition rgba_chan :: "byte list \<Rightarrow> nat \<Rightarrow> int" where
  "rgba_chan p c = uint (p ! c)"

definition rgba_enc :: "byte list \<Rightarrow> (nat \<Rightarrow> int) \<Rightarrow> byte list" where
  "rgba_enc p V = [word_of_int (V 0), word_of_int (V 1), word_of_int (V 2), p ! 3]"

definition px565 :: "byte list \<Rightarrow> int" where
  "px565 p = uint (p ! 0) + uint (p ! 1) * 256"

definition rgb565_chan :: "byte list \<Rightarrow> nat \<Rightarrow> int" where
  "rgb565_chan p c = (if c = 0 then (px565 p div 2 ^ 11) * 255 div 31
     else if c = 1 then (px565 p div 2 ^ 5 mod 64) * 255 div 63 else (px565 p mod 32) * 255 div 31)"

definition rgb565_enc :: "byte list \<Rightarrow> (nat \<Rightarrow> int) \<Rightarrow> byte list" where
  "rgb565_enc p V = [word_of_int (V 1 div 4 mod 8 * 32 + V 2 div 8 mod 32), word_of_int (V 0 div 8 mod 32 * 8 + V 1 div 32 mod 8)]"

lemma list4: "length p = 4 \<Longrightarrow> \<exists>a b c d. p = [a, b, c, d]"
  by (auto simp: length_Suc_conv eval_nat_numeral)

lemma list2: "length p = 2 \<Longrightarrow> \<exists>a b. p = [a, b]"
  by (auto simp: length_Suc_conv eval_nat_numeral)

lemma rd_append: "rd (pre @ xs) (int (length pre) + int i) = rd xs (int i)"
  by (simp add: rd_def nth_append nat_add_distrib)

lemma wr_appended: "wr (pre @ xs) (int (length pre) + int i) v = map_option (\<lambda>ys. pre @ ys) (wr xs (int i) v)"
  by (simp add: wr_def list_update_append nat_add_distrib)

lemmas rd_append' = rd_append [of _ _ 0, simplified] rd_append [of _ _ 1, simplified] rd_append [of _ _ 2, simplified]
lemma wr_appended':
  "wr (pre @ a # xs) (int (length pre)) v = Some (pre @ v # xs)"
  "wr (pre @ a # b # xs) (int (length pre) + 1) v = Some (pre @ a # v # xs)"
  "wr (pre @ a # b # c # xs) (int (length pre) + 2) v = Some (pre @ a # b # v # xs)"
  using wr_appended [of pre "a # xs" 0 v] wr_appended [of pre "a # b # xs" 1 v] wr_appended [of pre "a # b # c # xs" 2 v]
  by (simp_all add: wr_def)

lemma byte_range: "uint (b :: byte) < 256" "0 \<le> uint (b :: byte)"
  using unsigned_less [of b] by simp_all

lemma rgba_getc: "getColors (pre @ [a, b, c, d] @ post) (int (length pre)) = Some (packed (rgba_chan [a, b, c, d]))"
proof -
  have "(ucast a + push_bit 16 (ucast b) + push_bit 32 (ucast c) :: ulong) = of_int (uint a + 2 ^ 16 * uint b + 2 ^ 32 * uint c)"
    by (simp add: push_bit_eq_mult)
  then show ?thesis unfolding getColors_def rd_append' by (simp add: packed_def rgba_chan_def rd_def)
qed

lemma lane_byte: "word_of_int (lane v c) = (ucast (drop_bit (16 * c) v) :: byte)"
  by (rule bit_word_eqI) (auto simp: lane_def bit_simps)

lemma rgba_putc: "putColors (pre @ [a, b, c, d] @ post) (int (length pre)) v = Some (pre @ rgba_enc [a, b, c, d] (lane v) @ post)"
  by (simp add: putColors_def wr_appended' rgba_enc_def lane_byte)

interpretation rgba: pixel_format 4 getColors putColors rgba_chan rgba_enc
proof (unfold_locales, goal_cases)
  case (1 p pre post)
  then show ?case using list4 [of p] rgba_getc by auto
next
  case (2 p pre post v)
  then show ?case using list4 [of p] rgba_putc by auto
next
  case (4 p c)
  have "uint (p ! c) < 2 ^ 8" using byte_range [of "p ! c"] by simp
  then show ?case by (simp add: rgba_chan_def)
qed (simp_all add: rgba_chan_def rgba_enc_def)

lemma and_field: "0 \<le> x \<Longrightarrow> x AND (push_bit k (mask m)) = push_bit k (x div 2 ^ k mod 2 ^ m)" for x :: int
  by (rule bit_eqI) (auto simp: bit_simps simp flip: take_bit_eq_mod drop_bit_eq_div)

lemma masks565: "0xF800 = push_bit 11 (mask 5 :: int)" "0x07E0 = push_bit 5 (mask 6 :: int)" "0x001F = push_bit 0 (mask 5 :: int)"
  by (simp_all add: mask_eq_exp_minus_1 push_bit_eq_mult)

lemma rgb565_getc: "getColors565 (pre @ [a, b] @ post) (int (length pre)) = Some (packed (rgb565_chan [a, b]))"
proof -
  let ?p = "uint a + uint b * 256"
  have p: "0 \<le> ?p" "?p < 2 ^ 16" using byte_range [of a] byte_range [of b] by auto
  have h: "?p div 2 ^ 11 mod 2 ^ 5 = ?p div 2 ^ 11" using p by (intro mod_pos_pos_trivial) (simp_all add: div_int_pos_iff)
  have f: "(?p AND 0xF800) div 2 ^ 11 = ?p div 2 ^ 11" "(?p AND 0x07E0) div 2 ^ 5 = ?p div 2 ^ 5 mod 64" "?p AND 0x001F = ?p mod 32"
    unfolding masks565 and_field [OF p(1)] using p h by (simp_all add: push_bit_eq_mult)
  show ?thesis
    unfolding getColors565_def rd_append'
    by (simp add: rd_def f [simplified] packed_def rgb565_chan_def px565_def push_bit_eq_mult Let_def mult.commute)
qed

lemma lane_range: "0 \<le> lane v c" "lane v c < 256"
  using byte_range [of "ucast (drop_bit (16 * c) v)"] by (simp_all add: lane_def take_bit_eq_mod uint_mod)

lemma lane_bit: "bit (lane v c) n \<longleftrightarrow> n < 8 \<and> bit v (16 * c + n)"
  by (auto simp: lane_def bit_simps)

lemma pair_bits:
  "x div 2 ^ j mod 2 ^ m * 2 ^ k + y div 2 ^ i mod 2 ^ k = concat_bit k (drop_bit i y) (take_bit m (drop_bit j x))" for x y :: int
  by (simp add: concat_bit_eq push_bit_eq_mult take_bit_eq_mod drop_bit_eq_div)

lemma byte_masks: "0xe0 = (push_bit 5 (mask 3) :: ulong)" "0x1f = (mask 5 :: ulong)" "0xf8 = (push_bit 3 (mask 5) :: ulong)" "0x7 = (mask 3 :: ulong)"
  by (simp_all add: mask_eq_exp_minus_1 push_bit_eq_mult)

lemma rgb565_low:
  "ucast ((drop_bit 13 v AND 0xe0) OR (drop_bit 35 v AND 0x1f)) = (word_of_int (lane v 1 div 2 ^ 2 mod 2 ^ 3 * 2 ^ 5 + lane v 2 div 2 ^ 3 mod 2 ^ 5) :: byte)"
proof (rule bit_word_eqI)
  fix n assume "n < LENGTH(8)"
  then show "bit (ucast ((drop_bit 13 v AND 0xe0) OR (drop_bit 35 v AND 0x1f)) :: byte) n =
      bit (word_of_int (lane v 1 div 2 ^ 2 mod 2 ^ 3 * 2 ^ 5 + lane v 2 div 2 ^ 3 mod 2 ^ 5) :: byte) n"
    unfolding pair_bits byte_masks
    by (auto simp: bit_simps bit_concat_bit_iff lane_bit)
qed

lemma rgb565_high:
  "ucast ((v AND 0xf8) OR (drop_bit 21 v AND 0x7)) = (word_of_int (lane v 0 div 2 ^ 3 mod 2 ^ 5 * 2 ^ 3 + lane v 1 div 2 ^ 5 mod 2 ^ 3) :: byte)"
proof (rule bit_word_eqI)
  fix n assume "n < LENGTH(8)"
  then show "bit (ucast ((v AND 0xf8) OR (drop_bit 21 v AND 0x7)) :: byte) n =
      bit (word_of_int (lane v 0 div 2 ^ 3 mod 2 ^ 5 * 2 ^ 3 + lane v 1 div 2 ^ 5 mod 2 ^ 3) :: byte) n"
    unfolding pair_bits byte_masks
    by (auto simp: bit_simps bit_concat_bit_iff lane_bit)
qed

lemma rgb565_putc: "putColors565 (pre @ [a, b] @ post) (int (length pre)) v = Some (pre @ rgb565_enc [a, b] (lane v) @ post)"
  using rgb565_low [of v] rgb565_high [of v] by (simp add: putColors565_def wr_appended' rgb565_enc_def)

interpretation rgb565: pixel_format 2 getColors565 putColors565 rgb565_chan rgb565_enc
proof (unfold_locales, goal_cases)
  case (1 p pre post)
  then show ?case using list2 [of p] rgb565_getc by auto
next
  case (2 p pre post v)
  then show ?case using list2 [of p] rgb565_putc by auto
next
  case (3 p c)
  have "0 \<le> px565 p" by (simp add: px565_def)
  then show ?case by (simp add: rgb565_chan_def div_int_pos_iff)
next
  case (4 p c)
  have "px565 p div 2 ^ 11 < 32" using byte_range [of "p ! 0"] byte_range [of "p ! 1"] by (simp add: px565_def)
  moreover have "px565 p mod 32 < 32" "px565 p div 2 ^ 5 mod 64 < 64" by simp_all
  ultimately have "px565 p div 2 ^ 11 * 255 div 31 \<le> 255" "px565 p div 2 ^ 5 mod 64 * 255 div 63 \<le> 255" "px565 p mod 32 * 255 div 31 \<le> 255"
    by linarith+
  then show ?case unfolding rgb565_chan_def by (simp only: split: if_splits) simp
qed (simp_all add: rgb565_enc_def)

subsection \<open>Blurring whole images\<close>

text \<open>The weighted mean over a clamped neighbourhood, along the rows and then along the columns.\<close>

definition tri_mean :: "nat \<Rightarrow> int \<Rightarrow> (int \<Rightarrow> int) \<Rightarrow> int \<Rightarrow> int" where
  "tri_mean r n f x = tri r n f x div (int r + 1) ^ 2"

definition blur_spec :: "(byte list \<Rightarrow> nat \<Rightarrow> int) \<Rightarrow> nat \<Rightarrow> nat \<Rightarrow> nat \<Rightarrow> byte list list \<Rightarrow> nat \<Rightarrow> nat \<Rightarrow> int" where
  "blur_spec chan r w h ps k c =
     tri_mean r (int h) (\<lambda>y. tri_mean r (int w) (\<lambda>x. chan (ps ! (nat y * w + nat x)) c) (int (k mod w))) (int (k div w))"

lemma tri_mean_range:
  assumes "\<And>i. 0 \<le> f i" "\<And>i. f i \<le> 255"
  shows "0 \<le> tri_mean r n f x" "tri_mean r n f x \<le> 255"
proof -
  have q: "0 < (int r + 1) ^ 2" by simp
  note b = tri_bounds [of f r n x, OF assms]
  show "0 \<le> tri_mean r n f x" using b(1) q by (simp add: tri_mean_def pos_imp_zdiv_nonneg_iff)
  have "tri r n f x div (int r + 1) ^ 2 \<le> 255 * (int r + 1) ^ 2 div (int r + 1) ^ 2" by (rule zdiv_mono1 [OF b(2) q])
  then show "tri_mean r n f x \<le> 255" by (simp add: tri_mean_def)
qed

lemma shifted_mean:
  assumes "2 ^ s = (int r + 1) ^ 2" "\<And>i. 0 \<le> V i c" "\<And>i. V i c \<le> 255"
  shows "shifted s (\<lambda>c. tri r n (\<lambda>i. V i c) x) c = tri_mean r n (\<lambda>i. V i c) x"
  using tri_mean_range [of "\<lambda>i. V i c" r n x] assms by (simp add: shifted_def tri_mean_def)

lemma blur_ref_spec:
  assumes s: "2 ^ s = (int r + 1) ^ 2" and w: "0 < w" and c: "\<And>p c. 0 \<le> chan p c" "\<And>p c. chan p c \<le> 255"
  shows "blur_ref chan r s w h ps k = blur_spec chan r w h ps k"
proof
  fix c
  have row: "row_ref chan r s w ps (nat y * w + k mod w) = (\<lambda>c. tri_mean r (int w) (\<lambda>x. chan (ps ! (nat y * w + nat x)) c) (int (k mod w)))" for y
  proof
    fix c
    have "(nat y * w + k mod w) div w = nat y" "(nat y * w + k mod w) mod w = k mod w" using w by simp_all
    then show "row_ref chan r s w ps (nat y * w + k mod w) c = tri_mean r (int w) (\<lambda>x. chan (ps ! (nat y * w + nat x)) c) (int (k mod w))"
      unfolding row_ref_def using shifted_mean [OF s, of "\<lambda>x. chan (ps ! (nat y * w + nat x))"] assms(3,4) by simp
  qed
  have "shifted s (\<lambda>c. tri r (int h) (\<lambda>y. tri_mean r (int w) (\<lambda>x. chan (ps ! (nat y * w + nat x)) c) (int (k mod w))) (int (k div w))) c =
      tri_mean r (int h) (\<lambda>y. tri_mean r (int w) (\<lambda>x. chan (ps ! (nat y * w + nat x)) c) (int (k mod w))) (int (k div w))"
    by (rule shifted_mean [OF s]) (use tri_mean_range assms(3,4) in auto)
  then show "blur_ref chan r s w h ps k c = blur_spec chan r w h ps k c" unfolding blur_ref_def blur_spec_def row .
qed

lemma length_concat_same: "\<forall>p \<in> set qs. length p = b \<Longrightarrow> length (concat qs) = length qs * b"
  by (induction qs) simp_all

lemma split_pixels: "length xs = n * b \<Longrightarrow> \<exists>ps. xs = concat ps \<and> length ps = n \<and> (\<forall>p \<in> set ps. length p = b)"
proof (induction n arbitrary: xs)
  case (Suc n)
  obtain ps where ps: "drop b xs = concat ps" "length ps = n" "\<forall>p \<in> set ps. length p = b" using Suc.IH [of "drop b xs"] Suc.prems by auto
  have "xs = concat (take b xs # ps)" using ps(1) by (metis append_take_drop_id concat.simps(2))
  then show ?case using ps Suc.prems by (intro exI [of _ "take b xs # ps"]) auto
qed simp

lemma blur_shift_cases:
  assumes "blur_shift (int r) = Some s"
  shows "2 ^ s = (int r + 1) ^ 2" "r \<le> 15" "s \<le> 8"
  using assms by (auto simp: blur_shift_def split: if_splits)

lemma blur_accepted:
  assumes "2 * r + 1 < w" "2 * r + 1 < h" "r \<le> 15" "w * h \<le> 22500" "b \<le> 4"
  shows "s32 (int r * 2 + 1) = Some (int r * 2 + 1)"
    and "blur_refused (int b) (int w) (int h) (int (w * b)) (int r) (int r * 2 + 1) = Some False"
proof -
  have "w * 1 \<le> w * h" using assms(2) by (intro mult_le_mono2) simp
  then have w: "w \<le> 22500" using assms(4) by linarith
  have "w * b \<le> 22500 * 4" using w assms(5) by (rule mult_le_mono)
  then have "w * b < 2 ^ 31" by simp
  then have "int (w * b) < 2 ^ 31" by (metis of_nat_less_iff of_nat_numeral of_nat_power)
  moreover have "- (2 ^ 31) \<le> int (w * b)" by (rule order_trans [of _ 0]) simp_all
  ultimately have "s32 (int w * int b) = Some (int (w * b))" by (simp add: s32_def)
  moreover have "s32 (int w * int h) = Some (int (w * h))" using assms(4) by (simp add: s32_def flip: of_nat_mult)
  moreover have "\<not> int w * int h > 22500" using assms(4) by (simp add: not_less flip: of_nat_mult)
  ultimately show "blur_refused (int b) (int w) (int h) (int (w * b)) (int r) (int r * 2 + 1) = Some False"
    using assms(1-4) by (simp add: blur_refused_def)
  show "s32 (int r * 2 + 1) = Some (int r * 2 + 1)" using assms(3) by (simp add: s32_def)
qed

lemma rgb_alloc_ok: "grant E (n * 8) \<Longrightarrow> \<exists>rgb. rgb_alloc E n = Some rgb \<and> length rgb = nat n"
  by (simp add: rgb_alloc_def)

context pixel_format
begin

text \<open>The filtered pixels, and the passes on an image whose rows follow each other without gaps.\<close>

definition blurred :: "nat \<Rightarrow> nat \<Rightarrow> nat \<Rightarrow> nat \<Rightarrow> byte list list \<Rightarrow> byte list list" where
  "blurred r s w h ps = map (\<lambda>k. enc (ps ! k) (blur_ref chan r s w h ps k)) [0 ..< w * h]"

lemma accepted_passes:
  assumes "length ps = w * h" "\<forall>p \<in> set ps. length p = bpp" "2 * r + 1 < w" "2 * r + 1 < h" "r \<le> 15" "s \<le> 8"
    and "rgb_alloc E (int w * int h) = Some rgb"
  shows "blur_passes getc putc (int bpp) (int w) (int h) (int (w * bpp)) (int r) s rgb (concat ps @ rest) = Some (concat (blurred r s w h ps) @ rest)"
proof -
  have "length rgb = w * h" using assms(7) by (auto simp: rgb_alloc_def nat_mult_distrib split: if_splits)
  then show ?thesis using passes_ok [of w h ps r s rgb rest] assms by (simp add: pixels_ok_def pixmap_def blurred_def)
qed

lemma length_blurred: "length ps = w * h \<Longrightarrow> \<forall>p \<in> set ps. length p = bpp \<Longrightarrow> length (concat (blurred r s w h ps)) = length (concat ps)"
  using enc_length length_concat_same [of "blurred r s w h ps" bpp] length_concat_same [of ps bpp] by (simp add: blurred_def)
end

lemmas rgba_blurred = rgba.blurred_def and rgb565_blurred = rgb565.blurred_def

lemma fastBlur_ok:
  assumes "blur_shift (int r) = Some s" "2 * r + 1 < w" "2 * r + 1 < h" "w * h \<le> 22500" "grant E (int (w * h * 8))"
    and "length ps = w * h" "\<forall>p \<in> set ps. length p = 4"
  shows "fastBlur E heap (int w) (int h) (int (w * 4)) (concat ps @ rest) (int r) = Some (concat (rgba.blurred r s w h ps) @ rest, heap)"
proof -
  note c = blur_shift_cases [OF assms(1)]
  obtain rgb where a: "rgb_alloc E (int w * int h) = Some rgb" using rgb_alloc_ok [of E "int w * int h"] assms(5) by auto
  show ?thesis
    using blur_accepted [OF assms(2,3) c(2) assms(4), of 4] rgba.accepted_passes [OF assms(6,7,2,3) c(2,3) a, of rest] a assms(1)
    by (simp add: fastBlur_def rgb_malloc_def heap_free_def)
qed

lemma fastBlur565_ok:
  assumes "blur_shift (int r) = Some s" "2 * r + 1 < w" "2 * r + 1 < h" "w * h \<le> 22500" "grant E (int (w * h * 8))"
    and "length ps = w * h" "\<forall>p \<in> set ps. length p = 2"
  shows "fastBlur565 E heap (int w) (int h) (int (w * 2)) (concat ps @ rest) (int r) = Some (concat (rgb565.blurred r s w h ps) @ rest, heap)"
proof -
  note c = blur_shift_cases [OF assms(1)]
  obtain rgb where a: "rgb_alloc E (int w * int h) = Some rgb" using rgb_alloc_ok [of E "int w * int h"] assms(5) by auto
  show ?thesis
    using blur_accepted [OF assms(2,3) c(2) assms(4), of 2] rgb565.accepted_passes [OF assms(6,7,2,3) c(2,3) a, of rest] a assms(1)
    by (simp add: fastBlur565_def rgb_malloc_def heap_free_def)
qed

lemma fastBlurMore_ok:
  assumes "r \<le> 15" "2 * r + 1 < w" "2 * r + 1 < h" "w * h \<le> 22500" "grant E (int (w * h * 8))"
    and "length ps = w * h" "\<forall>p \<in> set ps. length p = 4"
  shows "fastBlurMore E heap (int w) (int h) (int (w * 4)) (concat ps @ rest) (int r) = Some (concat (rgba.blurred r 6 w h ps) @ rest, heap + 1)"
proof -
  obtain rgb where a: "rgb_alloc E (int w * int h) = Some rgb" using rgb_alloc_ok [of E "int w * int h"] assms(5) by auto
  show ?thesis
    using blur_accepted [OF assms(2,3,1,4), of 4] rgba.accepted_passes [OF assms(6,7,2,3,1) _ a, of 6 rest] a
    by (simp add: fastBlurMore_def rgb_malloc_def heap_free_def)
qed

lemma fastBlurMore565_ok:
  assumes "r \<le> 15" "2 * r + 1 < w" "2 * r + 1 < h" "w * h \<le> 22500" "grant E (int (w * h * 8))"
    and "length ps = w * h" "\<forall>p \<in> set ps. length p = 2"
  shows "fastBlurMore565 E heap (int w) (int h) (int (w * 2)) (concat ps @ rest) (int r) = Some (concat (rgb565.blurred r 6 w h ps) @ rest, heap + 1)"
proof -
  obtain rgb where a: "rgb_alloc E (int w * int h) = Some rgb" using rgb_alloc_ok [of E "int w * int h"] assms(5) by auto
  show ?thesis
    using blur_accepted [OF assms(2,3,1,4), of 2] rgb565.accepted_passes [OF assms(6,7,2,3,1) _ a, of 6 rest] a
    by (simp add: fastBlurMore565_def rgb_malloc_def heap_free_def)
qed

text \<open>Any call on an image without row gaps: the size is kept and at most one block is left behind.\<close>

lemma blur_decision:
  assumes "r < 2 ^ 30" "w * h < 2 ^ 31" "b \<le> 4"
  shows "s32 (int r * 2 + 1) = Some (int r * 2 + 1)"
    and "blur_refused (int b) (int w) (int h) (int (w * b)) (int r) (int r * 2 + 1) =
    Some (\<not> (r \<le> 15 \<and> 2 * r + 1 < w \<and> 2 * r + 1 < h \<and> w * h \<le> 22500))"
proof -
  show "s32 (int r * 2 + 1) = Some (int r * 2 + 1)" using assms(1) by (simp add: s32_def)
  show "blur_refused (int b) (int w) (int h) (int (w * b)) (int r) (int r * 2 + 1) =
    Some (\<not> (r \<le> 15 \<and> 2 * r + 1 < w \<and> 2 * r + 1 < h \<and> w * h \<le> 22500))"
  proof (cases "r \<le> 15 \<and> 2 * r + 1 < w \<and> 2 * r + 1 < h \<and> w * h \<le> 22500")
    case True
    then show ?thesis using blur_accepted(2) [of r w h b] assms(3) by simp
  next
    case False
    have a: "s32 (int w * int h) = Some (int (w * h))" using assms(2) by (simp add: s32_def flip: of_nat_mult)
    have "int w * int h > 22500 \<longleftrightarrow> \<not> w * h \<le> 22500" by (simp add: not_le flip: of_nat_mult)
    then show ?thesis using False a by (auto simp: blur_refused_def)
  qed
qed

lemma blur_negative:
  assumes "radius < 0" and "- (2 ^ 30) \<le> radius"
  shows "fastBlur E heap w h stride pix radius = Some (pix, heap)" and "fastBlur565 E heap w h stride pix radius = Some (pix, heap)"
  using assms by (simp_all add: fastBlur_def fastBlur565_def blur_shift_def s32_def)

lemma blur_size:
  assumes r: "r < 2 ^ 30" and wh: "w * h < 2 ^ 31"
  shows "length pix = w * 4 * h \<Longrightarrow> \<exists>pix' k. fastBlurMore E heap (int w) (int h) (int (w * 4)) pix (int r) = Some (pix', heap + k) \<and> length pix' = length pix \<and> k \<le> 1"
    and "length pix = w * 4 * h \<Longrightarrow> \<exists>pix'. fastBlur E heap (int w) (int h) (int (w * 4)) pix (int r) = Some (pix', heap) \<and> length pix' = length pix"
    and "length pix = w * 2 * h \<Longrightarrow> \<exists>pix' k. fastBlurMore565 E heap (int w) (int h) (int (w * 2)) pix (int r) = Some (pix', heap + k) \<and> length pix' = length pix \<and> k \<le> 1"
    and "length pix = w * 2 * h \<Longrightarrow> \<exists>pix'. fastBlur565 E heap (int w) (int h) (int (w * 2)) pix (int r) = Some (pix', heap) \<and> length pix' = length pix"
proof -
  have r1: "s32 (int r * 2 + 1) = Some (int r * 2 + 1)" using blur_decision(1) [OF r wh, of 4] by simp
  let ?go = "r \<le> 15 \<and> 2 * r + 1 < w \<and> 2 * r + 1 < h \<and> w * h \<le> 22500"
  have d4: "blur_refused 4 (int w) (int h) (int (w * 4)) (int r) (int r * 2 + 1) = Some (\<not> ?go)" using blur_decision(2) [OF r wh, of 4] by simp
  have d2: "blur_refused 2 (int w) (int h) (int (w * 2)) (int r) (int r * 2 + 1) = Some (\<not> ?go)" using blur_decision(2) [OF r wh, of 2] by simp
  have al: "rgb_alloc E (int w * int h) = None \<or> grant E (int (w * h * 8))" by (simp add: rgb_alloc_def)
  have p4: "\<exists>ps. pix = concat ps \<and> length ps = w * h \<and> (\<forall>p \<in> set ps. length p = 4)" if "length pix = w * 4 * h"
    by (rule split_pixels) (use that in simp)
  have p2: "\<exists>ps. pix = concat ps \<and> length ps = w * h \<and> (\<forall>p \<in> set ps. length p = 2)" if "length pix = w * 2 * h"
    by (rule split_pixels) (use that in simp)
  show "\<exists>pix' k. fastBlurMore E heap (int w) (int h) (int (w * 4)) pix (int r) = Some (pix', heap + k) \<and> length pix' = length pix \<and> k \<le> 1" if len: "length pix = w * 4 * h"
  proof (cases "?go \<and> grant E (int (w * h * 8))")
    case True
    obtain ps where "pix = concat ps" "length ps = w * h" "\<forall>p \<in> set ps. length p = 4" using p4 len by blast
    then show ?thesis using fastBlurMore_ok [of r w h E ps heap "[]"] rgba.length_blurred [of ps w h r 6] True by simp
  next
    case False
    then show ?thesis using al by (auto simp: fastBlurMore_def rgb_malloc_def heap_free_def r1 d4 [simplified])
  qed
  show "\<exists>pix' k. fastBlurMore565 E heap (int w) (int h) (int (w * 2)) pix (int r) = Some (pix', heap + k) \<and> length pix' = length pix \<and> k \<le> 1" if len: "length pix = w * 2 * h"
  proof (cases "?go \<and> grant E (int (w * h * 8))")
    case True
    obtain ps where "pix = concat ps" "length ps = w * h" "\<forall>p \<in> set ps. length p = 2" using p2 len by blast
    then show ?thesis using fastBlurMore565_ok [of r w h E ps heap "[]"] rgb565.length_blurred [of ps w h r 6] True by simp
  next
    case False
    then show ?thesis using al by (auto simp: fastBlurMore565_def rgb_malloc_def heap_free_def r1 d2 [simplified])
  qed
  show "\<exists>pix'. fastBlur E heap (int w) (int h) (int (w * 4)) pix (int r) = Some (pix', heap) \<and> length pix' = length pix" if len: "length pix = w * 4 * h"
  proof (cases "\<exists>s. blur_shift (int r) = Some s \<and> ?go \<and> grant E (int (w * h * 8))")
    case True
    then obtain s where s: "blur_shift (int r) = Some s" "?go" "grant E (int (w * h * 8))" by blast
    obtain ps where "pix = concat ps" "length ps = w * h" "\<forall>p \<in> set ps. length p = 4" using p4 len by blast
    then show ?thesis using fastBlur_ok [of r s w h E ps heap "[]"] rgba.length_blurred [of ps w h r s] s by simp
  next
    case False
    then show ?thesis using al by (auto simp: fastBlur_def rgb_malloc_def heap_free_def r1 d4 [simplified] split: option.split)
  qed
  show "\<exists>pix'. fastBlur565 E heap (int w) (int h) (int (w * 2)) pix (int r) = Some (pix', heap) \<and> length pix' = length pix" if len: "length pix = w * 2 * h"
  proof (cases "\<exists>s. blur_shift (int r) = Some s \<and> ?go \<and> grant E (int (w * h * 8))")
    case True
    then obtain s where s: "blur_shift (int r) = Some s" "?go" "grant E (int (w * h * 8))" by blast
    obtain ps where "pix = concat ps" "length ps = w * h" "\<forall>p \<in> set ps. length p = 2" using p2 len by blast
    then show ?thesis using fastBlur565_ok [of r s w h E ps heap "[]"] rgb565.length_blurred [of ps w h r s] s by simp
  next
    case False
    then show ?thesis using al by (auto simp: fastBlur565_def rgb_malloc_def heap_free_def r1 d2 [simplified] split: option.split)
  qed
qed

subsection \<open>Properties\<close>

text \<open>C37.  The optimised blur is the textbook filter.  For the radii it accepts, \<open>fastBlur\<close> replaces the three
  colour channels of every pixel by their triangle-weighted mean over the clamped neighbourhood, first along
  the row and then along the column, and leaves the fourth byte of every pixel and all memory behind the
  image alone.  The running sums, the packing of three channels into one word and the three loops per line
  do not show, and the work array is freed.\<close>

theorem fastBlur_triangle_filter:
  assumes "blur_shift (int r) = Some s" and "2 * r + 1 < w" and "2 * r + 1 < h" and "w * h \<le> 22500"
    and "grant E (int (w * h * 8))" and "length ps = w * h" and "\<forall>p \<in> set ps. length p = 4"
  shows "fastBlur E heap (int w) (int h) (int (w * 4)) (concat ps @ rest) (int r) =
    Some (concat (map (\<lambda>k. rgba_enc (ps ! k) (blur_spec rgba_chan r w h ps k)) [0 ..< w * h]) @ rest, heap)"
proof -
  have w: "0 < w" using assms(2) by simp
  show ?thesis
    using fastBlur_ok [OF assms, of heap rest]
    by (simp add: rgba_blurred blur_ref_spec [OF blur_shift_cases(1) [OF assms(1)] w rgba.chan_range])
qed

theorem fastBlur_triangle_filter_witness:
  "fastBlur ample 3 4 4 16 (concat (replicate 16 [10, 20, 30, 40]) @ [1, 2]) 1 =
     Some (concat (map (\<lambda>k. rgba_enc (replicate 16 [10, 20, 30, 40] ! k)
       (blur_spec rgba_chan 1 4 4 (replicate 16 [10, 20, 30, 40]) k)) [0 ..< 4 * 4]) @ [1, 2], 3)"
  using fastBlur_triangle_filter [of 1 2 4 4 ample "replicate 16 [10, 20, 30, 40]" 3 "[1, 2]"]
  by (simp add: blur_shift_def)

text \<open>C38.  The same for 16-bit pixels: the channels are expanded to eight bits, filtered, and packed back by
  dropping their low bits.\<close>

theorem fastBlur565_triangle_filter:
  assumes "blur_shift (int r) = Some s" and "2 * r + 1 < w" and "2 * r + 1 < h" and "w * h \<le> 22500"
    and "grant E (int (w * h * 8))" and "length ps = w * h" and "\<forall>p \<in> set ps. length p = 2"
  shows "fastBlur565 E heap (int w) (int h) (int (w * 2)) (concat ps @ rest) (int r) =
    Some (concat (map (\<lambda>k. rgb565_enc (ps ! k) (blur_spec rgb565_chan r w h ps k)) [0 ..< w * h]) @ rest, heap)"
proof -
  have w: "0 < w" using assms(2) by simp
  show ?thesis
    using fastBlur565_ok [OF assms, of heap rest]
    by (simp add: rgb565_blurred blur_ref_spec [OF blur_shift_cases(1) [OF assms(1)] w rgb565.chan_range])
qed

theorem fastBlur565_triangle_filter_witness:
  "fastBlur565 ample 3 4 4 8 (concat (replicate 16 [0x1f, 0xf8]) @ [7]) 1 =
     Some (concat (map (\<lambda>k. rgb565_enc (replicate 16 [0x1f, 0xf8] ! k)
       (blur_spec rgb565_chan 1 4 4 (replicate 16 [0x1f, 0xf8]) k)) [0 ..< 4 * 4]) @ [7], 3)"
  using fastBlur565_triangle_filter [of 1 2 4 4 ample "replicate 16 [0x1f, 0xf8]" 3 "[7]"]
  by (simp add: blur_shift_def)

text \<open>What one pass and both passes make of a channel of a picture of one colour, divided by 64.\<close>

definition flat_pass :: "nat \<Rightarrow> int \<Rightarrow> int" where
  "flat_pass r v = (int r + 1) ^ 2 * v div 64 mod 256"

definition flat_value :: "nat \<Rightarrow> int \<Rightarrow> int" where
  "flat_value r v = flat_pass r (flat_pass r v)"

lemma flat_pass_below:
  assumes "r < 7" and "0 \<le> v" and "v \<le> 255"
  shows "0 \<le> flat_pass r v" and "flat_pass r v \<le> v" and "0 < v \<Longrightarrow> flat_pass r v < v"
proof -
  have "(int r + 1) ^ 2 \<le> 7 ^ 2" using assms(1) by (intro power_mono) simp_all
  then have "(int r + 1) ^ 2 * v \<le> 49 * v" using assms(2) by (intro mult_right_mono) simp_all
  moreover have "0 \<le> (int r + 1) ^ 2 * v" using assms(2) by simp
  ultimately have "0 \<le> (int r + 1) ^ 2 * v div 64" "(int r + 1) ^ 2 * v div 64 \<le> 49 * v div 64"
    by (simp_all add: zdiv_mono1)
  moreover have "49 * v div 64 \<le> v" "0 < v \<Longrightarrow> 49 * v div 64 < v" using assms(2) by linarith+
  ultimately show "0 \<le> flat_pass r v" "flat_pass r v \<le> v" "0 < v \<Longrightarrow> flat_pass r v < v"
    using assms(3) by (simp_all add: flat_pass_def)
qed

lemma flat_value_below: "r < 7 \<Longrightarrow> 0 < v \<Longrightarrow> v \<le> 255 \<Longrightarrow> flat_value r v < v"
  using flat_pass_below [of r v] flat_pass_below [of r "flat_pass r v"] by (simp add: flat_value_def)

lemma flat_value_kept: "0 \<le> v \<Longrightarrow> v \<le> 255 \<Longrightarrow> flat_value 7 v = v"
  by (simp add: flat_value_def flat_pass_def)

lemma flat_value_above:
  assumes "7 < r" and "r \<le> 15"
  shows "flat_value r 255 \<noteq> 255"
proof -
  have "r = 8 \<or> r = 9 \<or> r = 10 \<or> r = 11 \<or> r = 12 \<or> r = 13 \<or> r = 14 \<or> r = 15" using assms by arith
  then show ?thesis by (elim disjE) (simp_all add: flat_value_def flat_pass_def)
qed

lemma flat_value_iff: "r \<le> 15 \<Longrightarrow> (\<forall>v. 0 \<le> v \<and> v \<le> 255 \<longrightarrow> flat_value r v = v) \<longleftrightarrow> r = 7"
  using flat_value_kept flat_value_above [of r] flat_value_below [of r 255] by (cases r "7 :: nat" rule: linorder_cases) (auto intro!: exI [of _ 255])

text \<open>C39.  \<open>fastBlurMore\<close> always divides by 64, which is the weight sum for radius 7 only, and it never frees its work
  array.  On a picture of one colour, which a blur must not change, a channel of value \<open>v\<close> becomes \<open>flat_value r v\<close>,
  that is \<open>(r+1)\<^sup>2 * v div 64 mod 256\<close> twice.  Radius 7 is the only one that keeps every value; below it every
  value but 0 becomes darker.  After each such call one heap block more is allocated than before.\<close>

theorem fastBlurMore_flat:
  assumes "r \<le> 15" and "2 * r + 1 < w" and "2 * r + 1 < h" and "w * h \<le> 22500"
    and "grant E (int (w * h * 8))" and "length p = 4"
  shows "fastBlurMore E heap (int w) (int h) (int (w * 4)) (concat (replicate (w * h) p)) (int r) =
      Some (concat (replicate (w * h) (rgba_enc p (\<lambda>c. flat_value r (uint (p ! c))))), heap + 1) \<and>
    ((\<forall>v. 0 \<le> v \<and> v \<le> 255 \<longrightarrow> flat_value r v = v) \<longleftrightarrow> r = 7) \<and>
    (r < 7 \<longrightarrow> (\<forall>v. 0 < v \<and> v \<le> 255 \<longrightarrow> flat_value r v < v))"
proof -
  let ?ps = "replicate (w * h) p" and ?V = "\<lambda>c. flat_value r (uint (p ! c))"
  have wh: "0 < w" "0 < h" using assms by auto
  have row: "row_ref rgba_chan r 6 w ?ps k c = flat_pass r (uint (p ! c))" if "k < w * h" for k c
  proof -
    have "k div w * w + nat x < w * h" if "0 \<le> x" "x < int w" for x
    proof -
      have "k div w * w + nat x < Suc (k div w) * w" using that by simp
      also have "\<dots> \<le> h * w" using \<open>k < w * h\<close> wh by (intro mult_le_mono1) (simp add: Suc_le_eq less_mult_imp_div_less mult.commute)
      finally show ?thesis by (simp add: mult.commute)
    qed
    then have "tri r (int w) (\<lambda>x. rgba_chan (?ps ! (k div w * w + nat x)) c) (int (k mod w)) = tri r (int w) (\<lambda>x. uint (p ! c)) (int (k mod w))"
      using wh by (intro tri_cong) (simp_all add: rgba_chan_def)
    then show ?thesis by (simp add: row_ref_def shifted_def tri_const flat_pass_def)
  qed
  have ref: "blur_ref rgba_chan r 6 w h ?ps k c = ?V c" if "k < w * h" for k c
  proof -
    have "nat y * w + k mod w < w * h" if "0 \<le> y" "y < int h" for y
    proof -
      have "nat y * w + k mod w < Suc (nat y) * w" using wh by simp
      also have "\<dots> \<le> h * w" using that by (intro mult_le_mono1) simp
      finally show ?thesis by (simp add: mult.commute)
    qed
    then have "tri r (int h) (\<lambda>y. row_ref rgba_chan r 6 w ?ps (nat y * w + k mod w) c) (int (k div w)) =
        tri r (int h) (\<lambda>y. flat_pass r (uint (p ! c))) (int (k div w))"
      using wh row by (intro tri_cong) simp_all
    then show ?thesis by (simp add: blur_ref_def shifted_def tri_const flat_value_def flat_pass_def)
  qed
  have "rgba.blurred r 6 w h ?ps = replicate (w * h) (rgba_enc p ?V)"
    using ref by (auto simp: rgba_blurred rgba_enc_def intro!: nth_equalityI)
  then have "fastBlurMore E heap (int w) (int h) (int (w * 4)) (concat ?ps) (int r) =
      Some (concat (replicate (w * h) (rgba_enc p ?V)), heap + 1)"
    using fastBlurMore_ok [OF assms(1-5), of ?ps heap "[]"] assms(6) by simp
  then show ?thesis using flat_value_iff [OF assms(1)] flat_value_below [of r] by simp
qed

theorem fastBlurMore_flat_witness:
  "fastBlurMore ample 3 20 20 80 (concat (replicate 400 [255, 255, 255, 255])) 4 =
     Some (concat (replicate 400 [38, 38, 38, 255]), 4) \<and>
   fastBlurMore ample 3 20 20 80 (concat (replicate 400 [255, 255, 255, 255])) 7 =
     Some (concat (replicate 400 [255, 255, 255, 255]), 4)"
  using fastBlurMore_flat [of 4 20 20 ample "[255, 255, 255, 255]" 3] fastBlurMore_flat [of 7 20 20 ample "[255, 255, 255, 255]" 3]
  by (simp add: rgba_enc_def flat_value_def flat_pass_def)

text \<open>C40.  \<open>blurBitmap\<close> stays inside the pixel memory of any bitmap whose rows have no gaps (two or four bytes per
  pixel), whatever the allocator does and for every radius for which \<open>radius * 2 + 1\<close> is an \<open>int\<close>: it returns a
  bitmap of the same size, leaves at most one heap block behind, and with \<open>unpin\<close> set it gives back the lock it took.\<close>

theorem blurBitmap_safe:
  assumes "length (bm_pixels bm) = w * b * h" and "b = 2 \<or> b = 4" and "- (2 ^ 30) \<le> radius" and "radius < 2 ^ 30"
    and "w * h < 2 ^ 31" and "w < 2 ^ 29"
  shows "\<exists>bm' k. blurBitmap E heap lock (Some bm) radius unpin (int w) (int h) (int (w * b)) = Some (Some bm', heap + k) \<and>
    length (bm_pixels bm') = length (bm_pixels bm) \<and> k \<le> 1 \<and> (unpin \<noteq> 0 \<longrightarrow> bm_locks bm' = bm_locks bm)"
proof (cases "w = 0 \<or> h = 0 \<or> lock < 0")
  case True
  then show ?thesis by (auto simp: blurBitmap_def)
next
  case False
  have row: "s32 (int w * 2) = Some (int w * 2)" using assms(6) by (simp add: s32_def)
  show ?thesis
  proof (cases "radius < 0")
    case True
    then show ?thesis using False row blur_negative [OF True assms(3), of E heap]
      by (cases "b = 2") (auto simp: blurBitmap_def Let_def)
  next
    case nonneg: False
    define r where "r = nat radius"
    have radius: "radius = int r" and r: "r < 2 ^ 30" using nonneg assms(4) by (simp_all add: r_def nat_less_iff)
    note sz = blur_size [OF r assms(5), of "bm_pixels bm" _ heap]
    from assms(2) show ?thesis
    proof
      assume b: "b = 2"
      obtain p1 k where "fastBlurMore565 E heap (int w) (int h) (int (w * 2)) (bm_pixels bm) (int r) = Some (p1, heap + k)"
          "length p1 = length (bm_pixels bm)" "k \<le> 1"
        using sz(3) [of E] assms(1) b by auto
      moreover obtain p2 where "fastBlur565 E heap (int w) (int h) (int (w * 2)) (bm_pixels bm) (int r) = Some (p2, heap)"
          "length p2 = length (bm_pixels bm)"
        using sz(4) [of E] assms(1) b by auto
      ultimately show ?thesis using False b row by (cases "r \<le> 3") (auto simp: blurBitmap_def Let_def radius)
    next
      assume b: "b = 4"
      obtain p1 k where "fastBlurMore E heap (int w) (int h) (int (w * 4)) (bm_pixels bm) (int r) = Some (p1, heap + k)"
          "length p1 = length (bm_pixels bm)" "k \<le> 1"
        using sz(1) [of E] assms(1) b by auto
      moreover obtain p2 where "fastBlur E heap (int w) (int h) (int (w * 4)) (bm_pixels bm) (int r) = Some (p2, heap)"
          "length p2 = length (bm_pixels bm)"
        using sz(2) [of E] assms(1) b by auto
      ultimately show ?thesis using False b row by (cases "r \<le> 3") (auto simp: blurBitmap_def Let_def radius)
    qed
  qed
qed

theorem blurBitmap_safe_witness:
  "\<exists>bm' k. blurBitmap ample 5 0 (Some \<lparr>bm_pixels = replicate 64 9, bm_locks = 2\<rparr>) 1 1 4 4 16 = Some (Some bm', 5 + k) \<and>
     length (bm_pixels bm') = 64 \<and> k \<le> 1 \<and> bm_locks bm' = 2"
  using blurBitmap_safe [of "\<lparr>bm_pixels = replicate 64 9, bm_locks = 2\<rparr>" 4 4 4 1 ample 5 0 1] by simp

end
