(* ===== verification/Byte_Buffer.thy ===== *)
theory Byte_Buffer
  imports Prelude
begin

unbundle bit_operations_syntax

section \<open>NativeByteBuffer: byte buffers of the network library\<close>

text \<open>
  \<open>tgnet/NativeByteBuffer.cpp\<close>: construction, positioning and the writers, with \<open>tgnet/ByteArray.h\<close>.

  A buffer is the record \<open>NativeByteBuffer\<close>: the memory its \<open>buffer\<close> pointer owns or shares, the two mode flags,
  and the three \<open>uint32_t\<close> marks, kept at 32 bits so that the sums in the bounds tests wrap as they do in the code.
  Whether the block came from \<open>new\<close> or from a Java direct buffer only matters to the destructor and is left out;
  running out of memory ends the process in the code and is not a branch of the model.  A writer with an error
  pointer acts on a pair of buffer and error flag (names ending in \<open>E\<close>); the overloads without the pointer are
  \<open>no_error\<close> of it.  \<^const>\<open>None\<close> is an access outside the memory.  A \<open>ByteArray\<close> is its bytes (its \<open>length\<close>
  field is their number), a \<open>std::string\<close> likewise, an \<open>int32_t\<close>/\<open>int64_t\<close> the word of its bits.

  The contract \<open>emits f xs\<close> says what a writer does: in size-calculating mode it adds the length of \<open>xs\<close>, with
  enough room it writes exactly \<open>xs\<close>, and in any case it stays inside the buffer.  Contracts compose, so the
  scheme classes are proved by introduction rules (\<open>emit_rules\<close>).
\<close>

record NativeByteBuffer =
  nb_buffer :: "byte list"
  nb_calculateSizeOnly :: bool
  nb_sliced :: bool
  nb_position :: u32
  nb_limit :: u32
  nb_capacity :: u32

definition NativeByteBuffer_alloc :: "mem_env \<Rightarrow> u32 \<Rightarrow> NativeByteBuffer" where
  "NativeByteBuffer_alloc E sz =
     \<lparr>nb_buffer = map (junk E) [0..<unat sz], nb_calculateSizeOnly = False, nb_sliced = False,
      nb_position = 0, nb_limit = sz, nb_capacity = sz\<rparr>"

definition NativeByteBuffer_calc :: "bool \<Rightarrow> NativeByteBuffer" where
  "NativeByteBuffer_calc calculate =
     \<lparr>nb_buffer = [], nb_calculateSizeOnly = calculate, nb_sliced = False,
      nb_position = 0, nb_limit = 0, nb_capacity = 0\<rparr>"

definition NativeByteBuffer_slice :: "byte list \<Rightarrow> u32 \<Rightarrow> NativeByteBuffer" where
  "NativeByteBuffer_slice buff len =
     \<lparr>nb_buffer = buff, nb_calculateSizeOnly = False, nb_sliced = True,
      nb_position = 0, nb_limit = len, nb_capacity = len\<rparr>"

definition position_set :: "u32 \<Rightarrow> NativeByteBuffer \<Rightarrow> NativeByteBuffer" where
  "position_set position b = (if position > nb_limit b then b else b\<lparr>nb_position := position\<rparr>)"

definition remaining :: "NativeByteBuffer \<Rightarrow> u32" where
  "remaining b = nb_limit b - nb_position b"

definition hasRemaining :: "NativeByteBuffer \<Rightarrow> bool" where
  "hasRemaining b \<longleftrightarrow> nb_position b < nb_limit b"

definition clearCapacity :: "NativeByteBuffer \<Rightarrow> NativeByteBuffer" where
  "clearCapacity b = (if \<not> nb_calculateSizeOnly b then b else b\<lparr>nb_capacity := 0\<rparr>)"

definition limit_set :: "u32 \<Rightarrow> NativeByteBuffer \<Rightarrow> NativeByteBuffer" where
  "limit_set limit b =
     (if limit > nb_capacity b then b
      else let b = (if nb_position b > limit then b\<lparr>nb_position := limit\<rparr> else b) in b\<lparr>nb_limit := limit\<rparr>)"

definition flip :: "NativeByteBuffer \<Rightarrow> NativeByteBuffer" where
  "flip b = b\<lparr>nb_limit := nb_position b, nb_position := 0\<rparr>"

definition clear :: "NativeByteBuffer \<Rightarrow> NativeByteBuffer" where
  "clear b = b\<lparr>nb_position := 0, nb_limit := nb_capacity b\<rparr>"

definition rewind :: "NativeByteBuffer \<Rightarrow> NativeByteBuffer" where
  "rewind b = b\<lparr>nb_position := 0\<rparr>"

definition compact :: "NativeByteBuffer \<Rightarrow> NativeByteBuffer option" where
  "compact b =
     (if nb_position b = nb_limit b then Some b
      else do {
        m \<leftarrow> mem_copy (nb_buffer b) 0 (nb_buffer b) (uint (nb_position b)) (uint (nb_limit b - nb_position b));
        Some (b\<lparr>nb_buffer := m, nb_position := nb_limit b - nb_position b, nb_limit := nb_capacity b\<rparr>)
      })"

definition skip :: "u32 \<Rightarrow> NativeByteBuffer \<Rightarrow> NativeByteBuffer" where
  "skip len b =
     (if \<not> nb_calculateSizeOnly b then
        if nb_position b + len > nb_limit b then b
        else b\<lparr>nb_position := nb_position b + len\<rparr>
      else b\<lparr>nb_capacity := nb_capacity b + len\<rparr>)"

text \<open>\<open>buffer[_position++] = x;\<close> for every \<open>x\<close> of a list, in order.\<close>

definition nb_put :: "byte \<Rightarrow> NativeByteBuffer \<Rightarrow> NativeByteBuffer option" where
  "nb_put x b = do {
     m \<leftarrow> wr (nb_buffer b) (uint (nb_position b)) x;
     Some (b\<lparr>nb_buffer := m, nb_position := nb_position b + 1\<rparr>)
   }"

primrec nb_puts :: "byte list \<Rightarrow> NativeByteBuffer \<Rightarrow> NativeByteBuffer option" where
  "nb_puts [] b = Some b"
| "nb_puts (x # xs) b = do { b \<leftarrow> nb_put x b; nb_puts xs b }"

definition nb_get :: "NativeByteBuffer \<Rightarrow> (byte \<times> NativeByteBuffer) option" where
  "nb_get b = do {
     x \<leftarrow> rd (nb_buffer b) (uint (nb_position b));
     Some (x, b\<lparr>nb_position := nb_position b + 1\<rparr>)
   }"

definition nb_at :: "NativeByteBuffer \<Rightarrow> u32 \<Rightarrow> byte option" where
  "nb_at b k = rd (nb_buffer b) (uint (nb_position b + k))"

definition nb_grow :: "u32 \<Rightarrow> NativeByteBuffer \<Rightarrow> NativeByteBuffer" where
  "nb_grow n b = b\<lparr>nb_capacity := nb_capacity b + n\<rparr>"

definition writeBytesInternal :: "byte list \<Rightarrow> u32 \<Rightarrow> u32 \<Rightarrow> NativeByteBuffer \<Rightarrow> NativeByteBuffer option" where
  "writeBytesInternal src offset len b = do {
     m \<leftarrow> mem_copy (nb_buffer b) (uint (nb_position b)) src (uint offset) (uint len);
     Some (b\<lparr>nb_buffer := m, nb_position := nb_position b + len\<rparr>)
   }"

type_synonym ostream = "NativeByteBuffer \<times> bool"

definition writeInt32E :: "u32 \<Rightarrow> ostream \<Rightarrow> ostream option" where
  "writeInt32E x = (\<lambda>(b, error).
     if \<not> nb_calculateSizeOnly b then
       if nb_position b + 4 > nb_limit b then Some (b, True)
       else do {
         b \<leftarrow> nb_puts [ucast x, ucast (drop_bit 8 x), ucast (drop_bit 16 x), ucast (drop_bit 24 x)] b;
         Some (b, error)
       }
     else Some (nb_grow 4 b, error))"

definition writeInt64E :: "ulong \<Rightarrow> ostream \<Rightarrow> ostream option" where
  "writeInt64E x = (\<lambda>(b, error).
     if \<not> nb_calculateSizeOnly b then
       if nb_position b + 8 > nb_limit b then Some (b, True)
       else do {
         b \<leftarrow> nb_puts [ucast x, ucast (drop_bit 8 x), ucast (drop_bit 16 x), ucast (drop_bit 24 x),
                      ucast (drop_bit 32 x), ucast (drop_bit 40 x), ucast (drop_bit 48 x), ucast (drop_bit 56 x)] b;
         Some (b, error)
       }
     else Some (nb_grow 8 b, error))"

definition writeBoolE :: "bool \<Rightarrow> ostream \<Rightarrow> ostream option" where
  "writeBoolE value = (\<lambda>(b, error).
     if \<not> nb_calculateSizeOnly b then
       if value then writeInt32E 0x997275b5 (b, error) else writeInt32E 0xbc799737 (b, error)
     else Some (nb_grow 4 b, error))"

text \<open>\<open>writeBytes(uint8_t *b, uint32_t offset, uint32_t length, bool *error)\<close>; the overload without
  \<open>offset\<close> is the same body at offset 0.\<close>

definition writeBytesE :: "byte list \<Rightarrow> u32 \<Rightarrow> u32 \<Rightarrow> ostream \<Rightarrow> ostream option" where
  "writeBytesE src offset len = (\<lambda>(b, error).
     if \<not> nb_calculateSizeOnly b then
       if nb_position b + len > nb_limit b then Some (b, True)
       else do { b \<leftarrow> writeBytesInternal src offset len b; Some (b, error) }
     else Some (nb_grow len b, error))"

text \<open>\<open>writeBytes(NativeByteBuffer *b, bool *error)\<close> also moves the position of its source.\<close>

definition writeBytes_bufferE ::
    "NativeByteBuffer \<Rightarrow> ostream \<Rightarrow> (NativeByteBuffer \<times> ostream) option" where
  "writeBytes_bufferE src = (\<lambda>(b, error).
     let len = nb_limit src - nb_position src in
     if len = 0 then Some (src, b, error)
     else if \<not> nb_calculateSizeOnly b then
       if nb_position b + len > nb_limit b then Some (src, b, True)
       else do {
         from \<leftarrow> slice (nb_buffer src) (uint (nb_position src)) (uint len);
         b \<leftarrow> writeBytesInternal from 0 len b;
         Some (position_set (nb_limit src) src, b, error)
       }
     else Some (src, nb_grow len b, error))"

type_synonym ByteArray = "byte list"

definition writeBytes_arrayE :: "ByteArray \<Rightarrow> ostream \<Rightarrow> ostream option" where
  "writeBytes_arrayE a = (\<lambda>(b, error).
     if \<not> nb_calculateSizeOnly b then
       if nb_position b + word_of_nat (length a) > nb_limit b then Some (b, True)
       else do { b \<leftarrow> writeBytesInternal a 0 (word_of_nat (length a)) b; Some (b, error) }
     else Some (nb_grow (word_of_nat (length a)) b, error))"

definition writeByteE :: "byte \<Rightarrow> ostream \<Rightarrow> ostream option" where
  "writeByteE i = (\<lambda>(b, error).
     if \<not> nb_calculateSizeOnly b then
       if nb_position b + 1 > nb_limit b then Some (b, True)
       else do { b \<leftarrow> nb_put i b; Some (b, error) }
     else Some (nb_grow 1 b, error))"

definition tl_addition :: "u32 \<Rightarrow> u32 \<Rightarrow> u32" where
  "tl_addition l sl = (let addition = (l + sl) mod 4 in if addition \<noteq> 0 then 4 - addition else addition)"

definition writeByteArrayE :: "byte list \<Rightarrow> u32 \<Rightarrow> u32 \<Rightarrow> ostream \<Rightarrow> ostream option" where
  "writeByteArrayE src offset len = (\<lambda>(b, error).
     let calc = nb_calculateSizeOnly b in
     if len \<le> 253 \<and> \<not> calc \<and> nb_position b + 1 > nb_limit b then Some (b, True)
     else if \<not> len \<le> 253 \<and> \<not> calc \<and> nb_position b + 4 > nb_limit b then Some (b, True)
     else do {
       b \<leftarrow> (if len \<le> 253 then
              if \<not> calc then nb_puts [ucast len] b else Some (nb_grow 1 b)
            else
              if \<not> calc
              then nb_puts [254, ucast len, ucast (drop_bit 8 len), ucast (drop_bit 16 len)] b
              else Some (nb_grow 4 b));
       if \<not> calc \<and> nb_position b + len > nb_limit b then Some (b, True)
       else do {
         b \<leftarrow> (if \<not> calc then writeBytesInternal src offset len b else Some (nb_grow len b));
         let addition = tl_addition len (if len \<le> 253 then 1 else 4);
         if \<not> calc \<and> nb_position b + addition > nb_limit b then Some (b, True)
         else do {
           b \<leftarrow> (if \<not> calc then nb_puts (replicate (unat addition) 0) b
                else Some ((nb_grow 1 ^^ unat addition) b));
           Some (b, error)
         }
       }
     })"

definition writeStringE :: "byte list \<Rightarrow> ostream \<Rightarrow> ostream option" where
  "writeStringE s = writeByteArrayE s 0 (word_of_nat (length s))"

definition writeByteArray_arrayE :: "ByteArray \<Rightarrow> ostream \<Rightarrow> ostream option" where
  "writeByteArray_arrayE a = writeByteArrayE a 0 (word_of_nat (length a))"

definition writeByteArray_bufferE ::
    "NativeByteBuffer \<Rightarrow> ostream \<Rightarrow> (NativeByteBuffer \<times> ostream) option" where
  "writeByteArray_bufferE src s = do {
     let src = rewind src;
     s \<leftarrow> writeByteArrayE (nb_buffer src) 0 (nb_limit src) s;
     Some (src, s)
   }"

text \<open>The overloads without an error pointer.\<close>

definition no_error :: "(ostream \<Rightarrow> ostream option) \<Rightarrow> NativeByteBuffer \<Rightarrow> NativeByteBuffer option" where
  "no_error f b = map_option fst (f (b, False))"

definition writeInt32 :: "u32 \<Rightarrow> NativeByteBuffer \<Rightarrow> NativeByteBuffer option" where
  "writeInt32 x = no_error (writeInt32E x)"

definition writeInt64 :: "ulong \<Rightarrow> NativeByteBuffer \<Rightarrow> NativeByteBuffer option" where
  "writeInt64 x = no_error (writeInt64E x)"

definition writeBool :: "bool \<Rightarrow> NativeByteBuffer \<Rightarrow> NativeByteBuffer option" where
  "writeBool value = no_error (writeBoolE value)"

definition writeBytes :: "byte list \<Rightarrow> u32 \<Rightarrow> u32 \<Rightarrow> NativeByteBuffer \<Rightarrow> NativeByteBuffer option" where
  "writeBytes src offset len = no_error (writeBytesE src offset len)"

definition writeByte :: "byte \<Rightarrow> NativeByteBuffer \<Rightarrow> NativeByteBuffer option" where
  "writeByte i = no_error (writeByteE i)"

definition writeString :: "byte list \<Rightarrow> NativeByteBuffer \<Rightarrow> NativeByteBuffer option" where
  "writeString s = no_error (writeStringE s)"

definition writeByteArray :: "byte list \<Rightarrow> u32 \<Rightarrow> u32 \<Rightarrow> NativeByteBuffer \<Rightarrow> NativeByteBuffer option" where
  "writeByteArray src offset len = no_error (writeByteArrayE src offset len)"

text \<open>Overloads on objects take a pointer, which the code dereferences without a test.\<close>

definition writeBytes_array :: "ByteArray option \<Rightarrow> NativeByteBuffer \<Rightarrow> NativeByteBuffer option" where
  "writeBytes_array p b = do { a \<leftarrow> p; no_error (writeBytes_arrayE a) b }"

definition writeByteArray_array :: "ByteArray option \<Rightarrow> NativeByteBuffer \<Rightarrow> NativeByteBuffer option" where
  "writeByteArray_array p b = do { a \<leftarrow> p; no_error (writeByteArray_arrayE a) b }"

definition writeBytes_buffer ::
    "NativeByteBuffer \<Rightarrow> NativeByteBuffer \<Rightarrow> (NativeByteBuffer \<times> NativeByteBuffer) option" where
  "writeBytes_buffer src b = do { (src, b, e) \<leftarrow> writeBytes_bufferE src (b, False); Some (src, b) }"

definition writeByteArray_buffer ::
    "NativeByteBuffer \<Rightarrow> NativeByteBuffer \<Rightarrow> (NativeByteBuffer \<times> NativeByteBuffer) option" where
  "writeByteArray_buffer src b = do { (src, b, e) \<leftarrow> writeByteArray_bufferE src (b, False); Some (src, b) }"

text \<open>A \<open>double\<close> is the 64-bit pattern that \<open>memcpy\<close> moves.\<close>

definition writeDoubleE :: "ulong \<Rightarrow> ostream \<Rightarrow> ostream option" where
  "writeDoubleE d = writeInt64E d"

definition writeDouble :: "ulong \<Rightarrow> NativeByteBuffer \<Rightarrow> NativeByteBuffer option" where
  "writeDouble d = no_error (writeDoubleE d)"

definition nbb_ok :: "NativeByteBuffer \<Rightarrow> bool" where
  "nbb_ok b \<longleftrightarrow> \<not> nb_calculateSizeOnly b \<and> nb_position b \<le> nb_limit b \<and> nb_limit b \<le> nb_capacity b \<and>
     unat (nb_capacity b) \<le> length (nb_buffer b) \<and> unat (nb_capacity b) < 2 ^ 31"

lemma nbb_okD:
  assumes "nbb_ok b"
  shows "\<not> nb_calculateSizeOnly b" and "unat (nb_position b) \<le> unat (nb_limit b)"
    and "unat (nb_limit b) \<le> unat (nb_capacity b)" and "unat (nb_limit b) \<le> length (nb_buffer b)"
    and "unat (nb_limit b) < 2 ^ 31" and "unat (nb_position b) < 2 ^ 31" and "unat (nb_capacity b) < 2 ^ 31"
    and "unat (nb_capacity b) \<le> length (nb_buffer b)"
  using assms by (auto simp: nbb_ok_def word_le_nat_alt)

definition put_at :: "byte list \<Rightarrow> nat \<Rightarrow> byte list \<Rightarrow> byte list" where
  "put_at m p xs = take p m @ xs @ drop (p + length xs) m"

definition wrote :: "byte list \<Rightarrow> NativeByteBuffer \<Rightarrow> NativeByteBuffer" where
  "wrote xs b = b\<lparr>nb_buffer := put_at (nb_buffer b) (unat (nb_position b)) xs,
     nb_position := nb_position b + word_of_nat (length xs)\<rparr>"

definition kept :: "NativeByteBuffer \<Rightarrow> NativeByteBuffer \<Rightarrow> bool" where
  "kept b b' \<longleftrightarrow> nb_limit b' = nb_limit b \<and> nb_capacity b' = nb_capacity b \<and> nb_sliced b' = nb_sliced b \<and>
     length (nb_buffer b') = length (nb_buffer b) \<and> nb_position b \<le> nb_position b' \<and>
     take (unat (nb_position b)) (nb_buffer b') = take (unat (nb_position b)) (nb_buffer b)"

text \<open>The contract of a writer with an error pointer.\<close>

definition emitsE :: "(ostream \<Rightarrow> ostream option) \<Rightarrow> byte list \<Rightarrow> bool" where
  "emitsE f xs \<longleftrightarrow>
     (\<forall>b e. nb_calculateSizeOnly b \<longrightarrow> f (b, e) = Some (nb_grow (word_of_nat (length xs)) b, e)) \<and>
     (\<forall>b e. nbb_ok b \<longrightarrow> unat (nb_position b) + length xs \<le> unat (nb_limit b) \<longrightarrow> f (b, e) = Some (wrote xs b, e)) \<and>
     (\<forall>b e. nbb_ok b \<longrightarrow> unat (nb_position b) + length xs > unat (nb_limit b) \<longrightarrow>
        (\<exists>b'. f (b, e) = Some (b', True) \<and> nbb_ok b' \<and> kept b b'))"

text \<open>The contract of a writer without.\<close>

definition emits :: "(NativeByteBuffer \<Rightarrow> NativeByteBuffer option) \<Rightarrow> byte list \<Rightarrow> bool" where
  "emits f xs \<longleftrightarrow>
     (\<forall>b. nb_calculateSizeOnly b \<longrightarrow> f b = Some (nb_grow (word_of_nat (length xs)) b)) \<and>
     (\<forall>b. nbb_ok b \<longrightarrow> unat (nb_position b) + length xs \<le> unat (nb_limit b) \<longrightarrow> f b = Some (wrote xs b)) \<and>
     (\<forall>b. nbb_ok b \<longrightarrow> (\<exists>b'. f b = Some b' \<and> nbb_ok b' \<and> kept b b'))"

lemma wr_uint: "wr m (uint (w :: u32)) x = (if unat w < length m then Some (m[unat w := x]) else None)"
  using wr_nat [of m "unat w" x] by simp

lemma rd_uint: "rd m (uint (w :: u32)) = (if unat w < length m then Some (m ! unat w) else None)"
  using rd_nat [of m "unat w"] by simp

lemma slice_nat: "slice m (int i) (int n) = (if i + n \<le> length m then Some (take n (drop i m)) else None)"
  by (simp add: slice_def)

lemma slice_uint:
  "slice m (uint (i :: u32)) (uint (n :: u32)) =
     (if unat i + unat n \<le> length m then Some (take (unat n) (drop (unat i) m)) else None)"
  using slice_nat [of m "unat i" "unat n"] by simp

lemma mem_copy_nat:
  "mem_copy dst (int d) src (int s) (int n) =
     (if d + n \<le> length dst \<and> s + n \<le> length src
      then Some (take d dst @ take n (drop s src) @ drop (d + n) dst) else None)"
  by (simp add: mem_copy_def nat_add_distrib)

lemma mem_copy_uint:
  "mem_copy dst (uint (d :: u32)) src (uint (s :: u32)) (uint (n :: u32)) =
     (if unat d + unat n \<le> length dst \<and> unat s + unat n \<le> length src
      then Some (take (unat d) dst @ take (unat n) (drop (unat s) src) @ drop (unat d + unat n) dst) else None)"
  using mem_copy_nat [of dst "unat d" src "unat s" "unat n"] by simp

lemma unat_add_small:
  assumes "unat (a :: u32) < 2 ^ 31" and "n < 2 ^ 31"
  shows "unat (a + word_of_nat n) = unat a + n"
proof -
  have "unat (word_of_nat n :: u32) = n" using assms(2) by (simp add: unat_of_nat)
  then show ?thesis using assms by (simp add: unat_word_ariths)
qed

lemma over_iff:
  assumes "unat (a :: u32) < 2 ^ 31" and "n < 2 ^ 31"
  shows "a + word_of_nat n > l \<longleftrightarrow> unat l < unat a + n"
  using unat_add_small [OF assms] by (simp add: word_less_nat_alt)

lemma length_put_at [simp]: "p + length xs \<le> length m \<Longrightarrow> length (put_at m p xs) = length m"
  by (simp add: put_at_def)

lemma take_put_at: "p + length xs \<le> length m \<Longrightarrow> take p (put_at m p xs) = take p m"
  by (simp add: put_at_def)

lemma put_at_append:
  "p + length xs \<le> length m \<Longrightarrow> put_at (put_at m p xs) (p + length xs) ys = put_at m p (xs @ ys)"
  by (simp add: put_at_def ac_simps)

lemma wrote_nil [simp]: "wrote [] b = b"
  by (simp add: wrote_def put_at_def)

lemma wrote_ok:
  assumes "nbb_ok b" and "unat (nb_position b) + length xs \<le> unat (nb_limit b)"
  shows "nbb_ok (wrote xs b)" and "kept b (wrote xs b)"
    and "unat (nb_position (wrote xs b)) = unat (nb_position b) + length xs"
    and "nb_limit (wrote xs b) = nb_limit b"
proof -
  note d = nbb_okD [OF assms(1)]
  have p: "unat (nb_position b + word_of_nat (length xs)) = unat (nb_position b) + length xs"
    using assms(2) d by (intro unat_add_small) simp_all
  show "nbb_ok (wrote xs b)" using assms d p by (simp add: nbb_ok_def wrote_def word_le_nat_alt)
  show "kept b (wrote xs b)" using assms(2) d p by (simp add: kept_def wrote_def take_put_at word_le_nat_alt)
  show "unat (nb_position (wrote xs b)) = unat (nb_position b) + length xs" using p by (simp add: wrote_def)
  show "nb_limit (wrote xs b) = nb_limit b" by (simp add: wrote_def)
qed

lemma wrote_wrote:
  assumes "nbb_ok b" and "unat (nb_position b) + length xs \<le> unat (nb_limit b)"
  shows "wrote ys (wrote xs b) = wrote (xs @ ys) b"
proof -
  note d = nbb_okD [OF assms(1)]
  have p: "unat (nb_position b + word_of_nat (length xs)) = unat (nb_position b) + length xs"
    using assms(2) d by (intro unat_add_small) simp_all
  show ?thesis using assms d p by (simp add: wrote_def put_at_append add.assoc)
qed

lemma kept_refl [simp]: "kept b b"
  by (simp add: kept_def)

lemma kept_trans: "kept a b \<Longrightarrow> kept b c \<Longrightarrow> kept a c"
  unfolding kept_def by (metis (no_types, lifting) min.absorb1 order_trans take_take word_le_nat_alt)

lemma nb_grow_grow [simp]: "nb_grow m (nb_grow n b) = nb_grow (n + m) b"
  by (simp add: nb_grow_def add.assoc)

lemma nb_grow_calc [simp]: "nb_calculateSizeOnly (nb_grow n b) = nb_calculateSizeOnly b"
  by (simp add: nb_grow_def)

lemma nb_puts_ok:
  assumes "nbb_ok b" and "unat (nb_position b) + length xs \<le> unat (nb_limit b)"
  shows "nb_puts xs b = Some (wrote xs b)"
  using assms
proof (induction xs arbitrary: b)
  case (Cons x xs)
  note d = nbb_okD [OF Cons.prems(1)]
  have "nb_put x b = Some (wrote [x] b)"
    using Cons.prems(2) d
    by (simp add: nb_put_def wr_uint wrote_def put_at_def upd_conv_take_nth_drop)
  moreover have "nb_puts xs (wrote [x] b) = Some (wrote xs (wrote [x] b))"
    using Cons.prems wrote_ok [OF Cons.prems(1), of "[x]"] by (intro Cons.IH) simp_all
  ultimately show ?case using wrote_wrote [OF Cons.prems(1), of "[x]" xs] Cons.prems(2) by simp
qed simp

lemma writeBytesInternal_ok:
  assumes "nbb_ok b" and "unat (nb_position b) + unat n \<le> unat (nb_limit b)"
    and "unat off + unat n \<le> length src"
  shows "writeBytesInternal src off n b = Some (wrote (take (unat n) (drop (unat off) src)) b)"
  using assms(2,3) nbb_okD [OF assms(1)]
  by (simp add: writeBytesInternal_def mem_copy_uint wrote_def put_at_def)

subsection \<open>The wire format\<close>

definition int_bytes :: "u32 \<Rightarrow> byte list" where
  "int_bytes x = le_bytes 4 (uint x)"

definition long_bytes :: "ulong \<Rightarrow> byte list" where
  "long_bytes x = le_bytes 8 (uint x)"

definition bool_bytes :: "bool \<Rightarrow> byte list" where
  "bool_bytes v = int_bytes (if v then 0x997275b5 else 0xbc799737)"

definition tl_prefix :: "nat \<Rightarrow> byte list" where
  "tl_prefix n = (if n \<le> 253 then [word_of_nat n] else 254 # le_bytes 3 (int n))"

definition tl_bytes :: "byte list \<Rightarrow> byte list" where
  "tl_bytes xs = tl_prefix (length xs) @ xs @
     replicate ((4 - (length (tl_prefix (length xs)) + length xs) mod 4) mod 4) 0"

lemma ucast_of_uint: "(ucast (x :: 'a::len word) :: byte) = word_of_int (uint x)"
  by (rule bit_word_eqI) (simp add: bit_simps)

lemma uint_drop_bit: "uint (drop_bit k (x :: 'a::len word)) = uint x div 2 ^ k"
  by (rule bit_eqI) (auto simp: bit_simps simp flip: drop_bit_eq_div)

lemma le_bytes_3: "le_bytes 3 x = [word_of_int x, word_of_int (x div 2 ^ 8), word_of_int (x div 2 ^ 16)]"
  by (simp add: numeral_3_eq_3 flip: zdiv_zmult2_eq)

lemma le_bytes_4:
  "le_bytes 4 x = [word_of_int x, word_of_int (x div 2 ^ 8), word_of_int (x div 2 ^ 16), word_of_int (x div 2 ^ 24)]"
proof -
  have "le_bytes 4 x = word_of_int x # le_bytes 3 (x div 2 ^ 8)" using le_bytes.simps(2) [of 3 x] by simp
  then show ?thesis unfolding le_bytes_3 by (simp flip: zdiv_zmult2_eq)
qed

lemma le_bytes_8:
  "le_bytes 8 x = [word_of_int x, word_of_int (x div 2 ^ 8), word_of_int (x div 2 ^ 16), word_of_int (x div 2 ^ 24),
     word_of_int (x div 2 ^ 32), word_of_int (x div 2 ^ 40), word_of_int (x div 2 ^ 48), word_of_int (x div 2 ^ 56)]"
proof -
  have "le_bytes 8 x =
      [word_of_int x, word_of_int (x div 2 ^ 8), word_of_int (x div 2 ^ 16), word_of_int (x div 2 ^ 24)] @
      le_bytes 4 (x div 2 ^ 32)"
    using le_bytes.simps(2) [of 7 x] le_bytes.simps(2) [of 6 "x div 2 ^ 8"] le_bytes.simps(2) [of 5 "x div 2 ^ 16"]
      le_bytes.simps(2) [of 4 "x div 2 ^ 24"]
    by (simp flip: zdiv_zmult2_eq)
  then show ?thesis unfolding le_bytes_4 by (simp flip: zdiv_zmult2_eq)
qed

lemma int_bytes_eq:
  "int_bytes x = [ucast x, ucast (drop_bit 8 x), ucast (drop_bit 16 x), ucast (drop_bit 24 x)]"
  by (simp only: int_bytes_def uint_drop_bit ucast_of_uint le_bytes_4)

lemma long_bytes_eq:
  "long_bytes x = [ucast x, ucast (drop_bit 8 x), ucast (drop_bit 16 x), ucast (drop_bit 24 x),
     ucast (drop_bit 32 x), ucast (drop_bit 40 x), ucast (drop_bit 48 x), ucast (drop_bit 56 x)]"
  by (simp only: long_bytes_def uint_drop_bit ucast_of_uint le_bytes_8)

lemma length_int_bytes [simp]: "length (int_bytes x) = 4"
  by (simp add: int_bytes_def)

lemma length_long_bytes [simp]: "length (long_bytes x) = 8"
  by (simp add: long_bytes_def)

lemma tl_prefix_eq:
  assumes "n < 2 ^ 24"
  shows "tl_prefix n = (if (word_of_nat n :: u32) \<le> 253 then [ucast (word_of_nat n :: u32)]
     else [254, ucast (word_of_nat n :: u32), ucast (drop_bit 8 (word_of_nat n :: u32)),
           ucast (drop_bit 16 (word_of_nat n :: u32))])"
proof -
  have n: "unat (word_of_nat n :: u32) = n" using assms by (simp add: unat_of_nat)
  then have u: "uint (word_of_nat n :: u32) = int n" by (metis of_nat_unat)
  have le: "(word_of_nat n :: u32) \<le> 253 \<longleftrightarrow> n \<le> 253" using n by (simp add: word_le_nat_alt)
  show ?thesis unfolding tl_prefix_def le ucast_of_uint uint_drop_bit u le_bytes_3 by simp
qed

subsection \<open>What the writers emit\<close>

lemma emitsEI:
  assumes "length xs < 2 ^ 31"
    and "\<And>b e. nb_calculateSizeOnly b \<Longrightarrow> f (b, e) = Some (nb_grow (word_of_nat (length xs)) b, e)"
    and "\<And>b e. nbb_ok b \<Longrightarrow> unat (nb_position b) + length xs \<le> unat (nb_limit b) \<Longrightarrow>
      \<not> nb_position b + word_of_nat (length xs) > nb_limit b \<Longrightarrow> f (b, e) = Some (wrote xs b, e)"
    and "\<And>b e. nbb_ok b \<Longrightarrow> nb_position b + word_of_nat (length xs) > nb_limit b \<Longrightarrow> f (b, e) = Some (b, True)"
  shows "emitsE f xs"
  using assms over_iff [OF nbb_okD(6) assms(1)] unfolding emitsE_def
  by (metis kept_refl linorder_not_less)

lemma emits_writeInt32E: "emitsE (writeInt32E x) (int_bytes x)"
proof (rule emitsEI)
  fix b e assume "nbb_ok b" "unat (nb_position b) + length (int_bytes x) \<le> unat (nb_limit b)"
    "\<not> nb_position b + word_of_nat (length (int_bytes x)) > nb_limit b"
  then show "writeInt32E x (b, e) = Some (wrote (int_bytes x) b, e)"
    using nb_puts_ok [of b "int_bytes x"] nbb_okD(1) [of b] by (simp add: writeInt32E_def int_bytes_eq del: nb_puts.simps)
qed (auto simp: writeInt32E_def dest: nbb_okD)

lemma emits_writeInt64E: "emitsE (writeInt64E x) (long_bytes x)"
proof (rule emitsEI)
  fix b e assume "nbb_ok b" "unat (nb_position b) + length (long_bytes x) \<le> unat (nb_limit b)"
    "\<not> nb_position b + word_of_nat (length (long_bytes x)) > nb_limit b"
  then show "writeInt64E x (b, e) = Some (wrote (long_bytes x) b, e)"
    using nb_puts_ok [of b "long_bytes x"] nbb_okD(1) [of b] by (simp add: writeInt64E_def long_bytes_eq del: nb_puts.simps)
qed (auto simp: writeInt64E_def dest: nbb_okD)

lemma emits_writeBoolE: "emitsE (writeBoolE v) (bool_bytes v)"
proof -
  have "writeBoolE v (b, e) = writeInt32E (if v then 0x997275b5 else 0xbc799737) (b, e)" for b e
    by (simp add: writeBoolE_def writeInt32E_def)
  then show ?thesis using emits_writeInt32E unfolding emitsE_def bool_bytes_def by presburger
qed

lemma emits_writeByteE: "emitsE (writeByteE i) [i]"
proof (rule emitsEI)
  fix b e assume "nbb_ok b" "unat (nb_position b) + length [i] \<le> unat (nb_limit b)"
    "\<not> nb_position b + word_of_nat (length [i]) > nb_limit b"
  then show "writeByteE i (b, e) = Some (wrote [i] b, e)"
    using nb_puts_ok [of b "[i]"] nbb_okD(1) [of b] by (simp add: writeByteE_def)
qed (auto simp: writeByteE_def dest: nbb_okD)

lemma emits_writeBytesE:
  assumes "unat off + unat n \<le> length src" and "unat n < 2 ^ 31"
  shows "emitsE (writeBytesE src off n) (take (unat n) (drop (unat off) src))"
proof (rule emitsEI)
  have l: "length (take (unat n) (drop (unat off) src)) = unat n" using assms(1) by simp
  show "length (take (unat n) (drop (unat off) src)) < 2 ^ 31" using assms l by simp
  fix b e assume b: "nbb_ok b"
  { assume "unat (nb_position b) + length (take (unat n) (drop (unat off) src)) \<le> unat (nb_limit b)"
      "\<not> nb_position b + word_of_nat (length (take (unat n) (drop (unat off) src))) > nb_limit b"
    then show "writeBytesE src off n (b, e) = Some (wrote (take (unat n) (drop (unat off) src)) b, e)"
      using b assms(1) nbb_okD(1) [OF b] unfolding l by (simp add: writeBytesE_def writeBytesInternal_ok) }
  { assume "nb_position b + word_of_nat (length (take (unat n) (drop (unat off) src))) > nb_limit b"
    then show "writeBytesE src off n (b, e) = Some (b, True)"
      using b nbb_okD(1) [OF b] unfolding l by (simp add: writeBytesE_def) }
next
  fix b :: NativeByteBuffer and e assume "nb_calculateSizeOnly b"
  moreover have "length (take (unat n) (drop (unat off) src)) = unat n" using assms(1) by simp
  ultimately show "writeBytesE src off n (b, e) =
      Some (nb_grow (word_of_nat (length (take (unat n) (drop (unat off) src)))) b, e)"
    by (simp only: writeBytesE_def) simp
qed

lemma writeBytes_arrayE_eq: "writeBytes_arrayE a = writeBytesE a 0 (word_of_nat (length a))"
  by (simp add: writeBytes_arrayE_def writeBytesE_def fun_eq_iff)

lemma emits_writeBytes_arrayE: "length a < 2 ^ 31 \<Longrightarrow> emitsE (writeBytes_arrayE a) a"
  using emits_writeBytesE [of 0 "word_of_nat (length a)" a]
  by (simp add: writeBytes_arrayE_eq unat_of_nat)

lemma unat_tl_addition:
  assumes "unat l < 2 ^ 24" and "unat sl \<le> 4"
  shows "unat (tl_addition l sl) = (4 - (unat sl + unat l) mod 4) mod 4"
proof -
  have "unat (l + sl) = unat sl + unat l" using assms by (simp add: unat_word_ariths)
  then have m: "unat ((l + sl) mod 4) = (unat sl + unat l) mod 4" by (simp add: unat_mod_distrib)
  then have z: "(l + sl) mod 4 = 0 \<longleftrightarrow> (unat sl + unat l) mod 4 = 0" by (metis unat_0 unat_eq_zero)
  have "(l + sl) mod 4 \<le> 4" using m by (simp add: word_le_nat_alt order_less_imp_le)
  then have "unat (4 - (l + sl) mod 4) = 4 - (unat sl + unat l) mod 4" using m by (simp add: unat_sub)
  then show ?thesis using z m by (simp add: tl_addition_def Let_def)
qed

lemma nb_grow_times: "(nb_grow 1 ^^ k) b = nb_grow (word_of_nat k) b"
  by (induction k) (simp_all add: nb_grow_def ac_simps)

lemma nb_puts_wrote:
  assumes "nbb_ok b" and "unat (nb_position b) + length xs + length ys \<le> unat (nb_limit b)"
  shows "nb_puts ys (wrote xs b) = Some (wrote (xs @ ys) b)"
  using assms wrote_ok [of b xs] nb_puts_ok [of "wrote xs b" ys] wrote_wrote [of b xs ys] by simp

lemma over_wrote:
  assumes "nbb_ok b" and "unat (nb_position b) + length xs \<le> unat (nb_limit b)" and "n < 2 ^ 31"
  shows "nb_position (wrote xs b) + word_of_nat n > nb_limit (wrote xs b) \<longleftrightarrow>
    unat (nb_limit b) < unat (nb_position b) + length xs + n"
  using wrote_ok [OF assms(1,2)] nbb_okD(6) [of "wrote xs b"] assms(3) by (simp add: over_iff)

lemma writeByteArrayE_calc:
  assumes "nb_calculateSizeOnly b" and "n < 2 ^ 24"
  shows "writeByteArrayE src off (word_of_nat n) (b, e) =
     Some (nb_grow (word_of_nat (length (tl_prefix n) + n +
       (4 - (length (tl_prefix n) + n) mod 4) mod 4)) b, e)"
proof -
  have n: "unat (word_of_nat n :: u32) = n" using assms(2) by (simp add: unat_of_nat)
  then have le: "(word_of_nat n :: u32) \<le> 253 \<longleftrightarrow> n \<le> 253" by (simp add: word_le_nat_alt)
  have l: "length (tl_prefix n) = (if n \<le> 253 then 1 else 4)" by (simp add: tl_prefix_def)
  have a: "tl_addition (word_of_nat n) (if n \<le> 253 then 1 else 4) =
      word_of_nat ((4 - (length (tl_prefix n) + n) mod 4) mod 4)"
    using unat_tl_addition [of "word_of_nat n" "if n \<le> 253 then 1 else 4"] n assms(2)
    by (simp add: l word_unat_eq_iff unat_of_nat)
  show ?thesis
  proof (cases "n \<le> 253")
    case True
    then show ?thesis using assms(1) a unfolding writeByteArrayE_def le l
      by (simp add: nb_grow_times ac_simps)
  next
    case False
    then show ?thesis using assms(1) a unfolding writeByteArrayE_def le l
      by (simp add: nb_grow_times ac_simps)
  qed
qed

lemma emits_writeByteArrayE:
  assumes "unat off + n \<le> length src" and n: "n < 2 ^ 24"
  shows "emitsE (writeByteArrayE src off (word_of_nat n)) (tl_bytes (take n (drop (unat off) src)))"
proof -
  define xs where "xs = take n (drop (unat off) src)"
  define h where "h = tl_prefix n"
  define k where "k = (4 - (length h + n) mod 4) mod 4"
  have len: "length xs = n" using assms(1) by (simp add: xs_def)
  have tl: "tl_bytes xs = h @ xs @ replicate k 0" by (simp add: tl_bytes_def h_def k_def len)
  have un: "unat (word_of_nat n :: u32) = n" using n by (simp add: unat_of_nat)
  then have le: "(word_of_nat n :: u32) \<le> 253 \<longleftrightarrow> n \<le> 253" by (simp add: word_le_nat_alt)
  have lh: "length h = (if n \<le> 253 then 1 else 4)" by (simp add: h_def tl_prefix_def)
  have a: "unat (tl_addition (word_of_nat n) (if n \<le> 253 then 1 else 4)) = k"
    using unat_tl_addition [of "word_of_nat n" "if n \<le> 253 then 1 else 4"] un n by (simp add: k_def lh)
  have k: "k < 4" by (simp add: k_def)
  then have a': "tl_addition (word_of_nat n) (if n \<le> 253 then 1 else 4) = word_of_nat k"
    using a by (simp add: word_unat_eq_iff unat_of_nat)
  have step: "writeByteArrayE src off (word_of_nat n) (b, e) =
     (if nb_position b + word_of_nat (length h) > nb_limit b then Some (b, True)
      else do {
        b \<leftarrow> nb_puts h b;
        if nb_position b + word_of_nat n > nb_limit b then Some (b, True)
        else do {
          b \<leftarrow> writeBytesInternal src off (word_of_nat n) b;
          if nb_position b + word_of_nat k > nb_limit b then Some (b, True)
          else do { b \<leftarrow> nb_puts (replicate k 0) b; Some (b, e) }
        }
      })" if "\<not> nb_calculateSizeOnly b" for b e
    using that a' a un
    by (cases "n \<le> 253")
      (simp_all add: writeByteArrayE_def le h_def tl_prefix_eq [OF n] Let_def del: nb_puts.simps cong: if_cong)
  show ?thesis unfolding xs_def [symmetric] emitsE_def
  proof (intro conjI allI impI)
    fix b :: NativeByteBuffer and e assume "nb_calculateSizeOnly b"
    then show "writeByteArrayE src off (word_of_nat n) (b, e) = Some (nb_grow (word_of_nat (length (tl_bytes xs))) b, e)"
      using writeByteArrayE_calc [of b n src off e] n by (simp add: tl len h_def k_def add.assoc)
  next
    fix b e assume b: "nbb_ok b" and room: "unat (nb_position b) + length (tl_bytes xs) \<le> unat (nb_limit b)"
    have 1: "\<not> nb_position b + word_of_nat (length h) > nb_limit b"
      using over_iff [OF nbb_okD(6) [OF b], of "length h"] room lh by (simp add: tl)
    note p = wrote_ok [OF b, of h]
    show "writeByteArrayE src off (word_of_nat n) (b, e) = Some (wrote (tl_bytes xs) b, e)"
      using b room 1 k len un assms(1) n wrote_ok [OF b, of h] nb_puts_ok [OF b, of h]
        over_wrote [OF b, of h n] over_wrote [OF b, of "h @ xs" k] wrote_wrote [OF b, of h xs]
        nb_puts_wrote [OF b, of "h @ xs" "replicate k 0"]
        writeBytesInternal_ok [of "wrote h b" "word_of_nat n" off src]
      by (simp add: step nbb_okD(1) tl xs_def [symmetric])
  next
    fix b e assume b: "nbb_ok b" and room: "unat (nb_position b) + length (tl_bytes xs) > unat (nb_limit b)"
    show "\<exists>b'. writeByteArrayE src off (word_of_nat n) (b, e) = Some (b', True) \<and> nbb_ok b' \<and> kept b b'"
    proof -
      consider (A) "unat (nb_limit b) < unat (nb_position b) + length h"
        | (B) "unat (nb_position b) + length h \<le> unat (nb_limit b)"
            "unat (nb_limit b) < unat (nb_position b) + length h + n"
        | (C) "unat (nb_position b) + length (h @ xs) \<le> unat (nb_limit b)"
            "unat (nb_limit b) < unat (nb_position b) + length (h @ xs) + k"
        using room len by (fastforce simp: tl)
      then show ?thesis
      proof cases
        case A
        then show ?thesis using over_iff [OF nbb_okD(6) [OF b], of "length h"] lh b
          by (simp add: step nbb_okD(1) [OF b] split: if_splits)
      next
        case B
        then show ?thesis
          using wrote_ok [OF b, of h] nb_puts_ok [OF b, of h] over_wrote [OF b, of h n] n lh
            over_iff [OF nbb_okD(6) [OF b], of "length h"]
          by (simp add: step nbb_okD(1) [OF b] split: if_splits)
      next
        case C
        then show ?thesis
          using wrote_ok [OF b, of h] wrote_ok [OF b, of "h @ xs"] nb_puts_ok [OF b, of h] over_wrote [OF b, of h n]
            over_wrote [OF b, of "h @ xs" k] wrote_wrote [OF b, of h xs] n lh len un k assms(1)
            over_iff [OF nbb_okD(6) [OF b], of "length h"]
            writeBytesInternal_ok [of "wrote h b" "word_of_nat n" off src]
          by (simp add: step nbb_okD(1) [OF b] xs_def [symmetric] split: if_splits)
      qed
    qed
  qed
qed

lemma emits_writeStringE: "length s < 2 ^ 24 \<Longrightarrow> emitsE (writeStringE s) (tl_bytes s)"
  using emits_writeByteArrayE [of 0 "length s" s] by (simp add: writeStringE_def)

lemma emits_no_error: "emitsE f xs \<Longrightarrow> emits (no_error f) xs"
proof -
  assume f: "emitsE f xs"
  have "\<exists>b'. no_error f b = Some b' \<and> nbb_ok b' \<and> kept b b'" if "nbb_ok b" for b
    using f that wrote_ok [OF that, of xs] unfolding emitsE_def no_error_def
    by (cases "unat (nb_position b) + length xs \<le> unat (nb_limit b)") (simp, fastforce simp: not_le)
  then show ?thesis using f unfolding emitsE_def emits_def no_error_def by simp
qed

subsection \<open>Writers compose\<close>

lemma emits_Some [intro!]: "emits (\<lambda>b. Some b) []"
  by (auto simp: emits_def nb_grow_def)

lemma emits_bind:
  assumes f: "emits f xs" and g: "emits g ys"
  shows "emits (\<lambda>b. Option.bind (f b) g) (xs @ ys)"
  unfolding emits_def
proof (intro conjI allI impI)
  fix b :: NativeByteBuffer assume "nb_calculateSizeOnly b"
  then show "Option.bind (f b) g = Some (nb_grow (word_of_nat (length (xs @ ys))) b)"
    using f g by (simp add: emits_def)
next
  fix b assume "nbb_ok b" "unat (nb_position b) + length (xs @ ys) \<le> unat (nb_limit b)"
  then show "Option.bind (f b) g = Some (wrote (xs @ ys) b)"
    using f g wrote_ok [of b xs] wrote_wrote [of b xs ys] by (simp add: emits_def)
next
  fix b assume "nbb_ok b"
  then obtain b' where "f b = Some b'" "nbb_ok b'" "kept b b'" using f unfolding emits_def by blast
  moreover from this obtain b'' where "g b' = Some b''" "nbb_ok b''" "kept b' b''" using g unfolding emits_def by blast
  ultimately show "\<exists>b'. Option.bind (f b) g = Some b' \<and> nbb_ok b' \<and> kept b b'"
    using kept_trans by auto
qed

lemma emits_if:
  assumes "c \<Longrightarrow> emits f xs" and "\<not> c \<Longrightarrow> emits g ys"
  shows "emits (\<lambda>b. if c then f b else g b) (if c then xs else ys)"
  using assms by simp

primrec write_each :: "('a \<Rightarrow> NativeByteBuffer \<Rightarrow> NativeByteBuffer option) \<Rightarrow> 'a list \<Rightarrow> NativeByteBuffer \<Rightarrow> NativeByteBuffer option" where
  "write_each f [] b = Some b"
| "write_each f (x # xs) b = do { b \<leftarrow> f x b; write_each f xs b }"

lemma emits_each:
  assumes "\<And>x. x \<in> set xs \<Longrightarrow> emits (f x) (e x)"
  shows "emits (write_each f xs) (concat (map e xs))"
  using assms
proof (induction xs)
  case Nil
  then show ?case using emits_Some by (simp add: emits_def)
next
  case (Cons x xs)
  have "emits (\<lambda>b. Option.bind (f x b) (write_each f xs)) (e x @ concat (map e xs))"
    using Cons by (intro emits_bind) simp_all
  moreover have "write_each f (x # xs) = (\<lambda>b. Option.bind (f x b) (write_each f xs))" by (simp add: fun_eq_iff)
  ultimately show ?case by simp
qed

named_theorems emit_rules \<open>what each writer emits\<close>

lemma emits_writeInt32 [emit_rules]: "emits (writeInt32 x) (int_bytes x)"
  unfolding writeInt32_def by (rule emits_no_error) (rule emits_writeInt32E)

lemma emits_writeInt64 [emit_rules]: "emits (writeInt64 x) (long_bytes x)"
  unfolding writeInt64_def by (rule emits_no_error) (rule emits_writeInt64E)

lemma emits_writeBool [emit_rules]: "emits (writeBool x) (bool_bytes x)"
  unfolding writeBool_def by (rule emits_no_error) (rule emits_writeBoolE)

lemma emits_writeString [emit_rules]: "length s < 2 ^ 24 \<Longrightarrow> emits (writeString s) (tl_bytes s)"
  unfolding writeString_def by (rule emits_no_error) (rule emits_writeStringE)

lemma emits_writeBytes_array [emit_rules]: "length a < 2 ^ 24 \<Longrightarrow> emits (writeBytes_array (Some a)) a"
  unfolding writeBytes_array_def by simp (intro emits_no_error emits_writeBytes_arrayE, simp)

lemma emits_writeByteArray_array [emit_rules]: "length a < 2 ^ 24 \<Longrightarrow> emits (writeByteArray_array (Some a)) (tl_bytes a)"
  unfolding writeByteArray_array_def writeByteArray_arrayE_def writeStringE_def [symmetric]
  by simp (intro emits_no_error emits_writeStringE, simp)

subsection \<open>Every operation keeps the invariant\<close>

datatype nb_op =
    Op_position u32 | Op_limit u32 | Op_flip | Op_clear | Op_rewind | Op_compact | Op_skip u32
  | Op_writeInt32 u32 | Op_writeInt64 ulong | Op_writeBool bool | Op_writeByte byte
  | Op_writeDouble ulong | Op_writeBytes "byte list" u32 u32 | Op_writeByteArray "byte list" u32 u32
  | Op_writeBytes_array "byte list" | Op_writeByteArray_array "byte list" | Op_writeString "byte list"

fun nb_apply :: "nb_op \<Rightarrow> NativeByteBuffer \<Rightarrow> NativeByteBuffer option" where
  "nb_apply (Op_position n) b = Some (position_set n b)"
| "nb_apply (Op_limit n) b = Some (limit_set n b)"
| "nb_apply Op_flip b = Some (flip b)"
| "nb_apply Op_clear b = Some (clear b)"
| "nb_apply Op_rewind b = Some (rewind b)"
| "nb_apply Op_compact b = compact b"
| "nb_apply (Op_skip n) b = Some (skip n b)"
| "nb_apply (Op_writeInt32 x) b = writeInt32 x b"
| "nb_apply (Op_writeInt64 x) b = writeInt64 x b"
| "nb_apply (Op_writeBool x) b = writeBool x b"
| "nb_apply (Op_writeByte x) b = writeByte x b"
| "nb_apply (Op_writeDouble x) b = writeDouble x b"
| "nb_apply (Op_writeBytes src off len) b = writeBytes src off len b"
| "nb_apply (Op_writeByteArray src off len) b = writeByteArray src off len b"
| "nb_apply (Op_writeBytes_array xs) b = writeBytes_array (Some xs) b"
| "nb_apply (Op_writeByteArray_array xs) b = writeByteArray_array (Some xs) b"
| "nb_apply (Op_writeString xs) b = writeString xs b"

text \<open>The source of a write is readable where it is read, and has less than \<open>2^31\<close> bytes.\<close>

fun nb_fits :: "nb_op \<Rightarrow> bool" where
  "nb_fits (Op_writeBytes src off len) = (unat off + unat len \<le> length src \<and> unat len < 2 ^ 31)"
| "nb_fits (Op_writeByteArray src off len) = (unat off + unat len \<le> length src \<and> unat len < 2 ^ 31)"
| "nb_fits (Op_writeBytes_array xs) = (length xs < 2 ^ 31)"
| "nb_fits (Op_writeByteArray_array xs) = (length xs < 2 ^ 31)"
| "nb_fits (Op_writeString xs) = (length xs < 2 ^ 31)"
| "nb_fits op = True"

primrec nb_run :: "nb_op list \<Rightarrow> NativeByteBuffer \<Rightarrow> NativeByteBuffer option" where
  "nb_run [] b = Some b"
| "nb_run (op # ops) b = do { b \<leftarrow> nb_apply op b; nb_run ops b }"

text \<open>What no operation changes: the memory block, its capacity and the kind of buffer.\<close>

definition same_block :: "NativeByteBuffer \<Rightarrow> NativeByteBuffer \<Rightarrow> bool" where
  "same_block b b' \<longleftrightarrow> length (nb_buffer b') = length (nb_buffer b) \<and> nb_capacity b' = nb_capacity b \<and>
     nb_sliced b' = nb_sliced b"

lemma emits_writeByte [emit_rules]: "emits (writeByte x) [x]"
  unfolding writeByte_def by (rule emits_no_error) (rule emits_writeByteE)

lemma compact_ok:
  assumes "nbb_ok b"
  obtains b' where "compact b = Some b'" "nbb_ok b'" "same_block b b'"
    "nb_position b \<noteq> nb_limit b \<Longrightarrow> take (unat (nb_position b')) (nb_buffer b') =
       take (unat (nb_limit b) - unat (nb_position b)) (drop (unat (nb_position b)) (nb_buffer b))"
proof (cases "nb_position b = nb_limit b")
  case True
  then show thesis using assms that [of b] by (simp add: compact_def same_block_def)
next
  case False
  note d = nbb_okD [OF assms]
  have n: "unat (nb_limit b - nb_position b) = unat (nb_limit b) - unat (nb_position b)"
    using d(2) by (simp add: unat_sub word_le_nat_alt)
  have fits: "unat (nb_limit b) - unat (nb_position b) \<le> length (nb_buffer b)"
    "unat (nb_position b) + (unat (nb_limit b) - unat (nb_position b)) \<le> length (nb_buffer b)" using d by linarith+
  have "mem_copy (nb_buffer b) 0 (nb_buffer b) (uint (nb_position b)) (uint (nb_limit b - nb_position b)) =
      Some (take (unat (nb_limit b) - unat (nb_position b)) (drop (unat (nb_position b)) (nb_buffer b)) @
        drop (unat (nb_limit b) - unat (nb_position b)) (nb_buffer b))"
    using mem_copy_uint [of "nb_buffer b" 0 "nb_buffer b" "nb_position b" "nb_limit b - nb_position b"] fits
    by (simp add: n)
  then have c: "compact b = Some (b\<lparr>nb_buffer := take (unat (nb_limit b) - unat (nb_position b)) (drop (unat (nb_position b)) (nb_buffer b)) @
        drop (unat (nb_limit b) - unat (nb_position b)) (nb_buffer b),
      nb_position := nb_limit b - nb_position b, nb_limit := nb_capacity b\<rparr>)"
    using False by (simp add: compact_def)
  show thesis using d fits n by (intro that [OF c]) (auto simp: nbb_ok_def same_block_def word_le_nat_alt)
qed

lemma length_tl_bytes: "length (tl_bytes xs) mod 4 = 0"
proof -
  have "(k + (4 - k mod 4) mod 4) mod 4 = 0" for k :: nat
  proof -
    have "r < 4 \<Longrightarrow> 4 * q + r = k \<Longrightarrow> k + (4 - r) = 4 * (q + 1)" for q r :: nat by simp
    from this [of "k mod 4" "k div 4"] have "k + (4 - k mod 4) = 4 * (k div 4 + 1)" by simp
    then have "(k + (4 - k mod 4)) mod 4 = 0" by simp
    then show ?thesis by (simp only: mod_add_right_eq)
  qed
  from this [of "length (tl_prefix (length xs)) + length xs"] show ?thesis by (simp add: tl_bytes_def add.assoc)
qed

lemma writeByteArrayE_safe:
  assumes "unat off + unat len \<le> length src" and n: "unat len < 2 ^ 31" and b: "nbb_ok b"
  shows "\<exists>b' e'. writeByteArrayE src off len (b, e) = Some (b', e') \<and> nbb_ok b' \<and> kept b b'"
proof -
  define h :: "byte list" where "h = (if len \<le> 253 then [ucast len] else [254, ucast len, ucast (drop_bit 8 len), ucast (drop_bit 16 len)])"
  define a where "a = tl_addition len (if len \<le> 253 then 1 else 4)"
  define xs where "xs = take (unat len) (drop (unat off) src)"
  have len: "length xs = unat len" using assms(1) by (simp add: xs_def)
  have h: "length h \<le> 4" by (simp add: h_def)
  have a: "unat a < 2 ^ 31"
  proof -
    have m: "unat ((len + s) mod 4) < 4" for s by (simp add: unat_mod_distrib)
    then have "(len + s) mod 4 \<le> 4" for s by (simp add: word_le_nat_alt less_imp_le)
    then have "unat (4 - (len + s) mod 4) \<le> 4" for s by (simp add: unat_sub)
    then have "unat (tl_addition len s) \<le> 4" for s
      using m [of s] by (simp add: tl_addition_def Let_def less_imp_le)
    from this [of "if len \<le> 253 then 1 else 4"] show ?thesis by (simp add: a_def)
  qed
  have step: "writeByteArrayE src off len (b, e) =
     (if nb_position b + word_of_nat (length h) > nb_limit b then Some (b, True)
      else do {
        b \<leftarrow> nb_puts h b;
        if nb_position b + len > nb_limit b then Some (b, True)
        else do {
          b \<leftarrow> writeBytesInternal src off len b;
          if nb_position b + a > nb_limit b then Some (b, True)
          else do { b \<leftarrow> nb_puts (replicate (unat a) 0) b; Some (b, e) }
        }
      })"
    using nbb_okD(1) [OF b] by (cases "len \<le> 253") (simp_all add: writeByteArrayE_def h_def a_def Let_def del: nb_puts.simps cong: if_cong)
  have fin: "nbb_ok (wrote ys b) \<and> kept b (wrote ys b)" if "unat (nb_position b) + length ys \<le> unat (nb_limit b)" for ys
    using wrote_ok [OF b that] by simp
  note oh = over_iff [OF nbb_okD(6) [OF b], of "length h"] and ph = nb_puts_ok [OF b, of h]
  consider (A) "unat (nb_limit b) < unat (nb_position b) + length h"
    | (B) "unat (nb_position b) + length h \<le> unat (nb_limit b)" "unat (nb_limit b) < unat (nb_position b) + length h + unat len"
    | (C) "unat (nb_position b) + length (h @ xs) \<le> unat (nb_limit b)" "unat (nb_limit b) < unat (nb_position b) + length (h @ xs) + unat a"
    | (D) "unat (nb_position b) + length (h @ xs @ replicate (unat a) 0) \<le> unat (nb_limit b)"
    using len by fastforce
  then show ?thesis
  proof cases
    case A
    then show ?thesis using oh h b by (auto simp: step)
  next
    case B
    then show ?thesis using oh h ph over_wrote [OF b B(1) n] fin [OF B(1)] by (auto simp: step)
  next
    case C
    then have 1: "unat (nb_position b) + length h \<le> unat (nb_limit b)" by simp
    show ?thesis using C oh h ph [OF 1] over_wrote [OF b 1 n] over_wrote [OF b C(1) a] wrote_ok [OF b 1] len fin [OF C(1)]
        writeBytesInternal_ok [of "wrote h b" len off src] wrote_wrote [OF b, of h xs] assms(1)
      by (auto simp: step xs_def [symmetric])
  next
    case D
    then have 1: "unat (nb_position b) + length h \<le> unat (nb_limit b)" "unat (nb_position b) + length (h @ xs) \<le> unat (nb_limit b)" by simp_all
    show ?thesis using D oh h ph [OF 1(1)] over_wrote [OF b 1(1) n] over_wrote [OF b 1(2) a] wrote_ok [OF b 1(1)] len fin [OF D]
        writeBytesInternal_ok [of "wrote h b" len off src] wrote_wrote [OF b, of h xs] assms(1)
        nb_puts_wrote [OF b, of "h @ xs" "replicate (unat a) 0"]
      by (simp add: step xs_def [symmetric])
  qed
qed

lemma writeByteArrayE_whole_safe:
  assumes "length xs < 2 ^ 31" and "nbb_ok b"
  shows "\<exists>b'. no_error (writeByteArrayE xs 0 (word_of_nat (length xs))) b = Some b' \<and> nbb_ok b' \<and> same_block b b'"
proof -
  have "unat (word_of_nat (length xs) :: u32) = length xs" using assms(1) by (simp add: unat_of_nat)
  then show ?thesis using writeByteArrayE_safe [of 0 "word_of_nat (length xs)" xs b False] assms
    by (auto simp: no_error_def same_block_def kept_def)
qed

lemma emits_ok: "emits f xs \<Longrightarrow> nbb_ok b \<Longrightarrow> \<exists>b'. f b = Some b' \<and> nbb_ok b' \<and> same_block b b'"
  unfolding emits_def same_block_def kept_def by metis

lemma nb_apply_ok:
  assumes "nbb_ok b" and "nb_fits op"
  shows "\<exists>b'. nb_apply op b = Some b' \<and> nbb_ok b' \<and> same_block b b'"
proof (cases op)
  case Op_compact
  then show ?thesis using compact_ok [OF assms(1)] by auto
next
  case (Op_writeInt32 x)
  then show ?thesis using emits_ok [OF emits_writeInt32 assms(1)] by simp
next
  case (Op_writeInt64 x)
  then show ?thesis using emits_ok [OF emits_writeInt64 assms(1)] by simp
next
  case (Op_writeBool x)
  then show ?thesis using emits_ok [OF emits_writeBool assms(1)] by simp
next
  case (Op_writeByte x)
  then show ?thesis using emits_ok [OF emits_writeByte assms(1)] by simp
next
  case (Op_writeDouble x)
  then show ?thesis using emits_ok [OF emits_writeInt64 assms(1)]
    by (simp add: writeDouble_def writeDoubleE_def writeInt64_def)
next
  case (Op_writeBytes src off len)
  then show ?thesis using emits_ok [OF emits_no_error [OF emits_writeBytesE [of off len src]] assms(1)] assms(2)
    by (simp add: writeBytes_def)
next
  case (Op_writeByteArray src off len)
  then show ?thesis using writeByteArrayE_safe [of off len src b False] assms
    by (auto simp: writeByteArray_def no_error_def same_block_def kept_def)
next
  case (Op_writeBytes_array xs)
  then show ?thesis using emits_ok [OF emits_no_error [OF emits_writeBytes_arrayE [of xs]] assms(1)] assms(2)
    by (simp add: writeBytes_array_def)
next
  case (Op_writeByteArray_array xs)
  then show ?thesis using writeByteArrayE_whole_safe [OF _ assms(1), of xs] assms(2)
    by (simp add: writeByteArray_array_def writeByteArray_arrayE_def)
next
  case (Op_writeString xs)
  then show ?thesis using writeByteArrayE_whole_safe [OF _ assms(1), of xs] assms(2)
    by (simp add: writeString_def writeStringE_def)
qed (use assms(1) in
    \<open>auto simp: nbb_ok_def same_block_def position_set_def limit_set_def flip_def clear_def rewind_def skip_def Let_def\<close>)

lemma nb_run_ok:
  assumes "nbb_ok b" and "list_all nb_fits ops"
  shows "\<exists>b'. nb_run ops b = Some b' \<and> nbb_ok b' \<and> same_block b b'"
  using assms
proof (induction ops arbitrary: b)
  case (Cons op ops)
  obtain b1 where b1: "nb_apply op b = Some b1" "nbb_ok b1" "same_block b b1"
    using nb_apply_ok [OF Cons.prems(1), of op] Cons.prems(2) by auto
  obtain b2 where "nb_run ops b1 = Some b2" "nbb_ok b2" "same_block b1 b2"
    using Cons.IH [OF b1(2)] Cons.prems(2) by auto
  then show ?case using b1 by (auto simp: same_block_def)
qed (simp add: same_block_def)

text \<open>The bound on the source is needed: the test is a 32-bit sum, and when position and length pass \<open>2^32\<close> together it
  lets a copy begin that leaves the memory of the buffer.\<close>

lemma writeBytes_wraps:
  assumes "nbb_ok b" and "2 ^ 32 \<le> unat (nb_position b) + unat len" and "length (nb_buffer b) < 2 ^ 32"
  shows "writeBytes src off len b = None"
proof -
  note d = nbb_okD [OF assms(1)]
  have n: "unat len < 2 ^ 32" using unsigned_less [of len, where ?'a = nat] by simp
  have "unat (nb_position b + len) = unat (nb_position b) + unat len - 2 ^ 32"
    using n d assms(2) by (simp add: unat_word_ariths mod_if)
  then have "\<not> nb_position b + len > nb_limit b" using n d by (simp add: word_less_nat_alt)
  moreover have "length (nb_buffer b) < unat (nb_position b) + unat len" using assms(2,3) by linarith
  then have "int (length (nb_buffer b)) < int (unat (nb_position b)) + int (unat len)" by linarith
  then have "mem_copy (nb_buffer b) (uint (nb_position b)) src (uint off) (uint len) = None"
    by (simp add: mem_copy_def Let_def)
  ultimately show ?thesis using d(1) by (simp add: writeBytes_def no_error_def writeBytesE_def writeBytesInternal_def)
qed

text \<open>C10. Any sequence of positioning, skipping, compacting and writing calls on a well-formed buffer stays
  inside its memory, whether or not there is room, and leaves a well-formed buffer of the same capacity: the position
  never passes the limit, nor the limit the capacity.  The sources written from must be readable and have less than
  \<open>2^31\<close> bytes each (\<open>nb_fits\<close>); positions, limits and lengths to skip are arbitrary.\<close>

theorem buffer_operations_safe:
  assumes "nbb_ok b" and "list_all nb_fits ops"
  shows "\<exists>b'. nb_run ops b = Some b' \<and> nbb_ok b' \<and> same_block b b'"
  using assms by (rule nb_run_ok)

theorem buffer_operations_safe_witness:
  "\<exists>b'. nb_run [Op_writeInt32 7, Op_flip, Op_skip 2, Op_compact, Op_writeString [1, 2, 3],
       Op_writeBytes [1, 2, 3, 4] 1 2, Op_writeInt64 9]
     (NativeByteBuffer_alloc ample 12) = Some b' \<and> nbb_ok b' \<and> same_block (NativeByteBuffer_alloc ample 12) b'"
  by (rule buffer_operations_safe) (simp_all add: nbb_ok_def NativeByteBuffer_alloc_def)

text \<open>C27. What \<open>skip\<close> does on every length: it advances when the bytes are there, stays put when they are
  not, and, because the sum of the test is 32 bits wide, moves the position \<^emph>\<open>back\<close> when position and length
  together pass \<open>2^32\<close>.\<close>

theorem skip_outcome:
  assumes "nbb_ok b"
  shows "unat (nb_position (skip n b)) =
     (if unat (nb_position b) + unat n \<le> unat (nb_limit b) then unat (nb_position b) + unat n
      else if unat (nb_position b) + unat n \<ge> 2 ^ 32 then unat (nb_position b) + unat n - 2 ^ 32
      else unat (nb_position b))"
proof -
  note d = nbb_okD [OF assms]
  have n: "unat n < 2 ^ 32" using unsigned_less [of n, where ?'a = nat] by simp
  have u: "unat (nb_position b + n) =
      (if unat (nb_position b) + unat n < 2 ^ 32 then unat (nb_position b) + unat n
       else unat (nb_position b) + unat n - 2 ^ 32)"
    using n d by (simp add: unat_word_ariths mod_if)
  show ?thesis using d n by (auto simp: skip_def word_less_nat_alt u)
qed

theorem skip_outcome_witness:
  "unat (nb_position (skip 0xfffffffe ((NativeByteBuffer_alloc ample 8)\<lparr>nb_position := 4\<rparr>))) = 2"
  using skip_outcome [of "(NativeByteBuffer_alloc ample 8)\<lparr>nb_position := 4\<rparr>" "0xfffffffe"]
  by (simp add: nbb_ok_def NativeByteBuffer_alloc_def)

text \<open>C25. \<open>writeByteArray\<close> with an error pointer.  It writes the length prefix, the bytes and the padding to a
  multiple of four when all of it fits; otherwise it sets the error and touches nothing before the old position
  or outside the buffer.  The size calculator counts exactly the same number of bytes.\<close>

theorem writeByteArray_outcome:
  assumes "unat off + n \<le> length src" and "n < 2 ^ 24"
    and "w = tl_bytes (take n (drop (unat off) src))"
  shows "length w mod 4 = 0 \<and>
    (nb_calculateSizeOnly b \<longrightarrow>
      writeByteArrayE src off (word_of_nat n) (b, e) = Some (nb_grow (word_of_nat (length w)) b, e)) \<and>
    (nbb_ok b \<and> unat (nb_position b) + length w \<le> unat (nb_limit b) \<longrightarrow>
      writeByteArrayE src off (word_of_nat n) (b, e) = Some (wrote w b, e)) \<and>
    (nbb_ok b \<and> unat (nb_limit b) < unat (nb_position b) + length w \<longrightarrow>
      (\<exists>b'. writeByteArrayE src off (word_of_nat n) (b, e) = Some (b', True) \<and> nbb_ok b' \<and> kept b b'))"
  using emits_writeByteArrayE [OF assms(1,2)] length_tl_bytes [of "take n (drop (unat off) src)"]
  unfolding emitsE_def assms(3) by simp

theorem writeByteArray_outcome_witness:
  "writeByteArrayE [1, 2, 3, 4, 5] 1 3 (NativeByteBuffer_alloc ample 8, False) =
     Some (wrote [3, 2, 3, 4] (NativeByteBuffer_alloc ample 8), False)"
  using writeByteArray_outcome [of 1 3 "[1, 2, 3, 4, 5]" _ "NativeByteBuffer_alloc ample 8" False]
  by (simp add: tl_bytes_def tl_prefix_def nbb_ok_def NativeByteBuffer_alloc_def)

end
