(* ===== verification/Buffers_Storage.thy ===== *)
theory Buffers_Storage
  imports Byte_Buffer
begin

unbundle bit_operations_syntax

section \<open>BuffersStorage: the pools of free buffers\<close>

text \<open>
  \<open>tgnet/BuffersStorage.cpp\<close> and \<open>NativeByteBuffer::reuse\<close>.  The seven vectors of free buffers are the fields of a
  record; the pointer that selects one of them is the datatype \<open>pool\<close>.  The mutex is not modelled: a call of
  \<open>getFreeBuffer\<close> or \<open>reuseFreeBuffer\<close> is one atomic step, which is what the lock ensures.  Buffers are values, so a
  buffer returned twice is outside the model.  \<open>buffer_supply\<close> is the interface the readers and the socket rely on.
\<close>

record BuffersStorage =
  freeBuffers8 :: "NativeByteBuffer list"
  freeBuffers128 :: "NativeByteBuffer list"
  freeBuffers1024 :: "NativeByteBuffer list"
  freeBuffers4096 :: "NativeByteBuffer list"
  freeBuffers16384 :: "NativeByteBuffer list"
  freeBuffers32768 :: "NativeByteBuffer list"
  freeBuffersBig :: "NativeByteBuffer list"

text \<open>The pointer \<open>arrayToGetFrom\<close>/\<open>arrayToReuse\<close>: which of the seven vectors.\<close>

datatype pool = Pool8 | Pool128 | Pool1024 | Pool4096 | Pool16384 | Pool32768 | PoolBig

fun pool_of :: "pool \<Rightarrow> BuffersStorage \<Rightarrow> NativeByteBuffer list" where
  "pool_of Pool8 st = freeBuffers8 st"
| "pool_of Pool128 st = freeBuffers128 st"
| "pool_of Pool1024 st = freeBuffers1024 st"
| "pool_of Pool4096 st = freeBuffers4096 st"
| "pool_of Pool16384 st = freeBuffers16384 st"
| "pool_of Pool32768 st = freeBuffers32768 st"
| "pool_of PoolBig st = freeBuffersBig st"

fun pool_upd :: "pool \<Rightarrow> NativeByteBuffer list \<Rightarrow> BuffersStorage \<Rightarrow> BuffersStorage" where
  "pool_upd Pool8 bs st = st\<lparr>freeBuffers8 := bs\<rparr>"
| "pool_upd Pool128 bs st = st\<lparr>freeBuffers128 := bs\<rparr>"
| "pool_upd Pool1024 bs st = st\<lparr>freeBuffers1024 := bs\<rparr>"
| "pool_upd Pool4096 bs st = st\<lparr>freeBuffers4096 := bs\<rparr>"
| "pool_upd Pool16384 bs st = st\<lparr>freeBuffers16384 := bs\<rparr>"
| "pool_upd Pool32768 bs st = st\<lparr>freeBuffers32768 := bs\<rparr>"
| "pool_upd PoolBig bs st = st\<lparr>freeBuffersBig := bs\<rparr>"

definition BuffersStorage_new :: "mem_env \<Rightarrow> BuffersStorage" where
  "BuffersStorage_new E =
     \<lparr>freeBuffers8 = replicate 4 (NativeByteBuffer_alloc E 8),
      freeBuffers128 = replicate 5 (NativeByteBuffer_alloc E 128),
      freeBuffers1024 = [], freeBuffers4096 = [], freeBuffers16384 = [], freeBuffers32768 = [],
      freeBuffersBig = []\<rparr>"

definition arrayToGetFrom :: "u32 \<Rightarrow> (pool \<times> u32) option" where
  "arrayToGetFrom sz =
     (if sz \<le> 8 then Some (Pool8, 8)
      else if sz \<le> 128 then Some (Pool128, 128)
      else if sz \<le> 1024 + 200 then Some (Pool1024, 1024 + 200)
      else if sz \<le> 4096 + 200 then Some (Pool4096, 4096 + 200)
      else if sz \<le> 16384 + 200 then Some (Pool16384, 16384 + 200)
      else if sz \<le> 40000 then Some (Pool32768, 40000)
      else if sz \<le> 160000 then Some (PoolBig, 160000)
      else None)"

definition getFreeBuffer :: "mem_env \<Rightarrow> u32 \<Rightarrow> BuffersStorage \<Rightarrow> NativeByteBuffer \<times> BuffersStorage" where
  "getFreeBuffer E sz st =
     (let (buffer, st) =
        (case arrayToGetFrom sz of
           None \<Rightarrow> (NativeByteBuffer_alloc E sz, st)
         | Some (arr, byteCount) \<Rightarrow>
             (case pool_of arr st of
                [] \<Rightarrow> (NativeByteBuffer_alloc E byteCount, st)
              | b # bs \<Rightarrow> (b, pool_upd arr bs st)))
      in (rewind (limit_set sz buffer), st))"

definition arrayToReuse :: "u32 \<Rightarrow> (pool \<times> nat) option" where
  "arrayToReuse capacity =
     (if capacity = 8 then Some (Pool8, 80)
      else if capacity = 128 then Some (Pool128, 80)
      else if capacity = 1024 + 200 then Some (Pool1024, 10)
      else if capacity = 4096 + 200 then Some (Pool4096, 10)
      else if capacity = 16384 + 200 then Some (Pool16384, 10)
      else if capacity = 40000 then Some (Pool32768, 10)
      else if capacity = 160000 then Some (PoolBig, 10)
      else None)"

definition reuseFreeBuffer :: "NativeByteBuffer option \<Rightarrow> BuffersStorage \<Rightarrow> BuffersStorage" where
  "reuseFreeBuffer p st =
     (case p of
        None \<Rightarrow> st
      | Some buffer \<Rightarrow>
          (case arrayToReuse (nb_capacity buffer) of
             None \<Rightarrow> st
           | Some (arr, maxCount) \<Rightarrow>
               if length (pool_of arr st) < maxCount then pool_upd arr (pool_of arr st @ [buffer]) st
               else st))"

definition reuse :: "NativeByteBuffer \<Rightarrow> BuffersStorage \<Rightarrow> BuffersStorage" where
  "reuse b st = (if nb_sliced b then st else reuseFreeBuffer (Some b) st)"

subsection \<open>The pool invariant\<close>

fun pool_bytes :: "pool \<Rightarrow> u32" where
  "pool_bytes Pool8 = 8"
| "pool_bytes Pool128 = 128"
| "pool_bytes Pool1024 = 1224"
| "pool_bytes Pool4096 = 4296"
| "pool_bytes Pool16384 = 16584"
| "pool_bytes Pool32768 = 40000"
| "pool_bytes PoolBig = 160000"

fun pool_max :: "pool \<Rightarrow> nat" where
  "pool_max Pool8 = 80"
| "pool_max Pool128 = 80"
| "pool_max p = 10"

definition storage_ok :: "BuffersStorage \<Rightarrow> bool" where
  "storage_ok st \<longleftrightarrow> (\<forall>p. length (pool_of p st) \<le> pool_max p \<and>
     (\<forall>b \<in> set (pool_of p st). nbb_ok b \<and> \<not> nb_sliced b \<and> nb_capacity b = pool_bytes p))"

lemma pool_of_upd: "pool_of p (pool_upd q bs st) = (if p = q then bs else pool_of p st)"
  by (cases p; cases q) simp_all

lemma arrayToGetFrom_Some: "arrayToGetFrom n = Some (p, k) \<Longrightarrow> k = pool_bytes p \<and> n \<le> k"
  by (auto simp: arrayToGetFrom_def split: if_splits)

lemma arrayToReuse_Some: "arrayToReuse c = Some (p, k) \<Longrightarrow> c = pool_bytes p \<and> k = pool_max p"
  by (auto simp: arrayToReuse_def split: if_splits)

lemma pool_bytes_small: "unat (pool_bytes p) < 2 ^ 31"
  by (cases p) simp_all

lemma alloc_ok: "unat n < 2 ^ 31 \<Longrightarrow> nbb_ok (NativeByteBuffer_alloc E n)"
  by (simp add: nbb_ok_def NativeByteBuffer_alloc_def)

lemma alloc_simps [simp]:
  "nb_capacity (NativeByteBuffer_alloc E n) = n" "nb_limit (NativeByteBuffer_alloc E n) = n"
  "nb_position (NativeByteBuffer_alloc E n) = 0" "nb_sliced (NativeByteBuffer_alloc E n) = False"
  by (simp_all add: NativeByteBuffer_alloc_def)

lemma storage_ok_new: "storage_ok (BuffersStorage_new E)"
proof -
  have "length (pool_of p (BuffersStorage_new E)) \<le> pool_max p \<and>
     (\<forall>b \<in> set (pool_of p (BuffersStorage_new E)). nbb_ok b \<and> \<not> nb_sliced b \<and> nb_capacity b = pool_bytes p)" for p
    by (cases p) (simp_all add: BuffersStorage_new_def alloc_ok)
  then show ?thesis by (simp add: storage_ok_def)
qed

text \<open>A buffer handed out for \<open>n\<close> bytes: rewound, its limit the requested size.\<close>

definition ready :: "u32 \<Rightarrow> NativeByteBuffer \<Rightarrow> bool" where
  "ready n b \<longleftrightarrow> nbb_ok b \<and> \<not> nb_sliced b \<and> nb_position b = 0 \<and> nb_limit b = n"

lemma ready_limit:
  assumes "nbb_ok b" and "\<not> nb_sliced b" and "n \<le> nb_capacity b"
  shows "ready n (rewind (limit_set n b))"
  using assms by (auto simp: ready_def nbb_ok_def rewind_def limit_set_def Let_def)

lemma getFreeBuffer_ok:
  assumes "storage_ok st" and "unat n < 2 ^ 31" and "getFreeBuffer E n st = (b, st')"
  shows "ready n b" and "storage_ok st'"
proof -
  have "ready n b \<and> storage_ok st'"
  proof (cases "arrayToGetFrom n")
    case None
    then show ?thesis using assms ready_limit [of "NativeByteBuffer_alloc E n" n] alloc_ok [OF assms(2), of E]
      by (auto simp: getFreeBuffer_def)
  next
    case (Some r)
    then obtain p k where r: "arrayToGetFrom n = Some (p, k)" by (cases r) simp
    note k = arrayToGetFrom_Some [OF r]
    show ?thesis
    proof (cases "pool_of p st")
      case Nil
      then show ?thesis using assms r k ready_limit [of "NativeByteBuffer_alloc E k" n]
        alloc_ok [of k E] pool_bytes_small [of p] by (auto simp: getFreeBuffer_def)
    next
      case (Cons c cs)
      then have "nbb_ok c" "\<not> nb_sliced c" "nb_capacity c = pool_bytes p"
        using assms(1) unfolding storage_ok_def by (metis list.set_intros(1))+
      moreover have "storage_ok (pool_upd p cs st)"
        using assms(1) Cons unfolding storage_ok_def pool_of_upd
        by (metis Suc_leD length_Cons list.set_intros(2))
      ultimately show ?thesis using assms(3) r k Cons ready_limit [of c n] by (auto simp: getFreeBuffer_def)
    qed
  qed
  then show "ready n b" and "storage_ok st'" by blast+
qed

lemma reuse_ok:
  assumes "storage_ok st" and "nbb_ok b"
  shows "storage_ok (reuse b st)"
proof (cases "nb_sliced b")
  case False
  show ?thesis
  proof (cases "arrayToReuse (nb_capacity b)")
    case (Some r)
    then obtain p k where r: "arrayToReuse (nb_capacity b) = Some (p, k)" by (cases r) simp
    note k = arrayToReuse_Some [OF r]
    have "storage_ok (pool_upd p (pool_of p st @ [b]) st)" if "length (pool_of p st) < k"
      using assms False k that unfolding storage_ok_def pool_of_upd by auto
    then show ?thesis using assms(1) False r by (simp add: reuse_def reuseFreeBuffer_def)
  qed (use assms(1) False in \<open>simp add: reuse_def reuseFreeBuffer_def\<close>)
qed (use assms(1) in \<open>simp add: reuse_def\<close>)

text \<open>What the rest of the library relies on: a supply of buffers.\<close>

locale buffer_supply =
  fixes ok :: "'st \<Rightarrow> bool"
    and get :: "mem_env \<Rightarrow> u32 \<Rightarrow> 'st \<Rightarrow> NativeByteBuffer \<times> 'st"
    and give :: "NativeByteBuffer \<Rightarrow> 'st \<Rightarrow> 'st"
  assumes get_ready: "ok st \<Longrightarrow> unat n < 2 ^ 31 \<Longrightarrow> get E n st = (b, st') \<Longrightarrow> ready n b"
    and get_ok: "ok st \<Longrightarrow> unat n < 2 ^ 31 \<Longrightarrow> get E n st = (b, st') \<Longrightarrow> ok st'"
    and give_ok: "ok st \<Longrightarrow> nbb_ok b \<Longrightarrow> ok (give b st)"
begin

lemma get_fits:
  assumes "ok st" and "unat n < 2 ^ 31" and "get E n st = (b, st')"
  shows "unat n \<le> length (nb_buffer b)" and "nbb_ok b"
  using get_ready [OF assms] nbb_okD(4) [of b] by (simp_all add: ready_def)

end

interpretation storage: buffer_supply storage_ok getFreeBuffer reuse
  by unfold_locales (auto dest: getFreeBuffer_ok reuse_ok)

subsection \<open>Reachable pools\<close>

text \<open>The pools with the buffers the rest of the program holds: it asks for buffers, works on them, and gives
  them back.\<close>

inductive in_use :: "mem_env \<Rightarrow> BuffersStorage \<Rightarrow> NativeByteBuffer list \<Rightarrow> bool" for E where
  start: "in_use E (BuffersStorage_new E) []"
| request: "in_use E st used \<Longrightarrow> unat n < 2 ^ 31 \<Longrightarrow> getFreeBuffer E n st = (b, st') \<Longrightarrow> in_use E st' (b # used)"
| work: "in_use E st (us @ b # vs) \<Longrightarrow> list_all nb_fits ops \<Longrightarrow> nb_run ops b = Some b' \<Longrightarrow> in_use E st (us @ b' # vs)"
| return: "in_use E st (us @ b # vs) \<Longrightarrow> in_use E (reuse b st) (us @ vs)"

lemma in_use_ok: "in_use E st used \<Longrightarrow> storage_ok st \<and> list_all nbb_ok used"
proof (induction rule: in_use.induct)
  case start
  show ?case by (simp add: storage_ok_new)
next
  case (request st used n b st')
  then show ?case using storage.get_ok storage.get_fits(2) by fastforce
next
  case (work st us b vs ops b')
  then obtain b1 where "nb_run ops b = Some b1" "nbb_ok b1" using nb_run_ok [of b ops] by auto
  then show ?case using work by simp
next
  case (return st us b vs)
  then show ?case by (simp add: storage.give_ok)
qed

text \<open>C13. However the program asks for buffers, works on them and returns them, a request for \<open>n\<close> bytes gets a
  buffer rewound to position 0 with limit \<open>n\<close> and at least \<open>n\<close> bytes of memory, every buffer held stays
  well-formed, and the pools stay bounded: at most 80 buffers of 8 and of 128 bytes, and 10 of each larger size,
  each of exactly the size of its pool.\<close>

theorem getFreeBuffer_reachable:
  assumes "in_use E st used" and "unat n < 2 ^ 31" and "getFreeBuffer E n st = (b, st')"
  shows "nb_position b = 0 \<and> nb_limit b = n \<and> unat n \<le> length (nb_buffer b) \<and> nbb_ok b \<and> list_all nbb_ok used \<and>
    (\<forall>p. length (pool_of p st') \<le> pool_max p \<and> (\<forall>c \<in> set (pool_of p st'). nb_capacity c = pool_bytes p))"
proof -
  have "storage_ok st" "list_all nbb_ok used" using in_use_ok [OF assms(1)] by blast+
  then show ?thesis
    using storage.get_ready [OF _ assms(2,3)] storage.get_ok [OF _ assms(2,3)] storage.get_fits [OF _ assms(2,3)]
    by (auto simp: ready_def storage_ok_def)
qed

theorem getFreeBuffer_reachable_witness:
  "nb_limit (fst (getFreeBuffer ample 100 (reuse (fst (getFreeBuffer ample 5 (BuffersStorage_new ample)))
     (snd (getFreeBuffer ample 5 (BuffersStorage_new ample)))))) = 100"
proof -
  obtain b st where g: "getFreeBuffer ample 5 (BuffersStorage_new ample) = (b, st)" by fastforce
  obtain c st' where h: "getFreeBuffer ample 100 (reuse b st) = (c, st')" by fastforce
  have "in_use ample (reuse b st) ([] @ [])" using in_use.request [OF in_use.start _ g] by (intro in_use.return) simp
  from getFreeBuffer_reachable [OF this _ h] show ?thesis by (simp add: g h)
qed

end
