(* ===== verification/Byte_Reader.thy ===== *)
theory Byte_Reader
  imports Buffers_Storage
begin

unbundle bit_operations_syntax

section \<open>Reading from a NativeByteBuffer\<close>

text \<open>
  The readers of \<open>tgnet/NativeByteBuffer.cpp\<close>.  A reader acts on an \<open>istream\<close>: the buffer, the \<open>bool\<close> behind its
  error pointer, the buffer pools (\<open>readByteBuffer(true, ...)\<close> takes a buffer from them) and the contents of fresh
  memory.  Like the code it returns a default value and sets the flag when the bytes are not there.

  Two contracts: \<open>parses f xs v\<close> (from the bytes \<open>xs\<close> the reader \<open>f\<close> makes \<open>v\<close> and consumes exactly them) and
  \<open>gets f P\<close> (on any bytes whatever, \<open>f\<close> stays inside the buffer, only moves forward, never clears the error flag,
  and its result satisfies \<open>P\<close>), with rules for sequencing, tests and the three loop shapes of the scheme files.
\<close>

text \<open>Reading.\<close>

record istream =
  is_buf :: NativeByteBuffer
  is_error :: bool
  is_pool :: BuffersStorage
  is_mem :: mem_env

definition fail :: "istream \<Rightarrow> istream" where
  "fail s = s\<lparr>is_error := True\<rparr>"

definition advance :: "u32 \<Rightarrow> istream \<Rightarrow> istream" where
  "advance n s = s\<lparr>is_buf := (is_buf s)\<lparr>nb_position := nb_position (is_buf s) + n\<rparr>\<rparr>"

definition short :: "u32 \<Rightarrow> istream \<Rightarrow> bool" where
  "short n s \<longleftrightarrow> nb_position (is_buf s) + n > nb_limit (is_buf s)"

definition readInt32 :: "istream \<Rightarrow> (u32 \<times> istream) option" where
  "readInt32 s =
     (if short 4 s then Some (0, fail s)
      else do {
        x0 \<leftarrow> nb_at (is_buf s) 0; x1 \<leftarrow> nb_at (is_buf s) 1; x2 \<leftarrow> nb_at (is_buf s) 2; x3 \<leftarrow> nb_at (is_buf s) 3;
        Some (ucast x0 OR push_bit 8 (ucast x1) OR push_bit 16 (ucast x2) OR push_bit 24 (ucast x3),
              advance 4 s)
      })"

definition readUint32 :: "istream \<Rightarrow> (u32 \<times> istream) option" where
  "readUint32 s = readInt32 s"

definition readBigInt32 :: "istream \<Rightarrow> (u32 \<times> istream) option" where
  "readBigInt32 s =
     (if short 4 s then Some (0, fail s)
      else do {
        x0 \<leftarrow> nb_at (is_buf s) 0; x1 \<leftarrow> nb_at (is_buf s) 1; x2 \<leftarrow> nb_at (is_buf s) 2; x3 \<leftarrow> nb_at (is_buf s) 3;
        Some (push_bit 24 (ucast x0) OR push_bit 16 (ucast x1) OR push_bit 8 (ucast x2) OR ucast x3,
              advance 4 s)
      })"

definition readInt64 :: "istream \<Rightarrow> (ulong \<times> istream) option" where
  "readInt64 s =
     (if short 8 s then Some (0, fail s)
      else do {
        x0 \<leftarrow> nb_at (is_buf s) 0; x1 \<leftarrow> nb_at (is_buf s) 1; x2 \<leftarrow> nb_at (is_buf s) 2; x3 \<leftarrow> nb_at (is_buf s) 3;
        x4 \<leftarrow> nb_at (is_buf s) 4; x5 \<leftarrow> nb_at (is_buf s) 5; x6 \<leftarrow> nb_at (is_buf s) 6; x7 \<leftarrow> nb_at (is_buf s) 7;
        Some (ucast x0 OR push_bit 8 (ucast x1) OR push_bit 16 (ucast x2) OR push_bit 24 (ucast x3) OR
              push_bit 32 (ucast x4) OR push_bit 40 (ucast x5) OR push_bit 48 (ucast x6) OR push_bit 56 (ucast x7),
              advance 8 s)
      })"

definition readUint64 :: "istream \<Rightarrow> (ulong \<times> istream) option" where
  "readUint64 s = readInt64 s"

definition readByte :: "istream \<Rightarrow> (byte \<times> istream) option" where
  "readByte s =
     (if short 1 s then Some (0, fail s)
      else do { x \<leftarrow> nb_at (is_buf s) 0; Some (x, advance 1 s) })"

definition readBool :: "istream \<Rightarrow> (bool \<times> istream) option" where
  "readBool s = do {
     (consructor, s) \<leftarrow> readUint32 s;
     if consructor = 0x997275b5 then Some (True, s)
     else if consructor = 0xbc799737 then Some (False, s)
     else Some (False, fail s)
   }"

text \<open>\<open>readBytes(uint8_t *b, uint32_t length, bool *error)\<close> copies to the memory \<open>dst\<close> behind \<open>b\<close>.\<close>

definition readBytes_into :: "byte list \<Rightarrow> u32 \<Rightarrow> istream \<Rightarrow> (byte list \<times> istream) option" where
  "readBytes_into dst len s =
     (if len > remaining (is_buf s) then Some (dst, fail s)
      else do {
        dst \<leftarrow> mem_copy dst 0 (nb_buffer (is_buf s)) (uint (nb_position (is_buf s))) (uint len);
        Some (dst, advance len s)
      })"

definition readBytes :: "u32 \<Rightarrow> istream \<Rightarrow> (ByteArray option \<times> istream) option" where
  "readBytes len s =
     (if len > remaining (is_buf s) then Some (None, fail s)
      else do {
        byteArray \<leftarrow> slice (nb_buffer (is_buf s)) (uint (nb_position (is_buf s))) (uint len);
        Some (Some byteArray, advance len s)
      })"

text \<open>The first half of \<open>readString\<close>, \<open>readByteArray\<close> and \<open>readByteBuffer\<close>, the same code in all
  three: the length prefix and the test that the body and its padding are there.  \<open>None\<close> is the
  early return with the error set.\<close>

definition readLength :: "istream \<Rightarrow> ((u32 \<times> u32) option \<times> istream) option" where
  "readLength s =
     (if short 1 s then Some (None, fail s)
      else do {
        l \<leftarrow> nb_at (is_buf s) 0;
        let s = advance 1 s;
        if l \<ge> 254 \<and> short 3 s then Some (None, fail s)
        else do {
          (l, sl, s) \<leftarrow>
            (if l \<ge> 254 then do {
               x0 \<leftarrow> nb_at (is_buf s) 0; x1 \<leftarrow> nb_at (is_buf s) 1; x2 \<leftarrow> nb_at (is_buf s) 2;
               Some (ucast x0 OR push_bit 8 (ucast x1) OR push_bit 16 (ucast x2), 4, advance 3 s)
             }
             else Some ((ucast l :: u32), 1, s));
          let addition = tl_addition l sl;
          if nb_position (is_buf s) + l + addition > nb_limit (is_buf s) then Some (None, fail s)
          else Some (Some (l, addition), s)
        }
      })"

definition readString :: "istream \<Rightarrow> (byte list \<times> istream) option" where
  "readString s = do {
     (r, s) \<leftarrow> readLength s;
     (case r of
        None \<Rightarrow> Some ([], s)
      | Some (l, addition) \<Rightarrow> do {
          result \<leftarrow> slice (nb_buffer (is_buf s)) (uint (nb_position (is_buf s))) (uint l);
          Some (result, advance (l + addition) s)
        })
   }"

definition readByteArray :: "istream \<Rightarrow> (ByteArray option \<times> istream) option" where
  "readByteArray s = do {
     (r, s) \<leftarrow> readLength s;
     (case r of
        None \<Rightarrow> Some (None, s)
      | Some (l, addition) \<Rightarrow> do {
          result \<leftarrow> slice (nb_buffer (is_buf s)) (uint (nb_position (is_buf s))) (uint l);
          Some (Some result, advance (l + addition) s)
        })
   }"

text \<open>A slice shares the memory of its parent from the parent's position on; the model gives it a
  copy of that memory.\<close>

definition readByteBuffer :: "bool \<Rightarrow> istream \<Rightarrow> (NativeByteBuffer option \<times> istream) option" where
  "readByteBuffer copy s = do {
     (r, s) \<leftarrow> readLength s;
     (case r of
        None \<Rightarrow> Some (None, s)
      | Some (l, addition) \<Rightarrow>
          if copy then do {
            let (result, st) = getFreeBuffer (is_mem s) l (is_pool s);
            m \<leftarrow> mem_copy (nb_buffer result) 0 (nb_buffer (is_buf s)) (uint (nb_position (is_buf s))) (uint l);
            Some (Some (result\<lparr>nb_buffer := m\<rparr>), advance (l + addition) (s\<lparr>is_pool := st\<rparr>))
          }
          else
            Some (Some (NativeByteBuffer_slice (drop (unat (nb_position (is_buf s))) (nb_buffer (is_buf s))) l),
                  advance (l + addition) s))
   }"

definition readDouble :: "istream \<Rightarrow> (ulong \<times> istream) option" where
  "readDouble s = readInt64 s"

subsection \<open>What a reader sees\<close>

definition ahead :: "NativeByteBuffer \<Rightarrow> byte list" where
  "ahead b = take (unat (nb_limit b) - unat (nb_position b)) (drop (unat (nb_position b)) (nb_buffer b))"

definition stream_ok :: "istream \<Rightarrow> bool" where
  "stream_ok s \<longleftrightarrow> nbb_ok (is_buf s) \<and> storage_ok (is_pool s)"

definition follows :: "istream \<Rightarrow> istream \<Rightarrow> bool" where
  "follows s s' \<longleftrightarrow> nb_position (is_buf s) \<le> nb_position (is_buf s') \<and>
     is_buf s' = (is_buf s)\<lparr>nb_position := nb_position (is_buf s')\<rparr> \<and>
     (is_error s \<longrightarrow> is_error s') \<and> is_mem s' = is_mem s"

definition parses :: "(istream \<Rightarrow> ('a \<times> istream) option) \<Rightarrow> byte list \<Rightarrow> 'a \<Rightarrow> bool" where
  "parses f xs v \<longleftrightarrow> (\<forall>s ys. stream_ok s \<longrightarrow> ahead (is_buf s) = xs @ ys \<longrightarrow> \<not> is_error s \<longrightarrow>
     f s = Some (v, advance (word_of_nat (length xs)) s))"

definition gets :: "(istream \<Rightarrow> ('a \<times> istream) option) \<Rightarrow> ('a \<Rightarrow> bool) \<Rightarrow> bool" where
  "gets f P \<longleftrightarrow> (\<forall>s. stream_ok s \<longrightarrow>
     (\<exists>v s'. f s = Some (v, s') \<and> stream_ok s' \<and> follows s s' \<and> P v))"

lemma length_ahead: "nbb_ok b \<Longrightarrow> length (ahead b) = unat (nb_limit b) - unat (nb_position b)"
  using nbb_okD [of b] by (simp add: ahead_def)

lemma flip_wrote:
  assumes "nbb_ok b" and "nb_position b = 0" and "length xs \<le> unat (nb_limit b)"
  shows "nbb_ok (flip (wrote xs b))" and "ahead (flip (wrote xs b)) = xs"
proof -
  have room: "unat (nb_position b) + length xs \<le> unat (nb_limit b)" using assms by simp
  note w = wrote_ok [OF assms(1) room]
  show "nbb_ok (flip (wrote xs b))" using w(1) by (auto simp: nbb_ok_def flip_def)
  have "take (length xs) (nb_buffer (wrote xs b)) = xs" using assms(2) by (simp add: wrote_def put_at_def)
  then show "ahead (flip (wrote xs b)) = xs" using w(3) assms(2) by (simp add: ahead_def flip_def)
qed

lemma short_iff:
  assumes "nbb_ok (is_buf s)" and "unat n < 2 ^ 31"
  shows "short n s \<longleftrightarrow> length (ahead (is_buf s)) < unat n"
proof -
  have "short n s \<longleftrightarrow> unat (nb_limit (is_buf s)) < unat (nb_position (is_buf s)) + unat n"
    using over_iff [OF nbb_okD(6) [OF assms(1)] assms(2)] by (simp add: short_def)
  then show ?thesis using length_ahead [OF assms(1)] nbb_okD(2) [OF assms(1)] by auto
qed

lemma nb_at_ok:
  assumes "nbb_ok b" and "unat k < length (ahead b)"
  shows "nb_at b k = Some (ahead b ! unat k)"
proof -
  note d = nbb_okD [OF assms(1)]
  have k: "unat (nb_position b) + unat k < unat (nb_limit b)"
    using assms(2) d by (simp add: length_ahead [OF assms(1)])
  then have "unat (nb_position b + k) = unat (nb_position b) + unat k" using d by (simp add: unat_word_ariths)
  then show ?thesis using k d assms(2) by (simp add: nb_at_def rd_uint ahead_def)
qed

lemma advance_ok:
  assumes "stream_ok s" and "unat n \<le> length (ahead (is_buf s))"
  shows "stream_ok (advance n s)" and "follows s (advance n s)"
    and "ahead (is_buf (advance n s)) = drop (unat n) (ahead (is_buf s))"
proof -
  let ?b = "is_buf s"
  have ok: "nbb_ok ?b" using assms(1) by (simp add: stream_ok_def)
  note d = nbb_okD [OF ok]
  have k: "unat (nb_position ?b) + unat n \<le> unat (nb_limit ?b)"
    using assms(2) d by (simp add: length_ahead [OF ok])
  then have p: "unat (nb_position ?b + n) = unat (nb_position ?b) + unat n" using d by (simp add: unat_word_ariths)
  show "stream_ok (advance n s)"
    using assms(1) d k p by (simp add: stream_ok_def advance_def nbb_ok_def word_le_nat_alt)
  show "follows s (advance n s)" using p by (auto simp: follows_def advance_def word_le_nat_alt)
  show "ahead (is_buf (advance n s)) = drop (unat n) (ahead ?b)"
    using p by (simp add: ahead_def advance_def drop_take add.commute)
qed

lemma fail_ok: "stream_ok s \<Longrightarrow> stream_ok (fail s)" "follows s (fail s)"
  by (auto simp: stream_ok_def fail_def follows_def)

lemma follows_refl [simp]: "follows s s"
  by (auto simp: follows_def)

lemma follows_trans: "follows a b \<Longrightarrow> follows b c \<Longrightarrow> follows a c"
  unfolding follows_def by (metis (no_types, lifting) NativeByteBuffer.update_convs(4) NativeByteBuffer.surjective order_trans)

lemma advance_advance: "advance n (advance m s) = advance (m + n) s"
  by (simp add: advance_def add.assoc)

lemma advance_frame [simp]:
  "is_error (advance n s) = is_error s" "is_pool (advance n s) = is_pool s" "is_mem (advance n s) = is_mem s"
  by (simp_all add: advance_def)

lemma advance_0 [simp]: "advance 0 s = s"
  by (simp add: advance_def)

lemma bit_lane:
  "bit (push_bit k (ucast (ucast (drop_bit k x) :: byte)) :: 'a::len word) n \<longleftrightarrow>
     k \<le> n \<and> n < k + 8 \<and> bit (x :: 'a word) n"
  by (auto simp: bit_simps dest: bit_imp_le_length)

lemma bit_lane0: "bit (ucast (ucast x :: byte) :: 'a::len word) n \<longleftrightarrow> n < 8 \<and> bit (x :: 'a word) n"
  by (auto simp: bit_simps dest: bit_imp_le_length)

lemma int_of_bytes:
  "(ucast (ucast x :: byte) OR push_bit 8 (ucast (ucast (drop_bit 8 x) :: byte)) OR
    push_bit 16 (ucast (ucast (drop_bit 16 x) :: byte)) OR push_bit 24 (ucast (ucast (drop_bit 24 x) :: byte)) :: u32) = x"
proof (rule bit_word_eqI)
  fix n assume "n < LENGTH(32)"
  then have "n < 8 \<or> 8 \<le> n \<and> n < 16 \<or> 16 \<le> n \<and> n < 24 \<or> 24 \<le> n \<and> n < 32" by simp linarith
  then show "bit (ucast (ucast x :: byte) OR push_bit 8 (ucast (ucast (drop_bit 8 x) :: byte)) OR
      push_bit 16 (ucast (ucast (drop_bit 16 x) :: byte)) OR push_bit 24 (ucast (ucast (drop_bit 24 x) :: byte)) :: u32) n = bit x n"
    unfolding bit_or_iff bit_lane bit_lane0 by auto
qed

lemma long_of_bytes:
  "(ucast (ucast x :: byte) OR push_bit 8 (ucast (ucast (drop_bit 8 x) :: byte)) OR
    push_bit 16 (ucast (ucast (drop_bit 16 x) :: byte)) OR push_bit 24 (ucast (ucast (drop_bit 24 x) :: byte)) OR
    push_bit 32 (ucast (ucast (drop_bit 32 x) :: byte)) OR push_bit 40 (ucast (ucast (drop_bit 40 x) :: byte)) OR
    push_bit 48 (ucast (ucast (drop_bit 48 x) :: byte)) OR push_bit 56 (ucast (ucast (drop_bit 56 x) :: byte)) :: ulong) = x"
    (is "?l = _")
proof (rule bit_word_eqI)
  fix n assume "n < LENGTH(64)"
  then have "n < 8 \<or> 8 \<le> n \<and> n < 16 \<or> 16 \<le> n \<and> n < 24 \<or> 24 \<le> n \<and> n < 32 \<or> 32 \<le> n \<and> n < 40 \<or>
      40 \<le> n \<and> n < 48 \<or> 48 \<le> n \<and> n < 56 \<or> 56 \<le> n \<and> n < 64" by simp linarith
  then show "bit ?l n = bit x n"
    unfolding bit_or_iff bit_lane bit_lane0 by auto
qed

lemma at_ok:
  assumes "stream_ok s" and "unat k < length (ahead (is_buf s))"
  shows "nb_at (is_buf s) k = Some (ahead (is_buf s) ! unat k)"
  using assms by (intro nb_at_ok) (simp_all add: stream_ok_def)

lemma shortD: "stream_ok s \<Longrightarrow> unat n < 2 ^ 31 \<Longrightarrow> short n s \<longleftrightarrow> length (ahead (is_buf s)) < unat n"
  by (rule short_iff) (simp_all add: stream_ok_def)

named_theorems parse_rules \<open>what each reader makes of its encoding\<close>
named_theorems get_rules \<open>readers are safe on any input\<close>

lemma parses_readInt32 [parse_rules]: "parses readInt32 (int_bytes x) x"
  unfolding parses_def
proof (intro allI impI)
  fix s ys assume s: "stream_ok s" "ahead (is_buf s) = int_bytes x @ ys"
  then show "readInt32 s = Some (x, advance (word_of_nat (length (int_bytes x))) s)"
    by (simp add: readInt32_def shortD at_ok) (simp add: int_bytes_eq int_of_bytes)
qed

lemma parses_readInt64 [parse_rules]: "parses readInt64 (long_bytes x) x"
  unfolding parses_def
proof (intro allI impI)
  fix s ys assume s: "stream_ok s" "ahead (is_buf s) = long_bytes x @ ys"
  then show "readInt64 s = Some (x, advance (word_of_nat (length (long_bytes x))) s)"
    by (simp add: readInt64_def shortD at_ok) (simp add: long_bytes_eq long_of_bytes)
qed

lemma parses_readUint32 [parse_rules]: "parses readUint32 (int_bytes x) x"
  using parses_readInt32 by (simp add: parses_def readUint32_def)

lemma parses_readBool [parse_rules]: "parses readBool (bool_bytes x) x"
  using parses_readUint32 by (auto simp: parses_def readBool_def bool_bytes_def)

lemma getsI:
  assumes "\<And>s. stream_ok s \<Longrightarrow> \<exists>v s'. f s = Some (v, s') \<and> stream_ok s' \<and> follows s s' \<and> P v"
  shows "gets f P"
  using assms by (simp add: gets_def)

lemma gets_readInt32 [get_rules]: "gets readInt32 (\<lambda>x. True)"
proof (rule getsI)
  fix s assume "stream_ok s"
  moreover have "4 \<le> length (ahead (is_buf s)) \<Longrightarrow> ahead (is_buf s) \<noteq> []" by auto
  ultimately show "\<exists>v s'. readInt32 s = Some (v, s') \<and> stream_ok s' \<and> follows s s' \<and> True"
    using fail_ok [of s] advance_ok [of s 4] by (simp add: readInt32_def shortD at_ok)
qed

lemma gets_readInt64 [get_rules]: "gets readInt64 (\<lambda>x. True)"
proof (rule getsI)
  fix s assume "stream_ok s"
  moreover have "8 \<le> length (ahead (is_buf s)) \<Longrightarrow> ahead (is_buf s) \<noteq> []" by auto
  ultimately show "\<exists>v s'. readInt64 s = Some (v, s') \<and> stream_ok s' \<and> follows s s' \<and> True"
    using fail_ok [of s] advance_ok [of s 8] by (simp add: readInt64_def shortD at_ok)
qed

lemma gets_readUint32 [get_rules]: "gets readUint32 (\<lambda>x. True)"
  using gets_readInt32 by (simp add: gets_def readUint32_def)

lemma gets_readByte [get_rules]: "gets readByte (\<lambda>x. True)"
proof (rule getsI)
  fix s assume s: "stream_ok s"
  then show "\<exists>v s'. readByte s = Some (v, s') \<and> stream_ok s' \<and> follows s s' \<and> True"
    using fail_ok [of s] advance_ok [of s 1] by (cases "ahead (is_buf s)") (simp_all add: readByte_def shortD at_ok)
qed

lemma remaining_iff: "stream_ok s \<Longrightarrow> n > remaining (is_buf s) \<longleftrightarrow> length (ahead (is_buf s)) < unat n"
  by (auto simp: stream_ok_def remaining_def length_ahead word_less_nat_alt nbb_ok_def unat_sub)

lemma slice_ahead:
  assumes "stream_ok s" and "unat (n :: u32) \<le> length (ahead (is_buf s))"
  shows "slice (nb_buffer (is_buf s)) (uint (nb_position (is_buf s))) (uint n) = Some (take (unat n) (ahead (is_buf s)))"
proof -
  have ok: "nbb_ok (is_buf s)" using assms(1) by (simp add: stream_ok_def)
  have "unat (nb_position (is_buf s)) + unat n \<le> length (nb_buffer (is_buf s))"
    using assms(2) nbb_okD [OF ok] by (simp add: length_ahead [OF ok])
  moreover have "min (unat n) (unat (nb_limit (is_buf s)) - unat (nb_position (is_buf s))) = unat n"
    using assms(2) by (simp add: length_ahead [OF ok])
  ultimately show ?thesis unfolding slice_uint ahead_def take_take by simp
qed

lemma parses_readBytes: "unat n = length a \<Longrightarrow> parses (readBytes n) a (Some a)"
  unfolding parses_def
proof (intro allI impI)
  fix s ys assume n: "unat n = length a" and s: "stream_ok s" "ahead (is_buf s) = a @ ys"
  have "word_of_nat (unat n) = n" by simp
  then have "word_of_nat (length a) = n" by (simp only: n)
  then show "readBytes n s = Some (Some a, advance (word_of_nat (length a)) s)"
    using s n by (simp add: readBytes_def remaining_iff slice_ahead)
qed

lemma gets_readBytes [get_rules]: "gets (readBytes n) (\<lambda>x. True)"
proof (rule getsI)
  fix s assume s: "stream_ok s"
  then show "\<exists>v s'. readBytes n s = Some (v, s') \<and> stream_ok s' \<and> follows s s' \<and> True"
    using fail_ok [of s] advance_ok [of s n] by (simp add: readBytes_def remaining_iff slice_ahead)
qed

lemma small_of_take_bit: "take_bit n (w :: u32) = w \<Longrightarrow> unat w < 2 ^ n"
  by (metis take_bit_nat_less_exp unsigned_take_bit_eq)

lemma readLength_ok:
  assumes s: "stream_ok s"
  obtains (short) s' where "readLength s = Some (None, s')" "stream_ok s'" "follows s s'" "is_error s'"
  | (body) l a s' where "readLength s = Some (Some (l, a), s')" "stream_ok s'" "follows s s'"
      "is_error s' = is_error s" "unat l < 2 ^ 24" "unat (l + a) = unat l + unat a"
      "unat l + unat a \<le> length (ahead (is_buf s'))"
proof -
  have room: "nb_position (is_buf t) + l + a > nb_limit (is_buf t) \<longleftrightarrow> length (ahead (is_buf t)) < unat l + unat a"
      "unat (l + a) = unat l + unat a"
    if "stream_ok t" "unat l < 2 ^ 24" "unat a < 4" for t l a
  proof -
    show u: "unat (l + a) = unat l + unat a" using that by (simp add: unat_word_ariths)
    show "nb_position (is_buf t) + l + a > nb_limit (is_buf t) \<longleftrightarrow> length (ahead (is_buf t)) < unat l + unat a"
      using shortD [OF that(1), of "l + a"] u that by (simp add: short_def add.assoc)
  qed
  have finish: thesis if t: "stream_ok t" "follows s t" "is_error t = is_error s" and l: "unat l < 2 ^ 24" "unat sl \<le> 4"
    and r: "readLength s = (if nb_position (is_buf t) + l + tl_addition l sl > nb_limit (is_buf t)
        then Some (None, fail t) else Some (Some (l, tl_addition l sl), t))" for t l sl
  proof -
    have a: "unat (tl_addition l sl) < 4" using unat_tl_addition [OF l] by simp
    show thesis
    proof (cases "length (ahead (is_buf t)) < unat l + unat (tl_addition l sl)")
      case True
      then show thesis using r room(1) [OF t(1) l(1) a] fail_ok(1) [OF t(1)] follows_trans [OF t(2) fail_ok(2)]
        by (intro short [of "fail t"]) (simp_all add: fail_def)
    next
      case False
      then show thesis using r room [OF t(1) l(1) a] t l by (intro body [of l "tl_addition l sl" t]) simp_all
    qed
  qed
  show thesis
  proof (cases "ahead (is_buf s)")
    case Nil
    then show thesis using s fail_ok [of s] by (intro short [of "fail s"]) (simp_all add: readLength_def shortD fail_def)
  next
    case (Cons x xs)
    let ?t = "advance 1 s"
    have t: "stream_ok ?t" "follows s ?t" "ahead (is_buf ?t) = xs" "is_error ?t = is_error s"
      using advance_ok [OF s, of 1] Cons by (simp_all add: advance_def)
    have x: "nb_at (is_buf s) 0 = Some x" "\<not> short 1 s" using s Cons by (simp_all add: at_ok shortD)
    show thesis
    proof (cases "x \<ge> 254")
      case False
      have "unat (ucast x :: u32) < 2 ^ 24"
        using unsigned_less [of x, where ?'a = nat] by (simp add: unsigned_ucast_eq take_bit_nat_eq_self)
      then show thesis using x False t by (intro finish [of ?t "ucast x" 1]) (simp_all add: readLength_def)
    next
      case long: True
      show thesis
      proof (cases "length xs < 3")
        case True
        then show thesis using x long t fail_ok(1) [OF t(1)] follows_trans [OF t(2) fail_ok(2)]
          by (intro short [of "fail ?t"]) (simp_all add: readLength_def shortD fail_def)
      next
        case False
        let ?u = "advance 3 ?t"
        let ?l = "ucast (xs ! 0) OR push_bit 8 (ucast (xs ! 1)) OR push_bit 16 (ucast (xs ! 2)) :: u32"
        have u: "stream_ok ?u" "follows s ?u" "is_error ?u = is_error s"
          using advance_ok [OF t(1), of 3] t False follows_trans [OF t(2)] by (simp_all add: advance_def)
        have "take_bit 24 ?l = ?l" by (rule bit_word_eqI) (auto simp: bit_simps dest: bit_imp_le_length)
        then have l: "unat ?l < 2 ^ 24" by (rule small_of_take_bit)
        have "xs \<noteq> []" using False by auto
        then have "nb_at (is_buf ?t) 0 = Some (xs ! 0)" "nb_at (is_buf ?t) 1 = Some (xs ! 1)"
          "nb_at (is_buf ?t) 2 = Some (xs ! 2)" "\<not> short 3 ?t"
          using t False by (simp_all add: at_ok shortD)
        then show thesis using x long
          by (intro finish [OF u l, of 4]) (simp_all add: readLength_def)
      qed
    qed
  qed
qed

lemma triple_of_bytes:
  assumes "unat (x :: u32) < 2 ^ 24"
  shows "(ucast (ucast x :: byte) OR push_bit 8 (ucast (ucast (drop_bit 8 x) :: byte)) OR
    push_bit 16 (ucast (ucast (drop_bit 16 x) :: byte)) :: u32) = x"
proof -
  have "drop_bit 24 x = 0" using assms by (simp add: drop_bit_eq_div word_unat_eq_iff unat_div)
  then have "push_bit 24 (ucast (ucast (drop_bit 24 x) :: byte)) = (0 :: u32)" by simp
  then show ?thesis using int_of_bytes [of x] by simp
qed

lemma readLength_tl_bytes:
  assumes s: "stream_ok s" and n: "length xs < 2 ^ 24" and a: "ahead (is_buf s) = tl_bytes xs @ ys"
  shows "readLength s = Some (Some (word_of_nat (length xs),
      word_of_nat ((4 - (length (tl_prefix (length xs)) + length xs) mod 4) mod 4)),
      advance (word_of_nat (length (tl_prefix (length xs)))) s)"
proof -
  define n where "n = length xs"
  define h where "h = tl_prefix n"
  define k where "k = (4 - (length h + n) mod 4) mod 4"
  define t where "t = advance (word_of_nat (length h)) s"
  have un: "unat (word_of_nat n :: u32) = n" using assms(2) by (simp add: unat_of_nat n_def)
  have lh: "length h = (if n \<le> 253 then 1 else 4)" by (simp add: h_def tl_prefix_def)
  have ah: "ahead (is_buf s) = h @ xs @ replicate k 0 @ ys" using a by (simp add: tl_bytes_def h_def k_def n_def)
  have uh: "unat (word_of_nat (length h) :: u32) = length h" by (simp add: lh)
  have t: "stream_ok t" "ahead (is_buf t) = xs @ replicate k 0 @ ys"
    using advance_ok [OF s, of "word_of_nat (length h)"] uh ah by (simp_all add: t_def)
  have k: "k < 4" by (simp add: k_def)
  then have uk: "unat (word_of_nat k :: u32) = k" by (simp add: unat_of_nat)
  have ak: "tl_addition (word_of_nat n) (if n \<le> 253 then 1 else 4) = word_of_nat k"
    using unat_tl_addition [of "word_of_nat n" "if n \<le> 253 then 1 else 4"] un assms(2) uk
    by (simp add: word_unat_eq_iff k_def lh n_def)
  have "unat (word_of_nat n + word_of_nat k :: u32) = n + k" using un uk k assms(2) by (simp add: unat_word_ariths n_def)
  then have fits: "\<not> nb_limit (is_buf t) < nb_position (is_buf t) + word_of_nat n + word_of_nat k"
    using shortD [OF t(1), of "word_of_nat n + word_of_nat k"] t(2) k assms(2)
    by (simp add: short_def add.assoc n_def)
  have "readLength s = Some (Some (word_of_nat n, word_of_nat k), t)"
  proof (cases "n \<le> 253")
    case True
    then have h: "h = [word_of_nat n]" by (simp add: h_def tl_prefix_def)
    have "unat (word_of_nat n :: byte) = n" using True by (simp add: unat_of_nat)
    then have b: "\<not> (word_of_nat n :: byte) \<ge> 254" "(ucast (word_of_nat n :: byte) :: u32) = word_of_nat n"
      using True un by (simp_all add: word_le_nat_alt word_unat_eq_iff unsigned_ucast_eq take_bit_nat_eq_self)
    show ?thesis using s b ah h fits ak True lh
      by (simp add: readLength_def shortD at_ok t_def)
  next
    case False
    have h: "h = [254, ucast (word_of_nat n :: u32), ucast (drop_bit 8 (word_of_nat n :: u32)),
           ucast (drop_bit 16 (word_of_nat n :: u32))]"
      using tl_prefix_eq [of n] False assms(2) un by (simp add: h_def n_def word_le_nat_alt)
    let ?u = "advance 1 s"
    have u: "stream_ok ?u" "ahead (is_buf ?u) = tl h @ xs @ replicate k 0 @ ys"
      using advance_ok [OF s, of 1] ah h by simp_all
    then have "nb_at (is_buf ?u) 0 = Some (ucast (word_of_nat n :: u32))"
      "nb_at (is_buf ?u) 1 = Some (ucast (drop_bit 8 (word_of_nat n :: u32)))"
      "nb_at (is_buf ?u) 2 = Some (ucast (drop_bit 16 (word_of_nat n :: u32)))" "\<not> short 3 ?u"
      using h by (simp_all add: at_ok shortD)
    moreover have "nb_at (is_buf s) 0 = Some 254" "\<not> short 1 s" using s ah h by (simp_all add: at_ok shortD)
    moreover have "advance 3 ?u = t" by (simp add: t_def advance_advance h)
    moreover have "unat (word_of_nat n :: u32) < 2 ^ 24" using un assms(2) by (simp add: n_def)
    ultimately show ?thesis using fits ak False triple_of_bytes [of "word_of_nat n"]
      by (simp add: readLength_def)
  qed
  then show ?thesis by (simp add: n_def k_def h_def t_def)
qed

lemma tl_bytes_read:
  assumes s: "stream_ok s" and n: "length xs < 2 ^ 24" and a: "ahead (is_buf s) = tl_bytes xs @ ys"
  obtains l k t where "readLength s = Some (Some (l, k), t)" "stream_ok t" "unat l = length xs"
    "ahead (is_buf t) = xs @ drop (length xs) (ahead (is_buf t))"
    "advance (l + k) t = advance (word_of_nat (length (tl_bytes xs))) s"
proof -
  let ?h = "tl_prefix (length xs)"
  let ?k = "(4 - (length ?h + length xs) mod 4) mod 4"
  have "length ?h \<le> 4" by (simp add: tl_prefix_def)
  then have "unat (word_of_nat (length ?h) :: u32) = length ?h" by (simp add: unat_of_nat)
  then have "stream_ok (advance (word_of_nat (length ?h)) s)"
    "ahead (is_buf (advance (word_of_nat (length ?h)) s)) = xs @ replicate ?k 0 @ ys"
    using advance_ok [OF s, of "word_of_nat (length ?h)"] a by (simp_all add: tl_bytes_def)
  moreover have "unat (word_of_nat (length xs) :: u32) = length xs" using n by (simp add: unat_of_nat)
  moreover have "advance (word_of_nat (length xs) + word_of_nat ?k) (advance (word_of_nat (length ?h)) s) =
      advance (word_of_nat (length (tl_bytes xs))) s"
    by (simp add: advance_advance tl_bytes_def add.assoc)
  ultimately show thesis using readLength_tl_bytes [OF s n a] that by simp
qed

lemma parses_readString [parse_rules]: "length xs < 2 ^ 24 \<Longrightarrow> parses readString (tl_bytes xs) xs"
  unfolding parses_def
proof (intro allI impI)
  fix s ys assume n: "length xs < 2 ^ 24" and s: "stream_ok s" and a: "ahead (is_buf s) = tl_bytes xs @ ys"
  obtain l k t where t: "readLength s = Some (Some (l, k), t)" "stream_ok t" "unat l = length xs"
      "ahead (is_buf t) = xs @ drop (length xs) (ahead (is_buf t))"
      "advance (l + k) t = advance (word_of_nat (length (tl_bytes xs))) s"
    by (rule tl_bytes_read [OF s n a])
  from t(4) have "length xs \<le> length (ahead (is_buf t))" "take (length xs) (ahead (is_buf t)) = xs"
    by (metis append_eq_conv_conj length_append le_add1)+
  then show "readString s = Some (xs, advance (word_of_nat (length (tl_bytes xs))) s)"
    using t by (simp add: readString_def slice_ahead)
qed

lemma parses_readByteArray [parse_rules]: "length xs < 2 ^ 24 \<Longrightarrow> parses readByteArray (tl_bytes xs) (Some xs)"
  unfolding parses_def
proof (intro allI impI)
  fix s ys assume n: "length xs < 2 ^ 24" and s: "stream_ok s" and a: "ahead (is_buf s) = tl_bytes xs @ ys"
    and "\<not> is_error s"
  then have r: "readString s = Some (xs, advance (word_of_nat (length (tl_bytes xs))) s)"
    using parses_readString [OF n] by (simp add: parses_def)
  obtain l k t where t: "readLength s = Some (Some (l, k), t)" by (rule tl_bytes_read [OF s n a])
  show "readByteArray s = Some (Some xs, advance (word_of_nat (length (tl_bytes xs))) s)"
    using r t by (cases "slice (nb_buffer (is_buf t)) (uint (nb_position (is_buf t))) (uint l)")
      (simp_all add: readString_def readByteArray_def)
qed

lemma gets_readString [get_rules]: "gets readString (\<lambda>x. length x < 2 ^ 24)"
proof (rule getsI)
  fix s assume s: "stream_ok s"
  show "\<exists>v s'. readString s = Some (v, s') \<and> stream_ok s' \<and> follows s s' \<and> length v < 2 ^ 24"
  using s proof (cases rule: readLength_ok)
    case (body l a t)
    then show ?thesis using advance_ok [of t "l + a"] follows_trans [of s t]
      by (simp add: readString_def slice_ahead)
  qed (simp add: readString_def)
qed

lemma gets_readByteArray [get_rules]: "gets readByteArray (\<lambda>x. \<forall>a. x = Some a \<longrightarrow> length a < 2 ^ 24)"
proof (rule getsI)
  fix s assume s: "stream_ok s"
  show "\<exists>v s'. readByteArray s = Some (v, s') \<and> stream_ok s' \<and> follows s s' \<and> (\<forall>a. v = Some a \<longrightarrow> length a < 2 ^ 24)"
  using s proof (cases rule: readLength_ok)
    case (body l a t)
    then show ?thesis using advance_ok [of t "l + a"] follows_trans [of s t]
      by (simp add: readByteArray_def slice_ahead)
  qed (simp add: readByteArray_def)
qed

lemma slice_buffer_ok:
  assumes "stream_ok s" and "unat l \<le> length (ahead (is_buf s))"
  shows "nbb_ok (NativeByteBuffer_slice (drop (unat (nb_position (is_buf s))) (nb_buffer (is_buf s))) l)"
proof -
  have ok: "nbb_ok (is_buf s)" using assms(1) by (simp add: stream_ok_def)
  note d = nbb_okD [OF ok]
  have "unat l \<le> length (nb_buffer (is_buf s)) - unat (nb_position (is_buf s))" "unat l < 2 ^ 31"
    using assms(2) d unfolding length_ahead [OF ok] by linarith+
  then show ?thesis by (simp add: nbb_ok_def NativeByteBuffer_slice_def)
qed

lemma gets_readByteBuffer [get_rules]: "gets (readByteBuffer copy) (\<lambda>x. \<forall>b. x = Some b \<longrightarrow> nbb_ok b)"
proof (rule getsI)
  fix s assume s: "stream_ok s"
  show "\<exists>v s'. readByteBuffer copy s = Some (v, s') \<and> stream_ok s' \<and> follows s s' \<and> (\<forall>b. v = Some b \<longrightarrow> nbb_ok b)"
  using s proof (cases rule: readLength_ok)
    case (body l a t)
    have adv: "stream_ok (advance (l + a) t)" "follows s (advance (l + a) t)"
      using body advance_ok [of t "l + a"] follows_trans [of s t] by simp_all
    show ?thesis
    proof (cases copy)
      case False
      then show ?thesis using body adv slice_buffer_ok [of t l] by (simp add: readByteBuffer_def)
    next
      case True
      obtain b st where g: "getFreeBuffer (is_mem t) l (is_pool t) = (b, st)" by fastforce
      have pool: "storage_ok (is_pool t)" "nbb_ok (is_buf t)" using body by (simp_all add: stream_ok_def)
      have r: "ready l b" "storage_ok st"
        using storage.get_ready [OF pool(1) _ g] storage.get_ok [OF pool(1) _ g] body by simp_all
      have lb: "unat l \<le> length (nb_buffer b)" using storage.get_fits(1) [OF pool(1) _ g] body by simp
      have "unat (nb_position (is_buf t)) + unat l \<le> length (nb_buffer (is_buf t))"
        using body nbb_okD [OF pool(2)] by (simp add: length_ahead [OF pool(2)])
      then have "mem_copy (nb_buffer b) 0 (nb_buffer (is_buf t)) (uint (nb_position (is_buf t))) (uint l) =
          Some (take (unat l) (drop (unat (nb_position (is_buf t))) (nb_buffer (is_buf t))) @ drop (unat l) (nb_buffer b))"
        (is "_ = Some ?m") using lb mem_copy_uint [of "nb_buffer b" 0] by simp
      moreover have "nbb_ok (b\<lparr>nb_buffer := ?m\<rparr>)"
        using r(1) lb \<open>unat (nb_position (is_buf t)) + unat l \<le> _\<close> by (auto simp: nbb_ok_def ready_def)
      moreover have "stream_ok (advance (l + a) (t\<lparr>is_pool := st\<rparr>))" "follows s (advance (l + a) (t\<lparr>is_pool := st\<rparr>))"
        using adv r(2) by (simp_all add: stream_ok_def follows_def advance_def)
      ultimately show ?thesis using body True g by (simp add: readByteBuffer_def)
    qed
  qed (simp add: readByteBuffer_def)
qed

subsection \<open>Readers compose\<close>

lemma gets_bind:
  assumes "gets f P" and "\<And>v. P v \<Longrightarrow> gets (g v) Q"
  shows "gets (\<lambda>s. Option.bind (f s) (\<lambda>(v, s). g v s)) Q"
proof (rule getsI)
  fix s assume "stream_ok s"
  then obtain v s1 where f: "f s = Some (v, s1)" "stream_ok s1" "follows s s1" "P v"
    using assms(1) unfolding gets_def by blast
  then obtain w s2 where g: "g v s1 = Some (w, s2)" "stream_ok s2" "follows s1 s2" "Q w"
    using assms(2) unfolding gets_def by blast
  have "follows s s2" using f(3) g(3) by (rule follows_trans)
  then show "\<exists>w s'. Option.bind (f s) (\<lambda>(v, s). g v s) = Some (w, s') \<and> stream_ok s' \<and> follows s s' \<and> Q w"
    using f(1) g by simp
qed

lemma gets_return: "P v \<Longrightarrow> gets (\<lambda>s. Some (v, s)) P"
  by (auto simp: gets_def)

lemma gets_fail: "P v \<Longrightarrow> gets (\<lambda>s. Some (v, fail s)) P"
  using fail_ok by (auto simp: gets_def)

lemma gets_if: "gets f P \<Longrightarrow> gets g P \<Longrightarrow> gets (\<lambda>s. if c s then f s else g s) P"
  by (auto simp: gets_def)

lemma gets_weaken: "gets f P \<Longrightarrow> (\<And>v. P v \<Longrightarrow> Q v) \<Longrightarrow> gets f Q"
  unfolding gets_def by blast

lemma parses_bind:
  assumes "parses f xs v" and "parses (g v) ys w"
  shows "parses (\<lambda>s. Option.bind (f s) (\<lambda>(v, s). g v s)) (xs @ ys) w"
  unfolding parses_def
proof (intro allI impI)
  fix s zs assume s: "stream_ok s" and a: "ahead (is_buf s) = (xs @ ys) @ zs" and e: "\<not> is_error s"
  have "length xs < 2 ^ 31"
    using a s length_ahead [of "is_buf s"] nbb_okD(5) [of "is_buf s"] by (simp add: stream_ok_def)
  then have u: "unat (word_of_nat (length xs) :: u32) = length xs" by (simp add: unat_of_nat)
  let ?t = "advance (word_of_nat (length xs)) s"
  have "f s = Some (v, ?t)" using assms(1) s a e by (simp add: parses_def)
  moreover have "g v ?t = Some (w, advance (word_of_nat (length ys)) ?t)"
    using assms(2) advance_ok [OF s, of "word_of_nat (length xs)"] u a e by (simp add: parses_def)
  ultimately show "Option.bind (f s) (\<lambda>(v, s). g v s) = Some (w, advance (word_of_nat (length (xs @ ys))) s)"
    by (simp add: advance_advance)
qed

lemma parses_return: "parses (\<lambda>s. Some (v, s)) [] v"
  by (simp add: parses_def)

lemma parses_if:
  assumes "c \<Longrightarrow> parses f xs v" and "\<not> c \<Longrightarrow> parses g ys w"
  shows "parses (\<lambda>s. if c then f s else g s) (if c then xs else ys) (if c then v else w)"
  using assms by simp

lemma parses_eq: "parses f xs v \<Longrightarrow> xs = ys \<Longrightarrow> v = w \<Longrightarrow> parses f ys w"
  by simp

subsection \<open>Vectors\<close>

text \<open>\<open>for (a = 0; a < count; a++) v.push_back(f());\<close>\<close>

primrec read_times :: "nat \<Rightarrow> (istream \<Rightarrow> ('a \<times> istream) option) \<Rightarrow> istream \<Rightarrow> ('a list \<times> istream) option" where
  "read_times 0 f s = Some ([], s)"
| "read_times (Suc n) f s = do { (x, s) \<leftarrow> f s; (xs, s) \<leftarrow> read_times n f s; Some (x # xs, s) }"

text \<open>\<open>for (...) { X *object = new X(); object->readParams(...); if (error) return; v.push_back(object); }\<close>;
  the flag is set by the early return.\<close>

primrec read_until_error ::
    "nat \<Rightarrow> (istream \<Rightarrow> ('a \<times> istream) option) \<Rightarrow> istream \<Rightarrow> (('a list \<times> bool) \<times> istream) option" where
  "read_until_error 0 f s = Some (([], False), s)"
| "read_until_error (Suc n) f s = do {
     (x, s) \<leftarrow> f s;
     if is_error s then Some (([], True), s)
     else do { ((xs, r), s) \<leftarrow> read_until_error n f s; Some ((x # xs, r), s) }
   }"

text \<open>\<open>for (...) { X *object = X::TLdeserialize(...); if (object == nullptr) return; v.push_back(object); }\<close>\<close>

primrec read_until_null ::
    "nat \<Rightarrow> (istream \<Rightarrow> ('a option \<times> istream) option) \<Rightarrow> istream \<Rightarrow> (('a list \<times> bool) \<times> istream) option" where
  "read_until_null 0 f s = Some (([], False), s)"
| "read_until_null (Suc n) f s = do {
     (p, s) \<leftarrow> f s;
     (case p of
        None \<Rightarrow> Some (([], True), s)
      | Some x \<Rightarrow> do { ((xs, r), s) \<leftarrow> read_until_null n f s; Some ((x # xs, r), s) })
   }"

lemma gets_times [get_rules]: "gets f P \<Longrightarrow> gets (read_times n f) (\<lambda>xs. \<forall>x \<in> set xs. P x)"
proof (induction n)
  case (Suc n)
  have "gets (\<lambda>s. Option.bind (f s) (\<lambda>(x, s). Option.bind (read_times n f s) (\<lambda>(xs, s). Some (x # xs, s))))
      (\<lambda>xs. \<forall>x \<in> set xs. P x)"
    by (rule gets_bind [OF Suc.prems], rule gets_bind [OF Suc.IH [OF Suc.prems]], rule gets_return) simp
  then show ?case by (simp add: gets_def)
qed (simp add: gets_def)

lemma gets_until_error [get_rules]:
  "gets f P \<Longrightarrow> gets (read_until_error n f) (\<lambda>(xs, r). \<forall>x \<in> set xs. P x)"
proof (induction n)
  case (Suc n)
  have "gets (\<lambda>s. Option.bind (f s) (\<lambda>(x, s). if is_error s then Some (([], True), s)
      else Option.bind (read_until_error n f s) (\<lambda>(w, s). case w of (xs, r) \<Rightarrow> Some ((x # xs, r), s))))
      (\<lambda>(xs, r). \<forall>x \<in> set xs. P x)"
    by (rule gets_bind [OF Suc.prems], rule gets_if, rule gets_return, simp,
        rule gets_bind [OF Suc.IH [OF Suc.prems]]) (auto intro!: gets_return)
  then show ?case by (simp add: gets_def case_prod_unfold cong: if_cong)
qed (simp add: gets_def)

lemma gets_until_null [get_rules]:
  "gets f (\<lambda>p. \<forall>x. p = Some x \<longrightarrow> P x) \<Longrightarrow> gets (read_until_null n f) (\<lambda>(xs, r). \<forall>x \<in> set xs. P x)"
proof (induction n)
  case (Suc n)
  have "gets (\<lambda>s. Option.bind (f s) (\<lambda>(p, s). case p of None \<Rightarrow> Some (([], True), s)
      | Some x \<Rightarrow> Option.bind (read_until_null n f s) (\<lambda>(w, s). case w of (xs, r) \<Rightarrow> Some ((x # xs, r), s))))
      (\<lambda>(xs, r). \<forall>x \<in> set xs. P x)"
  proof (rule gets_bind [OF Suc.prems])
    fix p assume p: "\<forall>x. p = Some x \<longrightarrow> P x"
    show "gets (\<lambda>s. case p of None \<Rightarrow> Some (([], True), s)
      | Some x \<Rightarrow> Option.bind (read_until_null n f s) (\<lambda>(w, s). case w of (xs, r) \<Rightarrow> Some ((x # xs, r), s)))
      (\<lambda>(xs, r). \<forall>x \<in> set xs. P x)"
      using p by (cases p) (auto intro!: gets_return gets_bind [OF Suc.IH [OF Suc.prems]])
  qed
  then show ?case by (simp add: gets_def case_prod_unfold cong: option.case_cong)
qed (simp add: gets_def)

lemma parsesD:
  assumes "parses f xs v" and "stream_ok s" and "ahead (is_buf s) = xs @ ys" and "\<not> is_error s"
  shows "f s = Some (v, advance (word_of_nat (length xs)) s)" and "stream_ok (advance (word_of_nat (length xs)) s)"
    and "ahead (is_buf (advance (word_of_nat (length xs)) s)) = ys"
proof -
  have "length xs < 2 ^ 31"
    using assms(2,3) length_ahead [of "is_buf s"] nbb_okD(5) [of "is_buf s"] by (simp add: stream_ok_def)
  then have u: "unat (word_of_nat (length xs) :: u32) = length xs" by (simp add: unat_of_nat)
  show "f s = Some (v, advance (word_of_nat (length xs)) s)" using assms by (simp add: parses_def)
  show "stream_ok (advance (word_of_nat (length xs)) s)" "ahead (is_buf (advance (word_of_nat (length xs)) s)) = ys"
    using advance_ok [OF assms(2), of "word_of_nat (length xs)"] u assms(3) by simp_all
qed

lemma parses_loop:
  assumes step: "\<And>x n s t. f s = Some (p x, t) \<Longrightarrow> \<not> is_error t \<Longrightarrow>
      loop (Suc n) s = Option.bind (loop n t) (\<lambda>(r, s). Some (k x r, s))"
    and stop: "\<And>s. loop 0 s = Some (r0, s)"
    and each: "\<And>x. x \<in> set xs \<Longrightarrow> parses f (e x) (p x)"
  shows "parses (loop (length xs)) (concat (map e xs)) (foldr k xs r0)"
  using each
proof (induction xs)
  case (Cons x xs)
  show ?case unfolding parses_def
  proof (intro allI impI)
    fix s ys assume s: "stream_ok s" "ahead (is_buf s) = concat (map e (x # xs)) @ ys" "\<not> is_error s"
    let ?t = "advance (word_of_nat (length (e x))) s"
    have f: "f s = Some (p x, ?t)" and t: "stream_ok ?t" "ahead (is_buf ?t) = concat (map e xs) @ ys"
      using parsesD [of f "e x" "p x" s "concat (map e xs) @ ys"] Cons.prems s by simp_all
    have "loop (length xs) ?t = Some (foldr k xs r0, advance (word_of_nat (length (concat (map e xs)))) ?t)"
      using parsesD(1) [OF Cons.IH t] Cons.prems s(3) by simp
    then show "loop (length (x # xs)) s = Some (foldr k (x # xs) r0, advance (word_of_nat (length (concat (map e (x # xs))))) s)"
      using step [OF f] s(3) by (simp add: advance_advance)
  qed
qed (simp add: parses_def stop)

lemma foldr_Cons_pair: "foldr (\<lambda>x p. (x # fst p, snd p)) xs ([], r) = (xs, r)"
  by (induction xs) simp_all

lemma foldr_Cons: "foldr (#) xs [] = xs"
  by (induction xs) simp_all

lemma parses_times:
  assumes "\<And>x. x \<in> set xs \<Longrightarrow> parses f (e x) x"
  shows "parses (read_times (length xs) f) (concat (map e xs)) xs"
  using parses_loop [where loop = "\<lambda>n. read_times n f" and f = f and p = "\<lambda>x. x" and k = "(#)" and ?r0.0 = "[]" and e = e] assms
  by (simp add: foldr_Cons)

lemma parses_until_error:
  assumes "\<And>x. x \<in> set xs \<Longrightarrow> parses f (e x) x"
  shows "parses (read_until_error (length xs) f) (concat (map e xs)) (xs, False)"
  using parses_loop [where loop = "\<lambda>n. read_until_error n f" and f = f and p = "\<lambda>x. x"
      and k = "\<lambda>x p. (x # fst p, snd p)" and ?r0.0 = "([], False)" and e = e] assms
  by (simp add: foldr_Cons_pair case_prod_unfold)

lemma parses_until_null:
  assumes "\<And>x. x \<in> set xs \<Longrightarrow> parses f (e x) (Some x)"
  shows "parses (read_until_null (length xs) f) (concat (map e xs)) (xs, False)"
  using parses_loop [where loop = "\<lambda>n. read_until_null n f" and f = f and p = Some
      and k = "\<lambda>x p. (x # fst p, snd p)" and ?r0.0 = "([], False)" and e = e] assms
  by (simp add: foldr_Cons_pair case_prod_unfold)

text \<open>\<open>count * sizeof(int64_t) + stream->position() > stream->limit()\<close>, in the 64 bits of \<open>size_t\<close>.\<close>

definition too_many :: "u32 \<Rightarrow> istream \<Rightarrow> bool" where
  "too_many count s \<longleftrightarrow>
     ucast count * 8 + ucast (nb_position (is_buf s)) > (ucast (nb_limit (is_buf s)) :: ulong)"

lemma too_many_iff:
  assumes "stream_ok s"
  shows "too_many count s \<longleftrightarrow> length (ahead (is_buf s)) < 8 * unat count"
proof -
  have ok: "nbb_ok (is_buf s)" using assms by (simp add: stream_ok_def)
  have u: "unat (ucast (w :: u32) :: ulong) = unat w" for w
    using unsigned_less [of w, where ?'a = nat] by (simp add: unsigned_ucast_eq take_bit_nat_eq_self)
  have "unat (ucast count * 8 + ucast (nb_position (is_buf s)) :: ulong) = 8 * unat count + unat (nb_position (is_buf s))"
    using nbb_okD [OF ok] unsigned_less [of count, where ?'a = nat] by (simp add: unat_word_ariths u)
  then show ?thesis using nbb_okD(2) [OF ok] by (auto simp: too_many_def word_less_nat_alt u length_ahead [OF ok])
qed

lemma parses_not_too_many:
  assumes "8 * unat count \<le> length xs" and "parses g xs v"
  shows "parses (\<lambda>s. if too_many count s then f s else g s) xs v"
  using assms by (simp add: parses_def too_many_iff)

lemma unat_len: "n < 2 ^ 31 \<Longrightarrow> unat (word_of_nat n :: u32) = n"
  by (simp add: unat_of_nat)

lemma sint_len: "n < 2 ^ 31 \<Longrightarrow> nat (sint (word_of_nat n :: u32)) = n"
  using sint_u32_of_int [of "int n"] by (simp add: c_int_def signed_take_bit_int_eq_self)

lemma parses_times_count:
  assumes "length xs < 2 ^ 31" and "\<And>x. x \<in> set xs \<Longrightarrow> parses f (e x) x"
  shows "parses (read_times (unat (word_of_nat (length xs) :: u32)) f) (concat (map e xs)) xs"
  using parses_times [of xs f e] assms by (simp only: unat_len)

lemma parses_until_error_count:
  assumes "length xs < 2 ^ 31" and "\<And>x. x \<in> set xs \<Longrightarrow> parses f (e x) x"
  shows "parses (read_until_error (unat (word_of_nat (length xs) :: u32)) f) (concat (map e xs)) (xs, False)"
  using parses_until_error [of xs f e] assms by (simp only: unat_len)

lemma parses_until_null_count:
  assumes "length xs < 2 ^ 31" and "\<And>x. x \<in> set xs \<Longrightarrow> parses f (e x) (Some x)"
  shows "parses (read_until_null (unat (word_of_nat (length xs) :: u32)) f) (concat (map e xs)) (xs, False)"
    and "parses (read_until_null (nat (sint (word_of_nat (length xs) :: u32))) f) (concat (map e xs)) (xs, False)"
  using parses_until_null [of xs f e] assms by (simp_all only: unat_len sint_len)

end
