(* ===== verification/Byte_Stream.thy ===== *)
theory Byte_Stream
  imports Byte_Reader
begin

unbundle bit_operations_syntax

section \<open>ByteStream and the sending side of a socket\<close>

text \<open>
  \<open>tgnet/ByteStream.cpp\<close> and the part of \<open>ConnectionSocket::onEvent\<close> that sends (the branch of \<open>EPOLLOUT\<close> after the
  connection is established), with both overloads of \<open>writeBuffer\<close>.  The system call \<open>send\<close> is a parameter: the
  bytes offered to how many it takes, or a negative number.  The answer of \<open>epoll_ctl\<close> in \<open>adjustWriteOp\<close> is an argument: a failure
  closes the socket.  The calls to the delegate and the clock have no effect on the queue and are left out.  \<open>byte_queue\<close> is the interface the sender relies on.
\<close>

type_synonym ByteStream = "NativeByteBuffer list"

definition ByteStream_append :: "NativeByteBuffer option \<Rightarrow> ByteStream \<Rightarrow> ByteStream" where
  "ByteStream_append p q = (case p of None \<Rightarrow> q | Some buffer \<Rightarrow> q @ [buffer])"

definition ByteStream_hasData :: "ByteStream \<Rightarrow> bool" where
  "ByteStream_hasData q = list_ex hasRemaining q"

fun get_loop :: "ByteStream \<Rightarrow> NativeByteBuffer \<Rightarrow> NativeByteBuffer option" where
  "get_loop [] dst = Some dst"
| "get_loop (buffer # q) dst =
     (if remaining buffer > remaining dst then writeBytes (nb_buffer buffer) (nb_position buffer) (remaining dst) dst
      else do {
        dst \<leftarrow> writeBytes (nb_buffer buffer) (nb_position buffer) (remaining buffer) dst;
        if \<not> hasRemaining dst then Some dst else get_loop q dst
      })"

definition ByteStream_get :: "NativeByteBuffer option \<Rightarrow> ByteStream \<Rightarrow> NativeByteBuffer option option" where
  "ByteStream_get p q = (case p of None \<Rightarrow> Some None | Some dst \<Rightarrow> map_option Some (get_loop q dst))"

fun ByteStream_discard :: "u32 \<Rightarrow> ByteStream \<times> BuffersStorage \<Rightarrow> (ByteStream \<times> BuffersStorage) option" where
  "ByteStream_discard count ([], st) = (if count > 0 then None else Some ([], st))"
| "ByteStream_discard count (buffer # q, st) =
     (if count > 0 then
        if count < remaining buffer then Some (position_set (nb_position buffer + count) buffer # q, st)
        else ByteStream_discard (count - remaining buffer) (q, reuse buffer st)
      else Some (buffer # q, st))"

definition ByteStream_clean :: "ByteStream \<times> BuffersStorage \<Rightarrow> ByteStream \<times> BuffersStorage" where
  "ByteStream_clean = (\<lambda>(q, st). ([], fold reuse q st))"

record Socket =
  so_networkBuffer :: NativeByteBuffer
  so_outgoingByteStream :: ByteStream
  so_pool :: BuffersStorage
  so_closed :: bool

text \<open>\<open>closeSocket\<close>, as far as the queue is concerned, and \<open>adjustWriteOp\<close>: the socket is closed when \<open>epoll_ctl\<close> fails
  (\<open>modify\<close> says whether it succeeds).\<close>

definition close_queue :: "Socket \<Rightarrow> Socket" where
  "close_queue so =
     (let (q, st) = ByteStream_clean (so_outgoingByteStream so, so_pool so)
      in so\<lparr>so_outgoingByteStream := q, so_pool := st, so_closed := True\<rparr>)"

definition adjust_queue :: "bool \<Rightarrow> Socket \<Rightarrow> Socket" where
  "adjust_queue modify so = (if modify then so else close_queue so)"

text \<open>\<open>send\<close> is the system call: what it makes of the bytes offered, or a negative number.\<close>

definition socket_send :: "bool \<Rightarrow> (byte list \<Rightarrow> int) \<Rightarrow> Socket \<Rightarrow> (byte list \<times> Socket) option" where
  "socket_send modify send so = do {
     r \<leftarrow> ByteStream_get (Some (clear (so_networkBuffer so))) (so_outgoingByteStream so);
     buffer \<leftarrow> r;
     let buffer = flip buffer;
     let n = remaining buffer;
     let so = so\<lparr>so_networkBuffer := buffer\<rparr>;
     if n \<noteq> 0 then do {
       offered \<leftarrow> slice (nb_buffer buffer) 0 (uint n);
       let sentLength = send offered;
       if sentLength < 0 then Some ([], close_queue so)
       else do {
         (q, st) \<leftarrow> ByteStream_discard (word_of_int sentLength) (so_outgoingByteStream so, so_pool so);
         Some (take (nat sentLength) offered, adjust_queue modify (so\<lparr>so_outgoingByteStream := q, so_pool := st\<rparr>))
       }
     }
     else Some ([], so)
   }"

text \<open>\<open>outgoingByteStream->append(buffer)\<close>\<close>

definition append_buffer :: "NativeByteBuffer \<Rightarrow> Socket \<Rightarrow> Socket" where
  "append_buffer buffer so = so\<lparr>so_outgoingByteStream := ByteStream_append (Some buffer) (so_outgoingByteStream so)\<rparr>"

definition writeBuffer_data :: "bool \<Rightarrow> mem_env \<Rightarrow> byte list \<Rightarrow> u32 \<Rightarrow> Socket \<Rightarrow> Socket option" where
  "writeBuffer_data modify E data sz so = do {
     let (buffer, st) = getFreeBuffer E sz (so_pool so);
     buffer \<leftarrow> writeBytes data 0 sz buffer;
     Some (adjust_queue modify (append_buffer buffer (so\<lparr>so_pool := st\<rparr>)))
   }"

definition writeBuffer :: "bool \<Rightarrow> NativeByteBuffer \<Rightarrow> Socket \<Rightarrow> Socket" where
  "writeBuffer modify buffer so = adjust_queue modify (append_buffer buffer so)"

subsection \<open>A queue of bytes\<close>

definition contents :: "ByteStream \<Rightarrow> byte list" where
  "contents q = concat (map ahead q)"

lemma remaining_unat: "nbb_ok b \<Longrightarrow> unat (remaining b) = length (ahead b)"
  by (simp add: remaining_def length_ahead unat_sub nbb_ok_def)

lemma hasRemaining_iff: "nbb_ok b \<Longrightarrow> hasRemaining b \<longleftrightarrow> ahead b \<noteq> []"
  using length_ahead [of b] by (simp add: hasRemaining_def word_less_nat_alt flip: length_greater_0_conv)

lemma writeBytes_ahead:
  assumes "nbb_ok b" and "nbb_ok dst" and "unat n \<le> length (ahead b)" and "unat n \<le> unat (remaining dst)"
  shows "writeBytes (nb_buffer b) (nb_position b) n dst = Some (wrote (take (unat n) (ahead b)) dst)"
proof -
  note d = nbb_okD [OF assms(1)] and e = nbb_okD [OF assms(2)]
  have n: "unat n < 2 ^ 31" "unat (nb_position b) + unat n \<le> length (nb_buffer b)"
    using assms(3) d unfolding length_ahead [OF assms(1)] by linarith+
  have r: "unat (nb_position dst) + unat n \<le> unat (nb_limit dst)"
    using assms(4) e unfolding remaining_unat [OF assms(2)] length_ahead [OF assms(2)] by linarith
  have "take (unat n) (drop (unat (nb_position b)) (nb_buffer b)) = take (unat n) (ahead b)"
    using assms(3) unfolding length_ahead [OF assms(1)] by (simp add: ahead_def min_def)
  moreover have "length (take (unat n) (ahead b)) = unat n" using assms(3) by simp
  moreover have "emits (writeBytes (nb_buffer b) (nb_position b) n) (take (unat n) (drop (unat (nb_position b)) (nb_buffer b)))"
    unfolding writeBytes_def by (intro emits_no_error emits_writeBytesE n)
  ultimately show ?thesis using r assms(2) by (simp add: emits_def)
qed

lemma get_loop_ok:
  assumes "list_all nbb_ok q" and "nbb_ok dst"
  shows "get_loop q dst = Some (wrote (take (unat (remaining dst)) (contents q)) dst)"
  using assms
proof (induction q dst rule: get_loop.induct)
  case (2 buffer q dst)
  then have b: "nbb_ok buffer" and dst: "nbb_ok dst" and q: "list_all nbb_ok q" by simp_all
  have over: "remaining buffer > remaining dst \<longleftrightarrow> unat (remaining dst) < length (ahead buffer)"
    by (simp add: word_less_nat_alt remaining_unat b)
  show ?case
  proof (cases "remaining buffer > remaining dst")
    case True
    then show ?thesis using writeBytes_ahead [OF b dst, of "remaining dst"] over
      by (simp add: contents_def)
  next
    case False
    let ?d = "wrote (ahead buffer) dst"
    have w: "writeBytes (nb_buffer buffer) (nb_position buffer) (remaining buffer) dst = Some ?d"
      using writeBytes_ahead [OF b dst, of "remaining buffer"] False over by (simp add: remaining_unat b)
    have room: "unat (nb_position dst) + length (ahead buffer) \<le> unat (nb_limit dst)"
      using False over nbb_okD(2) [OF dst] by (simp add: remaining_unat dst length_ahead [OF dst])
    note ok = wrote_ok [OF dst room]
    have r: "unat (remaining ?d) = unat (remaining dst) - length (ahead buffer)"
      using ok room by (simp add: remaining_unat ok(1) dst length_ahead)
    show ?thesis
    proof (cases "hasRemaining ?d")
      case True
      then show ?thesis using "2.IH" [OF False w] q ok w r False over wrote_wrote [OF dst room]
        by (simp add: contents_def True)
    next
      case full: False
      have "unat (remaining dst) = length (ahead buffer)"
        using full hasRemaining_iff [OF ok(1)] r remaining_unat [OF ok(1)] False over by simp
      then show ?thesis using False w full by (simp add: contents_def)
    qed
  qed
qed (simp add: contents_def)

lemma ahead_position:
  assumes "nbb_ok b" and "unat n \<le> length (ahead b)"
  shows "nbb_ok (position_set (nb_position b + n) b)" and "ahead (position_set (nb_position b + n) b) = drop (unat n) (ahead b)"
proof -
  note d = nbb_okD [OF assms(1)]
  have k: "unat (nb_position b) + unat n \<le> unat (nb_limit b)"
    using assms(2) d unfolding length_ahead [OF assms(1)] by linarith
  then have p: "unat (nb_position b + n) = unat (nb_position b) + unat n" using d by (simp add: unat_word_ariths)
  show "nbb_ok (position_set (nb_position b + n) b)"
    using assms(1) k p by (simp add: position_set_def nbb_ok_def word_le_nat_alt)
  show "ahead (position_set (nb_position b + n) b) = drop (unat n) (ahead b)"
    using k p by (simp add: position_set_def ahead_def word_less_nat_alt drop_take add.commute)
qed

lemma discard_ok:
  assumes "list_all nbb_ok q" and "storage_ok st" and "unat n \<le> length (contents q)"
  shows "\<exists>q' st'. ByteStream_discard n (q, st) = Some (q', st') \<and> list_all nbb_ok q' \<and> storage_ok st' \<and>
    contents q' = drop (unat n) (contents q)"
  using assms
proof (induction n "(q, st)" arbitrary: q st rule: ByteStream_discard.induct)
  case (1 n st)
  then have "n = 0" by (simp add: contents_def word_unat_eq_iff)
  then show ?case using "1.prems" by simp
next
  case (2 n b q st)
  then have b: "nbb_ok b" and q: "list_all nbb_ok q" by simp_all
  show ?case
  proof (cases "n > 0")
    case False
    then have "n = 0" by (simp add: word_less_nat_alt word_unat_eq_iff)
    then show ?thesis using "2.prems" by simp
  next
    case pos: True
    show ?thesis
    proof (cases "n < remaining b")
      case True
      then have "unat n \<le> length (ahead b)" by (simp add: word_less_nat_alt remaining_unat b)
      then show ?thesis using True pos ahead_position [OF b] q "2.prems"(2) by (simp add: contents_def)
    next
      case False
      then have le: "length (ahead b) \<le> unat n" by (simp add: word_less_nat_alt remaining_unat b)
      have r: "unat (n - remaining b) = unat n - length (ahead b)"
        using le by (simp add: unat_sub word_le_nat_alt remaining_unat b)
      have "storage_ok (reuse b st)" using "2.prems"(2) b by (rule storage.give_ok)
      then show ?thesis using "2.hyps" [OF pos False] q le pos False "2.prems"(3)
        by (simp add: contents_def r)
    qed
  qed
qed

text \<open>The interface a sender relies on: what a read offers, and what a discard removes.\<close>

locale byte_queue =
  fixes inv :: "'q \<times> 'st \<Rightarrow> bool"
    and bytes :: "'q \<Rightarrow> byte list"
    and peek :: "'q \<Rightarrow> NativeByteBuffer \<Rightarrow> NativeByteBuffer option"
    and drop_bytes :: "u32 \<Rightarrow> 'q \<times> 'st \<Rightarrow> ('q \<times> 'st) option"
  assumes peek_law: "inv (q, st) \<Longrightarrow> nbb_ok dst \<Longrightarrow> peek q dst = Some (wrote (take (unat (remaining dst)) (bytes q)) dst)"
    and drop_law: "inv (q, st) \<Longrightarrow> unat n \<le> length (bytes q) \<Longrightarrow>
      \<exists>q' st'. drop_bytes n (q, st) = Some (q', st') \<and> inv (q', st') \<and> bytes q' = drop (unat n) (bytes q)"
begin

text \<open>Filling a cleared buffer and flipping it offers the head of the queue.\<close>

lemma offer:
  assumes "inv (q, st)" and "nbb_ok dst"
  obtains b where "peek q (clear dst) = Some b" "nbb_ok (flip b)" "ahead (flip b) = take (unat (nb_capacity dst)) (bytes q)"
    "nb_capacity (flip b) = nb_capacity dst" "nb_position (flip b) = 0"
proof -
  have c: "nbb_ok (clear dst)" using assms(2) by (auto simp: nbb_ok_def clear_def)
  have r: "unat (remaining (clear dst)) = unat (nb_capacity dst)" by (simp add: remaining_def clear_def)
  let ?xs = "take (unat (nb_capacity dst)) (bytes q)"
  let ?b = "wrote ?xs (clear dst)"
  have p: "peek q (clear dst) = Some ?b" using peek_law [OF assms(1) c] r by simp
  have "nb_position (clear dst) = 0" "length ?xs \<le> unat (nb_limit (clear dst))" by (simp_all add: clear_def)
  note f = flip_wrote [OF c this]
  moreover have "nb_position (flip ?b) = 0" "nb_capacity (flip ?b) = nb_capacity dst"
    by (simp_all add: flip_def wrote_def clear_def)
  ultimately show thesis using that [OF p] by blast
qed

end

definition stream_inv :: "ByteStream \<times> BuffersStorage \<Rightarrow> bool" where
  "stream_inv = (\<lambda>(q, st). list_all nbb_ok q \<and> storage_ok st)"

interpretation bs: byte_queue stream_inv contents get_loop ByteStream_discard
  by unfold_locales (auto simp: stream_inv_def get_loop_ok discard_ok)

definition socket_ok :: "Socket \<Rightarrow> bool" where
  "socket_ok so \<longleftrightarrow> nbb_ok (so_networkBuffer so) \<and> nb_capacity (so_networkBuffer so) > 0 \<and>
     stream_inv (so_outgoingByteStream so, so_pool so)"

lemma clean_ok: "list_all nbb_ok q \<Longrightarrow> storage_ok st \<Longrightarrow> storage_ok (fold reuse q st)"
  by (induction q arbitrary: st) (simp_all add: storage.give_ok)

lemma socket_send_ok:
  assumes so: "socket_ok so" and send: "\<And>xs. send xs \<le> int (length xs)"
  obtains xs so' where "socket_send True send so = Some (xs, so')" "socket_ok so'"
    "so_closed so' \<longleftrightarrow> so_closed so \<or> contents (so_outgoingByteStream so) \<noteq> [] \<and>
       send (take (unat (nb_capacity (so_networkBuffer so))) (contents (so_outgoingByteStream so))) < 0"
    "\<not> so_closed so' \<Longrightarrow> xs @ contents (so_outgoingByteStream so') = contents (so_outgoingByteStream so)"
    "contents (so_outgoingByteStream so) \<noteq> [] \<Longrightarrow>
       length xs = nat (send (take (unat (nb_capacity (so_networkBuffer so))) (contents (so_outgoingByteStream so))))"
    "nb_capacity (so_networkBuffer so') = nb_capacity (so_networkBuffer so)"
proof -
  let ?q = "so_outgoingByteStream so" and ?st = "so_pool so"
  let ?off = "take (unat (nb_capacity (so_networkBuffer so))) (contents ?q)"
  have inv: "stream_inv (?q, ?st)" and nb: "nbb_ok (so_networkBuffer so)" "nb_capacity (so_networkBuffer so) > 0"
    using so by (simp_all add: socket_ok_def)
  obtain b where g: "get_loop ?q (clear (so_networkBuffer so)) = Some b" and f: "nbb_ok (flip b)" "ahead (flip b) = ?off"
      "nb_capacity (flip b) = nb_capacity (so_networkBuffer so)" "nb_position (flip b) = 0"
    by (rule bs.offer [OF inv nb(1)])
  have n: "unat (remaining (flip b)) = length ?off" using f by (simp add: remaining_unat)
  have n0: "remaining (flip b) = 0 \<longleftrightarrow> contents ?q = []"
    using n nb(2) by (auto simp: word_unat_eq_iff word_less_nat_alt min_def split: if_splits)
  have sl: "slice (nb_buffer (flip b)) 0 (uint (remaining (flip b))) = Some ?off"
  proof -
    have "slice (nb_buffer (flip b)) (uint (0 :: u32)) (uint (remaining (flip b))) =
        Some (take (unat (remaining (flip b))) (nb_buffer (flip b)))"
      using n f nbb_okD(4) [OF f(1)] length_ahead [OF f(1)] by (simp only: slice_uint) simp
    moreover have "take (unat (remaining (flip b))) (nb_buffer (flip b)) = ?off"
      using f(2,4) by (simp add: ahead_def remaining_def)
    ultimately show ?thesis by simp
  qed
  let ?so = "so\<lparr>so_networkBuffer := flip b\<rparr>"
  have ok: "socket_ok (?so\<lparr>so_outgoingByteStream := q, so_pool := st\<rparr>)" if "stream_inv (q, st)" for q st
    using that f(1,3) nb(2) by (simp add: socket_ok_def)
  consider (none) "contents ?q = []" | (err) "contents ?q \<noteq> []" "send ?off < 0" | (sent) "contents ?q \<noteq> []" "0 \<le> send ?off"
    by linarith
  then show thesis
  proof cases
    case none
    then show thesis using g n0 ok [OF inv] f(3)
      by (intro that [of "[]" ?so]) (simp_all add: socket_send_def ByteStream_get_def)
  next
    case err
    have "stream_inv ([], fold reuse ?q ?st)" using inv clean_ok by (simp add: stream_inv_def)
    from ok [OF this] show thesis using err g n0 sl f(3)
      by (intro that [of "[]" "?so\<lparr>so_outgoingByteStream := [], so_pool := fold reuse ?q ?st, so_closed := True\<rparr>"])
        (simp_all add: socket_send_def ByteStream_get_def close_queue_def ByteStream_clean_def socket_ok_def)
  next
    case sent
    have k: "nat (send ?off) \<le> length ?off" using send [of ?off] by (simp only: nat_le_iff)
    then have "nat (send ?off) < 2 ^ 31" using nbb_okD(7) [OF nb(1)] by simp
    then have u: "unat (word_of_int (send ?off) :: u32) = nat (send ?off)"
      using sent(2) by (metis int_nat_eq of_int_of_nat_eq unat_len)
    obtain q' st' where d: "ByteStream_discard (word_of_int (send ?off)) (?q, ?st) = Some (q', st')" "stream_inv (q', st')"
        "contents q' = drop (nat (send ?off)) (contents ?q)"
      using bs.drop_law [OF inv, of "word_of_int (send ?off)"] u k by auto
    have "take (nat (send ?off)) ?off = take (nat (send ?off)) (contents ?q)" using k by simp
    then show thesis using sent g n0 sl f(3) d ok [OF d(2)] k
      by (intro that [of "take (nat (send ?off)) ?off" "?so\<lparr>so_outgoingByteStream := q', so_pool := st'\<rparr>"])
        (simp_all add: socket_send_def adjust_queue_def ByteStream_get_def)
  qed
qed

text \<open>A life of the socket until it is closed: buffers queued by the connection, and rounds of the event loop in which
  the kernel takes what it wants of the bytes offered.\<close>

datatype socket_event = Queue bool NativeByteBuffer | Ready bool "byte list \<Rightarrow> int"

fun socket_run :: "socket_event list \<Rightarrow> Socket \<Rightarrow> (byte list \<times> Socket) option" where
  "socket_run [] so = Some ([], so)"
| "socket_run (Queue modify b # es) so =
     (let so = writeBuffer modify b so in if so_closed so then Some ([], so) else socket_run es so)"
| "socket_run (Ready modify send # es) so = do {
     (xs, so) \<leftarrow> socket_send modify send so;
     if so_closed so then Some (xs, so)
     else do {
       (ys, so) \<leftarrow> socket_run es so;
       Some (xs @ ys, so)
     }
   }"




lemma contents_append: "contents (q @ [b]) = contents q @ ahead b"
  by (simp add: contents_def)

lemma writeBuffer_ok:
  "socket_ok so \<Longrightarrow> nbb_ok b \<Longrightarrow> socket_ok (writeBuffer True b so)"
  by (simp add: socket_ok_def writeBuffer_def adjust_queue_def append_buffer_def ByteStream_append_def stream_inv_def)


lemma close_queue_closed [simp]: "so_closed (close_queue so)"
  by (simp add: close_queue_def Let_def case_prod_beta)


lemma socket_run_drains:
  assumes "\<forall>xs. xs \<noteq> [] \<longrightarrow> 0 < send xs" and "\<forall>xs. 0 \<le> send xs \<and> send xs \<le> int (length xs)"
    and "socket_ok so" and "\<not> so_closed so" and "length (contents (so_outgoingByteStream so)) \<le> n"
  shows "\<exists>so'. socket_run (replicate n (Ready True send)) so = Some (contents (so_outgoingByteStream so), so') \<and>
    contents (so_outgoingByteStream so') = []"
  using assms(3-)
proof (induction n arbitrary: so)
  case (Suc n)
  have le: "send xs \<le> int (length xs)" for xs using assms(2) by simp
  let ?off = "take (unat (nb_capacity (so_networkBuffer so))) (contents (so_outgoingByteStream so))"
  obtain xs so1 where s: "socket_send True send so = Some (xs, so1)" "socket_ok so1" "\<not> so_closed so1"
      "xs @ contents (so_outgoingByteStream so1) = contents (so_outgoingByteStream so)"
      "contents (so_outgoingByteStream so) \<noteq> [] \<Longrightarrow> length xs = nat (send ?off)"
  proof (rule socket_send_ok [OF Suc.prems(1) le])
  qed (use Suc.prems(2) assms(2) in \<open>auto simp: not_less\<close>)
  have "contents (so_outgoingByteStream so) \<noteq> [] \<Longrightarrow> ?off \<noteq> []"
    using Suc.prems(1) by (auto simp: socket_ok_def word_less_nat_alt)
  then have "contents (so_outgoingByteStream so) \<noteq> [] \<Longrightarrow> 0 < length xs" using s(5) assms(1) by simp
  moreover have "length xs + length (contents (so_outgoingByteStream so1)) = length (contents (so_outgoingByteStream so))"
    using s(4) by (metis length_append)
  ultimately have "length (contents (so_outgoingByteStream so1)) \<le> n"
    using Suc.prems(3) by (cases "contents (so_outgoingByteStream so) = []") (simp, linarith)
  then obtain so2 where "socket_run (replicate n (Ready True send)) so1 = Some (contents (so_outgoingByteStream so1), so2)"
      "contents (so_outgoingByteStream so2) = []" using Suc.IH [OF s(2,3)] by blast
  then show ?case using s(1,3,4) by simp
qed simp

lemma discard_short:
  assumes "list_all nbb_ok q" and "length (contents q) < unat n"
  shows "ByteStream_discard n (q, st) = None"
  using assms
proof (induction n "(q, st)" arbitrary: q st rule: ByteStream_discard.induct)
  case (1 n st)
  then show ?case by (simp add: word_less_nat_alt)
next
  case (2 n b q st)
  have b: "nbb_ok b" using "2.prems"(1) by simp
  have le: "length (ahead b) \<le> unat n" "0 < n" using "2.prems"(2) by (auto simp: contents_def word_less_nat_alt)
  then have f: "\<not> n < remaining b" by (simp add: word_less_nat_alt remaining_unat b)
  have "unat (n - remaining b) = unat n - length (ahead b)"
    using le by (simp add: unat_sub word_le_nat_alt remaining_unat b)
  then show ?case using "2.hyps" [OF le(2) f] "2.prems" le f by (simp add: contents_def)
qed

lemma hasData_iff: "list_all nbb_ok q \<Longrightarrow> ByteStream_hasData q \<longleftrightarrow> contents q \<noteq> []"
  by (induction q) (auto simp: ByteStream_hasData_def contents_def hasRemaining_iff)

text \<open>C12. \<open>ByteStream\<close> is a queue of bytes: appending a buffer adds its unread bytes at the end, \<open>hasData\<close>
  tells whether there are any, \<open>get\<close> copies as many from the front as fit, and \<open>discard\<close> removes exactly the
  given number from the front, returning the exhausted buffers to the pool; asked for more than there are, it reads
  past the end of the vector.\<close>

theorem ByteStream_refines_queue:
  assumes "stream_inv (q, st)" and "nbb_ok b"
  shows "contents (ByteStream_append (Some b) q) = contents q @ ahead b \<and>
    (ByteStream_hasData q \<longleftrightarrow> contents q \<noteq> []) \<and>
    ByteStream_get (Some b) q = Some (Some (wrote (take (unat (remaining b)) (contents q)) b)) \<and>
    (unat n \<le> length (contents q) \<longrightarrow>
       (\<exists>q' st'. ByteStream_discard n (q, st) = Some (q', st') \<and> stream_inv (q', st') \<and>
         contents q' = drop (unat n) (contents q))) \<and>
    (length (contents q) < unat n \<longrightarrow> ByteStream_discard n (q, st) = None)"
proof -
  have q: "list_all nbb_ok q" using assms(1) by (simp add: stream_inv_def)
  show ?thesis using bs.peek_law [OF assms] bs.drop_law [OF assms(1)] discard_short [OF q] hasData_iff [OF q]
    by (simp add: ByteStream_append_def ByteStream_get_def contents_append)
qed

theorem ByteStream_refines_queue_witness:
  "ByteStream_get (Some (NativeByteBuffer_alloc ample 3)) [NativeByteBuffer_slice [1, 2] 2, NativeByteBuffer_slice [3, 4, 5] 3] =
     Some (Some (wrote [1, 2, 3] (NativeByteBuffer_alloc ample 3)))"
  using ByteStream_refines_queue [of "[NativeByteBuffer_slice [1, 2] 2, NativeByteBuffer_slice [3, 4, 5] 3]"
      "BuffersStorage_new ample" "NativeByteBuffer_alloc ample 3" 0]
  by (simp add: stream_inv_def storage_ok_new nbb_ok_def NativeByteBuffer_slice_def NativeByteBuffer_alloc_def
      contents_def ahead_def remaining_def)


definition demo_socket :: Socket where
  "demo_socket = \<lparr>so_networkBuffer = NativeByteBuffer_alloc ample 4, so_outgoingByteStream = [],
     so_pool = BuffersStorage_new ample, so_closed = False\<rparr>"

lemma demo_socket_ok: "socket_ok demo_socket" "\<not> so_closed demo_socket" "so_outgoingByteStream demo_socket = []"
  by (simp_all add: demo_socket_def socket_ok_def stream_inv_def storage_ok_new alloc_ok)


text \<open>C26. As long as the kernel takes at least one byte whenever some are offered and \<open>epoll_ctl\<close> succeeds, as many rounds as there are
  queued bytes send all of them and leave the queue empty.\<close>

theorem socket_drains:
  assumes "\<forall>xs. xs \<noteq> [] \<longrightarrow> 0 < send xs" and "\<forall>xs. 0 \<le> send xs \<and> send xs \<le> int (length xs)"
    and "socket_ok so" and "\<not> so_closed so"
  shows "\<exists>so'. socket_run (replicate (length (contents (so_outgoingByteStream so))) (Ready True send)) so =
      Some (contents (so_outgoingByteStream so), so') \<and> contents (so_outgoingByteStream so') = []"
  using socket_run_drains [OF assms order_refl] .

theorem socket_drains_witness:
  "\<exists>so'. socket_run (replicate 2 (Ready True (\<lambda>xs. if xs = [] then 0 else 1))) (writeBuffer True (NativeByteBuffer_slice [8, 9] 2) demo_socket) =
     Some ([8, 9], so') \<and> contents (so_outgoingByteStream so') = []"
proof -
  let ?so = "writeBuffer True (NativeByteBuffer_slice [8, 9] 2) demo_socket"
  have c: "contents (so_outgoingByteStream ?so) = [8, 9]"
    by (simp add: writeBuffer_def adjust_queue_def append_buffer_def ByteStream_append_def demo_socket_ok contents_def NativeByteBuffer_slice_def ahead_def)
  have ok: "socket_ok ?so" "\<not> so_closed ?so"
    using writeBuffer_ok [OF demo_socket_ok(1)] demo_socket_ok(2) by (simp_all add: nbb_ok_def NativeByteBuffer_slice_def writeBuffer_def adjust_queue_def append_buffer_def)
  have k: "\<forall>xs :: byte list. 0 \<le> (if xs = [] then 0 else 1 :: int) \<and> (if xs = [] then 0 else 1) \<le> int (length xs)"
    "\<forall>xs :: byte list. xs \<noteq> [] \<longrightarrow> 0 < (if xs = [] then 0 else 1 :: int)"
    by (simp_all add: Suc_le_eq)
  have two: "length [8, 9 :: byte] = 2" by simp
  from socket_drains [OF k(2,1) ok] show ?thesis unfolding c two .
qed

text \<open>C28. The overload of \<open>writeBuffer\<close> that takes raw data appends the buffer without rewinding it, so its
  position is already at its limit: the data never reaches the queue of unsent bytes.\<close>

theorem writeBuffer_data_lost:
  assumes "socket_ok so" and "length data < 2 ^ 31"
  shows "\<exists>so'. writeBuffer_data True E data (word_of_nat (length data)) so = Some so' \<and>
    contents (so_outgoingByteStream so') = contents (so_outgoingByteStream so)"
proof -
  let ?n = "word_of_nat (length data) :: u32"
  obtain b st where g: "getFreeBuffer E ?n (so_pool so) = (b, st)" by fastforce
  have n: "unat ?n = length data" using assms(2) by (rule unat_len)
  have "storage_ok (so_pool so)" using assms(1) by (simp add: socket_ok_def stream_inv_def)
  from storage.get_ready [OF this _ g] have r: "nbb_ok b" "nb_position b = 0" "nb_limit b = ?n"
    using n assms(2) by (simp_all add: ready_def)
  have "emits (writeBytes data 0 ?n) data"
    using emits_no_error [OF emits_writeBytesE [of 0 ?n data]] n assms(2) by (simp add: writeBytes_def)
  then have w: "writeBytes data 0 ?n b = Some (wrote data b)" using r n by (simp add: emits_def)
  have "ahead (wrote data b) = []" using r by (simp add: ahead_def wrote_def)
  then show ?thesis using g w by (simp add: writeBuffer_data_def adjust_queue_def append_buffer_def ByteStream_append_def contents_append)
qed

theorem writeBuffer_data_lost_witness:
  "\<exists>so'. writeBuffer_data True ample [1, 2, 3] 3 demo_socket = Some so' \<and> contents (so_outgoingByteStream so') = []"
  using writeBuffer_data_lost [OF demo_socket_ok(1), of "[1, 2, 3]" ample] by (simp add: demo_socket_ok contents_def)

end
