(* ===== verification/TL_Codec.thy ===== *)
theory TL_Codec
  imports Byte_Reader
begin

unbundle bit_operations_syntax

section \<open>Scheme classes: code shapes and contracts\<close>

text \<open>
  What the generated-looking classes of \<open>tgnet/MTProtoScheme.cpp\<close> and \<open>tgnet/ApiScheme.cpp\<close> share: the shapes their
  methods are made of (vectors, optional fields, nested objects, \<open>TLObject::getObjectSize\<close>), the contracts of these
  shapes, and the interfaces \<open>tl_reader\<close> and \<open>tl_codec\<close> of a class that can be read, or read and written.
\<close>

subsection \<open>Code shapes of the scheme files\<close>

text \<open>\<open>getObjectSize\<close>: the thread's size calculator is emptied, the object written to it, its capacity read off.\<close>

definition getObjectSize ::
    "(NativeByteBuffer \<Rightarrow> NativeByteBuffer option) \<Rightarrow> NativeByteBuffer \<Rightarrow> (u32 \<times> NativeByteBuffer) option" where
  "getObjectSize serializeToStream sizeCalculatorBuffer = do {
     let b = clearCapacity sizeCalculatorBuffer;
     b \<leftarrow> serializeToStream b;
     Some (nb_capacity b, b)
   }"

text \<open>\<open>p->f(stream)\<close>: a null pointer is undefined.\<close>

definition call_ptr :: "('a \<Rightarrow> NativeByteBuffer \<Rightarrow> NativeByteBuffer option) \<Rightarrow> 'a option \<Rightarrow> NativeByteBuffer \<Rightarrow> NativeByteBuffer option" where
  "call_ptr f p b = do { x \<leftarrow> p; f x b }"

text \<open>\<open>uint32_t count = (uint32_t) v.size(); stream->writeInt32(count); for (a = 0; a < count; a++) f(v[a])\<close>,
  and the same with a signed counter.\<close>

definition write_vector :: "('a \<Rightarrow> NativeByteBuffer \<Rightarrow> NativeByteBuffer option) \<Rightarrow> 'a list \<Rightarrow> NativeByteBuffer \<Rightarrow> NativeByteBuffer option" where
  "write_vector f xs b = do {
     let count = (word_of_nat (length xs) :: u32);
     b \<leftarrow> writeInt32 count b;
     write_each f (take (unat count) xs) b
   }"

definition write_vector_signed :: "('a \<Rightarrow> NativeByteBuffer \<Rightarrow> NativeByteBuffer option) \<Rightarrow> 'a list \<Rightarrow> NativeByteBuffer \<Rightarrow> NativeByteBuffer option" where
  "write_vector_signed f xs b = do {
     let count = (word_of_nat (length xs) :: u32);
     b \<leftarrow> writeInt32 count b;
     write_each f (take (nat (sint count)) xs) b
   }"

text \<open>\<open>X::TLdeserialize(stream, stream->readUint32(&error), instanceNum, error)\<close>.\<close>

definition read_object :: "(u32 \<Rightarrow> istream \<Rightarrow> ('a \<times> istream) option) \<Rightarrow> istream \<Rightarrow> ('a \<times> istream) option" where
  "read_object des s = do { (constructor, s) \<leftarrow> readUint32 s; des constructor s }"

text \<open>\<open>if (c) field = f(stream);\<close>: otherwise the field keeps the value it has.\<close>

definition read_if :: "bool \<Rightarrow> (istream \<Rightarrow> ('a \<times> istream) option) \<Rightarrow> 'a \<Rightarrow> istream \<Rightarrow> ('a \<times> istream) option" where
  "read_if c f old s = (if c then f s else Some (old, s))"

subsection \<open>Pointers\<close>

definition of_ptr :: "('a \<Rightarrow> byte list) \<Rightarrow> 'a option \<Rightarrow> byte list" where
  "of_ptr e p = (case p of None \<Rightarrow> [] | Some x \<Rightarrow> e x)"

definition ok_ptr :: "('a \<Rightarrow> bool) \<Rightarrow> 'a option \<Rightarrow> bool" where
  "ok_ptr P p \<longleftrightarrow> (case p of None \<Rightarrow> False | Some x \<Rightarrow> P x)"

abbreviation ok_bytes :: "byte list option \<Rightarrow> bool" where
  "ok_bytes \<equiv> ok_ptr (\<lambda>a. length a < 2 ^ 24)"

abbreviation sized_bytes :: "nat \<Rightarrow> byte list option \<Rightarrow> bool" where
  "sized_bytes n \<equiv> ok_ptr (\<lambda>a. length a = n)"

lemma emits_eq: "emits f xs \<Longrightarrow> xs = ys \<Longrightarrow> emits f ys"
  by simp

lemma emits_call_ptr:
  assumes "ok_ptr P p" and "\<And>x. P x \<Longrightarrow> emits (f x) (e x)"
  shows "emits (call_ptr f p) (of_ptr e p)"
proof -
  obtain x where "p = Some x" "P x" using assms(1) by (auto simp: ok_ptr_def split: option.splits)
  then show ?thesis using assms(2) by (simp add: emits_def call_ptr_def of_ptr_def)
qed

lemma emits_bytes_ptr [emit_rules]:
  "ok_bytes p \<Longrightarrow> emits (writeByteArray_array p) (of_ptr tl_bytes p)"
  "ok_bytes p \<Longrightarrow> emits (writeBytes_array p) (of_ptr (\<lambda>a. a) p)"
  by (auto simp: ok_ptr_def of_ptr_def emits_writeByteArray_array emits_writeBytes_array split: option.splits)

lemma emits_vector:
  assumes "length xs < 2 ^ 31" and "\<And>x. x \<in> set xs \<Longrightarrow> emits (f x) (e x)"
  shows "emits (write_vector f xs) (int_bytes (word_of_nat (length xs)) @ concat (map e xs))"
    and "emits (write_vector_signed f xs) (int_bytes (word_of_nat (length xs)) @ concat (map e xs))"
proof -
  have *: "emits (\<lambda>b. Option.bind (writeInt32 (word_of_nat (length xs)) b) (write_each f xs))
     (int_bytes (word_of_nat (length xs)) @ concat (map e xs))"
    using assms(2) by (intro emits_bind emits_writeInt32 emits_each) simp
  then show "emits (write_vector f xs) (int_bytes (word_of_nat (length xs)) @ concat (map e xs))"
    unfolding write_vector_def Let_def unat_len [OF assms(1)] by simp
  from * show "emits (write_vector_signed f xs) (int_bytes (word_of_nat (length xs)) @ concat (map e xs))"
    unfolding write_vector_signed_def Let_def sint_len [OF assms(1)] by simp
qed

lemma parses_nil: "parses f (xs @ []) v \<Longrightarrow> parses f xs v"
  by simp

lemma parses_end: "v = w \<Longrightarrow> parses (\<lambda>s. Some (v, s)) [] w"
  by (simp add: parses_return)

lemma parses_pair: "parses (g a b) xs v \<Longrightarrow> parses (case_prod g (a, b)) xs v"
  by simp

lemma parses_magic: "parses g xs v \<Longrightarrow> parses (\<lambda>s. if a \<noteq> a then f s else g s) xs v"
  by simp

lemma parses_whole: "parses g xs v \<Longrightarrow> parses (\<lambda>s. if False then f s else g s) xs v"
  by simp

lemma parses_read_if:
  assumes "c \<Longrightarrow> parses f xs v" and "\<not> c \<Longrightarrow> v = old"
  shows "parses (read_if c f old) (if c then xs else []) v"
  using assms by (simp add: read_if_def parses_def)

lemma parses_ptr:
  assumes "ok_ptr P p" and "\<And>x. P x \<Longrightarrow> parses f (e x) (Some x)"
  shows "parses f (of_ptr e p) p"
  using assms by (auto simp: ok_ptr_def of_ptr_def split: option.splits)

lemma parses_bytes_ptr [parse_rules]:
  "ok_bytes p \<Longrightarrow> parses readByteArray (of_ptr tl_bytes p) p"
  "sized_bytes (unat n) p \<Longrightarrow> parses (readBytes n) (of_ptr (\<lambda>a. a) p) p"
  by (erule parses_ptr, rule parses_readByteArray, assumption) (erule parses_ptr, rule parses_readBytes, simp)

lemma length_longs [simp]: "length (concat (map long_bytes xs)) = 8 * length xs"
  by (induction xs) simp_all

lemma parses_longs_fit:
  assumes "length xs < 2 ^ 31" and "parses g (concat (map long_bytes xs) @ ys) v"
  shows "parses (\<lambda>s. if too_many (word_of_nat (length xs)) s then f s else g s) (concat (map long_bytes xs) @ ys) v"
  using assms by (intro parses_not_too_many) (simp_all add: unat_len)

lemma sized_bytes_ok [simp]: "sized_bytes 16 p \<Longrightarrow> ok_ptr (\<lambda>a. length a < 16777216) p"
  by (auto simp: ok_ptr_def split: option.splits)

definition safe :: "(istream \<Rightarrow> ('a \<times> istream) option) \<Rightarrow> bool" where
  "safe f \<longleftrightarrow> gets f (\<lambda>x. True)"

lemma safe_gets: "gets f P \<Longrightarrow> safe f"
  unfolding safe_def by (rule gets_weaken) simp_all

lemma safe_bind: "safe f \<Longrightarrow> (\<And>v. safe (g v)) \<Longrightarrow> safe (\<lambda>s. Option.bind (f s) (\<lambda>(v, s). g v s))"
  unfolding safe_def by (rule gets_bind)

lemma safe_return: "safe (\<lambda>s. Some (v, s))"
  unfolding safe_def by (rule gets_return) simp

lemma safe_fail: "safe (\<lambda>s. Some (v, fail s))"
  unfolding safe_def by (rule gets_fail) simp

lemma safe_if: "safe f \<Longrightarrow> safe g \<Longrightarrow> safe (\<lambda>s. if c s then f s else g s)"
  unfolding safe_def by (rule gets_if)

lemma safe_pair: "(\<And>a b. safe (g a b)) \<Longrightarrow> safe (case_prod g p)"
  by (cases p) simp

lemma safe_case_option: "safe f \<Longrightarrow> (\<And>x. safe (g x)) \<Longrightarrow> safe (\<lambda>s. case p of None \<Rightarrow> f s | Some x \<Rightarrow> g x s)"
  by (cases p) simp_all

lemma safe_read_if: "safe f \<Longrightarrow> safe (read_if c f old)"
  by (cases c) (simp_all add: read_if_def [abs_def] safe_return)

lemma safe_read_object: "(\<And>c. safe (des c)) \<Longrightarrow> safe (read_object des)"
  using safe_bind [OF safe_gets [OF gets_readUint32], of des] by (simp add: read_object_def [abs_def])

lemma safe_times: "safe f \<Longrightarrow> safe (read_times n f)"
  unfolding safe_def [of f] by (rule safe_gets) (rule gets_times)

lemma safe_until_error: "safe f \<Longrightarrow> safe (read_until_error n f)"
  unfolding safe_def [of f] by (rule safe_gets) (rule gets_until_error)

lemma safe_until_null: "safe f \<Longrightarrow> safe (read_until_null n f)"
  unfolding safe_def [of f] by (rule safe_gets, rule gets_until_null [where P = "\<lambda>x. True"]) simp

lemma safe_readBool: "safe readBool"
  unfolding readBool_def [abs_def]
  by (intro safe_bind safe_if safe_return safe_fail safe_gets [OF gets_readUint32])

named_theorems safe_rules \<open>readers that are safe on any input\<close>

lemmas safe_primitive [safe_rules] = safe_readBool gets_readInt32 [THEN safe_gets] gets_readUint32 [THEN safe_gets]
  gets_readInt64 [THEN safe_gets] gets_readByte [THEN safe_gets] gets_readBytes [THEN safe_gets]
  gets_readString [THEN safe_gets] gets_readByteArray [THEN safe_gets] gets_readByteBuffer [THEN safe_gets]

lemmas emit_intros = emits_bind emits_if emits_Some emits_vector
lemmas parse_intros = parses_bind parses_end parses_pair parses_magic parses_whole parses_read_if parses_longs_fit
  parses_times_count parses_until_error_count parses_until_null_count
lemmas safe_intros = safe_bind safe_return safe_fail safe_pair safe_read_if safe_read_object safe_times
  safe_until_error safe_until_null safe_case_option safe_if

lemma parses_read_object: "parses (des c) ps v \<Longrightarrow> parses (read_object des) (int_bytes c @ ps) v"
  unfolding read_object_def by (rule parses_bind [OF parses_readUint32])

lemma parses_read_object0: "(\<And>s. des c s = Some (v, s)) \<Longrightarrow> parses (read_object des) (int_bytes c) v"
  using parses_read_object [of des c "[]" v] by (simp add: parses_def)

lemma parses_wrap:
  assumes "parses f ps x" and "\<And>s. des c s = Option.bind (f s) (\<lambda>(x, s). Some (k x, s))"
  shows "parses (des c) ps (k x)"
  using assms by (simp add: parses_def)

lemma parses_wrap0: "(\<And>s. des c s = Some (v, s)) \<Longrightarrow> parses (des c) [] v"
  by (simp add: parses_def)

lemma parses_class:
  assumes "parses f ps x"
  shows "parses (read_object (\<lambda>c s. if ctor \<noteq> c then Some (None, fail s)
     else do { (x, s) \<leftarrow> f s; Some (Some x, s) })) (int_bytes ctor @ ps) (Some x)"
  by (rule parses_read_object, rule parses_wrap [OF assms]) simp

lemma set_flag:
  assumes "m = (2 ^ k :: u32)" and "k < 32" and "v \<longleftrightarrow> f AND m \<noteq> 0"
  shows "(if v then f OR m else f AND NOT m) = f"
proof -
  have m: "bit (2 ^ k :: u32) n \<longleftrightarrow> n = k \<and> n < 32" for n by (auto simp: bit_exp_iff)
  have b: "(f AND 2 ^ k \<noteq> 0) \<longleftrightarrow> bit f k"
    using assms(2) by (auto simp: and_exp_eq_0_iff_not_bit)
  show ?thesis using assms b by (auto simp: m bit_simps intro!: bit_word_eqI)
qed

subsection \<open>The interface of a class of the scheme\<close>

locale tl_reader =
  fixes des :: "u32 \<Rightarrow> istream \<Rightarrow> ('a option \<times> istream) option"
    and wire :: "'a \<Rightarrow> byte list"
    and wf :: "'a \<Rightarrow> bool"
  assumes reads: "wf x \<Longrightarrow> parses (read_object des) (wire x) (Some x)"
    and safe_des: "safe (des c)"
begin

lemma safe_reads: "safe (read_object des)"
  by (rule safe_read_object) (rule safe_des)

lemma reads_ptr: "ok_ptr wf p \<Longrightarrow> parses (read_object des) (of_ptr wire p) p"
  by (erule parses_ptr) (rule reads)

lemma reads_list:
  assumes "length xs < 2 ^ 31" and "\<forall>x \<in> set xs. wf x"
  shows "parses (read_until_null (unat (word_of_nat (length xs) :: u32)) (read_object des)) (concat (map wire xs)) (xs, False)"
    and "parses (read_until_null (nat (sint (word_of_nat (length xs) :: u32))) (read_object des)) (concat (map wire xs)) (xs, False)"
  using assms by (auto intro!: parses_until_null_count reads)

text \<open>Reading from any well-formed buffer that holds the encoding.\<close>

lemma reads_from:
  assumes "wf x" and "nbb_ok b" and "storage_ok st" and "ahead b = wire x @ rest"
  obtains s where "read_object des \<lparr>is_buf = b, is_error = False, is_pool = st, is_mem = E\<rparr> = Some (Some x, s)"
    and "\<not> is_error s" and "ahead (is_buf s) = rest"
proof -
  let ?s = "\<lparr>is_buf = b, is_error = False, is_pool = st, is_mem = E\<rparr>"
  have "stream_ok ?s" using assms by (simp add: stream_ok_def)
  then show thesis using parsesD [OF reads [OF assms(1)], of ?s rest] assms(4) that by simp
qed

end

locale tl_codec = tl_reader des wire wf
  for des :: "u32 \<Rightarrow> istream \<Rightarrow> ('a option \<times> istream) option"
    and wire :: "'a \<Rightarrow> byte list"
    and wf :: "'a \<Rightarrow> bool" +
  fixes ser :: "'a \<Rightarrow> NativeByteBuffer \<Rightarrow> NativeByteBuffer option"
  assumes emits_ser: "wf x \<Longrightarrow> emits (ser x) (wire x)"
begin

lemma emits_ptr: "ok_ptr wf p \<Longrightarrow> emits (call_ptr ser p) (of_ptr wire p)"
  by (erule emits_call_ptr) (rule emits_ser)

lemma emits_list:
  assumes "length xs < 2 ^ 31" and "\<forall>x \<in> set xs. wf x"
  shows "emits (write_vector ser xs) (int_bytes (word_of_nat (length xs)) @ concat (map wire xs))"
    and "emits (write_vector_signed ser xs) (int_bytes (word_of_nat (length xs)) @ concat (map wire xs))"
  using assms by (auto intro!: emits_vector emits_ser)

lemma object_size:
  assumes "wf x" and "nb_calculateSizeOnly calc"
  shows "\<exists>calc'. getObjectSize (ser x) calc = Some (word_of_nat (length (wire x)), calc') \<and> nb_calculateSizeOnly calc'"
  using emits_ser [OF assms(1)] assms(2)
  by (simp add: getObjectSize_def emits_def clearCapacity_def nb_grow_def)

lemma roundtrip:
  assumes x: "wf x" and calc: "nb_calculateSizeOnly calc" and st: "storage_ok st" and len: "length (wire x) < 2 ^ 31"
  obtains n calc' b st' b' s where "getObjectSize (ser x) calc = Some (n, calc')"
    and "getFreeBuffer E n st = (b, st')" and "ser x b = Some b'" and "nb_position b' = nb_limit b'"
    and "take (unat (nb_limit b')) (nb_buffer b') = wire x"
    and "read_object des \<lparr>is_buf = flip b', is_error = False, is_pool = st', is_mem = E\<rparr> = Some (Some x, s)"
    and "\<not> is_error s" and "\<not> hasRemaining (is_buf s)"
proof -
  let ?n = "word_of_nat (length (wire x)) :: u32"
  obtain calc' where size: "getObjectSize (ser x) calc = Some (?n, calc')" using object_size [OF x calc] by blast
  obtain b st' where g: "getFreeBuffer E ?n st = (b, st')" by fastforce
  have n: "unat ?n = length (wire x)" by (rule unat_len) (rule len)
  have r: "nbb_ok b" "nb_position b = 0" "nb_limit b = ?n" and st': "storage_ok st'"
    using storage.get_ready [OF st _ g] storage.get_ok [OF st _ g] n len by (auto simp: ready_def)
  note d = nbb_okD [OF r(1)]
  let ?b = "wrote (wire x) b"
  have w: "ser x b = Some ?b" using emits_ser [OF x] r n by (simp add: emits_def)
  note ok = wrote_ok [OF r(1), of "wire x"]
  have p: "nb_position ?b = nb_limit ?b" using r by (simp add: wrote_def)
  have t: "take (unat (nb_limit ?b)) (nb_buffer ?b) = wire x" using r n d by (simp add: wrote_def put_at_def)
  have f: "nbb_ok (flip ?b)" using ok(1) r n d p by (simp add: nbb_ok_def flip_def)
  have a: "ahead (flip ?b) = wire x @ []" using t p by (simp add: ahead_def flip_def)
  obtain s where "read_object des \<lparr>is_buf = flip ?b, is_error = False, is_pool = st', is_mem = E\<rparr> = Some (Some x, s)"
      "\<not> is_error s" "ahead (is_buf s) = []"
    by (rule reads_from [OF x f st' a])
  moreover have "stream_ok s"
    using parsesD(1,2) [OF reads [OF x], of "\<lparr>is_buf = flip ?b, is_error = False, is_pool = st', is_mem = E\<rparr>" "[]"] f a st'
      calculation(1) by (auto simp: stream_ok_def)
  then have "\<not> hasRemaining (is_buf s)"
    using \<open>ahead (is_buf s) = []\<close> length_ahead [of "is_buf s"]
    by (auto simp: stream_ok_def hasRemaining_def word_less_nat_alt)
  ultimately show thesis using that size g w p t by blast
qed

end

end
