(* ===== verification/MTProto_Scheme.thy ===== *)
theory MTProto_Scheme
  imports TL_Codec
begin

unbundle bit_operations_syntax

section \<open>MTProtoScheme: the protocol classes\<close>

text \<open>
  \<open>tgnet/MTProtoScheme.cpp\<close> and \<open>tgnet/MTProtoScheme.h\<close>, with the same conventions as the API classes: every class whose
  fields are plain data.  The classes that hold other objects (messages, containers, results, wrapped queries) are in
  the theory of objects.
\<close>

record TL_future_salt =
  TL_future_salt_valid_since :: u32
  TL_future_salt_valid_until :: u32
  TL_future_salt_salt :: ulong

definition TL_future_salt_new :: TL_future_salt where
  "TL_future_salt_new = \<lparr>TL_future_salt_valid_since = 0, TL_future_salt_valid_until = 0, TL_future_salt_salt = 0\<rparr>"

definition TL_future_salt_constructor :: u32 where
  "TL_future_salt_constructor = 0x0949d9dc"

definition TL_future_salt_readParams :: "TL_future_salt \<Rightarrow> istream \<Rightarrow> (TL_future_salt \<times> istream) option" where
  "TL_future_salt_readParams x s = do {
     (v, s) \<leftarrow> readInt32 s;
     let x = x\<lparr>TL_future_salt_valid_since := v\<rparr>;
     (v, s) \<leftarrow> readInt32 s;
     let x = x\<lparr>TL_future_salt_valid_until := v\<rparr>;
     (v, s) \<leftarrow> readInt64 s;
     let x = x\<lparr>TL_future_salt_salt := v\<rparr>;
     Some (x, s)
   }"

definition TL_future_salt_TLdeserialize :: "u32 \<Rightarrow> istream \<Rightarrow> (TL_future_salt option \<times> istream) option" where
  "TL_future_salt_TLdeserialize constructor s =
     (if TL_future_salt_constructor \<noteq> constructor then Some (None, fail s)
      else do { (x, s) \<leftarrow> TL_future_salt_readParams TL_future_salt_new s; Some (Some x, s) })"

record TL_msgs_state_info =
  TL_msgs_state_info_req_msg_id :: ulong
  TL_msgs_state_info_info :: "byte list option"

definition TL_msgs_state_info_new :: TL_msgs_state_info where
  "TL_msgs_state_info_new = \<lparr>TL_msgs_state_info_req_msg_id = 0, TL_msgs_state_info_info = None\<rparr>"

definition TL_msgs_state_info_constructor :: u32 where
  "TL_msgs_state_info_constructor = 0x04deb57d"

definition TL_msgs_state_info_readParams :: "TL_msgs_state_info \<Rightarrow> istream \<Rightarrow> (TL_msgs_state_info \<times> istream) option" where
  "TL_msgs_state_info_readParams x s = do {
     (v, s) \<leftarrow> readInt64 s;
     let x = x\<lparr>TL_msgs_state_info_req_msg_id := v\<rparr>;
     (v, s) \<leftarrow> readByteArray s;
     let x = x\<lparr>TL_msgs_state_info_info := v\<rparr>;
     Some (x, s)
   }"

definition TL_msgs_state_info_serializeToStream :: "TL_msgs_state_info \<Rightarrow> NativeByteBuffer \<Rightarrow> NativeByteBuffer option" where
  "TL_msgs_state_info_serializeToStream x b = do {
     b \<leftarrow> writeInt32 TL_msgs_state_info_constructor b;
     b \<leftarrow> writeInt64 (TL_msgs_state_info_req_msg_id x) b;
     b \<leftarrow> writeByteArray_array (TL_msgs_state_info_info x) b;
     Some b
   }"

definition TL_msgs_state_info_TLdeserialize :: "u32 \<Rightarrow> istream \<Rightarrow> (TL_msgs_state_info option \<times> istream) option" where
  "TL_msgs_state_info_TLdeserialize constructor s =
     (if TL_msgs_state_info_constructor \<noteq> constructor then Some (None, fail s)
      else do { (x, s) \<leftarrow> TL_msgs_state_info_readParams TL_msgs_state_info_new s; Some (Some x, s) })"

record Server_DH_Params_fields =
  Server_DH_Params_nonce :: "byte list option"
  Server_DH_Params_server_nonce :: "byte list option"
  Server_DH_Params_new_nonce_hash :: "byte list option"
  Server_DH_Params_encrypted_answer :: "byte list option"

definition Server_DH_Params_fields_new :: Server_DH_Params_fields where
  "Server_DH_Params_fields_new = \<lparr>Server_DH_Params_nonce = None, Server_DH_Params_server_nonce = None, Server_DH_Params_new_nonce_hash = None, Server_DH_Params_encrypted_answer = None\<rparr>"

datatype Server_DH_Params =
    TL_server_DH_params_fail Server_DH_Params_fields
  | TL_server_DH_params_ok Server_DH_Params_fields

definition TL_server_DH_params_fail_constructor :: u32 where
  "TL_server_DH_params_fail_constructor = 0x79cb045d"

definition TL_server_DH_params_fail_readParams :: "Server_DH_Params_fields \<Rightarrow> istream \<Rightarrow> (Server_DH_Params_fields \<times> istream) option" where
  "TL_server_DH_params_fail_readParams x s = do {
     (v, s) \<leftarrow> readBytes 16 s;
     let x = x\<lparr>Server_DH_Params_nonce := v\<rparr>;
     (v, s) \<leftarrow> readBytes 16 s;
     let x = x\<lparr>Server_DH_Params_server_nonce := v\<rparr>;
     (v, s) \<leftarrow> readBytes 16 s;
     let x = x\<lparr>Server_DH_Params_new_nonce_hash := v\<rparr>;
     Some (x, s)
   }"

definition TL_server_DH_params_ok_constructor :: u32 where
  "TL_server_DH_params_ok_constructor = 0xd0e8075c"

definition TL_server_DH_params_ok_readParams :: "Server_DH_Params_fields \<Rightarrow> istream \<Rightarrow> (Server_DH_Params_fields \<times> istream) option" where
  "TL_server_DH_params_ok_readParams x s = do {
     (v, s) \<leftarrow> readBytes 16 s;
     let x = x\<lparr>Server_DH_Params_nonce := v\<rparr>;
     (v, s) \<leftarrow> readBytes 16 s;
     let x = x\<lparr>Server_DH_Params_server_nonce := v\<rparr>;
     (v, s) \<leftarrow> readByteArray s;
     let x = x\<lparr>Server_DH_Params_encrypted_answer := v\<rparr>;
     Some (x, s)
   }"

definition Server_DH_Params_TLdeserialize :: "u32 \<Rightarrow> istream \<Rightarrow> (Server_DH_Params option \<times> istream) option" where
  "Server_DH_Params_TLdeserialize constructor s =
     (if constructor = 0x79cb045d then do { (x, s) \<leftarrow> TL_server_DH_params_fail_readParams Server_DH_Params_fields_new s; Some (Some (TL_server_DH_params_fail x), s) }
      else if constructor = 0xd0e8075c then do { (x, s) \<leftarrow> TL_server_DH_params_ok_readParams Server_DH_Params_fields_new s; Some (Some (TL_server_DH_params_ok x), s) }
      else Some (None, fail s))"

record TL_resPQ =
  TL_resPQ_nonce :: "byte list option"
  TL_resPQ_server_nonce :: "byte list option"
  TL_resPQ_pq :: "byte list option"
  TL_resPQ_server_public_key_fingerprints :: "ulong list"

definition TL_resPQ_new :: TL_resPQ where
  "TL_resPQ_new = \<lparr>TL_resPQ_nonce = None, TL_resPQ_server_nonce = None, TL_resPQ_pq = None, TL_resPQ_server_public_key_fingerprints = []\<rparr>"

definition TL_resPQ_constructor :: u32 where
  "TL_resPQ_constructor = 0x05162463"

definition TL_resPQ_readParams :: "TL_resPQ \<Rightarrow> istream \<Rightarrow> (TL_resPQ \<times> istream) option" where
  "TL_resPQ_readParams x s = do {
     (v, s) \<leftarrow> readBytes 16 s;
     let x = x\<lparr>TL_resPQ_nonce := v\<rparr>;
     (v, s) \<leftarrow> readBytes 16 s;
     let x = x\<lparr>TL_resPQ_server_nonce := v\<rparr>;
     (v, s) \<leftarrow> readByteArray s;
     let x = x\<lparr>TL_resPQ_pq := v\<rparr>;
     (magic, s) \<leftarrow> readUint32 s;
     if magic \<noteq> 0x1cb5c415 then Some (x, fail s)
     else do {
     (count, s) \<leftarrow> readUint32 s;
     if too_many count s then Some (x, fail s)
     else do {
     (v, s) \<leftarrow> read_times (unat count) readInt64 s;
     let x = x\<lparr>TL_resPQ_server_public_key_fingerprints := TL_resPQ_server_public_key_fingerprints x @ v\<rparr>;
     Some (x, s)
   }}}"

definition TL_resPQ_TLdeserialize :: "u32 \<Rightarrow> istream \<Rightarrow> (TL_resPQ option \<times> istream) option" where
  "TL_resPQ_TLdeserialize constructor s =
     (if TL_resPQ_constructor \<noteq> constructor then Some (None, fail s)
      else do { (x, s) \<leftarrow> TL_resPQ_readParams TL_resPQ_new s; Some (Some x, s) })"

record TL_p_q_inner_data =
  TL_p_q_inner_data_pq :: "byte list option"
  TL_p_q_inner_data_p :: "byte list option"
  TL_p_q_inner_data_q :: "byte list option"
  TL_p_q_inner_data_nonce :: "byte list option"
  TL_p_q_inner_data_server_nonce :: "byte list option"
  TL_p_q_inner_data_new_nonce :: "byte list option"

definition TL_p_q_inner_data_new :: TL_p_q_inner_data where
  "TL_p_q_inner_data_new = \<lparr>TL_p_q_inner_data_pq = None, TL_p_q_inner_data_p = None, TL_p_q_inner_data_q = None, TL_p_q_inner_data_nonce = None, TL_p_q_inner_data_server_nonce = None, TL_p_q_inner_data_new_nonce = None\<rparr>"

definition TL_p_q_inner_data_constructor :: u32 where
  "TL_p_q_inner_data_constructor = 0x83c95aec"

definition TL_p_q_inner_data_serializeToStream :: "TL_p_q_inner_data \<Rightarrow> NativeByteBuffer \<Rightarrow> NativeByteBuffer option" where
  "TL_p_q_inner_data_serializeToStream x b = do {
     b \<leftarrow> writeInt32 TL_p_q_inner_data_constructor b;
     b \<leftarrow> writeByteArray_array (TL_p_q_inner_data_pq x) b;
     b \<leftarrow> writeByteArray_array (TL_p_q_inner_data_p x) b;
     b \<leftarrow> writeByteArray_array (TL_p_q_inner_data_q x) b;
     b \<leftarrow> writeBytes_array (TL_p_q_inner_data_nonce x) b;
     b \<leftarrow> writeBytes_array (TL_p_q_inner_data_server_nonce x) b;
     b \<leftarrow> writeBytes_array (TL_p_q_inner_data_new_nonce x) b;
     Some b
   }"

record TL_p_q_inner_data_dc =
  TL_p_q_inner_data_dc_pq :: "byte list option"
  TL_p_q_inner_data_dc_p :: "byte list option"
  TL_p_q_inner_data_dc_q :: "byte list option"
  TL_p_q_inner_data_dc_nonce :: "byte list option"
  TL_p_q_inner_data_dc_server_nonce :: "byte list option"
  TL_p_q_inner_data_dc_new_nonce :: "byte list option"
  TL_p_q_inner_data_dc_dc :: u32

definition TL_p_q_inner_data_dc_new :: TL_p_q_inner_data_dc where
  "TL_p_q_inner_data_dc_new = \<lparr>TL_p_q_inner_data_dc_pq = None, TL_p_q_inner_data_dc_p = None, TL_p_q_inner_data_dc_q = None, TL_p_q_inner_data_dc_nonce = None, TL_p_q_inner_data_dc_server_nonce = None, TL_p_q_inner_data_dc_new_nonce = None, TL_p_q_inner_data_dc_dc = 0\<rparr>"

definition TL_p_q_inner_data_dc_constructor :: u32 where
  "TL_p_q_inner_data_dc_constructor = 0xa9f55f95"

definition TL_p_q_inner_data_dc_serializeToStream :: "TL_p_q_inner_data_dc \<Rightarrow> NativeByteBuffer \<Rightarrow> NativeByteBuffer option" where
  "TL_p_q_inner_data_dc_serializeToStream x b = do {
     b \<leftarrow> writeInt32 TL_p_q_inner_data_dc_constructor b;
     b \<leftarrow> writeByteArray_array (TL_p_q_inner_data_dc_pq x) b;
     b \<leftarrow> writeByteArray_array (TL_p_q_inner_data_dc_p x) b;
     b \<leftarrow> writeByteArray_array (TL_p_q_inner_data_dc_q x) b;
     b \<leftarrow> writeBytes_array (TL_p_q_inner_data_dc_nonce x) b;
     b \<leftarrow> writeBytes_array (TL_p_q_inner_data_dc_server_nonce x) b;
     b \<leftarrow> writeBytes_array (TL_p_q_inner_data_dc_new_nonce x) b;
     b \<leftarrow> writeInt32 (TL_p_q_inner_data_dc_dc x) b;
     Some b
   }"

record TL_p_q_inner_data_temp =
  TL_p_q_inner_data_temp_pq :: "byte list option"
  TL_p_q_inner_data_temp_p :: "byte list option"
  TL_p_q_inner_data_temp_q :: "byte list option"
  TL_p_q_inner_data_temp_nonce :: "byte list option"
  TL_p_q_inner_data_temp_server_nonce :: "byte list option"
  TL_p_q_inner_data_temp_new_nonce :: "byte list option"
  TL_p_q_inner_data_temp_expires_in :: u32

definition TL_p_q_inner_data_temp_new :: TL_p_q_inner_data_temp where
  "TL_p_q_inner_data_temp_new = \<lparr>TL_p_q_inner_data_temp_pq = None, TL_p_q_inner_data_temp_p = None, TL_p_q_inner_data_temp_q = None, TL_p_q_inner_data_temp_nonce = None, TL_p_q_inner_data_temp_server_nonce = None, TL_p_q_inner_data_temp_new_nonce = None, TL_p_q_inner_data_temp_expires_in = 0\<rparr>"

definition TL_p_q_inner_data_temp_constructor :: u32 where
  "TL_p_q_inner_data_temp_constructor = 0x3c6a84d4"

definition TL_p_q_inner_data_temp_serializeToStream :: "TL_p_q_inner_data_temp \<Rightarrow> NativeByteBuffer \<Rightarrow> NativeByteBuffer option" where
  "TL_p_q_inner_data_temp_serializeToStream x b = do {
     b \<leftarrow> writeInt32 TL_p_q_inner_data_temp_constructor b;
     b \<leftarrow> writeByteArray_array (TL_p_q_inner_data_temp_pq x) b;
     b \<leftarrow> writeByteArray_array (TL_p_q_inner_data_temp_p x) b;
     b \<leftarrow> writeByteArray_array (TL_p_q_inner_data_temp_q x) b;
     b \<leftarrow> writeBytes_array (TL_p_q_inner_data_temp_nonce x) b;
     b \<leftarrow> writeBytes_array (TL_p_q_inner_data_temp_server_nonce x) b;
     b \<leftarrow> writeBytes_array (TL_p_q_inner_data_temp_new_nonce x) b;
     b \<leftarrow> writeInt32 (TL_p_q_inner_data_temp_expires_in x) b;
     Some b
   }"

record TL_p_q_inner_data_temp_dc =
  TL_p_q_inner_data_temp_dc_pq :: "byte list option"
  TL_p_q_inner_data_temp_dc_p :: "byte list option"
  TL_p_q_inner_data_temp_dc_q :: "byte list option"
  TL_p_q_inner_data_temp_dc_nonce :: "byte list option"
  TL_p_q_inner_data_temp_dc_server_nonce :: "byte list option"
  TL_p_q_inner_data_temp_dc_new_nonce :: "byte list option"
  TL_p_q_inner_data_temp_dc_dc :: u32
  TL_p_q_inner_data_temp_dc_expires_in :: u32

definition TL_p_q_inner_data_temp_dc_new :: TL_p_q_inner_data_temp_dc where
  "TL_p_q_inner_data_temp_dc_new = \<lparr>TL_p_q_inner_data_temp_dc_pq = None, TL_p_q_inner_data_temp_dc_p = None, TL_p_q_inner_data_temp_dc_q = None, TL_p_q_inner_data_temp_dc_nonce = None, TL_p_q_inner_data_temp_dc_server_nonce = None, TL_p_q_inner_data_temp_dc_new_nonce = None, TL_p_q_inner_data_temp_dc_dc = 0, TL_p_q_inner_data_temp_dc_expires_in = 0\<rparr>"

definition TL_p_q_inner_data_temp_dc_constructor :: u32 where
  "TL_p_q_inner_data_temp_dc_constructor = 0x56fddf88"

definition TL_p_q_inner_data_temp_dc_serializeToStream :: "TL_p_q_inner_data_temp_dc \<Rightarrow> NativeByteBuffer \<Rightarrow> NativeByteBuffer option" where
  "TL_p_q_inner_data_temp_dc_serializeToStream x b = do {
     b \<leftarrow> writeInt32 TL_p_q_inner_data_temp_dc_constructor b;
     b \<leftarrow> writeByteArray_array (TL_p_q_inner_data_temp_dc_pq x) b;
     b \<leftarrow> writeByteArray_array (TL_p_q_inner_data_temp_dc_p x) b;
     b \<leftarrow> writeByteArray_array (TL_p_q_inner_data_temp_dc_q x) b;
     b \<leftarrow> writeBytes_array (TL_p_q_inner_data_temp_dc_nonce x) b;
     b \<leftarrow> writeBytes_array (TL_p_q_inner_data_temp_dc_server_nonce x) b;
     b \<leftarrow> writeBytes_array (TL_p_q_inner_data_temp_dc_new_nonce x) b;
     b \<leftarrow> writeInt32 (TL_p_q_inner_data_temp_dc_dc x) b;
     b \<leftarrow> writeInt32 (TL_p_q_inner_data_temp_dc_expires_in x) b;
     Some b
   }"

record TL_bind_auth_key_inner =
  TL_bind_auth_key_inner_nonce :: ulong
  TL_bind_auth_key_inner_temp_auth_key_id :: ulong
  TL_bind_auth_key_inner_perm_auth_key_id :: ulong
  TL_bind_auth_key_inner_temp_session_id :: ulong
  TL_bind_auth_key_inner_expires_at :: u32

definition TL_bind_auth_key_inner_new :: TL_bind_auth_key_inner where
  "TL_bind_auth_key_inner_new = \<lparr>TL_bind_auth_key_inner_nonce = 0, TL_bind_auth_key_inner_temp_auth_key_id = 0, TL_bind_auth_key_inner_perm_auth_key_id = 0, TL_bind_auth_key_inner_temp_session_id = 0, TL_bind_auth_key_inner_expires_at = 0\<rparr>"

definition TL_bind_auth_key_inner_constructor :: u32 where
  "TL_bind_auth_key_inner_constructor = 0x75a3f765"

definition TL_bind_auth_key_inner_serializeToStream :: "TL_bind_auth_key_inner \<Rightarrow> NativeByteBuffer \<Rightarrow> NativeByteBuffer option" where
  "TL_bind_auth_key_inner_serializeToStream x b = do {
     b \<leftarrow> writeInt32 TL_bind_auth_key_inner_constructor b;
     b \<leftarrow> writeInt64 (TL_bind_auth_key_inner_nonce x) b;
     b \<leftarrow> writeInt64 (TL_bind_auth_key_inner_temp_auth_key_id x) b;
     b \<leftarrow> writeInt64 (TL_bind_auth_key_inner_perm_auth_key_id x) b;
     b \<leftarrow> writeInt64 (TL_bind_auth_key_inner_temp_session_id x) b;
     b \<leftarrow> writeInt32 (TL_bind_auth_key_inner_expires_at x) b;
     Some b
   }"

record TL_auth_dropTempAuthKeys =
  TL_auth_dropTempAuthKeys_except_auth_keys :: "ulong list"

definition TL_auth_dropTempAuthKeys_new :: TL_auth_dropTempAuthKeys where
  "TL_auth_dropTempAuthKeys_new = \<lparr>TL_auth_dropTempAuthKeys_except_auth_keys = []\<rparr>"

definition TL_auth_dropTempAuthKeys_constructor :: u32 where
  "TL_auth_dropTempAuthKeys_constructor = 0x8e48a188"

definition TL_auth_dropTempAuthKeys_serializeToStream :: "TL_auth_dropTempAuthKeys \<Rightarrow> NativeByteBuffer \<Rightarrow> NativeByteBuffer option" where
  "TL_auth_dropTempAuthKeys_serializeToStream x b = do {
     b \<leftarrow> writeInt32 TL_auth_dropTempAuthKeys_constructor b;
     b \<leftarrow> writeInt32 0x1cb5c415 b;
     b \<leftarrow> write_vector writeInt64 (TL_auth_dropTempAuthKeys_except_auth_keys x) b;
     Some b
   }"

record TL_pong =
  TL_pong_msg_id :: ulong
  TL_pong_ping_id :: ulong

definition TL_pong_new :: TL_pong where
  "TL_pong_new = \<lparr>TL_pong_msg_id = 0, TL_pong_ping_id = 0\<rparr>"

definition TL_pong_constructor :: u32 where
  "TL_pong_constructor = 0x347773c5"

definition TL_pong_readParams :: "TL_pong \<Rightarrow> istream \<Rightarrow> (TL_pong \<times> istream) option" where
  "TL_pong_readParams x s = do {
     (v, s) \<leftarrow> readInt64 s;
     let x = x\<lparr>TL_pong_msg_id := v\<rparr>;
     (v, s) \<leftarrow> readInt64 s;
     let x = x\<lparr>TL_pong_ping_id := v\<rparr>;
     Some (x, s)
   }"

definition TL_pong_TLdeserialize :: "u32 \<Rightarrow> istream \<Rightarrow> (TL_pong option \<times> istream) option" where
  "TL_pong_TLdeserialize constructor s =
     (if TL_pong_constructor \<noteq> constructor then Some (None, fail s)
      else do { (x, s) \<leftarrow> TL_pong_readParams TL_pong_new s; Some (Some x, s) })"

record TL_future_salts =
  TL_future_salts_req_msg_id :: ulong
  TL_future_salts_now :: u32
  TL_future_salts_salts :: "TL_future_salt list"

definition TL_future_salts_new :: TL_future_salts where
  "TL_future_salts_new = \<lparr>TL_future_salts_req_msg_id = 0, TL_future_salts_now = 0, TL_future_salts_salts = []\<rparr>"

definition TL_future_salts_constructor :: u32 where
  "TL_future_salts_constructor = 0xae500895"

definition TL_future_salts_readParams :: "TL_future_salts \<Rightarrow> istream \<Rightarrow> (TL_future_salts \<times> istream) option" where
  "TL_future_salts_readParams x s = do {
     (v, s) \<leftarrow> readInt64 s;
     let x = x\<lparr>TL_future_salts_req_msg_id := v\<rparr>;
     (v, s) \<leftarrow> readInt32 s;
     let x = x\<lparr>TL_future_salts_now := v\<rparr>;
     (magic, s) \<leftarrow> readUint32 s;
     if magic \<noteq> 0x1cb5c415 then Some (x, fail s)
     else do {
     (count, s) \<leftarrow> readUint32 s;
     ((v, r), s) \<leftarrow> read_until_error (unat count) (TL_future_salt_readParams TL_future_salt_new) s;
     let x = x\<lparr>TL_future_salts_salts := TL_future_salts_salts x @ v\<rparr>;
     Some (x, s)
   }}"

definition TL_future_salts_TLdeserialize :: "u32 \<Rightarrow> istream \<Rightarrow> (TL_future_salts option \<times> istream) option" where
  "TL_future_salts_TLdeserialize constructor s =
     (if TL_future_salts_constructor \<noteq> constructor then Some (None, fail s)
      else do { (x, s) \<leftarrow> TL_future_salts_readParams TL_future_salts_new s; Some (Some x, s) })"

record RpcDropAnswer_fields =
  RpcDropAnswer_msg_id :: ulong
  RpcDropAnswer_seq_no :: u32
  RpcDropAnswer_bytes :: u32

definition RpcDropAnswer_fields_new :: RpcDropAnswer_fields where
  "RpcDropAnswer_fields_new = \<lparr>RpcDropAnswer_msg_id = 0, RpcDropAnswer_seq_no = 0, RpcDropAnswer_bytes = 0\<rparr>"

datatype RpcDropAnswer =
    TL_rpc_answer_unknown RpcDropAnswer_fields
  | TL_rpc_answer_dropped RpcDropAnswer_fields
  | TL_rpc_answer_dropped_running RpcDropAnswer_fields

definition TL_rpc_answer_unknown_constructor :: u32 where
  "TL_rpc_answer_unknown_constructor = 0x5e2ad36e"

definition TL_rpc_answer_unknown_serializeToStream :: "RpcDropAnswer_fields \<Rightarrow> NativeByteBuffer \<Rightarrow> NativeByteBuffer option" where
  "TL_rpc_answer_unknown_serializeToStream x b = do {
     b \<leftarrow> writeInt32 TL_rpc_answer_unknown_constructor b;
     Some b
   }"

definition TL_rpc_answer_dropped_constructor :: u32 where
  "TL_rpc_answer_dropped_constructor = 0xa43ad8b7"

definition TL_rpc_answer_dropped_readParams :: "RpcDropAnswer_fields \<Rightarrow> istream \<Rightarrow> (RpcDropAnswer_fields \<times> istream) option" where
  "TL_rpc_answer_dropped_readParams x s = do {
     (v, s) \<leftarrow> readInt64 s;
     let x = x\<lparr>RpcDropAnswer_msg_id := v\<rparr>;
     (v, s) \<leftarrow> readInt32 s;
     let x = x\<lparr>RpcDropAnswer_seq_no := v\<rparr>;
     (v, s) \<leftarrow> readInt32 s;
     let x = x\<lparr>RpcDropAnswer_bytes := v\<rparr>;
     Some (x, s)
   }"

definition TL_rpc_answer_dropped_running_constructor :: u32 where
  "TL_rpc_answer_dropped_running_constructor = 0xcd78e586"

definition TL_rpc_answer_dropped_running_serializeToStream :: "RpcDropAnswer_fields \<Rightarrow> NativeByteBuffer \<Rightarrow> NativeByteBuffer option" where
  "TL_rpc_answer_dropped_running_serializeToStream x b = do {
     b \<leftarrow> writeInt32 TL_rpc_answer_dropped_running_constructor b;
     Some b
   }"

definition RpcDropAnswer_TLdeserialize :: "u32 \<Rightarrow> istream \<Rightarrow> (RpcDropAnswer option \<times> istream) option" where
  "RpcDropAnswer_TLdeserialize constructor s =
     (if constructor = 0x5e2ad36e then Some (Some (TL_rpc_answer_unknown RpcDropAnswer_fields_new), s)
      else if constructor = 0xa43ad8b7 then do { (x, s) \<leftarrow> TL_rpc_answer_dropped_readParams RpcDropAnswer_fields_new s; Some (Some (TL_rpc_answer_dropped x), s) }
      else if constructor = 0xcd78e586 then Some (Some (TL_rpc_answer_dropped_running RpcDropAnswer_fields_new), s)
      else Some (None, fail s))"

fun RpcDropAnswer_serializeToStream :: "RpcDropAnswer \<Rightarrow> NativeByteBuffer \<Rightarrow> NativeByteBuffer option" where
  "RpcDropAnswer_serializeToStream (TL_rpc_answer_unknown x) = TL_rpc_answer_unknown_serializeToStream x"
| "RpcDropAnswer_serializeToStream (TL_rpc_answer_dropped x) = Some"
| "RpcDropAnswer_serializeToStream (TL_rpc_answer_dropped_running x) = TL_rpc_answer_dropped_running_serializeToStream x"

record Set_client_DH_params_answer_fields =
  Set_client_DH_params_answer_nonce :: "byte list option"
  Set_client_DH_params_answer_server_nonce :: "byte list option"
  Set_client_DH_params_answer_new_nonce_hash2 :: "byte list option"
  Set_client_DH_params_answer_new_nonce_hash3 :: "byte list option"
  Set_client_DH_params_answer_new_nonce_hash1 :: "byte list option"

definition Set_client_DH_params_answer_fields_new :: Set_client_DH_params_answer_fields where
  "Set_client_DH_params_answer_fields_new = \<lparr>Set_client_DH_params_answer_nonce = None, Set_client_DH_params_answer_server_nonce = None, Set_client_DH_params_answer_new_nonce_hash2 = None, Set_client_DH_params_answer_new_nonce_hash3 = None, Set_client_DH_params_answer_new_nonce_hash1 = None\<rparr>"

datatype Set_client_DH_params_answer =
    TL_dh_gen_retry Set_client_DH_params_answer_fields
  | TL_dh_gen_fail Set_client_DH_params_answer_fields
  | TL_dh_gen_ok Set_client_DH_params_answer_fields

definition TL_dh_gen_retry_constructor :: u32 where
  "TL_dh_gen_retry_constructor = 0x46dc1fb9"

definition TL_dh_gen_retry_readParams :: "Set_client_DH_params_answer_fields \<Rightarrow> istream \<Rightarrow> (Set_client_DH_params_answer_fields \<times> istream) option" where
  "TL_dh_gen_retry_readParams x s = do {
     (v, s) \<leftarrow> readBytes 16 s;
     let x = x\<lparr>Set_client_DH_params_answer_nonce := v\<rparr>;
     (v, s) \<leftarrow> readBytes 16 s;
     let x = x\<lparr>Set_client_DH_params_answer_server_nonce := v\<rparr>;
     (v, s) \<leftarrow> readBytes 16 s;
     let x = x\<lparr>Set_client_DH_params_answer_new_nonce_hash2 := v\<rparr>;
     Some (x, s)
   }"

definition TL_dh_gen_fail_constructor :: u32 where
  "TL_dh_gen_fail_constructor = 0xa69dae02"

definition TL_dh_gen_fail_readParams :: "Set_client_DH_params_answer_fields \<Rightarrow> istream \<Rightarrow> (Set_client_DH_params_answer_fields \<times> istream) option" where
  "TL_dh_gen_fail_readParams x s = do {
     (v, s) \<leftarrow> readBytes 16 s;
     let x = x\<lparr>Set_client_DH_params_answer_nonce := v\<rparr>;
     (v, s) \<leftarrow> readBytes 16 s;
     let x = x\<lparr>Set_client_DH_params_answer_server_nonce := v\<rparr>;
     (v, s) \<leftarrow> readBytes 16 s;
     let x = x\<lparr>Set_client_DH_params_answer_new_nonce_hash3 := v\<rparr>;
     Some (x, s)
   }"

definition TL_dh_gen_ok_constructor :: u32 where
  "TL_dh_gen_ok_constructor = 0x3bcbf734"

definition TL_dh_gen_ok_readParams :: "Set_client_DH_params_answer_fields \<Rightarrow> istream \<Rightarrow> (Set_client_DH_params_answer_fields \<times> istream) option" where
  "TL_dh_gen_ok_readParams x s = do {
     (v, s) \<leftarrow> readBytes 16 s;
     let x = x\<lparr>Set_client_DH_params_answer_nonce := v\<rparr>;
     (v, s) \<leftarrow> readBytes 16 s;
     let x = x\<lparr>Set_client_DH_params_answer_server_nonce := v\<rparr>;
     (v, s) \<leftarrow> readBytes 16 s;
     let x = x\<lparr>Set_client_DH_params_answer_new_nonce_hash1 := v\<rparr>;
     Some (x, s)
   }"

definition Set_client_DH_params_answer_TLdeserialize :: "u32 \<Rightarrow> istream \<Rightarrow> (Set_client_DH_params_answer option \<times> istream) option" where
  "Set_client_DH_params_answer_TLdeserialize constructor s =
     (if constructor = 0x46dc1fb9 then do { (x, s) \<leftarrow> TL_dh_gen_retry_readParams Set_client_DH_params_answer_fields_new s; Some (Some (TL_dh_gen_retry x), s) }
      else if constructor = 0xa69dae02 then do { (x, s) \<leftarrow> TL_dh_gen_fail_readParams Set_client_DH_params_answer_fields_new s; Some (Some (TL_dh_gen_fail x), s) }
      else if constructor = 0x3bcbf734 then do { (x, s) \<leftarrow> TL_dh_gen_ok_readParams Set_client_DH_params_answer_fields_new s; Some (Some (TL_dh_gen_ok x), s) }
      else Some (None, fail s))"

record BadMsgNotification_fields =
  BadMsgNotification_bad_msg_id :: ulong
  BadMsgNotification_bad_msg_seqno :: u32
  BadMsgNotification_error_code :: u32
  BadMsgNotification_new_server_salt :: ulong

definition BadMsgNotification_fields_new :: BadMsgNotification_fields where
  "BadMsgNotification_fields_new = \<lparr>BadMsgNotification_bad_msg_id = 0, BadMsgNotification_bad_msg_seqno = 0, BadMsgNotification_error_code = 0, BadMsgNotification_new_server_salt = 0\<rparr>"

datatype BadMsgNotification =
    TL_bad_msg_notification BadMsgNotification_fields
  | TL_bad_server_salt BadMsgNotification_fields

definition TL_bad_msg_notification_constructor :: u32 where
  "TL_bad_msg_notification_constructor = 0xa7eff811"

definition TL_bad_msg_notification_readParams :: "BadMsgNotification_fields \<Rightarrow> istream \<Rightarrow> (BadMsgNotification_fields \<times> istream) option" where
  "TL_bad_msg_notification_readParams x s = do {
     (v, s) \<leftarrow> readInt64 s;
     let x = x\<lparr>BadMsgNotification_bad_msg_id := v\<rparr>;
     (v, s) \<leftarrow> readInt32 s;
     let x = x\<lparr>BadMsgNotification_bad_msg_seqno := v\<rparr>;
     (v, s) \<leftarrow> readInt32 s;
     let x = x\<lparr>BadMsgNotification_error_code := v\<rparr>;
     Some (x, s)
   }"

definition TL_bad_server_salt_constructor :: u32 where
  "TL_bad_server_salt_constructor = 0xedab447b"

definition TL_bad_server_salt_readParams :: "BadMsgNotification_fields \<Rightarrow> istream \<Rightarrow> (BadMsgNotification_fields \<times> istream) option" where
  "TL_bad_server_salt_readParams x s = do {
     (v, s) \<leftarrow> readInt64 s;
     let x = x\<lparr>BadMsgNotification_bad_msg_id := v\<rparr>;
     (v, s) \<leftarrow> readInt32 s;
     let x = x\<lparr>BadMsgNotification_bad_msg_seqno := v\<rparr>;
     (v, s) \<leftarrow> readInt32 s;
     let x = x\<lparr>BadMsgNotification_error_code := v\<rparr>;
     (v, s) \<leftarrow> readInt64 s;
     let x = x\<lparr>BadMsgNotification_new_server_salt := v\<rparr>;
     Some (x, s)
   }"

definition BadMsgNotification_TLdeserialize :: "u32 \<Rightarrow> istream \<Rightarrow> (BadMsgNotification option \<times> istream) option" where
  "BadMsgNotification_TLdeserialize constructor s =
     (if constructor = 0xa7eff811 then do { (x, s) \<leftarrow> TL_bad_msg_notification_readParams BadMsgNotification_fields_new s; Some (Some (TL_bad_msg_notification x), s) }
      else if constructor = 0xedab447b then do { (x, s) \<leftarrow> TL_bad_server_salt_readParams BadMsgNotification_fields_new s; Some (Some (TL_bad_server_salt x), s) }
      else Some (None, fail s))"

record TL_msgs_state_req =
  TL_msgs_state_req_msg_ids :: "ulong list"

definition TL_msgs_state_req_new :: TL_msgs_state_req where
  "TL_msgs_state_req_new = \<lparr>TL_msgs_state_req_msg_ids = []\<rparr>"

definition TL_msgs_state_req_constructor :: u32 where
  "TL_msgs_state_req_constructor = 0xda69fb52"

definition TL_msgs_state_req_readParams :: "TL_msgs_state_req \<Rightarrow> istream \<Rightarrow> (TL_msgs_state_req \<times> istream) option" where
  "TL_msgs_state_req_readParams x s = do {
     (magic, s) \<leftarrow> readUint32 s;
     if magic \<noteq> 0x1cb5c415 then Some (x, fail s)
     else do {
     (count, s) \<leftarrow> readUint32 s;
     if too_many count s then Some (x, fail s)
     else do {
     (v, s) \<leftarrow> read_times (unat count) readInt64 s;
     let x = x\<lparr>TL_msgs_state_req_msg_ids := TL_msgs_state_req_msg_ids x @ v\<rparr>;
     Some (x, s)
   }}}"

definition TL_msgs_state_req_serializeToStream :: "TL_msgs_state_req \<Rightarrow> NativeByteBuffer \<Rightarrow> NativeByteBuffer option" where
  "TL_msgs_state_req_serializeToStream x b = do {
     b \<leftarrow> writeInt32 TL_msgs_state_req_constructor b;
     b \<leftarrow> writeInt32 0x1cb5c415 b;
     b \<leftarrow> write_vector writeInt64 (TL_msgs_state_req_msg_ids x) b;
     Some b
   }"

definition TL_msgs_state_req_TLdeserialize :: "u32 \<Rightarrow> istream \<Rightarrow> (TL_msgs_state_req option \<times> istream) option" where
  "TL_msgs_state_req_TLdeserialize constructor s =
     (if TL_msgs_state_req_constructor \<noteq> constructor then Some (None, fail s)
      else do { (x, s) \<leftarrow> TL_msgs_state_req_readParams TL_msgs_state_req_new s; Some (Some x, s) })"

record MsgDetailedInfo_fields =
  MsgDetailedInfo_answer_msg_id :: ulong
  MsgDetailedInfo_bytes :: u32
  MsgDetailedInfo_status :: u32
  MsgDetailedInfo_msg_id :: ulong

definition MsgDetailedInfo_fields_new :: MsgDetailedInfo_fields where
  "MsgDetailedInfo_fields_new = \<lparr>MsgDetailedInfo_answer_msg_id = 0, MsgDetailedInfo_bytes = 0, MsgDetailedInfo_status = 0, MsgDetailedInfo_msg_id = 0\<rparr>"

datatype MsgDetailedInfo =
    TL_msg_new_detailed_info MsgDetailedInfo_fields
  | TL_msg_detailed_info MsgDetailedInfo_fields

definition TL_msg_new_detailed_info_constructor :: u32 where
  "TL_msg_new_detailed_info_constructor = 0x809db6df"

definition TL_msg_new_detailed_info_readParams :: "MsgDetailedInfo_fields \<Rightarrow> istream \<Rightarrow> (MsgDetailedInfo_fields \<times> istream) option" where
  "TL_msg_new_detailed_info_readParams x s = do {
     (v, s) \<leftarrow> readInt64 s;
     let x = x\<lparr>MsgDetailedInfo_answer_msg_id := v\<rparr>;
     (v, s) \<leftarrow> readInt32 s;
     let x = x\<lparr>MsgDetailedInfo_bytes := v\<rparr>;
     (v, s) \<leftarrow> readInt32 s;
     let x = x\<lparr>MsgDetailedInfo_status := v\<rparr>;
     Some (x, s)
   }"

definition TL_msg_detailed_info_constructor :: u32 where
  "TL_msg_detailed_info_constructor = 0x276d3ec6"

definition TL_msg_detailed_info_readParams :: "MsgDetailedInfo_fields \<Rightarrow> istream \<Rightarrow> (MsgDetailedInfo_fields \<times> istream) option" where
  "TL_msg_detailed_info_readParams x s = do {
     (v, s) \<leftarrow> readInt64 s;
     let x = x\<lparr>MsgDetailedInfo_msg_id := v\<rparr>;
     (v, s) \<leftarrow> readInt64 s;
     let x = x\<lparr>MsgDetailedInfo_answer_msg_id := v\<rparr>;
     (v, s) \<leftarrow> readInt32 s;
     let x = x\<lparr>MsgDetailedInfo_bytes := v\<rparr>;
     (v, s) \<leftarrow> readInt32 s;
     let x = x\<lparr>MsgDetailedInfo_status := v\<rparr>;
     Some (x, s)
   }"

definition MsgDetailedInfo_TLdeserialize :: "u32 \<Rightarrow> istream \<Rightarrow> (MsgDetailedInfo option \<times> istream) option" where
  "MsgDetailedInfo_TLdeserialize constructor s =
     (if constructor = 0x809db6df then do { (x, s) \<leftarrow> TL_msg_new_detailed_info_readParams MsgDetailedInfo_fields_new s; Some (Some (TL_msg_new_detailed_info x), s) }
      else if constructor = 0x276d3ec6 then do { (x, s) \<leftarrow> TL_msg_detailed_info_readParams MsgDetailedInfo_fields_new s; Some (Some (TL_msg_detailed_info x), s) }
      else Some (None, fail s))"

record TL_msgs_all_info =
  TL_msgs_all_info_msg_ids :: "ulong list"
  TL_msgs_all_info_info :: "byte list option"

definition TL_msgs_all_info_new :: TL_msgs_all_info where
  "TL_msgs_all_info_new = \<lparr>TL_msgs_all_info_msg_ids = [], TL_msgs_all_info_info = None\<rparr>"

definition TL_msgs_all_info_constructor :: u32 where
  "TL_msgs_all_info_constructor = 0x8cc0d131"

definition TL_msgs_all_info_readParams :: "TL_msgs_all_info \<Rightarrow> istream \<Rightarrow> (TL_msgs_all_info \<times> istream) option" where
  "TL_msgs_all_info_readParams x s = do {
     (magic, s) \<leftarrow> readUint32 s;
     if magic \<noteq> 0x1cb5c415 then Some (x, fail s)
     else do {
     (count, s) \<leftarrow> readUint32 s;
     if too_many count s then Some (x, fail s)
     else do {
     (v, s) \<leftarrow> read_times (unat count) readInt64 s;
     let x = x\<lparr>TL_msgs_all_info_msg_ids := TL_msgs_all_info_msg_ids x @ v\<rparr>;
     (v, s) \<leftarrow> readByteArray s;
     let x = x\<lparr>TL_msgs_all_info_info := v\<rparr>;
     Some (x, s)
   }}}"

definition TL_msgs_all_info_TLdeserialize :: "u32 \<Rightarrow> istream \<Rightarrow> (TL_msgs_all_info option \<times> istream) option" where
  "TL_msgs_all_info_TLdeserialize constructor s =
     (if TL_msgs_all_info_constructor \<noteq> constructor then Some (None, fail s)
      else do { (x, s) \<leftarrow> TL_msgs_all_info_readParams TL_msgs_all_info_new s; Some (Some x, s) })"

record TL_new_session_created =
  TL_new_session_created_first_msg_id :: ulong
  TL_new_session_created_unique_id :: ulong
  TL_new_session_created_server_salt :: ulong

definition TL_new_session_created_new :: TL_new_session_created where
  "TL_new_session_created_new = \<lparr>TL_new_session_created_first_msg_id = 0, TL_new_session_created_unique_id = 0, TL_new_session_created_server_salt = 0\<rparr>"

definition TL_new_session_created_constructor :: u32 where
  "TL_new_session_created_constructor = 0x9ec20908"

definition TL_new_session_created_readParams :: "TL_new_session_created \<Rightarrow> istream \<Rightarrow> (TL_new_session_created \<times> istream) option" where
  "TL_new_session_created_readParams x s = do {
     (v, s) \<leftarrow> readInt64 s;
     let x = x\<lparr>TL_new_session_created_first_msg_id := v\<rparr>;
     (v, s) \<leftarrow> readInt64 s;
     let x = x\<lparr>TL_new_session_created_unique_id := v\<rparr>;
     (v, s) \<leftarrow> readInt64 s;
     let x = x\<lparr>TL_new_session_created_server_salt := v\<rparr>;
     Some (x, s)
   }"

record DestroySessionRes_fields =
  DestroySessionRes_session_id :: ulong

definition DestroySessionRes_fields_new :: DestroySessionRes_fields where
  "DestroySessionRes_fields_new = \<lparr>DestroySessionRes_session_id = 0\<rparr>"

datatype DestroySessionRes =
    TL_destroy_session_ok DestroySessionRes_fields
  | TL_destroy_session_none DestroySessionRes_fields

definition TL_destroy_session_ok_constructor :: u32 where
  "TL_destroy_session_ok_constructor = 0xe22045fc"

definition TL_destroy_session_ok_readParams :: "DestroySessionRes_fields \<Rightarrow> istream \<Rightarrow> (DestroySessionRes_fields \<times> istream) option" where
  "TL_destroy_session_ok_readParams x s = do {
     (v, s) \<leftarrow> readInt64 s;
     let x = x\<lparr>DestroySessionRes_session_id := v\<rparr>;
     Some (x, s)
   }"

definition TL_destroy_session_none_constructor :: u32 where
  "TL_destroy_session_none_constructor = 0x62d350c9"

definition TL_destroy_session_none_readParams :: "DestroySessionRes_fields \<Rightarrow> istream \<Rightarrow> (DestroySessionRes_fields \<times> istream) option" where
  "TL_destroy_session_none_readParams x s = do {
     (v, s) \<leftarrow> readInt64 s;
     let x = x\<lparr>DestroySessionRes_session_id := v\<rparr>;
     Some (x, s)
   }"

definition DestroySessionRes_TLdeserialize :: "u32 \<Rightarrow> istream \<Rightarrow> (DestroySessionRes option \<times> istream) option" where
  "DestroySessionRes_TLdeserialize constructor s =
     (if constructor = 0xe22045fc then do { (x, s) \<leftarrow> TL_destroy_session_ok_readParams DestroySessionRes_fields_new s; Some (Some (TL_destroy_session_ok x), s) }
      else if constructor = 0x62d350c9 then do { (x, s) \<leftarrow> TL_destroy_session_none_readParams DestroySessionRes_fields_new s; Some (Some (TL_destroy_session_none x), s) }
      else Some (None, fail s))"

record TL_msgs_ack =
  TL_msgs_ack_msg_ids :: "ulong list"

definition TL_msgs_ack_new :: TL_msgs_ack where
  "TL_msgs_ack_new = \<lparr>TL_msgs_ack_msg_ids = []\<rparr>"

definition TL_msgs_ack_constructor :: u32 where
  "TL_msgs_ack_constructor = 0x62d6b459"

definition TL_msgs_ack_readParams :: "TL_msgs_ack \<Rightarrow> istream \<Rightarrow> (TL_msgs_ack \<times> istream) option" where
  "TL_msgs_ack_readParams x s = do {
     (magic, s) \<leftarrow> readUint32 s;
     if magic \<noteq> 0x1cb5c415 then Some (x, fail s)
     else do {
     (count, s) \<leftarrow> readUint32 s;
     if too_many count s then Some (x, fail s)
     else do {
     (v, s) \<leftarrow> read_times (unat count) readInt64 s;
     let x = x\<lparr>TL_msgs_ack_msg_ids := TL_msgs_ack_msg_ids x @ v\<rparr>;
     Some (x, s)
   }}}"

definition TL_msgs_ack_serializeToStream :: "TL_msgs_ack \<Rightarrow> NativeByteBuffer \<Rightarrow> NativeByteBuffer option" where
  "TL_msgs_ack_serializeToStream x b = do {
     b \<leftarrow> writeInt32 TL_msgs_ack_constructor b;
     b \<leftarrow> writeInt32 0x1cb5c415 b;
     b \<leftarrow> write_vector writeInt64 (TL_msgs_ack_msg_ids x) b;
     Some b
   }"

definition TL_msgs_ack_TLdeserialize :: "u32 \<Rightarrow> istream \<Rightarrow> (TL_msgs_ack option \<times> istream) option" where
  "TL_msgs_ack_TLdeserialize constructor s =
     (if TL_msgs_ack_constructor \<noteq> constructor then Some (None, fail s)
      else do { (x, s) \<leftarrow> TL_msgs_ack_readParams TL_msgs_ack_new s; Some (Some x, s) })"

record TL_msg_resend_req =
  TL_msg_resend_req_msg_ids :: "ulong list"

definition TL_msg_resend_req_new :: TL_msg_resend_req where
  "TL_msg_resend_req_new = \<lparr>TL_msg_resend_req_msg_ids = []\<rparr>"

definition TL_msg_resend_req_constructor :: u32 where
  "TL_msg_resend_req_constructor = 0x7d861a08"

definition TL_msg_resend_req_readParams :: "TL_msg_resend_req \<Rightarrow> istream \<Rightarrow> (TL_msg_resend_req \<times> istream) option" where
  "TL_msg_resend_req_readParams x s = do {
     (magic, s) \<leftarrow> readUint32 s;
     if magic \<noteq> 0x1cb5c415 then Some (x, fail s)
     else do {
     (count, s) \<leftarrow> readUint32 s;
     if too_many count s then Some (x, fail s)
     else do {
     (v, s) \<leftarrow> read_times (unat count) readInt64 s;
     let x = x\<lparr>TL_msg_resend_req_msg_ids := TL_msg_resend_req_msg_ids x @ v\<rparr>;
     Some (x, s)
   }}}"

definition TL_msg_resend_req_serializeToStream :: "TL_msg_resend_req \<Rightarrow> NativeByteBuffer \<Rightarrow> NativeByteBuffer option" where
  "TL_msg_resend_req_serializeToStream x b = do {
     b \<leftarrow> writeInt32 TL_msg_resend_req_constructor b;
     b \<leftarrow> writeInt32 0x1cb5c415 b;
     b \<leftarrow> write_vector writeInt64 (TL_msg_resend_req_msg_ids x) b;
     Some b
   }"

definition TL_msg_resend_req_TLdeserialize :: "u32 \<Rightarrow> istream \<Rightarrow> (TL_msg_resend_req option \<times> istream) option" where
  "TL_msg_resend_req_TLdeserialize constructor s =
     (if TL_msg_resend_req_constructor \<noteq> constructor then Some (None, fail s)
      else do { (x, s) \<leftarrow> TL_msg_resend_req_readParams TL_msg_resend_req_new s; Some (Some x, s) })"

record MsgsStateInfo =
  MsgsStateInfo_req_msg_id :: ulong
  MsgsStateInfo_info :: "byte list"

definition MsgsStateInfo_new :: MsgsStateInfo where
  "MsgsStateInfo_new = \<lparr>MsgsStateInfo_req_msg_id = 0, MsgsStateInfo_info = []\<rparr>"

definition MsgsStateInfo_constructor :: u32 where
  "MsgsStateInfo_constructor = 0x04deb57d"

definition MsgsStateInfo_readParams :: "MsgsStateInfo \<Rightarrow> istream \<Rightarrow> (MsgsStateInfo \<times> istream) option" where
  "MsgsStateInfo_readParams x s = do {
     (v, s) \<leftarrow> readInt64 s;
     let x = x\<lparr>MsgsStateInfo_req_msg_id := v\<rparr>;
     (v, s) \<leftarrow> readString s;
     let x = x\<lparr>MsgsStateInfo_info := v\<rparr>;
     Some (x, s)
   }"

record RpcError_fields =
  RpcError_error_code :: u32
  RpcError_error_message :: "byte list"
  RpcError_query_id :: ulong

definition RpcError_fields_new :: RpcError_fields where
  "RpcError_fields_new = \<lparr>RpcError_error_code = 0, RpcError_error_message = [], RpcError_query_id = 0\<rparr>"

datatype RpcError =
    TL_rpc_error RpcError_fields
  | TL_rpc_req_error RpcError_fields

definition TL_rpc_error_constructor :: u32 where
  "TL_rpc_error_constructor = 0x2144ca19"

definition TL_rpc_error_readParams :: "RpcError_fields \<Rightarrow> istream \<Rightarrow> (RpcError_fields \<times> istream) option" where
  "TL_rpc_error_readParams x s = do {
     (v, s) \<leftarrow> readInt32 s;
     let x = x\<lparr>RpcError_error_code := v\<rparr>;
     (v, s) \<leftarrow> readString s;
     let x = x\<lparr>RpcError_error_message := v\<rparr>;
     Some (x, s)
   }"

definition TL_rpc_req_error_constructor :: u32 where
  "TL_rpc_req_error_constructor = 0x7ae432f5"

definition TL_rpc_req_error_readParams :: "RpcError_fields \<Rightarrow> istream \<Rightarrow> (RpcError_fields \<times> istream) option" where
  "TL_rpc_req_error_readParams x s = do {
     (v, s) \<leftarrow> readInt64 s;
     let x = x\<lparr>RpcError_query_id := v\<rparr>;
     (v, s) \<leftarrow> readInt32 s;
     let x = x\<lparr>RpcError_error_code := v\<rparr>;
     (v, s) \<leftarrow> readString s;
     let x = x\<lparr>RpcError_error_message := v\<rparr>;
     Some (x, s)
   }"

record TL_client_DH_inner_data =
  TL_client_DH_inner_data_nonce :: "byte list option"
  TL_client_DH_inner_data_server_nonce :: "byte list option"
  TL_client_DH_inner_data_retry_id :: ulong
  TL_client_DH_inner_data_g_b :: "byte list option"

definition TL_client_DH_inner_data_new :: TL_client_DH_inner_data where
  "TL_client_DH_inner_data_new = \<lparr>TL_client_DH_inner_data_nonce = None, TL_client_DH_inner_data_server_nonce = None, TL_client_DH_inner_data_retry_id = 0, TL_client_DH_inner_data_g_b = None\<rparr>"

definition TL_client_DH_inner_data_constructor :: u32 where
  "TL_client_DH_inner_data_constructor = 0x6643b654"

definition TL_client_DH_inner_data_serializeToStream :: "TL_client_DH_inner_data \<Rightarrow> NativeByteBuffer \<Rightarrow> NativeByteBuffer option" where
  "TL_client_DH_inner_data_serializeToStream x b = do {
     b \<leftarrow> writeInt32 TL_client_DH_inner_data_constructor b;
     b \<leftarrow> writeBytes_array (TL_client_DH_inner_data_nonce x) b;
     b \<leftarrow> writeBytes_array (TL_client_DH_inner_data_server_nonce x) b;
     b \<leftarrow> writeInt64 (TL_client_DH_inner_data_retry_id x) b;
     b \<leftarrow> writeByteArray_array (TL_client_DH_inner_data_g_b x) b;
     Some b
   }"

record TL_server_DH_inner_data =
  TL_server_DH_inner_data_nonce :: "byte list option"
  TL_server_DH_inner_data_server_nonce :: "byte list option"
  TL_server_DH_inner_data_g :: u32
  TL_server_DH_inner_data_dh_prime :: "byte list option"
  TL_server_DH_inner_data_g_a :: "byte list option"
  TL_server_DH_inner_data_server_time :: u32

definition TL_server_DH_inner_data_new :: TL_server_DH_inner_data where
  "TL_server_DH_inner_data_new = \<lparr>TL_server_DH_inner_data_nonce = None, TL_server_DH_inner_data_server_nonce = None, TL_server_DH_inner_data_g = 0, TL_server_DH_inner_data_dh_prime = None, TL_server_DH_inner_data_g_a = None, TL_server_DH_inner_data_server_time = 0\<rparr>"

definition TL_server_DH_inner_data_constructor :: u32 where
  "TL_server_DH_inner_data_constructor = 0xb5890dba"

definition TL_server_DH_inner_data_readParams :: "TL_server_DH_inner_data \<Rightarrow> istream \<Rightarrow> (TL_server_DH_inner_data \<times> istream) option" where
  "TL_server_DH_inner_data_readParams x s = do {
     (v, s) \<leftarrow> readBytes 16 s;
     let x = x\<lparr>TL_server_DH_inner_data_nonce := v\<rparr>;
     (v, s) \<leftarrow> readBytes 16 s;
     let x = x\<lparr>TL_server_DH_inner_data_server_nonce := v\<rparr>;
     (v, s) \<leftarrow> readUint32 s;
     let x = x\<lparr>TL_server_DH_inner_data_g := v\<rparr>;
     (v, s) \<leftarrow> readByteArray s;
     let x = x\<lparr>TL_server_DH_inner_data_dh_prime := v\<rparr>;
     (v, s) \<leftarrow> readByteArray s;
     let x = x\<lparr>TL_server_DH_inner_data_g_a := v\<rparr>;
     (v, s) \<leftarrow> readInt32 s;
     let x = x\<lparr>TL_server_DH_inner_data_server_time := v\<rparr>;
     Some (x, s)
   }"

definition TL_server_DH_inner_data_serializeToStream :: "TL_server_DH_inner_data \<Rightarrow> NativeByteBuffer \<Rightarrow> NativeByteBuffer option" where
  "TL_server_DH_inner_data_serializeToStream x b = do {
     b \<leftarrow> writeInt32 TL_server_DH_inner_data_constructor b;
     b \<leftarrow> writeBytes_array (TL_server_DH_inner_data_nonce x) b;
     b \<leftarrow> writeBytes_array (TL_server_DH_inner_data_server_nonce x) b;
     b \<leftarrow> writeInt32 (TL_server_DH_inner_data_g x) b;
     b \<leftarrow> writeByteArray_array (TL_server_DH_inner_data_dh_prime x) b;
     b \<leftarrow> writeByteArray_array (TL_server_DH_inner_data_g_a x) b;
     b \<leftarrow> writeInt32 (TL_server_DH_inner_data_server_time x) b;
     Some b
   }"

definition TL_server_DH_inner_data_TLdeserialize :: "u32 \<Rightarrow> istream \<Rightarrow> (TL_server_DH_inner_data option \<times> istream) option" where
  "TL_server_DH_inner_data_TLdeserialize constructor s =
     (if TL_server_DH_inner_data_constructor \<noteq> constructor then Some (None, fail s)
      else do { (x, s) \<leftarrow> TL_server_DH_inner_data_readParams TL_server_DH_inner_data_new s; Some (Some x, s) })"

record TL_req_pq =
  TL_req_pq_nonce :: "byte list option"

definition TL_req_pq_new :: TL_req_pq where
  "TL_req_pq_new = \<lparr>TL_req_pq_nonce = None\<rparr>"

definition TL_req_pq_constructor :: u32 where
  "TL_req_pq_constructor = 0x60469778"

definition TL_req_pq_serializeToStream :: "TL_req_pq \<Rightarrow> NativeByteBuffer \<Rightarrow> NativeByteBuffer option" where
  "TL_req_pq_serializeToStream x b = do {
     b \<leftarrow> writeInt32 TL_req_pq_constructor b;
     b \<leftarrow> writeBytes_array (TL_req_pq_nonce x) b;
     Some b
   }"

record TL_req_pq_multi =
  TL_req_pq_multi_nonce :: "byte list option"

definition TL_req_pq_multi_new :: TL_req_pq_multi where
  "TL_req_pq_multi_new = \<lparr>TL_req_pq_multi_nonce = None\<rparr>"

definition TL_req_pq_multi_constructor :: u32 where
  "TL_req_pq_multi_constructor = 0xbe7e8ef1"

definition TL_req_pq_multi_serializeToStream :: "TL_req_pq_multi \<Rightarrow> NativeByteBuffer \<Rightarrow> NativeByteBuffer option" where
  "TL_req_pq_multi_serializeToStream x b = do {
     b \<leftarrow> writeInt32 TL_req_pq_multi_constructor b;
     b \<leftarrow> writeBytes_array (TL_req_pq_multi_nonce x) b;
     Some b
   }"

record TL_req_DH_params =
  TL_req_DH_params_nonce :: "byte list option"
  TL_req_DH_params_server_nonce :: "byte list option"
  TL_req_DH_params_p :: "byte list option"
  TL_req_DH_params_q :: "byte list option"
  TL_req_DH_params_public_key_fingerprint :: ulong
  TL_req_DH_params_encrypted_data :: "byte list option"

definition TL_req_DH_params_new :: TL_req_DH_params where
  "TL_req_DH_params_new = \<lparr>TL_req_DH_params_nonce = None, TL_req_DH_params_server_nonce = None, TL_req_DH_params_p = None, TL_req_DH_params_q = None, TL_req_DH_params_public_key_fingerprint = 0, TL_req_DH_params_encrypted_data = None\<rparr>"

definition TL_req_DH_params_constructor :: u32 where
  "TL_req_DH_params_constructor = 0xd712e4be"

definition TL_req_DH_params_serializeToStream :: "TL_req_DH_params \<Rightarrow> NativeByteBuffer \<Rightarrow> NativeByteBuffer option" where
  "TL_req_DH_params_serializeToStream x b = do {
     b \<leftarrow> writeInt32 TL_req_DH_params_constructor b;
     b \<leftarrow> writeBytes_array (TL_req_DH_params_nonce x) b;
     b \<leftarrow> writeBytes_array (TL_req_DH_params_server_nonce x) b;
     b \<leftarrow> writeByteArray_array (TL_req_DH_params_p x) b;
     b \<leftarrow> writeByteArray_array (TL_req_DH_params_q x) b;
     b \<leftarrow> writeInt64 (TL_req_DH_params_public_key_fingerprint x) b;
     b \<leftarrow> writeByteArray_array (TL_req_DH_params_encrypted_data x) b;
     Some b
   }"

record TL_set_client_DH_params =
  TL_set_client_DH_params_nonce :: "byte list option"
  TL_set_client_DH_params_server_nonce :: "byte list option"
  TL_set_client_DH_params_encrypted_data :: "byte list option"

definition TL_set_client_DH_params_new :: TL_set_client_DH_params where
  "TL_set_client_DH_params_new = \<lparr>TL_set_client_DH_params_nonce = None, TL_set_client_DH_params_server_nonce = None, TL_set_client_DH_params_encrypted_data = None\<rparr>"

definition TL_set_client_DH_params_constructor :: u32 where
  "TL_set_client_DH_params_constructor = 0xf5045f1f"

definition TL_set_client_DH_params_serializeToStream :: "TL_set_client_DH_params \<Rightarrow> NativeByteBuffer \<Rightarrow> NativeByteBuffer option" where
  "TL_set_client_DH_params_serializeToStream x b = do {
     b \<leftarrow> writeInt32 TL_set_client_DH_params_constructor b;
     b \<leftarrow> writeBytes_array (TL_set_client_DH_params_nonce x) b;
     b \<leftarrow> writeBytes_array (TL_set_client_DH_params_server_nonce x) b;
     b \<leftarrow> writeByteArray_array (TL_set_client_DH_params_encrypted_data x) b;
     Some b
   }"

record TL_rpc_drop_answer =
  TL_rpc_drop_answer_req_msg_id :: ulong

definition TL_rpc_drop_answer_new :: TL_rpc_drop_answer where
  "TL_rpc_drop_answer_new = \<lparr>TL_rpc_drop_answer_req_msg_id = 0\<rparr>"

definition TL_rpc_drop_answer_constructor :: u32 where
  "TL_rpc_drop_answer_constructor = 0x58e4a740"

definition TL_rpc_drop_answer_serializeToStream :: "TL_rpc_drop_answer \<Rightarrow> NativeByteBuffer \<Rightarrow> NativeByteBuffer option" where
  "TL_rpc_drop_answer_serializeToStream x b = do {
     b \<leftarrow> writeInt32 TL_rpc_drop_answer_constructor b;
     b \<leftarrow> writeInt64 (TL_rpc_drop_answer_req_msg_id x) b;
     Some b
   }"

record TL_get_future_salts =
  TL_get_future_salts_num :: u32

definition TL_get_future_salts_new :: TL_get_future_salts where
  "TL_get_future_salts_new = \<lparr>TL_get_future_salts_num = 0\<rparr>"

definition TL_get_future_salts_constructor :: u32 where
  "TL_get_future_salts_constructor = 0xb921bd04"

definition TL_get_future_salts_serializeToStream :: "TL_get_future_salts \<Rightarrow> NativeByteBuffer \<Rightarrow> NativeByteBuffer option" where
  "TL_get_future_salts_serializeToStream x b = do {
     b \<leftarrow> writeInt32 TL_get_future_salts_constructor b;
     b \<leftarrow> writeInt32 (TL_get_future_salts_num x) b;
     Some b
   }"

record TL_ping =
  TL_ping_ping_id :: ulong

definition TL_ping_new :: TL_ping where
  "TL_ping_new = \<lparr>TL_ping_ping_id = 0\<rparr>"

definition TL_ping_constructor :: u32 where
  "TL_ping_constructor = 0x7abe77ec"

definition TL_ping_serializeToStream :: "TL_ping \<Rightarrow> NativeByteBuffer \<Rightarrow> NativeByteBuffer option" where
  "TL_ping_serializeToStream x b = do {
     b \<leftarrow> writeInt32 TL_ping_constructor b;
     b \<leftarrow> writeInt64 (TL_ping_ping_id x) b;
     Some b
   }"

record TL_ping_delay_disconnect =
  TL_ping_delay_disconnect_ping_id :: ulong
  TL_ping_delay_disconnect_disconnect_delay :: u32

definition TL_ping_delay_disconnect_new :: TL_ping_delay_disconnect where
  "TL_ping_delay_disconnect_new = \<lparr>TL_ping_delay_disconnect_ping_id = 0, TL_ping_delay_disconnect_disconnect_delay = 0\<rparr>"

definition TL_ping_delay_disconnect_constructor :: u32 where
  "TL_ping_delay_disconnect_constructor = 0xf3427b8c"

definition TL_ping_delay_disconnect_serializeToStream :: "TL_ping_delay_disconnect \<Rightarrow> NativeByteBuffer \<Rightarrow> NativeByteBuffer option" where
  "TL_ping_delay_disconnect_serializeToStream x b = do {
     b \<leftarrow> writeInt32 TL_ping_delay_disconnect_constructor b;
     b \<leftarrow> writeInt64 (TL_ping_delay_disconnect_ping_id x) b;
     b \<leftarrow> writeInt32 (TL_ping_delay_disconnect_disconnect_delay x) b;
     Some b
   }"

record TL_destroy_session =
  TL_destroy_session_session_id :: ulong

definition TL_destroy_session_new :: TL_destroy_session where
  "TL_destroy_session_new = \<lparr>TL_destroy_session_session_id = 0\<rparr>"

definition TL_destroy_session_constructor :: u32 where
  "TL_destroy_session_constructor = 0xe7512126"

definition TL_destroy_session_serializeToStream :: "TL_destroy_session \<Rightarrow> NativeByteBuffer \<Rightarrow> NativeByteBuffer option" where
  "TL_destroy_session_serializeToStream x b = do {
     b \<leftarrow> writeInt32 TL_destroy_session_constructor b;
     b \<leftarrow> writeInt64 (TL_destroy_session_session_id x) b;
     Some b
   }"

record TL_error =
  TL_error_code :: u32
  TL_error_text :: "byte list"

definition TL_error_new :: TL_error where
  "TL_error_new = \<lparr>TL_error_code = 0, TL_error_text = []\<rparr>"

definition TL_error_constructor :: u32 where
  "TL_error_constructor = 0xc4b9f9bb"

definition TL_error_readParams :: "TL_error \<Rightarrow> istream \<Rightarrow> (TL_error \<times> istream) option" where
  "TL_error_readParams x s = do {
     (v, s) \<leftarrow> readInt32 s;
     let x = x\<lparr>TL_error_code := v\<rparr>;
     (v, s) \<leftarrow> readString s;
     let x = x\<lparr>TL_error_text := v\<rparr>;
     Some (x, s)
   }"

definition TL_error_serializeToStream :: "TL_error \<Rightarrow> NativeByteBuffer \<Rightarrow> NativeByteBuffer option" where
  "TL_error_serializeToStream x b = do {
     b \<leftarrow> writeInt32 TL_error_constructor b;
     b \<leftarrow> writeInt32 (TL_error_code x) b;
     b \<leftarrow> writeString (TL_error_text x) b;
     Some b
   }"

definition TL_error_TLdeserialize :: "u32 \<Rightarrow> istream \<Rightarrow> (TL_error option \<times> istream) option" where
  "TL_error_TLdeserialize constructor s =
     (if TL_error_constructor \<noteq> constructor then Some (None, fail s)
      else do { (x, s) \<leftarrow> TL_error_readParams TL_error_new s; Some (Some x, s) })"

record TL_inputClientProxy =
  TL_inputClientProxy_address :: "byte list"
  TL_inputClientProxy_port :: u32

definition TL_inputClientProxy_new :: TL_inputClientProxy where
  "TL_inputClientProxy_new = \<lparr>TL_inputClientProxy_address = [], TL_inputClientProxy_port = 0\<rparr>"

definition TL_inputClientProxy_constructor :: u32 where
  "TL_inputClientProxy_constructor = 0x75588b3f"

definition TL_inputClientProxy_serializeToStream :: "TL_inputClientProxy \<Rightarrow> NativeByteBuffer \<Rightarrow> NativeByteBuffer option" where
  "TL_inputClientProxy_serializeToStream x b = do {
     b \<leftarrow> writeInt32 TL_inputClientProxy_constructor b;
     b \<leftarrow> writeString (TL_inputClientProxy_address x) b;
     b \<leftarrow> writeInt32 (TL_inputClientProxy_port x) b;
     Some b
   }"

text \<open>\<open>stream->writeByteArray(p)\<close> for a buffer: the source is rewound and all of it up to its limit written.\<close>

definition writeByteArray_buffer_ptr :: "NativeByteBuffer option \<Rightarrow> NativeByteBuffer \<Rightarrow> NativeByteBuffer option" where
  "writeByteArray_buffer_ptr p b = do { src \<leftarrow> p; (src, b) \<leftarrow> writeByteArray_buffer src b; Some b }"

record TL_auth_bindTempAuthKey =
  TL_auth_bindTempAuthKey_perm_auth_key_id :: ulong
  TL_auth_bindTempAuthKey_nonce :: ulong
  TL_auth_bindTempAuthKey_expires_at :: u32
  TL_auth_bindTempAuthKey_encrypted_message :: "NativeByteBuffer option"

definition TL_auth_bindTempAuthKey_constructor :: u32 where
  "TL_auth_bindTempAuthKey_constructor = 0xcdd42a05"

definition TL_auth_bindTempAuthKey_delete :: "TL_auth_bindTempAuthKey \<Rightarrow> BuffersStorage \<Rightarrow> BuffersStorage" where
  "TL_auth_bindTempAuthKey_delete x st =
     (case TL_auth_bindTempAuthKey_encrypted_message x of None \<Rightarrow> st | Some b \<Rightarrow> reuse b st)"

definition TL_auth_bindTempAuthKey_serializeToStream ::
    "TL_auth_bindTempAuthKey \<Rightarrow> NativeByteBuffer \<Rightarrow> NativeByteBuffer option" where
  "TL_auth_bindTempAuthKey_serializeToStream x b = do {
     b \<leftarrow> writeInt32 TL_auth_bindTempAuthKey_constructor b;
     b \<leftarrow> writeInt64 (TL_auth_bindTempAuthKey_perm_auth_key_id x) b;
     b \<leftarrow> writeInt64 (TL_auth_bindTempAuthKey_nonce x) b;
     b \<leftarrow> writeInt32 (TL_auth_bindTempAuthKey_expires_at x) b;
     b \<leftarrow> writeByteArray_buffer_ptr (TL_auth_bindTempAuthKey_encrypted_message x) b;
     Some b
   }"

text \<open>\<open>inet_ntoa\<close> of the address in network byte order: the four bytes in decimal, most significant first.\<close>

definition decimal_byte :: "byte \<Rightarrow> byte list" where
  "decimal_byte x =
     (if x < 10 then [48 + x]
      else if x < 100 then [48 + x div 10, 48 + x mod 10]
      else [48 + x div 100, 48 + x div 10 mod 10, 48 + x mod 10])"

definition inet_ntoa :: "u32 \<Rightarrow> byte list" where
  "inet_ntoa ip = decimal_byte (ucast (drop_bit 24 ip)) @ [46] @ decimal_byte (ucast (drop_bit 16 ip)) @ [46] @
     decimal_byte (ucast (drop_bit 8 ip)) @ [46] @ decimal_byte (ucast ip)"

record IpPort_fields =
  IpPort_ipv4 :: "byte list"
  IpPort_port :: u32
  IpPort_secret :: "byte list option"

definition IpPort_fields_new :: IpPort_fields where
  "IpPort_fields_new = \<lparr>IpPort_ipv4 = [], IpPort_port = 0, IpPort_secret = None\<rparr>"

datatype IpPort = TL_ipPort IpPort_fields | TL_ipPortSecret IpPort_fields

definition TL_ipPort_readParams :: "IpPort_fields \<Rightarrow> istream \<Rightarrow> (IpPort_fields \<times> istream) option" where
  "TL_ipPort_readParams x s = do {
     (ip_addr, s) \<leftarrow> readUint32 s;
     let x = x\<lparr>IpPort_ipv4 := inet_ntoa ip_addr\<rparr>;
     (v, s) \<leftarrow> readUint32 s;
     let x = x\<lparr>IpPort_port := v\<rparr>;
     Some (x, s)
   }"

definition TL_ipPortSecret_readParams :: "IpPort_fields \<Rightarrow> istream \<Rightarrow> (IpPort_fields \<times> istream) option" where
  "TL_ipPortSecret_readParams x s = do {
     (ip_addr, s) \<leftarrow> readUint32 s;
     let x = x\<lparr>IpPort_ipv4 := inet_ntoa ip_addr\<rparr>;
     (v, s) \<leftarrow> readUint32 s;
     let x = x\<lparr>IpPort_port := v\<rparr>;
     (v, s) \<leftarrow> readByteArray s;
     let x = x\<lparr>IpPort_secret := v\<rparr>;
     Some (x, s)
   }"

definition IpPort_TLdeserialize :: "u32 \<Rightarrow> istream \<Rightarrow> (IpPort option \<times> istream) option" where
  "IpPort_TLdeserialize constructor s =
     (if constructor = 0xd433ad73 then do { (x, s) \<leftarrow> TL_ipPort_readParams IpPort_fields_new s; Some (Some (TL_ipPort x), s) }
      else if constructor = 0x37982646 then do { (x, s) \<leftarrow> TL_ipPortSecret_readParams IpPort_fields_new s; Some (Some (TL_ipPortSecret x), s) }
      else Some (None, fail s))"

record TL_accessPointRule =
  TL_accessPointRule_phone_prefix_rules :: "byte list"
  TL_accessPointRule_dc_id :: u32
  TL_accessPointRule_ips :: "IpPort list"

definition TL_accessPointRule_new :: TL_accessPointRule where
  "TL_accessPointRule_new = \<lparr>TL_accessPointRule_phone_prefix_rules = [], TL_accessPointRule_dc_id = 0, TL_accessPointRule_ips = []\<rparr>"

definition TL_accessPointRule_constructor :: u32 where
  "TL_accessPointRule_constructor = 0x4679b65f"

definition TL_accessPointRule_readParams :: "TL_accessPointRule \<Rightarrow> istream \<Rightarrow> (TL_accessPointRule \<times> istream) option" where
  "TL_accessPointRule_readParams x s = do {
     (v, s) \<leftarrow> readString s;
     let x = x\<lparr>TL_accessPointRule_phone_prefix_rules := v\<rparr>;
     (v, s) \<leftarrow> readUint32 s;
     let x = x\<lparr>TL_accessPointRule_dc_id := v\<rparr>;
     (count, s) \<leftarrow> readUint32 s;
     ((v, r), s) \<leftarrow> read_until_null (unat count) (read_object IpPort_TLdeserialize) s;
     let x = x\<lparr>TL_accessPointRule_ips := TL_accessPointRule_ips x @ v\<rparr>;
     Some (x, s)
   }"

record TL_help_configSimple =
  TL_help_configSimple_date :: u32
  TL_help_configSimple_expires :: u32
  TL_help_configSimple_rules :: "TL_accessPointRule list"

definition TL_help_configSimple_new :: TL_help_configSimple where
  "TL_help_configSimple_new = \<lparr>TL_help_configSimple_date = 0, TL_help_configSimple_expires = 0, TL_help_configSimple_rules = []\<rparr>"

definition TL_help_configSimple_constructor :: u32 where
  "TL_help_configSimple_constructor = 0x5a592a6c"

text \<open>The constructor of each rule is read into the argument that is meant to be the instance number, and not looked at.\<close>

definition TL_help_configSimple_readParams :: "TL_help_configSimple \<Rightarrow> istream \<Rightarrow> (TL_help_configSimple \<times> istream) option" where
  "TL_help_configSimple_readParams x s = do {
     (v, s) \<leftarrow> readInt32 s;
     let x = x\<lparr>TL_help_configSimple_date := v\<rparr>;
     (v, s) \<leftarrow> readInt32 s;
     let x = x\<lparr>TL_help_configSimple_expires := v\<rparr>;
     (count, s) \<leftarrow> readUint32 s;
     ((v, r), s) \<leftarrow> read_until_error (unat count) (read_object (\<lambda>instanceNum. TL_accessPointRule_readParams TL_accessPointRule_new)) s;
     let x = x\<lparr>TL_help_configSimple_rules := TL_help_configSimple_rules x @ v\<rparr>;
     Some (x, s)
   }"

definition TL_help_configSimple_TLdeserialize :: "u32 \<Rightarrow> istream \<Rightarrow> (TL_help_configSimple option \<times> istream) option" where
  "TL_help_configSimple_TLdeserialize constructor s =
     (if TL_help_configSimple_constructor \<noteq> constructor then Some (None, fail s)
      else do { (x, s) \<leftarrow> TL_help_configSimple_readParams TL_help_configSimple_new s; Some (Some x, s) })"

end
