(* ===== verification/Api_Scheme.thy ===== *)
theory Api_Scheme
  imports TL_Codec
begin

unbundle bit_operations_syntax

section \<open>ApiScheme: the API classes of the network library\<close>

text \<open>
  \<open>tgnet/ApiScheme.cpp\<close> and \<open>tgnet/ApiScheme.h\<close>, class by class in the order of the header.  A class is a record of
  its fields (prefixed with its name); a base class with several subclasses is a datatype with one constructor per
  subclass, over the record of the fields they share.  \<open>C_new\<close> is the object \<open>new C()\<close> makes: value-initialised, so
  integers are 0, strings and vectors empty, pointers null.  \<open>C_readParams\<close>, \<open>C_serializeToStream\<close> and
  \<open>C_TLdeserialize\<close> are the methods, statement by statement; an early \<open>return\<close> ends the chain of the \<open>do\<close> block.  A
  pointer is an option, a vector of owned objects a list.  \<open>TL_dcOption::serializeToStream\<close> also stores the flags it
  computes in the object; that part is \<open>TL_dcOption_setFlags\<close>.
\<close>

datatype Bool =
    TL_boolTrue
  | TL_boolFalse

definition TL_boolTrue_constructor :: u32 where
  "TL_boolTrue_constructor = 0x997275b5"

definition TL_boolTrue_serializeToStream :: "NativeByteBuffer \<Rightarrow> NativeByteBuffer option" where
  "TL_boolTrue_serializeToStream b = do {
     b \<leftarrow> writeInt32 TL_boolTrue_constructor b;
     Some b
   }"

definition TL_boolFalse_constructor :: u32 where
  "TL_boolFalse_constructor = 0xbc799737"

definition TL_boolFalse_serializeToStream :: "NativeByteBuffer \<Rightarrow> NativeByteBuffer option" where
  "TL_boolFalse_serializeToStream b = do {
     b \<leftarrow> writeInt32 TL_boolFalse_constructor b;
     Some b
   }"

definition Bool_TLdeserialize :: "u32 \<Rightarrow> istream \<Rightarrow> (Bool option \<times> istream) option" where
  "Bool_TLdeserialize constructor s =
     (if constructor = 0x997275b5 then Some (Some TL_boolTrue, s)
      else if constructor = 0xbc799737 then Some (Some TL_boolFalse, s)
      else Some (None, fail s))"

fun Bool_serializeToStream :: "Bool \<Rightarrow> NativeByteBuffer \<Rightarrow> NativeByteBuffer option" where
  "Bool_serializeToStream TL_boolTrue = TL_boolTrue_serializeToStream"
| "Bool_serializeToStream TL_boolFalse = TL_boolFalse_serializeToStream"

record TL_dcOption =
  TL_dcOption_flags :: u32
  TL_dcOption_ipv6 :: bool
  TL_dcOption_media_only :: bool
  TL_dcOption_tcpo_only :: bool
  TL_dcOption_cdn :: bool
  TL_dcOption_isStatic :: bool
  TL_dcOption_id :: u32
  TL_dcOption_ip_address :: "byte list"
  TL_dcOption_port :: u32
  TL_dcOption_secret :: "byte list option"

definition TL_dcOption_new :: TL_dcOption where
  "TL_dcOption_new = \<lparr>TL_dcOption_flags = 0, TL_dcOption_ipv6 = False, TL_dcOption_media_only = False, TL_dcOption_tcpo_only = False, TL_dcOption_cdn = False, TL_dcOption_isStatic = False, TL_dcOption_id = 0, TL_dcOption_ip_address = [], TL_dcOption_port = 0, TL_dcOption_secret = None\<rparr>"

definition TL_dcOption_constructor :: u32 where
  "TL_dcOption_constructor = 0x18b7a10d"

definition TL_dcOption_readParams :: "TL_dcOption \<Rightarrow> istream \<Rightarrow> (TL_dcOption \<times> istream) option" where
  "TL_dcOption_readParams x s = do {
     (flags, s) \<leftarrow> readInt32 s;
     let x = x\<lparr>TL_dcOption_flags := flags\<rparr>;
     let x = x\<lparr>TL_dcOption_ipv6 := (flags AND 1 \<noteq> 0)\<rparr>;
     let x = x\<lparr>TL_dcOption_media_only := (flags AND 2 \<noteq> 0)\<rparr>;
     let x = x\<lparr>TL_dcOption_tcpo_only := (flags AND 4 \<noteq> 0)\<rparr>;
     let x = x\<lparr>TL_dcOption_cdn := (flags AND 8 \<noteq> 0)\<rparr>;
     let x = x\<lparr>TL_dcOption_isStatic := (flags AND 16 \<noteq> 0)\<rparr>;
     (v, s) \<leftarrow> readInt32 s;
     let x = x\<lparr>TL_dcOption_id := v\<rparr>;
     (v, s) \<leftarrow> readString s;
     let x = x\<lparr>TL_dcOption_ip_address := v\<rparr>;
     (v, s) \<leftarrow> readInt32 s;
     let x = x\<lparr>TL_dcOption_port := v\<rparr>;
     (v, s) \<leftarrow> read_if (flags AND 1024 \<noteq> 0) readByteArray (TL_dcOption_secret x) s;
     let x = x\<lparr>TL_dcOption_secret := v\<rparr>;
     Some (x, s)
   }"

definition TL_dcOption_setFlags :: "TL_dcOption \<Rightarrow> TL_dcOption" where
  "TL_dcOption_setFlags x =
    (let x = x\<lparr>TL_dcOption_flags := if TL_dcOption_ipv6 x then TL_dcOption_flags x OR 1 else TL_dcOption_flags x AND NOT 1\<rparr> in
     let x = x\<lparr>TL_dcOption_flags := if TL_dcOption_media_only x then TL_dcOption_flags x OR 2 else TL_dcOption_flags x AND NOT 2\<rparr> in
     let x = x\<lparr>TL_dcOption_flags := if TL_dcOption_tcpo_only x then TL_dcOption_flags x OR 4 else TL_dcOption_flags x AND NOT 4\<rparr> in
     let x = x\<lparr>TL_dcOption_flags := if TL_dcOption_cdn x then TL_dcOption_flags x OR 8 else TL_dcOption_flags x AND NOT 8\<rparr> in
     let x = x\<lparr>TL_dcOption_flags := if TL_dcOption_isStatic x then TL_dcOption_flags x OR 16 else TL_dcOption_flags x AND NOT 16\<rparr>
     in x)"

definition TL_dcOption_serializeToStream :: "TL_dcOption \<Rightarrow> NativeByteBuffer \<Rightarrow> NativeByteBuffer option" where
  "TL_dcOption_serializeToStream x b = do {
     b \<leftarrow> writeInt32 TL_dcOption_constructor b;
     let x = TL_dcOption_setFlags x;
     b \<leftarrow> writeInt32 (TL_dcOption_flags x) b;
     b \<leftarrow> writeInt32 (TL_dcOption_id x) b;
     b \<leftarrow> writeString (TL_dcOption_ip_address x) b;
     b \<leftarrow> writeInt32 (TL_dcOption_port x) b;
     b \<leftarrow> (if TL_dcOption_flags x AND 1024 \<noteq> 0 then writeByteArray_array (TL_dcOption_secret x) b else Some b);
     Some b
   }"

definition TL_dcOption_TLdeserialize :: "u32 \<Rightarrow> istream \<Rightarrow> (TL_dcOption option \<times> istream) option" where
  "TL_dcOption_TLdeserialize constructor s =
     (if TL_dcOption_constructor \<noteq> constructor then Some (None, fail s)
      else do { (x, s) \<leftarrow> TL_dcOption_readParams TL_dcOption_new s; Some (Some x, s) })"

record TL_disabledFeature =
  TL_disabledFeature_feature :: "byte list"
  TL_disabledFeature_description :: "byte list"

definition TL_disabledFeature_new :: TL_disabledFeature where
  "TL_disabledFeature_new = \<lparr>TL_disabledFeature_feature = [], TL_disabledFeature_description = []\<rparr>"

definition TL_disabledFeature_constructor :: u32 where
  "TL_disabledFeature_constructor = 0xae636f24"

definition TL_disabledFeature_readParams :: "TL_disabledFeature \<Rightarrow> istream \<Rightarrow> (TL_disabledFeature \<times> istream) option" where
  "TL_disabledFeature_readParams x s = do {
     (v, s) \<leftarrow> readString s;
     let x = x\<lparr>TL_disabledFeature_feature := v\<rparr>;
     (v, s) \<leftarrow> readString s;
     let x = x\<lparr>TL_disabledFeature_description := v\<rparr>;
     Some (x, s)
   }"

definition TL_disabledFeature_serializeToStream :: "TL_disabledFeature \<Rightarrow> NativeByteBuffer \<Rightarrow> NativeByteBuffer option" where
  "TL_disabledFeature_serializeToStream x b = do {
     b \<leftarrow> writeInt32 TL_disabledFeature_constructor b;
     b \<leftarrow> writeString (TL_disabledFeature_feature x) b;
     b \<leftarrow> writeString (TL_disabledFeature_description x) b;
     Some b
   }"

definition TL_disabledFeature_TLdeserialize :: "u32 \<Rightarrow> istream \<Rightarrow> (TL_disabledFeature option \<times> istream) option" where
  "TL_disabledFeature_TLdeserialize constructor s =
     (if TL_disabledFeature_constructor \<noteq> constructor then Some (None, fail s)
      else do { (x, s) \<leftarrow> TL_disabledFeature_readParams TL_disabledFeature_new s; Some (Some x, s) })"

record TL_cdnPublicKey =
  TL_cdnPublicKey_dc_id :: u32
  TL_cdnPublicKey_public_key :: "byte list"

definition TL_cdnPublicKey_new :: TL_cdnPublicKey where
  "TL_cdnPublicKey_new = \<lparr>TL_cdnPublicKey_dc_id = 0, TL_cdnPublicKey_public_key = []\<rparr>"

definition TL_cdnPublicKey_constructor :: u32 where
  "TL_cdnPublicKey_constructor = 0xc982eaba"

definition TL_cdnPublicKey_readParams :: "TL_cdnPublicKey \<Rightarrow> istream \<Rightarrow> (TL_cdnPublicKey \<times> istream) option" where
  "TL_cdnPublicKey_readParams x s = do {
     (v, s) \<leftarrow> readInt32 s;
     let x = x\<lparr>TL_cdnPublicKey_dc_id := v\<rparr>;
     (v, s) \<leftarrow> readString s;
     let x = x\<lparr>TL_cdnPublicKey_public_key := v\<rparr>;
     Some (x, s)
   }"

definition TL_cdnPublicKey_serializeToStream :: "TL_cdnPublicKey \<Rightarrow> NativeByteBuffer \<Rightarrow> NativeByteBuffer option" where
  "TL_cdnPublicKey_serializeToStream x b = do {
     b \<leftarrow> writeInt32 TL_cdnPublicKey_constructor b;
     b \<leftarrow> writeInt32 (TL_cdnPublicKey_dc_id x) b;
     b \<leftarrow> writeString (TL_cdnPublicKey_public_key x) b;
     Some b
   }"

definition TL_cdnPublicKey_TLdeserialize :: "u32 \<Rightarrow> istream \<Rightarrow> (TL_cdnPublicKey option \<times> istream) option" where
  "TL_cdnPublicKey_TLdeserialize constructor s =
     (if TL_cdnPublicKey_constructor \<noteq> constructor then Some (None, fail s)
      else do { (x, s) \<leftarrow> TL_cdnPublicKey_readParams TL_cdnPublicKey_new s; Some (Some x, s) })"

record TL_cdnConfig =
  TL_cdnConfig_public_keys :: "TL_cdnPublicKey list"

definition TL_cdnConfig_new :: TL_cdnConfig where
  "TL_cdnConfig_new = \<lparr>TL_cdnConfig_public_keys = []\<rparr>"

definition TL_cdnConfig_constructor :: u32 where
  "TL_cdnConfig_constructor = 0x5725e40a"

definition TL_cdnConfig_readParams :: "TL_cdnConfig \<Rightarrow> istream \<Rightarrow> (TL_cdnConfig \<times> istream) option" where
  "TL_cdnConfig_readParams x s = do {
     (magic, s) \<leftarrow> readUint32 s;
     if magic \<noteq> 0x1cb5c415 then Some (x, fail s)
     else do {
     (count, s) \<leftarrow> readInt32 s;
     ((v, r), s) \<leftarrow> read_until_null (nat (sint count)) (read_object TL_cdnPublicKey_TLdeserialize) s;
     let x = x\<lparr>TL_cdnConfig_public_keys := TL_cdnConfig_public_keys x @ v\<rparr>;
     Some (x, s)
   }}"

definition TL_cdnConfig_serializeToStream :: "TL_cdnConfig \<Rightarrow> NativeByteBuffer \<Rightarrow> NativeByteBuffer option" where
  "TL_cdnConfig_serializeToStream x b = do {
     b \<leftarrow> writeInt32 TL_cdnConfig_constructor b;
     b \<leftarrow> writeInt32 0x1cb5c415 b;
     b \<leftarrow> write_vector_signed TL_cdnPublicKey_serializeToStream (TL_cdnConfig_public_keys x) b;
     Some b
   }"

definition TL_cdnConfig_TLdeserialize :: "u32 \<Rightarrow> istream \<Rightarrow> (TL_cdnConfig option \<times> istream) option" where
  "TL_cdnConfig_TLdeserialize constructor s =
     (if TL_cdnConfig_constructor \<noteq> constructor then Some (None, fail s)
      else do { (x, s) \<leftarrow> TL_cdnConfig_readParams TL_cdnConfig_new s; Some (Some x, s) })"

definition TL_help_getCdnConfig_constructor :: u32 where
  "TL_help_getCdnConfig_constructor = 0x52029342"

definition TL_help_getCdnConfig_serializeToStream :: "NativeByteBuffer \<Rightarrow> NativeByteBuffer option" where
  "TL_help_getCdnConfig_serializeToStream b = do {
     b \<leftarrow> writeInt32 TL_help_getCdnConfig_constructor b;
     Some b
   }"

record TL_config =
  TL_config_flags :: u32
  TL_config_phonecalls_enabled :: bool
  TL_config_default_p2p_contacts :: bool
  TL_config_preload_featured_stickers :: bool
  TL_config_ignore_phone_entities :: bool
  TL_config_revoke_pm_inbox :: bool
  TL_config_blocked_mode :: bool
  TL_config_pfs_enabled :: bool
  TL_config_date :: u32
  TL_config_expires :: u32
  TL_config_test_mode :: bool
  TL_config_this_dc :: u32
  TL_config_dc_options :: "TL_dcOption list"
  TL_config_dc_txt_domain_name :: "byte list"
  TL_config_chat_size_max :: u32
  TL_config_megagroup_size_max :: u32
  TL_config_forwarded_count_max :: u32
  TL_config_online_update_period_ms :: u32
  TL_config_offline_blur_timeout_ms :: u32
  TL_config_offline_idle_timeout_ms :: u32
  TL_config_online_cloud_timeout_ms :: u32
  TL_config_notify_cloud_delay_ms :: u32
  TL_config_notify_default_delay_ms :: u32
  TL_config_push_chat_period_ms :: u32
  TL_config_push_chat_limit :: u32
  TL_config_saved_gifs_limit :: u32
  TL_config_edit_time_limit :: u32
  TL_config_revoke_time_limit :: u32
  TL_config_revoke_pm_time_limit :: u32
  TL_config_rating_e_decay :: u32
  TL_config_stickers_recent_limit :: u32
  TL_config_stickers_faved_limit :: u32
  TL_config_channels_read_media_period :: u32
  TL_config_tmp_sessions :: u32
  TL_config_pinned_dialogs_count_max :: u32
  TL_config_pinned_infolder_count_max :: u32
  TL_config_call_receive_timeout_ms :: u32
  TL_config_call_ring_timeout_ms :: u32
  TL_config_call_connect_timeout_ms :: u32
  TL_config_call_packet_timeout_ms :: u32
  TL_config_me_url_prefix :: "byte list"
  TL_config_autoupdate_url_prefix :: "byte list"
  TL_config_gif_search_username :: "byte list"
  TL_config_venue_search_username :: "byte list"
  TL_config_img_search_username :: "byte list"
  TL_config_static_maps_provider :: "byte list"
  TL_config_caption_length_max :: u32
  TL_config_message_length_max :: u32
  TL_config_webfile_dc_id :: u32
  TL_config_suggested_lang_code :: "byte list"
  TL_config_lang_pack_version :: u32
  TL_config_base_lang_pack_version :: u32
  TL_config_disabled_features :: "TL_disabledFeature list"

definition TL_config_new :: TL_config where
  "TL_config_new = \<lparr>TL_config_flags = 0, TL_config_phonecalls_enabled = False, TL_config_default_p2p_contacts = False, TL_config_preload_featured_stickers = False, TL_config_ignore_phone_entities = False, TL_config_revoke_pm_inbox = False, TL_config_blocked_mode = False, TL_config_pfs_enabled = False, TL_config_date = 0, TL_config_expires = 0, TL_config_test_mode = False, TL_config_this_dc = 0, TL_config_dc_options = [], TL_config_dc_txt_domain_name = [], TL_config_chat_size_max = 0, TL_config_megagroup_size_max = 0, TL_config_forwarded_count_max = 0, TL_config_online_update_period_ms = 0, TL_config_offline_blur_timeout_ms = 0, TL_config_offline_idle_timeout_ms = 0, TL_config_online_cloud_timeout_ms = 0, TL_config_notify_cloud_delay_ms = 0, TL_config_notify_default_delay_ms = 0, TL_config_push_chat_period_ms = 0, TL_config_push_chat_limit = 0, TL_config_saved_gifs_limit = 0, TL_config_edit_time_limit = 0, TL_config_revoke_time_limit = 0, TL_config_revoke_pm_time_limit = 0, TL_config_rating_e_decay = 0, TL_config_stickers_recent_limit = 0, TL_config_stickers_faved_limit = 0, TL_config_channels_read_media_period = 0, TL_config_tmp_sessions = 0, TL_config_pinned_dialogs_count_max = 0, TL_config_pinned_infolder_count_max = 0, TL_config_call_receive_timeout_ms = 0, TL_config_call_ring_timeout_ms = 0, TL_config_call_connect_timeout_ms = 0, TL_config_call_packet_timeout_ms = 0, TL_config_me_url_prefix = [], TL_config_autoupdate_url_prefix = [], TL_config_gif_search_username = [], TL_config_venue_search_username = [], TL_config_img_search_username = [], TL_config_static_maps_provider = [], TL_config_caption_length_max = 0, TL_config_message_length_max = 0, TL_config_webfile_dc_id = 0, TL_config_suggested_lang_code = [], TL_config_lang_pack_version = 0, TL_config_base_lang_pack_version = 0, TL_config_disabled_features = []\<rparr>"

definition TL_config_constructor :: u32 where
  "TL_config_constructor = 0x5c5168f0"

definition TL_config_readParams :: "TL_config \<Rightarrow> istream \<Rightarrow> (TL_config \<times> istream) option" where
  "TL_config_readParams x s = do {
     (flags, s) \<leftarrow> readInt32 s;
     let x = x\<lparr>TL_config_flags := flags\<rparr>;
     (v, s) \<leftarrow> readInt32 s;
     let x = x\<lparr>TL_config_date := v\<rparr>;
     (v, s) \<leftarrow> readInt32 s;
     let x = x\<lparr>TL_config_expires := v\<rparr>;
     (v, s) \<leftarrow> readBool s;
     let x = x\<lparr>TL_config_test_mode := v\<rparr>;
     (v, s) \<leftarrow> readInt32 s;
     let x = x\<lparr>TL_config_this_dc := v\<rparr>;
     (magic, s) \<leftarrow> readUint32 s;
     if magic \<noteq> 0x1cb5c415 then Some (x, fail s)
     else do {
     (count, s) \<leftarrow> readInt32 s;
     ((v, r), s) \<leftarrow> read_until_null (nat (sint count)) (read_object TL_dcOption_TLdeserialize) s;
     let x = x\<lparr>TL_config_dc_options := TL_config_dc_options x @ v\<rparr>;
     if r then Some (x, s)
     else do {
     (v, s) \<leftarrow> readString s;
     let x = x\<lparr>TL_config_dc_txt_domain_name := v\<rparr>;
     (v, s) \<leftarrow> readInt32 s;
     let x = x\<lparr>TL_config_chat_size_max := v\<rparr>;
     (v, s) \<leftarrow> readInt32 s;
     let x = x\<lparr>TL_config_megagroup_size_max := v\<rparr>;
     (v, s) \<leftarrow> readInt32 s;
     let x = x\<lparr>TL_config_forwarded_count_max := v\<rparr>;
     (v, s) \<leftarrow> readInt32 s;
     let x = x\<lparr>TL_config_online_update_period_ms := v\<rparr>;
     (v, s) \<leftarrow> readInt32 s;
     let x = x\<lparr>TL_config_offline_blur_timeout_ms := v\<rparr>;
     (v, s) \<leftarrow> readInt32 s;
     let x = x\<lparr>TL_config_offline_idle_timeout_ms := v\<rparr>;
     (v, s) \<leftarrow> readInt32 s;
     let x = x\<lparr>TL_config_online_cloud_timeout_ms := v\<rparr>;
     (v, s) \<leftarrow> readInt32 s;
     let x = x\<lparr>TL_config_notify_cloud_delay_ms := v\<rparr>;
     (v, s) \<leftarrow> readInt32 s;
     let x = x\<lparr>TL_config_notify_default_delay_ms := v\<rparr>;
     (v, s) \<leftarrow> readInt32 s;
     let x = x\<lparr>TL_config_push_chat_period_ms := v\<rparr>;
     (v, s) \<leftarrow> readInt32 s;
     let x = x\<lparr>TL_config_push_chat_limit := v\<rparr>;
     (v, s) \<leftarrow> readInt32 s;
     let x = x\<lparr>TL_config_saved_gifs_limit := v\<rparr>;
     (v, s) \<leftarrow> readInt32 s;
     let x = x\<lparr>TL_config_edit_time_limit := v\<rparr>;
     (v, s) \<leftarrow> readInt32 s;
     let x = x\<lparr>TL_config_revoke_time_limit := v\<rparr>;
     (v, s) \<leftarrow> readInt32 s;
     let x = x\<lparr>TL_config_revoke_pm_time_limit := v\<rparr>;
     (v, s) \<leftarrow> readInt32 s;
     let x = x\<lparr>TL_config_rating_e_decay := v\<rparr>;
     (v, s) \<leftarrow> readInt32 s;
     let x = x\<lparr>TL_config_stickers_recent_limit := v\<rparr>;
     (v, s) \<leftarrow> readInt32 s;
     let x = x\<lparr>TL_config_stickers_faved_limit := v\<rparr>;
     (v, s) \<leftarrow> readInt32 s;
     let x = x\<lparr>TL_config_channels_read_media_period := v\<rparr>;
     (v, s) \<leftarrow> read_if (flags AND 1 \<noteq> 0) readInt32 (TL_config_tmp_sessions x) s;
     let x = x\<lparr>TL_config_tmp_sessions := v\<rparr>;
     (v, s) \<leftarrow> readInt32 s;
     let x = x\<lparr>TL_config_pinned_dialogs_count_max := v\<rparr>;
     (v, s) \<leftarrow> readInt32 s;
     let x = x\<lparr>TL_config_pinned_infolder_count_max := v\<rparr>;
     (v, s) \<leftarrow> readInt32 s;
     let x = x\<lparr>TL_config_call_receive_timeout_ms := v\<rparr>;
     (v, s) \<leftarrow> readInt32 s;
     let x = x\<lparr>TL_config_call_ring_timeout_ms := v\<rparr>;
     (v, s) \<leftarrow> readInt32 s;
     let x = x\<lparr>TL_config_call_connect_timeout_ms := v\<rparr>;
     (v, s) \<leftarrow> readInt32 s;
     let x = x\<lparr>TL_config_call_packet_timeout_ms := v\<rparr>;
     (v, s) \<leftarrow> readString s;
     let x = x\<lparr>TL_config_me_url_prefix := v\<rparr>;
     (v, s) \<leftarrow> read_if (flags AND 128 \<noteq> 0) readString (TL_config_autoupdate_url_prefix x) s;
     let x = x\<lparr>TL_config_autoupdate_url_prefix := v\<rparr>;
     (v, s) \<leftarrow> read_if (flags AND 512 \<noteq> 0) readString (TL_config_gif_search_username x) s;
     let x = x\<lparr>TL_config_gif_search_username := v\<rparr>;
     (v, s) \<leftarrow> read_if (flags AND 1024 \<noteq> 0) readString (TL_config_venue_search_username x) s;
     let x = x\<lparr>TL_config_venue_search_username := v\<rparr>;
     (v, s) \<leftarrow> read_if (flags AND 2048 \<noteq> 0) readString (TL_config_img_search_username x) s;
     let x = x\<lparr>TL_config_img_search_username := v\<rparr>;
     (v, s) \<leftarrow> read_if (flags AND 4096 \<noteq> 0) readString (TL_config_static_maps_provider x) s;
     let x = x\<lparr>TL_config_static_maps_provider := v\<rparr>;
     (v, s) \<leftarrow> readInt32 s;
     let x = x\<lparr>TL_config_caption_length_max := v\<rparr>;
     (v, s) \<leftarrow> readInt32 s;
     let x = x\<lparr>TL_config_message_length_max := v\<rparr>;
     (v, s) \<leftarrow> readInt32 s;
     let x = x\<lparr>TL_config_webfile_dc_id := v\<rparr>;
     (v, s) \<leftarrow> read_if (flags AND 4 \<noteq> 0) readString (TL_config_suggested_lang_code x) s;
     let x = x\<lparr>TL_config_suggested_lang_code := v\<rparr>;
     (v, s) \<leftarrow> read_if (flags AND 4 \<noteq> 0) readInt32 (TL_config_lang_pack_version x) s;
     let x = x\<lparr>TL_config_lang_pack_version := v\<rparr>;
     (v, s) \<leftarrow> read_if (flags AND 4 \<noteq> 0) readInt32 (TL_config_base_lang_pack_version x) s;
     let x = x\<lparr>TL_config_base_lang_pack_version := v\<rparr>;
     (magic, s) \<leftarrow> readUint32 s;
     if magic \<noteq> 0x1cb5c415 then Some (x, fail s)
     else do {
     (count, s) \<leftarrow> readInt32 s;
     ((v, r), s) \<leftarrow> read_until_null (nat (sint count)) (read_object TL_disabledFeature_TLdeserialize) s;
     let x = x\<lparr>TL_config_disabled_features := TL_config_disabled_features x @ v\<rparr>;
     Some (x, s)
   }}}}"

definition TL_config_serializeToStream :: "TL_config \<Rightarrow> NativeByteBuffer \<Rightarrow> NativeByteBuffer option" where
  "TL_config_serializeToStream x b = do {
     b \<leftarrow> writeInt32 TL_config_constructor b;
     b \<leftarrow> writeInt32 (TL_config_flags x) b;
     b \<leftarrow> writeInt32 (TL_config_date x) b;
     b \<leftarrow> writeInt32 (TL_config_expires x) b;
     b \<leftarrow> writeBool (TL_config_test_mode x) b;
     b \<leftarrow> writeInt32 (TL_config_this_dc x) b;
     b \<leftarrow> writeInt32 0x1cb5c415 b;
     b \<leftarrow> write_vector TL_dcOption_serializeToStream (TL_config_dc_options x) b;
     b \<leftarrow> writeString (TL_config_dc_txt_domain_name x) b;
     b \<leftarrow> writeInt32 (TL_config_chat_size_max x) b;
     b \<leftarrow> writeInt32 (TL_config_megagroup_size_max x) b;
     b \<leftarrow> writeInt32 (TL_config_forwarded_count_max x) b;
     b \<leftarrow> writeInt32 (TL_config_online_update_period_ms x) b;
     b \<leftarrow> writeInt32 (TL_config_offline_blur_timeout_ms x) b;
     b \<leftarrow> writeInt32 (TL_config_offline_idle_timeout_ms x) b;
     b \<leftarrow> writeInt32 (TL_config_online_cloud_timeout_ms x) b;
     b \<leftarrow> writeInt32 (TL_config_notify_cloud_delay_ms x) b;
     b \<leftarrow> writeInt32 (TL_config_notify_default_delay_ms x) b;
     b \<leftarrow> writeInt32 (TL_config_push_chat_period_ms x) b;
     b \<leftarrow> writeInt32 (TL_config_push_chat_limit x) b;
     b \<leftarrow> writeInt32 (TL_config_saved_gifs_limit x) b;
     b \<leftarrow> writeInt32 (TL_config_edit_time_limit x) b;
     b \<leftarrow> writeInt32 (TL_config_revoke_time_limit x) b;
     b \<leftarrow> writeInt32 (TL_config_revoke_pm_time_limit x) b;
     b \<leftarrow> writeInt32 (TL_config_rating_e_decay x) b;
     b \<leftarrow> writeInt32 (TL_config_stickers_recent_limit x) b;
     b \<leftarrow> writeInt32 (TL_config_stickers_faved_limit x) b;
     b \<leftarrow> writeInt32 (TL_config_channels_read_media_period x) b;
     b \<leftarrow> (if TL_config_flags x AND 1 \<noteq> 0 then writeInt32 (TL_config_tmp_sessions x) b else Some b);
     b \<leftarrow> writeInt32 (TL_config_pinned_dialogs_count_max x) b;
     b \<leftarrow> writeInt32 (TL_config_pinned_infolder_count_max x) b;
     b \<leftarrow> writeInt32 (TL_config_call_receive_timeout_ms x) b;
     b \<leftarrow> writeInt32 (TL_config_call_ring_timeout_ms x) b;
     b \<leftarrow> writeInt32 (TL_config_call_connect_timeout_ms x) b;
     b \<leftarrow> writeInt32 (TL_config_call_packet_timeout_ms x) b;
     b \<leftarrow> writeString (TL_config_me_url_prefix x) b;
     b \<leftarrow> (if TL_config_flags x AND 128 \<noteq> 0 then writeString (TL_config_autoupdate_url_prefix x) b else Some b);
     b \<leftarrow> (if TL_config_flags x AND 512 \<noteq> 0 then writeString (TL_config_gif_search_username x) b else Some b);
     b \<leftarrow> (if TL_config_flags x AND 1024 \<noteq> 0 then writeString (TL_config_venue_search_username x) b else Some b);
     b \<leftarrow> (if TL_config_flags x AND 2048 \<noteq> 0 then writeString (TL_config_img_search_username x) b else Some b);
     b \<leftarrow> (if TL_config_flags x AND 4096 \<noteq> 0 then writeString (TL_config_static_maps_provider x) b else Some b);
     b \<leftarrow> writeInt32 (TL_config_caption_length_max x) b;
     b \<leftarrow> writeInt32 (TL_config_message_length_max x) b;
     b \<leftarrow> writeInt32 (TL_config_webfile_dc_id x) b;
     b \<leftarrow> (if TL_config_flags x AND 4 \<noteq> 0 then writeString (TL_config_suggested_lang_code x) b else Some b);
     b \<leftarrow> (if TL_config_flags x AND 4 \<noteq> 0 then writeInt32 (TL_config_lang_pack_version x) b else Some b);
     b \<leftarrow> (if TL_config_flags x AND 4 \<noteq> 0 then writeInt32 (TL_config_base_lang_pack_version x) b else Some b);
     b \<leftarrow> writeInt32 0x1cb5c415 b;
     b \<leftarrow> write_vector TL_disabledFeature_serializeToStream (TL_config_disabled_features x) b;
     Some b
   }"

definition TL_config_TLdeserialize :: "u32 \<Rightarrow> istream \<Rightarrow> (TL_config option \<times> istream) option" where
  "TL_config_TLdeserialize constructor s =
     (if TL_config_constructor \<noteq> constructor then Some (None, fail s)
      else do { (x, s) \<leftarrow> TL_config_readParams TL_config_new s; Some (Some x, s) })"

definition TL_help_getConfig_constructor :: u32 where
  "TL_help_getConfig_constructor = 0xc4f9186b"

definition TL_help_getConfig_serializeToStream :: "NativeByteBuffer \<Rightarrow> NativeByteBuffer option" where
  "TL_help_getConfig_serializeToStream b = do {
     b \<leftarrow> writeInt32 TL_help_getConfig_constructor b;
     Some b
   }"

record UserStatus_fields =
  UserStatus_expires :: u32

definition UserStatus_fields_new :: UserStatus_fields where
  "UserStatus_fields_new = \<lparr>UserStatus_expires = 0\<rparr>"

datatype UserStatus =
    TL_userStatusOffline UserStatus_fields
  | TL_userStatusLastWeek UserStatus_fields
  | TL_userStatusEmpty UserStatus_fields
  | TL_userStatusLastMonth UserStatus_fields
  | TL_userStatusOnline UserStatus_fields
  | TL_userStatusRecently UserStatus_fields

definition TL_userStatusOffline_constructor :: u32 where
  "TL_userStatusOffline_constructor = 0x8c703f"

definition TL_userStatusOffline_readParams :: "UserStatus_fields \<Rightarrow> istream \<Rightarrow> (UserStatus_fields \<times> istream) option" where
  "TL_userStatusOffline_readParams x s = do {
     (v, s) \<leftarrow> readInt32 s;
     let x = x\<lparr>UserStatus_expires := v\<rparr>;
     Some (x, s)
   }"

definition TL_userStatusOffline_serializeToStream :: "UserStatus_fields \<Rightarrow> NativeByteBuffer \<Rightarrow> NativeByteBuffer option" where
  "TL_userStatusOffline_serializeToStream x b = do {
     b \<leftarrow> writeInt32 TL_userStatusOffline_constructor b;
     b \<leftarrow> writeInt32 (UserStatus_expires x) b;
     Some b
   }"

definition TL_userStatusLastWeek_constructor :: u32 where
  "TL_userStatusLastWeek_constructor = 0x7bf09fc"

definition TL_userStatusLastWeek_serializeToStream :: "UserStatus_fields \<Rightarrow> NativeByteBuffer \<Rightarrow> NativeByteBuffer option" where
  "TL_userStatusLastWeek_serializeToStream x b = do {
     b \<leftarrow> writeInt32 TL_userStatusLastWeek_constructor b;
     Some b
   }"

definition TL_userStatusEmpty_constructor :: u32 where
  "TL_userStatusEmpty_constructor = 0x9d05049"

definition TL_userStatusEmpty_serializeToStream :: "UserStatus_fields \<Rightarrow> NativeByteBuffer \<Rightarrow> NativeByteBuffer option" where
  "TL_userStatusEmpty_serializeToStream x b = do {
     b \<leftarrow> writeInt32 TL_userStatusEmpty_constructor b;
     Some b
   }"

definition TL_userStatusLastMonth_constructor :: u32 where
  "TL_userStatusLastMonth_constructor = 0x77ebc742"

definition TL_userStatusLastMonth_serializeToStream :: "UserStatus_fields \<Rightarrow> NativeByteBuffer \<Rightarrow> NativeByteBuffer option" where
  "TL_userStatusLastMonth_serializeToStream x b = do {
     b \<leftarrow> writeInt32 TL_userStatusLastMonth_constructor b;
     Some b
   }"

definition TL_userStatusOnline_constructor :: u32 where
  "TL_userStatusOnline_constructor = 0xedb93949"

definition TL_userStatusOnline_readParams :: "UserStatus_fields \<Rightarrow> istream \<Rightarrow> (UserStatus_fields \<times> istream) option" where
  "TL_userStatusOnline_readParams x s = do {
     (v, s) \<leftarrow> readInt32 s;
     let x = x\<lparr>UserStatus_expires := v\<rparr>;
     Some (x, s)
   }"

definition TL_userStatusOnline_serializeToStream :: "UserStatus_fields \<Rightarrow> NativeByteBuffer \<Rightarrow> NativeByteBuffer option" where
  "TL_userStatusOnline_serializeToStream x b = do {
     b \<leftarrow> writeInt32 TL_userStatusOnline_constructor b;
     b \<leftarrow> writeInt32 (UserStatus_expires x) b;
     Some b
   }"

definition TL_userStatusRecently_constructor :: u32 where
  "TL_userStatusRecently_constructor = 0xe26f42f1"

definition TL_userStatusRecently_serializeToStream :: "UserStatus_fields \<Rightarrow> NativeByteBuffer \<Rightarrow> NativeByteBuffer option" where
  "TL_userStatusRecently_serializeToStream x b = do {
     b \<leftarrow> writeInt32 TL_userStatusRecently_constructor b;
     Some b
   }"

definition UserStatus_TLdeserialize :: "u32 \<Rightarrow> istream \<Rightarrow> (UserStatus option \<times> istream) option" where
  "UserStatus_TLdeserialize constructor s =
     (if constructor = 0x8c703f then do { (x, s) \<leftarrow> TL_userStatusOffline_readParams UserStatus_fields_new s; Some (Some (TL_userStatusOffline x), s) }
      else if constructor = 0x7bf09fc then Some (Some (TL_userStatusLastWeek UserStatus_fields_new), s)
      else if constructor = 0x9d05049 then Some (Some (TL_userStatusEmpty UserStatus_fields_new), s)
      else if constructor = 0x77ebc742 then Some (Some (TL_userStatusLastMonth UserStatus_fields_new), s)
      else if constructor = 0xedb93949 then do { (x, s) \<leftarrow> TL_userStatusOnline_readParams UserStatus_fields_new s; Some (Some (TL_userStatusOnline x), s) }
      else if constructor = 0xe26f42f1 then Some (Some (TL_userStatusRecently UserStatus_fields_new), s)
      else Some (None, fail s))"

fun UserStatus_serializeToStream :: "UserStatus \<Rightarrow> NativeByteBuffer \<Rightarrow> NativeByteBuffer option" where
  "UserStatus_serializeToStream (TL_userStatusOffline x) = TL_userStatusOffline_serializeToStream x"
| "UserStatus_serializeToStream (TL_userStatusLastWeek x) = TL_userStatusLastWeek_serializeToStream x"
| "UserStatus_serializeToStream (TL_userStatusEmpty x) = TL_userStatusEmpty_serializeToStream x"
| "UserStatus_serializeToStream (TL_userStatusLastMonth x) = TL_userStatusLastMonth_serializeToStream x"
| "UserStatus_serializeToStream (TL_userStatusOnline x) = TL_userStatusOnline_serializeToStream x"
| "UserStatus_serializeToStream (TL_userStatusRecently x) = TL_userStatusRecently_serializeToStream x"

record FileLocation_fields =
  FileLocation_dc_id :: u32
  FileLocation_volume_id :: ulong
  FileLocation_local_id :: u32
  FileLocation_secret :: ulong
  FileLocation_key :: "byte list option"
  FileLocation_iv :: "byte list option"

definition FileLocation_fields_new :: FileLocation_fields where
  "FileLocation_fields_new = \<lparr>FileLocation_dc_id = 0, FileLocation_volume_id = 0, FileLocation_local_id = 0, FileLocation_secret = 0, FileLocation_key = None, FileLocation_iv = None\<rparr>"

datatype FileLocation =
    TL_fileLocation FileLocation_fields
  | TL_fileEncryptedLocation FileLocation_fields
  | TL_fileLocationUnavailable FileLocation_fields

definition TL_fileLocation_constructor :: u32 where
  "TL_fileLocation_constructor = 0x53d69076"

definition TL_fileLocation_readParams :: "FileLocation_fields \<Rightarrow> istream \<Rightarrow> (FileLocation_fields \<times> istream) option" where
  "TL_fileLocation_readParams x s = do {
     (v, s) \<leftarrow> readInt32 s;
     let x = x\<lparr>FileLocation_dc_id := v\<rparr>;
     (v, s) \<leftarrow> readInt64 s;
     let x = x\<lparr>FileLocation_volume_id := v\<rparr>;
     (v, s) \<leftarrow> readInt32 s;
     let x = x\<lparr>FileLocation_local_id := v\<rparr>;
     (v, s) \<leftarrow> readInt64 s;
     let x = x\<lparr>FileLocation_secret := v\<rparr>;
     Some (x, s)
   }"

definition TL_fileLocation_serializeToStream :: "FileLocation_fields \<Rightarrow> NativeByteBuffer \<Rightarrow> NativeByteBuffer option" where
  "TL_fileLocation_serializeToStream x b = do {
     b \<leftarrow> writeInt32 TL_fileLocation_constructor b;
     b \<leftarrow> writeInt32 (FileLocation_dc_id x) b;
     b \<leftarrow> writeInt64 (FileLocation_volume_id x) b;
     b \<leftarrow> writeInt32 (FileLocation_local_id x) b;
     b \<leftarrow> writeInt64 (FileLocation_secret x) b;
     Some b
   }"

definition TL_fileEncryptedLocation_constructor :: u32 where
  "TL_fileEncryptedLocation_constructor = 0x55555554"

definition TL_fileEncryptedLocation_readParams :: "FileLocation_fields \<Rightarrow> istream \<Rightarrow> (FileLocation_fields \<times> istream) option" where
  "TL_fileEncryptedLocation_readParams x s = do {
     (v, s) \<leftarrow> readInt32 s;
     let x = x\<lparr>FileLocation_dc_id := v\<rparr>;
     (v, s) \<leftarrow> readInt64 s;
     let x = x\<lparr>FileLocation_volume_id := v\<rparr>;
     (v, s) \<leftarrow> readInt32 s;
     let x = x\<lparr>FileLocation_local_id := v\<rparr>;
     (v, s) \<leftarrow> readInt64 s;
     let x = x\<lparr>FileLocation_secret := v\<rparr>;
     (v, s) \<leftarrow> readByteArray s;
     let x = x\<lparr>FileLocation_key := v\<rparr>;
     (v, s) \<leftarrow> readByteArray s;
     let x = x\<lparr>FileLocation_iv := v\<rparr>;
     Some (x, s)
   }"

definition TL_fileEncryptedLocation_serializeToStream :: "FileLocation_fields \<Rightarrow> NativeByteBuffer \<Rightarrow> NativeByteBuffer option" where
  "TL_fileEncryptedLocation_serializeToStream x b = do {
     b \<leftarrow> writeInt32 TL_fileEncryptedLocation_constructor b;
     b \<leftarrow> writeInt32 (FileLocation_dc_id x) b;
     b \<leftarrow> writeInt64 (FileLocation_volume_id x) b;
     b \<leftarrow> writeInt32 (FileLocation_local_id x) b;
     b \<leftarrow> writeInt64 (FileLocation_secret x) b;
     b \<leftarrow> writeByteArray_array (FileLocation_key x) b;
     b \<leftarrow> writeByteArray_array (FileLocation_iv x) b;
     Some b
   }"

definition TL_fileLocationUnavailable_constructor :: u32 where
  "TL_fileLocationUnavailable_constructor = 0x7c596b46"

definition TL_fileLocationUnavailable_readParams :: "FileLocation_fields \<Rightarrow> istream \<Rightarrow> (FileLocation_fields \<times> istream) option" where
  "TL_fileLocationUnavailable_readParams x s = do {
     (v, s) \<leftarrow> readInt64 s;
     let x = x\<lparr>FileLocation_volume_id := v\<rparr>;
     (v, s) \<leftarrow> readInt32 s;
     let x = x\<lparr>FileLocation_local_id := v\<rparr>;
     (v, s) \<leftarrow> readInt64 s;
     let x = x\<lparr>FileLocation_secret := v\<rparr>;
     Some (x, s)
   }"

definition TL_fileLocationUnavailable_serializeToStream :: "FileLocation_fields \<Rightarrow> NativeByteBuffer \<Rightarrow> NativeByteBuffer option" where
  "TL_fileLocationUnavailable_serializeToStream x b = do {
     b \<leftarrow> writeInt32 TL_fileLocationUnavailable_constructor b;
     b \<leftarrow> writeInt64 (FileLocation_volume_id x) b;
     b \<leftarrow> writeInt32 (FileLocation_local_id x) b;
     b \<leftarrow> writeInt64 (FileLocation_secret x) b;
     Some b
   }"

definition FileLocation_TLdeserialize :: "u32 \<Rightarrow> istream \<Rightarrow> (FileLocation option \<times> istream) option" where
  "FileLocation_TLdeserialize constructor s =
     (if constructor = 0x53d69076 then do { (x, s) \<leftarrow> TL_fileLocation_readParams FileLocation_fields_new s; Some (Some (TL_fileLocation x), s) }
      else if constructor = 0x7c596b46 then do { (x, s) \<leftarrow> TL_fileLocationUnavailable_readParams FileLocation_fields_new s; Some (Some (TL_fileLocationUnavailable x), s) }
      else if constructor = 0x55555554 then do { (x, s) \<leftarrow> TL_fileEncryptedLocation_readParams FileLocation_fields_new s; Some (Some (TL_fileEncryptedLocation x), s) }
      else Some (None, fail s))"

fun FileLocation_serializeToStream :: "FileLocation \<Rightarrow> NativeByteBuffer \<Rightarrow> NativeByteBuffer option" where
  "FileLocation_serializeToStream (TL_fileLocation x) = TL_fileLocation_serializeToStream x"
| "FileLocation_serializeToStream (TL_fileEncryptedLocation x) = TL_fileEncryptedLocation_serializeToStream x"
| "FileLocation_serializeToStream (TL_fileLocationUnavailable x) = TL_fileLocationUnavailable_serializeToStream x"

record UserProfilePhoto_fields =
  UserProfilePhoto_photo_id :: ulong
  UserProfilePhoto_photo_small :: "FileLocation option"
  UserProfilePhoto_photo_big :: "FileLocation option"

definition UserProfilePhoto_fields_new :: UserProfilePhoto_fields where
  "UserProfilePhoto_fields_new = \<lparr>UserProfilePhoto_photo_id = 0, UserProfilePhoto_photo_small = None, UserProfilePhoto_photo_big = None\<rparr>"

datatype UserProfilePhoto =
    TL_userProfilePhotoEmpty UserProfilePhoto_fields
  | TL_userProfilePhoto UserProfilePhoto_fields

definition TL_userProfilePhotoEmpty_constructor :: u32 where
  "TL_userProfilePhotoEmpty_constructor = 0x4f11bae1"

definition TL_userProfilePhotoEmpty_serializeToStream :: "UserProfilePhoto_fields \<Rightarrow> NativeByteBuffer \<Rightarrow> NativeByteBuffer option" where
  "TL_userProfilePhotoEmpty_serializeToStream x b = do {
     b \<leftarrow> writeInt32 TL_userProfilePhotoEmpty_constructor b;
     Some b
   }"

definition TL_userProfilePhoto_constructor :: u32 where
  "TL_userProfilePhoto_constructor = 0xd559d8c8"

definition TL_userProfilePhoto_readParams :: "UserProfilePhoto_fields \<Rightarrow> istream \<Rightarrow> (UserProfilePhoto_fields \<times> istream) option" where
  "TL_userProfilePhoto_readParams x s = do {
     (v, s) \<leftarrow> readInt64 s;
     let x = x\<lparr>UserProfilePhoto_photo_id := v\<rparr>;
     (v, s) \<leftarrow> read_object FileLocation_TLdeserialize s;
     let x = x\<lparr>UserProfilePhoto_photo_small := v\<rparr>;
     (v, s) \<leftarrow> read_object FileLocation_TLdeserialize s;
     let x = x\<lparr>UserProfilePhoto_photo_big := v\<rparr>;
     Some (x, s)
   }"

definition TL_userProfilePhoto_serializeToStream :: "UserProfilePhoto_fields \<Rightarrow> NativeByteBuffer \<Rightarrow> NativeByteBuffer option" where
  "TL_userProfilePhoto_serializeToStream x b = do {
     b \<leftarrow> writeInt32 TL_userProfilePhoto_constructor b;
     b \<leftarrow> writeInt64 (UserProfilePhoto_photo_id x) b;
     b \<leftarrow> call_ptr FileLocation_serializeToStream (UserProfilePhoto_photo_small x) b;
     b \<leftarrow> call_ptr FileLocation_serializeToStream (UserProfilePhoto_photo_big x) b;
     Some b
   }"

definition UserProfilePhoto_TLdeserialize :: "u32 \<Rightarrow> istream \<Rightarrow> (UserProfilePhoto option \<times> istream) option" where
  "UserProfilePhoto_TLdeserialize constructor s =
     (if constructor = 0x4f11bae1 then Some (Some (TL_userProfilePhotoEmpty UserProfilePhoto_fields_new), s)
      else if constructor = 0xd559d8c8 then do { (x, s) \<leftarrow> TL_userProfilePhoto_readParams UserProfilePhoto_fields_new s; Some (Some (TL_userProfilePhoto x), s) }
      else Some (None, fail s))"

fun UserProfilePhoto_serializeToStream :: "UserProfilePhoto \<Rightarrow> NativeByteBuffer \<Rightarrow> NativeByteBuffer option" where
  "UserProfilePhoto_serializeToStream (TL_userProfilePhotoEmpty x) = TL_userProfilePhotoEmpty_serializeToStream x"
| "UserProfilePhoto_serializeToStream (TL_userProfilePhoto x) = TL_userProfilePhoto_serializeToStream x"

record User_fields =
  User_id :: u32
  User_first_name :: "byte list"
  User_last_name :: "byte list"
  User_username :: "byte list"
  User_access_hash :: ulong
  User_phone :: "byte list"
  User_photo :: "UserProfilePhoto option"
  User_status :: "UserStatus option"
  User_flags :: u32
  User_bot_info_version :: u32
  User_restriction_reason :: "byte list"
  User_bot_inline_placeholder :: "byte list"
  User_lang_code :: "byte list"

definition User_fields_new :: User_fields where
  "User_fields_new = \<lparr>User_id = 0, User_first_name = [], User_last_name = [], User_username = [], User_access_hash = 0, User_phone = [], User_photo = None, User_status = None, User_flags = 0, User_bot_info_version = 0, User_restriction_reason = [], User_bot_inline_placeholder = [], User_lang_code = []\<rparr>"

datatype User =
    TL_userEmpty User_fields
  | TL_user User_fields

definition TL_userEmpty_constructor :: u32 where
  "TL_userEmpty_constructor = 0x200250ba"

definition TL_userEmpty_readParams :: "User_fields \<Rightarrow> istream \<Rightarrow> (User_fields \<times> istream) option" where
  "TL_userEmpty_readParams x s = do {
     (v, s) \<leftarrow> readInt32 s;
     let x = x\<lparr>User_id := v\<rparr>;
     Some (x, s)
   }"

definition TL_userEmpty_serializeToStream :: "User_fields \<Rightarrow> NativeByteBuffer \<Rightarrow> NativeByteBuffer option" where
  "TL_userEmpty_serializeToStream x b = do {
     b \<leftarrow> writeInt32 TL_userEmpty_constructor b;
     b \<leftarrow> writeInt32 (User_id x) b;
     Some b
   }"

definition TL_user_constructor :: u32 where
  "TL_user_constructor = 0x2e13f4c3"

definition TL_user_readParams :: "User_fields \<Rightarrow> istream \<Rightarrow> (User_fields \<times> istream) option" where
  "TL_user_readParams x s = do {
     (flags, s) \<leftarrow> readInt32 s;
     let x = x\<lparr>User_flags := flags\<rparr>;
     (v, s) \<leftarrow> readInt32 s;
     let x = x\<lparr>User_id := v\<rparr>;
     (v, s) \<leftarrow> read_if (flags AND 1 \<noteq> 0) readInt64 (User_access_hash x) s;
     let x = x\<lparr>User_access_hash := v\<rparr>;
     (v, s) \<leftarrow> read_if (flags AND 2 \<noteq> 0) readString (User_first_name x) s;
     let x = x\<lparr>User_first_name := v\<rparr>;
     (v, s) \<leftarrow> read_if (flags AND 4 \<noteq> 0) readString (User_last_name x) s;
     let x = x\<lparr>User_last_name := v\<rparr>;
     (v, s) \<leftarrow> read_if (flags AND 8 \<noteq> 0) readString (User_username x) s;
     let x = x\<lparr>User_username := v\<rparr>;
     (v, s) \<leftarrow> read_if (flags AND 16 \<noteq> 0) readString (User_phone x) s;
     let x = x\<lparr>User_phone := v\<rparr>;
     (v, s) \<leftarrow> read_if (flags AND 32 \<noteq> 0) (read_object UserProfilePhoto_TLdeserialize) (User_photo x) s;
     let x = x\<lparr>User_photo := v\<rparr>;
     (v, s) \<leftarrow> read_if (flags AND 64 \<noteq> 0) (read_object UserStatus_TLdeserialize) (User_status x) s;
     let x = x\<lparr>User_status := v\<rparr>;
     (v, s) \<leftarrow> read_if (flags AND 16384 \<noteq> 0) readInt32 (User_bot_info_version x) s;
     let x = x\<lparr>User_bot_info_version := v\<rparr>;
     (v, s) \<leftarrow> read_if (flags AND 262144 \<noteq> 0) readString (User_restriction_reason x) s;
     let x = x\<lparr>User_restriction_reason := v\<rparr>;
     (v, s) \<leftarrow> read_if (flags AND 524288 \<noteq> 0) readString (User_bot_inline_placeholder x) s;
     let x = x\<lparr>User_bot_inline_placeholder := v\<rparr>;
     (v, s) \<leftarrow> read_if (flags AND 4194304 \<noteq> 0) readString (User_lang_code x) s;
     let x = x\<lparr>User_lang_code := v\<rparr>;
     Some (x, s)
   }"

definition TL_user_serializeToStream :: "User_fields \<Rightarrow> NativeByteBuffer \<Rightarrow> NativeByteBuffer option" where
  "TL_user_serializeToStream x b = do {
     b \<leftarrow> writeInt32 TL_user_constructor b;
     b \<leftarrow> writeInt32 (User_flags x) b;
     b \<leftarrow> writeInt32 (User_id x) b;
     b \<leftarrow> (if User_flags x AND 1 \<noteq> 0 then writeInt64 (User_access_hash x) b else Some b);
     b \<leftarrow> (if User_flags x AND 2 \<noteq> 0 then writeString (User_first_name x) b else Some b);
     b \<leftarrow> (if User_flags x AND 4 \<noteq> 0 then writeString (User_last_name x) b else Some b);
     b \<leftarrow> (if User_flags x AND 8 \<noteq> 0 then writeString (User_username x) b else Some b);
     b \<leftarrow> (if User_flags x AND 16 \<noteq> 0 then writeString (User_phone x) b else Some b);
     b \<leftarrow> (if User_flags x AND 32 \<noteq> 0 then call_ptr UserProfilePhoto_serializeToStream (User_photo x) b else Some b);
     b \<leftarrow> (if User_flags x AND 64 \<noteq> 0 then call_ptr UserStatus_serializeToStream (User_status x) b else Some b);
     b \<leftarrow> (if User_flags x AND 16384 \<noteq> 0 then writeInt32 (User_bot_info_version x) b else Some b);
     b \<leftarrow> (if User_flags x AND 262144 \<noteq> 0 then writeString (User_restriction_reason x) b else Some b);
     b \<leftarrow> (if User_flags x AND 524288 \<noteq> 0 then writeString (User_bot_inline_placeholder x) b else Some b);
     b \<leftarrow> (if User_flags x AND 4194304 \<noteq> 0 then writeString (User_lang_code x) b else Some b);
     Some b
   }"

definition User_TLdeserialize :: "u32 \<Rightarrow> istream \<Rightarrow> (User option \<times> istream) option" where
  "User_TLdeserialize constructor s =
     (if constructor = 0x200250ba then do { (x, s) \<leftarrow> TL_userEmpty_readParams User_fields_new s; Some (Some (TL_userEmpty x), s) }
      else if constructor = 0x2e13f4c3 then do { (x, s) \<leftarrow> TL_user_readParams User_fields_new s; Some (Some (TL_user x), s) }
      else Some (None, fail s))"

fun User_serializeToStream :: "User \<Rightarrow> NativeByteBuffer \<Rightarrow> NativeByteBuffer option" where
  "User_serializeToStream (TL_userEmpty x) = TL_userEmpty_serializeToStream x"
| "User_serializeToStream (TL_user x) = TL_user_serializeToStream x"

record TL_auth_authorization =
  TL_auth_authorization_flags :: u32
  TL_auth_authorization_tmp_sessions :: u32
  TL_auth_authorization_user :: "User option"

definition TL_auth_authorization_new :: TL_auth_authorization where
  "TL_auth_authorization_new = \<lparr>TL_auth_authorization_flags = 0, TL_auth_authorization_tmp_sessions = 0, TL_auth_authorization_user = None\<rparr>"

definition TL_auth_authorization_constructor :: u32 where
  "TL_auth_authorization_constructor = 0xcd050916"

definition TL_auth_authorization_readParams :: "TL_auth_authorization \<Rightarrow> istream \<Rightarrow> (TL_auth_authorization \<times> istream) option" where
  "TL_auth_authorization_readParams x s = do {
     (flags, s) \<leftarrow> readInt32 s;
     let x = x\<lparr>TL_auth_authorization_flags := flags\<rparr>;
     (v, s) \<leftarrow> read_if (flags AND 1 \<noteq> 0) readInt32 (TL_auth_authorization_tmp_sessions x) s;
     let x = x\<lparr>TL_auth_authorization_tmp_sessions := v\<rparr>;
     (v, s) \<leftarrow> read_object User_TLdeserialize s;
     let x = x\<lparr>TL_auth_authorization_user := v\<rparr>;
     Some (x, s)
   }"

definition TL_auth_authorization_TLdeserialize :: "u32 \<Rightarrow> istream \<Rightarrow> (TL_auth_authorization option \<times> istream) option" where
  "TL_auth_authorization_TLdeserialize constructor s =
     (if TL_auth_authorization_constructor \<noteq> constructor then Some (None, fail s)
      else do { (x, s) \<leftarrow> TL_auth_authorization_readParams TL_auth_authorization_new s; Some (Some x, s) })"

record TL_auth_exportedAuthorization =
  TL_auth_exportedAuthorization_id :: u32
  TL_auth_exportedAuthorization_bytes :: "byte list option"

definition TL_auth_exportedAuthorization_new :: TL_auth_exportedAuthorization where
  "TL_auth_exportedAuthorization_new = \<lparr>TL_auth_exportedAuthorization_id = 0, TL_auth_exportedAuthorization_bytes = None\<rparr>"

definition TL_auth_exportedAuthorization_constructor :: u32 where
  "TL_auth_exportedAuthorization_constructor = 0xdf969c2d"

definition TL_auth_exportedAuthorization_readParams :: "TL_auth_exportedAuthorization \<Rightarrow> istream \<Rightarrow> (TL_auth_exportedAuthorization \<times> istream) option" where
  "TL_auth_exportedAuthorization_readParams x s = do {
     (v, s) \<leftarrow> readInt32 s;
     let x = x\<lparr>TL_auth_exportedAuthorization_id := v\<rparr>;
     (v, s) \<leftarrow> readByteArray s;
     let x = x\<lparr>TL_auth_exportedAuthorization_bytes := v\<rparr>;
     Some (x, s)
   }"

definition TL_auth_exportedAuthorization_TLdeserialize :: "u32 \<Rightarrow> istream \<Rightarrow> (TL_auth_exportedAuthorization option \<times> istream) option" where
  "TL_auth_exportedAuthorization_TLdeserialize constructor s =
     (if TL_auth_exportedAuthorization_constructor \<noteq> constructor then Some (None, fail s)
      else do { (x, s) \<leftarrow> TL_auth_exportedAuthorization_readParams TL_auth_exportedAuthorization_new s; Some (Some x, s) })"

record TL_auth_exportAuthorization =
  TL_auth_exportAuthorization_dc_id :: u32

definition TL_auth_exportAuthorization_new :: TL_auth_exportAuthorization where
  "TL_auth_exportAuthorization_new = \<lparr>TL_auth_exportAuthorization_dc_id = 0\<rparr>"

definition TL_auth_exportAuthorization_constructor :: u32 where
  "TL_auth_exportAuthorization_constructor = 0xe5bfffcd"

definition TL_auth_exportAuthorization_serializeToStream :: "TL_auth_exportAuthorization \<Rightarrow> NativeByteBuffer \<Rightarrow> NativeByteBuffer option" where
  "TL_auth_exportAuthorization_serializeToStream x b = do {
     b \<leftarrow> writeInt32 TL_auth_exportAuthorization_constructor b;
     b \<leftarrow> writeInt32 (TL_auth_exportAuthorization_dc_id x) b;
     Some b
   }"

record TL_auth_importAuthorization =
  TL_auth_importAuthorization_id :: u32
  TL_auth_importAuthorization_bytes :: "byte list option"

definition TL_auth_importAuthorization_new :: TL_auth_importAuthorization where
  "TL_auth_importAuthorization_new = \<lparr>TL_auth_importAuthorization_id = 0, TL_auth_importAuthorization_bytes = None\<rparr>"

definition TL_auth_importAuthorization_constructor :: u32 where
  "TL_auth_importAuthorization_constructor = 0xe3ef9613"

definition TL_auth_importAuthorization_serializeToStream :: "TL_auth_importAuthorization \<Rightarrow> NativeByteBuffer \<Rightarrow> NativeByteBuffer option" where
  "TL_auth_importAuthorization_serializeToStream x b = do {
     b \<leftarrow> writeInt32 TL_auth_importAuthorization_constructor b;
     b \<leftarrow> writeInt32 (TL_auth_importAuthorization_id x) b;
     b \<leftarrow> writeByteArray_array (TL_auth_importAuthorization_bytes x) b;
     Some b
   }"

record auth_SentCode_fields =
  auth_SentCode_phone_registered :: bool
  auth_SentCode_phone_code_hash :: "byte list"
  auth_SentCode_send_call_timeout :: u32
  auth_SentCode_is_password :: bool

definition auth_SentCode_fields_new :: auth_SentCode_fields where
  "auth_SentCode_fields_new = \<lparr>auth_SentCode_phone_registered = False, auth_SentCode_phone_code_hash = [], auth_SentCode_send_call_timeout = 0, auth_SentCode_is_password = False\<rparr>"

datatype auth_SentCode =
    TL_auth_sentAppCode auth_SentCode_fields
  | TL_auth_sentCode auth_SentCode_fields

definition TL_auth_sentAppCode_constructor :: u32 where
  "TL_auth_sentAppCode_constructor = 0xe325edcf"

definition TL_auth_sentAppCode_readParams :: "auth_SentCode_fields \<Rightarrow> istream \<Rightarrow> (auth_SentCode_fields \<times> istream) option" where
  "TL_auth_sentAppCode_readParams x s = do {
     (v, s) \<leftarrow> readBool s;
     let x = x\<lparr>auth_SentCode_phone_registered := v\<rparr>;
     (v, s) \<leftarrow> readString s;
     let x = x\<lparr>auth_SentCode_phone_code_hash := v\<rparr>;
     (v, s) \<leftarrow> readInt32 s;
     let x = x\<lparr>auth_SentCode_send_call_timeout := v\<rparr>;
     (v, s) \<leftarrow> readBool s;
     let x = x\<lparr>auth_SentCode_is_password := v\<rparr>;
     Some (x, s)
   }"

definition TL_auth_sentAppCode_serializeToStream :: "auth_SentCode_fields \<Rightarrow> NativeByteBuffer \<Rightarrow> NativeByteBuffer option" where
  "TL_auth_sentAppCode_serializeToStream x b = do {
     b \<leftarrow> writeInt32 TL_auth_sentAppCode_constructor b;
     b \<leftarrow> writeBool (auth_SentCode_phone_registered x) b;
     b \<leftarrow> writeString (auth_SentCode_phone_code_hash x) b;
     b \<leftarrow> writeInt32 (auth_SentCode_send_call_timeout x) b;
     b \<leftarrow> writeBool (auth_SentCode_is_password x) b;
     Some b
   }"

definition TL_auth_sentCode_constructor :: u32 where
  "TL_auth_sentCode_constructor = 0xefed51d9"

definition TL_auth_sentCode_readParams :: "auth_SentCode_fields \<Rightarrow> istream \<Rightarrow> (auth_SentCode_fields \<times> istream) option" where
  "TL_auth_sentCode_readParams x s = do {
     (v, s) \<leftarrow> readBool s;
     let x = x\<lparr>auth_SentCode_phone_registered := v\<rparr>;
     (v, s) \<leftarrow> readString s;
     let x = x\<lparr>auth_SentCode_phone_code_hash := v\<rparr>;
     (v, s) \<leftarrow> readInt32 s;
     let x = x\<lparr>auth_SentCode_send_call_timeout := v\<rparr>;
     (v, s) \<leftarrow> readBool s;
     let x = x\<lparr>auth_SentCode_is_password := v\<rparr>;
     Some (x, s)
   }"

definition TL_auth_sentCode_serializeToStream :: "auth_SentCode_fields \<Rightarrow> NativeByteBuffer \<Rightarrow> NativeByteBuffer option" where
  "TL_auth_sentCode_serializeToStream x b = do {
     b \<leftarrow> writeInt32 TL_auth_sentCode_constructor b;
     b \<leftarrow> writeBool (auth_SentCode_phone_registered x) b;
     b \<leftarrow> writeString (auth_SentCode_phone_code_hash x) b;
     b \<leftarrow> writeInt32 (auth_SentCode_send_call_timeout x) b;
     b \<leftarrow> writeBool (auth_SentCode_is_password x) b;
     Some b
   }"

definition auth_SentCode_TLdeserialize :: "u32 \<Rightarrow> istream \<Rightarrow> (auth_SentCode option \<times> istream) option" where
  "auth_SentCode_TLdeserialize constructor s =
     (if constructor = 0xe325edcf then do { (x, s) \<leftarrow> TL_auth_sentAppCode_readParams auth_SentCode_fields_new s; Some (Some (TL_auth_sentAppCode x), s) }
      else if constructor = 0xefed51d9 then do { (x, s) \<leftarrow> TL_auth_sentCode_readParams auth_SentCode_fields_new s; Some (Some (TL_auth_sentCode x), s) }
      else Some (None, fail s))"

fun auth_SentCode_serializeToStream :: "auth_SentCode \<Rightarrow> NativeByteBuffer \<Rightarrow> NativeByteBuffer option" where
  "auth_SentCode_serializeToStream (TL_auth_sentAppCode x) = TL_auth_sentAppCode_serializeToStream x"
| "auth_SentCode_serializeToStream (TL_auth_sentCode x) = TL_auth_sentCode_serializeToStream x"

record TL_auth_sendCode =
  TL_auth_sendCode_phone_number :: "byte list"
  TL_auth_sendCode_sms_type :: u32
  TL_auth_sendCode_api_id :: u32
  TL_auth_sendCode_api_hash :: "byte list"
  TL_auth_sendCode_lang_code :: "byte list"

definition TL_auth_sendCode_new :: TL_auth_sendCode where
  "TL_auth_sendCode_new = \<lparr>TL_auth_sendCode_phone_number = [], TL_auth_sendCode_sms_type = 0, TL_auth_sendCode_api_id = 0, TL_auth_sendCode_api_hash = [], TL_auth_sendCode_lang_code = []\<rparr>"

definition TL_auth_sendCode_constructor :: u32 where
  "TL_auth_sendCode_constructor = 0x768d5f4d"

definition TL_auth_sendCode_serializeToStream :: "TL_auth_sendCode \<Rightarrow> NativeByteBuffer \<Rightarrow> NativeByteBuffer option" where
  "TL_auth_sendCode_serializeToStream x b = do {
     b \<leftarrow> writeInt32 TL_auth_sendCode_constructor b;
     b \<leftarrow> writeString (TL_auth_sendCode_phone_number x) b;
     b \<leftarrow> writeInt32 (TL_auth_sendCode_sms_type x) b;
     b \<leftarrow> writeInt32 (TL_auth_sendCode_api_id x) b;
     b \<leftarrow> writeString (TL_auth_sendCode_api_hash x) b;
     b \<leftarrow> writeString (TL_auth_sendCode_lang_code x) b;
     Some b
   }"

definition TL_updatesTooLong_constructor :: u32 where
  "TL_updatesTooLong_constructor = 0xe317af7e"

definition TL_updatesTooLong_serializeToStream :: "NativeByteBuffer \<Rightarrow> NativeByteBuffer option" where
  "TL_updatesTooLong_serializeToStream b = do {
     b \<leftarrow> writeInt32 TL_updatesTooLong_constructor b;
     Some b
   }"

datatype storage_FileType =
    TL_storage_fileUnknown
  | TL_storage_fileMp4
  | TL_storage_fileWebp
  | TL_storage_filePng
  | TL_storage_fileGif
  | TL_storage_filePdf
  | TL_storage_fileMp3
  | TL_storage_fileJpeg
  | TL_storage_fileMov
  | TL_storage_filePartial

definition TL_storage_fileUnknown_constructor :: u32 where
  "TL_storage_fileUnknown_constructor = 0xaa963b05"

definition TL_storage_fileUnknown_serializeToStream :: "NativeByteBuffer \<Rightarrow> NativeByteBuffer option" where
  "TL_storage_fileUnknown_serializeToStream b = do {
     b \<leftarrow> writeInt32 TL_storage_fileUnknown_constructor b;
     Some b
   }"

definition TL_storage_fileMp4_constructor :: u32 where
  "TL_storage_fileMp4_constructor = 0xb3cea0e4"

definition TL_storage_fileMp4_serializeToStream :: "NativeByteBuffer \<Rightarrow> NativeByteBuffer option" where
  "TL_storage_fileMp4_serializeToStream b = do {
     b \<leftarrow> writeInt32 TL_storage_fileMp4_constructor b;
     Some b
   }"

definition TL_storage_fileWebp_constructor :: u32 where
  "TL_storage_fileWebp_constructor = 0x1081464c"

definition TL_storage_fileWebp_serializeToStream :: "NativeByteBuffer \<Rightarrow> NativeByteBuffer option" where
  "TL_storage_fileWebp_serializeToStream b = do {
     b \<leftarrow> writeInt32 TL_storage_fileWebp_constructor b;
     Some b
   }"

definition TL_storage_filePng_constructor :: u32 where
  "TL_storage_filePng_constructor = 0xa4f63c0"

definition TL_storage_filePng_serializeToStream :: "NativeByteBuffer \<Rightarrow> NativeByteBuffer option" where
  "TL_storage_filePng_serializeToStream b = do {
     b \<leftarrow> writeInt32 TL_storage_filePng_constructor b;
     Some b
   }"

definition TL_storage_fileGif_constructor :: u32 where
  "TL_storage_fileGif_constructor = 0xcae1aadf"

definition TL_storage_fileGif_serializeToStream :: "NativeByteBuffer \<Rightarrow> NativeByteBuffer option" where
  "TL_storage_fileGif_serializeToStream b = do {
     b \<leftarrow> writeInt32 TL_storage_fileGif_constructor b;
     Some b
   }"

definition TL_storage_filePdf_constructor :: u32 where
  "TL_storage_filePdf_constructor = 0xae1e508d"

definition TL_storage_filePdf_serializeToStream :: "NativeByteBuffer \<Rightarrow> NativeByteBuffer option" where
  "TL_storage_filePdf_serializeToStream b = do {
     b \<leftarrow> writeInt32 TL_storage_filePdf_constructor b;
     Some b
   }"

definition TL_storage_fileMp3_constructor :: u32 where
  "TL_storage_fileMp3_constructor = 0x528a0677"

definition TL_storage_fileMp3_serializeToStream :: "NativeByteBuffer \<Rightarrow> NativeByteBuffer option" where
  "TL_storage_fileMp3_serializeToStream b = do {
     b \<leftarrow> writeInt32 TL_storage_fileMp3_constructor b;
     Some b
   }"

definition TL_storage_fileJpeg_constructor :: u32 where
  "TL_storage_fileJpeg_constructor = 0x7efe0e"

definition TL_storage_fileJpeg_serializeToStream :: "NativeByteBuffer \<Rightarrow> NativeByteBuffer option" where
  "TL_storage_fileJpeg_serializeToStream b = do {
     b \<leftarrow> writeInt32 TL_storage_fileJpeg_constructor b;
     Some b
   }"

definition TL_storage_fileMov_constructor :: u32 where
  "TL_storage_fileMov_constructor = 0x4b09ebbc"

definition TL_storage_fileMov_serializeToStream :: "NativeByteBuffer \<Rightarrow> NativeByteBuffer option" where
  "TL_storage_fileMov_serializeToStream b = do {
     b \<leftarrow> writeInt32 TL_storage_fileMov_constructor b;
     Some b
   }"

definition TL_storage_filePartial_constructor :: u32 where
  "TL_storage_filePartial_constructor = 0x40bc6f52"

definition TL_storage_filePartial_serializeToStream :: "NativeByteBuffer \<Rightarrow> NativeByteBuffer option" where
  "TL_storage_filePartial_serializeToStream b = do {
     b \<leftarrow> writeInt32 TL_storage_filePartial_constructor b;
     Some b
   }"

definition storage_FileType_TLdeserialize :: "u32 \<Rightarrow> istream \<Rightarrow> (storage_FileType option \<times> istream) option" where
  "storage_FileType_TLdeserialize constructor s =
     (if constructor = 0xaa963b05 then Some (Some TL_storage_fileUnknown, s)
      else if constructor = 0xb3cea0e4 then Some (Some TL_storage_fileMp4, s)
      else if constructor = 0x1081464c then Some (Some TL_storage_fileWebp, s)
      else if constructor = 0xa4f63c0 then Some (Some TL_storage_filePng, s)
      else if constructor = 0xcae1aadf then Some (Some TL_storage_fileGif, s)
      else if constructor = 0xae1e508d then Some (Some TL_storage_filePdf, s)
      else if constructor = 0x528a0677 then Some (Some TL_storage_fileMp3, s)
      else if constructor = 0x7efe0e then Some (Some TL_storage_fileJpeg, s)
      else if constructor = 0x4b09ebbc then Some (Some TL_storage_fileMov, s)
      else if constructor = 0x40bc6f52 then Some (Some TL_storage_filePartial, s)
      else Some (None, fail s))"

fun storage_FileType_serializeToStream :: "storage_FileType \<Rightarrow> NativeByteBuffer \<Rightarrow> NativeByteBuffer option" where
  "storage_FileType_serializeToStream TL_storage_fileUnknown = TL_storage_fileUnknown_serializeToStream"
| "storage_FileType_serializeToStream TL_storage_fileMp4 = TL_storage_fileMp4_serializeToStream"
| "storage_FileType_serializeToStream TL_storage_fileWebp = TL_storage_fileWebp_serializeToStream"
| "storage_FileType_serializeToStream TL_storage_filePng = TL_storage_filePng_serializeToStream"
| "storage_FileType_serializeToStream TL_storage_fileGif = TL_storage_fileGif_serializeToStream"
| "storage_FileType_serializeToStream TL_storage_filePdf = TL_storage_filePdf_serializeToStream"
| "storage_FileType_serializeToStream TL_storage_fileMp3 = TL_storage_fileMp3_serializeToStream"
| "storage_FileType_serializeToStream TL_storage_fileJpeg = TL_storage_fileJpeg_serializeToStream"
| "storage_FileType_serializeToStream TL_storage_fileMov = TL_storage_fileMov_serializeToStream"
| "storage_FileType_serializeToStream TL_storage_filePartial = TL_storage_filePartial_serializeToStream"

record InputFileLocation_fields =
  InputFileLocation_id :: ulong
  InputFileLocation_access_hash :: ulong
  InputFileLocation_version :: u32
  InputFileLocation_volume_id :: ulong
  InputFileLocation_local_id :: u32
  InputFileLocation_secret :: ulong

definition InputFileLocation_fields_new :: InputFileLocation_fields where
  "InputFileLocation_fields_new = \<lparr>InputFileLocation_id = 0, InputFileLocation_access_hash = 0, InputFileLocation_version = 0, InputFileLocation_volume_id = 0, InputFileLocation_local_id = 0, InputFileLocation_secret = 0\<rparr>"

datatype InputFileLocation =
    TL_inputDocumentFileLocation InputFileLocation_fields
  | TL_inputFileLocation InputFileLocation_fields
  | TL_inputEncryptedFileLocation InputFileLocation_fields

definition TL_inputDocumentFileLocation_constructor :: u32 where
  "TL_inputDocumentFileLocation_constructor = 0x430f0724"

definition TL_inputDocumentFileLocation_readParams :: "InputFileLocation_fields \<Rightarrow> istream \<Rightarrow> (InputFileLocation_fields \<times> istream) option" where
  "TL_inputDocumentFileLocation_readParams x s = do {
     (v, s) \<leftarrow> readInt64 s;
     let x = x\<lparr>InputFileLocation_id := v\<rparr>;
     (v, s) \<leftarrow> readInt64 s;
     let x = x\<lparr>InputFileLocation_access_hash := v\<rparr>;
     (v, s) \<leftarrow> readInt32 s;
     let x = x\<lparr>InputFileLocation_version := v\<rparr>;
     Some (x, s)
   }"

definition TL_inputDocumentFileLocation_serializeToStream :: "InputFileLocation_fields \<Rightarrow> NativeByteBuffer \<Rightarrow> NativeByteBuffer option" where
  "TL_inputDocumentFileLocation_serializeToStream x b = do {
     b \<leftarrow> writeInt32 TL_inputDocumentFileLocation_constructor b;
     b \<leftarrow> writeInt64 (InputFileLocation_id x) b;
     b \<leftarrow> writeInt64 (InputFileLocation_access_hash x) b;
     b \<leftarrow> writeInt32 (InputFileLocation_version x) b;
     Some b
   }"

definition TL_inputFileLocation_constructor :: u32 where
  "TL_inputFileLocation_constructor = 0x14637196"

definition TL_inputFileLocation_readParams :: "InputFileLocation_fields \<Rightarrow> istream \<Rightarrow> (InputFileLocation_fields \<times> istream) option" where
  "TL_inputFileLocation_readParams x s = do {
     (v, s) \<leftarrow> readInt64 s;
     let x = x\<lparr>InputFileLocation_volume_id := v\<rparr>;
     (v, s) \<leftarrow> readInt32 s;
     let x = x\<lparr>InputFileLocation_local_id := v\<rparr>;
     (v, s) \<leftarrow> readInt64 s;
     let x = x\<lparr>InputFileLocation_secret := v\<rparr>;
     Some (x, s)
   }"

definition TL_inputFileLocation_serializeToStream :: "InputFileLocation_fields \<Rightarrow> NativeByteBuffer \<Rightarrow> NativeByteBuffer option" where
  "TL_inputFileLocation_serializeToStream x b = do {
     b \<leftarrow> writeInt32 TL_inputFileLocation_constructor b;
     b \<leftarrow> writeInt64 (InputFileLocation_volume_id x) b;
     b \<leftarrow> writeInt32 (InputFileLocation_local_id x) b;
     b \<leftarrow> writeInt64 (InputFileLocation_secret x) b;
     Some b
   }"

definition TL_inputEncryptedFileLocation_constructor :: u32 where
  "TL_inputEncryptedFileLocation_constructor = 0xf5235d55"

definition TL_inputEncryptedFileLocation_readParams :: "InputFileLocation_fields \<Rightarrow> istream \<Rightarrow> (InputFileLocation_fields \<times> istream) option" where
  "TL_inputEncryptedFileLocation_readParams x s = do {
     (v, s) \<leftarrow> readInt64 s;
     let x = x\<lparr>InputFileLocation_id := v\<rparr>;
     (v, s) \<leftarrow> readInt64 s;
     let x = x\<lparr>InputFileLocation_access_hash := v\<rparr>;
     Some (x, s)
   }"

definition TL_inputEncryptedFileLocation_serializeToStream :: "InputFileLocation_fields \<Rightarrow> NativeByteBuffer \<Rightarrow> NativeByteBuffer option" where
  "TL_inputEncryptedFileLocation_serializeToStream x b = do {
     b \<leftarrow> writeInt32 TL_inputEncryptedFileLocation_constructor b;
     b \<leftarrow> writeInt64 (InputFileLocation_id x) b;
     b \<leftarrow> writeInt64 (InputFileLocation_access_hash x) b;
     Some b
   }"

definition InputFileLocation_TLdeserialize :: "u32 \<Rightarrow> istream \<Rightarrow> (InputFileLocation option \<times> istream) option" where
  "InputFileLocation_TLdeserialize constructor s =
     (if constructor = 0x430f0724 then do { (x, s) \<leftarrow> TL_inputDocumentFileLocation_readParams InputFileLocation_fields_new s; Some (Some (TL_inputDocumentFileLocation x), s) }
      else if constructor = 0x14637196 then do { (x, s) \<leftarrow> TL_inputFileLocation_readParams InputFileLocation_fields_new s; Some (Some (TL_inputFileLocation x), s) }
      else if constructor = 0xf5235d55 then do { (x, s) \<leftarrow> TL_inputEncryptedFileLocation_readParams InputFileLocation_fields_new s; Some (Some (TL_inputEncryptedFileLocation x), s) }
      else Some (None, fail s))"

fun InputFileLocation_serializeToStream :: "InputFileLocation \<Rightarrow> NativeByteBuffer \<Rightarrow> NativeByteBuffer option" where
  "InputFileLocation_serializeToStream (TL_inputDocumentFileLocation x) = TL_inputDocumentFileLocation_serializeToStream x"
| "InputFileLocation_serializeToStream (TL_inputFileLocation x) = TL_inputFileLocation_serializeToStream x"
| "InputFileLocation_serializeToStream (TL_inputEncryptedFileLocation x) = TL_inputEncryptedFileLocation_serializeToStream x"

record TL_upload_saveFilePart =
  TL_upload_saveFilePart_file_id :: ulong
  TL_upload_saveFilePart_file_part :: u32
  TL_upload_saveFilePart_bytes :: "byte list option"

definition TL_upload_saveFilePart_new :: TL_upload_saveFilePart where
  "TL_upload_saveFilePart_new = \<lparr>TL_upload_saveFilePart_file_id = 0, TL_upload_saveFilePart_file_part = 0, TL_upload_saveFilePart_bytes = None\<rparr>"

definition TL_upload_saveFilePart_constructor :: u32 where
  "TL_upload_saveFilePart_constructor = 0xb304a621"

definition TL_upload_saveFilePart_serializeToStream :: "TL_upload_saveFilePart \<Rightarrow> NativeByteBuffer \<Rightarrow> NativeByteBuffer option" where
  "TL_upload_saveFilePart_serializeToStream x b = do {
     b \<leftarrow> writeInt32 TL_upload_saveFilePart_constructor b;
     b \<leftarrow> writeInt64 (TL_upload_saveFilePart_file_id x) b;
     b \<leftarrow> writeInt32 (TL_upload_saveFilePart_file_part x) b;
     b \<leftarrow> writeByteArray_array (TL_upload_saveFilePart_bytes x) b;
     Some b
   }"

record TL_upload_file =
  TL_upload_file_type :: "storage_FileType option"
  TL_upload_file_mtime :: u32
  TL_upload_file_bytes :: "NativeByteBuffer option"

definition TL_upload_file_new :: TL_upload_file where
  "TL_upload_file_new = \<lparr>TL_upload_file_type = None, TL_upload_file_mtime = 0, TL_upload_file_bytes = None\<rparr>"

definition TL_upload_file_constructor :: u32 where
  "TL_upload_file_constructor = 0x96a18d5"

record TL_upload_getFile =
  TL_upload_getFile_location :: "InputFileLocation option"
  TL_upload_getFile_offset :: u32
  TL_upload_getFile_limit :: u32

definition TL_upload_getFile_new :: TL_upload_getFile where
  "TL_upload_getFile_new = \<lparr>TL_upload_getFile_location = None, TL_upload_getFile_offset = 0, TL_upload_getFile_limit = 0\<rparr>"

definition TL_upload_getFile_constructor :: u32 where
  "TL_upload_getFile_constructor = 0xe3a6cfb5"

definition TL_upload_getFile_serializeToStream :: "TL_upload_getFile \<Rightarrow> NativeByteBuffer \<Rightarrow> NativeByteBuffer option" where
  "TL_upload_getFile_serializeToStream x b = do {
     b \<leftarrow> writeInt32 TL_upload_getFile_constructor b;
     b \<leftarrow> call_ptr InputFileLocation_serializeToStream (TL_upload_getFile_location x) b;
     b \<leftarrow> writeInt32 (TL_upload_getFile_offset x) b;
     b \<leftarrow> writeInt32 (TL_upload_getFile_limit x) b;
     Some b
   }"

definition TL_upload_file_readParams :: "TL_upload_file \<Rightarrow> istream \<Rightarrow> (TL_upload_file \<times> istream) option" where
  "TL_upload_file_readParams x s = do {
     (v, s) \<leftarrow> read_object storage_FileType_TLdeserialize s;
     let x = x\<lparr>TL_upload_file_type := v\<rparr>;
     (v, s) \<leftarrow> readInt32 s;
     let x = x\<lparr>TL_upload_file_mtime := v\<rparr>;
     (v, s) \<leftarrow> readByteBuffer True s;
     let x = x\<lparr>TL_upload_file_bytes := v\<rparr>;
     Some (x, s)
   }"

text \<open>The destructor gives the buffer back.\<close>

definition TL_upload_file_delete :: "TL_upload_file \<Rightarrow> BuffersStorage \<Rightarrow> BuffersStorage" where
  "TL_upload_file_delete x st = (case TL_upload_file_bytes x of None \<Rightarrow> st | Some b \<Rightarrow> reuse b st)"

definition TL_upload_file_TLdeserialize :: "u32 \<Rightarrow> istream \<Rightarrow> (TL_upload_file option \<times> istream) option" where
  "TL_upload_file_TLdeserialize constructor s =
     (if TL_upload_file_constructor \<noteq> constructor then Some (None, fail s)
      else do { (x, s) \<leftarrow> TL_upload_file_readParams TL_upload_file_new s; Some (Some x, s) })"

end
