(* ===== verification/TL_Objects.thy ===== *)
theory TL_Objects
  imports MTProto_Scheme Api_Scheme
begin

unbundle bit_operations_syntax

section \<open>Objects: dispatch, messages and containers\<close>

text \<open>
  The classes of \<open>tgnet/MTProtoScheme.cpp\<close> that hold other objects, the virtual methods of \<open>TLObject\<close>, the table
  \<open>TLClassStore::TLdeserialize\<close> and \<open>ConnectionsManager::TLdeserialize\<close>.

  A \<open>TLObject\<close> pointer is a value of the datatype of that name: the requests, the payloads that are only sent, the
  classes that are received, and the recursive classes.  Classes that only occur inside others (a data centre option,
  a user) are reached through their owner.  A virtual call is a function by cases.  The reader calls itself through
  the body of a message; the methods on that cycle take the recursive call as an argument, and \<open>TLdeserialize\<close> ties the
  knot with a bound on the depth.  A slice shares the memory of its parent in the code; here it holds the rest of it.
\<close>

subsection \<open>Requests\<close>

datatype TL_request =
    R_TL_req_pq TL_req_pq
  | R_TL_req_pq_multi TL_req_pq_multi
  | R_TL_req_DH_params TL_req_DH_params
  | R_TL_set_client_DH_params TL_set_client_DH_params
  | R_TL_rpc_drop_answer TL_rpc_drop_answer
  | R_TL_get_future_salts TL_get_future_salts
  | R_TL_ping TL_ping
  | R_TL_ping_delay_disconnect TL_ping_delay_disconnect
  | R_TL_destroy_session TL_destroy_session
  | R_TL_auth_bindTempAuthKey TL_auth_bindTempAuthKey
  | R_TL_auth_dropTempAuthKeys TL_auth_dropTempAuthKeys
  | R_TL_help_getConfig
  | R_TL_help_getCdnConfig
  | R_TL_auth_exportAuthorization TL_auth_exportAuthorization
  | R_TL_auth_importAuthorization TL_auth_importAuthorization
  | R_TL_auth_sendCode TL_auth_sendCode
  | R_TL_upload_saveFilePart TL_upload_saveFilePart
  | R_TL_upload_getFile TL_upload_getFile

text \<open>Objects that are only sent: the payloads of the key exchange and the queries about messages.\<close>

datatype TL_payload =
    P_TL_p_q_inner_data TL_p_q_inner_data
  | P_TL_p_q_inner_data_dc TL_p_q_inner_data_dc
  | P_TL_p_q_inner_data_temp TL_p_q_inner_data_temp
  | P_TL_p_q_inner_data_temp_dc TL_p_q_inner_data_temp_dc
  | P_TL_bind_auth_key_inner TL_bind_auth_key_inner
  | P_TL_client_DH_inner_data TL_client_DH_inner_data
  | P_TL_msgs_state_info TL_msgs_state_info
  | P_TL_msgs_state_req TL_msgs_state_req
  | P_TL_msg_resend_req TL_msg_resend_req

text \<open>Objects that are received: service messages and answers to requests.\<close>

datatype TL_incoming =
    I_TL_msgs_ack TL_msgs_ack
  | I_TL_pong TL_pong
  | I_TL_new_session_created TL_new_session_created
  | I_MsgsStateInfo MsgsStateInfo
  | I_BadMsgNotification BadMsgNotification
  | I_MsgDetailedInfo MsgDetailedInfo
  | I_TL_error TL_error
  | I_RpcError RpcError
  | I_TL_future_salts TL_future_salts
  | I_DestroySessionRes DestroySessionRes
  | I_TL_updatesTooLong
  | I_TL_resPQ TL_resPQ
  | I_Server_DH_Params Server_DH_Params
  | I_Set_client_DH_params_answer Set_client_DH_params_answer
  | I_RpcDropAnswer RpcDropAnswer
  | I_Bool Bool
  | I_TL_config TL_config
  | I_TL_cdnConfig TL_cdnConfig
  | I_TL_auth_exportedAuthorization TL_auth_exportedAuthorization
  | I_TL_auth_authorization TL_auth_authorization
  | I_auth_SentCode auth_SentCode
  | I_TL_upload_file TL_upload_file

fun TL_request_serializeToStream :: "TL_request \<Rightarrow> NativeByteBuffer \<Rightarrow> NativeByteBuffer option" where
  "TL_request_serializeToStream (R_TL_req_pq x) = TL_req_pq_serializeToStream x"
| "TL_request_serializeToStream (R_TL_req_pq_multi x) = TL_req_pq_multi_serializeToStream x"
| "TL_request_serializeToStream (R_TL_req_DH_params x) = TL_req_DH_params_serializeToStream x"
| "TL_request_serializeToStream (R_TL_set_client_DH_params x) = TL_set_client_DH_params_serializeToStream x"
| "TL_request_serializeToStream (R_TL_rpc_drop_answer x) = TL_rpc_drop_answer_serializeToStream x"
| "TL_request_serializeToStream (R_TL_get_future_salts x) = TL_get_future_salts_serializeToStream x"
| "TL_request_serializeToStream (R_TL_ping x) = TL_ping_serializeToStream x"
| "TL_request_serializeToStream (R_TL_ping_delay_disconnect x) = TL_ping_delay_disconnect_serializeToStream x"
| "TL_request_serializeToStream (R_TL_destroy_session x) = TL_destroy_session_serializeToStream x"
| "TL_request_serializeToStream (R_TL_auth_bindTempAuthKey x) = TL_auth_bindTempAuthKey_serializeToStream x"
| "TL_request_serializeToStream (R_TL_auth_dropTempAuthKeys x) = TL_auth_dropTempAuthKeys_serializeToStream x"
| "TL_request_serializeToStream R_TL_help_getConfig = TL_help_getConfig_serializeToStream"
| "TL_request_serializeToStream R_TL_help_getCdnConfig = TL_help_getCdnConfig_serializeToStream"
| "TL_request_serializeToStream (R_TL_auth_exportAuthorization x) = TL_auth_exportAuthorization_serializeToStream x"
| "TL_request_serializeToStream (R_TL_auth_importAuthorization x) = TL_auth_importAuthorization_serializeToStream x"
| "TL_request_serializeToStream (R_TL_auth_sendCode x) = TL_auth_sendCode_serializeToStream x"
| "TL_request_serializeToStream (R_TL_upload_saveFilePart x) = TL_upload_saveFilePart_serializeToStream x"
| "TL_request_serializeToStream (R_TL_upload_getFile x) = TL_upload_getFile_serializeToStream x"

fun TL_payload_serializeToStream :: "TL_payload \<Rightarrow> NativeByteBuffer \<Rightarrow> NativeByteBuffer option" where
  "TL_payload_serializeToStream (P_TL_p_q_inner_data x) = TL_p_q_inner_data_serializeToStream x"
| "TL_payload_serializeToStream (P_TL_p_q_inner_data_dc x) = TL_p_q_inner_data_dc_serializeToStream x"
| "TL_payload_serializeToStream (P_TL_p_q_inner_data_temp x) = TL_p_q_inner_data_temp_serializeToStream x"
| "TL_payload_serializeToStream (P_TL_p_q_inner_data_temp_dc x) = TL_p_q_inner_data_temp_dc_serializeToStream x"
| "TL_payload_serializeToStream (P_TL_bind_auth_key_inner x) = TL_bind_auth_key_inner_serializeToStream x"
| "TL_payload_serializeToStream (P_TL_client_DH_inner_data x) = TL_client_DH_inner_data_serializeToStream x"
| "TL_payload_serializeToStream (P_TL_msgs_state_info x) = TL_msgs_state_info_serializeToStream x"
| "TL_payload_serializeToStream (P_TL_msgs_state_req x) = TL_msgs_state_req_serializeToStream x"
| "TL_payload_serializeToStream (P_TL_msg_resend_req x) = TL_msg_resend_req_serializeToStream x"

text \<open>Most incoming classes inherit the empty \<open>TLObject::serializeToStream\<close>.\<close>

fun TL_incoming_serializeToStream :: "TL_incoming \<Rightarrow> NativeByteBuffer \<Rightarrow> NativeByteBuffer option" where
  "TL_incoming_serializeToStream (I_TL_msgs_ack x) = TL_msgs_ack_serializeToStream x"
| "TL_incoming_serializeToStream (I_TL_error x) = TL_error_serializeToStream x"
| "TL_incoming_serializeToStream I_TL_updatesTooLong = TL_updatesTooLong_serializeToStream"
| "TL_incoming_serializeToStream (I_RpcDropAnswer x) = RpcDropAnswer_serializeToStream x"
| "TL_incoming_serializeToStream (I_Bool x) = Bool_serializeToStream x"
| "TL_incoming_serializeToStream (I_TL_config x) = TL_config_serializeToStream x"
| "TL_incoming_serializeToStream (I_TL_cdnConfig x) = TL_cdnConfig_serializeToStream x"
| "TL_incoming_serializeToStream (I_auth_SentCode x) = auth_SentCode_serializeToStream x"
| "TL_incoming_serializeToStream x = Some"

text \<open>The answer a request expects.\<close>

definition answer :: "('a \<Rightarrow> TL_incoming) \<Rightarrow> (u32 \<Rightarrow> istream \<Rightarrow> ('a option \<times> istream) option) \<Rightarrow>
    u32 \<Rightarrow> istream \<Rightarrow> (TL_incoming option \<times> istream) option" where
  "answer k des constructor s = do { (x, s) \<leftarrow> des constructor s; Some (map_option k x, s) }"

fun deserializeResponse :: "TL_request \<Rightarrow> u32 \<Rightarrow> istream \<Rightarrow> (TL_incoming option \<times> istream) option" where
  "deserializeResponse (R_TL_req_pq x) = answer I_TL_resPQ TL_resPQ_TLdeserialize"
| "deserializeResponse (R_TL_req_pq_multi x) = answer I_TL_resPQ TL_resPQ_TLdeserialize"
| "deserializeResponse (R_TL_req_DH_params x) = answer I_Server_DH_Params Server_DH_Params_TLdeserialize"
| "deserializeResponse (R_TL_set_client_DH_params x) = answer I_Set_client_DH_params_answer Set_client_DH_params_answer_TLdeserialize"
| "deserializeResponse (R_TL_rpc_drop_answer x) = answer I_RpcDropAnswer RpcDropAnswer_TLdeserialize"
| "deserializeResponse (R_TL_get_future_salts x) = answer I_TL_future_salts TL_future_salts_TLdeserialize"
| "deserializeResponse (R_TL_ping x) = answer I_TL_pong TL_pong_TLdeserialize"
| "deserializeResponse (R_TL_ping_delay_disconnect x) = answer I_TL_pong TL_pong_TLdeserialize"
| "deserializeResponse (R_TL_destroy_session x) = answer I_DestroySessionRes DestroySessionRes_TLdeserialize"
| "deserializeResponse (R_TL_auth_bindTempAuthKey x) = answer I_Bool Bool_TLdeserialize"
| "deserializeResponse (R_TL_auth_dropTempAuthKeys x) = answer I_Bool Bool_TLdeserialize"
| "deserializeResponse R_TL_help_getConfig = answer I_TL_config TL_config_TLdeserialize"
| "deserializeResponse R_TL_help_getCdnConfig = answer I_TL_cdnConfig TL_cdnConfig_TLdeserialize"
| "deserializeResponse (R_TL_auth_exportAuthorization x) = answer I_TL_auth_exportedAuthorization TL_auth_exportedAuthorization_TLdeserialize"
| "deserializeResponse (R_TL_auth_importAuthorization x) = answer I_TL_auth_authorization TL_auth_authorization_TLdeserialize"
| "deserializeResponse (R_TL_auth_sendCode x) = answer I_auth_SentCode auth_SentCode_TLdeserialize"
| "deserializeResponse (R_TL_upload_saveFilePart x) = answer I_Bool Bool_TLdeserialize"
| "deserializeResponse (R_TL_upload_getFile x) = answer I_TL_upload_file TL_upload_file_TLdeserialize"

fun isNeedLayer :: "TL_request \<Rightarrow> bool" where
  "isNeedLayer R_TL_help_getConfig = True"
| "isNeedLayer R_TL_help_getCdnConfig = True"
| "isNeedLayer (R_TL_auth_exportAuthorization x) = True"
| "isNeedLayer (R_TL_auth_importAuthorization x) = True"
| "isNeedLayer (R_TL_upload_saveFilePart x) = True"
| "isNeedLayer (R_TL_upload_getFile x) = True"
| "isNeedLayer x = False"

subsection \<open>All objects\<close>

record initConnection_fields =
  initConnection_flags :: u32
  initConnection_api_id :: u32
  initConnection_api_hash :: "byte list"
  initConnection_device_model :: "byte list"
  initConnection_system_version :: "byte list"
  initConnection_app_version :: "byte list"
  initConnection_system_lang_code :: "byte list"
  initConnection_lang_pack :: "byte list"
  initConnection_lang_code :: "byte list"
  initConnection_proxy :: "TL_inputClientProxy option"

datatype TLObject =
    O_request TL_request
  | O_payload TL_payload
  | O_incoming TL_incoming
  | O_TL_api_request "NativeByteBuffer option"
  | O_TL_api_response "NativeByteBuffer option"
  | O_TL_gzip_packed "NativeByteBuffer option" "NativeByteBuffer option" "TLObject option"
  | O_TL_rpc_result ulong "TLObject option"
  | O_TL_msg_container "TL_message list"
  | O_TL_msg_copy "TL_message option"
  | O_TL_message TL_message
  | O_TL_invokeAfterMsg ulong "TLObject option" "TLObject option"
  | O_invokeWithLayer u32 "TLObject option"
  | O_initConnection initConnection_fields "TLObject option"
and TL_message = TL_message (TL_message_msg_id: ulong) (TL_message_seqno: u32) (TL_message_bytes: u32)
    (TL_message_body: "TLObject option") (TL_message_outgoingBody: "TLObject option")
    (TL_message_unparsedBody: "NativeByteBuffer option")

definition TL_message_new :: TL_message where
  "TL_message_new = TL_message 0 0 0 None None None"

definition TL_rpc_result_constructor :: u32 where "TL_rpc_result_constructor = 0xf35c6d01"
definition TL_msg_container_constructor :: u32 where "TL_msg_container_constructor = 0x73f1f8dc"
definition TL_msg_copy_constructor :: u32 where "TL_msg_copy_constructor = 0xe06046b2"
definition TL_message_constructor :: u32 where "TL_message_constructor = 0x5bb8e511"
definition TL_gzip_packed_constructor :: u32 where "TL_gzip_packed_constructor = 0x3072cfa1"
definition TL_invokeAfterMsg_constructor :: u32 where "TL_invokeAfterMsg_constructor = 0xcb9f372d"
definition invokeWithLayer_constructor :: u32 where "invokeWithLayer_constructor = 0xda9b0d0d"
definition initConnection_constructor :: u32 where "initConnection_constructor = 0x7d7f18cf"

definition TL_api_request_serializeToStream :: "NativeByteBuffer option \<Rightarrow> NativeByteBuffer \<Rightarrow> NativeByteBuffer option" where
  "TL_api_request_serializeToStream request b = do {
     request \<leftarrow> request;
     (request, b) \<leftarrow> writeBytes_buffer (rewind request) b;
     Some b
   }"

definition TL_gzip_packed_serializeToStream :: "NativeByteBuffer option \<Rightarrow> NativeByteBuffer \<Rightarrow> NativeByteBuffer option" where
  "TL_gzip_packed_serializeToStream packed_data_to_send b = do {
     b \<leftarrow> writeInt32 TL_gzip_packed_constructor b;
     b \<leftarrow> writeByteArray_buffer_ptr packed_data_to_send b;
     Some b
   }"

text \<open>\<open>initConnection::serializeToStream\<close> up to the query.\<close>

definition initConnection_head :: "initConnection_fields \<Rightarrow> NativeByteBuffer \<Rightarrow> NativeByteBuffer option" where
  "initConnection_head x b = do {
     b \<leftarrow> writeInt32 initConnection_constructor b;
     b \<leftarrow> writeInt32 (initConnection_flags x) b;
     b \<leftarrow> writeInt32 (initConnection_api_id x) b;
     b \<leftarrow> (if initConnection_flags x AND 2 \<noteq> 0 then writeString (initConnection_api_hash x) b else Some b);
     b \<leftarrow> writeString (initConnection_device_model x) b;
     b \<leftarrow> writeString (initConnection_system_version x) b;
     b \<leftarrow> writeString (initConnection_app_version x) b;
     b \<leftarrow> writeString (initConnection_system_lang_code x) b;
     b \<leftarrow> writeString (initConnection_lang_pack x) b;
     b \<leftarrow> writeString (initConnection_lang_code x) b;
     b \<leftarrow> (if initConnection_flags x AND 1 \<noteq> 0
          then call_ptr TL_inputClientProxy_serializeToStream (initConnection_proxy x) b else Some b);
     Some b
   }"

fun serializeToStream :: "TLObject \<Rightarrow> NativeByteBuffer \<Rightarrow> NativeByteBuffer option"
and TL_message_serializeToStream :: "TL_message \<Rightarrow> NativeByteBuffer \<Rightarrow> NativeByteBuffer option"
and messages_serializeToStream :: "nat \<Rightarrow> TL_message list \<Rightarrow> NativeByteBuffer \<Rightarrow> NativeByteBuffer option"
and pointer_serializeToStream :: "TLObject option \<Rightarrow> NativeByteBuffer \<Rightarrow> NativeByteBuffer option" where
  "serializeToStream (O_request x) b = TL_request_serializeToStream x b"
| "serializeToStream (O_payload x) b = TL_payload_serializeToStream x b"
| "serializeToStream (O_incoming x) b = TL_incoming_serializeToStream x b"
| "serializeToStream (O_TL_api_request request) b = TL_api_request_serializeToStream request b"
| "serializeToStream (O_TL_api_response response) b = Some b"
| "serializeToStream (O_TL_gzip_packed packed_data_to_send packed_data originalRequest) b =
     TL_gzip_packed_serializeToStream packed_data_to_send b"
| "serializeToStream (O_TL_rpc_result req_msg_id result) b = Some b"
| "serializeToStream (O_TL_msg_container messages) b = do {
     b \<leftarrow> writeInt32 TL_msg_container_constructor b;
     let count = (word_of_nat (length messages) :: u32);
     b \<leftarrow> writeInt32 count b;
     messages_serializeToStream (unat count) messages b
   }"
| "serializeToStream (O_TL_msg_copy orig_message) b = do {
     b \<leftarrow> writeInt32 TL_msg_copy_constructor b;
     (case orig_message of None \<Rightarrow> None | Some m \<Rightarrow> TL_message_serializeToStream m b)
   }"
| "serializeToStream (O_TL_message m) b = TL_message_serializeToStream m b"
| "serializeToStream (O_TL_invokeAfterMsg msg_id outgoingQuery query) b = do {
     b \<leftarrow> writeInt32 TL_invokeAfterMsg_constructor b;
     b \<leftarrow> writeInt64 msg_id b;
     (case outgoingQuery of Some q \<Rightarrow> serializeToStream q b | None \<Rightarrow> pointer_serializeToStream query b)
   }"
| "serializeToStream (O_invokeWithLayer layer query) b = do {
     b \<leftarrow> writeInt32 invokeWithLayer_constructor b;
     b \<leftarrow> writeInt32 layer b;
     pointer_serializeToStream query b
   }"
| "serializeToStream (O_initConnection x query) b = do {
     b \<leftarrow> initConnection_head x b;
     pointer_serializeToStream query b
   }"
| "TL_message_serializeToStream (TL_message msg_id seqno bytes body outgoingBody unparsedBody) b = do {
     b \<leftarrow> writeInt64 msg_id b;
     b \<leftarrow> writeInt32 seqno b;
     b \<leftarrow> writeInt32 bytes b;
     (case outgoingBody of Some x \<Rightarrow> serializeToStream x b | None \<Rightarrow> pointer_serializeToStream body b)
   }"
| "messages_serializeToStream 0 ms b = Some b"
| "messages_serializeToStream (Suc n) [] b = None"
| "messages_serializeToStream (Suc n) (m # ms) b = do {
     b \<leftarrow> TL_message_serializeToStream m b;
     messages_serializeToStream n ms b
   }"
| "pointer_serializeToStream None b = None"
| "pointer_serializeToStream (Some x) b = serializeToStream x b"

subsection \<open>Reading any object\<close>

text \<open>\<open>ConnectionsManager::TLdeserialize\<close>, for a given request pointer and length.\<close>

type_synonym deserializer = "TLObject option \<Rightarrow> u32 \<Rightarrow> istream \<Rightarrow> (TLObject option \<times> istream) option"

definition stream_skip :: "u32 \<Rightarrow> istream \<Rightarrow> istream" where
  "stream_skip n s = s\<lparr>is_buf := skip n (is_buf s)\<rparr>"

definition stream_position :: "u32 \<Rightarrow> istream \<Rightarrow> istream" where
  "stream_position p s = s\<lparr>is_buf := position_set p (is_buf s)\<rparr>"

definition stream_slice :: "istream \<Rightarrow> u32 \<Rightarrow> u32 \<Rightarrow> NativeByteBuffer option" where
  "stream_slice s back len =
     (if nb_position (is_buf s) < back \<or> unat (nb_position (is_buf s) - back) > length (nb_buffer (is_buf s)) then None
      else Some (NativeByteBuffer_slice (drop (unat (nb_position (is_buf s) - back)) (nb_buffer (is_buf s))) len))"

definition TL_api_response_readParamsEx :: "u32 \<Rightarrow> istream \<Rightarrow> (NativeByteBuffer option \<times> istream) option" where
  "TL_api_response_readParamsEx bytes s = do {
     response \<leftarrow> stream_slice s 4 bytes;
     Some (Some response, stream_skip (bytes - 4) s)
   }"

definition TL_message_readParams :: "deserializer \<Rightarrow> TL_message \<Rightarrow> istream \<Rightarrow> (TL_message \<times> istream) option" where
  "TL_message_readParams deserialize x s = do {
     (msg_id, s) \<leftarrow> readInt64 s;
     (seqno, s) \<leftarrow> readInt32 s;
     (bytes, s) \<leftarrow> readInt32 s;
     (object, s) \<leftarrow> deserialize None bytes s;
     (case object of
        None \<Rightarrow> do {
          unparsedBody \<leftarrow> stream_slice s 0 bytes;
          Some (TL_message msg_id seqno bytes (TL_message_body x) (TL_message_outgoingBody x) (Some unparsedBody),
                stream_skip bytes s)
        }
      | Some body \<Rightarrow>
          Some (TL_message msg_id seqno bytes (Some body) (TL_message_outgoingBody x) (TL_message_unparsedBody x), s))
   }"

definition TL_message_TLdeserialize :: "deserializer \<Rightarrow> u32 \<Rightarrow> istream \<Rightarrow> (TL_message option \<times> istream) option" where
  "TL_message_TLdeserialize deserialize constructor s =
     (if TL_message_constructor \<noteq> constructor then Some (None, fail s)
      else do { (x, s) \<leftarrow> TL_message_readParams deserialize TL_message_new s; Some (Some x, s) })"

definition TL_msg_copy_readParams :: "deserializer \<Rightarrow> istream \<Rightarrow> (TL_message option \<times> istream) option" where
  "TL_msg_copy_readParams deserialize s = read_object (TL_message_TLdeserialize deserialize) s"

definition TL_msg_container_readParams :: "deserializer \<Rightarrow> istream \<Rightarrow> (TL_message list \<times> istream) option" where
  "TL_msg_container_readParams deserialize s = do {
     (count, s) \<leftarrow> readUint32 s;
     ((messages, r), s) \<leftarrow> read_until_error (unat count) (TL_message_readParams deserialize TL_message_new) s;
     Some (messages, s)
   }"

definition TL_msg_copy_TLdeserialize :: "deserializer \<Rightarrow> u32 \<Rightarrow> istream \<Rightarrow> (TLObject option \<times> istream) option" where
  "TL_msg_copy_TLdeserialize deserialize constructor s =
     (if TL_msg_copy_constructor \<noteq> constructor then Some (None, fail s)
      else do { (x, s) \<leftarrow> TL_msg_copy_readParams deserialize s; Some (Some (O_TL_msg_copy x), s) })"

definition TL_msg_container_TLdeserialize :: "deserializer \<Rightarrow> u32 \<Rightarrow> istream \<Rightarrow> (TLObject option \<times> istream) option" where
  "TL_msg_container_TLdeserialize deserialize constructor s =
     (if TL_msg_container_constructor \<noteq> constructor then Some (None, fail s)
      else do { (x, s) \<leftarrow> TL_msg_container_readParams deserialize s; Some (Some (O_TL_msg_container x), s) })"

text \<open>\<open>requests\<close> is \<open>ConnectionsManager::getRequestWithMessageId\<close>.\<close>

definition TL_rpc_result_readParamsEx ::
    "deserializer \<Rightarrow> (ulong \<Rightarrow> TLObject option) \<Rightarrow> u32 \<Rightarrow> istream \<Rightarrow> (TLObject \<times> istream) option" where
  "TL_rpc_result_readParamsEx deserialize requests bytes s = do {
     (req_msg_id, s) \<leftarrow> readInt64 s;
     (object, s) \<leftarrow> deserialize (requests req_msg_id) (bytes - 12) s;
     (case object of
        Some result \<Rightarrow> Some (O_TL_rpc_result req_msg_id (Some result), s)
      | None \<Rightarrow> Some (O_TL_rpc_result req_msg_id None, fail s))
   }"

definition TL_gzip_packed_readParams :: "istream \<Rightarrow> (TLObject \<times> istream) option" where
  "TL_gzip_packed_readParams s = do {
     (packed_data, s) \<leftarrow> readByteBuffer False s;
     Some (O_TL_gzip_packed None packed_data None, s)
   }"

definition parsed :: "('a \<Rightarrow> TLObject) \<Rightarrow> ('a \<times> istream) option \<Rightarrow> (TLObject option \<times> istream) option" where
  "parsed k r = do { (x, s) \<leftarrow> r; Some (Some (k x), s) }"

definition TLClassStore_TLdeserialize ::
    "deserializer \<Rightarrow> (ulong \<Rightarrow> TLObject option) \<Rightarrow> u32 \<Rightarrow> u32 \<Rightarrow> istream \<Rightarrow> (TLObject option \<times> istream) option" where
  "TLClassStore_TLdeserialize deserialize requests bytes constructor s =
     (if constructor = TL_msgs_ack_constructor then
        parsed (O_incoming \<circ> I_TL_msgs_ack) (TL_msgs_ack_readParams TL_msgs_ack_new s)
      else if constructor = TL_msg_container_constructor then
        parsed O_TL_msg_container (TL_msg_container_readParams deserialize s)
      else if constructor = TL_pong_constructor then
        parsed (O_incoming \<circ> I_TL_pong) (TL_pong_readParams TL_pong_new s)
      else if constructor = TL_new_session_created_constructor then
        parsed (O_incoming \<circ> I_TL_new_session_created) (TL_new_session_created_readParams TL_new_session_created_new s)
      else if constructor = MsgsStateInfo_constructor then
        parsed (O_incoming \<circ> I_MsgsStateInfo) (MsgsStateInfo_readParams MsgsStateInfo_new s)
      else if constructor = TL_rpc_result_constructor then
        parsed id (TL_rpc_result_readParamsEx deserialize requests bytes s)
      else if constructor = TL_bad_msg_notification_constructor then
        parsed (O_incoming \<circ> I_BadMsgNotification \<circ> TL_bad_msg_notification)
          (TL_bad_msg_notification_readParams BadMsgNotification_fields_new s)
      else if constructor = TL_bad_server_salt_constructor then
        parsed (O_incoming \<circ> I_BadMsgNotification \<circ> TL_bad_server_salt)
          (TL_bad_server_salt_readParams BadMsgNotification_fields_new s)
      else if constructor = TL_msg_detailed_info_constructor then
        parsed (O_incoming \<circ> I_MsgDetailedInfo \<circ> TL_msg_detailed_info)
          (TL_msg_detailed_info_readParams MsgDetailedInfo_fields_new s)
      else if constructor = TL_msg_new_detailed_info_constructor then
        parsed (O_incoming \<circ> I_MsgDetailedInfo \<circ> TL_msg_new_detailed_info)
          (TL_msg_new_detailed_info_readParams MsgDetailedInfo_fields_new s)
      else if constructor = TL_gzip_packed_constructor then
        parsed id (TL_gzip_packed_readParams s)
      else if constructor = TL_error_constructor then
        parsed (O_incoming \<circ> I_TL_error) (TL_error_readParams TL_error_new s)
      else if constructor = TL_rpc_error_constructor then
        parsed (O_incoming \<circ> I_RpcError \<circ> TL_rpc_error) (TL_rpc_error_readParams RpcError_fields_new s)
      else if constructor = TL_rpc_req_error_constructor then
        parsed (O_incoming \<circ> I_RpcError \<circ> TL_rpc_req_error) (TL_rpc_req_error_readParams RpcError_fields_new s)
      else if constructor = TL_future_salts_constructor then
        parsed (O_incoming \<circ> I_TL_future_salts) (TL_future_salts_readParams TL_future_salts_new s)
      else if constructor = TL_destroy_session_ok_constructor then
        parsed (O_incoming \<circ> I_DestroySessionRes \<circ> TL_destroy_session_ok)
          (TL_destroy_session_ok_readParams DestroySessionRes_fields_new s)
      else if constructor = TL_destroy_session_none_constructor then
        parsed (O_incoming \<circ> I_DestroySessionRes \<circ> TL_destroy_session_none)
          (TL_destroy_session_none_readParams DestroySessionRes_fields_new s)
      else if constructor = TL_updatesTooLong_constructor then
        Some (Some (O_incoming I_TL_updatesTooLong), s)
      else Some (None, s))"

text \<open>Deleting an object deletes what it owns and returns its buffer to the pool.  Among the objects a stream can
  hold only a downloaded file part owns one; the parts of an object are deleted first to last.\<close>

definition delete_incoming :: "TL_incoming \<Rightarrow> BuffersStorage \<Rightarrow> BuffersStorage" where
  "delete_incoming x st = (case x of I_TL_upload_file f \<Rightarrow> TL_upload_file_delete f st | _ \<Rightarrow> st)"

fun delete_object :: "TLObject \<Rightarrow> BuffersStorage \<Rightarrow> BuffersStorage"
and delete_messages :: "TL_message list \<Rightarrow> BuffersStorage \<Rightarrow> BuffersStorage" where
  "delete_object (O_incoming x) st = delete_incoming x st"
| "delete_object (O_TL_rpc_result req_msg_id (Some x)) st = delete_object x st"
| "delete_object (O_TL_msg_container ms) st = delete_messages ms st"
| "delete_object x st = st"
| "delete_messages [] st = st"
| "delete_messages (TL_message msg_id seqno bytes (Some x) outgoingBody unparsedBody # ms) st =
     delete_messages ms (delete_object x st)"
| "delete_messages (TL_message msg_id seqno bytes None outgoingBody unparsedBody # ms) st = delete_messages ms st"

definition stream_delete :: "TLObject option \<Rightarrow> istream \<Rightarrow> istream" where
  "stream_delete p s = (case p of None \<Rightarrow> s | Some x \<Rightarrow> s\<lparr>is_pool := delete_object x (is_pool s)\<rparr>)"

text \<open>The request side of \<open>ConnectionsManager::TLdeserialize\<close>: only a raw API request and the requests of this
  library have an answer type; the other classes inherit \<open>TLObject::deserializeResponse\<close>, which returns null.\<close>

definition request_response :: "TLObject \<Rightarrow> u32 \<Rightarrow> u32 \<Rightarrow> istream \<Rightarrow> (TLObject option \<times> istream) option" where
  "request_response request bytes constructor s =
     (case request of
        O_TL_api_request r \<Rightarrow> parsed O_TL_api_response (TL_api_response_readParamsEx bytes s)
      | O_request r \<Rightarrow> do {
          (object, s) \<leftarrow> deserializeResponse r constructor s;
          let object = map_option O_incoming object;
          (if object \<noteq> None \<and> is_error s then Some (None, stream_delete object s)
           else Some (object, s))
        }
      | _ \<Rightarrow> Some (None, s))"

text \<open>The local \<open>error\<close> of the call starts clear, and the caller's flag is untouched.\<close>

definition TLdeserialize_body ::
    "deserializer \<Rightarrow> (ulong \<Rightarrow> TLObject option) \<Rightarrow> TLObject option \<Rightarrow> u32 \<Rightarrow> istream \<Rightarrow> (TLObject option \<times> istream) option" where
  "TLdeserialize_body deserialize requests request bytes s0 = do {
     let position = nb_position (is_buf s0);
     let back = (\<lambda>s. stream_position position (s\<lparr>is_error := is_error s0\<rparr>));
     (constructor, s) \<leftarrow> readUint32 (s0\<lparr>is_error := False\<rparr>);
     if is_error s then Some (None, back s)
     else do {
       (object, s) \<leftarrow> TLClassStore_TLdeserialize deserialize requests bytes constructor s;
       if is_error s then Some (None, back (stream_delete object s))
       else (case object of
           Some x \<Rightarrow> Some (Some x, s\<lparr>is_error := is_error s0\<rparr>)
         | None \<Rightarrow> (case request of
             None \<Rightarrow> Some (None, back s)
           | Some r \<Rightarrow> do {
               (object, s) \<leftarrow> request_response r bytes constructor s;
               (case object of
                  None \<Rightarrow> Some (None, back s)
                | Some x \<Rightarrow> Some (Some x, s\<lparr>is_error := is_error s0\<rparr>))
             }))
     }
   }"

text \<open>The recursion through containers, bounded by \<open>depth\<close>; \<^const>\<open>None\<close> is also an unfinished call.\<close>

primrec TLdeserialize :: "nat \<Rightarrow> (ulong \<Rightarrow> TLObject option) \<Rightarrow> deserializer" where
  "TLdeserialize 0 requests request bytes s = None"
| "TLdeserialize (Suc depth) requests request bytes s =
     TLdeserialize_body (TLdeserialize depth requests) requests request bytes s"

end
