(* ===== verification/Scheme_Codec.thy ===== *)
theory Scheme_Codec
  imports MTProto_Scheme Api_Scheme
begin

unbundle bit_operations_syntax

section \<open>What the scheme classes write and read\<close>

text \<open>
  For every class its encoding on the wire (\<open>C_params\<close> without and \<open>C_wire\<close> with the constructor number, written down
  from the layout of the protocol) and when an object fits it (\<open>C_wf\<close>: pointers set, strings and byte arrays below
  \<open>2^24\<close> bytes, vectors below \<open>2^31\<close> entries, fields that are not transmitted as \<open>new\<close> leaves them), with the lemmas
  that the class's methods write and read exactly that, and read anything safely.  Each class is an interpretation of
  \<open>tl_reader\<close> or \<open>tl_codec\<close>, whose facts carry the classes that contain it.
\<close>

lemma TL_boolTrue_emits [emit_rules]: "emits (TL_boolTrue_serializeToStream) (int_bytes TL_boolTrue_constructor)"
  unfolding TL_boolTrue_serializeToStream_def
  by (rule emits_eq, (rule emit_intros emit_rules | simp add: append_Nil2; fail)+)

lemma TL_boolFalse_emits [emit_rules]: "emits (TL_boolFalse_serializeToStream) (int_bytes TL_boolFalse_constructor)"
  unfolding TL_boolFalse_serializeToStream_def
  by (rule emits_eq, (rule emit_intros emit_rules | simp add: append_Nil2; fail)+)

fun Bool_wire :: "Bool \<Rightarrow> byte list" where
  "Bool_wire (TL_boolTrue) = int_bytes TL_boolTrue_constructor"
| "Bool_wire (TL_boolFalse) = int_bytes TL_boolFalse_constructor"

fun Bool_wf :: "Bool \<Rightarrow> bool" where
  "Bool_wf (TL_boolTrue) = True"
| "Bool_wf (TL_boolFalse) = True"

lemma Bool_reads:
  assumes wf: "Bool_wf x"
  shows "parses (read_object Bool_TLdeserialize) (Bool_wire x) (Some x)"
proof (cases x)
  case TL_boolTrue
  then show ?thesis unfolding TL_boolTrue Bool_wire.simps
    by (intro parses_read_object0) (simp add: Bool_TLdeserialize_def TL_boolTrue_constructor_def TL_boolFalse_constructor_def)
next
  case TL_boolFalse
  then show ?thesis unfolding TL_boolFalse Bool_wire.simps
    by (intro parses_read_object0) (simp add: Bool_TLdeserialize_def TL_boolTrue_constructor_def TL_boolFalse_constructor_def)
qed

lemma Bool_des_safe: "safe (Bool_TLdeserialize c)"
  unfolding Bool_TLdeserialize_def by (intro safe_intros safe_rules)

lemma Bool_emits: "Bool_wf x \<Longrightarrow> emits (Bool_serializeToStream x) (Bool_wire x)"
  by (cases x) (simp_all add: TL_boolTrue_emits TL_boolFalse_emits)

interpretation codec_Bool: tl_codec Bool_TLdeserialize Bool_wire Bool_wf Bool_serializeToStream
  by unfold_locales (simp_all add: Bool_reads Bool_des_safe Bool_emits)

lemmas Bool_rules [emit_rules] = codec_Bool.emits_ptr codec_Bool.emits_list

lemmas Bool_read_rules [parse_rules] = codec_Bool.reads codec_Bool.reads_ptr codec_Bool.reads_list

lemmas Bool_safe_rules [safe_rules] = codec_Bool.safe_des codec_Bool.safe_reads

definition TL_dcOption_params :: "TL_dcOption \<Rightarrow> byte list" where
  "TL_dcOption_params x = int_bytes (TL_dcOption_flags x) @
     int_bytes (TL_dcOption_id x) @
     tl_bytes (TL_dcOption_ip_address x) @
     int_bytes (TL_dcOption_port x) @
     (if TL_dcOption_flags x AND 1024 \<noteq> 0 then of_ptr tl_bytes (TL_dcOption_secret x) else [])"

definition TL_dcOption_wf :: "TL_dcOption \<Rightarrow> bool" where
  "TL_dcOption_wf x \<longleftrightarrow> (TL_dcOption_ipv6 x \<longleftrightarrow> TL_dcOption_flags x AND 1 \<noteq> 0) \<and>
     (TL_dcOption_media_only x \<longleftrightarrow> TL_dcOption_flags x AND 2 \<noteq> 0) \<and>
     (TL_dcOption_tcpo_only x \<longleftrightarrow> TL_dcOption_flags x AND 4 \<noteq> 0) \<and>
     (TL_dcOption_cdn x \<longleftrightarrow> TL_dcOption_flags x AND 8 \<noteq> 0) \<and>
     (TL_dcOption_isStatic x \<longleftrightarrow> TL_dcOption_flags x AND 16 \<noteq> 0) \<and>
     length (TL_dcOption_ip_address x) < 2 ^ 24 \<and>
     (if TL_dcOption_flags x AND 1024 \<noteq> 0 then ok_bytes (TL_dcOption_secret x) else TL_dcOption_secret x = None)"

definition TL_dcOption_wire :: "TL_dcOption \<Rightarrow> byte list" where
  "TL_dcOption_wire x = int_bytes TL_dcOption_constructor @ TL_dcOption_params x"

lemma TL_dcOption_setFlags_id:
  assumes wf: "TL_dcOption_wf x"
  shows "TL_dcOption_setFlags x = x"
proof -
  have f1: "(if TL_dcOption_ipv6 x then TL_dcOption_flags x OR 1 else TL_dcOption_flags x AND NOT 1) = TL_dcOption_flags x"
    using wf by (intro set_flag [of 1 0]) (simp_all add: TL_dcOption_wf_def)
  have f2: "(if TL_dcOption_media_only x then TL_dcOption_flags x OR 2 else TL_dcOption_flags x AND NOT 2) = TL_dcOption_flags x"
    using wf by (intro set_flag [of 2 1]) (simp_all add: TL_dcOption_wf_def)
  have f4: "(if TL_dcOption_tcpo_only x then TL_dcOption_flags x OR 4 else TL_dcOption_flags x AND NOT 4) = TL_dcOption_flags x"
    using wf by (intro set_flag [of 4 2]) (simp_all add: TL_dcOption_wf_def)
  have f8: "(if TL_dcOption_cdn x then TL_dcOption_flags x OR 8 else TL_dcOption_flags x AND NOT 8) = TL_dcOption_flags x"
    using wf by (intro set_flag [of 8 3]) (simp_all add: TL_dcOption_wf_def)
  have f16: "(if TL_dcOption_isStatic x then TL_dcOption_flags x OR 16 else TL_dcOption_flags x AND NOT 16) = TL_dcOption_flags x"
    using wf by (intro set_flag [of 16 4]) (simp_all add: TL_dcOption_wf_def)
  have u: "x\<lparr>TL_dcOption_flags := TL_dcOption_flags x\<rparr> = x" by simp
  show ?thesis unfolding TL_dcOption_setFlags_def Let_def by (simp only: f1 f2 f4 f8 f16 u)
qed

lemma TL_dcOption_emits [emit_rules]: "TL_dcOption_wf x \<Longrightarrow> emits (TL_dcOption_serializeToStream x) (TL_dcOption_wire x)"
  unfolding TL_dcOption_serializeToStream_def TL_dcOption_wire_def TL_dcOption_params_def Let_def
  by (simp only:  TL_dcOption_setFlags_id, rule emits_eq, (rule emit_intros emit_rules | simp add: TL_dcOption_wf_def; fail)+)

lemma TL_dcOption_parses [parse_rules]: "TL_dcOption_wf x \<Longrightarrow> parses (TL_dcOption_readParams TL_dcOption_new) (TL_dcOption_params x) x"
  by (rule parses_nil, unfold TL_dcOption_readParams_def TL_dcOption_params_def Let_def append_assoc, 
    (rule parse_intros parse_rules | simp add: TL_dcOption_wf_def TL_dcOption_new_def; fail | rule TL_dcOption.equality)+)

lemma TL_dcOption_safe [safe_rules]: "safe (TL_dcOption_readParams x)"
  unfolding TL_dcOption_readParams_def Let_def by (intro safe_intros safe_rules)

lemma TL_dcOption_reads: "TL_dcOption_wf x \<Longrightarrow> parses (read_object TL_dcOption_TLdeserialize) (TL_dcOption_wire x) (Some x)"
  unfolding TL_dcOption_wire_def TL_dcOption_TLdeserialize_def [abs_def] by (rule parses_class) (rule TL_dcOption_parses)

lemma TL_dcOption_des_safe: "safe (TL_dcOption_TLdeserialize c)"
  unfolding TL_dcOption_TLdeserialize_def by (intro safe_intros safe_rules)

interpretation codec_TL_dcOption: tl_codec TL_dcOption_TLdeserialize TL_dcOption_wire TL_dcOption_wf TL_dcOption_serializeToStream
  by unfold_locales (simp_all add: TL_dcOption_reads TL_dcOption_des_safe TL_dcOption_emits)

lemmas TL_dcOption_rules [emit_rules] = codec_TL_dcOption.emits_ptr codec_TL_dcOption.emits_list

lemmas TL_dcOption_read_rules [parse_rules] = codec_TL_dcOption.reads codec_TL_dcOption.reads_ptr codec_TL_dcOption.reads_list

lemmas TL_dcOption_safe_rules [safe_rules] = codec_TL_dcOption.safe_des codec_TL_dcOption.safe_reads

definition TL_disabledFeature_params :: "TL_disabledFeature \<Rightarrow> byte list" where
  "TL_disabledFeature_params x = tl_bytes (TL_disabledFeature_feature x) @
     tl_bytes (TL_disabledFeature_description x)"

definition TL_disabledFeature_wf :: "TL_disabledFeature \<Rightarrow> bool" where
  "TL_disabledFeature_wf x \<longleftrightarrow> length (TL_disabledFeature_feature x) < 2 ^ 24 \<and>
     length (TL_disabledFeature_description x) < 2 ^ 24"

definition TL_disabledFeature_wire :: "TL_disabledFeature \<Rightarrow> byte list" where
  "TL_disabledFeature_wire x = int_bytes TL_disabledFeature_constructor @ TL_disabledFeature_params x"

lemma TL_disabledFeature_emits [emit_rules]: "TL_disabledFeature_wf x \<Longrightarrow> emits (TL_disabledFeature_serializeToStream x) (TL_disabledFeature_wire x)"
  unfolding TL_disabledFeature_serializeToStream_def TL_disabledFeature_wire_def TL_disabledFeature_params_def
  by (rule emits_eq, (rule emit_intros emit_rules | simp add: TL_disabledFeature_wf_def; fail)+)

lemma TL_disabledFeature_parses [parse_rules]: "TL_disabledFeature_wf x \<Longrightarrow> parses (TL_disabledFeature_readParams TL_disabledFeature_new) (TL_disabledFeature_params x) x"
  by (rule parses_nil, unfold TL_disabledFeature_readParams_def TL_disabledFeature_params_def Let_def append_assoc, 
    (rule parse_intros parse_rules | simp add: TL_disabledFeature_wf_def TL_disabledFeature_new_def; fail | rule TL_disabledFeature.equality)+)

lemma TL_disabledFeature_safe [safe_rules]: "safe (TL_disabledFeature_readParams x)"
  unfolding TL_disabledFeature_readParams_def Let_def by (intro safe_intros safe_rules)

lemma TL_disabledFeature_reads: "TL_disabledFeature_wf x \<Longrightarrow> parses (read_object TL_disabledFeature_TLdeserialize) (TL_disabledFeature_wire x) (Some x)"
  unfolding TL_disabledFeature_wire_def TL_disabledFeature_TLdeserialize_def [abs_def] by (rule parses_class) (rule TL_disabledFeature_parses)

lemma TL_disabledFeature_des_safe: "safe (TL_disabledFeature_TLdeserialize c)"
  unfolding TL_disabledFeature_TLdeserialize_def by (intro safe_intros safe_rules)

interpretation codec_TL_disabledFeature: tl_codec TL_disabledFeature_TLdeserialize TL_disabledFeature_wire TL_disabledFeature_wf TL_disabledFeature_serializeToStream
  by unfold_locales (simp_all add: TL_disabledFeature_reads TL_disabledFeature_des_safe TL_disabledFeature_emits)

lemmas TL_disabledFeature_rules [emit_rules] = codec_TL_disabledFeature.emits_ptr codec_TL_disabledFeature.emits_list

lemmas TL_disabledFeature_read_rules [parse_rules] = codec_TL_disabledFeature.reads codec_TL_disabledFeature.reads_ptr codec_TL_disabledFeature.reads_list

lemmas TL_disabledFeature_safe_rules [safe_rules] = codec_TL_disabledFeature.safe_des codec_TL_disabledFeature.safe_reads

definition TL_cdnPublicKey_params :: "TL_cdnPublicKey \<Rightarrow> byte list" where
  "TL_cdnPublicKey_params x = int_bytes (TL_cdnPublicKey_dc_id x) @
     tl_bytes (TL_cdnPublicKey_public_key x)"

definition TL_cdnPublicKey_wf :: "TL_cdnPublicKey \<Rightarrow> bool" where
  "TL_cdnPublicKey_wf x \<longleftrightarrow> length (TL_cdnPublicKey_public_key x) < 2 ^ 24"

definition TL_cdnPublicKey_wire :: "TL_cdnPublicKey \<Rightarrow> byte list" where
  "TL_cdnPublicKey_wire x = int_bytes TL_cdnPublicKey_constructor @ TL_cdnPublicKey_params x"

lemma TL_cdnPublicKey_emits [emit_rules]: "TL_cdnPublicKey_wf x \<Longrightarrow> emits (TL_cdnPublicKey_serializeToStream x) (TL_cdnPublicKey_wire x)"
  unfolding TL_cdnPublicKey_serializeToStream_def TL_cdnPublicKey_wire_def TL_cdnPublicKey_params_def
  by (rule emits_eq, (rule emit_intros emit_rules | simp add: TL_cdnPublicKey_wf_def; fail)+)

lemma TL_cdnPublicKey_parses [parse_rules]: "TL_cdnPublicKey_wf x \<Longrightarrow> parses (TL_cdnPublicKey_readParams TL_cdnPublicKey_new) (TL_cdnPublicKey_params x) x"
  by (rule parses_nil, unfold TL_cdnPublicKey_readParams_def TL_cdnPublicKey_params_def Let_def append_assoc, 
    (rule parse_intros parse_rules | simp add: TL_cdnPublicKey_wf_def TL_cdnPublicKey_new_def; fail | rule TL_cdnPublicKey.equality)+)

lemma TL_cdnPublicKey_safe [safe_rules]: "safe (TL_cdnPublicKey_readParams x)"
  unfolding TL_cdnPublicKey_readParams_def Let_def by (intro safe_intros safe_rules)

lemma TL_cdnPublicKey_reads: "TL_cdnPublicKey_wf x \<Longrightarrow> parses (read_object TL_cdnPublicKey_TLdeserialize) (TL_cdnPublicKey_wire x) (Some x)"
  unfolding TL_cdnPublicKey_wire_def TL_cdnPublicKey_TLdeserialize_def [abs_def] by (rule parses_class) (rule TL_cdnPublicKey_parses)

lemma TL_cdnPublicKey_des_safe: "safe (TL_cdnPublicKey_TLdeserialize c)"
  unfolding TL_cdnPublicKey_TLdeserialize_def by (intro safe_intros safe_rules)

interpretation codec_TL_cdnPublicKey: tl_codec TL_cdnPublicKey_TLdeserialize TL_cdnPublicKey_wire TL_cdnPublicKey_wf TL_cdnPublicKey_serializeToStream
  by unfold_locales (simp_all add: TL_cdnPublicKey_reads TL_cdnPublicKey_des_safe TL_cdnPublicKey_emits)

lemmas TL_cdnPublicKey_rules [emit_rules] = codec_TL_cdnPublicKey.emits_ptr codec_TL_cdnPublicKey.emits_list

lemmas TL_cdnPublicKey_read_rules [parse_rules] = codec_TL_cdnPublicKey.reads codec_TL_cdnPublicKey.reads_ptr codec_TL_cdnPublicKey.reads_list

lemmas TL_cdnPublicKey_safe_rules [safe_rules] = codec_TL_cdnPublicKey.safe_des codec_TL_cdnPublicKey.safe_reads

definition TL_cdnConfig_params :: "TL_cdnConfig \<Rightarrow> byte list" where
  "TL_cdnConfig_params x = int_bytes 0x1cb5c415 @
     int_bytes (word_of_nat (length (TL_cdnConfig_public_keys x))) @ concat (map TL_cdnPublicKey_wire (TL_cdnConfig_public_keys x))"

definition TL_cdnConfig_wf :: "TL_cdnConfig \<Rightarrow> bool" where
  "TL_cdnConfig_wf x \<longleftrightarrow> length (TL_cdnConfig_public_keys x) < 2 ^ 31 \<and>
     (\<forall>y \<in> set (TL_cdnConfig_public_keys x). TL_cdnPublicKey_wf y)"

definition TL_cdnConfig_wire :: "TL_cdnConfig \<Rightarrow> byte list" where
  "TL_cdnConfig_wire x = int_bytes TL_cdnConfig_constructor @ TL_cdnConfig_params x"

lemma TL_cdnConfig_emits [emit_rules]: "TL_cdnConfig_wf x \<Longrightarrow> emits (TL_cdnConfig_serializeToStream x) (TL_cdnConfig_wire x)"
  unfolding TL_cdnConfig_serializeToStream_def TL_cdnConfig_wire_def TL_cdnConfig_params_def
  by (rule emits_eq, (rule emit_intros emit_rules | simp add: TL_cdnConfig_wf_def; fail)+)

lemma TL_cdnConfig_parses [parse_rules]: "TL_cdnConfig_wf x \<Longrightarrow> parses (TL_cdnConfig_readParams TL_cdnConfig_new) (TL_cdnConfig_params x) x"
  by (rule parses_nil, unfold TL_cdnConfig_readParams_def TL_cdnConfig_params_def Let_def append_assoc, 
    (rule parse_intros parse_rules | simp add: TL_cdnConfig_wf_def TL_cdnConfig_new_def; fail | rule TL_cdnConfig.equality)+)

lemma TL_cdnConfig_safe [safe_rules]: "safe (TL_cdnConfig_readParams x)"
  unfolding TL_cdnConfig_readParams_def Let_def by (intro safe_intros safe_rules)

lemma TL_cdnConfig_reads: "TL_cdnConfig_wf x \<Longrightarrow> parses (read_object TL_cdnConfig_TLdeserialize) (TL_cdnConfig_wire x) (Some x)"
  unfolding TL_cdnConfig_wire_def TL_cdnConfig_TLdeserialize_def [abs_def] by (rule parses_class) (rule TL_cdnConfig_parses)

lemma TL_cdnConfig_des_safe: "safe (TL_cdnConfig_TLdeserialize c)"
  unfolding TL_cdnConfig_TLdeserialize_def by (intro safe_intros safe_rules)

interpretation codec_TL_cdnConfig: tl_codec TL_cdnConfig_TLdeserialize TL_cdnConfig_wire TL_cdnConfig_wf TL_cdnConfig_serializeToStream
  by unfold_locales (simp_all add: TL_cdnConfig_reads TL_cdnConfig_des_safe TL_cdnConfig_emits)

lemmas TL_cdnConfig_rules [emit_rules] = codec_TL_cdnConfig.emits_ptr codec_TL_cdnConfig.emits_list

lemmas TL_cdnConfig_read_rules [parse_rules] = codec_TL_cdnConfig.reads codec_TL_cdnConfig.reads_ptr codec_TL_cdnConfig.reads_list

lemmas TL_cdnConfig_safe_rules [safe_rules] = codec_TL_cdnConfig.safe_des codec_TL_cdnConfig.safe_reads

definition TL_help_getCdnConfig_wire :: "byte list" where
  "TL_help_getCdnConfig_wire = int_bytes TL_help_getCdnConfig_constructor"

lemma TL_help_getCdnConfig_emits [emit_rules]: "emits (TL_help_getCdnConfig_serializeToStream) TL_help_getCdnConfig_wire"
  unfolding TL_help_getCdnConfig_serializeToStream_def TL_help_getCdnConfig_wire_def
  by (rule emits_eq, (rule emit_intros emit_rules | simp add: append_Nil2; fail)+)

definition TL_config_params :: "TL_config \<Rightarrow> byte list" where
  "TL_config_params x = int_bytes (TL_config_flags x) @
     int_bytes (TL_config_date x) @
     int_bytes (TL_config_expires x) @
     bool_bytes (TL_config_test_mode x) @
     int_bytes (TL_config_this_dc x) @
     int_bytes 0x1cb5c415 @
     int_bytes (word_of_nat (length (TL_config_dc_options x))) @ concat (map TL_dcOption_wire (TL_config_dc_options x)) @
     tl_bytes (TL_config_dc_txt_domain_name x) @
     int_bytes (TL_config_chat_size_max x) @
     int_bytes (TL_config_megagroup_size_max x) @
     int_bytes (TL_config_forwarded_count_max x) @
     int_bytes (TL_config_online_update_period_ms x) @
     int_bytes (TL_config_offline_blur_timeout_ms x) @
     int_bytes (TL_config_offline_idle_timeout_ms x) @
     int_bytes (TL_config_online_cloud_timeout_ms x) @
     int_bytes (TL_config_notify_cloud_delay_ms x) @
     int_bytes (TL_config_notify_default_delay_ms x) @
     int_bytes (TL_config_push_chat_period_ms x) @
     int_bytes (TL_config_push_chat_limit x) @
     int_bytes (TL_config_saved_gifs_limit x) @
     int_bytes (TL_config_edit_time_limit x) @
     int_bytes (TL_config_revoke_time_limit x) @
     int_bytes (TL_config_revoke_pm_time_limit x) @
     int_bytes (TL_config_rating_e_decay x) @
     int_bytes (TL_config_stickers_recent_limit x) @
     int_bytes (TL_config_stickers_faved_limit x) @
     int_bytes (TL_config_channels_read_media_period x) @
     (if TL_config_flags x AND 1 \<noteq> 0 then int_bytes (TL_config_tmp_sessions x) else []) @
     int_bytes (TL_config_pinned_dialogs_count_max x) @
     int_bytes (TL_config_pinned_infolder_count_max x) @
     int_bytes (TL_config_call_receive_timeout_ms x) @
     int_bytes (TL_config_call_ring_timeout_ms x) @
     int_bytes (TL_config_call_connect_timeout_ms x) @
     int_bytes (TL_config_call_packet_timeout_ms x) @
     tl_bytes (TL_config_me_url_prefix x) @
     (if TL_config_flags x AND 128 \<noteq> 0 then tl_bytes (TL_config_autoupdate_url_prefix x) else []) @
     (if TL_config_flags x AND 512 \<noteq> 0 then tl_bytes (TL_config_gif_search_username x) else []) @
     (if TL_config_flags x AND 1024 \<noteq> 0 then tl_bytes (TL_config_venue_search_username x) else []) @
     (if TL_config_flags x AND 2048 \<noteq> 0 then tl_bytes (TL_config_img_search_username x) else []) @
     (if TL_config_flags x AND 4096 \<noteq> 0 then tl_bytes (TL_config_static_maps_provider x) else []) @
     int_bytes (TL_config_caption_length_max x) @
     int_bytes (TL_config_message_length_max x) @
     int_bytes (TL_config_webfile_dc_id x) @
     (if TL_config_flags x AND 4 \<noteq> 0 then tl_bytes (TL_config_suggested_lang_code x) else []) @
     (if TL_config_flags x AND 4 \<noteq> 0 then int_bytes (TL_config_lang_pack_version x) else []) @
     (if TL_config_flags x AND 4 \<noteq> 0 then int_bytes (TL_config_base_lang_pack_version x) else []) @
     int_bytes 0x1cb5c415 @
     int_bytes (word_of_nat (length (TL_config_disabled_features x))) @ concat (map TL_disabledFeature_wire (TL_config_disabled_features x))"

definition TL_config_wf :: "TL_config \<Rightarrow> bool" where
  "TL_config_wf x \<longleftrightarrow> length (TL_config_dc_options x) < 2 ^ 31 \<and>
     (\<forall>y \<in> set (TL_config_dc_options x). TL_dcOption_wf y) \<and>
     length (TL_config_dc_txt_domain_name x) < 2 ^ 24 \<and>
     (TL_config_flags x AND 1 = 0 \<longrightarrow> TL_config_tmp_sessions x = 0) \<and>
     length (TL_config_me_url_prefix x) < 2 ^ 24 \<and>
     (if TL_config_flags x AND 128 \<noteq> 0 then length (TL_config_autoupdate_url_prefix x) < 2 ^ 24 else TL_config_autoupdate_url_prefix x = []) \<and>
     (if TL_config_flags x AND 512 \<noteq> 0 then length (TL_config_gif_search_username x) < 2 ^ 24 else TL_config_gif_search_username x = []) \<and>
     (if TL_config_flags x AND 1024 \<noteq> 0 then length (TL_config_venue_search_username x) < 2 ^ 24 else TL_config_venue_search_username x = []) \<and>
     (if TL_config_flags x AND 2048 \<noteq> 0 then length (TL_config_img_search_username x) < 2 ^ 24 else TL_config_img_search_username x = []) \<and>
     (if TL_config_flags x AND 4096 \<noteq> 0 then length (TL_config_static_maps_provider x) < 2 ^ 24 else TL_config_static_maps_provider x = []) \<and>
     (if TL_config_flags x AND 4 \<noteq> 0 then length (TL_config_suggested_lang_code x) < 2 ^ 24 else TL_config_suggested_lang_code x = []) \<and>
     (TL_config_flags x AND 4 = 0 \<longrightarrow> TL_config_lang_pack_version x = 0) \<and>
     (TL_config_flags x AND 4 = 0 \<longrightarrow> TL_config_base_lang_pack_version x = 0) \<and>
     length (TL_config_disabled_features x) < 2 ^ 31 \<and>
     (\<forall>y \<in> set (TL_config_disabled_features x). TL_disabledFeature_wf y) \<and>
     \<not> TL_config_phonecalls_enabled x \<and>
     \<not> TL_config_default_p2p_contacts x \<and>
     \<not> TL_config_preload_featured_stickers x \<and>
     \<not> TL_config_ignore_phone_entities x \<and>
     \<not> TL_config_revoke_pm_inbox x \<and>
     \<not> TL_config_blocked_mode x \<and>
     \<not> TL_config_pfs_enabled x"

definition TL_config_wire :: "TL_config \<Rightarrow> byte list" where
  "TL_config_wire x = int_bytes TL_config_constructor @ TL_config_params x"

lemma TL_config_emits [emit_rules]: "TL_config_wf x \<Longrightarrow> emits (TL_config_serializeToStream x) (TL_config_wire x)"
  unfolding TL_config_serializeToStream_def TL_config_wire_def TL_config_params_def
  by (rule emits_eq, (rule emit_intros emit_rules | simp add: TL_config_wf_def; fail)+)

lemma TL_config_parses [parse_rules]: "TL_config_wf x \<Longrightarrow> parses (TL_config_readParams TL_config_new) (TL_config_params x) x"
  by (rule parses_nil, unfold TL_config_readParams_def TL_config_params_def Let_def append_assoc, 
    (rule parse_intros parse_rules | simp add: TL_config_wf_def TL_config_new_def; fail | rule TL_config.equality)+)

lemma TL_config_safe [safe_rules]: "safe (TL_config_readParams x)"
  unfolding TL_config_readParams_def Let_def by (intro safe_intros safe_rules)

lemma TL_config_reads: "TL_config_wf x \<Longrightarrow> parses (read_object TL_config_TLdeserialize) (TL_config_wire x) (Some x)"
  unfolding TL_config_wire_def TL_config_TLdeserialize_def [abs_def] by (rule parses_class) (rule TL_config_parses)

lemma TL_config_des_safe: "safe (TL_config_TLdeserialize c)"
  unfolding TL_config_TLdeserialize_def by (intro safe_intros safe_rules)

interpretation codec_TL_config: tl_codec TL_config_TLdeserialize TL_config_wire TL_config_wf TL_config_serializeToStream
  by unfold_locales (simp_all add: TL_config_reads TL_config_des_safe TL_config_emits)

lemmas TL_config_rules [emit_rules] = codec_TL_config.emits_ptr codec_TL_config.emits_list

lemmas TL_config_read_rules [parse_rules] = codec_TL_config.reads codec_TL_config.reads_ptr codec_TL_config.reads_list

lemmas TL_config_safe_rules [safe_rules] = codec_TL_config.safe_des codec_TL_config.safe_reads

definition TL_help_getConfig_wire :: "byte list" where
  "TL_help_getConfig_wire = int_bytes TL_help_getConfig_constructor"

lemma TL_help_getConfig_emits [emit_rules]: "emits (TL_help_getConfig_serializeToStream) TL_help_getConfig_wire"
  unfolding TL_help_getConfig_serializeToStream_def TL_help_getConfig_wire_def
  by (rule emits_eq, (rule emit_intros emit_rules | simp add: append_Nil2; fail)+)

definition TL_userStatusOffline_params :: "UserStatus_fields \<Rightarrow> byte list" where
  "TL_userStatusOffline_params x = int_bytes (UserStatus_expires x)"

definition TL_userStatusOffline_wf :: "UserStatus_fields \<Rightarrow> bool" where
  "TL_userStatusOffline_wf x \<longleftrightarrow> True"

lemma TL_userStatusOffline_emits [emit_rules]: "TL_userStatusOffline_wf x \<Longrightarrow> emits (TL_userStatusOffline_serializeToStream x) (int_bytes TL_userStatusOffline_constructor @ TL_userStatusOffline_params x)"
  unfolding TL_userStatusOffline_serializeToStream_def TL_userStatusOffline_params_def
  by (rule emits_eq, (rule emit_intros emit_rules | simp add: TL_userStatusOffline_wf_def; fail)+)

lemma TL_userStatusOffline_parses [parse_rules]: "TL_userStatusOffline_wf x \<Longrightarrow> parses (TL_userStatusOffline_readParams UserStatus_fields_new) (TL_userStatusOffline_params x) x"
  by (rule parses_nil, unfold TL_userStatusOffline_readParams_def TL_userStatusOffline_params_def Let_def append_assoc, 
    (rule parse_intros parse_rules | simp add: TL_userStatusOffline_wf_def UserStatus_fields_new_def; fail | rule UserStatus_fields.equality)+)

lemma TL_userStatusOffline_safe [safe_rules]: "safe (TL_userStatusOffline_readParams x)"
  unfolding TL_userStatusOffline_readParams_def Let_def by (intro safe_intros safe_rules)

definition TL_userStatusLastWeek_params :: "UserStatus_fields \<Rightarrow> byte list" where
  "TL_userStatusLastWeek_params x = []"

definition TL_userStatusLastWeek_wf :: "UserStatus_fields \<Rightarrow> bool" where
  "TL_userStatusLastWeek_wf x \<longleftrightarrow> UserStatus_expires x = 0"

lemma TL_userStatusLastWeek_emits [emit_rules]: "TL_userStatusLastWeek_wf x \<Longrightarrow> emits (TL_userStatusLastWeek_serializeToStream x) (int_bytes TL_userStatusLastWeek_constructor @ TL_userStatusLastWeek_params x)"
  unfolding TL_userStatusLastWeek_serializeToStream_def TL_userStatusLastWeek_params_def
  by (rule emits_eq, (rule emit_intros emit_rules | simp add: TL_userStatusLastWeek_wf_def; fail)+)

definition TL_userStatusEmpty_params :: "UserStatus_fields \<Rightarrow> byte list" where
  "TL_userStatusEmpty_params x = []"

definition TL_userStatusEmpty_wf :: "UserStatus_fields \<Rightarrow> bool" where
  "TL_userStatusEmpty_wf x \<longleftrightarrow> UserStatus_expires x = 0"

lemma TL_userStatusEmpty_emits [emit_rules]: "TL_userStatusEmpty_wf x \<Longrightarrow> emits (TL_userStatusEmpty_serializeToStream x) (int_bytes TL_userStatusEmpty_constructor @ TL_userStatusEmpty_params x)"
  unfolding TL_userStatusEmpty_serializeToStream_def TL_userStatusEmpty_params_def
  by (rule emits_eq, (rule emit_intros emit_rules | simp add: TL_userStatusEmpty_wf_def; fail)+)

definition TL_userStatusLastMonth_params :: "UserStatus_fields \<Rightarrow> byte list" where
  "TL_userStatusLastMonth_params x = []"

definition TL_userStatusLastMonth_wf :: "UserStatus_fields \<Rightarrow> bool" where
  "TL_userStatusLastMonth_wf x \<longleftrightarrow> UserStatus_expires x = 0"

lemma TL_userStatusLastMonth_emits [emit_rules]: "TL_userStatusLastMonth_wf x \<Longrightarrow> emits (TL_userStatusLastMonth_serializeToStream x) (int_bytes TL_userStatusLastMonth_constructor @ TL_userStatusLastMonth_params x)"
  unfolding TL_userStatusLastMonth_serializeToStream_def TL_userStatusLastMonth_params_def
  by (rule emits_eq, (rule emit_intros emit_rules | simp add: TL_userStatusLastMonth_wf_def; fail)+)

definition TL_userStatusOnline_params :: "UserStatus_fields \<Rightarrow> byte list" where
  "TL_userStatusOnline_params x = int_bytes (UserStatus_expires x)"

definition TL_userStatusOnline_wf :: "UserStatus_fields \<Rightarrow> bool" where
  "TL_userStatusOnline_wf x \<longleftrightarrow> True"

lemma TL_userStatusOnline_emits [emit_rules]: "TL_userStatusOnline_wf x \<Longrightarrow> emits (TL_userStatusOnline_serializeToStream x) (int_bytes TL_userStatusOnline_constructor @ TL_userStatusOnline_params x)"
  unfolding TL_userStatusOnline_serializeToStream_def TL_userStatusOnline_params_def
  by (rule emits_eq, (rule emit_intros emit_rules | simp add: TL_userStatusOnline_wf_def; fail)+)

lemma TL_userStatusOnline_parses [parse_rules]: "TL_userStatusOnline_wf x \<Longrightarrow> parses (TL_userStatusOnline_readParams UserStatus_fields_new) (TL_userStatusOnline_params x) x"
  by (rule parses_nil, unfold TL_userStatusOnline_readParams_def TL_userStatusOnline_params_def Let_def append_assoc, 
    (rule parse_intros parse_rules | simp add: TL_userStatusOnline_wf_def UserStatus_fields_new_def; fail | rule UserStatus_fields.equality)+)

lemma TL_userStatusOnline_safe [safe_rules]: "safe (TL_userStatusOnline_readParams x)"
  unfolding TL_userStatusOnline_readParams_def Let_def by (intro safe_intros safe_rules)

definition TL_userStatusRecently_params :: "UserStatus_fields \<Rightarrow> byte list" where
  "TL_userStatusRecently_params x = []"

definition TL_userStatusRecently_wf :: "UserStatus_fields \<Rightarrow> bool" where
  "TL_userStatusRecently_wf x \<longleftrightarrow> UserStatus_expires x = 0"

lemma TL_userStatusRecently_emits [emit_rules]: "TL_userStatusRecently_wf x \<Longrightarrow> emits (TL_userStatusRecently_serializeToStream x) (int_bytes TL_userStatusRecently_constructor @ TL_userStatusRecently_params x)"
  unfolding TL_userStatusRecently_serializeToStream_def TL_userStatusRecently_params_def
  by (rule emits_eq, (rule emit_intros emit_rules | simp add: TL_userStatusRecently_wf_def; fail)+)

fun UserStatus_wire :: "UserStatus \<Rightarrow> byte list" where
  "UserStatus_wire (TL_userStatusOffline x) = int_bytes TL_userStatusOffline_constructor @ TL_userStatusOffline_params x"
| "UserStatus_wire (TL_userStatusLastWeek x) = int_bytes TL_userStatusLastWeek_constructor @ TL_userStatusLastWeek_params x"
| "UserStatus_wire (TL_userStatusEmpty x) = int_bytes TL_userStatusEmpty_constructor @ TL_userStatusEmpty_params x"
| "UserStatus_wire (TL_userStatusLastMonth x) = int_bytes TL_userStatusLastMonth_constructor @ TL_userStatusLastMonth_params x"
| "UserStatus_wire (TL_userStatusOnline x) = int_bytes TL_userStatusOnline_constructor @ TL_userStatusOnline_params x"
| "UserStatus_wire (TL_userStatusRecently x) = int_bytes TL_userStatusRecently_constructor @ TL_userStatusRecently_params x"

fun UserStatus_wf :: "UserStatus \<Rightarrow> bool" where
  "UserStatus_wf (TL_userStatusOffline x) = TL_userStatusOffline_wf x"
| "UserStatus_wf (TL_userStatusLastWeek x) = TL_userStatusLastWeek_wf x"
| "UserStatus_wf (TL_userStatusEmpty x) = TL_userStatusEmpty_wf x"
| "UserStatus_wf (TL_userStatusLastMonth x) = TL_userStatusLastMonth_wf x"
| "UserStatus_wf (TL_userStatusOnline x) = TL_userStatusOnline_wf x"
| "UserStatus_wf (TL_userStatusRecently x) = TL_userStatusRecently_wf x"

lemma UserStatus_reads:
  assumes wf: "UserStatus_wf x"
  shows "parses (read_object UserStatus_TLdeserialize) (UserStatus_wire x) (Some x)"
proof (cases x)
  case (TL_userStatusOffline y)
  then show ?thesis using wf unfolding TL_userStatusOffline UserStatus_wire.simps
    by (intro parses_read_object parses_wrap [OF TL_userStatusOffline_parses]) (simp_all add: UserStatus_TLdeserialize_def TL_userStatusOffline_constructor_def TL_userStatusLastWeek_constructor_def TL_userStatusEmpty_constructor_def TL_userStatusLastMonth_constructor_def TL_userStatusOnline_constructor_def TL_userStatusRecently_constructor_def)
next
  case (TL_userStatusLastWeek y)
  then show ?thesis using wf unfolding TL_userStatusLastWeek UserStatus_wire.simps TL_userStatusLastWeek_params_def
    by (intro parses_read_object parses_wrap0) (simp add: UserStatus_TLdeserialize_def TL_userStatusOffline_constructor_def TL_userStatusLastWeek_constructor_def TL_userStatusEmpty_constructor_def TL_userStatusLastMonth_constructor_def TL_userStatusOnline_constructor_def TL_userStatusRecently_constructor_def TL_userStatusLastWeek_wf_def UserStatus_fields_new_def UserStatus_fields.defs)
next
  case (TL_userStatusEmpty y)
  then show ?thesis using wf unfolding TL_userStatusEmpty UserStatus_wire.simps TL_userStatusEmpty_params_def
    by (intro parses_read_object parses_wrap0) (simp add: UserStatus_TLdeserialize_def TL_userStatusOffline_constructor_def TL_userStatusLastWeek_constructor_def TL_userStatusEmpty_constructor_def TL_userStatusLastMonth_constructor_def TL_userStatusOnline_constructor_def TL_userStatusRecently_constructor_def TL_userStatusEmpty_wf_def UserStatus_fields_new_def UserStatus_fields.defs)
next
  case (TL_userStatusLastMonth y)
  then show ?thesis using wf unfolding TL_userStatusLastMonth UserStatus_wire.simps TL_userStatusLastMonth_params_def
    by (intro parses_read_object parses_wrap0) (simp add: UserStatus_TLdeserialize_def TL_userStatusOffline_constructor_def TL_userStatusLastWeek_constructor_def TL_userStatusEmpty_constructor_def TL_userStatusLastMonth_constructor_def TL_userStatusOnline_constructor_def TL_userStatusRecently_constructor_def TL_userStatusLastMonth_wf_def UserStatus_fields_new_def UserStatus_fields.defs)
next
  case (TL_userStatusOnline y)
  then show ?thesis using wf unfolding TL_userStatusOnline UserStatus_wire.simps
    by (intro parses_read_object parses_wrap [OF TL_userStatusOnline_parses]) (simp_all add: UserStatus_TLdeserialize_def TL_userStatusOffline_constructor_def TL_userStatusLastWeek_constructor_def TL_userStatusEmpty_constructor_def TL_userStatusLastMonth_constructor_def TL_userStatusOnline_constructor_def TL_userStatusRecently_constructor_def)
next
  case (TL_userStatusRecently y)
  then show ?thesis using wf unfolding TL_userStatusRecently UserStatus_wire.simps TL_userStatusRecently_params_def
    by (intro parses_read_object parses_wrap0) (simp add: UserStatus_TLdeserialize_def TL_userStatusOffline_constructor_def TL_userStatusLastWeek_constructor_def TL_userStatusEmpty_constructor_def TL_userStatusLastMonth_constructor_def TL_userStatusOnline_constructor_def TL_userStatusRecently_constructor_def TL_userStatusRecently_wf_def UserStatus_fields_new_def UserStatus_fields.defs)
qed

lemma UserStatus_des_safe: "safe (UserStatus_TLdeserialize c)"
  unfolding UserStatus_TLdeserialize_def by (intro safe_intros safe_rules)

lemma UserStatus_emits: "UserStatus_wf x \<Longrightarrow> emits (UserStatus_serializeToStream x) (UserStatus_wire x)"
  by (cases x) (simp_all add: TL_userStatusOffline_emits TL_userStatusLastWeek_emits TL_userStatusEmpty_emits TL_userStatusLastMonth_emits TL_userStatusOnline_emits TL_userStatusRecently_emits)

interpretation codec_UserStatus: tl_codec UserStatus_TLdeserialize UserStatus_wire UserStatus_wf UserStatus_serializeToStream
  by unfold_locales (simp_all add: UserStatus_reads UserStatus_des_safe UserStatus_emits)

lemmas UserStatus_rules [emit_rules] = codec_UserStatus.emits_ptr codec_UserStatus.emits_list

lemmas UserStatus_read_rules [parse_rules] = codec_UserStatus.reads codec_UserStatus.reads_ptr codec_UserStatus.reads_list

lemmas UserStatus_safe_rules [safe_rules] = codec_UserStatus.safe_des codec_UserStatus.safe_reads

definition TL_fileLocation_params :: "FileLocation_fields \<Rightarrow> byte list" where
  "TL_fileLocation_params x = int_bytes (FileLocation_dc_id x) @
     long_bytes (FileLocation_volume_id x) @
     int_bytes (FileLocation_local_id x) @
     long_bytes (FileLocation_secret x)"

definition TL_fileLocation_wf :: "FileLocation_fields \<Rightarrow> bool" where
  "TL_fileLocation_wf x \<longleftrightarrow> FileLocation_key x = None \<and>
     FileLocation_iv x = None"

lemma TL_fileLocation_emits [emit_rules]: "TL_fileLocation_wf x \<Longrightarrow> emits (TL_fileLocation_serializeToStream x) (int_bytes TL_fileLocation_constructor @ TL_fileLocation_params x)"
  unfolding TL_fileLocation_serializeToStream_def TL_fileLocation_params_def
  by (rule emits_eq, (rule emit_intros emit_rules | simp add: TL_fileLocation_wf_def; fail)+)

lemma TL_fileLocation_parses [parse_rules]: "TL_fileLocation_wf x \<Longrightarrow> parses (TL_fileLocation_readParams FileLocation_fields_new) (TL_fileLocation_params x) x"
  by (rule parses_nil, unfold TL_fileLocation_readParams_def TL_fileLocation_params_def Let_def append_assoc, 
    (rule parse_intros parse_rules | simp add: TL_fileLocation_wf_def FileLocation_fields_new_def; fail | rule FileLocation_fields.equality)+)

lemma TL_fileLocation_safe [safe_rules]: "safe (TL_fileLocation_readParams x)"
  unfolding TL_fileLocation_readParams_def Let_def by (intro safe_intros safe_rules)

definition TL_fileEncryptedLocation_params :: "FileLocation_fields \<Rightarrow> byte list" where
  "TL_fileEncryptedLocation_params x = int_bytes (FileLocation_dc_id x) @
     long_bytes (FileLocation_volume_id x) @
     int_bytes (FileLocation_local_id x) @
     long_bytes (FileLocation_secret x) @
     of_ptr tl_bytes (FileLocation_key x) @
     of_ptr tl_bytes (FileLocation_iv x)"

definition TL_fileEncryptedLocation_wf :: "FileLocation_fields \<Rightarrow> bool" where
  "TL_fileEncryptedLocation_wf x \<longleftrightarrow> ok_bytes (FileLocation_key x) \<and>
     ok_bytes (FileLocation_iv x)"

lemma TL_fileEncryptedLocation_emits [emit_rules]: "TL_fileEncryptedLocation_wf x \<Longrightarrow> emits (TL_fileEncryptedLocation_serializeToStream x) (int_bytes TL_fileEncryptedLocation_constructor @ TL_fileEncryptedLocation_params x)"
  unfolding TL_fileEncryptedLocation_serializeToStream_def TL_fileEncryptedLocation_params_def
  by (rule emits_eq, (rule emit_intros emit_rules | simp add: TL_fileEncryptedLocation_wf_def; fail)+)

lemma TL_fileEncryptedLocation_parses [parse_rules]: "TL_fileEncryptedLocation_wf x \<Longrightarrow> parses (TL_fileEncryptedLocation_readParams FileLocation_fields_new) (TL_fileEncryptedLocation_params x) x"
  by (rule parses_nil, unfold TL_fileEncryptedLocation_readParams_def TL_fileEncryptedLocation_params_def Let_def append_assoc, 
    (rule parse_intros parse_rules | simp add: TL_fileEncryptedLocation_wf_def FileLocation_fields_new_def; fail | rule FileLocation_fields.equality)+)

lemma TL_fileEncryptedLocation_safe [safe_rules]: "safe (TL_fileEncryptedLocation_readParams x)"
  unfolding TL_fileEncryptedLocation_readParams_def Let_def by (intro safe_intros safe_rules)

definition TL_fileLocationUnavailable_params :: "FileLocation_fields \<Rightarrow> byte list" where
  "TL_fileLocationUnavailable_params x = long_bytes (FileLocation_volume_id x) @
     int_bytes (FileLocation_local_id x) @
     long_bytes (FileLocation_secret x)"

definition TL_fileLocationUnavailable_wf :: "FileLocation_fields \<Rightarrow> bool" where
  "TL_fileLocationUnavailable_wf x \<longleftrightarrow> FileLocation_dc_id x = 0 \<and>
     FileLocation_key x = None \<and>
     FileLocation_iv x = None"

lemma TL_fileLocationUnavailable_emits [emit_rules]: "TL_fileLocationUnavailable_wf x \<Longrightarrow> emits (TL_fileLocationUnavailable_serializeToStream x) (int_bytes TL_fileLocationUnavailable_constructor @ TL_fileLocationUnavailable_params x)"
  unfolding TL_fileLocationUnavailable_serializeToStream_def TL_fileLocationUnavailable_params_def
  by (rule emits_eq, (rule emit_intros emit_rules | simp add: TL_fileLocationUnavailable_wf_def; fail)+)

lemma TL_fileLocationUnavailable_parses [parse_rules]: "TL_fileLocationUnavailable_wf x \<Longrightarrow> parses (TL_fileLocationUnavailable_readParams FileLocation_fields_new) (TL_fileLocationUnavailable_params x) x"
  by (rule parses_nil, unfold TL_fileLocationUnavailable_readParams_def TL_fileLocationUnavailable_params_def Let_def append_assoc, 
    (rule parse_intros parse_rules | simp add: TL_fileLocationUnavailable_wf_def FileLocation_fields_new_def; fail | rule FileLocation_fields.equality)+)

lemma TL_fileLocationUnavailable_safe [safe_rules]: "safe (TL_fileLocationUnavailable_readParams x)"
  unfolding TL_fileLocationUnavailable_readParams_def Let_def by (intro safe_intros safe_rules)

fun FileLocation_wire :: "FileLocation \<Rightarrow> byte list" where
  "FileLocation_wire (TL_fileLocation x) = int_bytes TL_fileLocation_constructor @ TL_fileLocation_params x"
| "FileLocation_wire (TL_fileEncryptedLocation x) = int_bytes TL_fileEncryptedLocation_constructor @ TL_fileEncryptedLocation_params x"
| "FileLocation_wire (TL_fileLocationUnavailable x) = int_bytes TL_fileLocationUnavailable_constructor @ TL_fileLocationUnavailable_params x"

fun FileLocation_wf :: "FileLocation \<Rightarrow> bool" where
  "FileLocation_wf (TL_fileLocation x) = TL_fileLocation_wf x"
| "FileLocation_wf (TL_fileEncryptedLocation x) = TL_fileEncryptedLocation_wf x"
| "FileLocation_wf (TL_fileLocationUnavailable x) = TL_fileLocationUnavailable_wf x"

lemma FileLocation_reads:
  assumes wf: "FileLocation_wf x"
  shows "parses (read_object FileLocation_TLdeserialize) (FileLocation_wire x) (Some x)"
proof (cases x)
  case (TL_fileLocation y)
  then show ?thesis using wf unfolding TL_fileLocation FileLocation_wire.simps
    by (intro parses_read_object parses_wrap [OF TL_fileLocation_parses]) (simp_all add: FileLocation_TLdeserialize_def TL_fileLocation_constructor_def TL_fileEncryptedLocation_constructor_def TL_fileLocationUnavailable_constructor_def)
next
  case (TL_fileEncryptedLocation y)
  then show ?thesis using wf unfolding TL_fileEncryptedLocation FileLocation_wire.simps
    by (intro parses_read_object parses_wrap [OF TL_fileEncryptedLocation_parses]) (simp_all add: FileLocation_TLdeserialize_def TL_fileLocation_constructor_def TL_fileEncryptedLocation_constructor_def TL_fileLocationUnavailable_constructor_def)
next
  case (TL_fileLocationUnavailable y)
  then show ?thesis using wf unfolding TL_fileLocationUnavailable FileLocation_wire.simps
    by (intro parses_read_object parses_wrap [OF TL_fileLocationUnavailable_parses]) (simp_all add: FileLocation_TLdeserialize_def TL_fileLocation_constructor_def TL_fileEncryptedLocation_constructor_def TL_fileLocationUnavailable_constructor_def)
qed

lemma FileLocation_des_safe: "safe (FileLocation_TLdeserialize c)"
  unfolding FileLocation_TLdeserialize_def by (intro safe_intros safe_rules)

lemma FileLocation_emits: "FileLocation_wf x \<Longrightarrow> emits (FileLocation_serializeToStream x) (FileLocation_wire x)"
  by (cases x) (simp_all add: TL_fileLocation_emits TL_fileEncryptedLocation_emits TL_fileLocationUnavailable_emits)

interpretation codec_FileLocation: tl_codec FileLocation_TLdeserialize FileLocation_wire FileLocation_wf FileLocation_serializeToStream
  by unfold_locales (simp_all add: FileLocation_reads FileLocation_des_safe FileLocation_emits)

lemmas FileLocation_rules [emit_rules] = codec_FileLocation.emits_ptr codec_FileLocation.emits_list

lemmas FileLocation_read_rules [parse_rules] = codec_FileLocation.reads codec_FileLocation.reads_ptr codec_FileLocation.reads_list

lemmas FileLocation_safe_rules [safe_rules] = codec_FileLocation.safe_des codec_FileLocation.safe_reads

definition TL_userProfilePhotoEmpty_params :: "UserProfilePhoto_fields \<Rightarrow> byte list" where
  "TL_userProfilePhotoEmpty_params x = []"

definition TL_userProfilePhotoEmpty_wf :: "UserProfilePhoto_fields \<Rightarrow> bool" where
  "TL_userProfilePhotoEmpty_wf x \<longleftrightarrow> UserProfilePhoto_photo_id x = 0 \<and>
     UserProfilePhoto_photo_small x = None \<and>
     UserProfilePhoto_photo_big x = None"

lemma TL_userProfilePhotoEmpty_emits [emit_rules]: "TL_userProfilePhotoEmpty_wf x \<Longrightarrow> emits (TL_userProfilePhotoEmpty_serializeToStream x) (int_bytes TL_userProfilePhotoEmpty_constructor @ TL_userProfilePhotoEmpty_params x)"
  unfolding TL_userProfilePhotoEmpty_serializeToStream_def TL_userProfilePhotoEmpty_params_def
  by (rule emits_eq, (rule emit_intros emit_rules | simp add: TL_userProfilePhotoEmpty_wf_def; fail)+)

definition TL_userProfilePhoto_params :: "UserProfilePhoto_fields \<Rightarrow> byte list" where
  "TL_userProfilePhoto_params x = long_bytes (UserProfilePhoto_photo_id x) @
     of_ptr FileLocation_wire (UserProfilePhoto_photo_small x) @
     of_ptr FileLocation_wire (UserProfilePhoto_photo_big x)"

definition TL_userProfilePhoto_wf :: "UserProfilePhoto_fields \<Rightarrow> bool" where
  "TL_userProfilePhoto_wf x \<longleftrightarrow> ok_ptr FileLocation_wf (UserProfilePhoto_photo_small x) \<and>
     ok_ptr FileLocation_wf (UserProfilePhoto_photo_big x)"

lemma TL_userProfilePhoto_emits [emit_rules]: "TL_userProfilePhoto_wf x \<Longrightarrow> emits (TL_userProfilePhoto_serializeToStream x) (int_bytes TL_userProfilePhoto_constructor @ TL_userProfilePhoto_params x)"
  unfolding TL_userProfilePhoto_serializeToStream_def TL_userProfilePhoto_params_def
  by (rule emits_eq, (rule emit_intros emit_rules | simp add: TL_userProfilePhoto_wf_def; fail)+)

lemma TL_userProfilePhoto_parses [parse_rules]: "TL_userProfilePhoto_wf x \<Longrightarrow> parses (TL_userProfilePhoto_readParams UserProfilePhoto_fields_new) (TL_userProfilePhoto_params x) x"
  by (rule parses_nil, unfold TL_userProfilePhoto_readParams_def TL_userProfilePhoto_params_def Let_def append_assoc, 
    (rule parse_intros parse_rules | simp add: TL_userProfilePhoto_wf_def UserProfilePhoto_fields_new_def; fail | rule UserProfilePhoto_fields.equality)+)

lemma TL_userProfilePhoto_safe [safe_rules]: "safe (TL_userProfilePhoto_readParams x)"
  unfolding TL_userProfilePhoto_readParams_def Let_def by (intro safe_intros safe_rules)

fun UserProfilePhoto_wire :: "UserProfilePhoto \<Rightarrow> byte list" where
  "UserProfilePhoto_wire (TL_userProfilePhotoEmpty x) = int_bytes TL_userProfilePhotoEmpty_constructor @ TL_userProfilePhotoEmpty_params x"
| "UserProfilePhoto_wire (TL_userProfilePhoto x) = int_bytes TL_userProfilePhoto_constructor @ TL_userProfilePhoto_params x"

fun UserProfilePhoto_wf :: "UserProfilePhoto \<Rightarrow> bool" where
  "UserProfilePhoto_wf (TL_userProfilePhotoEmpty x) = TL_userProfilePhotoEmpty_wf x"
| "UserProfilePhoto_wf (TL_userProfilePhoto x) = TL_userProfilePhoto_wf x"

lemma UserProfilePhoto_reads:
  assumes wf: "UserProfilePhoto_wf x"
  shows "parses (read_object UserProfilePhoto_TLdeserialize) (UserProfilePhoto_wire x) (Some x)"
proof (cases x)
  case (TL_userProfilePhotoEmpty y)
  then show ?thesis using wf unfolding TL_userProfilePhotoEmpty UserProfilePhoto_wire.simps TL_userProfilePhotoEmpty_params_def
    by (intro parses_read_object parses_wrap0) (simp add: UserProfilePhoto_TLdeserialize_def TL_userProfilePhotoEmpty_constructor_def TL_userProfilePhoto_constructor_def TL_userProfilePhotoEmpty_wf_def UserProfilePhoto_fields_new_def UserProfilePhoto_fields.defs)
next
  case (TL_userProfilePhoto y)
  then show ?thesis using wf unfolding TL_userProfilePhoto UserProfilePhoto_wire.simps
    by (intro parses_read_object parses_wrap [OF TL_userProfilePhoto_parses]) (simp_all add: UserProfilePhoto_TLdeserialize_def TL_userProfilePhotoEmpty_constructor_def TL_userProfilePhoto_constructor_def)
qed

lemma UserProfilePhoto_des_safe: "safe (UserProfilePhoto_TLdeserialize c)"
  unfolding UserProfilePhoto_TLdeserialize_def by (intro safe_intros safe_rules)

lemma UserProfilePhoto_emits: "UserProfilePhoto_wf x \<Longrightarrow> emits (UserProfilePhoto_serializeToStream x) (UserProfilePhoto_wire x)"
  by (cases x) (simp_all add: TL_userProfilePhotoEmpty_emits TL_userProfilePhoto_emits)

interpretation codec_UserProfilePhoto: tl_codec UserProfilePhoto_TLdeserialize UserProfilePhoto_wire UserProfilePhoto_wf UserProfilePhoto_serializeToStream
  by unfold_locales (simp_all add: UserProfilePhoto_reads UserProfilePhoto_des_safe UserProfilePhoto_emits)

lemmas UserProfilePhoto_rules [emit_rules] = codec_UserProfilePhoto.emits_ptr codec_UserProfilePhoto.emits_list

lemmas UserProfilePhoto_read_rules [parse_rules] = codec_UserProfilePhoto.reads codec_UserProfilePhoto.reads_ptr codec_UserProfilePhoto.reads_list

lemmas UserProfilePhoto_safe_rules [safe_rules] = codec_UserProfilePhoto.safe_des codec_UserProfilePhoto.safe_reads

definition TL_userEmpty_params :: "User_fields \<Rightarrow> byte list" where
  "TL_userEmpty_params x = int_bytes (User_id x)"

definition TL_userEmpty_wf :: "User_fields \<Rightarrow> bool" where
  "TL_userEmpty_wf x \<longleftrightarrow> User_first_name x = [] \<and>
     User_last_name x = [] \<and>
     User_username x = [] \<and>
     User_access_hash x = 0 \<and>
     User_phone x = [] \<and>
     User_photo x = None \<and>
     User_status x = None \<and>
     User_flags x = 0 \<and>
     User_bot_info_version x = 0 \<and>
     User_restriction_reason x = [] \<and>
     User_bot_inline_placeholder x = [] \<and>
     User_lang_code x = []"

lemma TL_userEmpty_emits [emit_rules]: "TL_userEmpty_wf x \<Longrightarrow> emits (TL_userEmpty_serializeToStream x) (int_bytes TL_userEmpty_constructor @ TL_userEmpty_params x)"
  unfolding TL_userEmpty_serializeToStream_def TL_userEmpty_params_def
  by (rule emits_eq, (rule emit_intros emit_rules | simp add: TL_userEmpty_wf_def; fail)+)

lemma TL_userEmpty_parses [parse_rules]: "TL_userEmpty_wf x \<Longrightarrow> parses (TL_userEmpty_readParams User_fields_new) (TL_userEmpty_params x) x"
  by (rule parses_nil, unfold TL_userEmpty_readParams_def TL_userEmpty_params_def Let_def append_assoc, 
    (rule parse_intros parse_rules | simp add: TL_userEmpty_wf_def User_fields_new_def; fail | rule User_fields.equality)+)

lemma TL_userEmpty_safe [safe_rules]: "safe (TL_userEmpty_readParams x)"
  unfolding TL_userEmpty_readParams_def Let_def by (intro safe_intros safe_rules)

definition TL_user_params :: "User_fields \<Rightarrow> byte list" where
  "TL_user_params x = int_bytes (User_flags x) @
     int_bytes (User_id x) @
     (if User_flags x AND 1 \<noteq> 0 then long_bytes (User_access_hash x) else []) @
     (if User_flags x AND 2 \<noteq> 0 then tl_bytes (User_first_name x) else []) @
     (if User_flags x AND 4 \<noteq> 0 then tl_bytes (User_last_name x) else []) @
     (if User_flags x AND 8 \<noteq> 0 then tl_bytes (User_username x) else []) @
     (if User_flags x AND 16 \<noteq> 0 then tl_bytes (User_phone x) else []) @
     (if User_flags x AND 32 \<noteq> 0 then of_ptr UserProfilePhoto_wire (User_photo x) else []) @
     (if User_flags x AND 64 \<noteq> 0 then of_ptr UserStatus_wire (User_status x) else []) @
     (if User_flags x AND 16384 \<noteq> 0 then int_bytes (User_bot_info_version x) else []) @
     (if User_flags x AND 262144 \<noteq> 0 then tl_bytes (User_restriction_reason x) else []) @
     (if User_flags x AND 524288 \<noteq> 0 then tl_bytes (User_bot_inline_placeholder x) else []) @
     (if User_flags x AND 4194304 \<noteq> 0 then tl_bytes (User_lang_code x) else [])"

definition TL_user_wf :: "User_fields \<Rightarrow> bool" where
  "TL_user_wf x \<longleftrightarrow> (User_flags x AND 1 = 0 \<longrightarrow> User_access_hash x = 0) \<and>
     (if User_flags x AND 2 \<noteq> 0 then length (User_first_name x) < 2 ^ 24 else User_first_name x = []) \<and>
     (if User_flags x AND 4 \<noteq> 0 then length (User_last_name x) < 2 ^ 24 else User_last_name x = []) \<and>
     (if User_flags x AND 8 \<noteq> 0 then length (User_username x) < 2 ^ 24 else User_username x = []) \<and>
     (if User_flags x AND 16 \<noteq> 0 then length (User_phone x) < 2 ^ 24 else User_phone x = []) \<and>
     (if User_flags x AND 32 \<noteq> 0 then ok_ptr UserProfilePhoto_wf (User_photo x) else User_photo x = None) \<and>
     (if User_flags x AND 64 \<noteq> 0 then ok_ptr UserStatus_wf (User_status x) else User_status x = None) \<and>
     (User_flags x AND 16384 = 0 \<longrightarrow> User_bot_info_version x = 0) \<and>
     (if User_flags x AND 262144 \<noteq> 0 then length (User_restriction_reason x) < 2 ^ 24 else User_restriction_reason x = []) \<and>
     (if User_flags x AND 524288 \<noteq> 0 then length (User_bot_inline_placeholder x) < 2 ^ 24 else User_bot_inline_placeholder x = []) \<and>
     (if User_flags x AND 4194304 \<noteq> 0 then length (User_lang_code x) < 2 ^ 24 else User_lang_code x = [])"

lemma TL_user_emits [emit_rules]: "TL_user_wf x \<Longrightarrow> emits (TL_user_serializeToStream x) (int_bytes TL_user_constructor @ TL_user_params x)"
  unfolding TL_user_serializeToStream_def TL_user_params_def
  by (rule emits_eq, (rule emit_intros emit_rules | simp add: TL_user_wf_def; fail)+)

lemma TL_user_parses [parse_rules]: "TL_user_wf x \<Longrightarrow> parses (TL_user_readParams User_fields_new) (TL_user_params x) x"
  by (rule parses_nil, unfold TL_user_readParams_def TL_user_params_def Let_def append_assoc, 
    (rule parse_intros parse_rules | simp add: TL_user_wf_def User_fields_new_def; fail | rule User_fields.equality)+)

lemma TL_user_safe [safe_rules]: "safe (TL_user_readParams x)"
  unfolding TL_user_readParams_def Let_def by (intro safe_intros safe_rules)

fun User_wire :: "User \<Rightarrow> byte list" where
  "User_wire (TL_userEmpty x) = int_bytes TL_userEmpty_constructor @ TL_userEmpty_params x"
| "User_wire (TL_user x) = int_bytes TL_user_constructor @ TL_user_params x"

fun User_wf :: "User \<Rightarrow> bool" where
  "User_wf (TL_userEmpty x) = TL_userEmpty_wf x"
| "User_wf (TL_user x) = TL_user_wf x"

lemma User_reads:
  assumes wf: "User_wf x"
  shows "parses (read_object User_TLdeserialize) (User_wire x) (Some x)"
proof (cases x)
  case (TL_userEmpty y)
  then show ?thesis using wf unfolding TL_userEmpty User_wire.simps
    by (intro parses_read_object parses_wrap [OF TL_userEmpty_parses]) (simp_all add: User_TLdeserialize_def TL_userEmpty_constructor_def TL_user_constructor_def)
next
  case (TL_user y)
  then show ?thesis using wf unfolding TL_user User_wire.simps
    by (intro parses_read_object parses_wrap [OF TL_user_parses]) (simp_all add: User_TLdeserialize_def TL_userEmpty_constructor_def TL_user_constructor_def)
qed

lemma User_des_safe: "safe (User_TLdeserialize c)"
  unfolding User_TLdeserialize_def by (intro safe_intros safe_rules)

lemma User_emits: "User_wf x \<Longrightarrow> emits (User_serializeToStream x) (User_wire x)"
  by (cases x) (simp_all add: TL_userEmpty_emits TL_user_emits)

interpretation codec_User: tl_codec User_TLdeserialize User_wire User_wf User_serializeToStream
  by unfold_locales (simp_all add: User_reads User_des_safe User_emits)

lemmas User_rules [emit_rules] = codec_User.emits_ptr codec_User.emits_list

lemmas User_read_rules [parse_rules] = codec_User.reads codec_User.reads_ptr codec_User.reads_list

lemmas User_safe_rules [safe_rules] = codec_User.safe_des codec_User.safe_reads

definition TL_auth_authorization_params :: "TL_auth_authorization \<Rightarrow> byte list" where
  "TL_auth_authorization_params x = int_bytes (TL_auth_authorization_flags x) @
     (if TL_auth_authorization_flags x AND 1 \<noteq> 0 then int_bytes (TL_auth_authorization_tmp_sessions x) else []) @
     of_ptr User_wire (TL_auth_authorization_user x)"

definition TL_auth_authorization_wf :: "TL_auth_authorization \<Rightarrow> bool" where
  "TL_auth_authorization_wf x \<longleftrightarrow> (TL_auth_authorization_flags x AND 1 = 0 \<longrightarrow> TL_auth_authorization_tmp_sessions x = 0) \<and>
     ok_ptr User_wf (TL_auth_authorization_user x)"

definition TL_auth_authorization_wire :: "TL_auth_authorization \<Rightarrow> byte list" where
  "TL_auth_authorization_wire x = int_bytes TL_auth_authorization_constructor @ TL_auth_authorization_params x"

lemma TL_auth_authorization_parses [parse_rules]: "TL_auth_authorization_wf x \<Longrightarrow> parses (TL_auth_authorization_readParams TL_auth_authorization_new) (TL_auth_authorization_params x) x"
  by (rule parses_nil, unfold TL_auth_authorization_readParams_def TL_auth_authorization_params_def Let_def append_assoc, 
    (rule parse_intros parse_rules | simp add: TL_auth_authorization_wf_def TL_auth_authorization_new_def; fail | rule TL_auth_authorization.equality)+)

lemma TL_auth_authorization_safe [safe_rules]: "safe (TL_auth_authorization_readParams x)"
  unfolding TL_auth_authorization_readParams_def Let_def by (intro safe_intros safe_rules)

lemma TL_auth_authorization_reads: "TL_auth_authorization_wf x \<Longrightarrow> parses (read_object TL_auth_authorization_TLdeserialize) (TL_auth_authorization_wire x) (Some x)"
  unfolding TL_auth_authorization_wire_def TL_auth_authorization_TLdeserialize_def [abs_def] by (rule parses_class) (rule TL_auth_authorization_parses)

lemma TL_auth_authorization_des_safe: "safe (TL_auth_authorization_TLdeserialize c)"
  unfolding TL_auth_authorization_TLdeserialize_def by (intro safe_intros safe_rules)

interpretation codec_TL_auth_authorization: tl_reader TL_auth_authorization_TLdeserialize TL_auth_authorization_wire TL_auth_authorization_wf
  by unfold_locales (simp_all add: TL_auth_authorization_reads TL_auth_authorization_des_safe)

lemmas TL_auth_authorization_read_rules [parse_rules] = codec_TL_auth_authorization.reads codec_TL_auth_authorization.reads_ptr codec_TL_auth_authorization.reads_list

lemmas TL_auth_authorization_safe_rules [safe_rules] = codec_TL_auth_authorization.safe_des codec_TL_auth_authorization.safe_reads

definition TL_auth_exportedAuthorization_params :: "TL_auth_exportedAuthorization \<Rightarrow> byte list" where
  "TL_auth_exportedAuthorization_params x = int_bytes (TL_auth_exportedAuthorization_id x) @
     of_ptr tl_bytes (TL_auth_exportedAuthorization_bytes x)"

definition TL_auth_exportedAuthorization_wf :: "TL_auth_exportedAuthorization \<Rightarrow> bool" where
  "TL_auth_exportedAuthorization_wf x \<longleftrightarrow> ok_bytes (TL_auth_exportedAuthorization_bytes x)"

definition TL_auth_exportedAuthorization_wire :: "TL_auth_exportedAuthorization \<Rightarrow> byte list" where
  "TL_auth_exportedAuthorization_wire x = int_bytes TL_auth_exportedAuthorization_constructor @ TL_auth_exportedAuthorization_params x"

lemma TL_auth_exportedAuthorization_parses [parse_rules]: "TL_auth_exportedAuthorization_wf x \<Longrightarrow> parses (TL_auth_exportedAuthorization_readParams TL_auth_exportedAuthorization_new) (TL_auth_exportedAuthorization_params x) x"
  by (rule parses_nil, unfold TL_auth_exportedAuthorization_readParams_def TL_auth_exportedAuthorization_params_def Let_def append_assoc, 
    (rule parse_intros parse_rules | simp add: TL_auth_exportedAuthorization_wf_def TL_auth_exportedAuthorization_new_def; fail | rule TL_auth_exportedAuthorization.equality)+)

lemma TL_auth_exportedAuthorization_safe [safe_rules]: "safe (TL_auth_exportedAuthorization_readParams x)"
  unfolding TL_auth_exportedAuthorization_readParams_def Let_def by (intro safe_intros safe_rules)

lemma TL_auth_exportedAuthorization_reads: "TL_auth_exportedAuthorization_wf x \<Longrightarrow> parses (read_object TL_auth_exportedAuthorization_TLdeserialize) (TL_auth_exportedAuthorization_wire x) (Some x)"
  unfolding TL_auth_exportedAuthorization_wire_def TL_auth_exportedAuthorization_TLdeserialize_def [abs_def] by (rule parses_class) (rule TL_auth_exportedAuthorization_parses)

lemma TL_auth_exportedAuthorization_des_safe: "safe (TL_auth_exportedAuthorization_TLdeserialize c)"
  unfolding TL_auth_exportedAuthorization_TLdeserialize_def by (intro safe_intros safe_rules)

interpretation codec_TL_auth_exportedAuthorization: tl_reader TL_auth_exportedAuthorization_TLdeserialize TL_auth_exportedAuthorization_wire TL_auth_exportedAuthorization_wf
  by unfold_locales (simp_all add: TL_auth_exportedAuthorization_reads TL_auth_exportedAuthorization_des_safe)

lemmas TL_auth_exportedAuthorization_read_rules [parse_rules] = codec_TL_auth_exportedAuthorization.reads codec_TL_auth_exportedAuthorization.reads_ptr codec_TL_auth_exportedAuthorization.reads_list

lemmas TL_auth_exportedAuthorization_safe_rules [safe_rules] = codec_TL_auth_exportedAuthorization.safe_des codec_TL_auth_exportedAuthorization.safe_reads

definition TL_auth_exportAuthorization_params :: "TL_auth_exportAuthorization \<Rightarrow> byte list" where
  "TL_auth_exportAuthorization_params x = int_bytes (TL_auth_exportAuthorization_dc_id x)"

definition TL_auth_exportAuthorization_wf :: "TL_auth_exportAuthorization \<Rightarrow> bool" where
  "TL_auth_exportAuthorization_wf x \<longleftrightarrow> True"

definition TL_auth_exportAuthorization_wire :: "TL_auth_exportAuthorization \<Rightarrow> byte list" where
  "TL_auth_exportAuthorization_wire x = int_bytes TL_auth_exportAuthorization_constructor @ TL_auth_exportAuthorization_params x"

lemma TL_auth_exportAuthorization_emits [emit_rules]: "TL_auth_exportAuthorization_wf x \<Longrightarrow> emits (TL_auth_exportAuthorization_serializeToStream x) (TL_auth_exportAuthorization_wire x)"
  unfolding TL_auth_exportAuthorization_serializeToStream_def TL_auth_exportAuthorization_wire_def TL_auth_exportAuthorization_params_def
  by (rule emits_eq, (rule emit_intros emit_rules | simp add: TL_auth_exportAuthorization_wf_def; fail)+)

definition TL_auth_importAuthorization_params :: "TL_auth_importAuthorization \<Rightarrow> byte list" where
  "TL_auth_importAuthorization_params x = int_bytes (TL_auth_importAuthorization_id x) @
     of_ptr tl_bytes (TL_auth_importAuthorization_bytes x)"

definition TL_auth_importAuthorization_wf :: "TL_auth_importAuthorization \<Rightarrow> bool" where
  "TL_auth_importAuthorization_wf x \<longleftrightarrow> ok_bytes (TL_auth_importAuthorization_bytes x)"

definition TL_auth_importAuthorization_wire :: "TL_auth_importAuthorization \<Rightarrow> byte list" where
  "TL_auth_importAuthorization_wire x = int_bytes TL_auth_importAuthorization_constructor @ TL_auth_importAuthorization_params x"

lemma TL_auth_importAuthorization_emits [emit_rules]: "TL_auth_importAuthorization_wf x \<Longrightarrow> emits (TL_auth_importAuthorization_serializeToStream x) (TL_auth_importAuthorization_wire x)"
  unfolding TL_auth_importAuthorization_serializeToStream_def TL_auth_importAuthorization_wire_def TL_auth_importAuthorization_params_def
  by (rule emits_eq, (rule emit_intros emit_rules | simp add: TL_auth_importAuthorization_wf_def; fail)+)

definition TL_auth_sentAppCode_params :: "auth_SentCode_fields \<Rightarrow> byte list" where
  "TL_auth_sentAppCode_params x = bool_bytes (auth_SentCode_phone_registered x) @
     tl_bytes (auth_SentCode_phone_code_hash x) @
     int_bytes (auth_SentCode_send_call_timeout x) @
     bool_bytes (auth_SentCode_is_password x)"

definition TL_auth_sentAppCode_wf :: "auth_SentCode_fields \<Rightarrow> bool" where
  "TL_auth_sentAppCode_wf x \<longleftrightarrow> length (auth_SentCode_phone_code_hash x) < 2 ^ 24"

lemma TL_auth_sentAppCode_emits [emit_rules]: "TL_auth_sentAppCode_wf x \<Longrightarrow> emits (TL_auth_sentAppCode_serializeToStream x) (int_bytes TL_auth_sentAppCode_constructor @ TL_auth_sentAppCode_params x)"
  unfolding TL_auth_sentAppCode_serializeToStream_def TL_auth_sentAppCode_params_def
  by (rule emits_eq, (rule emit_intros emit_rules | simp add: TL_auth_sentAppCode_wf_def; fail)+)

lemma TL_auth_sentAppCode_parses [parse_rules]: "TL_auth_sentAppCode_wf x \<Longrightarrow> parses (TL_auth_sentAppCode_readParams auth_SentCode_fields_new) (TL_auth_sentAppCode_params x) x"
  by (rule parses_nil, unfold TL_auth_sentAppCode_readParams_def TL_auth_sentAppCode_params_def Let_def append_assoc, 
    (rule parse_intros parse_rules | simp add: TL_auth_sentAppCode_wf_def auth_SentCode_fields_new_def; fail | rule auth_SentCode_fields.equality)+)

lemma TL_auth_sentAppCode_safe [safe_rules]: "safe (TL_auth_sentAppCode_readParams x)"
  unfolding TL_auth_sentAppCode_readParams_def Let_def by (intro safe_intros safe_rules)

definition TL_auth_sentCode_params :: "auth_SentCode_fields \<Rightarrow> byte list" where
  "TL_auth_sentCode_params x = bool_bytes (auth_SentCode_phone_registered x) @
     tl_bytes (auth_SentCode_phone_code_hash x) @
     int_bytes (auth_SentCode_send_call_timeout x) @
     bool_bytes (auth_SentCode_is_password x)"

definition TL_auth_sentCode_wf :: "auth_SentCode_fields \<Rightarrow> bool" where
  "TL_auth_sentCode_wf x \<longleftrightarrow> length (auth_SentCode_phone_code_hash x) < 2 ^ 24"

lemma TL_auth_sentCode_emits [emit_rules]: "TL_auth_sentCode_wf x \<Longrightarrow> emits (TL_auth_sentCode_serializeToStream x) (int_bytes TL_auth_sentCode_constructor @ TL_auth_sentCode_params x)"
  unfolding TL_auth_sentCode_serializeToStream_def TL_auth_sentCode_params_def
  by (rule emits_eq, (rule emit_intros emit_rules | simp add: TL_auth_sentCode_wf_def; fail)+)

lemma TL_auth_sentCode_parses [parse_rules]: "TL_auth_sentCode_wf x \<Longrightarrow> parses (TL_auth_sentCode_readParams auth_SentCode_fields_new) (TL_auth_sentCode_params x) x"
  by (rule parses_nil, unfold TL_auth_sentCode_readParams_def TL_auth_sentCode_params_def Let_def append_assoc, 
    (rule parse_intros parse_rules | simp add: TL_auth_sentCode_wf_def auth_SentCode_fields_new_def; fail | rule auth_SentCode_fields.equality)+)

lemma TL_auth_sentCode_safe [safe_rules]: "safe (TL_auth_sentCode_readParams x)"
  unfolding TL_auth_sentCode_readParams_def Let_def by (intro safe_intros safe_rules)

fun auth_SentCode_wire :: "auth_SentCode \<Rightarrow> byte list" where
  "auth_SentCode_wire (TL_auth_sentAppCode x) = int_bytes TL_auth_sentAppCode_constructor @ TL_auth_sentAppCode_params x"
| "auth_SentCode_wire (TL_auth_sentCode x) = int_bytes TL_auth_sentCode_constructor @ TL_auth_sentCode_params x"

fun auth_SentCode_wf :: "auth_SentCode \<Rightarrow> bool" where
  "auth_SentCode_wf (TL_auth_sentAppCode x) = TL_auth_sentAppCode_wf x"
| "auth_SentCode_wf (TL_auth_sentCode x) = TL_auth_sentCode_wf x"

lemma auth_SentCode_reads:
  assumes wf: "auth_SentCode_wf x"
  shows "parses (read_object auth_SentCode_TLdeserialize) (auth_SentCode_wire x) (Some x)"
proof (cases x)
  case (TL_auth_sentAppCode y)
  then show ?thesis using wf unfolding TL_auth_sentAppCode auth_SentCode_wire.simps
    by (intro parses_read_object parses_wrap [OF TL_auth_sentAppCode_parses]) (simp_all add: auth_SentCode_TLdeserialize_def TL_auth_sentAppCode_constructor_def TL_auth_sentCode_constructor_def)
next
  case (TL_auth_sentCode y)
  then show ?thesis using wf unfolding TL_auth_sentCode auth_SentCode_wire.simps
    by (intro parses_read_object parses_wrap [OF TL_auth_sentCode_parses]) (simp_all add: auth_SentCode_TLdeserialize_def TL_auth_sentAppCode_constructor_def TL_auth_sentCode_constructor_def)
qed

lemma auth_SentCode_des_safe: "safe (auth_SentCode_TLdeserialize c)"
  unfolding auth_SentCode_TLdeserialize_def by (intro safe_intros safe_rules)

lemma auth_SentCode_emits: "auth_SentCode_wf x \<Longrightarrow> emits (auth_SentCode_serializeToStream x) (auth_SentCode_wire x)"
  by (cases x) (simp_all add: TL_auth_sentAppCode_emits TL_auth_sentCode_emits)

interpretation codec_auth_SentCode: tl_codec auth_SentCode_TLdeserialize auth_SentCode_wire auth_SentCode_wf auth_SentCode_serializeToStream
  by unfold_locales (simp_all add: auth_SentCode_reads auth_SentCode_des_safe auth_SentCode_emits)

lemmas auth_SentCode_rules [emit_rules] = codec_auth_SentCode.emits_ptr codec_auth_SentCode.emits_list

lemmas auth_SentCode_read_rules [parse_rules] = codec_auth_SentCode.reads codec_auth_SentCode.reads_ptr codec_auth_SentCode.reads_list

lemmas auth_SentCode_safe_rules [safe_rules] = codec_auth_SentCode.safe_des codec_auth_SentCode.safe_reads

definition TL_auth_sendCode_params :: "TL_auth_sendCode \<Rightarrow> byte list" where
  "TL_auth_sendCode_params x = tl_bytes (TL_auth_sendCode_phone_number x) @
     int_bytes (TL_auth_sendCode_sms_type x) @
     int_bytes (TL_auth_sendCode_api_id x) @
     tl_bytes (TL_auth_sendCode_api_hash x) @
     tl_bytes (TL_auth_sendCode_lang_code x)"

definition TL_auth_sendCode_wf :: "TL_auth_sendCode \<Rightarrow> bool" where
  "TL_auth_sendCode_wf x \<longleftrightarrow> length (TL_auth_sendCode_phone_number x) < 2 ^ 24 \<and>
     length (TL_auth_sendCode_api_hash x) < 2 ^ 24 \<and>
     length (TL_auth_sendCode_lang_code x) < 2 ^ 24"

definition TL_auth_sendCode_wire :: "TL_auth_sendCode \<Rightarrow> byte list" where
  "TL_auth_sendCode_wire x = int_bytes TL_auth_sendCode_constructor @ TL_auth_sendCode_params x"

lemma TL_auth_sendCode_emits [emit_rules]: "TL_auth_sendCode_wf x \<Longrightarrow> emits (TL_auth_sendCode_serializeToStream x) (TL_auth_sendCode_wire x)"
  unfolding TL_auth_sendCode_serializeToStream_def TL_auth_sendCode_wire_def TL_auth_sendCode_params_def
  by (rule emits_eq, (rule emit_intros emit_rules | simp add: TL_auth_sendCode_wf_def; fail)+)

definition TL_updatesTooLong_wire :: "byte list" where
  "TL_updatesTooLong_wire = int_bytes TL_updatesTooLong_constructor"

lemma TL_updatesTooLong_emits [emit_rules]: "emits (TL_updatesTooLong_serializeToStream) TL_updatesTooLong_wire"
  unfolding TL_updatesTooLong_serializeToStream_def TL_updatesTooLong_wire_def
  by (rule emits_eq, (rule emit_intros emit_rules | simp add: append_Nil2; fail)+)

lemma TL_storage_fileUnknown_emits [emit_rules]: "emits (TL_storage_fileUnknown_serializeToStream) (int_bytes TL_storage_fileUnknown_constructor)"
  unfolding TL_storage_fileUnknown_serializeToStream_def
  by (rule emits_eq, (rule emit_intros emit_rules | simp add: append_Nil2; fail)+)

lemma TL_storage_fileMp4_emits [emit_rules]: "emits (TL_storage_fileMp4_serializeToStream) (int_bytes TL_storage_fileMp4_constructor)"
  unfolding TL_storage_fileMp4_serializeToStream_def
  by (rule emits_eq, (rule emit_intros emit_rules | simp add: append_Nil2; fail)+)

lemma TL_storage_fileWebp_emits [emit_rules]: "emits (TL_storage_fileWebp_serializeToStream) (int_bytes TL_storage_fileWebp_constructor)"
  unfolding TL_storage_fileWebp_serializeToStream_def
  by (rule emits_eq, (rule emit_intros emit_rules | simp add: append_Nil2; fail)+)

lemma TL_storage_filePng_emits [emit_rules]: "emits (TL_storage_filePng_serializeToStream) (int_bytes TL_storage_filePng_constructor)"
  unfolding TL_storage_filePng_serializeToStream_def
  by (rule emits_eq, (rule emit_intros emit_rules | simp add: append_Nil2; fail)+)

lemma TL_storage_fileGif_emits [emit_rules]: "emits (TL_storage_fileGif_serializeToStream) (int_bytes TL_storage_fileGif_constructor)"
  unfolding TL_storage_fileGif_serializeToStream_def
  by (rule emits_eq, (rule emit_intros emit_rules | simp add: append_Nil2; fail)+)

lemma TL_storage_filePdf_emits [emit_rules]: "emits (TL_storage_filePdf_serializeToStream) (int_bytes TL_storage_filePdf_constructor)"
  unfolding TL_storage_filePdf_serializeToStream_def
  by (rule emits_eq, (rule emit_intros emit_rules | simp add: append_Nil2; fail)+)

lemma TL_storage_fileMp3_emits [emit_rules]: "emits (TL_storage_fileMp3_serializeToStream) (int_bytes TL_storage_fileMp3_constructor)"
  unfolding TL_storage_fileMp3_serializeToStream_def
  by (rule emits_eq, (rule emit_intros emit_rules | simp add: append_Nil2; fail)+)

lemma TL_storage_fileJpeg_emits [emit_rules]: "emits (TL_storage_fileJpeg_serializeToStream) (int_bytes TL_storage_fileJpeg_constructor)"
  unfolding TL_storage_fileJpeg_serializeToStream_def
  by (rule emits_eq, (rule emit_intros emit_rules | simp add: append_Nil2; fail)+)

lemma TL_storage_fileMov_emits [emit_rules]: "emits (TL_storage_fileMov_serializeToStream) (int_bytes TL_storage_fileMov_constructor)"
  unfolding TL_storage_fileMov_serializeToStream_def
  by (rule emits_eq, (rule emit_intros emit_rules | simp add: append_Nil2; fail)+)

lemma TL_storage_filePartial_emits [emit_rules]: "emits (TL_storage_filePartial_serializeToStream) (int_bytes TL_storage_filePartial_constructor)"
  unfolding TL_storage_filePartial_serializeToStream_def
  by (rule emits_eq, (rule emit_intros emit_rules | simp add: append_Nil2; fail)+)

fun storage_FileType_wire :: "storage_FileType \<Rightarrow> byte list" where
  "storage_FileType_wire (TL_storage_fileUnknown) = int_bytes TL_storage_fileUnknown_constructor"
| "storage_FileType_wire (TL_storage_fileMp4) = int_bytes TL_storage_fileMp4_constructor"
| "storage_FileType_wire (TL_storage_fileWebp) = int_bytes TL_storage_fileWebp_constructor"
| "storage_FileType_wire (TL_storage_filePng) = int_bytes TL_storage_filePng_constructor"
| "storage_FileType_wire (TL_storage_fileGif) = int_bytes TL_storage_fileGif_constructor"
| "storage_FileType_wire (TL_storage_filePdf) = int_bytes TL_storage_filePdf_constructor"
| "storage_FileType_wire (TL_storage_fileMp3) = int_bytes TL_storage_fileMp3_constructor"
| "storage_FileType_wire (TL_storage_fileJpeg) = int_bytes TL_storage_fileJpeg_constructor"
| "storage_FileType_wire (TL_storage_fileMov) = int_bytes TL_storage_fileMov_constructor"
| "storage_FileType_wire (TL_storage_filePartial) = int_bytes TL_storage_filePartial_constructor"

fun storage_FileType_wf :: "storage_FileType \<Rightarrow> bool" where
  "storage_FileType_wf (TL_storage_fileUnknown) = True"
| "storage_FileType_wf (TL_storage_fileMp4) = True"
| "storage_FileType_wf (TL_storage_fileWebp) = True"
| "storage_FileType_wf (TL_storage_filePng) = True"
| "storage_FileType_wf (TL_storage_fileGif) = True"
| "storage_FileType_wf (TL_storage_filePdf) = True"
| "storage_FileType_wf (TL_storage_fileMp3) = True"
| "storage_FileType_wf (TL_storage_fileJpeg) = True"
| "storage_FileType_wf (TL_storage_fileMov) = True"
| "storage_FileType_wf (TL_storage_filePartial) = True"

lemma storage_FileType_reads:
  assumes wf: "storage_FileType_wf x"
  shows "parses (read_object storage_FileType_TLdeserialize) (storage_FileType_wire x) (Some x)"
proof (cases x)
  case TL_storage_fileUnknown
  then show ?thesis unfolding TL_storage_fileUnknown storage_FileType_wire.simps
    by (intro parses_read_object0) (simp add: storage_FileType_TLdeserialize_def TL_storage_fileUnknown_constructor_def TL_storage_fileMp4_constructor_def TL_storage_fileWebp_constructor_def TL_storage_filePng_constructor_def TL_storage_fileGif_constructor_def TL_storage_filePdf_constructor_def TL_storage_fileMp3_constructor_def TL_storage_fileJpeg_constructor_def TL_storage_fileMov_constructor_def TL_storage_filePartial_constructor_def)
next
  case TL_storage_fileMp4
  then show ?thesis unfolding TL_storage_fileMp4 storage_FileType_wire.simps
    by (intro parses_read_object0) (simp add: storage_FileType_TLdeserialize_def TL_storage_fileUnknown_constructor_def TL_storage_fileMp4_constructor_def TL_storage_fileWebp_constructor_def TL_storage_filePng_constructor_def TL_storage_fileGif_constructor_def TL_storage_filePdf_constructor_def TL_storage_fileMp3_constructor_def TL_storage_fileJpeg_constructor_def TL_storage_fileMov_constructor_def TL_storage_filePartial_constructor_def)
next
  case TL_storage_fileWebp
  then show ?thesis unfolding TL_storage_fileWebp storage_FileType_wire.simps
    by (intro parses_read_object0) (simp add: storage_FileType_TLdeserialize_def TL_storage_fileUnknown_constructor_def TL_storage_fileMp4_constructor_def TL_storage_fileWebp_constructor_def TL_storage_filePng_constructor_def TL_storage_fileGif_constructor_def TL_storage_filePdf_constructor_def TL_storage_fileMp3_constructor_def TL_storage_fileJpeg_constructor_def TL_storage_fileMov_constructor_def TL_storage_filePartial_constructor_def)
next
  case TL_storage_filePng
  then show ?thesis unfolding TL_storage_filePng storage_FileType_wire.simps
    by (intro parses_read_object0) (simp add: storage_FileType_TLdeserialize_def TL_storage_fileUnknown_constructor_def TL_storage_fileMp4_constructor_def TL_storage_fileWebp_constructor_def TL_storage_filePng_constructor_def TL_storage_fileGif_constructor_def TL_storage_filePdf_constructor_def TL_storage_fileMp3_constructor_def TL_storage_fileJpeg_constructor_def TL_storage_fileMov_constructor_def TL_storage_filePartial_constructor_def)
next
  case TL_storage_fileGif
  then show ?thesis unfolding TL_storage_fileGif storage_FileType_wire.simps
    by (intro parses_read_object0) (simp add: storage_FileType_TLdeserialize_def TL_storage_fileUnknown_constructor_def TL_storage_fileMp4_constructor_def TL_storage_fileWebp_constructor_def TL_storage_filePng_constructor_def TL_storage_fileGif_constructor_def TL_storage_filePdf_constructor_def TL_storage_fileMp3_constructor_def TL_storage_fileJpeg_constructor_def TL_storage_fileMov_constructor_def TL_storage_filePartial_constructor_def)
next
  case TL_storage_filePdf
  then show ?thesis unfolding TL_storage_filePdf storage_FileType_wire.simps
    by (intro parses_read_object0) (simp add: storage_FileType_TLdeserialize_def TL_storage_fileUnknown_constructor_def TL_storage_fileMp4_constructor_def TL_storage_fileWebp_constructor_def TL_storage_filePng_constructor_def TL_storage_fileGif_constructor_def TL_storage_filePdf_constructor_def TL_storage_fileMp3_constructor_def TL_storage_fileJpeg_constructor_def TL_storage_fileMov_constructor_def TL_storage_filePartial_constructor_def)
next
  case TL_storage_fileMp3
  then show ?thesis unfolding TL_storage_fileMp3 storage_FileType_wire.simps
    by (intro parses_read_object0) (simp add: storage_FileType_TLdeserialize_def TL_storage_fileUnknown_constructor_def TL_storage_fileMp4_constructor_def TL_storage_fileWebp_constructor_def TL_storage_filePng_constructor_def TL_storage_fileGif_constructor_def TL_storage_filePdf_constructor_def TL_storage_fileMp3_constructor_def TL_storage_fileJpeg_constructor_def TL_storage_fileMov_constructor_def TL_storage_filePartial_constructor_def)
next
  case TL_storage_fileJpeg
  then show ?thesis unfolding TL_storage_fileJpeg storage_FileType_wire.simps
    by (intro parses_read_object0) (simp add: storage_FileType_TLdeserialize_def TL_storage_fileUnknown_constructor_def TL_storage_fileMp4_constructor_def TL_storage_fileWebp_constructor_def TL_storage_filePng_constructor_def TL_storage_fileGif_constructor_def TL_storage_filePdf_constructor_def TL_storage_fileMp3_constructor_def TL_storage_fileJpeg_constructor_def TL_storage_fileMov_constructor_def TL_storage_filePartial_constructor_def)
next
  case TL_storage_fileMov
  then show ?thesis unfolding TL_storage_fileMov storage_FileType_wire.simps
    by (intro parses_read_object0) (simp add: storage_FileType_TLdeserialize_def TL_storage_fileUnknown_constructor_def TL_storage_fileMp4_constructor_def TL_storage_fileWebp_constructor_def TL_storage_filePng_constructor_def TL_storage_fileGif_constructor_def TL_storage_filePdf_constructor_def TL_storage_fileMp3_constructor_def TL_storage_fileJpeg_constructor_def TL_storage_fileMov_constructor_def TL_storage_filePartial_constructor_def)
next
  case TL_storage_filePartial
  then show ?thesis unfolding TL_storage_filePartial storage_FileType_wire.simps
    by (intro parses_read_object0) (simp add: storage_FileType_TLdeserialize_def TL_storage_fileUnknown_constructor_def TL_storage_fileMp4_constructor_def TL_storage_fileWebp_constructor_def TL_storage_filePng_constructor_def TL_storage_fileGif_constructor_def TL_storage_filePdf_constructor_def TL_storage_fileMp3_constructor_def TL_storage_fileJpeg_constructor_def TL_storage_fileMov_constructor_def TL_storage_filePartial_constructor_def)
qed

lemma storage_FileType_des_safe: "safe (storage_FileType_TLdeserialize c)"
  unfolding storage_FileType_TLdeserialize_def by (intro safe_intros safe_rules)

lemma storage_FileType_emits: "storage_FileType_wf x \<Longrightarrow> emits (storage_FileType_serializeToStream x) (storage_FileType_wire x)"
  by (cases x) (simp_all add: TL_storage_fileUnknown_emits TL_storage_fileMp4_emits TL_storage_fileWebp_emits TL_storage_filePng_emits TL_storage_fileGif_emits TL_storage_filePdf_emits TL_storage_fileMp3_emits TL_storage_fileJpeg_emits TL_storage_fileMov_emits TL_storage_filePartial_emits)

interpretation codec_storage_FileType: tl_codec storage_FileType_TLdeserialize storage_FileType_wire storage_FileType_wf storage_FileType_serializeToStream
  by unfold_locales (simp_all add: storage_FileType_reads storage_FileType_des_safe storage_FileType_emits)

lemmas storage_FileType_rules [emit_rules] = codec_storage_FileType.emits_ptr codec_storage_FileType.emits_list

lemmas storage_FileType_read_rules [parse_rules] = codec_storage_FileType.reads codec_storage_FileType.reads_ptr codec_storage_FileType.reads_list

lemmas storage_FileType_safe_rules [safe_rules] = codec_storage_FileType.safe_des codec_storage_FileType.safe_reads

definition TL_inputDocumentFileLocation_params :: "InputFileLocation_fields \<Rightarrow> byte list" where
  "TL_inputDocumentFileLocation_params x = long_bytes (InputFileLocation_id x) @
     long_bytes (InputFileLocation_access_hash x) @
     int_bytes (InputFileLocation_version x)"

definition TL_inputDocumentFileLocation_wf :: "InputFileLocation_fields \<Rightarrow> bool" where
  "TL_inputDocumentFileLocation_wf x \<longleftrightarrow> InputFileLocation_volume_id x = 0 \<and>
     InputFileLocation_local_id x = 0 \<and>
     InputFileLocation_secret x = 0"

lemma TL_inputDocumentFileLocation_emits [emit_rules]: "TL_inputDocumentFileLocation_wf x \<Longrightarrow> emits (TL_inputDocumentFileLocation_serializeToStream x) (int_bytes TL_inputDocumentFileLocation_constructor @ TL_inputDocumentFileLocation_params x)"
  unfolding TL_inputDocumentFileLocation_serializeToStream_def TL_inputDocumentFileLocation_params_def
  by (rule emits_eq, (rule emit_intros emit_rules | simp add: TL_inputDocumentFileLocation_wf_def; fail)+)

lemma TL_inputDocumentFileLocation_parses [parse_rules]: "TL_inputDocumentFileLocation_wf x \<Longrightarrow> parses (TL_inputDocumentFileLocation_readParams InputFileLocation_fields_new) (TL_inputDocumentFileLocation_params x) x"
  by (rule parses_nil, unfold TL_inputDocumentFileLocation_readParams_def TL_inputDocumentFileLocation_params_def Let_def append_assoc, 
    (rule parse_intros parse_rules | simp add: TL_inputDocumentFileLocation_wf_def InputFileLocation_fields_new_def; fail | rule InputFileLocation_fields.equality)+)

lemma TL_inputDocumentFileLocation_safe [safe_rules]: "safe (TL_inputDocumentFileLocation_readParams x)"
  unfolding TL_inputDocumentFileLocation_readParams_def Let_def by (intro safe_intros safe_rules)

definition TL_inputFileLocation_params :: "InputFileLocation_fields \<Rightarrow> byte list" where
  "TL_inputFileLocation_params x = long_bytes (InputFileLocation_volume_id x) @
     int_bytes (InputFileLocation_local_id x) @
     long_bytes (InputFileLocation_secret x)"

definition TL_inputFileLocation_wf :: "InputFileLocation_fields \<Rightarrow> bool" where
  "TL_inputFileLocation_wf x \<longleftrightarrow> InputFileLocation_id x = 0 \<and>
     InputFileLocation_access_hash x = 0 \<and>
     InputFileLocation_version x = 0"

lemma TL_inputFileLocation_emits [emit_rules]: "TL_inputFileLocation_wf x \<Longrightarrow> emits (TL_inputFileLocation_serializeToStream x) (int_bytes TL_inputFileLocation_constructor @ TL_inputFileLocation_params x)"
  unfolding TL_inputFileLocation_serializeToStream_def TL_inputFileLocation_params_def
  by (rule emits_eq, (rule emit_intros emit_rules | simp add: TL_inputFileLocation_wf_def; fail)+)

lemma TL_inputFileLocation_parses [parse_rules]: "TL_inputFileLocation_wf x \<Longrightarrow> parses (TL_inputFileLocation_readParams InputFileLocation_fields_new) (TL_inputFileLocation_params x) x"
  by (rule parses_nil, unfold TL_inputFileLocation_readParams_def TL_inputFileLocation_params_def Let_def append_assoc, 
    (rule parse_intros parse_rules | simp add: TL_inputFileLocation_wf_def InputFileLocation_fields_new_def; fail | rule InputFileLocation_fields.equality)+)

lemma TL_inputFileLocation_safe [safe_rules]: "safe (TL_inputFileLocation_readParams x)"
  unfolding TL_inputFileLocation_readParams_def Let_def by (intro safe_intros safe_rules)

definition TL_inputEncryptedFileLocation_params :: "InputFileLocation_fields \<Rightarrow> byte list" where
  "TL_inputEncryptedFileLocation_params x = long_bytes (InputFileLocation_id x) @
     long_bytes (InputFileLocation_access_hash x)"

definition TL_inputEncryptedFileLocation_wf :: "InputFileLocation_fields \<Rightarrow> bool" where
  "TL_inputEncryptedFileLocation_wf x \<longleftrightarrow> InputFileLocation_version x = 0 \<and>
     InputFileLocation_volume_id x = 0 \<and>
     InputFileLocation_local_id x = 0 \<and>
     InputFileLocation_secret x = 0"

lemma TL_inputEncryptedFileLocation_emits [emit_rules]: "TL_inputEncryptedFileLocation_wf x \<Longrightarrow> emits (TL_inputEncryptedFileLocation_serializeToStream x) (int_bytes TL_inputEncryptedFileLocation_constructor @ TL_inputEncryptedFileLocation_params x)"
  unfolding TL_inputEncryptedFileLocation_serializeToStream_def TL_inputEncryptedFileLocation_params_def
  by (rule emits_eq, (rule emit_intros emit_rules | simp add: TL_inputEncryptedFileLocation_wf_def; fail)+)

lemma TL_inputEncryptedFileLocation_parses [parse_rules]: "TL_inputEncryptedFileLocation_wf x \<Longrightarrow> parses (TL_inputEncryptedFileLocation_readParams InputFileLocation_fields_new) (TL_inputEncryptedFileLocation_params x) x"
  by (rule parses_nil, unfold TL_inputEncryptedFileLocation_readParams_def TL_inputEncryptedFileLocation_params_def Let_def append_assoc, 
    (rule parse_intros parse_rules | simp add: TL_inputEncryptedFileLocation_wf_def InputFileLocation_fields_new_def; fail | rule InputFileLocation_fields.equality)+)

lemma TL_inputEncryptedFileLocation_safe [safe_rules]: "safe (TL_inputEncryptedFileLocation_readParams x)"
  unfolding TL_inputEncryptedFileLocation_readParams_def Let_def by (intro safe_intros safe_rules)

fun InputFileLocation_wire :: "InputFileLocation \<Rightarrow> byte list" where
  "InputFileLocation_wire (TL_inputDocumentFileLocation x) = int_bytes TL_inputDocumentFileLocation_constructor @ TL_inputDocumentFileLocation_params x"
| "InputFileLocation_wire (TL_inputFileLocation x) = int_bytes TL_inputFileLocation_constructor @ TL_inputFileLocation_params x"
| "InputFileLocation_wire (TL_inputEncryptedFileLocation x) = int_bytes TL_inputEncryptedFileLocation_constructor @ TL_inputEncryptedFileLocation_params x"

fun InputFileLocation_wf :: "InputFileLocation \<Rightarrow> bool" where
  "InputFileLocation_wf (TL_inputDocumentFileLocation x) = TL_inputDocumentFileLocation_wf x"
| "InputFileLocation_wf (TL_inputFileLocation x) = TL_inputFileLocation_wf x"
| "InputFileLocation_wf (TL_inputEncryptedFileLocation x) = TL_inputEncryptedFileLocation_wf x"

lemma InputFileLocation_reads:
  assumes wf: "InputFileLocation_wf x"
  shows "parses (read_object InputFileLocation_TLdeserialize) (InputFileLocation_wire x) (Some x)"
proof (cases x)
  case (TL_inputDocumentFileLocation y)
  then show ?thesis using wf unfolding TL_inputDocumentFileLocation InputFileLocation_wire.simps
    by (intro parses_read_object parses_wrap [OF TL_inputDocumentFileLocation_parses]) (simp_all add: InputFileLocation_TLdeserialize_def TL_inputDocumentFileLocation_constructor_def TL_inputFileLocation_constructor_def TL_inputEncryptedFileLocation_constructor_def)
next
  case (TL_inputFileLocation y)
  then show ?thesis using wf unfolding TL_inputFileLocation InputFileLocation_wire.simps
    by (intro parses_read_object parses_wrap [OF TL_inputFileLocation_parses]) (simp_all add: InputFileLocation_TLdeserialize_def TL_inputDocumentFileLocation_constructor_def TL_inputFileLocation_constructor_def TL_inputEncryptedFileLocation_constructor_def)
next
  case (TL_inputEncryptedFileLocation y)
  then show ?thesis using wf unfolding TL_inputEncryptedFileLocation InputFileLocation_wire.simps
    by (intro parses_read_object parses_wrap [OF TL_inputEncryptedFileLocation_parses]) (simp_all add: InputFileLocation_TLdeserialize_def TL_inputDocumentFileLocation_constructor_def TL_inputFileLocation_constructor_def TL_inputEncryptedFileLocation_constructor_def)
qed

lemma InputFileLocation_des_safe: "safe (InputFileLocation_TLdeserialize c)"
  unfolding InputFileLocation_TLdeserialize_def by (intro safe_intros safe_rules)

lemma InputFileLocation_emits: "InputFileLocation_wf x \<Longrightarrow> emits (InputFileLocation_serializeToStream x) (InputFileLocation_wire x)"
  by (cases x) (simp_all add: TL_inputDocumentFileLocation_emits TL_inputFileLocation_emits TL_inputEncryptedFileLocation_emits)

interpretation codec_InputFileLocation: tl_codec InputFileLocation_TLdeserialize InputFileLocation_wire InputFileLocation_wf InputFileLocation_serializeToStream
  by unfold_locales (simp_all add: InputFileLocation_reads InputFileLocation_des_safe InputFileLocation_emits)

lemmas InputFileLocation_rules [emit_rules] = codec_InputFileLocation.emits_ptr codec_InputFileLocation.emits_list

lemmas InputFileLocation_read_rules [parse_rules] = codec_InputFileLocation.reads codec_InputFileLocation.reads_ptr codec_InputFileLocation.reads_list

lemmas InputFileLocation_safe_rules [safe_rules] = codec_InputFileLocation.safe_des codec_InputFileLocation.safe_reads

definition TL_upload_saveFilePart_params :: "TL_upload_saveFilePart \<Rightarrow> byte list" where
  "TL_upload_saveFilePart_params x = long_bytes (TL_upload_saveFilePart_file_id x) @
     int_bytes (TL_upload_saveFilePart_file_part x) @
     of_ptr tl_bytes (TL_upload_saveFilePart_bytes x)"

definition TL_upload_saveFilePart_wf :: "TL_upload_saveFilePart \<Rightarrow> bool" where
  "TL_upload_saveFilePart_wf x \<longleftrightarrow> ok_bytes (TL_upload_saveFilePart_bytes x)"

definition TL_upload_saveFilePart_wire :: "TL_upload_saveFilePart \<Rightarrow> byte list" where
  "TL_upload_saveFilePart_wire x = int_bytes TL_upload_saveFilePart_constructor @ TL_upload_saveFilePart_params x"

lemma TL_upload_saveFilePart_emits [emit_rules]: "TL_upload_saveFilePart_wf x \<Longrightarrow> emits (TL_upload_saveFilePart_serializeToStream x) (TL_upload_saveFilePart_wire x)"
  unfolding TL_upload_saveFilePart_serializeToStream_def TL_upload_saveFilePart_wire_def TL_upload_saveFilePart_params_def
  by (rule emits_eq, (rule emit_intros emit_rules | simp add: TL_upload_saveFilePart_wf_def; fail)+)

definition TL_upload_getFile_params :: "TL_upload_getFile \<Rightarrow> byte list" where
  "TL_upload_getFile_params x = of_ptr InputFileLocation_wire (TL_upload_getFile_location x) @
     int_bytes (TL_upload_getFile_offset x) @
     int_bytes (TL_upload_getFile_limit x)"

definition TL_upload_getFile_wf :: "TL_upload_getFile \<Rightarrow> bool" where
  "TL_upload_getFile_wf x \<longleftrightarrow> ok_ptr InputFileLocation_wf (TL_upload_getFile_location x)"

definition TL_upload_getFile_wire :: "TL_upload_getFile \<Rightarrow> byte list" where
  "TL_upload_getFile_wire x = int_bytes TL_upload_getFile_constructor @ TL_upload_getFile_params x"

lemma TL_upload_getFile_emits [emit_rules]: "TL_upload_getFile_wf x \<Longrightarrow> emits (TL_upload_getFile_serializeToStream x) (TL_upload_getFile_wire x)"
  unfolding TL_upload_getFile_serializeToStream_def TL_upload_getFile_wire_def TL_upload_getFile_params_def
  by (rule emits_eq, (rule emit_intros emit_rules | simp add: TL_upload_getFile_wf_def; fail)+)

lemma TL_upload_file_safe [safe_rules]: "safe (TL_upload_file_readParams x)"
  unfolding TL_upload_file_readParams_def Let_def by (intro safe_intros safe_rules)

lemma TL_upload_file_des_safe [safe_rules]: "safe (TL_upload_file_TLdeserialize c)"
  unfolding TL_upload_file_TLdeserialize_def by (intro safe_intros safe_rules)

definition TL_future_salt_params :: "TL_future_salt \<Rightarrow> byte list" where
  "TL_future_salt_params x = int_bytes (TL_future_salt_valid_since x) @
     int_bytes (TL_future_salt_valid_until x) @
     long_bytes (TL_future_salt_salt x)"

definition TL_future_salt_wf :: "TL_future_salt \<Rightarrow> bool" where
  "TL_future_salt_wf x \<longleftrightarrow> True"

definition TL_future_salt_wire :: "TL_future_salt \<Rightarrow> byte list" where
  "TL_future_salt_wire x = int_bytes TL_future_salt_constructor @ TL_future_salt_params x"

lemma TL_future_salt_parses [parse_rules]: "TL_future_salt_wf x \<Longrightarrow> parses (TL_future_salt_readParams TL_future_salt_new) (TL_future_salt_params x) x"
  by (rule parses_nil, unfold TL_future_salt_readParams_def TL_future_salt_params_def Let_def append_assoc, 
    (rule parse_intros parse_rules | simp add: TL_future_salt_wf_def TL_future_salt_new_def; fail | rule TL_future_salt.equality)+)

lemma TL_future_salt_safe [safe_rules]: "safe (TL_future_salt_readParams x)"
  unfolding TL_future_salt_readParams_def Let_def by (intro safe_intros safe_rules)

lemma TL_future_salt_reads: "TL_future_salt_wf x \<Longrightarrow> parses (read_object TL_future_salt_TLdeserialize) (TL_future_salt_wire x) (Some x)"
  unfolding TL_future_salt_wire_def TL_future_salt_TLdeserialize_def [abs_def] by (rule parses_class) (rule TL_future_salt_parses)

lemma TL_future_salt_des_safe: "safe (TL_future_salt_TLdeserialize c)"
  unfolding TL_future_salt_TLdeserialize_def by (intro safe_intros safe_rules)

interpretation codec_TL_future_salt: tl_reader TL_future_salt_TLdeserialize TL_future_salt_wire TL_future_salt_wf
  by unfold_locales (simp_all add: TL_future_salt_reads TL_future_salt_des_safe)

lemmas TL_future_salt_read_rules [parse_rules] = codec_TL_future_salt.reads codec_TL_future_salt.reads_ptr codec_TL_future_salt.reads_list

lemmas TL_future_salt_safe_rules [safe_rules] = codec_TL_future_salt.safe_des codec_TL_future_salt.safe_reads

definition TL_msgs_state_info_params :: "TL_msgs_state_info \<Rightarrow> byte list" where
  "TL_msgs_state_info_params x = long_bytes (TL_msgs_state_info_req_msg_id x) @
     of_ptr tl_bytes (TL_msgs_state_info_info x)"

definition TL_msgs_state_info_wf :: "TL_msgs_state_info \<Rightarrow> bool" where
  "TL_msgs_state_info_wf x \<longleftrightarrow> ok_bytes (TL_msgs_state_info_info x)"

definition TL_msgs_state_info_wire :: "TL_msgs_state_info \<Rightarrow> byte list" where
  "TL_msgs_state_info_wire x = int_bytes TL_msgs_state_info_constructor @ TL_msgs_state_info_params x"

lemma TL_msgs_state_info_emits [emit_rules]: "TL_msgs_state_info_wf x \<Longrightarrow> emits (TL_msgs_state_info_serializeToStream x) (TL_msgs_state_info_wire x)"
  unfolding TL_msgs_state_info_serializeToStream_def TL_msgs_state_info_wire_def TL_msgs_state_info_params_def
  by (rule emits_eq, (rule emit_intros emit_rules | simp add: TL_msgs_state_info_wf_def; fail)+)

lemma TL_msgs_state_info_parses [parse_rules]: "TL_msgs_state_info_wf x \<Longrightarrow> parses (TL_msgs_state_info_readParams TL_msgs_state_info_new) (TL_msgs_state_info_params x) x"
  by (rule parses_nil, unfold TL_msgs_state_info_readParams_def TL_msgs_state_info_params_def Let_def append_assoc, 
    (rule parse_intros parse_rules | simp add: TL_msgs_state_info_wf_def TL_msgs_state_info_new_def; fail | rule TL_msgs_state_info.equality)+)

lemma TL_msgs_state_info_safe [safe_rules]: "safe (TL_msgs_state_info_readParams x)"
  unfolding TL_msgs_state_info_readParams_def Let_def by (intro safe_intros safe_rules)

lemma TL_msgs_state_info_reads: "TL_msgs_state_info_wf x \<Longrightarrow> parses (read_object TL_msgs_state_info_TLdeserialize) (TL_msgs_state_info_wire x) (Some x)"
  unfolding TL_msgs_state_info_wire_def TL_msgs_state_info_TLdeserialize_def [abs_def] by (rule parses_class) (rule TL_msgs_state_info_parses)

lemma TL_msgs_state_info_des_safe: "safe (TL_msgs_state_info_TLdeserialize c)"
  unfolding TL_msgs_state_info_TLdeserialize_def by (intro safe_intros safe_rules)

interpretation codec_TL_msgs_state_info: tl_codec TL_msgs_state_info_TLdeserialize TL_msgs_state_info_wire TL_msgs_state_info_wf TL_msgs_state_info_serializeToStream
  by unfold_locales (simp_all add: TL_msgs_state_info_reads TL_msgs_state_info_des_safe TL_msgs_state_info_emits)

lemmas TL_msgs_state_info_rules [emit_rules] = codec_TL_msgs_state_info.emits_ptr codec_TL_msgs_state_info.emits_list

lemmas TL_msgs_state_info_read_rules [parse_rules] = codec_TL_msgs_state_info.reads codec_TL_msgs_state_info.reads_ptr codec_TL_msgs_state_info.reads_list

lemmas TL_msgs_state_info_safe_rules [safe_rules] = codec_TL_msgs_state_info.safe_des codec_TL_msgs_state_info.safe_reads

definition TL_server_DH_params_fail_params :: "Server_DH_Params_fields \<Rightarrow> byte list" where
  "TL_server_DH_params_fail_params x = of_ptr (\<lambda>a. a) (Server_DH_Params_nonce x) @
     of_ptr (\<lambda>a. a) (Server_DH_Params_server_nonce x) @
     of_ptr (\<lambda>a. a) (Server_DH_Params_new_nonce_hash x)"

definition TL_server_DH_params_fail_wf :: "Server_DH_Params_fields \<Rightarrow> bool" where
  "TL_server_DH_params_fail_wf x \<longleftrightarrow> sized_bytes 16 (Server_DH_Params_nonce x) \<and>
     sized_bytes 16 (Server_DH_Params_server_nonce x) \<and>
     sized_bytes 16 (Server_DH_Params_new_nonce_hash x) \<and>
     Server_DH_Params_encrypted_answer x = None"

lemma TL_server_DH_params_fail_parses [parse_rules]: "TL_server_DH_params_fail_wf x \<Longrightarrow> parses (TL_server_DH_params_fail_readParams Server_DH_Params_fields_new) (TL_server_DH_params_fail_params x) x"
  by (rule parses_nil, unfold TL_server_DH_params_fail_readParams_def TL_server_DH_params_fail_params_def Let_def append_assoc, 
    (rule parse_intros parse_rules | simp add: TL_server_DH_params_fail_wf_def Server_DH_Params_fields_new_def; fail | rule Server_DH_Params_fields.equality)+)

lemma TL_server_DH_params_fail_safe [safe_rules]: "safe (TL_server_DH_params_fail_readParams x)"
  unfolding TL_server_DH_params_fail_readParams_def Let_def by (intro safe_intros safe_rules)

definition TL_server_DH_params_ok_params :: "Server_DH_Params_fields \<Rightarrow> byte list" where
  "TL_server_DH_params_ok_params x = of_ptr (\<lambda>a. a) (Server_DH_Params_nonce x) @
     of_ptr (\<lambda>a. a) (Server_DH_Params_server_nonce x) @
     of_ptr tl_bytes (Server_DH_Params_encrypted_answer x)"

definition TL_server_DH_params_ok_wf :: "Server_DH_Params_fields \<Rightarrow> bool" where
  "TL_server_DH_params_ok_wf x \<longleftrightarrow> sized_bytes 16 (Server_DH_Params_nonce x) \<and>
     sized_bytes 16 (Server_DH_Params_server_nonce x) \<and>
     ok_bytes (Server_DH_Params_encrypted_answer x) \<and>
     Server_DH_Params_new_nonce_hash x = None"

lemma TL_server_DH_params_ok_parses [parse_rules]: "TL_server_DH_params_ok_wf x \<Longrightarrow> parses (TL_server_DH_params_ok_readParams Server_DH_Params_fields_new) (TL_server_DH_params_ok_params x) x"
  by (rule parses_nil, unfold TL_server_DH_params_ok_readParams_def TL_server_DH_params_ok_params_def Let_def append_assoc, 
    (rule parse_intros parse_rules | simp add: TL_server_DH_params_ok_wf_def Server_DH_Params_fields_new_def; fail | rule Server_DH_Params_fields.equality)+)

lemma TL_server_DH_params_ok_safe [safe_rules]: "safe (TL_server_DH_params_ok_readParams x)"
  unfolding TL_server_DH_params_ok_readParams_def Let_def by (intro safe_intros safe_rules)

fun Server_DH_Params_wire :: "Server_DH_Params \<Rightarrow> byte list" where
  "Server_DH_Params_wire (TL_server_DH_params_fail x) = int_bytes TL_server_DH_params_fail_constructor @ TL_server_DH_params_fail_params x"
| "Server_DH_Params_wire (TL_server_DH_params_ok x) = int_bytes TL_server_DH_params_ok_constructor @ TL_server_DH_params_ok_params x"

fun Server_DH_Params_wf :: "Server_DH_Params \<Rightarrow> bool" where
  "Server_DH_Params_wf (TL_server_DH_params_fail x) = TL_server_DH_params_fail_wf x"
| "Server_DH_Params_wf (TL_server_DH_params_ok x) = TL_server_DH_params_ok_wf x"

lemma Server_DH_Params_reads:
  assumes wf: "Server_DH_Params_wf x"
  shows "parses (read_object Server_DH_Params_TLdeserialize) (Server_DH_Params_wire x) (Some x)"
proof (cases x)
  case (TL_server_DH_params_fail y)
  then show ?thesis using wf unfolding TL_server_DH_params_fail Server_DH_Params_wire.simps
    by (intro parses_read_object parses_wrap [OF TL_server_DH_params_fail_parses]) (simp_all add: Server_DH_Params_TLdeserialize_def TL_server_DH_params_fail_constructor_def TL_server_DH_params_ok_constructor_def)
next
  case (TL_server_DH_params_ok y)
  then show ?thesis using wf unfolding TL_server_DH_params_ok Server_DH_Params_wire.simps
    by (intro parses_read_object parses_wrap [OF TL_server_DH_params_ok_parses]) (simp_all add: Server_DH_Params_TLdeserialize_def TL_server_DH_params_fail_constructor_def TL_server_DH_params_ok_constructor_def)
qed

lemma Server_DH_Params_des_safe: "safe (Server_DH_Params_TLdeserialize c)"
  unfolding Server_DH_Params_TLdeserialize_def by (intro safe_intros safe_rules)

interpretation codec_Server_DH_Params: tl_reader Server_DH_Params_TLdeserialize Server_DH_Params_wire Server_DH_Params_wf
  by unfold_locales (simp_all add: Server_DH_Params_reads Server_DH_Params_des_safe)

lemmas Server_DH_Params_read_rules [parse_rules] = codec_Server_DH_Params.reads codec_Server_DH_Params.reads_ptr codec_Server_DH_Params.reads_list

lemmas Server_DH_Params_safe_rules [safe_rules] = codec_Server_DH_Params.safe_des codec_Server_DH_Params.safe_reads

definition TL_resPQ_params :: "TL_resPQ \<Rightarrow> byte list" where
  "TL_resPQ_params x = of_ptr (\<lambda>a. a) (TL_resPQ_nonce x) @
     of_ptr (\<lambda>a. a) (TL_resPQ_server_nonce x) @
     of_ptr tl_bytes (TL_resPQ_pq x) @
     int_bytes 0x1cb5c415 @
     int_bytes (word_of_nat (length (TL_resPQ_server_public_key_fingerprints x))) @ concat (map long_bytes (TL_resPQ_server_public_key_fingerprints x))"

definition TL_resPQ_wf :: "TL_resPQ \<Rightarrow> bool" where
  "TL_resPQ_wf x \<longleftrightarrow> sized_bytes 16 (TL_resPQ_nonce x) \<and>
     sized_bytes 16 (TL_resPQ_server_nonce x) \<and>
     ok_bytes (TL_resPQ_pq x) \<and>
     length (TL_resPQ_server_public_key_fingerprints x) < 2 ^ 31"

definition TL_resPQ_wire :: "TL_resPQ \<Rightarrow> byte list" where
  "TL_resPQ_wire x = int_bytes TL_resPQ_constructor @ TL_resPQ_params x"

lemma TL_resPQ_parses [parse_rules]: "TL_resPQ_wf x \<Longrightarrow> parses (TL_resPQ_readParams TL_resPQ_new) (TL_resPQ_params x) x"
  by (rule parses_nil, unfold TL_resPQ_readParams_def TL_resPQ_params_def Let_def append_assoc, 
    (rule parse_intros parse_rules | simp add: TL_resPQ_wf_def TL_resPQ_new_def; fail | rule TL_resPQ.equality)+)

lemma TL_resPQ_safe [safe_rules]: "safe (TL_resPQ_readParams x)"
  unfolding TL_resPQ_readParams_def Let_def by (intro safe_intros safe_rules)

lemma TL_resPQ_reads: "TL_resPQ_wf x \<Longrightarrow> parses (read_object TL_resPQ_TLdeserialize) (TL_resPQ_wire x) (Some x)"
  unfolding TL_resPQ_wire_def TL_resPQ_TLdeserialize_def [abs_def] by (rule parses_class) (rule TL_resPQ_parses)

lemma TL_resPQ_des_safe: "safe (TL_resPQ_TLdeserialize c)"
  unfolding TL_resPQ_TLdeserialize_def by (intro safe_intros safe_rules)

interpretation codec_TL_resPQ: tl_reader TL_resPQ_TLdeserialize TL_resPQ_wire TL_resPQ_wf
  by unfold_locales (simp_all add: TL_resPQ_reads TL_resPQ_des_safe)

lemmas TL_resPQ_read_rules [parse_rules] = codec_TL_resPQ.reads codec_TL_resPQ.reads_ptr codec_TL_resPQ.reads_list

lemmas TL_resPQ_safe_rules [safe_rules] = codec_TL_resPQ.safe_des codec_TL_resPQ.safe_reads

definition TL_p_q_inner_data_params :: "TL_p_q_inner_data \<Rightarrow> byte list" where
  "TL_p_q_inner_data_params x = of_ptr tl_bytes (TL_p_q_inner_data_pq x) @
     of_ptr tl_bytes (TL_p_q_inner_data_p x) @
     of_ptr tl_bytes (TL_p_q_inner_data_q x) @
     of_ptr (\<lambda>a. a) (TL_p_q_inner_data_nonce x) @
     of_ptr (\<lambda>a. a) (TL_p_q_inner_data_server_nonce x) @
     of_ptr (\<lambda>a. a) (TL_p_q_inner_data_new_nonce x)"

definition TL_p_q_inner_data_wf :: "TL_p_q_inner_data \<Rightarrow> bool" where
  "TL_p_q_inner_data_wf x \<longleftrightarrow> ok_bytes (TL_p_q_inner_data_pq x) \<and>
     ok_bytes (TL_p_q_inner_data_p x) \<and>
     ok_bytes (TL_p_q_inner_data_q x) \<and>
     ok_bytes (TL_p_q_inner_data_nonce x) \<and>
     ok_bytes (TL_p_q_inner_data_server_nonce x) \<and>
     ok_bytes (TL_p_q_inner_data_new_nonce x)"

definition TL_p_q_inner_data_wire :: "TL_p_q_inner_data \<Rightarrow> byte list" where
  "TL_p_q_inner_data_wire x = int_bytes TL_p_q_inner_data_constructor @ TL_p_q_inner_data_params x"

lemma TL_p_q_inner_data_emits [emit_rules]: "TL_p_q_inner_data_wf x \<Longrightarrow> emits (TL_p_q_inner_data_serializeToStream x) (TL_p_q_inner_data_wire x)"
  unfolding TL_p_q_inner_data_serializeToStream_def TL_p_q_inner_data_wire_def TL_p_q_inner_data_params_def
  by (rule emits_eq, (rule emit_intros emit_rules | simp add: TL_p_q_inner_data_wf_def; fail)+)

definition TL_p_q_inner_data_dc_params :: "TL_p_q_inner_data_dc \<Rightarrow> byte list" where
  "TL_p_q_inner_data_dc_params x = of_ptr tl_bytes (TL_p_q_inner_data_dc_pq x) @
     of_ptr tl_bytes (TL_p_q_inner_data_dc_p x) @
     of_ptr tl_bytes (TL_p_q_inner_data_dc_q x) @
     of_ptr (\<lambda>a. a) (TL_p_q_inner_data_dc_nonce x) @
     of_ptr (\<lambda>a. a) (TL_p_q_inner_data_dc_server_nonce x) @
     of_ptr (\<lambda>a. a) (TL_p_q_inner_data_dc_new_nonce x) @
     int_bytes (TL_p_q_inner_data_dc_dc x)"

definition TL_p_q_inner_data_dc_wf :: "TL_p_q_inner_data_dc \<Rightarrow> bool" where
  "TL_p_q_inner_data_dc_wf x \<longleftrightarrow> ok_bytes (TL_p_q_inner_data_dc_pq x) \<and>
     ok_bytes (TL_p_q_inner_data_dc_p x) \<and>
     ok_bytes (TL_p_q_inner_data_dc_q x) \<and>
     ok_bytes (TL_p_q_inner_data_dc_nonce x) \<and>
     ok_bytes (TL_p_q_inner_data_dc_server_nonce x) \<and>
     ok_bytes (TL_p_q_inner_data_dc_new_nonce x)"

definition TL_p_q_inner_data_dc_wire :: "TL_p_q_inner_data_dc \<Rightarrow> byte list" where
  "TL_p_q_inner_data_dc_wire x = int_bytes TL_p_q_inner_data_dc_constructor @ TL_p_q_inner_data_dc_params x"

lemma TL_p_q_inner_data_dc_emits [emit_rules]: "TL_p_q_inner_data_dc_wf x \<Longrightarrow> emits (TL_p_q_inner_data_dc_serializeToStream x) (TL_p_q_inner_data_dc_wire x)"
  unfolding TL_p_q_inner_data_dc_serializeToStream_def TL_p_q_inner_data_dc_wire_def TL_p_q_inner_data_dc_params_def
  by (rule emits_eq, (rule emit_intros emit_rules | simp add: TL_p_q_inner_data_dc_wf_def; fail)+)

definition TL_p_q_inner_data_temp_params :: "TL_p_q_inner_data_temp \<Rightarrow> byte list" where
  "TL_p_q_inner_data_temp_params x = of_ptr tl_bytes (TL_p_q_inner_data_temp_pq x) @
     of_ptr tl_bytes (TL_p_q_inner_data_temp_p x) @
     of_ptr tl_bytes (TL_p_q_inner_data_temp_q x) @
     of_ptr (\<lambda>a. a) (TL_p_q_inner_data_temp_nonce x) @
     of_ptr (\<lambda>a. a) (TL_p_q_inner_data_temp_server_nonce x) @
     of_ptr (\<lambda>a. a) (TL_p_q_inner_data_temp_new_nonce x) @
     int_bytes (TL_p_q_inner_data_temp_expires_in x)"

definition TL_p_q_inner_data_temp_wf :: "TL_p_q_inner_data_temp \<Rightarrow> bool" where
  "TL_p_q_inner_data_temp_wf x \<longleftrightarrow> ok_bytes (TL_p_q_inner_data_temp_pq x) \<and>
     ok_bytes (TL_p_q_inner_data_temp_p x) \<and>
     ok_bytes (TL_p_q_inner_data_temp_q x) \<and>
     ok_bytes (TL_p_q_inner_data_temp_nonce x) \<and>
     ok_bytes (TL_p_q_inner_data_temp_server_nonce x) \<and>
     ok_bytes (TL_p_q_inner_data_temp_new_nonce x)"

definition TL_p_q_inner_data_temp_wire :: "TL_p_q_inner_data_temp \<Rightarrow> byte list" where
  "TL_p_q_inner_data_temp_wire x = int_bytes TL_p_q_inner_data_temp_constructor @ TL_p_q_inner_data_temp_params x"

lemma TL_p_q_inner_data_temp_emits [emit_rules]: "TL_p_q_inner_data_temp_wf x \<Longrightarrow> emits (TL_p_q_inner_data_temp_serializeToStream x) (TL_p_q_inner_data_temp_wire x)"
  unfolding TL_p_q_inner_data_temp_serializeToStream_def TL_p_q_inner_data_temp_wire_def TL_p_q_inner_data_temp_params_def
  by (rule emits_eq, (rule emit_intros emit_rules | simp add: TL_p_q_inner_data_temp_wf_def; fail)+)

definition TL_p_q_inner_data_temp_dc_params :: "TL_p_q_inner_data_temp_dc \<Rightarrow> byte list" where
  "TL_p_q_inner_data_temp_dc_params x = of_ptr tl_bytes (TL_p_q_inner_data_temp_dc_pq x) @
     of_ptr tl_bytes (TL_p_q_inner_data_temp_dc_p x) @
     of_ptr tl_bytes (TL_p_q_inner_data_temp_dc_q x) @
     of_ptr (\<lambda>a. a) (TL_p_q_inner_data_temp_dc_nonce x) @
     of_ptr (\<lambda>a. a) (TL_p_q_inner_data_temp_dc_server_nonce x) @
     of_ptr (\<lambda>a. a) (TL_p_q_inner_data_temp_dc_new_nonce x) @
     int_bytes (TL_p_q_inner_data_temp_dc_dc x) @
     int_bytes (TL_p_q_inner_data_temp_dc_expires_in x)"

definition TL_p_q_inner_data_temp_dc_wf :: "TL_p_q_inner_data_temp_dc \<Rightarrow> bool" where
  "TL_p_q_inner_data_temp_dc_wf x \<longleftrightarrow> ok_bytes (TL_p_q_inner_data_temp_dc_pq x) \<and>
     ok_bytes (TL_p_q_inner_data_temp_dc_p x) \<and>
     ok_bytes (TL_p_q_inner_data_temp_dc_q x) \<and>
     ok_bytes (TL_p_q_inner_data_temp_dc_nonce x) \<and>
     ok_bytes (TL_p_q_inner_data_temp_dc_server_nonce x) \<and>
     ok_bytes (TL_p_q_inner_data_temp_dc_new_nonce x)"

definition TL_p_q_inner_data_temp_dc_wire :: "TL_p_q_inner_data_temp_dc \<Rightarrow> byte list" where
  "TL_p_q_inner_data_temp_dc_wire x = int_bytes TL_p_q_inner_data_temp_dc_constructor @ TL_p_q_inner_data_temp_dc_params x"

lemma TL_p_q_inner_data_temp_dc_emits [emit_rules]: "TL_p_q_inner_data_temp_dc_wf x \<Longrightarrow> emits (TL_p_q_inner_data_temp_dc_serializeToStream x) (TL_p_q_inner_data_temp_dc_wire x)"
  unfolding TL_p_q_inner_data_temp_dc_serializeToStream_def TL_p_q_inner_data_temp_dc_wire_def TL_p_q_inner_data_temp_dc_params_def
  by (rule emits_eq, (rule emit_intros emit_rules | simp add: TL_p_q_inner_data_temp_dc_wf_def; fail)+)

definition TL_bind_auth_key_inner_params :: "TL_bind_auth_key_inner \<Rightarrow> byte list" where
  "TL_bind_auth_key_inner_params x = long_bytes (TL_bind_auth_key_inner_nonce x) @
     long_bytes (TL_bind_auth_key_inner_temp_auth_key_id x) @
     long_bytes (TL_bind_auth_key_inner_perm_auth_key_id x) @
     long_bytes (TL_bind_auth_key_inner_temp_session_id x) @
     int_bytes (TL_bind_auth_key_inner_expires_at x)"

definition TL_bind_auth_key_inner_wf :: "TL_bind_auth_key_inner \<Rightarrow> bool" where
  "TL_bind_auth_key_inner_wf x \<longleftrightarrow> True"

definition TL_bind_auth_key_inner_wire :: "TL_bind_auth_key_inner \<Rightarrow> byte list" where
  "TL_bind_auth_key_inner_wire x = int_bytes TL_bind_auth_key_inner_constructor @ TL_bind_auth_key_inner_params x"

lemma TL_bind_auth_key_inner_emits [emit_rules]: "TL_bind_auth_key_inner_wf x \<Longrightarrow> emits (TL_bind_auth_key_inner_serializeToStream x) (TL_bind_auth_key_inner_wire x)"
  unfolding TL_bind_auth_key_inner_serializeToStream_def TL_bind_auth_key_inner_wire_def TL_bind_auth_key_inner_params_def
  by (rule emits_eq, (rule emit_intros emit_rules | simp add: TL_bind_auth_key_inner_wf_def; fail)+)

definition TL_auth_dropTempAuthKeys_params :: "TL_auth_dropTempAuthKeys \<Rightarrow> byte list" where
  "TL_auth_dropTempAuthKeys_params x = int_bytes 0x1cb5c415 @
     int_bytes (word_of_nat (length (TL_auth_dropTempAuthKeys_except_auth_keys x))) @ concat (map long_bytes (TL_auth_dropTempAuthKeys_except_auth_keys x))"

definition TL_auth_dropTempAuthKeys_wf :: "TL_auth_dropTempAuthKeys \<Rightarrow> bool" where
  "TL_auth_dropTempAuthKeys_wf x \<longleftrightarrow> length (TL_auth_dropTempAuthKeys_except_auth_keys x) < 2 ^ 31"

definition TL_auth_dropTempAuthKeys_wire :: "TL_auth_dropTempAuthKeys \<Rightarrow> byte list" where
  "TL_auth_dropTempAuthKeys_wire x = int_bytes TL_auth_dropTempAuthKeys_constructor @ TL_auth_dropTempAuthKeys_params x"

lemma TL_auth_dropTempAuthKeys_emits [emit_rules]: "TL_auth_dropTempAuthKeys_wf x \<Longrightarrow> emits (TL_auth_dropTempAuthKeys_serializeToStream x) (TL_auth_dropTempAuthKeys_wire x)"
  unfolding TL_auth_dropTempAuthKeys_serializeToStream_def TL_auth_dropTempAuthKeys_wire_def TL_auth_dropTempAuthKeys_params_def
  by (rule emits_eq, (rule emit_intros emit_rules | simp add: TL_auth_dropTempAuthKeys_wf_def; fail)+)

definition TL_pong_params :: "TL_pong \<Rightarrow> byte list" where
  "TL_pong_params x = long_bytes (TL_pong_msg_id x) @
     long_bytes (TL_pong_ping_id x)"

definition TL_pong_wf :: "TL_pong \<Rightarrow> bool" where
  "TL_pong_wf x \<longleftrightarrow> True"

definition TL_pong_wire :: "TL_pong \<Rightarrow> byte list" where
  "TL_pong_wire x = int_bytes TL_pong_constructor @ TL_pong_params x"

lemma TL_pong_parses [parse_rules]: "TL_pong_wf x \<Longrightarrow> parses (TL_pong_readParams TL_pong_new) (TL_pong_params x) x"
  by (rule parses_nil, unfold TL_pong_readParams_def TL_pong_params_def Let_def append_assoc, 
    (rule parse_intros parse_rules | simp add: TL_pong_wf_def TL_pong_new_def; fail | rule TL_pong.equality)+)

lemma TL_pong_safe [safe_rules]: "safe (TL_pong_readParams x)"
  unfolding TL_pong_readParams_def Let_def by (intro safe_intros safe_rules)

lemma TL_pong_reads: "TL_pong_wf x \<Longrightarrow> parses (read_object TL_pong_TLdeserialize) (TL_pong_wire x) (Some x)"
  unfolding TL_pong_wire_def TL_pong_TLdeserialize_def [abs_def] by (rule parses_class) (rule TL_pong_parses)

lemma TL_pong_des_safe: "safe (TL_pong_TLdeserialize c)"
  unfolding TL_pong_TLdeserialize_def by (intro safe_intros safe_rules)

interpretation codec_TL_pong: tl_reader TL_pong_TLdeserialize TL_pong_wire TL_pong_wf
  by unfold_locales (simp_all add: TL_pong_reads TL_pong_des_safe)

lemmas TL_pong_read_rules [parse_rules] = codec_TL_pong.reads codec_TL_pong.reads_ptr codec_TL_pong.reads_list

lemmas TL_pong_safe_rules [safe_rules] = codec_TL_pong.safe_des codec_TL_pong.safe_reads

definition TL_future_salts_params :: "TL_future_salts \<Rightarrow> byte list" where
  "TL_future_salts_params x = long_bytes (TL_future_salts_req_msg_id x) @
     int_bytes (TL_future_salts_now x) @
     int_bytes 0x1cb5c415 @
     int_bytes (word_of_nat (length (TL_future_salts_salts x))) @ concat (map TL_future_salt_params (TL_future_salts_salts x))"

definition TL_future_salts_wf :: "TL_future_salts \<Rightarrow> bool" where
  "TL_future_salts_wf x \<longleftrightarrow> length (TL_future_salts_salts x) < 2 ^ 31 \<and>
     (\<forall>y \<in> set (TL_future_salts_salts x). TL_future_salt_wf y)"

definition TL_future_salts_wire :: "TL_future_salts \<Rightarrow> byte list" where
  "TL_future_salts_wire x = int_bytes TL_future_salts_constructor @ TL_future_salts_params x"

lemma TL_future_salts_parses [parse_rules]: "TL_future_salts_wf x \<Longrightarrow> parses (TL_future_salts_readParams TL_future_salts_new) (TL_future_salts_params x) x"
  by (rule parses_nil, unfold TL_future_salts_readParams_def TL_future_salts_params_def Let_def append_assoc, 
    (rule parse_intros parse_rules | simp add: TL_future_salts_wf_def TL_future_salts_new_def; fail | rule TL_future_salts.equality)+)

lemma TL_future_salts_safe [safe_rules]: "safe (TL_future_salts_readParams x)"
  unfolding TL_future_salts_readParams_def Let_def by (intro safe_intros safe_rules)

lemma TL_future_salts_reads: "TL_future_salts_wf x \<Longrightarrow> parses (read_object TL_future_salts_TLdeserialize) (TL_future_salts_wire x) (Some x)"
  unfolding TL_future_salts_wire_def TL_future_salts_TLdeserialize_def [abs_def] by (rule parses_class) (rule TL_future_salts_parses)

lemma TL_future_salts_des_safe: "safe (TL_future_salts_TLdeserialize c)"
  unfolding TL_future_salts_TLdeserialize_def by (intro safe_intros safe_rules)

interpretation codec_TL_future_salts: tl_reader TL_future_salts_TLdeserialize TL_future_salts_wire TL_future_salts_wf
  by unfold_locales (simp_all add: TL_future_salts_reads TL_future_salts_des_safe)

lemmas TL_future_salts_read_rules [parse_rules] = codec_TL_future_salts.reads codec_TL_future_salts.reads_ptr codec_TL_future_salts.reads_list

lemmas TL_future_salts_safe_rules [safe_rules] = codec_TL_future_salts.safe_des codec_TL_future_salts.safe_reads

definition TL_rpc_answer_unknown_params :: "RpcDropAnswer_fields \<Rightarrow> byte list" where
  "TL_rpc_answer_unknown_params x = []"

definition TL_rpc_answer_unknown_wf :: "RpcDropAnswer_fields \<Rightarrow> bool" where
  "TL_rpc_answer_unknown_wf x \<longleftrightarrow> RpcDropAnswer_msg_id x = 0 \<and>
     RpcDropAnswer_seq_no x = 0 \<and>
     RpcDropAnswer_bytes x = 0"

lemma TL_rpc_answer_unknown_emits [emit_rules]: "TL_rpc_answer_unknown_wf x \<Longrightarrow> emits (TL_rpc_answer_unknown_serializeToStream x) (int_bytes TL_rpc_answer_unknown_constructor @ TL_rpc_answer_unknown_params x)"
  unfolding TL_rpc_answer_unknown_serializeToStream_def TL_rpc_answer_unknown_params_def
  by (rule emits_eq, (rule emit_intros emit_rules | simp add: TL_rpc_answer_unknown_wf_def; fail)+)

definition TL_rpc_answer_dropped_params :: "RpcDropAnswer_fields \<Rightarrow> byte list" where
  "TL_rpc_answer_dropped_params x = long_bytes (RpcDropAnswer_msg_id x) @
     int_bytes (RpcDropAnswer_seq_no x) @
     int_bytes (RpcDropAnswer_bytes x)"

definition TL_rpc_answer_dropped_wf :: "RpcDropAnswer_fields \<Rightarrow> bool" where
  "TL_rpc_answer_dropped_wf x \<longleftrightarrow> True"

lemma TL_rpc_answer_dropped_parses [parse_rules]: "TL_rpc_answer_dropped_wf x \<Longrightarrow> parses (TL_rpc_answer_dropped_readParams RpcDropAnswer_fields_new) (TL_rpc_answer_dropped_params x) x"
  by (rule parses_nil, unfold TL_rpc_answer_dropped_readParams_def TL_rpc_answer_dropped_params_def Let_def append_assoc, 
    (rule parse_intros parse_rules | simp add: TL_rpc_answer_dropped_wf_def RpcDropAnswer_fields_new_def; fail | rule RpcDropAnswer_fields.equality)+)

lemma TL_rpc_answer_dropped_safe [safe_rules]: "safe (TL_rpc_answer_dropped_readParams x)"
  unfolding TL_rpc_answer_dropped_readParams_def Let_def by (intro safe_intros safe_rules)

definition TL_rpc_answer_dropped_running_params :: "RpcDropAnswer_fields \<Rightarrow> byte list" where
  "TL_rpc_answer_dropped_running_params x = []"

definition TL_rpc_answer_dropped_running_wf :: "RpcDropAnswer_fields \<Rightarrow> bool" where
  "TL_rpc_answer_dropped_running_wf x \<longleftrightarrow> RpcDropAnswer_msg_id x = 0 \<and>
     RpcDropAnswer_seq_no x = 0 \<and>
     RpcDropAnswer_bytes x = 0"

lemma TL_rpc_answer_dropped_running_emits [emit_rules]: "TL_rpc_answer_dropped_running_wf x \<Longrightarrow> emits (TL_rpc_answer_dropped_running_serializeToStream x) (int_bytes TL_rpc_answer_dropped_running_constructor @ TL_rpc_answer_dropped_running_params x)"
  unfolding TL_rpc_answer_dropped_running_serializeToStream_def TL_rpc_answer_dropped_running_params_def
  by (rule emits_eq, (rule emit_intros emit_rules | simp add: TL_rpc_answer_dropped_running_wf_def; fail)+)

fun RpcDropAnswer_wire :: "RpcDropAnswer \<Rightarrow> byte list" where
  "RpcDropAnswer_wire (TL_rpc_answer_unknown x) = int_bytes TL_rpc_answer_unknown_constructor @ TL_rpc_answer_unknown_params x"
| "RpcDropAnswer_wire (TL_rpc_answer_dropped x) = int_bytes TL_rpc_answer_dropped_constructor @ TL_rpc_answer_dropped_params x"
| "RpcDropAnswer_wire (TL_rpc_answer_dropped_running x) = int_bytes TL_rpc_answer_dropped_running_constructor @ TL_rpc_answer_dropped_running_params x"

fun RpcDropAnswer_wf :: "RpcDropAnswer \<Rightarrow> bool" where
  "RpcDropAnswer_wf (TL_rpc_answer_unknown x) = TL_rpc_answer_unknown_wf x"
| "RpcDropAnswer_wf (TL_rpc_answer_dropped x) = TL_rpc_answer_dropped_wf x"
| "RpcDropAnswer_wf (TL_rpc_answer_dropped_running x) = TL_rpc_answer_dropped_running_wf x"

lemma RpcDropAnswer_reads:
  assumes wf: "RpcDropAnswer_wf x"
  shows "parses (read_object RpcDropAnswer_TLdeserialize) (RpcDropAnswer_wire x) (Some x)"
proof (cases x)
  case (TL_rpc_answer_unknown y)
  then show ?thesis using wf unfolding TL_rpc_answer_unknown RpcDropAnswer_wire.simps TL_rpc_answer_unknown_params_def
    by (intro parses_read_object parses_wrap0) (simp add: RpcDropAnswer_TLdeserialize_def TL_rpc_answer_unknown_constructor_def TL_rpc_answer_dropped_constructor_def TL_rpc_answer_dropped_running_constructor_def TL_rpc_answer_unknown_wf_def RpcDropAnswer_fields_new_def RpcDropAnswer_fields.defs)
next
  case (TL_rpc_answer_dropped y)
  then show ?thesis using wf unfolding TL_rpc_answer_dropped RpcDropAnswer_wire.simps
    by (intro parses_read_object parses_wrap [OF TL_rpc_answer_dropped_parses]) (simp_all add: RpcDropAnswer_TLdeserialize_def TL_rpc_answer_unknown_constructor_def TL_rpc_answer_dropped_constructor_def TL_rpc_answer_dropped_running_constructor_def)
next
  case (TL_rpc_answer_dropped_running y)
  then show ?thesis using wf unfolding TL_rpc_answer_dropped_running RpcDropAnswer_wire.simps TL_rpc_answer_dropped_running_params_def
    by (intro parses_read_object parses_wrap0) (simp add: RpcDropAnswer_TLdeserialize_def TL_rpc_answer_unknown_constructor_def TL_rpc_answer_dropped_constructor_def TL_rpc_answer_dropped_running_constructor_def TL_rpc_answer_dropped_running_wf_def RpcDropAnswer_fields_new_def RpcDropAnswer_fields.defs)
qed

lemma RpcDropAnswer_des_safe: "safe (RpcDropAnswer_TLdeserialize c)"
  unfolding RpcDropAnswer_TLdeserialize_def by (intro safe_intros safe_rules)

interpretation codec_RpcDropAnswer: tl_reader RpcDropAnswer_TLdeserialize RpcDropAnswer_wire RpcDropAnswer_wf
  by unfold_locales (simp_all add: RpcDropAnswer_reads RpcDropAnswer_des_safe)

lemmas RpcDropAnswer_read_rules [parse_rules] = codec_RpcDropAnswer.reads codec_RpcDropAnswer.reads_ptr codec_RpcDropAnswer.reads_list

lemmas RpcDropAnswer_safe_rules [safe_rules] = codec_RpcDropAnswer.safe_des codec_RpcDropAnswer.safe_reads

definition TL_dh_gen_retry_params :: "Set_client_DH_params_answer_fields \<Rightarrow> byte list" where
  "TL_dh_gen_retry_params x = of_ptr (\<lambda>a. a) (Set_client_DH_params_answer_nonce x) @
     of_ptr (\<lambda>a. a) (Set_client_DH_params_answer_server_nonce x) @
     of_ptr (\<lambda>a. a) (Set_client_DH_params_answer_new_nonce_hash2 x)"

definition TL_dh_gen_retry_wf :: "Set_client_DH_params_answer_fields \<Rightarrow> bool" where
  "TL_dh_gen_retry_wf x \<longleftrightarrow> sized_bytes 16 (Set_client_DH_params_answer_nonce x) \<and>
     sized_bytes 16 (Set_client_DH_params_answer_server_nonce x) \<and>
     sized_bytes 16 (Set_client_DH_params_answer_new_nonce_hash2 x) \<and>
     Set_client_DH_params_answer_new_nonce_hash3 x = None \<and>
     Set_client_DH_params_answer_new_nonce_hash1 x = None"

lemma TL_dh_gen_retry_parses [parse_rules]: "TL_dh_gen_retry_wf x \<Longrightarrow> parses (TL_dh_gen_retry_readParams Set_client_DH_params_answer_fields_new) (TL_dh_gen_retry_params x) x"
  by (rule parses_nil, unfold TL_dh_gen_retry_readParams_def TL_dh_gen_retry_params_def Let_def append_assoc, 
    (rule parse_intros parse_rules | simp add: TL_dh_gen_retry_wf_def Set_client_DH_params_answer_fields_new_def; fail | rule Set_client_DH_params_answer_fields.equality)+)

lemma TL_dh_gen_retry_safe [safe_rules]: "safe (TL_dh_gen_retry_readParams x)"
  unfolding TL_dh_gen_retry_readParams_def Let_def by (intro safe_intros safe_rules)

definition TL_dh_gen_fail_params :: "Set_client_DH_params_answer_fields \<Rightarrow> byte list" where
  "TL_dh_gen_fail_params x = of_ptr (\<lambda>a. a) (Set_client_DH_params_answer_nonce x) @
     of_ptr (\<lambda>a. a) (Set_client_DH_params_answer_server_nonce x) @
     of_ptr (\<lambda>a. a) (Set_client_DH_params_answer_new_nonce_hash3 x)"

definition TL_dh_gen_fail_wf :: "Set_client_DH_params_answer_fields \<Rightarrow> bool" where
  "TL_dh_gen_fail_wf x \<longleftrightarrow> sized_bytes 16 (Set_client_DH_params_answer_nonce x) \<and>
     sized_bytes 16 (Set_client_DH_params_answer_server_nonce x) \<and>
     sized_bytes 16 (Set_client_DH_params_answer_new_nonce_hash3 x) \<and>
     Set_client_DH_params_answer_new_nonce_hash2 x = None \<and>
     Set_client_DH_params_answer_new_nonce_hash1 x = None"

lemma TL_dh_gen_fail_parses [parse_rules]: "TL_dh_gen_fail_wf x \<Longrightarrow> parses (TL_dh_gen_fail_readParams Set_client_DH_params_answer_fields_new) (TL_dh_gen_fail_params x) x"
  by (rule parses_nil, unfold TL_dh_gen_fail_readParams_def TL_dh_gen_fail_params_def Let_def append_assoc, 
    (rule parse_intros parse_rules | simp add: TL_dh_gen_fail_wf_def Set_client_DH_params_answer_fields_new_def; fail | rule Set_client_DH_params_answer_fields.equality)+)

lemma TL_dh_gen_fail_safe [safe_rules]: "safe (TL_dh_gen_fail_readParams x)"
  unfolding TL_dh_gen_fail_readParams_def Let_def by (intro safe_intros safe_rules)

definition TL_dh_gen_ok_params :: "Set_client_DH_params_answer_fields \<Rightarrow> byte list" where
  "TL_dh_gen_ok_params x = of_ptr (\<lambda>a. a) (Set_client_DH_params_answer_nonce x) @
     of_ptr (\<lambda>a. a) (Set_client_DH_params_answer_server_nonce x) @
     of_ptr (\<lambda>a. a) (Set_client_DH_params_answer_new_nonce_hash1 x)"

definition TL_dh_gen_ok_wf :: "Set_client_DH_params_answer_fields \<Rightarrow> bool" where
  "TL_dh_gen_ok_wf x \<longleftrightarrow> sized_bytes 16 (Set_client_DH_params_answer_nonce x) \<and>
     sized_bytes 16 (Set_client_DH_params_answer_server_nonce x) \<and>
     sized_bytes 16 (Set_client_DH_params_answer_new_nonce_hash1 x) \<and>
     Set_client_DH_params_answer_new_nonce_hash2 x = None \<and>
     Set_client_DH_params_answer_new_nonce_hash3 x = None"

lemma TL_dh_gen_ok_parses [parse_rules]: "TL_dh_gen_ok_wf x \<Longrightarrow> parses (TL_dh_gen_ok_readParams Set_client_DH_params_answer_fields_new) (TL_dh_gen_ok_params x) x"
  by (rule parses_nil, unfold TL_dh_gen_ok_readParams_def TL_dh_gen_ok_params_def Let_def append_assoc, 
    (rule parse_intros parse_rules | simp add: TL_dh_gen_ok_wf_def Set_client_DH_params_answer_fields_new_def; fail | rule Set_client_DH_params_answer_fields.equality)+)

lemma TL_dh_gen_ok_safe [safe_rules]: "safe (TL_dh_gen_ok_readParams x)"
  unfolding TL_dh_gen_ok_readParams_def Let_def by (intro safe_intros safe_rules)

fun Set_client_DH_params_answer_wire :: "Set_client_DH_params_answer \<Rightarrow> byte list" where
  "Set_client_DH_params_answer_wire (TL_dh_gen_retry x) = int_bytes TL_dh_gen_retry_constructor @ TL_dh_gen_retry_params x"
| "Set_client_DH_params_answer_wire (TL_dh_gen_fail x) = int_bytes TL_dh_gen_fail_constructor @ TL_dh_gen_fail_params x"
| "Set_client_DH_params_answer_wire (TL_dh_gen_ok x) = int_bytes TL_dh_gen_ok_constructor @ TL_dh_gen_ok_params x"

fun Set_client_DH_params_answer_wf :: "Set_client_DH_params_answer \<Rightarrow> bool" where
  "Set_client_DH_params_answer_wf (TL_dh_gen_retry x) = TL_dh_gen_retry_wf x"
| "Set_client_DH_params_answer_wf (TL_dh_gen_fail x) = TL_dh_gen_fail_wf x"
| "Set_client_DH_params_answer_wf (TL_dh_gen_ok x) = TL_dh_gen_ok_wf x"

lemma Set_client_DH_params_answer_reads:
  assumes wf: "Set_client_DH_params_answer_wf x"
  shows "parses (read_object Set_client_DH_params_answer_TLdeserialize) (Set_client_DH_params_answer_wire x) (Some x)"
proof (cases x)
  case (TL_dh_gen_retry y)
  then show ?thesis using wf unfolding TL_dh_gen_retry Set_client_DH_params_answer_wire.simps
    by (intro parses_read_object parses_wrap [OF TL_dh_gen_retry_parses]) (simp_all add: Set_client_DH_params_answer_TLdeserialize_def TL_dh_gen_retry_constructor_def TL_dh_gen_fail_constructor_def TL_dh_gen_ok_constructor_def)
next
  case (TL_dh_gen_fail y)
  then show ?thesis using wf unfolding TL_dh_gen_fail Set_client_DH_params_answer_wire.simps
    by (intro parses_read_object parses_wrap [OF TL_dh_gen_fail_parses]) (simp_all add: Set_client_DH_params_answer_TLdeserialize_def TL_dh_gen_retry_constructor_def TL_dh_gen_fail_constructor_def TL_dh_gen_ok_constructor_def)
next
  case (TL_dh_gen_ok y)
  then show ?thesis using wf unfolding TL_dh_gen_ok Set_client_DH_params_answer_wire.simps
    by (intro parses_read_object parses_wrap [OF TL_dh_gen_ok_parses]) (simp_all add: Set_client_DH_params_answer_TLdeserialize_def TL_dh_gen_retry_constructor_def TL_dh_gen_fail_constructor_def TL_dh_gen_ok_constructor_def)
qed

lemma Set_client_DH_params_answer_des_safe: "safe (Set_client_DH_params_answer_TLdeserialize c)"
  unfolding Set_client_DH_params_answer_TLdeserialize_def by (intro safe_intros safe_rules)

interpretation codec_Set_client_DH_params_answer: tl_reader Set_client_DH_params_answer_TLdeserialize Set_client_DH_params_answer_wire Set_client_DH_params_answer_wf
  by unfold_locales (simp_all add: Set_client_DH_params_answer_reads Set_client_DH_params_answer_des_safe)

lemmas Set_client_DH_params_answer_read_rules [parse_rules] = codec_Set_client_DH_params_answer.reads codec_Set_client_DH_params_answer.reads_ptr codec_Set_client_DH_params_answer.reads_list

lemmas Set_client_DH_params_answer_safe_rules [safe_rules] = codec_Set_client_DH_params_answer.safe_des codec_Set_client_DH_params_answer.safe_reads

definition TL_bad_msg_notification_params :: "BadMsgNotification_fields \<Rightarrow> byte list" where
  "TL_bad_msg_notification_params x = long_bytes (BadMsgNotification_bad_msg_id x) @
     int_bytes (BadMsgNotification_bad_msg_seqno x) @
     int_bytes (BadMsgNotification_error_code x)"

definition TL_bad_msg_notification_wf :: "BadMsgNotification_fields \<Rightarrow> bool" where
  "TL_bad_msg_notification_wf x \<longleftrightarrow> BadMsgNotification_new_server_salt x = 0"

lemma TL_bad_msg_notification_parses [parse_rules]: "TL_bad_msg_notification_wf x \<Longrightarrow> parses (TL_bad_msg_notification_readParams BadMsgNotification_fields_new) (TL_bad_msg_notification_params x) x"
  by (rule parses_nil, unfold TL_bad_msg_notification_readParams_def TL_bad_msg_notification_params_def Let_def append_assoc, 
    (rule parse_intros parse_rules | simp add: TL_bad_msg_notification_wf_def BadMsgNotification_fields_new_def; fail | rule BadMsgNotification_fields.equality)+)

lemma TL_bad_msg_notification_safe [safe_rules]: "safe (TL_bad_msg_notification_readParams x)"
  unfolding TL_bad_msg_notification_readParams_def Let_def by (intro safe_intros safe_rules)

definition TL_bad_server_salt_params :: "BadMsgNotification_fields \<Rightarrow> byte list" where
  "TL_bad_server_salt_params x = long_bytes (BadMsgNotification_bad_msg_id x) @
     int_bytes (BadMsgNotification_bad_msg_seqno x) @
     int_bytes (BadMsgNotification_error_code x) @
     long_bytes (BadMsgNotification_new_server_salt x)"

definition TL_bad_server_salt_wf :: "BadMsgNotification_fields \<Rightarrow> bool" where
  "TL_bad_server_salt_wf x \<longleftrightarrow> True"

lemma TL_bad_server_salt_parses [parse_rules]: "TL_bad_server_salt_wf x \<Longrightarrow> parses (TL_bad_server_salt_readParams BadMsgNotification_fields_new) (TL_bad_server_salt_params x) x"
  by (rule parses_nil, unfold TL_bad_server_salt_readParams_def TL_bad_server_salt_params_def Let_def append_assoc, 
    (rule parse_intros parse_rules | simp add: TL_bad_server_salt_wf_def BadMsgNotification_fields_new_def; fail | rule BadMsgNotification_fields.equality)+)

lemma TL_bad_server_salt_safe [safe_rules]: "safe (TL_bad_server_salt_readParams x)"
  unfolding TL_bad_server_salt_readParams_def Let_def by (intro safe_intros safe_rules)

fun BadMsgNotification_wire :: "BadMsgNotification \<Rightarrow> byte list" where
  "BadMsgNotification_wire (TL_bad_msg_notification x) = int_bytes TL_bad_msg_notification_constructor @ TL_bad_msg_notification_params x"
| "BadMsgNotification_wire (TL_bad_server_salt x) = int_bytes TL_bad_server_salt_constructor @ TL_bad_server_salt_params x"

fun BadMsgNotification_wf :: "BadMsgNotification \<Rightarrow> bool" where
  "BadMsgNotification_wf (TL_bad_msg_notification x) = TL_bad_msg_notification_wf x"
| "BadMsgNotification_wf (TL_bad_server_salt x) = TL_bad_server_salt_wf x"

lemma BadMsgNotification_reads:
  assumes wf: "BadMsgNotification_wf x"
  shows "parses (read_object BadMsgNotification_TLdeserialize) (BadMsgNotification_wire x) (Some x)"
proof (cases x)
  case (TL_bad_msg_notification y)
  then show ?thesis using wf unfolding TL_bad_msg_notification BadMsgNotification_wire.simps
    by (intro parses_read_object parses_wrap [OF TL_bad_msg_notification_parses]) (simp_all add: BadMsgNotification_TLdeserialize_def TL_bad_msg_notification_constructor_def TL_bad_server_salt_constructor_def)
next
  case (TL_bad_server_salt y)
  then show ?thesis using wf unfolding TL_bad_server_salt BadMsgNotification_wire.simps
    by (intro parses_read_object parses_wrap [OF TL_bad_server_salt_parses]) (simp_all add: BadMsgNotification_TLdeserialize_def TL_bad_msg_notification_constructor_def TL_bad_server_salt_constructor_def)
qed

lemma BadMsgNotification_des_safe: "safe (BadMsgNotification_TLdeserialize c)"
  unfolding BadMsgNotification_TLdeserialize_def by (intro safe_intros safe_rules)

interpretation codec_BadMsgNotification: tl_reader BadMsgNotification_TLdeserialize BadMsgNotification_wire BadMsgNotification_wf
  by unfold_locales (simp_all add: BadMsgNotification_reads BadMsgNotification_des_safe)

lemmas BadMsgNotification_read_rules [parse_rules] = codec_BadMsgNotification.reads codec_BadMsgNotification.reads_ptr codec_BadMsgNotification.reads_list

lemmas BadMsgNotification_safe_rules [safe_rules] = codec_BadMsgNotification.safe_des codec_BadMsgNotification.safe_reads

definition TL_msgs_state_req_params :: "TL_msgs_state_req \<Rightarrow> byte list" where
  "TL_msgs_state_req_params x = int_bytes 0x1cb5c415 @
     int_bytes (word_of_nat (length (TL_msgs_state_req_msg_ids x))) @ concat (map long_bytes (TL_msgs_state_req_msg_ids x))"

definition TL_msgs_state_req_wf :: "TL_msgs_state_req \<Rightarrow> bool" where
  "TL_msgs_state_req_wf x \<longleftrightarrow> length (TL_msgs_state_req_msg_ids x) < 2 ^ 31"

definition TL_msgs_state_req_wire :: "TL_msgs_state_req \<Rightarrow> byte list" where
  "TL_msgs_state_req_wire x = int_bytes TL_msgs_state_req_constructor @ TL_msgs_state_req_params x"

lemma TL_msgs_state_req_emits [emit_rules]: "TL_msgs_state_req_wf x \<Longrightarrow> emits (TL_msgs_state_req_serializeToStream x) (TL_msgs_state_req_wire x)"
  unfolding TL_msgs_state_req_serializeToStream_def TL_msgs_state_req_wire_def TL_msgs_state_req_params_def
  by (rule emits_eq, (rule emit_intros emit_rules | simp add: TL_msgs_state_req_wf_def; fail)+)

lemma TL_msgs_state_req_parses [parse_rules]: "TL_msgs_state_req_wf x \<Longrightarrow> parses (TL_msgs_state_req_readParams TL_msgs_state_req_new) (TL_msgs_state_req_params x) x"
  by (rule parses_nil, unfold TL_msgs_state_req_readParams_def TL_msgs_state_req_params_def Let_def append_assoc, 
    (rule parse_intros parse_rules | simp add: TL_msgs_state_req_wf_def TL_msgs_state_req_new_def; fail | rule TL_msgs_state_req.equality)+)

lemma TL_msgs_state_req_safe [safe_rules]: "safe (TL_msgs_state_req_readParams x)"
  unfolding TL_msgs_state_req_readParams_def Let_def by (intro safe_intros safe_rules)

lemma TL_msgs_state_req_reads: "TL_msgs_state_req_wf x \<Longrightarrow> parses (read_object TL_msgs_state_req_TLdeserialize) (TL_msgs_state_req_wire x) (Some x)"
  unfolding TL_msgs_state_req_wire_def TL_msgs_state_req_TLdeserialize_def [abs_def] by (rule parses_class) (rule TL_msgs_state_req_parses)

lemma TL_msgs_state_req_des_safe: "safe (TL_msgs_state_req_TLdeserialize c)"
  unfolding TL_msgs_state_req_TLdeserialize_def by (intro safe_intros safe_rules)

interpretation codec_TL_msgs_state_req: tl_codec TL_msgs_state_req_TLdeserialize TL_msgs_state_req_wire TL_msgs_state_req_wf TL_msgs_state_req_serializeToStream
  by unfold_locales (simp_all add: TL_msgs_state_req_reads TL_msgs_state_req_des_safe TL_msgs_state_req_emits)

lemmas TL_msgs_state_req_rules [emit_rules] = codec_TL_msgs_state_req.emits_ptr codec_TL_msgs_state_req.emits_list

lemmas TL_msgs_state_req_read_rules [parse_rules] = codec_TL_msgs_state_req.reads codec_TL_msgs_state_req.reads_ptr codec_TL_msgs_state_req.reads_list

lemmas TL_msgs_state_req_safe_rules [safe_rules] = codec_TL_msgs_state_req.safe_des codec_TL_msgs_state_req.safe_reads

definition TL_msg_new_detailed_info_params :: "MsgDetailedInfo_fields \<Rightarrow> byte list" where
  "TL_msg_new_detailed_info_params x = long_bytes (MsgDetailedInfo_answer_msg_id x) @
     int_bytes (MsgDetailedInfo_bytes x) @
     int_bytes (MsgDetailedInfo_status x)"

definition TL_msg_new_detailed_info_wf :: "MsgDetailedInfo_fields \<Rightarrow> bool" where
  "TL_msg_new_detailed_info_wf x \<longleftrightarrow> MsgDetailedInfo_msg_id x = 0"

lemma TL_msg_new_detailed_info_parses [parse_rules]: "TL_msg_new_detailed_info_wf x \<Longrightarrow> parses (TL_msg_new_detailed_info_readParams MsgDetailedInfo_fields_new) (TL_msg_new_detailed_info_params x) x"
  by (rule parses_nil, unfold TL_msg_new_detailed_info_readParams_def TL_msg_new_detailed_info_params_def Let_def append_assoc, 
    (rule parse_intros parse_rules | simp add: TL_msg_new_detailed_info_wf_def MsgDetailedInfo_fields_new_def; fail | rule MsgDetailedInfo_fields.equality)+)

lemma TL_msg_new_detailed_info_safe [safe_rules]: "safe (TL_msg_new_detailed_info_readParams x)"
  unfolding TL_msg_new_detailed_info_readParams_def Let_def by (intro safe_intros safe_rules)

definition TL_msg_detailed_info_params :: "MsgDetailedInfo_fields \<Rightarrow> byte list" where
  "TL_msg_detailed_info_params x = long_bytes (MsgDetailedInfo_msg_id x) @
     long_bytes (MsgDetailedInfo_answer_msg_id x) @
     int_bytes (MsgDetailedInfo_bytes x) @
     int_bytes (MsgDetailedInfo_status x)"

definition TL_msg_detailed_info_wf :: "MsgDetailedInfo_fields \<Rightarrow> bool" where
  "TL_msg_detailed_info_wf x \<longleftrightarrow> True"

lemma TL_msg_detailed_info_parses [parse_rules]: "TL_msg_detailed_info_wf x \<Longrightarrow> parses (TL_msg_detailed_info_readParams MsgDetailedInfo_fields_new) (TL_msg_detailed_info_params x) x"
  by (rule parses_nil, unfold TL_msg_detailed_info_readParams_def TL_msg_detailed_info_params_def Let_def append_assoc, 
    (rule parse_intros parse_rules | simp add: TL_msg_detailed_info_wf_def MsgDetailedInfo_fields_new_def; fail | rule MsgDetailedInfo_fields.equality)+)

lemma TL_msg_detailed_info_safe [safe_rules]: "safe (TL_msg_detailed_info_readParams x)"
  unfolding TL_msg_detailed_info_readParams_def Let_def by (intro safe_intros safe_rules)

fun MsgDetailedInfo_wire :: "MsgDetailedInfo \<Rightarrow> byte list" where
  "MsgDetailedInfo_wire (TL_msg_new_detailed_info x) = int_bytes TL_msg_new_detailed_info_constructor @ TL_msg_new_detailed_info_params x"
| "MsgDetailedInfo_wire (TL_msg_detailed_info x) = int_bytes TL_msg_detailed_info_constructor @ TL_msg_detailed_info_params x"

fun MsgDetailedInfo_wf :: "MsgDetailedInfo \<Rightarrow> bool" where
  "MsgDetailedInfo_wf (TL_msg_new_detailed_info x) = TL_msg_new_detailed_info_wf x"
| "MsgDetailedInfo_wf (TL_msg_detailed_info x) = TL_msg_detailed_info_wf x"

lemma MsgDetailedInfo_reads:
  assumes wf: "MsgDetailedInfo_wf x"
  shows "parses (read_object MsgDetailedInfo_TLdeserialize) (MsgDetailedInfo_wire x) (Some x)"
proof (cases x)
  case (TL_msg_new_detailed_info y)
  then show ?thesis using wf unfolding TL_msg_new_detailed_info MsgDetailedInfo_wire.simps
    by (intro parses_read_object parses_wrap [OF TL_msg_new_detailed_info_parses]) (simp_all add: MsgDetailedInfo_TLdeserialize_def TL_msg_new_detailed_info_constructor_def TL_msg_detailed_info_constructor_def)
next
  case (TL_msg_detailed_info y)
  then show ?thesis using wf unfolding TL_msg_detailed_info MsgDetailedInfo_wire.simps
    by (intro parses_read_object parses_wrap [OF TL_msg_detailed_info_parses]) (simp_all add: MsgDetailedInfo_TLdeserialize_def TL_msg_new_detailed_info_constructor_def TL_msg_detailed_info_constructor_def)
qed

lemma MsgDetailedInfo_des_safe: "safe (MsgDetailedInfo_TLdeserialize c)"
  unfolding MsgDetailedInfo_TLdeserialize_def by (intro safe_intros safe_rules)

interpretation codec_MsgDetailedInfo: tl_reader MsgDetailedInfo_TLdeserialize MsgDetailedInfo_wire MsgDetailedInfo_wf
  by unfold_locales (simp_all add: MsgDetailedInfo_reads MsgDetailedInfo_des_safe)

lemmas MsgDetailedInfo_read_rules [parse_rules] = codec_MsgDetailedInfo.reads codec_MsgDetailedInfo.reads_ptr codec_MsgDetailedInfo.reads_list

lemmas MsgDetailedInfo_safe_rules [safe_rules] = codec_MsgDetailedInfo.safe_des codec_MsgDetailedInfo.safe_reads

definition TL_msgs_all_info_params :: "TL_msgs_all_info \<Rightarrow> byte list" where
  "TL_msgs_all_info_params x = int_bytes 0x1cb5c415 @
     int_bytes (word_of_nat (length (TL_msgs_all_info_msg_ids x))) @ concat (map long_bytes (TL_msgs_all_info_msg_ids x)) @
     of_ptr tl_bytes (TL_msgs_all_info_info x)"

definition TL_msgs_all_info_wf :: "TL_msgs_all_info \<Rightarrow> bool" where
  "TL_msgs_all_info_wf x \<longleftrightarrow> length (TL_msgs_all_info_msg_ids x) < 2 ^ 31 \<and>
     ok_bytes (TL_msgs_all_info_info x)"

definition TL_msgs_all_info_wire :: "TL_msgs_all_info \<Rightarrow> byte list" where
  "TL_msgs_all_info_wire x = int_bytes TL_msgs_all_info_constructor @ TL_msgs_all_info_params x"

lemma TL_msgs_all_info_parses [parse_rules]: "TL_msgs_all_info_wf x \<Longrightarrow> parses (TL_msgs_all_info_readParams TL_msgs_all_info_new) (TL_msgs_all_info_params x) x"
  by (rule parses_nil, unfold TL_msgs_all_info_readParams_def TL_msgs_all_info_params_def Let_def append_assoc, 
    (rule parse_intros parse_rules | simp add: TL_msgs_all_info_wf_def TL_msgs_all_info_new_def; fail | rule TL_msgs_all_info.equality)+)

lemma TL_msgs_all_info_safe [safe_rules]: "safe (TL_msgs_all_info_readParams x)"
  unfolding TL_msgs_all_info_readParams_def Let_def by (intro safe_intros safe_rules)

lemma TL_msgs_all_info_reads: "TL_msgs_all_info_wf x \<Longrightarrow> parses (read_object TL_msgs_all_info_TLdeserialize) (TL_msgs_all_info_wire x) (Some x)"
  unfolding TL_msgs_all_info_wire_def TL_msgs_all_info_TLdeserialize_def [abs_def] by (rule parses_class) (rule TL_msgs_all_info_parses)

lemma TL_msgs_all_info_des_safe: "safe (TL_msgs_all_info_TLdeserialize c)"
  unfolding TL_msgs_all_info_TLdeserialize_def by (intro safe_intros safe_rules)

interpretation codec_TL_msgs_all_info: tl_reader TL_msgs_all_info_TLdeserialize TL_msgs_all_info_wire TL_msgs_all_info_wf
  by unfold_locales (simp_all add: TL_msgs_all_info_reads TL_msgs_all_info_des_safe)

lemmas TL_msgs_all_info_read_rules [parse_rules] = codec_TL_msgs_all_info.reads codec_TL_msgs_all_info.reads_ptr codec_TL_msgs_all_info.reads_list

lemmas TL_msgs_all_info_safe_rules [safe_rules] = codec_TL_msgs_all_info.safe_des codec_TL_msgs_all_info.safe_reads

definition TL_new_session_created_params :: "TL_new_session_created \<Rightarrow> byte list" where
  "TL_new_session_created_params x = long_bytes (TL_new_session_created_first_msg_id x) @
     long_bytes (TL_new_session_created_unique_id x) @
     long_bytes (TL_new_session_created_server_salt x)"

definition TL_new_session_created_wf :: "TL_new_session_created \<Rightarrow> bool" where
  "TL_new_session_created_wf x \<longleftrightarrow> True"

definition TL_new_session_created_wire :: "TL_new_session_created \<Rightarrow> byte list" where
  "TL_new_session_created_wire x = int_bytes TL_new_session_created_constructor @ TL_new_session_created_params x"

lemma TL_new_session_created_parses [parse_rules]: "TL_new_session_created_wf x \<Longrightarrow> parses (TL_new_session_created_readParams TL_new_session_created_new) (TL_new_session_created_params x) x"
  by (rule parses_nil, unfold TL_new_session_created_readParams_def TL_new_session_created_params_def Let_def append_assoc, 
    (rule parse_intros parse_rules | simp add: TL_new_session_created_wf_def TL_new_session_created_new_def; fail | rule TL_new_session_created.equality)+)

lemma TL_new_session_created_safe [safe_rules]: "safe (TL_new_session_created_readParams x)"
  unfolding TL_new_session_created_readParams_def Let_def by (intro safe_intros safe_rules)

definition TL_destroy_session_ok_params :: "DestroySessionRes_fields \<Rightarrow> byte list" where
  "TL_destroy_session_ok_params x = long_bytes (DestroySessionRes_session_id x)"

definition TL_destroy_session_ok_wf :: "DestroySessionRes_fields \<Rightarrow> bool" where
  "TL_destroy_session_ok_wf x \<longleftrightarrow> True"

lemma TL_destroy_session_ok_parses [parse_rules]: "TL_destroy_session_ok_wf x \<Longrightarrow> parses (TL_destroy_session_ok_readParams DestroySessionRes_fields_new) (TL_destroy_session_ok_params x) x"
  by (rule parses_nil, unfold TL_destroy_session_ok_readParams_def TL_destroy_session_ok_params_def Let_def append_assoc, 
    (rule parse_intros parse_rules | simp add: TL_destroy_session_ok_wf_def DestroySessionRes_fields_new_def; fail | rule DestroySessionRes_fields.equality)+)

lemma TL_destroy_session_ok_safe [safe_rules]: "safe (TL_destroy_session_ok_readParams x)"
  unfolding TL_destroy_session_ok_readParams_def Let_def by (intro safe_intros safe_rules)

definition TL_destroy_session_none_params :: "DestroySessionRes_fields \<Rightarrow> byte list" where
  "TL_destroy_session_none_params x = long_bytes (DestroySessionRes_session_id x)"

definition TL_destroy_session_none_wf :: "DestroySessionRes_fields \<Rightarrow> bool" where
  "TL_destroy_session_none_wf x \<longleftrightarrow> True"

lemma TL_destroy_session_none_parses [parse_rules]: "TL_destroy_session_none_wf x \<Longrightarrow> parses (TL_destroy_session_none_readParams DestroySessionRes_fields_new) (TL_destroy_session_none_params x) x"
  by (rule parses_nil, unfold TL_destroy_session_none_readParams_def TL_destroy_session_none_params_def Let_def append_assoc, 
    (rule parse_intros parse_rules | simp add: TL_destroy_session_none_wf_def DestroySessionRes_fields_new_def; fail | rule DestroySessionRes_fields.equality)+)

lemma TL_destroy_session_none_safe [safe_rules]: "safe (TL_destroy_session_none_readParams x)"
  unfolding TL_destroy_session_none_readParams_def Let_def by (intro safe_intros safe_rules)

fun DestroySessionRes_wire :: "DestroySessionRes \<Rightarrow> byte list" where
  "DestroySessionRes_wire (TL_destroy_session_ok x) = int_bytes TL_destroy_session_ok_constructor @ TL_destroy_session_ok_params x"
| "DestroySessionRes_wire (TL_destroy_session_none x) = int_bytes TL_destroy_session_none_constructor @ TL_destroy_session_none_params x"

fun DestroySessionRes_wf :: "DestroySessionRes \<Rightarrow> bool" where
  "DestroySessionRes_wf (TL_destroy_session_ok x) = TL_destroy_session_ok_wf x"
| "DestroySessionRes_wf (TL_destroy_session_none x) = TL_destroy_session_none_wf x"

lemma DestroySessionRes_reads:
  assumes wf: "DestroySessionRes_wf x"
  shows "parses (read_object DestroySessionRes_TLdeserialize) (DestroySessionRes_wire x) (Some x)"
proof (cases x)
  case (TL_destroy_session_ok y)
  then show ?thesis using wf unfolding TL_destroy_session_ok DestroySessionRes_wire.simps
    by (intro parses_read_object parses_wrap [OF TL_destroy_session_ok_parses]) (simp_all add: DestroySessionRes_TLdeserialize_def TL_destroy_session_ok_constructor_def TL_destroy_session_none_constructor_def)
next
  case (TL_destroy_session_none y)
  then show ?thesis using wf unfolding TL_destroy_session_none DestroySessionRes_wire.simps
    by (intro parses_read_object parses_wrap [OF TL_destroy_session_none_parses]) (simp_all add: DestroySessionRes_TLdeserialize_def TL_destroy_session_ok_constructor_def TL_destroy_session_none_constructor_def)
qed

lemma DestroySessionRes_des_safe: "safe (DestroySessionRes_TLdeserialize c)"
  unfolding DestroySessionRes_TLdeserialize_def by (intro safe_intros safe_rules)

interpretation codec_DestroySessionRes: tl_reader DestroySessionRes_TLdeserialize DestroySessionRes_wire DestroySessionRes_wf
  by unfold_locales (simp_all add: DestroySessionRes_reads DestroySessionRes_des_safe)

lemmas DestroySessionRes_read_rules [parse_rules] = codec_DestroySessionRes.reads codec_DestroySessionRes.reads_ptr codec_DestroySessionRes.reads_list

lemmas DestroySessionRes_safe_rules [safe_rules] = codec_DestroySessionRes.safe_des codec_DestroySessionRes.safe_reads

definition TL_msgs_ack_params :: "TL_msgs_ack \<Rightarrow> byte list" where
  "TL_msgs_ack_params x = int_bytes 0x1cb5c415 @
     int_bytes (word_of_nat (length (TL_msgs_ack_msg_ids x))) @ concat (map long_bytes (TL_msgs_ack_msg_ids x))"

definition TL_msgs_ack_wf :: "TL_msgs_ack \<Rightarrow> bool" where
  "TL_msgs_ack_wf x \<longleftrightarrow> length (TL_msgs_ack_msg_ids x) < 2 ^ 31"

definition TL_msgs_ack_wire :: "TL_msgs_ack \<Rightarrow> byte list" where
  "TL_msgs_ack_wire x = int_bytes TL_msgs_ack_constructor @ TL_msgs_ack_params x"

lemma TL_msgs_ack_emits [emit_rules]: "TL_msgs_ack_wf x \<Longrightarrow> emits (TL_msgs_ack_serializeToStream x) (TL_msgs_ack_wire x)"
  unfolding TL_msgs_ack_serializeToStream_def TL_msgs_ack_wire_def TL_msgs_ack_params_def
  by (rule emits_eq, (rule emit_intros emit_rules | simp add: TL_msgs_ack_wf_def; fail)+)

lemma TL_msgs_ack_parses [parse_rules]: "TL_msgs_ack_wf x \<Longrightarrow> parses (TL_msgs_ack_readParams TL_msgs_ack_new) (TL_msgs_ack_params x) x"
  by (rule parses_nil, unfold TL_msgs_ack_readParams_def TL_msgs_ack_params_def Let_def append_assoc, 
    (rule parse_intros parse_rules | simp add: TL_msgs_ack_wf_def TL_msgs_ack_new_def; fail | rule TL_msgs_ack.equality)+)

lemma TL_msgs_ack_safe [safe_rules]: "safe (TL_msgs_ack_readParams x)"
  unfolding TL_msgs_ack_readParams_def Let_def by (intro safe_intros safe_rules)

lemma TL_msgs_ack_reads: "TL_msgs_ack_wf x \<Longrightarrow> parses (read_object TL_msgs_ack_TLdeserialize) (TL_msgs_ack_wire x) (Some x)"
  unfolding TL_msgs_ack_wire_def TL_msgs_ack_TLdeserialize_def [abs_def] by (rule parses_class) (rule TL_msgs_ack_parses)

lemma TL_msgs_ack_des_safe: "safe (TL_msgs_ack_TLdeserialize c)"
  unfolding TL_msgs_ack_TLdeserialize_def by (intro safe_intros safe_rules)

interpretation codec_TL_msgs_ack: tl_codec TL_msgs_ack_TLdeserialize TL_msgs_ack_wire TL_msgs_ack_wf TL_msgs_ack_serializeToStream
  by unfold_locales (simp_all add: TL_msgs_ack_reads TL_msgs_ack_des_safe TL_msgs_ack_emits)

lemmas TL_msgs_ack_rules [emit_rules] = codec_TL_msgs_ack.emits_ptr codec_TL_msgs_ack.emits_list

lemmas TL_msgs_ack_read_rules [parse_rules] = codec_TL_msgs_ack.reads codec_TL_msgs_ack.reads_ptr codec_TL_msgs_ack.reads_list

lemmas TL_msgs_ack_safe_rules [safe_rules] = codec_TL_msgs_ack.safe_des codec_TL_msgs_ack.safe_reads

definition TL_msg_resend_req_params :: "TL_msg_resend_req \<Rightarrow> byte list" where
  "TL_msg_resend_req_params x = int_bytes 0x1cb5c415 @
     int_bytes (word_of_nat (length (TL_msg_resend_req_msg_ids x))) @ concat (map long_bytes (TL_msg_resend_req_msg_ids x))"

definition TL_msg_resend_req_wf :: "TL_msg_resend_req \<Rightarrow> bool" where
  "TL_msg_resend_req_wf x \<longleftrightarrow> length (TL_msg_resend_req_msg_ids x) < 2 ^ 31"

definition TL_msg_resend_req_wire :: "TL_msg_resend_req \<Rightarrow> byte list" where
  "TL_msg_resend_req_wire x = int_bytes TL_msg_resend_req_constructor @ TL_msg_resend_req_params x"

lemma TL_msg_resend_req_emits [emit_rules]: "TL_msg_resend_req_wf x \<Longrightarrow> emits (TL_msg_resend_req_serializeToStream x) (TL_msg_resend_req_wire x)"
  unfolding TL_msg_resend_req_serializeToStream_def TL_msg_resend_req_wire_def TL_msg_resend_req_params_def
  by (rule emits_eq, (rule emit_intros emit_rules | simp add: TL_msg_resend_req_wf_def; fail)+)

lemma TL_msg_resend_req_parses [parse_rules]: "TL_msg_resend_req_wf x \<Longrightarrow> parses (TL_msg_resend_req_readParams TL_msg_resend_req_new) (TL_msg_resend_req_params x) x"
  by (rule parses_nil, unfold TL_msg_resend_req_readParams_def TL_msg_resend_req_params_def Let_def append_assoc, 
    (rule parse_intros parse_rules | simp add: TL_msg_resend_req_wf_def TL_msg_resend_req_new_def; fail | rule TL_msg_resend_req.equality)+)

lemma TL_msg_resend_req_safe [safe_rules]: "safe (TL_msg_resend_req_readParams x)"
  unfolding TL_msg_resend_req_readParams_def Let_def by (intro safe_intros safe_rules)

lemma TL_msg_resend_req_reads: "TL_msg_resend_req_wf x \<Longrightarrow> parses (read_object TL_msg_resend_req_TLdeserialize) (TL_msg_resend_req_wire x) (Some x)"
  unfolding TL_msg_resend_req_wire_def TL_msg_resend_req_TLdeserialize_def [abs_def] by (rule parses_class) (rule TL_msg_resend_req_parses)

lemma TL_msg_resend_req_des_safe: "safe (TL_msg_resend_req_TLdeserialize c)"
  unfolding TL_msg_resend_req_TLdeserialize_def by (intro safe_intros safe_rules)

interpretation codec_TL_msg_resend_req: tl_codec TL_msg_resend_req_TLdeserialize TL_msg_resend_req_wire TL_msg_resend_req_wf TL_msg_resend_req_serializeToStream
  by unfold_locales (simp_all add: TL_msg_resend_req_reads TL_msg_resend_req_des_safe TL_msg_resend_req_emits)

lemmas TL_msg_resend_req_rules [emit_rules] = codec_TL_msg_resend_req.emits_ptr codec_TL_msg_resend_req.emits_list

lemmas TL_msg_resend_req_read_rules [parse_rules] = codec_TL_msg_resend_req.reads codec_TL_msg_resend_req.reads_ptr codec_TL_msg_resend_req.reads_list

lemmas TL_msg_resend_req_safe_rules [safe_rules] = codec_TL_msg_resend_req.safe_des codec_TL_msg_resend_req.safe_reads

definition MsgsStateInfo_params :: "MsgsStateInfo \<Rightarrow> byte list" where
  "MsgsStateInfo_params x = long_bytes (MsgsStateInfo_req_msg_id x) @
     tl_bytes (MsgsStateInfo_info x)"

definition MsgsStateInfo_wf :: "MsgsStateInfo \<Rightarrow> bool" where
  "MsgsStateInfo_wf x \<longleftrightarrow> length (MsgsStateInfo_info x) < 2 ^ 24"

definition MsgsStateInfo_wire :: "MsgsStateInfo \<Rightarrow> byte list" where
  "MsgsStateInfo_wire x = int_bytes MsgsStateInfo_constructor @ MsgsStateInfo_params x"

lemma MsgsStateInfo_parses [parse_rules]: "MsgsStateInfo_wf x \<Longrightarrow> parses (MsgsStateInfo_readParams MsgsStateInfo_new) (MsgsStateInfo_params x) x"
  by (rule parses_nil, unfold MsgsStateInfo_readParams_def MsgsStateInfo_params_def Let_def append_assoc, 
    (rule parse_intros parse_rules | simp add: MsgsStateInfo_wf_def MsgsStateInfo_new_def; fail | rule MsgsStateInfo.equality)+)

lemma MsgsStateInfo_safe [safe_rules]: "safe (MsgsStateInfo_readParams x)"
  unfolding MsgsStateInfo_readParams_def Let_def by (intro safe_intros safe_rules)

definition TL_rpc_error_params :: "RpcError_fields \<Rightarrow> byte list" where
  "TL_rpc_error_params x = int_bytes (RpcError_error_code x) @
     tl_bytes (RpcError_error_message x)"

definition TL_rpc_error_wf :: "RpcError_fields \<Rightarrow> bool" where
  "TL_rpc_error_wf x \<longleftrightarrow> length (RpcError_error_message x) < 2 ^ 24 \<and>
     RpcError_query_id x = 0"

lemma TL_rpc_error_parses [parse_rules]: "TL_rpc_error_wf x \<Longrightarrow> parses (TL_rpc_error_readParams RpcError_fields_new) (TL_rpc_error_params x) x"
  by (rule parses_nil, unfold TL_rpc_error_readParams_def TL_rpc_error_params_def Let_def append_assoc, 
    (rule parse_intros parse_rules | simp add: TL_rpc_error_wf_def RpcError_fields_new_def; fail | rule RpcError_fields.equality)+)

lemma TL_rpc_error_safe [safe_rules]: "safe (TL_rpc_error_readParams x)"
  unfolding TL_rpc_error_readParams_def Let_def by (intro safe_intros safe_rules)

definition TL_rpc_req_error_params :: "RpcError_fields \<Rightarrow> byte list" where
  "TL_rpc_req_error_params x = long_bytes (RpcError_query_id x) @
     int_bytes (RpcError_error_code x) @
     tl_bytes (RpcError_error_message x)"

definition TL_rpc_req_error_wf :: "RpcError_fields \<Rightarrow> bool" where
  "TL_rpc_req_error_wf x \<longleftrightarrow> length (RpcError_error_message x) < 2 ^ 24"

lemma TL_rpc_req_error_parses [parse_rules]: "TL_rpc_req_error_wf x \<Longrightarrow> parses (TL_rpc_req_error_readParams RpcError_fields_new) (TL_rpc_req_error_params x) x"
  by (rule parses_nil, unfold TL_rpc_req_error_readParams_def TL_rpc_req_error_params_def Let_def append_assoc, 
    (rule parse_intros parse_rules | simp add: TL_rpc_req_error_wf_def RpcError_fields_new_def; fail | rule RpcError_fields.equality)+)

lemma TL_rpc_req_error_safe [safe_rules]: "safe (TL_rpc_req_error_readParams x)"
  unfolding TL_rpc_req_error_readParams_def Let_def by (intro safe_intros safe_rules)

fun RpcError_wire :: "RpcError \<Rightarrow> byte list" where
  "RpcError_wire (TL_rpc_error x) = int_bytes TL_rpc_error_constructor @ TL_rpc_error_params x"
| "RpcError_wire (TL_rpc_req_error x) = int_bytes TL_rpc_req_error_constructor @ TL_rpc_req_error_params x"

fun RpcError_wf :: "RpcError \<Rightarrow> bool" where
  "RpcError_wf (TL_rpc_error x) = TL_rpc_error_wf x"
| "RpcError_wf (TL_rpc_req_error x) = TL_rpc_req_error_wf x"

definition TL_client_DH_inner_data_params :: "TL_client_DH_inner_data \<Rightarrow> byte list" where
  "TL_client_DH_inner_data_params x = of_ptr (\<lambda>a. a) (TL_client_DH_inner_data_nonce x) @
     of_ptr (\<lambda>a. a) (TL_client_DH_inner_data_server_nonce x) @
     long_bytes (TL_client_DH_inner_data_retry_id x) @
     of_ptr tl_bytes (TL_client_DH_inner_data_g_b x)"

definition TL_client_DH_inner_data_wf :: "TL_client_DH_inner_data \<Rightarrow> bool" where
  "TL_client_DH_inner_data_wf x \<longleftrightarrow> ok_bytes (TL_client_DH_inner_data_nonce x) \<and>
     ok_bytes (TL_client_DH_inner_data_server_nonce x) \<and>
     ok_bytes (TL_client_DH_inner_data_g_b x)"

definition TL_client_DH_inner_data_wire :: "TL_client_DH_inner_data \<Rightarrow> byte list" where
  "TL_client_DH_inner_data_wire x = int_bytes TL_client_DH_inner_data_constructor @ TL_client_DH_inner_data_params x"

lemma TL_client_DH_inner_data_emits [emit_rules]: "TL_client_DH_inner_data_wf x \<Longrightarrow> emits (TL_client_DH_inner_data_serializeToStream x) (TL_client_DH_inner_data_wire x)"
  unfolding TL_client_DH_inner_data_serializeToStream_def TL_client_DH_inner_data_wire_def TL_client_DH_inner_data_params_def
  by (rule emits_eq, (rule emit_intros emit_rules | simp add: TL_client_DH_inner_data_wf_def; fail)+)

definition TL_server_DH_inner_data_params :: "TL_server_DH_inner_data \<Rightarrow> byte list" where
  "TL_server_DH_inner_data_params x = of_ptr (\<lambda>a. a) (TL_server_DH_inner_data_nonce x) @
     of_ptr (\<lambda>a. a) (TL_server_DH_inner_data_server_nonce x) @
     int_bytes (TL_server_DH_inner_data_g x) @
     of_ptr tl_bytes (TL_server_DH_inner_data_dh_prime x) @
     of_ptr tl_bytes (TL_server_DH_inner_data_g_a x) @
     int_bytes (TL_server_DH_inner_data_server_time x)"

definition TL_server_DH_inner_data_wf :: "TL_server_DH_inner_data \<Rightarrow> bool" where
  "TL_server_DH_inner_data_wf x \<longleftrightarrow> sized_bytes 16 (TL_server_DH_inner_data_nonce x) \<and>
     sized_bytes 16 (TL_server_DH_inner_data_server_nonce x) \<and>
     ok_bytes (TL_server_DH_inner_data_dh_prime x) \<and>
     ok_bytes (TL_server_DH_inner_data_g_a x)"

definition TL_server_DH_inner_data_wire :: "TL_server_DH_inner_data \<Rightarrow> byte list" where
  "TL_server_DH_inner_data_wire x = int_bytes TL_server_DH_inner_data_constructor @ TL_server_DH_inner_data_params x"

lemma TL_server_DH_inner_data_emits [emit_rules]: "TL_server_DH_inner_data_wf x \<Longrightarrow> emits (TL_server_DH_inner_data_serializeToStream x) (TL_server_DH_inner_data_wire x)"
  unfolding TL_server_DH_inner_data_serializeToStream_def TL_server_DH_inner_data_wire_def TL_server_DH_inner_data_params_def
  by (rule emits_eq, (rule emit_intros emit_rules | simp add: TL_server_DH_inner_data_wf_def; fail)+)

lemma TL_server_DH_inner_data_parses [parse_rules]: "TL_server_DH_inner_data_wf x \<Longrightarrow> parses (TL_server_DH_inner_data_readParams TL_server_DH_inner_data_new) (TL_server_DH_inner_data_params x) x"
  by (rule parses_nil, unfold TL_server_DH_inner_data_readParams_def TL_server_DH_inner_data_params_def Let_def append_assoc, 
    (rule parse_intros parse_rules | simp add: TL_server_DH_inner_data_wf_def TL_server_DH_inner_data_new_def; fail | rule TL_server_DH_inner_data.equality)+)

lemma TL_server_DH_inner_data_safe [safe_rules]: "safe (TL_server_DH_inner_data_readParams x)"
  unfolding TL_server_DH_inner_data_readParams_def Let_def by (intro safe_intros safe_rules)

lemma TL_server_DH_inner_data_reads: "TL_server_DH_inner_data_wf x \<Longrightarrow> parses (read_object TL_server_DH_inner_data_TLdeserialize) (TL_server_DH_inner_data_wire x) (Some x)"
  unfolding TL_server_DH_inner_data_wire_def TL_server_DH_inner_data_TLdeserialize_def [abs_def] by (rule parses_class) (rule TL_server_DH_inner_data_parses)

lemma TL_server_DH_inner_data_des_safe: "safe (TL_server_DH_inner_data_TLdeserialize c)"
  unfolding TL_server_DH_inner_data_TLdeserialize_def by (intro safe_intros safe_rules)

interpretation codec_TL_server_DH_inner_data: tl_codec TL_server_DH_inner_data_TLdeserialize TL_server_DH_inner_data_wire TL_server_DH_inner_data_wf TL_server_DH_inner_data_serializeToStream
  by unfold_locales (simp_all add: TL_server_DH_inner_data_reads TL_server_DH_inner_data_des_safe TL_server_DH_inner_data_emits)

lemmas TL_server_DH_inner_data_rules [emit_rules] = codec_TL_server_DH_inner_data.emits_ptr codec_TL_server_DH_inner_data.emits_list

lemmas TL_server_DH_inner_data_read_rules [parse_rules] = codec_TL_server_DH_inner_data.reads codec_TL_server_DH_inner_data.reads_ptr codec_TL_server_DH_inner_data.reads_list

lemmas TL_server_DH_inner_data_safe_rules [safe_rules] = codec_TL_server_DH_inner_data.safe_des codec_TL_server_DH_inner_data.safe_reads

definition TL_req_pq_params :: "TL_req_pq \<Rightarrow> byte list" where
  "TL_req_pq_params x = of_ptr (\<lambda>a. a) (TL_req_pq_nonce x)"

definition TL_req_pq_wf :: "TL_req_pq \<Rightarrow> bool" where
  "TL_req_pq_wf x \<longleftrightarrow> ok_bytes (TL_req_pq_nonce x)"

definition TL_req_pq_wire :: "TL_req_pq \<Rightarrow> byte list" where
  "TL_req_pq_wire x = int_bytes TL_req_pq_constructor @ TL_req_pq_params x"

lemma TL_req_pq_emits [emit_rules]: "TL_req_pq_wf x \<Longrightarrow> emits (TL_req_pq_serializeToStream x) (TL_req_pq_wire x)"
  unfolding TL_req_pq_serializeToStream_def TL_req_pq_wire_def TL_req_pq_params_def
  by (rule emits_eq, (rule emit_intros emit_rules | simp add: TL_req_pq_wf_def; fail)+)

definition TL_req_pq_multi_params :: "TL_req_pq_multi \<Rightarrow> byte list" where
  "TL_req_pq_multi_params x = of_ptr (\<lambda>a. a) (TL_req_pq_multi_nonce x)"

definition TL_req_pq_multi_wf :: "TL_req_pq_multi \<Rightarrow> bool" where
  "TL_req_pq_multi_wf x \<longleftrightarrow> ok_bytes (TL_req_pq_multi_nonce x)"

definition TL_req_pq_multi_wire :: "TL_req_pq_multi \<Rightarrow> byte list" where
  "TL_req_pq_multi_wire x = int_bytes TL_req_pq_multi_constructor @ TL_req_pq_multi_params x"

lemma TL_req_pq_multi_emits [emit_rules]: "TL_req_pq_multi_wf x \<Longrightarrow> emits (TL_req_pq_multi_serializeToStream x) (TL_req_pq_multi_wire x)"
  unfolding TL_req_pq_multi_serializeToStream_def TL_req_pq_multi_wire_def TL_req_pq_multi_params_def
  by (rule emits_eq, (rule emit_intros emit_rules | simp add: TL_req_pq_multi_wf_def; fail)+)

definition TL_req_DH_params_params :: "TL_req_DH_params \<Rightarrow> byte list" where
  "TL_req_DH_params_params x = of_ptr (\<lambda>a. a) (TL_req_DH_params_nonce x) @
     of_ptr (\<lambda>a. a) (TL_req_DH_params_server_nonce x) @
     of_ptr tl_bytes (TL_req_DH_params_p x) @
     of_ptr tl_bytes (TL_req_DH_params_q x) @
     long_bytes (TL_req_DH_params_public_key_fingerprint x) @
     of_ptr tl_bytes (TL_req_DH_params_encrypted_data x)"

definition TL_req_DH_params_wf :: "TL_req_DH_params \<Rightarrow> bool" where
  "TL_req_DH_params_wf x \<longleftrightarrow> ok_bytes (TL_req_DH_params_nonce x) \<and>
     ok_bytes (TL_req_DH_params_server_nonce x) \<and>
     ok_bytes (TL_req_DH_params_p x) \<and>
     ok_bytes (TL_req_DH_params_q x) \<and>
     ok_bytes (TL_req_DH_params_encrypted_data x)"

definition TL_req_DH_params_wire :: "TL_req_DH_params \<Rightarrow> byte list" where
  "TL_req_DH_params_wire x = int_bytes TL_req_DH_params_constructor @ TL_req_DH_params_params x"

lemma TL_req_DH_params_emits [emit_rules]: "TL_req_DH_params_wf x \<Longrightarrow> emits (TL_req_DH_params_serializeToStream x) (TL_req_DH_params_wire x)"
  unfolding TL_req_DH_params_serializeToStream_def TL_req_DH_params_wire_def TL_req_DH_params_params_def
  by (rule emits_eq, (rule emit_intros emit_rules | simp add: TL_req_DH_params_wf_def; fail)+)

definition TL_set_client_DH_params_params :: "TL_set_client_DH_params \<Rightarrow> byte list" where
  "TL_set_client_DH_params_params x = of_ptr (\<lambda>a. a) (TL_set_client_DH_params_nonce x) @
     of_ptr (\<lambda>a. a) (TL_set_client_DH_params_server_nonce x) @
     of_ptr tl_bytes (TL_set_client_DH_params_encrypted_data x)"

definition TL_set_client_DH_params_wf :: "TL_set_client_DH_params \<Rightarrow> bool" where
  "TL_set_client_DH_params_wf x \<longleftrightarrow> ok_bytes (TL_set_client_DH_params_nonce x) \<and>
     ok_bytes (TL_set_client_DH_params_server_nonce x) \<and>
     ok_bytes (TL_set_client_DH_params_encrypted_data x)"

definition TL_set_client_DH_params_wire :: "TL_set_client_DH_params \<Rightarrow> byte list" where
  "TL_set_client_DH_params_wire x = int_bytes TL_set_client_DH_params_constructor @ TL_set_client_DH_params_params x"

lemma TL_set_client_DH_params_emits [emit_rules]: "TL_set_client_DH_params_wf x \<Longrightarrow> emits (TL_set_client_DH_params_serializeToStream x) (TL_set_client_DH_params_wire x)"
  unfolding TL_set_client_DH_params_serializeToStream_def TL_set_client_DH_params_wire_def TL_set_client_DH_params_params_def
  by (rule emits_eq, (rule emit_intros emit_rules | simp add: TL_set_client_DH_params_wf_def; fail)+)

definition TL_rpc_drop_answer_params :: "TL_rpc_drop_answer \<Rightarrow> byte list" where
  "TL_rpc_drop_answer_params x = long_bytes (TL_rpc_drop_answer_req_msg_id x)"

definition TL_rpc_drop_answer_wf :: "TL_rpc_drop_answer \<Rightarrow> bool" where
  "TL_rpc_drop_answer_wf x \<longleftrightarrow> True"

definition TL_rpc_drop_answer_wire :: "TL_rpc_drop_answer \<Rightarrow> byte list" where
  "TL_rpc_drop_answer_wire x = int_bytes TL_rpc_drop_answer_constructor @ TL_rpc_drop_answer_params x"

lemma TL_rpc_drop_answer_emits [emit_rules]: "TL_rpc_drop_answer_wf x \<Longrightarrow> emits (TL_rpc_drop_answer_serializeToStream x) (TL_rpc_drop_answer_wire x)"
  unfolding TL_rpc_drop_answer_serializeToStream_def TL_rpc_drop_answer_wire_def TL_rpc_drop_answer_params_def
  by (rule emits_eq, (rule emit_intros emit_rules | simp add: TL_rpc_drop_answer_wf_def; fail)+)

definition TL_get_future_salts_params :: "TL_get_future_salts \<Rightarrow> byte list" where
  "TL_get_future_salts_params x = int_bytes (TL_get_future_salts_num x)"

definition TL_get_future_salts_wf :: "TL_get_future_salts \<Rightarrow> bool" where
  "TL_get_future_salts_wf x \<longleftrightarrow> True"

definition TL_get_future_salts_wire :: "TL_get_future_salts \<Rightarrow> byte list" where
  "TL_get_future_salts_wire x = int_bytes TL_get_future_salts_constructor @ TL_get_future_salts_params x"

lemma TL_get_future_salts_emits [emit_rules]: "TL_get_future_salts_wf x \<Longrightarrow> emits (TL_get_future_salts_serializeToStream x) (TL_get_future_salts_wire x)"
  unfolding TL_get_future_salts_serializeToStream_def TL_get_future_salts_wire_def TL_get_future_salts_params_def
  by (rule emits_eq, (rule emit_intros emit_rules | simp add: TL_get_future_salts_wf_def; fail)+)

definition TL_ping_params :: "TL_ping \<Rightarrow> byte list" where
  "TL_ping_params x = long_bytes (TL_ping_ping_id x)"

definition TL_ping_wf :: "TL_ping \<Rightarrow> bool" where
  "TL_ping_wf x \<longleftrightarrow> True"

definition TL_ping_wire :: "TL_ping \<Rightarrow> byte list" where
  "TL_ping_wire x = int_bytes TL_ping_constructor @ TL_ping_params x"

lemma TL_ping_emits [emit_rules]: "TL_ping_wf x \<Longrightarrow> emits (TL_ping_serializeToStream x) (TL_ping_wire x)"
  unfolding TL_ping_serializeToStream_def TL_ping_wire_def TL_ping_params_def
  by (rule emits_eq, (rule emit_intros emit_rules | simp add: TL_ping_wf_def; fail)+)

definition TL_ping_delay_disconnect_params :: "TL_ping_delay_disconnect \<Rightarrow> byte list" where
  "TL_ping_delay_disconnect_params x = long_bytes (TL_ping_delay_disconnect_ping_id x) @
     int_bytes (TL_ping_delay_disconnect_disconnect_delay x)"

definition TL_ping_delay_disconnect_wf :: "TL_ping_delay_disconnect \<Rightarrow> bool" where
  "TL_ping_delay_disconnect_wf x \<longleftrightarrow> True"

definition TL_ping_delay_disconnect_wire :: "TL_ping_delay_disconnect \<Rightarrow> byte list" where
  "TL_ping_delay_disconnect_wire x = int_bytes TL_ping_delay_disconnect_constructor @ TL_ping_delay_disconnect_params x"

lemma TL_ping_delay_disconnect_emits [emit_rules]: "TL_ping_delay_disconnect_wf x \<Longrightarrow> emits (TL_ping_delay_disconnect_serializeToStream x) (TL_ping_delay_disconnect_wire x)"
  unfolding TL_ping_delay_disconnect_serializeToStream_def TL_ping_delay_disconnect_wire_def TL_ping_delay_disconnect_params_def
  by (rule emits_eq, (rule emit_intros emit_rules | simp add: TL_ping_delay_disconnect_wf_def; fail)+)

definition TL_destroy_session_params :: "TL_destroy_session \<Rightarrow> byte list" where
  "TL_destroy_session_params x = long_bytes (TL_destroy_session_session_id x)"

definition TL_destroy_session_wf :: "TL_destroy_session \<Rightarrow> bool" where
  "TL_destroy_session_wf x \<longleftrightarrow> True"

definition TL_destroy_session_wire :: "TL_destroy_session \<Rightarrow> byte list" where
  "TL_destroy_session_wire x = int_bytes TL_destroy_session_constructor @ TL_destroy_session_params x"

lemma TL_destroy_session_emits [emit_rules]: "TL_destroy_session_wf x \<Longrightarrow> emits (TL_destroy_session_serializeToStream x) (TL_destroy_session_wire x)"
  unfolding TL_destroy_session_serializeToStream_def TL_destroy_session_wire_def TL_destroy_session_params_def
  by (rule emits_eq, (rule emit_intros emit_rules | simp add: TL_destroy_session_wf_def; fail)+)

definition TL_error_params :: "TL_error \<Rightarrow> byte list" where
  "TL_error_params x = int_bytes (TL_error_code x) @
     tl_bytes (TL_error_text x)"

definition TL_error_wf :: "TL_error \<Rightarrow> bool" where
  "TL_error_wf x \<longleftrightarrow> length (TL_error_text x) < 2 ^ 24"

definition TL_error_wire :: "TL_error \<Rightarrow> byte list" where
  "TL_error_wire x = int_bytes TL_error_constructor @ TL_error_params x"

lemma TL_error_emits [emit_rules]: "TL_error_wf x \<Longrightarrow> emits (TL_error_serializeToStream x) (TL_error_wire x)"
  unfolding TL_error_serializeToStream_def TL_error_wire_def TL_error_params_def
  by (rule emits_eq, (rule emit_intros emit_rules | simp add: TL_error_wf_def; fail)+)

lemma TL_error_parses [parse_rules]: "TL_error_wf x \<Longrightarrow> parses (TL_error_readParams TL_error_new) (TL_error_params x) x"
  by (rule parses_nil, unfold TL_error_readParams_def TL_error_params_def Let_def append_assoc, 
    (rule parse_intros parse_rules | simp add: TL_error_wf_def TL_error_new_def; fail | rule TL_error.equality)+)

lemma TL_error_safe [safe_rules]: "safe (TL_error_readParams x)"
  unfolding TL_error_readParams_def Let_def by (intro safe_intros safe_rules)

lemma TL_error_reads: "TL_error_wf x \<Longrightarrow> parses (read_object TL_error_TLdeserialize) (TL_error_wire x) (Some x)"
  unfolding TL_error_wire_def TL_error_TLdeserialize_def [abs_def] by (rule parses_class) (rule TL_error_parses)

lemma TL_error_des_safe: "safe (TL_error_TLdeserialize c)"
  unfolding TL_error_TLdeserialize_def by (intro safe_intros safe_rules)

interpretation codec_TL_error: tl_codec TL_error_TLdeserialize TL_error_wire TL_error_wf TL_error_serializeToStream
  by unfold_locales (simp_all add: TL_error_reads TL_error_des_safe TL_error_emits)

lemmas TL_error_rules [emit_rules] = codec_TL_error.emits_ptr codec_TL_error.emits_list

lemmas TL_error_read_rules [parse_rules] = codec_TL_error.reads codec_TL_error.reads_ptr codec_TL_error.reads_list

lemmas TL_error_safe_rules [safe_rules] = codec_TL_error.safe_des codec_TL_error.safe_reads

definition TL_inputClientProxy_params :: "TL_inputClientProxy \<Rightarrow> byte list" where
  "TL_inputClientProxy_params x = tl_bytes (TL_inputClientProxy_address x) @
     int_bytes (TL_inputClientProxy_port x)"

definition TL_inputClientProxy_wf :: "TL_inputClientProxy \<Rightarrow> bool" where
  "TL_inputClientProxy_wf x \<longleftrightarrow> length (TL_inputClientProxy_address x) < 2 ^ 24"

definition TL_inputClientProxy_wire :: "TL_inputClientProxy \<Rightarrow> byte list" where
  "TL_inputClientProxy_wire x = int_bytes TL_inputClientProxy_constructor @ TL_inputClientProxy_params x"

lemma TL_inputClientProxy_emits [emit_rules]: "TL_inputClientProxy_wf x \<Longrightarrow> emits (TL_inputClientProxy_serializeToStream x) (TL_inputClientProxy_wire x)"
  unfolding TL_inputClientProxy_serializeToStream_def TL_inputClientProxy_wire_def TL_inputClientProxy_params_def
  by (rule emits_eq, (rule emit_intros emit_rules | simp add: TL_inputClientProxy_wf_def; fail)+)

lemma IpPort_des_safe [safe_rules]: "safe (IpPort_TLdeserialize c)"
  unfolding IpPort_TLdeserialize_def TL_ipPort_readParams_def TL_ipPortSecret_readParams_def Let_def
  by (intro safe_intros safe_rules)

lemma TL_accessPointRule_safe [safe_rules]: "safe (TL_accessPointRule_readParams x)"
  unfolding TL_accessPointRule_readParams_def Let_def by (intro safe_intros safe_rules)

lemma TL_help_configSimple_safe [safe_rules]: "safe (TL_help_configSimple_readParams x)"
  unfolding TL_help_configSimple_readParams_def Let_def by (intro safe_intros safe_rules)

lemma TL_help_configSimple_des_safe [safe_rules]: "safe (TL_help_configSimple_TLdeserialize c)"
  unfolding TL_help_configSimple_TLdeserialize_def by (intro safe_intros safe_rules)

end
