(* ===== verification/Object_Codec.thy ===== *)
theory Object_Codec
  imports TL_Objects Scheme_Codec
begin

unbundle bit_operations_syntax

section \<open>Sizes and encodings of the objects that are sent\<close>

text \<open>
  For every object of the sending side, queries inside queries and messages inside containers included, the bytes it is
  on the wire and when it is complete; \<open>serializeToStream\<close> writes exactly these bytes, and \<open>getObjectSize\<close>
  is their number.
\<close>

subsection \<open>Buffers inside objects\<close>

definition whole :: "NativeByteBuffer \<Rightarrow> byte list" where
  "whole src = take (unat (nb_limit src)) (nb_buffer src)"

definition buffer_fits :: "NativeByteBuffer \<Rightarrow> bool" where
  "buffer_fits src \<longleftrightarrow> nbb_ok src \<and> unat (nb_limit src) < 2 ^ 24"

lemma emits_cong: "(\<And>b. f b = g b) \<Longrightarrow> emits g xs \<Longrightarrow> emits f xs"
  by (simp add: emits_def)

lemma emits_writeByteArray_buffer_ptr [emit_rules]:
  assumes "ok_ptr buffer_fits p"
  shows "emits (writeByteArray_buffer_ptr p) (of_ptr (\<lambda>src. tl_bytes (whole src)) p)"
proof -
  obtain src where p: "p = Some src" and src: "nbb_ok src" "unat (nb_limit src) < 2 ^ 24"
    using assms by (auto simp: ok_ptr_def buffer_fits_def split: option.splits)
  have "emitsE (writeByteArrayE (nb_buffer src) 0 (nb_limit src)) (tl_bytes (whole src))"
    using emits_writeByteArrayE [of 0 "unat (nb_limit src)" "nb_buffer src"] src nbb_okD(4) [OF src(1)]
    by (simp add: whole_def)
  from emits_no_error [OF this] show ?thesis
    unfolding p of_ptr_def option.case
    by (rule emits_cong [rotated])
      (auto simp: writeByteArray_buffer_ptr_def writeByteArray_buffer_def writeByteArray_bufferE_def rewind_def no_error_def
        split: Option.bind_splits)
qed

lemma emits_TL_api_request [emit_rules]:
  assumes "ok_ptr nbb_ok p"
  shows "emits (TL_api_request_serializeToStream p) (of_ptr whole p)"
proof -
  obtain src where p: "p = Some src" and src: "nbb_ok src"
    using assms by (auto simp: ok_ptr_def split: option.splits)
  note d = nbb_okD [OF src]
  have sl: "slice (nb_buffer src) 0 (uint (nb_limit src)) = Some (whole src)"
    using d slice_uint [of "nb_buffer src" 0 "nb_limit src"] by (simp add: whole_def)
  have "emits (writeBytes (whole src) 0 (nb_limit src)) (whole src)"
    using emits_no_error [OF emits_writeBytesE [of 0 "nb_limit src" "whole src"]] d by (simp add: writeBytes_def whole_def)
  moreover have "nb_limit src = 0 \<Longrightarrow> whole src = []" by (simp add: whole_def)
  moreover have "TL_api_request_serializeToStream p b =
      (if nb_limit src = 0 then Some b else writeBytes (whole src) 0 (nb_limit src) b)" for b
    using sl by (auto simp: p TL_api_request_serializeToStream_def writeBytes_buffer_def writeBytes_bufferE_def rewind_def
        writeBytes_def writeBytesE_def no_error_def Let_def split: Option.bind_splits)
  ultimately show ?thesis
    unfolding p of_ptr_def option.case
    by (cases "nb_limit src = 0") (auto intro: emits_cong [rotated] emits_Some)
qed

definition TL_auth_bindTempAuthKey_wire :: "TL_auth_bindTempAuthKey \<Rightarrow> byte list" where
  "TL_auth_bindTempAuthKey_wire x = int_bytes TL_auth_bindTempAuthKey_constructor @
     long_bytes (TL_auth_bindTempAuthKey_perm_auth_key_id x) @ long_bytes (TL_auth_bindTempAuthKey_nonce x) @
     int_bytes (TL_auth_bindTempAuthKey_expires_at x) @
     of_ptr (\<lambda>src. tl_bytes (whole src)) (TL_auth_bindTempAuthKey_encrypted_message x)"

definition TL_auth_bindTempAuthKey_wf :: "TL_auth_bindTempAuthKey \<Rightarrow> bool" where
  "TL_auth_bindTempAuthKey_wf x \<longleftrightarrow> ok_ptr buffer_fits (TL_auth_bindTempAuthKey_encrypted_message x)"

lemma TL_auth_bindTempAuthKey_emits [emit_rules]:
  "TL_auth_bindTempAuthKey_wf x \<Longrightarrow> emits (TL_auth_bindTempAuthKey_serializeToStream x) (TL_auth_bindTempAuthKey_wire x)"
  unfolding TL_auth_bindTempAuthKey_serializeToStream_def TL_auth_bindTempAuthKey_wire_def
  by (rule emits_eq, (rule emit_intros emit_rules | simp add: TL_auth_bindTempAuthKey_wf_def; fail)+)

fun TL_request_wire :: "TL_request \<Rightarrow> byte list" where
  "TL_request_wire (R_TL_req_pq x) = TL_req_pq_wire x"
| "TL_request_wire (R_TL_req_pq_multi x) = TL_req_pq_multi_wire x"
| "TL_request_wire (R_TL_req_DH_params x) = TL_req_DH_params_wire x"
| "TL_request_wire (R_TL_set_client_DH_params x) = TL_set_client_DH_params_wire x"
| "TL_request_wire (R_TL_rpc_drop_answer x) = TL_rpc_drop_answer_wire x"
| "TL_request_wire (R_TL_get_future_salts x) = TL_get_future_salts_wire x"
| "TL_request_wire (R_TL_ping x) = TL_ping_wire x"
| "TL_request_wire (R_TL_ping_delay_disconnect x) = TL_ping_delay_disconnect_wire x"
| "TL_request_wire (R_TL_destroy_session x) = TL_destroy_session_wire x"
| "TL_request_wire (R_TL_auth_bindTempAuthKey x) = TL_auth_bindTempAuthKey_wire x"
| "TL_request_wire (R_TL_auth_dropTempAuthKeys x) = TL_auth_dropTempAuthKeys_wire x"
| "TL_request_wire R_TL_help_getConfig = TL_help_getConfig_wire"
| "TL_request_wire R_TL_help_getCdnConfig = TL_help_getCdnConfig_wire"
| "TL_request_wire (R_TL_auth_exportAuthorization x) = TL_auth_exportAuthorization_wire x"
| "TL_request_wire (R_TL_auth_importAuthorization x) = TL_auth_importAuthorization_wire x"
| "TL_request_wire (R_TL_auth_sendCode x) = TL_auth_sendCode_wire x"
| "TL_request_wire (R_TL_upload_saveFilePart x) = TL_upload_saveFilePart_wire x"
| "TL_request_wire (R_TL_upload_getFile x) = TL_upload_getFile_wire x"

fun TL_request_wf :: "TL_request \<Rightarrow> bool" where
  "TL_request_wf (R_TL_req_pq x) = TL_req_pq_wf x"
| "TL_request_wf (R_TL_req_pq_multi x) = TL_req_pq_multi_wf x"
| "TL_request_wf (R_TL_req_DH_params x) = TL_req_DH_params_wf x"
| "TL_request_wf (R_TL_set_client_DH_params x) = TL_set_client_DH_params_wf x"
| "TL_request_wf (R_TL_rpc_drop_answer x) = TL_rpc_drop_answer_wf x"
| "TL_request_wf (R_TL_get_future_salts x) = TL_get_future_salts_wf x"
| "TL_request_wf (R_TL_ping x) = TL_ping_wf x"
| "TL_request_wf (R_TL_ping_delay_disconnect x) = TL_ping_delay_disconnect_wf x"
| "TL_request_wf (R_TL_destroy_session x) = TL_destroy_session_wf x"
| "TL_request_wf (R_TL_auth_bindTempAuthKey x) = TL_auth_bindTempAuthKey_wf x"
| "TL_request_wf (R_TL_auth_dropTempAuthKeys x) = TL_auth_dropTempAuthKeys_wf x"
| "TL_request_wf R_TL_help_getConfig = True"
| "TL_request_wf R_TL_help_getCdnConfig = True"
| "TL_request_wf (R_TL_auth_exportAuthorization x) = TL_auth_exportAuthorization_wf x"
| "TL_request_wf (R_TL_auth_importAuthorization x) = TL_auth_importAuthorization_wf x"
| "TL_request_wf (R_TL_auth_sendCode x) = TL_auth_sendCode_wf x"
| "TL_request_wf (R_TL_upload_saveFilePart x) = TL_upload_saveFilePart_wf x"
| "TL_request_wf (R_TL_upload_getFile x) = TL_upload_getFile_wf x"

fun TL_payload_wire :: "TL_payload \<Rightarrow> byte list" where
  "TL_payload_wire (P_TL_p_q_inner_data x) = TL_p_q_inner_data_wire x"
| "TL_payload_wire (P_TL_p_q_inner_data_dc x) = TL_p_q_inner_data_dc_wire x"
| "TL_payload_wire (P_TL_p_q_inner_data_temp x) = TL_p_q_inner_data_temp_wire x"
| "TL_payload_wire (P_TL_p_q_inner_data_temp_dc x) = TL_p_q_inner_data_temp_dc_wire x"
| "TL_payload_wire (P_TL_bind_auth_key_inner x) = TL_bind_auth_key_inner_wire x"
| "TL_payload_wire (P_TL_client_DH_inner_data x) = TL_client_DH_inner_data_wire x"
| "TL_payload_wire (P_TL_msgs_state_info x) = TL_msgs_state_info_wire x"
| "TL_payload_wire (P_TL_msgs_state_req x) = TL_msgs_state_req_wire x"
| "TL_payload_wire (P_TL_msg_resend_req x) = TL_msg_resend_req_wire x"

fun TL_payload_wf :: "TL_payload \<Rightarrow> bool" where
  "TL_payload_wf (P_TL_p_q_inner_data x) = TL_p_q_inner_data_wf x"
| "TL_payload_wf (P_TL_p_q_inner_data_dc x) = TL_p_q_inner_data_dc_wf x"
| "TL_payload_wf (P_TL_p_q_inner_data_temp x) = TL_p_q_inner_data_temp_wf x"
| "TL_payload_wf (P_TL_p_q_inner_data_temp_dc x) = TL_p_q_inner_data_temp_dc_wf x"
| "TL_payload_wf (P_TL_bind_auth_key_inner x) = TL_bind_auth_key_inner_wf x"
| "TL_payload_wf (P_TL_client_DH_inner_data x) = TL_client_DH_inner_data_wf x"
| "TL_payload_wf (P_TL_msgs_state_info x) = TL_msgs_state_info_wf x"
| "TL_payload_wf (P_TL_msgs_state_req x) = TL_msgs_state_req_wf x"
| "TL_payload_wf (P_TL_msg_resend_req x) = TL_msg_resend_req_wf x"

lemma TL_request_emits [emit_rules]: "TL_request_wf x \<Longrightarrow> emits (TL_request_serializeToStream x) (TL_request_wire x)"
  by (cases x) (simp_all add: TL_req_pq_emits TL_req_pq_multi_emits TL_req_DH_params_emits TL_set_client_DH_params_emits TL_rpc_drop_answer_emits TL_get_future_salts_emits TL_ping_emits TL_ping_delay_disconnect_emits TL_destroy_session_emits TL_auth_bindTempAuthKey_emits TL_auth_dropTempAuthKeys_emits TL_help_getConfig_emits TL_help_getCdnConfig_emits TL_auth_exportAuthorization_emits TL_auth_importAuthorization_emits TL_auth_sendCode_emits TL_upload_saveFilePart_emits TL_upload_getFile_emits)

lemma TL_payload_emits [emit_rules]: "TL_payload_wf x \<Longrightarrow> emits (TL_payload_serializeToStream x) (TL_payload_wire x)"
  by (cases x) (simp_all add: TL_p_q_inner_data_emits TL_p_q_inner_data_dc_emits TL_p_q_inner_data_temp_emits TL_p_q_inner_data_temp_dc_emits TL_bind_auth_key_inner_emits TL_client_DH_inner_data_emits TL_msgs_state_info_emits TL_msgs_state_req_emits TL_msg_resend_req_emits)

subsection \<open>Objects that hold objects\<close>

definition initConnection_wire :: "initConnection_fields \<Rightarrow> byte list" where
  "initConnection_wire x = int_bytes initConnection_constructor @ int_bytes (initConnection_flags x) @
     int_bytes (initConnection_api_id x) @
     (if initConnection_flags x AND 2 \<noteq> 0 then tl_bytes (initConnection_api_hash x) else []) @
     tl_bytes (initConnection_device_model x) @ tl_bytes (initConnection_system_version x) @
     tl_bytes (initConnection_app_version x) @ tl_bytes (initConnection_system_lang_code x) @
     tl_bytes (initConnection_lang_pack x) @ tl_bytes (initConnection_lang_code x) @
     (if initConnection_flags x AND 1 \<noteq> 0 then of_ptr TL_inputClientProxy_wire (initConnection_proxy x) else [])"

definition initConnection_wf :: "initConnection_fields \<Rightarrow> bool" where
  "initConnection_wf x \<longleftrightarrow>
     (initConnection_flags x AND 2 \<noteq> 0 \<longrightarrow> length (initConnection_api_hash x) < 2 ^ 24) \<and>
     length (initConnection_device_model x) < 2 ^ 24 \<and> length (initConnection_system_version x) < 2 ^ 24 \<and>
     length (initConnection_app_version x) < 2 ^ 24 \<and> length (initConnection_system_lang_code x) < 2 ^ 24 \<and>
     length (initConnection_lang_pack x) < 2 ^ 24 \<and> length (initConnection_lang_code x) < 2 ^ 24 \<and>
     (initConnection_flags x AND 1 \<noteq> 0 \<longrightarrow> ok_ptr TL_inputClientProxy_wf (initConnection_proxy x))"

lemma emits_TL_inputClientProxy_ptr [emit_rules]:
  "ok_ptr TL_inputClientProxy_wf p \<Longrightarrow> emits (call_ptr TL_inputClientProxy_serializeToStream p) (of_ptr TL_inputClientProxy_wire p)"
  by (erule emits_call_ptr) (rule TL_inputClientProxy_emits)

lemma initConnection_emits [emit_rules]: "initConnection_wf x \<Longrightarrow> emits (initConnection_head x) (initConnection_wire x)"
  unfolding initConnection_head_def initConnection_wire_def
  by (rule emits_eq, (rule emit_intros emit_rules | simp add: initConnection_wf_def; fail)+)

text \<open>What an object of the sending side puts on the wire, and when it is complete.\<close>

fun TLObject_wire :: "TLObject \<Rightarrow> byte list" and TL_message_wire :: "TL_message \<Rightarrow> byte list" where
  "TLObject_wire (O_request x) = TL_request_wire x"
| "TLObject_wire (O_payload x) = TL_payload_wire x"
| "TLObject_wire (O_incoming x) = (case x of I_TL_msgs_ack y \<Rightarrow> TL_msgs_ack_wire y | I_TL_error y \<Rightarrow> TL_error_wire y | _ \<Rightarrow> [])"
| "TLObject_wire (O_TL_api_request p) = of_ptr whole p"
| "TLObject_wire (O_TL_gzip_packed p q r) = int_bytes TL_gzip_packed_constructor @ of_ptr (\<lambda>src. tl_bytes (whole src)) p"
| "TLObject_wire (O_TL_msg_container ms) =
     int_bytes TL_msg_container_constructor @ int_bytes (word_of_nat (length ms)) @ concat (map TL_message_wire ms)"
| "TLObject_wire (O_TL_msg_copy p) =
     int_bytes TL_msg_copy_constructor @ (case p of None \<Rightarrow> [] | Some m \<Rightarrow> TL_message_wire m)"
| "TLObject_wire (O_TL_message m) = TL_message_wire m"
| "TLObject_wire (O_TL_invokeAfterMsg msg_id p q) = int_bytes TL_invokeAfterMsg_constructor @ long_bytes msg_id @
     (case p of Some x \<Rightarrow> TLObject_wire x | None \<Rightarrow> (case q of None \<Rightarrow> [] | Some x \<Rightarrow> TLObject_wire x))"
| "TLObject_wire (O_invokeWithLayer layer q) = int_bytes invokeWithLayer_constructor @ int_bytes layer @
     (case q of None \<Rightarrow> [] | Some x \<Rightarrow> TLObject_wire x)"
| "TLObject_wire (O_initConnection y q) = initConnection_wire y @ (case q of None \<Rightarrow> [] | Some x \<Rightarrow> TLObject_wire x)"
| "TLObject_wire x = []"
| "TL_message_wire (TL_message msg_id seqno bytes body outgoingBody unparsedBody) =
     long_bytes msg_id @ int_bytes seqno @ int_bytes bytes @
     (case outgoingBody of Some x \<Rightarrow> TLObject_wire x | None \<Rightarrow> (case body of None \<Rightarrow> [] | Some x \<Rightarrow> TLObject_wire x))"

fun TLObject_wf :: "TLObject \<Rightarrow> bool" and TL_message_wf :: "TL_message \<Rightarrow> bool" where
  "TLObject_wf (O_request x) = TL_request_wf x"
| "TLObject_wf (O_payload x) = TL_payload_wf x"
| "TLObject_wf (O_incoming x) = (case x of I_TL_msgs_ack y \<Rightarrow> TL_msgs_ack_wf y | I_TL_error y \<Rightarrow> TL_error_wf y | _ \<Rightarrow> False)"
| "TLObject_wf (O_TL_api_request p) = ok_ptr nbb_ok p"
| "TLObject_wf (O_TL_gzip_packed p q r) = ok_ptr buffer_fits p"
| "TLObject_wf (O_TL_msg_container ms) = (length ms < 2 ^ 31 \<and> list_all TL_message_wf ms)"
| "TLObject_wf (O_TL_msg_copy p) = (case p of None \<Rightarrow> False | Some m \<Rightarrow> TL_message_wf m)"
| "TLObject_wf (O_TL_message m) = TL_message_wf m"
| "TLObject_wf (O_TL_invokeAfterMsg msg_id p q) =
     (case p of Some x \<Rightarrow> TLObject_wf x | None \<Rightarrow> (case q of None \<Rightarrow> False | Some x \<Rightarrow> TLObject_wf x))"
| "TLObject_wf (O_invokeWithLayer layer q) = (case q of None \<Rightarrow> False | Some x \<Rightarrow> TLObject_wf x)"
| "TLObject_wf (O_initConnection y q) = (initConnection_wf y \<and> (case q of None \<Rightarrow> False | Some x \<Rightarrow> TLObject_wf x))"
| "TLObject_wf x = False"
| "TL_message_wf (TL_message msg_id seqno bytes body outgoingBody unparsedBody) =
     (case outgoingBody of Some x \<Rightarrow> TLObject_wf x | None \<Rightarrow> (case body of None \<Rightarrow> False | Some x \<Rightarrow> TLObject_wf x))"

lemma emits_pointer:
  assumes "(case q of None \<Rightarrow> False | Some x \<Rightarrow> P x)" and "\<And>x. q = Some x \<Longrightarrow> P x \<Longrightarrow> emits (serializeToStream x) (e x)"
  shows "emits (pointer_serializeToStream q) (case q of None \<Rightarrow> [] | Some x \<Rightarrow> e x)"
proof (cases q)
  case (Some x)
  have "emits (serializeToStream x) (e x)" using assms Some by simp
  then show ?thesis unfolding Some option.case by (rule emits_cong [rotated]) simp
qed (use assms(1) in simp)

lemma emits_choice:
  assumes "(case p of Some x \<Rightarrow> P x | None \<Rightarrow> (case q of None \<Rightarrow> False | Some x \<Rightarrow> P x))"
    and "\<And>x. p = Some x \<or> q = Some x \<Longrightarrow> P x \<Longrightarrow> emits (serializeToStream x) (e x)"
  shows "emits (\<lambda>b. case p of Some x \<Rightarrow> serializeToStream x b | None \<Rightarrow> pointer_serializeToStream q b)
    (case p of Some x \<Rightarrow> e x | None \<Rightarrow> (case q of None \<Rightarrow> [] | Some x \<Rightarrow> e x))"
  using assms by (cases p) (auto intro!: emits_pointer)

lemma emits_messages:
  assumes "\<And>m. m \<in> set ms \<Longrightarrow> emits (TL_message_serializeToStream m) (TL_message_wire m)"
  shows "emits (messages_serializeToStream (length ms) ms) (concat (map TL_message_wire ms))"
  using assms
proof (induction ms)
  case Nil
  show ?case using emits_Some by (simp add: emits_def)
next
  case (Cons m ms)
  have "emits (\<lambda>b. Option.bind (TL_message_serializeToStream m b) (messages_serializeToStream (length ms) ms))
      (TL_message_wire m @ concat (map TL_message_wire ms))"
    using Cons by (intro emits_bind) simp_all
  then show ?case by (simp add: emits_def)
qed

lemma serializeToStream_emits:
  "TLObject_wf x \<Longrightarrow> emits (serializeToStream x) (TLObject_wire x)"
  "TL_message_wf m \<Longrightarrow> emits (TL_message_serializeToStream m) (TL_message_wire m)"
proof (induction x and m)
  case (O_request x)
  then have "emits (TL_request_serializeToStream x) (TL_request_wire x)" by (simp add: TL_request_emits)
  then show ?case by (simp add: emits_def)
next
  case (O_payload x)
  then have "emits (TL_payload_serializeToStream x) (TL_payload_wire x)" by (simp add: TL_payload_emits)
  then show ?case by (simp add: emits_def)
next
  case (O_incoming x)
  then have "emits (TL_incoming_serializeToStream x) (TLObject_wire (O_incoming x))"
    by (cases x) (simp_all add: TL_msgs_ack_emits TL_error_emits)
  then show ?case by (simp add: emits_def)
next
  case (O_TL_api_request p)
  then have "emits (TL_api_request_serializeToStream p) (of_ptr whole p)" by (simp add: emits_TL_api_request)
  then show ?case by (simp add: emits_def)
next
  case (O_TL_gzip_packed p q r)
  then have "emits (TL_gzip_packed_serializeToStream p) (TLObject_wire (O_TL_gzip_packed p q r))"
    unfolding TL_gzip_packed_serializeToStream_def TLObject_wire.simps
    by (intro emits_eq [OF emits_bind [OF emits_writeInt32 emits_bind [OF emits_writeByteArray_buffer_ptr emits_Some]]]) simp_all
  then show ?case by (simp add: emits_def)
next
  case (O_TL_msg_container ms)
  then have len: "length ms < 2 ^ 31" and ms: "\<And>m. m \<in> set ms \<Longrightarrow> emits (TL_message_serializeToStream m) (TL_message_wire m)"
    by (auto simp: list_all_iff)
  have "emits (\<lambda>b. Option.bind (writeInt32 TL_msg_container_constructor b)
      (\<lambda>b. Option.bind (writeInt32 (word_of_nat (length ms)) b) (messages_serializeToStream (length ms) ms)))
      (TLObject_wire (O_TL_msg_container ms))"
    unfolding TLObject_wire.simps by (intro emits_bind emits_writeInt32 emits_messages ms)
  moreover have "unat (word_of_nat (length ms) :: u32) = length ms" by (rule unat_len [OF len])
  ultimately show ?case by (elim emits_cong [rotated]) (simp add: Let_def)
next
  case (O_TL_msg_copy p)
  then obtain m where m: "p = Some m" "TL_message_wf m" by (auto split: option.splits)
  then have "emits (\<lambda>b. Option.bind (writeInt32 TL_msg_copy_constructor b) (TL_message_serializeToStream m))
      (TLObject_wire (O_TL_msg_copy p))"
    using O_TL_msg_copy.IH by (auto intro!: emits_bind emits_writeInt32)
  then show ?case by (rule emits_cong [rotated]) (simp add: m)
next
  case (O_TL_message m)
  then show ?case by (simp add: emits_def)
next
  case (O_TL_invokeAfterMsg i p q)
  have "emits (\<lambda>b. Option.bind (writeInt32 TL_invokeAfterMsg_constructor b) (\<lambda>b. Option.bind (writeInt64 i b)
      (\<lambda>b. case p of Some x \<Rightarrow> serializeToStream x b | None \<Rightarrow> pointer_serializeToStream q b)))
      (TLObject_wire (O_TL_invokeAfterMsg i p q))"
    unfolding TLObject_wire.simps using O_TL_invokeAfterMsg
    by (intro emits_bind emits_writeInt32 emits_writeInt64 emits_choice [where P = TLObject_wf]) auto
  then show ?case by (rule emits_cong [rotated]) simp
next
  case (O_invokeWithLayer l q)
  have "emits (\<lambda>b. Option.bind (writeInt32 invokeWithLayer_constructor b) (\<lambda>b. Option.bind (writeInt32 l b)
      (pointer_serializeToStream q))) (TLObject_wire (O_invokeWithLayer l q))"
    unfolding TLObject_wire.simps using O_invokeWithLayer
    by (intro emits_bind emits_writeInt32 emits_pointer [where P = TLObject_wf]) auto
  then show ?case by (rule emits_cong [rotated]) simp
next
  case (O_initConnection y q)
  have "emits (\<lambda>b. Option.bind (initConnection_head y b) (pointer_serializeToStream q)) (TLObject_wire (O_initConnection y q))"
    unfolding TLObject_wire.simps using O_initConnection
    by (intro emits_bind initConnection_emits emits_pointer [where P = TLObject_wf]) auto
  then show ?case by (rule emits_cong [rotated]) simp
next
  case (TL_message i sq n p q u)
  have "emits (\<lambda>b. Option.bind (writeInt64 i b) (\<lambda>b. Option.bind (writeInt32 sq b) (\<lambda>b. Option.bind (writeInt32 n b)
      (\<lambda>b. case q of Some x \<Rightarrow> serializeToStream x b | None \<Rightarrow> pointer_serializeToStream p b))))
      (TL_message_wire (TL_message i sq n p q u))"
    unfolding TL_message_wire.simps using TL_message
    by (intro emits_bind emits_writeInt32 emits_writeInt64 emits_choice [where P = TLObject_wf]) auto
  then show ?case by (rule emits_cong [rotated]) simp
qed simp_all

text \<open>C7. Size and serialisation agree for every complete object of the sending side, however deeply queries and
  messages nest: \<open>getObjectSize\<close> returns the number of bytes of its encoding, and writing it to a fresh buffer of
  that size fills the buffer exactly with the encoding.  With less room nothing outside the buffer is written.\<close>

theorem getObjectSize_exact:
  assumes "TLObject_wf x" and "nb_calculateSizeOnly calc" and "length (TLObject_wire x) < 2 ^ 31"
  shows "(\<exists>calc'. getObjectSize (serializeToStream x) calc = Some (word_of_nat (length (TLObject_wire x)), calc')) \<and>
    (\<exists>b. serializeToStream x (NativeByteBuffer_alloc E (word_of_nat (length (TLObject_wire x)))) = Some b \<and>
       nb_buffer b = TLObject_wire x \<and> nb_position b = nb_limit b) \<and>
    (\<forall>n. unat n < 2 ^ 31 \<longrightarrow> (\<exists>b. serializeToStream x (NativeByteBuffer_alloc E n) = Some b \<and> nbb_ok b \<and>
       length (nb_buffer b) = unat n))"
proof -
  let ?w = "TLObject_wire x" and ?n = "word_of_nat (length (TLObject_wire x)) :: u32"
  have e: "emits (serializeToStream x) ?w" using serializeToStream_emits(1) [OF assms(1)] .
  have n: "unat ?n = length ?w" using assms(3) by (rule unat_len)
  have "getObjectSize (serializeToStream x) calc = Some (?n, nb_grow ?n (clearCapacity calc))"
    using e assms(2) by (simp add: getObjectSize_def emits_def clearCapacity_def nb_grow_def)
  moreover have "serializeToStream x (NativeByteBuffer_alloc E ?n) = Some (wrote ?w (NativeByteBuffer_alloc E ?n))"
    using e alloc_ok [of ?n E] n assms(3) by (simp add: emits_def)
  moreover have "nb_buffer (wrote ?w (NativeByteBuffer_alloc E ?n)) = ?w"
    "nb_position (wrote ?w (NativeByteBuffer_alloc E ?n)) = nb_limit (wrote ?w (NativeByteBuffer_alloc E ?n))"
    using n by (simp_all add: wrote_def put_at_def NativeByteBuffer_alloc_def)
  moreover have "\<exists>b. serializeToStream x (NativeByteBuffer_alloc E k) = Some b \<and> nbb_ok b \<and> length (nb_buffer b) = unat k"
    if k: "unat k < 2 ^ 31" for k
  proof -
    obtain b where "serializeToStream x (NativeByteBuffer_alloc E k) = Some b" "nbb_ok b" "kept (NativeByteBuffer_alloc E k) b"
      using e alloc_ok [OF k, of E] unfolding emits_def by blast
    then show ?thesis by (auto simp: kept_def NativeByteBuffer_alloc_def)
  qed
  ultimately show ?thesis by blast
qed

definition demo_ping :: TLObject where
  "demo_ping = O_invokeWithLayer 105 (Some (O_request (R_TL_ping \<lparr>TL_ping_ping_id = 7\<rparr>)))"

theorem getObjectSize_exact_witness:
  "TLObject_wf demo_ping \<and> length (TLObject_wire demo_ping) = 20 \<and>
   (\<exists>calc'. getObjectSize (serializeToStream demo_ping) (NativeByteBuffer_calc True) = Some (20, calc'))"
proof -
  have w: "TLObject_wf demo_ping" "length (TLObject_wire demo_ping) = 20" "nb_calculateSizeOnly (NativeByteBuffer_calc True)"
    by (simp_all add: demo_ping_def TL_ping_wf_def TL_ping_wire_def TL_ping_params_def NativeByteBuffer_calc_def)
  then show ?thesis using getObjectSize_exact [OF w(1,3), of ample] by simp
qed

end
