(* ===== verification/Object_Reader.thy ===== *)
theory Object_Reader
  imports Object_Codec
begin

unbundle bit_operations_syntax

section \<open>What ConnectionsManager::TLdeserialize makes of a packet\<close>

text \<open>
  The encodings a server sends (service messages, answers, results and containers nested in each other) and that
  \<open>TLdeserialize\<close> recovers them; raw answers handed over as slices; safety of the answers' readers on any bytes;
  and a packet on which the reader calls itself without end.
\<close>

lemmas store_constructor_defs = TL_msgs_ack_constructor_def TL_msg_container_constructor_def TL_pong_constructor_def
  TL_new_session_created_constructor_def MsgsStateInfo_constructor_def TL_rpc_result_constructor_def
  TL_bad_msg_notification_constructor_def TL_bad_server_salt_constructor_def
  TL_msg_detailed_info_constructor_def TL_msg_new_detailed_info_constructor_def TL_gzip_packed_constructor_def
  TL_error_constructor_def TL_rpc_error_constructor_def TL_rpc_req_error_constructor_def
  TL_future_salts_constructor_def TL_destroy_session_ok_constructor_def TL_destroy_session_none_constructor_def
  TL_updatesTooLong_constructor_def

lemma TLClassStore_dispatch:
  "TLClassStore_TLdeserialize deserialize requests bytes TL_msgs_ack_constructor s =
     parsed (O_incoming \<circ> I_TL_msgs_ack) (TL_msgs_ack_readParams TL_msgs_ack_new s)"
  "TLClassStore_TLdeserialize deserialize requests bytes TL_msg_container_constructor s =
     parsed O_TL_msg_container (TL_msg_container_readParams deserialize s)"
  "TLClassStore_TLdeserialize deserialize requests bytes TL_pong_constructor s =
     parsed (O_incoming \<circ> I_TL_pong) (TL_pong_readParams TL_pong_new s)"
  "TLClassStore_TLdeserialize deserialize requests bytes TL_new_session_created_constructor s =
     parsed (O_incoming \<circ> I_TL_new_session_created) (TL_new_session_created_readParams TL_new_session_created_new s)"
  "TLClassStore_TLdeserialize deserialize requests bytes MsgsStateInfo_constructor s =
     parsed (O_incoming \<circ> I_MsgsStateInfo) (MsgsStateInfo_readParams MsgsStateInfo_new s)"
  "TLClassStore_TLdeserialize deserialize requests bytes TL_rpc_result_constructor s =
     parsed id (TL_rpc_result_readParamsEx deserialize requests bytes s)"
  "TLClassStore_TLdeserialize deserialize requests bytes TL_bad_msg_notification_constructor s =
     parsed (O_incoming \<circ> I_BadMsgNotification \<circ> TL_bad_msg_notification) (TL_bad_msg_notification_readParams BadMsgNotification_fields_new s)"
  "TLClassStore_TLdeserialize deserialize requests bytes TL_bad_server_salt_constructor s =
     parsed (O_incoming \<circ> I_BadMsgNotification \<circ> TL_bad_server_salt) (TL_bad_server_salt_readParams BadMsgNotification_fields_new s)"
  "TLClassStore_TLdeserialize deserialize requests bytes TL_msg_detailed_info_constructor s =
     parsed (O_incoming \<circ> I_MsgDetailedInfo \<circ> TL_msg_detailed_info) (TL_msg_detailed_info_readParams MsgDetailedInfo_fields_new s)"
  "TLClassStore_TLdeserialize deserialize requests bytes TL_msg_new_detailed_info_constructor s =
     parsed (O_incoming \<circ> I_MsgDetailedInfo \<circ> TL_msg_new_detailed_info) (TL_msg_new_detailed_info_readParams MsgDetailedInfo_fields_new s)"
  "TLClassStore_TLdeserialize deserialize requests bytes TL_gzip_packed_constructor s =
     parsed id (TL_gzip_packed_readParams s)"
  "TLClassStore_TLdeserialize deserialize requests bytes TL_error_constructor s =
     parsed (O_incoming \<circ> I_TL_error) (TL_error_readParams TL_error_new s)"
  "TLClassStore_TLdeserialize deserialize requests bytes TL_rpc_error_constructor s =
     parsed (O_incoming \<circ> I_RpcError \<circ> TL_rpc_error) (TL_rpc_error_readParams RpcError_fields_new s)"
  "TLClassStore_TLdeserialize deserialize requests bytes TL_rpc_req_error_constructor s =
     parsed (O_incoming \<circ> I_RpcError \<circ> TL_rpc_req_error) (TL_rpc_req_error_readParams RpcError_fields_new s)"
  "TLClassStore_TLdeserialize deserialize requests bytes TL_future_salts_constructor s =
     parsed (O_incoming \<circ> I_TL_future_salts) (TL_future_salts_readParams TL_future_salts_new s)"
  "TLClassStore_TLdeserialize deserialize requests bytes TL_destroy_session_ok_constructor s =
     parsed (O_incoming \<circ> I_DestroySessionRes \<circ> TL_destroy_session_ok) (TL_destroy_session_ok_readParams DestroySessionRes_fields_new s)"
  "TLClassStore_TLdeserialize deserialize requests bytes TL_destroy_session_none_constructor s =
     parsed (O_incoming \<circ> I_DestroySessionRes \<circ> TL_destroy_session_none) (TL_destroy_session_none_readParams DestroySessionRes_fields_new s)"
  "TLClassStore_TLdeserialize deserialize requests bytes TL_updatesTooLong_constructor s =
     Some (Some (O_incoming I_TL_updatesTooLong), s)"
  unfolding TLClassStore_TLdeserialize_def store_constructor_defs by simp_all

definition store_constructors :: "u32 list" where
  "store_constructors = [TL_msgs_ack_constructor, TL_msg_container_constructor, TL_pong_constructor,
     TL_new_session_created_constructor, MsgsStateInfo_constructor, TL_rpc_result_constructor,
     TL_bad_msg_notification_constructor, TL_bad_server_salt_constructor, TL_msg_detailed_info_constructor,
     TL_msg_new_detailed_info_constructor, TL_gzip_packed_constructor, TL_error_constructor,
     TL_rpc_error_constructor, TL_rpc_req_error_constructor, TL_future_salts_constructor,
     TL_destroy_session_ok_constructor, TL_destroy_session_none_constructor, TL_updatesTooLong_constructor]"

lemma TLClassStore_unknown:
  "c \<notin> set store_constructors \<Longrightarrow> TLClassStore_TLdeserialize deserialize requests bytes c s = Some (None, s)"
  by (simp add: TLClassStore_TLdeserialize_def store_constructors_def)

subsection \<open>What a server sends\<close>

fun TL_incoming_wire :: "TL_incoming \<Rightarrow> byte list" where
  "TL_incoming_wire (I_TL_msgs_ack x) = TL_msgs_ack_wire x"
| "TL_incoming_wire (I_TL_pong x) = TL_pong_wire x"
| "TL_incoming_wire (I_TL_new_session_created x) = TL_new_session_created_wire x"
| "TL_incoming_wire (I_MsgsStateInfo x) = MsgsStateInfo_wire x"
| "TL_incoming_wire (I_BadMsgNotification x) = BadMsgNotification_wire x"
| "TL_incoming_wire (I_MsgDetailedInfo x) = MsgDetailedInfo_wire x"
| "TL_incoming_wire (I_TL_error x) = TL_error_wire x"
| "TL_incoming_wire (I_RpcError x) = RpcError_wire x"
| "TL_incoming_wire (I_TL_future_salts x) = TL_future_salts_wire x"
| "TL_incoming_wire (I_DestroySessionRes x) = DestroySessionRes_wire x"
| "TL_incoming_wire (I_TL_resPQ x) = TL_resPQ_wire x"
| "TL_incoming_wire (I_Server_DH_Params x) = Server_DH_Params_wire x"
| "TL_incoming_wire (I_Set_client_DH_params_answer x) = Set_client_DH_params_answer_wire x"
| "TL_incoming_wire (I_RpcDropAnswer x) = RpcDropAnswer_wire x"
| "TL_incoming_wire (I_Bool x) = Bool_wire x"
| "TL_incoming_wire (I_TL_config x) = TL_config_wire x"
| "TL_incoming_wire (I_TL_cdnConfig x) = TL_cdnConfig_wire x"
| "TL_incoming_wire (I_TL_auth_exportedAuthorization x) = TL_auth_exportedAuthorization_wire x"
| "TL_incoming_wire (I_TL_auth_authorization x) = TL_auth_authorization_wire x"
| "TL_incoming_wire (I_auth_SentCode x) = auth_SentCode_wire x"
| "TL_incoming_wire I_TL_updatesTooLong = int_bytes TL_updatesTooLong_constructor"
| "TL_incoming_wire (I_TL_upload_file x) = []"

fun TL_incoming_wf :: "TL_incoming \<Rightarrow> bool" where
  "TL_incoming_wf (I_TL_msgs_ack x) = TL_msgs_ack_wf x"
| "TL_incoming_wf (I_TL_pong x) = TL_pong_wf x"
| "TL_incoming_wf (I_TL_new_session_created x) = TL_new_session_created_wf x"
| "TL_incoming_wf (I_MsgsStateInfo x) = MsgsStateInfo_wf x"
| "TL_incoming_wf (I_BadMsgNotification x) = BadMsgNotification_wf x"
| "TL_incoming_wf (I_MsgDetailedInfo x) = MsgDetailedInfo_wf x"
| "TL_incoming_wf (I_TL_error x) = TL_error_wf x"
| "TL_incoming_wf (I_RpcError x) = RpcError_wf x"
| "TL_incoming_wf (I_TL_future_salts x) = TL_future_salts_wf x"
| "TL_incoming_wf (I_DestroySessionRes x) = DestroySessionRes_wf x"
| "TL_incoming_wf (I_TL_resPQ x) = TL_resPQ_wf x"
| "TL_incoming_wf (I_Server_DH_Params x) = Server_DH_Params_wf x"
| "TL_incoming_wf (I_Set_client_DH_params_answer x) = Set_client_DH_params_answer_wf x"
| "TL_incoming_wf (I_RpcDropAnswer x) = RpcDropAnswer_wf x"
| "TL_incoming_wf (I_Bool x) = Bool_wf x"
| "TL_incoming_wf (I_TL_config x) = TL_config_wf x"
| "TL_incoming_wf (I_TL_cdnConfig x) = TL_cdnConfig_wf x"
| "TL_incoming_wf (I_TL_auth_exportedAuthorization x) = TL_auth_exportedAuthorization_wf x"
| "TL_incoming_wf (I_TL_auth_authorization x) = TL_auth_authorization_wf x"
| "TL_incoming_wf (I_auth_SentCode x) = auth_SentCode_wf x"
| "TL_incoming_wf I_TL_updatesTooLong = True"
| "TL_incoming_wf (I_TL_upload_file x) = False"

text \<open>Objects the class store knows without a request, and the answers of the requests.\<close>

fun is_service :: "TL_incoming \<Rightarrow> bool" where
  "is_service (I_TL_msgs_ack x) = True"
| "is_service (I_TL_pong x) = True"
| "is_service (I_TL_new_session_created x) = True"
| "is_service (I_MsgsStateInfo x) = True"
| "is_service (I_BadMsgNotification x) = True"
| "is_service (I_MsgDetailedInfo x) = True"
| "is_service (I_TL_error x) = True"
| "is_service (I_RpcError x) = True"
| "is_service (I_TL_future_salts x) = True"
| "is_service (I_DestroySessionRes x) = True"
| "is_service I_TL_updatesTooLong = True"
| "is_service x = False"

fun answers :: "TL_request \<Rightarrow> TL_incoming \<Rightarrow> bool" where
  "answers (R_TL_req_pq x) y = (case y of I_TL_resPQ z \<Rightarrow> True | _ \<Rightarrow> False)"
| "answers (R_TL_req_pq_multi x) y = (case y of I_TL_resPQ z \<Rightarrow> True | _ \<Rightarrow> False)"
| "answers (R_TL_req_DH_params x) y = (case y of I_Server_DH_Params z \<Rightarrow> True | _ \<Rightarrow> False)"
| "answers (R_TL_set_client_DH_params x) y = (case y of I_Set_client_DH_params_answer z \<Rightarrow> True | _ \<Rightarrow> False)"
| "answers (R_TL_rpc_drop_answer x) y = (case y of I_RpcDropAnswer z \<Rightarrow> True | _ \<Rightarrow> False)"
| "answers (R_TL_auth_bindTempAuthKey x) y = (case y of I_Bool z \<Rightarrow> True | _ \<Rightarrow> False)"
| "answers (R_TL_auth_dropTempAuthKeys x) y = (case y of I_Bool z \<Rightarrow> True | _ \<Rightarrow> False)"
| "answers R_TL_help_getConfig y = (case y of I_TL_config z \<Rightarrow> True | _ \<Rightarrow> False)"
| "answers R_TL_help_getCdnConfig y = (case y of I_TL_cdnConfig z \<Rightarrow> True | _ \<Rightarrow> False)"
| "answers (R_TL_auth_exportAuthorization x) y = (case y of I_TL_auth_exportedAuthorization z \<Rightarrow> True | _ \<Rightarrow> False)"
| "answers (R_TL_auth_importAuthorization x) y = (case y of I_TL_auth_authorization z \<Rightarrow> True | _ \<Rightarrow> False)"
| "answers (R_TL_auth_sendCode x) y = (case y of I_auth_SentCode z \<Rightarrow> True | _ \<Rightarrow> False)"
| "answers (R_TL_upload_saveFilePart x) y = (case y of I_Bool z \<Rightarrow> True | _ \<Rightarrow> False)"
| "answers r y = False"

lemma parses_store:
  assumes "parses f ps x" and "\<And>s. TLClassStore_TLdeserialize deserialize requests bytes c s = parsed k (f s)"
  shows "\<exists>c' ps'. int_bytes c @ ps = int_bytes c' @ ps' \<and>
    parses (TLClassStore_TLdeserialize deserialize requests bytes c') ps' (Some (k x))"
  by (rule exI [of _ c], rule exI [of _ ps], rule conjI [OF refl], rule parses_wrap [OF assms(1), where k = "\<lambda>x. Some (k x)"])
    (simp add: assms(2) parsed_def)

lemma parses_service:
  assumes "is_service x" and "TL_incoming_wf x"
  shows "\<exists>c ps. TL_incoming_wire x = int_bytes c @ ps \<and>
    parses (TLClassStore_TLdeserialize deserialize requests bytes c) ps (Some (O_incoming x))"
proof (cases x)
  case (I_TL_msgs_ack y)
  then show ?thesis using assms(2) parses_store [OF TL_msgs_ack_parses TLClassStore_dispatch(1)]
    by (simp add: TL_msgs_ack_wire_def)
next
  case (I_TL_pong y)
  then show ?thesis using assms(2) parses_store [OF TL_pong_parses TLClassStore_dispatch(3)]
    by (simp add: TL_pong_wire_def)
next
  case (I_TL_new_session_created y)
  then show ?thesis using assms(2) parses_store [OF TL_new_session_created_parses TLClassStore_dispatch(4)]
    by (simp add: TL_new_session_created_wire_def)
next
  case (I_MsgsStateInfo y)
  then show ?thesis using assms(2) parses_store [OF MsgsStateInfo_parses TLClassStore_dispatch(5)]
    by (simp add: MsgsStateInfo_wire_def)
next
  case (I_BadMsgNotification y)
  show ?thesis
  proof (cases y)
    case (TL_bad_msg_notification z)
    then show ?thesis using assms(2) parses_store [OF TL_bad_msg_notification_parses TLClassStore_dispatch(7)]
      by (simp add: I_BadMsgNotification)
  next
    case (TL_bad_server_salt z)
    then show ?thesis using assms(2) parses_store [OF TL_bad_server_salt_parses TLClassStore_dispatch(8)]
      by (simp add: I_BadMsgNotification)
  qed
next
  case (I_MsgDetailedInfo y)
  show ?thesis
  proof (cases y)
    case (TL_msg_detailed_info z)
    then show ?thesis using assms(2) parses_store [OF TL_msg_detailed_info_parses TLClassStore_dispatch(9)]
      by (simp add: I_MsgDetailedInfo)
  next
    case (TL_msg_new_detailed_info z)
    then show ?thesis using assms(2) parses_store [OF TL_msg_new_detailed_info_parses TLClassStore_dispatch(10)]
      by (simp add: I_MsgDetailedInfo)
  qed
next
  case (I_TL_error y)
  then show ?thesis using assms(2) parses_store [OF TL_error_parses TLClassStore_dispatch(12)]
    by (simp add: TL_error_wire_def)
next
  case (I_RpcError y)
  show ?thesis
  proof (cases y)
    case (TL_rpc_error z)
    then show ?thesis using assms(2) parses_store [OF TL_rpc_error_parses TLClassStore_dispatch(13)]
      by (simp add: I_RpcError)
  next
    case (TL_rpc_req_error z)
    then show ?thesis using assms(2) parses_store [OF TL_rpc_req_error_parses TLClassStore_dispatch(14)]
      by (simp add: I_RpcError)
  qed
next
  case (I_TL_future_salts y)
  then show ?thesis using assms(2) parses_store [OF TL_future_salts_parses TLClassStore_dispatch(15)]
    by (simp add: TL_future_salts_wire_def)
next
  case (I_DestroySessionRes y)
  show ?thesis
  proof (cases y)
    case (TL_destroy_session_ok z)
    then show ?thesis using assms(2) parses_store [OF TL_destroy_session_ok_parses TLClassStore_dispatch(16)]
      by (simp add: I_DestroySessionRes)
  next
    case (TL_destroy_session_none z)
    then show ?thesis using assms(2) parses_store [OF TL_destroy_session_none_parses TLClassStore_dispatch(17)]
      by (simp add: I_DestroySessionRes)
  qed
next
  case I_TL_updatesTooLong
  have "parses (TLClassStore_TLdeserialize deserialize requests bytes TL_updatesTooLong_constructor) []
      (Some (O_incoming I_TL_updatesTooLong))"
    by (rule parses_wrap0) (simp add: TLClassStore_dispatch)
  then show ?thesis unfolding I_TL_updatesTooLong TL_incoming_wire.simps by (metis append_Nil2)
qed (use assms(1) in simp_all)

lemmas answer_constructor_defs =
  TL_resPQ_constructor_def TL_config_constructor_def TL_cdnConfig_constructor_def
  TL_auth_exportedAuthorization_constructor_def TL_auth_authorization_constructor_def
  TL_server_DH_params_fail_constructor_def TL_server_DH_params_ok_constructor_def
  TL_dh_gen_retry_constructor_def TL_dh_gen_fail_constructor_def TL_dh_gen_ok_constructor_def
  TL_rpc_answer_unknown_constructor_def TL_rpc_answer_dropped_constructor_def
  TL_rpc_answer_dropped_running_constructor_def TL_boolTrue_constructor_def TL_boolFalse_constructor_def
  TL_auth_sentAppCode_constructor_def TL_auth_sentCode_constructor_def

definition foreign :: "byte list \<Rightarrow> bool" where
  "foreign xs \<longleftrightarrow> (\<exists>c ps. xs = int_bytes c @ ps \<and> c \<notin> set store_constructors)"

lemma foreignI: "c \<notin> set store_constructors \<Longrightarrow> foreign (int_bytes c @ ps)" "c \<notin> set store_constructors \<Longrightarrow> foreign (int_bytes c)"
  by (auto simp: foreign_def)

lemma answer_constructors: "TL_resPQ_constructor \<notin> set store_constructors"
  "TL_config_constructor \<notin> set store_constructors"
  "TL_cdnConfig_constructor \<notin> set store_constructors"
  "TL_auth_exportedAuthorization_constructor \<notin> set store_constructors"
  "TL_auth_authorization_constructor \<notin> set store_constructors"
  "TL_server_DH_params_fail_constructor \<notin> set store_constructors"
  "TL_server_DH_params_ok_constructor \<notin> set store_constructors"
  "TL_dh_gen_retry_constructor \<notin> set store_constructors"
  "TL_dh_gen_fail_constructor \<notin> set store_constructors"
  "TL_dh_gen_ok_constructor \<notin> set store_constructors"
  "TL_rpc_answer_unknown_constructor \<notin> set store_constructors"
  "TL_rpc_answer_dropped_constructor \<notin> set store_constructors"
  "TL_rpc_answer_dropped_running_constructor \<notin> set store_constructors"
  "TL_boolTrue_constructor \<notin> set store_constructors"
  "TL_boolFalse_constructor \<notin> set store_constructors"
  "TL_auth_sentAppCode_constructor \<notin> set store_constructors"
  "TL_auth_sentCode_constructor \<notin> set store_constructors"
  unfolding store_constructors_def store_constructor_defs answer_constructor_defs by simp_all

lemma foreign_answer: "answers r x \<Longrightarrow> foreign (TL_incoming_wire x)"
proof (cases x)
  case (I_TL_resPQ y)
  then show ?thesis by (simp add: TL_resPQ_wire_def foreignI answer_constructors)
next
  case (I_Server_DH_Params y)
  then show ?thesis by (cases y) (simp_all add: foreignI answer_constructors)
next
  case (I_Set_client_DH_params_answer y)
  then show ?thesis by (cases y) (simp_all add: foreignI answer_constructors)
next
  case (I_RpcDropAnswer y)
  then show ?thesis by (cases y) (simp_all add: foreignI answer_constructors)
next
  case (I_Bool y)
  then show ?thesis by (cases y) (simp_all add: foreignI answer_constructors)
next
  case (I_TL_config y)
  then show ?thesis by (simp add: TL_config_wire_def foreignI answer_constructors)
next
  case (I_TL_cdnConfig y)
  then show ?thesis by (simp add: TL_cdnConfig_wire_def foreignI answer_constructors)
next
  case (I_TL_auth_exportedAuthorization y)
  then show ?thesis by (simp add: TL_auth_exportedAuthorization_wire_def foreignI answer_constructors)
next
  case (I_TL_auth_authorization y)
  then show ?thesis by (simp add: TL_auth_authorization_wire_def foreignI answer_constructors)
next
  case (I_auth_SentCode y)
  then show ?thesis by (cases y) (simp_all add: foreignI answer_constructors)
qed (cases r; simp)+

lemma parses_answer:
  assumes "parses (read_object des) (wire x) (Some x)"
  shows "parses (read_object (answer k des)) (wire x) (Some (k x))"
  unfolding parses_def
proof (intro allI impI)
  fix s ys
  assume s: "stream_ok s" "ahead (is_buf s) = wire x @ ys" "\<not> is_error s"
  have "read_object (answer k des) s = Option.bind (read_object des s) (\<lambda>(x, s). Some (map_option k x, s))"
    by (auto simp: read_object_def answer_def split: Option.bind_splits)
  then show "read_object (answer k des) s = Some (Some (k x), advance (word_of_nat (length (wire x))) s)"
    using parsesD(1) [OF assms s] by simp
qed

lemma deserializeResponse_parses:
  assumes "answers r x" and "TL_incoming_wf x"
  shows "parses (read_object (deserializeResponse r)) (TL_incoming_wire x) (Some x)"
  using assms
  by (cases r; cases x) (simp_all add: parses_answer TL_resPQ_reads Server_DH_Params_reads Set_client_DH_params_answer_reads RpcDropAnswer_reads Bool_reads TL_config_reads TL_cdnConfig_reads TL_auth_exportedAuthorization_reads TL_auth_authorization_reads auth_SentCode_reads)

subsection \<open>Containers and results\<close>

fun incoming_wire :: "TLObject \<Rightarrow> byte list" and incoming_message_wire :: "TL_message \<Rightarrow> byte list" where
  "incoming_wire (O_incoming x) = TL_incoming_wire x"
| "incoming_wire (O_TL_rpc_result req_msg_id p) = int_bytes TL_rpc_result_constructor @ long_bytes req_msg_id @
     (case p of None \<Rightarrow> [] | Some x \<Rightarrow> incoming_wire x)"
| "incoming_wire (O_TL_msg_container ms) = int_bytes TL_msg_container_constructor @
     int_bytes (word_of_nat (length ms)) @ concat (map incoming_message_wire ms)"
| "incoming_wire x = []"
| "incoming_message_wire (TL_message msg_id seqno bytes body outgoingBody unparsedBody) =
     long_bytes msg_id @ int_bytes seqno @ int_bytes bytes @ (case body of None \<Rightarrow> [] | Some x \<Rightarrow> incoming_wire x)"

text \<open>An object the server may send in reply to the request \<open>request\<close>.  A result is parsed for the request whose
  message id it carries; a container answers no request itself.\<close>

fun incoming_wf :: "(ulong \<Rightarrow> TLObject option) \<Rightarrow> TLObject option \<Rightarrow> TLObject \<Rightarrow> bool"
and incoming_message_wf :: "(ulong \<Rightarrow> TLObject option) \<Rightarrow> TL_message \<Rightarrow> bool" where
  "incoming_wf requests request (O_incoming x) = (TL_incoming_wf x \<and>
     (is_service x \<or> (case request of Some (O_request r) \<Rightarrow> answers r x | _ \<Rightarrow> False)))"
| "incoming_wf requests request (O_TL_rpc_result req_msg_id p) =
     (case p of None \<Rightarrow> False | Some x \<Rightarrow> incoming_wf requests (requests req_msg_id) x)"
| "incoming_wf requests request (O_TL_msg_container ms) =
     (length ms < 2 ^ 31 \<and> list_all (incoming_message_wf requests) ms)"
| "incoming_wf requests request x = False"
| "incoming_message_wf requests (TL_message msg_id seqno bytes body outgoingBody unparsedBody) =
     (outgoingBody = None \<and> unparsedBody = None \<and>
      (case body of None \<Rightarrow> False | Some x \<Rightarrow> incoming_wf requests None x))"

fun nesting :: "TLObject \<Rightarrow> nat" and message_nesting :: "TL_message \<Rightarrow> nat" where
  "nesting (O_TL_rpc_result req_msg_id p) = Suc (case p of None \<Rightarrow> 0 | Some x \<Rightarrow> nesting x)"
| "nesting (O_TL_msg_container ms) = Suc (fold max (map message_nesting ms) 0)"
| "nesting x = 1"
| "message_nesting (TL_message msg_id seqno bytes body outgoingBody unparsedBody) =
     (case body of None \<Rightarrow> 0 | Some x \<Rightarrow> nesting x)"

lemma fold_max_le: "fold max ns (k :: nat) \<le> d \<longleftrightarrow> k \<le> d \<and> (\<forall>n \<in> set ns. n \<le> d)"
  by (induction ns arbitrary: k) auto

lemma body_store:
  assumes "parses (TLClassStore_TLdeserialize deserialize requests bytes c) ps (Some x)"
  shows "parses (TLdeserialize_body deserialize requests request bytes) (int_bytes c @ ps) (Some x)"
  unfolding parses_def
proof (intro allI impI)
  fix s ys
  assume s: "stream_ok s" "ahead (is_buf s) = (int_bytes c @ ps) @ ys" "\<not> is_error s"
  let ?s = "advance (word_of_nat (length (int_bytes c @ ps))) s"
  have same: "s\<lparr>is_error := False\<rparr> = s" "?s\<lparr>is_error := False\<rparr> = ?s" using s(3) by simp_all
  have r: "readUint32 s = Some (c, advance 4 s)" using parsesD(1) [OF parses_readUint32, of s c] s by simp
  have t: "TLClassStore_TLdeserialize deserialize requests bytes c (advance 4 s) = Some (Some x, ?s)"
    using parsesD(1) [OF parses_read_object [of "TLClassStore_TLdeserialize deserialize requests bytes", OF assms] s] by (simp add: read_object_def r)
  show "TLdeserialize_body deserialize requests request bytes s = Some (Some x, ?s)"
    using s(3) by (simp add: TLdeserialize_body_def same r t)
qed

lemma body_answer:
  assumes "parses (read_object (deserializeResponse r)) xs (Some x)" and "foreign xs"
  shows "parses (TLdeserialize_body deserialize requests (Some (O_request r)) bytes) xs (Some (O_incoming x))"
  unfolding parses_def
proof (intro allI impI)
  fix s ys
  assume s: "stream_ok s" "ahead (is_buf s) = xs @ ys" "\<not> is_error s"
  let ?s = "advance (word_of_nat (length xs)) s"
  have same: "s\<lparr>is_error := False\<rparr> = s" "?s\<lparr>is_error := False\<rparr> = ?s" using s(3) by simp_all
  obtain c ps where xs: "xs = int_bytes c @ ps" and c: "c \<notin> set store_constructors"
    using assms(2) by (auto simp: foreign_def)
  have r: "readUint32 s = Some (c, advance 4 s)" using parsesD(1) [OF parses_readUint32, of s c] s xs by simp
  have t: "deserializeResponse r c (advance 4 s) = Some (Some x, ?s)"
    using parsesD(1) [OF assms(1) s] by (simp add: read_object_def r)
  show "TLdeserialize_body deserialize requests (Some (O_request r)) bytes s = Some (Some (O_incoming x), ?s)"
    using s(3) by (simp add: TLdeserialize_body_def same r t TLClassStore_unknown [OF c] request_response_def)
qed

lemma container_parses:
  assumes "length ms < 2 ^ 31" and "\<And>m. m \<in> set ms \<Longrightarrow>
    parses (TL_message_readParams deserialize TL_message_new) (incoming_message_wire m) m"
  shows "parses (TL_msg_container_readParams deserialize)
    (int_bytes (word_of_nat (length ms)) @ concat (map incoming_message_wire ms)) ms"
proof -
  have "parses (\<lambda>s. Option.bind (readUint32 s) (\<lambda>(count, s).
      Option.bind (read_until_error (unat count) (TL_message_readParams deserialize TL_message_new) s)
        (\<lambda>(w, s). Some (fst w, s))))
      (int_bytes (word_of_nat (length ms)) @ concat (map incoming_message_wire ms) @ []) ms"
    by (intro parses_bind [OF parses_readUint32] parses_bind [OF parses_until_error_count] assms parses_end) simp_all
  then show ?thesis by (simp add: TL_msg_container_readParams_def [abs_def] case_prod_unfold)
qed

lemma message_parses:
  assumes "parses (deserialize None bytes) (incoming_wire x) (Some x)"
  shows "parses (TL_message_readParams deserialize TL_message_new)
    (incoming_message_wire (TL_message msg_id seqno bytes (Some x) None None)) (TL_message msg_id seqno bytes (Some x) None None)"
  unfolding TL_message_readParams_def [abs_def] incoming_message_wire.simps option.case
  by (rule parses_nil, unfold append_assoc,
      intro parses_bind [OF parses_readInt64] parses_bind [OF parses_readInt32] parses_bind [OF assms])
    (simp add: parses_return TL_message_new_def)

lemma result_parses:
  assumes "parses (deserialize (requests req_msg_id) (bytes - 12)) xs (Some x)"
  shows "parses (TL_rpc_result_readParamsEx deserialize requests bytes) (long_bytes req_msg_id @ xs)
    (O_TL_rpc_result req_msg_id (Some x))"
  unfolding TL_rpc_result_readParamsEx_def [abs_def]
  by (rule parses_nil, unfold append_assoc, intro parses_bind [OF parses_readInt64] parses_bind [OF assms])
    (simp add: parses_return)

lemma TLdeserialize_parses:
  "incoming_wf requests request x \<Longrightarrow> nesting x \<le> depth \<Longrightarrow>
     parses (TLdeserialize depth requests request bytes) (incoming_wire x) (Some x)"
proof (induction depth arbitrary: request x bytes)
  case 0
  then show ?case by (cases x) simp_all
next
  case (Suc depth)
  let ?d = "TLdeserialize depth requests"
  have body: "parses (TLdeserialize_body ?d requests request bytes) (incoming_wire x) (Some x)"
  proof (cases x)
    case (O_incoming y)
    show ?thesis
    proof (cases "is_service y")
      case True
      then obtain c ps where "TL_incoming_wire y = int_bytes c @ ps"
          "parses (TLClassStore_TLdeserialize ?d requests bytes c) ps (Some (O_incoming y))"
        using parses_service Suc.prems(1) O_incoming by (metis incoming_wf.simps(1))
      then show ?thesis using body_store by (simp add: O_incoming)
    next
      case False
      then obtain r where "request = Some (O_request r)" "answers r y" "TL_incoming_wf y"
        using Suc.prems(1) O_incoming by (auto split: option.splits TLObject.splits)
      then show ?thesis using body_answer deserializeResponse_parses foreign_answer by (simp add: O_incoming)
    qed
  next
    case (O_TL_rpc_result i p)
    then obtain y where y: "p = Some y" "incoming_wf requests (requests i) y" "nesting y \<le> depth"
      using Suc.prems by (auto split: option.splits)
    have "parses (TLClassStore_TLdeserialize ?d requests bytes TL_rpc_result_constructor) (long_bytes i @ incoming_wire y)
        (Some (O_TL_rpc_result i (Some y)))"
      by (rule parses_wrap [OF result_parses [where deserialize = ?d and requests = requests, OF Suc.IH [OF y(2,3)]]])
        (simp add: TLClassStore_dispatch parsed_def)
    from body_store [OF this] show ?thesis by (simp add: O_TL_rpc_result y)
  next
    case (O_TL_msg_container ms)
    have "parses (TL_message_readParams ?d TL_message_new) (incoming_message_wire m) m" if m: "m \<in> set ms" for m
    proof -
      have "incoming_message_wf requests m" "message_nesting m \<le> depth"
        using Suc.prems m by (auto simp: O_TL_msg_container list_all_iff fold_max_le)
      then show ?thesis using message_parses Suc.IH by (cases m) (auto split: option.splits)
    qed
    then have "parses (TL_msg_container_readParams ?d)
        (int_bytes (word_of_nat (length ms)) @ concat (map incoming_message_wire ms)) ms"
      using Suc.prems(1) by (intro container_parses) (simp_all add: O_TL_msg_container)
    then have "parses (TLClassStore_TLdeserialize ?d requests bytes TL_msg_container_constructor)
        (int_bytes (word_of_nat (length ms)) @ concat (map incoming_message_wire ms)) (Some (O_TL_msg_container ms))"
      by (rule parses_wrap) (simp add: TLClassStore_dispatch parsed_def)
    from body_store [OF this] show ?thesis by (simp add: O_TL_msg_container)
  qed (use Suc.prems(1) in simp_all)
  have "TLdeserialize (Suc depth) requests request bytes = TLdeserialize_body ?d requests request bytes"
    by (rule ext) simp
  with body show ?case by simp
qed

text \<open>C6. Everything a server sends is recovered from the wire: a container holding any number of service messages,
  results and further containers, a result holding the answer of the request whose message id it carries, or a bare
  answer of the pending request.  \<open>ConnectionsManager::TLdeserialize\<close> returns that object, and the read position ends
  right after its encoding; as many nested calls suffice as the object is deep, whatever the advertised length.\<close>

theorem TLdeserialize_reads:
  assumes "incoming_wf requests request x" and "nesting x \<le> depth" and "nbb_ok b" and "storage_ok st"
    and "ahead b = incoming_wire x @ rest"
  shows "\<exists>s. TLdeserialize depth requests request bytes \<lparr>is_buf = b, is_error = False, is_pool = st, is_mem = E\<rparr> = Some (Some x, s) \<and>
    stream_ok s \<and> \<not> is_error s \<and> ahead (is_buf s) = rest \<and> is_pool s = st"
proof -
  let ?s = "\<lparr>is_buf = b, is_error = False, is_pool = st, is_mem = E\<rparr>"
  have s: "stream_ok ?s" "ahead (is_buf ?s) = incoming_wire x @ rest" "\<not> is_error ?s"
    using assms by (simp_all add: stream_ok_def)
  show ?thesis using parsesD [OF TLdeserialize_parses [OF assms(1,2)] s] by simp
qed

definition demo_reply :: TLObject where
  "demo_reply = O_TL_msg_container
     [TL_message 1 1 20 (Some (O_incoming (I_TL_pong \<lparr>TL_pong_msg_id = 4, TL_pong_ping_id = 9\<rparr>))) None None,
      TL_message 5 3 16 (Some (O_TL_rpc_result 8 (Some (O_incoming (I_Bool TL_boolTrue))))) None None]"

definition demo_requests :: "ulong \<Rightarrow> TLObject option" where
  "demo_requests i = (if i = 8 then Some (O_request (R_TL_auth_dropTempAuthKeys
     \<lparr>TL_auth_dropTempAuthKeys_except_auth_keys = []\<rparr>)) else None)"

theorem TLdeserialize_reads_witness:
  "incoming_wf demo_requests None demo_reply \<and>
   (\<exists>s. TLdeserialize 3 demo_requests None 0 \<lparr>is_buf = NativeByteBuffer_slice (incoming_wire demo_reply @ [1, 2]) 78,
      is_error = False, is_pool = BuffersStorage_new ample, is_mem = ample\<rparr> = Some (Some demo_reply, s) \<and> ahead (is_buf s) = [1, 2])"
proof -
  have w: "incoming_wf demo_requests None demo_reply" "nesting demo_reply \<le> 3"
    by (simp_all add: demo_reply_def demo_requests_def TL_pong_wf_def)
  have len: "length (incoming_wire demo_reply) = 76"
    by (simp add: demo_reply_def TL_pong_wire_def TL_pong_params_def)
  let ?b = "NativeByteBuffer_slice (incoming_wire demo_reply @ [1, 2]) 78"
  have b: "nbb_ok ?b" "ahead ?b = incoming_wire demo_reply @ [1, 2]" "storage_ok (BuffersStorage_new ample)"
    using len by (simp_all add: nbb_ok_def NativeByteBuffer_slice_def ahead_def storage_ok_new)
  then show ?thesis using TLdeserialize_reads [OF w b(1,3,2)] w(1) by blast
qed

subsection \<open>Raw answers\<close>

text \<open>The answer to a raw API request is handed over as a slice of the packet.\<close>

lemma body_api_answer:
  assumes s: "stream_ok s" "ahead (is_buf s) = int_bytes c @ ps @ ys" "\<not> is_error s" and c: "c \<notin> set store_constructors"
    and n: "bytes = word_of_nat (4 + length ps)"
  shows "\<exists>response. TLdeserialize_body deserialize requests (Some (O_TL_api_request r)) bytes s =
      Some (Some (O_TL_api_response (Some response)), advance bytes s) \<and> nbb_ok response \<and> nb_position response = 0 \<and>
      whole response = int_bytes c @ ps"
proof -
  let ?b = "is_buf s" and ?p = "unat (nb_position (is_buf s))"
  have ok: "nbb_ok ?b" using s(1) by (simp add: stream_ok_def)
  note d = nbb_okD [OF ok]
  have len: "4 + length ps \<le> unat (nb_limit ?b) - ?p" using length_ahead [OF ok] s(2) by simp
  then have n': "unat bytes = 4 + length ps" unfolding n using d by (intro unat_len) linarith
  have r: "readUint32 s = Some (c, advance 4 s)" using parsesD(1) [OF parses_readUint32, of s c] s by simp
  have p4: "unat (nb_position ?b + 4) = ?p + 4" using len d by (simp add: unat_word_ariths)
  let ?response = "NativeByteBuffer_slice (drop ?p (nb_buffer ?b)) bytes"
  have sl: "stream_slice (advance 4 s) 4 bytes = Some ?response"
    using p4 d by (simp add: stream_slice_def advance_def word_less_nat_alt)
  have sk: "stream_skip (bytes - 4) (advance 4 s) = advance bytes s"
  proof -
    have "unat (nb_position ?b + bytes) = ?p + unat bytes" using n' len d by (simp add: unat_word_ariths)
    then have "\<not> nb_limit ?b < nb_position ?b + bytes" using n' len d by (simp add: word_less_nat_alt)
    then show ?thesis using d(1) by (simp add: stream_skip_def skip_def advance_def algebra_simps)
  qed
  have w: "whole ?response = int_bytes c @ ps"
  proof -
    have "take (4 + length ps) (drop ?p (nb_buffer ?b)) = take (4 + length ps) (ahead ?b)"
      using len by (simp add: ahead_def min_def)
    then show ?thesis using s(2) n' by (simp add: whole_def NativeByteBuffer_slice_def)
  qed
  have "nbb_ok ?response"
    unfolding nbb_ok_def NativeByteBuffer_slice_def using n' len d by simp linarith
  moreover have same: "s\<lparr>is_error := False\<rparr> = s" "(advance bytes s)\<lparr>is_error := False\<rparr> = advance bytes s"
    using s(3) by simp_all
  have "TLdeserialize_body deserialize requests (Some (O_TL_api_request r)) bytes s =
      Some (Some (O_TL_api_response (Some ?response)), advance bytes s)"
    using s(3) by (simp add: TLdeserialize_body_def same r TLClassStore_unknown [OF c] request_response_def
        TL_api_response_readParamsEx_def sl sk parsed_def)
  moreover have "nb_position ?response = 0" by (simp add: NativeByteBuffer_slice_def)
  ultimately show ?thesis using w by blast
qed

text \<open>C11. The answer to a raw API request.  A result whose message id belongs to such a request carries an answer the
  parser does not know; when the message length covers the result, the response object is a buffer positioned at its
  start whose content is exactly the answer, constructor included, and reading goes on right behind it.\<close>

theorem api_answer_delivered:
  assumes "requests req_msg_id = Some (O_TL_api_request r)" and "constructor \<notin> set store_constructors"
    and "nbb_ok b" and "storage_ok st"
    and "ahead b = int_bytes TL_rpc_result_constructor @ long_bytes req_msg_id @ int_bytes constructor @ params @ rest"
  shows "\<exists>response s. TLdeserialize (Suc (Suc depth)) requests request (word_of_nat (16 + length params))
      \<lparr>is_buf = b, is_error = False, is_pool = st, is_mem = E\<rparr> =
        Some (Some (O_TL_rpc_result req_msg_id (Some (O_TL_api_response (Some response)))), s) \<and>
    nbb_ok response \<and> nb_position response = 0 \<and> whole response = int_bytes constructor @ params \<and>
    \<not> is_error s \<and> ahead (is_buf s) = rest"
proof -
  let ?s = "\<lparr>is_buf = b, is_error = False, is_pool = st, is_mem = E\<rparr>" and ?n = "word_of_nat (4 + length params) :: u32"
  let ?i = "int_bytes constructor @ params"
  have s: "stream_ok ?s" "ahead (is_buf ?s) = int_bytes TL_rpc_result_constructor @ long_bytes req_msg_id @ ?i @ rest"
      "\<not> is_error ?s" using assms by (simp_all add: stream_ok_def)
  let ?t = "advance 4 ?s" and ?u = "advance 12 ?s"
  have t: "readUint32 ?s = Some (TL_rpc_result_constructor, ?t)" "stream_ok ?t"
      "ahead (is_buf ?t) = long_bytes req_msg_id @ ?i @ rest" "\<not> is_error ?t"
    using parsesD [OF parses_readUint32 s] by simp_all
  have u: "readInt64 ?t = Some (req_msg_id, ?u)" "stream_ok ?u" "ahead (is_buf ?u) = int_bytes constructor @ params @ rest"
      "\<not> is_error ?u"
    using parsesD [OF parses_readInt64 t(2,3,4)] by (simp_all add: advance_advance)
  obtain response where a: "TLdeserialize (Suc depth) requests (Some (O_TL_api_request r)) ?n ?u =
      Some (Some (O_TL_api_response (Some response)), advance ?n ?u)"
    and response: "nbb_ok response" "nb_position response = 0" "whole response = ?i"
    using body_api_answer [OF u(2,3,4) assms(2) refl, of "TLdeserialize depth requests" requests r]
    unfolding TLdeserialize.simps by blast
  have "length ?i < 2 ^ 31"
    using length_ahead [OF assms(3)] nbb_okD(5) [OF assms(3)] assms(5) by simp
  then have "length ?i = unat ?n" using unat_len [of "4 + length params"] by simp
  then have v: "ahead (is_buf (advance ?n ?u)) = rest" using u advance_ok [OF u(2), of ?n] by simp
  have "word_of_nat (16 + length params) - 12 = ?n" by simp
  then have "TLdeserialize (Suc (Suc depth)) requests request (word_of_nat (16 + length params)) ?s =
      Some (Some (O_TL_rpc_result req_msg_id (Some (O_TL_api_response (Some response)))), advance ?n ?u)"
    using a assms(1) unfolding TLdeserialize.simps(2) [of "Suc depth"] TLdeserialize_body_def
    by (simp add: t u TLClassStore_dispatch TL_rpc_result_readParamsEx_def parsed_def)
  then show ?thesis using response v u(4) by (intro exI) (rule conjI, assumption, simp)
qed

theorem api_answer_delivered_witness:
  "\<exists>response s. TLdeserialize 2 (\<lambda>i. if i = 8 then Some (O_TL_api_request None) else None) None 20
      \<lparr>is_buf = NativeByteBuffer_slice (int_bytes TL_rpc_result_constructor @ long_bytes 8 @ int_bytes 0x12345678 @ [1, 2, 3, 4] @ [9]) 21,
       is_error = False, is_pool = BuffersStorage_new ample, is_mem = ample\<rparr> =
        Some (Some (O_TL_rpc_result 8 (Some (O_TL_api_response (Some response)))), s) \<and>
    whole response = int_bytes 0x12345678 @ [1, 2, 3, 4] \<and> ahead (is_buf s) = [9]"
proof -
  let ?b = "NativeByteBuffer_slice (int_bytes TL_rpc_result_constructor @ long_bytes 8 @ int_bytes 0x12345678 @ [1, 2, 3, 4] @ [9]) 21"
  have "nbb_ok ?b" "(0x12345678 :: u32) \<notin> set store_constructors"
    "ahead ?b = int_bytes TL_rpc_result_constructor @ long_bytes 8 @ int_bytes 0x12345678 @ [1, 2, 3, 4] @ [9]"
    by (simp_all add: nbb_ok_def NativeByteBuffer_slice_def ahead_def store_constructors_def store_constructor_defs)
  from api_answer_delivered [where requests = "\<lambda>i. if i = 8 then Some (O_TL_api_request None) else None" and r = None,
      OF _ this(2,1) storage_ok_new this(3), of 0 None ample] show ?thesis
    by (simp add: numeral_2_eq_2) blast
qed

subsection \<open>Answers to requests\<close>

lemma safe_answer:
  assumes "safe (des c)"
  shows "safe (answer k des c)"
  unfolding answer_def [abs_def] by (intro safe_bind assms safe_return)

lemma safe_deserializeResponse: "safe (deserializeResponse r c)"
  by (cases r) (simp_all, (rule safe_answer safe_rules)+)

text \<open>C16. Answers are parsed safely.  For every typed request, any constructor number and any bytes, \<open>deserializeResponse\<close>
  returns, never reads outside the buffer, only moves the position forward up to the limit, leaves the bytes alone,
  keeps the pool of buffers well formed, and never clears an error already raised.  (The answer to a raw API request is not
  parsed but handed on as a slice, see above.)\<close>

theorem deserializeResponse_safe:
  assumes "stream_ok s"
  shows "\<exists>object s'. deserializeResponse r constructor s = Some (object, s') \<and> stream_ok s' \<and> follows s s'"
  using safe_deserializeResponse [of r constructor] assms unfolding safe_def gets_def by blast

theorem deserializeResponse_safe_witness:
  "\<exists>object s'. deserializeResponse R_TL_help_getConfig TL_config_constructor
     \<lparr>is_buf = NativeByteBuffer_slice [1, 2, 3, 4, 5] 5, is_error = False, is_pool = BuffersStorage_new ample, is_mem = ample\<rparr> =
     Some (object, s') \<and> stream_ok s'"
proof -
  have "stream_ok \<lparr>is_buf = NativeByteBuffer_slice [1, 2, 3, 4, 5] 5, is_error = False, is_pool = BuffersStorage_new ample, is_mem = ample\<rparr>"
    by (simp add: stream_ok_def nbb_ok_def NativeByteBuffer_slice_def storage_ok_new)
  from deserializeResponse_safe [OF this] show ?thesis by blast
qed

text \<open>C21. The configuration survives a round trip through a pooled buffer, the way it is stored and received: the
  buffer is asked for with the size \<open>getObjectSize\<close> computes, \<open>serializeToStream\<close> fills it to the limit, and
  \<open>TL_config::TLdeserialize\<close> reads back the same object, optional fields and lists included, with nothing left.\<close>

theorem TL_config_roundtrip:
  assumes "TL_config_wf x" and "nb_calculateSizeOnly calc" and "storage_ok st" and "length (TL_config_wire x) < 2 ^ 31"
  shows "\<exists>n calc' b st' b' s. getObjectSize (TL_config_serializeToStream x) calc = Some (n, calc') \<and>
    getFreeBuffer E n st = (b, st') \<and> TL_config_serializeToStream x b = Some b' \<and> nb_position b' = nb_limit b' \<and>
    read_object TL_config_TLdeserialize \<lparr>is_buf = flip b', is_error = False, is_pool = st', is_mem = E\<rparr> = Some (Some x, s) \<and>
    \<not> is_error s \<and> \<not> hasRemaining (is_buf s)"
  by (rule codec_TL_config.roundtrip [OF assms, of E]) blast

theorem TL_config_roundtrip_witness:
  "TL_config_wf TL_config_new \<and> (\<exists>n calc' b st' b' s.
    getObjectSize (TL_config_serializeToStream TL_config_new) (NativeByteBuffer_calc True) = Some (n, calc') \<and>
    getFreeBuffer ample n (BuffersStorage_new ample) = (b, st') \<and> TL_config_serializeToStream TL_config_new b = Some b' \<and>
    read_object TL_config_TLdeserialize \<lparr>is_buf = flip b', is_error = False, is_pool = st', is_mem = ample\<rparr> =
      Some (Some TL_config_new, s))"
proof -
  have w: "TL_config_wf TL_config_new" by (simp add: TL_config_wf_def TL_config_new_def)
  have "length (TL_config_wire TL_config_new) < 2 ^ 31"
    by (simp add: TL_config_wire_def TL_config_params_def TL_config_new_def tl_bytes_def tl_prefix_def bool_bytes_def)
  from TL_config_roundtrip [OF w _ storage_ok_new this, of "NativeByteBuffer_calc True" ample ample] w
  show ?thesis by (simp add: NativeByteBuffer_calc_def) blast
qed

subsection \<open>A packet that is never parsed to the end\<close>

definition looping_packet :: "byte list" where
  "looping_packet = long_bytes 0 @ long_bytes 1 @ int_bytes 40 @
     int_bytes TL_msg_container_constructor @ int_bytes 2 @ long_bytes 0 @ int_bytes 0 @ int_bytes (- 40) @
     replicate 16 0"

definition packet_stream :: "BuffersStorage \<Rightarrow> mem_env \<Rightarrow> u32 \<Rightarrow> istream" where
  "packet_stream st E p =
     \<lparr>is_buf = (NativeByteBuffer_slice looping_packet 60)\<lparr>nb_position := p\<rparr>, is_error = False, is_pool = st, is_mem = E\<rparr>"

lemma packet_stream_frame [simp]:
  "is_error (packet_stream st E p) = False" "is_pool (packet_stream st E p) = st" "is_mem (packet_stream st E p) = E"
  "nb_position (is_buf (packet_stream st E p)) = p" "nb_buffer (is_buf (packet_stream st E p)) = looping_packet"
  "advance n (packet_stream st E p) = packet_stream st E (p + n)"
  "stream_position q (packet_stream st E p) = (if q > 60 then packet_stream st E p else packet_stream st E q)"
  "(packet_stream st E p)\<lparr>is_error := False\<rparr> = packet_stream st E p"
  "stream_skip n (packet_stream st E p) = (if p + n > 60 then packet_stream st E p else packet_stream st E (p + n))"
  by (simp_all add: packet_stream_def advance_def stream_position_def position_set_def stream_skip_def skip_def NativeByteBuffer_slice_def)

lemma packet_read:
  assumes "parses f xs v" and "storage_ok st" and "p \<le> 60" and "drop (unat p) looping_packet = xs @ ys"
  shows "f (packet_stream st E p) = Some (v, packet_stream st E (p + word_of_nat (length xs)))"
proof -
  have len: "length looping_packet = 60" by (simp add: looping_packet_def)
  have "unat p \<le> 60" using assms(3) by (simp add: word_le_nat_alt)
  then have "stream_ok (packet_stream st E p)" "ahead (is_buf (packet_stream st E p)) = xs @ ys"
    using assms(2,3) len assms(4) [symmetric]
    by (simp_all add: stream_ok_def nbb_ok_def packet_stream_def NativeByteBuffer_slice_def ahead_def)
  then show ?thesis using assms(1) by (simp add: parses_def)
qed

lemma packet_bytes:
  "replicate 16 0 = int_bytes 0 @ replicate 12 0" "drop 4 (long_bytes 1) = int_bytes 0"
  "drop 4 (long_bytes 0) @ long_bytes 1 = long_bytes 0x100000000 @ drop 4 (long_bytes 1)"
  by code_simp+

lemma packet_values:
  assumes "storage_ok st"
  shows "readUint32 (packet_stream st E 44) = Some (0, packet_stream st E 48)"
    and "readUint32 (packet_stream st E 20) = Some (TL_msg_container_constructor, packet_stream st E 24)"
    and "readUint32 (packet_stream st E 24) = Some (2, packet_stream st E 28)"
    and "readInt64 (packet_stream st E 28) = Some (0, packet_stream st E 36)"
    and "readInt32 (packet_stream st E 36) = Some (0, packet_stream st E 40)"
    and "readInt32 (packet_stream st E 40) = Some (- 40, packet_stream st E 44)"
    and "readInt64 (packet_stream st E 4) = Some (0x100000000, packet_stream st E 12)"
    and "readInt32 (packet_stream st E 12) = Some (0, packet_stream st E 16)"
    and "readInt32 (packet_stream st E 16) = Some (40, packet_stream st E 20)"
  using packet_read [OF parses_readUint32, of st 44 0 "replicate 12 0"]
   packet_read [OF parses_readUint32, of st 20 TL_msg_container_constructor "drop 24 looping_packet"]
   packet_read [OF parses_readUint32, of st 24 2 "drop 28 looping_packet"]
   packet_read [OF parses_readInt64, of st 28 0 "drop 36 looping_packet"]
   packet_read [OF parses_readInt32, of st 36 0 "drop 40 looping_packet"]
   packet_read [OF parses_readInt32, of st 40 "- 40" "drop 44 looping_packet"]
   packet_read [OF parses_readInt64, of st 4 "0x100000000" "drop 12 looping_packet"]
   packet_read [OF parses_readInt32, of st 12 0 "drop 16 looping_packet"]
   packet_read [OF parses_readInt32, of st 16 40 "drop 20 looping_packet"]
   assms by (simp_all add: looping_packet_def packet_bytes)

lemma packet_unknown:
  assumes "storage_ok st"
  shows "TLdeserialize (Suc depth) requests None bytes (packet_stream st E 44) = Some (None, packet_stream st E 44)"
proof -
  have "(0 :: u32) \<notin> set store_constructors" by (simp add: store_constructors_def store_constructor_defs)
  then show ?thesis by (simp add: TLdeserialize_body_def packet_values [OF assms] TLClassStore_unknown)
qed

lemma packet_container:
  assumes st: "storage_ok st" and again: "deserialize None 40 (packet_stream st E 20) = None"
    and first: "deserialize None (- 40) (packet_stream st E 44) \<in> {None, Some (None, packet_stream st E 44)}"
  shows "TL_msg_container_readParams deserialize (packet_stream st E 24) = None"
proof -
  note v = packet_values [OF st]
  let ?read = "TL_message_readParams deserialize TL_message_new"
  have "?read (packet_stream st E 28) = None \<or> (\<exists>m. ?read (packet_stream st E 28) = Some (m, packet_stream st E 4))"
    using first by (auto simp: TL_message_readParams_def v stream_slice_def looping_packet_def)
  moreover have "?read (packet_stream st E 4) = None" by (simp add: TL_message_readParams_def v again)
  ultimately have "read_until_error (Suc (Suc 0)) ?read (packet_stream st E 28) = None" by auto
  then show ?thesis by (simp add: TL_msg_container_readParams_def v numeral_2_eq_2 [symmetric])
qed

lemma packet_endless:
  assumes "storage_ok st"
  shows "TLdeserialize depth requests request bytes (packet_stream st E 20) = None"
proof (induction depth arbitrary: request bytes)
  case (Suc depth)
  have "TLdeserialize depth requests None (- 40) (packet_stream st E 44) \<in> {None, Some (None, packet_stream st E 44)}"
    using packet_unknown [OF assms] by (cases depth) simp_all
  then have "TL_msg_container_readParams (TLdeserialize depth requests) (packet_stream st E 24) = None"
    using Suc by (intro packet_container assms) simp_all
  then show ?case by (simp add: TLdeserialize_body_def packet_values [OF assms] TLClassStore_dispatch parsed_def)
qed simp

text \<open>Nothing else is in the way: were the nested call on the container to return, the call would.\<close>

lemma packet_only_nested:
  assumes st: "storage_ok st"
    and first: "deserialize None (- 40) (packet_stream st E 44) = Some (None, packet_stream st E 44)"
    and again: "deserialize None 40 (packet_stream st E 20) = Some (Some x, t)"
  shows "TLdeserialize_body deserialize requests request 40 (packet_stream st E 20) \<noteq> None"
proof -
  note v = packet_values [OF st]
  let ?read = "TL_message_readParams deserialize TL_message_new"
  obtain m where "?read (packet_stream st E 28) = Some (m, packet_stream st E 4)"
    using first by (auto simp: TL_message_readParams_def v stream_slice_def looping_packet_def)
  moreover obtain m' where "?read (packet_stream st E 4) = Some (m', t)" by (simp add: TL_message_readParams_def v again)
  ultimately have "read_until_error (Suc (Suc 0)) ?read (packet_stream st E 28) \<noteq> None" by auto
  then have "TL_msg_container_readParams deserialize (packet_stream st E 24) \<noteq> None"
    by (auto simp: TL_msg_container_readParams_def v numeral_2_eq_2 [symmetric])
  then show ?thesis by (auto simp: TLdeserialize_body_def v TLClassStore_dispatch parsed_def)
qed

text \<open>C22. A packet that is never parsed to the end.  Its 60 bytes pass the checks \<open>onConnectionDataReceived\<close> makes of
  an unencrypted message: longer than 56 bytes, key id 0, a message id, and a length equal to the rest.  The container
  behind them has a first message of advertised length -40 with an unknown body; \<open>skip\<close> adds that length modulo \<open>2 ^ 32\<close>,
  which moves the position from 44 back to 4, so the second message's body is the container itself.  No number of
  nested calls of \<open>TLdeserialize\<close> is enough, whatever request is pending: the recursion exhausts the stack.  It is the
  nested call on the same container that never returns and nothing else: with any answer in its place the call returns.\<close>

theorem TLdeserialize_never_returns:
  assumes "storage_ok st"
  shows "length looping_packet > 56 \<and>
    readInt64 (packet_stream st E 0) = Some (0, packet_stream st E 8) \<and>
    readInt64 (packet_stream st E 8) = Some (1, packet_stream st E 16) \<and>
    readUint32 (packet_stream st E 16) = Some (40, packet_stream st E 20) \<and>
    remaining (is_buf (packet_stream st E 20)) = 40 \<and>
    (\<forall>depth request. TLdeserialize depth requests request 40 (packet_stream st E 20) = None) \<and>
    (\<forall>depth request x t. TLdeserialize_body
       (\<lambda>r n s. if s = packet_stream st E 20 then Some (Some x, t) else TLdeserialize (Suc depth) requests r n s)
       requests request 40 (packet_stream st E 20) \<noteq> None)"
proof -
  have differ: "packet_stream st E 44 \<noteq> packet_stream st E 20" 
  proof
    assume "packet_stream st E 44 = packet_stream st E 20"
    then have "nb_position (is_buf (packet_stream st E 44)) = nb_position (is_buf (packet_stream st E 20))" by (rule arg_cong)
    then show False by simp
  qed
  have "TLdeserialize_body (\<lambda>r n s. if s = packet_stream st E 20 then Some (Some x, t) else TLdeserialize (Suc depth) requests r n s)
       requests request 40 (packet_stream st E 20) \<noteq> None" for depth request x t
    by (rule packet_only_nested [OF assms]) (simp_all only: packet_unknown [OF assms] differ if_False if_True simp_thms)
  then show ?thesis using packet_endless [OF assms] packet_values(9) [OF assms]
    packet_read [OF parses_readInt64, of st 0 0 "drop 8 looping_packet"]
    packet_read [OF parses_readInt64, of st 8 1 "drop 16 looping_packet"] assms
    by (simp del: TLdeserialize.simps add: readUint32_def looping_packet_def remaining_def packet_stream_def NativeByteBuffer_slice_def)
qed

theorem TLdeserialize_never_returns_witness:
  "storage_ok (BuffersStorage_new ample) \<and>
   (\<forall>depth. TLdeserialize depth (\<lambda>i. None) None 40 (packet_stream (BuffersStorage_new ample) ample 20) = None)"
  using TLdeserialize_never_returns [OF storage_ok_new] storage_ok_new by blast

end
