(* ===== verification/Connection_Session.thy ===== *)
theory Connection_Session
  imports Object_Codec
begin

unbundle bit_operations_syntax

section \<open>ConnectionSession: sequence numbers, processed messages, confirmations\<close>

text \<open>
  \<open>tgnet/ConnectionSession.cpp\<close> with \<open>ConnectionsManager::generateMessageId\<close> and the two places of
  \<open>processServerResponse\<close> that set \<open>lastOutgoingMessageId\<close>.  The record has the fields of the class;
  an \<open>int64_t\<close> message id is the word of its bits, compared and sorted as a signed number.  What \<open>RAND_bytes\<close> delivers and
  the clock, whose scaling is a floating-point expression, are arguments.  \<open>session_reachable\<close> is the state machine of
  the class: any sequence of its operations, with the message ids recorded along the way.
\<close>

subsection \<open>State\<close>

record ConnectionSession =
  cs_sessionId :: ulong
  cs_nextSeqNo :: u32
  cs_minProcessedMessageId :: ulong
  cs_processedMessageIds :: "ulong list"
  cs_messagesIdsForConfirmation :: "ulong list"
  cs_processedSessionChanges :: "ulong list"

text \<open>The constructor leaves \<open>sessionId\<close> unset; \<open>sessionId\<close> is what the memory held.\<close>

definition ConnectionSession_new :: "ulong \<Rightarrow> ConnectionSession" where
  "ConnectionSession_new sessionId = \<lparr>cs_sessionId = sessionId, cs_nextSeqNo = 0, cs_minProcessedMessageId = 0,
     cs_processedMessageIds = [], cs_messagesIdsForConfirmation = [], cs_processedSessionChanges = []\<rparr>"

text \<open>\<open>rnd\<close> is what \<open>RAND_bytes\<close> delivers; \<open>USE_DEBUG_SESSION\<close> is \<open>false\<close> in \<open>Defines.h\<close>.\<close>

definition genereateNewSessionId :: "ulong \<Rightarrow> ConnectionSession \<Rightarrow> ConnectionSession" where
  "genereateNewSessionId rnd s = s\<lparr>cs_sessionId := rnd\<rparr>"

definition recreateSession :: "ulong \<Rightarrow> ConnectionSession \<Rightarrow> ConnectionSession" where
  "recreateSession rnd s = genereateNewSessionId rnd
     (s\<lparr>cs_processedMessageIds := [], cs_messagesIdsForConfirmation := [], cs_processedSessionChanges := [], cs_nextSeqNo := 0\<rparr>)"

definition setSessionId :: "ulong \<Rightarrow> ConnectionSession \<Rightarrow> ConnectionSession" where
  "setSessionId i s = s\<lparr>cs_sessionId := i\<rparr>"

definition getSessionId :: "ConnectionSession \<Rightarrow> ulong" where
  "getSessionId s = cs_sessionId s"

definition generateMessageSeqNo :: "bool \<Rightarrow> ConnectionSession \<Rightarrow> u32 \<times> ConnectionSession" where
  "generateMessageSeqNo increment s =
     (let value = cs_nextSeqNo s;
          s = (if increment then s\<lparr>cs_nextSeqNo := cs_nextSeqNo s + 1\<rparr> else s)
      in (value * 2 + (if increment then 1 else 0), s))"

definition isMessageIdProcessed :: "ulong \<Rightarrow> ConnectionSession \<Rightarrow> bool" where
  "isMessageIdProcessed messageId s \<longleftrightarrow> messageId AND 1 = 0 \<or>
     cs_minProcessedMessageId s \<noteq> 0 \<and> sint messageId < sint (cs_minProcessedMessageId s) \<or>
     messageId \<in> set (cs_processedMessageIds s)"

definition addProcessedMessageId :: "ulong \<Rightarrow> ConnectionSession \<Rightarrow> ConnectionSession" where
  "addProcessedMessageId messageId s =
     (let s = (if length (cs_processedMessageIds s) > 300 then
                 let ids = drop 100 (sort_key sint (cs_processedMessageIds s))
                 in s\<lparr>cs_processedMessageIds := ids, cs_minProcessedMessageId := hd ids\<rparr>
               else s)
      in s\<lparr>cs_processedMessageIds := cs_processedMessageIds s @ [messageId]\<rparr>)"

definition hasMessagesToConfirm :: "ConnectionSession \<Rightarrow> bool" where
  "hasMessagesToConfirm s \<longleftrightarrow> cs_messagesIdsForConfirmation s \<noteq> []"

definition addMessageToConfirm :: "ulong \<Rightarrow> ConnectionSession \<Rightarrow> ConnectionSession" where
  "addMessageToConfirm messageId s =
     (if messageId \<in> set (cs_processedMessageIds s) then s
      else s\<lparr>cs_messagesIdsForConfirmation := cs_messagesIdsForConfirmation s @ [messageId]\<rparr>)"

definition isSessionProcessed :: "ulong \<Rightarrow> ConnectionSession \<Rightarrow> bool" where
  "isSessionProcessed i s \<longleftrightarrow> i \<in> set (cs_processedSessionChanges s)"

definition addProcessedSession :: "ulong \<Rightarrow> ConnectionSession \<Rightarrow> ConnectionSession" where
  "addProcessedSession i s = s\<lparr>cs_processedSessionChanges := cs_processedSessionChanges s @ [i]\<rparr>"

subsection \<open>Message identifiers\<close>

text \<open>\<open>while (messageId % 4 != 0) messageId++;\<close> on an \<open>int64_t\<close>; overflow is undefined.\<close>

function align_id :: "int \<Rightarrow> int option" where
  "align_id messageId = (if messageId mod 4 \<noteq> 0 then
     if messageId = 2 ^ 63 - 1 then None else align_id (messageId + 1) else Some messageId)"
  by auto

termination
proof (relation "measure (\<lambda>m. nat ((- m) mod 4))")
  fix m :: int
  assume "m mod 4 \<noteq> 0"
  then have "(- (m + 1)) mod 4 < (- m) mod 4" by presburger
  moreover have "0 \<le> (- (m + 1)) mod 4" by simp
  ultimately show "(m + 1, m) \<in> measure (\<lambda>m. nat ((- m) mod 4))" by simp
qed simp

declare align_id.simps [simp del]

text \<open>\<open>clock\<close> is the scaled time of the source's floating-point expression, an \<open>int64_t\<close>.\<close>

definition generateMessageId :: "int \<Rightarrow> int \<Rightarrow> (int \<times> int) option" where
  "generateMessageId clock lastOutgoingMessageId = do {
     messageId \<leftarrow> (if clock \<le> lastOutgoingMessageId
       then if lastOutgoingMessageId = 2 ^ 63 - 1 then None else Some (lastOutgoingMessageId + 1) else Some clock);
     messageId \<leftarrow> align_id messageId;
     Some (messageId, messageId)
   }"

text \<open>What \<open>processServerResponse\<close> does to \<open>lastOutgoingMessageId\<close> when a server reports a wrong message or a wrong salt; the
  correction of the clock that goes with it shows in the next reading.\<close>

definition bad_msg_notification_last :: "int \<Rightarrow> int \<Rightarrow> int" where
  "bad_msg_notification_last error_code lastOutgoingMessageId =
     (if error_code \<in> {16, 17, 19, 32, 33, 64} then 0 else lastOutgoingMessageId)"

definition bad_server_salt_last :: "int \<Rightarrow> int \<Rightarrow> int" where
  "bad_server_salt_last messageId lastOutgoingMessageId =
     (if messageId \<noteq> 0
      then of_bool (messageId > (if lastOutgoingMessageId \<noteq> 0 then messageId else lastOutgoingMessageId))
      else lastOutgoingMessageId)"

text \<open>\<open>requestId\<close> is not set where a message is made here.\<close>

record NetworkMessage =
  nm_message :: TL_message
  nm_invokeAfter :: bool
  nm_needQuickAck :: bool

definition generateConfirmationRequest ::
    "int \<Rightarrow> ConnectionSession \<Rightarrow> int \<Rightarrow> (NetworkMessage option \<times> ConnectionSession \<times> int) option" where
  "generateConfirmationRequest clock s lastOutgoingMessageId =
     (if cs_messagesIdsForConfirmation s \<noteq> [] then do {
        let msgAck = \<lparr>TL_msgs_ack_msg_ids = cs_messagesIdsForConfirmation s\<rparr>;
        os \<leftarrow> TL_msgs_ack_serializeToStream msgAck (NativeByteBuffer_calc True);
        (messageId, lastOutgoingMessageId) \<leftarrow> generateMessageId clock lastOutgoingMessageId;
        let (seqno, s) = generateMessageSeqNo False s;
        Some (Some \<lparr>nm_message = TL_message (word_of_int messageId) seqno (nb_capacity os) (Some (O_incoming (I_TL_msgs_ack msgAck))) None None,
                nm_invokeAfter = False, nm_needQuickAck = False\<rparr>,
              s\<lparr>cs_messagesIdsForConfirmation := []\<rparr>, lastOutgoingMessageId)
      }
      else Some (None, s, lastOutgoingMessageId))"

subsection \<open>Trimming the processed identifiers\<close>

lemma trim_keeps:
  fixes xs :: "ulong list"
  assumes "length xs > n"
  defines "zs \<equiv> drop n (sort_key sint xs)"
  shows "hd zs \<in> set xs" and "set zs \<subseteq> set xs" and "hd zs \<in> set zs" and "z \<in> set zs \<Longrightarrow> sint (hd zs) \<le> sint z"
    and "x \<in> set xs \<Longrightarrow> x \<in> set zs \<or> sint x < sint (hd zs)"
proof -
  let ?ys = "sort_key sint xs"
  have ys: "?ys = take n ?ys @ zs" by (simp add: zs_def)
  have ne: "zs \<noteq> []" using assms(1) by (simp add: zs_def)
  have sub: "set zs \<subseteq> set xs" using set_drop_subset [of n ?ys] by (simp add: zs_def)
  then show "set zs \<subseteq> set xs" "hd zs \<in> set xs" "hd zs \<in> set zs" using ne hd_in_set [of zs] by auto
  have "sorted (map sint (take n ?ys @ zs))" using ys sorted_sort_key [of sint xs] by simp
  then have le: "\<And>x z. x \<in> set (take n ?ys) \<Longrightarrow> z \<in> set zs \<Longrightarrow> sint x \<le> sint z" and s: "sorted (map sint zs)"
    by (auto simp: sorted_append)
  show "sint (hd zs) \<le> sint z" if "z \<in> set zs" for z using s that by (cases zs) auto
  show "x \<in> set zs \<or> sint x < sint (hd zs)" if x: "x \<in> set xs" for x
  proof -
    have "x \<in> set (take n ?ys @ zs)" using x ys by (metis set_sort)
    then consider "x \<in> set zs" | "x \<in> set (take n ?ys)" by auto
    then show ?thesis
    proof cases
      case 2
      then have "sint x \<le> sint (hd zs)" using le hd_in_set [OF ne] by blast
      moreover have "sint x = sint (hd zs) \<Longrightarrow> x \<in> set zs" using hd_in_set [OF ne] by (metis signed_word_eqI)
      ultimately show ?thesis by linarith
    qed simp
  qed
qed

lemma trim_raises:
  fixes xs :: "ulong list"
  assumes "length xs > n" and "length (filter (\<lambda>i. sint i < m) xs) \<le> n"
  shows "m \<le> sint (hd (drop n (sort_key sint xs)))"
proof (rule ccontr)
  let ?ys = "sort_key sint xs" and ?P = "\<lambda>i. sint (i :: ulong) < m"
  assume "\<not> ?thesis"
  then have h: "sint (?ys ! n) < m" using assms(1) by (simp add: hd_drop_conv_nth)
  have "\<forall>x \<in> set (take (Suc n) ?ys). ?P x"
  proof
    fix x
    assume "x \<in> set (take (Suc n) ?ys)"
    then obtain k where k: "k \<le> n" "x = ?ys ! k" using assms(1) by (auto simp: in_set_conv_nth less_Suc_eq_le)
    then have "map sint ?ys ! k \<le> map sint ?ys ! n" using assms(1) by (intro sorted_nth_mono) simp_all
    then show "?P x" using k h assms(1) by simp
  qed
  then have "length (filter ?P (take (Suc n) ?ys)) = Suc n" using assms(1) by (simp add: filter_id_conv)
  moreover have "length (filter ?P (take (Suc n) ?ys)) \<le> length (filter ?P ?ys)"
    by (metis append_take_drop_id filter_append le_add1 length_append)
  moreover have "length (filter ?P ?ys) = length (filter ?P xs)"
    by (simp add: filter_sort)
  ultimately show False using assms(2) by simp
qed

subsection \<open>Invariant\<close>

text \<open>\<open>current\<close> are the identifiers added since the session was last recreated, \<open>every\<close> all of them.  Once a trim has
  happened in the session at most as many entries lie below the minimum as were appended since.\<close>

definition session_inv :: "ConnectionSession \<Rightarrow> ulong list \<Rightarrow> ulong list \<Rightarrow> bool" where
  "session_inv s current every \<longleftrightarrow>
     (let ids = cs_processedMessageIds s; lowest = cs_minProcessedMessageId s in
      length ids \<le> 301 \<and> set ids \<subseteq> set every \<and> set current \<subseteq> set every \<and> (lowest = 0 \<or> lowest \<in> set every) \<and>
      (set current \<subseteq> set ids \<or>
       lowest \<noteq> 0 \<and> length (filter (\<lambda>i. sint i < sint lowest) ids) + 201 \<le> length ids \<and>
       (\<forall>i \<in> set current. i \<in> set ids \<or> sint i < sint lowest)))"

lemma session_inv_add:
  assumes "session_inv s current every" and "m \<noteq> 0" and "0 \<notin> set every"
  shows "session_inv (addProcessedMessageId m s) (m # current) (m # every)"
proof (cases "length (cs_processedMessageIds s) > 300")
  case False
  then show ?thesis using assms unfolding session_inv_def addProcessedMessageId_def Let_def by auto
next
  case True
  let ?ids = "cs_processedMessageIds s" and ?low = "cs_minProcessedMessageId s"
  let ?zs = "drop 100 (sort_key sint ?ids)"
  have len: "length ?ids = 301" using True assms(1) by (simp add: session_inv_def Let_def)
  note t = trim_keeps [of 100 ?ids]
  have low: "hd ?zs \<noteq> 0" "hd ?zs \<in> set every" using t(1) len assms(1,3) by (auto simp: session_inv_def Let_def)
  have none: "filter (\<lambda>i. sint i < sint (hd ?zs)) ?zs = []" using t(4) len by (fastforce simp: filter_empty_conv)
  have kept: "i \<in> set ?zs \<or> sint i < sint (hd ?zs)" if i: "i \<in> set current" for i
  proof (cases "i \<in> set ?ids")
    case True
    then show ?thesis using t(5) len by simp
  next
    case False
    then have "length (filter (\<lambda>i. sint i < sint ?low) ?ids) \<le> 100" "sint i < sint ?low"
      using i assms(1) len by (auto simp: session_inv_def Let_def)
    then show ?thesis using trim_raises [of 100 ?ids "sint ?low"] len by simp
  qed
  have "set ?zs \<subseteq> set every" "set current \<subseteq> set every"
    using t(2) len assms(1) by (auto simp: session_inv_def Let_def)
  then show ?thesis using len low none kept by (auto simp: session_inv_def addProcessedMessageId_def Let_def)
qed

inductive session_reachable :: "ConnectionSession \<Rightarrow> ulong list \<Rightarrow> ulong list \<Rightarrow> bool" where
  start: "session_reachable (ConnectionSession_new i) [] []"
| add: "session_reachable s current every \<Longrightarrow> session_reachable (addProcessedMessageId m s) (m # current) (m # every)"
| recreate: "session_reachable s current every \<Longrightarrow> session_reachable (recreateSession rnd s) [] every"
| set_id: "session_reachable s current every \<Longrightarrow> session_reachable (setSessionId i s) current every"
| seqno: "session_reachable s current every \<Longrightarrow> session_reachable (snd (generateMessageSeqNo b s)) current every"
| to_confirm: "session_reachable s current every \<Longrightarrow> session_reachable (addMessageToConfirm m s) current every"
| confirm: "session_reachable s current every \<Longrightarrow> generateConfirmationRequest clock s l = Some (r, s', l') \<Longrightarrow>
    session_reachable s' current every"
| change: "session_reachable s current every \<Longrightarrow> session_reachable (addProcessedSession i s) current every"

lemma confirmation_keeps:
  "generateConfirmationRequest clock s l = Some (r, s', l') \<Longrightarrow>
     cs_processedMessageIds s' = cs_processedMessageIds s \<and> cs_minProcessedMessageId s' = cs_minProcessedMessageId s"
  by (auto simp: generateConfirmationRequest_def generateMessageSeqNo_def Let_def split: if_splits Option.bind_splits prod.splits)

lemma session_inv_reachable: "session_reachable s current every \<Longrightarrow> 0 \<notin> set every \<Longrightarrow> session_inv s current every"
proof (induction rule: session_reachable.induct)
  case (add s current every m)
  then show ?case by (intro session_inv_add) auto
next
  case (confirm s current every clock l r s' l')
  then show ?case using confirmation_keeps [OF confirm.hyps(2)] by (simp add: session_inv_def)
qed (auto simp: session_inv_def Let_def ConnectionSession_new_def recreateSession_def genereateNewSessionId_def setSessionId_def
    generateMessageSeqNo_def addMessageToConfirm_def addProcessedSession_def)

text \<open>C14. No message is processed twice, and none is dropped for being new.  In whatever order a session's operations
  are called, every message id recorded since the session was last recreated is reported as processed, although only
  301 ids are kept (the oldest hundred are dropped at a time and only the smallest kept id is remembered); and an odd id
  above every id ever recorded is not.  The ids are non-zero, since even ids are never accepted.\<close>

theorem replays_rejected:
  assumes "session_reachable s current every" and "0 \<notin> set every"
  shows "(\<forall>i \<in> set current. isMessageIdProcessed i s) \<and> length (cs_processedMessageIds s) \<le> 301 \<and>
    (\<forall>i. i AND 1 \<noteq> 0 \<longrightarrow> (\<forall>j \<in> set every. sint j < sint i) \<longrightarrow> \<not> isMessageIdProcessed i s)"
  using session_inv_reachable [OF assms] by (fastforce simp: session_inv_def Let_def isMessageIdProcessed_def)

theorem replays_rejected_witness:
  "isMessageIdProcessed 5 (addProcessedMessageId 9 (addProcessedMessageId 5 (ConnectionSession_new 0))) \<and>
   \<not> isMessageIdProcessed 11 (addProcessedMessageId 9 (addProcessedMessageId 5 (ConnectionSession_new 0)))"
proof -
  have "session_reachable (addProcessedMessageId 9 (addProcessedMessageId 5 (ConnectionSession_new 0))) [9, 5] [9, 5]"
    by (intro session_reachable.add session_reachable.start)
  from replays_rejected [OF this] show ?thesis by simp
qed

subsection \<open>Outgoing identifiers\<close>

lemma align_id_Some:
  assumes "m \<le> 2 ^ 63 - 4"
  shows "align_id m = Some (m + (- m) mod 4)"
proof -
  have step: "align_id m = (if m mod 4 = 0 then Some m else align_id (m + 1))" if "m < 2 ^ 63 - 1" for m
    using that by (subst align_id.simps) auto
  have m: "m < 2 ^ 63 - 1" "m + 1 < 2 ^ 63 - 1" "m + 2 < 2 ^ 63 - 1" "m + 3 < 2 ^ 63" using assms by simp_all
  have "m mod 4 = 0 \<or> m mod 4 = 1 \<or> m mod 4 = 2 \<or> m mod 4 = 3" by presburger
  then consider "m mod 4 = 0" | "m mod 4 = 1" | "m mod 4 = 2" | "m mod 4 = 3" by blast
  then show ?thesis
  proof cases
    case 2
    then have "(m + 1) mod 4 \<noteq> 0" "(m + 2) mod 4 \<noteq> 0" "(m + 3) mod 4 = 0" "(- m) mod 4 = 3" by presburger+
    then show ?thesis using 2 step [OF m(1)] step [OF m(2)] step [OF m(3)] align_id.simps [of "m + 3"] by (simp add: ac_simps)
  next
    case 3
    then have "(m + 1) mod 4 \<noteq> 0" "(m + 2) mod 4 = 0" "(- m) mod 4 = 2" by presburger+
    then show ?thesis using 3 step [OF m(1)] step [OF m(2)] step [OF m(3)] by (simp add: ac_simps)
  next
    case 4
    then have "(m + 1) mod 4 = 0" "(- m) mod 4 = 1" by presburger+
    then show ?thesis using 4 step [OF m(1)] step [OF m(2)] by simp
  next
    case 1
    then have "(- m) mod 4 = 0" by presburger
    then show ?thesis using 1 step [OF m(1)] by simp
  qed
qed

text \<open>Everything that touches \<open>lastOutgoingMessageId\<close>: an id is made at a reading of the clock, or a server reports a wrong
  message or a wrong salt.\<close>

datatype id_event = Generate int | Bad_msg_notification int | Bad_server_salt int

fun restarts :: "id_event \<Rightarrow> bool" where
  "restarts (Generate clock) = False"
| "restarts (Bad_msg_notification error_code) = (error_code \<in> {16, 17, 19, 32, 33, 64})"
| "restarts (Bad_server_salt messageId) = (messageId \<noteq> 0)"

text \<open>The ids of a run with the readings they were made at, a new list after every restart.\<close>

fun id_runs :: "id_event list \<Rightarrow> int \<Rightarrow> (int \<times> int) list list option" where
  "id_runs [] l = Some [[]]"
| "id_runs (Generate clock # evs) l = do {
     (messageId, l) \<leftarrow> generateMessageId clock l;
     runs \<leftarrow> id_runs evs l;
     Some (((clock, messageId) # hd runs) # tl runs)
   }"
| "id_runs (Bad_msg_notification error_code # evs) l = do {
     runs \<leftarrow> id_runs evs (bad_msg_notification_last error_code l);
     Some (if restarts (Bad_msg_notification error_code) then [] # runs else runs)
   }"
| "id_runs (Bad_server_salt messageId # evs) l = do {
     runs \<leftarrow> id_runs evs (bad_server_salt_last messageId l);
     Some (if restarts (Bad_server_salt messageId) then [] # runs else runs)
   }"

fun readings :: "id_event list \<Rightarrow> int list" where
  "readings [] = []"
| "readings (Generate clock # evs) = clock # readings evs"
| "readings (e # evs) = readings evs"

lemma generateMessageId_step:
  assumes "clock \<le> 2 ^ 63 - 4" and "l \<le> 2 ^ 63 - 5"
  shows "\<exists>i. generateMessageId clock l = Some (i, i) \<and> l < i \<and> clock \<le> i \<and> i \<le> max clock (l + 1) + 3 \<and> i mod 4 = 0"
proof -
  define k where "k = (if clock \<le> l then l + 1 else clock)"
  have a: "align_id k = Some (k + (- k) mod 4)" by (rule align_id_Some) (use assms in \<open>auto simp: k_def\<close>)
  have "generateMessageId clock l = Option.bind (align_id k) (\<lambda>m. Some (m, m))"
    using assms by (auto simp: generateMessageId_def k_def)
  then have "generateMessageId clock l = Some (k + (- k) mod 4, k + (- k) mod 4)" by (simp add: a)
  moreover have "l < k + (- k) mod 4" "clock \<le> k + (- k) mod 4" "k + (- k) mod 4 \<le> max clock (l + 1) + 3"
    using pos_mod_sign [of 4 "- k"] pos_mod_bound [of 4 "- k"] by (auto simp: k_def split: if_splits)
  moreover have "(k + (- k) mod 4) mod 4 = 0" by (simp add: mod_add_right_eq)
  ultimately show ?thesis by (intro exI [of _ "k + (- k) mod 4"] conjI)
qed

text \<open>A run of ids that begins after the id \<open>l\<close>.\<close>

definition id_run_ok :: "int \<Rightarrow> (int \<times> int) list \<Rightarrow> bool" where
  "id_run_ok l run \<longleftrightarrow> sorted_wrt (<) (l # map snd run) \<and>
     (\<forall>(clock, i) \<in> set run. i mod 4 = 0 \<and> clock \<le> i) \<and>
     (\<forall>clock i rest. run = (clock, i) # rest \<longrightarrow> i \<le> max clock (l + 1) + 3)"

definition id_runs_ok :: "int \<Rightarrow> (int \<times> int) list list \<Rightarrow> bool" where
  "id_runs_ok l runs \<longleftrightarrow> runs \<noteq> [] \<and> id_run_ok l (hd runs) \<and> (\<forall>run \<in> set (tl runs). id_run_ok 0 run \<or> id_run_ok 1 run)"

lemma id_runs_ok_Generate:
  assumes "id_runs_ok i runs" and "l < i" and "clock \<le> i" and "i \<le> max clock (l + 1) + 3" and "i mod 4 = 0"
  shows "id_runs_ok l (((clock, i) # hd runs) # tl runs)"
  using assms by (fastforce simp: id_runs_ok_def id_run_ok_def)

lemma id_runs_ok_restart: "id_runs_ok k runs \<Longrightarrow> k \<in> {0, 1} \<Longrightarrow> id_runs_ok l ([] # runs)"
  by (cases runs) (auto simp: id_runs_ok_def id_run_ok_def)

lemma id_runs_all:
  assumes "\<forall>c \<in> set (readings evs). c \<le> bound" and "1 \<le> bound" and "l \<le> bound" and "bound + 4 * int (length evs) \<le> 2 ^ 63 - 5"
  shows "\<exists>runs. id_runs evs l = Some runs \<and> id_runs_ok l runs \<and> map fst (concat runs) = readings evs \<and>
    length runs = Suc (length (filter restarts evs))"
  using assms
proof (induction evs arbitrary: l bound)
  case Nil
  then show ?case by (simp add: id_runs_ok_def id_run_ok_def)
next
  case (Cons e evs)
  show ?case
  proof (cases e)
    case (Generate c)
    obtain i where i: "generateMessageId c l = Some (i, i)" "l < i" "c \<le> i" "i \<le> max c (l + 1) + 3" "i mod 4 = 0"
      using generateMessageId_step [of c l] Cons.prems by (force simp: Generate)
    have "i \<le> bound + 4" using i(4) Cons.prems by (force simp: Generate)
    then obtain runs where r: "id_runs evs i = Some runs" "id_runs_ok i runs" "map fst (concat runs) = readings evs"
        "length runs = Suc (length (filter restarts evs))"
      using Cons.IH [of "bound + 4" i] Cons.prems by (force simp: Generate)
    from r(2) have "runs \<noteq> []" by (simp add: id_runs_ok_def)
    then show ?thesis using i r id_runs_ok_Generate [OF r(2) i(2-5)] by (cases runs) (simp_all add: Generate)
  next
    case (Bad_msg_notification code)
    let ?l = "bad_msg_notification_last code l"
    have "?l \<le> bound" using Cons.prems by (simp add: bad_msg_notification_last_def)
    then obtain runs where r: "id_runs evs ?l = Some runs" "id_runs_ok ?l runs" "map fst (concat runs) = readings evs"
        "length runs = Suc (length (filter restarts evs))"
      using Cons.IH [of bound ?l] Cons.prems by (force simp: Bad_msg_notification)
    have "restarts e \<Longrightarrow> ?l = 0" "\<not> restarts e \<Longrightarrow> ?l = l" by (auto simp: Bad_msg_notification bad_msg_notification_last_def)
    then show ?thesis using r id_runs_ok_restart [of ?l runs l] by (cases "restarts e") (simp_all add: Bad_msg_notification)
  next
    case (Bad_server_salt m)
    let ?l = "bad_server_salt_last m l"
    have "?l \<le> bound" using Cons.prems by (simp add: bad_server_salt_last_def)
    then obtain runs where r: "id_runs evs ?l = Some runs" "id_runs_ok ?l runs" "map fst (concat runs) = readings evs"
        "length runs = Suc (length (filter restarts evs))"
      using Cons.IH [of bound ?l] Cons.prems by (force simp: Bad_server_salt)
    have "restarts e \<Longrightarrow> ?l \<in> {0, 1}" "\<not> restarts e \<Longrightarrow> ?l = l" by (auto simp: Bad_server_salt bad_server_salt_last_def)
    then show ?thesis using r id_runs_ok_restart [of ?l runs l] by (cases "restarts e") (simp_all add: Bad_server_salt)
  qed
qed

text \<open>C18. Outgoing message ids, over every run of the calls that touch \<open>lastOutgoingMessageId\<close>.  Ids are divisible by four
  and never below the reading of the clock they are made at, whatever the clock does, and the aligning loop ends, as long
  as the clock stays clear of the end of the 64-bit range.  Up to the first report of a wrong message or salt, and
  between two such reports, they increase strictly.  A report ends that: whatever ids were used before, the first one
  after it is at most three above its clock reading (or 5), so that ids go down or repeat when the report set the clock back.\<close>

theorem message_ids_increase:
  assumes "\<forall>c \<in> set (readings evs). c \<le> bound" and "1 \<le> bound" and "l \<le> bound"
    and "bound + 4 * int (length evs) \<le> 2 ^ 63 - 5"
  shows "\<exists>runs. id_runs evs l = Some runs \<and> map fst (concat runs) = readings evs \<and>
    length runs = Suc (length (filter restarts evs)) \<and>
    sorted_wrt (<) (l # map snd (hd runs)) \<and> (\<forall>run \<in> set runs. sorted_wrt (<) (map snd run)) \<and>
    (\<forall>(clock, i) \<in> set (concat runs). i mod 4 = 0 \<and> clock \<le> i) \<and>
    (\<forall>run \<in> set (tl runs). \<forall>clock i rest. run = (clock, i) # rest \<longrightarrow> i \<le> max clock 2 + 3)"
proof -
  obtain runs where r: "id_runs evs l = Some runs" "id_runs_ok l runs" "map fst (concat runs) = readings evs"
      "length runs = Suc (length (filter restarts evs))" using id_runs_all [OF assms] by blast
  have run: "run = hd runs \<or> run \<in> set (tl runs)" if "run \<in> set runs" for run using that by (cases runs) auto
  have ok: "\<exists>k. id_run_ok k run" if "run \<in> set runs" for run using run [OF that] r(2) by (auto simp: id_runs_ok_def)
  have later: "id_run_ok 0 run \<or> id_run_ok 1 run" if "run \<in> set (tl runs)" for run using that r(2) by (auto simp: id_runs_ok_def)
  have "sorted_wrt (<) (map snd run) \<and> (\<forall>(clock, i) \<in> set run. i mod 4 = 0 \<and> clock \<le> i)" if "run \<in> set runs" for run
    using ok [OF that] by (auto simp: id_run_ok_def)
  moreover have "i \<le> max clock 2 + 3" if "(clock, i) # rest \<in> set (tl runs)" for clock i rest
    using later [OF that] by (auto simp: id_run_ok_def)
  moreover have "sorted_wrt (<) (l # map snd (hd runs))" using r(2) by (simp add: id_runs_ok_def id_run_ok_def)
  ultimately show ?thesis using r by (intro exI [of _ runs] conjI) (auto simp del: sorted_wrt.simps)
qed

theorem message_ids_increase_witness:
  "id_runs [Generate 10, Generate 10, Generate 3, Bad_server_salt 7, Generate 11] 0 =
     Some [[(10, 12), (10, 16), (3, 20)], [(11, 12)]] \<and> sorted_wrt (<) [0, 12, 16, 20 :: int]"
proof -
  let ?evs = "[Generate 10, Generate 10, Generate 3, Bad_server_salt 7, Generate 11]"
  have "id_runs ?evs 0 = Some [[(10, 12), (10, 16), (3, 20)], [(11, 12)]]"
    by (simp add: generateMessageId_def align_id.simps bad_server_salt_last_def)
  then show ?thesis using message_ids_increase [of ?evs 11 0] by simp
qed

subsection \<open>Confirmations\<close>

text \<open>C20. Confirmations.  When message ids are pending, the request built for them acknowledges exactly those ids in
  order, is not content-related (an even sequence number that uses none up), announces the exact length of its body,
  and writes to that wire format; afterwards nothing is pending and everything else in the session is unchanged.\<close>

theorem confirmation_request_exact:
  assumes "cs_messagesIdsForConfirmation s \<noteq> []" and "length (cs_messagesIdsForConfirmation s) < 2 ^ 27"
    and "clock \<le> 2 ^ 63 - 4" and "l \<le> 2 ^ 63 - 5"
  shows "\<exists>m i. generateConfirmationRequest clock s l = Some (Some m, s\<lparr>cs_messagesIdsForConfirmation := []\<rparr>, i) \<and>
    l < i \<and> i mod 4 = 0 \<and> TL_message_msg_id (nm_message m) = word_of_int i \<and>
    TL_message_seqno (nm_message m) = 2 * cs_nextSeqNo s \<and>
    TL_message_body (nm_message m) = Some (O_incoming (I_TL_msgs_ack \<lparr>TL_msgs_ack_msg_ids = cs_messagesIdsForConfirmation s\<rparr>)) \<and>
    unat (TL_message_bytes (nm_message m)) = 12 + 8 * length (cs_messagesIdsForConfirmation s) \<and>
    emits (TL_message_serializeToStream (nm_message m)) (TL_message_wire (nm_message m)) \<and>
    length (TL_message_wire (nm_message m)) = 16 + unat (TL_message_bytes (nm_message m))"
proof -
  let ?ids = "cs_messagesIdsForConfirmation s"
  let ?ack = "\<lparr>TL_msgs_ack_msg_ids = ?ids\<rparr>"
  define n where "n = (word_of_nat (length (TL_msgs_ack_wire ?ack)) :: u32)"
  have wf: "TL_msgs_ack_wf ?ack" using assms(2) by (simp add: TL_msgs_ack_wf_def)
  have len: "length (TL_msgs_ack_wire ?ack) = 12 + 8 * length ?ids" by (simp add: TL_msgs_ack_wire_def TL_msgs_ack_params_def)
  have n: "unat n = 12 + 8 * length ?ids" unfolding n_def len by (rule unat_len) (use assms(2) in simp)
  obtain os where os: "TL_msgs_ack_serializeToStream ?ack (NativeByteBuffer_calc True) = Some os" "nb_capacity os = n"
    using TL_msgs_ack_emits [OF wf] by (simp add: emits_def n_def NativeByteBuffer_calc_def nb_grow_def)
  obtain i where i: "generateMessageId clock l = Some (i, i)" "l < i" "i mod 4 = 0"
    using generateMessageId_step [OF assms(3,4)] by auto
  let ?m = "TL_message (word_of_int i) (2 * cs_nextSeqNo s) n (Some (O_incoming (I_TL_msgs_ack ?ack))) None None"
  have "generateConfirmationRequest clock s l = Some (Some \<lparr>nm_message = ?m, nm_invokeAfter = False, nm_needQuickAck = False\<rparr>,
      s\<lparr>cs_messagesIdsForConfirmation := []\<rparr>, i)"
    using assms(1) by (simp add: generateConfirmationRequest_def Let_def os i(1) generateMessageSeqNo_def mult.commute)
  moreover have "emits (TL_message_serializeToStream ?m) (TL_message_wire ?m)"
    by (rule serializeToStream_emits(2)) (simp add: wf)
  moreover have "length (TL_message_wire ?m) = 16 + unat n" using len n by simp
  ultimately show ?thesis using i n
    by (intro exI [of _ "\<lparr>nm_message = ?m, nm_invokeAfter = False, nm_needQuickAck = False\<rparr>"] exI [of _ i]) simp
qed

theorem confirmation_request_exact_witness:
  "\<exists>m i. generateConfirmationRequest 40 (addMessageToConfirm 7 (ConnectionSession_new 0)) 0 =
     Some (Some m, ConnectionSession_new 0, i) \<and> unat (TL_message_bytes (nm_message m)) = 20"
proof -
  let ?s = "addMessageToConfirm 7 (ConnectionSession_new 0)"
  have "cs_messagesIdsForConfirmation ?s = [7]" "?s\<lparr>cs_messagesIdsForConfirmation := []\<rparr> = ConnectionSession_new 0"
    by (simp_all add: addMessageToConfirm_def ConnectionSession_new_def)
  then show ?thesis using confirmation_request_exact [of ?s 40 0] by auto
qed

end
