(* ===== verification/Cipher_Modes.thy ===== *)
theory Cipher_Modes
  imports Byte_Reader
begin

unbundle bit_operations_syntax

section \<open>Counter mode and infinite garble extension\<close>

text \<open>
  The cipher modes of \<open>boringssl\<close> the network library calls: \<open>CRYPTO_ctr128_encrypt\<close> (\<open>modes/ctr.c\<close>, through
  \<open>AES_ctr128_encrypt\<close>) and \<open>AES_ige_encrypt\<close> (\<open>aes/aes_ige.c\<close>).  The block cipher itself is generated assembly and is a parameter: the byte of its result
  at each place.  \<open>size_t\<close> has 64 bits.  All paths of the counter mode are shown to be the byte by byte one, which makes
  it a \<open>stream_cipher\<close>: the interface connections rely on.
\<close>

subsection \<open>Counter mode\<close>

text \<open>The state a caller keeps: the key, the counter, the last block of the key stream and how much of it is used.\<close>

record 'key ctr_state =
  ct_key :: 'key
  ct_ivec :: "byte list"
  ct_ecount_buf :: "byte list"
  ct_num :: nat

text \<open>\<open>do { --n; c += counter[n]; counter[n] = (uint8_t) c; c >>= 8; } while (n)\<close>.\<close>

primrec ctr128_inc_loop :: "nat \<Rightarrow> u32 \<Rightarrow> byte list \<Rightarrow> byte list" where
  "ctr128_inc_loop 0 c counter = counter"
| "ctr128_inc_loop (Suc n) c counter =
     (let c = c + ucast (counter ! n) in ctr128_inc_loop n (drop_bit 8 c) (counter[n := ucast c]))"

definition ctr128_inc :: "byte list \<Rightarrow> byte list" where
  "ctr128_inc counter = ctr128_inc_loop 16 1 counter"

text \<open>\<open>block\<close> is the block cipher \<open>AES_encrypt\<close>: a key, a block of 16 bytes, and which byte of the result.\<close>

type_synonym 'key block128 = "'key \<Rightarrow> byte list \<Rightarrow> nat \<Rightarrow> byte"

definition block128 :: "'key block128 \<Rightarrow> 'key \<Rightarrow> byte list \<Rightarrow> byte list" where
  "block128 block key xs = map (block key xs) [0..<16]"

definition next_block :: "'key block128 \<Rightarrow> 'key ctr_state \<Rightarrow> 'key ctr_state" where
  "next_block block s = s\<lparr>ct_ecount_buf := block128 block (ct_key s) (ct_ivec s), ct_ivec := ctr128_inc (ct_ivec s)\<rparr>"

text \<open>The first loop: what is left of the last block.\<close>

fun ctr_rest :: "'key ctr_state \<Rightarrow> byte list \<Rightarrow> byte list \<times> byte list \<times> 'key ctr_state" where
  "ctr_rest s [] = ([], [], s)"
| "ctr_rest s (x # xs) = (if ct_num s = 0 then ([], x # xs, s)
     else let (out, xs, s') = ctr_rest (s\<lparr>ct_num := (ct_num s + 1) mod 16\<rparr>) xs
          in ((x XOR ct_ecount_buf s ! ct_num s) # out, xs, s'))"

text \<open>The loop for buffers that are not aligned, where the machine needs alignment.\<close>

fun ctr_bytes :: "'key block128 \<Rightarrow> 'key ctr_state \<Rightarrow> byte list \<Rightarrow> byte list \<times> 'key ctr_state" where
  "ctr_bytes block s [] = ([], s)"
| "ctr_bytes block s (x # xs) =
     (let s = (if ct_num s = 0 then next_block block s else s);
          (out, s') = ctr_bytes block (s\<lparr>ct_num := (ct_num s + 1) mod 16\<rparr>) xs
      in ((x XOR ct_ecount_buf s ! ct_num s) # out, s'))"

text \<open>The loop over whole blocks, eight bytes at a time.\<close>

definition load_word_le :: "byte list \<Rightarrow> nat \<Rightarrow> 64 word" where
  "load_word_le xs n = foldr (\<lambda>i w. push_bit 8 w OR ucast (xs ! (n + i))) [0..<8] 0"

definition store_word_le :: "64 word \<Rightarrow> byte list" where
  "store_word_le w = map (\<lambda>i. ucast (drop_bit (8 * i) w)) [0..<8]"

definition xor_block :: "byte list \<Rightarrow> byte list \<Rightarrow> byte list" where
  "xor_block xs ys = concat (map (\<lambda>n. store_word_le (load_word_le xs n XOR load_word_le ys n)) [0, 8])"

fun ctr_blocks :: "'key block128 \<Rightarrow> 'key ctr_state \<Rightarrow> byte list \<Rightarrow> byte list \<times> byte list \<times> 'key ctr_state" where
  "ctr_blocks block s xs = (if length xs < 16 then ([], xs, s)
     else let s = next_block block s;
              out = xor_block xs (ct_ecount_buf s);
              (out', ys, s') = ctr_blocks block (s\<lparr>ct_num := 0\<rparr>) (drop 16 xs)
          in (out @ out', ys, s'))"

declare ctr_blocks.simps [simp del]

text \<open>\<open>while (len--) { out[n] = in[n] ^ ecount_buf[n]; ++n; }\<close>\<close>

primrec ctr_tail :: "byte list \<Rightarrow> nat \<Rightarrow> nat \<Rightarrow> byte list \<Rightarrow> byte list \<times> nat" where
  "ctr_tail e 0 n xs = (xs, n)"
| "ctr_tail e (Suc len) n xs = ctr_tail e len (n + 1) (xs[n := xs ! n XOR e ! n])"

text \<open>\<open>unaligned\<close>: \<open>STRICT_ALIGNMENT\<close> is set and a pointer is not aligned after the first loop.\<close>

definition CRYPTO_ctr128_encrypt ::
    "bool \<Rightarrow> 'key block128 \<Rightarrow> 'key ctr_state \<Rightarrow> byte list \<Rightarrow> byte list \<times> 'key ctr_state" where
  "CRYPTO_ctr128_encrypt unaligned block s xs =
     (let (out, xs, s) = ctr_rest s xs in
      if unaligned then let (out', s) = ctr_bytes block s xs in (out @ out', s)
      else
        let (out', xs, s) = ctr_blocks block s xs in
        if xs \<noteq> [] then
          let s = next_block block s;
              (out'', n) = ctr_tail (ct_ecount_buf s) (length xs) (ct_num s) xs
          in (out @ out' @ out'', s\<lparr>ct_num := n\<rparr>)
        else (out @ out', s))"

definition AES_ctr128_encrypt ::
    "bool \<Rightarrow> 'key block128 \<Rightarrow> 'key ctr_state \<Rightarrow> byte list \<Rightarrow> byte list \<times> 'key ctr_state" where
  "AES_ctr128_encrypt unaligned AES_encrypt s xs = CRYPTO_ctr128_encrypt unaligned AES_encrypt s xs"

subsection \<open>Words are eight bytes\<close>

lemma bit_bytes_word:
  "bit (foldr (\<lambda>b w. push_bit 8 w OR ucast b) ys 0 :: 64 word) m \<longleftrightarrow>
   m < 64 \<and> m < 8 * length ys \<and> bit (ys ! (m div 8) :: byte) (m mod 8)"
proof (induction ys arbitrary: m)
  case (Cons y ys)
  show ?case
  proof (cases "m < 8")
    case True
    then show ?thesis by (auto simp: bit_or_iff bit_push_bit_iff bit_ucast_iff)
  next
    case False
    have y: "\<not> bit y m" using False byte_bit_bound [of y m] by blast
    obtain k where k: "m = k + 8" using False by (metis add.commute le_Suc_ex not_less)
    have "(k + 8) div 8 - 1 = k div 8" by simp
    then show ?thesis using y Cons.IH [of k] by (auto simp: k bit_or_iff bit_push_bit_iff bit_ucast_iff)
  qed
qed simp

lemma bit_load_word: "bit (load_word_le xs n) m \<longleftrightarrow> m < 64 \<and> bit (xs ! (n + m div 8)) (m mod 8)"
proof -
  have "load_word_le xs n = foldr (\<lambda>b w. push_bit 8 w OR ucast b) (map (\<lambda>i. xs ! (n + i)) [0..<8]) 0"
    by (simp add: load_word_le_def foldr_map comp_def)
  moreover have "m < 64 \<Longrightarrow> m div 8 < 8" by simp
  ultimately show ?thesis by (auto simp: bit_bytes_word simp del: upt_rec_numeral)
qed

lemma xor_block_eq:
  assumes "16 \<le> length xs" and "length ys = 16"
  shows "xor_block xs ys = map2 (XOR) (take 16 xs) ys"
proof (rule nth_equalityI)
  have word: "store_word_le (load_word_le xs n XOR load_word_le ys n) = map (\<lambda>i. xs ! (n + i) XOR ys ! (n + i)) [0..<8]" for n
    unfolding store_word_le_def
  proof (rule map_cong [OF refl])
    fix i :: nat
    assume "i \<in> set [0..<8]"
    then have "i < 8" by simp
    then show "(ucast (drop_bit (8 * i) (load_word_le xs n XOR load_word_le ys n)) :: byte) = xs ! (n + i) XOR ys ! (n + i)"
      by (intro bit_eqI) (auto simp: bit_ucast_byte bit_drop_bit_eq bit_xor_iff bit_load_word dest: byte_bit_bound)
  qed
  show "length (xor_block xs ys) = length (map2 (XOR) (take 16 xs) ys)"
    using assms by (simp add: xor_block_def word del: upt_rec_numeral)
  fix i
  assume "i < length (xor_block xs ys)"
  then have i: "i < 16" by (simp add: xor_block_def word del: upt_rec_numeral)
  have "xor_block xs ys ! i = xs ! i XOR ys ! i"
    using i by (cases "i < 8") (auto simp: xor_block_def word nth_append simp del: upt_rec_numeral)
  then show "xor_block xs ys ! i = map2 (XOR) (take 16 xs) ys ! i" using i assms by simp
qed

subsection \<open>All paths are the byte by byte one\<close>

definition ctr_ok :: "'key ctr_state \<Rightarrow> bool" where
  "ctr_ok s \<longleftrightarrow> ct_num s < 16 \<and> length (ct_ecount_buf s) = 16 \<and> length (ct_ivec s) = 16"

lemma length_block128 [simp]: "length (block128 block key xs) = 16"
  by (simp add: block128_def)

lemma length_ctr128_inc [simp]: "length (ctr128_inc xs) = length xs"
proof -
  have "length (ctr128_inc_loop n c xs) = length xs" for n c
    by (induction n arbitrary: c xs) (simp_all add: Let_def)
  then show ?thesis by (simp add: ctr128_inc_def)
qed

lemma ctr_rest_bytes:
  assumes "ctr_rest s xs = (out, ys, s')"
  shows "ctr_bytes block s xs = (let (out', s'') = ctr_bytes block s' ys in (out @ out', s''))"
    and "ys = [] \<or> ct_num s' = 0"
  using assms by (induction s xs arbitrary: out rule: ctr_rest.induct) (auto split: if_splits prod.splits)

lemma ctr_bytes_append:
  "ctr_bytes block s (xs @ ys) = (let (out, s) = ctr_bytes block s xs; (out', s) = ctr_bytes block s ys in (out @ out', s))"
  by (induction block s xs rule: ctr_bytes.induct) (auto simp: Let_def split: prod.splits)

text \<open>Within one block.\<close>

lemma ctr_bytes_within:
  assumes "ct_num s + length xs \<le> 16" and "ct_num s \<noteq> 0" and "ct_num s < 16" and "length (ct_ecount_buf s) = 16"
  shows "ctr_bytes block s xs = (map2 (XOR) xs (drop (ct_num s) (ct_ecount_buf s)), s\<lparr>ct_num := (ct_num s + length xs) mod 16\<rparr>)"
  using assms
proof (induction xs arbitrary: s)
  case (Cons x xs)
  let ?s = "s\<lparr>ct_num := (ct_num s + 1) mod 16\<rparr>"
  have d: "drop (ct_num s) (ct_ecount_buf s) = ct_ecount_buf s ! ct_num s # drop (ct_num s + 1) (ct_ecount_buf s)"
    using Cons.prems by (simp add: Cons_nth_drop_Suc)
  show ?case
  proof (cases "xs = []")
    case True
    then show ?thesis using Cons.prems d by simp
  next
    case False
    then have "ct_num s + 1 < 16" using Cons.prems by (cases xs) simp_all
    then show ?thesis using Cons.IH [of ?s] Cons.prems d by simp
  qed
qed simp

lemma ctr_bytes_block:
  assumes "ct_num s = 0" and "length xs \<le> 16" and "xs \<noteq> []"
  shows "ctr_bytes block s xs = (map2 (XOR) xs (ct_ecount_buf (next_block block s)), (next_block block s)\<lparr>ct_num := length xs mod 16\<rparr>)"
proof -
  obtain x ys where xs: "xs = x # ys" using assms(3) by (cases xs) auto
  let ?n = "next_block block s" and ?s = "(next_block block s)\<lparr>ct_num := 1\<rparr>"
  have n: "ct_num ?n = 0" "length (ct_ecount_buf ?n) = 16" using assms(1) by (simp_all add: next_block_def)
  then obtain e es where d: "ct_ecount_buf ?n = e # es" by (cases "ct_ecount_buf ?n") simp_all
  show ?thesis using ctr_bytes_within [of ?s ys block] assms n 
    by (simp add: xs d Let_def)
qed

lemma ctr_tail_eq:
  assumes "length xs \<le> length e"
  shows "ctr_tail e (length xs) 0 xs = (map2 (XOR) xs e, length xs)"
proof -
  have "ctr_tail e len n xs = (take n xs @ map2 (XOR) (drop n xs) (drop n e), n + len)"
    if "n + len = length xs" and "length xs \<le> length e" for len n xs
    using that
  proof (induction len arbitrary: n xs)
    case (Suc len)
    have "drop n xs = xs ! n # drop (n + 1) xs" "drop n e = e ! n # drop (n + 1) e" using Suc.prems by (simp_all add: Cons_nth_drop_Suc)
    then show ?case using Suc.IH [of "n + 1" "xs[n := xs ! n XOR e ! n]"] Suc.prems
      by (simp add: take_Suc_conv_app_nth)
  qed simp
  from this [of 0 "length xs" xs] show ?thesis using assms by simp
qed

lemma ctr_blocks_bytes:
  assumes "ctr_blocks block s xs = (out, ys, s')" and "ct_num s = 0 \<or> xs = []"
  shows "ctr_bytes block s xs = (let (out', s'') = ctr_bytes block s' ys in (out @ out', s'')) \<and> length ys < 16 \<and>
    (ct_num s' = 0 \<or> ys = [])"
  using assms
proof (induction block s xs arbitrary: out rule: ctr_blocks.induct)
  case (1 block s xs)
  show ?case
  proof (cases "length xs < 16")
    case True
    then show ?thesis using 1(2,3) by (simp add: ctr_blocks.simps [of block s xs])
  next
    case False
    let ?n = "next_block block s"
    obtain o1 where b: "ctr_blocks block (?n\<lparr>ct_num := 0\<rparr>) (drop 16 xs) = (o1, ys, s')" and o: "out = xor_block xs (ct_ecount_buf ?n) @ o1"
      using 1(2) False by (auto simp: ctr_blocks.simps [of block s xs] Let_def split: prod.splits)
    have e: "length (ct_ecount_buf ?n) = 16" by (simp add: next_block_def)
    have ne: "take 16 xs \<noteq> []" using False by auto
    have "ctr_bytes block s (take 16 xs) = (xor_block xs (ct_ecount_buf ?n), ?n\<lparr>ct_num := 0\<rparr>)"
      using ctr_bytes_block [of s "take 16 xs" block] 1(3) False ne xor_block_eq [OF _ e, of xs] by auto
    then have "ctr_bytes block s (take 16 xs @ drop 16 xs) =
        (let (out', s'') = ctr_bytes block (?n\<lparr>ct_num := 0\<rparr>) (drop 16 xs) in (xor_block xs (ct_ecount_buf ?n) @ out', s''))"
      by (simp only: ctr_bytes_append Let_def split)
    then show ?thesis using 1(1) [OF False refl refl b] o by (auto split: prod.splits)
  qed
qed

text \<open>The routine is the byte by byte one on every path.\<close>

lemma CRYPTO_ctr128_encrypt_bytes: "CRYPTO_ctr128_encrypt unaligned block s xs = ctr_bytes block s xs"
proof -
  obtain o1 ys s1 where r: "ctr_rest s xs = (o1, ys, s1)" by (metis prod_cases3)
  obtain o2 zs s2 where b: "ctr_blocks block s1 ys = (o2, zs, s2)" by (metis prod_cases3)
  note r' = ctr_rest_bytes [OF r] and b' = ctr_blocks_bytes [OF b]
  let ?n = "next_block block s2"
  have z: "ctr_bytes block s2 zs = (map2 (XOR) zs (ct_ecount_buf ?n), ?n\<lparr>ct_num := length zs\<rparr>)" if "zs \<noteq> []"
    using ctr_bytes_block [of s2 zs block] b' r'(2) that by auto
  have "ctr_tail (ct_ecount_buf ?n) (length zs) (ct_num ?n) zs = (map2 (XOR) zs (ct_ecount_buf ?n), length zs)" if "zs \<noteq> []"
    using ctr_tail_eq [of zs "ct_ecount_buf ?n"] b' r'(2) that by (auto simp: next_block_def)
  then show ?thesis using r b r' b' z by (cases "zs = []") (auto simp: CRYPTO_ctr128_encrypt_def Let_def split: prod.splits)
qed

lemma ctr_bytes_ok:
  assumes "ctr_ok s" and "ctr_bytes block s xs = (out, s')"
  shows "ctr_ok s' \<and> length out = length xs"
  using assms
proof (induction block s xs arbitrary: out rule: ctr_bytes.induct)
  case (2 block s x xs)
  let ?s = "if ct_num s = 0 then next_block block s else s"
  have "ctr_ok (?s\<lparr>ct_num := (ct_num ?s + 1) mod 16\<rparr>)" using "2.prems"(1) by (simp add: ctr_ok_def next_block_def)
  then show ?case using "2.IH" [OF refl] "2.prems"(2) by (auto simp: Let_def split: prod.splits)
qed simp

text \<open>The same state decrypts.\<close>

lemma ctr_bytes_involution: "ctr_bytes block s xs = (out, s') \<Longrightarrow> ctr_bytes block s out = (xs, s')"
proof (induction block s xs arbitrary: out rule: ctr_bytes.induct)
  case (2 block s x xs)
  let ?s = "if ct_num s = 0 then next_block block s else s"
  let ?y = "ct_ecount_buf ?s ! ct_num ?s"
  obtain o1 where o: "ctr_bytes block (?s\<lparr>ct_num := (ct_num ?s + 1) mod 16\<rparr>) xs = (o1, s')" "out = (x XOR ?y) # o1"
    using "2.prems" by (auto simp: Let_def split: prod.splits)
  have "x XOR ?y XOR ?y = x" by (simp add: xor.assoc)
  then show ?case using "2.IH" [OF refl o(1)] o(2) by (simp add: Let_def xor.assoc)
qed simp

text \<open>The counter is a big-endian number.\<close>

definition be_nat :: "byte list \<Rightarrow> nat" where
  "be_nat xs = foldl (\<lambda>a b. a * 256 + unat b) 0 xs"

lemma be_nat_snoc: "be_nat (xs @ [x]) = be_nat xs * 256 + unat x"
  by (simp add: be_nat_def)

lemma carry_arith: "((b + c div 256) mod m) * 256 + c mod 256 = (b * 256 + c) mod (256 * m :: nat)"
proof -
  have "b * 256 + c = 256 * (b + c div 256) + c mod 256" using div_mult_mod_eq [of c 256] by (simp add: algebra_simps)
  moreover have "(256 * (b + c div 256) + c mod 256) mod (256 * m) = 256 * ((b + c div 256) mod m) + c mod 256"
    by (simp add: mod_mult2_eq)
  ultimately show ?thesis by (simp add: mult.commute add.commute)
qed

lemma ctr128_inc_loop_eq:
  assumes "n \<le> length xs" and "unat c < 2 ^ 31"
  shows "\<exists>ys. ctr128_inc_loop n c xs = ys @ drop n xs \<and> length ys = n \<and> be_nat ys = (be_nat (take n xs) + unat c) mod 256 ^ n"
  using assms
proof (induction n arbitrary: c xs)
  case 0
  then show ?case by (simp add: be_nat_def)
next
  case (Suc n)
  let ?c = "c + ucast (xs ! n)"
  let ?xs = "xs[n := ucast ?c]"
  have b: "unat (xs ! n) < 256" using unsigned_less [of "xs ! n"] by simp
  have x: "unat (ucast (xs ! n) :: u32) = unat (xs ! n)" using b by (simp add: unsigned_ucast_eq take_bit_nat_eq_self)
  have c: "unat ?c = unat c + unat (xs ! n)" using Suc.prems(2) b x by (simp add: unat_word_ariths)
  have l: "unat (ucast ?c :: byte) = unat ?c mod 256" by (simp add: unsigned_ucast_eq take_bit_eq_mod)
  have h: "unat (drop_bit 8 ?c) = unat ?c div 256" by (simp only: unat_drop_bit_eq) (simp add: drop_bit_eq_div)
  have "unat (drop_bit 8 ?c) < 2 ^ 31" using h c b Suc.prems(2) by simp
  then obtain ys where y: "ctr128_inc_loop n (drop_bit 8 ?c) ?xs = ys @ drop n ?xs" "length ys = n"
      "be_nat ys = (be_nat (take n xs) + unat ?c div 256) mod 256 ^ n"
    using Suc.IH [of ?xs "drop_bit 8 ?c"] Suc.prems(1) h by auto
  have d: "drop n ?xs = ucast ?c # drop (Suc n) xs"
    using Suc.prems(1) by (simp add: Cons_nth_drop_Suc [symmetric])
  have t: "be_nat (take (Suc n) xs) = be_nat (take n xs) * 256 + unat (xs ! n)"
    using Suc.prems(1) by (simp add: take_Suc_conv_app_nth be_nat_snoc)
  have "be_nat (ys @ [ucast ?c]) = (be_nat (take (Suc n) xs) + unat c) mod 256 ^ Suc n"
    using carry_arith [of "be_nat (take n xs)" "unat ?c" "256 ^ n"] y(3) l t c by (simp add: be_nat_snoc algebra_simps)
  then show ?case using y(1,2) d by (intro exI [of _ "ys @ [ucast ?c]"]) (simp add: Let_def)
qed

lemma ctr128_inc_eq: "length xs = 16 \<Longrightarrow> be_nat (ctr128_inc xs) = (be_nat xs + 1) mod 2 ^ 128"
  using ctr128_inc_loop_eq [of 16 xs 1] by (auto simp: ctr128_inc_def)

text \<open>The bytes of a number, most significant first.\<close>

primrec be_bytes :: "nat \<Rightarrow> nat \<Rightarrow> byte list" where
  "be_bytes 0 n = []"
| "be_bytes (Suc k) n = be_bytes k (n div 256) @ [word_of_nat n]"

lemma be_bytes_be_nat: "length xs = k \<Longrightarrow> be_bytes k (be_nat xs) = xs"
proof (induction k arbitrary: xs)
  case (Suc k)
  then obtain ys y where xs: "xs = ys @ [y]" "length ys = k" by (cases xs rule: rev_cases) auto
  have u: "unat y < 256" using unsigned_less [of y] by simp
  have z: "(256 :: byte) = 0" by simp
  have "(word_of_nat (be_nat ys * 256 + unat y) :: byte) = y" by (simp add: z)
  then show ?case using Suc.IH [OF xs(2)] u by (simp add: xs(1) be_nat_snoc)
qed simp

lemma ctr128_inc_iterate:
  assumes "length iv = 16"
  shows "(ctr128_inc ^^ j) iv = be_bytes 16 ((be_nat iv + j) mod 2 ^ 128)" and "length ((ctr128_inc ^^ j) iv) = 16"
proof -
  show l: "length ((ctr128_inc ^^ j) iv) = 16" using assms by (induction j) simp_all
  have "be_nat iv < 256 ^ 16" if "length iv = 16" for iv
  proof -
    have "be_nat xs < 256 ^ length xs" for xs
    proof (induction xs rule: rev_induct)
      case (snoc x xs)
      have "unat x < 256" using unsigned_less [of x] by simp
      then show ?case using snoc by (simp add: be_nat_snoc)
    qed (simp add: be_nat_def)
    then show ?thesis using that by metis
  qed
  from this [OF assms] have b: "be_nat iv mod 2 ^ 128 = be_nat iv" by (intro mod_less) simp
  have "be_nat ((ctr128_inc ^^ j) iv) = (be_nat iv + j) mod 2 ^ 128"
  proof (induction j)
    case (Suc j)
    have "length ((ctr128_inc ^^ j) iv) = 16" using assms by (induction j) simp_all
    then show ?case using ctr128_inc_eq [of "(ctr128_inc ^^ j) iv"] Suc by (simp add: mod_simps)
  qed (use b in simp)
  then show "(ctr128_inc ^^ j) iv = be_bytes 16 ((be_nat iv + j) mod 2 ^ 128)" using be_bytes_be_nat [OF l] by simp
qed

text \<open>The key stream of counter mode: byte \<open>i\<close> is from the block of the counter \<open>i div 16\<close> after the start.\<close>

definition keystream :: "'key block128 \<Rightarrow> 'key \<Rightarrow> byte list \<Rightarrow> nat \<Rightarrow> byte" where
  "keystream AES_encrypt key iv i = AES_encrypt key (be_bytes 16 ((be_nat iv + i div 16) mod 2 ^ 128)) (i mod 16)"

lemma block_of_place:
  fixes i :: nat
  shows "i mod 16 = 0 \<Longrightarrow> (i + 15) div 16 = i div 16" and "i mod 16 \<noteq> 0 \<Longrightarrow> (i + 15) div 16 = Suc (i div 16)"
    and "(i + 1 + 15) div 16 = Suc (i div 16)" and "(i + 1) mod 16 \<noteq> 0 \<Longrightarrow> (i + 1) div 16 = i div 16"
proof -
  obtain q r where i: "i = 16 * q + r" "r < 16" by (metis mod_less_divisor mult_div_mod_eq zero_less_numeral)
  then have q: "i div 16 = q" "i mod 16 = r" by simp_all
  show "i mod 16 = 0 \<Longrightarrow> (i + 15) div 16 = i div 16" unfolding q using i by (intro div_nat_eqI) simp_all
  show "i mod 16 \<noteq> 0 \<Longrightarrow> (i + 15) div 16 = Suc (i div 16)" unfolding q using i by (intro div_nat_eqI) simp_all
  show "(i + 1 + 15) div 16 = Suc (i div 16)" unfolding q using i by (intro div_nat_eqI) simp_all
  show "(i + 1) mod 16 \<noteq> 0 \<Longrightarrow> (i + 1) div 16 = i div 16" by (simp add: div_Suc mod_Suc)
qed

lemma ctr_bytes_keystream:
  assumes "ct_num s = i mod 16" and "ct_key s = key" and "ct_ivec s = (ctr128_inc ^^ ((i + 15) div 16)) iv"
    and "i mod 16 \<noteq> 0 \<longrightarrow> ct_ecount_buf s = block128 block key ((ctr128_inc ^^ (i div 16)) iv)"
  shows "fst (ctr_bytes block s xs) =
    map2 (XOR) xs (map (\<lambda>j. block key ((ctr128_inc ^^ (j div 16)) iv) (j mod 16)) [i..<i + length xs])"
  using assms
proof (induction xs arbitrary: s i)
  case (Cons x xs)
  let ?s = "if ct_num s = 0 then next_block block s else s"
  let ?t = "?s\<lparr>ct_num := (ct_num ?s + 1) mod 16\<rparr>"
  have r: "i mod 16 = 0 \<Longrightarrow> (i + 15) div 16 = i div 16" "i mod 16 \<noteq> 0 \<Longrightarrow> (i + 15) div 16 = Suc (i div 16)"
    "(i + 1 + 15) div 16 = Suc (i div 16)" "(i + 1) mod 16 \<noteq> 0 \<Longrightarrow> (i + 1) div 16 = i div 16"
    by (fact block_of_place)+
  have e: "ct_ecount_buf ?s = block128 block key ((ctr128_inc ^^ (i div 16)) iv)" "ct_ivec ?s = (ctr128_inc ^^ Suc (i div 16)) iv"
    "ct_key ?s = key" "ct_num ?s = i mod 16"
    using Cons.prems r(1,2) by (cases "i mod 16 = 0"; simp add: next_block_def)+
  have IH: "fst (ctr_bytes block ?t xs) =
      map2 (XOR) xs (map (\<lambda>j. block key ((ctr128_inc ^^ (j div 16)) iv) (j mod 16)) [i + 1..<i + 1 + length xs])"
    by (rule Cons.IH) (use e r(3,4) in \<open>simp_all add: mod_Suc_eq\<close>)
  have n: "ct_ecount_buf ?s ! ct_num ?s = block key ((ctr128_inc ^^ (i div 16)) iv) (i mod 16)"
    using e(1,4) by (simp add: block128_def)
  have "[i..<i + length (x # xs)] = i # [i + 1..<i + 1 + length xs]" by (subst upt_conv_Cons) simp_all
  then show ?case using IH n by (simp add: Let_def case_prod_beta del: upt_Suc)
qed simp

text \<open>What is left of the last block in a state, and with it the key stream from an arbitrary state.\<close>

definition rest_of_block :: "'key ctr_state \<Rightarrow> byte list" where
  "rest_of_block s = (if ct_num s = 0 then [] else drop (ct_num s) (ct_ecount_buf s))"

lemma ctr_bytes_start:
  assumes "ct_num s = 0" and "length (ct_ivec s) = 16"
  shows "fst (ctr_bytes block s xs) = map2 (XOR) xs (map (keystream block (ct_key s) (ct_ivec s)) [0..<length xs])"
  using ctr_bytes_keystream [of s 0 "ct_key s" "ct_ivec s" block xs] assms
  by (simp add: keystream_def [abs_def] ctr128_inc_iterate(1))

lemma ctr_bytes_stream:
  assumes "ctr_ok s"
  shows "fst (ctr_bytes block s xs) =
    map2 (XOR) xs (rest_of_block s @ map (keystream block (ct_key s) (ct_ivec s)) [0..<length xs])"
proof (cases "ct_num s = 0")
  case True
  then show ?thesis using ctr_bytes_start [of s block xs] assms by (simp add: rest_of_block_def ctr_ok_def)
next
  case False
  let ?k = "16 - ct_num s" and ?e = "drop (ct_num s) (ct_ecount_buf s)"
  have s: "ct_num s < 16" "length (ct_ecount_buf s) = 16" "length (ct_ivec s) = 16" using assms by (simp_all add: ctr_ok_def)
  then have e: "length ?e = ?k" by simp
  show ?thesis
  proof (cases "length xs \<le> ?k")
    case True
    then have "ctr_bytes block s xs = (map2 (XOR) xs ?e, s\<lparr>ct_num := (ct_num s + length xs) mod 16\<rparr>)"
      using s False by (intro ctr_bytes_within) auto
    moreover have "zip xs (?e @ ys) = zip xs ?e" for ys using True e by (simp add: zip_append2)
    ultimately show ?thesis using False by (simp add: rest_of_block_def)
  next
    case long: False
    let ?xs = "take ?k xs" and ?ys = "drop ?k xs" and ?t = "s\<lparr>ct_num := 0\<rparr>"
    let ?ks = "map (keystream block (ct_key s) (ct_ivec s)) [0..<length xs]"
    have "ct_num s + length ?xs = 16" using long s by simp
    then have "ctr_bytes block s ?xs = (map2 (XOR) ?xs ?e, ?t)"
      using s False by (subst ctr_bytes_within) simp_all
    then have "fst (ctr_bytes block s (?xs @ ?ys)) = map2 (XOR) ?xs ?e @ fst (ctr_bytes block ?t ?ys)"
      by (simp only: ctr_bytes_append) (simp add: case_prod_beta)
    moreover have "fst (ctr_bytes block ?t ?ys) = map2 (XOR) ?ys ?ks"
    proof -
      have "zip ?ys ?ks = zip ?ys (take (length ?ys) ?ks)" using take_zip [of "length ?ys" ?ys ?ks] by simp
      moreover have "take (length ?ys) ?ks = map (keystream block (ct_key s) (ct_ivec s)) [0..<length ?ys]" by (simp add: take_map)
      ultimately show ?thesis using ctr_bytes_start [of ?t block ?ys] s by simp
    qed
    moreover have "zip (?xs @ ?ys) (?e @ ?ks) = zip ?xs ?e @ zip ?ys ?ks" using long e by (intro zip_append) simp
    ultimately show ?thesis using False by (simp add: rest_of_block_def)
  qed
qed

text \<open>C15. Counter mode is the exclusive or with a key stream.  From any state a caller can keep, also in the middle of a
  block, whatever the block cipher and the data, and whichever of its paths \<open>CRYPTO_ctr128_encrypt\<close> takes (the rest of a
  block, whole words, byte by byte), the data is XORed first with what is left of the last block and then with the
  encryptions of the counter: byte \<open>i\<close> after the rest with byte \<open>i mod 16\<close> of the encryption of the counter plus
  \<open>i div 16\<close>, the counter being a 128-bit big-endian number that wraps.  Cutting the data into two calls makes no
  difference, and encrypting the result again from the same state gives the data back.\<close>

theorem ctr_equivalence:
  assumes "ctr_ok s" and "AES_ctr128_encrypt unaligned AES_encrypt s xs = (out, s')"
  shows "out = map2 (XOR) xs (rest_of_block s @ map (keystream AES_encrypt (ct_key s) (ct_ivec s)) [0..<length xs]) \<and>
    length out = length xs \<and> ctr_ok s' \<and>
    AES_ctr128_encrypt unaligned' AES_encrypt s (xs @ ys) =
      (let (out', s'') = AES_ctr128_encrypt unaligned'' AES_encrypt s' ys in (out @ out', s'')) \<and>
    AES_ctr128_encrypt unaligned' AES_encrypt s out = (xs, s')"
  using assms ctr_bytes_stream [OF assms(1), of AES_encrypt xs] ctr_bytes_ok [of s AES_encrypt xs out s']
    ctr_bytes_involution [of AES_encrypt s xs out s'] ctr_bytes_append [of AES_encrypt s xs ys]
  by (simp add: AES_ctr128_encrypt_def CRYPTO_ctr128_encrypt_bytes)

theorem ctr_equivalence_witness:
  "let AES_encrypt = \<lambda>key xs i. key + word_of_nat i;
       s = \<lparr>ct_key = 3, ct_ivec = replicate 16 0xff, ct_ecount_buf = replicate 16 8, ct_num = 14\<rparr>
   in \<exists>s'. AES_ctr128_encrypt False AES_encrypt s [1, 2, 1, 2, 3] = ([9, 10, 2, 6, 6 :: byte], s') \<and>
     AES_ctr128_encrypt True AES_encrypt s [9, 10, 2, 6, 6] = ([1, 2, 1, 2, 3], s')"
proof -
  let ?s = "\<lparr>ct_key = 3, ct_ivec = replicate 16 0xff, ct_ecount_buf = replicate 16 8, ct_num = 14\<rparr> :: byte ctr_state"
  let ?AES = "\<lambda>key xs i. key + word_of_nat i"
  obtain out s' where e: "AES_ctr128_encrypt False ?AES ?s [1, 2, 1, 2, 3] = (out, s')" by fastforce
  have ok: "ctr_ok ?s" by (simp add: ctr_ok_def)
  have r: "rest_of_block ?s = [8, 8]" by (simp add: rest_of_block_def numeral_2_eq_2)
  have k: "keystream ?AES 3 iv i = 3 + word_of_nat (i mod 16)" for iv i by (simp add: keystream_def)
  have o: "out = [9, 10, 2, 6, 6]" using ctr_equivalence [OF ok e] by (simp add: r k)
  have "AES_ctr128_encrypt True ?AES ?s out = ([1, 2, 1, 2, 3], s')" using ctr_equivalence [OF ok e, of True] by blast
  then show ?thesis using e unfolding o Let_def by blast
qed

subsection \<open>What a connection needs of its cipher\<close>

text \<open>Encryption goes on where the last call stopped, so it does not matter how the data is cut into calls.\<close>

locale stream_cipher =
  fixes crypt :: "'k \<Rightarrow> byte list \<Rightarrow> byte list \<times> 'k" and usable :: "'k \<Rightarrow> bool"
  assumes crypt_append: "crypt k (xs @ ys) = (let (out, k) = crypt k xs; (out', k) = crypt k ys in (out @ out', k))"
    and crypt_length: "usable k \<Longrightarrow> crypt k xs = (out, k') \<Longrightarrow> length out = length xs"
    and crypt_usable: "usable k \<Longrightarrow> crypt k xs = (out, k') \<Longrightarrow> usable k'"
    and crypt_inverse: "crypt k xs = (out, k') \<Longrightarrow> crypt k out = (xs, k')"
begin

lemma crypt_split:
  assumes "crypt k (xs @ ys) = (out, k'')" and "usable k"
  obtains out1 k' out2 where "crypt k xs = (out1, k')" "crypt k' ys = (out2, k'')" "out = out1 @ out2" "length out1 = length xs" "usable k'"
  using assms crypt_append [of k xs ys] crypt_length [of k xs] crypt_usable [of k xs]
  by (cases "crypt k xs", cases "crypt (snd (crypt k xs)) ys") auto

end

interpretation ctr: stream_cipher "AES_ctr128_encrypt unaligned AES_encrypt" ctr_ok for unaligned AES_encrypt
proof
  fix k k' :: "'a ctr_state" and xs ys out
  let ?crypt = "AES_ctr128_encrypt unaligned AES_encrypt"
  have e: "?crypt = ctr_bytes AES_encrypt" by (intro ext) (simp add: AES_ctr128_encrypt_def CRYPTO_ctr128_encrypt_bytes)
  show "?crypt k (xs @ ys) = (let (out, k) = ?crypt k xs; (out', k) = ?crypt k ys in (out @ out', k))"
    by (simp only: e ctr_bytes_append)
  assume c: "?crypt k xs = (out, k')"
  then show "?crypt k out = (xs, k')" using ctr_bytes_involution by (simp add: e)
  assume "ctr_ok k"
  then show "length out = length xs" "ctr_ok k'" using ctr_bytes_ok [of k AES_encrypt xs out k'] c by (simp_all add: e)
qed

subsection \<open>Infinite garble extension\<close>

text \<open>\<open>AES_ige_encrypt\<close> with \<open>in == out\<close>, as all callers in the network library have it: the loops over temporaries.  \<open>unsigned
  long\<close> has 64 bits, so the words of a block are those of \<open>xor_block\<close>.\<close>

primrec ige_encrypt_loop :: "'key block128 \<Rightarrow> 'key \<Rightarrow> nat \<Rightarrow> byte list \<Rightarrow> byte list \<Rightarrow> byte list \<Rightarrow> byte list \<times> byte list \<times> byte list" where
  "ige_encrypt_loop AES_encrypt key 0 iv iv2 xs = (xs, iv, iv2)"
| "ige_encrypt_loop AES_encrypt key (Suc len) iv iv2 xs =
     (let tmp = take 16 xs;
          tmp2 = xor_block tmp iv;
          tmp2 = block128 AES_encrypt key tmp2;
          tmp2 = xor_block tmp2 iv2;
          (out, iv, iv2) = ige_encrypt_loop AES_encrypt key len tmp2 tmp (drop 16 xs)
      in (tmp2 @ out, iv, iv2))"

primrec ige_decrypt_loop :: "'key block128 \<Rightarrow> 'key \<Rightarrow> nat \<Rightarrow> byte list \<Rightarrow> byte list \<Rightarrow> byte list \<Rightarrow> byte list \<times> byte list \<times> byte list" where
  "ige_decrypt_loop AES_decrypt key 0 iv iv2 xs = (xs, iv, iv2)"
| "ige_decrypt_loop AES_decrypt key (Suc len) iv iv2 xs =
     (let tmp = take 16 xs;
          tmp2 = tmp;
          tmp = xor_block tmp iv2;
          tmp = block128 AES_decrypt key tmp;
          tmp = xor_block tmp iv;
          (out, iv, iv2) = ige_decrypt_loop AES_decrypt key len tmp2 tmp (drop 16 xs)
      in (tmp @ out, iv, iv2))"

text \<open>The data and the new value of \<open>ivec\<close>; the block cipher is the one of the direction.\<close>

definition AES_ige_encrypt :: "'key block128 \<Rightarrow> byte list \<Rightarrow> 'key \<Rightarrow> byte list \<Rightarrow> bool \<Rightarrow> byte list \<times> byte list" where
  "AES_ige_encrypt AES xs key ivec enc =
     (let len = length xs div 16;
          (out, iv, iv2) = (if enc then ige_encrypt_loop AES key len (take 16 ivec) (take 16 (drop 16 ivec)) xs
                            else ige_decrypt_loop AES key len (take 16 ivec) (take 16 (drop 16 ivec)) xs)
      in (out, iv @ iv2))"

lemma xor_block_cancel:
  assumes "length xs = 16" and "length ys = 16"
  shows "length (xor_block xs ys) = 16" and "xor_block (xor_block xs ys) ys = xs"
proof -
  have e: "xor_block xs ys = map2 (XOR) xs ys" using xor_block_eq [of xs ys] assms by simp
  then show l: "length (xor_block xs ys) = 16" using assms by simp
  show "xor_block (xor_block xs ys) ys = xs"
    using xor_block_eq [of "xor_block xs ys" ys] assms l e
    by (intro nth_equalityI) (simp_all add: xor.assoc)
qed

text \<open>What is needed of the two directions of the block cipher.\<close>

definition block_inverse :: "'key block128 \<Rightarrow> 'key block128 \<Rightarrow> bool" where
  "block_inverse AES_encrypt AES_decrypt \<longleftrightarrow> (\<forall>key xs. length xs = 16 \<longrightarrow> block128 AES_decrypt key (block128 AES_encrypt key xs) = xs)"

lemma ige_encrypt_length:
  "length iv = 16 \<Longrightarrow> length iv2 = 16 \<Longrightarrow> 16 * len \<le> length xs \<Longrightarrow> length (fst (ige_encrypt_loop AES_encrypt key len iv iv2 xs)) = length xs"
proof (induction len arbitrary: iv iv2 xs)
  case (Suc len)
  let ?c = "xor_block (block128 AES_encrypt key (xor_block (take 16 xs) iv)) iv2"
  have c: "length ?c = 16" using Suc.prems(2) by (intro xor_block_cancel) simp_all
  show ?case using Suc.IH [of ?c "take 16 xs" "drop 16 xs"] Suc.prems c by (simp add: Let_def case_prod_beta)
qed simp

lemma ige_loops:
  assumes "block_inverse AES_encrypt AES_decrypt" and "length iv = 16" and "length iv2 = 16" and "16 * len \<le> length xs"
  shows "ige_decrypt_loop AES_decrypt key len iv iv2 (fst (ige_encrypt_loop AES_encrypt key len iv iv2 xs)) =
    (xs, snd (ige_encrypt_loop AES_encrypt key len iv iv2 xs))"
  using assms(2-)
proof (induction len arbitrary: iv iv2 xs)
  case (Suc len)
  let ?x = "take 16 xs"
  let ?e = "block128 AES_encrypt key (xor_block ?x iv)"
  let ?c = "xor_block ?e iv2"
  have x: "length ?x = 16" using Suc.prems(3) by simp
  have c: "length ?c = 16" "xor_block ?c iv2 = ?e" using xor_block_cancel [of ?e iv2] Suc.prems(2) by simp_all
  have d: "block128 AES_decrypt key ?e = xor_block ?x iv" "xor_block (xor_block ?x iv) iv = ?x"
    using assms(1) xor_block_cancel [OF x Suc.prems(1)] by (auto simp: block_inverse_def)
  show ?case using Suc.IH [of ?c ?x "drop 16 xs"] c d x Suc.prems by (simp add: Let_def case_prod_beta)
qed simp

lemma ige_roundtrip:
  assumes "block_inverse AES_encrypt AES_decrypt" and "length ivec = 32"
  shows "AES_ige_encrypt AES_decrypt (fst (AES_ige_encrypt AES_encrypt xs key ivec True)) key ivec False =
      (xs, snd (AES_ige_encrypt AES_encrypt xs key ivec True))"
    and "length (fst (AES_ige_encrypt AES_encrypt xs key ivec True)) = length xs"
proof -
  let ?iv = "take 16 ivec" and ?iv2 = "take 16 (drop 16 ivec)" and ?n = "length xs div 16"
  have l: "length ?iv = 16" "length ?iv2 = 16" "16 * ?n \<le> length xs" using assms(2) by simp_all
  show len: "length (fst (AES_ige_encrypt AES_encrypt xs key ivec True)) = length xs"
    using ige_encrypt_length [OF l, of AES_encrypt key] by (simp add: AES_ige_encrypt_def case_prod_beta Let_def)
  then show "AES_ige_encrypt AES_decrypt (fst (AES_ige_encrypt AES_encrypt xs key ivec True)) key ivec False =
      (xs, snd (AES_ige_encrypt AES_encrypt xs key ivec True))"
    using ige_loops [OF assms(1) l, of key] by (simp add: AES_ige_encrypt_def case_prod_beta Let_def)
qed

end
