(* ===== verification/Datacenter_Messages.thy ===== *)
theory Datacenter_Messages
  imports Object_Reader Connection_Session Cipher_Modes
begin

unbundle bit_operations_syntax

section \<open>Datacenter: salts and the encryption of messages\<close>

text \<open>
  The part of \<open>tgnet/Datacenter.cpp\<close> that messages pass through: server salts, message keys, \<open>createRequestsData\<close> and
  \<open>decryptServerResponse\<close>.  The record \<open>Datacenter\<close> has the fields these use.  The hash functions and the block cipher are
  arguments (record \<open>crypto\<close>), as are the bytes of \<open>RAND_bytes\<close> and the clocks; of the cipher only \<open>block_inverse\<close> is ever
  assumed.  \<^const>\<open>None\<close> is an access outside a buffer or a signed overflow.
\<close>

subsection \<open>State\<close>

record Datacenter =
  dc_authKeyPerm :: "byte list option"
  dc_authKeyPermId :: ulong
  dc_serverSalts :: "TL_future_salt list"

text \<open>The hash functions and the block cipher with its two key schedules.  A hash is given by the bytes of its digest.\<close>

record crypto =
  cr_SHA1 :: "byte list \<Rightarrow> nat \<Rightarrow> byte"
  cr_SHA256 :: "byte list \<Rightarrow> nat \<Rightarrow> byte"
  cr_AES_encrypt :: "byte list block128"
  cr_AES_decrypt :: "byte list block128"

definition SHA1 :: "crypto \<Rightarrow> byte list \<Rightarrow> byte list" where
  "SHA1 F xs = map (cr_SHA1 F xs) [0..<20]"

definition SHA256 :: "crypto \<Rightarrow> byte list \<Rightarrow> byte list" where
  "SHA256 F xs = map (cr_SHA256 F xs) [0..<32]"

subsection \<open>Server salts\<close>

abbreviation valid_since :: "TL_future_salt \<Rightarrow> int" where
  "valid_since s \<equiv> sint (TL_future_salt_valid_since s)"

abbreviation valid_until :: "TL_future_salt \<Rightarrow> int" where
  "valid_until s \<equiv> sint (TL_future_salt_valid_until s)"

abbreviation salt_value :: "TL_future_salt \<Rightarrow> ulong" where
  "salt_value s \<equiv> TL_future_salt_salt s"

definition clearServerSalts :: "Datacenter \<Rightarrow> Datacenter" where
  "clearServerSalts dc = dc\<lparr>dc_serverSalts := []\<rparr>"

text \<open>The first loop of \<open>getServerSalt\<close> with \<open>cleanupNeeded\<close>, \<open>result\<close> and \<open>maxRemainingInterval\<close>; \<^const>\<open>None\<close> is an overflow of the
  subtraction.\<close>

fun salt_loop :: "int \<Rightarrow> TL_future_salt list \<Rightarrow> bool \<Rightarrow> ulong \<Rightarrow> int \<Rightarrow> (bool \<times> ulong) option" where
  "salt_loop date [] cleanupNeeded result maxRemainingInterval = Some (cleanupNeeded, result)"
| "salt_loop date (salt # salts) cleanupNeeded result maxRemainingInterval =
     (if valid_until salt < date then salt_loop date salts True result maxRemainingInterval
      else if valid_since salt \<le> date \<and> valid_until salt > date then do {
        d \<leftarrow> s32 (valid_until salt - date);
        if maxRemainingInterval = 0 \<or> \<bar>d\<bar> > maxRemainingInterval
        then salt_loop date salts cleanupNeeded (salt_value salt) \<bar>d\<bar>
        else salt_loop date salts cleanupNeeded result maxRemainingInterval
      }
      else salt_loop date salts cleanupNeeded result maxRemainingInterval)"

text \<open>The second loop; \<open>erase\<close> moves the rest down, and \<open>i\<close> and \<open>size\<close> go back by one.\<close>

function cleanup_loop :: "int \<Rightarrow> nat \<Rightarrow> TL_future_salt list \<Rightarrow> TL_future_salt list" where
  "cleanup_loop date i salts = (if i < length salts
     then if valid_until (salts ! i) < date then cleanup_loop date i (take i salts @ drop (i + 1) salts)
          else cleanup_loop date (i + 1) salts
     else salts)"
  by pat_completeness auto
termination by (relation "measure (\<lambda>(date, i, salts). length salts - i)") auto

declare cleanup_loop.simps [simp del]

definition getServerSalt :: "int \<Rightarrow> Datacenter \<Rightarrow> (ulong \<times> Datacenter) option" where
  "getServerSalt date dc = do {
     (cleanupNeeded, result) \<leftarrow> salt_loop date (dc_serverSalts dc) False 0 0;
     let dc = (if cleanupNeeded then dc\<lparr>dc_serverSalts := cleanup_loop date 0 (dc_serverSalts dc)\<rparr> else dc);
     Some (result, dc)
   }"

text \<open>\<open>existingSalts\<close> is made with as many zeros as there are salts, and the salts are appended to it.  Salts that
  become valid at the same time may come out of \<open>std::sort\<close> in any order; the model keeps theirs.\<close>

definition mergeServerSalts :: "int \<Rightarrow> TL_future_salt list \<Rightarrow> Datacenter \<Rightarrow> Datacenter" where
  "mergeServerSalts date salts dc =
     (if salts = [] then dc
      else
        let existingSalts = replicate (length (dc_serverSalts dc)) 0 @ map salt_value (dc_serverSalts dc);
            new = filter (\<lambda>s. salt_value s \<notin> set existingSalts \<and> valid_until s > date) salts;
            serverSalts = dc_serverSalts dc @ new
        in dc\<lparr>dc_serverSalts := (if new \<noteq> [] then sort_key valid_since serverSalts else serverSalts)\<rparr>)"

definition addServerSalt :: "TL_future_salt \<Rightarrow> Datacenter \<Rightarrow> Datacenter" where
  "addServerSalt serverSalt dc =
     (if \<exists>s \<in> set (dc_serverSalts dc). salt_value s = salt_value serverSalt then dc
      else dc\<lparr>dc_serverSalts := sort_key valid_since (dc_serverSalts dc @ [serverSalt])\<rparr>)"

definition containsServerSalt :: "ulong \<Rightarrow> Datacenter \<Rightarrow> bool" where
  "containsServerSalt v dc \<longleftrightarrow> (\<exists>s \<in> set (dc_serverSalts dc). salt_value s = v)"

subsection \<open>Message keys\<close>

text \<open>The condition of \<open>getAuthKey\<close> is behind a \<open>return\<close>: it is always the permanent key.\<close>

definition getAuthKey :: "Datacenter \<Rightarrow> byte list option \<times> ulong" where
  "getAuthKey dc = (dc_authKeyPerm dc, dc_authKeyPermId dc)"

text \<open>\<open>result\<close>: 32 bytes of key and 32 bytes of initialisation vector.\<close>

definition generateMessageKey :: "crypto \<Rightarrow> byte list \<Rightarrow> byte list \<Rightarrow> bool \<Rightarrow> int \<Rightarrow> byte list option" where
  "generateMessageKey F authKey messageKey incoming mtProtoVersion = do {
     let x = (if incoming then 8 else 0);
     m \<leftarrow> slice messageKey 0 16;
     if mtProtoVersion = 2 then do {
       a \<leftarrow> slice authKey x 36;
       let sha = SHA256 F (m @ a);
       a \<leftarrow> slice authKey (40 + x) 36;
       let sha2 = SHA256 F (a @ m);
       Some (take 8 sha @ take 16 (drop 8 sha2) @ take 8 (drop 24 sha) @
             take 8 sha2 @ take 16 (drop 8 sha) @ take 8 (drop 24 sha2))
     }
     else do {
       a \<leftarrow> slice authKey x 32;
       let sha1 = SHA1 F (m @ a);
       a \<leftarrow> slice authKey (32 + x) 16;
       b \<leftarrow> slice authKey (48 + x) 16;
       let sha2 = SHA1 F (a @ m @ b);
       a \<leftarrow> slice authKey (64 + x) 32;
       let sha3 = SHA1 F (a @ m);
       a \<leftarrow> slice authKey (96 + x) 32;
       let sha4 = SHA1 F (m @ a);
       Some (take 8 sha1 @ take 12 (drop 8 sha2) @ take 12 (drop 4 sha3) @
             take 12 (drop 8 sha1) @ take 8 sha2 @ take 4 (drop 16 sha3) @ take 8 sha4)
     }
   }"

text \<open>\<open>changeIv\<close> is \<open>false\<close> in all calls, so the caller's vector is not changed.\<close>

definition aesIgeEncryption :: "crypto \<Rightarrow> byte list \<Rightarrow> byte list \<Rightarrow> byte list \<Rightarrow> bool \<Rightarrow> byte list" where
  "aesIgeEncryption F buffer key iv encrypt =
     (if \<not> encrypt then fst (AES_ige_encrypt (cr_AES_decrypt F) buffer key iv False)
      else fst (AES_ige_encrypt (cr_AES_encrypt F) buffer key iv True))"

text \<open>\<open>memcpy(&messageLength, data + 28, sizeof(uint32_t))\<close> on a little-endian machine.\<close>

definition u32_of :: "byte list \<Rightarrow> u32" where
  "u32_of w = ucast (w ! 0) OR push_bit 8 (ucast (w ! 1)) OR push_bit 16 (ucast (w ! 2)) OR push_bit 24 (ucast (w ! 3))"

text \<open>The bytes at \<open>data\<close> are \<open>length\<close> many; the result and the data after it.\<close>

definition decryptServerResponse ::
    "crypto \<Rightarrow> int \<Rightarrow> ulong \<Rightarrow> byte list \<Rightarrow> byte list \<Rightarrow> Datacenter \<Rightarrow> (bool \<times> byte list) option" where
  "decryptServerResponse F mtProtoVersion keyId key data dc =
     (let (authKey, authKeyId) = getAuthKey dc;
          len = word_of_nat (length data) :: u32
      in case authKey of
        None \<Rightarrow> Some (False, data)
      | Some authKey \<Rightarrow> do {
          let error = (authKeyId \<noteq> keyId);
          r \<leftarrow> generateMessageKey F authKey key True mtProtoVersion;
          let data = aesIgeEncryption F data (take 32 r) (drop 32 r) False;
          w \<leftarrow> slice data 28 4;
          let messageLength = u32_of w;
          let paddingLength = len - (messageLength + 32);
          let error = (error \<or> (if messageLength > len - 32 then True else paddingLength < 12 \<or> paddingLength > 1024));
          let messageLength = messageLength + 32;
          let messageLength = (if messageLength > len then len else messageLength);
          k \<leftarrow> slice key 0 16;
          messageKey \<leftarrow> (if mtProtoVersion = 2 then do {
              a \<leftarrow> slice authKey (88 + 8) 32;
              Some (take 16 (drop 8 (SHA256 F (a @ data))))
            }
            else do {
              d \<leftarrow> slice data 0 (uint messageLength);
              Some (take 16 (drop 4 (SHA1 F d)))
            });
          Some (messageKey = k \<and> \<not> error, data)
        })"

subsection \<open>Which answers are accepted\<close>

text \<open>The protocol's message key of a plain text from the server, and its encryption.\<close>

definition message_key :: "crypto \<Rightarrow> int \<Rightarrow> byte list \<Rightarrow> byte list \<Rightarrow> byte list" where
  "message_key F version authKey plain = (if version = 2 then take 16 (drop 8 (SHA256 F (take 32 (drop 96 authKey) @ plain)))
     else take 16 (drop 4 (SHA1 F (take (unat (u32_of (take 4 (drop 28 plain))) + 32) plain))))"

definition server_encrypt :: "crypto \<Rightarrow> int \<Rightarrow> byte list \<Rightarrow> byte list \<Rightarrow> byte list option" where
  "server_encrypt F version authKey plain = do {
     r \<leftarrow> generateMessageKey F authKey (message_key F version authKey plain) True version;
     Some (fst (AES_ige_encrypt (cr_AES_encrypt F) plain (take 32 r) (drop 32 r) True))
   }"

definition padding_ok :: "byte list \<Rightarrow> bool" where
  "padding_ok plain \<longleftrightarrow> (let n = unat (u32_of (take 4 (drop 28 plain))) + 32 in n + 12 \<le> length plain \<and> length plain \<le> n + 1024)"

lemma length_hash [simp]: "length (SHA1 F xs) = 20" "length (SHA256 F xs) = 32"
  by (simp_all add: SHA1_def SHA256_def)

lemma length_message_key [simp]: "length (message_key F version authKey plain) = 16"
  by (simp add: message_key_def)

lemma generateMessageKey_ok:
  assumes "length authKey = 256" and "length key = 16"
  obtains r where "generateMessageKey F authKey key incoming version = Some r" "length r = 64"
proof -
  have "\<exists>r. generateMessageKey F authKey key incoming version = Some r \<and> length r = 64"
    using assms by (cases "version = 2"; cases incoming; simp add: generateMessageKey_def slice_def Let_def)
  then show thesis using that by blast
qed

lemma ige_decrypt_length:
  "length iv = 16 \<Longrightarrow> length iv2 = 16 \<Longrightarrow> 16 * len \<le> length xs \<Longrightarrow> length (fst (ige_decrypt_loop AES key len iv iv2 xs)) = length xs"
proof (induction len arbitrary: iv iv2 xs)
  case (Suc len)
  let ?c = "xor_block (block128 AES key (xor_block (take 16 xs) iv2)) iv"
  have c: "length ?c = 16" using Suc.prems(1) by (intro xor_block_cancel) simp_all
  show ?case using Suc.IH [of "take 16 xs" ?c "drop 16 xs"] Suc.prems c by (simp add: Let_def case_prod_beta)
qed simp

lemma length_aesIgeEncryption:
  assumes "length iv = 32"
  shows "length (aesIgeEncryption F xs key iv enc) = length xs"
proof -
  let ?iv = "take 16 iv" and ?iv2 = "take 16 (drop 16 iv)" and ?n = "length xs div 16"
  have l: "length ?iv = 16" "length ?iv2 = 16" "16 * ?n \<le> length xs" using assms by simp_all
  show ?thesis using ige_encrypt_length [OF l, of "cr_AES_encrypt F" key] ige_decrypt_length [OF l, of "cr_AES_decrypt F" key]
    by (simp add: aesIgeEncryption_def AES_ige_encrypt_def case_prod_beta Let_def)
qed

lemma padding_test:
  fixes m len :: u32
  assumes "32 \<le> unat len"
  shows "\<not> (if m > len - 32 then True else len - (m + 32) < 12 \<or> len - (m + 32) > 1024) \<longleftrightarrow>
    unat m + 44 \<le> unat len \<and> unat len \<le> unat m + 1056"
proof (cases "m > len - 32")
  case True
  then have "unat m > unat len - 32" using assms by (simp add: word_less_nat_alt unat_sub word_le_nat_alt)
  then have "\<not> unat m + 44 \<le> unat len" by simp
  then show ?thesis using True by simp
next
  case False
  then have le: "unat m + 32 \<le> unat len" using assms by (simp add: word_less_nat_alt unat_sub word_le_nat_alt not_less)
  then have s: "unat (m + 32) = unat m + 32" using unsigned_less [of len, where 'a = nat] by (simp add: unat_word_ariths)
  then have "unat (len - (m + 32)) = unat len - (unat m + 32)" using le by (simp add: unat_sub word_le_nat_alt)
  then show ?thesis using False le by (auto simp: word_less_nat_alt)
qed

lemma decryptServerResponse_eq:
  assumes k: "dc_authKeyPerm dc = Some authKey" "length authKey = 256" and l: "length key = 16" "32 \<le> length data" "length data < 2 ^ 31"
    and r: "generateMessageKey F authKey key True version = Some r"
  defines "plain \<equiv> aesIgeEncryption F data (take 32 r) (drop 32 r) False"
  shows "\<exists>ok. decryptServerResponse F version keyId key data dc = Some (ok, plain) \<and>
    (ok \<longleftrightarrow> keyId = dc_authKeyPermId dc \<and> padding_ok plain \<and> message_key F version authKey plain = key)"
proof -
  obtain r' where "generateMessageKey F authKey key True version = Some r'" "length r' = 64" using generateMessageKey_ok [OF k(2) l(1)] .
  then have "length r = 64" using r by simp
  then have len: "length plain = length data" unfolding plain_def by (intro length_aesIgeEncryption) simp
  let ?len = "word_of_nat (length data) :: u32" and ?m = "u32_of (take 4 (drop 28 plain))"
  have n: "unat ?len = length data" using l(3) by (rule unat_len)
  have sl: "slice plain 28 4 = Some (take 4 (drop 28 plain))" "slice key 0 16 = Some key" "slice authKey 96 32 = Some (take 32 (drop 96 authKey))"
    using len l k(2) by (simp_all add: slice_def)
  note p = padding_test [of ?len ?m, unfolded n, OF l(2)]
  have ok: "padding_ok plain \<longleftrightarrow> unat ?m + 44 \<le> length data \<and> length data \<le> unat ?m + 1056" by (simp add: padding_ok_def Let_def len add.commute)
  show ?thesis
  proof (cases "version = 2")
    case True
    then show ?thesis using k(1) r p ok sl
      by (auto simp: decryptServerResponse_def getAuthKey_def message_key_def plain_def [symmetric] Let_def)
  next
    case False
    let ?n = "if ?m + 32 > ?len then ?len else ?m + 32"
    have "unat ?n \<le> length data" using n by (simp add: word_less_nat_alt)
    then have d: "slice plain 0 (uint ?n) = Some (take (unat ?n) plain)" using len slice_uint [of plain 0 ?n] by simp
    have e: "padding_ok plain \<Longrightarrow> unat ?n = unat ?m + 32"
      using ok n l(3) by (simp add: word_less_nat_alt unat_word_ariths)
    show ?thesis using False k(1) r p ok sl d e
      by (auto simp: decryptServerResponse_def getAuthKey_def message_key_def plain_def [symmetric] Let_def)
  qed
qed

subsection \<open>The salt in use\<close>

definition in_force :: "int \<Rightarrow> TL_future_salt \<Rightarrow> bool" where
  "in_force date s \<longleftrightarrow> valid_since s \<le> date \<and> date < valid_until s"

lemma cleanup_loop_eq: "i \<le> length salts \<Longrightarrow> cleanup_loop date i salts = take i salts @ filter (\<lambda>s. \<not> valid_until s < date) (drop i salts)"
proof (induction date i salts rule: cleanup_loop.induct)
  case (1 date i salts)
  show ?case
  proof (cases "i < length salts")
    case True
    then have d: "drop i salts = salts ! i # drop (i + 1) salts" by (simp add: Cons_nth_drop_Suc)
    show ?thesis using 1 True by (simp add: cleanup_loop.simps [of date i salts] d take_Suc_conv_app_nth)
  qed (subst cleanup_loop.simps, use 1 in simp)
qed

lemma s32_interval:
  assumes "0 \<le> date" and "date < valid_until s"
  shows "s32 (valid_until s - date) = Some (valid_until s - date)"
  using assms sint_lt [of "TL_future_salt_valid_until s"] by (simp add: s32_def)

lemma salt_loop_eq:
  assumes "0 \<le> date" and "0 \<le> m"
  shows "\<exists>v'. salt_loop date salts c v m = Some (c \<or> (\<exists>s \<in> set salts. valid_until s < date), v') \<and>
    (v' = v \<and> (\<forall>t \<in> set salts. in_force date t \<longrightarrow> m \<noteq> 0 \<and> valid_until t - date \<le> m) \<or>
     (\<exists>s \<in> set salts. in_force date s \<and> v' = salt_value s \<and> m < valid_until s - date \<and>
        (\<forall>t \<in> set salts. in_force date t \<longrightarrow> valid_until t \<le> valid_until s)))"
  using assms(2)
proof (induction salts arbitrary: c v m)
  case (Cons salt salts)
  let ?d = "valid_until salt - date"
  consider (expired) "valid_until salt < date" | (other) "\<not> valid_until salt < date" "\<not> in_force date salt" | (valid) "in_force date salt"
    by blast
  then show ?case
  proof cases
    case expired
    then have "\<not> in_force date salt" by (simp add: in_force_def)
    then show ?thesis using Cons.IH [OF Cons.prems, of True v] expired by auto
  next
    case other
    then show ?thesis using Cons.IH [OF Cons.prems, of c v] by (auto simp: in_force_def)
  next
    case valid
    then have d: "0 < ?d" "\<not> valid_until salt < date" "s32 ?d = Some ?d" using s32_interval [OF assms(1)] by (auto simp: in_force_def)
    show ?thesis
    proof (cases "m = 0 \<or> ?d > m")
      case True
      then have "salt_loop date (salt # salts) c v m = salt_loop date salts c (salt_value salt) ?d"
        using valid d by (simp add: in_force_def)
      then show ?thesis using Cons.IH [of ?d c "salt_value salt"] d True Cons.prems valid by fastforce
    next
      case False
      then have "salt_loop date (salt # salts) c v m = salt_loop date salts c v m"
        using valid d by (simp add: in_force_def)
      then show ?thesis using Cons.IH [OF Cons.prems, of c v] d False valid by fastforce
    qed
  qed
qed simp

text \<open>C19. Which salt is used.  At a non-negative time \<open>getServerSalt\<close> returns without overflow the salt in force that stays valid
  longest, 0 when none is in force, and removes from the data centre exactly the salts that have expired.\<close>

theorem getServerSalt_longest:
  assumes "0 \<le> date"
  shows "\<exists>v. getServerSalt date dc = Some (v, dc\<lparr>dc_serverSalts := filter (\<lambda>s. date \<le> valid_until s) (dc_serverSalts dc)\<rparr>) \<and>
    (if \<exists>s \<in> set (dc_serverSalts dc). in_force date s
     then \<exists>s \<in> set (dc_serverSalts dc). in_force date s \<and> v = salt_value s \<and>
       (\<forall>t \<in> set (dc_serverSalts dc). in_force date t \<longrightarrow> valid_until t \<le> valid_until s)
     else v = 0)"
proof -
  let ?e = "\<exists>s \<in> set (dc_serverSalts dc). valid_until s < date"
  have n: "\<not> ?e \<Longrightarrow> filter (\<lambda>s. date \<le> valid_until s) (dc_serverSalts dc) = dc_serverSalts dc" by (auto intro: filter_True simp: not_less)
  have c: "cleanup_loop date 0 (dc_serverSalts dc) = filter (\<lambda>s. date \<le> valid_until s) (dc_serverSalts dc)"
    by (simp add: cleanup_loop_eq not_less)
  obtain v where v: "salt_loop date (dc_serverSalts dc) False 0 0 = Some (?e, v)"
    "v = 0 \<and> (\<forall>t \<in> set (dc_serverSalts dc). \<not> in_force date t) \<or>
     (\<exists>s \<in> set (dc_serverSalts dc). in_force date s \<and> v = salt_value s \<and>
        (\<forall>t \<in> set (dc_serverSalts dc). in_force date t \<longrightarrow> valid_until t \<le> valid_until s))"
    using salt_loop_eq [OF assms order_refl, of "dc_serverSalts dc" False 0] by auto
  have "getServerSalt date dc = Some (v, dc\<lparr>dc_serverSalts := filter (\<lambda>s. date \<le> valid_until s) (dc_serverSalts dc)\<rparr>)"
    using v(1) c n by (cases ?e) (simp_all add: getServerSalt_def)
  then show ?thesis using v(2) by auto
qed

definition demo_salts :: "TL_future_salt list" where
  "demo_salts = [\<lparr>TL_future_salt_valid_since = 0, TL_future_salt_valid_until = 90, TL_future_salt_salt = 1\<rparr>,
     \<lparr>TL_future_salt_valid_since = 80, TL_future_salt_valid_until = 150, TL_future_salt_salt = 2\<rparr>,
     \<lparr>TL_future_salt_valid_since = 90, TL_future_salt_valid_until = 180, TL_future_salt_salt = 3\<rparr>]"

definition demo_datacenter :: Datacenter where
  "demo_datacenter = \<lparr>dc_authKeyPerm = Some (replicate 256 7), dc_authKeyPermId = 5, dc_serverSalts = demo_salts\<rparr>"

theorem getServerSalt_longest_witness:
  "getServerSalt 100 demo_datacenter = Some (3, demo_datacenter\<lparr>dc_serverSalts := drop 1 demo_salts\<rparr>)"
proof -
  have "filter (\<lambda>s. 100 \<le> valid_until s) (dc_serverSalts demo_datacenter) = drop 1 demo_salts"
    by (simp add: demo_datacenter_def demo_salts_def)
  then show ?thesis using getServerSalt_longest [of 100 demo_datacenter]
    by (auto simp: demo_datacenter_def demo_salts_def in_force_def split: if_splits)
qed

subsection \<open>Answers\<close>

text \<open>An answer is accepted exactly if its key id, padding and message key are right.\<close>

lemma response_accepted_iff:
  assumes "dc_authKeyPerm dc = Some authKey" and "length authKey = 256" and "length key = 16" and "32 \<le> length data" and "length data < 2 ^ 31"
  shows "\<exists>ok plain. decryptServerResponse F version keyId key data dc = Some (ok, plain) \<and> length plain = length data \<and>
    (ok \<longleftrightarrow> keyId = dc_authKeyPermId dc \<and> padding_ok plain \<and> message_key F version authKey plain = key)"
proof -
  obtain r where r: "generateMessageKey F authKey key True version = Some r" "length r = 64" using generateMessageKey_ok [OF assms(2,3)] .
  then show ?thesis using decryptServerResponse_eq [OF assms r(1), of keyId] length_aesIgeEncryption [of "drop 32 r" F data "take 32 r" False]
    by auto
qed

definition demo_crypto :: crypto where
  "demo_crypto = \<lparr>cr_SHA1 = (\<lambda>xs i. word_of_nat (length xs + i)), cr_SHA256 = (\<lambda>xs i. word_of_nat (length xs + i)),
     cr_AES_encrypt = (\<lambda>key xs i. xs ! i + 1), cr_AES_decrypt = (\<lambda>key xs i. xs ! i - 1)\<rparr>"

lemma response_accepted_iff_witness:
  "\<exists>ok plain. decryptServerResponse demo_crypto 2 5 (replicate 16 1) (replicate 48 0) demo_datacenter = Some (ok, plain) \<and>
     length plain = 48 \<and> (ok \<longleftrightarrow> padding_ok plain \<and> message_key demo_crypto 2 (replicate 256 7) plain = replicate 16 1)"
  using response_accepted_iff [of demo_datacenter "replicate 256 7" "replicate 16 1" "replicate 48 0" demo_crypto 2 5]
  by (simp add: demo_datacenter_def)

text \<open>A correctly padded text the server encrypts is accepted and decrypted.\<close>

lemma server_message_decrypted:
  assumes "block_inverse (cr_AES_encrypt F) (cr_AES_decrypt F)" and "dc_authKeyPerm dc = Some authKey" and "length authKey = 256"
    and "32 \<le> length plain" and "length plain < 2 ^ 31" and "padding_ok plain"
  shows "\<exists>data. server_encrypt F version authKey plain = Some data \<and> length data = length plain \<and>
    decryptServerResponse F version (dc_authKeyPermId dc) (message_key F version authKey plain) data dc = Some (True, plain)"
proof -
  let ?k = "message_key F version authKey plain"
  obtain r where r: "generateMessageKey F authKey ?k True version = Some r" "length r = 64"
    using generateMessageKey_ok [OF assms(3), of ?k F True version] by auto
  let ?data = "fst (AES_ige_encrypt (cr_AES_encrypt F) plain (take 32 r) (drop 32 r) True)"
  have l: "length (drop 32 r) = 32" using r(2) by simp
  note g = ige_roundtrip [OF assms(1) l, of plain "take 32 r"]
  have d: "aesIgeEncryption F ?data (take 32 r) (drop 32 r) False = plain" using g(1) by (simp add: aesIgeEncryption_def)
  show ?thesis
    using decryptServerResponse_eq [OF assms(2,3) _ _ _ r(1), of ?data "dc_authKeyPermId dc"] r(1) g(2) d assms(4-6)
    by (auto simp: server_encrypt_def)
qed

definition demo_plain :: "byte list" where
  "demo_plain = replicate 28 0 @ [4, 0, 0, 0] @ [1, 2, 3, 4] @ replicate 12 0"

lemma demo_block_inverse: "block_inverse (cr_AES_encrypt demo_crypto) (cr_AES_decrypt demo_crypto)"
  unfolding block_inverse_def by (auto simp: demo_crypto_def block128_def intro!: nth_equalityI simp del: upt_rec_numeral)

lemma server_message_decrypted_witness:
  "\<exists>data. server_encrypt demo_crypto 2 (replicate 256 7) demo_plain = Some data \<and> length data = 48 \<and>
     decryptServerResponse demo_crypto 2 5 (message_key demo_crypto 2 (replicate 256 7) demo_plain) data demo_datacenter = Some (True, demo_plain)"
  using server_message_decrypted [OF demo_block_inverse, of demo_datacenter "replicate 256 7" demo_plain 2]
  by (simp add: demo_datacenter_def demo_plain_def padding_ok_def u32_of_def)

subsection \<open>Requests\<close>

text \<open>What \<open>RAND_bytes\<close> delivers to one call, and its views of the time: seconds for the salts, the scaled clock of
  \<open>generateMessageId\<close>, the corrected milliseconds, and the floating-point expression that gives the time of a message id.\<close>

record request_env =
  re_index :: byte
  re_padding :: "nat \<Rightarrow> byte"
  re_value1 :: ulong
  re_value2 :: ulong
  re_date :: int
  re_clock :: int
  re_currentTime :: int
  re_messageTime :: "ulong \<Rightarrow> int"

text \<open>The objects the call changes: the data centre, the session of the connection, \<open>lastOutgoingMessageId\<close>, the buffer pools
  and the shared size calculator.\<close>

record request_state =
  rs_dc :: Datacenter
  rs_session :: ConnectionSession
  rs_lastOutgoingMessageId :: int
  rs_pool :: BuffersStorage
  rs_sizeCalculator :: NativeByteBuffer

definition message_body :: "TL_message \<Rightarrow> TLObject option" where
  "message_body m = (case TL_message_outgoingBody m of Some x \<Rightarrow> Some x | None \<Rightarrow> TL_message_body m)"

text \<open>\<open>messageId\<close>, \<open>messageSeqNo\<close> and \<open>messageBody\<close>: the message itself, or a container of the messages.\<close>

definition in_container :: "request_env \<Rightarrow> TL_message list \<Rightarrow> request_state \<Rightarrow> (ulong \<times> u32 \<times> TLObject option \<times> request_state) option" where
  "in_container env ms s = do {
     (messageId, last) \<leftarrow> generateMessageId (re_clock env) (rs_lastOutgoingMessageId s);
     let (messageSeqNo, session) = generateMessageSeqNo False (rs_session s);
     Some (word_of_int messageId, messageSeqNo, Some (O_TL_msg_container ms), s\<lparr>rs_lastOutgoingMessageId := last, rs_session := session\<rparr>)
   }"

definition choose_message ::
    "request_env \<Rightarrow> bool \<Rightarrow> NetworkMessage list \<Rightarrow> request_state \<Rightarrow> (ulong \<times> u32 \<times> TLObject option \<times> request_state) option" where
  "choose_message env pfsInit requests s =
     (case map nm_message requests of
        [m] \<Rightarrow>
          let messageTime = re_messageTime env (TL_message_msg_id m);
              currentTime = re_currentTime env
          in if \<not> pfsInit \<and> (messageTime < currentTime - 30000 \<or> messageTime > currentTime + 25000)
             then in_container env [m] s
             else Some (TL_message_msg_id m, TL_message_seqno m, message_body m, s)
      | ms \<Rightarrow> in_container env ms s)"

definition additional_size :: "request_env \<Rightarrow> int \<Rightarrow> u32 \<Rightarrow> u32" where
  "additional_size env mtProtoVersion messageSize =
     (let additionalSize = (32 + messageSize) mod 16;
          additionalSize = (if additionalSize \<noteq> 0 then 16 - additionalSize else additionalSize)
      in if mtProtoVersion = 2 then additionalSize + (2 + (ucast (re_index env) mod 14)) * 16 else additionalSize)"

text \<open>A block of memory written through \<open>bytes()\<close>.\<close>

definition poke :: "int \<Rightarrow> byte list \<Rightarrow> NativeByteBuffer \<Rightarrow> NativeByteBuffer option" where
  "poke i xs b = do {
     m \<leftarrow> mem_copy (nb_buffer b) i xs 0 (int (length xs));
     Some (b\<lparr>nb_buffer := m\<rparr>)
   }"

definition quick_ack_id :: "byte list \<Rightarrow> u32" where
  "quick_ack_id w = u32_of w AND 0x7fffffff"

text \<open>The result is null, or the buffer with \<open>quickAckId\<close>.\<close>

definition createRequestsData ::
    "crypto \<Rightarrow> mem_env \<Rightarrow> request_env \<Rightarrow> int \<Rightarrow> NetworkMessage list \<Rightarrow> bool \<Rightarrow> request_state \<Rightarrow>
     ((NativeByteBuffer \<times> u32) option \<times> request_state) option" where
  "createRequestsData F E env mtProtoVersion requests pfsInit s =
     (let (authKey, authKeyId) = getAuthKey (rs_dc s) in
      case authKey of
        None \<Rightarrow> Some (None, s)
      | Some authKey \<Rightarrow> do {
          (messageId, messageSeqNo, messageBody, s) \<leftarrow> choose_message env pfsInit requests s;
          messageBody \<leftarrow> messageBody;
          let mtProtoVersion = (if pfsInit then 1 else mtProtoVersion);
          (messageSize, calc) \<leftarrow> getObjectSize (serializeToStream messageBody) (rs_sizeCalculator s);
          let s = s\<lparr>rs_sizeCalculator := calc\<rparr>;
          let additionalSize = additional_size env mtProtoVersion messageSize;
          let (b, pool) = getFreeBuffer E (24 + 32 + messageSize + additionalSize) (rs_pool s);
          let s = s\<lparr>rs_pool := pool\<rparr>;
          b \<leftarrow> writeInt64 authKeyId b;
          let b = position_set 24 b;
          (b, s) \<leftarrow> (if pfsInit then do {
              b \<leftarrow> writeInt64 (re_value1 env) b;
              b \<leftarrow> writeInt64 (re_value2 env) b;
              Some (b, s)
            }
            else do {
              (salt, dc) \<leftarrow> getServerSalt (re_date env) (rs_dc s);
              b \<leftarrow> writeInt64 salt b;
              b \<leftarrow> writeInt64 (getSessionId (rs_session s)) b;
              Some (b, s\<lparr>rs_dc := dc\<rparr>)
            });
          b \<leftarrow> writeInt64 messageId b;
          b \<leftarrow> writeInt32 messageSeqNo b;
          b \<leftarrow> writeInt32 messageSize b;
          b \<leftarrow> serializeToStream messageBody b;
          b \<leftarrow> (if additionalSize \<noteq> 0
                then poke (24 + 32 + uint messageSize) (map (re_padding env) [0..<unat additionalSize]) b
                else Some b);
          (messageKey, quickAckId) \<leftarrow> (if mtProtoVersion = 2 then do {
              a \<leftarrow> slice authKey 88 32;
              d \<leftarrow> slice (nb_buffer b) 24 (uint (32 + messageSize + additionalSize));
              let sha = SHA256 F (a @ d);
              Some (take 16 (drop 8 sha), quick_ack_id (take 4 sha))
            }
            else do {
              d \<leftarrow> slice (nb_buffer b) 24 (uint (32 + messageSize));
              let sha = SHA1 F d;
              Some (take 16 (drop 4 sha), quick_ack_id (take 4 sha))
            });
          b \<leftarrow> poke 8 messageKey b;
          r \<leftarrow> generateMessageKey F authKey messageKey False mtProtoVersion;
          d \<leftarrow> slice (nb_buffer b) 24 (uint (nb_limit b - 24));
          b \<leftarrow> poke 24 (aesIgeEncryption F d (take 32 r) (drop 32 r) True) b;
          Some (Some (b, quickAckId), s)
        })"

subsection \<open>What is sent\<close>

text \<open>The plain text of a request, in the layout of the protocol, and its message key.\<close>

definition plain_text :: "ulong \<Rightarrow> ulong \<Rightarrow> ulong \<Rightarrow> u32 \<Rightarrow> byte list \<Rightarrow> byte list \<Rightarrow> byte list" where
  "plain_text salt session messageId seqno body padding =
     long_bytes salt @ long_bytes session @ long_bytes messageId @ int_bytes seqno @ int_bytes (word_of_nat (length body)) @ body @ padding"

definition request_key :: "crypto \<Rightarrow> byte list \<Rightarrow> byte list \<Rightarrow> byte list" where
  "request_key F authKey plain = take 16 (drop 8 (SHA256 F (take 32 (drop 88 authKey) @ plain)))"

lemma round_up_16: "(32 + m + ((if m mod 16 = 0 then 0 else 16 - m mod 16) + (2 + i) * 16)) mod 16 = (0 :: nat)"
proof -
  obtain q r where m: "m = 16 * q + r" "r < 16" by (metis mod_less_divisor mult_div_mod_eq zero_less_numeral)
  then have "m mod 16 = r" by simp
  then have "32 + m + ((if m mod 16 = 0 then 0 else 16 - m mod 16) + (2 + i) * 16) = 16 * (q + (if r = 0 then 4 else 5) + i)"
    using m by simp
  then show ?thesis by (metis mod_mult_self1_is_0)
qed

lemma additional_size_bounds:
  assumes "unat messageSize < 2 ^ 24"
  shows "(32 + unat messageSize + unat (additional_size env 2 messageSize)) mod 16 = 0"
    and "32 \<le> unat (additional_size env 2 messageSize)" and "unat (additional_size env 2 messageSize) \<le> 255"
proof -
  let ?a = "(32 + messageSize) mod 16 :: u32" and ?i = "ucast (re_index env) mod 14 :: u32"
  have m: "unat (32 + messageSize) = 32 + unat messageSize" using assms by (simp add: unat_word_ariths)
  have "unat ?a = (32 + unat messageSize) mod 16" by (simp add: unat_mod_distrib m)
  then have a: "unat ?a = unat messageSize mod 16" using mod_mult_self2 [of "unat messageSize" 16 2] by (simp add: add.commute)
  let ?b = "if ?a \<noteq> 0 then 16 - ?a else ?a"
  have b: "unat ?b = (if unat messageSize mod 16 = 0 then 0 else 16 - unat messageSize mod 16)"
  proof (cases "?a = 0")
    case True
    then have "unat ?a = 0" by simp
    then show ?thesis using True a by simp
  next
    case False
    then have ne: "unat messageSize mod 16 \<noteq> 0" using a by (metis unat_eq_zero)
    have "unat ?a < 16" using a by simp
    then have "unat (16 - ?a) = 16 - unat ?a" by (simp add: unat_sub word_le_nat_alt)
    then show ?thesis using False ne a by simp
  qed
  have i: "unat ?i < 14" by (simp add: unat_mod_distrib)
  have s: "unat ((2 + ?i) * 16) = (2 + unat ?i) * 16"
  proof -
    have "unat (2 + ?i) = 2 + unat ?i" using i by (simp add: unat_word_ariths)
    then show ?thesis using i by (simp add: unat_word_ariths)
  qed
  have e: "unat (additional_size env 2 messageSize) = unat ?b + (2 + unat ?i) * 16"
  proof -
    have "unat (?b + (2 + ?i) * 16) = unat ?b + unat ((2 + ?i) * 16)" using b i s by (simp add: unat_word_ariths)
    then show ?thesis using s by (simp add: additional_size_def Let_def)
  qed
  show "32 \<le> unat (additional_size env 2 messageSize)" "unat (additional_size env 2 messageSize) \<le> 255" using e b i by (simp_all split: if_splits)
  show "(32 + unat messageSize + unat (additional_size env 2 messageSize)) mod 16 = 0" unfolding e b by (rule round_up_16)
qed

lemma emits_wrote:
  assumes "emits f ys" and "nbb_ok b" and "unat (nb_position b) + length xs + length ys \<le> unat (nb_limit b)"
  shows "f (wrote xs b) = Some (wrote (xs @ ys) b)"
  using assms wrote_ok [of b xs] wrote_wrote [of b xs ys] by (simp add: emits_def)

lemma poke_eq:
  assumes "i + length xs \<le> length (nb_buffer b)"
  shows "poke (int i) xs b = Some (b\<lparr>nb_buffer := put_at (nb_buffer b) i xs\<rparr>)"
  using assms mem_copy_whole [of i xs "nb_buffer b"] by (simp add: poke_def put_at_def)

lemma take_put_at_end: "i + length xs \<le> length m \<Longrightarrow> n = i + length xs \<Longrightarrow> take n (put_at m i xs) = take i m @ xs"
  by (simp add: put_at_def)

lemma drop_put_at: "i + length xs \<le> length m \<Longrightarrow> take (length xs) (drop i (put_at m i xs)) = xs"
  by (simp add: put_at_def)

lemma choose_message_frame:
  assumes "choose_message env pfsInit requests s = Some (messageId, messageSeqNo, messageBody, s')"
  shows "rs_dc s' = rs_dc s" and "rs_pool s' = rs_pool s" and "rs_sizeCalculator s' = rs_sizeCalculator s"
    and "cs_sessionId (rs_session s') = cs_sessionId (rs_session s)"
  using assms
  by (auto simp: choose_message_def in_container_def generateMessageSeqNo_def Let_def split: list.splits if_splits Option.bind_splits prod.splits)

text \<open>The memory of the buffer, step by step.\<close>

lemma request_memory:
  assumes "length a = 8" and "length k = 16" and "length c = length h + length p" and "24 + length h + length p \<le> length m"
  defines "m1 \<equiv> put_at (put_at (put_at m 0 a) 24 h) (24 + length h) p"
  shows "length m1 = length m" and "take (length h + length p) (drop 24 m1) = h @ p"
    and "take (length h + length p) (drop 24 (put_at m1 8 k)) = h @ p"
    and "take (24 + length h + length p) (put_at (put_at m1 8 k) 24 c) = a @ k @ c"
proof -
  have e: "m1 = put_at (put_at m 0 a) 24 (h @ p)" using assms(1,4) put_at_append [of 24 h "put_at m 0 a" p] by (simp add: m1_def)
  then show l: "length m1 = length m" using assms(1,4) by simp
  have d: "drop 24 (put_at m1 8 k) = drop 24 m1" using assms(2) l assms(4) by (simp add: put_at_def)
  show x: "take (length h + length p) (drop 24 m1) = h @ p"
    using drop_put_at [of 24 "h @ p" "put_at m 0 a"] assms(1,4) by (simp add: e)
  then show "take (length h + length p) (drop 24 (put_at m1 8 k)) = h @ p" by (simp only: d)
  have t: "take 24 m1 = take 24 (put_at m 0 a)" unfolding e using assms(1,4) by (intro take_put_at) simp
  have "take 8 m1 = take 8 (take 24 m1)" by simp
  also have "\<dots> = take 8 (take 24 (put_at m 0 a))" by (simp only: t)
  also have "\<dots> = take 8 (put_at m 0 a)" by simp
  also have "\<dots> = a" using assms(1,4) by (simp add: put_at_def)
  finally have "take 8 m1 = a" .
  moreover have "take 24 (put_at m1 8 k) = take 8 m1 @ k" by (rule take_put_at_end) (use assms(2,4) l in simp_all)
  moreover have "take (24 + length h + length p) (put_at (put_at m1 8 k) 24 c) = take 24 (put_at m1 8 k) @ c"
    using assms(2-4) l by (intro take_put_at_end) simp_all
  ultimately show "take (24 + length h + length p) (put_at (put_at m1 8 k) 24 c) = a @ k @ c" by simp
qed

lemma createRequestsData_eq:
  assumes k: "dc_authKeyPerm (rs_dc s) = Some authKey" "length authKey = 256"
    and c: "choose_message env False requests s = Some (messageId, seqno, Some body, s1)"
    and w: "TLObject_wf body" "length (TLObject_wire body) < 2 ^ 24" and z: "nb_calculateSizeOnly (rs_sizeCalculator s)"
    and st: "storage_ok (rs_pool s)" and salt: "getServerSalt (re_date env) (rs_dc s) = Some (v, dc)"
  defines "n \<equiv> word_of_nat (length (TLObject_wire body)) :: u32"
  defines "p \<equiv> map (re_padding env) [0..<unat (additional_size env 2 n)]"
  defines "plain \<equiv> plain_text v (cs_sessionId (rs_session s)) messageId seqno (TLObject_wire body) p"
  shows "\<exists>b s' r. createRequestsData F E env 2 requests False s =
      Some (Some (b, quick_ack_id (take 4 (SHA256 F (take 32 (drop 88 authKey) @ plain)))), s') \<and>
    generateMessageKey F authKey (request_key F authKey plain) False 2 = Some r \<and>
    nbb_ok b \<and> ahead (rewind b) = long_bytes (dc_authKeyPermId (rs_dc s)) @ request_key F authKey plain @
      aesIgeEncryption F plain (take 32 r) (drop 32 r) True \<and>
    rs_dc s' = dc \<and> storage_ok (rs_pool s')"
proof -
  let ?w = "TLObject_wire body" and ?a = "additional_size env 2 n"
  note f = choose_message_frame [OF c]
  have un: "unat n = length ?w" unfolding n_def using w(2) by (intro unat_len) simp
  have un24: "unat n < 2 ^ 24" using un w(2) by simp
  note ab = additional_size_bounds [OF un24, of env]
  have em: "emits (serializeToStream body) ?w" using serializeToStream_emits(1) [OF w(1)] .
  obtain calc where sz: "getObjectSize (serializeToStream body) (rs_sizeCalculator s1) = Some (n, calc)"
    using em z f(3) by (simp add: getObjectSize_def emits_def clearCapacity_def nb_grow_def n_def)
  let ?n = "24 + 32 + n + ?a"
  have N: "unat ?n = 56 + length ?w + unat ?a" using un un24 ab(3) by (simp add: unat_word_ariths)
  have N2: "unat (32 + n + ?a) = 32 + length ?w + unat ?a" using un un24 ab(3) by (simp add: unat_word_ariths)
  obtain b pool where g: "getFreeBuffer E ?n (rs_pool s1) = (b, pool)" by fastforce
  have small: "unat ?n < 2 ^ 31" using N w(2) ab(3) by simp
  have rd: "nbb_ok b" "nb_position b = 0" "nb_limit b = ?n" and pool: "storage_ok pool"
    using storage.get_ready [OF _ small g] storage.get_ok [OF _ small g] st f(2) by (simp_all add: ready_def)
  note d = nbb_okD [OF rd(1)]
  have cap: "56 + length ?w + unat ?a \<le> length (nb_buffer b)" using d rd(3) N by simp
  let ?A = "long_bytes (dc_authKeyPermId (rs_dc s))"
  let ?b1 = "wrote ?A b"
  have lA: "length ?A = 8" by simp
  have fitA: "unat (nb_position b) + length ?A \<le> unat (nb_limit b)" using N rd by simp
  have w1: "writeInt64 (dc_authKeyPermId (rs_dc s)) b = Some ?b1" using emits_writeInt64 rd(1) fitA unfolding emits_def by blast
  note o1 = wrote_ok [OF rd(1) fitA]
  let ?b2 = "position_set 24 ?b1"
  have b2: "?b2 = b\<lparr>nb_buffer := put_at (nb_buffer b) 0 ?A, nb_position := 24\<rparr>"
    using N rd by (simp add: position_set_def wrote_def word_less_nat_alt)
  have ok2: "nbb_ok ?b2" using d rd N cap by (simp add: b2 nbb_ok_def word_le_nat_alt)
  let ?H = "long_bytes v @ long_bytes (cs_sessionId (rs_session s)) @ long_bytes messageId @ int_bytes seqno @ int_bytes n @ ?w"
  have pos2: "unat (nb_position ?b2) = 24" "nb_limit ?b2 = ?n" using rd by (simp_all add: b2)
  have fit: "unat (nb_position ?b2) + length xs + length ys \<le> unat (nb_limit ?b2)" if "length xs + length ys \<le> 32 + length ?w" for xs ys :: "byte list"
    using pos2 N that by simp
  note em' = emits_wrote [OF _ ok2 fit]
  let ?v = "long_bytes v" and ?s = "long_bytes (cs_sessionId (rs_session s))" and ?i = "long_bytes messageId"
  have w2: "writeInt64 v ?b2 = Some (wrote ?v ?b2)"
    using emits_wrote [OF emits_writeInt64 ok2, of "[]" v] fit [of "[]" ?v] by simp
  have w3: "writeInt64 (cs_sessionId (rs_session s)) (wrote ?v ?b2) = Some (wrote (?v @ ?s) ?b2)"
    "writeInt64 messageId (wrote (?v @ ?s) ?b2) = Some (wrote ((?v @ ?s) @ ?i) ?b2)"
    "writeInt32 seqno (wrote ((?v @ ?s) @ ?i) ?b2) = Some (wrote (((?v @ ?s) @ ?i) @ int_bytes seqno) ?b2)"
    "writeInt32 n (wrote (((?v @ ?s) @ ?i) @ int_bytes seqno) ?b2) = Some (wrote ((((?v @ ?s) @ ?i) @ int_bytes seqno) @ int_bytes n) ?b2)"
    "serializeToStream body (wrote ((((?v @ ?s) @ ?i) @ int_bytes seqno) @ int_bytes n) ?b2) =
       Some (wrote (((((?v @ ?s) @ ?i) @ int_bytes seqno) @ int_bytes n) @ ?w) ?b2)"
    by (rule em' [OF emits_writeInt64], simp) (rule em' [OF emits_writeInt64], simp, rule em' [OF emits_writeInt32], simp,
      rule em' [OF emits_writeInt32], simp, rule em' [OF em], simp)
  let ?h = "32 + length ?w"
  have lH: "length ?H = ?h" by simp
  have lp: "length p = unat ?a" by (simp add: p_def)
  have pl: "plain = ?H @ p" by (simp add: plain_def plain_text_def n_def)
  let ?K = "request_key F authKey plain"
  have lK: "length ?K = 16" by (simp add: request_key_def)
  obtain r where r: "generateMessageKey F authKey ?K False 2 = Some r" "length r = 64" using generateMessageKey_ok [OF k(2) lK] .
  let ?C = "aesIgeEncryption F plain (take 32 r) (drop 32 r) True"
  have lC: "length ?C = length ?H + length p" using length_aesIgeEncryption [of "drop 32 r"] r(2) by (simp add: pl)
  define m1 where "m1 = put_at (put_at (put_at (nb_buffer b) 0 ?A) 24 ?H) (24 + length ?H) p"
  have big: "24 + length ?H + length p \<le> length (nb_buffer b)" using cap lH lp by simp
  note mem = request_memory [OF lA lK lC big, folded m1_def pl]
  let ?b3 = "b\<lparr>nb_buffer := put_at (put_at (nb_buffer b) 0 ?A) 24 ?H, nb_position := 24 + word_of_nat (length ?H)\<rparr>"
  have b3: "wrote (((((?v @ ?s) @ ?i) @ int_bytes seqno) @ int_bytes n) @ ?w) ?b2 = ?b3" unfolding b2 by (simp add: wrote_def)
  let ?b4 = "?b3\<lparr>nb_buffer := m1\<rparr>"
  let ?b5 = "?b3\<lparr>nb_buffer := put_at m1 8 ?K\<rparr>"
  let ?b6 = "?b3\<lparr>nb_buffer := put_at (put_at m1 8 ?K) 24 ?C\<rparr>"
  have p4: "poke (24 + 32 + uint n) p ?b3 = Some ?b4"
    using poke_eq [of "24 + length ?H" p ?b3] big lH un by (simp add: uint_nat m1_def)
  have p5: "poke 8 ?K ?b4 = Some ?b5" using poke_eq [of 8 ?K ?b4] mem(1) lK big by simp
  have p6: "poke 24 ?C ?b5 = Some ?b6" using poke_eq [of 24 ?C ?b5] mem(1) lK lC big by simp
  have sum: "length ?H + length p = 32 + length ?w + unat ?a" using lH lp by simp
  have lim: "nb_limit ?b5 - 24 = 32 + n + ?a" using rd(3) by simp
  have u: "uint (32 + n + ?a) = int (length ?H + length p)" unfolding uint_nat N2 sum by simp
  have lm: "24 + (length ?H + length p) \<le> length m1" using mem(1) big by simp
  then have lm5: "24 + (length ?H + length p) \<le> length (put_at m1 8 ?K)" using lK by simp
  have s4: "slice m1 24 (uint (32 + n + ?a)) = Some plain" and s5: "slice (put_at m1 8 ?K) 24 (uint (32 + n + ?a)) = Some plain"
    using slice_nat [of m1 24 "length ?H + length p"] slice_nat [of "put_at m1 8 ?K" 24 "length ?H + length p"] lm lm5 mem(2,3)
    unfolding u by (simp_all only: if_True pl of_nat_numeral)
  have s0: "slice authKey 88 32 = Some (take 32 (drop 88 authKey))" using k(2) by (simp add: slice_def)
  have ne: "?a \<noteq> 0" using ab(2) by auto
  let ?s' = "s1\<lparr>rs_sizeCalculator := calc, rs_pool := pool, rs_dc := dc\<rparr>"
  have u1: "rs_pool (s1\<lparr>rs_sizeCalculator := calc\<rparr>) = rs_pool s" "rs_dc (s1\<lparr>rs_sizeCalculator := calc, rs_pool := pool\<rparr>) = rs_dc s"
    "cs_sessionId (rs_session (s1\<lparr>rs_sizeCalculator := calc, rs_pool := pool\<rparr>)) = cs_sessionId (rs_session s)" by (simp_all add: f)
  have u2: "nb_buffer ?b4 = m1" "nb_buffer ?b5 = put_at m1 8 ?K" by simp_all
  have eq: "createRequestsData F E env 2 requests False s = Some (Some (?b6, quick_ack_id (take 4 (SHA256 F (take 32 (drop 88 authKey) @ plain)))), ?s')"
    unfolding createRequestsData_def getAuthKey_def Let_def getSessionId_def
    by (simp only: prod.case option.case k(1) c sz [unfolded f] g [unfolded f] u1 u2 w1 w2 w3 b3 f salt p_def [symmetric] if_False if_True ne p4 s0 s4 p5 bind.bind_lunit
      request_key_def [symmetric] r(1) lim s5 p6 simp_thms refl request_state.simps NativeByteBuffer.simps)
  have "nbb_ok ?b3" using wrote_ok(1) [OF ok2, of "((((?v @ ?s) @ ?i) @ int_bytes seqno) @ int_bytes n) @ ?w"] pos2 N unfolding b3 by simp
  then have "nbb_ok ?b6" using mem(1) lK lC big lA lH by (simp add: nbb_ok_def)
  moreover have "ahead (rewind ?b6) = ?A @ ?K @ ?C" using mem(4) rd(3) N sum by (simp add: ahead_def rewind_def add.assoc)
  ultimately show ?thesis using eq r(1) pool by (intro exI [of _ ?b6] exI [of _ ?s'] exI [of _ r]) simp
qed

text \<open>C5. What a request is on the wire.  In version 2 of the protocol, for any complete body of less than 16 MB,
  \<open>createRequestsData\<close> makes a buffer that holds the key id, the message key and data that decrypts, under the key derived from
  them, to the salt \<open>getServerSalt\<close> chooses, the session, the message id and sequence number, the length of the body, the body
  and 32 to 255 bytes of padding that round the whole up to 16 bytes.  The message key is the one the protocol prescribes
  for exactly that text.  The block cipher's two directions are inverse.\<close>

theorem request_encrypted:
  assumes "dc_authKeyPerm (rs_dc s) = Some authKey" and "length authKey = 256" and "0 \<le> re_date env"
    and "choose_message env False requests s = Some (messageId, seqno, Some body, s1)"
    and "TLObject_wf body" and "length (TLObject_wire body) < 2 ^ 24" and "nb_calculateSizeOnly (rs_sizeCalculator s)" and "storage_ok (rs_pool s)"
    and "block_inverse (cr_AES_encrypt F) (cr_AES_decrypt F)"
  shows "\<exists>b q s' salt padding plain r data. createRequestsData F E env 2 requests False s = Some (Some (b, q), s') \<and>
    getServerSalt (re_date env) (rs_dc s) = Some (salt, rs_dc s') \<and>
    plain = plain_text salt (cs_sessionId (rs_session s)) messageId seqno (TLObject_wire body) padding \<and>
    length plain mod 16 = 0 \<and> 32 \<le> length padding \<and> length padding \<le> 255 \<and>
    nbb_ok b \<and> ahead (rewind b) = long_bytes (dc_authKeyPermId (rs_dc s)) @ request_key F authKey plain @ data \<and>
    generateMessageKey F authKey (request_key F authKey plain) False 2 = Some r \<and>
    fst (AES_ige_encrypt (cr_AES_decrypt F) data (take 32 r) (drop 32 r) False) = plain"
proof -
  obtain salt dc where salt: "getServerSalt (re_date env) (rs_dc s) = Some (salt, dc)"
    using salt_loop_eq [OF assms(3) order_refl, of "dc_serverSalts (rs_dc s)" False 0] by (auto simp: getServerSalt_def)
  let ?n = "word_of_nat (length (TLObject_wire body)) :: u32"
  let ?p = "map (re_padding env) [0..<unat (additional_size env 2 ?n)]"
  let ?plain = "plain_text salt (cs_sessionId (rs_session s)) messageId seqno (TLObject_wire body) ?p"
  have un: "unat ?n = length (TLObject_wire body)" using assms(6) by (intro unat_len) simp
  then have "unat ?n < 2 ^ 24" using assms(6) by simp
  note a = additional_size_bounds [OF this, of env]
  obtain b s' r where c: "createRequestsData F E env 2 requests False s =
        Some (Some (b, quick_ack_id (take 4 (SHA256 F (take 32 (drop 88 authKey) @ ?plain)))), s')"
      "generateMessageKey F authKey (request_key F authKey ?plain) False 2 = Some r" "nbb_ok b"
      "ahead (rewind b) = long_bytes (dc_authKeyPermId (rs_dc s)) @ request_key F authKey ?plain @
         aesIgeEncryption F ?plain (take 32 r) (drop 32 r) True" "rs_dc s' = dc"
    using createRequestsData_eq [OF assms(1,2,4-8) salt, of F E] by blast
  let ?data = "aesIgeEncryption F ?plain (take 32 r) (drop 32 r) True"
  obtain r' where "generateMessageKey F authKey (request_key F authKey ?plain) False 2 = Some r'" "length r' = 64"
    using generateMessageKey_ok [OF assms(2), of "request_key F authKey ?plain" F False 2] by (auto simp: request_key_def)
  then have "length (drop 32 r) = 32" using c(2) by simp
  then have g: "fst (AES_ige_encrypt (cr_AES_decrypt F) ?data (take 32 r) (drop 32 r) False) = ?plain"
    using ige_roundtrip(1) [OF assms(9), of "drop 32 r" ?plain "take 32 r"] by (simp add: aesIgeEncryption_def)
  have "length ?plain mod 16 = 0" using a(1) un by (simp add: plain_text_def add.assoc)
  moreover have "32 \<le> length ?p" "length ?p \<le> 255" using a by simp_all
  moreover have "getServerSalt (re_date env) (rs_dc s) = Some (salt, rs_dc s')" using salt c(5) by simp
  ultimately show ?thesis using c(1-4) g by (intro exI conjI) (rule refl | assumption)+
qed

definition demo_request_env :: request_env where
  "demo_request_env = \<lparr>re_index = 3, re_padding = word_of_nat, re_value1 = 0, re_value2 = 0, re_date = 100, re_clock = 1000,
     re_currentTime = 0, re_messageTime = (\<lambda>_. 0)\<rparr>"

definition demo_request_state :: request_state where
  "demo_request_state = \<lparr>rs_dc = demo_datacenter, rs_session = ConnectionSession_new 9, rs_lastOutgoingMessageId = 0,
     rs_pool = BuffersStorage_new ample, rs_sizeCalculator = NativeByteBuffer_calc True\<rparr>"

definition demo_network_message :: NetworkMessage where
  "demo_network_message = \<lparr>nm_message = TL_message 40 1 20 (Some demo_ping) None None, nm_invokeAfter = False, nm_needQuickAck = False\<rparr>"

theorem request_encrypted_witness:
  "\<exists>b q s' salt padding plain r data. createRequestsData demo_crypto ample demo_request_env 2 [demo_network_message] False demo_request_state =
       Some (Some (b, q), s') \<and>
    getServerSalt 100 demo_datacenter = Some (salt, rs_dc s') \<and>
    plain = plain_text salt 9 40 1 (TLObject_wire demo_ping) padding \<and>
    length plain mod 16 = 0 \<and> 32 \<le> length padding \<and> length padding \<le> 255 \<and>
    nbb_ok b \<and> ahead (rewind b) = long_bytes 5 @ request_key demo_crypto (replicate 256 7) plain @ data \<and>
    generateMessageKey demo_crypto (replicate 256 7) (request_key demo_crypto (replicate 256 7) plain) False 2 = Some r \<and>
    fst (AES_ige_encrypt (cr_AES_decrypt demo_crypto) data (take 32 r) (drop 32 r) False) = plain"
proof -
  let ?s = demo_request_state and ?e = demo_request_env
  have w: "TLObject_wf demo_ping" "length (TLObject_wire demo_ping) < 2 ^ 24"
    by (simp_all add: demo_ping_def TL_ping_wf_def TL_ping_wire_def TL_ping_params_def)
  have c: "choose_message ?e False [demo_network_message] ?s = Some (40, 1, Some demo_ping, ?s)"
    by (simp add: choose_message_def demo_network_message_def demo_request_env_def message_body_def)
  have s: "dc_authKeyPerm (rs_dc ?s) = Some (replicate 256 7)" "0 \<le> re_date ?e" "nb_calculateSizeOnly (rs_sizeCalculator ?s)" "storage_ok (rs_pool ?s)"
    by (simp_all add: demo_request_state_def demo_datacenter_def demo_request_env_def NativeByteBuffer_calc_def storage_ok_new)
  have f: "rs_dc ?s = demo_datacenter" "re_date ?e = 100" "cs_sessionId (rs_session ?s) = 9" "dc_authKeyPermId demo_datacenter = 5"
    by (simp_all add: demo_request_state_def demo_request_env_def ConnectionSession_new_def demo_datacenter_def)
  show ?thesis
    using request_encrypted [OF s(1) _ s(2) c w s(3,4) demo_block_inverse, of ample] unfolding f by (simp only: length_replicate simp_thms)
qed

end
