(* ===== verification/Connection_Receive.thy ===== *)
theory Connection_Receive
  imports Byte_Reader
begin

unbundle bit_operations_syntax

section \<open>Connection: taking packets out of the byte stream\<close>

text \<open>
  \<open>Connection::onReceivedData\<close> of \<open>tgnet/Connection.cpp\<close>, statement by statement: what was kept of an incomplete packet
  is completed with the new data, packets and quick acknowledgements are handed over, and an incomplete rest is kept.

  \<open>'k Connection\<close> has the fields receiving uses; \<open>Receiving\<close> adds the local variables and the calls into the rest of the
  program in their order.  The local pointer \<open>buffer\<close> may be the same object as \<open>restOfTheData\<close>; the datatype \<open>target\<close> says
  which object it points to, so that a change through one pointer is seen through the other.  \<^const>\<open>None\<close> is an access
  outside a buffer.  The loop is a \<open>partial_function\<close>: that it returns is part of the theorems.  The stream cipher and what
  the handler of a packet does to the connection (\<open>drops\<close>) are arguments.  When a handler drops the connection the code
  goes on with a buffer that is back in the pool; the model goes on with a copy of it.
\<close>

subsection \<open>State\<close>

datatype ProtocolType = ProtocolTypeEF | ProtocolTypeEE | ProtocolTypeDD

text \<open>The values of \<open>ConnectionType\<close> in \<open>Defines.h\<close>.\<close>

definition ConnectionTypeUpload :: u32 where "ConnectionTypeUpload = 4"
definition ConnectionTypePush :: u32 where "ConnectionTypePush = 8"
definition ConnectionTypeProxy :: u32 where "ConnectionTypeProxy = 32"

text \<open>The fields of \<open>Connection\<close> that receiving uses; \<open>'k\<close> is the state of the stream cipher
  (\<open>decryptKey\<close>, \<open>decryptIv\<close>, \<open>decryptCount\<close>, \<open>decryptNum\<close>).\<close>

record 'k Connection =
  cn_currentProtocolType :: ProtocolType
  cn_connectionType :: u32
  cn_restOfTheData :: "NativeByteBuffer option"
  cn_lastPacketLength :: u32
  cn_failedConnectionCount :: "16 word"
  cn_hasSomeDataSinceLastConnect :: bool
  cn_isTryingNextPort :: bool
  cn_forceNextPort :: bool
  cn_timeout :: int
  cn_decrypt :: 'k
  cn_pool :: BuffersStorage

text \<open>What \<open>ConnectionsManager\<close> says of the network.\<close>

record network =
  nt_slow :: bool
  nt_available :: bool

text \<open>What the rest of the program is told, in order.\<close>

datatype recv_event =
    onConnectionDataReceived "byte list"
  | onConnectionQuickAckReceived u32
  | storeCurrentAddressAndPortNum
  | Reconnect

text \<open>The local pointer \<open>buffer\<close> is the argument, the object \<open>restOfTheData\<close> also points to, or one that
  \<open>restOfTheData\<close> no longer points to.  \<open>parseLaterBuffer\<close> is null or the argument.\<close>

datatype target = Argument | Rest | Detached NativeByteBuffer

record 'k Receiving = "'k Connection" +
  rv_argument :: NativeByteBuffer
  rv_buffer :: target
  rv_parseLater :: bool
  rv_events :: "recv_event list"

definition buffer :: "'k Receiving \<Rightarrow> NativeByteBuffer option" where
  "buffer s = (case rv_buffer s of Argument \<Rightarrow> Some (rv_argument s) | Rest \<Rightarrow> cn_restOfTheData s | Detached b \<Rightarrow> Some b)"

definition set_buffer :: "NativeByteBuffer \<Rightarrow> 'k Receiving \<Rightarrow> 'k Receiving" where
  "set_buffer b s = (case rv_buffer s of
     Argument \<Rightarrow> s\<lparr>rv_argument := b\<rparr> | Rest \<Rightarrow> s\<lparr>cn_restOfTheData := Some b\<rparr> | Detached _ \<Rightarrow> s\<lparr>rv_buffer := Detached b\<rparr>)"

text \<open>An assignment to \<open>restOfTheData\<close>; \<open>buffer\<close> keeps the object it points to.\<close>

definition set_rest :: "NativeByteBuffer option \<Rightarrow> 'k Receiving \<Rightarrow> 'k Receiving" where
  "set_rest p s = (case (rv_buffer s, cn_restOfTheData s) of
     (Rest, Some b) \<Rightarrow> s\<lparr>rv_buffer := Detached b, cn_restOfTheData := p\<rparr> | _ \<Rightarrow> s\<lparr>cn_restOfTheData := p\<rparr>)"

definition give_back :: "NativeByteBuffer option \<Rightarrow> 'k Receiving \<Rightarrow> 'k Receiving" where
  "give_back p s = (case p of None \<Rightarrow> s | Some b \<Rightarrow> s\<lparr>cn_pool := reuse b (cn_pool s)\<rparr>)"

definition event :: "recv_event \<Rightarrow> 'k Receiving \<Rightarrow> 'k Receiving" where
  "event e s = s\<lparr>rv_events := rv_events s @ [e]\<rparr>"

text \<open>A reader called on \<open>buffer\<close> without an error pointer.\<close>

definition read_buffer :: "mem_env \<Rightarrow> (istream \<Rightarrow> ('a \<times> istream) option) \<Rightarrow> 'k Receiving \<Rightarrow> ('a \<times> 'k Receiving) option" where
  "read_buffer E f s = do {
     b \<leftarrow> buffer s;
     (x, t) \<leftarrow> f \<lparr>is_buf = b, is_error = False, is_pool = cn_pool s, is_mem = E\<rparr>;
     Some (x, set_buffer (is_buf t) s)
   }"

subsection \<open>Reassembly\<close>

text \<open>\<open>suspendConnection\<close> and \<open>connect\<close>, as far as they concern the fields above; the connection is open while data
  arrives, and \<open>suspendConnection\<close> stops the reconnect timer.\<close>

definition drop_rest :: "'k Receiving \<Rightarrow> 'k Receiving" where
  "drop_rest s = (set_rest None (give_back (cn_restOfTheData s) s))\<lparr>cn_lastPacketLength := 0\<rparr>"

definition connect :: "network \<Rightarrow> 'k Receiving \<Rightarrow> 'k Receiving" where
  "connect n s =
     (if \<not> nt_available n then s
      else (drop_rest s)\<lparr>cn_hasSomeDataSinceLastConnect := False,
        cn_timeout := (if cn_connectionType s = ConnectionTypeProxy then 5
           else if cn_connectionType s = ConnectionTypePush then if cn_isTryingNextPort s then 20 else 30
           else if cn_connectionType s = ConnectionTypeUpload then if nt_slow n then 40 else 25
           else if cn_isTryingNextPort s then 8 else 12)\<rparr>)"

definition reconnect :: "network \<Rightarrow> 'k Receiving \<Rightarrow> 'k Receiving" where
  "reconnect n s = event Reconnect
     (if cn_connectionType s = ConnectionTypeProxy then drop_rest s
      else connect n (drop_rest (s\<lparr>cn_forceNextPort := True\<rparr>)))"

text \<open>The first block of the loop.\<close>

definition first_data :: "network \<Rightarrow> 'k Receiving \<Rightarrow> 'k Receiving" where
  "first_data n s =
     (let s = (if \<not> cn_hasSomeDataSinceLastConnect s then
                 let s = (event storeCurrentAddressAndPortNum s)\<lparr>cn_isTryingNextPort := False\<rparr> in
                 s\<lparr>cn_timeout := (if cn_connectionType s = ConnectionTypeProxy then 5
                    else if cn_connectionType s = ConnectionTypePush then 60 * 15
                    else if cn_connectionType s = ConnectionTypeUpload then if nt_slow n then 40 else 25
                    else 25)\<rparr>
               else s)
      in s\<lparr>cn_hasSomeDataSinceLastConnect := True\<rparr>)"

text \<open>Fewer than four bytes left: they are kept in a new buffer.\<close>

definition keep_in_new :: "mem_env \<Rightarrow> 'k Receiving \<Rightarrow> 'k Receiving option" where
  "keep_in_new E s = do {
     let reuseLater = cn_restOfTheData s;
     b \<leftarrow> buffer s;
     let (r, pool) = getFreeBuffer E 16384 (cn_pool s);
     (b, r) \<leftarrow> writeBytes_buffer b r;
     let s = set_rest (Some (limit_set (nb_position r) r)) ((set_buffer b s)\<lparr>cn_pool := pool\<rparr>);
     Some (give_back reuseLater (s\<lparr>cn_lastPacketLength := 0\<rparr>))
   }"

definition keep_start :: "mem_env \<Rightarrow> 'k Receiving \<Rightarrow> 'k Receiving option" where
  "keep_start E s = (case cn_restOfTheData s of
     None \<Rightarrow> keep_in_new E s
   | Some r \<Rightarrow> if nb_position r \<noteq> 0 then keep_in_new E s
       else Some (s\<lparr>cn_restOfTheData := Some (position_set (nb_limit r) r)\<rparr>))"

datatype 'k header = Break "'k Receiving" | Continue "'k Receiving" | Length u32 u32 "'k Receiving"

text \<open>Reading the length: \<open>Length currentPacketLength len\<close>, or one of the jumps.\<close>

definition read_length_EF :: "mem_env \<Rightarrow> u32 \<Rightarrow> 'k Receiving \<Rightarrow> 'k header option" where
  "read_length_EF E mark s = do {
     (fByte, s) \<leftarrow> read_buffer E readByte s;
     if fByte AND push_bit 7 1 \<noteq> 0 then do {
       b \<leftarrow> buffer s;
       let s = set_buffer (position_set mark b) s;
       b \<leftarrow> buffer s;
       if remaining b < 4 then map_option Break (keep_in_new E s)
       else do {
         (x, s) \<leftarrow> read_buffer E readBigInt32 s;
         Some (Continue (event (onConnectionQuickAckReceived (x AND NOT (push_bit 31 1))) s))
       }
     }
     else if fByte \<noteq> 0x7f then Some (Length (ucast fByte * 4) (ucast fByte * 4 + 1) s)
     else do {
       b \<leftarrow> buffer s;
       let s = set_buffer (position_set mark b) s;
       b \<leftarrow> buffer s;
       if remaining b < 4 then map_option Break (keep_start E s)
       else do {
         (x, s) \<leftarrow> read_buffer E readInt32 s;
         Some (Length (drop_bit 8 x * 4) (drop_bit 8 x * 4 + 4) s)
       }
     }
   }"

definition read_length :: "mem_env \<Rightarrow> 'k Receiving \<Rightarrow> 'k header option" where
  "read_length E s = do {
     b \<leftarrow> buffer s;
     if remaining b < 4 then map_option Break (keep_start E s)
     else do {
       (fInt, s) \<leftarrow> read_buffer E readUint32 s;
       if fInt AND 0x80000000 \<noteq> 0
       then Some (Continue (event (onConnectionQuickAckReceived (fInt AND NOT (push_bit 31 1))) s))
       else Some (Length fInt (fInt + 4) s)
     }
   }"

text \<open>The packet is not complete: what is there of it is kept, and its length noted.\<close>

definition keep_packet :: "mem_env \<Rightarrow> u32 \<Rightarrow> u32 \<Rightarrow> 'k Receiving \<Rightarrow> 'k Receiving option" where
  "keep_packet E mark len s = do {
     let (reuseLater, s) = (case cn_restOfTheData s of
        Some r \<Rightarrow> if nb_capacity r < len then (Some r, set_rest None s) else (None, s) | None \<Rightarrow> (None, s));
     s \<leftarrow> (case cn_restOfTheData s of
        None \<Rightarrow> do {
          b \<leftarrow> buffer s;
          let b = position_set mark b;
          let (r, pool) = getFreeBuffer E len (cn_pool s);
          (b, r) \<leftarrow> writeBytes_buffer b r;
          Some ((set_buffer b s)\<lparr>cn_restOfTheData := Some r, cn_pool := pool\<rparr>)
        }
      | Some r \<Rightarrow> Some (s\<lparr>cn_restOfTheData := Some (limit_set len (position_set (nb_limit r) r))\<rparr>));
     Some (give_back reuseLater (s\<lparr>cn_lastPacketLength := len\<rparr>))
   }"

text \<open>\<open>drops\<close> says whether the handler of the packet drops the connection (\<open>reconnect\<close>).\<close>

definition deliver :: "network \<Rightarrow> (byte list \<Rightarrow> bool) \<Rightarrow> u32 \<Rightarrow> 'k Receiving \<Rightarrow> 'k Receiving option" where
  "deliver n drops currentPacketLength s = do {
     b \<leftarrow> buffer s;
     let old = nb_limit b;
     let b = limit_set (nb_position b + currentPacketLength) b;
     packet \<leftarrow> slice (nb_buffer b) (uint (nb_position b)) (uint currentPacketLength);
     let s = event (onConnectionDataReceived packet) (set_buffer b s);
     let s = (if drops packet then reconnect n s else s);
     b \<leftarrow> buffer s;
     Some (set_buffer (limit_set old (position_set (nb_limit b) b)) s)
   }"

definition after_packet :: "'k Receiving \<Rightarrow> 'k Receiving option" where
  "after_packet s = (case cn_restOfTheData s of
     None \<Rightarrow> Some s
   | Some r \<Rightarrow>
       if cn_lastPacketLength s \<noteq> 0 \<and> nb_position r = cn_lastPacketLength s \<or> cn_lastPacketLength s = 0 \<and> \<not> hasRemaining r
       then Some (set_rest None (give_back (Some r) s))
       else do {
         r \<leftarrow> compact r;
         Some (s\<lparr>cn_restOfTheData := Some (position_set 0 (limit_set (nb_position r) r))\<rparr>)
       })"

definition parse_later :: "'k Receiving \<Rightarrow> 'k Receiving" where
  "parse_later s = (if rv_parseLater s then s\<lparr>rv_buffer := Argument, rv_parseLater := False\<rparr> else s)"

text \<open>One round of the loop; \<open>Inr\<close> goes on, \<open>Inl\<close> leaves the function.\<close>

definition recv_step ::
    "mem_env \<Rightarrow> network \<Rightarrow> (byte list \<Rightarrow> bool) \<Rightarrow> 'k Receiving \<Rightarrow> ('k Receiving + 'k Receiving) option" where
  "recv_step E n drops s = do {
     let s = first_data n s;
     b \<leftarrow> buffer s;
     let mark = nb_position b;
     h \<leftarrow> (if cn_currentProtocolType s = ProtocolTypeEF then read_length_EF E mark s else read_length E s);
     (case h of
        Break s \<Rightarrow> Some (Inl s)
      | Continue s \<Rightarrow> Some (Inr s)
      | Length currentPacketLength len s \<Rightarrow>
          if cn_currentProtocolType s \<noteq> ProtocolTypeDD \<and> currentPacketLength mod 4 \<noteq> 0 \<or> currentPacketLength > 2 * 1024 * 1024
          then Some (Inl (reconnect n s))
          else do {
            b \<leftarrow> buffer s;
            if currentPacketLength > remaining b then map_option Inl (keep_packet E mark len s)
            else do {
              s \<leftarrow> deliver n drops currentPacketLength s;
              s \<leftarrow> after_packet s;
              Some (Inr (parse_later s))
            }
          })
   }"

partial_function (option) recv_loop ::
    "mem_env \<Rightarrow> network \<Rightarrow> (byte list \<Rightarrow> bool) \<Rightarrow> 'k Receiving \<Rightarrow> 'k Receiving option" where
  "recv_loop E n drops s = do {
     b \<leftarrow> buffer s;
     if hasRemaining b then do {
       r \<leftarrow> recv_step E n drops s;
       (case r of Inl s \<Rightarrow> Some s | Inr s \<Rightarrow> recv_loop E n drops s)
     }
     else Some s
   }"

text \<open>The block before the loop: what was kept is completed with the new data.  \<open>None\<close> is the early return.\<close>

definition join_rest :: "mem_env \<Rightarrow> 'k Receiving \<Rightarrow> ('k Receiving + 'k Receiving) option" where
  "join_rest E s = (case cn_restOfTheData s of
     None \<Rightarrow> Some (Inr s)
   | Some r \<Rightarrow>
       if cn_lastPacketLength s = 0 then
         if nb_capacity r - nb_position r \<ge> nb_limit (rv_argument s) then do {
           let r = limit_set (nb_position r + nb_limit (rv_argument s)) r;
           (b, r) \<leftarrow> writeBytes_buffer (rv_argument s) r;
           Some (Inr (s\<lparr>cn_restOfTheData := Some r, rv_argument := b, rv_buffer := Rest\<rparr>))
         }
         else do {
           let (n, pool) = getFreeBuffer E (nb_limit r + nb_limit (rv_argument s)) (cn_pool s);
           let r = rewind r;
           (r, n) \<leftarrow> writeBytes_buffer r n;
           (b, n) \<leftarrow> writeBytes_buffer (rv_argument s) n;
           Some (Inr (s\<lparr>cn_restOfTheData := Some n, cn_pool := reuse r pool, rv_argument := b, rv_buffer := Rest\<rparr>))
         }
       else do {
         let b = rv_argument s;
         let len = (if cn_lastPacketLength s - nb_position r \<le> nb_limit b then cn_lastPacketLength s - nb_position r else nb_limit b);
         let oldLimit = nb_limit b;
         (b, r) \<leftarrow> writeBytes_buffer (limit_set len b) r;
         let b = limit_set oldLimit b;
         let s = s\<lparr>cn_restOfTheData := Some r, rv_argument := b\<rparr>;
         if nb_position r = cn_lastPacketLength s
         then Some (Inr (s\<lparr>rv_parseLater := hasRemaining b, rv_buffer := Rest\<rparr>))
         else Some (Inl s)
       })"

text \<open>\<open>crypt\<close> is \<open>AES_ctr128_encrypt\<close> on the whole buffer.\<close>

definition onReceivedData :: "('k \<Rightarrow> byte list \<Rightarrow> byte list \<times> 'k) \<Rightarrow> mem_env \<Rightarrow> network \<Rightarrow> (byte list \<Rightarrow> bool) \<Rightarrow>
    NativeByteBuffer \<Rightarrow> 'k Connection \<Rightarrow> ('k Connection \<times> NativeByteBuffer \<times> recv_event list) option" where
  "onReceivedData crypt E n drops b c = do {
     xs \<leftarrow> slice (nb_buffer b) 0 (uint (nb_limit b));
     let (ys, k) = crypt (cn_decrypt c) xs;
     let b = b\<lparr>nb_buffer := ys @ drop (length ys) (nb_buffer b)\<rparr>;
     let c = c\<lparr>cn_decrypt := k, cn_failedConnectionCount := 0\<rparr>;
     r \<leftarrow> join_rest E (Connection.extend c (Receiving.fields b Argument False []));
     s \<leftarrow> (case r of
        Inl s \<Rightarrow> Some s
      | Inr s \<Rightarrow> do { b \<leftarrow> buffer s; recv_loop E n drops (set_buffer (rewind b) s) });
     Some (Connection.truncate s, rv_argument s, rv_events s)
   }"

end
