(* ===== verification/Connection_Frames.thy ===== *)
theory Connection_Frames
  imports Connection_Receive
begin

unbundle bit_operations_syntax

section \<open>Frames, and one round of the receive loop\<close>

text \<open>
  The framing of packets (\<open>frame\<close>), buffers as byte sequences (\<open>ahead\<close>: what is still to be read, \<open>behind\<close>: what was
  written), and what one round of the loop does with a whole packet, with the start of one, and at the end of the data.
  \<open>holding c xs\<close>: between two calls the connection keeps the bytes \<open>xs\<close> of a packet that has begun.
\<close>

subsection \<open>Buffers as byte sequences\<close>

definition moved :: "nat \<Rightarrow> NativeByteBuffer \<Rightarrow> NativeByteBuffer" where
  "moved n b = b\<lparr>nb_position := nb_position b + word_of_nat n\<rparr>"

definition behind :: "NativeByteBuffer \<Rightarrow> byte list" where
  "behind b = take (unat (nb_position b)) (nb_buffer b)"

definition room :: "NativeByteBuffer \<Rightarrow> nat" where
  "room b = unat (nb_limit b) - unat (nb_position b)"

lemma moved_ok:
  assumes "nbb_ok b" and "n \<le> length (ahead b)"
  shows "nbb_ok (moved n b)" and "ahead (moved n b) = drop n (ahead b)" and "unat (nb_position (moved n b)) = unat (nb_position b) + n"
    and "nb_limit (moved n b) = nb_limit b" and "nb_capacity (moved n b) = nb_capacity b" and "nb_sliced (moved n b) = nb_sliced b"
    and "nb_buffer (moved n b) = nb_buffer b"
proof -
  note d = nbb_okD [OF assms(1)]
  have n: "n \<le> unat (nb_limit b) - unat (nb_position b)" using assms length_ahead by simp
  show p: "unat (nb_position (moved n b)) = unat (nb_position b) + n"
    unfolding moved_def using n d by (simp add: unat_add_small)
  show "nbb_ok (moved n b)" using p n d by (simp add: nbb_ok_def moved_def word_le_nat_alt)
  have "ahead (moved n b) = take (unat (nb_limit b) - (unat (nb_position b) + n)) (drop (unat (nb_position b) + n) (nb_buffer b))"
    using p by (simp add: ahead_def moved_def)
  then show "ahead (moved n b) = drop n (ahead b)" by (simp add: ahead_def drop_take add.commute)
qed (simp_all add: moved_def)

lemma moved_capacity [simp]: "nb_capacity (moved n b) = nb_capacity b"
  by (simp add: moved_def)

lemma moved_position:
  assumes "nbb_ok b"
  shows "moved (length (ahead b)) b = b\<lparr>nb_position := nb_limit b\<rparr>"
proof -
  have "unat (nb_position (moved (length (ahead b)) b)) = unat (nb_limit b)"
    using moved_ok(3) [OF assms order_refl] nbb_okD [OF assms] by (simp add: length_ahead [OF assms])
  then have "nb_position (moved (length (ahead b)) b) = nb_limit b" by (simp add: word_unat_eq_iff)
  then show ?thesis by (simp add: moved_def)
qed

lemma hasRemaining_ahead: "nbb_ok b \<Longrightarrow> hasRemaining b \<longleftrightarrow> ahead b \<noteq> []"
  using length_ahead [of b] by (cases "ahead b") (auto simp: hasRemaining_def word_less_nat_alt)

lemma unat_remaining: "nbb_ok b \<Longrightarrow> unat (remaining b) = length (ahead b)"
  using nbb_okD [of b] by (simp add: remaining_def length_ahead unat_sub word_le_nat_alt)

lemma position_back:
  assumes "nbb_ok b" and "n \<le> length (ahead b)"
  shows "position_set (nb_position b) (moved n b) = b"
proof -
  have "\<not> nb_position b > nb_limit b" using nbb_okD(2) [OF assms(1)] by (simp add: word_less_nat_alt)
  then show ?thesis by (simp add: position_set_def moved_def)
qed

lemma behind_wrote:
  assumes "nbb_ok b" and "length xs \<le> room b"
  shows "behind (wrote xs b) = behind b @ xs"
proof -
  note d = nbb_okD [OF assms(1)]
  have "unat (nb_position b) + length xs \<le> unat (nb_limit b)" using assms(2) d by (simp add: room_def)
  then have p: "unat (nb_position b + word_of_nat (length xs)) = unat (nb_position b) + length xs"
    using wrote_ok(3) [OF assms(1)] by (simp add: wrote_def)
  have "unat (nb_position b) \<le> length (nb_buffer b)" using d by simp
  then show ?thesis using p by (simp add: behind_def wrote_def put_at_def)
qed

lemma writeBytes_buffer_ok:
  assumes "nbb_ok src" and "nbb_ok b" and "length (ahead src) \<le> room b"
  shows "writeBytes_buffer src b = Some (moved (length (ahead src)) src, wrote (ahead src) b)"
proof -
  note s = nbb_okD [OF assms(1)] and d = nbb_okD [OF assms(2)]
  let ?n = "nb_limit src - nb_position src"
  have n: "unat ?n = length (ahead src)" using unat_remaining [OF assms(1)] by (simp add: remaining_def)
  have fit: "unat (nb_position b) + unat ?n \<le> unat (nb_limit b)" using assms(3) n d by (simp add: room_def)
  show ?thesis
  proof (cases "?n = 0")
    case True
    then have "ahead src = []" "nb_position src = nb_limit src" using n by simp_all
    then show ?thesis
      by (simp add: writeBytes_buffer_def writeBytes_bufferE_def moved_def wrote_def put_at_def)
  next
    case False
    have p: "unat (nb_position b + ?n) = unat (nb_position b) + unat ?n" using fit d by (simp add: unat_word_ariths)
    have sl: "slice (nb_buffer src) (uint (nb_position src)) (uint ?n) = Some (ahead src)"
      using n s length_ahead [OF assms(1)] by (simp add: slice_uint ahead_def)
    have w: "writeBytesInternal (ahead src) 0 ?n b = Some (wrote (ahead src) b)"
      using writeBytesInternal_ok [OF assms(2) fit, of 0 "ahead src"] n by simp
    have "position_set (nb_limit src) src = moved (length (ahead src)) src"
      using moved_position [OF assms(1)] by (simp add: position_set_def)
    then show ?thesis using False p fit w sl d(1)
      by (simp add: writeBytes_buffer_def writeBytes_bufferE_def Let_def word_less_nat_alt)
  qed
qed

lemma room_ready: "ready n b \<Longrightarrow> room b = unat n" "ready n b \<Longrightarrow> behind b = []"
  by (simp_all add: room_def behind_def ready_def)

lemma compact_ahead:
  assumes "nbb_ok b" and "ahead b \<noteq> []"
  obtains c where "compact b = Some c"
    "nbb_ok (position_set 0 (limit_set (nb_position c) c))" "ahead (position_set 0 (limit_set (nb_position c) c)) = ahead b"
    "nb_position (position_set 0 (limit_set (nb_position c) c)) = 0"
    "nb_sliced (position_set 0 (limit_set (nb_position c) c)) = nb_sliced b"
proof -
  note d = nbb_okD [OF assms(1)]
  have ne: "nb_position b \<noteq> nb_limit b" using assms length_ahead [OF assms(1)] by auto
  obtain c where c: "compact b = Some c" "nbb_ok c" "same_block b c"
      "take (unat (nb_position c)) (nb_buffer c) = ahead b"
    using compact_ok [OF assms(1)] ne by (metis ahead_def)
  note e = nbb_okD [OF c(2)]
  let ?c = "position_set 0 (limit_set (nb_position c) c)"
  have q: "?c = c\<lparr>nb_limit := nb_position c, nb_position := 0\<rparr>"
    using e by (simp add: position_set_def limit_set_def word_less_nat_alt)
  have "nbb_ok ?c" "ahead ?c = ahead b" "nb_position ?c = 0" "nb_sliced ?c = nb_sliced b"
    using e c(4) c(3) by (simp_all add: q nbb_ok_def ahead_def word_le_nat_alt same_block_def)
  then show thesis using that c(1) by blast
qed

subsection \<open>The object \<open>buffer\<close> points to\<close>

lemma buffer_set_buffer [simp]: "buffer s = Some c \<Longrightarrow> buffer (set_buffer b s) = Some b"
  by (simp add: buffer_def set_buffer_def split: target.splits)

lemma set_buffer_set_buffer [simp]: "set_buffer b (set_buffer c s) = set_buffer b s"
  by (simp add: set_buffer_def split: target.splits)

lemma set_buffer_same [simp]: "buffer s = Some b \<Longrightarrow> set_buffer b s = s"
  by (auto simp: buffer_def set_buffer_def split: target.splits)

lemma set_buffer_frame [simp]:
  "cn_pool (set_buffer b s) = cn_pool s" "cn_currentProtocolType (set_buffer b s) = cn_currentProtocolType s"
  "cn_lastPacketLength (set_buffer b s) = cn_lastPacketLength s" "rv_parseLater (set_buffer b s) = rv_parseLater s"
  "rv_events (set_buffer b s) = rv_events s"
  by (simp_all add: set_buffer_def split: target.splits)

lemma buffer_event [simp]: "buffer (event e s) = buffer s"
  by (simp add: event_def buffer_def split: target.splits)

lemma read_buffer_parses:
  assumes "parses f xs v" and "buffer s = Some b" and "nbb_ok b" and "storage_ok (cn_pool s)" and "ahead b = xs @ ys"
  shows "read_buffer E f s = Some (v, set_buffer (moved (length xs) b) s)"
proof -
  let ?t = "\<lparr>is_buf = b, is_error = False, is_pool = cn_pool s, is_mem = E\<rparr>"
  have "f ?t = Some (v, advance (word_of_nat (length xs)) ?t)"
    using parsesD(1) [OF assms(1), of ?t ys] assms by (simp add: stream_ok_def)
  then show ?thesis by (simp add: read_buffer_def assms(2) advance_def moved_def)
qed

lemma parses_readByte: "parses readByte [x] x"
  unfolding parses_def
proof (intro allI impI)
  fix s ys
  assume s: "stream_ok s" "ahead (is_buf s) = [x] @ ys" "\<not> is_error s"
  then have "\<not> short 1 s" "nb_at (is_buf s) 0 = Some x"
    using shortD [of s 1] nb_at_ok [of "is_buf s" 0] by (simp_all add: stream_ok_def)
  then show "readByte s = Some (x, advance (word_of_nat (length [x])) s)" by (simp add: readByte_def)
qed

subsection \<open>Frames\<close>

text \<open>The framing of packets from the server.\<close>

definition frame_head :: "ProtocolType \<Rightarrow> nat \<Rightarrow> byte list" where
  "frame_head t n = (if t = ProtocolTypeEF
     then if n div 4 < 0x7f then [word_of_nat (n div 4)] else int_bytes (word_of_nat (n div 4 * 256 + 0x7f))
     else int_bytes (word_of_nat n))"

definition frame :: "ProtocolType \<Rightarrow> byte list \<Rightarrow> byte list" where
  "frame t p = frame_head t (length p) @ p"

definition packet_ok :: "ProtocolType \<Rightarrow> byte list \<Rightarrow> bool" where
  "packet_ok t p \<longleftrightarrow> length p \<le> 2 * 1024 * 1024 \<and> (t \<noteq> ProtocolTypeDD \<longrightarrow> length p mod 4 = 0)"

lemma frame_head_length: "length (frame_head t n) = (if t = ProtocolTypeEF \<and> n div 4 < 0x7f then 1 else 4)"
  by (simp add: frame_head_def)

lemma frame_not_Nil [simp]: "frame t p \<noteq> []" "frame_head t n \<noteq> []"
  by (simp_all add: frame_def frame_head_def int_bytes_def le_bytes_4)

lemma frame_length:
  assumes "packet_ok t p"
  shows "length (frame t p) < 2 ^ 22" and "unat (word_of_nat (length p) :: u32) = length p"
    and "unat (word_of_nat (length (frame t p)) :: u32) = length (frame t p)"
proof -
  show l: "length (frame t p) < 2 ^ 22" using assms by (simp add: frame_def frame_head_length packet_ok_def)
  then show "unat (word_of_nat (length (frame t p)) :: u32) = length (frame t p)" by (intro unat_len) simp
  show "unat (word_of_nat (length p) :: u32) = length p" using assms by (intro unat_len) (simp add: packet_ok_def)
qed

lemma high_clear: "unat (w :: 'a::len word) < 2 ^ k \<Longrightarrow> \<not> bit w k"
proof -
  assume "unat w < 2 ^ k"
  then have "unat (drop_bit k w) = 0" by (subst unat_drop_bit_eq) (simp add: drop_bit_eq_div)
  then have "drop_bit k w = 0" by (simp add: unat_eq_zero)
  then show "\<not> bit w k" by (simp add: bit_iff_odd_drop_bit)
qed

lemma big_head:
  assumes "m < 2 ^ 24"
  shows "drop_bit 8 (word_of_nat (m * 256 + 0x7f) :: u32) = word_of_nat m"
    and "hd (int_bytes (word_of_nat (m * 256 + 0x7f))) = 0x7f"
proof -
  have u: "unat (word_of_nat (m * 256 + 0x7f) :: u32) = m * 256 + 0x7f" "unat (word_of_nat m :: u32) = m"
    unfolding unat_of_nat using assms by (simp_all del: of_nat_add of_nat_mult)
  have "unat (drop_bit 8 (word_of_nat (m * 256 + 0x7f) :: u32)) = m"
    by (simp only: unat_drop_bit_eq u) (simp add: drop_bit_eq_div)
  then show "drop_bit 8 (word_of_nat (m * 256 + 0x7f) :: u32) = word_of_nat m" using u(2) by (simp add: word_unat_eq_iff)
  have "uint (word_of_nat (m * 256 + 0x7f) :: u32) = int (m * 256 + 0x7f)" using u(1) by (simp only: uint_nat)
  moreover have "(word_of_int (int (m * 256 + 0x7f)) :: byte) = 0x7f"
    unfolding word_uint_eq_iff uint_word_of_int by simp
  ultimately show "hd (int_bytes (word_of_nat (m * 256 + 0x7f))) = 0x7f"
    unfolding int_bytes_def le_bytes_4 list.sel by simp
qed

lemma frame_value:
  assumes "packet_ok t p"
  shows "t = ProtocolTypeEF \<Longrightarrow> word_of_nat (length p div 4) * 4 = (word_of_nat (length p) :: u32)"
    and "(word_of_nat (length p) :: u32) + word_of_nat (length (frame_head t (length p))) = word_of_nat (length (frame t p))"
proof -
  show "(word_of_nat (length p) :: u32) + word_of_nat (length (frame_head t (length p))) = word_of_nat (length (frame t p))"
    by (simp add: frame_def)
  assume "t = ProtocolTypeEF"
  then have "length p = length p div 4 * 4" using assms by (simp add: packet_ok_def mod_eq_0_iff_dvd)
  then show "word_of_nat (length p div 4) * 4 = (word_of_nat (length p) :: u32)" by (metis of_nat_mult of_nat_numeral)
qed

lemma small_head:
  assumes "m < 0x7f"
  shows "(word_of_nat m :: byte) AND push_bit 7 1 = 0" and "(word_of_nat m :: byte) \<noteq> 0x7f"
    and "(ucast (word_of_nat m :: byte) :: u32) = word_of_nat m"
proof -
  have u: "unat (word_of_nat m :: byte) = m" using assms by (simp add: unat_of_nat)
  then show "(word_of_nat m :: byte) \<noteq> 0x7f" using assms by auto
  have "unat (word_of_nat m :: u32) = m" using assms by (simp add: unat_of_nat)
  then show "(ucast (word_of_nat m :: byte) :: u32) = word_of_nat m" using u assms by (simp add: word_unat_eq_iff unsigned_ucast_eq take_bit_nat_eq_self)
  have "\<not> bit (word_of_nat m :: byte) 7" using u assms by (intro high_clear) simp
  then show "(word_of_nat m :: byte) AND push_bit 7 1 = 0"
    using and_exp_eq_0_iff_not_bit [of "word_of_nat m :: byte" 7] by simp
qed

definition read_head :: "mem_env \<Rightarrow> u32 \<Rightarrow> 'k Receiving \<Rightarrow> 'k header option" where
  "read_head E mark s = (if cn_currentProtocolType s = ProtocolTypeEF then read_length_EF E mark s else read_length E s)"

lemma head_full:
  assumes b: "buffer s = Some b" "nbb_ok b" and st: "storage_ok (cn_pool s)" and p: "packet_ok (cn_currentProtocolType s) p"
    and a: "ahead b = frame_head (cn_currentProtocolType s) (length p) @ ys"
  shows "read_head E (nb_position b) s = Some (Length (word_of_nat (length p)) (word_of_nat (length (frame (cn_currentProtocolType s) p)))
    (set_buffer (moved (length (frame_head (cn_currentProtocolType s) (length p))) b) s))"
proof -
  let ?t = "cn_currentProtocolType s" and ?m = "length p div 4"
  note v = frame_value [OF p]
  have l4: "\<not> remaining b < 4" if "length (frame_head ?t (length p)) = 4"
    using that a unat_remaining [OF b(2)] by (simp add: word_less_nat_alt)
  show ?thesis
  proof (cases "?t = ProtocolTypeEF")
    case False
    have h: "frame_head ?t (length p) = int_bytes (word_of_nat (length p))" using False by (simp add: frame_head_def)
    have "\<not> bit (word_of_nat (length p) :: u32) 31"
      using frame_length(2) [OF p] p by (intro high_clear) (simp add: packet_ok_def)
    then have "(word_of_nat (length p) :: u32) AND 0x80000000 = 0"
      using and_exp_eq_0_iff_not_bit [of "word_of_nat (length p) :: u32" 31] by simp
    then show ?thesis using False l4 v(2) read_buffer_parses [OF parses_readUint32 b st, of "word_of_nat (length p)" ys E] a
      by (simp add: read_head_def read_length_def b h)
  next
    case ef: True
    show ?thesis
    proof (cases "?m < 0x7f")
      case True
      have h: "frame_head ?t (length p) = [word_of_nat ?m]" using ef True by (simp add: frame_head_def)
      show ?thesis using ef v read_buffer_parses [OF parses_readByte b st, of "word_of_nat ?m" ys E] a small_head [OF True]
        by (simp add: read_head_def read_length_EF_def h [unfolded ef])
    next
      case False
      let ?w = "word_of_nat (?m * 256 + 0x7f) :: u32"
      have h: "frame_head ?t (length p) = int_bytes ?w" using ef False by (simp add: frame_head_def)
      have m: "?m < 2 ^ 24" using p by (auto simp: packet_ok_def)
      obtain zs where z: "int_bytes ?w = 0x7f # zs" using big_head(2) [OF m] by (cases "int_bytes ?w") (auto simp: int_bytes_def le_bytes_4)
      have "ahead b = [0x7f] @ zs @ ys" using a h z by simp
      from read_buffer_parses [OF parses_readByte b st this]
      have r: "read_buffer E readByte s = Some (0x7f, set_buffer (moved (Suc 0) b) s)" by simp
      have home: "position_set (nb_position b) (moved (Suc 0) b) = b" using a h z by (intro position_back b) simp
      show ?thesis
        using ef v l4 read_buffer_parses [OF parses_readInt32 b st, of ?w ys E] a big_head(1) [OF m] b(1)
        by (simp add: read_head_def read_length_EF_def Let_def r home h [unfolded ef])
    qed
  qed
qed

lemma head_part:
  assumes b: "buffer s = Some b" "nbb_ok b" and st: "storage_ok (cn_pool s)" and p: "packet_ok (cn_currentProtocolType s) p"
    and a: "frame_head (cn_currentProtocolType s) (length p) = ahead b @ zs" "zs \<noteq> []" "ahead b \<noteq> []"
  shows "read_head E (nb_position b) s = map_option Break (keep_start E s)"
proof -
  let ?t = "cn_currentProtocolType s" and ?m = "length p div 4"
  have "length (ahead b) + length zs \<le> 4" using arg_cong [OF a(1), of length] by (simp add: frame_head_length split: if_splits)
  then have l: "remaining b < 4" using unat_remaining [OF b(2)] a(2) by (cases zs) (simp_all add: word_less_nat_alt)
  show ?thesis
  proof (cases "?t = ProtocolTypeEF")
    case False
    then show ?thesis using l b by (simp add: read_head_def read_length_def)
  next
    case ef: True
    then have "\<not> ?m < 0x7f" using a by (cases "ahead b") (auto simp: frame_head_def)
    then have h: "frame_head ?t (length p) = int_bytes (word_of_nat (?m * 256 + 0x7f))" using ef by (simp add: frame_head_def)
    have m: "?m < 2 ^ 24" using p by (auto simp: packet_ok_def)
    obtain ys where y: "ahead b = 0x7f # ys" using big_head(2) [OF m] a h by (cases "ahead b") auto
    then have r: "read_buffer E readByte s = Some (0x7f, set_buffer (moved (Suc 0) b) s)"
      using read_buffer_parses [OF parses_readByte b st, of "0x7f" ys] by simp
    have home: "position_set (nb_position b) (moved (Suc 0) b) = b" using y by (intro position_back b) simp
    show ?thesis using ef l b(1) by (simp add: read_head_def read_length_EF_def Let_def r home)
  qed
qed

subsection \<open>One round\<close>

fun delivered :: "recv_event list \<Rightarrow> byte list list" where
  "delivered [] = []"
| "delivered (onConnectionDataReceived p # es) = p # delivered es"
| "delivered (e # es) = delivered es"

lemma delivered_append [simp]: "delivered (xs @ ys) = delivered xs @ delivered ys"
  by (induction xs rule: delivered.induct) simp_all

lemma set_buffer_event [simp]: "set_buffer c (event e (set_buffer b s)) = set_buffer c (event e s)"
  by (simp add: set_buffer_def event_def split: target.splits)

lemma event_frame [simp]:
  "cn_pool (event e s) = cn_pool s" "cn_currentProtocolType (event e s) = cn_currentProtocolType s"
  "cn_lastPacketLength (event e s) = cn_lastPacketLength s" "rv_parseLater (event e s) = rv_parseLater s"
  "cn_restOfTheData (event e s) = cn_restOfTheData s" "rv_buffer (event e s) = rv_buffer s" "rv_argument (event e s) = rv_argument s"
  "rv_events (event e s) = rv_events s @ [e]" "cn_decrypt (event e s) = cn_decrypt s"
  by (simp_all add: event_def)

lemma first_data_frame [simp]:
  "cn_pool (first_data n s) = cn_pool s" "cn_currentProtocolType (first_data n s) = cn_currentProtocolType s"
  "cn_lastPacketLength (first_data n s) = cn_lastPacketLength s" "rv_parseLater (first_data n s) = rv_parseLater s"
  "cn_restOfTheData (first_data n s) = cn_restOfTheData s" "rv_buffer (first_data n s) = rv_buffer s"
  "rv_argument (first_data n s) = rv_argument s" "cn_decrypt (first_data n s) = cn_decrypt s"
  "delivered (rv_events (first_data n s)) = delivered (rv_events s)"
  by (simp_all add: first_data_def Let_def)

lemma buffer_first_data [simp]: "buffer (first_data n s) = buffer s"
  by (simp add: buffer_def split: target.splits)

lemma deliver_ok:
  assumes b: "buffer s = Some b" "nbb_ok b" and a: "ahead b = p @ ys" and d: "\<not> drops p"
  shows "deliver n drops (word_of_nat (length p)) s =
    Some (set_buffer (moved (length p) b) (event (onConnectionDataReceived p) s))"
proof -
  note o = nbb_okD [OF b(2)]
  have l: "unat (nb_position b) + length p \<le> unat (nb_limit b)" using length_ahead [OF b(2)] a o by simp
  then have u: "unat (word_of_nat (length p) :: u32) = length p" using o by (intro unat_len) simp
  have q: "unat (nb_position b + word_of_nat (length p)) = unat (nb_position b) + length p"
    using l o by (intro unat_add_small) simp_all
  let ?b = "b\<lparr>nb_limit := nb_position b + word_of_nat (length p)\<rparr>"
  have b1: "limit_set (nb_position b + word_of_nat (length p)) b = ?b"
    using q l o by (simp add: limit_set_def word_less_nat_alt)
  have sl: "slice (nb_buffer b) (uint (nb_position b)) (uint (word_of_nat (length p) :: u32)) = Some p"
  proof -
    have "take (length p) (drop (unat (nb_position b)) (nb_buffer b)) = take (length p) (ahead b)"
      using l by (simp add: ahead_def)
    then show ?thesis using a l o u by (simp add: slice_uint)
  qed
  have "limit_set (nb_limit b) (position_set (nb_limit ?b) ?b) = moved (length p) b"
    using q l o by (simp add: limit_set_def position_set_def moved_def word_less_nat_alt)
  then show ?thesis using b(1) d sl by (simp add: deliver_def b1 Let_def)
qed

definition good :: "'k Receiving \<Rightarrow> bool" where
  "good s \<longleftrightarrow> storage_ok (cn_pool s) \<and> nbb_ok (rv_argument s)"

text \<open>The situations at the head of the loop, with the bytes that are still to be parsed: in the argument; in
  \<open>restOfTheData\<close>, after a header was completed; a packet completed in \<open>restOfTheData\<close>, with more in the argument;
  nothing left.\<close>

definition in_argument :: "'k Receiving \<Rightarrow> byte list \<Rightarrow> bool" where
  "in_argument s xs \<longleftrightarrow> rv_buffer s = Argument \<and> cn_restOfTheData s = None \<and> \<not> rv_parseLater s \<and> ahead (rv_argument s) = xs"

definition in_rest :: "'k Receiving \<Rightarrow> byte list \<Rightarrow> bool" where
  "in_rest s xs \<longleftrightarrow> xs \<noteq> [] \<and> rv_buffer s = Rest \<and> \<not> rv_parseLater s \<and> cn_lastPacketLength s = 0 \<and>
     (\<exists>r. cn_restOfTheData s = Some r \<and> nbb_ok r \<and> nb_position r = 0 \<and> ahead r = xs)"

definition completed :: "'k Receiving \<Rightarrow> byte list \<Rightarrow> byte list \<Rightarrow> bool" where
  "completed s p ys \<longleftrightarrow> rv_buffer s = Rest \<and> packet_ok (cn_currentProtocolType s) p \<and>
     (\<exists>r. cn_restOfTheData s = Some r \<and> nbb_ok r \<and> nb_position r = 0 \<and> nb_limit r = cn_lastPacketLength s \<and>
        ahead r = frame (cn_currentProtocolType s) p) \<and>
     ahead (rv_argument s) = ys \<and> (rv_parseLater s \<longleftrightarrow> ys \<noteq> [])"

definition finished :: "'k Receiving \<Rightarrow> bool" where
  "finished s \<longleftrightarrow> cn_restOfTheData s = None \<and> \<not> rv_parseLater s \<and> (\<exists>b. rv_buffer s = Detached b \<and> \<not> hasRemaining b)"

definition parsing :: "'k Receiving \<Rightarrow> byte list \<Rightarrow> bool" where
  "parsing s xs \<longleftrightarrow> good s \<and> (in_argument s xs \<or> in_rest s xs \<or>
     (\<exists>p ys. completed s p ys \<and> xs = frame (cn_currentProtocolType s) p @ ys) \<or> finished s \<and> xs = [])"

text \<open>What is kept between two calls: the bytes \<open>xs\<close> of a packet that has begun.\<close>

definition holding :: "('k, 'z) Connection_scheme \<Rightarrow> byte list \<Rightarrow> bool" where
  "holding c xs \<longleftrightarrow> storage_ok (cn_pool c) \<and> (case cn_restOfTheData c of
     None \<Rightarrow> xs = []
   | Some r \<Rightarrow> nbb_ok r \<and> behind r = xs \<and> xs \<noteq> [] \<and>
       (if cn_lastPacketLength c = 0 then nb_position r = nb_limit r \<and> length xs < 4
        else nb_limit r = cn_lastPacketLength c \<and>
          (\<exists>p zs. packet_ok (cn_currentProtocolType c) p \<and> frame (cn_currentProtocolType c) p = xs @ zs \<and> zs \<noteq> [] \<and>
             length (frame_head (cn_currentProtocolType c) (length p)) \<le> length xs \<and> cn_lastPacketLength c = word_of_nat (length (frame (cn_currentProtocolType c) p)))))"

lemma int_bytes_inject: "int_bytes x = int_bytes y \<longleftrightarrow> x = y"
proof
  assume e: "int_bytes x = int_bytes y"
  let ?s = "\<lparr>is_buf = NativeByteBuffer_slice (int_bytes x) 4, is_error = False, is_pool = BuffersStorage_new ample, is_mem = ample\<rparr>"
  have "stream_ok ?s" "ahead (is_buf ?s) = int_bytes x @ []"
    by (simp_all add: stream_ok_def nbb_ok_def NativeByteBuffer_slice_def storage_ok_new ahead_def)
  then have "readInt32 ?s = Some (x, advance 4 ?s)" "readInt32 ?s = Some (y, advance 4 ?s)"
    using parsesD(1) [OF parses_readInt32, of ?s x "[]"] parsesD(1) [OF parses_readInt32, of ?s y "[]"] e by simp_all
  then show "x = y" by simp
qed simp

lemma head_length:
  assumes "packet_ok t p" and "packet_ok t q" and "frame_head t (length p) @ ys = frame_head t (length q) @ zs"
  shows "length p = length q"
proof -
  have inj: "length p = length q" if "(word_of_nat (length p) :: u32) = word_of_nat (length q)"
    using frame_length(2) [OF assms(1)] frame_length(2) [OF assms(2)] that by metis
  have four: "length p div 4 = length q div 4 \<Longrightarrow> t = ProtocolTypeEF \<Longrightarrow> length p = length q"
    using assms(1,2) div_mult_mod_eq [of "length p" 4] div_mult_mod_eq [of "length q" 4] by (simp add: packet_ok_def)
  have big: "\<And>x. packet_ok t x \<Longrightarrow> length x div 4 < 2 ^ 24" by (auto simp: packet_ok_def)
  note m = big [OF assms(1)] big [OF assms(2)]
  have u: "unat (word_of_nat (length p div 4) :: u32) = length p div 4" "unat (word_of_nat (length q div 4) :: u32) = length q div 4"
    by (rule unat_len, rule less_trans [OF m(1)], simp) (rule unat_len, rule less_trans [OF m(2)], simp)
  have word: "w = v" if "int_bytes w @ xs = int_bytes v @ ys" for w v xs ys
    using that by (simp add: int_bytes_inject append_eq_append_conv)
  have hd7: "hd (int_bytes (word_of_nat (n * 256 + 0x7f)) @ xs) = 0x7f" if "n < 2 ^ 24" for n xs
    using big_head(2) [OF that] by (cases "int_bytes (word_of_nat (n * 256 + 0x7f))") (auto simp: int_bytes_def le_bytes_4)
  show ?thesis
  proof (cases "t = ProtocolTypeEF")
    case False
    then show ?thesis using assms(3) inj word by (simp add: frame_head_def)
  next
    case ef: True
    consider "length p div 4 < 0x7f" "length q div 4 < 0x7f" | "length p div 4 < 0x7f" "\<not> length q div 4 < 0x7f"
      | "\<not> length p div 4 < 0x7f" "length q div 4 < 0x7f" | "\<not> length p div 4 < 0x7f" "\<not> length q div 4 < 0x7f" by blast
    then show ?thesis
    proof cases
      case 1
      then have "(word_of_nat (length p div 4) :: byte) = word_of_nat (length q div 4)"
        using assms(3) ef by (simp add: frame_head_def)
      then have "unat (word_of_nat (length p div 4) :: byte) = unat (word_of_nat (length q div 4) :: byte)" by simp
      then have "length p div 4 = length q div 4" using 1 by (simp add: unat_of_nat)
      then show ?thesis using four ef by blast
    next
      case 2
      then have "(word_of_nat (length p div 4) :: byte) = 0x7f"
        using arg_cong [OF assms(3), of hd] hd7 [OF m(2)] ef by (simp add: frame_head_def)
      then show ?thesis using small_head(2) [OF 2(1)] by blast
    next
      case 3
      then have "(word_of_nat (length q div 4) :: byte) = 0x7f"
        using arg_cong [OF assms(3), of hd] hd7 [OF m(1)] ef by (simp add: frame_head_def)
      then show ?thesis using small_head(2) [OF 3(2)] by blast
    next
      case 4
      then have "(word_of_nat (length p div 4 * 256 + 0x7f) :: u32) = word_of_nat (length q div 4 * 256 + 0x7f)"
        using assms(3) ef word by (simp add: frame_head_def del: of_nat_add of_nat_mult)
      then have "(word_of_nat (length p div 4) :: u32) = word_of_nat (length q div 4)"
        using big_head(1) [OF m(1)] big_head(1) [OF m(2)] by metis
      then have "length p div 4 = length q div 4" using u by metis
      then show ?thesis using four ef by blast
    qed
  qed
qed

lemma frame_unique:
  assumes "packet_ok t p" and "packet_ok t q" and "frame t p @ ys = frame t q @ zs"
  shows "p = q \<and> ys = zs"
  using head_length [OF assms(1,2), of "p @ ys" "q @ zs"] assms(3) by (simp add: frame_def)

lemma set_rest_frame [simp]:
  "cn_pool (set_rest p s) = cn_pool s" "cn_currentProtocolType (set_rest p s) = cn_currentProtocolType s"
  "cn_lastPacketLength (set_rest p s) = cn_lastPacketLength s" "rv_parseLater (set_rest p s) = rv_parseLater s"
  "rv_events (set_rest p s) = rv_events s" "cn_restOfTheData (set_rest p s) = p" "rv_argument (set_rest p s) = rv_argument s"
  "cn_decrypt (set_rest p s) = cn_decrypt s"
  by (simp_all add: set_rest_def split: target.splits option.splits)

lemma length_accepted:
  assumes "packet_ok t p"
  shows "\<not> (t \<noteq> ProtocolTypeDD \<and> (word_of_nat (length p) :: u32) mod 4 \<noteq> 0 \<or> (word_of_nat (length p) :: u32) > 2 * 1024 * 1024)"
proof -
  let ?w = "word_of_nat (length p) :: u32"
  have u: "unat ?w = length p" by (rule frame_length(2) [OF assms])
  have "unat (?w mod 4) = length p mod 4" by (simp add: unat_mod_distrib u)
  then have "t \<noteq> ProtocolTypeDD \<Longrightarrow> ?w mod 4 = 0" using assms by (simp add: packet_ok_def unat_eq_zero)
  moreover have "\<not> ?w > 2 * 1024 * 1024" using assms u by (simp add: packet_ok_def word_less_nat_alt)
  ultimately show ?thesis by blast
qed

lemma recv_step_full:
  assumes b: "buffer s = Some b" "nbb_ok b" and st: "storage_ok (cn_pool s)" and p: "packet_ok (cn_currentProtocolType s) p"
    and a: "ahead b = frame (cn_currentProtocolType s) p @ ys" and d: "\<not> drops p"
  shows "recv_step E n drops s = map_option (\<lambda>s. Inr (parse_later s))
    (after_packet (set_buffer (moved (length (frame (cn_currentProtocolType s) p)) b) (event (onConnectionDataReceived p) (first_data n s))))"
proof -
  let ?t = "cn_currentProtocolType s" and ?s = "first_data n s"
  let ?h = "length (frame_head ?t (length p))"
  have a': "ahead b = frame_head (cn_currentProtocolType ?s) (length p) @ p @ ys" using a by (simp add: frame_def)
  have h: "read_head E (nb_position b) ?s = Some (Length (word_of_nat (length p)) (word_of_nat (length (frame ?t p)))
      (set_buffer (moved ?h b) ?s))"
    using head_full [of ?s b p "p @ ys" E] b st p a' by simp
  have m: "nbb_ok (moved ?h b)" "ahead (moved ?h b) = p @ ys" using moved_ok [OF b(2), of ?h] a' by simp_all
  have mm: "moved (length p) (moved ?h b) = moved (length (frame ?t p)) b" by (simp add: moved_def frame_def add.assoc)
  note ok = length_accepted [OF p]
  have rem: "\<not> word_of_nat (length p) > remaining (moved ?h b)"
    using unat_remaining [OF m(1)] m(2) frame_length(2) [OF p] by (simp add: word_less_nat_alt)
  have dl: "deliver n drops (word_of_nat (length p)) (set_buffer (moved ?h b) ?s) =
      Some (set_buffer (moved (length (frame ?t p)) b) (event (onConnectionDataReceived p) ?s))"
    using deliver_ok [of "set_buffer (moved ?h b) ?s" "moved ?h b" p ys drops] m b(1) d by (simp add: mm)
  show ?thesis
    unfolding recv_step_def Let_def
    using b(1) h [unfolded read_head_def] ok rem dl by (auto simp: map_conv_bind_option comp_def)
qed

lemma recv_packet:
  assumes s: "parsing s (frame (cn_currentProtocolType s) p @ ys)" and p: "packet_ok (cn_currentProtocolType s) p" and d: "\<not> drops p"
  shows "\<exists>s'. recv_step E n drops s = Some (Inr s') \<and> parsing s' ys \<and> delivered (rv_events s') = delivered (rv_events s) @ [p] \<and>
    cn_currentProtocolType s' = cn_currentProtocolType s \<and> cn_decrypt s' = cn_decrypt s \<and>
    nb_capacity (rv_argument s') = nb_capacity (rv_argument s)"
proof -
  let ?t = "cn_currentProtocolType s"
  let ?n = "length (frame ?t p)" and ?s = "event (onConnectionDataReceived p) (first_data n s)"
  have st: "storage_ok (cn_pool s)" and arg: "nbb_ok (rv_argument s)" using s by (auto simp: parsing_def good_def)
  consider (argument) "in_argument s (frame ?t p @ ys)" | (rest) "in_rest s (frame ?t p @ ys)"
    | (completed) q zs where "completed s q zs" "frame ?t p @ ys = frame ?t q @ zs"
    using s by (auto simp: parsing_def)
  then show ?thesis
  proof cases
    case argument
    let ?b = "rv_argument s"
    have b: "buffer s = Some ?b" "ahead ?b = frame ?t p @ ys" using argument by (auto simp: in_argument_def buffer_def)
    note m = moved_ok [OF arg, of ?n]
    let ?s' = "?s\<lparr>rv_argument := moved ?n ?b\<rparr>"
    have "recv_step E n drops s = Some (Inr ?s')"
      using recv_step_full [where drops = drops and p = p, OF b(1) arg st p b(2) d, of E n] argument
      by (simp add: set_buffer_def in_argument_def after_packet_def parse_later_def)
    moreover have "parsing ?s' ys" using argument m b(2) st by (simp add: parsing_def good_def in_argument_def)
    ultimately show ?thesis by (intro exI [of _ ?s']) simp
  next
    case rest
    then obtain r where r: "cn_restOfTheData s = Some r" "nbb_ok r" "nb_position r = 0" "ahead r = frame ?t p @ ys"
      by (auto simp: in_rest_def)
    have b: "buffer s = Some r" using rest r by (auto simp: in_rest_def buffer_def)
    have step: "recv_step E n drops s = map_option (\<lambda>s. Inr (parse_later s)) (after_packet (?s\<lparr>cn_restOfTheData := Some (moved ?n r)\<rparr>))"
      using recv_step_full [where drops = drops and p = p, OF b r(2) st p r(4) d, of E n] rest by (simp add: set_buffer_def in_rest_def)
    have m: "nbb_ok (moved ?n r)" "ahead (moved ?n r) = ys" using moved_ok [OF r(2), of ?n] r(4) by simp_all
    show ?thesis
    proof (cases "ys = []")
      case True
      let ?s' = "?s\<lparr>cn_pool := reuse (moved ?n r) (cn_pool s), rv_buffer := Detached (moved ?n r), cn_restOfTheData := None\<rparr>"
      have h: "\<not> hasRemaining (moved ?n r)" using m True by (simp add: hasRemaining_ahead)
      have "recv_step E n drops s = Some (Inr ?s')"
        using step h rest by (simp add: after_packet_def in_rest_def set_rest_def give_back_def parse_later_def)
      moreover have "parsing ?s' ys"
        using True h rest storage.give_ok [OF st m(1)] arg by (simp add: parsing_def good_def finished_def in_rest_def)
      ultimately show ?thesis by (intro exI [of _ ?s']) simp
    next
      case False
      obtain c where c: "compact (moved ?n r) = Some c" and k: "nbb_ok (position_set 0 (limit_set (nb_position c) c))"
          "ahead (position_set 0 (limit_set (nb_position c) c)) = ys" "nb_position (position_set 0 (limit_set (nb_position c) c)) = 0"
        using compact_ahead [OF m(1)] m(2) False by metis
      let ?s' = "?s\<lparr>cn_restOfTheData := Some (position_set 0 (limit_set (nb_position c) c))\<rparr>"
      have "hasRemaining (moved ?n r)" using m False by (simp add: hasRemaining_ahead)
      then have "recv_step E n drops s = Some (Inr ?s')"
        using step c rest by (simp add: after_packet_def in_rest_def parse_later_def)
      moreover have "parsing ?s' ys" using k rest st arg False by (simp add: parsing_def good_def in_rest_def)
      ultimately show ?thesis by (intro exI [of _ ?s']) simp
    qed
  next
    case completed
    then have q: "q = p" "zs = ys" using frame_unique [of ?t p q ys zs] p by (auto simp: completed_def)
    obtain r where r: "cn_restOfTheData s = Some r" "nbb_ok r" "nb_position r = 0" "nb_limit r = cn_lastPacketLength s"
        "ahead r = frame ?t p @ []"
      using completed q by (auto simp: completed_def)
    have b: "buffer s = Some r" using completed r by (auto simp: completed_def buffer_def)
    note o = nbb_okD [OF r(2)]
    have m: "nbb_ok (moved ?n r)" "nb_position (moved ?n r) = nb_limit r"
      using moved_ok(1) [OF r(2), of ?n] moved_position [OF r(2)] r(5) by simp_all
    have l: "cn_lastPacketLength s \<noteq> 0"
      using length_ahead [OF r(2)] r by auto
    let ?d = "?s\<lparr>cn_pool := reuse (moved ?n r) (cn_pool s), rv_buffer := Detached (moved ?n r), cn_restOfTheData := None\<rparr>"
    have step: "recv_step E n drops s = Some (Inr (parse_later ?d))"
      using recv_step_full [where drops = drops and p = p, OF b r(2) st p r(5) d, of E n] completed(1) m(2) r(1,4) l
      by (simp add: set_buffer_def completed_def after_packet_def set_rest_def give_back_def)
    have "\<not> hasRemaining (moved ?n r)" using m by (simp add: hasRemaining_def moved_def)
    then have "parsing (parse_later ?d) ys"
      using completed(1) q storage.give_ok [OF st m(1)] arg
      by (auto simp: parsing_def good_def finished_def completed_def in_argument_def parse_later_def)
    then show ?thesis using step by (intro exI [of _ "parse_later ?d"]) (simp add: parse_later_def)
  qed
qed

subsection \<open>The end of the data\<close>

lemma recv_step_head:
  assumes b: "buffer s = Some b" "nbb_ok b" and st: "storage_ok (cn_pool s)" and p: "packet_ok (cn_currentProtocolType s) p"
    and a: "frame_head (cn_currentProtocolType s) (length p) = ahead b @ zs" "zs \<noteq> []" "ahead b \<noteq> []"
  shows "recv_step E n drops s = map_option Inl (keep_start E (first_data n s))"
proof -
  have "read_head E (nb_position b) (first_data n s) = map_option Break (keep_start E (first_data n s))"
    using head_part [of "first_data n s" b p zs E] assms by simp
  then show ?thesis
    using b(1) by (cases "keep_start E (first_data n s)") (simp_all add: recv_step_def Let_def read_head_def)
qed

lemma recv_step_body:
  assumes b: "buffer s = Some b" "nbb_ok b" and st: "storage_ok (cn_pool s)" and p: "packet_ok (cn_currentProtocolType s) p"
    and a: "ahead b = frame_head (cn_currentProtocolType s) (length p) @ ps" "length ps < length p"
  shows "recv_step E n drops s = map_option Inl (keep_packet E (nb_position b) (word_of_nat (length (frame (cn_currentProtocolType s) p)))
    (set_buffer (moved (length (frame_head (cn_currentProtocolType s) (length p))) b) (first_data n s)))"
proof -
  let ?h = "length (frame_head (cn_currentProtocolType s) (length p))"
  have h: "read_head E (nb_position b) (first_data n s) = Some (Length (word_of_nat (length p))
      (word_of_nat (length (frame (cn_currentProtocolType s) p))) (set_buffer (moved ?h b) (first_data n s)))"
    using head_full [of "first_data n s" b p ps E] b st p a by simp
  have m: "nbb_ok (moved ?h b)" "ahead (moved ?h b) = ps" using moved_ok [OF b(2), of ?h] a(1) by simp_all
  have "word_of_nat (length p) > remaining (moved ?h b)"
    using unat_remaining [OF m(1)] m(2) a(2) frame_length(2) [OF p] by (simp add: word_less_nat_alt)
  then show ?thesis
    unfolding recv_step_def Let_def
    using b(1) h [unfolded read_head_def] length_accepted [OF p] by auto
qed

lemma holding_part:
  assumes "storage_ok (cn_pool c)" and "cn_restOfTheData c = Some r" and "nbb_ok r" and "behind r = xs" and "xs \<noteq> []"
    and "cn_lastPacketLength c = 0" and "nb_position r = nb_limit r" and "length xs < 4"
  shows "holding c xs"
  using assms by (simp add: holding_def)

lemma holding_packet:
  assumes "storage_ok (cn_pool c)" and "cn_restOfTheData c = Some r" and "nbb_ok r" and "behind r = xs" and "xs \<noteq> []"
    and "packet_ok (cn_currentProtocolType c) p" and "frame (cn_currentProtocolType c) p = xs @ zs" and "zs \<noteq> []"
    and "nb_limit r = cn_lastPacketLength c" and "cn_lastPacketLength c = word_of_nat (length (frame (cn_currentProtocolType c) p))"
    and "length (frame_head (cn_currentProtocolType c) (length p)) \<le> length xs"
  shows "holding c xs"
proof -
  have "unat (cn_lastPacketLength c) = length (frame (cn_currentProtocolType c) p)"
    using assms(10) frame_length(3) [OF assms(6)] by simp
  then have "cn_lastPacketLength c \<noteq> 0" using assms(5,7) by auto
  then show ?thesis using assms unfolding holding_def by (auto simp del: of_nat_add)
qed

lemma kept_bytes:
  assumes "ready n r" and "nbb_ok b" and "length (ahead b) \<le> unat n"
  shows "nbb_ok (wrote (ahead b) r)" and "behind (wrote (ahead b) r) = ahead b" and "nb_limit (wrote (ahead b) r) = n"
    and "writeBytes_buffer b r = Some (moved (length (ahead b)) b, wrote (ahead b) r)"
proof -
  have r: "nbb_ok r" "room r = unat n" "behind r = []" "nb_position r = 0" "nb_limit r = n"
    using assms(1) room_ready by (auto simp: ready_def)
  show "writeBytes_buffer b r = Some (moved (length (ahead b)) b, wrote (ahead b) r)"
    using writeBytes_buffer_ok [OF assms(2) r(1)] assms(3) r(2) by simp
  show "behind (wrote (ahead b) r) = ahead b" using behind_wrote [OF r(1)] assms(3) r(2,3) by simp
  show "nbb_ok (wrote (ahead b) r)" "nb_limit (wrote (ahead b) r) = n"
    using wrote_ok [OF r(1), of "ahead b"] assms(3) r(4,5) by simp_all
qed

lemma close_part:
  assumes "nbb_ok r"
  shows "nbb_ok (limit_set (nb_position r) r)" and "behind (limit_set (nb_position r) r) = behind r"
    and "nb_position (limit_set (nb_position r) r) = nb_limit (limit_set (nb_position r) r)"
proof -
  note d = nbb_okD [OF assms]
  have q: "limit_set (nb_position r) r = r\<lparr>nb_limit := nb_position r\<rparr>"
    using d by (simp add: limit_set_def word_less_nat_alt)
  show "nbb_ok (limit_set (nb_position r) r)" "behind (limit_set (nb_position r) r) = behind r"
    "nb_position (limit_set (nb_position r) r) = nb_limit (limit_set (nb_position r) r)"
    using d by (simp_all add: q nbb_ok_def behind_def word_le_nat_alt)
qed

lemma whole_kept:
  assumes "nbb_ok r" and "nb_position r = 0" and "h \<le> length (ahead r)"
  shows "position_set (nb_limit r) (moved h r) = r\<lparr>nb_position := nb_limit r\<rparr>" and "behind (r\<lparr>nb_position := nb_limit r\<rparr>) = ahead r"
    and "nbb_ok (r\<lparr>nb_position := nb_limit r\<rparr>)"
  using nbb_okD [OF assms(1)] assms(2) by (simp_all add: position_set_def moved_def behind_def ahead_def nbb_ok_def word_le_nat_alt)

definition settled :: "'k Receiving \<Rightarrow> 'k Receiving \<Rightarrow> byte list \<Rightarrow> bool" where
  "settled s s' xs \<longleftrightarrow> holding s' xs \<and> nbb_ok (rv_argument s') \<and> delivered (rv_events s') = delivered (rv_events s) \<and>
     cn_currentProtocolType s' = cn_currentProtocolType s \<and> cn_decrypt s' = cn_decrypt s \<and>
     nb_capacity (rv_argument s') = nb_capacity (rv_argument s)"

lemma tail_in_argument:
  assumes s: "good s" "in_argument s xs" and xs: "xs \<noteq> []" and p: "packet_ok (cn_currentProtocolType s) p"
    and f: "frame (cn_currentProtocolType s) p = xs @ zs" "zs \<noteq> []"
  shows "\<exists>s'. recv_step E n drops s = Some (Inl s') \<and> settled s s' xs"
proof -
  let ?t = "cn_currentProtocolType s" and ?b = "rv_argument s" and ?s = "first_data n s"
  have b: "buffer s = Some ?b" "nbb_ok ?b" "ahead ?b = xs" "rv_buffer s = Argument" "cn_restOfTheData s = None"
    and st: "storage_ok (cn_pool s)" using s by (auto simp: good_def in_argument_def buffer_def)
  show ?thesis
  proof (cases "length xs < length (frame_head ?t (length p))")
    case True
    then obtain ws where w: "frame_head ?t (length p) = xs @ ws" "ws \<noteq> []"
      using f by (auto simp: frame_def append_eq_append_conv2)
    have l: "length xs < 4" using True by (simp add: frame_head_length split: if_splits)
    obtain r pool where g: "getFreeBuffer E 16384 (cn_pool s) = (r, pool)" by fastforce
    note k = storage.get_ready [OF st _ g] storage.get_ok [OF st _ g]
    note y = kept_bytes [OF k(1) b(2)]
    let ?r = "limit_set (nb_position (wrote xs r)) (wrote xs r)"
    let ?s' = "?s\<lparr>rv_argument := moved (length xs) ?b, cn_pool := pool, cn_restOfTheData := Some ?r, cn_lastPacketLength := 0\<rparr>"
    have "keep_start E ?s = Some ?s'"
      using g y(4) l b by (simp add: keep_start_def keep_in_new_def set_buffer_def set_rest_def give_back_def Let_def)
    then have "recv_step E n drops s = Some (Inl ?s')"
      using recv_step_head [OF b(1,2) st p, of ws E n drops] w b(3) xs by simp
    moreover have "holding ?s' xs"
      using y(1,2) k(2) l b(3) xs close_part [of "wrote xs r"] by (intro holding_part [where r = ?r]) simp_all
    ultimately show ?thesis using moved_ok(1) [OF b(2)] b(3) by (intro exI [of _ ?s']) (simp add: settled_def)
  next
    case False
    then obtain ps where w: "xs = frame_head ?t (length p) @ ps" "p = ps @ zs"
      using f by (auto simp: frame_def append_eq_append_conv2)
    let ?h = "length (frame_head ?t (length p))" and ?n = "word_of_nat (length (frame ?t p)) :: u32"
    have n: "unat ?n = length (frame ?t p)" by (rule frame_length(3) [OF p])
    have l: "length xs \<le> unat ?n" by (subst n) (simp add: f(1))
    have small: "unat ?n < 2 ^ 31" using n frame_length(1) [OF p] by simp
    obtain r pool where g: "getFreeBuffer E ?n (cn_pool s) = (r, pool)" by fastforce
    note k = storage.get_ready [OF st small g] storage.get_ok [OF st small g]
    note y = kept_bytes [OF k(1) b(2) l [folded b(3)], unfolded b(3)]
    let ?s' = "?s\<lparr>rv_argument := moved (length xs) ?b, cn_restOfTheData := Some (wrote xs r), cn_pool := pool, cn_lastPacketLength := ?n\<rparr>"
    have home: "position_set (nb_position ?b) (moved ?h ?b) = ?b" using w b(2,3) by (intro position_back) simp_all
    have "keep_packet E (nb_position ?b) ?n (set_buffer (moved ?h ?b) ?s) = Some ?s'"
      using g y(4) b home by (simp add: keep_packet_def set_buffer_def give_back_def buffer_def)
    then have "recv_step E n drops s = Some (Inl ?s')"
      using recv_step_body [OF b(1,2) st p, of ps E n drops] w b(3) f(2) by simp
    moreover have "holding ?s' xs"
      using y(1,2,3) k(2) xs p f w by (intro holding_packet [where r = "wrote xs r" and p = p and zs = zs]) simp_all
    ultimately show ?thesis using moved_ok(1) [OF b(2)] b(3) by (intro exI [of _ ?s']) (simp add: settled_def)
  qed
qed

lemma tail_in_rest:
  assumes s: "good s" "in_rest s xs" and p: "packet_ok (cn_currentProtocolType s) p"
    and f: "frame (cn_currentProtocolType s) p = xs @ zs" "zs \<noteq> []"
  shows "\<exists>s'. recv_step E n drops s = Some (Inl s') \<and> settled s s' xs"
proof -
  let ?t = "cn_currentProtocolType s" and ?s = "first_data n s"
  obtain r where r: "cn_restOfTheData s = Some r" "nbb_ok r" "nb_position r = 0" "ahead r = xs"
    and z: "cn_lastPacketLength s = 0" "rv_buffer s = Rest" "xs \<noteq> []" and st: "storage_ok (cn_pool s)" and arg: "nbb_ok (rv_argument s)"
    using s by (auto simp: in_rest_def good_def)
  have b: "buffer s = Some r" using r z by (simp add: buffer_def)
  show ?thesis
  proof (cases "length xs < length (frame_head ?t (length p))")
    case True
    then obtain ws where w: "frame_head ?t (length p) = xs @ ws" "ws \<noteq> []"
      using f by (auto simp: frame_def append_eq_append_conv2)
    have l: "length xs < 4" using True by (simp add: frame_head_length split: if_splits)
    let ?r = "r\<lparr>nb_position := nb_limit r\<rparr>"
    have k: "behind ?r = xs" "nbb_ok ?r" using whole_kept [OF r(2,3), of 0] r(4) by simp_all
    let ?s' = "?s\<lparr>cn_restOfTheData := Some ?r\<rparr>"
    have "keep_start E ?s = Some ?s'" using r by (simp add: keep_start_def position_set_def)
    then have "recv_step E n drops s = Some (Inl ?s')"
      using recv_step_head [OF b r(2) st p, of ws E n drops] w r(4) z(3) by simp
    moreover have "holding ?s' xs" using k l z st by (intro holding_part [where r = ?r]) simp_all
    ultimately show ?thesis using arg by (intro exI [of _ ?s']) (simp add: settled_def)
  next
    case False
    then obtain ps where w: "xs = frame_head ?t (length p) @ ps" "p = ps @ zs"
      using f by (auto simp: frame_def append_eq_append_conv2)
    let ?h = "length (frame_head ?t (length p))" and ?n = "word_of_nat (length (frame ?t p)) :: u32"
    have n: "unat ?n = length (frame ?t p)" by (rule frame_length(3) [OF p])
    have l: "length xs \<le> unat ?n" by (subst n) (simp add: f(1))
    have small: "unat ?n < 2 ^ 31" using n frame_length(1) [OF p] by simp
    have hl: "?h \<le> length (ahead r)" using w r(4) by simp
    note mv = moved_ok [OF r(2) hl]
    have step: "recv_step E n drops s = map_option Inl (keep_packet E 0 ?n (?s\<lparr>cn_restOfTheData := Some (moved ?h r)\<rparr>))"
      using recv_step_body [OF b r(2) st p, of ps E n drops] w r(3,4) f(2) z(2) by (simp add: set_buffer_def)
    show ?thesis
    proof (cases "nb_capacity r < ?n")
      case True
      obtain q pool where g: "getFreeBuffer E ?n (cn_pool s) = (q, pool)" by fastforce
      note k = storage.get_ready [OF st small g] storage.get_ok [OF st small g]
      note y = kept_bytes [OF k(1) r(2) l [folded r(4)], unfolded r(4)]
      let ?s' = "?s\<lparr>rv_buffer := Detached (moved (length xs) r), cn_restOfTheData := Some (wrote xs q),
          cn_pool := reuse (moved ?h r) pool, cn_lastPacketLength := ?n\<rparr>"
      have "position_set 0 (moved ?h r) = r" using position_back [OF r(2) hl] r(3) by simp
      then have "recv_step E n drops s = Some (Inl ?s')"
        using step g y(4) True mv(5) z(2)
        by (simp add: keep_packet_def set_rest_def set_buffer_def give_back_def buffer_def)
      moreover have "holding ?s' xs"
        using y(1,2,3) storage.give_ok [OF k(2) mv(1)] z(3) p f w
        by (intro holding_packet [where r = "wrote xs q" and p = p and zs = zs]) simp_all
      ultimately show ?thesis using arg by (intro exI [of _ ?s']) (simp add: settled_def)
    next
      case False
      let ?r = "limit_set ?n (r\<lparr>nb_position := nb_limit r\<rparr>)"
      have q: "position_set (nb_limit r) (moved ?h r) = r\<lparr>nb_position := nb_limit r\<rparr>" "behind (r\<lparr>nb_position := nb_limit r\<rparr>) = xs"
        using whole_kept [OF r(2,3) hl] r(4) by simp_all
      note d = nbb_okD [OF r(2)]
      have lr: "unat (nb_limit r) \<le> unat ?n" using l length_ahead [OF r(2)] r(3,4) by simp
      have e: "?r = r\<lparr>nb_position := nb_limit r, nb_limit := ?n\<rparr>"
        using False lr by (simp add: limit_set_def word_less_nat_alt)
      have k: "nbb_ok ?r" "behind ?r = xs" "nb_limit ?r = ?n"
        using d lr False q(2) small by (simp_all add: e nbb_ok_def behind_def word_le_nat_alt word_less_nat_alt)
      let ?s' = "?s\<lparr>cn_restOfTheData := Some ?r, cn_lastPacketLength := ?n\<rparr>"
      have "recv_step E n drops s = Some (Inl ?s')"
        using step False mv(4,5) q(1) by (simp add: keep_packet_def give_back_def)
      moreover have "holding ?s' xs"
        using k st z(3) p f w by (intro holding_packet [where r = ?r and p = p and zs = zs]) simp_all
      ultimately show ?thesis using arg by (intro exI [of _ ?s']) (simp add: settled_def)
    qed
  qed
qed

subsection \<open>The loop\<close>

lemma parsing_more:
  assumes "parsing s xs" and "xs \<noteq> []"
  obtains b where "buffer s = Some b" "hasRemaining b"
proof -
  consider "in_argument s xs" | "in_rest s xs" | p ys where "completed s p ys" using assms by (auto simp: parsing_def)
  then show thesis
  proof cases
    case 1
    then show thesis using that [of "rv_argument s"] assms
      by (simp add: in_argument_def buffer_def parsing_def good_def hasRemaining_ahead)
  next
    case 2
    then obtain r where "cn_restOfTheData s = Some r" "nbb_ok r" "ahead r = xs" "rv_buffer s = Rest" by (auto simp: in_rest_def)
    then show thesis using that [of r] assms(2) by (simp add: buffer_def hasRemaining_ahead)
  next
    case 3
    then obtain r where "cn_restOfTheData s = Some r" "nbb_ok r" "ahead r = frame (cn_currentProtocolType s) p" "rv_buffer s = Rest"
      by (auto simp: completed_def)
    then show thesis using that [of r] by (simp add: buffer_def hasRemaining_ahead)
  qed
qed

lemma parsing_done:
  assumes "parsing s []"
  shows "\<exists>b. buffer s = Some b \<and> \<not> hasRemaining b" and "holding s []" and "nbb_ok (rv_argument s)"
proof -
  consider "in_argument s []" | "finished s" using assms by (auto simp: parsing_def in_rest_def)
  then have "(\<exists>b. buffer s = Some b \<and> \<not> hasRemaining b) \<and> cn_restOfTheData s = None"
    by cases (use assms in \<open>auto simp: in_argument_def finished_def buffer_def hasRemaining_ahead parsing_def good_def\<close>)
  then show "\<exists>b. buffer s = Some b \<and> \<not> hasRemaining b" "holding s []" "nbb_ok (rv_argument s)"
    using assms by (auto simp: holding_def parsing_def good_def)
qed

definition begun :: "ProtocolType \<Rightarrow> byte list \<Rightarrow> bool" where
  "begun t xs \<longleftrightarrow> xs = [] \<or> (\<exists>p zs. packet_ok t p \<and> frame t p = xs @ zs \<and> zs \<noteq> [])"

definition stream :: "ProtocolType \<Rightarrow> byte list list \<Rightarrow> byte list" where
  "stream t ps = concat (map (frame t) ps)"

lemma stream_simps [simp]: "stream t [] = []" "stream t (p # ps) = frame t p @ stream t ps"
  "stream t (ps @ qs) = stream t ps @ stream t qs"
  by (simp_all add: stream_def)

lemma recv_tail:
  assumes s: "parsing s xs" and xs: "xs \<noteq> []" and t: "begun (cn_currentProtocolType s) xs"
  shows "\<exists>s'. recv_step E n drops s = Some (Inl s') \<and> settled s s' xs"
proof -
  obtain p zs where p: "packet_ok (cn_currentProtocolType s) p" "frame (cn_currentProtocolType s) p = xs @ zs" "zs \<noteq> []"
    using t xs by (auto simp: begun_def)
  have "\<not> completed s q ys" if "xs = frame (cn_currentProtocolType s) q @ ys" for q ys
    using frame_unique [of "cn_currentProtocolType s" p q "[]" "ys @ zs"] p that by (auto simp: completed_def)
  then show ?thesis using s xs tail_in_argument [OF _ _ xs p] tail_in_rest [OF _ _ p]
    by (auto simp: parsing_def)
qed

lemma recv_loop_stream:
  assumes "parsing s (stream (cn_currentProtocolType s) ps @ tail)" and "begun (cn_currentProtocolType s) tail"
    and "\<forall>p \<in> set ps. packet_ok (cn_currentProtocolType s) p \<and> \<not> drops p"
  shows "\<exists>s'. recv_loop E n drops s = Some s' \<and> holding s' tail \<and> nbb_ok (rv_argument s') \<and>
    delivered (rv_events s') = delivered (rv_events s) @ ps \<and>
    cn_currentProtocolType s' = cn_currentProtocolType s \<and> cn_decrypt s' = cn_decrypt s \<and>
     nb_capacity (rv_argument s') = nb_capacity (rv_argument s)"
  using assms
proof (induction ps arbitrary: s)
  case Nil
  show ?case
  proof (cases "tail = []")
    case True
    then show ?thesis using parsing_done [of s] Nil.prems(1) by (intro exI [of _ s]) (auto simp: recv_loop.simps [of E n drops s])
  next
    case False
    obtain b where b: "buffer s = Some b" "hasRemaining b" using parsing_more [of s tail] Nil.prems(1) False by auto
    obtain s' where "recv_step E n drops s = Some (Inl s')" "settled s s' tail"
      using recv_tail [of s tail E n drops] Nil.prems False by auto
    then show ?thesis using b by (intro exI [of _ s']) (simp add: recv_loop.simps [of E n drops s] settled_def)
  qed
next
  case (Cons p ps)
  let ?t = "cn_currentProtocolType s"
  obtain b where b: "buffer s = Some b" "hasRemaining b" using parsing_more [OF Cons.prems(1)] by auto
  obtain s' where s': "recv_step E n drops s = Some (Inr s')" "parsing s' (stream ?t ps @ tail)"
      "delivered (rv_events s') = delivered (rv_events s) @ [p]" "cn_currentProtocolType s' = ?t" "cn_decrypt s' = cn_decrypt s"
      "nb_capacity (rv_argument s') = nb_capacity (rv_argument s)"
    using recv_packet [of s p "stream ?t ps @ tail" drops E n] Cons.prems by auto
  then show ?case using Cons.IH [of s'] Cons.prems b by (simp add: recv_loop.simps [of E n drops s])
qed

end
