(* ===== verification/Packet_Handling.thy ===== *)
theory Packet_Handling
  imports Datacenter_Messages Connection_Frames
begin

unbundle bit_operations_syntax

section \<open>ConnectionsManager: what becomes of a received packet\<close>

text \<open>
  \<open>ConnectionsManager::onConnectionDataReceived\<close> with all its branches: error codes and quick acknowledgements, messages that are
  not encrypted, and encrypted ones.  The calls into the other components are recorded in their order; what they do to
  the state is the argument \<open>pe_effect\<close>, which the theorems leave arbitrary.  The depth of nested messages is bounded by \<open>pe_depth\<close>.
\<close>

subsection \<open>A packet\<close>

text \<open>Calls into the other components, in their order.\<close>

datatype packet_call =
    onConnectionQuickAck u32
  | onProxyError
  | resetAuthKey
  | connection_reconnect
  | onConnectionStateChanged
  | processHandshakeResponse TLObject ulong
  | processServerResponse TLObject ulong u32 ulong
  | setHasUsefullData
  | sendMessagesToConnectionWithConfirmation
  | onUnparsedMessageReceived

text \<open>What the call reads and does not change; \<open>requests\<close> is \<open>getRequestWithMessageId\<close>, \<open>depth\<close> the bound on nested
  messages.  \<open>effect\<close> is what a called component does to the state.\<close>

record packet_state =
  ps_session :: ConnectionSession
  ps_dc :: Datacenter
  ps_pool :: BuffersStorage
  ps_connected :: bool
  ps_calls :: "packet_call list"

record packet_env =
  pe_protocol :: ProtocolType
  pe_connectionType :: u32
  pe_isCdnDatacenter :: bool
  pe_currentDatacenter :: bool
  pe_proxyWithSecret :: bool
  pe_delegate :: bool
  pe_isHandshaking :: bool
  pe_handshakeRequest :: "TLObject option"
  pe_requests :: "ulong \<Rightarrow> TLObject option"
  pe_depth :: nat
  pe_mem :: mem_env
  pe_mtProtoVersion :: int
  pe_effect :: "packet_call \<Rightarrow> packet_state \<Rightarrow> packet_state"

definition ConnectionTypeGeneric :: u32 where "ConnectionTypeGeneric = 1"

definition allowsCustomPadding :: "packet_env \<Rightarrow> bool" where
  "allowsCustomPadding env \<longleftrightarrow> pe_protocol env = ProtocolTypeDD \<or> pe_protocol env = ProtocolTypeEF"

definition note_call :: "packet_call \<Rightarrow> packet_state \<Rightarrow> packet_state" where
  "note_call c s = s\<lparr>ps_calls := ps_calls s @ [c]\<rparr>"

definition perform :: "packet_env \<Rightarrow> packet_call \<Rightarrow> packet_state \<Rightarrow> packet_state" where
  "perform env c s = (pe_effect env c s)\<lparr>ps_calls := ps_calls s @ [c]\<rparr>"

text \<open>\<open>length <= 24 + 32\<close>: a code instead of a message.  \<open>PFS_ENABLED\<close> is 0.\<close>

definition short_packet :: "packet_env \<Rightarrow> istream \<Rightarrow> packet_state \<Rightarrow> packet_state option" where
  "short_packet env d s = do {
     (code, d) \<leftarrow> readInt32 d;
     if code = 0 then Some s
     else if code = -1 then do {
       (ackId, d) \<leftarrow> readInt32 d;
       Some (if \<not> is_error d then perform env (onConnectionQuickAck (ackId AND NOT (push_bit 31 1))) s else s)
     }
     else if code = -444 \<and> pe_connectionType env = ConnectionTypeGeneric \<and> pe_proxyWithSecret env then
       Some (if pe_delegate env then note_call onProxyError s else s)
     else if code = -404 \<and> pe_isCdnDatacenter env then
       Some (if \<not> pe_isHandshaking env then perform env resetAuthKey s else s)
     else Some (perform env connection_reconnect s)
   }"

text \<open>\<open>keyId == 0\<close>: a message that is not encrypted.\<close>

definition plain_packet :: "packet_env \<Rightarrow> istream \<Rightarrow> packet_state \<Rightarrow> packet_state option" where
  "plain_packet env d s = do {
     (messageId, d) \<leftarrow> readInt64 d;
     if is_error d then Some (perform env connection_reconnect s)
     else if isMessageIdProcessed messageId (ps_session s) then Some s
     else do {
       (messageLength, d) \<leftarrow> readUint32 d;
       if is_error d then Some (perform env connection_reconnect s)
       else if \<not> allowsCustomPadding env \<and> messageLength \<noteq> remaining (is_buf d) then Some (perform env connection_reconnect s)
       else do {
         let request = (if pe_isHandshaking env then pe_handshakeRequest env else pe_requests env messageId);
         (obj, d) \<leftarrow> TLdeserialize (pe_depth env) (pe_requests env) request messageLength d;
         let s = s\<lparr>ps_pool := is_pool d\<rparr>;
         (case obj of
            None \<Rightarrow> Some s
          | Some x \<Rightarrow>
              let s = (if pe_isHandshaking env then perform env (processHandshakeResponse x messageId) s
                       else let s = perform env (processServerResponse x messageId 0 0) s
                            in s\<lparr>ps_session := addProcessedMessageId messageId (ps_session s)\<rparr>)
              in Some (note_call setHasUsefullData s))
       }
     }
   }"

text \<open>After the decryption.\<close>

definition decrypted_packet :: "packet_env \<Rightarrow> istream \<Rightarrow> packet_state \<Rightarrow> packet_state option" where
  "decrypted_packet env d s = do {
     (messageServerSalt, d) \<leftarrow> readInt64 d;
     (messageSessionId, d) \<leftarrow> readInt64 d;
     if messageSessionId \<noteq> getSessionId (ps_session s) then Some s
     else do {
       (messageId, d) \<leftarrow> readInt64 d;
       (messageSeqNo, d) \<leftarrow> readInt32 d;
       (messageLength, d) \<leftarrow> readUint32 d;
       let doNotProcess = isMessageIdProcessed messageId (ps_session s);
       let s = (if messageSeqNo mod 2 \<noteq> 0 then s\<lparr>ps_session := addMessageToConfirm messageId (ps_session s)\<rparr> else s);
       if \<not> doNotProcess then do {
         (obj, d) \<leftarrow> TLdeserialize (pe_depth env) (pe_requests env) None messageLength d;
         let s = s\<lparr>ps_pool := is_pool d\<rparr>;
         (case obj of
            Some x \<Rightarrow>
              let s = note_call setHasUsefullData s;
                  s = perform env (processServerResponse x messageId messageSeqNo messageServerSalt) s;
                  s = s\<lparr>ps_session := addProcessedMessageId messageId (ps_session s)\<rparr>
              in Some (if pe_connectionType env = ConnectionTypePush then perform env sendMessagesToConnectionWithConfirmation s else s)
          | None \<Rightarrow> Some (if pe_delegate env then note_call onUnparsedMessageReceived s else s))
       }
       else Some (perform env sendMessagesToConnectionWithConfirmation s)
     }
   }"

definition encrypted_packet :: "crypto \<Rightarrow> packet_env \<Rightarrow> ulong \<Rightarrow> u32 \<Rightarrow> u32 \<Rightarrow> istream \<Rightarrow> packet_state \<Rightarrow> packet_state option" where
  "encrypted_packet F env keyId mark len d s =
     (let len = (if allowsCustomPadding env then let padding = (len - 24) mod 16 in if padding \<noteq> 0 then len - padding else len else len)
      in if len < 24 + 32 \<or> \<not> allowsCustomPadding env \<and> (len - 24) mod 16 \<noteq> 0 then Some (perform env connection_reconnect s)
      else do {
        let b = is_buf d;
        key \<leftarrow> slice (nb_buffer b) (uint mark + 8) 16;
        data \<leftarrow> slice (nb_buffer b) (uint mark + 24) (uint (len - 24));
        (ok, data) \<leftarrow> decryptServerResponse F (pe_mtProtoVersion env) keyId key data (ps_dc s);
        b \<leftarrow> poke (uint mark + 24) data b;
        if \<not> ok then Some (perform env connection_reconnect s)
        else decrypted_packet env (d\<lparr>is_buf := position_set (mark + 24) b\<rparr>) s
      })"

definition onConnectionDataReceived :: "crypto \<Rightarrow> packet_env \<Rightarrow> NativeByteBuffer \<Rightarrow> u32 \<Rightarrow> packet_state \<Rightarrow> packet_state option" where
  "onConnectionDataReceived F env data len s =
     (let d = \<lparr>is_buf = data, is_error = False, is_pool = ps_pool s, is_mem = pe_mem env\<rparr> in
      if len \<le> 24 + 32 then short_packet env d s
      else do {
        let mark = nb_position data;
        (keyId, d) \<leftarrow> readInt64 d;
        if is_error d then Some (perform env connection_reconnect s)
        else do {
          let s = (if \<not> ps_connected s \<and> pe_connectionType env = ConnectionTypeGeneric \<and> pe_currentDatacenter env
                   then let s = s\<lparr>ps_connected := True\<rparr> in if pe_delegate env then note_call onConnectionStateChanged s else s
                   else s);
          if keyId = 0 then plain_packet env d s else encrypted_packet F env keyId mark len d s
        }
      })"

subsection \<open>Messages from the server are processed\<close>

lemma parses_step:
  assumes "parses f xs v" and "stream_ok s" and "ahead (is_buf s) = xs @ ys" and "\<not> is_error s"
  obtains t where "f s = Some (v, t)" "stream_ok t" "ahead (is_buf t) = ys" "\<not> is_error t" "is_pool t = is_pool s"
  using that parsesD [OF assms] assms(4) by simp

text \<open>What processing a message does.\<close>

definition processed :: "packet_env \<Rightarrow> TLObject \<Rightarrow> ulong \<Rightarrow> u32 \<Rightarrow> ulong \<Rightarrow> packet_state \<Rightarrow> packet_state" where
  "processed env x messageId seqno salt s =
     (let s = (if seqno mod 2 \<noteq> 0 then s\<lparr>ps_session := addMessageToConfirm messageId (ps_session s)\<rparr> else s);
          s = perform env (processServerResponse x messageId seqno salt) (note_call setHasUsefullData s);
          s = s\<lparr>ps_session := addProcessedMessageId messageId (ps_session s)\<rparr>
      in if pe_connectionType env = ConnectionTypePush then perform env sendMessagesToConnectionWithConfirmation s else s)"

lemma decrypted_packet_ok:
  assumes d: "stream_ok d" "\<not> is_error d" "is_pool d = ps_pool s"
    and a: "ahead (is_buf d) = plain_text salt (cs_sessionId (ps_session s)) messageId seqno (incoming_wire x) padding @ rest"
    and x: "incoming_wf (pe_requests env) None x" "nesting x \<le> pe_depth env" and n: "\<not> isMessageIdProcessed messageId (ps_session s)"
  shows "decrypted_packet env d s = Some (processed env x messageId seqno salt s)"
proof -
  have a': "ahead (is_buf d) = long_bytes salt @ long_bytes (cs_sessionId (ps_session s)) @ long_bytes messageId @ int_bytes seqno @
      int_bytes (word_of_nat (length (incoming_wire x))) @ incoming_wire x @ padding @ rest" using a by (simp add: plain_text_def)
  obtain d1 where 1: "readInt64 d = Some (salt, d1)" "stream_ok d1" "\<not> is_error d1" "is_pool d1 = is_pool d"
      "ahead (is_buf d1) = long_bytes (cs_sessionId (ps_session s)) @ long_bytes messageId @ int_bytes seqno @
        int_bytes (word_of_nat (length (incoming_wire x))) @ incoming_wire x @ padding @ rest"
    using parses_step [OF parses_readInt64 d(1) a' d(2)] by blast
  obtain d2 where 2: "readInt64 d1 = Some (cs_sessionId (ps_session s), d2)" "stream_ok d2" "\<not> is_error d2" "is_pool d2 = is_pool d"
      "ahead (is_buf d2) = long_bytes messageId @ int_bytes seqno @
        int_bytes (word_of_nat (length (incoming_wire x))) @ incoming_wire x @ padding @ rest"
    using parses_step [OF parses_readInt64 1(2,5,3)] 1(4) by metis
  obtain d3 where 3: "readInt64 d2 = Some (messageId, d3)" "stream_ok d3" "\<not> is_error d3" "is_pool d3 = is_pool d"
      "ahead (is_buf d3) = int_bytes seqno @ int_bytes (word_of_nat (length (incoming_wire x))) @ incoming_wire x @ padding @ rest"
    using parses_step [OF parses_readInt64 2(2,5,3)] 2(4) by metis
  obtain d4 where 4: "readInt32 d3 = Some (seqno, d4)" "stream_ok d4" "\<not> is_error d4" "is_pool d4 = is_pool d"
      "ahead (is_buf d4) = int_bytes (word_of_nat (length (incoming_wire x))) @ incoming_wire x @ padding @ rest"
    using parses_step [OF parses_readInt32 3(2,5,3)] 3(4) by metis
  obtain d5 where 5: "readUint32 d4 = Some (word_of_nat (length (incoming_wire x)), d5)" "stream_ok d5" "\<not> is_error d5" "is_pool d5 = is_pool d"
      "ahead (is_buf d5) = incoming_wire x @ padding @ rest"
    using parses_step [OF parses_readUint32 4(2,5,3)] 4(4) by metis
  obtain d6 where 6: "TLdeserialize (pe_depth env) (pe_requests env) None (word_of_nat (length (incoming_wire x))) d5 = Some (Some x, d6)"
      "is_pool d6 = is_pool d"
    using parses_step [OF TLdeserialize_parses [OF x] 5(2,5,3)] 5(4) by metis
  have pool: "s\<lparr>ps_pool := is_pool d\<rparr> = s" "(s\<lparr>ps_session := u\<rparr>)\<lparr>ps_pool := is_pool d\<rparr> = s\<lparr>ps_session := u\<rparr>" for u using d(3) by simp_all
  show ?thesis using 1(1) 2(1) 3(1) 4(1) 5(1) 6 n pool
    by (simp add: decrypted_packet_def processed_def getSessionId_def Let_def)
qed

lemma buffer_parts:
  assumes "nbb_ok b"
  obtains p q where "nb_buffer b = p @ ahead b @ q" "length p = unat (nb_position b)"
proof -
  note d = nbb_okD [OF assms]
  have "drop (unat (nb_position b)) (nb_buffer b) = ahead b @ drop (unat (nb_limit b)) (nb_buffer b)"
    using append_take_drop_id [of "unat (nb_limit b) - unat (nb_position b)" "drop (unat (nb_position b)) (nb_buffer b)"] d
    by (simp add: ahead_def)
  then have "nb_buffer b = take (unat (nb_position b)) (nb_buffer b) @ ahead b @ drop (unat (nb_limit b)) (nb_buffer b)"
    by (metis append_take_drop_id)
  then show thesis using that d by simp
qed

lemma slice_in_packet:
  assumes "nbb_ok b" and "ahead b = xs @ ys @ zs" and "i = uint (nb_position b) + int (length xs)" and "n = int (length ys)"
  shows "slice (nb_buffer b) i n = Some ys"
proof -
  obtain p q where e: "nb_buffer b = p @ ahead b @ q" "length p = unat (nb_position b)" using buffer_parts [OF assms(1)] .
  have i: "i = int (length (p @ xs))" using assms(3) e(2) by simp
  show ?thesis unfolding i assms(4) slice_nat by (simp add: e(1) assms(2))
qed

lemma poke_ahead:
  assumes "nbb_ok b" and "ahead b = xs @ ys @ zs" and "i = uint (nb_position b) + int (length xs)" and "length ws = length ys"
  obtains m where "poke i ws b = Some (b\<lparr>nb_buffer := m\<rparr>)" "nbb_ok (b\<lparr>nb_buffer := m\<rparr>)" "ahead (b\<lparr>nb_buffer := m\<rparr>) = xs @ ws @ zs"
proof -
  obtain p q where e: "nb_buffer b = p @ ahead b @ q" "length p = unat (nb_position b)" using buffer_parts [OF assms(1)] .
  let ?m = "put_at (nb_buffer b) (length (p @ xs)) ws"
  have m: "?m = p @ xs @ ws @ zs @ q" using e(1) assms(2,4) by (simp add: put_at_def)
  have fit: "length (p @ xs) + length ws \<le> length (nb_buffer b)" using e(1) assms(2,4) by simp
  have i: "i = int (length (p @ xs))" using assms(3) e(2) by simp
  have "poke i ws b = Some (b\<lparr>nb_buffer := ?m\<rparr>)" unfolding i using fit by (rule poke_eq)
  moreover have "length ?m = length (nb_buffer b)" using fit by (rule length_put_at)
  then have "nbb_ok (b\<lparr>nb_buffer := ?m\<rparr>)" using assms(1) by (simp add: nbb_ok_def)
  moreover have "length (xs @ ws @ zs) = unat (nb_limit b) - unat (nb_position b)"
    using arg_cong [OF assms(2), of length] length_ahead [OF assms(1)] assms(4) by simp
  then have "ahead (b\<lparr>nb_buffer := ?m\<rparr>) = xs @ ws @ zs" unfolding ahead_def m using e(2) [symmetric] by simp
  ultimately show thesis using that by blast
qed

text \<open>The state when the packet is looked at: the first packet of the main connection makes the state \<open>Connected\<close>.\<close>

definition now_connected :: "packet_env \<Rightarrow> packet_state \<Rightarrow> packet_state" where
  "now_connected env s = (if \<not> ps_connected s \<and> pe_connectionType env = ConnectionTypeGeneric \<and> pe_currentDatacenter env
     then let s = s\<lparr>ps_connected := True\<rparr> in if pe_delegate env then note_call onConnectionStateChanged s else s
     else s)"

lemma now_connected_frame [simp]:
  "ps_session (now_connected env s) = ps_session s" "ps_dc (now_connected env s) = ps_dc s" "ps_pool (now_connected env s) = ps_pool s"
  by (simp_all add: now_connected_def note_call_def Let_def)

lemma unpad:
  fixes len :: u32
  assumes "unat len = 24 + n + k" and "n mod 16 = 0" and "k < 16"
  shows "(len - 24) mod 16 = word_of_nat k" and "len - word_of_nat k - 24 = word_of_nat n" and "unat (len - word_of_nat k) = 24 + n"
proof -
  have l: "len = word_of_nat (24 + n + k)" using arg_cong [OF assms(1), of "word_of_nat :: nat \<Rightarrow> u32"] by simp
  show "len - word_of_nat k - 24 = word_of_nat n" by (simp add: l)
  have u: "unat (len - 24) = n + k" using assms(1) by (simp add: unat_sub word_le_nat_alt)
  have "unat ((len - 24) mod 16) = (n + k) mod 16" by (simp add: unat_mod_distrib u)
  also have "\<dots> = k" using assms(2,3) by (simp add: mod_add_eq [symmetric])
  finally have m: "unat ((len - 24) mod 16) = k" .
  have k: "unat (word_of_nat k :: u32) = k" using assms(3) by (intro unat_len) simp
  show "(len - 24) mod 16 = word_of_nat k" using m k by (simp only: word_unat_eq_iff)
  show "unat (len - word_of_nat k) = 24 + n" using assms(1) k by (simp add: unat_sub word_le_nat_alt)
qed

lemma encrypted_packet_eq:
  assumes b: "nbb_ok (is_buf d)" "nb_position (is_buf d) = mark + 8" "nbb_ok ((is_buf d)\<lparr>nb_position := mark\<rparr>)"
    and st: "storage_ok (is_pool d)" "\<not> is_error d"
    and a: "ahead ((is_buf d)\<lparr>nb_position := mark\<rparr>) = head @ key @ data @ extra" "length head = 8" "length key = 16"
    and l: "unat len = 24 + length data + length extra" "length data mod 16 = 0" "length extra < 16" "allowsCustomPadding env \<or> extra = []"
      "32 \<le> length data"
    and dec: "decryptServerResponse F (pe_mtProtoVersion env) keyId key data (ps_dc s) = Some (ok, plain)" "length plain = length data"
  shows "\<exists>d'. encrypted_packet F env keyId mark len d s = (if ok then decrypted_packet env d' s else Some (perform env connection_reconnect s)) \<and>
    stream_ok d' \<and> \<not> is_error d' \<and> is_pool d' = is_pool d \<and> ahead (is_buf d') = plain @ extra"
proof -
  let ?b = "(is_buf d)\<lparr>nb_position := mark\<rparr>" and ?k = "word_of_nat (length extra) :: u32"
  note u = unpad [OF l(1,2,3)]
  have k0: "?k = 0 \<longleftrightarrow> extra = []"
  proof -
    have "unat ?k = length extra" using l(3) by (intro unat_len) simp
    then show ?thesis by (metis length_0_conv unat_eq_zero)
  qed
  have len: "(if allowsCustomPadding env then let padding = (len - 24) mod 16 in if padding \<noteq> 0 then len - padding else len else len) = len - ?k"
    using u(1) l(4) k0 by auto
  have ge: "\<not> (len - ?k < 24 + 32 \<or> \<not> allowsCustomPadding env \<and> (len - ?k - 24) mod 16 \<noteq> 0)"
    using u(1,3) l(4,5) k0 by (auto simp: word_less_nat_alt)
  have n: "uint (len - ?k - 24) = int (length data)"
  proof -
    have "unat (len - ?k - 24) = length data" using u(3) by (simp add: unat_sub word_le_nat_alt)
    then show ?thesis by (metis uint_nat)
  qed
  have s1: "slice (nb_buffer (is_buf d)) (uint mark + 8) 16 = Some key"
    using slice_in_packet [of ?b head key "data @ extra"] b(3) a by simp
  have s2: "slice (nb_buffer (is_buf d)) (uint mark + 24) (uint (len - ?k - 24)) = Some data"
    using slice_in_packet [of ?b "head @ key" data extra] b(3) a n by simp
  obtain m where m: "poke (uint mark + 24) plain ?b = Some (?b\<lparr>nb_buffer := m\<rparr>)" "nbb_ok (?b\<lparr>nb_buffer := m\<rparr>)"
      "ahead (?b\<lparr>nb_buffer := m\<rparr>) = (head @ key) @ plain @ extra"
    using poke_ahead [of ?b "head @ key" data extra "uint mark + 24" plain] b(3) a dec(2) by auto
  then have pk: "poke (uint mark + 24) plain (is_buf d) = Some ((is_buf d)\<lparr>nb_buffer := m\<rparr>)"
    by (auto simp: poke_def split: Option.bind_splits dest: arg_cong [where f = nb_buffer])
  let ?c = "position_set (mark + 24) ((is_buf d)\<lparr>nb_buffer := m\<rparr>)"
  have mv: "nbb_ok (moved 24 (?b\<lparr>nb_buffer := m\<rparr>))" "ahead (moved 24 (?b\<lparr>nb_buffer := m\<rparr>)) = plain @ extra"
    using moved_ok [OF m(2), of 24] m(3) a by simp_all
  have "unat (mark + 24) \<le> unat (nb_limit (is_buf d))" using nbb_okD [OF mv(1)] by (simp add: moved_def)
  then have c: "?c = moved 24 (?b\<lparr>nb_buffer := m\<rparr>)" by (simp add: position_set_def moved_def word_less_nat_alt)
  let ?d = "d\<lparr>is_buf := ?c\<rparr>"
  have "encrypted_packet F env keyId mark len d s = (if ok then decrypted_packet env ?d s else Some (perform env connection_reconnect s))"
    unfolding encrypted_packet_def Let_def len [unfolded Let_def] using ge s1 s2 dec(1) pk by auto
  moreover have "stream_ok ?d" "ahead (is_buf ?d) = plain @ extra" using mv st by (simp_all add: c stream_ok_def)
  ultimately show ?thesis using st by (intro exI [of _ ?d]) simp
qed

lemma packet_start:
  assumes b: "nbb_ok b" "storage_ok (ps_pool s)" and a: "ahead b = long_bytes keyId @ xs" and l: "unat len = length (ahead b)" "48 < length xs"
  shows "\<exists>d. onConnectionDataReceived F env b len s =
      (if keyId = 0 then plain_packet env d (now_connected env s) else encrypted_packet F env keyId (nb_position b) len d (now_connected env s)) \<and>
    stream_ok d \<and> \<not> is_error d \<and> is_pool d = ps_pool s \<and> ahead (is_buf d) = xs \<and>
    nb_position (is_buf d) = nb_position b + 8 \<and> (is_buf d)\<lparr>nb_position := nb_position b\<rparr> = b"
proof -
  let ?d = "\<lparr>is_buf = b, is_error = False, is_pool = ps_pool s, is_mem = pe_mem env\<rparr>"
  have d: "stream_ok ?d" "ahead (is_buf ?d) = long_bytes keyId @ xs" "\<not> is_error ?d" using b a by (simp_all add: stream_ok_def)
  note p = parsesD [OF parses_readInt64 d]
  have "\<not> len \<le> 24 + 32" using l a by (simp add: word_le_nat_alt)
  then have "onConnectionDataReceived F env b len s = (if keyId = 0 then plain_packet env (advance 8 ?d) (now_connected env s)
      else encrypted_packet F env keyId (nb_position b) len (advance 8 ?d) (now_connected env s))"
    using p(1) by (simp add: onConnectionDataReceived_def now_connected_def Let_def)
  then show ?thesis using p(2,3) by (intro exI [of _ "advance 8 ?d"]) (simp add: advance_def)
qed

lemma server_message_run:
  assumes "block_inverse (cr_AES_encrypt F) (cr_AES_decrypt F)" and "dc_authKeyPerm (ps_dc s) = Some authKey" and "length authKey = 256"
    and "dc_authKeyPermId (ps_dc s) \<noteq> 0"
    and "plain = plain_text salt (cs_sessionId (ps_session s)) messageId seqno (incoming_wire x) padding"
    and "padding_ok plain" and "length plain mod 16 = 0" and "length plain < 2 ^ 30"
    and "server_encrypt F (pe_mtProtoVersion env) authKey plain = Some data"
    and "nbb_ok b" and "storage_ok (ps_pool s)"
    and "ahead b = long_bytes (dc_authKeyPermId (ps_dc s)) @ message_key F (pe_mtProtoVersion env) authKey plain @ data @ extra"
    and "length extra < 16" and "allowsCustomPadding env \<or> extra = []"
    and "incoming_wf (pe_requests env) None x" and "nesting x \<le> pe_depth env" and "\<not> isMessageIdProcessed messageId (ps_session s)"
  shows "onConnectionDataReceived F env b (word_of_nat (length (ahead b))) s =
    Some (processed env x messageId seqno salt (now_connected env s))"
proof -
  let ?id = "dc_authKeyPermId (ps_dc s)" and ?key = "message_key F (pe_mtProtoVersion env) authKey plain" and ?s = "now_connected env s"
  let ?len = "word_of_nat (length (ahead b)) :: u32"
  have lp: "44 \<le> length plain" using assms(6) by (simp add: padding_ok_def Let_def)
  obtain data' where e: "server_encrypt F (pe_mtProtoVersion env) authKey plain = Some data'" "length data' = length plain"
      "decryptServerResponse F (pe_mtProtoVersion env) ?id ?key data' (ps_dc s) = Some (True, plain)"
    using server_message_decrypted [OF assms(1-3), of plain "pe_mtProtoVersion env"] lp assms(6,8) by auto
  then have dd: "data' = data" using assms(9) by simp
  have ld: "length data = length plain" using e(2) dd by simp
  have len: "unat ?len = length (ahead b)" using assms(12,13,8) ld by (intro unat_len) simp
  have long: "48 < length (?key @ data @ extra)" using ld lp by simp
  obtain d where d: "onConnectionDataReceived F env b ?len s = encrypted_packet F env ?id (nb_position b) ?len d ?s" "stream_ok d" "\<not> is_error d"
      "is_pool d = ps_pool s" "nb_position (is_buf d) = nb_position b + 8" "(is_buf d)\<lparr>nb_position := nb_position b\<rparr> = b"
    using packet_start [OF assms(10,11) _ len long, of ?id F env] assms(4,12) by auto
  have "\<exists>d'. encrypted_packet F env ?id (nb_position b) ?len d ?s =
        (if True then decrypted_packet env d' ?s else Some (perform env connection_reconnect ?s)) \<and>
      stream_ok d' \<and> \<not> is_error d' \<and> is_pool d' = is_pool d \<and> ahead (is_buf d') = plain @ extra"
  proof (rule encrypted_packet_eq [where head = "long_bytes ?id" and key = ?key and data = data])
    show "nbb_ok (is_buf d)" "nb_position (is_buf d) = nb_position b + 8" "nbb_ok ((is_buf d)\<lparr>nb_position := nb_position b\<rparr>)"
      "storage_ok (is_pool d)" "\<not> is_error d" using d assms(10,11) by (simp_all add: stream_ok_def)
    show "ahead ((is_buf d)\<lparr>nb_position := nb_position b\<rparr>) = long_bytes ?id @ ?key @ data @ extra" using d(6) assms(12) by simp
    show "unat ?len = 24 + length data + length extra" using len assms(12) by simp
    show "decryptServerResponse F (pe_mtProtoVersion env) ?id ?key data (ps_dc ?s) = Some (True, plain)" using e(3) dd by simp
  qed (use assms(7,13,14) ld lp in simp_all)
  then obtain d' where d': "encrypted_packet F env ?id (nb_position b) ?len d ?s = decrypted_packet env d' ?s" "stream_ok d'" "\<not> is_error d'"
      "is_pool d' = is_pool d" "ahead (is_buf d') = plain @ extra" by auto
  have "decrypted_packet env d' ?s = Some (processed env x messageId seqno salt ?s)"
    using decrypted_packet_ok [OF d'(2,3), of ?s salt messageId seqno x padding extra env] d'(4,5) d(4) assms(5,15-17) by simp
  then show ?thesis using d(1) d'(1) by simp
qed

text \<open>C3. A genuine message is processed.  If a server encrypts, under the shared key, a message of the current session whose body
  is an object the client can read, with the padding the protocol asks for and up to 15 bytes of transport padding where
  the transport allows it, then \<open>onConnectionDataReceived\<close> hands exactly this object with its id, sequence number and salt
  to \<open>processServerResponse\<close>, records the id as processed, queues the confirmation of an odd sequence number, and on a push
  connection sends the confirmations at once.  The message id is one that was not processed before.\<close>

theorem server_message_delivered:
  assumes "block_inverse (cr_AES_encrypt F) (cr_AES_decrypt F)" and "dc_authKeyPerm (ps_dc s) = Some authKey" and "length authKey = 256"
    and "dc_authKeyPermId (ps_dc s) \<noteq> 0"
    and "plain = plain_text salt (cs_sessionId (ps_session s)) messageId seqno (incoming_wire x) padding"
    and "padding_ok plain" and "length plain mod 16 = 0" and "length plain < 2 ^ 30"
    and "server_encrypt F (pe_mtProtoVersion env) authKey plain = Some data"
    and "nbb_ok b" and "storage_ok (ps_pool s)"
    and "ahead b = long_bytes (dc_authKeyPermId (ps_dc s)) @ message_key F (pe_mtProtoVersion env) authKey plain @ data @ extra"
    and "length extra < 16" and "allowsCustomPadding env \<or> extra = []"
    and "incoming_wf (pe_requests env) None x" and "nesting x \<le> pe_depth env" and "\<not> isMessageIdProcessed messageId (ps_session s)"
  shows "onConnectionDataReceived F env b (word_of_nat (length (ahead b))) s =
    Some (processed env x messageId seqno salt (now_connected env s))"
  using assms by (rule server_message_run)

definition demo_packet_env :: packet_env where
  "demo_packet_env = \<lparr>pe_protocol = ProtocolTypeEF, pe_connectionType = ConnectionTypeGeneric, pe_isCdnDatacenter = False,
     pe_currentDatacenter = True, pe_proxyWithSecret = False, pe_delegate = True, pe_isHandshaking = False, pe_handshakeRequest = None,
     pe_requests = demo_requests, pe_depth = 3, pe_mem = ample, pe_mtProtoVersion = 2, pe_effect = (\<lambda>_ s. s)\<rparr>"

definition demo_packet_state :: packet_state where
  "demo_packet_state = \<lparr>ps_session = ConnectionSession_new 9, ps_dc = demo_datacenter, ps_pool = BuffersStorage_new ample,
     ps_connected = True, ps_calls = []\<rparr>"

definition demo_message :: "byte list" where
  "demo_message = plain_text 3 9 41 1 (incoming_wire demo_reply) (replicate 20 0)"

definition demo_data :: "byte list" where
  "demo_data = the (server_encrypt demo_crypto 2 (replicate 256 7) demo_message)"

definition demo_packet :: NativeByteBuffer where
  "demo_packet = NativeByteBuffer_slice (long_bytes 5 @ message_key demo_crypto 2 (replicate 256 7) demo_message @ demo_data) 152"

lemma demo_message_ok: "length demo_message = 128" "padding_ok demo_message"
proof -
  have len: "length (incoming_wire demo_reply) = 76" by (simp add: demo_reply_def TL_pong_wire_def TL_pong_params_def)
  show l: "length demo_message = 128" by (simp add: demo_message_def plain_text_def len)
  have m: "take 4 (drop 28 demo_message) = int_bytes 76" by (simp add: demo_message_def plain_text_def len)
  have u: "u32_of (int_bytes y) = y" for y by (simp add: u32_of_def int_bytes_eq int_of_bytes)
  show "padding_ok demo_message" unfolding padding_ok_def m u Let_def l by simp
qed

lemma demo_packet_state_ok:
  "dc_authKeyPerm (ps_dc demo_packet_state) = Some (replicate 256 7)" "dc_authKeyPermId (ps_dc demo_packet_state) = 5"
  "pe_mtProtoVersion demo_packet_env = 2" "pe_requests demo_packet_env = demo_requests" "pe_depth demo_packet_env = 3"
  "cs_sessionId (ps_session demo_packet_state) = 9" "storage_ok (ps_pool demo_packet_state)" "\<not> pe_isHandshaking demo_packet_env"
  "allowsCustomPadding demo_packet_env" "\<not> isMessageIdProcessed 41 (ps_session demo_packet_state)"
  by (simp_all add: demo_packet_state_def demo_datacenter_def demo_packet_env_def ConnectionSession_new_def storage_ok_new
    allowsCustomPadding_def isMessageIdProcessed_def)

lemma demo_reply_ok: "incoming_wf demo_requests None demo_reply" "nesting demo_reply \<le> 3"
  by (simp_all add: demo_reply_def demo_requests_def TL_pong_wf_def)

lemma demo_packet_ok:
  "server_encrypt demo_crypto 2 (replicate 256 7) demo_message = Some demo_data" "length demo_data = 128" "nbb_ok demo_packet"
  "ahead demo_packet = long_bytes 5 @ message_key demo_crypto 2 (replicate 256 7) demo_message @ demo_data"
proof -
  show d: "server_encrypt demo_crypto 2 (replicate 256 7) demo_message = Some demo_data" "length demo_data = 128"
    using server_message_decrypted [OF demo_block_inverse demo_packet_state_ok(1) _ _ _ demo_message_ok(2), of 2] demo_message_ok(1)
    by (auto simp: demo_data_def)
  show "nbb_ok demo_packet" "ahead demo_packet = long_bytes 5 @ message_key demo_crypto 2 (replicate 256 7) demo_message @ demo_data"
    using d(2) by (simp_all add: demo_packet_def nbb_ok_def NativeByteBuffer_slice_def ahead_def)
qed

theorem server_message_delivered_witness:
  "onConnectionDataReceived demo_crypto demo_packet_env demo_packet 152 demo_packet_state =
     Some (processed demo_packet_env demo_reply 41 1 3 (now_connected demo_packet_env demo_packet_state))"
  using server_message_delivered [OF demo_block_inverse demo_packet_state_ok(1), of demo_message 3 41 1 demo_reply "replicate 20 0" demo_packet_env
      demo_data demo_packet "[]"] demo_packet_state_ok demo_message_ok demo_packet_ok demo_reply_ok
  by (simp add: demo_message_def)

subsection \<open>Only authentic messages are processed\<close>

lemma long_bytes_surj: "length xs = 8 \<Longrightarrow> \<exists>v. xs = long_bytes v"
proof -
  assume l: "length xs = 8"
  have "xs ! i = (ucast (drop_bit (8 * i) (load_word_le xs 0)) :: byte)" if "i < 8" for i
    using that by (intro bit_eqI) (auto simp: bit_ucast_byte bit_drop_bit_eq bit_load_word dest: byte_bit_bound)
  from this [of 0] this [of 1] this [of 2] this [of 3] this [of 4] this [of 5] this [of 6] this [of 7]
  have "long_bytes (load_word_le xs 0) = [xs ! 0, xs ! 1, xs ! 2, xs ! 3, xs ! 4, xs ! 5, xs ! 6, xs ! 7]" by (simp add: long_bytes_eq)
  also have "\<dots> = xs"
  proof -
    obtain x0 x1 x2 x3 x4 x5 x6 x7 where "xs = [x0, x1, x2, x3, x4, x5, x6, x7]"
      using l by (auto simp: length_Suc_conv eval_nat_numeral)
    then show ?thesis by simp
  qed
  finally show ?thesis by metis
qed

lemma int_bytes_surj: "length xs = 4 \<Longrightarrow> \<exists>v. xs = int_bytes v"
proof -
  assume l: "length xs = 4"
  obtain v where v: "xs @ [0, 0, 0, 0] = long_bytes v" using long_bytes_surj [of "xs @ [0, 0, 0, 0]"] l by auto
  then have "xs = take 4 (long_bytes v)" using l by (metis append_eq_conv_conj)
  then have "xs = int_bytes (ucast v)"
    by (auto simp: long_bytes_eq int_bytes_eq bit_eq_iff bit_simps)
  then show ?thesis by blast
qed

lemma header_surj:
  assumes "32 \<le> length plain"
  obtains salt session messageId seqno len rest where
    "plain = long_bytes salt @ long_bytes session @ long_bytes messageId @ int_bytes seqno @ int_bytes len @ rest"
proof -
  have e: "plain = take 8 plain @ take 8 (drop 8 plain) @ take 8 (drop 16 plain) @ take 4 (drop 24 plain) @ take 4 (drop 28 plain) @ drop 32 plain"
    using append_take_drop_id [of 8 plain] append_take_drop_id [of 8 "drop 8 plain"] append_take_drop_id [of 8 "drop 16 plain"]
      append_take_drop_id [of 4 "drop 24 plain"] append_take_drop_id [of 4 "drop 28 plain"] by (simp only: drop_drop) simp
  obtain a b c d f where "take 8 plain = long_bytes a" "take 8 (drop 8 plain) = long_bytes b" "take 8 (drop 16 plain) = long_bytes c"
      "take 4 (drop 24 plain) = int_bytes d" "take 4 (drop 28 plain) = int_bytes f"
    using assms long_bytes_surj [of "take 8 plain"] long_bytes_surj [of "take 8 (drop 8 plain)"] long_bytes_surj [of "take 8 (drop 16 plain)"]
      int_bytes_surj [of "take 4 (drop 24 plain)"] int_bytes_surj [of "take 4 (drop 28 plain)"] by auto
  then show thesis using that e by metis
qed

definition new_calls :: "packet_state \<Rightarrow> packet_state \<Rightarrow> packet_call list" where
  "new_calls s s' = drop (length (ps_calls s)) (ps_calls s')"

lemma perform_calls [simp]: "ps_calls (perform env c s) = ps_calls s @ [c]" "ps_calls (note_call c s) = ps_calls s @ [c]"
  by (simp_all add: perform_def note_call_def)

lemma now_connected_calls: "\<exists>cs. ps_calls (now_connected env s) = ps_calls s @ cs \<and> processServerResponse x m q v \<notin> set cs"
  by (auto simp: now_connected_def note_call_def Let_def)

lemma decrypted_packet_calls:
  assumes d: "stream_ok d" "\<not> is_error d" and l: "32 \<le> length (ahead (is_buf d))"
    and r: "decrypted_packet env d s = Some s'" and c: "processServerResponse x m q v \<in> set (new_calls s s')"
  shows "\<exists>n body t t'. ahead (is_buf d) = long_bytes v @ long_bytes (cs_sessionId (ps_session s)) @ long_bytes m @ int_bytes q @ int_bytes n @ body \<and>
      ahead (is_buf t) = body \<and> TLdeserialize (pe_depth env) (pe_requests env) None n t = Some (Some x, t')"
    and "\<not> isMessageIdProcessed m (ps_session s)"
proof -
  obtain salt session messageId seqno len rest where
    a: "ahead (is_buf d) = long_bytes salt @ long_bytes session @ long_bytes messageId @ int_bytes seqno @ int_bytes len @ rest"
    using header_surj [OF l] .
  obtain d1 where 1: "readInt64 d = Some (salt, d1)" "stream_ok d1" "\<not> is_error d1"
      "ahead (is_buf d1) = long_bytes session @ long_bytes messageId @ int_bytes seqno @ int_bytes len @ rest"
    using parses_step [OF parses_readInt64 d(1) a d(2)] by blast
  obtain d2 where 2: "readInt64 d1 = Some (session, d2)" "stream_ok d2" "\<not> is_error d2"
      "ahead (is_buf d2) = long_bytes messageId @ int_bytes seqno @ int_bytes len @ rest"
    using parses_step [OF parses_readInt64 1(2,4,3)] by blast
  obtain d3 where 3: "readInt64 d2 = Some (messageId, d3)" "stream_ok d3" "\<not> is_error d3" "ahead (is_buf d3) = int_bytes seqno @ int_bytes len @ rest"
    using parses_step [OF parses_readInt64 2(2,4,3)] by blast
  obtain d4 where 4: "readInt32 d3 = Some (seqno, d4)" "stream_ok d4" "\<not> is_error d4" "ahead (is_buf d4) = int_bytes len @ rest"
    using parses_step [OF parses_readInt32 3(2,4,3)] by blast
  obtain d5 where 5: "readUint32 d4 = Some (len, d5)" "ahead (is_buf d5) = rest"
    using parses_step [OF parses_readUint32 4(2,4,3)] by blast
  have sess: "session = cs_sessionId (ps_session s)"
    using r c 1(1) 2(1) by (auto simp: decrypted_packet_def getSessionId_def new_calls_def split: if_splits)
  have new: "\<not> isMessageIdProcessed messageId (ps_session s)"
    using r c 1(1) 2(1) 3(1) 4(1) 5(1) sess by (auto simp: decrypted_packet_def getSessionId_def new_calls_def Let_def split: if_splits)
  have "m = messageId \<and> q = seqno \<and> v = salt \<and> (\<exists>t'. TLdeserialize (pe_depth env) (pe_requests env) None len d5 = Some (Some x, t'))"
    using r c 1(1) 2(1) 3(1) 4(1) 5(1) sess new
    by (auto simp: decrypted_packet_def getSessionId_def new_calls_def Let_def split: if_splits Option.bind_splits option.splits prod.splits)
  then show "\<exists>n body t t'. ahead (is_buf d) = long_bytes v @ long_bytes (cs_sessionId (ps_session s)) @ long_bytes m @ int_bytes q @ int_bytes n @ body \<and>
      ahead (is_buf t) = body \<and> TLdeserialize (pe_depth env) (pe_requests env) None n t = Some (Some x, t')"
    "\<not> isMessageIdProcessed m (ps_session s)" using a sess new 5(2) by auto
qed

lemma decrypted_packet_extends:
  assumes "decrypted_packet env d s = Some s'"
  shows "\<exists>cs. ps_calls s' = ps_calls s @ cs"
  using assms
  by (auto simp: decrypted_packet_def Let_def split: if_splits Option.bind_splits option.splits prod.splits)

lemma new_calls_later:
  assumes "ps_calls t = ps_calls s @ cs" and "ps_calls s' = ps_calls t @ ds" and "c \<in> set (new_calls s s')" and "c \<notin> set cs"
  shows "c \<in> set (new_calls t s')"
  using assms by (auto simp: new_calls_def)

lemma append_head:
  assumes "xs @ ys = h @ zs" and "length h \<le> length xs"
  shows "xs = h @ drop (length h) xs" and "zs = drop (length h) xs @ ys"
proof -
  have "take (length h) xs = h" using assms by (metis append_eq_append_conv_if)
  then show "xs = h @ drop (length h) xs" by (metis append_take_drop_id)
  have "zs = drop (length h) (xs @ ys)" by (simp add: assms(1))
  then show "zs = drop (length h) xs @ ys" using assms(2) by simp
qed

text \<open>C4. Only authentic messages are processed.  For an encrypted packet of any bytes whatever: if the handling of it calls
  \<open>processServerResponse\<close> with an id, a sequence number and a salt, then the key id is that of the shared key, the id was not
  processed before, and the data of the packet, in whole blocks, decrypts to a text that has the message key the packet
  carries, is correctly padded and starts with that salt, the current session, that id and that sequence number; the
  object handed over is what \<open>TLdeserialize\<close> reads from the rest of that text.\<close>

theorem only_authentic_processed:
  assumes "dc_authKeyPerm (ps_dc s) = Some authKey" and "length authKey = 256"
    and "nbb_ok b" and "storage_ok (ps_pool s)" and "ahead b = long_bytes keyId @ key @ rest" and "length key = 16" and "32 < length rest"
    and "keyId \<noteq> 0" and "onConnectionDataReceived F env b (word_of_nat (length (ahead b))) s = Some s'"
    and "processServerResponse x m q v \<in> set (new_calls s s')"
  shows "keyId = dc_authKeyPermId (ps_dc s) \<and> \<not> isMessageIdProcessed m (ps_session s) \<and>
    (\<exists>plain n body t t'.
       decryptServerResponse F (pe_mtProtoVersion env) keyId key (take (length rest - length rest mod 16) rest) (ps_dc s) = Some (True, plain) \<and>
       message_key F (pe_mtProtoVersion env) authKey plain = key \<and> padding_ok plain \<and> length plain = length rest - length rest mod 16 \<and>
       plain = long_bytes v @ long_bytes (cs_sessionId (ps_session s)) @ long_bytes m @ int_bytes q @ int_bytes n @ body \<and>
       ahead (is_buf t) = body @ drop (length rest - length rest mod 16) rest \<and>
       TLdeserialize (pe_depth env) (pe_requests env) None n t = Some (Some x, t'))"
proof -
  let ?s = "now_connected env s" and ?len = "word_of_nat (length (ahead b)) :: u32"
  let ?k = "length rest mod 16"
  let ?data = "take (length rest - ?k) rest" and ?extra = "drop (length rest - ?k) rest"
  have lr: "length rest = length ?data + length ?extra" "length ?data = length rest - ?k" "length ?extra = ?k" by simp_all
  have ld: "length ?data mod 16 = 0" "32 \<le> length ?data"
  proof -
    have "length rest - ?k = 16 * (length rest div 16)" by (simp add: minus_mod_eq_mult_div)
    then show "length ?data mod 16 = 0" "32 \<le> length ?data" using assms(7) by simp_all
  qed
  have small: "length (ahead b) < 2 ^ 31" using length_ahead [OF assms(3)] nbb_okD [OF assms(3)] by simp
  have len: "unat ?len = length (ahead b)" using small by (rule unat_len)
  have len': "unat ?len = 24 + length ?data + length ?extra" using len assms(5,6) by simp
  obtain d where d: "onConnectionDataReceived F env b ?len s = encrypted_packet F env keyId (nb_position b) ?len d ?s" "stream_ok d" "\<not> is_error d"
      "is_pool d = ps_pool s" "nb_position (is_buf d) = nb_position b + 8" "(is_buf d)\<lparr>nb_position := nb_position b\<rparr> = b"
    using packet_start [OF assms(3,4,5) len, of F env] assms(6,7,8) by auto
  obtain cs where cs: "ps_calls ?s = ps_calls s @ cs" "processServerResponse x m q v \<notin> set cs" using now_connected_calls by blast
  have not_reconnect: "s' \<noteq> perform env connection_reconnect ?s"
  proof
    assume "s' = perform env connection_reconnect ?s"
    then have "processServerResponse x m q v \<in> set (new_calls ?s s')" using new_calls_later [OF cs(1) _ assms(10) cs(2)] by simp
    then show False using \<open>s' = _\<close> by (simp add: new_calls_def)
  qed
  have custom: "allowsCustomPadding env \<or> ?extra = []"
  proof (rule ccontr)
    assume n: "\<not> (allowsCustomPadding env \<or> ?extra = [])"
    then have k: "?k \<noteq> 0" using lr(3) by (metis length_0_conv)
    have "unat (word_of_nat ?k :: u32) = ?k" by (intro unat_len) simp
    then have "(word_of_nat ?k :: u32) \<noteq> 0" using k by (metis unat_0)
    then have "(?len - 24) mod 16 \<noteq> 0" using unpad(1) [OF len' ld(1)] lr(3) by simp
    then have "s' = perform env connection_reconnect ?s" using n d(1) assms(9) by (simp add: encrypted_packet_def)
    then show False using not_reconnect by blast
  qed
  obtain ok plain where p: "decryptServerResponse F (pe_mtProtoVersion env) keyId key ?data (ps_dc s) = Some (ok, plain)" "length plain = length ?data"
      "ok \<longleftrightarrow> keyId = dc_authKeyPermId (ps_dc s) \<and> padding_ok plain \<and> message_key F (pe_mtProtoVersion env) authKey plain = key"
  proof -
    have "length ?data < 2 ^ 31" using small assms(5) by simp
    from response_accepted_iff [OF assms(1,2,6) ld(2) this, of F "pe_mtProtoVersion env" keyId] show thesis using that by blast
  qed
  obtain d' where d': "encrypted_packet F env keyId (nb_position b) ?len d ?s =
        (if ok then decrypted_packet env d' ?s else Some (perform env connection_reconnect ?s))" "stream_ok d'" "\<not> is_error d'"
      "ahead (is_buf d') = plain @ ?extra"
  proof -
    have "\<exists>d'. encrypted_packet F env keyId (nb_position b) ?len d ?s =
        (if ok then decrypted_packet env d' ?s else Some (perform env connection_reconnect ?s)) \<and>
        stream_ok d' \<and> \<not> is_error d' \<and> is_pool d' = is_pool d \<and> ahead (is_buf d') = plain @ ?extra"
    proof (rule encrypted_packet_eq [where head = "long_bytes keyId" and key = key and data = ?data])
      show "nbb_ok (is_buf d)" "nb_position (is_buf d) = nb_position b + 8" "nbb_ok ((is_buf d)\<lparr>nb_position := nb_position b\<rparr>)"
        "storage_ok (is_pool d)" "\<not> is_error d" using d assms(3,4) by (simp_all add: stream_ok_def)
      show "ahead ((is_buf d)\<lparr>nb_position := nb_position b\<rparr>) = long_bytes keyId @ key @ ?data @ ?extra" using d(6) assms(5) by simp
      show "unat ?len = 24 + length ?data + length ?extra" by (rule len')
      show "length ?data mod 16 = 0" "32 \<le> length ?data" "length ?extra < 16" using ld by simp_all
      show "decryptServerResponse F (pe_mtProtoVersion env) keyId key ?data (ps_dc ?s) = Some (ok, plain)" using p(1) by simp
    qed (use assms(6) custom p(2) in simp_all)
    then show thesis using that by blast
  qed
  have ok: ok using d(1) d'(1) assms(9) not_reconnect by (auto split: if_splits)
  then have run: "decrypted_packet env d' ?s = Some s'" using d(1) d'(1) assms(9) by simp
  then have c: "processServerResponse x m q v \<in> set (new_calls ?s s')"
    using decrypted_packet_extends new_calls_later [OF cs(1) _ assms(10) cs(2)] by blast
  have l32: "32 \<le> length (ahead (is_buf d'))" using d'(4) p(2) ld(2) by simp
  note r = decrypted_packet_calls [OF d'(2,3) l32 run c]
  let ?head = "\<lambda>n. long_bytes v @ long_bytes (cs_sessionId (ps_session s)) @ long_bytes m @ int_bytes q @ int_bytes n"
  obtain n body t t' where b: "plain @ ?extra = ?head n @ body" "ahead (is_buf t) = body"
      "TLdeserialize (pe_depth env) (pe_requests env) None n t = Some (Some x, t')"
    using r(1) d'(4) by auto
  have n32: "length (?head n) \<le> length plain" using p(2) ld(2) by simp
  note e = append_head [OF b(1) n32]
  show ?thesis using p ok r(2) lr(2) b(2,3) e by (intro conjI exI [of _ plain] exI [of _ n] exI [of _ "drop (length (?head n)) plain"] exI [of _ t] exI [of _ t']) auto
qed

theorem only_authentic_processed_witness:
  "\<exists>plain n body. decryptServerResponse demo_crypto 2 (dc_authKeyPermId (ps_dc demo_packet_state))
       (message_key demo_crypto 2 (replicate 256 7) demo_message) demo_data (ps_dc demo_packet_state) = Some (True, plain) \<and>
     length plain = 128 \<and> plain = long_bytes 3 @ long_bytes 9 @ long_bytes 41 @ int_bytes 1 @ int_bytes n @ body"
proof -
  let ?s = "now_connected demo_packet_env demo_packet_state"
  let ?s' = "processed demo_packet_env demo_reply 41 1 3 ?s"
  have run: "onConnectionDataReceived demo_crypto demo_packet_env demo_packet (word_of_nat (length (ahead demo_packet))) demo_packet_state = Some ?s'"
    using server_message_run [OF demo_block_inverse demo_packet_state_ok(1), of demo_message 3 41 1 demo_reply "replicate 20 0" demo_packet_env
      demo_data demo_packet "[]"] demo_packet_state_ok demo_message_ok demo_packet_ok demo_reply_ok
    by (simp add: demo_message_def)
  have "processServerResponse demo_reply 41 1 3 \<in> set (new_calls demo_packet_state ?s')"
    by (simp add: processed_def new_calls_def now_connected_def demo_packet_state_def demo_packet_env_def perform_def note_call_def
      ConnectionTypeGeneric_def ConnectionTypePush_def Let_def)
  from only_authentic_processed [OF demo_packet_state_ok(1) _ demo_packet_ok(3) demo_packet_state_ok(7) demo_packet_ok(4) _ _ _ run this]
  show ?thesis using demo_packet_ok(2) demo_packet_state_ok(3,6) by auto
qed

subsection \<open>Messages that are not encrypted\<close>

text \<open>C23. Messages that are not encrypted are processed too.  Outside a handshake, a packet with key id 0 whose body is any object
  the client can read reaches \<open>processServerResponse\<close> like an authentic one: nothing about such a packet is checked but
  its length and that its id is new.\<close>

theorem plain_message_processed:
  assumes "nbb_ok b" and "storage_ok (ps_pool s)" and "\<not> pe_isHandshaking env"
    and "ahead b = long_bytes 0 @ long_bytes messageId @ int_bytes len @ incoming_wire x @ rest" and "48 < length (ahead b) - 8"
    and "allowsCustomPadding env \<or> unat len = length (incoming_wire x @ rest)"
    and "incoming_wf (pe_requests env) (pe_requests env messageId) x" and "nesting x \<le> pe_depth env"
    and "\<not> isMessageIdProcessed messageId (ps_session s)"
  shows "\<exists>s'. onConnectionDataReceived F env b (word_of_nat (length (ahead b))) s = Some s' \<and>
    processServerResponse x messageId 0 0 \<in> set (new_calls s s')"
proof -
  let ?s = "now_connected env s" and ?len = "word_of_nat (length (ahead b)) :: u32"
  let ?xs = "long_bytes messageId @ int_bytes len @ incoming_wire x @ rest"
  have "length (ahead b) < 2 ^ 31" using length_ahead [OF assms(1)] nbb_okD [OF assms(1)] by simp
  then have l: "unat ?len = length (ahead b)" by (rule unat_len)
  have xs: "48 < length ?xs" using assms(4,5) by simp
  obtain d where d: "onConnectionDataReceived F env b ?len s = plain_packet env d ?s" "stream_ok d" "\<not> is_error d" "is_pool d = ps_pool s"
      "ahead (is_buf d) = ?xs"
    using packet_start [OF assms(1,2,4) l xs, of F env] by auto
  obtain d1 where 1: "readInt64 d = Some (messageId, d1)" "stream_ok d1" "\<not> is_error d1" "ahead (is_buf d1) = int_bytes len @ incoming_wire x @ rest"
    using parses_step [OF parses_readInt64 d(2,5,3)] by blast
  obtain d2 where 2: "readUint32 d1 = Some (len, d2)" "stream_ok d2" "\<not> is_error d2" "ahead (is_buf d2) = incoming_wire x @ rest"
    using parses_step [OF parses_readUint32 1(2,4,3)] by blast
  obtain d3 where 3: "TLdeserialize (pe_depth env) (pe_requests env) (pe_requests env messageId) len d2 = Some (Some x, d3)"
    using parses_step [OF TLdeserialize_parses [OF assms(7,8)] 2(2,4,3)] by blast
  have rem: "allowsCustomPadding env \<or> len = remaining (is_buf d2)"
  proof -
    have "unat (remaining (is_buf d2)) = length (incoming_wire x @ rest)" using 2(2,4) unat_remaining [of "is_buf d2"] by (simp add: stream_ok_def)
    then show ?thesis using assms(6) by (metis word_unat_eq_iff)
  qed
  obtain cs where cs: "ps_calls ?s = ps_calls s @ cs" using now_connected_calls by blast
  then show ?thesis using d(1) 1(1,3) 2(1,3) 3 assms(3,9) rem
    by (auto simp: plain_packet_def Let_def new_calls_def)
qed

definition demo_plain_packet :: NativeByteBuffer where
  "demo_plain_packet = NativeByteBuffer_slice (long_bytes 0 @ long_bytes 41 @ int_bytes 76 @ incoming_wire demo_reply) 96"

theorem plain_message_processed_witness:
  "\<exists>s'. onConnectionDataReceived demo_crypto demo_packet_env demo_plain_packet 96 demo_packet_state = Some s' \<and>
     processServerResponse demo_reply 41 0 0 \<in> set (new_calls demo_packet_state s')"
proof -
  have len: "length (incoming_wire demo_reply) = 76" by (simp add: demo_reply_def TL_pong_wire_def TL_pong_params_def)
  have b: "nbb_ok demo_plain_packet" "ahead demo_plain_packet = long_bytes 0 @ long_bytes 41 @ int_bytes 76 @ incoming_wire demo_reply @ []"
    using len by (simp_all add: demo_plain_packet_def nbb_ok_def NativeByteBuffer_slice_def ahead_def)
  have w: "incoming_wf (pe_requests demo_packet_env) (pe_requests demo_packet_env 41) demo_reply" "nesting demo_reply \<le> pe_depth demo_packet_env"
    using demo_reply_ok by (simp_all add: demo_packet_env_def demo_requests_def)
  have l: "length (ahead demo_plain_packet) = 96" using b(2) len by simp
  show ?thesis
    using plain_message_processed [OF b(1) demo_packet_state_ok(7,8) b(2) _ disjI1 [OF demo_packet_state_ok(9)] w demo_packet_state_ok(10), of demo_crypto] l
    by simp
qed

end
