(* ===== verification/Connection_Reassembly.thy ===== *)
theory Connection_Reassembly
  imports Connection_Frames Cipher_Modes
begin

unbundle bit_operations_syntax

section \<open>Packets arrive whole and in order\<close>

text \<open>
  Calls of \<open>onReceivedData\<close> in sequence, with the data cut anywhere: what the calls deliver are the packets of the
  stream.  The lemmas on sequences of calls are proved for any \<open>stream_cipher\<close>.  A quick acknowledgement cut in two by
  the network is the exception: the connection then delivers nothing any more.
\<close>

subsection \<open>Joining what was kept with new data\<close>

lemma rewind_wrote:
  assumes "nbb_ok r" and "length ys = room r"
  shows "nbb_ok (rewind (wrote ys r))" and "ahead (rewind (wrote ys r)) = behind r @ ys" and "nb_position (rewind (wrote ys r)) = 0"
    and "nb_limit (rewind (wrote ys r)) = nb_limit r"
proof -
  note d = nbb_okD [OF assms(1)]
  have f: "unat (nb_position r) + length ys = unat (nb_limit r)" using assms(2) d by (simp add: room_def)
  note w = wrote_ok [OF assms(1), of ys]
  show "nb_position (rewind (wrote ys r)) = 0" "nb_limit (rewind (wrote ys r)) = nb_limit r"
    by (simp_all add: rewind_def wrote_def)
  show "nbb_ok (rewind (wrote ys r))" using w(1) f by (simp add: rewind_def nbb_ok_def)
  have "unat (nb_position (wrote ys r)) = unat (nb_limit r)" using w(3) f by simp
  then have "ahead (rewind (wrote ys r)) = behind (wrote ys r)" using w(4) f by (simp add: ahead_def behind_def rewind_def)
  then show "ahead (rewind (wrote ys r)) = behind r @ ys" using behind_wrote [OF assms(1)] assms(2) by simp
qed

lemma length_behind: "nbb_ok r \<Longrightarrow> length (behind r) = unat (nb_position r)"
  using nbb_okD [of r] by (simp add: behind_def)

definition arriving :: "'k Receiving \<Rightarrow> byte list \<Rightarrow> bool" where
  "arriving s ys \<longleftrightarrow> rv_buffer s = Argument \<and> \<not> rv_parseLater s \<and> rv_events s = [] \<and> nbb_ok (rv_argument s) \<and>
     nb_position (rv_argument s) = 0 \<and> ahead (rv_argument s) = ys \<and> ys \<noteq> [] \<and> length ys < 2 ^ 30"

definition same :: "'k Receiving \<Rightarrow> 'k Receiving \<Rightarrow> bool" where
  "same s s' \<longleftrightarrow> rv_events s' = rv_events s \<and> cn_currentProtocolType s' = cn_currentProtocolType s \<and>
     cn_decrypt s' = cn_decrypt s \<and> nb_capacity (rv_argument s') = nb_capacity (rv_argument s)"

definition rewound :: "'k Receiving \<Rightarrow> 'k Receiving option" where
  "rewound s = do { b \<leftarrow> buffer s; Some (set_buffer (rewind b) s) }"

lemma join_header:
  assumes s: "arriving s ys" and h: "holding s xs" and r: "cn_restOfTheData s = Some r" and l: "cn_lastPacketLength s = 0"
  shows "\<exists>s' s'' r''. join_rest E s = Some (Inr s') \<and> rewound s' = Some s'' \<and> good s'' \<and> in_rest s'' (xs @ ys) \<and> same s s'' \<and>
    cn_restOfTheData s'' = Some r'' \<and> nb_capacity r \<le> nb_capacity r''"
proof -
  let ?b = "rv_argument s"
  have b: "nbb_ok ?b" "nb_position ?b = 0" "ahead ?b = ys" "ys \<noteq> []" "rv_buffer s = Argument" "\<not> rv_parseLater s" "length ys < 2 ^ 30"
    using s by (auto simp: arriving_def)
  have k: "nbb_ok r" "behind r = xs" "nb_position r = nb_limit r" "length xs < 4" "xs \<noteq> []" and st: "storage_ok (cn_pool s)"
    using h r l by (auto simp: holding_def)
  note d = nbb_okD [OF k(1)] and e = nbb_okD [OF b(1)]
  have lb: "unat (nb_limit ?b) = length ys" using length_ahead [OF b(1)] b(2,3) by simp
  have lx: "unat (nb_position r) = length xs" using length_behind [OF k(1)] k(2) by simp
  note mb = moved_ok(1) [OF b(1), of "length ys"]
  show ?thesis
  proof (cases "nb_capacity r - nb_position r \<ge> nb_limit ?b")
    case True
    have sub: "unat (nb_capacity r - nb_position r) = unat (nb_capacity r) - length xs"
      using d lx by (simp add: unat_sub word_le_nat_alt)
    then have fits: "length xs + length ys \<le> unat (nb_capacity r)" using True lb d lx by (simp add: word_le_nat_alt)
    have q: "unat (nb_position r + nb_limit ?b) = length xs + length ys" using fits lx lb d by (simp add: unat_word_ariths)
    let ?r = "limit_set (nb_position r + nb_limit ?b) r"
    have re: "?r = r\<lparr>nb_limit := nb_position r + nb_limit ?b\<rparr>"
      using q fits lx by (simp add: limit_set_def word_less_nat_alt)
    have ok: "nbb_ok ?r" "room ?r = length ys" "behind ?r = xs"
      using d q lx k(2) fits by (simp_all add: re nbb_ok_def room_def behind_def word_le_nat_alt)
    have w: "writeBytes_buffer ?b ?r = Some (moved (length ys) ?b, wrote ys ?r)"
      using writeBytes_buffer_ok [OF b(1) ok(1)] b(3) ok(2) by simp
    let ?s' = "s\<lparr>cn_restOfTheData := Some (wrote ys ?r), rv_argument := moved (length ys) ?b, rv_buffer := Rest\<rparr>"
    let ?s'' = "?s'\<lparr>cn_restOfTheData := Some (rewind (wrote ys ?r))\<rparr>"
    have "join_rest E s = Some (Inr ?s')" using r l True w by (simp add: join_rest_def)
    moreover have "rewound ?s' = Some ?s''" by (simp add: rewound_def buffer_def set_buffer_def)
    moreover have "good ?s''" "in_rest ?s'' (xs @ ys)"
      using rewind_wrote [OF ok(1), of ys] ok(2,3) st mb b l by (simp_all add: good_def in_rest_def)
    moreover have "nb_capacity (rewind (wrote ys ?r)) = nb_capacity r" by (simp add: re rewind_def wrote_def)
    ultimately show ?thesis by (intro exI [of _ ?s'] exI [of _ ?s''] exI [of _ "rewind (wrote ys ?r)"]) (simp add: same_def)
  next
    case False
    let ?n = "nb_limit r + nb_limit ?b"
    have n: "unat ?n = length xs + length ys" using lx lb k(3,4) b(7) by (simp add: unat_word_ariths)
    have small: "unat ?n < 2 ^ 31" using n k(4) b(7) by simp
    obtain q pool where g: "getFreeBuffer E ?n (cn_pool s) = (q, pool)" by fastforce
    note z = storage.get_ready [OF st small g] storage.get_ok [OF st small g]
    have rr: "nbb_ok (rewind r)" "ahead (rewind r) = xs"
      using d k(2,3) by (simp_all add: rewind_def nbb_ok_def ahead_def behind_def word_le_nat_alt)
    have l1: "length (ahead (rewind r)) \<le> unat ?n" using n rr(2) by simp
    note y = kept_bytes [OF z(1) rr(1) l1, unfolded rr(2)]
    have room: "room (wrote xs q) = length ys" using y(2,3) n length_behind [OF y(1)] by (simp add: room_def)
    have w: "writeBytes_buffer ?b (wrote xs q) = Some (moved (length ys) ?b, wrote ys (wrote xs q))"
      using writeBytes_buffer_ok [OF b(1) y(1)] b(3) room by simp
    let ?p = "reuse (moved (length xs) (rewind r)) pool"
    let ?s' = "s\<lparr>cn_restOfTheData := Some (wrote ys (wrote xs q)), cn_pool := ?p, rv_argument := moved (length ys) ?b, rv_buffer := Rest\<rparr>"
    let ?s'' = "?s'\<lparr>cn_restOfTheData := Some (rewind (wrote ys (wrote xs q)))\<rparr>"
    have "join_rest E s = Some (Inr ?s')" using r l False g y(4) w by (simp add: join_rest_def)
    moreover have "rewound ?s' = Some ?s''" by (simp add: rewound_def buffer_def set_buffer_def)
    moreover have "storage_ok ?p" using storage.give_ok [OF z(2) moved_ok(1) [OF rr(1)]] rr(2) by simp
    then have "good ?s''" "in_rest ?s'' (xs @ ys)"
      using rewind_wrote [OF y(1), of ys] room y(2) mb b l by (simp_all add: good_def in_rest_def)
    moreover have "unat (nb_capacity r) \<le> unat (nb_capacity (rewind (wrote ys (wrote xs q))))"
    proof -
      have "unat (nb_capacity r) < length xs + length ys"
        using False d lx lb by (simp add: word_le_nat_alt unat_sub not_le)
      then show ?thesis using nbb_okD [OF y(1)] y(3) n by (simp add: rewind_def wrote_def)
    qed
    ultimately show ?thesis
      by (intro exI [of _ ?s'] exI [of _ ?s''] exI [of _ "rewind (wrote ys (wrote xs q))"]) (simp add: same_def word_le_nat_alt)
  qed
qed

lemma limited:
  assumes "nbb_ok b" and "nb_position b = 0" and "n \<le> length (ahead b)"
  shows "nbb_ok (limit_set (word_of_nat n) b)" and "ahead (limit_set (word_of_nat n) b) = take n (ahead b)"
    and "limit_set (nb_limit b) (moved n (limit_set (word_of_nat n) b)) = moved n b"
proof -
  note d = nbb_okD [OF assms(1)]
  have l: "n \<le> unat (nb_limit b)" using assms length_ahead by simp
  then have n: "unat (word_of_nat n :: u32) = n" using d by (intro unat_len) simp
  have e: "limit_set (word_of_nat n) b = b\<lparr>nb_limit := word_of_nat n\<rparr>"
    using n l d assms(2) by (simp add: limit_set_def word_less_nat_alt)
  show "nbb_ok (limit_set (word_of_nat n) b)" using d n l assms(2) by (simp add: e nbb_ok_def word_le_nat_alt)
  show "ahead (limit_set (word_of_nat n) b) = take n (ahead b)" using n l assms(2) by (simp add: e ahead_def min_def)
  show "limit_set (nb_limit b) (moved n (limit_set (word_of_nat n) b)) = moved n b"
    using n l d assms(2) by (simp add: e limit_set_def moved_def word_less_nat_alt)
qed

lemma parsing_completed: "good s \<Longrightarrow> completed s q ys \<Longrightarrow> xs = frame (cn_currentProtocolType s) q @ ys \<Longrightarrow> parsing s xs"
  by (auto simp: parsing_def)

text \<open>More of a packet whose length is known.\<close>

lemma join_part:
  assumes s: "arriving s ys" and r: "cn_restOfTheData s = Some r" "nbb_ok r" "nb_limit r = cn_lastPacketLength s"
    and l: "cn_lastPacketLength s \<noteq> 0"
  defines "n \<equiv> min (room r) (length ys)"
  defines "s1 \<equiv> s\<lparr>cn_restOfTheData := Some (wrote (take n ys) r), rv_argument := moved n (rv_argument s)\<rparr>"
  shows "join_rest E s = Some (if room r \<le> length ys
      then Inr (s1\<lparr>rv_parseLater := hasRemaining (moved n (rv_argument s)), rv_buffer := Rest\<rparr>) else Inl s1)"
    and "nbb_ok (moved n (rv_argument s))" and "ahead (moved n (rv_argument s)) = drop n ys"
    and "nbb_ok (wrote (take n ys) r)" and "nb_limit (wrote (take n ys) r) = cn_lastPacketLength s"
    and "behind (wrote (take n ys) r) = behind r @ take n ys"
proof -
  let ?b = "rv_argument s"
  have b: "nbb_ok ?b" "nb_position ?b = 0" "ahead ?b = ys" using s by (auto simp: arriving_def)
  note d = nbb_okD [OF r(2)] and lim = limited [OF b(1,2), of n]
  have lb: "unat (nb_limit ?b) = length ys" using length_ahead [OF b(1)] b(2,3) by simp
  have sub: "unat (cn_lastPacketLength s - nb_position r) = room r"
    using d r(3) by (simp add: room_def unat_sub word_le_nat_alt)
  have "cn_lastPacketLength s - nb_position r = word_of_nat (room r)" "nb_limit ?b = word_of_nat (length ys)"
    using arg_cong [OF sub, of "word_of_nat :: nat \<Rightarrow> u32"] arg_cong [OF lb, of "word_of_nat :: nat \<Rightarrow> u32"] by simp_all
  then have len: "(if cn_lastPacketLength s - nb_position r \<le> nb_limit ?b then cn_lastPacketLength s - nb_position r else nb_limit ?b) = word_of_nat n"
    using sub lb by (simp add: n_def word_le_nat_alt min_def)
  have w: "writeBytes_buffer (limit_set (word_of_nat n) ?b) r = Some (moved n (limit_set (word_of_nat n) ?b), wrote (take n ys) r)"
    using writeBytes_buffer_ok [OF lim(1) r(2)] lim(2) b(3) by (simp add: n_def)
  have le: "unat (nb_position r) + length (take n ys) \<le> unat (nb_limit r)" using d by (simp add: n_def room_def)
  note wr = wrote_ok [OF r(2) le]
  show "nbb_ok (moved n ?b)" "ahead (moved n ?b) = drop n ys" using moved_ok(1,2) [OF b(1), of n] b(3) by (simp_all add: n_def)
  show "nbb_ok (wrote (take n ys) r)" "nb_limit (wrote (take n ys) r) = cn_lastPacketLength s" using wr r(3) by simp_all
  show "behind (wrote (take n ys) r) = behind r @ take n ys" using behind_wrote [OF r(2), of "take n ys"] by (simp add: n_def)
  have home: "limit_set (nb_limit ?b) (moved n (limit_set (word_of_nat n) ?b)) = moved n ?b" using lim(3) b(3) by (simp add: n_def)
  have "nb_position (wrote (take n ys) r) = cn_lastPacketLength s \<longleftrightarrow> room r \<le> length ys"
    using wr(3) d r(3) by (auto simp: word_unat_eq_iff n_def room_def)
  then show "join_rest E s = Some (if room r \<le> length ys
      then Inr (s1\<lparr>rv_parseLater := hasRemaining (moved n (rv_argument s)), rv_buffer := Rest\<rparr>) else Inl s1)"
    using r l len w home by (simp add: join_rest_def Let_def s1_def)
qed

lemma same_length:
  assumes "packet_ok t p" and "packet_ok t q" and "frame t p = xs @ zs" and "length (frame_head t (length p)) \<le> length xs"
    and "xs @ ys = frame t q @ us \<or> frame t q = xs @ ys"
  shows "length p = length q"
proof -
  obtain vs where "xs = frame_head t (length p) @ vs" using assms(3,4) by (auto simp: frame_def append_eq_append_conv2)
  then have "\<exists>us vs. frame_head t (length p) @ us = frame_head t (length q) @ vs" using assms(5) by (metis append.assoc frame_def)
  then show ?thesis using head_length [OF assms(1,2)] by blast
qed

lemma join_packet:
  assumes s: "arriving s ys" and h: "holding s xs" and r: "cn_restOfTheData s = Some r" and l: "cn_lastPacketLength s \<noteq> 0"
    and x: "xs @ ys = stream (cn_currentProtocolType s) ps @ tail" and t: "begun (cn_currentProtocolType s) tail"
    and ok: "\<forall>p \<in> set ps. packet_ok (cn_currentProtocolType s) p"
  shows "(\<exists>s' s''. join_rest E s = Some (Inr s') \<and> rewound s' = Some s'' \<and> parsing s'' (xs @ ys) \<and> same s s'') \<or>
    (\<exists>s'. join_rest E s = Some (Inl s') \<and> ps = [] \<and> holding s' tail \<and> nbb_ok (rv_argument s') \<and> same s s')"
proof -
  let ?b = "rv_argument s" and ?t = "cn_currentProtocolType s"
  have b: "nbb_ok ?b" "nb_position ?b = 0" "ahead ?b = ys" "ys \<noteq> []" "rv_buffer s = Argument" "\<not> rv_parseLater s" "length ys < 2 ^ 30"
    using s by (auto simp: arriving_def)
  obtain p zs where k: "nbb_ok r" "behind r = xs" "xs \<noteq> []" "nb_limit r = cn_lastPacketLength s" "packet_ok ?t p"
      "frame ?t p = xs @ zs" "zs \<noteq> []" "length (frame_head ?t (length p)) \<le> length xs"
      "cn_lastPacketLength s = word_of_nat (length (frame ?t p))" and st: "storage_ok (cn_pool s)"
    using h r l by (auto simp: holding_def simp del: of_nat_add)
  have lx: "unat (nb_position r) = length xs" using length_behind [OF k(1)] k(2) by simp
  have L: "unat (cn_lastPacketLength s) = length xs + length zs"
    using frame_length(3) [OF k(5)] k(9) by (simp add: k(6))
  have rm: "room r = length zs" using k(4) L lx by (simp add: room_def)
  define n where "n = min (length zs) (length ys)"
  let ?b' = "moved n ?b" and ?r' = "wrote (take n ys) r"
  let ?s1 = "s\<lparr>cn_restOfTheData := Some ?r', rv_argument := ?b'\<rparr>"
  note j = join_part [OF s r k(1,4) l, unfolded rm, folded n_def]
  show ?thesis
  proof (cases ps)
    case (Cons q qs)
    have q: "packet_ok ?t q" using ok Cons by simp
    have sl: "xs @ ys = frame ?t q @ stream ?t qs @ tail" using x Cons by simp
    have "length p = length q" using same_length [OF k(5) q k(6,8)] sl by blast
    then have lq: "length (frame ?t q) = length xs + length zs"
      using arg_cong [OF k(6), of length] by (simp add: frame_def)
    then have zy: "length zs \<le> length ys" using arg_cong [OF sl, of length] by simp
    then have n: "n = length zs" by (simp add: n_def)
    have fq: "frame ?t q = xs @ take n ys" "stream ?t qs @ tail = drop n ys"
    proof -
      have "frame ?t q = take (length (frame ?t q)) (xs @ ys)" using sl by simp
      then show "frame ?t q = xs @ take n ys" using lq n by simp
      have "stream ?t qs @ tail = drop (length (frame ?t q)) (xs @ ys)" using sl by simp
      then show "stream ?t qs @ tail = drop n ys" using lq n by simp
    qed
    let ?s' = "?s1\<lparr>rv_parseLater := hasRemaining ?b', rv_buffer := Rest\<rparr>"
    let ?s'' = "?s'\<lparr>cn_restOfTheData := Some (rewind ?r')\<rparr>"
    have "room r = length (take n ys)" using rm n by (simp add: n_def)
    note rr = rewind_wrote [OF k(1) this [symmetric]]
    have "completed ?s'' q (drop n ys)"
      using rr q fq(1) k(2,4) j(2,3) hasRemaining_ahead [OF j(2)] by (simp add: completed_def)
    moreover have "xs @ ys = frame (cn_currentProtocolType ?s'') q @ drop n ys" using fq(1) by simp
    ultimately have "parsing ?s'' (xs @ ys)"
      using j(2) st by (intro parsing_completed) (simp_all add: good_def)
    moreover have "rewound ?s' = Some ?s''" by (simp add: rewound_def buffer_def set_buffer_def)
    ultimately show ?thesis using j(1) zy by (auto simp: same_def)
  next
    case Nil
    have tl: "xs @ ys = tail" using x Nil by simp
    obtain q us where q: "packet_ok ?t q" "frame ?t q = tail @ us" "us \<noteq> []" using t k(3) tl by (auto simp: begun_def)
    have pq: "length p = length q" using same_length [OF k(5) q(1) k(6,8), of "ys @ us"] q(2) tl by auto
    then have "length (xs @ ys) + length us = length xs + length zs"
      using arg_cong [OF k(6), of length] arg_cong [OF q(2), of length] tl by (simp add: frame_def)
    then have lt: "length ys < length zs" using q(3) by (cases us) simp_all
    then have n: "n = length ys" by (simp add: n_def)
    then have go: "join_rest E s = Some (Inl ?s1)" using j(1) lt by simp
    have f: "behind ?r' = tail" "tail \<noteq> []" using j(6) k(2) n tl k(3) by auto
    have g: "length (frame_head ?t (length q)) \<le> length tail" using k(8) pq unfolding tl [symmetric] by simp
    have w: "cn_lastPacketLength s = word_of_nat (length (frame ?t q))" using k(9) pq by (simp add: frame_def)
    have "holding ?s1 tail"
    proof (rule holding_packet [where r = ?r' and p = q and zs = us])
      show "cn_lastPacketLength ?s1 = word_of_nat (length (frame (cn_currentProtocolType ?s1) q))" using w by simp
    qed (use j(4,5) q f g st in simp_all)
    with go have "join_rest E s = Some (Inl ?s1)" "holding ?s1 tail" by simp_all
    then show ?thesis using Nil j(2) by (auto simp: same_def)
  qed
qed

lemma join_any:
  assumes s: "arriving s ys" and h: "holding s xs"
    and x: "xs @ ys = stream (cn_currentProtocolType s) ps @ tail" and t: "begun (cn_currentProtocolType s) tail"
    and ok: "\<forall>p \<in> set ps. packet_ok (cn_currentProtocolType s) p"
  shows "(\<exists>s' s''. join_rest E s = Some (Inr s') \<and> rewound s' = Some s'' \<and> parsing s'' (xs @ ys) \<and> same s s'') \<or>
    (\<exists>s'. join_rest E s = Some (Inl s') \<and> ps = [] \<and> holding s' tail \<and> nbb_ok (rv_argument s') \<and> same s s')"
proof (cases "cn_restOfTheData s")
  case None
  then have "xs = []" "storage_ok (cn_pool s)" using h by (auto simp: holding_def)
  moreover have "rewind (rv_argument s) = rv_argument s" using s by (simp add: arriving_def rewind_def)
  ultimately have "rewound s = Some s" "parsing s (xs @ ys)"
    using s None by (auto simp: rewound_def buffer_def set_buffer_def arriving_def parsing_def good_def in_argument_def)
  then show ?thesis using None by (auto simp: join_rest_def same_def)
next
  case (Some r)
  then show ?thesis using join_header [OF s h Some, of E] join_packet [OF s h Some _ x t ok, of E]
    by (cases "cn_lastPacketLength s = 0") (auto simp: parsing_def)
qed

text \<open>One call.\<close>

lemma holding_cong:
  "cn_pool c' = cn_pool c \<Longrightarrow> cn_restOfTheData c' = cn_restOfTheData c \<Longrightarrow> cn_lastPacketLength c' = cn_lastPacketLength c \<Longrightarrow>
   cn_currentProtocolType c' = cn_currentProtocolType c \<Longrightarrow> holding c' xs = holding c xs"
  unfolding holding_def by (simp only:)

lemma truncate_frame [simp]:
  "cn_currentProtocolType (Connection.truncate s) = cn_currentProtocolType s" "cn_decrypt (Connection.truncate s) = cn_decrypt s"
  "holding (Connection.truncate s) xs = holding s xs"
  by (simp_all add: Connection.truncate_def, rule holding_cong) simp_all

lemma whole_slice:
  "nbb_ok b \<Longrightarrow> nb_position b = 0 \<Longrightarrow> slice (nb_buffer b) 0 (uint (nb_limit b)) = Some (ahead b)"
  using slice_uint [of "nb_buffer b" 0 "nb_limit b"] nbb_okD [of b] by (simp add: ahead_def)

lemma extend_arriving:
  fixes c :: "'k Connection" and k :: 'k
  assumes b: "nbb_ok b" "nb_position b = 0" "ahead b = cs" "cs \<noteq> []" "length cs < 2 ^ 30" and y: "length ys = length cs"
  defines "b' \<equiv> b\<lparr>nb_buffer := ys @ drop (length ys) (nb_buffer b)\<rparr>" and "c' \<equiv> c\<lparr>cn_decrypt := k, cn_failedConnectionCount := 0\<rparr>"
  defines "s \<equiv> Connection.extend c' (Receiving.fields b' Argument False [])"
  shows "arriving s ys" and "nb_capacity (rv_argument s) = nb_capacity b"
    and "cn_pool s = cn_pool c" and "cn_restOfTheData s = cn_restOfTheData c" and "cn_lastPacketLength s = cn_lastPacketLength c"
    and "cn_currentProtocolType s = cn_currentProtocolType c" and "cn_decrypt s = k" and "rv_events s = []"
proof -
  note d = nbb_okD [OF b(1)]
  have lb: "unat (nb_limit b) = length cs" using length_ahead [OF b(1)] b(2,3) by simp
  have bb: "nbb_ok b'" "ahead b' = ys" "nb_position b' = 0" unfolding b'_def using d b(1,2) lb y by (auto simp: nbb_ok_def ahead_def)
  then show "arriving s ys" using b(4,5) y by (auto simp: arriving_def s_def Connection.extend_def Receiving.fields_def)
qed (simp_all add: s_def c'_def b'_def Connection.extend_def Receiving.fields_def)

lemma onReceivedData_ok:
  assumes b: "nbb_ok b" "nb_position b = 0" "ahead b = cs" "cs \<noteq> []" "length cs < 2 ^ 30"
    and k: "crypt (cn_decrypt c) cs = (ys, k)" "length ys = length cs"
    and h: "holding c xs" and x: "xs @ ys = stream (cn_currentProtocolType c) ps @ tail" and t: "begun (cn_currentProtocolType c) tail"
    and ok: "\<forall>p \<in> set ps. packet_ok (cn_currentProtocolType c) p \<and> \<not> drops p"
  shows "\<exists>c' b' es. onReceivedData crypt E n drops b c = Some (c', b', es) \<and> holding c' tail \<and> nbb_ok b' \<and> delivered es = ps \<and>
    cn_currentProtocolType c' = cn_currentProtocolType c \<and> cn_decrypt c' = k \<and> nb_capacity b' = nb_capacity b"
proof -
  let ?b = "b\<lparr>nb_buffer := ys @ drop (length ys) (nb_buffer b)\<rparr>"
  let ?c = "c\<lparr>cn_decrypt := k, cn_failedConnectionCount := 0\<rparr>"
  let ?s = "Connection.extend ?c (Receiving.fields ?b Argument False [])"
  note e = extend_arriving [where c = c and k = k, OF b k(2)]
  have sl: "slice (nb_buffer b) 0 (uint (nb_limit b)) = Some cs" using whole_slice [OF b(1,2)] b(3) by simp
  have s: "holding ?s xs" using holding_cong [of ?s c xs] e(3-6) h by simp
  have x': "xs @ ys = stream (cn_currentProtocolType ?s) ps @ tail" "begun (cn_currentProtocolType ?s) tail"
    and ok': "\<forall>p \<in> set ps. packet_ok (cn_currentProtocolType ?s) p" using x t ok e(6) by simp_all
  from join_any [OF e(1) s x' ok', of E] consider
      (go) s' s'' where "join_rest E ?s = Some (Inr s')" "rewound s' = Some s''" "parsing s'' (xs @ ys)" "same ?s s''"
    | (stop) s' where "join_rest E ?s = Some (Inl s')" "ps = []" "holding s' tail" "nbb_ok (rv_argument s')" "same ?s s'" by blast
  then show ?thesis
  proof cases
    case go
    have "cn_currentProtocolType s'' = cn_currentProtocolType c" "cn_decrypt s'' = k" "rv_events s'' = []" "nb_capacity (rv_argument s'') = nb_capacity b"
      using go(4) e(2,6,7,8) by (simp_all add: same_def)
    then obtain z where "recv_loop E n drops s'' = Some z" "holding z tail" "nbb_ok (rv_argument z)" "delivered (rv_events z) = ps"
        "cn_currentProtocolType z = cn_currentProtocolType c" "cn_decrypt z = k" "nb_capacity (rv_argument z) = nb_capacity b"
      using recv_loop_stream [of s'' ps tail drops E n] go(3) x t ok by auto
    then show ?thesis using go(1,2) sl k(1) by (auto simp: onReceivedData_def rewound_def split: Option.bind_splits)
  next
    case stop
    show ?thesis using stop e(2,6,7,8) sl k(1) by (auto simp: onReceivedData_def same_def)
  qed
qed

subsection \<open>Data in pieces\<close>

text \<open>\<open>buffer->rewind(); readCount = recv(socketFd, buffer->bytes(), READ_BUFFER_SIZE, 0); buffer->limit(readCount)\<close> when
  \<open>recv\<close> gives the bytes \<open>xs\<close>.\<close>

definition recv_into :: "byte list \<Rightarrow> NativeByteBuffer \<Rightarrow> NativeByteBuffer" where
  "recv_into xs b = limit_set (word_of_nat (length xs)) ((rewind b)\<lparr>nb_buffer := xs @ drop (length xs) (nb_buffer b)\<rparr>)"

text \<open>A sequence of such calls, each handed to \<open>onReceivedData\<close>.\<close>

fun receive :: "('k \<Rightarrow> byte list \<Rightarrow> byte list \<times> 'k) \<Rightarrow> mem_env \<Rightarrow> network \<Rightarrow> (byte list \<Rightarrow> bool) \<Rightarrow> byte list list \<Rightarrow>
    NativeByteBuffer \<Rightarrow> 'k Connection \<Rightarrow> ('k Connection \<times> NativeByteBuffer \<times> recv_event list) option" where
  "receive crypt E n drops [] b c = Some (c, b, [])"
| "receive crypt E n drops (xs # xss) b c = do {
     (c, b, es) \<leftarrow> onReceivedData crypt E n drops (recv_into xs b) c;
     (c, b, fs) \<leftarrow> receive crypt E n drops xss b c;
     Some (c, b, es @ fs)
   }"

lemma recv_into_ok:
  assumes "nbb_ok b" and "length xs \<le> unat (nb_capacity b)"
  shows "nbb_ok (recv_into xs b)" and "nb_position (recv_into xs b) = 0" and "ahead (recv_into xs b) = xs"
    and "nb_capacity (recv_into xs b) = nb_capacity b"
proof -
  note d = nbb_okD [OF assms(1)]
  have n: "unat (word_of_nat (length xs) :: u32) = length xs"
    using assms(2) d by (intro unat_len) simp
  have e: "recv_into xs b = b\<lparr>nb_position := 0, nb_buffer := xs @ drop (length xs) (nb_buffer b), nb_limit := word_of_nat (length xs)\<rparr>"
    using n assms(2) by (simp add: recv_into_def rewind_def limit_set_def word_less_nat_alt)
  show "nbb_ok (recv_into xs b)" using d n assms(2) by (simp add: e nbb_ok_def word_le_nat_alt)
  show "nb_position (recv_into xs b) = 0" "nb_capacity (recv_into xs b) = nb_capacity b" by (simp_all add: e)
  show "ahead (recv_into xs b) = xs" using n by (simp add: e ahead_def)
qed

lemma begun_prefix:
  assumes "begun t (xs @ ys)"
  shows "begun t xs"
proof (cases "xs @ ys = []")
  case False
  then obtain p zs where "packet_ok t p" "frame t p = xs @ ys @ zs" "zs \<noteq> []" using assms by (auto simp: begun_def)
  then show ?thesis by (auto simp: begun_def)
qed (simp add: begun_def)

lemma stream_prefix:
  assumes "stream t ps @ tail = xs @ ys" and "begun t tail" and "\<forall>p \<in> set ps. packet_ok t p"
  shows "\<exists>ps1 ps2 mid. ps = ps1 @ ps2 \<and> xs = stream t ps1 @ mid \<and> begun t mid \<and> mid @ ys = stream t ps2 @ tail"
  using assms
proof (induction ps arbitrary: xs)
  case Nil
  then show ?case using begun_prefix [of t xs ys] by auto
next
  case (Cons p ps)
  show ?case
  proof (cases "length xs < length (frame t p)")
    case True
    then obtain zs where "frame t p = xs @ zs" "zs \<noteq> []" using Cons.prems(1) by (auto simp: append_eq_append_conv2)
    then have "begun t xs" using Cons.prems(3) by (auto simp: begun_def)
    then show ?thesis using Cons.prems(1) by (intro exI [of _ "[]"] exI [of _ "p # ps"] exI [of _ xs]) simp
  next
    case False
    then obtain xs' where x: "xs = frame t p @ xs'" using Cons.prems(1) by (auto simp: append_eq_append_conv2)
    obtain ps1 ps2 mid where "ps = ps1 @ ps2" "xs' = stream t ps1 @ mid" "begun t mid" "mid @ ys = stream t ps2 @ tail"
      using Cons.IH [of xs'] Cons.prems x by auto
    then show ?thesis using x by (intro exI [of _ "p # ps1"] exI [of _ ps2] exI [of _ mid]) simp
  qed
qed

lemma begun_no_packet:
  assumes "begun t (stream t ps @ tail)" and "\<forall>p \<in> set ps. packet_ok t p"
  shows "ps = []"
proof (cases ps)
  case (Cons q qs)
  then obtain p zs where "packet_ok t p" "frame t p @ [] = frame t q @ stream t qs @ tail @ zs" "zs \<noteq> []" "packet_ok t q"
    using assms by (auto simp: begun_def)
  then show ?thesis using frame_unique [of t p q "[]"] by blast
qed simp

context stream_cipher
begin

lemma receive_ok:
  assumes "usable (cn_decrypt c)" and "nbb_ok b" and "\<forall>xs \<in> set xss. xs \<noteq> [] \<and> length xs \<le> unat (nb_capacity b)" and "unat (nb_capacity b) < 2 ^ 30"
    and "crypt (cn_decrypt c) (concat xss) = (ys, k)" and "holding c xs" and "begun (cn_currentProtocolType c) xs"
    and "xs @ ys = stream (cn_currentProtocolType c) ps @ tail"
    and "begun (cn_currentProtocolType c) tail" and "\<forall>p \<in> set ps. packet_ok (cn_currentProtocolType c) p \<and> \<not> drops p"
  shows "\<exists>c' b' es. receive crypt E n drops xss b c = Some (c', b', es) \<and> holding c' tail \<and> delivered es = ps \<and> nbb_ok b'"
  using assms
proof (induction xss arbitrary: c b xs ys ps)
  case Nil
  then have "xs = stream (cn_currentProtocolType c) ps @ tail" using crypt_length [of "cn_decrypt c" "[]"] by auto
  then show ?case using Nil begun_no_packet [of "cn_currentProtocolType c" ps tail] by auto
next
  case (Cons zs xss)
  let ?t = "cn_currentProtocolType c"
  obtain ys1 k1 ys2 where y: "crypt (cn_decrypt c) zs = (ys1, k1)" "crypt k1 (concat xss) = (ys2, k)" "ys = ys1 @ ys2"
      "length ys1 = length zs" "usable k1"
    using crypt_split [of "cn_decrypt c" zs "concat xss" ys k] Cons.prems(1,5) by auto
  have ok: "\<forall>p \<in> set ps. packet_ok ?t p" using Cons.prems(10) by blast
  obtain ps1 ps2 mid where s: "ps = ps1 @ ps2" "xs @ ys1 = stream ?t ps1 @ mid" "begun ?t mid" "mid @ ys2 = stream ?t ps2 @ tail"
    using stream_prefix [of ?t ps tail "xs @ ys1" ys2] Cons.prems(8,9) ok y(3) by auto
  have z: "zs \<noteq> []" "length zs \<le> unat (nb_capacity b)" "length zs < 2 ^ 30" using Cons.prems(3,4) by auto
  note r = recv_into_ok [OF Cons.prems(2) z(2)]
  obtain c1 b1 es where one: "onReceivedData crypt E n drops (recv_into zs b) c = Some (c1, b1, es)" "holding c1 mid" "nbb_ok b1"
      "delivered es = ps1" "cn_currentProtocolType c1 = ?t" "cn_decrypt c1 = k1" "nb_capacity b1 = nb_capacity b"
    using onReceivedData_ok [where E = E and n = n and drops = drops and crypt = crypt, OF r(1,2,3) z(1,3) y(1,4) Cons.prems(6) s(2,3)] Cons.prems(10) s(1) r(4) by auto
  obtain c2 b2 fs where "receive crypt E n drops xss b1 c1 = Some (c2, b2, fs)" "holding c2 tail" "delivered fs = ps2" "nbb_ok b2"
    using Cons.IH [of c1 b1 ys2 mid ps2] Cons.prems s y one by auto
  then show ?case using one s(1) by simp
qed

end

definition pending_bytes :: "('k, 'z) Connection_scheme \<Rightarrow> byte list" where
  "pending_bytes c = (case cn_restOfTheData c of None \<Rightarrow> [] | Some r \<Rightarrow> behind r)"

lemma holding_pending: "holding c xs \<Longrightarrow> pending_bytes c = xs"
  by (auto simp: holding_def pending_bytes_def split: option.splits)

text \<open>C1. Packets arrive whole and in order.  Whatever packets a server frames and encrypts, with the start of one more packet
  behind them, and however the network cuts that stream into non-empty reads that fit the socket's buffer, the calls of
  \<open>onReceivedData\<close> return without an access outside a buffer, hand over exactly these packets in their order, and keep exactly
  the bytes of the packet that has begun.  The packets are of the sizes the code accepts and their handlers keep the
  connection.\<close>

theorem packets_reassembled:
  assumes "cn_restOfTheData c = None" and "storage_ok (cn_pool c)" and "ctr_ok (cn_decrypt c)"
    and "nbb_ok b" and "unat (nb_capacity b) < 2 ^ 30" and "\<forall>xs \<in> set xss. xs \<noteq> [] \<and> length xs \<le> unat (nb_capacity b)"
    and "concat xss = fst (AES_ctr128_encrypt u' AES_encrypt (cn_decrypt c) (stream (cn_currentProtocolType c) ps @ tail))"
    and "begun (cn_currentProtocolType c) tail" and "\<forall>p \<in> set ps. packet_ok (cn_currentProtocolType c) p \<and> \<not> drops p"
  shows "\<exists>c' b' es. receive (AES_ctr128_encrypt u AES_encrypt) E n drops xss b c = Some (c', b', es) \<and>
    delivered es = ps \<and> pending_bytes c' = tail"
proof -
  let ?t = "cn_currentProtocolType c"
  have e: "AES_ctr128_encrypt u' AES_encrypt = AES_ctr128_encrypt u AES_encrypt"
    by (intro ext) (simp add: AES_ctr128_encrypt_def CRYPTO_ctr128_encrypt_bytes)
  obtain k where "AES_ctr128_encrypt u AES_encrypt (cn_decrypt c) (stream ?t ps @ tail) = (concat xss, k)"
    using assms(7) by (metis e prod.collapse)
  then have "AES_ctr128_encrypt u AES_encrypt (cn_decrypt c) (concat xss) = (stream ?t ps @ tail, k)" by (rule ctr.crypt_inverse)
  moreover have "holding c []" "begun ?t []" using assms(1,2) by (simp_all add: holding_def begun_def)
  ultimately obtain c' b' es where "receive (AES_ctr128_encrypt u AES_encrypt) E n drops xss b c = Some (c', b', es)"
      "holding c' tail" "delivered es = ps"
    using ctr.receive_ok [OF assms(3,4,6,5), of u AES_encrypt "stream ?t ps @ tail" k "[]" ps tail drops E n] assms(8,9) by auto
  then show ?thesis using holding_pending by blast
qed

definition demo_cipher :: "byte ctr_state" where
  "demo_cipher = \<lparr>ct_key = 0xa5, ct_ivec = replicate 16 0xff, ct_ecount_buf = replicate 16 0, ct_num = 0\<rparr>"

definition demo_connection :: "byte ctr_state Connection" where
  "demo_connection = \<lparr>cn_currentProtocolType = ProtocolTypeEF, cn_connectionType = 1, cn_restOfTheData = None, cn_lastPacketLength = 0,
     cn_failedConnectionCount = 0, cn_hasSomeDataSinceLastConnect = False, cn_isTryingNextPort = False, cn_forceNextPort = False,
     cn_timeout = 12, cn_decrypt = demo_cipher, cn_pool = BuffersStorage_new ample\<rparr>"

text \<open>Two packets and the start of a third one, in pieces of three bytes, with a cipher that adds the key and the
  place to the counter.\<close>

definition demo_AES :: "byte block128" where
  "demo_AES key xs i = xs ! i + key + word_of_nat i"

definition demo_packets :: "byte list list" where
  "demo_packets = [[1, 2, 3, 4], [5, 6, 7, 8, 9, 10, 11, 12]]"

definition demo_sent :: "byte list" where
  "demo_sent = fst (AES_ctr128_encrypt False demo_AES demo_cipher (stream ProtocolTypeEF demo_packets @ [1, 13]))"

definition demo_pieces :: "byte list list" where
  "demo_pieces = [take 3 demo_sent, take 3 (drop 3 demo_sent), take 3 (drop 6 demo_sent), drop 9 demo_sent]"

theorem packets_reassembled_witness:
  "\<exists>c' b' es. receive (AES_ctr128_encrypt False demo_AES) ample \<lparr>nt_slow = False, nt_available = True\<rparr> (\<lambda>_. False) demo_pieces (NativeByteBuffer_alloc ample 8) demo_connection =
     Some (c', b', es) \<and> delivered es = demo_packets \<and> pending_bytes c' = [1, 13]"
proof (rule packets_reassembled)
  show "cn_restOfTheData demo_connection = None" "storage_ok (cn_pool demo_connection)"
    by (simp_all add: demo_connection_def storage_ok_new)
  show "ctr_ok (cn_decrypt demo_connection)" by (simp add: demo_connection_def ctr_ok_def demo_cipher_def)
  let ?b = "NativeByteBuffer_alloc ample 8"
  show "nbb_ok ?b" "unat (nb_capacity ?b) < 2 ^ 30" by (simp_all add: alloc_ok)
  have "length (stream ProtocolTypeEF demo_packets @ [1, 13]) = 16" by (simp add: demo_packets_def frame_def frame_head_length)
  then have l: "length demo_sent = 16"
    using ctr.crypt_length [of demo_cipher False demo_AES "stream ProtocolTypeEF demo_packets @ [1, 13]" demo_sent]
    by (simp add: demo_sent_def ctr_ok_def demo_cipher_def prod_eq_iff)
  have p: "concat demo_pieces = demo_sent"
    using append_take_drop_id [of 3 "drop 3 demo_sent"] append_take_drop_id [of 3 "drop 6 demo_sent"] by (simp add: demo_pieces_def)
  then show "concat demo_pieces =
      fst (AES_ctr128_encrypt False demo_AES (cn_decrypt demo_connection) (stream (cn_currentProtocolType demo_connection) demo_packets @ [1, 13]))"
    by (simp add: demo_sent_def demo_connection_def)
  show "\<forall>xs \<in> set demo_pieces. xs \<noteq> [] \<and> length xs \<le> unat (nb_capacity ?b)" using l by (auto simp: demo_pieces_def)
  have "frame ProtocolTypeEF [13, 0, 0, 0] = [1, 13] @ [0, 0, 0]" by code_simp
  then show "begun (cn_currentProtocolType demo_connection) [1, 13]"
    unfolding begun_def by (intro disjI2 exI [of _ "[13, 0, 0, 0]"] exI [of _ "[0, 0, 0]"]) (simp add: demo_connection_def packet_ok_def)
  show "\<forall>p \<in> set demo_packets. packet_ok (cn_currentProtocolType demo_connection) p \<and> \<not> False"
    by (simp add: demo_packets_def packet_ok_def)
qed

subsection \<open>A quick acknowledgement cut in two\<close>

definition ack :: "byte list \<Rightarrow> bool" where
  "ack a \<longleftrightarrow> length a = 4 \<and> hd a AND push_bit 7 1 \<noteq> 0"

definition fits :: "nat \<Rightarrow> byte list \<Rightarrow> bool" where
  "fits m body \<longleftrightarrow> m \<le> 2 * 1024 * 1024 \<and> m mod 4 = 0 \<and> length body + 4 \<le> m"

text \<open>What is kept starts with an acknowledgement that was handled already, but its bytes count for the packet.\<close>

definition mixed :: "('k, 'z) Connection_scheme \<Rightarrow> bool" where
  "mixed c \<longleftrightarrow> cn_currentProtocolType c = ProtocolTypeEF \<and> storage_ok (cn_pool c) \<and>
     (\<exists>r a m body. cn_restOfTheData c = Some r \<and> nbb_ok r \<and> behind r = a @ frame_head ProtocolTypeEF m @ body \<and> ack a \<and> fits m body \<and>
        nb_limit r = cn_lastPacketLength c \<and> unat (cn_lastPacketLength c) = length (frame_head ProtocolTypeEF m) + m)"

lemma parses_readBigInt32:
  "parses readBigInt32 [x0, x1, x2, x3] (push_bit 24 (ucast x0) OR push_bit 16 (ucast x1) OR push_bit 8 (ucast x2) OR ucast x3)"
  unfolding parses_def
proof (intro allI impI)
  fix s ys
  assume s: "stream_ok s" "ahead (is_buf s) = [x0, x1, x2, x3] @ ys" "\<not> is_error s"
  then have "\<not> short 4 s" "nb_at (is_buf s) 0 = Some x0" "nb_at (is_buf s) 1 = Some x1" "nb_at (is_buf s) 2 = Some x2" "nb_at (is_buf s) 3 = Some x3"
    using shortD [of s 4] nb_at_ok [of "is_buf s" 0] nb_at_ok [of "is_buf s" 1] nb_at_ok [of "is_buf s" 2] nb_at_ok [of "is_buf s" 3]
    by (simp_all add: stream_ok_def)
  then show "readBigInt32 s = Some (push_bit 24 (ucast x0) OR push_bit 16 (ucast x1) OR push_bit 8 (ucast x2) OR ucast x3,
      advance (word_of_nat (length [x0, x1, x2, x3])) s)" by (simp add: readBigInt32_def)
qed

lemma recv_step_ack:
  assumes b: "buffer s = Some b" "nbb_ok b" and st: "storage_ok (cn_pool s)" and t: "cn_currentProtocolType s = ProtocolTypeEF"
    and a: "ack a" "ahead b = a @ ys"
  shows "\<exists>x. recv_step E n drops s = Some (Inr (event (onConnectionQuickAckReceived x) (set_buffer (moved 4 b) (first_data n s))))"
proof -
  obtain x0 x1 x2 x3 where x: "a = [x0, x1, x2, x3]" "x0 AND push_bit 7 1 \<noteq> 0"
    using a(1) by (auto simp: ack_def length_Suc_conv numeral_eq_Suc)
  let ?s = "first_data n s"
  have "read_buffer E readByte ?s = Some (x0, set_buffer (moved (Suc 0) b) ?s)"
    using read_buffer_parses [OF parses_readByte, of ?s b x0 "[x1, x2, x3] @ ys" E] b st a x by simp
  moreover have "position_set (nb_position b) (moved (Suc 0) b) = b" using a x b(2) by (intro position_back) simp_all
  moreover have "\<not> remaining b < 4" using unat_remaining [OF b(2)] a x by (simp add: word_less_nat_alt)
  moreover obtain v where "read_buffer E readBigInt32 ?s = Some (v, set_buffer (moved 4 b) ?s)"
    using read_buffer_parses [OF parses_readBigInt32, of ?s b x0 x1 x2 x3 ys E] b st a x by (simp add: numeral_eq_Suc)
  ultimately have "read_length_EF E (nb_position b) ?s =
      Some (Continue (event (onConnectionQuickAckReceived (v AND NOT (push_bit 31 1))) (set_buffer (moved 4 b) ?s)))"
    using b(1) x(2) by (simp add: read_length_EF_def Let_def)
  then show ?thesis using b(1) t by (auto simp: recv_step_def Let_def)
qed

lemma recv_loop_again:
  assumes r: "cn_restOfTheData s = Some r" "rv_buffer s = Rest" "nbb_ok r" "nb_position r = 0" and st: "storage_ok (cn_pool s)"
    and t: "cn_currentProtocolType s = ProtocolTypeEF" and a: "ack a" "ahead r = a @ frame_head ProtocolTypeEF m @ body" and f: "fits m body"
    and cap: "length (frame_head ProtocolTypeEF m) + m \<le> unat (nb_capacity r)"
  shows "\<exists>s'. recv_loop E n drops s = Some s' \<and> mixed s' \<and> delivered (rv_events s') = delivered (rv_events s) \<and>
    rv_argument s' = rv_argument s \<and> cn_decrypt s' = cn_decrypt s"
proof -
  let ?h = "length (frame_head ProtocolTypeEF m)" and ?p = "body @ replicate (m - length body) 0"
  have b: "buffer s = Some r" using r by (simp add: buffer_def)
  have p: "packet_ok ProtocolTypeEF ?p" "length ?p = m" "length body < length ?p" using f by (auto simp: fits_def packet_ok_def)
  have L: "length (frame ProtocolTypeEF ?p) = ?h + m" using p(2) by (simp add: frame_def)
  define w :: u32 where "w = word_of_nat (length (frame ProtocolTypeEF ?p))"
  have uL: "unat w = ?h + m" using frame_length(3) [OF p(1)] L by (simp only: w_def)
  obtain x where x: "recv_step E n drops s = Some (Inr (event (onConnectionQuickAckReceived x) (set_buffer (moved 4 r) (first_data n s))))"
    (is "_ = Some (Inr ?s1)") using recv_step_ack [OF b r(3) st t a] by blast
  have a4: "length a = 4" using a(1) by (simp add: ack_def)
  note m = moved_ok [OF r(3), of 4]
  have m4: "nbb_ok (moved 4 r)" "ahead (moved 4 r) = frame_head ProtocolTypeEF m @ body" "unat (nb_position (moved 4 r)) = 4"
    using m a a4 r(4) by simp_all
  have s1: "buffer ?s1 = Some (moved 4 r)" "storage_ok (cn_pool ?s1)" "cn_currentProtocolType ?s1 = ProtocolTypeEF"
      "cn_restOfTheData ?s1 = Some (moved 4 r)" "rv_buffer ?s1 = Rest"
    using b st t r by simp_all (simp_all add: set_buffer_def)
  let ?q = "moved ?h (moved 4 r)"
  let ?r = "limit_set w (r\<lparr>nb_position := nb_limit r\<rparr>)"
  let ?s2 = "(first_data n ?s1)\<lparr>cn_restOfTheData := Some ?r, cn_lastPacketLength := w\<rparr>"
  note d = nbb_okD [OF r(3)]
  have lim: "unat (nb_limit r) = 4 + ?h + length body" using length_ahead [OF r(3)] a a4 r(4) by simp
  have fit: "unat (nb_limit r) \<le> ?h + m" using lim f by (simp add: fits_def)
  have "position_set (nb_limit r) ?q = r\<lparr>nb_position := nb_limit r\<rparr>" by (simp add: position_set_def moved_def)
  then have "keep_packet E (nb_position (moved 4 r)) w (set_buffer ?q (first_data n ?s1)) = Some ?s2"
    using s1 cap uL by (simp add: keep_packet_def set_buffer_def give_back_def word_less_nat_alt moved_def)
  then have "recv_step E n drops ?s1 = Some (Inl ?s2)"
    using recv_step_body [OF s1(1) m4(1) s1(2), of ?p body E n drops] p m4(2) s1(3) by (simp add: w_def)
  then have loop: "recv_loop E n drops s = Some ?s2"
    using x b s1(1) a a4 m4 hasRemaining_ahead [OF r(3)] hasRemaining_ahead [OF m4(1)]
    by (simp add: recv_loop.simps [of E n drops s] recv_loop.simps [of E n drops ?s1])
  have e: "?r = r\<lparr>nb_position := nb_limit r, nb_limit := w\<rparr>" using fit cap uL by (simp add: limit_set_def word_less_nat_alt)
  have "nbb_ok ?r" "behind ?r = a @ frame_head ProtocolTypeEF m @ body" "nb_limit ?r = w"
    using d fit cap uL a r(4) by (simp_all add: e nbb_ok_def behind_def ahead_def word_le_nat_alt)
  then have "mixed ?s2" using s1 a f uL unfolding mixed_def
    by (intro conjI exI [of _ ?r] exI [of _ a] exI [of _ m] exI [of _ body]) simp_all
  then show ?thesis using loop r by (intro exI [of _ ?s2]) (simp add: set_buffer_def)
qed

lemma mixed_cong:
  "cn_pool c' = cn_pool c \<Longrightarrow> cn_restOfTheData c' = cn_restOfTheData c \<Longrightarrow> cn_lastPacketLength c' = cn_lastPacketLength c \<Longrightarrow>
   cn_currentProtocolType c' = cn_currentProtocolType c \<Longrightarrow> mixed c' = mixed c"
  unfolding mixed_def by (simp only:)

lemma mixed_truncate [simp]: "mixed (Connection.truncate s) = mixed s"
  by (rule mixed_cong) (simp_all add: Connection.truncate_def)

text \<open>Whatever arrives.\<close>

lemma mixed_join:
  assumes s: "arriving s ys" and c: "mixed s"
  shows "(\<exists>s'. join_rest E s = Some (Inl s') \<and> mixed s' \<and> nbb_ok (rv_argument s') \<and> same s s') \<or>
    (\<exists>s' s'' z. join_rest E s = Some (Inr s') \<and> rewound s' = Some s'' \<and> recv_loop E n drops s'' = Some z \<and> mixed z \<and>
       delivered (rv_events z) = [] \<and> nbb_ok (rv_argument z) \<and> nb_capacity (rv_argument z) = nb_capacity (rv_argument s) \<and>
       cn_decrypt z = cn_decrypt s)"
proof -
  obtain r a m body where r: "cn_restOfTheData s = Some r" "nbb_ok r" "behind r = a @ frame_head ProtocolTypeEF m @ body" "ack a" "fits m body"
      "nb_limit r = cn_lastPacketLength s" "unat (cn_lastPacketLength s) = length (frame_head ProtocolTypeEF m) + m"
    and t: "cn_currentProtocolType s = ProtocolTypeEF" and st: "storage_ok (cn_pool s)" using c by (auto simp: mixed_def)
  let ?h = "length (frame_head ProtocolTypeEF m)"
  have a4: "length a = 4" using r(4) by (simp add: ack_def)
  have l: "cn_lastPacketLength s \<noteq> 0" using r(7) by auto
  define k where "k = min (room r) (length ys)"
  note j = join_part [OF s r(1,2,6) l, folded k_def]
  let ?b = "moved k (rv_argument s)" and ?r = "wrote (take k ys) r" and ?body = "body @ take k ys"
  have pos: "unat (nb_position r) = 4 + ?h + length body" using length_behind [OF r(2)] r(3) a4 by simp
  then have rm: "room r = m - 4 - length body" using r(6,7) by (simp add: room_def)
  then have f: "fits m ?body" using r(5) by (auto simp: fits_def k_def)
  have bh: "behind ?r = a @ frame_head ProtocolTypeEF m @ ?body" using j(6) r(3) by simp
  show ?thesis
  proof (cases "room r \<le> length ys")
    case False
    let ?s = "s\<lparr>cn_restOfTheData := Some ?r, rv_argument := ?b\<rparr>"
    have "mixed ?s" using t st j(4,5) bh r(4,7) f unfolding mixed_def
      by (intro conjI exI [of _ ?r] exI [of _ a] exI [of _ m] exI [of _ ?body]) simp_all
    then show ?thesis using j(1,2) False by (auto simp: same_def)
  next
    case True
    let ?s = "s\<lparr>cn_restOfTheData := Some ?r, rv_argument := ?b, rv_parseLater := hasRemaining ?b, rv_buffer := Rest\<rparr>"
    let ?s' = "?s\<lparr>cn_restOfTheData := Some (rewind ?r)\<rparr>"
    have "length (take k ys) = room r" using True by (simp add: k_def)
    note w = rewind_wrote [OF r(2) this]
    have cap: "?h + m \<le> unat (nb_capacity (rewind ?r))" using nbb_okD [OF j(4)] j(5) r(7) by (simp add: rewind_def)
    have ah: "ahead (rewind ?r) = a @ frame_head ProtocolTypeEF m @ ?body" using w(2) r(3) by simp
    have "\<exists>z. recv_loop E n drops ?s' = Some z \<and> mixed z \<and> delivered (rv_events z) = delivered (rv_events ?s') \<and>
        rv_argument z = rv_argument ?s' \<and> cn_decrypt z = cn_decrypt ?s'"
      using t st w(1,3) by (intro recv_loop_again [where r = "rewind ?r", OF _ _ _ _ _ _ r(4) ah f cap]) simp_all
    then obtain z where z: "recv_loop E n drops ?s' = Some z" "mixed z" "delivered (rv_events z) = []" "rv_argument z = ?b" "cn_decrypt z = cn_decrypt s"
      using s by (auto simp: arriving_def)
    moreover have "rewound ?s = Some ?s'" by (simp add: rewound_def buffer_def set_buffer_def)
    moreover have "join_rest E s = Some (Inr ?s)" using j(1) True by simp
    ultimately show ?thesis using j(2) by (intro disjI2 exI [of _ ?s] exI [of _ ?s'] exI [of _ z]) simp
  qed
qed

lemma onReceivedData_mixed:
  assumes b: "nbb_ok b" "nb_position b = 0" "ahead b = cs" "cs \<noteq> []" "length cs < 2 ^ 30"
    and k: "crypt (cn_decrypt c) cs = (ys, k)" "length ys = length cs" and c: "mixed c"
  shows "\<exists>c' b' es. onReceivedData crypt E n drops b c = Some (c', b', es) \<and> mixed c' \<and> nbb_ok b' \<and> delivered es = [] \<and>
    cn_decrypt c' = k \<and> nb_capacity b' = nb_capacity b"
proof -
  let ?b = "b\<lparr>nb_buffer := ys @ drop (length ys) (nb_buffer b)\<rparr>"
  let ?c = "c\<lparr>cn_decrypt := k, cn_failedConnectionCount := 0\<rparr>"
  let ?s = "Connection.extend ?c (Receiving.fields ?b Argument False [])"
  note e = extend_arriving [where c = c and k = k, OF b k(2)]
  have sl: "slice (nb_buffer b) 0 (uint (nb_limit b)) = Some cs" using whole_slice [OF b(1,2)] b(3) by simp
  have "mixed ?s" using mixed_cong [of ?s c] e(3-6) c by simp
  from mixed_join [OF e(1) this, of E n drops] show ?thesis
  proof (elim disjE exE conjE)
    fix s'
    assume "join_rest E ?s = Some (Inl s')" "mixed s'" "nbb_ok (rv_argument s')" "same ?s s'"
    then show ?thesis using e(2,7,8) sl k(1) by (auto simp: onReceivedData_def same_def)
  next
    fix s' s'' z
    assume "join_rest E ?s = Some (Inr s')" "rewound s' = Some s''" "recv_loop E n drops s'' = Some z" "mixed z" "delivered (rv_events z) = []"
      "nbb_ok (rv_argument z)" "nb_capacity (rv_argument z) = nb_capacity (rv_argument ?s)" "cn_decrypt z = cn_decrypt ?s"
    then show ?thesis using e(2,7,8) sl k(1) by (auto simp: onReceivedData_def rewound_def split: Option.bind_splits)
  qed
qed

lemma recv_step_ack_start:
  assumes b: "buffer s = Some b" "nbb_ok b" and st: "storage_ok (cn_pool s)" and t: "cn_currentProtocolType s = ProtocolTypeEF"
    and a: "ahead b = xs" "xs \<noteq> []" "length xs < 4" "hd xs AND push_bit 7 1 \<noteq> 0"
  shows "recv_step E n drops s = map_option Inl (keep_in_new E (first_data n s))"
proof -
  let ?s = "first_data n s"
  obtain x ys where x: "xs = x # ys" using a(2) by (cases xs) auto
  have "read_buffer E readByte ?s = Some (x, set_buffer (moved (Suc 0) b) ?s)"
    using read_buffer_parses [OF parses_readByte, of ?s b x ys E] b st a(1) x by simp
  moreover have "position_set (nb_position b) (moved (Suc 0) b) = b" using a x b(2) by (intro position_back) simp_all
  moreover have "remaining b < 4" using unat_remaining [OF b(2)] a by (simp add: word_less_nat_alt)
  ultimately have "read_length_EF E (nb_position b) ?s = map_option Break (keep_in_new E ?s)"
    using b(1) a(4) x by (simp add: read_length_EF_def Let_def)
  then show ?thesis using b(1) t by (cases "keep_in_new E ?s") (auto simp: recv_step_def Let_def)
qed

definition ack_begun :: "('k, 'z) Connection_scheme \<Rightarrow> byte list \<Rightarrow> bool" where
  "ack_begun c xs \<longleftrightarrow> holding c xs \<and> cn_lastPacketLength c = 0 \<and> cn_currentProtocolType c = ProtocolTypeEF \<and>
     (\<exists>r. cn_restOfTheData c = Some r \<and> 16384 \<le> unat (nb_capacity r))"

lemma recv_loop_ack_start:
  assumes s: "arriving s xs" "cn_restOfTheData s = None" "storage_ok (cn_pool s)" "cn_currentProtocolType s = ProtocolTypeEF"
    and a: "length xs < 4" "hd xs AND push_bit 7 1 \<noteq> 0"
  shows "\<exists>s'. recv_loop E n drops s = Some s' \<and> ack_begun s' xs \<and> nbb_ok (rv_argument s') \<and> delivered (rv_events s') = [] \<and>
    cn_decrypt s' = cn_decrypt s \<and> nb_capacity (rv_argument s') = nb_capacity (rv_argument s)"
proof -
  let ?a = "rv_argument s" and ?s = "first_data n s"
  have f: "rv_buffer s = Argument" "nbb_ok ?a" "nb_position ?a = 0" "ahead ?a = xs" "xs \<noteq> []" "rv_events s = []" "buffer s = Some ?a"
    using s(1) by (simp_all add: arriving_def buffer_def)
  obtain r pool where g: "getFreeBuffer E 16384 (cn_pool s) = (r, pool)" by fastforce
  note z = storage.get_ready [OF s(3) _ g] storage.get_ok [OF s(3) _ g]
  have y: "nbb_ok (wrote xs r)" "behind (wrote xs r) = xs" "nb_limit (wrote xs r) = 16384"
      "writeBytes_buffer ?a r = Some (moved (length xs) ?a, wrote xs r)"
    using kept_bytes [OF z(1) f(2)] f(4) a(1) by simp_all
  let ?r = "limit_set (nb_position (wrote xs r)) (wrote xs r)"
  let ?s' = "?s\<lparr>rv_argument := moved (length xs) ?a, cn_pool := pool, cn_restOfTheData := Some ?r, cn_lastPacketLength := 0\<rparr>"
  have "keep_in_new E ?s = Some ?s'"
    using g y(4) f s(2) by (simp add: keep_in_new_def set_buffer_def set_rest_def give_back_def Let_def)
  then have "recv_step E n drops s = Some (Inl ?s')"
    using recv_step_ack_start [OF f(7,2) s(3,4) f(4,5) a, of E n drops] by simp
  then have loop: "recv_loop E n drops s = Some ?s'"
    using f by (simp add: recv_loop.simps [of E n drops s] hasRemaining_ahead)
  have "nb_capacity ?r = nb_capacity (wrote xs r)" by (simp add: limit_set_def)
  then have "16384 \<le> unat (nb_capacity ?r)" using nbb_okD [OF y(1)] y(3) by simp
  moreover have "holding ?s' xs" using close_part [OF y(1)] y(2) z(2) a(1) f(5) by (intro holding_part [where r = ?r]) simp_all
  ultimately have "ack_begun ?s' xs" using s(4) by (simp add: ack_begun_def)
  then show ?thesis using loop moved_ok(1) [OF f(2)] f(4,6) by (intro exI [of _ ?s']) simp
qed

lemma onReceivedData_ack_start:
  assumes b: "nbb_ok b" "nb_position b = 0" "ahead b = cs" "cs \<noteq> []" "length cs < 2 ^ 30"
    and k: "crypt (cn_decrypt c) cs = (xs, k)" "length xs = length cs" and c: "cn_restOfTheData c = None" "storage_ok (cn_pool c)"
      "cn_currentProtocolType c = ProtocolTypeEF" and a: "length xs < 4" "hd xs AND push_bit 7 1 \<noteq> 0"
  shows "\<exists>c' b' es. onReceivedData crypt E n drops b c = Some (c', b', es) \<and> ack_begun c' xs \<and> nbb_ok b' \<and> delivered es = [] \<and>
    cn_decrypt c' = k \<and> nb_capacity b' = nb_capacity b"
proof -
  let ?b = "b\<lparr>nb_buffer := xs @ drop (length xs) (nb_buffer b)\<rparr>"
  let ?c = "c\<lparr>cn_decrypt := k, cn_failedConnectionCount := 0\<rparr>"
  let ?s = "Connection.extend ?c (Receiving.fields ?b Argument False [])"
  note e = extend_arriving [where c = c and k = k, OF b k(2)]
  have sl: "slice (nb_buffer b) 0 (uint (nb_limit b)) = Some cs" using whole_slice [OF b(1,2)] b(3) by simp
  have j: "join_rest E ?s = Some (Inr ?s)" using e(4) c(1) by (simp add: join_rest_def)
  have w: "buffer ?s = Some (rv_argument ?s)" "set_buffer (rewind (rv_argument ?s)) ?s = ?s"
    using e(1) by (simp_all add: arriving_def buffer_def set_buffer_def rewind_def)
  obtain s' where "recv_loop E n drops ?s = Some s'" "ack_begun s' xs" "nbb_ok (rv_argument s')" "delivered (rv_events s') = []"
      "cn_decrypt s' = k" "nb_capacity (rv_argument s') = nb_capacity b"
    using recv_loop_ack_start [OF e(1) _ _ _ a, of E n drops] e c by auto
  moreover from this have "ack_begun (Connection.truncate s') xs" "cn_decrypt (Connection.truncate s') = k"
    by (simp_all add: ack_begun_def) (simp_all add: Connection.truncate_def)
  ultimately show ?thesis using sl k(1) j w by (simp add: onReceivedData_def)
qed

lemma onReceivedData_ack_end:
  assumes b: "nbb_ok b" "nb_position b = 0" "ahead b = cs" "cs \<noteq> []" "length cs < 2 ^ 30"
    and k: "crypt (cn_decrypt c) cs = (ys, k)" "length ys = length cs" and c: "ack_begun c xs"
    and a: "ack a" "xs @ ys = a @ frame_head ProtocolTypeEF m @ body" "fits m body" "length (frame_head ProtocolTypeEF m) + m \<le> 16384"
  shows "\<exists>c' b' es. onReceivedData crypt E n drops b c = Some (c', b', es) \<and> mixed c' \<and> nbb_ok b' \<and> delivered es = [] \<and>
    cn_decrypt c' = k \<and> nb_capacity b' = nb_capacity b"
proof -
  let ?b = "b\<lparr>nb_buffer := ys @ drop (length ys) (nb_buffer b)\<rparr>"
  let ?c = "c\<lparr>cn_decrypt := k, cn_failedConnectionCount := 0\<rparr>"
  let ?s = "Connection.extend ?c (Receiving.fields ?b Argument False [])"
  note e = extend_arriving [where c = c and k = k, OF b k(2)]
  have sl: "slice (nb_buffer b) 0 (uint (nb_limit b)) = Some cs" using whole_slice [OF b(1,2)] b(3) by simp
  obtain r where r: "cn_restOfTheData c = Some r" "16384 \<le> unat (nb_capacity r)" and t: "cn_currentProtocolType c = ProtocolTypeEF"
    using c by (auto simp: ack_begun_def)
  have h: "holding ?s xs" "cn_restOfTheData ?s = Some r" "cn_lastPacketLength ?s = 0"
    using holding_cong [of ?s c xs] e(3-6) c r by (simp_all add: ack_begun_def)
  obtain s' s'' r'' where j: "join_rest E ?s = Some (Inr s')" "rewound s' = Some s''" "good s''" "in_rest s'' (xs @ ys)" "same ?s s''"
      "cn_restOfTheData s'' = Some r''" "nb_capacity r \<le> nb_capacity r''"
    using join_header [OF e(1) h] by blast
  have cap: "length (frame_head ProtocolTypeEF m) + m \<le> unat (nb_capacity r'')" using j(7) r(2) a(4) by (simp add: word_le_nat_alt)
  have q: "rv_buffer s'' = Rest" "nbb_ok r''" "nb_position r'' = 0" "ahead r'' = a @ frame_head ProtocolTypeEF m @ body"
      "storage_ok (cn_pool s'')" "cn_currentProtocolType s'' = ProtocolTypeEF"
    using j a(2) t e(6) by (auto simp: in_rest_def good_def same_def)
  obtain z where "recv_loop E n drops s'' = Some z" "mixed z" "delivered (rv_events z) = delivered (rv_events s'')"
      "rv_argument z = rv_argument s''" "cn_decrypt z = cn_decrypt s''"
    using recv_loop_again [OF j(6) q(1,2,3,5,6) a(1) q(4) a(3) cap] by blast
  then show ?thesis using j(1,2,3,5) e(2,7,8) sl k(1)
    by (auto simp: onReceivedData_def rewound_def same_def good_def split: Option.bind_splits)
qed

context stream_cipher
begin

lemma receive_mixed:
  assumes "usable (cn_decrypt c)" and "nbb_ok b" and "\<forall>xs \<in> set xss. xs \<noteq> [] \<and> length xs \<le> unat (nb_capacity b)"
    and "unat (nb_capacity b) < 2 ^ 30" and "mixed c"
  shows "\<exists>c' b' es. receive crypt E n drops xss b c = Some (c', b', es) \<and> delivered es = []"
  using assms
proof (induction xss arbitrary: c b)
  case (Cons zs xss)
  have z: "zs \<noteq> []" "length zs \<le> unat (nb_capacity b)" "length zs < 2 ^ 30" using Cons.prems(3,4) by auto
  note r = recv_into_ok [OF Cons.prems(2) z(2)]
  obtain ys k where y: "crypt (cn_decrypt c) zs = (ys, k)" by fastforce
  then have u: "length ys = length zs" "usable k" using crypt_length crypt_usable Cons.prems(1) by blast+
  obtain c1 b1 es where one: "onReceivedData crypt E n drops (recv_into zs b) c = Some (c1, b1, es)" "mixed c1" "nbb_ok b1"
      "delivered es = []" "cn_decrypt c1 = k" "nb_capacity b1 = nb_capacity b"
    using onReceivedData_mixed [where E = E and n = n and drops = drops and crypt = crypt, OF r(1,2,3) z(1,3) y u(1) Cons.prems(5)] r(4) by auto
  then obtain c2 b2 fs where "receive crypt E n drops xss b1 c1 = Some (c2, b2, fs)" "delivered fs = []"
    using Cons.IH [of c1 b1] Cons.prems u by auto
  then show ?case using one by simp
qed simp

lemma receive_stalls:
  assumes c: "usable (cn_decrypt c)" "cn_restOfTheData c = None" "storage_ok (cn_pool c)" "cn_currentProtocolType c = ProtocolTypeEF"
    and b: "nbb_ok b" "unat (nb_capacity b) < 2 ^ 30" and x: "\<forall>xs \<in> set (x1 # x2 # xss). xs \<noteq> [] \<and> length xs \<le> unat (nb_capacity b)"
    and y: "crypt (cn_decrypt c) x1 = (a1, k1)" "crypt k1 x2 = (a2 @ frame_head ProtocolTypeEF m @ body, k2)"
    and a: "ack (a1 @ a2)" "a2 \<noteq> []" "fits m body" "length (frame_head ProtocolTypeEF m) + m \<le> 16384"
  shows "\<exists>c' b' es. receive crypt E n drops (x1 # x2 # xss) b c = Some (c', b', es) \<and> delivered es = []"
proof -
  have x1: "x1 \<noteq> []" "length x1 \<le> unat (nb_capacity b)" "length x1 < 2 ^ 30" and x2: "x2 \<noteq> []" "length x2 \<le> unat (nb_capacity b)" "length x2 < 2 ^ 30"
    using x b(2) by auto
  have k1: "usable k1" "length a1 = length x1" using crypt_length crypt_usable c(1) y(1) by blast+
  have k2: "usable k2" "length (a2 @ frame_head ProtocolTypeEF m @ body) = length x2" using crypt_length crypt_usable k1(1) y(2) by blast+
  have a1: "length a1 < 4" "hd a1 AND push_bit 7 1 \<noteq> 0" using a(1,2) k1(2) x1(1) by (cases a1; cases a2; auto simp: ack_def)+
  note r1 = recv_into_ok [OF b(1) x1(2)]
  obtain c1 b1 es where one: "onReceivedData crypt E n drops (recv_into x1 b) c = Some (c1, b1, es)" "ack_begun c1 a1" "nbb_ok b1"
      "delivered es = []" "cn_decrypt c1 = k1" "nb_capacity b1 = nb_capacity b"
    using onReceivedData_ack_start [where E = E and n = n and drops = drops and crypt = crypt, OF r1(1,2,3) x1(1,3) y(1) k1(2) c(2-4) a1] r1(4) by auto
  have l2: "length x2 \<le> unat (nb_capacity b1)" using x2(2) one(6) by simp
  note r2 = recv_into_ok [OF one(3) l2]
  have app: "a1 @ a2 @ frame_head ProtocolTypeEF m @ body = (a1 @ a2) @ frame_head ProtocolTypeEF m @ body" by simp
  obtain c2 b2 fs where two: "onReceivedData crypt E n drops (recv_into x2 b1) c1 = Some (c2, b2, fs)" "mixed c2" "nbb_ok b2"
      "delivered fs = []" "cn_decrypt c2 = k2" "nb_capacity b2 = nb_capacity b"
    using onReceivedData_ack_end [where E = E and n = n and drops = drops and crypt = crypt, OF r2(1,2,3) x2(1,3) _ k2(2) one(2) a(1) app a(3,4)] y(2) one(5,6) r2(4)
    by auto
  obtain c3 b3 gs where "receive crypt E n drops xss b2 c2 = Some (c3, b3, gs)" "delivered gs = []"
    using receive_mixed [where c = c2 and b = b2 and xss = xss and E = E and n = n and drops = drops] two k2(1) x b(2) by auto
  then show ?thesis using one(1,4) two(1,4) by simp
qed

end

text \<open>C17. A quick acknowledgement cut in two blocks the connection.  If the four bytes of an acknowledgement arrive in two reads,
  the second of which goes on with the header and part of the body of a packet of at most 16380 bytes, then, whatever
  arrives afterwards, every later call of \<open>onReceivedData\<close> returns and none of them ever hands over a packet.\<close>

theorem split_ack_stalls:
  assumes "cn_restOfTheData c = None" and "storage_ok (cn_pool c)" and "ctr_ok (cn_decrypt c)" and "cn_currentProtocolType c = ProtocolTypeEF"
    and "nbb_ok b" and "unat (nb_capacity b) < 2 ^ 30"
    and "\<forall>xs \<in> set (x1 # x2 # xss). xs \<noteq> [] \<and> length xs \<le> unat (nb_capacity b)"
    and "x1 @ x2 = fst (AES_ctr128_encrypt u' AES_encrypt (cn_decrypt c) (a1 @ a2 @ frame_head ProtocolTypeEF m @ body))"
    and "length x1 = length a1" and "a2 \<noteq> []" and "ack (a1 @ a2)" and "fits m body" and "m \<le> 16380"
  shows "\<exists>c' b' es. receive (AES_ctr128_encrypt u AES_encrypt) E n drops (x1 # x2 # xss) b c = Some (c', b', es) \<and>
    delivered es = []"
proof -
  let ?f = "AES_ctr128_encrypt u AES_encrypt" and ?ys = "a2 @ frame_head ProtocolTypeEF m @ body"
  have e: "AES_ctr128_encrypt u' AES_encrypt = ?f"
    by (intro ext) (simp add: AES_ctr128_encrypt_def CRYPTO_ctr128_encrypt_bytes)
  obtain k where "?f (cn_decrypt c) (a1 @ ?ys) = (x1 @ x2, k)" using assms(8) by (metis e prod.collapse)
  then have "?f (cn_decrypt c) (x1 @ x2) = (a1 @ ?ys, k)" by (rule ctr.crypt_inverse)
  then obtain o1 k1 o2 where s: "?f (cn_decrypt c) x1 = (o1, k1)" "?f k1 x2 = (o2, k)" "a1 @ ?ys = o1 @ o2" "length o1 = length x1"
    by (rule ctr.crypt_split [OF _ assms(3)])
  then have "o1 = a1" "o2 = ?ys" using assms(9) by auto
  moreover have "length (frame_head ProtocolTypeEF m) + m \<le> 16384" using assms(13) by (simp add: frame_head_length)
  ultimately show ?thesis using s(1,2) ctr.receive_stalls [OF assms(3,1,2,4-7), of u AES_encrypt a1 k1 a2 m body k E n drops] assms(10-12) by auto
qed

definition demo_split :: "byte list" where
  "demo_split = fst (AES_ctr128_encrypt False demo_AES demo_cipher ([0x81] @ [0, 0, 5] @ frame_head ProtocolTypeEF 8 @ [1, 2, 3, 4]))"

theorem split_ack_stalls_witness:
  "\<exists>c' b' es. receive (AES_ctr128_encrypt False demo_AES) ample \<lparr>nt_slow = False, nt_available = True\<rparr> (\<lambda>_. False)
     [take 1 demo_split, drop 1 demo_split, [5, 6, 7, 8], [1, 9, 9, 9, 9]] (NativeByteBuffer_alloc ample 8) demo_connection =
     Some (c', b', es) \<and> delivered es = []"
proof (rule split_ack_stalls)
  let ?b = "NativeByteBuffer_alloc ample 8" and ?xs = "[0x81] @ [0, 0, 5] @ frame_head ProtocolTypeEF 8 @ [1, 2, 3, 4] :: byte list"
  show "cn_restOfTheData demo_connection = None" "storage_ok (cn_pool demo_connection)" "cn_currentProtocolType demo_connection = ProtocolTypeEF"
    by (simp_all add: demo_connection_def storage_ok_new)
  show "ctr_ok (cn_decrypt demo_connection)" by (simp add: demo_connection_def ctr_ok_def demo_cipher_def)
  show "nbb_ok ?b" "unat (nb_capacity ?b) < 2 ^ 30" by (simp_all add: alloc_ok)
  have l: "length demo_split = 9"
    using ctr.crypt_length [of demo_cipher False demo_AES ?xs demo_split]
    by (simp add: demo_split_def ctr_ok_def demo_cipher_def prod_eq_iff frame_head_length)
  then show "\<forall>xs \<in> set [take 1 demo_split, drop 1 demo_split, [5, 6, 7, 8], [1, 9, 9, 9, 9]]. xs \<noteq> [] \<and> length xs \<le> unat (nb_capacity ?b)"
    by auto
  show "take 1 demo_split @ drop 1 demo_split = fst (AES_ctr128_encrypt False demo_AES (cn_decrypt demo_connection) ?xs)"
    unfolding append_take_drop_id by (simp add: demo_split_def demo_connection_def)
  show "length (take 1 demo_split) = length [0x81 :: byte]" using l by simp
  show "ack ([0x81] @ [0, 0, 5])" by (simp add: ack_def)
  show "fits 8 ([1, 2, 3, 4] :: byte list)" by (simp add: fits_def)
qed simp_all

end
