(* ===== verification/Connection_Send.thy ===== *)
theory Connection_Send
  imports Datacenter_Messages Connection_Frames Byte_Stream
begin

unbundle bit_operations_syntax

section \<open>Connection: what is sent\<close>

text \<open>
  \<open>Connection::sendData\<close> of \<open>tgnet/Connection.cpp\<close> with the functions it calls: the choice of the transport, the 64 bytes that
  start a connection, the keys derived from them and from the secret of a proxy, the length, the padding and the encryption.

  \<open>Sending\<close> has the fields sending uses.  What \<open>RAND_bytes\<close> delivers, the settings of the \<open>ConnectionsManager\<close> and what \<open>connect\<close>
  does are arguments (\<open>send_env\<close>); the hash functions and the block cipher are those of \<open>crypto\<close>.  The loop that draws the
  start until it is acceptable is a \<open>partial_function\<close>: that it returns is part of the theorem.  \<open>obfuscation\<close> is what
  sending relies on in its cipher.
\<close>

subsection \<open>State\<close>

datatype TcpConnectionState =
    TcpConnectionStageIdle
  | TcpConnectionStageConnecting
  | TcpConnectionStageReconnecting
  | TcpConnectionStageConnected
  | TcpConnectionStageSuspended

definition ConnectionTypeGenericMedia :: u32 where "ConnectionTypeGenericMedia = 64"

text \<open>The fields of \<open>Connection\<close> and \<open>ConnectionSocket\<close> that sending uses.  A key schedule is the 32 bytes it is made from.\<close>

record Sending =
  sd_connectionState :: TcpConnectionState
  sd_firstPacketSent :: bool
  sd_currentProtocolType :: ProtocolType
  sd_isMediaConnection :: bool
  sd_connectionType :: u32
  sd_secret :: string
  sd_overrideProxyAddress :: string
  sd_overrideProxySecret :: string
  sd_encrypt :: "byte list ctr_state"
  sd_decrypt :: "byte list ctr_state"
  sd_socket :: Socket

text \<open>What a call reads of the rest of the program, what \<open>RAND_bytes\<close> delivers (four bytes for the size of the padding, the
  padding, and 64 bytes at each attempt to draw a start), and what \<open>connect\<close> does.\<close>

record send_env =
  se_proxyAddress :: string
  se_proxySecret :: string
  se_datacenterId :: u32
  se_size :: u32
  se_padding :: "nat \<Rightarrow> byte"
  se_start :: "nat \<Rightarrow> nat \<Rightarrow> byte"
  se_connect :: "Sending \<Rightarrow> Sending"

subsection \<open>The secret of a proxy\<close>

definition char2int :: "char \<Rightarrow> int" where
  "char2int input =
     (let n = of_char input
      in if 48 \<le> n \<and> n \<le> 57 then n - 48
         else if 65 \<le> n \<and> n \<le> 70 then n - 65 + 10
         else if 97 \<le> n \<and> n \<le> 102 then n - 97 + 10
         else 0)"

definition getCurrentSecret :: "send_env \<Rightarrow> nat \<Rightarrow> Sending \<Rightarrow> string" where
  "getCurrentSecret env secretType s =
     (if secretType = 2 then sd_secret s
      else if sd_overrideProxySecret s \<noteq> '''' then sd_overrideProxySecret s
      else se_proxySecret env)"

definition with_padding :: "string \<Rightarrow> bool" where
  "with_padding currentSecret \<longleftrightarrow> length currentSecret = 34 \<and> currentSecret ! 0 = CHR ''d'' \<and> currentSecret ! 1 = CHR ''d''"

text \<open>The bytes of the secret, from byte \<open>a\<close> on.\<close>

definition secret_bytes :: "nat \<Rightarrow> string \<Rightarrow> byte list" where
  "secret_bytes a currentSecret =
     map (\<lambda>a. word_of_int (char2int (currentSecret ! (a * 2)) * 16 + char2int (currentSecret ! (a * 2 + 1)))) [a..<length currentSecret div 2]"

definition encryptKeyWithSecret :: "crypto \<Rightarrow> send_env \<Rightarrow> Sending \<Rightarrow> nat \<Rightarrow> byte list \<Rightarrow> byte list" where
  "encryptKeyWithSecret F env s secretType bytes =
     (if secretType = 0 then bytes
      else
        let currentSecret = getCurrentSecret env secretType s;
            a = (if with_padding currentSecret then 1 else 0)
        in SHA256 F (take 32 bytes @ secret_bytes a currentSecret) @ drop 32 bytes)"

definition use_secret :: "send_env \<Rightarrow> Sending \<Rightarrow> nat" where
  "use_secret env s =
     (if sd_overrideProxyAddress s \<noteq> '''' then
        if sd_overrideProxySecret s \<noteq> '''' then 1 else if sd_secret s \<noteq> '''' then 2 else 0
      else if se_proxyAddress env \<noteq> '''' \<and> se_proxySecret env \<noteq> '''' then 1
      else if sd_secret s \<noteq> '''' then 2
      else 0)"

definition choose_protocol :: "send_env \<Rightarrow> nat \<Rightarrow> Sending \<Rightarrow> ProtocolType" where
  "choose_protocol env useSecret s =
     (if useSecret \<noteq> 0 \<and> with_padding (getCurrentSecret env useSecret s) then ProtocolTypeDD else ProtocolTypeEF)"

subsection \<open>The start of a connection\<close>

definition start_ok :: "byte list \<Rightarrow> bool" where
  "start_ok bytes \<longleftrightarrow>
     (let val = u32_of bytes; val2 = u32_of (drop 4 bytes)
      in bytes ! 0 \<noteq> 0xef \<and> val \<noteq> 0x44414548 \<and> val \<noteq> 0x54534f50 \<and> val \<noteq> 0x20544547 \<and> val \<noteq> 0x4954504f \<and>
         val \<noteq> 0xeeeeeeee \<and> val \<noteq> 0xdddddddd \<and> val2 \<noteq> 0)"

text \<open>The loop draws until a start is accepted; \<open>n\<close> counts the attempts.\<close>

partial_function (option) draw_start :: "(nat \<Rightarrow> nat \<Rightarrow> byte) \<Rightarrow> nat \<Rightarrow> byte list option" where
  "draw_start random n =
     (let bytes = map (random n) [0..<64] in if start_ok bytes then Some bytes else draw_start random (n + 1))"

definition protocol_tag :: "ProtocolType \<Rightarrow> byte" where
  "protocol_tag t = (case t of ProtocolTypeEF \<Rightarrow> 0xef | ProtocolTypeDD \<Rightarrow> 0xdd | ProtocolTypeEE \<Rightarrow> 0xee)"

text \<open>The accepted bytes with the tag and the number of the data centre; \<open>int16_t\<close> wraps.\<close>

definition mark_start :: "send_env \<Rightarrow> nat \<Rightarrow> Sending \<Rightarrow> byte list \<Rightarrow> byte list" where
  "mark_start env useSecret s bytes =
     (let tag = protocol_tag (sd_currentProtocolType s);
          bytes = bytes[56 := tag, 57 := tag, 58 := tag, 59 := tag]
      in if useSecret \<noteq> 0 then
           let datacenterId = (if sd_isMediaConnection s \<and> sd_connectionType s \<noteq> ConnectionTypeGenericMedia
                               then - (ucast (se_datacenterId env) :: 16 word) else ucast (se_datacenterId env))
           in bytes[60 := ucast (datacenterId AND 0xff), 61 := ucast (drop_bit 8 datacenterId AND 0xff)]
         else bytes)"

definition cipher_from :: "byte list \<Rightarrow> byte list ctr_state" where
  "cipher_from temp = \<lparr>ct_key = take 32 temp, ct_ivec = take 16 (drop 32 temp), ct_ecount_buf = replicate 16 0, ct_num = 0\<rparr>"

text \<open>\<open>crypt\<close> is \<open>AES_ctr128_encrypt\<close>.\<close>

definition begin_stream ::
    "(byte list ctr_state \<Rightarrow> byte list \<Rightarrow> byte list \<times> byte list ctr_state) \<Rightarrow> crypto \<Rightarrow> send_env \<Rightarrow> nat \<Rightarrow>
     NativeByteBuffer \<Rightarrow> Sending \<Rightarrow> (NativeByteBuffer \<times> Sending) option" where
  "begin_stream crypt F env useSecret buffer1 s = do {
     let buffer1 = position_set 64 buffer1;
     bytes \<leftarrow> draw_start (se_start env) 0;
     let bytes = mark_start env useSecret s bytes;
     let temp = take 48 (drop 8 bytes);
     let e = cipher_from (encryptKeyWithSecret F env s useSecret temp);
     let temp = map (\<lambda>a. bytes ! (55 - a)) [0..<48];
     let d = cipher_from (encryptKeyWithSecret F env s useSecret temp);
     let (temp, e) = crypt e bytes;
     let bytes = take 56 bytes @ take 8 (drop 56 temp);
     buffer1 \<leftarrow> poke 0 bytes buffer1;
     Some (buffer1, s\<lparr>sd_encrypt := e, sd_decrypt := d, sd_firstPacketSent := True\<rparr>)
   }"

subsection \<open>Sending\<close>

text \<open>A part of a buffer encrypted in place.\<close>

definition encrypt_part ::
    "(byte list ctr_state \<Rightarrow> byte list \<Rightarrow> byte list \<times> byte list ctr_state) \<Rightarrow> u32 \<Rightarrow> u32 \<Rightarrow> NativeByteBuffer \<Rightarrow> Sending \<Rightarrow>
     (NativeByteBuffer \<times> Sending) option" where
  "encrypt_part crypt from n b s = do {
     xs \<leftarrow> slice (nb_buffer b) (uint from) (uint n);
     let (ys, k) = crypt (sd_encrypt s) xs;
     b \<leftarrow> poke (uint from) ys b;
     Some (b, s\<lparr>sd_encrypt := k\<rparr>)
   }"

text \<open>\<open>packetLength\<close>, \<open>bufferLen\<close> and \<open>additinalPacketSize\<close>.\<close>

definition packet_sizes :: "send_env \<Rightarrow> bool \<Rightarrow> ProtocolType \<Rightarrow> u32 \<Rightarrow> u32 \<times> u32 \<times> u32" where
  "packet_sizes env encrypted t limit =
     (if t = ProtocolTypeEF then
        let packetLength = limit div 4 in (packetLength, if packetLength < 0x7f then 1 else 4, 0)
      else if t = ProtocolTypeDD then
        let additinalPacketSize = (if \<not> encrypted then se_size env mod 257 else se_size env mod 16)
        in (limit + additinalPacketSize, 4, additinalPacketSize)
      else
        let additinalPacketSize = (if \<not> encrypted then
              let n = se_size env mod 257; additionalSize = n mod 4
              in if additionalSize \<noteq> 0 then n + (4 - additionalSize) else n
            else se_size env)
        in (limit + additinalPacketSize, 4, additinalPacketSize))"

definition write_length ::
    "(byte list ctr_state \<Rightarrow> byte list \<Rightarrow> byte list \<times> byte list ctr_state) \<Rightarrow> bool \<Rightarrow> u32 \<Rightarrow> NativeByteBuffer \<Rightarrow> Sending \<Rightarrow>
     (NativeByteBuffer \<times> Sending) option" where
  "write_length crypt reportAck packetLength buffer1 s =
     (if sd_currentProtocolType s = ProtocolTypeEF then
        if packetLength < 0x7f then do {
          let packetLength = (if reportAck then packetLength OR push_bit 7 1 else packetLength);
          buffer1 \<leftarrow> writeByte (ucast packetLength) buffer1;
          encrypt_part crypt (nb_limit buffer1 - 1) 1 buffer1 s
        }
        else do {
          let packetLength = push_bit 8 packetLength + 0x7f;
          let packetLength = (if reportAck then packetLength OR push_bit 7 1 else packetLength);
          buffer1 \<leftarrow> writeInt32 packetLength buffer1;
          encrypt_part crypt (nb_limit buffer1 - 4) 4 buffer1 s
        }
      else do {
        let packetLength = (if reportAck then packetLength OR 0x80000000 else packetLength);
        buffer1 \<leftarrow> writeInt32 packetLength buffer1;
        encrypt_part crypt (nb_limit buffer1 - 4) 4 buffer1 s
      })"

text \<open>\<open>writeBuffer\<close> while \<open>epoll_ctl\<close> succeeds; a failure closes the socket.\<close>

definition queue :: "NativeByteBuffer \<Rightarrow> Sending \<Rightarrow> Sending" where
  "queue b s = s\<lparr>sd_socket := writeBuffer True b (sd_socket s)\<rparr>"

definition take_buffer :: "mem_env \<Rightarrow> u32 \<Rightarrow> Sending \<Rightarrow> NativeByteBuffer \<times> Sending" where
  "take_buffer E n s = (let (b, pool) = getFreeBuffer E n (so_pool (sd_socket s)) in (b, s\<lparr>sd_socket := (sd_socket s)\<lparr>so_pool := pool\<rparr>\<rparr>))"

text \<open>From the length of the packet on: the header, the data and the padding are encrypted and queued.\<close>

definition send_parts ::
    "(byte list ctr_state \<Rightarrow> byte list \<Rightarrow> byte list \<times> byte list ctr_state) \<Rightarrow> bool \<Rightarrow> u32 \<Rightarrow> NativeByteBuffer \<Rightarrow> NativeByteBuffer \<Rightarrow>
     NativeByteBuffer option \<Rightarrow> Sending \<Rightarrow> Sending option" where
  "send_parts crypt reportAck packetLength buffer1 buff buffer2 s = do {
     (buffer1, s) \<leftarrow> write_length crypt reportAck packetLength buffer1 s;
     let s = queue (rewind buffer1) s;
     let buff = rewind buff;
     (buff, s) \<leftarrow> encrypt_part crypt 0 (nb_limit buff) buff s;
     let s = queue buff s;
     (case buffer2 of
        None \<Rightarrow> Some s
      | Some b \<Rightarrow> do {
          (b, s) \<leftarrow> encrypt_part crypt 0 (nb_limit b) b s;
          Some (queue b s)
        })
   }"

text \<open>The padding, in a buffer of its own.\<close>

definition padding_buffer :: "mem_env \<Rightarrow> send_env \<Rightarrow> u32 \<Rightarrow> Sending \<Rightarrow> (NativeByteBuffer option \<times> Sending) option" where
  "padding_buffer E env additinalPacketSize s = (if additinalPacketSize > 0 then do {
     let (b, s) = take_buffer E additinalPacketSize s;
     b \<leftarrow> poke 0 (map (se_padding env) [0..<unat additinalPacketSize]) b;
     Some (Some b, s)
   }
   else Some (None, s))"

text \<open>What \<open>sendData\<close> does on an open socket.\<close>

definition send_packet ::
    "(byte list ctr_state \<Rightarrow> byte list \<Rightarrow> byte list \<times> byte list ctr_state) \<Rightarrow> crypto \<Rightarrow> mem_env \<Rightarrow> send_env \<Rightarrow>
     NativeByteBuffer \<Rightarrow> bool \<Rightarrow> bool \<Rightarrow> Sending \<Rightarrow> Sending option" where
  "send_packet crypt F E env buff reportAck encrypted s = do {
     let first = (\<not> sd_firstPacketSent s);
     let useSecret = (if first then use_secret env s else 0);
     let s = (if first then s\<lparr>sd_currentProtocolType := choose_protocol env useSecret s\<rparr> else s);
     let (packetLength, bufferLen, additinalPacketSize) = packet_sizes env encrypted (sd_currentProtocolType s) (nb_limit buff);
     let bufferLen = (if first then bufferLen + 64 else bufferLen);
     let (buffer1, s) = take_buffer E bufferLen s;
     (buffer2, s) \<leftarrow> padding_buffer E env additinalPacketSize s;
     (buffer1, s) \<leftarrow> (if first then begin_stream crypt F env useSecret buffer1 s else Some (buffer1, s));
     send_parts crypt reportAck packetLength buffer1 buff buffer2 s
   }"

definition sendData ::
    "(byte list ctr_state \<Rightarrow> byte list \<Rightarrow> byte list \<times> byte list ctr_state) \<Rightarrow> crypto \<Rightarrow> mem_env \<Rightarrow> send_env \<Rightarrow>
     NativeByteBuffer option \<Rightarrow> bool \<Rightarrow> bool \<Rightarrow> Sending \<Rightarrow> Sending option" where
  "sendData crypt F E env buff reportAck encrypted s = (case buff of
     None \<Rightarrow> Some s
   | Some buff \<Rightarrow>
       let buff = rewind buff;
           s = (if sd_connectionState s \<in> {TcpConnectionStageIdle, TcpConnectionStageReconnecting, TcpConnectionStageSuspended}
                then se_connect env s else s)
       in if so_closed (sd_socket s) then Some (s\<lparr>sd_socket := (sd_socket s)\<lparr>so_pool := reuse buff (so_pool (sd_socket s))\<rparr>\<rparr>)
          else send_packet crypt F E env buff reportAck encrypted s)"

subsection \<open>What is sent\<close>

text \<open>The length of a packet with the request for a quick acknowledgement, and a packet with its padding.\<close>

definition sent_head :: "ProtocolType \<Rightarrow> bool \<Rightarrow> nat \<Rightarrow> byte list" where
  "sent_head t reportAck n =
     (let h = frame_head t n; i = (if t = ProtocolTypeEF then 0 else 3) in if reportAck then h[i := h ! i OR 0x80] else h)"

definition sent_frame :: "ProtocolType \<Rightarrow> bool \<Rightarrow> byte list \<Rightarrow> byte list \<Rightarrow> byte list" where
  "sent_frame t reportAck p padding = sent_head t reportAck (length p + length padding) @ p @ padding"

definition outgoing :: "Sending \<Rightarrow> byte list" where
  "outgoing s = contents (so_outgoingByteStream (sd_socket s))"

definition can_send :: "Sending \<Rightarrow> bool" where
  "can_send s \<longleftrightarrow> \<not> so_closed (sd_socket s) \<and> stream_inv (so_outgoingByteStream (sd_socket s), so_pool (sd_socket s)) \<and>
     sd_connectionState s \<in> {TcpConnectionStageConnecting, TcpConnectionStageConnected}"

lemma int_bytes_flags:
  "int_bytes (x OR push_bit 7 1) = (int_bytes x)[0 := int_bytes x ! 0 OR 0x80]"
  "int_bytes (x OR 0x80000000) = (int_bytes x)[3 := int_bytes x ! 3 OR 0x80]"
proof -
  have flag: "int_bytes (x OR y) = (int_bytes x)[i := int_bytes x ! i OR z]"
    if "\<And>n. bit y n \<longleftrightarrow> n = 8 * i + 7" "\<And>n. bit z n \<longleftrightarrow> n = 7" "i = 0 \<or> i = 3" for y i z
    using that by (auto simp: int_bytes_eq bit_simps intro!: bit_word_eqI)
  have "(0x80000000 :: u32) = push_bit 31 1" "(0x80 :: byte) = push_bit 7 1" by simp_all
  then have b: "bit (0x80000000 :: u32) n \<longleftrightarrow> n = 31" "bit (push_bit 7 1 :: u32) n \<longleftrightarrow> n = 7" "bit (0x80 :: byte) n \<longleftrightarrow> n = 7" for n
    by (simp_all only: bit_push_bit_iff bit_1_iff) auto
  show "int_bytes (x OR push_bit 7 1) = (int_bytes x)[0 := int_bytes x ! 0 OR 0x80]"
    by (rule flag) (unfold b, simp_all)
  show "int_bytes (x OR 0x80000000) = (int_bytes x)[3 := int_bytes x ! 3 OR 0x80]"
    by (rule flag) (unfold b, simp_all)
qed

lemma encrypt_part_ok:
  assumes "unat i + unat n \<le> length (nb_buffer b)" and "crypt (sd_encrypt s) (take (unat n) (drop (unat i) (nb_buffer b))) = (ys, k)"
    and "length ys = unat n"
  shows "encrypt_part crypt i n b s = Some (b\<lparr>nb_buffer := put_at (nb_buffer b) (unat i) ys\<rparr>, s\<lparr>sd_encrypt := k\<rparr>)"
proof -
  have "poke (uint i) ys b = Some (b\<lparr>nb_buffer := put_at (nb_buffer b) (unat i) ys\<rparr>)"
    using poke_eq [of "unat i" ys b] assms(1,3) by simp
  moreover have "slice (nb_buffer b) (uint i) (uint n) = Some (take (unat n) (drop (unat i) (nb_buffer b)))"
    using assms(1) by (simp add: slice_uint)
  ultimately show ?thesis using assms(2) by (simp add: encrypt_part_def)
qed

lemma put_nbb_ok: "nbb_ok b \<Longrightarrow> length m = length (nb_buffer b) \<Longrightarrow> nbb_ok (b\<lparr>nb_buffer := m\<rparr>)"
  by (simp add: nbb_ok_def)

lemma encrypt_whole:
  assumes "nbb_ok b" and "nb_position b = 0" and "crypt (sd_encrypt s) (ahead b) = (ys, k)" and "length ys = length (ahead b)"
  shows "\<exists>b'. encrypt_part crypt 0 (nb_limit b) b s = Some (b', s\<lparr>sd_encrypt := k\<rparr>) \<and> nbb_ok b' \<and> ahead b' = ys"
proof -
  note d = nbb_okD [OF assms(1)]
  have a: "ahead b = take (unat (nb_limit b)) (nb_buffer b)" using assms(2) by (simp add: ahead_def)
  have l: "length ys = unat (nb_limit b)" using assms(4) d by (simp add: a)
  let ?b = "b\<lparr>nb_buffer := put_at (nb_buffer b) 0 ys\<rparr>"
  have "encrypt_part crypt 0 (nb_limit b) b s = Some (?b, s\<lparr>sd_encrypt := k\<rparr>)"
    using encrypt_part_ok [of 0 "nb_limit b" b crypt s ys k] d l assms(3) by (simp add: a)
  moreover have "nbb_ok ?b" using assms(1) d l by (intro put_nbb_ok) simp_all
  moreover have "ahead ?b = ys" using assms(2) l by (simp add: ahead_def put_at_def)
  ultimately show ?thesis by blast
qed

lemma write_encrypted:
  assumes "emits f h" and "nbb_ok b" and "unat (nb_position b) + length h = unat (nb_limit b)" and "unat n = length h"
    and "crypt (sd_encrypt s) h = (ys, k)" and "length ys = length h"
  shows "\<exists>b'. (do { b \<leftarrow> f b; encrypt_part crypt (nb_limit b - n) n b s }) = Some (b', s\<lparr>sd_encrypt := k\<rparr>) \<and>
    nbb_ok b' \<and> ahead (rewind b') = behind b @ ys"
proof -
  note d = nbb_okD [OF assms(2)]
  let ?p = "unat (nb_position b)" and ?m = "nb_buffer b"
  have fit: "?p + length h \<le> unat (nb_limit b)" using assms(3) by simp
  have f: "f b = Some (wrote h b)" using assms(1,2) fit unfolding emits_def by blast
  note w = wrote_ok [OF assms(2) fit]
  have at: "unat (nb_limit b - n) = ?p" using assms(3,4) by (simp add: unat_sub word_le_nat_alt)
  have big: "?p + length h \<le> length ?m" using fit d by simp
  let ?b = "(wrote h b)\<lparr>nb_buffer := put_at ?m ?p ys\<rparr>"
  have again: "put_at (put_at ?m ?p h) ?p ys = put_at ?m ?p ys" using big assms(6) by (simp add: put_at_def)
  have "take (length h) (drop ?p (put_at ?m ?p h)) = h" using big by (rule drop_put_at)
  then have "encrypt_part crypt (nb_limit b - n) n (wrote h b) s = Some (?b, s\<lparr>sd_encrypt := k\<rparr>)"
    using encrypt_part_ok [of "nb_limit b - n" n "wrote h b" crypt s ys k] at assms(4-6) big again by (simp add: wrote_def)
  moreover have "nbb_ok ?b" using w(1) big assms(6) by (intro put_nbb_ok) (simp_all add: wrote_def)
  moreover have "ahead (rewind ?b) = behind b @ ys"
    using w(4) fit assms(3,6) big by (simp add: ahead_def rewind_def behind_def put_at_def wrote_def)
  ultimately show ?thesis using f w(4) by (intro exI [of _ ?b]) simp
qed

text \<open>\<open>packetLength\<close> for a packet of \<open>n\<close> bytes, padding included.\<close>

definition length_word :: "ProtocolType \<Rightarrow> nat \<Rightarrow> u32" where
  "length_word t n = (if t = ProtocolTypeEF then word_of_nat (n div 4) else word_of_nat n)"

lemma short_head:
  assumes "w < (0x7f :: u32)"
  shows "ucast (w OR push_bit 7 1) = (ucast w OR 0x80 :: byte)"
  by (simp add: unsigned_or_eq)

lemma sent_head_length: "length (sent_head t reportAck n) = (if t = ProtocolTypeEF \<and> n div 4 < 0x7f then 1 else 4)"
  by (simp add: sent_head_def frame_head_length Let_def)

lemma write_length_ok:
  assumes n: "n < 2 ^ 25" and b: "nbb_ok b" "unat (nb_position b) + length (sent_head t reportAck n) = unat (nb_limit b)"
    and t: "sd_currentProtocolType s = t" and c: "crypt (sd_encrypt s) (sent_head t reportAck n) = (ys, k)" "length ys = length (sent_head t reportAck n)"
  shows "\<exists>b'. write_length crypt reportAck (length_word t n) b s = Some (b', s\<lparr>sd_encrypt := k\<rparr>) \<and> nbb_ok b' \<and> ahead (rewind b') = behind b @ ys"
proof -
  let ?w = "length_word t n" and ?h = "sent_head t reportAck n"
  note l = sent_head_length [of t reportAck n]
  have u: "unat (word_of_nat (n div 4) :: u32) = n div 4" using n by (intro unat_len) simp
  show ?thesis
  proof (cases "t = ProtocolTypeEF \<and> n div 4 < 0x7f")
    case True
    then have w: "?w < 0x7f" "?w = word_of_nat (n div 4)" using u by (simp_all add: length_word_def word_less_nat_alt)
    have e: "[ucast (if reportAck then ?w OR push_bit 7 1 else ?w)] = ?h"
    proof -
      have "unat ?w = n div 4" using w(2) u by simp
      then have "ucast ?w = (word_of_nat (n div 4) :: byte)" using of_nat_unat [of ?w, where 'a = "8 word"] by simp
      then show ?thesis using True short_head [OF w(1)] by (simp add: sent_head_def frame_head_def Let_def)
    qed
    then have em: "emits (writeByte (ucast (if reportAck then ?w OR push_bit 7 1 else ?w))) ?h" using emits_writeByte by metis
    have eq: "write_length crypt reportAck ?w b s =
        (do { b \<leftarrow> writeByte (ucast (if reportAck then ?w OR push_bit 7 1 else ?w)) b; encrypt_part crypt (nb_limit b - 1) 1 b s })"
      using True t w(1) by (simp add: write_length_def)
    have "unat (1 :: u32) = length ?h" using True l by simp
    from write_encrypted [where crypt = crypt and s = s, OF em b this c] show ?thesis unfolding eq .
  next
    case False
    have "\<exists>x. emits (writeInt32 x) ?h \<and> write_length crypt reportAck ?w b s = (do { b \<leftarrow> writeInt32 x b; encrypt_part crypt (nb_limit b - 4) 4 b s })"
    proof (cases "t = ProtocolTypeEF")
      case True
      have big: "\<not> ?w < 0x7f" using True False u by (simp add: length_word_def word_less_nat_alt)
      let ?x = "push_bit 8 ?w + 0x7f"
      have x: "?x = word_of_nat (n div 4 * 256 + 0x7f)" using True by (simp add: length_word_def push_bit_eq_mult)
      have "int_bytes (if reportAck then ?x OR push_bit 7 1 else ?x) = ?h"
        using True False int_bytes_flags(1) [of ?x] unfolding x by (simp add: sent_head_def frame_head_def Let_def)
      then show ?thesis using emits_writeInt32 True t big
        by (intro exI [of _ "if reportAck then ?x OR push_bit 7 1 else ?x"]) (metis (no_types, lifting) write_length_def)
    next
      case False
      have "int_bytes (if reportAck then ?w OR 0x80000000 else ?w) = ?h"
        using False int_bytes_flags(2) [of ?w] by (simp add: sent_head_def frame_head_def length_word_def Let_def)
      then show ?thesis using emits_writeInt32 False t
        by (intro exI [of _ "if reportAck then ?w OR 0x80000000 else ?w"]) (metis (no_types, lifting) write_length_def)
    qed
    then obtain x where x: "emits (writeInt32 x) ?h"
        "write_length crypt reportAck ?w b s = (do { b \<leftarrow> writeInt32 x b; encrypt_part crypt (nb_limit b - 4) 4 b s })" by blast
    have "unat (4 :: u32) = length ?h" using False l by simp
    from write_encrypted [where crypt = crypt and s = s, OF x(1) b this c] show ?thesis unfolding x(2) .
  qed
qed

lemma queue_ok:
  assumes "can_send s" and "nbb_ok b"
  shows "can_send (queue b s)" and "outgoing (queue b s) = outgoing s @ ahead b"
  using assms
  by (auto simp: can_send_def queue_def writeBuffer_def adjust_queue_def append_buffer_def ByteStream_append_def stream_inv_def outgoing_def contents_def)

lemma queue_frame [simp]:
  "sd_encrypt (queue b s) = sd_encrypt s" "sd_decrypt (queue b s) = sd_decrypt s" "sd_currentProtocolType (queue b s) = sd_currentProtocolType s"
  "sd_firstPacketSent (queue b s) = sd_firstPacketSent s"
  by (simp_all add: queue_def)

lemma can_send_cipher [simp]: "can_send (s\<lparr>sd_encrypt := k\<rparr>) = can_send s" "outgoing (s\<lparr>sd_encrypt := k\<rparr>) = outgoing s"
  by (simp_all add: can_send_def outgoing_def)

subsection \<open>The encryption of a connection\<close>

locale obfuscation = stream_cipher crypt usable
  for crypt :: "byte list ctr_state \<Rightarrow> byte list \<Rightarrow> byte list \<times> byte list ctr_state" and usable :: "byte list ctr_state \<Rightarrow> bool" +
  assumes usable_start: "length temp = 48 \<Longrightarrow> usable (cipher_from temp)" and crypt_Nil: "crypt k [] = ([], k)"
begin

lemma send_parts_ok:
  assumes s: "can_send s" "sd_currentProtocolType s = t" "usable (sd_encrypt s)"
    and h: "nbb_ok buffer1" "unat (nb_position buffer1) + length (sent_head t reportAck n) = unat (nb_limit buffer1)"
    and b: "nbb_ok buff" "nb_position buff = 0" and p: "pred_option (\<lambda>b. nbb_ok b \<and> nb_position b = 0) buffer2"
    and n: "n = length (ahead buff) + length (case buffer2 of None \<Rightarrow> [] | Some b \<Rightarrow> ahead b)" "n < 2 ^ 25"
    and c: "crypt (sd_encrypt s) (sent_frame t reportAck (ahead buff) (case buffer2 of None \<Rightarrow> [] | Some b \<Rightarrow> ahead b)) = (ys, k)"
  shows "\<exists>s'. send_parts crypt reportAck (length_word t n) buffer1 buff buffer2 s = Some s' \<and> can_send s' \<and>
    outgoing s' = outgoing s @ behind buffer1 @ ys \<and> sd_encrypt s' = k \<and> usable k \<and> sd_decrypt s' = sd_decrypt s \<and>
    sd_currentProtocolType s' = t \<and> sd_firstPacketSent s' = sd_firstPacketSent s"
proof -
  let ?h = "sent_head t reportAck n" and ?p = "case buffer2 of None \<Rightarrow> [] | Some b \<Rightarrow> ahead b"
  have "crypt (sd_encrypt s) (?h @ ahead buff @ ?p) = (ys, k)" using c n(1) by (simp add: sent_frame_def)
  then obtain y1 k1 y' where 1: "crypt (sd_encrypt s) ?h = (y1, k1)" "crypt k1 (ahead buff @ ?p) = (y', k)" "ys = y1 @ y'" "length y1 = length ?h" "usable k1"
    by (rule crypt_split [OF _ s(3)])
  obtain y2 k2 y3 where 2: "crypt k1 (ahead buff) = (y2, k2)" "crypt k2 ?p = (y3, k)" "y' = y2 @ y3" "length y2 = length (ahead buff)" "usable k2"
    by (rule crypt_split [OF 1(2) 1(5)])
  have 3: "length y3 = length ?p" "usable k" using crypt_length [OF 2(5,2)] crypt_usable [OF 2(5,2)] by simp_all
  obtain b1 where b1: "write_length crypt reportAck (length_word t n) buffer1 s = Some (b1, s\<lparr>sd_encrypt := k1\<rparr>)" "nbb_ok b1" "ahead (rewind b1) = behind buffer1 @ y1"
    using write_length_ok [where crypt = crypt and s = s, OF n(2) h s(2) 1(1,4)] by blast
  have r: "nbb_ok (rewind b1)" "rewind buff = buff" using b1(2) b by (simp_all add: nbb_ok_def rewind_def)
  let ?s1 = "queue (rewind b1) (s\<lparr>sd_encrypt := k1\<rparr>)"
  have s1: "can_send ?s1" "outgoing ?s1 = outgoing s @ behind buffer1 @ y1" using queue_ok [of "s\<lparr>sd_encrypt := k1\<rparr>" "rewind b1"] s(1) r(1) b1(3) by simp_all
  obtain b2 where b2: "encrypt_part crypt 0 (nb_limit buff) buff ?s1 = Some (b2, ?s1\<lparr>sd_encrypt := k2\<rparr>)" "nbb_ok b2" "ahead b2 = y2"
    using encrypt_whole [OF b, of crypt ?s1 y2 k2] 2(1,4) by auto
  let ?s2 = "queue b2 (?s1\<lparr>sd_encrypt := k2\<rparr>)"
  have s2: "can_send ?s2" "outgoing ?s2 = outgoing s @ behind buffer1 @ y1 @ y2" using queue_ok [of "?s1\<lparr>sd_encrypt := k2\<rparr>" b2] s1 b2 by simp_all
  show ?thesis
  proof (cases buffer2)
    case None
    then have "y3 = []" "k = k2" using 2(2) crypt_Nil [of k2] by simp_all
    then show ?thesis using None b1(1) b2(1) r(2) s2 1(3) 2(3) 3(2) s(2) by (simp add: send_parts_def)
  next
    case (Some b)
    then obtain b3 where b3: "encrypt_part crypt 0 (nb_limit b) b ?s2 = Some (b3, ?s2\<lparr>sd_encrypt := k\<rparr>)" "nbb_ok b3" "ahead b3 = y3"
      using encrypt_whole [of b crypt ?s2 y3 k] p 2(2) 3(1) by auto
    then show ?thesis using Some b1(1) b2(1) r(2) s2 queue_ok [of "?s2\<lparr>sd_encrypt := k\<rparr>" b3] 1(3) 2(3) 3(2) s(2) by (simp add: send_parts_def)
  qed
qed

end

lemma draw_start_ok:
  assumes "start_ok (map (random (n + k)) [0..<64])"
  shows "\<exists>m. draw_start random n = Some (map (random m) [0..<64]) \<and> start_ok (map (random m) [0..<64])"
  using assms
proof (induction k arbitrary: n)
  case 0
  then show ?case by (subst draw_start.simps) (auto simp: Let_def)
next
  case (Suc k)
  then show ?case using Suc.IH [of "n + 1"] by (subst draw_start.simps) (auto simp: Let_def)
qed

lemma mark_start_ok:
  assumes "length bytes = 64"
  shows "length (mark_start env u s bytes) = 64" and "take 56 (mark_start env u s bytes) = take 56 bytes"
    and "take 4 (drop 56 (mark_start env u s bytes)) = replicate 4 (protocol_tag (sd_currentProtocolType s))"
proof -
  have "take 4 (drop 56 (mark_start env u s bytes)) = map ((!) (mark_start env u s bytes)) [56, 57, 58, 59]"
    using assms by (intro nth_equalityI) (auto simp: mark_start_def Let_def less_Suc_eq numeral_eq_Suc)
  then show "take 4 (drop 56 (mark_start env u s bytes)) = replicate 4 (protocol_tag (sd_currentProtocolType s))"
    using assms by (simp add: mark_start_def Let_def numeral_eq_Suc)
qed (use assms in \<open>simp_all add: mark_start_def Let_def\<close>)

lemma take_buffer_ok:
  assumes "can_send s" and "unat n < 2 ^ 31"
  shows "\<exists>b x. take_buffer E n s = (b, s\<lparr>sd_socket := x\<rparr>) \<and> can_send (s\<lparr>sd_socket := x\<rparr>) \<and> ready n b \<and> outgoing (s\<lparr>sd_socket := x\<rparr>) = outgoing s"
proof -
  obtain b pool where g: "getFreeBuffer E n (so_pool (sd_socket s)) = (b, pool)" by fastforce
  have st: "storage_ok (so_pool (sd_socket s))" using assms(1) by (simp add: can_send_def stream_inv_def)
  show ?thesis using storage.get_ready [OF st assms(2) g] storage.get_ok [OF st assms(2) g] g assms(1)
    by (auto simp: take_buffer_def can_send_def stream_inv_def outgoing_def)
qed

text \<open>The keys of the two directions, from the start of the stream.\<close>

definition reversed_start :: "byte list \<Rightarrow> byte list" where
  "reversed_start bytes = map (\<lambda>a. bytes ! (55 - a)) [0..<48]"

lemma length_encryptKey [simp]: "length bytes = 48 \<Longrightarrow> length (encryptKeyWithSecret F env s u bytes) = 48"
  by (simp add: encryptKeyWithSecret_def Let_def)

context obfuscation
begin

lemma begin_stream_ok:
  assumes b: "ready n b" "64 \<le> unat n" and d: "draw_start (se_start env) 0 = Some bytes" "length bytes = 64"
    and m: "marked = mark_start env u s bytes" and e: "e = cipher_from (encryptKeyWithSecret F env s u (take 48 (drop 8 marked)))"
    and c: "crypt e marked = (out, k)"
  shows "\<exists>b'. begin_stream crypt F env u b s = Some (b', s\<lparr>sd_encrypt := k,
      sd_decrypt := cipher_from (encryptKeyWithSecret F env s u (reversed_start marked)), sd_firstPacketSent := True\<rparr>) \<and>
    nbb_ok b' \<and> nb_position b' = 64 \<and> nb_limit b' = n \<and> behind b' = take 56 marked @ drop 56 out \<and> usable k \<and> length out = 64"
proof -
  have lm: "length marked = 64" using m mark_start_ok(1) [OF d(2)] by simp
  have u: "usable e" using e lm by (intro usable_start [of "encryptKeyWithSecret F env s u (take 48 (drop 8 marked))", folded e]) simp
  have lo: "length out = 64" "usable k" using crypt_length [OF u c] crypt_usable [OF u c] lm by simp_all
  let ?x = "take 56 marked @ take 8 (drop 56 out)"
  have p: "position_set 64 b = b\<lparr>nb_position := 64\<rparr>" using b by (simp add: position_set_def ready_def word_less_nat_alt)
  have ok: "nbb_ok b" "nb_limit b = n" using b(1) by (simp_all add: ready_def)
  note dd = nbb_okD [OF ok(1)]
  have lx: "length ?x = 64" using lm lo by simp
  have "poke 0 ?x (b\<lparr>nb_position := 64\<rparr>) = Some (b\<lparr>nb_position := 64, nb_buffer := put_at (nb_buffer b) 0 ?x\<rparr>)"
    using poke_eq [of 0 ?x "b\<lparr>nb_position := 64\<rparr>"] lx dd ok(2) b(2) by simp
  moreover have "nbb_ok (b\<lparr>nb_position := 64, nb_buffer := put_at (nb_buffer b) 0 ?x\<rparr>)"
    using ok dd b(2) lx by (simp add: nbb_ok_def word_le_nat_alt)
  moreover have "behind (b\<lparr>nb_position := 64, nb_buffer := put_at (nb_buffer b) 0 ?x\<rparr>) = take 56 marked @ drop 56 out"
    using lm lo by (simp add: behind_def put_at_def)
  ultimately show ?thesis using d(1) m e c lo ok(2) p
    by (auto simp: begin_stream_def reversed_start_def Let_def)
qed

end

text \<open>A call of \<open>sendData\<close>: what it is given, and the packet it sends.\<close>

record send_call =
  sc_env :: send_env
  sc_buff :: NativeByteBuffer
  sc_reportAck :: bool
  sc_encrypted :: bool

definition call_body :: "send_call \<Rightarrow> byte list" where
  "call_body c = ahead (rewind (sc_buff c))"

definition call_padding :: "ProtocolType \<Rightarrow> send_call \<Rightarrow> byte list" where
  "call_padding t c = (if t = ProtocolTypeEF then []
     else map (se_padding (sc_env c)) [0..<unat (if sc_encrypted c then se_size (sc_env c) mod 16 else se_size (sc_env c) mod 257)])"

definition call_ok :: "ProtocolType \<Rightarrow> send_call \<Rightarrow> bool" where
  "call_ok t c \<longleftrightarrow> t \<noteq> ProtocolTypeEE \<and> nbb_ok (sc_buff c) \<and> length (call_body c) < 2 ^ 24"

definition call_frame :: "ProtocolType \<Rightarrow> send_call \<Rightarrow> byte list" where
  "call_frame t c = sent_frame t (sc_reportAck c) (call_body c) (call_padding t c)"

lemma packet_sizes_ok:
  assumes "call_ok t c"
  shows "\<exists>m k. packet_sizes (sc_env c) (sc_encrypted c) t (nb_limit (sc_buff c)) = (length_word t (length (call_body c) + length (call_padding t c)), m, k) \<and>
    unat m = length (sent_head t (sc_reportAck c) (length (call_body c) + length (call_padding t c))) \<and>
    unat k = length (call_padding t c) \<and> unat k \<le> 256"
proof -
  have l: "unat (nb_limit (sc_buff c)) = length (call_body c)" "length (call_body c) < 2 ^ 24" "t \<noteq> ProtocolTypeEE"
    using assms nbb_okD [of "sc_buff c"] by (auto simp: call_ok_def call_body_def ahead_def rewind_def)
  have lim: "nb_limit (sc_buff c) = word_of_nat (length (call_body c))" using l(1) by (metis of_nat_unat unsigned_ucast_eq ucast_id)
  show ?thesis
  proof (cases "t = ProtocolTypeEF")
    case True
    have "unat (nb_limit (sc_buff c) div 4) = length (call_body c) div 4" using l(1) by (simp add: unat_div_distrib)
    moreover have "nb_limit (sc_buff c) div 4 = word_of_nat (length (call_body c) div 4)"
      using calculation l(2) by (simp add: word_unat_eq_iff unat_len)
    ultimately show ?thesis using True
      by (simp add: packet_sizes_def call_padding_def length_word_def sent_head_length word_less_nat_alt Let_def)
  next
    case False
    let ?k = "if sc_encrypted c then se_size (sc_env c) mod 16 else se_size (sc_env c) mod 257"
    have "unat ?k < 257" by (auto simp: unat_mod_distrib intro: less_trans [of _ 16])
    then have "unat ?k \<le> 256" by simp
    then show ?thesis using False l(3) lim
      by (cases t) (auto simp: packet_sizes_def call_padding_def length_word_def sent_head_length Let_def)
  qed
qed

lemma padding_buffer_ok:
  assumes "can_send s" and "unat n \<le> 256"
  shows "\<exists>p x. padding_buffer E env n s = Some (p, s\<lparr>sd_socket := x\<rparr>) \<and> can_send (s\<lparr>sd_socket := x\<rparr>) \<and> outgoing (s\<lparr>sd_socket := x\<rparr>) = outgoing s \<and>
    pred_option (\<lambda>b. nbb_ok b \<and> nb_position b = 0) p \<and> (case p of None \<Rightarrow> [] | Some b \<Rightarrow> ahead b) = map (se_padding env) [0..<unat n]"
proof (cases "n > 0")
  case True
  have n31: "unat n < 2 ^ 31" using assms(2) by simp
  obtain b x where b: "take_buffer E n s = (b, s\<lparr>sd_socket := x\<rparr>)" "can_send (s\<lparr>sd_socket := x\<rparr>)" "ready n b" "outgoing (s\<lparr>sd_socket := x\<rparr>) = outgoing s"
    using take_buffer_ok [OF assms(1) n31] by blast
  let ?p = "map (se_padding env) [0..<unat n]"
  let ?b = "b\<lparr>nb_buffer := put_at (nb_buffer b) 0 ?p\<rparr>"
  have r: "nbb_ok b" "nb_position b = 0" "nb_limit b = n" using b(3) by (simp_all add: ready_def)
  note d = nbb_okD [OF r(1)]
  have "poke 0 ?p b = Some ?b" using poke_eq [of 0 ?p b] d r(3) by simp
  moreover have "nbb_ok ?b" using r d by (intro put_nbb_ok) simp_all
  moreover have "ahead ?b = ?p" using r by (simp add: ahead_def put_at_def)
  ultimately show ?thesis using True b r(2) unfolding padding_buffer_def by (intro exI [of _ "Some ?b"] exI [of _ x]) simp
next
  case False
  then show ?thesis using assms by (intro exI [of _ None] exI [of _ "sd_socket s"]) (simp add: padding_buffer_def word_less_nat_alt)
qed

lemma call_padding_map: "map (se_padding (sc_env c)) [0..<length (call_padding t c)] = call_padding t c"
  by (simp add: call_padding_def)

lemma sendData_open:
  assumes "can_send s"
  shows "sendData crypt F E env (Some buff) reportAck encrypted s = send_packet crypt F E env (rewind buff) reportAck encrypted s"
  using assms by (auto simp: sendData_def can_send_def)

context obfuscation
begin

lemma send_call:
  assumes s: "can_send s" "sd_currentProtocolType s = t" "usable (sd_encrypt s)" and c: "call_ok t c"
    and e: "crypt (sd_encrypt s) (call_frame t c) = (ys, k)"
    and r: "nbb_ok b1" "unat (nb_position b1) + length (sent_head t (sc_reportAck c) (length (call_body c) + length (call_padding t c))) = unat (nb_limit b1)"
    and p: "pred_option (\<lambda>b. nbb_ok b \<and> nb_position b = 0) p" "(case p of None \<Rightarrow> [] | Some b \<Rightarrow> ahead b) = call_padding t c"
    and z: "length (call_padding t c) \<le> 256"
  shows "\<exists>s'. send_parts crypt (sc_reportAck c) (length_word t (length (call_body c) + length (call_padding t c))) b1 (rewind (sc_buff c)) p s = Some s' \<and>
    can_send s' \<and> outgoing s' = outgoing s @ behind b1 @ ys \<and> sd_encrypt s' = k \<and> usable k \<and> sd_decrypt s' = sd_decrypt s \<and>
    sd_currentProtocolType s' = t \<and> sd_firstPacketSent s' = sd_firstPacketSent s"
proof (rule send_parts_ok)
  let ?n = "length (call_body c) + length (call_padding t c)" and ?buff = "rewind (sc_buff c)"
  have b: "nbb_ok ?buff" "nb_position ?buff = 0" "ahead ?buff = call_body c" "length (call_body c) < 2 ^ 24"
    using c by (simp_all add: call_ok_def call_body_def nbb_ok_def rewind_def)
  show "can_send s" "sd_currentProtocolType s = t" "usable (sd_encrypt s)" by (rule s)+
  show "nbb_ok b1" "unat (nb_position b1) + length (sent_head t (sc_reportAck c) ?n) = unat (nb_limit b1)" by (rule r)+
  show "nbb_ok ?buff" "nb_position ?buff = 0" by (rule b)+
  show "pred_option (\<lambda>b. nbb_ok b \<and> nb_position b = 0) p" by (rule p)
  show "?n = length (ahead ?buff) + length (case p of None \<Rightarrow> [] | Some b \<Rightarrow> ahead b)" unfolding p(2) b(3) ..
  show "?n < 2 ^ 25" using b(4) z by simp
  show "crypt (sd_encrypt s) (sent_frame t (sc_reportAck c) (ahead ?buff) (case p of None \<Rightarrow> [] | Some b \<Rightarrow> ahead b)) = (ys, k)"
    using e unfolding p(2) b(3) call_frame_def .
qed

text \<open>The buffers of a packet, \<open>extra\<close> bytes in front of its length.\<close>

lemma call_buffers:
  assumes s: "can_send s" and c: "call_ok t c" and x: "unat extra \<le> 64"
  shows "\<exists>m z b1 p x1 x2. packet_sizes (sc_env c) (sc_encrypted c) t (nb_limit (sc_buff c)) =
      (length_word t (length (call_body c) + length (call_padding t c)), m, z) \<and>
    take_buffer E (m + extra) s = (b1, s\<lparr>sd_socket := x1\<rparr>) \<and> ready (m + extra) b1 \<and>
    unat (m + extra) = length (sent_head t (sc_reportAck c) (length (call_body c) + length (call_padding t c))) + unat extra \<and>
    padding_buffer E (sc_env c) z (s\<lparr>sd_socket := x1\<rparr>) = Some (p, s\<lparr>sd_socket := x2\<rparr>) \<and>
    can_send (s\<lparr>sd_socket := x2\<rparr>) \<and> outgoing (s\<lparr>sd_socket := x2\<rparr>) = outgoing s \<and>
    pred_option (\<lambda>b. nbb_ok b \<and> nb_position b = 0) p \<and> (case p of None \<Rightarrow> [] | Some b \<Rightarrow> ahead b) = call_padding t c \<and>
    length (call_padding t c) \<le> 256"
proof -
  let ?n = "length (call_body c) + length (call_padding t c)"
  obtain m z where z: "packet_sizes (sc_env c) (sc_encrypted c) t (nb_limit (sc_buff c)) = (length_word t ?n, m, z)"
      "unat m = length (sent_head t (sc_reportAck c) ?n)" "unat z = length (call_padding t c)" "unat z \<le> 256"
    using packet_sizes_ok [OF c] by blast
  have m4: "unat m \<le> 4" using z(2) sent_head_length [of t "sc_reportAck c" ?n] by (simp split: if_splits)
  then have m: "unat (m + extra) = unat m + unat extra" using x by (simp add: unat_word_ariths)
  then have m31: "unat (m + extra) < 2 ^ 31" using m4 x by simp
  obtain b1 x1 where 1: "take_buffer E (m + extra) s = (b1, s\<lparr>sd_socket := x1\<rparr>)" "can_send (s\<lparr>sd_socket := x1\<rparr>)" "ready (m + extra) b1"
      "outgoing (s\<lparr>sd_socket := x1\<rparr>) = outgoing s"
    using take_buffer_ok [OF s m31] by blast
  obtain p x2 where 2: "padding_buffer E (sc_env c) z (s\<lparr>sd_socket := x1\<rparr>) = Some (p, s\<lparr>sd_socket := x2\<rparr>)" "can_send (s\<lparr>sd_socket := x2\<rparr>)"
      "outgoing (s\<lparr>sd_socket := x2\<rparr>) = outgoing (s\<lparr>sd_socket := x1\<rparr>)"
      "pred_option (\<lambda>b. nbb_ok b \<and> nb_position b = 0) p" "(case p of None \<Rightarrow> [] | Some b \<Rightarrow> ahead b) = map (se_padding (sc_env c)) [0..<unat z]"
    using padding_buffer_ok [OF 1(2) z(4), of E "sc_env c"] by auto
  have "map (se_padding (sc_env c)) [0..<unat z] = call_padding t c" unfolding z(3) by (rule call_padding_map)
  then show ?thesis using z m 1 2
    by (intro exI [of _ m] exI [of _ z] exI [of _ b1] exI [of _ p] exI [of _ x1] exI [of _ x2] conjI) simp_all
qed

text \<open>A later packet.\<close>

lemma sendData_next:
  assumes s: "can_send s" "sd_firstPacketSent s" "sd_currentProtocolType s = t" "usable (sd_encrypt s)" and c: "call_ok t c"
    and e: "crypt (sd_encrypt s) (call_frame t c) = (ys, k)"
  shows "\<exists>s'. sendData crypt F E (sc_env c) (Some (sc_buff c)) (sc_reportAck c) (sc_encrypted c) s = Some s' \<and> can_send s' \<and>
    outgoing s' = outgoing s @ ys \<and> sd_encrypt s' = k \<and> usable k \<and> sd_decrypt s' = sd_decrypt s \<and> sd_currentProtocolType s' = t \<and> sd_firstPacketSent s'"
proof -
  let ?n = "length (call_body c) + length (call_padding t c)"
  obtain m z b1 p x1 x2 where b: "packet_sizes (sc_env c) (sc_encrypted c) t (nb_limit (sc_buff c)) = (length_word t ?n, m, z)"
      "take_buffer E (m + 0) s = (b1, s\<lparr>sd_socket := x1\<rparr>)" "ready (m + 0) b1" "unat (m + 0) = length (sent_head t (sc_reportAck c) ?n) + unat (0 :: u32)"
      "padding_buffer E (sc_env c) z (s\<lparr>sd_socket := x1\<rparr>) = Some (p, s\<lparr>sd_socket := x2\<rparr>)"
      "can_send (s\<lparr>sd_socket := x2\<rparr>)" "outgoing (s\<lparr>sd_socket := x2\<rparr>) = outgoing s"
      "pred_option (\<lambda>b. nbb_ok b \<and> nb_position b = 0) p" "(case p of None \<Rightarrow> [] | Some b \<Rightarrow> ahead b) = call_padding t c" "length (call_padding t c) \<le> 256"
    using call_buffers [OF s(1) c, of 0 E] by auto
  let ?s = "s\<lparr>sd_socket := x2\<rparr>"
  have r: "nbb_ok b1" "unat (nb_position b1) + length (sent_head t (sc_reportAck c) ?n) = unat (nb_limit b1)" "behind b1 = []"
    using b(3,4) by (simp_all add: ready_def behind_def)
  obtain s' where s': "send_parts crypt (sc_reportAck c) (length_word t ?n) b1 (rewind (sc_buff c)) p ?s = Some s'" "can_send s'"
      "outgoing s' = outgoing ?s @ behind b1 @ ys" "sd_encrypt s' = k" "usable k" "sd_decrypt s' = sd_decrypt ?s"
      "sd_currentProtocolType s' = t" "sd_firstPacketSent s' = sd_firstPacketSent ?s"
    using send_call [OF b(6) _ _ c _ r(1,2) b(8-10), of ys k] s(3,4) e by auto
  have "send_packet crypt F E (sc_env c) (rewind (sc_buff c)) (sc_reportAck c) (sc_encrypted c) s = Some s'"
    using s(2,3) b(1,2,5) s'(1) by (simp add: send_packet_def rewind_def)
  then show ?thesis using sendData_open [OF s(1)] s' b(7) r(3) s(2) by simp
qed

text \<open>The first packet, with the start of the stream in front.\<close>

lemma sendData_first:
  assumes s: "can_send s" "\<not> sd_firstPacketSent s" and t: "t = choose_protocol (sc_env c) (use_secret (sc_env c) s) s" and c: "call_ok t c"
    and d: "draw_start (se_start (sc_env c)) 0 = Some bytes" "length bytes = 64"
    and m: "marked = mark_start (sc_env c) (use_secret (sc_env c) s) (s\<lparr>sd_currentProtocolType := t\<rparr>) bytes"
    and e: "crypt (cipher_from (encryptKeyWithSecret F (sc_env c) s (use_secret (sc_env c) s) (take 48 (drop 8 marked)))) (marked @ call_frame t c) = (ys, k)"
  shows "\<exists>s'. sendData crypt F E (sc_env c) (Some (sc_buff c)) (sc_reportAck c) (sc_encrypted c) s = Some s' \<and> can_send s' \<and>
    outgoing s' = outgoing s @ take 56 marked @ drop 56 ys \<and> sd_encrypt s' = k \<and> usable k \<and>
    sd_decrypt s' = cipher_from (encryptKeyWithSecret F (sc_env c) s (use_secret (sc_env c) s) (reversed_start marked)) \<and>
    sd_currentProtocolType s' = t \<and> sd_firstPacketSent s'"
proof -
  let ?n = "length (call_body c) + length (call_padding t c)" and ?u = "use_secret (sc_env c) s" and ?s0 = "s\<lparr>sd_currentProtocolType := t\<rparr>"
  let ?key = "encryptKeyWithSecret F (sc_env c) s ?u"
  have s0: "can_send ?s0" using s(1) by (simp add: can_send_def)
  obtain l z b1 p x1 x2 where b: "packet_sizes (sc_env c) (sc_encrypted c) t (nb_limit (sc_buff c)) = (length_word t ?n, l, z)"
      "take_buffer E (l + 64) ?s0 = (b1, ?s0\<lparr>sd_socket := x1\<rparr>)" "ready (l + 64) b1" "unat (l + 64) = length (sent_head t (sc_reportAck c) ?n) + unat (64 :: u32)"
      "padding_buffer E (sc_env c) z (?s0\<lparr>sd_socket := x1\<rparr>) = Some (p, ?s0\<lparr>sd_socket := x2\<rparr>)"
      "can_send (?s0\<lparr>sd_socket := x2\<rparr>)" "outgoing (?s0\<lparr>sd_socket := x2\<rparr>) = outgoing ?s0"
      "pred_option (\<lambda>b. nbb_ok b \<and> nb_position b = 0) p" "(case p of None \<Rightarrow> [] | Some b \<Rightarrow> ahead b) = call_padding t c" "length (call_padding t c) \<le> 256"
    using call_buffers [OF s0 c, of 64 E] by auto
  let ?s1 = "?s0\<lparr>sd_socket := x2\<rparr>"
  have same: "encryptKeyWithSecret F (sc_env c) ?s1 ?u = ?key" "mark_start (sc_env c) ?u ?s1 bytes = marked"
    by (auto simp: encryptKeyWithSecret_def getCurrentSecret_def m mark_start_def)
  have lm: "length marked = 64" using m mark_start_ok(1) [OF d(2)] by simp
  have u: "usable (cipher_from (?key (take 48 (drop 8 marked))))" using lm by (intro usable_start) simp
  obtain y1 k1 y2 where y: "crypt (cipher_from (?key (take 48 (drop 8 marked)))) marked = (y1, k1)" "crypt k1 (call_frame t c) = (y2, k)" "ys = y1 @ y2"
      "length y1 = length marked" "usable k1"
    by (rule crypt_split [OF e u])
  obtain b2 where b2: "begin_stream crypt F (sc_env c) ?u b1 ?s1 = Some (b2, ?s1\<lparr>sd_encrypt := k1, sd_decrypt := cipher_from (?key (reversed_start marked)), sd_firstPacketSent := True\<rparr>)"
      "nbb_ok b2" "nb_position b2 = 64" "nb_limit b2 = l + 64" "behind b2 = take 56 marked @ drop 56 y1"
    using begin_stream_ok [OF b(3) _ d same(2) [symmetric] refl, where F = F] y(1) b(4) unfolding same by auto
  let ?s2 = "?s1\<lparr>sd_encrypt := k1, sd_decrypt := cipher_from (?key (reversed_start marked)), sd_firstPacketSent := True\<rparr>"
  have s2: "can_send ?s2" "outgoing ?s2 = outgoing s" using b(6,7) by (simp_all add: can_send_def outgoing_def)
  have r: "unat (nb_position b2) + length (sent_head t (sc_reportAck c) ?n) = unat (nb_limit b2)" using b(4) b2(3,4) by simp
  obtain s' where s': "send_parts crypt (sc_reportAck c) (length_word t ?n) b2 (rewind (sc_buff c)) p ?s2 = Some s'" "can_send s'"
      "outgoing s' = outgoing ?s2 @ behind b2 @ y2" "sd_encrypt s' = k" "usable k" "sd_decrypt s' = sd_decrypt ?s2"
      "sd_currentProtocolType s' = t" "sd_firstPacketSent s' = sd_firstPacketSent ?s2"
    using send_call [OF s2(1) _ _ c _ b2(2) r b(8-10), of y2 k] y(2,5) by auto
  have "send_packet crypt F E (sc_env c) (rewind (sc_buff c)) (sc_reportAck c) (sc_encrypted c) s = Some s'"
    using s(2) t b(1,2,5) b2(1) s'(1) by (simp add: send_packet_def rewind_def Let_def)
  then show ?thesis using sendData_open [OF s(1)] s' s2(2) b2(5) y(3,4) lm by simp
qed

end

fun sendAll ::
    "(byte list ctr_state \<Rightarrow> byte list \<Rightarrow> byte list \<times> byte list ctr_state) \<Rightarrow> crypto \<Rightarrow> mem_env \<Rightarrow> send_call list \<Rightarrow> Sending \<Rightarrow> Sending option" where
  "sendAll crypt F E [] s = Some s"
| "sendAll crypt F E (c # cs) s = do {
     s \<leftarrow> sendData crypt F E (sc_env c) (Some (sc_buff c)) (sc_reportAck c) (sc_encrypted c) s;
     sendAll crypt F E cs s
   }"

lemma start_ok_prefix:
  assumes "take 56 xs = take 56 ys" and "length xs \<ge> 56" and "length ys \<ge> 56"
  shows "start_ok xs \<longleftrightarrow> start_ok ys" and "take 48 (drop 8 xs) = take 48 (drop 8 ys)" and "reversed_start xs = reversed_start ys"
proof -
  have n: "xs ! i = ys ! i" if "i < 56" for i using assms(1) that by (metis nth_take)
  then show "start_ok xs \<longleftrightarrow> start_ok ys" using assms by (simp add: start_ok_def u32_of_def)
  show "take 48 (drop 8 xs) = take 48 (drop 8 ys)" using assms n by (intro nth_equalityI) simp_all
  show "reversed_start xs = reversed_start ys" using n by (simp add: reversed_start_def)
qed

context obfuscation
begin

lemma sendAll_next:
  assumes "can_send s" and "sd_firstPacketSent s" and "sd_currentProtocolType s = t" and "usable (sd_encrypt s)" and "\<forall>c \<in> set cs. call_ok t c"
    and "crypt (sd_encrypt s) (concat (map (call_frame t) cs)) = (ys, k)"
  shows "\<exists>s'. sendAll crypt F E cs s = Some s' \<and> outgoing s' = outgoing s @ ys \<and> sd_decrypt s' = sd_decrypt s"
  using assms
proof (induction cs arbitrary: s ys)
  case Nil
  then show ?case using crypt_Nil by simp
next
  case (Cons c cs)
  have "crypt (sd_encrypt s) (call_frame t c @ concat (map (call_frame t) cs)) = (ys, k)" using Cons.prems(6) by simp
  then obtain y1 k1 y2 where y: "crypt (sd_encrypt s) (call_frame t c) = (y1, k1)" "crypt k1 (concat (map (call_frame t) cs)) = (y2, k)" "ys = y1 @ y2"
    by (rule crypt_split [OF _ Cons.prems(4)])
  obtain s1 where s1: "sendData crypt F E (sc_env c) (Some (sc_buff c)) (sc_reportAck c) (sc_encrypted c) s = Some s1" "can_send s1"
      "outgoing s1 = outgoing s @ y1" "sd_encrypt s1 = k1" "usable k1" "sd_decrypt s1 = sd_decrypt s" "sd_currentProtocolType s1 = t" "sd_firstPacketSent s1"
    using sendData_next [OF Cons.prems(1-4) _ y(1), of F E] Cons.prems(5) by auto
  then show ?case using Cons.IH [of s1 y2] Cons.prems(5) y by auto
qed

lemma stream_start:
  assumes e: "usable e" and c: "crypt e (marked @ xs) = (ys, k)" and l: "length marked = 64"
  shows "fst (crypt e (take 56 marked @ drop 56 ys)) = take 56 ys @ drop 56 marked @ xs" and "length ys = 64 + length xs"
proof -
  show len: "length ys = 64 + length xs" using crypt_length [OF e c] l by simp
  have "crypt e (take 56 marked @ drop 56 marked @ xs) = (ys, k)" using c by (simp flip: append_assoc)
  then obtain o1 k1 o2 where s: "crypt e (take 56 marked) = (o1, k1)" "crypt k1 (drop 56 marked @ xs) = (o2, k)" "ys = o1 @ o2" "length o1 = 56"
    using crypt_split [OF _ e, of "take 56 marked" "drop 56 marked @ xs" ys k thesis] l by auto
  then show "fst (crypt e (take 56 marked @ drop 56 ys)) = take 56 ys @ drop 56 marked @ xs"
    using crypt_append [of e "take 56 marked" "drop 56 ys"] crypt_inverse [OF s(2)] by simp
qed

lemma sendAll_stream:
  fixes F :: crypto
  assumes s: "can_send s" "outgoing s = []" "\<not> sd_firstPacketSent s" and t: "t = choose_protocol (sc_env c) (use_secret (sc_env c) s) s"
    and c: "\<forall>d \<in> set (c # cs). call_ok t d" and n: "start_ok (map (se_start (sc_env c) n) [0..<64])"
  defines "key \<equiv> encryptKeyWithSecret F (sc_env c) s (use_secret (sc_env c) s)"
  shows "\<exists>s' w plain. sendAll crypt F E (c # cs) s = Some s' \<and> w = outgoing s' \<and> start_ok w \<and>
    plain = fst (crypt (cipher_from (key (take 48 (drop 8 w)))) w) \<and>
    take 4 (drop 56 plain) = replicate 4 (protocol_tag t) \<and> drop 64 plain = concat (map (call_frame t) (c # cs)) \<and>
    sd_decrypt s' = cipher_from (key (reversed_start w))"
proof -
  obtain m where m: "draw_start (se_start (sc_env c)) 0 = Some (map (se_start (sc_env c) m) [0..<64])" "start_ok (map (se_start (sc_env c) m) [0..<64])"
    using draw_start_ok [of "se_start (sc_env c)" 0 n] n by auto
  let ?bytes = "map (se_start (sc_env c) m) [0..<64]"
  define marked where "marked = mark_start (sc_env c) (use_secret (sc_env c) s) (s\<lparr>sd_currentProtocolType := t\<rparr>) ?bytes"
  have l: "length ?bytes = 64" by simp
  note k = mark_start_ok [OF l, of "sc_env c" "use_secret (sc_env c) s" "s\<lparr>sd_currentProtocolType := t\<rparr>", folded marked_def]
  let ?e = "cipher_from (key (take 48 (drop 8 marked)))" and ?fs = "concat (map (call_frame t) cs)"
  have u: "usable ?e" using k(1) by (intro usable_start) (simp add: key_def)
  obtain ys z where ys: "crypt ?e ((marked @ call_frame t c) @ ?fs) = (ys, z)" by fastforce
  then obtain y1 k1 y2 where y: "crypt ?e (marked @ call_frame t c) = (y1, k1)" "crypt k1 ?fs = (y2, z)" "ys = y1 @ y2" "length y1 = length (marked @ call_frame t c)"
    by (rule crypt_split [OF _ u])
  have ok: "call_ok t c" "\<forall>d \<in> set cs. call_ok t d" using c by simp_all
  obtain s1 where s1: "sendData crypt F E (sc_env c) (Some (sc_buff c)) (sc_reportAck c) (sc_encrypted c) s = Some s1" "can_send s1"
      "outgoing s1 = outgoing s @ take 56 marked @ drop 56 y1" "sd_encrypt s1 = k1" "usable k1"
      "sd_decrypt s1 = cipher_from (key (reversed_start marked))" "sd_currentProtocolType s1 = t" "sd_firstPacketSent s1"
    using sendData_first [OF s(1,3) t ok(1) m(1) l marked_def, of F y1 k1 E] y(1) unfolding key_def by blast
  obtain s2 where s2: "sendAll crypt F E cs s1 = Some s2" "outgoing s2 = outgoing s1 @ y2" "sd_decrypt s2 = sd_decrypt s1"
    using sendAll_next [OF s1(2,8,7) _ ok(2), of y2 z F E] s1(4,5) y(2) by auto
  let ?w = "take 56 marked @ drop 56 ys"
  have w: "outgoing s2 = ?w" using s2(2) s1(3) s(2) y(3,4) k(1) by simp
  have ys': "crypt ?e (marked @ concat (map (call_frame t) (c # cs))) = (ys, z)" using ys by simp
  note st = stream_start [OF u ys' k(1)]
  have p: "take 56 ?w = take 56 marked" "length ?w \<ge> 56" using k(1) st(2) by simp_all
  note q = start_ok_prefix [OF p, unfolded k(1)]
  have q': "start_ok ?w" "take 48 (drop 8 ?w) = take 48 (drop 8 marked)" "reversed_start ?w = reversed_start marked"
    using q start_ok_prefix(1) [of marked ?bytes] k(1,2) m(2) by simp_all
  have plain: "fst (crypt (cipher_from (key (take 48 (drop 8 ?w)))) ?w) = take 56 ys @ drop 56 marked @ concat (map (call_frame t) (c # cs))"
    unfolding q'(2) by (rule st(1))
  have ly: "length (take 56 ys) = 56" using st(2) by simp
  show ?thesis
  proof (intro exI conjI)
    show "sendAll crypt F E (c # cs) s = Some s2" using s1(1) s2(1) by simp
    show "outgoing s2 = outgoing s2" "fst (crypt (cipher_from (key (take 48 (drop 8 (outgoing s2))))) (outgoing s2)) =
        fst (crypt (cipher_from (key (take 48 (drop 8 (outgoing s2))))) (outgoing s2))" by (rule refl)+
    show "start_ok (outgoing s2)" unfolding w by (rule q'(1))
    show "take 4 (drop 56 (fst (crypt (cipher_from (key (take 48 (drop 8 (outgoing s2))))) (outgoing s2)))) = replicate 4 (protocol_tag t)"
      unfolding w plain using ly k(1,3) by simp
    show "drop 64 (fst (crypt (cipher_from (key (take 48 (drop 8 (outgoing s2))))) (outgoing s2))) = concat (map (call_frame t) (c # cs))"
      unfolding w plain using ly k(1) by simp
    show "sd_decrypt s2 = cipher_from (key (reversed_start (outgoing s2)))" unfolding w q'(3) using s2(3) s1(6) by simp
  qed
qed

end

interpretation sending: obfuscation "AES_ctr128_encrypt u AES_encrypt" ctr_ok for u AES_encrypt
proof
  show "ctr_ok (cipher_from temp)" if "length temp = 48" for temp using that by (simp add: ctr_ok_def cipher_from_def)
  show "AES_ctr128_encrypt u AES_encrypt k [] = ([], k)" for k by (simp add: AES_ctr128_encrypt_def CRYPTO_ctr128_encrypt_bytes)
qed

text \<open>C2. What a server reads.  On an open connection, whatever packets are sent one after the other, with or without a request for
  a quick acknowledgement: the calls of \<open>sendData\<close> return once an attempt to draw the start is accepted, and the bytes they
  queue start with 64 bytes that no rule of the protocol excludes and from whose bytes 8 to 55, hashed with the secret of the
  proxy if there is one, a server derives the cipher.  Under it the bytes 56 to 59 are the tag of the transport, and what
  follows the 64 bytes is exactly the framed packets in their order, with their padding.  The connection decrypts with the
  cipher of the same bytes read backwards.  Packets have less than 16 MB.\<close>

theorem server_reads_stream:
  assumes "can_send s" and "outgoing s = []" and "\<not> sd_firstPacketSent s" and "t = choose_protocol (sc_env c) (use_secret (sc_env c) s) s"
    and "\<forall>d \<in> set (c # cs). call_ok t d" and "start_ok (map (se_start (sc_env c) n) [0..<64])"
    and "key = encryptKeyWithSecret F (sc_env c) s (use_secret (sc_env c) s)"
  shows "\<exists>s' w plain. sendAll (AES_ctr128_encrypt u (cr_AES_encrypt F)) F E (c # cs) s = Some s' \<and> w = outgoing s' \<and> start_ok w \<and>
    plain = fst (AES_ctr128_encrypt u (cr_AES_encrypt F) (cipher_from (key (take 48 (drop 8 w)))) w) \<and>
    take 4 (drop 56 plain) = replicate 4 (protocol_tag t) \<and> drop 64 plain = concat (map (call_frame t) (c # cs)) \<and>
    sd_decrypt s' = cipher_from (key (reversed_start w))"
  unfolding assms(7) using assms(1-6) by (rule sending.sendAll_stream)

definition demo_send_env :: send_env where
  "demo_send_env = \<lparr>se_proxyAddress = '''', se_proxySecret = '''', se_datacenterId = 2, se_size = 0, se_padding = word_of_nat,
     se_start = (\<lambda>n i. word_of_nat (n + i + 1)), se_connect = id\<rparr>"

definition demo_sending :: Sending where
  "demo_sending = \<lparr>sd_connectionState = TcpConnectionStageConnected, sd_firstPacketSent = False, sd_currentProtocolType = ProtocolTypeEE,
     sd_isMediaConnection = False, sd_connectionType = 1, sd_secret = '''', sd_overrideProxyAddress = '''', sd_overrideProxySecret = '''',
     sd_encrypt = cipher_from [], sd_decrypt = cipher_from [],
     sd_socket = \<lparr>so_networkBuffer = NativeByteBuffer_alloc ample 8, so_outgoingByteStream = [], so_pool = BuffersStorage_new ample, so_closed = False\<rparr>\<rparr>"

definition demo_call :: send_call where
  "demo_call = \<lparr>sc_env = demo_send_env, sc_buff = NativeByteBuffer_slice [1, 2, 3, 4, 5, 6, 7, 8] 8, sc_reportAck = True, sc_encrypted = True\<rparr>"

theorem server_reads_stream_witness:
  "\<exists>s' w plain. sendAll (AES_ctr128_encrypt False (cr_AES_encrypt demo_crypto)) demo_crypto ample [demo_call, demo_call] demo_sending = Some s' \<and>
     w = outgoing s' \<and> plain = fst (AES_ctr128_encrypt False (cr_AES_encrypt demo_crypto) (cipher_from (take 48 (drop 8 w))) w) \<and>
     take 4 (drop 56 plain) = replicate 4 0xef \<and>
     drop 64 plain = [0x82, 1, 2, 3, 4, 5, 6, 7, 8, 0x82, 1, 2, 3, 4, 5, 6, 7, 8]"
proof -
  have s: "can_send demo_sending" "outgoing demo_sending = []" "\<not> sd_firstPacketSent demo_sending"
    by (simp_all add: can_send_def demo_sending_def stream_inv_def storage_ok_new outgoing_def contents_def)
  have e: "sc_env demo_call = demo_send_env" "use_secret demo_send_env demo_sending = 0" by (simp_all add: demo_call_def use_secret_def demo_send_env_def demo_sending_def)
  have t: "choose_protocol demo_send_env 0 demo_sending = ProtocolTypeEF" by (simp add: choose_protocol_def)
  have c: "call_body demo_call = [1, 2, 3, 4, 5, 6, 7, 8]" "nbb_ok (sc_buff demo_call)" "sc_reportAck demo_call"
    by (simp_all add: call_body_def demo_call_def NativeByteBuffer_slice_def ahead_def rewind_def nbb_ok_def)
  have ok: "\<forall>d \<in> set [demo_call, demo_call]. call_ok ProtocolTypeEF d" using c by (simp add: call_ok_def)
  have st: "start_ok (map (se_start demo_send_env 0) [0..<64])" by (simp add: start_ok_def demo_send_env_def u32_of_def Let_def)
  have k: "encryptKeyWithSecret demo_crypto demo_send_env demo_sending 0 = (\<lambda>bytes. bytes)" by (intro ext) (simp add: encryptKeyWithSecret_def)
  have f: "concat (map (call_frame ProtocolTypeEF) [demo_call, demo_call]) = [0x82, 1, 2, 3, 4, 5, 6, 7, 8, 0x82, 1, 2, 3, 4, 5, 6, 7, 8]"
    using c by (simp add: call_frame_def sent_frame_def sent_head_def call_padding_def frame_head_def)
  note r = server_reads_stream [OF s, of ProtocolTypeEF demo_call "[demo_call]" 0 "\<lambda>bytes. bytes" demo_crypto False ample, unfolded e t k f]
  show ?thesis using r [OF refl ok st refl] unfolding protocol_tag_def by (auto simp del: sendAll.simps)
qed

end
