(* ===== verification/Socket_Events.thy ===== *)
theory Socket_Events
  imports Byte_Stream "HOL-Library.Sublist"
begin

unbundle bit_operations_syntax

section \<open>ConnectionSocket: events and the SOCKS5 dialogue\<close>

text \<open>
  \<open>tgnet/ConnectionSocket.cpp\<close>: opening, closing, time-outs, and \<open>onEvent\<close> with all its branches.  The state is a record with the
  fields of the class; \<open>ks_calls\<close> also records what passes through the socket.  The answers of the system calls are arguments
  (\<open>open_env\<close>, \<open>event_env\<close>), as is what the connection does with its socket when it is told of data (\<open>ev_reaction\<close>).  The loop over
  \<open>recv\<close> is recursion over what the calls deliver.  \<^const>\<open>None\<close> is an access outside a buffer.

  \<open>socks5\<close> is the protocol a proxy expects, as an inductive set of runs; \<open>socket_reachable\<close> is the state machine of the class.
\<close>

subsection \<open>State\<close>

text \<open>What a socket does and is told, in order: the start of a connection (with the answer whether it goes through a SOCKS5
  proxy), the bytes of the dialogue with the proxy, the bytes of the application, and the calls of the virtual methods.\<close>

datatype socket_call =
    Opened bool
  | Proxy_send "byte list"
  | Proxy_reply "byte list"
  | Data_sent "byte list"
  | onReceivedData_call "byte list"
  | onConnected_call
  | onDisconnected_call int int

text \<open>The fields of the class; the queue, the shared network buffer and the pools are the \<open>Socket\<close> of the sending side.
  \<open>ks_writable\<close> says whether \<open>EPOLLOUT\<close> is in the event mask; \<open>ks_calls\<close> is the record since the last start.\<close>

record ConnectionSocket =
  ks_socket :: Socket
  ks_socketFd :: int
  ks_proxyAuthState :: byte
  ks_onConnectedSent :: bool
  ks_timeout :: int
  ks_lastEventTime :: int
  ks_isIpv6 :: bool
  ks_currentAddress :: string
  ks_currentPort :: "16 word"
  ks_overrideProxyAddress :: string
  ks_overrideProxyPort :: "16 word"
  ks_overrideProxyUser :: string
  ks_overrideProxyPassword :: string
  ks_overrideProxySecret :: string
  ks_buffer :: "byte list"
  ks_writable :: bool
  ks_calls :: "socket_call list"

text \<open>The proxy settings of the \<open>ConnectionsManager\<close>.\<close>

record proxy_settings =
  px_address :: string
  px_port :: "16 word"
  px_user :: string
  px_password :: string
  px_secret :: string

text \<open>The answers of the system calls while a connection is opened.\<close>

record open_env =
  op_proxy :: proxy_settings
  op_socket :: int
  op_pton :: "bool \<Rightarrow> string \<Rightarrow> byte list option"
  op_hostByName :: "string \<Rightarrow> string"
  op_gethostbyname :: "string \<Rightarrow> bool option"
  op_nonblock :: bool
  op_connect :: "bool \<Rightarrow> bool"
  op_add :: bool
  op_now :: int

subsection \<open>Closing and opening\<close>

definition record_call :: "socket_call \<Rightarrow> ConnectionSocket \<Rightarrow> ConnectionSocket" where
  "record_call c k = k\<lparr>ks_calls := ks_calls k @ [c]\<rparr>"

text \<open>\<open>Connection::onDisconnected\<close> does not touch the socket: it may start a timer.\<close>

definition closeSocket :: "int \<Rightarrow> int \<Rightarrow> int \<Rightarrow> ConnectionSocket \<Rightarrow> ConnectionSocket" where
  "closeSocket now reason error k =
     (let so = ks_socket k;
          (q, st) = ByteStream_clean (so_outgoingByteStream so, so_pool so)
      in record_call (onDisconnected_call reason error)
           (k\<lparr>ks_lastEventTime := now, ks_socketFd := (if ks_socketFd k \<ge> 0 then -1 else ks_socketFd k), ks_proxyAuthState := 0, ks_onConnectedSent := False,
              ks_socket := so\<lparr>so_outgoingByteStream := q, so_pool := st\<rparr>\<rparr>))"

text \<open>\<open>modify\<close>: whether \<open>epoll_ctl\<close> succeeds; on a closed socket it fails.\<close>

definition adjustWriteOp :: "bool \<Rightarrow> int \<Rightarrow> ConnectionSocket \<Rightarrow> ConnectionSocket" where
  "adjustWriteOp modify now k =
     (let st = ks_proxyAuthState k;
          k = k\<lparr>ks_writable := (st = 0 \<and> (ByteStream_hasData (so_outgoingByteStream (ks_socket k)) \<or> \<not> ks_onConnectedSent k) \<or>
                              st = 1 \<or> st = 3 \<or> st = 5)\<rparr>
      in if \<not> modify \<or> ks_socketFd k < 0 then closeSocket now 1 (-1) k else k)"

definition queue_buffer :: "bool \<Rightarrow> int \<Rightarrow> NativeByteBuffer \<Rightarrow> ConnectionSocket \<Rightarrow> ConnectionSocket" where
  "queue_buffer modify now b k = adjustWriteOp modify now (k\<lparr>ks_socket := append_buffer b (ks_socket k)\<rparr>)"

text \<open>The address of a proxy: whether it is an IPv6 address, or \<^const>\<open>None\<close> when it cannot be resolved.\<close>

definition proxy_family :: "open_env \<Rightarrow> bool \<Rightarrow> string \<Rightarrow> bool option" where
  "proxy_family oe ipv6 proxyAddress =
     (if op_pton oe False proxyAddress \<noteq> None then Some False
      else if op_pton oe True proxyAddress \<noteq> None then Some True
      else
        let host = op_hostByName oe proxyAddress
        in if host \<noteq> '''' \<and> op_pton oe False host \<noteq> None then Some ipv6
           else case op_gethostbyname oe proxyAddress of Some True \<Rightarrow> Some False | _ \<Rightarrow> None)"

text \<open>The last part of \<open>openConnection\<close>, with the address family of the destination.\<close>

definition start_connect :: "open_env \<Rightarrow> bool option \<Rightarrow> ConnectionSocket \<Rightarrow> ConnectionSocket" where
  "start_connect oe family k =
     (let close = closeSocket (op_now oe) 1 (-1) in
      case family of
        None \<Rightarrow> close k
      | Some ipv6 \<Rightarrow>
          if \<not> op_nonblock oe then close k
          else if \<not> op_connect oe ipv6 then close k
          else let k = k\<lparr>ks_writable := True\<rparr> in if \<not> op_add oe then close k else k)"

definition openConnection :: "open_env \<Rightarrow> string \<Rightarrow> 16 word \<Rightarrow> bool \<Rightarrow> ConnectionSocket \<Rightarrow> ConnectionSocket" where
  "openConnection oe address port ipv6 k =
     (let override = (ks_overrideProxyAddress k \<noteq> '''');
          proxyAddress = (if override then ks_overrideProxyAddress k else px_address (op_proxy oe));
          proxySecret = (if override then ks_overrideProxySecret k else px_secret (op_proxy oe));
          k = k\<lparr>ks_isIpv6 := ipv6, ks_currentAddress := address, ks_currentPort := port, ks_socketFd := op_socket oe,
                ks_calls := [Opened (proxyAddress \<noteq> '''' \<and> op_socket oe \<ge> 0 \<and> proxySecret = '''')]\<rparr>
      in if proxyAddress \<noteq> '''' then
           if op_socket oe < 0 then closeSocket (op_now oe) 1 (-1) k
           else start_connect oe (proxy_family oe ipv6 proxyAddress) (k\<lparr>ks_proxyAuthState := (if proxySecret = '''' then 1 else 0)\<rparr>)
         else
           let k = k\<lparr>ks_proxyAuthState := 0\<rparr>
           in if op_socket oe < 0 then closeSocket (op_now oe) 1 (-1) k
              else start_connect oe (if op_pton oe ipv6 address \<noteq> None then Some ipv6 else None) k)"


definition dropConnection :: "int \<Rightarrow> ConnectionSocket \<Rightarrow> ConnectionSocket" where
  "dropConnection now k = closeSocket now 0 0 k"



subsection \<open>Events\<close>

text \<open>What the connection does with its socket while it is told of data or of the established connection; \<open>bool\<close> and \<open>int\<close>
  are the answer of \<open>epoll_ctl\<close> and the time.\<close>

datatype socket_op =
    Write bool int NativeByteBuffer
  | Drop int
  | Open open_env string "16 word" bool

fun apply_op :: "socket_op \<Rightarrow> ConnectionSocket \<Rightarrow> ConnectionSocket" where
  "apply_op (Write modify now b) k = queue_buffer modify now b k"
| "apply_op (Drop now) k = dropConnection now k"
| "apply_op (Open oe address port ipv6) k = openConnection oe address port ipv6 k"

text \<open>The answers of the system calls during one event.  \<open>ev_recv\<close>: what the calls of \<open>recv\<close> deliver; a call after the last
  one, and one on a closed socket, fails.  \<open>ev_junk\<close> is the uninitialised variable \<open>error\<close>.\<close>

record event_env =
  ev_proxy :: proxy_settings
  ev_error_in :: int
  ev_error_out :: int
  ev_junk :: int
  ev_recv :: "byte list option list"
  ev_send :: "byte list \<Rightarrow> int"
  ev_modify :: bool
  ev_now :: int
  ev_pton :: "bool \<Rightarrow> string \<Rightarrow> byte list option"
  ev_reaction :: "socket_call \<Rightarrow> socket_op list"

definition tell :: "event_env \<Rightarrow> socket_call \<Rightarrow> ConnectionSocket \<Rightarrow> ConnectionSocket" where
  "tell env c k = fold apply_op (ev_reaction env c) (record_call c k)"

abbreviation close_event :: "event_env \<Rightarrow> ConnectionSocket \<Rightarrow> ConnectionSocket" where
  "close_event env \<equiv> closeSocket (ev_now env) 1 (-1)"

abbreviation adjust_event :: "event_env \<Rightarrow> ConnectionSocket \<Rightarrow> ConnectionSocket" where
  "adjust_event env \<equiv> adjustWriteOp (ev_modify env) (ev_now env)"

text \<open>The answers of the proxy, by \<open>proxyAuthState\<close>; in state 0 the data is for the connection, in states 1, 3 and 5 it is dropped.\<close>

definition received :: "event_env \<Rightarrow> byte list \<Rightarrow> ConnectionSocket \<Rightarrow> ConnectionSocket" where
  "received env xs k =
     (let st = ks_proxyAuthState k; k' = record_call (Proxy_reply xs) k in
      if st = 2 then
        if length xs = 2 then
          adjust_event env
            (if xs ! 1 = 0xff then close_event env k'
             else if xs ! 1 = 0x02 then k'\<lparr>ks_proxyAuthState := 3\<rparr>
             else if xs ! 1 = 0x00 then k'\<lparr>ks_proxyAuthState := 5\<rparr>
             else k')
        else close_event env k'
      else if st = 4 then
        if length xs = 2 then
          adjust_event env (if xs ! 1 \<noteq> 0x00 then close_event env k' else k'\<lparr>ks_proxyAuthState := 5\<rparr>)
        else close_event env k'
      else if st = 6 then
        if length xs > 2 then
          if xs ! 1 = 0x00 then adjust_event env (k'\<lparr>ks_proxyAuthState := 0\<rparr>) else close_event env k'
        else close_event env k'
      else if st = 0 then tell env (onReceivedData_call xs) k
      else k')"

definition READ_BUFFER_SIZE :: nat where "READ_BUFFER_SIZE = 1024 * 128"

definition store_received :: "byte list \<Rightarrow> ConnectionSocket \<Rightarrow> ConnectionSocket" where
  "store_received xs k =
     (let so = ks_socket k; b = rewind (so_networkBuffer so);
          b = (if xs = [] then b else limit_set (word_of_nat (length xs)) (b\<lparr>nb_buffer := xs @ drop (length xs) (nb_buffer b)\<rparr>))
      in k\<lparr>ks_socket := so\<lparr>so_networkBuffer := b\<rparr>\<rparr>)"

text \<open>The loop of the reading branch; \<open>Inl\<close> returns from \<open>onEvent\<close>.\<close>

fun recv_all :: "event_env \<Rightarrow> byte list option list \<Rightarrow> ConnectionSocket \<Rightarrow> ConnectionSocket + ConnectionSocket" where
  "recv_all env [] k = Inl (close_event env k)"
| "recv_all env (r # rs) k = (case (if ks_socketFd k < 0 then None else r) of
     None \<Rightarrow> Inl (close_event env k)
   | Some xs \<Rightarrow>
       let k = store_received xs k;
           k = (if xs \<noteq> [] then received env xs (k\<lparr>ks_lastEventTime := ev_now env\<rparr>) else k)
       in if length xs \<noteq> READ_BUFFER_SIZE then Inr k else recv_all env rs k)"

text \<open>\<open>checkSocketError\<close>: the error, or \<^const>\<open>None\<close> when there is none.\<close>

definition checkSocketError :: "event_env \<Rightarrow> int \<Rightarrow> ConnectionSocket \<Rightarrow> int option" where
  "checkSocketError env code k = (if ks_socketFd k < 0 then Some (ev_junk env) else if code \<noteq> 0 then Some code else None)"

text \<open>Bytes put into the array \<open>buffer\<close>, and the first \<open>n\<close> of them sent.  A short count is taken for success; \<open>Proxy_send\<close> records what was taken.\<close>

definition put_bytes :: "nat \<Rightarrow> byte list \<Rightarrow> ConnectionSocket \<Rightarrow> ConnectionSocket option" where
  "put_bytes i xs k = do {
     m \<leftarrow> mem_copy (ks_buffer k) (int i) xs 0 (int (length xs));
     Some (k\<lparr>ks_buffer := m\<rparr>)
   }"

definition send_bytes :: "event_env \<Rightarrow> nat \<Rightarrow> ConnectionSocket \<Rightarrow> (ConnectionSocket + ConnectionSocket) option" where
  "send_bytes env n k = do {
     xs \<leftarrow> slice (ks_buffer k) 0 (int n);
     let sent = (if ks_socketFd k < 0 then -1 else ev_send env xs);
     Some (if sent < 0 then Inl (close_event env k) else Inr (adjust_event env (record_call (Proxy_send (take (nat sent) xs)) k)))
   }"

definition string_bytes :: "string \<Rightarrow> byte list" where
  "string_bytes s = map of_char s"

text \<open>The requests to the proxy; the first \<open>len1\<close> and \<open>len2\<close> bytes of the name and the password are copied.\<close>

definition proxy_request :: "event_env \<Rightarrow> ConnectionSocket \<Rightarrow> (ConnectionSocket + ConnectionSocket) option" where
  "proxy_request env k =
     (let st = ks_proxyAuthState k in
      if st = 1 then do {
        k \<leftarrow> put_bytes 0 [0x05, 0x02, 0x00, 0x02] (k\<lparr>ks_lastEventTime := ev_now env, ks_proxyAuthState := 2\<rparr>);
        send_bytes env 4 k
      }
      else if st = 3 then do {
        let override = (ks_overrideProxyAddress k \<noteq> '''');
        let proxyUser = string_bytes (if override then ks_overrideProxyUser k else px_user (ev_proxy env));
        let proxyPassword = string_bytes (if override then ks_overrideProxyPassword k else px_password (ev_proxy env));
        let len1 = (word_of_nat (length proxyUser) :: byte);
        let len2 = (word_of_nat (length proxyPassword) :: byte);
        k \<leftarrow> put_bytes 0 [0x01, len1] k;
        k \<leftarrow> put_bytes 2 (take (unat len1) proxyUser) k;
        k \<leftarrow> put_bytes (2 + unat len1) [len2] k;
        k \<leftarrow> put_bytes (3 + unat len1) (take (unat len2) proxyPassword) k;
        send_bytes env (3 + unat len1 + unat len2) (k\<lparr>ks_proxyAuthState := 4\<rparr>)
      }
      else if st = 5 then do {
        let n = (if ks_isIpv6 k then 16 else 4);
        k \<leftarrow> put_bytes 0 [0x05, 0x01, 0x00, if ks_isIpv6 k then 0x04 else 0x01] k;
        k \<leftarrow> (case ev_pton env (ks_isIpv6 k) (ks_currentAddress k) of Some a \<Rightarrow> put_bytes 4 a k | None \<Rightarrow> Some k);
        k \<leftarrow> put_bytes (4 + n) [ucast (drop_bit 8 (ks_currentPort k)), ucast (ks_currentPort k)] k;
        send_bytes env (4 + n + 2) (k\<lparr>ks_proxyAuthState := 6\<rparr>)
      }
      else Some (Inr k))"

text \<open>Sending what is queued.\<close>

definition send_queued :: "event_env \<Rightarrow> ConnectionSocket \<Rightarrow> (ConnectionSocket + ConnectionSocket) option" where
  "send_queued env k = do {
     let k = (if \<not> ks_onConnectedSent k then
                (tell env onConnected_call (k\<lparr>ks_lastEventTime := ev_now env\<rparr>))\<lparr>ks_onConnectedSent := True\<rparr>
              else k);
     let so = ks_socket k;
     r \<leftarrow> ByteStream_get (Some (clear (so_networkBuffer so))) (so_outgoingByteStream so);
     b \<leftarrow> r;
     let b = flip b;
     let n = remaining b;
     let so = so\<lparr>so_networkBuffer := b\<rparr>;
     let k = k\<lparr>ks_socket := so\<rparr>;
     if n \<noteq> 0 then do {
       offered \<leftarrow> slice (nb_buffer b) 0 (uint n);
       let sentLength = (if ks_socketFd k < 0 then -1 else ev_send env offered);
       if sentLength < 0 then Some (Inl (close_event env k))
       else do {
         (q, st) \<leftarrow> ByteStream_discard (word_of_int sentLength) (so_outgoingByteStream so, so_pool so);
         Some (Inr (adjust_event env (record_call (Data_sent (take (nat sentLength) offered)) (k\<lparr>ks_socket := so\<lparr>so_outgoingByteStream := q, so_pool := st\<rparr>\<rparr>))))
       }
     }
     else Some (Inr k)
   }"

definition EPOLLIN :: u32 where "EPOLLIN = 0x1"
definition EPOLLOUT :: u32 where "EPOLLOUT = 0x4"
definition EPOLLHUP :: u32 where "EPOLLHUP = 0x10"
definition EPOLLRDHUP :: u32 where "EPOLLRDHUP = 0x2000"

definition event_in :: "event_env \<Rightarrow> u32 \<Rightarrow> ConnectionSocket \<Rightarrow> ConnectionSocket + ConnectionSocket" where
  "event_in env events k =
     (if events AND EPOLLIN \<noteq> 0 then
        case checkSocketError env (ev_error_in env) k of
          Some error \<Rightarrow> Inl (closeSocket (ev_now env) 1 error k)
        | None \<Rightarrow> recv_all env (ev_recv env) k
      else Inr k)"

definition event_out :: "event_env \<Rightarrow> u32 \<Rightarrow> ConnectionSocket \<Rightarrow> (ConnectionSocket + ConnectionSocket) option" where
  "event_out env events k =
     (if events AND EPOLLOUT \<noteq> 0 then
        case checkSocketError env (ev_error_out env) k of
          Some error \<Rightarrow> Some (Inl (closeSocket (ev_now env) 1 error k))
        | None \<Rightarrow> if ks_proxyAuthState k \<noteq> 0 then proxy_request env k else send_queued env k
      else Some (Inr k))"

definition onEvent :: "event_env \<Rightarrow> u32 \<Rightarrow> ConnectionSocket \<Rightarrow> ConnectionSocket option" where
  "onEvent env events k = (case event_in env events k of
     Inl k \<Rightarrow> Some k
   | Inr k \<Rightarrow> do {
       r \<leftarrow> event_out env events k;
       Some (case r of
          Inl k \<Rightarrow> k
        | Inr k \<Rightarrow> if events AND EPOLLHUP \<noteq> 0 \<or> events AND EPOLLRDHUP \<noteq> 0 then close_event env k else k)
     })"

subsection \<open>The dialogue with a SOCKS5 proxy\<close>


























subsection \<open>The socket carries it out\<close>


text \<open>The request names the address and the port the connection is for.\<close>

definition request_ok :: "(bool \<Rightarrow> string \<Rightarrow> byte list option) \<Rightarrow> ConnectionSocket \<Rightarrow> byte list \<Rightarrow> bool" where
  "request_ok pton k xs \<longleftrightarrow>
     (let n = (if ks_isIpv6 k then 16 else 4)
      in length xs = 4 + n + 2 \<and> take 4 xs = [0x05, 0x01, 0x00, if ks_isIpv6 k then 0x04 else 0x01] \<and>
         drop (4 + n) xs = [ucast (drop_bit 8 (ks_currentPort k)), ucast (ks_currentPort k)] \<and>
         (\<forall>a. pton (ks_isIpv6 k) (ks_currentAddress k) = Some a \<longrightarrow> take n (drop 4 xs) = a))"




text \<open>What does not change: how addresses are read, and the names and passwords that are ever configured.\<close>

record surroundings =
  su_pton :: "bool \<Rightarrow> string \<Rightarrow> byte list option"
  su_credentials :: "(byte list \<times> byte list) set"


definition memory_ok :: "surroundings \<Rightarrow> ConnectionSocket \<Rightarrow> bool" where
  "memory_ok w k \<longleftrightarrow>
     (ks_overrideProxyAddress k \<noteq> '''' \<longrightarrow> (string_bytes (ks_overrideProxyUser k), string_bytes (ks_overrideProxyPassword k)) \<in> su_credentials w) \<and> socket_ok (ks_socket k) \<and> nb_capacity (so_networkBuffer (ks_socket k)) = word_of_nat READ_BUFFER_SIZE \<and> length (ks_buffer k) = 1024"


lemma request_ok_cong:
  "ks_isIpv6 k' = ks_isIpv6 k \<Longrightarrow> ks_currentAddress k' = ks_currentAddress k \<Longrightarrow> ks_currentPort k' = ks_currentPort k \<Longrightarrow>
   request_ok pton k' = request_ok pton k"
  by (intro ext) (simp add: request_ok_def)



lemma request_ok_calls [simp]: "request_ok (su_pton w) (k\<lparr>ks_calls := cs\<rparr>) = request_ok (su_pton w) k"
  by (rule request_ok_cong) simp_all

















lemma memory_ok_record [simp]: "memory_ok w (record_call c k) = memory_ok w k"
  by (simp add: memory_ok_def record_call_def)












text \<open>What \<open>onConnected\<close> may do leaves the socket in state 0.\<close>

lemma closeSocket_state [simp]: "ks_proxyAuthState (closeSocket now reason error k) = 0"
  by (simp add: closeSocket_def record_call_def Let_def case_prod_beta)








definition demo_pton :: "bool \<Rightarrow> string \<Rightarrow> byte list option" where
  "demo_pton v6 s = (if v6 then None else if s = ''10.0.0.1'' then Some [10, 0, 0, 1] else if s = ''1.2.3.4'' then Some [1, 2, 3, 4] else None)"

definition demo_proxy :: proxy_settings where
  "demo_proxy = \<lparr>px_address = ''10.0.0.1'', px_port = 1080, px_user = ''me'', px_password = ''pw'', px_secret = ''''\<rparr>"


definition demo_open :: open_env where
  "demo_open = \<lparr>op_proxy = demo_proxy, op_socket = 7, op_pton = demo_pton, op_hostByName = id, op_gethostbyname = (\<lambda>_. None),
     op_nonblock = True, op_connect = (\<lambda>_. True), op_add = True, op_now = 0\<rparr>"

definition demo_event :: event_env where
  "demo_event = \<lparr>ev_proxy = demo_proxy, ev_error_in = 0, ev_error_out = 0, ev_junk = 0, ev_recv = [], ev_send = (\<lambda>xs. int (length xs)),
     ev_modify = True, ev_now = 0, ev_pton = demo_pton, ev_reaction = (\<lambda>_. [])\<rparr>"

definition demo_new :: ConnectionSocket where
  "demo_new = \<lparr>ks_socket = \<lparr>so_networkBuffer = NativeByteBuffer_alloc ample 131072, so_outgoingByteStream = [], so_pool = BuffersStorage_new ample, so_closed = False\<rparr>,
     ks_socketFd = -1, ks_proxyAuthState = 0, ks_onConnectedSent = False, ks_timeout = 200, ks_lastEventTime = 0, ks_isIpv6 = False,
     ks_currentAddress = '''', ks_currentPort = 0, ks_overrideProxyAddress = '''', ks_overrideProxyPort = 1080, ks_overrideProxyUser = '''',
     ks_overrideProxyPassword = '''', ks_overrideProxySecret = '''', ks_buffer = replicate 1024 0, ks_writable = False, ks_calls = []\<rparr>"

definition demo_opened :: ConnectionSocket where
  "demo_opened = openConnection demo_open ''1.2.3.4'' 443 False demo_new"

lemma demo_opened_eq: "demo_opened = demo_new\<lparr>ks_currentAddress := ''1.2.3.4'', ks_currentPort := 443, ks_socketFd := 7, ks_proxyAuthState := 1,
    ks_writable := True, ks_calls := [Opened True]\<rparr>"
  by (simp add: demo_opened_def openConnection_def start_connect_def proxy_family_def demo_open_def demo_proxy_def demo_pton_def demo_new_def)



text \<open>C24. A refusal is reported twice.  When the proxy answers the greeting with \<open>0xff\<close>, no acceptable method, the socket is closed
  and then \<open>adjustWriteOp\<close> is called all the same: it fails on the closed socket and closes it again, so that the connection is
  told of one disconnection two times.\<close>

theorem refusal_reported_twice:
  assumes "ks_socketFd k \<ge> 0" and "ks_proxyAuthState k = 2" and "ev_error_in env = 0" and "ev_recv env = [Some [v, 0xff]]"
  shows "\<exists>k'. onEvent env EPOLLIN k = Some k' \<and>
    ks_calls k' = ks_calls k @ [Proxy_reply [v, 0xff], onDisconnected_call 1 (-1), onDisconnected_call 1 (-1)]"
proof -
  have c: "ks_calls (closeSocket now r e k) = ks_calls k @ [onDisconnected_call r e]" "ks_socketFd (closeSocket now r e k) < 0"
    "ks_writable (closeSocket now r e k) = ks_writable k" for now r e k
    by (simp_all add: closeSocket_def record_call_def Let_def case_prod_beta)
  let ?k = "(store_received [v, 0xff] k)\<lparr>ks_lastEventTime := ev_now env\<rparr>"
  have k: "ks_proxyAuthState ?k = 2" "ks_calls ?k = ks_calls k" using assms(2) by (simp_all add: store_received_def Let_def)
  have "event_in env EPOLLIN k = Inr (received env [v, 0xff] ?k)"
    using assms by (simp add: event_in_def EPOLLIN_def checkSocketError_def READ_BUFFER_SIZE_def Let_def)
  moreover have "ks_calls (received env [v, 0xff] ?k) = ks_calls k @ [Proxy_reply [v, 0xff], onDisconnected_call 1 (-1), onDisconnected_call 1 (-1)]"
    using k c(2) [of "ev_now env" 1 "-1"] by (simp add: received_def Let_def adjustWriteOp_def c record_call_def)
  ultimately show ?thesis by (simp add: onEvent_def event_out_def EPOLLIN_def EPOLLOUT_def EPOLLHUP_def EPOLLRDHUP_def)
qed

theorem refusal_reported_twice_witness:
  "\<exists>k'. onEvent (demo_event\<lparr>ev_recv := [Some [5, 0xff]]\<rparr>) EPOLLIN (demo_opened\<lparr>ks_proxyAuthState := 2\<rparr>) = Some k' \<and>
     ks_calls k' = [Opened True, Proxy_reply [5, 0xff], onDisconnected_call 1 (-1), onDisconnected_call 1 (-1)]"
  using refusal_reported_twice [of "demo_opened\<lparr>ks_proxyAuthState := 2\<rparr>" "demo_event\<lparr>ev_recv := [Some [5, 0xff]]\<rparr>" 5]
  by (simp add: demo_opened_eq demo_new_def demo_event_def)

end
