(* ===== verification/Spec2Isabelle.thy ===== *)
theory Spec2Isabelle
  imports Ogg_Bitpack Ogg_Sync Blur_Correct Byte_Stream Packet_Handling Connection_Reassembly Connection_Send Socket_Events
begin

text \<open>
  \<^bold>\<open>The native code of the Android client\<close> (\<open>src/client/android/jni\<close>): its implementation of MTProto, the network library
  \<open>tgnet\<close>, and beside it the two self-contained media parts, Ogg framing (\<open>opus/ogg\<close>) and the blurring of bitmaps (\<open>image.c\<close>).

  \<^bold>\<open>The parts and how they interact.\<close>  A request is a TL object (\<open>ApiScheme\<close>, \<open>MTProtoScheme\<close>).  It is sized and written into a
  \<open>NativeByteBuffer\<close> from the pools of \<open>BuffersStorage\<close>; \<open>Datacenter::createRequestsData\<close> puts the server salt, the session,
  the message id and sequence number of \<open>ConnectionSession\<close> before it, pads it and encrypts it under the authorization key;
  \<open>Connection::sendData\<close> frames it for the transport and encrypts it once more with the stream cipher of the connection;
  \<open>ConnectionSocket\<close> appends it to its \<open>ByteStream\<close> and sends it when the socket is writable, after the dialogue with a SOCKS5
  proxy if there is one.  In the other direction \<open>ConnectionSocket::onEvent\<close> hands the received bytes to
  \<open>Connection::onReceivedData\<close>, which decrypts them, joins what the network has cut and delivers packets to
  \<open>ConnectionsManager::onConnectionDataReceived\<close>; this decrypts and checks the message (\<open>Datacenter::decryptServerResponse\<close>),
  compares it with the session, parses it (\<open>ConnectionsManager::TLdeserialize\<close>), and gives it to \<open>processServerResponse\<close>.

  \<^bold>\<open>Theories.\<close>  File names are relative to \<open>src/client/android/jni\<close>.

  \<^item> \<open>Prelude\<close>: machine integers, memory, allocation, and the collections of rules the components share.
  \<^item> \<open>Byte_Buffer\<close>, \<open>Byte_Reader\<close>: \<open>tgnet/NativeByteBuffer.cpp\<close>, \<open>tgnet/ByteArray.h\<close>.  The class is the record \<open>NativeByteBuffer\<close>; each
    method is the definition of its name (overloads are told apart by a suffix; a suffix \<open>E\<close> marks an error pointer).
    Writers satisfy the contract \<open>emits\<close>, readers \<open>parses\<close> and \<open>gets\<close>.
  \<^item> \<open>Buffers_Storage\<close>: \<open>tgnet/BuffersStorage.cpp\<close>.  \<open>Byte_Stream\<close>: \<open>tgnet/ByteStream.cpp\<close> and the sending branch of the socket.
  \<^item> \<open>TL_Codec\<close>, \<open>Api_Scheme\<close>, \<open>MTProto_Scheme\<close>, \<open>TL_Objects\<close>: \<open>tgnet/TLObject.cpp\<close>, \<open>tgnet/ApiScheme.cpp\<close>,
    \<open>tgnet/MTProtoScheme.cpp\<close>, \<open>ConnectionsManager::TLdeserialize\<close>.  A class \<open>C\<close> is a record or datatype of that name with
    \<open>C_constructor\<close>, \<open>C_readParams\<close>, \<open>C_serializeToStream\<close>, \<open>C_TLdeserialize\<close>.  \<open>Scheme_Codec\<close>, \<open>Object_Codec\<close>, \<open>Object_Reader\<close> hold
    what is proved of them against encodings written down independently of the code.
  \<^item> \<open>Connection_Session\<close>: \<open>tgnet/ConnectionSession.cpp\<close>, \<open>ConnectionsManager::generateMessageId\<close> and what
    \<open>processServerResponse\<close> does to the last message id.
  \<^item> \<open>Cipher_Modes\<close>: the counter mode and IGE of \<open>boringssl\<close>.
  \<^item> \<open>Datacenter_Messages\<close>: salts, message keys, encryption and decryption of messages in \<open>tgnet/Datacenter.cpp\<close>.
  \<^item> \<open>Connection_Receive\<close> (definitions), \<open>Connection_Frames\<close>, \<open>Connection_Reassembly\<close>: \<open>Connection::onReceivedData\<close>.
    \<open>Connection_Send\<close>: \<open>Connection::sendData\<close>.  Both of \<open>tgnet/Connection.cpp\<close>.
  \<^item> \<open>Socket_Events\<close>: \<open>tgnet/ConnectionSocket.cpp\<close>.
  \<^item> \<open>Packet_Handling\<close>: \<open>ConnectionsManager::onConnectionDataReceived\<close> of \<open>tgnet/ConnectionsManager.cpp\<close>.
  \<^item> \<open>Ogg_Bitpack\<close>: \<open>opus/ogg/bitwise.c\<close>.  \<open>Ogg_Page\<close>, \<open>Ogg_Stream\<close>, \<open>Ogg_Stream_Queue\<close>, \<open>Ogg_Stream_Roundtrip\<close>,
    \<open>Ogg_Sync\<close>: \<open>opus/ogg/framing.c\<close>.
  \<^item> \<open>Image_Blur\<close> (definitions), \<open>Blur_Filter\<close>, \<open>Blur_Correct\<close>: the blur of \<open>image.c\<close>.

  \<^bold>\<open>Conventions.\<close>  An operation is a function from the state before to the state after, with the results and the calls into other
  components beside it; calls whose callee is outside the model are recorded in order.  The result \<^const>\<open>None\<close> is
  undefined behaviour (an access outside an object, a signed overflow) or, for a \<open>partial_function\<close>, a loop that does not end; so a
  theorem that says \<^const>\<open>Some\<close> includes memory safety and termination.  An \<open>int32_t\<close>, \<open>uint32_t\<close> or \<open>int64_t\<close> is the word of its
  bits and wraps as in the code; comparisons are signed or unsigned as the declared types make them.

  \<^bold>\<open>Interfaces.\<close>  \<open>buffer_supply\<close> (pools), \<open>byte_queue\<close> (outgoing queue), \<open>tl_reader\<close> and \<open>tl_codec\<close> (scheme classes),
  \<open>stream_cipher\<close> (what a connection relies on in its cipher when receiving), \<open>obfuscation\<close> (when sending), \<open>bit_packer\<close> and
  \<open>block_packer\<close> (the two bit orders), \<open>pixel_format\<close> (the two pixel formats) are locales; each is interpreted on the model's own
  definitions in the theory that provides them.

  \<^bold>\<open>What is proved.\<close>

  \<^item> Sending.  The size computed for an object is the number of bytes written, for all nested objects; the encrypted message decrypts to
    salt, session, id, number, length and body; a server that follows the protocol reads from a connection its tag and then exactly
    the packets handed to \<open>sendData\<close>; bytes leave the socket in order and once, whatever \<open>send\<close> accepts and until a system call
    fails, and the queue empties.  The stream cipher XORs with the encrypted counters from any state, and undoes itself.
  \<^item> Receiving.  However the network cuts the stream, the calls of \<open>onReceivedData\<close> deliver exactly its packets; an authentic message
    reaches \<open>processServerResponse\<close> with its fields, and nothing else does on an encrypted connection; replays are rejected; nested
    objects are recovered from the wire, and answers are read safely from any bytes at all.
  \<^item> Proxy.  Through any sequence of operations and events, what passes through a proxied socket is a run of RFC 1928 and 1929 (the
    relation \<open>socks5\<close>), unless the proxy answered what these do not allow, \<open>send\<close> took only a part of a message, or a configured
    name or password does not fit the protocol (\<open>breached\<close>); and the application's bytes never pass before the proxy has answered
    that the connection is established, breach or not.
  \<^item> State.  Invariants of buffers, pools, sessions and sockets over all sequences of operations; message ids are aligned, not
    below the clock, and increase strictly up to and between the reports of a wrong message or salt, which reset them.
  \<^item> Flaws that the models make visible are theorems as well: a parser that calls itself without end, a connection that delivers
    nothing after a quick acknowledgement was cut in two, an unencrypted packet treated like an authentic one, data lost by an
    overload of \<open>writeBuffer\<close>, a disconnection reported twice, message ids that start again after a report, \<open>oggpack_writecopy\<close> that never grows its buffer, \<open>fastBlurMore\<close> that
    changes the colour of a flat picture and leaves its work array allocated.
  \<^item> Media.  Fields and packets survive a round trip through the bit packer and through pages in a byte stream cut anywhere; the
    checksum table is polynomial division and detects bursts; the blur is the triangular filter.

  \<^bold>\<open>Bounds and fuel.\<close>  \<open>TLdeserialize\<close> takes the number of nested calls it may make; for every encoding of an object the depth of
  that object is shown to be enough, and one packet is shown for which no number is.  The loops of \<open>onReceivedData\<close> and of drawing the
  start of a connection are \<open>partial_function\<close>s, whose returning is part of the theorems; the second returns if one of the draws is
  acceptable, which is a hypothesis on \<open>RAND_bytes\<close>.  The loop over \<open>recv\<close> recurses over the list of answers, which ends where the code
  leaves the loop.  The limits in the hypotheses are those of the formats: \<open>2^24\<close> bytes for a TL string, \<open>2^31\<close> for vectors,
  buffer sizes and what is written into a buffer at once (beyond it the 32-bit tests wrap, lemma \<open>writeBytes_wraps\<close>), the packet sizes of the two transports, 255 segments of a page.

  \<^bold>\<open>Parameters.\<close>  Answers of system calls, the clocks, \<open>RAND_bytes\<close>, SHA-1, SHA-256 and the AES block function (of which only
  that decryption inverts encryption is assumed), the allocator, the handlers the code calls in the Java application, and the effect of
  handlers of components outside the model on the caller's state.

  \<^bold>\<open>Not modelled.\<close>  Mutexes and threads (a call is one step).  \<open>Handshake\<close>: between two messages it is calls into the number theory of
  \<open>boringssl\<close>.  The rest of \<open>ConnectionsManager\<close> (the queues of requests, their scheduling and retries, the configuration file) and
  \<open>Request\<close>; in \<open>Datacenter\<close> and \<open>Connection\<close> the choice of addresses and reconnecting; \<open>FileLoadOperation\<close>.  \<open>Config\<close>, \<open>Timer\<close>,
  \<open>EventObject\<close>, \<open>FileLog\<close> wrap files, \<open>timerfd\<close> and \<open>epoll\<close>.  JNI bindings only pass arguments on.  \<open>sqlite\<close>, \<open>ffmpeg\<close>, \<open>libyuv\<close>,
  \<open>libwebp\<close>, \<open>opus\<close>, the rest of \<open>boringssl\<close> and the emoji tables are third-party or generated.
\<close>

end
